(* ===== verification/Prelude.thy ===== *)
theory Prelude
  imports Main "HOL-Library.Word"
begin

text \<open>
  Shared vocabulary of the development: unsigned 64-bit arithmetic written out on
  \<^typ>\<open>nat\<close> (\<open>size_t\<close>, \<open>uint64_t\<close>), the byte memory that \<open>memcpy\<close> reads and
  writes, and the generic list lemmas the component theories use.  The collection
  \<open>u64_simps\<close> removes the wrap-around where no overflow happens; \<open>mem_simps\<close>
  evaluates reads and writes of memory.
\<close>

named_theorems u64_simps "removal of the 64-bit wrap-around where nothing overflows"

named_theorems mem_simps "reads and writes of byte memory"

section \<open>Unsigned 64-bit arithmetic\<close>

type_synonym u64 = nat

type_synonym byte = "8 word"

definition u64_add :: "u64 \<Rightarrow> u64 \<Rightarrow> u64" where
  "u64_add a b = (a + b) mod 2 ^ 64"

definition u64_sub :: "u64 \<Rightarrow> u64 \<Rightarrow> u64" where
  "u64_sub a b = (a + (2 ^ 64 - b mod 2 ^ 64)) mod 2 ^ 64"

lemma u64_add_no_wrap [u64_simps]: "a + b < 2 ^ 64 \<Longrightarrow> u64_add a b = a + b"
  by (simp add: u64_add_def)

lemma u64_sub_no_wrap [u64_simps]: "b \<le> a \<Longrightarrow> a < 2 ^ 64 \<Longrightarrow> u64_sub a b = a - b"
proof -
  assume "b \<le> a" "a < 2 ^ 64"
  then have "a + (2 ^ 64 - b mod 2 ^ 64) = (a - b) + 2 ^ 64" by simp
  with \<open>a < 2 ^ 64\<close> show ?thesis by (simp add: u64_sub_def)
qed

lemma u64_add_overflow: "a < 2 ^ 64 \<Longrightarrow> b < 2 ^ 64 \<Longrightarrow> u64_add a b < a \<longleftrightarrow> 2 ^ 64 \<le> a + b"
  by (cases "a + b < 2 ^ 64") (auto simp: u64_add_def mod_if)

lemma u64_add_bound: "u64_add a b < 2 ^ 64"
  by (simp add: u64_add_def)

lemma u64_sub_bound: "u64_sub a b < 2 ^ 64"
  by (simp add: u64_sub_def)

section \<open>Fatal checks\<close>

text \<open>
  \<open>CHECK\<close> and \<open>DCHECK\<close> (the build does not define \<open>NDEBUG\<close>): a failed check
  ends the operation without a result.
\<close>

definition fatal_unless :: "bool \<Rightarrow> unit option" where
  "fatal_unless b = (if b then Some () else None)"

lemma fatal_unless_bind [simp]: "Option.bind (fatal_unless b) f = (if b then f () else None)"
  by (simp add: fatal_unless_def)

section \<open>Byte memory\<close>

text \<open>
  A block of memory is a function from offsets to bytes.  \<open>mem_write\<close> is
  \<open>memcpy\<close> into it, \<open>mem_read\<close> is \<open>memcpy\<close> out of it.
\<close>

type_synonym mem = "nat \<Rightarrow> byte"

definition mem_write :: "mem \<Rightarrow> nat \<Rightarrow> byte list \<Rightarrow> mem" where
  "mem_write m off bs = (\<lambda>i. if off \<le> i \<and> i < off + length bs then bs ! (i - off) else m i)"

definition mem_read :: "mem \<Rightarrow> nat \<Rightarrow> nat \<Rightarrow> byte list" where
  "mem_read m off n = map m [off..<off + n]"

lemma mem_write_in [mem_simps]:
  "off \<le> i \<Longrightarrow> i < off + length bs \<Longrightarrow> mem_write m off bs i = bs ! (i - off)"
  by (simp add: mem_write_def)

lemma mem_write_out [mem_simps]:
  "i < off \<or> off + length bs \<le> i \<Longrightarrow> mem_write m off bs i = m i"
  by (auto simp: mem_write_def)

lemma length_mem_read [simp]: "length (mem_read m off n) = n"
  by (simp add: mem_read_def)

lemma nth_mem_read [simp]: "i < n \<Longrightarrow> mem_read m off n ! i = m (off + i)"
  by (simp add: mem_read_def)

lemma mem_read_write: "mem_read (mem_write m off bs) off (length bs) = bs"
  by (rule nth_equalityI) (simp_all add: mem_simps)

end
