(* ===== verification/Quic_Interval.thy ===== *)
theory Quic_Interval
  imports Prelude
begin

text \<open>
  \<open>QuicInterval<T>\<close> of \<open>sequencer/quic_interval.h\<close>: half-open intervals
  \<open>[min, max)\<close> over a linearly ordered type, with the comparator
  \<open>QuicIntervalSet::IntervalLess\<close> (ascending \<open>min\<close>, then descending \<open>max\<close>) as
  the order of the type.  The lemmas state every operation against the set of points
  \<open>ivl_pts\<close> that an interval contains.
\<close>

named_theorems ivl_defs "definitions of the interval operations"

datatype 'a interval = Interval (imin: 'a) (imax: 'a)

definition ivl_pts :: "'a::linorder interval \<Rightarrow> 'a set" where
  "ivl_pts i = {imin i..<imax i}"

section \<open>The comparator as the order of the type\<close>

text \<open>\<open>IntervalLess::operator()\<close> and \<open>operator<\<close>: first \<open>min\<close>, then the wider interval.\<close>

definition interval_less :: "'a::linorder interval \<Rightarrow> 'a interval \<Rightarrow> bool" where
  "interval_less a b \<longleftrightarrow> imin a < imin b \<or> (imin a = imin b \<and> imax b < imax a)"

definition interval_operator_less :: "'a::linorder interval \<Rightarrow> 'a interval \<Rightarrow> bool" where
  "interval_operator_less a b \<longleftrightarrow>
     imin a < imin b \<or> (\<not> imin b < imin a \<and> imax b < imax a)"

instantiation interval :: (linorder) linorder
begin

definition less_interval :: "'a interval \<Rightarrow> 'a interval \<Rightarrow> bool" where
  "less_interval a b = interval_less a b"

definition less_eq_interval :: "'a interval \<Rightarrow> 'a interval \<Rightarrow> bool" where
  "less_eq_interval a b \<longleftrightarrow> interval_less a b \<or> a = b"

instance
proof
  fix a b c :: "'a interval"
  show "a < b \<longleftrightarrow> a \<le> b \<and> \<not> b \<le> a"
    by (auto simp: less_interval_def less_eq_interval_def interval_less_def)
  show "a \<le> b \<or> b \<le> a"
    by (cases a; cases b) (auto simp: less_eq_interval_def interval_less_def)
  show "a \<le> b \<Longrightarrow> b \<le> c \<Longrightarrow> a \<le> c" "a \<le> b \<Longrightarrow> b \<le> a \<Longrightarrow> a = b" "a \<le> a"
    by (auto simp: less_eq_interval_def interval_less_def)
qed

end

lemma interval_less_iff:
  "a < b \<longleftrightarrow> imin a < imin b \<or> (imin a = imin b \<and> imax b < imax a)"
  by (simp add: less_interval_def interval_less_def)

lemma interval_operator_less_eq: "interval_operator_less a b \<longleftrightarrow> a < b"
  by (auto simp: interval_operator_less_def interval_less_iff)

lemma interval_le_imin: "a \<le> b \<Longrightarrow> imin a \<le> imin b"
  by (auto simp: less_eq_interval_def interval_less_def)

section \<open>The operations\<close>

definition ivl_empty :: "'a::linorder interval \<Rightarrow> bool" where
  [ivl_defs]: "ivl_empty i \<longleftrightarrow> imax i \<le> imin i"

definition ivl_length :: "nat interval \<Rightarrow> nat" where
  [ivl_defs]: "ivl_length i = (if ivl_empty i then imin i else imax i) - imin i"

definition ivl_contains :: "'a::linorder interval \<Rightarrow> 'a \<Rightarrow> bool" where
  [ivl_defs]: "ivl_contains i t \<longleftrightarrow> imin i \<le> t \<and> t < imax i"

definition ivl_contains_ivl :: "'a::linorder interval \<Rightarrow> 'a interval \<Rightarrow> bool" where
  [ivl_defs]: "ivl_contains_ivl s i \<longleftrightarrow>
     \<not> ivl_empty s \<and> \<not> ivl_empty i \<and> imin s \<le> imin i \<and> imax i \<le> imax s"

definition ivl_intersects :: "'a::linorder interval \<Rightarrow> 'a interval \<Rightarrow> bool" where
  [ivl_defs]: "ivl_intersects s i \<longleftrightarrow>
     \<not> ivl_empty s \<and> \<not> ivl_empty i \<and> imin s < imax i \<and> imin i < imax s"

text \<open>
  \<open>Intersects(i, out)\<close> stores the intersection in \<open>*out\<close> only when it is non-empty:
  the result is the stored value, \<open>None\<close> when the method returns false.
\<close>

definition ivl_intersects_out :: "'a::linorder interval \<Rightarrow> 'a interval \<Rightarrow> 'a interval option" where
  [ivl_defs]: "ivl_intersects_out s i =
     (if \<not> ivl_intersects s i then None
      else Some (Interval (max (imin s) (imin i)) (min (imax s) (imax i))))"

definition ivl_intersect_with ::
  "'a::linorder interval \<Rightarrow> 'a interval \<Rightarrow> bool \<times> 'a interval" where
  [ivl_defs]: "ivl_intersect_with s i =
     (if ivl_empty s then (False, s)
      else let s1 = (if imin s < imin i then Interval (imin i) (imax s) else s);
               s2 = (if imax i < imax s1 then Interval (imin s1) (imax i) else s1)
           in (imin s < imin i \<or> imax i < imax s1, s2))"

definition ivl_spanning_union ::
  "'a::linorder interval \<Rightarrow> 'a interval \<Rightarrow> bool \<times> 'a interval" where
  [ivl_defs]: "ivl_spanning_union s i =
     (if ivl_empty i then (False, s)
      else if ivl_empty s then (True, i)
      else let s1 = (if imin i < imin s then Interval (imin i) (imax s) else s);
               s2 = (if imax s1 < imax i then Interval (imin s1) (imax i) else s1)
           in (imin i < imin s \<or> imax s1 < imax i, s2))"

text \<open>\<open>Difference(i, vector)\<close>: the result and the intervals appended to the vector.\<close>

definition ivl_difference_vec ::
  "'a::linorder interval \<Rightarrow> 'a interval \<Rightarrow> bool \<times> 'a interval list" where
  [ivl_defs]: "ivl_difference_vec s i =
     (if ivl_empty s then (False, [])
      else if ivl_empty i then (False, [s])
      else if imin s < imax i \<and> imin i \<le> imin s \<and> imax i < imax s
        then (True, [Interval (imax i) (imax s)])
      else if imin i < imax s \<and> imax s \<le> imax i \<and> imin s < imin i
        then (True, [Interval (imin s) (imin i)])
      else if imin s < imin i \<and> imax i < imax s
        then (True, [Interval (imin s) (imin i), Interval (imax i) (imax s)])
      else if imin i \<le> imin s \<and> imax s \<le> imax i then (True, [])
      else (False, [s]))"

text \<open>
  \<open>Difference(i, lo, hi)\<close>: the result, \<open>*lo\<close> and \<open>*hi\<close>.  A value-initialised
  interval has both bounds zero.
\<close>

definition ivl_nil :: "'a::{linorder,zero} interval" where
  [ivl_defs]: "ivl_nil = Interval 0 0"

definition ivl_difference ::
  "'a::{linorder,zero} interval \<Rightarrow> 'a interval \<Rightarrow> bool \<times> 'a interval \<times> 'a interval" where
  [ivl_defs]: "ivl_difference s i =
     (if ivl_empty s then (False, ivl_nil, ivl_nil)
      else if ivl_empty i then (False, s, ivl_nil)
      else if imin s < imax i \<and> imin i \<le> imin s \<and> imax i < imax s
        then (True, ivl_nil, Interval (imax i) (imax s))
      else if imin i < imax s \<and> imax s \<le> imax i \<and> imin s < imin i
        then (True, Interval (imin s) (imin i), ivl_nil)
      else if imin s < imin i \<and> imax i < imax s
        then (True, Interval (imin s) (imin i), Interval (imax i) (imax s))
      else if imin i \<le> imin s \<and> imax s \<le> imax i then (True, ivl_nil, ivl_nil)
      else (False, s, ivl_nil))"

text \<open>\<open>operator==\<close>: all empty intervals are equal.\<close>

definition ivl_eq :: "'a::linorder interval \<Rightarrow> 'a interval \<Rightarrow> bool" where
  [ivl_defs]: "ivl_eq a b =
     (let ae = ivl_empty a; be = ivl_empty b
      in if ae \<and> be then True else if ae \<noteq> be then False
         else imin a = imin b \<and> imax a = imax b)"

section \<open>The operations against point sets\<close>

lemma ivl_empty_pts [simp]: "ivl_pts i = {} \<longleftrightarrow> ivl_empty i"
  by (auto simp: ivl_pts_def ivl_defs)

lemma ivl_contains_pts: "ivl_contains i t \<longleftrightarrow> t \<in> ivl_pts i"
  by (auto simp: ivl_pts_def ivl_defs)

lemma ivl_length_card: "ivl_length i = card (ivl_pts i)"
  by (simp add: ivl_pts_def ivl_defs)

lemma ivl_contains_ivl_pts:
  "ivl_contains_ivl s i \<longleftrightarrow> ivl_pts i \<noteq> {} \<and> ivl_pts i \<subseteq> ivl_pts s"
  by (auto simp: ivl_pts_def ivl_defs)

lemma ivl_intersects_pts: "ivl_intersects s i \<longleftrightarrow> ivl_pts s \<inter> ivl_pts i \<noteq> {}"
  by (auto simp: ivl_pts_def ivl_defs)

lemma ivl_intersects_out_pts:
  "ivl_intersects_out s i = None \<longleftrightarrow> ivl_pts s \<inter> ivl_pts i = {}"
  "ivl_intersects_out s i = Some j \<Longrightarrow> ivl_pts j = ivl_pts s \<inter> ivl_pts i \<and> \<not> ivl_empty j"
  by (auto simp: ivl_pts_def ivl_defs max_def min_def split: if_splits)

lemma ivl_intersect_with_pts:
  "ivl_pts (snd (ivl_intersect_with s i)) = ivl_pts s \<inter> ivl_pts i"
  by (auto simp: ivl_pts_def ivl_defs Let_def)

lemma ivl_eq_pts: "ivl_eq a b \<longleftrightarrow> ivl_pts a = ivl_pts b"
  by (auto simp: ivl_pts_def ivl_defs Let_def atLeastLessThan_eq_iff)

lemma ivl_nil_empty [simp]: "ivl_empty ivl_nil"
  by (simp add: ivl_defs)

lemma ivl_nil_pts [simp]: "ivl_pts ivl_nil = {}"
  by simp

text \<open>
  The two variants of \<open>Difference\<close> agree: the vector receives the non-empty ones of
  \<open>lo\<close> and \<open>hi\<close>, in this order.
\<close>

lemma ivl_difference_vec_eq:
  "ivl_difference_vec s i =
     (case ivl_difference s i of (r, lo, hi) \<Rightarrow> (r, filter (\<lambda>j. \<not> ivl_empty j) [lo, hi]))"
  by (auto simp: ivl_defs)

lemma ivl_difference_cases:
  assumes "ivl_difference s i = (r, lo, hi)"
  shows ivl_difference_pts: "ivl_pts lo \<union> ivl_pts hi = ivl_pts s - ivl_pts i"
    and ivl_difference_flag: "r \<longleftrightarrow> ivl_intersects s i"
    and ivl_difference_lo: "\<not> ivl_empty lo \<Longrightarrow> imin lo = imin s \<and> imax lo \<le> imax s \<and> (r \<longrightarrow> imax lo \<le> imin i)"
    and ivl_difference_hi: "\<not> ivl_empty hi \<Longrightarrow> imax hi = imax s \<and> imin s \<le> imin hi \<and> imin hi = imax i \<and> r"
  using assms by (auto simp: ivl_defs ivl_pts_def split: if_splits)

lemma ivl_spanning_union_upper:
  "ivl_pts s \<union> ivl_pts i \<subseteq> ivl_pts (snd (ivl_spanning_union s i))"
  by (auto simp: ivl_pts_def ivl_defs Let_def)

lemma ivl_spanning_union_least:
  "ivl_pts s \<subseteq> ivl_pts j \<Longrightarrow> ivl_pts i \<subseteq> ivl_pts j \<Longrightarrow>
    ivl_pts (snd (ivl_spanning_union s i)) \<subseteq> ivl_pts j"
  by (auto simp: ivl_pts_def ivl_defs Let_def split: if_splits)

end
