(* ===== verification/Quic_Interval_Set.thy ===== *)
theory Quic_Interval_Set
  imports Quic_Interval
begin

text \<open>
  \<open>QuicIntervalSet<T>\<close> of \<open>sequencer/quic_interval_set.h\<close>.  The member
  \<open>std::set<value_type, IntervalLess> intervals_\<close> is the list of its elements in
  iteration order, which is sorted by the order of \<^typ>\<open>'a interval\<close>.  An iterator is
  the list of the elements from its position to the end: \<open>end()\<close> is \<open>[]\<close>,
  \<open>begin()\<close> the whole list, \<open>*it\<close> is \<open>hd it\<close>, \<open>++it\<close> is \<open>tl it\<close>.
  Loops that the class invariant makes terminate are \<open>partial_function (option)\<close>; that
  they return is part of the lemmas about them.
\<close>

named_theorems iset_defs "definitions of the interval set operations"

type_synonym 'a iset = "'a interval list"

type_synonym 'a iter = "'a interval list"

section \<open>The operations of \<open>std::set\<close> that the class uses\<close>

definition set_insert :: "'a::linorder iset \<Rightarrow> 'a interval \<Rightarrow> 'a iset" where
  "set_insert S x = insort_insert x S"

definition set_upper_bound :: "'a::linorder iset \<Rightarrow> 'a interval \<Rightarrow> 'a iter" where
  "set_upper_bound S x = dropWhile (\<lambda>y. \<not> x < y) S"

definition set_lower_bound :: "'a::linorder iset \<Rightarrow> 'a interval \<Rightarrow> 'a iter" where
  "set_lower_bound S x = dropWhile (\<lambda>y. y < x) S"

definition set_find :: "'a::linorder iset \<Rightarrow> 'a interval \<Rightarrow> 'a iter" where
  "set_find S x = dropWhile (\<lambda>y. y \<noteq> x) S"

definition set_erase :: "'a iset \<Rightarrow> 'a iter \<Rightarrow> 'a iset" where
  "set_erase S it = take (length S - length it) S @ tl it"

definition set_erase_range :: "'a iset \<Rightarrow> 'a iter \<Rightarrow> 'a iter \<Rightarrow> 'a iset" where
  "set_erase_range S from_it to_it = take (length S - length from_it) S @ to_it"

definition iter_prev :: "'a iset \<Rightarrow> 'a iter \<Rightarrow> 'a iter" where
  "iter_prev S it = drop (length S - length it - 1) S"

section \<open>Queries\<close>

definition iset_spanning :: "'a::{linorder,zero} iset \<Rightarrow> 'a interval" where
  "iset_spanning S = (if S \<noteq> [] then Interval (imin (hd S)) (imax (last S)) else ivl_nil)"

definition iset_contains :: "'a::linorder iset \<Rightarrow> 'a \<Rightarrow> bool" where
  "iset_contains S v =
     (let it = set_upper_bound S (Interval v v)
      in if it = S then False else ivl_contains (hd (iter_prev S it)) v)"

definition iset_contains_ivl :: "'a::linorder iset \<Rightarrow> 'a interval \<Rightarrow> bool" where
  "iset_contains_ivl S i =
     (let it = set_upper_bound S i
      in if it = S then False else ivl_contains_ivl (hd (iter_prev S it)) i)"

definition iset_contains_set :: "'a::{linorder,zero} iset \<Rightarrow> 'a iset \<Rightarrow> bool" where
  "iset_contains_set S T =
     (if \<not> ivl_contains_ivl (iset_spanning S) (iset_spanning T) then False
      else list_all (\<lambda>i. iset_contains_ivl S i) T)"

definition iset_find :: "'a::linorder iset \<Rightarrow> 'a \<Rightarrow> 'a iter" where
  "iset_find S v =
     (let it = set_upper_bound S (Interval v v)
      in if it = S then []
         else let it' = iter_prev S it in if ivl_contains (hd it') v then it' else [])"

definition iset_find_ivl :: "'a::linorder iset \<Rightarrow> 'a interval \<Rightarrow> 'a iter" where
  "iset_find_ivl S p =
     (let it = set_upper_bound S p
      in if it = S then []
         else let it' = iter_prev S it in if ivl_contains_ivl (hd it') p then it' else [])"

definition iset_lower_bound :: "'a::linorder iset \<Rightarrow> 'a \<Rightarrow> 'a iter" where
  "iset_lower_bound S v =
     (let it = set_lower_bound S (Interval v v)
      in if it = S then it
         else let it' = iter_prev S it in if ivl_contains (hd it') v then it' else tl it')"

definition iset_upper_bound :: "'a::linorder iset \<Rightarrow> 'a \<Rightarrow> 'a iter" where
  "iset_upper_bound S v = set_upper_bound S (Interval v v)"

definition iset_is_disjoint :: "'a::linorder iset \<Rightarrow> 'a interval \<Rightarrow> bool" where
  "iset_is_disjoint S i =
     (if ivl_empty i then True
      else let it = set_upper_bound S (Interval (imin i) (imin i))
           in if it \<noteq> [] \<and> imin (hd it) < imax i then False
              else if it = S then True
              else imax (hd (iter_prev S it)) \<le> imin i)"

definition iset_eq :: "'a::linorder iset \<Rightarrow> 'a iset \<Rightarrow> bool" where
  "iset_eq S T \<longleftrightarrow> length S = length T \<and>
     list_all2 (\<lambda>a b. imin a = imin b \<and> imax a = imax b) S T"

fun iset_valid_from :: "'a::linorder interval option \<Rightarrow> 'a iter \<Rightarrow> bool" where
  "iset_valid_from prev [] = True"
| "iset_valid_from prev (it # rest) =
     (if imax it \<le> imin it then False
      else if (case prev of None \<Rightarrow> False | Some p \<Rightarrow> imin it \<le> imax p) then False
      else iset_valid_from (Some it) rest)"

definition iset_valid :: "'a::linorder iset \<Rightarrow> bool" where
  "iset_valid S = iset_valid_from None S"

section \<open>Adding intervals\<close>

text \<open>
  \<open>Compact(begin, end)\<close>: \<open>it\<close> runs from \<open>++begin\<close> to \<open>end\<close>; where the
  previous interval reaches the current one, both are erased and their union inserted.
\<close>

fun compact_loop :: "'a::linorder iset \<Rightarrow> 'a interval \<Rightarrow> 'a iter \<Rightarrow> 'a iter \<Rightarrow> 'a iset" where
  "compact_loop S prev [] end_it = S"
| "compact_loop S prev (it # next_it) end_it =
     (if it # next_it = end_it then S
      else if imin it \<le> imax prev then
        let i = Interval (imin prev) (max (imax prev) (imax it));
            S1 = set_erase S (set_find S prev);
            S2 = set_erase S1 (set_find S1 it);
            S3 = set_insert S2 i
        in compact_loop S3 i next_it end_it
      else compact_loop S it next_it end_it)"

definition iset_compact :: "'a::linorder iset \<Rightarrow> 'a iter \<Rightarrow> 'a iter \<Rightarrow> 'a iset" where
  "iset_compact S begin_it end_it =
     (if begin_it = end_it then S
      else compact_loop S (hd begin_it) (tl begin_it) end_it)"

definition iset_add :: "'a::linorder iset \<Rightarrow> 'a interval \<Rightarrow> 'a iset" where
  "iset_add S i =
     (if ivl_empty i then S
      else if i \<in> set S then S
      else let S1 = set_insert S i;
               it = set_find S1 i;
               begin_it = (if it \<noteq> S1 then iter_prev S1 it else it);
               end_it = set_upper_bound S1 (Interval (imax i) (imax i))
           in iset_compact S1 begin_it end_it)"

definition iset_add_range :: "'a::linorder iset \<Rightarrow> 'a \<Rightarrow> 'a \<Rightarrow> 'a iset" where
  "iset_add_range S lo hi = iset_add S (Interval lo hi)"

definition iset_add_append :: "'a::linorder iset \<Rightarrow> 'a interval \<Rightarrow> 'a iset" where
  "iset_add_append S i =
     (if S = [] then iset_add S i
      else let l = last S
           in if imin i < imin l \<or> imax l < imin i then iset_add S i
              else if imax i \<le> imax l then S
              else butlast S @ [Interval (imin l) (imax i)])"

definition iset_assign :: "'a::linorder interval list \<Rightarrow> 'a iset" where
  "iset_assign is = foldl iset_add [] is"

definition iset_union :: "'a::linorder iset \<Rightarrow> 'a iset \<Rightarrow> 'a iset" where
  "iset_union S T = (let S1 = foldl set_insert S T in iset_compact S1 S1 [])"

section \<open>The class invariant and the points of a set\<close>

abbreviation gap :: "'a::linorder interval \<Rightarrow> 'a interval \<Rightarrow> bool" where
  "gap a b \<equiv> imax a < imin b"

definition iset_inv :: "'a::linorder iset \<Rightarrow> bool" where
  "iset_inv S \<longleftrightarrow> (\<forall>i \<in> set S. imin i < imax i) \<and> sorted_wrt gap S"

definition iset_pts :: "'a::linorder iset \<Rightarrow> 'a set" where
  "iset_pts S = (\<Union>i \<in> set S. ivl_pts i)"

lemma iset_pts_simps [simp]:
  "iset_pts [] = {}"
  "iset_pts (i # S) = ivl_pts i \<union> iset_pts S"
  "iset_pts (S @ T) = iset_pts S \<union> iset_pts T"
  by (auto simp: iset_pts_def)

lemma iset_inv_Nil [simp]: "iset_inv []"
  by (simp add: iset_inv_def)

lemma iset_inv_Cons:
  "iset_inv (i # S) \<longleftrightarrow> imin i < imax i \<and> (\<forall>j \<in> set S. gap i j) \<and> iset_inv S"
  by (auto simp: iset_inv_def)

lemma iset_inv_append:
  "iset_inv (S @ T) \<longleftrightarrow> iset_inv S \<and> iset_inv T \<and> (\<forall>a \<in> set S. \<forall>b \<in> set T. gap a b)"
  by (auto simp: iset_inv_def sorted_wrt_append)

lemma iset_invD: "iset_inv S \<Longrightarrow> i \<in> set S \<Longrightarrow> imin i < imax i"
  by (simp add: iset_inv_def)

lemma iset_valid_from_iff:
  "imin p < imax p \<Longrightarrow> iset_valid_from (Some p) S \<longleftrightarrow> iset_inv (p # S)"
proof (induction S arbitrary: p)
  case Nil
  then show ?case by (simp add: iset_inv_Cons)
next
  case (Cons i S)
  show ?case
  proof (cases "imin i < imax i \<and> gap p i")
    case True
    with Cons have "iset_valid_from (Some p) (i # S) \<longleftrightarrow> iset_inv (i # S)" by auto
    also have "\<dots> \<longleftrightarrow> iset_inv (p # i # S)"
      using True Cons.prems by (auto simp: iset_inv_Cons)
    finally show ?thesis .
  next
    case False
    then show ?thesis by (auto simp: iset_inv_Cons)
  qed
qed

lemma iset_valid_iff: "iset_valid S \<longleftrightarrow> iset_inv S"
proof (cases S)
  case (Cons i T)
  then show ?thesis
    by (cases "imin i < imax i") (auto simp: iset_valid_def iset_valid_from_iff iset_inv_Cons)
qed (simp add: iset_valid_def)

lemma iset_inv_sorted: "iset_inv S \<Longrightarrow> sorted_wrt (<) S"
  unfolding iset_inv_def
  by (rule sorted_wrt_mono_rel [of S gap]) (auto simp: interval_less_iff dest: order.strict_trans)

section \<open>Position lemmas\<close>

lemma set_insert_mid:
  "\<forall>p \<in> set pre. p < x \<Longrightarrow> \<forall>q \<in> set post. x < q \<Longrightarrow> set_insert (pre @ post) x = pre @ x # post"
proof -
  assume pre: "\<forall>p \<in> set pre. p < x" and post: "\<forall>q \<in> set post. x < q"
  then have "x \<notin> set (pre @ post)" by auto
  moreover have "insort x post = x # post"
    using post by (cases post) auto
  then have "insort x (pre @ post) = pre @ x # post"
    using pre by (induction pre) auto
  ultimately show ?thesis
    by (simp add: set_insert_def insort_insert_key_def)
qed

lemma set_find_mid: "x \<notin> set pre \<Longrightarrow> set_find (pre @ x # post) x = x # post"
  unfolding set_find_def by (induction pre) auto

lemma set_erase_mid [simp]: "set_erase (pre @ x # post) (x # post) = pre @ post"
  by (simp add: set_erase_def)

lemma iter_prev_mid [simp]: "iter_prev (pre @ x # post) post = x # post"
  by (simp add: iter_prev_def)

lemma set_upper_bound_split:
  obtains pre post where "S = pre @ post" "set_upper_bound S x = post"
    "\<forall>p \<in> set pre. p \<le> x" "post \<noteq> [] \<Longrightarrow> x < hd post"
proof
  show "S = takeWhile (\<lambda>y. \<not> x < y) S @ dropWhile (\<lambda>y. \<not> x < y) S" by simp
  show "\<forall>p \<in> set (takeWhile (\<lambda>y. \<not> x < y) S). p \<le> x"
    by (auto dest: set_takeWhileD simp: not_less)
  show "dropWhile (\<lambda>y. \<not> x < y) S \<noteq> [] \<Longrightarrow> x < hd (dropWhile (\<lambda>y. \<not> x < y) S)"
    using hd_dropWhile by blast
qed (simp add: set_upper_bound_def)

section \<open>Compaction\<close>

fun merge_run :: "'a::linorder interval \<Rightarrow> 'a interval list \<Rightarrow> 'a interval list" where
  "merge_run prev [] = [prev]"
| "merge_run prev (it # rest) =
     (if imin it \<le> imax prev then merge_run (Interval (imin prev) (max (imax prev) (imax it))) rest
      else prev # merge_run it rest)"

lemma compact_loop_merge_run:
  assumes "sorted_wrt (<) (prev # mid @ end_it)"
    and "\<forall>p \<in> set pre. imin p < imin prev"
    and "\<forall>i \<in> set (prev # mid). imin i < imax i"
  shows "compact_loop (pre @ prev # mid @ end_it) prev (mid @ end_it) end_it
    = pre @ merge_run prev mid @ end_it"
  using assms
proof (induction mid arbitrary: pre prev)
  case Nil
  then show ?case by (cases end_it) auto
next
  case (Cons it mid)
  have ne: "it # mid @ end_it \<noteq> end_it"
    using arg_cong [of "it # mid @ end_it" end_it length] by auto
  show ?case
  proof (cases "imin it \<le> imax prev")
    case True
    let ?i = "Interval (imin prev) (max (imax prev) (imax it))"
    have notin: "prev \<notin> set pre" "it \<notin> set pre"
      using Cons.prems by (auto simp: interval_less_iff)
    have le: "?i \<le> prev"
      by (cases prev) (auto simp: less_eq_interval_def interval_less_def max_def)
    have post: "\<forall>q \<in> set (mid @ end_it). ?i < q"
      using Cons.prems(1) le by (auto intro: le_less_trans)
    have pre: "\<forall>p \<in> set pre. p < ?i"
      using Cons.prems(2) by (auto simp: interval_less_iff)
    have "compact_loop (pre @ prev # (it # mid) @ end_it) prev ((it # mid) @ end_it) end_it
      = compact_loop (pre @ ?i # mid @ end_it) ?i (mid @ end_it) end_it"
      using True ne notin set_insert_mid [OF pre post]
      by (simp add: set_find_mid Let_def)
    also have "\<dots> = pre @ merge_run ?i mid @ end_it"
      using Cons.prems post by (intro Cons.IH) (auto simp: less_max_iff_disj)
    finally show ?thesis using True by simp
  next
    case False
    have "compact_loop ((pre @ [prev]) @ it # mid @ end_it) it (mid @ end_it) end_it
      = (pre @ [prev]) @ merge_run it mid @ end_it"
      using Cons.prems False by (intro Cons.IH) (auto simp: interval_less_iff)
    with False ne show ?thesis by simp
  qed
qed

lemma merge_run_bounds:
  "m \<in> set (merge_run prev mid) \<Longrightarrow> \<forall>i \<in> set (prev # mid). imin i < imax i \<Longrightarrow>
    imin m < imax m \<and> imin m \<in> imin ` set (prev # mid) \<and> imax m \<in> imax ` set (prev # mid)"
proof (induction mid arbitrary: prev)
  case (Cons it mid)
  show ?case
  proof (cases "imin it \<le> imax prev")
    case True
    have "imin prev < max (imax prev) (imax it)"
      using Cons.prems by (auto simp: less_max_iff_disj)
    with True show ?thesis
      using Cons.prems Cons.IH [of "Interval (imin prev) (max (imax prev) (imax it))"]
      by (auto simp: max_def split: if_splits)
  next
    case False
    then show ?thesis using Cons.prems Cons.IH [of it] by auto
  qed
qed simp

lemma merge_run_sorted:
  "sorted (map imin (prev # mid)) \<Longrightarrow> \<forall>i \<in> set (prev # mid). imin i < imax i \<Longrightarrow>
    sorted_wrt gap (merge_run prev mid)"
proof (induction mid arbitrary: prev)
  case (Cons it mid)
  show ?case
  proof (cases "imin it \<le> imax prev")
    case True
    with Cons show ?thesis by (auto simp: less_max_iff_disj)
  next
    case False
    have "\<forall>m \<in> set (merge_run it mid). imin it \<le> imin m"
      using merge_run_bounds [of _ it mid] Cons.prems by fastforce
    with False Cons show ?thesis by auto
  qed
qed simp

lemma merge_run_pts:
  "sorted (map imin (prev # mid)) \<Longrightarrow> \<forall>i \<in> set (prev # mid). imin i < imax i \<Longrightarrow>
    iset_pts (merge_run prev mid) = iset_pts (prev # mid)"
proof (induction mid arbitrary: prev)
  case (Cons it mid)
  show ?case
  proof (cases "imin it \<le> imax prev")
    case True
    with Cons have "iset_pts (merge_run prev (it # mid))
      = ivl_pts (Interval (imin prev) (max (imax prev) (imax it))) \<union> iset_pts mid"
      by (auto simp: less_max_iff_disj)
    also have "ivl_pts (Interval (imin prev) (max (imax prev) (imax it))) = ivl_pts prev \<union> ivl_pts it"
      using True Cons.prems by (auto simp: ivl_pts_def max_def)
    finally show ?thesis by auto
  next
    case False
    with Cons show ?thesis by auto
  qed
qed simp

lemma sorted_imin: "sorted_wrt (<) S \<Longrightarrow> sorted (map imin S)"
  unfolding sorted_map
  by (erule sorted_wrt_mono_rel [rotated]) (auto intro: interval_le_imin less_imp_le)

text \<open>
  A compacted region between two valid parts that it does not touch: the set is valid
  again and has the same points.
\<close>

lemma compact_region:
  assumes sorted: "sorted_wrt (<) (pre @ prev # mid @ end_it)"
    and ne: "\<forall>i \<in> set (prev # mid). imin i < imax i"
    and inv: "iset_inv pre" "iset_inv end_it"
    and gap_pre: "\<forall>p \<in> set pre. \<forall>x \<in> set (prev # mid @ end_it). gap p x"
    and gap_end: "\<forall>x \<in> set (prev # mid). \<forall>e \<in> set end_it. gap x e"
    and S: "S = pre @ prev # mid @ end_it" and b: "begin_it = prev # mid @ end_it"
  shows "iset_inv (iset_compact S begin_it end_it) \<and>
    iset_pts (iset_compact S begin_it end_it) = iset_pts S"
proof -
  have pre: "\<forall>p \<in> set pre. imin p < imin prev"
    using gap_pre iset_invD [OF inv(1)] by (force intro: order.strict_trans)
  have "prev # mid @ end_it \<noteq> end_it"
    using arg_cong [of "prev # mid @ end_it" end_it length] by auto
  then have eq: "iset_compact S begin_it end_it = pre @ merge_run prev mid @ end_it"
    using compact_loop_merge_run [of prev mid end_it pre] sorted ne pre
    by (simp add: iset_compact_def S b sorted_wrt_append)
  have smin: "sorted (map imin (prev # mid))"
    using sorted by (intro sorted_imin) (simp add: sorted_wrt_append)
  note bounds = merge_run_bounds [OF _ ne]
  have "\<forall>m \<in> set (merge_run prev mid). imin m < imax m" using bounds by blast
  moreover have "\<forall>p \<in> set pre. \<forall>m \<in> set (merge_run prev mid). gap p m"
    using bounds gap_pre by fastforce
  moreover have "\<forall>m \<in> set (merge_run prev mid). \<forall>e \<in> set end_it. gap m e"
    using bounds gap_end by fastforce
  ultimately have "iset_inv (pre @ merge_run prev mid @ end_it)"
    using inv gap_pre merge_run_sorted [OF smin ne]
    by (auto simp: iset_inv_append) (simp add: iset_inv_def)
  then show ?thesis
    using merge_run_pts [OF smin ne] by (simp add: eq) (simp add: S Un_assoc)
qed

section \<open>Adding an interval\<close>

text \<open>
  Where \<open>Add\<close> inserts its interval and what it compacts: the sets before and after the
  insertion point, the predecessor and the first interval that starts after the new one
  ends.
\<close>

lemma upper_bound_end:
  assumes inv: "iset_inv post"
  obtains mid end_it where "post = mid @ end_it"
    "set_upper_bound post (Interval m m) = end_it"
    "\<forall>y \<in> set mid. imin y \<le> m" "\<forall>y \<in> set end_it. m < imin y"
proof -
  obtain mid end_it where post: "post = mid @ end_it"
      and ub: "set_upper_bound post (Interval m m) = end_it"
      and le: "\<forall>p \<in> set mid. p \<le> Interval m m"
      and hd: "end_it \<noteq> [] \<Longrightarrow> Interval m m < hd end_it"
    by (rule set_upper_bound_split) blast
  have "\<forall>y \<in> set mid. imin y \<le> m"
    using le interval_le_imin by fastforce
  moreover have "\<forall>y \<in> set end_it. m < imin y"
  proof (cases end_it)
    case (Cons e rest)
    with inv post have e: "imin e < imax e" "\<forall>y \<in> set rest. gap e y"
      by (auto simp: iset_inv_append iset_inv_Cons)
    from hd Cons e(1) have "m < imin e" by (auto simp: interval_less_iff)
    with Cons e show ?thesis by (auto dest: order.strict_trans)
  qed simp
  ultimately show ?thesis using that post ub by blast
qed

lemma upper_bound_skip:
  "\<forall>p \<in> set pre. p \<le> x \<Longrightarrow> set_upper_bound (pre @ post) x = set_upper_bound post x"
  by (induction pre) (auto simp: set_upper_bound_def not_less)

lemma iset_add_correct:
  assumes inv: "iset_inv S"
  shows "iset_inv (iset_add S i) \<and> iset_pts (iset_add S i) = iset_pts S \<union> ivl_pts i"
proof (cases "ivl_empty i \<or> i \<in> set S")
  case True
  then show ?thesis
    using inv ivl_empty_pts [of i] by (auto simp: iset_add_def iset_pts_def simp del: ivl_empty_pts)
next
  case False
  then have ne: "imin i < imax i" and notin: "i \<notin> set S" by (auto simp: ivl_empty_def)
  obtain pre post where S: "S = pre @ post" and pre: "\<forall>p \<in> set pre. p \<le> i"
      and hd: "post \<noteq> [] \<Longrightarrow> i < hd post"
    by (rule set_upper_bound_split [of S i]) blast
  have post: "\<forall>q \<in> set post. i < q"
    using hd iset_inv_sorted [OF inv] S
    by (cases post) (auto simp: sorted_wrt_append intro: order.strict_trans)
  have pre': "\<forall>p \<in> set pre. p < i" using pre notin S by (auto simp: order.order_iff_strict)
  have S1: "set_insert S i = pre @ i # post"
    unfolding S by (rule set_insert_mid [OF pre' post])
  have inv': "iset_inv pre" "iset_inv post" using inv S by (auto simp: iset_inv_append)
  obtain mid end_it where mid: "post = mid @ end_it"
      and ub: "set_upper_bound post (Interval (imax i) (imax i)) = end_it"
      and end_it: "\<forall>y \<in> set end_it. imax i < imin y"
    by (rule upper_bound_end [OF inv'(2), of "imax i"]) blast
  have end_eq: "set_upper_bound (pre @ i # post) (Interval (imax i) (imax i)) = end_it"
  proof -
    have "\<forall>p \<in> set (pre @ [i]). p \<le> Interval (imax i) (imax i)"
      using pre ne by (auto dest!: interval_le_imin simp: less_eq_interval_def interval_less_def)
    from upper_bound_skip [OF this, of post] show ?thesis by (simp add: ub)
  qed
  have find: "set_find (pre @ i # post) i = i # post"
    using notin S by (intro set_find_mid) auto
  have sorted: "sorted_wrt (<) (pre @ i # mid @ end_it)"
    using iset_inv_sorted [OF inv] pre' post S mid
    by (auto simp: sorted_wrt_append)
  have inv_end: "iset_inv end_it" "\<forall>x \<in> set mid. imin x < imax x"
    and gap_mid: "\<forall>x \<in> set mid. \<forall>e \<in> set end_it. gap x e"
    using inv' mid by (auto simp: iset_inv_append dest: iset_invD)
  have add: "iset_add S i = iset_compact (pre @ i # post)
      (if pre \<noteq> [] then last pre # i # post else i # post) end_it"
  proof -
    have "iter_prev (pre @ i # post) (i # post) = last pre # i # post" if "pre \<noteq> []"
      using that iter_prev_mid [of "butlast pre" "last pre" "i # post"]
      by (cases pre rule: rev_cases) auto
    then show ?thesis
      using False find end_eq
      by (cases "pre = []") (simp_all add: iset_add_def Let_def S1)
  qed
  show ?thesis
  proof (cases pre rule: rev_cases)
    case Nil
    have "iset_inv (iset_compact (pre @ i # post) (i # post) end_it) \<and>
        iset_pts (iset_compact (pre @ i # post) (i # post) end_it) = iset_pts (pre @ i # post)"
      using sorted ne inv_end gap_mid end_it Nil mid
      by (intro compact_region [of "[]" i mid end_it]) auto
    with add Nil S show ?thesis by auto
  next
    case (snoc pre1 l)
    have gap_i: "\<forall>p \<in> set pre1. gap p i"
      using inv S snoc pre by (auto simp: iset_inv_append intro: less_le_trans interval_le_imin)
    have "iset_inv (iset_compact (pre @ i # post) (l # i # post) end_it) \<and>
        iset_pts (iset_compact (pre @ i # post) (l # i # post) end_it) = iset_pts (pre @ i # post)"
      using sorted ne inv_end gap_mid end_it snoc mid inv S gap_i
      by (intro compact_region [of pre1 l "i # mid" end_it]) (auto simp: iset_inv_append iset_inv_Cons)
    with add snoc S show ?thesis by auto
  qed
qed

lemmas iset_add_inv [intro] = iset_add_correct [THEN conjunct1]
  and iset_add_pts [simp] = iset_add_correct [THEN conjunct2]

section \<open>A set of points has one representation\<close>

lemma iset_pts_above: "iset_inv (i # S) \<Longrightarrow> p \<in> iset_pts S \<Longrightarrow> imax i < p"
  by (auto simp: iset_inv_Cons iset_pts_def ivl_pts_def intro: less_le_trans)

lemma iset_pts_at_imax: "iset_inv (i # S) \<Longrightarrow> imax i \<notin> iset_pts (i # S)"
  using iset_pts_above [of i S "imax i"] by (auto simp: ivl_pts_def)

lemma iset_pts_bounds:
  "iset_inv (i # S) \<Longrightarrow> p \<in> iset_pts (i # S) \<Longrightarrow> imin i \<le> p"
  using iset_pts_above [of i S p] by (auto simp: ivl_pts_def iset_inv_Cons)

lemma iset_imin_pts: "iset_inv (i # S) \<Longrightarrow> imin i \<in> iset_pts (i # S)"
  by (auto simp: ivl_pts_def iset_inv_Cons)

lemma iset_pts_tl: "iset_inv (i # S) \<Longrightarrow> iset_pts S = {p \<in> iset_pts (i # S). imax i < p}"
  using iset_pts_above [of i S] by (auto simp: ivl_pts_def)

lemma iset_imax_le:
  assumes "iset_inv (i # S)" "iset_inv (j # T)" "iset_pts (i # S) = iset_pts (j # T)"
    "imin i = imin j"
  shows "imax i \<le> imax j"
proof (rule ccontr)
  assume "\<not> imax i \<le> imax j"
  then have "imax j \<in> ivl_pts i"
    using assms(2,4) by (auto simp: ivl_pts_def iset_inv_Cons intro: less_imp_le)
  then have "imax j \<in> iset_pts (j # T)" using assms(3) by auto
  with iset_pts_at_imax [OF assms(2)] show False ..
qed

lemma iset_pts_eq_Nil: "iset_inv T \<Longrightarrow> iset_pts T = {} \<Longrightarrow> T = []"
  by (cases T) (auto simp: iset_inv_Cons ivl_empty_def)

lemma iset_canonical_step:
  assumes inv: "iset_inv (i # S)" "iset_inv (j # U)" and eq: "iset_pts (i # S) = iset_pts (j # U)"
  shows "i = j \<and> iset_pts S = iset_pts U"
proof
  have "imin i \<le> imin j"
    using iset_pts_bounds [OF inv(1)] iset_imin_pts [OF inv(2)] eq by blast
  moreover have "imin j \<le> imin i"
    using iset_pts_bounds [OF inv(2)] iset_imin_pts [OF inv(1)] eq by blast
  ultimately have "imin i = imin j" by (rule order.antisym)
  moreover from this have "imax i \<le> imax j" "imax j \<le> imax i"
    using iset_imax_le [OF inv eq] iset_imax_le [OF inv(2) inv(1) eq [symmetric]] by auto
  ultimately show ij: "i = j" by (intro interval.expand) auto
  have "iset_pts S = {p \<in> iset_pts (i # S). imax i < p}"
    by (rule iset_pts_tl [OF inv(1)])
  also have "\<dots> = {p \<in> iset_pts (j # U). imax j < p}"
    unfolding eq by (simp only: ij)
  also have "\<dots> = iset_pts U"
    by (rule iset_pts_tl [OF inv(2), symmetric])
  finally show "iset_pts S = iset_pts U" .
qed

lemma iset_canonical:
  "iset_inv S \<Longrightarrow> iset_inv T \<Longrightarrow> iset_pts S = iset_pts T \<Longrightarrow> S = T"
proof (induction S arbitrary: T)
  case Nil
  then show ?case using iset_pts_eq_Nil [of T] by simp
next
  case (Cons i S)
  then obtain j U where T: "T = j # U"
    using iset_pts_eq_Nil [OF Cons.prems(1)] by (cases T) auto
  have "i = j \<and> iset_pts S = iset_pts U"
    using Cons.prems unfolding T by (rule iset_canonical_step)
  moreover have "iset_inv S" "iset_inv U"
    using Cons.prems unfolding T by (simp_all add: iset_inv_Cons)
  ultimately show ?case using Cons.IH [of U] T by simp
qed

section \<open>Append, union and assignment\<close>

lemma iset_inv_butlast_last:
  assumes "iset_inv S" "S \<noteq> []"
  shows "iset_inv (butlast S)" "imin (last S) < imax (last S)"
    "\<forall>p \<in> set (butlast S). gap p (last S)"
    "iset_pts S = iset_pts (butlast S) \<union> ivl_pts (last S)"
proof -
  from assms(2) have S: "S = butlast S @ [last S]" by simp
  from assms(1) show "iset_inv (butlast S)" "imin (last S) < imax (last S)"
      "\<forall>p \<in> set (butlast S). gap p (last S)"
    by (subst (asm) S, simp add: iset_inv_append iset_inv_Cons)+
  show "iset_pts S = iset_pts (butlast S) \<union> ivl_pts (last S)"
    by (subst S) simp
qed

lemma iset_add_append_correct:
  assumes inv: "iset_inv S"
  shows "iset_inv (iset_add_append S i) \<and> iset_pts (iset_add_append S i) = iset_pts S \<union> ivl_pts i"
proof (cases "S = [] \<or> imin i < imin (last S) \<or> imax (last S) < imin i")
  case True
  then show ?thesis using inv iset_add_correct [OF inv, of i] by (auto simp: iset_add_append_def Let_def)
next
  case False
  note last = iset_inv_butlast_last [OF inv]
  show ?thesis
  proof (cases "imax i \<le> imax (last S)")
    case True
    moreover from this False have "ivl_pts i \<subseteq> ivl_pts (last S)" by (auto simp: ivl_pts_def)
    ultimately show ?thesis using False inv last by (auto simp: iset_add_append_def Let_def)
  next
    case ext: False
    let ?e = "Interval (imin (last S)) (imax i)"
    have "ivl_pts ?e = ivl_pts (last S) \<union> ivl_pts i"
      using False ext by (auto simp: ivl_pts_def)
    moreover have "iset_inv (butlast S @ [?e])"
      using False ext last by (auto simp: iset_inv_append iset_inv_Cons)
    moreover have "iset_add_append S i = butlast S @ [?e]"
      using False ext by (simp add: iset_add_append_def Let_def)
    ultimately show ?thesis using False last by auto
  qed
qed

lemma iset_add_append_eq_add: "iset_inv S \<Longrightarrow> iset_add_append S i = iset_add S i"
  using iset_add_append_correct [of S i] by (intro iset_canonical) auto

lemma iset_assign_correct:
  "iset_inv (iset_assign is) \<and> iset_pts (iset_assign is) = (\<Union>i \<in> set is. ivl_pts i)"
proof -
  have "iset_inv (foldl iset_add S is) \<and>
      iset_pts (foldl iset_add S is) = iset_pts S \<union> (\<Union>i \<in> set is. ivl_pts i)"
    if "iset_inv S" for S :: "'a iset"
    using that by (induction "is" arbitrary: S) (auto simp: iset_add_inv)
  then show ?thesis by (simp add: iset_assign_def)
qed

lemma set_insert_sorted:
  "sorted_wrt (<) S \<Longrightarrow> sorted_wrt (<) (set_insert S x) \<and> set (set_insert S x) = insert x (set S)"
  unfolding set_insert_def strict_sorted_iff
  by (auto simp: insort_insert_key_def sorted_insort distinct_insort set_insort_key)

lemma foldl_set_insert_sorted:
  "sorted_wrt (<) S \<Longrightarrow>
    sorted_wrt (<) (foldl set_insert S T) \<and> set (foldl set_insert S T) = set S \<union> set T"
  by (induction T arbitrary: S) (simp_all add: set_insert_sorted)

lemma iset_union_correct:
  assumes "iset_inv S" "iset_inv T"
  shows "iset_inv (iset_union S T) \<and> iset_pts (iset_union S T) = iset_pts S \<union> iset_pts T"
proof -
  let ?U = "foldl set_insert S T"
  from foldl_set_insert_sorted [OF iset_inv_sorted [OF assms(1)], of T]
  have U: "sorted_wrt (<) ?U" "set ?U = set S \<union> set T" by auto
  then have pts: "iset_pts ?U = iset_pts S \<union> iset_pts T" by (auto simp: iset_pts_def)
  show ?thesis
  proof (cases ?U)
    case Nil
    with pts show ?thesis by (simp add: iset_union_def iset_compact_def)
  next
    case (Cons prev mid)
    have "iset_inv (iset_compact ?U ?U []) \<and> iset_pts (iset_compact ?U ?U []) = iset_pts ?U"
      using U Cons assms
      by (intro compact_region [of "[]" prev mid "[]"]) (auto dest: iset_invD)
    with pts show ?thesis by (simp add: iset_union_def Let_def)
  qed
qed

end
