(* ===== verification/Interval_Set_Lookup.thy ===== *)
theory Interval_Set_Lookup
  imports Quic_Interval_Set
begin

text \<open>
  The lookups of \<open>QuicIntervalSet\<close> against the points of the set, and the operations
  that cut a set from the front.
\<close>

section \<open>Lookups\<close>

lemma iter_prev_last: "pre \<noteq> [] \<Longrightarrow> iter_prev (pre @ post) post = last pre # post"
  by (cases pre rule: rev_cases) (simp_all add: iter_prev_mid)

text \<open>The split of a valid set at a value: the intervals that start at or before it, the others.\<close>

lemma upper_bound_point:
  assumes "iset_inv S"
  obtains pre post where "S = pre @ post" "set_upper_bound S (Interval v v) = post"
    "\<forall>p \<in> set pre. imin p \<le> v" "\<forall>q \<in> set post. v < imin q"
    "\<forall>p \<in> set (butlast pre). imax p < v"
proof -
  obtain pre post where S: "S = pre @ post" "set_upper_bound S (Interval v v) = post"
      and pre: "\<forall>p \<in> set pre. imin p \<le> v" and post: "\<forall>q \<in> set post. v < imin q"
    by (rule upper_bound_end [OF assms, of v])
  have "\<forall>p \<in> set (butlast pre). imax p < v"
  proof (cases "pre = []")
    case that: False
    have "\<forall>p \<in> set (butlast pre). gap p (last pre)"
      using assms S(1) that iset_inv_butlast_last(3) [of pre] by (simp add: iset_inv_append)
    then show ?thesis using pre that by (auto intro: less_le_trans)
  qed simp
  with that S pre post show thesis by blast
qed

lemma iset_pts_split:
  assumes "iset_inv (pre @ post)" "pre \<noteq> []"
    "\<forall>p \<in> set (butlast pre). imax p < v" "\<forall>q \<in> set post. v < imin q"
  shows "v \<in> iset_pts (pre @ post) \<longleftrightarrow> v \<in> ivl_pts (last pre)"
proof -
  have "v \<notin> iset_pts (butlast pre)" "v \<notin> iset_pts post"
    using assms(3,4) by (auto simp: iset_pts_def ivl_pts_def dest: less_le_trans)
  then show ?thesis
    using iset_inv_butlast_last(4) [of pre] assms(1,2) by (auto simp: iset_inv_append)
qed

lemma iset_pts_before: "\<forall>q \<in> set post. v < imin q \<Longrightarrow> v \<notin> iset_pts post"
  by (auto simp: iset_pts_def ivl_pts_def dest: less_le_trans)

lemma iset_contains_iff: "iset_inv S \<Longrightarrow> iset_contains S v \<longleftrightarrow> v \<in> iset_pts S"
proof -
  assume inv: "iset_inv S"
  then obtain pre post where S: "S = pre @ post" "set_upper_bound S (Interval v v) = post"
      and post: "\<forall>q \<in> set post. v < imin q"
      and pre: "\<forall>p \<in> set (butlast pre). imax p < v"
    by (rule upper_bound_point [of S v]) blast
  show ?thesis
  proof (cases "pre = []")
    case True
    then show ?thesis using S iset_pts_before [OF post] by (simp add: iset_contains_def)
  next
    case False
    then show ?thesis
      using S iset_pts_split [OF inv [unfolded S(1)] False pre post]
      by (simp add: iset_contains_def iter_prev_last ivl_contains_pts)
  qed
qed

lemma iset_find_iff:
  assumes inv: "iset_inv S"
  shows "iset_find S v = [] \<longleftrightarrow> v \<notin> iset_pts S"
    and "iset_find S v \<noteq> [] \<Longrightarrow> (\<exists>pre. S = pre @ iset_find S v) \<and> v \<in> ivl_pts (hd (iset_find S v))"
proof -
  obtain pre post where S: "S = pre @ post" "set_upper_bound S (Interval v v) = post"
      and post: "\<forall>q \<in> set post. v < imin q"
      and pre: "\<forall>p \<in> set (butlast pre). imax p < v"
    by (rule upper_bound_point [OF inv, of v]) blast
  have "(iset_find S v = [] \<longleftrightarrow> v \<notin> iset_pts S) \<and>
      (iset_find S v \<noteq> [] \<longrightarrow> (\<exists>pre. S = pre @ iset_find S v) \<and> v \<in> ivl_pts (hd (iset_find S v)))"
  proof (cases "pre = []")
    case True
    then show ?thesis using S iset_pts_before [OF post] by (simp add: iset_find_def)
  next
    case False
    then have "\<exists>p. pre = p @ [last pre]" by (intro exI [of _ "butlast pre"]) simp
    then show ?thesis
      using False S iset_pts_split [OF inv [unfolded S(1)] False pre post]
      by (auto simp: iset_find_def Let_def iter_prev_last ivl_contains_pts)
  qed
  then show "iset_find S v = [] \<longleftrightarrow> v \<notin> iset_pts S"
    and "iset_find S v \<noteq> [] \<Longrightarrow> (\<exists>pre. S = pre @ iset_find S v) \<and> v \<in> ivl_pts (hd (iset_find S v))"
    by blast+
qed

lemma iset_is_disjoint_iff:
  assumes inv: "iset_inv S"
  shows "iset_is_disjoint S i \<longleftrightarrow> iset_pts S \<inter> ivl_pts i = {}"
proof (cases "ivl_empty i")
  case True
  then have "ivl_pts i = {}" by (simp only: ivl_empty_pts)
  then have "iset_pts S \<inter> ivl_pts i = {}" by (simp only: Int_empty_right)
  with True show ?thesis by (simp add: iset_is_disjoint_def)
next
  case False
  then have ne: "imin i < imax i" by (simp add: ivl_empty_def)
  obtain pre post where S: "S = pre @ post" "set_upper_bound S (Interval (imin i) (imin i)) = post"
      and le: "\<forall>p \<in> set pre. imin p \<le> imin i" and post: "\<forall>q \<in> set post. imin i < imin q"
      and pre: "\<forall>p \<in> set (butlast pre). imax p < imin i"
    by (rule upper_bound_point [OF inv, of "imin i"])
  have post_iff: "iset_pts post \<inter> ivl_pts i = {} \<longleftrightarrow> \<not> (post \<noteq> [] \<and> imin (hd post) < imax i)"
  proof (cases post)
    case (Cons q rest)
    have inv_post: "iset_inv (q # rest)" using inv S Cons by (simp add: iset_inv_append)
    have "imin q \<in> iset_pts post" using iset_imin_pts [OF inv_post] Cons by simp
    moreover have "imin q \<le> p" if "p \<in> iset_pts post" for p
      using iset_pts_bounds [OF inv_post] that Cons by simp
    ultimately show ?thesis using post Cons by (force simp: ivl_pts_def)
  qed simp
  have pre_iff: "iset_pts pre \<inter> ivl_pts i = {} \<longleftrightarrow> pre = [] \<or> imax (last pre) \<le> imin i"
  proof (cases "pre = []")
    case ne_pre: False
    have inv_pre: "iset_inv pre" using inv S by (simp add: iset_inv_append)
    note last = iset_inv_butlast_last [OF inv_pre ne_pre]
    have "iset_pts (butlast pre) \<inter> ivl_pts i = {}"
      using pre by (auto simp: iset_pts_def ivl_pts_def)
        (meson leD less_le_trans order.strict_trans)
    moreover have "ivl_pts (last pre) \<inter> ivl_pts i = {} \<longleftrightarrow> imax (last pre) \<le> imin i"
      using le ne ne_pre last(2) ivl_intersects_pts [of "last pre" i]
      by (auto simp: ivl_intersects_def ivl_empty_def not_le intro: le_less_trans)
    ultimately show ?thesis using ne_pre last(4) by auto
  qed simp
  have "iset_pts S \<inter> ivl_pts i = {} \<longleftrightarrow>
      iset_pts pre \<inter> ivl_pts i = {} \<and> iset_pts post \<inter> ivl_pts i = {}"
    using S by auto
  then show ?thesis
    using False S by (cases "pre = []") (simp_all add: iset_is_disjoint_def Let_def post_iff pre_iff iter_prev_last)
qed

section \<open>Trimming and removal of the first interval\<close>

definition iset_pop_front :: "'a iset \<Rightarrow> 'a iset" where
  "iset_pop_front S = set_erase S S"

text \<open>\<open>TrimLessThan\<close>: the loop counts the trimmed intervals; the result is the flag and the set.\<close>

fun trim_loop :: "'a::linorder iset \<Rightarrow> 'a \<Rightarrow> nat \<Rightarrow> nat \<times> 'a iset" where
  "trim_loop [] v n = (n, [])"
| "trim_loop (f # S) v n =
     (if v \<le> imin f then (n, f # S)
      else if imax f \<le> v then trim_loop S v (n + 1)
      else (n + 1, Interval v (imax f) # S))"

definition iset_trim_less_than :: "'a::linorder iset \<Rightarrow> 'a \<Rightarrow> bool \<times> 'a iset" where
  "iset_trim_less_than S v = (case trim_loop S v 0 of (n, S') \<Rightarrow> (n \<noteq> 0, S'))"

lemma iset_pop_front_correct:
  "iset_inv (i # S) \<Longrightarrow> iset_inv (iset_pop_front (i # S)) \<and>
    iset_pts (iset_pop_front (i # S)) = {p \<in> iset_pts (i # S). imax i < p}"
  using iset_pts_tl [of i S] by (simp add: iset_pop_front_def set_erase_def iset_inv_Cons)

lemma trim_loop_correct:
  "iset_inv S \<Longrightarrow> iset_inv (snd (trim_loop S v n)) \<and>
    iset_pts (snd (trim_loop S v n)) = {p \<in> iset_pts S. v \<le> p} \<and>
    (fst (trim_loop S v n) = n \<longleftrightarrow> (\<forall>p \<in> iset_pts S. v \<le> p)) \<and> n \<le> fst (trim_loop S v n)"
proof (induction S v n rule: trim_loop.induct)
  case (2 f S v n)
  note above = iset_pts_above [OF "2.prems"] and first = iset_imin_pts [OF "2.prems"]
  have inv: "imin f < imax f" "\<forall>j \<in> set S. gap f j" "iset_inv S"
    using "2.prems" by (auto simp: iset_inv_Cons)
  consider (keep) "v \<le> imin f" | (drop) "imin f < v" "imax f \<le> v" | (cut) "imin f < v" "v < imax f"
    by fastforce
  then show ?case
  proof cases
    case keep
    then show ?thesis using "2.prems" iset_pts_bounds [OF "2.prems"] by fastforce
  next
    case drop
    have "\<not> (\<forall>p \<in> iset_pts (f # S). v \<le> p)" using first drop by (auto simp: not_le)
    moreover have "{p \<in> ivl_pts f. v \<le> p} = {}" using drop by (auto simp: ivl_pts_def)
    ultimately show ?thesis using drop "2.IH" inv by (auto simp: not_le)
  next
    case cut
    have "\<not> (\<forall>p \<in> iset_pts (f # S). v \<le> p)" using first cut by (auto simp: not_le)
    moreover have "v \<le> p" if "p \<in> iset_pts S" for p
      using above [OF that] cut by order
    ultimately show ?thesis using cut inv by (auto simp: not_le iset_inv_Cons ivl_pts_def)
  qed
qed simp

lemma iset_trim_less_than_correct:
  assumes "iset_inv S"
  shows "iset_inv (snd (iset_trim_less_than S v))"
    and "iset_pts (snd (iset_trim_less_than S v)) = {p \<in> iset_pts S. v \<le> p}"
    and "fst (iset_trim_less_than S v) \<longleftrightarrow> iset_pts (snd (iset_trim_less_than S v)) \<noteq> iset_pts S"
proof -
  obtain n T where t: "trim_loop S v 0 = (n, T)" by (cases "trim_loop S v 0")
  then have T: "iset_inv T" "iset_pts T = {p \<in> iset_pts S. v \<le> p}"
      "n = 0 \<longleftrightarrow> (\<forall>p \<in> iset_pts S. v \<le> p)"
    using trim_loop_correct [OF assms, of v 0] by simp_all
  have res: "iset_trim_less_than S v = (n \<noteq> 0, T)" by (simp add: iset_trim_less_than_def t)
  show "iset_inv (snd (iset_trim_less_than S v))" using T(1) res by simp
  show "iset_pts (snd (iset_trim_less_than S v)) = {p \<in> iset_pts S. v \<le> p}"
    using T(2) res by simp
  show "fst (iset_trim_less_than S v) \<longleftrightarrow> iset_pts (snd (iset_trim_less_than S v)) \<noteq> iset_pts S"
    unfolding res fst_conv snd_conv T(2) using T(3) by blast
qed

end
