(* ===== verification/Range_Store.thy ===== *)
theory Range_Store
  imports Quic_Interval "HOL-Library.Multiset"
begin

text \<open>
  The contract between the reassembly buffer and its set of received ranges: what the buffer
  needs of \<open>QuicIntervalSet\<close>.  A store represents a set of points; adding a range, the
  variant of it that is fast for appends, the difference of two stores and the disjointness
  test act on the points; a set of points has one representation.  The lemmas are the facts
  the buffer rests on: the order in which ranges arrive does not matter, a range seen before
  changes nothing, and what is left of a range after subtracting the store is what is new.
\<close>

locale range_store =
  fixes empty :: 's
    and add :: "'s \<Rightarrow> 'a::linorder interval \<Rightarrow> 's"
    and append :: "'s \<Rightarrow> 'a interval \<Rightarrow> 's"
    and diff :: "'s \<Rightarrow> 's \<Rightarrow> 's option"
    and disjoint :: "'s \<Rightarrow> 'a interval \<Rightarrow> bool"
    and ok :: "'s \<Rightarrow> bool"
    and pts :: "'s \<Rightarrow> 'a set"
  assumes empty_ok: "ok empty"
    and empty_pts: "pts empty = {}"
    and add_ok: "ok S \<Longrightarrow> ok (add S i)"
    and add_pts: "ok S \<Longrightarrow> pts (add S i) = pts S \<union> ivl_pts i"
    and append_ok: "ok S \<Longrightarrow> ok (append S i)"
    and append_pts: "ok S \<Longrightarrow> pts (append S i) = pts S \<union> ivl_pts i"
    and diff_law: "ok S \<Longrightarrow> ok T \<Longrightarrow> \<exists>R. diff S T = Some R \<and> ok R \<and> pts R = pts S - pts T"
    and disjoint_law: "ok S \<Longrightarrow> disjoint S i \<longleftrightarrow> pts S \<inter> ivl_pts i = {}"
    and canonical: "ok S \<Longrightarrow> ok T \<Longrightarrow> pts S = pts T \<Longrightarrow> S = T"
begin

lemma append_eq_add: "ok S \<Longrightarrow> append S i = add S i"
  by (rule canonical) (simp_all add: append_ok add_ok append_pts add_pts)

lemma add_seen: "ok S \<Longrightarrow> ivl_pts i \<subseteq> pts S \<Longrightarrow> add S i = S"
  by (rule canonical) (auto simp: add_ok add_pts)

lemma add_all: "ok S \<Longrightarrow> ok (foldl add S rs) \<and> pts (foldl add S rs) = pts S \<union> (\<Union>r \<in> set rs. ivl_pts r)"
  by (induction rs arbitrary: S) (auto simp: add_ok add_pts)

lemma add_order_irrelevant:
  "ok S \<Longrightarrow> set rs = set qs \<Longrightarrow> foldl add S rs = foldl add S qs"
  by (rule canonical) (simp_all add: add_all)

lemma add_permuted: "ok S \<Longrightarrow> mset rs = mset qs \<Longrightarrow> foldl add S rs = foldl add S qs"
  by (rule add_order_irrelevant) (auto dest: mset_eq_setD)

lemma fresh:
  assumes "ok S"
  obtains R where "diff (add empty i) S = Some R" "ok R" "pts R = ivl_pts i - pts S"
  using diff_law [of "add empty i" S] assms by (auto simp: add_ok add_pts empty_ok empty_pts)

lemma fresh_disjoint:
  assumes "ok S" "disjoint S i"
  shows "diff (add empty i) S = Some (add empty i)"
proof -
  obtain R where R: "diff (add empty i) S = Some R" "ok R" "pts R = ivl_pts i - pts S"
    by (rule fresh [OF assms(1)])
  with assms have "pts R = pts (add empty i)"
    by (auto simp: disjoint_law add_pts empty_ok empty_pts)
  with R show ?thesis using canonical [of R "add empty i"] by (simp add: add_ok empty_ok)
qed

end

end
