(* ===== verification/Interval_Set_Algebra.thy ===== *)
theory Interval_Set_Algebra
  imports Interval_Set_Lookup Range_Store
begin

text \<open>
  The operations of \<open>QuicIntervalSet\<close> that walk two sets at once (\<open>Intersection\<close>,
  \<open>Intersects\<close>, \<open>Difference\<close>, \<open>Complement\<close>).  The walks are loops over the
  iterators \<open>mine\<close> and \<open>theirs\<close>; on sets that satisfy the class invariant they
  return, keep the invariant and compute the operation on points.
\<close>

section \<open>The walk over two sets\<close>

definition find_intersection_candidate :: "'a::linorder iset \<Rightarrow> 'a interval \<Rightarrow> 'a iter" where
  "find_intersection_candidate S i =
     (let mine = set_upper_bound S i in if mine \<noteq> S then iter_prev S mine else mine)"

definition find_intersection_candidate_set :: "'a::linorder iset \<Rightarrow> 'a iset \<Rightarrow> 'a iter" where
  "find_intersection_candidate_set S T = find_intersection_candidate S (hd T)"

text \<open>
  \<open>FindNextIntersectingPairImpl\<close>: \<open>on_hole x a b\<close> is told the intervals from \<open>a\<close>
  up to \<open>b\<close> that meet nothing of \<open>y\<close>.  The result is the flag, the set and the two
  iterators.
\<close>

partial_function (option) find_next_loop ::
  "('a::linorder iset \<Rightarrow> 'a iter \<Rightarrow> 'a iter \<Rightarrow> 'a iset) \<Rightarrow> 'a iset \<Rightarrow> 'a iter \<Rightarrow> 'a iter \<Rightarrow>
    (bool \<times> 'a iset \<times> 'a iter \<times> 'a iter) option" where
  "find_next_loop on_hole S mine theirs =
     (if ivl_intersects (hd mine) (hd theirs) then Some (True, S, mine, theirs)
      else
        let mine' = dropWhile (\<lambda>m. imax m \<le> imin (hd theirs)) mine;
            S1 = on_hole S mine mine'
        in if mine' = [] then Some (False, S1, mine', theirs)
           else
             let theirs' = dropWhile (\<lambda>t. imax t \<le> imin (hd mine')) theirs
             in if theirs' = [] then Some (False, on_hole S1 mine' [], mine', theirs')
                else find_next_loop on_hole S1 mine' theirs')"

definition find_next_pair ::
  "('a::linorder iset \<Rightarrow> 'a iter \<Rightarrow> 'a iter \<Rightarrow> 'a iset) \<Rightarrow> 'a iset \<Rightarrow> 'a iter \<Rightarrow> 'a iter \<Rightarrow>
    (bool \<times> 'a iset \<times> 'a iter \<times> 'a iter) option" where
  "find_next_pair on_hole S mine theirs =
     (if mine = [] \<or> theirs = [] then Some (False, S, mine, theirs)
      else find_next_loop on_hole S mine theirs)"

definition no_hole :: "'a iset \<Rightarrow> 'a iter \<Rightarrow> 'a iter \<Rightarrow> 'a iset" where
  "no_hole S a b = S"

definition iset_intersects :: "'a::{linorder,zero} iset \<Rightarrow> 'a iset \<Rightarrow> bool option" where
  "iset_intersects S T =
     (if \<not> ivl_intersects (iset_spanning S) (iset_spanning T) then Some False
      else
        let mine = find_intersection_candidate_set S T
        in if mine = [] then Some False
           else let theirs = find_intersection_candidate T (hd mine)
                in map_option fst (find_next_pair no_hole S mine theirs))"

section \<open>Difference and complement\<close>

partial_function (option) difference_loop ::
  "'a::{linorder,zero} iset \<Rightarrow> 'a iter \<Rightarrow> 'a iter \<Rightarrow> 'a iset option" where
  "difference_loop S mine0 theirs0 =
     Option.bind (find_next_pair no_hole S mine0 theirs0) (\<lambda>(found, _, mine, theirs).
       if \<not> found then Some S
       else
         let i = hd mine;
             S1 = set_erase S mine;
             (r, lo, hi) = ivl_difference i (hd theirs);
             S2 = (if \<not> ivl_empty lo then set_insert S1 lo else S1);
             S3 = (if \<not> ivl_empty hi then set_insert S2 hi else S2)
         in difference_loop S3 (if \<not> ivl_empty hi then set_find S3 hi else tl mine) theirs)"

definition iset_difference :: "'a::{linorder,zero} iset \<Rightarrow> 'a iset \<Rightarrow> 'a iset option" where
  "iset_difference S T =
     (if \<not> ivl_intersects (iset_spanning S) (iset_spanning T) then Some S
      else
        let mine = find_intersection_candidate_set S T
        in if mine = [] then Some S
           else let theirs = find_intersection_candidate_set T S
                in difference_loop S mine theirs)"

definition iset_difference_ivl :: "'a::{linorder,zero} iset \<Rightarrow> 'a interval \<Rightarrow> 'a iset option" where
  "iset_difference_ivl S i =
     (if \<not> ivl_intersects (iset_spanning S) i then Some S
      else iset_difference S (iset_add [] i))"

definition iset_difference_range :: "'a::{linorder,zero} iset \<Rightarrow> 'a \<Rightarrow> 'a \<Rightarrow> 'a iset option" where
  "iset_difference_range S lo hi = iset_difference_ivl S (Interval lo hi)"

definition iset_complement :: "'a::{linorder,zero} iset \<Rightarrow> 'a \<Rightarrow> 'a \<Rightarrow> 'a iset option" where
  "iset_complement S lo hi = iset_difference (iset_add_range [] lo hi) S"

section \<open>Intersection\<close>

text \<open>
  The inner loop walks \<open>theirs\<close> while its interval meets \<open>i\<close> and inserts the
  intersections; it leaves the set, the iterator to the last insertion and \<open>theirs\<close>.
\<close>

fun intersection_inner ::
  "'a::linorder interval \<Rightarrow> 'a iset \<Rightarrow> 'a iter \<Rightarrow> 'a iter \<Rightarrow> 'a iset \<times> 'a iter \<times> 'a iter" where
  "intersection_inner i S mine [] = (S, mine, [])"
| "intersection_inner i S mine (t # theirs) =
     (case ivl_intersects_out i t of
        None \<Rightarrow> (S, mine, t # theirs)
      | Some x \<Rightarrow> let S1 = set_insert S x in intersection_inner i S1 (set_find S1 x) theirs)"

partial_function (option) intersection_loop ::
  "'a::linorder iset \<Rightarrow> 'a iset \<Rightarrow> 'a iter \<Rightarrow> 'a iter \<Rightarrow> 'a iset option" where
  "intersection_loop T S mine0 theirs0 =
     Option.bind (find_next_pair set_erase_range S mine0 theirs0) (\<lambda>(found, S0, mine, theirs).
       if \<not> found then Some S0
       else
         let (S1, last, theirs1) = intersection_inner (hd mine) (set_erase S0 mine) [] theirs
         in intersection_loop T S1 (tl last) (iter_prev T theirs1))"

definition iset_intersection :: "'a::{linorder,zero} iset \<Rightarrow> 'a iset \<Rightarrow> 'a iset option" where
  "iset_intersection S T =
     (if \<not> ivl_intersects (iset_spanning S) (iset_spanning T) then Some []
      else
        let mine = find_intersection_candidate_set S T;
            S1 = set_erase_range S S mine;
            theirs = find_intersection_candidate_set T S1
        in intersection_loop T S1 mine theirs)"

section \<open>What the walk finds\<close>

lemma iset_pts_ge_hd: "iset_inv S \<Longrightarrow> S \<noteq> [] \<Longrightarrow> p \<in> iset_pts S \<Longrightarrow> imin (hd S) \<le> p"
  using iset_pts_bounds by (cases S) auto

lemma iset_inv_suffix: "iset_inv S \<Longrightarrow> iset_inv (dropWhile P S)"
  by (metis iset_inv_append takeWhile_dropWhile_id)

text \<open>Skipping the intervals that end before the head of the other set loses no common point.\<close>

lemma skip_disjoint:
  assumes "iset_inv T" "T \<noteq> []"
  shows "iset_pts (takeWhile (\<lambda>m. imax m \<le> imin (hd T)) S) \<inter> iset_pts T = {}"
proof -
  have "p < imin (hd T)" if "p \<in> iset_pts (takeWhile (\<lambda>m. imax m \<le> imin (hd T)) S)" for p
    using that by (auto simp: iset_pts_def ivl_pts_def dest: set_takeWhileD)
  then show ?thesis using iset_pts_ge_hd [OF assms] by force
qed

lemma not_intersects_skip:
  assumes "iset_inv S" "S \<noteq> []" "iset_inv T" "T \<noteq> []" "\<not> ivl_intersects (hd S) (hd T)"
  shows "imax (hd S) \<le> imin (hd T) \<or> imax (hd T) \<le> imin (hd S)"
  using assms iset_invD [of S "hd S"] iset_invD [of T "hd T"]
  by (auto simp: ivl_intersects_def ivl_empty_def not_less)

lemma dropWhile_shorter: "xs \<noteq> [] \<Longrightarrow> P (hd xs) \<Longrightarrow> length (dropWhile P xs) < length xs"
  by (cases xs) (auto simp: length_dropWhile_le less_Suc_eq_le)

definition walk_result ::
  "('a iter \<Rightarrow> 'a iter) \<Rightarrow> 'a::linorder iset \<Rightarrow> 'a iter \<Rightarrow> 'a iter \<Rightarrow>
    (bool \<times> 'a iset \<times> 'a iter \<times> 'a iter) option \<Rightarrow> bool" where
  "walk_result f pre mine theirs r \<longleftrightarrow>
     (\<exists>d m e t. mine = d @ m \<and> theirs = e @ t \<and>
        iset_pts d \<inter> iset_pts theirs = {} \<and> iset_pts e \<inter> iset_pts mine = {} \<and>
        (m \<noteq> [] \<and> t \<noteq> [] \<and> ivl_intersects (hd m) (hd t) \<and> r = Some (True, pre @ f d @ m, m, t) \<or>
         iset_pts mine \<inter> iset_pts theirs = {} \<and> r = Some (False, pre @ f mine, m, t)))"

lemma walk_result_step:
  assumes "walk_result f (pre @ f d) m t r" "\<And>a b. f (a @ b) = f a @ f b"
    "iset_pts d \<inter> iset_pts (e @ t) = {}" "iset_pts e \<inter> iset_pts m = {}"
  shows "walk_result f pre (d @ m) (e @ t) r"
proof -
  from assms(1) obtain d' m' e' t' where
      split: "m = d' @ m'" "t = e' @ t'" and
      dis: "iset_pts d' \<inter> iset_pts t = {}" "iset_pts e' \<inter> iset_pts m = {}" and
      res: "m' \<noteq> [] \<and> t' \<noteq> [] \<and> ivl_intersects (hd m') (hd t') \<and>
          r = Some (True, (pre @ f d) @ f d' @ m', m', t') \<or>
        iset_pts m \<inter> iset_pts t = {} \<and> r = Some (False, (pre @ f d) @ f m, m', t')"
    unfolding walk_result_def by blast
  have "d @ m = (d @ d') @ m'" "e @ t = (e @ e') @ t'" using split by simp_all
  moreover have "iset_pts (d @ d') \<inter> iset_pts (e @ t) = {}"
    using dis assms(3,4) split(1) by auto
  moreover have "iset_pts (e @ e') \<inter> iset_pts (d @ m) = {}"
    using dis assms(3,4) split(2) by auto
  moreover have "m' \<noteq> [] \<and> t' \<noteq> [] \<and> ivl_intersects (hd m') (hd t') \<and>
        r = Some (True, pre @ f (d @ d') @ m', m', t') \<or>
      iset_pts (d @ m) \<inter> iset_pts (e @ t) = {} \<and> r = Some (False, pre @ f (d @ m), m', t')"
    using res assms(2-4) by auto
  ultimately show ?thesis unfolding walk_result_def by blast
qed

lemma find_next_loop_correct:
  assumes hole: "\<And>pre d m. on_hole (pre @ d @ m) (d @ m) m = pre @ f d @ m"
    and f: "\<And>a b. f (a @ b) = f a @ f b" "f [] = []"
  shows "iset_inv mine \<Longrightarrow> iset_inv theirs \<Longrightarrow> mine \<noteq> [] \<Longrightarrow> theirs \<noteq> [] \<Longrightarrow>
    walk_result f pre mine theirs (find_next_loop on_hole (pre @ mine) mine theirs)"
proof (induction "length mine + length theirs" arbitrary: mine theirs pre rule: less_induct)
  case less
  note inv = less.prems
  show ?case
  proof (cases "ivl_intersects (hd mine) (hd theirs)")
    case True
    then show ?thesis
      using inv f(2) unfolding walk_result_def
      by (intro exI [of _ "[]"] exI [of _ mine] exI [of _ theirs])
        (simp add: find_next_loop.simps [of on_hole])
  next
    case False
    let ?P = "\<lambda>m. imax m \<le> imin (hd theirs)"
    define d m where "d = takeWhile ?P mine" and "m = dropWhile ?P mine"
    let ?Q = "\<lambda>t. imax t \<le> imin (hd m)"
    define e t where "e = takeWhile ?Q theirs" and "t = dropWhile ?Q theirs"
    have mine: "mine = d @ m" and theirs: "theirs = e @ t" by (simp_all add: d_def m_def e_def t_def)
    have dis: "iset_pts d \<inter> iset_pts theirs = {}"
      unfolding d_def by (rule skip_disjoint [OF inv(2,4)])
    have hole1: "on_hole (pre @ mine) mine m = pre @ f d @ m"
      using hole [of pre d m] mine by simp
    show ?thesis
    proof (cases "m = []")
      case True
      then have "on_hole (pre @ mine) mine m = pre @ f mine" using hole1 mine f by simp
      then have "find_next_loop on_hole (pre @ mine) mine theirs = Some (False, pre @ f mine, [], theirs)"
        using False True by (subst find_next_loop.simps) (simp flip: m_def)
      then show ?thesis
        using dis mine True unfolding walk_result_def
        by (intro exI [of _ mine] exI [of _ "[]"] exI [of _ theirs]) auto
    next
      case m: False
      have inv_m: "iset_inv m" unfolding m_def by (rule iset_inv_suffix [OF inv(1)])
      have dis2: "iset_pts e \<inter> iset_pts m = {}"
        unfolding e_def by (rule skip_disjoint [OF inv_m m])
      show ?thesis
      proof (cases "t = []")
        case True
        have "find_next_loop on_hole (pre @ mine) mine theirs =
            Some (False, on_hole (pre @ f d @ m) m [], m, [])"
          using False m True hole1
          by (simp add: find_next_loop.simps [of on_hole] flip: m_def t_def)
        also have "on_hole (pre @ f d @ m) m [] = pre @ f mine"
          using hole [of "pre @ f d" m "[]"] mine f by simp
        finally show ?thesis
          using dis dis2 mine theirs True unfolding walk_result_def
          by (intro exI [of _ d] exI [of _ m] exI [of _ theirs] exI [of _ "[]"]) auto
      next
        case t: False
        have inv_t: "iset_inv t" unfolding t_def by (rule iset_inv_suffix [OF inv(2)])
        have "length m + length t < length mine + length theirs"
        proof (cases "imax (hd mine) \<le> imin (hd theirs)")
          case True
          then have "length m < length mine"
            unfolding m_def by (intro dropWhile_shorter) (use inv in auto)
          then show ?thesis using theirs by simp
        next
          case no: False
          then have "m = mine" unfolding m_def using inv(3) by (cases mine) auto
          moreover from this have "length t < length theirs"
            using not_intersects_skip [OF inv(1,3,2,4) False] no inv
            unfolding t_def by (intro dropWhile_shorter) auto
          ultimately show ?thesis by simp
        qed
        from less.hyps [OF this inv_m inv_t m t, of "pre @ f d"]
        have "walk_result f (pre @ f d) m t (find_next_loop on_hole (pre @ f d @ m) m t)" by simp
        moreover have "find_next_loop on_hole (pre @ mine) mine theirs =
            find_next_loop on_hole (pre @ f d @ m) m t"
          using False m t hole1
          by (subst find_next_loop.simps) (simp flip: m_def t_def)
        ultimately show ?thesis
          using walk_result_step [of f pre d m t _ e] f(1) dis dis2 mine theirs by simp
      qed
    qed
  qed
qed

lemma find_next_pair_correct:
  assumes "\<And>pre d m. on_hole (pre @ d @ m) (d @ m) m = pre @ f d @ m"
    and "\<And>a b. f (a @ b) = f a @ f b" "f [] = []"
    and "iset_inv mine" "iset_inv theirs" "mine \<noteq> []" "theirs \<noteq> []"
  shows "walk_result f pre mine theirs (find_next_pair on_hole (pre @ mine) mine theirs)"
  using find_next_loop_correct [of on_hole f mine theirs pre] assms by (simp add: find_next_pair_def)

section \<open>Difference computes the difference\<close>

abbreviation keep_ivl :: "'a::linorder interval \<Rightarrow> 'a interval list" where
  "keep_ivl i \<equiv> (if ivl_empty i then [] else [i])"

lemma ivl_pts_empty: "ivl_empty i \<Longrightarrow> ivl_pts i = {}"
  by simp

lemma keep_ivl_pts: "iset_pts (keep_ivl i) = ivl_pts i"
  by (cases "ivl_empty i") (simp_all add: ivl_pts_empty del: ivl_empty_pts)

text \<open>One round of the loop replaces the head by what the other interval leaves of it.\<close>

lemma difference_step:
  assumes inv: "iset_inv (P @ i # ms)" and meet: "ivl_intersects i b"
    and diff: "ivl_difference i b = (r, lo, hi)"
  shows "iset_inv (P @ keep_ivl lo @ keep_ivl hi @ ms)"
    and "\<not> ivl_empty lo \<Longrightarrow> set_insert (P @ ms) lo = P @ lo # ms"
    and "\<not> ivl_empty hi \<Longrightarrow> set_insert (P @ keep_ivl lo @ ms) hi = P @ keep_ivl lo @ hi # ms"
    and "\<not> ivl_empty hi \<Longrightarrow> set_find (P @ keep_ivl lo @ hi # ms) hi = hi # ms"
proof -
  have r: r using ivl_difference_flag [OF diff] meet by simp
  have b: "imin b < imax b" using meet by (auto simp: ivl_intersects_def ivl_empty_def)
  have i: "imin i < imax i" and P: "\<forall>a \<in> set P. gap a i \<and> imin a < imax a"
    and ms: "\<forall>c \<in> set ms. gap i c" and parts: "iset_inv P" "iset_inv ms"
    and across: "\<forall>a \<in> set P. \<forall>c \<in> set ms. gap a c"
    using inv by (auto simp: iset_inv_append iset_inv_Cons dest: iset_invD)
  have lo: "imin lo = imin i \<and> imax lo \<le> imax i \<and> imax lo \<le> imin b \<and> imin lo < imax lo"
    if "\<not> ivl_empty lo"
    using ivl_difference_lo [OF diff that] r that by (auto simp: ivl_empty_def)
  have hi: "imax hi = imax i \<and> imin i \<le> imin hi \<and> imin hi = imax b \<and> imin hi < imax hi"
    if "\<not> ivl_empty hi"
    using ivl_difference_hi [OF diff that] that by (auto simp: ivl_empty_def)
  have P_lo: "\<forall>a \<in> set P. gap a lo" if "\<not> ivl_empty lo" using P lo [OF that] by simp
  have lo_ms: "\<forall>c \<in> set ms. gap lo c" if "\<not> ivl_empty lo"
    using ms lo [OF that] by (auto intro: le_less_trans)
  have P_hi: "\<forall>a \<in> set P. gap a hi" if "\<not> ivl_empty hi"
    using P hi [OF that] by (auto intro: less_le_trans)
  have hi_ms: "\<forall>c \<in> set ms. gap hi c" if "\<not> ivl_empty hi" using ms hi [OF that] by simp
  have lo_hi: "gap lo hi" if "\<not> ivl_empty lo" "\<not> ivl_empty hi"
    using lo [OF that(1)] hi [OF that(2)] b by (metis le_less_trans)
  have lt: "a < c" if "gap a c" "imin a < imax a" for a c :: "'a interval"
    using that by (auto simp: interval_less_iff)
  show "iset_inv (P @ keep_ivl lo @ keep_ivl hi @ ms)"
    using parts across lo hi P_lo lo_ms P_hi hi_ms lo_hi by (auto simp: iset_inv_append iset_inv_Cons)
  show "set_insert (P @ ms) lo = P @ lo # ms" if "\<not> ivl_empty lo"
    using P P_lo [OF that] lo_ms [OF that] lo [OF that] by (intro set_insert_mid) (auto intro: lt)
  have before: "\<forall>a \<in> set (P @ keep_ivl lo). a < hi" if "\<not> ivl_empty hi"
    using P P_hi [OF that] lo_hi [OF _ that] lo by (auto intro: lt)
  show "set_insert (P @ keep_ivl lo @ ms) hi = P @ keep_ivl lo @ hi # ms" if "\<not> ivl_empty hi"
  proof -
    have "\<forall>c \<in> set ms. hi < c" using hi_ms [OF that] hi [OF that] lt by blast
    from set_insert_mid [OF before [OF that] this] show ?thesis by simp
  qed
  show "set_find (P @ keep_ivl lo @ hi # ms) hi = hi # ms" if "\<not> ivl_empty hi"
  proof -
    have "hi \<notin> set (P @ keep_ivl lo)" using before [OF that] by (metis less_irrefl)
    from set_find_mid [OF this, of ms] show ?thesis by simp
  qed
qed

lemma iset_inv_cut: "iset_inv (P @ m) \<Longrightarrow> iset_inv m"
  by (simp add: iset_inv_append)

lemma ivl_lo_disjoint:
  assumes "ivl_intersects i (hd t)" "ivl_difference i (hd t) = (r, lo, hi)" "iset_inv t" "t \<noteq> []"
  shows "ivl_pts lo \<inter> iset_pts t = {}"
proof (cases "ivl_empty lo")
  case False
  then have "imax lo \<le> imin (hd t)"
    using ivl_difference_lo [OF assms(2)] ivl_difference_flag [OF assms(2)] assms(1) by simp
  then show ?thesis using iset_pts_ge_hd [OF assms(3,4)] by (force simp: ivl_pts_def)
qed (simp add: ivl_pts_empty del: ivl_empty_pts)

definition heads_meet :: "'a::linorder iter \<Rightarrow> 'a iter \<Rightarrow> nat" where
  "heads_meet m t = (if m \<noteq> [] \<and> t \<noteq> [] \<and> ivl_intersects (hd m) (hd t) then 1 else 0)"

lemma difference_loop_correct:
  "iset_inv (pre @ mine) \<Longrightarrow> iset_inv theirs \<Longrightarrow>
    \<exists>R. difference_loop (pre @ mine) mine theirs = Some R \<and> iset_inv R \<and>
      iset_pts R = iset_pts pre \<union> (iset_pts mine - iset_pts theirs)"
proof (induction "2 * (length mine + length theirs) + heads_meet mine theirs"
    arbitrary: pre mine theirs rule: less_induct)
  case less
  show ?case
  proof (cases "mine = [] \<or> theirs = []")
    case True
    then have "difference_loop (pre @ mine) mine theirs = Some (pre @ mine)"
      by (subst difference_loop.simps) (auto simp: find_next_pair_def)
    with True less.prems show ?thesis by auto
  next
    case False
    have "walk_result id pre mine theirs (find_next_pair no_hole (pre @ mine) mine theirs)"
      using less.prems False by (intro find_next_pair_correct) (auto simp: no_hole_def iset_inv_append)
    then obtain d m e t where split: "mine = d @ m" "theirs = e @ t" and
        dis: "iset_pts d \<inter> iset_pts theirs = {}" "iset_pts e \<inter> iset_pts mine = {}" and
        res: "m \<noteq> [] \<and> t \<noteq> [] \<and> ivl_intersects (hd m) (hd t) \<and>
            find_next_pair no_hole (pre @ mine) mine theirs = Some (True, pre @ d @ m, m, t) \<or>
          iset_pts mine \<inter> iset_pts theirs = {} \<and>
            find_next_pair no_hole (pre @ mine) mine theirs = Some (False, pre @ mine, m, t)"
      unfolding walk_result_def id_def by blast
    show ?thesis
    proof (cases "m \<noteq> [] \<and> t \<noteq> [] \<and> ivl_intersects (hd m) (hd t) \<and>
        find_next_pair no_hole (pre @ mine) mine theirs = Some (True, pre @ d @ m, m, t)")
      case no: False
      with res have fn: "find_next_pair no_hole (pre @ mine) mine theirs = Some (False, pre @ mine, m, t)"
        and empty: "iset_pts mine \<inter> iset_pts theirs = {}" by auto
      have "difference_loop (pre @ mine) mine theirs = Some (pre @ mine)"
        by (subst difference_loop.simps) (simp add: fn)
      with less.prems empty show ?thesis by auto
    next
      case yes: True
      then obtain i ms where m: "m = i # ms" by (cases m) auto
      from yes obtain b ts where t: "t = b # ts" by (cases t) auto
      from yes m t have meet: "ivl_intersects i b" by simp
      obtain r lo hi where diff: "ivl_difference i b = (r, lo, hi)" by (cases "ivl_difference i b") auto
      have inv: "iset_inv ((pre @ d) @ i # ms)" using less.prems split m by simp
      have inv_t: "iset_inv t" using less.prems split by (simp add: iset_inv_append)
      note step = difference_step [OF inv meet diff]
      let ?pre = "(pre @ d) @ keep_ivl lo" and ?mine = "keep_ivl hi @ ms"
      have "difference_loop (pre @ mine) mine theirs = difference_loop (?pre @ ?mine) ?mine t"
        using split(1) yes m t step(2-4) diff set_erase_mid [of "pre @ d" i ms]
        by (subst difference_loop.simps) (cases "ivl_empty lo"; cases "ivl_empty hi"; simp add: Let_def)
      moreover have "2 * (length ?mine + length t) + heads_meet ?mine t
          < 2 * (length mine + length theirs) + heads_meet mine theirs"
      proof -
        have hi: "heads_meet ?mine t = 0" if "\<not> ivl_empty hi"
          using that ivl_difference_hi [OF diff that] t
          by (auto simp: heads_meet_def ivl_intersects_def)
        have "heads_meet ?mine t \<le> 1" by (simp add: heads_meet_def)
        moreover have "heads_meet mine theirs = 1" if "d = []" "e = []"
          using that split yes by (simp add: heads_meet_def)
        ultimately show ?thesis
          using hi split m by (cases "ivl_empty hi"; cases d; cases e) auto
      qed
      moreover have "iset_inv (?pre @ ?mine)" using step(1) by simp
      ultimately obtain R where R: "difference_loop (pre @ mine) mine theirs = Some R" "iset_inv R"
          and pts: "iset_pts R = iset_pts ?pre \<union> (iset_pts ?mine - iset_pts t)"
        using less.hyps [of ?mine t ?pre] inv_t by auto
      have "ivl_pts lo \<inter> iset_pts t = {}"
        using ivl_lo_disjoint [of i t r lo hi] meet diff inv_t t by simp
      moreover have "ivl_pts lo \<union> ivl_pts hi = ivl_pts i - ivl_pts b"
        by (rule ivl_difference_pts [OF diff])
      moreover have "ivl_pts b \<subseteq> iset_pts t" using t by simp
      ultimately have "iset_pts R = iset_pts pre \<union> (iset_pts mine - iset_pts theirs)"
        using pts dis split m by (simp only: iset_pts_simps keep_ivl_pts) blast
      with R show ?thesis by blast
    qed
  qed
qed

text \<open>The candidates: nothing before them can meet the other set.\<close>

lemma find_candidate:
  assumes "iset_inv S" "S \<noteq> []"
  obtains pre mine where "S = pre @ mine" "find_intersection_candidate S i = mine" "mine \<noteq> []"
    "\<forall>p \<in> iset_pts pre. p < imin i"
proof -
  obtain A B where S: "S = A @ B" "set_upper_bound S i = B" and A: "\<forall>p \<in> set A. p \<le> i"
    by (rule set_upper_bound_split [of S i]) blast
  show thesis
  proof (cases "A = []")
    case True
    then show thesis
      using that [of "[]" S] S assms by (simp add: find_intersection_candidate_def)
  next
    case False
    have inv_A: "iset_inv A" using assms(1) S(1) by (simp add: iset_inv_append)
    have "imin (last A) \<le> imin i" using A False by (intro interval_le_imin) simp
    then have "\<forall>p \<in> iset_pts (butlast A). p < imin i"
      using iset_inv_butlast_last(3) [OF inv_A False] by (fastforce simp: iset_pts_def ivl_pts_def)
    moreover have "S = butlast A @ last A # B" using S False by simp
    moreover have "find_intersection_candidate S i = last A # B"
      using S False by (simp add: find_intersection_candidate_def iter_prev_last Let_def)
    ultimately show thesis using that [of "butlast A" "last A # B"] by simp
  qed
qed

lemma iset_pts_below_last:
  assumes "iset_inv S" "S \<noteq> []" "p \<in> iset_pts S"
  shows "p < imax (last S)"
proof -
  note last = iset_inv_butlast_last [OF assms(1,2)]
  from assms(3) last(4) consider "p \<in> iset_pts (butlast S)" | "p \<in> ivl_pts (last S)" by auto
  then show ?thesis
  proof cases
    case 1
    then obtain j where "j \<in> set (butlast S)" "p < imax j" by (auto simp: iset_pts_def ivl_pts_def)
    with last(2,3) show ?thesis by (meson order.strict_trans)
  qed (simp add: ivl_pts_def)
qed

lemma iset_pts_spanning:
  fixes S :: "'a::{linorder,zero} iset"
  assumes "iset_inv S"
  shows "iset_pts S \<subseteq> ivl_pts (iset_spanning S)"
  using iset_pts_below_last [OF assms] iset_pts_ge_hd [OF assms]
  by (cases "S = []") (auto simp: iset_spanning_def ivl_pts_def)

lemma spanning_disjoint:
  fixes S T :: "'a::{linorder,zero} iset"
  assumes "iset_inv S" "iset_inv T" "\<not> ivl_intersects (iset_spanning S) (iset_spanning T)"
  shows "iset_pts S \<inter> iset_pts T = {}"
  using assms iset_pts_spanning [OF assms(1)] iset_pts_spanning [OF assms(2)]
  by (auto simp: ivl_intersects_pts)

lemma spanning_nonempty:
  "ivl_intersects (iset_spanning S) j \<Longrightarrow> S \<noteq> []"
  "ivl_intersects j (iset_spanning S) \<Longrightarrow> S \<noteq> []"
  by (auto simp: iset_spanning_def ivl_defs)

lemma before_disjoint:
  "\<forall>p \<in> iset_pts pre. p < imin (hd S) \<Longrightarrow> iset_inv S \<Longrightarrow> S \<noteq> [] \<Longrightarrow> iset_pts pre \<inter> iset_pts S = {}"
  using iset_pts_ge_hd [of S] by fastforce

lemma iset_difference_correct:
  fixes S T :: "'a::{linorder,zero} iset"
  assumes inv: "iset_inv S" "iset_inv T"
  shows "\<exists>R. iset_difference S T = Some R \<and> iset_inv R \<and> iset_pts R = iset_pts S - iset_pts T"
proof (cases "ivl_intersects (iset_spanning S) (iset_spanning T)")
  case False
  then show ?thesis using inv spanning_disjoint [OF inv False] by (auto simp: iset_difference_def)
next
  case True
  have "S \<noteq> []" "T \<noteq> []" using spanning_nonempty True by blast+
  obtain pre mine where S: "S = pre @ mine" "find_intersection_candidate S (hd T) = mine"
      and mine: "mine \<noteq> []" and pre: "\<forall>p \<in> iset_pts pre. p < imin (hd T)"
    by (rule find_candidate [OF inv(1) \<open>S \<noteq> []\<close>, of "hd T"])
  obtain e t where T: "T = e @ t" "find_intersection_candidate T (hd S) = t"
      and e: "\<forall>p \<in> iset_pts e. p < imin (hd S)"
    by (rule find_candidate [OF inv(2) \<open>T \<noteq> []\<close>, of "hd S"])
  have "iset_pts pre \<inter> iset_pts T = {}" "iset_pts e \<inter> iset_pts S = {}"
    using before_disjoint [OF pre inv(2) \<open>T \<noteq> []\<close>] before_disjoint [OF e inv(1) \<open>S \<noteq> []\<close>] by auto
  then have pts: "iset_pts pre \<union> (iset_pts mine - iset_pts t) = iset_pts S - iset_pts T"
    using S(1) T(1) by auto
  have "iset_inv (pre @ mine)" "iset_inv t" using inv S(1) T(1) by (simp_all add: iset_inv_append)
  from difference_loop_correct [OF this] obtain R where
    "difference_loop S mine t = Some R" "iset_inv R" "iset_pts R = iset_pts S - iset_pts T"
    using pts S(1) by auto
  then show ?thesis
    using True mine S(2) T(2) by (simp add: iset_difference_def find_intersection_candidate_set_def)
qed

lemma iset_difference_ivl_correct:
  fixes S :: "'a::{linorder,zero} iset"
  assumes "iset_inv S"
  shows "\<exists>R. iset_difference_ivl S i = Some R \<and> iset_inv R \<and> iset_pts R = iset_pts S - ivl_pts i"
proof (cases "ivl_intersects (iset_spanning S) i")
  case False
  then have "iset_pts S \<inter> ivl_pts i = {}"
    using iset_pts_spanning [OF assms] by (auto simp: ivl_intersects_pts)
  with False assms show ?thesis by (auto simp: iset_difference_ivl_def)
next
  case True
  then show ?thesis
    using iset_difference_correct [OF assms, of "iset_add [] i"] iset_add_correct [of "[]" i]
    by (auto simp: iset_difference_ivl_def)
qed

lemma iset_complement_correct:
  fixes S :: "'a::{linorder,zero} iset"
  assumes "iset_inv S"
  shows "\<exists>R. iset_complement S lo hi = Some R \<and> iset_inv R \<and> iset_pts R = {lo..<hi} - iset_pts S"
  using iset_difference_correct [of "iset_add [] (Interval lo hi)" S] iset_add_correct [of "[]" "Interval lo hi"] assms
  by (auto simp: iset_complement_def iset_add_range_def ivl_pts_def)

lemma iset_intersects_correct:
  fixes S T :: "'a::{linorder,zero} iset"
  assumes inv: "iset_inv S" "iset_inv T"
  shows "iset_intersects S T = Some (iset_pts S \<inter> iset_pts T \<noteq> {})"
proof (cases "ivl_intersects (iset_spanning S) (iset_spanning T)")
  case False
  then show ?thesis using spanning_disjoint [OF inv False] by (auto simp: iset_intersects_def)
next
  case True
  have ne: "S \<noteq> []" "T \<noteq> []" using spanning_nonempty True by blast+
  obtain pre mine where S: "S = pre @ mine" "find_intersection_candidate S (hd T) = mine"
      and mine: "mine \<noteq> []" and pre: "\<forall>p \<in> iset_pts pre. p < imin (hd T)"
    by (rule find_candidate [OF inv(1) ne(1), of "hd T"])
  obtain e t where T: "T = e @ t" "find_intersection_candidate T (hd mine) = t"
      and t: "t \<noteq> []" and e: "\<forall>p \<in> iset_pts e. p < imin (hd mine)"
    by (rule find_candidate [OF inv(2) ne(2), of "hd mine"])
  have inv': "iset_inv mine" "iset_inv t" using inv S(1) T(1) by (simp_all add: iset_inv_append)
  have "iset_pts pre \<inter> iset_pts T = {}" "iset_pts e \<inter> iset_pts mine = {}"
    using before_disjoint [OF pre inv(2) ne(2)] before_disjoint [OF e inv'(1) mine] by auto
  then have pts: "iset_pts S \<inter> iset_pts T = iset_pts mine \<inter> iset_pts t" using S(1) T(1) by auto
  have "walk_result id pre mine t (find_next_pair no_hole (pre @ mine) mine t)"
    using inv' mine t by (intro find_next_pair_correct) (auto simp: no_hole_def)
  then have "map_option fst (find_next_pair no_hole S mine t) = Some (iset_pts mine \<inter> iset_pts t \<noteq> {})"
  proof (unfold walk_result_def S(1) [symmetric], elim exE conjE disjE)
    fix d m e' t'
    assume *: "mine = d @ m" "t = e' @ t'" "m \<noteq> []" "t' \<noteq> []" "ivl_intersects (hd m) (hd t')"
      "find_next_pair no_hole S mine t = Some (True, pre @ id d @ m, m, t')"
    then have "ivl_pts (hd m) \<inter> ivl_pts (hd t') \<noteq> {}" by (simp add: ivl_intersects_pts)
    moreover have "ivl_pts (hd m) \<subseteq> iset_pts mine" "ivl_pts (hd t') \<subseteq> iset_pts t"
      using * by (auto simp: iset_pts_def)
    ultimately have "iset_pts mine \<inter> iset_pts t \<noteq> {}" by blast
    with * show ?thesis by simp
  qed simp
  then show ?thesis
    using True mine S(2) T(2) pts by (simp add: iset_intersects_def find_intersection_candidate_set_def)
qed

section \<open>Intersection computes the intersection\<close>

abbreviation cut_ivl :: "'a::linorder interval \<Rightarrow> 'a interval \<Rightarrow> 'a interval" where
  "cut_ivl i t \<equiv> Interval (max (imin i) (imin t)) (min (imax i) (imax t))"

lemma cut_ivl_pts: "ivl_pts (cut_ivl i t) = ivl_pts i \<inter> ivl_pts t"
  by (auto simp: ivl_pts_def)

lemma cut_ivl_proper: "ivl_intersects i t \<Longrightarrow> imin (cut_ivl i t) < imax (cut_ivl i t)"
  by (auto simp: ivl_intersects_def ivl_empty_def)

lemma intersection_inner_correct:
  assumes "\<forall>p \<in> set P. imin p < imax p" "\<forall>c \<in> set ms. gap i c" "iset_inv t"
    and "\<forall>p \<in> set P. gap p i \<or> (\<forall>u \<in> set t. gap p u)"
  shows "\<exists>us vs. t = us @ vs \<and> (\<forall>u \<in> set us. ivl_intersects i u) \<and>
    (vs \<noteq> [] \<longrightarrow> \<not> ivl_intersects i (hd vs)) \<and>
    intersection_inner i (P @ ms) mine t =
      (P @ map (cut_ivl i) us @ ms, if us = [] then mine else cut_ivl i (last us) # ms, vs)"
  using assms
proof (induction t arbitrary: P mine)
  case (Cons u t)
  show ?case
  proof (cases "ivl_intersects i u")
    case False
    then show ?thesis
      by (intro exI [of _ "[]"] exI [of _ "u # t"]) (simp add: ivl_intersects_out_def)
  next
    case True
    let ?x = "cut_ivl i u"
    note proper = cut_ivl_proper [OF True]
    have before: "\<forall>p \<in> set P. p < ?x"
      using Cons.prems(1,4) by (force simp: interval_less_iff less_max_iff_disj dest: order.strict_trans)
    have after: "\<forall>c \<in> set ms. ?x < c"
    proof
      fix c assume "c \<in> set ms"
      then have "imax i < imin c" using Cons.prems(2) by simp
      moreover have "imax ?x \<le> imax i" by simp
      ultimately show "?x < c" using proper by (auto simp: interval_less_iff)
    qed
    have insert: "set_insert (P @ ms) ?x = (P @ [?x]) @ ms"
      using set_insert_mid [OF before after] by simp
    have find: "set_find ((P @ [?x]) @ ms) ?x = ?x # ms"
      using set_find_mid [of ?x P ms] before by auto
    have next_u: "\<forall>v \<in> set t. gap ?x v"
      using Cons.prems(3) by (auto simp: iset_inv_Cons min_less_iff_disj)
    have "\<exists>us vs. t = us @ vs \<and> (\<forall>u \<in> set us. ivl_intersects i u) \<and>
      (vs \<noteq> [] \<longrightarrow> \<not> ivl_intersects i (hd vs)) \<and>
      intersection_inner i ((P @ [?x]) @ ms) (?x # ms) t =
        ((P @ [?x]) @ map (cut_ivl i) us @ ms,
         if us = [] then ?x # ms else cut_ivl i (last us) # ms, vs)"
      using Cons.prems next_u proper by (intro Cons.IH) (auto simp: iset_inv_Cons)
    then obtain us vs where *: "t = us @ vs" "\<forall>u \<in> set us. ivl_intersects i u"
      "vs \<noteq> [] \<longrightarrow> \<not> ivl_intersects i (hd vs)"
      "intersection_inner i ((P @ [?x]) @ ms) (?x # ms) t =
        ((P @ [?x]) @ map (cut_ivl i) us @ ms,
         if us = [] then ?x # ms else cut_ivl i (last us) # ms, vs)" by blast
    have "intersection_inner i (P @ ms) mine (u # t) =
        intersection_inner i ((P @ [?x]) @ ms) (?x # ms) t"
      using True insert find by (simp add: ivl_intersects_out_def Let_def)
    with * True show ?thesis
      by (intro exI [of _ "u # us"] exI [of _ vs]) auto
  qed
qed simp

lemma cut_run_inv:
  "iset_inv us \<Longrightarrow> \<forall>u \<in> set us. ivl_intersects i u \<Longrightarrow> iset_inv (map (cut_ivl i) us) \<and>
    iset_pts (map (cut_ivl i) us) = ivl_pts i \<inter> iset_pts us"
proof (induction us)
  case (Cons u us)
  then show ?case
    using cut_ivl_proper [of i u] cut_ivl_pts [of i u]
    by (auto simp: iset_inv_Cons min_less_iff_disj less_max_iff_disj)
qed simp

text \<open>What lies behind the run of intersecting intervals, or before its last one.\<close>

lemma intersection_rest:
  assumes "iset_inv (us @ u # vs)" "ivl_intersects i u" "vs \<noteq> [] \<longrightarrow> \<not> ivl_intersects i (hd vs)"
  shows "ivl_pts i \<inter> iset_pts vs = {}"
    and "\<forall>c \<in> set ms. gap i c \<Longrightarrow> iset_pts ms \<inter> iset_pts us = {}"
proof -
  have u: "imin u < imax i" "imin i < imax u" "imin i < imax i"
    using assms(2) by (auto simp: ivl_intersects_def ivl_empty_def)
  have inv_vs: "iset_inv vs" and gaps: "\<forall>v \<in> set vs. gap u v" "\<forall>w \<in> set us. gap w u"
    using assms(1) by (auto simp: iset_inv_append iset_inv_Cons)
  show "ivl_pts i \<inter> iset_pts vs = {}"
  proof (cases "vs = []")
    case False
    then have "gap u (hd vs)" "imin (hd vs) < imax (hd vs)"
      using gaps iset_invD [OF inv_vs, of "hd vs"] by auto
    with False assms(3) u have "imax i \<le> imin (hd vs)"
      by (auto simp: ivl_intersects_def ivl_empty_def not_less dest: order.strict_trans)
    then show ?thesis using iset_pts_ge_hd [OF inv_vs False] by (force simp: ivl_pts_def)
  qed simp
  assume ms: "\<forall>c \<in> set ms. gap i c"
  have "p < imax i" if "p \<in> iset_pts us" for p
    using that gaps(2) u(1) by (auto simp: iset_pts_def ivl_pts_def dest: order.strict_trans)
  moreover have "imax i < p" if "p \<in> iset_pts ms" for p
    using that ms by (auto simp: iset_pts_def ivl_pts_def intro: less_le_trans)
  ultimately show "iset_pts ms \<inter> iset_pts us = {}" by (force dest: order.strict_trans)
qed

lemma intersection_loop_correct:
  "iset_inv (pre @ mine) \<Longrightarrow> iset_inv theirs \<Longrightarrow> theirs \<noteq> [] \<Longrightarrow> T = e0 @ theirs \<Longrightarrow>
    \<exists>R. intersection_loop T (pre @ mine) mine theirs = Some R \<and> iset_inv R \<and>
      iset_pts R = iset_pts pre \<union> (iset_pts mine \<inter> iset_pts theirs)"
proof (induction "length mine" arbitrary: pre mine theirs e0 rule: less_induct)
  case less
  show ?case
  proof (cases "mine = []")
    case True
    then have "intersection_loop T (pre @ mine) mine theirs = Some pre"
      by (subst intersection_loop.simps) (simp add: find_next_pair_def)
    with True less.prems show ?thesis by (simp add: iset_inv_append)
  next
    case mine: False
    have "walk_result (\<lambda>_. []) pre mine theirs (find_next_pair set_erase_range (pre @ mine) mine theirs)"
      using less.prems mine
      by (intro find_next_pair_correct) (auto simp: set_erase_range_def iset_inv_append)
    then obtain d m e t where split: "mine = d @ m" "theirs = e @ t" and
        dis: "iset_pts d \<inter> iset_pts theirs = {}" "iset_pts e \<inter> iset_pts mine = {}" and
        res: "m \<noteq> [] \<and> t \<noteq> [] \<and> ivl_intersects (hd m) (hd t) \<and>
            find_next_pair set_erase_range (pre @ mine) mine theirs = Some (True, pre @ m, m, t) \<or>
          iset_pts mine \<inter> iset_pts theirs = {} \<and>
            find_next_pair set_erase_range (pre @ mine) mine theirs = Some (False, pre, m, t)"
      unfolding walk_result_def append_Nil append_Nil2 by blast
    show ?thesis
    proof (cases "m \<noteq> [] \<and> t \<noteq> [] \<and> ivl_intersects (hd m) (hd t) \<and>
        find_next_pair set_erase_range (pre @ mine) mine theirs = Some (True, pre @ m, m, t)")
      case no: False
      with res have fn: "find_next_pair set_erase_range (pre @ mine) mine theirs = Some (False, pre, m, t)"
        and empty: "iset_pts mine \<inter> iset_pts theirs = {}" by auto
      have "intersection_loop T (pre @ mine) mine theirs = Some pre"
        by (subst intersection_loop.simps) (simp add: fn)
      with less.prems empty show ?thesis by (auto simp: iset_inv_append)
    next
      case yes: True
      then obtain i ms where m: "m = i # ms" by (cases m) auto
      have inv: "iset_inv pre" "iset_inv ms" and i: "imin i < imax i"
        and gaps: "\<forall>p \<in> set pre. gap p i" "\<forall>c \<in> set ms. gap i c" "\<forall>p \<in> set pre. \<forall>c \<in> set ms. gap p c"
        using less.prems(1) split(1) m by (auto simp: iset_inv_append iset_inv_Cons)
      have inv_t: "iset_inv t" using less.prems(2) split(2) by (simp add: iset_inv_append)
      have "\<forall>p \<in> set pre. imin p < imax p" using inv(1) by (auto dest: iset_invD)
      then obtain us vs where t: "t = us @ vs" and us: "\<forall>u \<in> set us. ivl_intersects i u"
          and vs: "vs \<noteq> [] \<longrightarrow> \<not> ivl_intersects i (hd vs)"
          and inner: "intersection_inner i (pre @ ms) [] t =
            (pre @ map (cut_ivl i) us @ ms, if us = [] then [] else cut_ivl i (last us) # ms, vs)"
        using intersection_inner_correct [of pre ms i t "[]"] gaps inv_t by blast
      have "us \<noteq> []" using yes m t vs by (cases us) auto
      then obtain us' u where us': "us = us' @ [u]" by (cases us rule: rev_cases) auto
      let ?pre = "pre @ map (cut_ivl i) us"
      have prev: "iter_prev T vs = u # vs"
        using less.prems(4) split(2) t us' iter_prev_mid [of "e0 @ e @ us'" u vs] by simp
      have step: "intersection_loop T (pre @ mine) mine theirs = intersection_loop T (?pre @ ms) ms (u # vs)"
        using yes m inner \<open>us \<noteq> []\<close> prev by (subst intersection_loop.simps) simp
      have run: "iset_inv (map (cut_ivl i) us)" "iset_pts (map (cut_ivl i) us) = ivl_pts i \<inter> iset_pts us"
        using cut_run_inv [of us i] us inv_t t by (simp_all add: iset_inv_append)
      have "iset_inv (?pre @ ms)"
        using inv run(1) gaps
        by (auto simp: iset_inv_append less_max_iff_disj min_less_iff_disj)
      moreover have "iset_inv (u # vs)" using inv_t t us' by (simp add: iset_inv_append iset_inv_Cons)
      moreover have "T = (e0 @ e @ us') @ u # vs" using less.prems(4) split(2) t us' by simp
      moreover have "length ms < length mine" using split(1) m by simp
      ultimately obtain R where R: "intersection_loop T (?pre @ ms) ms (u # vs) = Some R" "iset_inv R"
          and pts: "iset_pts R = iset_pts ?pre \<union> (iset_pts ms \<inter> iset_pts (u # vs))"
        using less.hyps [of ms ?pre "u # vs" "e0 @ e @ us'"] by auto
      have rest: "ivl_pts i \<inter> iset_pts vs = {}" "iset_pts ms \<inter> iset_pts us' = {}"
        using intersection_rest(1) [of us' u vs i] intersection_rest(2) [of us' u vs i ms] inv_t t us' us vs gaps(2) by auto
      have "iset_pts R = iset_pts pre \<union> (iset_pts mine \<inter> iset_pts theirs)"
        using pts rest dis run(2) unfolding split m t us' by (simp only: iset_pts_simps) blast
      with R step show ?thesis by auto
    qed
  qed
qed

lemma iset_intersection_correct:
  fixes S T :: "'a::{linorder,zero} iset"
  assumes inv: "iset_inv S" "iset_inv T"
  shows "\<exists>R. iset_intersection S T = Some R \<and> iset_inv R \<and> iset_pts R = iset_pts S \<inter> iset_pts T"
proof (cases "ivl_intersects (iset_spanning S) (iset_spanning T)")
  case False
  then show ?thesis using spanning_disjoint [OF inv False] by (simp add: iset_intersection_def)
next
  case True
  have ne: "S \<noteq> []" "T \<noteq> []" using spanning_nonempty True by blast+
  obtain pre mine where S: "S = pre @ mine" "find_intersection_candidate S (hd T) = mine"
      and mine: "mine \<noteq> []" and pre: "\<forall>p \<in> iset_pts pre. p < imin (hd T)"
    by (rule find_candidate [OF inv(1) ne(1), of "hd T"])
  obtain e t where T: "T = e @ t" "find_intersection_candidate T (hd mine) = t"
      and t: "t \<noteq> []" and e: "\<forall>p \<in> iset_pts e. p < imin (hd mine)"
    by (rule find_candidate [OF inv(2) ne(2), of "hd mine"])
  have inv': "iset_inv mine" "iset_inv t" using inv S(1) T(1) by (simp_all add: iset_inv_append)
  have "iset_pts pre \<inter> iset_pts T = {}" "iset_pts e \<inter> iset_pts mine = {}"
    using before_disjoint [OF pre inv(2) ne(2)] before_disjoint [OF e inv'(1) mine] by auto
  then have pts: "iset_pts S \<inter> iset_pts T = iset_pts mine \<inter> iset_pts t" using S(1) T(1) by auto
  have "set_erase_range S S mine = mine" by (simp add: set_erase_range_def)
  then show ?thesis
    using intersection_loop_correct [of "[]" mine t T e] inv' t T True S(2) pts
    by (simp add: iset_intersection_def find_intersection_candidate_set_def)
qed

section \<open>The interval set is a range store\<close>

interpretation iset_store: range_store "[]" iset_add iset_add_append iset_difference
  iset_is_disjoint iset_inv "iset_pts :: 'a::{linorder,zero} iset \<Rightarrow> 'a set"
proof
  fix S T :: "'a iset" and i :: "'a interval"
  show "iset_inv ([] :: 'a iset)" "iset_pts ([] :: 'a iset) = {}" by simp_all
  assume S: "iset_inv S"
  show "iset_inv (iset_add S i)" "iset_pts (iset_add S i) = iset_pts S \<union> ivl_pts i"
    using iset_add_correct [OF S] by simp_all
  show "iset_inv (iset_add_append S i)" "iset_pts (iset_add_append S i) = iset_pts S \<union> ivl_pts i"
    using iset_add_append_correct [OF S] by simp_all
  show "iset_is_disjoint S i \<longleftrightarrow> iset_pts S \<inter> ivl_pts i = {}"
    by (rule iset_is_disjoint_iff [OF S])
  assume T: "iset_inv T"
  show "\<exists>R. iset_difference S T = Some R \<and> iset_inv R \<and> iset_pts R = iset_pts S - iset_pts T"
    by (rule iset_difference_correct [OF S T])
  assume "iset_pts S = iset_pts T"
  with S T show "S = T" by (rule iset_canonical)
qed

section \<open>How many intervals\<close>

text \<open>Over the naturals the intervals are counted by the points whose predecessor is missing.\<close>

definition left_ends :: "nat set \<Rightarrow> nat set" where
  "left_ends P = {p \<in> P. p = 0 \<or> p - 1 \<notin> P}"

lemma left_ends_Cons:
  assumes "iset_inv (i # S)"
  shows "left_ends (iset_pts (i # S)) = insert (imin i) (left_ends (iset_pts S))"
proof -
  have i: "imin i < imax i" using assms by (simp add: iset_inv_Cons)
  note above = iset_pts_above [OF assms]
  have "p \<in> left_ends (iset_pts (i # S)) \<longleftrightarrow> p = imin i \<or> p \<in> left_ends (iset_pts S)" for p
    using i above [of p] above [of "p - 1"]
    by (auto simp: left_ends_def ivl_pts_def)
  then show ?thesis by blast
qed

lemma length_left_ends: "iset_inv S \<Longrightarrow> length S = card (left_ends (iset_pts S)) \<and> finite (left_ends (iset_pts S))"
proof (induction S)
  case (Cons i S)
  have "imin i \<notin> left_ends (iset_pts S)"
    using iset_pts_above [OF Cons.prems, of "imin i"] Cons.prems
    by (auto simp: left_ends_def iset_inv_Cons)
  then show ?case using Cons left_ends_Cons [OF Cons.prems] by (simp add: iset_inv_Cons)
qed (simp add: left_ends_def)

lemma length_iset_add:
  fixes S :: "nat iset"
  assumes "iset_inv S"
  shows "length (iset_add S i) \<le> length S + 1"
proof -
  note add = iset_add_correct [OF assms, of i]
  have sub: "left_ends (iset_pts (iset_add S i)) \<subseteq> insert (imin i) (left_ends (iset_pts S))"
    using add by (auto simp: left_ends_def ivl_pts_def)
  have "card (left_ends (iset_pts (iset_add S i))) \<le> card (insert (imin i) (left_ends (iset_pts S)))"
    using length_left_ends [OF assms] by (intro card_mono sub) simp
  also have "\<dots> \<le> card (left_ends (iset_pts S)) + 1"
    by (simp add: card_insert_le_m1 card_insert_if length_left_ends [OF assms])
  finally show ?thesis using length_left_ends [OF assms] length_left_ends [OF conjunct1 [OF add]] by simp
qed

end
