(* ===== verification/Interval_Properties.thy ===== *)
theory Interval_Properties
  imports Interval_Set_Algebra
begin

text \<open>
  The properties of \<open>QuicInterval\<close> and \<open>QuicIntervalSet\<close>: every operation of the set
  keeps its representation invariant (\<open>Valid\<close>) and has on the represented points the effect
  its name promises.  \<open>set_a\<close> and \<open>set_b\<close> are the sets of the instances.
\<close>

definition set_a :: "nat iset" where "set_a = [Interval 2 5, Interval 8 12]"

definition set_b :: "nat iset" where "set_b = [Interval 4 9, Interval 20 30]"

lemma set_ab_inv: "iset_inv set_a" "iset_inv set_b"
  by (simp_all add: set_a_def set_b_def iset_inv_Cons)

section \<open>Adding\<close>

text \<open>
  C30: \<open>Add\<close> keeps the set valid (the code's own \<open>Valid\<close> accepts it before and after),
  adds exactly the points of the interval, and \<open>AddOptimizedForAppend\<close> computes the same set.
\<close>

theorem interval_set_add:
  assumes "iset_valid S"
  shows "iset_valid (iset_add S i) \<and> iset_pts (iset_add S i) = iset_pts S \<union> ivl_pts i \<and>
    iset_add_append S i = iset_add S i"
  using assms iset_add_correct [of S i] iset_add_append_eq_add [of S i] by (simp add: iset_valid_iff)

theorem interval_set_add_witness:
  "iset_pts (iset_add set_a (Interval 5 8)) = iset_pts set_a \<union> ivl_pts (Interval 5 8)"
  using interval_set_add [of set_a "Interval 5 8"] set_ab_inv by (simp add: iset_valid_iff)

text \<open>
  The representation depends on the points only: adding ranges in any two orders, with
  repetitions, builds the same set, and two valid sets of the same points are equal for
  \<open>operator==\<close>.
\<close>

theorem interval_set_any_order:
  fixes S T :: "'a::{linorder,zero} iset"
  assumes "iset_valid S"
  shows "(set rs = set qs \<longrightarrow> foldl iset_add S rs = foldl iset_add S qs) \<and>
    (iset_valid T \<longrightarrow> iset_eq S T = (iset_pts S = iset_pts T))"
proof (intro conjI impI)
  show "foldl iset_add S rs = foldl iset_add S qs" if "set rs = set qs"
    using iset_store.add_order_irrelevant that assms by (simp add: iset_valid_iff)
  assume T: "iset_valid T"
  show "iset_eq S T = (iset_pts S = iset_pts T)"
  proof
    assume "iset_pts S = iset_pts T"
    with T assms have "S = T" by (simp add: iset_valid_iff iset_canonical)
    then show "iset_eq S T" by (simp add: iset_eq_def list_all2_conv_all_nth)
  next
    assume "iset_eq S T"
    then have "S = T"
      by (auto simp: iset_eq_def list_all2_conv_all_nth interval.expand intro!: nth_equalityI)
    then show "iset_pts S = iset_pts T" by simp
  qed
qed

theorem interval_set_any_order_witness:
  "foldl iset_add set_a [Interval 0 1, Interval 5 8] = foldl iset_add set_a [Interval 5 8, Interval 0 1, Interval 5 8]"
proof -
  have "set [Interval 0 1, Interval 5 8] = set [Interval 5 8, Interval 0 1, Interval (5::nat) 8]" by auto
  then show ?thesis
    using interval_set_any_order [of set_a "[Interval 0 1, Interval 5 8]" "[Interval 5 8, Interval 0 1, Interval 5 8]"]
      set_ab_inv by (simp only: iset_valid_iff simp_thms)
qed

section \<open>Set algebra\<close>

text \<open>
  \<open>Difference\<close> of two sets and of a set and an interval terminate, keep the set valid
  and remove exactly the points of the argument.
\<close>

theorem interval_set_difference:
  fixes S T :: "'a::{linorder,zero} iset"
  assumes "iset_valid S" "iset_valid T"
  shows "(\<exists>R. iset_difference S T = Some R \<and> iset_valid R \<and> iset_pts R = iset_pts S - iset_pts T) \<and>
    (\<exists>R. iset_difference_ivl S i = Some R \<and> iset_valid R \<and> iset_pts R = iset_pts S - ivl_pts i)"
  using assms iset_difference_correct [of S T] iset_difference_ivl_correct [of S i]
  by (simp add: iset_valid_iff)

theorem interval_set_difference_witness:
  "\<exists>R. iset_difference set_a set_b = Some R \<and> iset_valid R \<and> iset_pts R = iset_pts set_a - iset_pts set_b"
  using interval_set_difference [of set_a set_b] set_ab_inv by (simp add: iset_valid_iff)

text \<open>
  \<open>Intersection\<close> computes the common points, \<open>Intersects\<close> whether there is one, and both
  terminate.
\<close>

theorem interval_set_intersection:
  fixes S T :: "'a::{linorder,zero} iset"
  assumes "iset_valid S" "iset_valid T"
  shows "(\<exists>R. iset_intersection S T = Some R \<and> iset_valid R \<and> iset_pts R = iset_pts S \<inter> iset_pts T) \<and>
    iset_intersects S T = Some (iset_pts S \<inter> iset_pts T \<noteq> {})"
  using assms iset_intersection_correct [of S T] iset_intersects_correct [of S T]
  by (simp add: iset_valid_iff)

theorem interval_set_intersection_witness:
  "\<exists>R. iset_intersection set_a set_b = Some R \<and> iset_valid R \<and> iset_pts R = iset_pts set_a \<inter> iset_pts set_b"
  using interval_set_intersection [of set_a set_b] set_ab_inv by (simp add: iset_valid_iff)

text \<open>
  \<open>Union\<close> merges two sets, \<open>Complement\<close> computes what a range misses, and the two
  are consistent: a set and its complement in a range cover the range.
\<close>

theorem interval_set_union_complement:
  fixes S T :: "'a::{linorder,zero} iset"
  assumes "iset_valid S" "iset_valid T"
  shows "iset_valid (iset_union S T) \<and> iset_pts (iset_union S T) = iset_pts S \<union> iset_pts T \<and>
    (\<exists>R. iset_complement S lo hi = Some R \<and> iset_valid R \<and> iset_pts R = {lo..<hi} - iset_pts S \<and>
      {lo..<hi} \<subseteq> iset_pts (iset_union S R))"
proof -
  obtain R where R: "iset_complement S lo hi = Some R" "iset_inv R" "iset_pts R = {lo..<hi} - iset_pts S"
    using iset_complement_correct [of S lo hi] assms by (auto simp: iset_valid_iff)
  then show ?thesis
    using assms iset_union_correct [of S T] iset_union_correct [of S R] by (auto simp: iset_valid_iff)
qed

theorem interval_set_union_complement_witness:
  "iset_pts (iset_union set_a set_b) = iset_pts set_a \<union> iset_pts set_b"
  using interval_set_union_complement [of set_a set_b] set_ab_inv by (simp add: iset_valid_iff)

section \<open>Lookups and trimming\<close>

text \<open>
  the lookups by binary search answer by the points: \<open>Contains\<close>, \<open>Find\<close> (the interval
  found contains the value, no interval found means no interval does) and \<open>IsDisjoint\<close>.
\<close>

theorem interval_set_lookup:
  assumes "iset_valid S"
  shows "(iset_contains S v \<longleftrightarrow> v \<in> iset_pts S) \<and>
    (if v \<in> iset_pts S then \<exists>pre it. iset_find S v = it \<and> it \<noteq> [] \<and> S = pre @ it \<and> ivl_contains (hd it) v
     else iset_find S v = []) \<and>
    (iset_is_disjoint S i \<longleftrightarrow> iset_pts S \<inter> ivl_pts i = {})"
proof -
  have inv: "iset_inv S" using assms by (simp add: iset_valid_iff)
  show ?thesis
    using iset_contains_iff [OF inv] iset_find_iff [OF inv] iset_is_disjoint_iff [OF inv]
    by (auto simp: ivl_contains_pts)
qed

theorem interval_set_lookup_witness:
  "iset_contains set_a 9 \<longleftrightarrow> 9 \<in> iset_pts set_a"
  using interval_set_lookup [of set_a 9] set_ab_inv by (simp add: iset_valid_iff)

text \<open>
  \<open>TrimLessThan(v)\<close> removes exactly the points below \<open>v\<close>, keeps the set valid and
  returns true iff it removed something; \<open>PopFront\<close> removes the points of the first interval.
\<close>

theorem interval_set_trim:
  assumes "iset_valid S"
  shows "iset_valid (snd (iset_trim_less_than S v)) \<and>
    iset_pts (snd (iset_trim_less_than S v)) = {p \<in> iset_pts S. v \<le> p} \<and>
    (fst (iset_trim_less_than S v) \<longleftrightarrow> (\<exists>p \<in> iset_pts S. p < v)) \<and>
    (S \<noteq> [] \<longrightarrow> iset_valid (iset_pop_front S) \<and>
      iset_pts (iset_pop_front S) = iset_pts S - ivl_pts (hd S))"
proof -
  have inv: "iset_inv S" using assms by (simp add: iset_valid_iff)
  note trim = iset_trim_less_than_correct [OF inv, of v]
  have "fst (iset_trim_less_than S v) \<longleftrightarrow> (\<exists>p \<in> iset_pts S. p < v)"
    unfolding trim(2,3) not_le [symmetric] by blast
  moreover have "iset_pts (iset_pop_front S) = iset_pts S - ivl_pts (hd S)" if "S \<noteq> []"
  proof -
    from that obtain i T where S: "S = i # T" by (meson list.exhaust)
    have "p \<in> iset_pts T \<Longrightarrow> imax i < p" for p using iset_pts_above [of i T p] inv S by simp
    then have "iset_pts T \<inter> ivl_pts i = {}" by (fastforce simp: ivl_pts_def)
    then show ?thesis using set_erase_mid [of "[]" i T] by (auto simp: S iset_pop_front_def)
  qed
  ultimately show ?thesis
    using trim inv iset_pop_front_correct [of "hd S" "tl S"] by (cases S) (auto simp: iset_valid_iff)
qed

theorem interval_set_trim_witness:
  "iset_pts (snd (iset_trim_less_than set_a 4)) = {p \<in> iset_pts set_a. 4 \<le> p}"
  using interval_set_trim [of set_a 4] set_ab_inv by (simp add: iset_valid_iff)

section \<open>One interval\<close>

text \<open>
  the two variants of \<open>QuicInterval::Difference\<close> agree (the vector gets the nonempty
  ones of \<open>lo\<close> and \<open>hi\<close>), their results are what is left of the interval, in order, and the
  flag tells whether the intervals intersect.
\<close>

theorem interval_difference:
  "case ivl_difference s i of (r, lo, hi) \<Rightarrow>
     ivl_difference_vec s i = (r, filter (\<lambda>j. \<not> ivl_empty j) [lo, hi]) \<and>
     ivl_pts lo \<union> ivl_pts hi = ivl_pts s - ivl_pts i \<and>
     (r \<longleftrightarrow> ivl_pts s \<inter> ivl_pts i \<noteq> {}) \<and>
     (ivl_empty lo \<or> ivl_empty hi \<or> imax lo < imin hi)"
proof -
  obtain r lo hi where eq: "ivl_difference s i = (r, lo, hi)" by (cases "ivl_difference s i") auto
  note facts = ivl_difference_cases [OF eq]
  have "imax lo < imin hi" if "\<not> ivl_empty lo" "\<not> ivl_empty hi"
  proof -
    have "r" "imax lo \<le> imin i" "imin hi = imax i" using facts(3,4) that by auto
    moreover from \<open>r\<close> have "ivl_intersects s i" using facts(2) by simp
    ultimately show ?thesis by (auto simp: ivl_intersects_def ivl_empty_def)
  qed
  then show ?thesis using eq facts(1,2) by (auto simp: ivl_difference_vec_eq ivl_intersects_pts)
qed

theorem interval_difference_witness:
  "case ivl_difference (Interval 0 10) (Interval 3 (5::nat)) of (r, lo, hi) \<Rightarrow>
     ivl_pts lo \<union> ivl_pts hi = ivl_pts (Interval 0 10) - ivl_pts (Interval 3 5)"
  using interval_difference [of "Interval 0 10" "Interval 3 (5::nat)"] by (auto split: prod.splits)

end
