(* ===== verification/Sequencer_Buffer.thy ===== *)
theory Sequencer_Buffer
  imports Interval_Set_Algebra "HOL-Library.Monad_Syntax"
begin

text \<open>
  \<open>QuicStreamSequencerBuffer\<close> (\<open>sequencer/quic_stream_sequencer_buffer.cc\<close>): the
  circular buffer of 8K blocks that reassembles a stream.  Offsets and sizes are
  \<^typ>\<open>u64\<close> with the wrap-around written out.  \<open>blocks_\<close>, a heap array of pointers to
  blocks, is \<open>None\<close> for the null pointer and else the list of its entries, each
  \<open>None\<close> or the bytes of the block.  An operation returns \<open>None\<close> where the code has
  no result: it reads through a null pointer or out of range, fails a \<open>CHECK\<close> or
  \<open>DCHECK\<close> (the build does not define \<open>NDEBUG\<close>, so both are fatal), reaches
  \<open>QUIC_BUG\<close> (which is \<open>LOG(FATAL)\<close>), or loops for ever.
\<close>

section \<open>State\<close>

datatype quic_error_code =
    QUIC_NO_ERROR
  | QUIC_INTERNAL_ERROR
  | QUIC_EMPTY_STREAM_FRAME_NO_FIN
  | QUIC_TOO_MANY_STREAM_DATA_INTERVALS
  | QUIC_STREAM_SEQUENCER_INVALID_STATE
  | QUIC_ERROR_PROCESSING_STREAM

record seq_buffer =
  max_buffer_capacity_bytes :: u64
  max_blocks_count :: u64
  current_blocks_count :: u64
  total_bytes_read :: u64
  allocate_blocks_on_demand :: bool
  blocks :: "mem option list option"
  num_bytes_buffered :: u64
  bytes_received :: "u64 iset"

definition kBlockSizeBytes :: u64 where
  "kBlockSizeBytes = 8 * 1024"

definition kMaxNumDataIntervalsAllowed :: u64 where
  "kMaxNumDataIntervalsAllowed = 2 * 5000"

definition kInitialBlockCount :: u64 where
  "kInitialBlockCount = 8"

definition kBlocksGrowthFactor :: u64 where
  "kBlocksGrowthFactor = 4"

definition calculate_block_count :: "u64 \<Rightarrow> u64" where
  "calculate_block_count max_capacity_bytes =
     u64_sub (u64_add max_capacity_bytes kBlockSizeBytes) 1 div kBlockSizeBytes"

text \<open>\<open>blocks_[index]\<close>: the pointer stored there.\<close>

definition block_ptr :: "seq_buffer \<Rightarrow> nat \<Rightarrow> mem option option" where
  "block_ptr s index =
     (case blocks s of None \<Rightarrow> None | Some bs \<Rightarrow> if index < length bs then Some (bs ! index) else None)"

definition zero_block :: mem where
  "zero_block = (\<lambda>_. 0)"

section \<open>Positions\<close>

definition get_block_index :: "seq_buffer \<Rightarrow> u64 \<Rightarrow> nat" where
  "get_block_index s offset = (offset mod max_buffer_capacity_bytes s) div kBlockSizeBytes"

definition get_in_block_offset :: "seq_buffer \<Rightarrow> u64 \<Rightarrow> nat" where
  "get_in_block_offset s offset = (offset mod max_buffer_capacity_bytes s) mod kBlockSizeBytes"

definition read_offset :: "seq_buffer \<Rightarrow> nat" where
  "read_offset s = get_in_block_offset s (total_bytes_read s)"

definition next_block_to_read :: "seq_buffer \<Rightarrow> nat" where
  "next_block_to_read s = get_block_index s (total_bytes_read s)"

definition get_block_capacity :: "seq_buffer \<Rightarrow> nat \<Rightarrow> u64" where
  "get_block_capacity s block_index =
     (if block_index + 1 = max_blocks_count s then
        let result = max_buffer_capacity_bytes s mod kBlockSizeBytes
        in if result = 0 then kBlockSizeBytes else result
      else kBlockSizeBytes)"

definition first_missing_byte :: "seq_buffer \<Rightarrow> u64" where
  "first_missing_byte s =
     (if bytes_received s = [] \<or> 0 < imin (hd (bytes_received s)) then 0
      else imax (hd (bytes_received s)))"

definition next_expected_byte :: "seq_buffer \<Rightarrow> u64" where
  "next_expected_byte s = (if bytes_received s = [] then 0 else imax (last (bytes_received s)))"

definition readable_bytes :: "seq_buffer \<Rightarrow> u64" where
  "readable_bytes s = u64_sub (first_missing_byte s) (total_bytes_read s)"

definition has_bytes_to_read :: "seq_buffer \<Rightarrow> bool" where
  "has_bytes_to_read s \<longleftrightarrow> 0 < readable_bytes s"

definition bytes_consumed :: "seq_buffer \<Rightarrow> u64" where
  "bytes_consumed s = total_bytes_read s"

definition bytes_buffered :: "seq_buffer \<Rightarrow> u64" where
  "bytes_buffered s = num_bytes_buffered s"

definition buffer_empty :: "seq_buffer \<Rightarrow> bool" where
  "buffer_empty s \<longleftrightarrow> bytes_received s = [] \<or>
     (length (bytes_received s) = 1 \<and> 0 < total_bytes_read s \<and>
      imax (hd (bytes_received s)) = total_bytes_read s)"

section \<open>Blocks\<close>

definition retire_block :: "seq_buffer \<Rightarrow> nat \<Rightarrow> (bool \<times> seq_buffer) option" where
  "retire_block s index = do {
     p \<leftarrow> block_ptr s index;
     fatal_unless (p \<noteq> None);
     Some (True, s\<lparr>blocks := map_option (\<lambda>bs. bs[index := None]) (blocks s)\<rparr>)
   }"

definition retire_block_if_empty :: "seq_buffer \<Rightarrow> nat \<Rightarrow> (bool \<times> seq_buffer) option" where
  "retire_block_if_empty s block_index = do {
     fatal_unless (readable_bytes s = 0 \<or> get_in_block_offset s (total_bytes_read s) = 0);
     if buffer_empty s then retire_block s block_index
     else if get_block_index s (u64_sub (next_expected_byte s) 1) = block_index then Some (True, s)
     else if next_block_to_read s = block_index then
       (if 1 < length (bytes_received s) then
          if get_block_index s (imin (hd (tl (bytes_received s)))) = block_index then Some (True, s)
          else retire_block s block_index
        else None)
     else retire_block s block_index
   }"

fun clear_blocks :: "seq_buffer \<Rightarrow> nat \<Rightarrow> nat \<Rightarrow> seq_buffer option" where
  "clear_blocks s i 0 = Some s"
| "clear_blocks s i (Suc k) = do {
     p \<leftarrow> block_ptr s i;
     s' \<leftarrow> (case p of None \<Rightarrow> Some s | Some _ \<Rightarrow> map_option snd (retire_block s i));
     clear_blocks s' (i + 1) k
   }"

definition buffer_clear :: "seq_buffer \<Rightarrow> seq_buffer option" where
  "buffer_clear s = do {
     s1 \<leftarrow> (if blocks s = None then Some s
            else clear_blocks s 0
              (if allocate_blocks_on_demand s then current_blocks_count s else max_blocks_count s));
     Some (s1\<lparr>num_bytes_buffered := 0,
              bytes_received := iset_add_range [] 0 (total_bytes_read s1)\<rparr>)
   }"

definition buffer_new :: "u64 \<Rightarrow> seq_buffer option" where
  "buffer_new max_capacity_bytes = buffer_clear
     \<lparr>max_buffer_capacity_bytes = max_capacity_bytes,
      max_blocks_count = calculate_block_count max_capacity_bytes,
      current_blocks_count = 0, total_bytes_read = 0, allocate_blocks_on_demand = False,
      blocks = None, num_bytes_buffered = 0, bytes_received = []\<rparr>"

definition maybe_add_more_blocks :: "seq_buffer \<Rightarrow> u64 \<Rightarrow> seq_buffer" where
  "maybe_add_more_blocks s next_byte =
     (if current_blocks_count s = max_blocks_count s then s
      else
        let last_byte = u64_sub next_byte 1;
            needed = (if last_byte < max_buffer_capacity_bytes s
                      then max (get_block_index s last_byte + 1) kInitialBlockCount
                      else max_blocks_count s)
        in if needed \<le> current_blocks_count s then s
           else
             let count = min (max (kBlocksGrowthFactor * current_blocks_count s) needed) (max_blocks_count s);
                 old = (case blocks s of None \<Rightarrow> [] | Some bs \<Rightarrow> take (current_blocks_count s) bs)
             in s\<lparr>blocks := Some (old @ replicate (count - length old) None),
                  current_blocks_count := count\<rparr>)"

section \<open>Receiving\<close>

text \<open>
  \<open>CopyStreamData\<close>: the result is the flag, \<open>*bytes_copy\<close> and the buffer.  The addresses
  of the destination and of the source are never null where the loop reaches their test.
\<close>

definition zeroed_blocks :: "seq_buffer \<Rightarrow> seq_buffer" where
  "zeroed_blocks s =
     (if \<not> allocate_blocks_on_demand s \<and> blocks s = None
      then s\<lparr>blocks := Some (replicate (max_blocks_count s) None)\<rparr> else s)"

definition write_block :: "seq_buffer \<Rightarrow> nat \<Rightarrow> nat \<Rightarrow> byte list \<Rightarrow> seq_buffer option" where
  "write_block s idx off bs = do {
     p \<leftarrow> block_ptr s idx;
     fatal_unless (off + length bs \<le> kBlockSizeBytes);
     let m = (case p of None \<Rightarrow> zero_block | Some m \<Rightarrow> m);
     Some (s\<lparr>blocks := map_option (\<lambda>l. l[idx := Some (mem_write m off bs)]) (blocks s)\<rparr>)
   }"

partial_function (option) copy_loop ::
  "seq_buffer \<Rightarrow> u64 \<Rightarrow> byte list \<Rightarrow> u64 \<Rightarrow> (bool \<times> u64 \<times> seq_buffer) option" where
  "copy_loop s offset source copied =
     (if source = [] then Some (True, copied, s)
      else
        let write_block_num = get_block_index s offset;
            write_block_offset = get_in_block_offset s offset;
            block_count = (if allocate_blocks_on_demand s then current_blocks_count s
                           else max_blocks_count s);
            block_capacity = get_block_capacity s write_block_num;
            avail = u64_sub block_capacity write_block_offset;
            limit = u64_add (total_bytes_read s) (max_buffer_capacity_bytes s);
            bytes_avail = (if limit < u64_add offset avail then u64_sub limit offset else avail);
            s1 = zeroed_blocks s
        in if block_count \<le> write_block_num then None
           else if blocks s1 = None then Some (False, copied, s1)
           else
             let n = min bytes_avail (length source)
             in Option.bind (write_block s1 write_block_num write_block_offset (take n source)) (\<lambda>s2.
                  copy_loop s2 (u64_add offset n) (drop n source) (u64_add copied n)))"

definition copy_stream_data ::
  "seq_buffer \<Rightarrow> u64 \<Rightarrow> byte list \<Rightarrow> (bool \<times> u64 \<times> seq_buffer) option" where
  "copy_stream_data s offset data = copy_loop s offset data 0"

text \<open>The loop over the newly received intervals; the result adds up \<open>*bytes_buffered\<close>.\<close>

fun copy_new_ranges ::
  "seq_buffer \<Rightarrow> u64 iset \<Rightarrow> u64 \<Rightarrow> byte list \<Rightarrow> u64 \<Rightarrow> (bool \<times> u64 \<times> seq_buffer) option" where
  "copy_new_ranges s [] start data n = Some (True, n, s)"
| "copy_new_ranges s (i # is) start data n = do {
     fatal_unless (u64_sub (imin i) start \<le> length data);
     (ok, copied, s1) \<leftarrow> copy_stream_data s (imin i)
        (take (u64_sub (imax i) (imin i)) (drop (u64_sub (imin i) start) data));
     if \<not> ok then Some (False, n, s1)
     else copy_new_ranges s1 is start data (u64_add n copied)
   }"

text \<open>\<open>OnStreamData\<close>: the error code, \<open>*bytes_buffered\<close> and the buffer.\<close>

definition on_stream_data ::
  "seq_buffer \<Rightarrow> u64 \<Rightarrow> byte list \<Rightarrow> (quic_error_code \<times> u64 \<times> seq_buffer) option" where
  "on_stream_data s starting_offset data =
     (let size = length data;
          finish = u64_add starting_offset size
      in if size = 0 then Some (QUIC_EMPTY_STREAM_FRAME_NO_FIN, 0, s)
      else if u64_add (total_bytes_read s) (max_buffer_capacity_bytes s) < finish
              \<or> finish < starting_offset
        then Some (QUIC_INTERNAL_ERROR, 0, s)
      else
        let s0 = (if allocate_blocks_on_demand s then maybe_add_more_blocks s finish else s)
        in if bytes_received s0 = [] \<or> imax (last (bytes_received s0)) \<le> starting_offset
              \<or> iset_is_disjoint (bytes_received s0) (Interval starting_offset finish)
           then
             let s1 = s0\<lparr>bytes_received :=
                        iset_add_append (bytes_received s0) (Interval starting_offset finish)\<rparr>
             in if kMaxNumDataIntervalsAllowed \<le> length (bytes_received s1)
                then Some (QUIC_TOO_MANY_STREAM_DATA_INTERVALS, 0, s1)
                else do {
                  (ok, copied, s2) \<leftarrow> copy_stream_data s1 starting_offset data;
                  if \<not> ok then Some (QUIC_STREAM_SEQUENCER_INVALID_STATE, 0, s2)
                  else Some (QUIC_NO_ERROR, copied,
                    s2\<lparr>num_bytes_buffered := u64_add (num_bytes_buffered s2) copied\<rparr>)
                }
           else do {
             newly_received \<leftarrow> iset_difference (iset_add_range [] starting_offset finish)
                                (bytes_received s0);
             if newly_received = [] then Some (QUIC_NO_ERROR, 0, s0)
             else
               let s1 = s0\<lparr>bytes_received := iset_add_range (bytes_received s0) starting_offset finish\<rparr>
               in if kMaxNumDataIntervalsAllowed \<le> length (bytes_received s1)
                  then Some (QUIC_TOO_MANY_STREAM_DATA_INTERVALS, 0, s1)
                  else do {
                    (ok, copied, s2) \<leftarrow> copy_new_ranges s1 newly_received starting_offset data 0;
                    if \<not> ok then Some (QUIC_STREAM_SEQUENCER_INVALID_STATE, copied, s2)
                    else Some (QUIC_NO_ERROR, copied,
                      s2\<lparr>num_bytes_buffered := u64_add (num_bytes_buffered s2) copied\<rparr>)
                  }
           })"

section \<open>Reading\<close>

text \<open>
  An \<open>iovec\<close> of the caller is whether its base is a non-null pointer, and its length; what
  \<open>Readv\<close> writes to it is returned as the list of the bytes written.
\<close>

type_synonym dest_iovec = "bool \<times> u64"

partial_function (option) read_loop ::
  "seq_buffer \<Rightarrow> bool \<Rightarrow> u64 \<Rightarrow> u64 \<Rightarrow> byte list \<Rightarrow>
    (quic_error_code \<times> u64 \<times> byte list \<times> seq_buffer) option" where
  "read_loop s nonnull dest_remaining bytes_read out =
     (if \<not> (0 < dest_remaining \<and> 0 < readable_bytes s) then Some (QUIC_NO_ERROR, bytes_read, out, s)
      else
        let block_idx = next_block_to_read s;
            start_offset_in_block = read_offset s;
            block_capacity = get_block_capacity s block_idx;
            bytes_available_in_block =
              min (readable_bytes s) (u64_sub block_capacity start_offset_in_block);
            bytes_to_copy = min bytes_available_in_block dest_remaining
        in Option.bind (fatal_unless (0 < bytes_to_copy)) (\<lambda>_.
           Option.bind (block_ptr s block_idx) (\<lambda>p.
           case p of
             None \<Rightarrow> Some (QUIC_STREAM_SEQUENCER_INVALID_STATE, bytes_read, out, s)
           | Some m \<Rightarrow>
               if \<not> nonnull then Some (QUIC_STREAM_SEQUENCER_INVALID_STATE, bytes_read, out, s)
               else Option.bind (fatal_unless (start_offset_in_block + bytes_to_copy \<le> kBlockSizeBytes)) (\<lambda>_.
                 let out' = out @ mem_read m start_offset_in_block bytes_to_copy;
                     s1 = s\<lparr>num_bytes_buffered := u64_sub (num_bytes_buffered s) bytes_to_copy,
                            total_bytes_read := u64_add (total_bytes_read s) bytes_to_copy\<rparr>;
                     read' = u64_add bytes_read bytes_to_copy;
                     remaining = u64_sub dest_remaining bytes_to_copy
                 in if bytes_to_copy = bytes_available_in_block
                    then Option.bind (retire_block_if_empty s1 block_idx) (\<lambda>(ok, s2).
                      if \<not> ok then Some (QUIC_STREAM_SEQUENCER_INVALID_STATE, read', out', s2)
                      else read_loop s2 nonnull remaining read' out')
                    else read_loop s1 nonnull remaining read' out'))))"

fun readv_loop ::
  "seq_buffer \<Rightarrow> dest_iovec list \<Rightarrow> u64 \<Rightarrow> byte list list \<Rightarrow>
    (quic_error_code \<times> u64 \<times> byte list list \<times> seq_buffer) option" where
  "readv_loop s [] bytes_read outs = Some (QUIC_NO_ERROR, bytes_read, outs, s)"
| "readv_loop s (iov # iovs) bytes_read outs =
     (if \<not> 0 < readable_bytes s then Some (QUIC_NO_ERROR, bytes_read, outs, s)
      else do {
        fatal_unless (fst iov);
        (err, read', out, s') \<leftarrow> read_loop s (fst iov) (snd iov) bytes_read [];
        if err \<noteq> QUIC_NO_ERROR then Some (err, read', outs @ [out], s')
        else readv_loop s' iovs read' (outs @ [out])
      })"

definition readv ::
  "seq_buffer \<Rightarrow> dest_iovec list \<Rightarrow>
    (quic_error_code \<times> u64 \<times> byte list list \<times> seq_buffer) option" where
  "readv s dest_iov = readv_loop s dest_iov 0 []"

text \<open>
  The regions that the peeking operations hand out point into the blocks: the index of the
  block, the offset in it and the length.
\<close>

datatype region = Null_Region | Region (region_block: nat) (region_off: nat) (region_len: u64)

text \<open>\<open>blocks_[i]->buffer\<close> reads through the pointer: it must not be null.\<close>

definition block_region :: "seq_buffer \<Rightarrow> nat \<Rightarrow> nat \<Rightarrow> u64 \<Rightarrow> region option" where
  "block_region s idx off len =
     (case block_ptr s idx of Some (Some _) \<Rightarrow> Some (Region idx off len) | _ \<Rightarrow> None)"

text \<open>The middle blocks: \<open>k\<close> is what is left of \<open>iov_len\<close>.\<close>

fun middle_regions :: "seq_buffer \<Rightarrow> nat \<Rightarrow> nat \<Rightarrow> nat \<Rightarrow> nat \<Rightarrow> region list \<Rightarrow> region list option" where
  "middle_regions s start_idx end_idx end_off 0 iov = Some iov"
| "middle_regions s start_idx end_idx end_off (Suc k) iov =
     (let block_idx = (start_idx + length iov) mod max_blocks_count s
      in if block_idx \<noteq> end_idx then do {
           r \<leftarrow> block_region s block_idx 0 (get_block_capacity s block_idx);
           middle_regions s start_idx end_idx end_off k (iov @ [r])
         }
         else do {
           r \<leftarrow> block_region s end_idx 0 (end_off + 1);
           Some (iov @ [r])
         })"

definition get_readable_regions :: "seq_buffer \<Rightarrow> nat \<Rightarrow> (nat \<times> region list) option" where
  "get_readable_regions s iov_len = do {
     fatal_unless (0 < iov_len);
     if readable_bytes s = 0 then Some (0, [Null_Region])
     else do {
       let start_block_idx = next_block_to_read s;
       let readable_offset_end = u64_sub (first_missing_byte s) 1;
       fatal_unless (total_bytes_read s \<le> u64_add readable_offset_end 1);
       let end_block_offset = get_in_block_offset s readable_offset_end;
       let end_block_idx = get_block_index s readable_offset_end;
       if start_block_idx = end_block_idx \<and> read_offset s \<le> end_block_offset then do {
         r \<leftarrow> block_region s start_block_idx (read_offset s) (readable_bytes s);
         Some (1, [r])
       } else do {
         let first_len = u64_sub (get_block_capacity s start_block_idx) (read_offset s);
         r \<leftarrow> block_region s start_block_idx (read_offset s) first_len;
         fatal_unless (u64_add (total_bytes_read s) first_len < u64_add readable_offset_end 1);
         iov \<leftarrow> middle_regions s start_block_idx end_block_idx end_block_offset (iov_len - 1) [r];
         Some (length iov, iov)
       }
     }
   }"

definition get_readable_region :: "seq_buffer \<Rightarrow> (bool \<times> region list) option" where
  "get_readable_region s = map_option (\<lambda>(n, iov). (n = 1, iov)) (get_readable_regions s 1)"

definition peek_region :: "seq_buffer \<Rightarrow> u64 \<Rightarrow> region option option" where
  "peek_region s offset =
     (if offset < total_bytes_read s then Some None
      else if first_missing_byte s \<le> offset then Some None
      else
        let block_idx = get_block_index s offset;
            block_offset = get_in_block_offset s offset;
            end_block_idx = get_block_index s (first_missing_byte s);
            len = (if block_idx = end_block_idx
                   then u64_sub (get_in_block_offset s (first_missing_byte s)) block_offset
                   else u64_sub (get_block_capacity s block_idx) block_offset)
        in map_option Some (block_region s block_idx block_offset len))"

section \<open>Consuming\<close>

partial_function (option) consume_loop :: "seq_buffer \<Rightarrow> u64 \<Rightarrow> seq_buffer option" where
  "consume_loop s bytes_to_consume =
     (if \<not> 0 < bytes_to_consume then Some s
      else
        let block_idx = next_block_to_read s;
            offset_in_block = read_offset s;
            bytes_available = min (readable_bytes s)
              (u64_sub (get_block_capacity s block_idx) offset_in_block);
            bytes_read = min bytes_to_consume bytes_available;
            s1 = s\<lparr>total_bytes_read := u64_add (total_bytes_read s) bytes_read,
                   num_bytes_buffered := u64_sub (num_bytes_buffered s) bytes_read\<rparr>;
            rest = u64_sub bytes_to_consume bytes_read
        in if bytes_available = bytes_read
           then Option.bind (retire_block_if_empty s1 block_idx) (\<lambda>(_, s2). consume_loop s2 rest)
           else consume_loop s1 rest)"

definition mark_consumed :: "seq_buffer \<Rightarrow> u64 \<Rightarrow> (bool \<times> seq_buffer) option" where
  "mark_consumed s n =
     (if readable_bytes s < n then Some (False, s)
      else map_option (\<lambda>s'. (True, s')) (consume_loop s n))"

definition flush_buffered_frames :: "seq_buffer \<Rightarrow> (u64 \<times> seq_buffer) option" where
  "flush_buffered_frames s = do {
     let prev_total_bytes_read = total_bytes_read s;
     s' \<leftarrow> buffer_clear (s\<lparr>total_bytes_read := next_expected_byte s\<rparr>);
     Some (u64_sub (total_bytes_read s') prev_total_bytes_read, s')
   }"

definition release_whole_buffer :: "seq_buffer \<Rightarrow> seq_buffer option" where
  "release_whole_buffer s = do {
     s' \<leftarrow> buffer_clear s;
     Some (s'\<lparr>current_blocks_count := 0, blocks := None\<rparr>)
   }"

end
