(* ===== verification/Buffer_Geometry.thy ===== *)
theory Buffer_Geometry
  imports Sequencer_Buffer
begin

text \<open>
  Where the bytes of the reassembly buffer live: the facts about block index, offset in the
  block and block capacity that the proofs about its operations share.  \<open>stored\<close> is the
  byte that the buffer holds at a stream offset.
\<close>

named_theorems buf_simps "field updates that leave the geometry of a buffer alone"

section \<open>Stored bytes\<close>

definition stored :: "seq_buffer \<Rightarrow> u64 \<Rightarrow> byte option" where
  "stored s p = (case block_ptr s (get_block_index s p) of
     Some (Some m) \<Rightarrow> Some (m (get_in_block_offset s p)) | _ \<Rightarrow> None)"

definition geom :: "seq_buffer \<Rightarrow> bool" where
  "geom s \<longleftrightarrow> 0 < max_buffer_capacity_bytes s \<and> max_buffer_capacity_bytes s \<le> 2 ^ 62 \<and>
     max_blocks_count s = (max_buffer_capacity_bytes s + 8191) div 8192 \<and>
     \<not> allocate_blocks_on_demand s \<and>
     (\<forall>bs. blocks s = Some bs \<longrightarrow> length bs = max_blocks_count s)"

lemma geomD:
  assumes "geom s"
  shows "0 < max_buffer_capacity_bytes s" "max_buffer_capacity_bytes s \<le> 2 ^ 62"
    "max_blocks_count s = (max_buffer_capacity_bytes s + 8191) div 8192"
    "\<not> allocate_blocks_on_demand s"
    "blocks s = Some bs \<Longrightarrow> length bs = max_blocks_count s"
  using assms by (auto simp: geom_def)

lemma position_updates [buf_simps]:
  "get_block_index (s\<lparr>total_bytes_read := t\<rparr>) = get_block_index s"
  "get_block_index (s\<lparr>num_bytes_buffered := n\<rparr>) = get_block_index s"
  "get_block_index (s\<lparr>blocks := b\<rparr>) = get_block_index s"
  "get_block_index (s\<lparr>bytes_received := r\<rparr>) = get_block_index s"
  "get_in_block_offset (s\<lparr>total_bytes_read := t\<rparr>) = get_in_block_offset s"
  "get_in_block_offset (s\<lparr>num_bytes_buffered := n\<rparr>) = get_in_block_offset s"
  "get_in_block_offset (s\<lparr>blocks := b\<rparr>) = get_in_block_offset s"
  "get_in_block_offset (s\<lparr>bytes_received := r\<rparr>) = get_in_block_offset s"
  "get_block_capacity (s\<lparr>blocks := b\<rparr>) = get_block_capacity s"
  "get_block_capacity (s\<lparr>total_bytes_read := t\<rparr>) = get_block_capacity s"
  "get_block_capacity (s\<lparr>num_bytes_buffered := n\<rparr>) = get_block_capacity s"
  "get_block_capacity (s\<lparr>bytes_received := r\<rparr>) = get_block_capacity s"
  by (simp_all add: fun_eq_iff get_block_index_def get_in_block_offset_def get_block_capacity_def)

lemma block_ptr_updates [buf_simps]:
  "block_ptr (s\<lparr>total_bytes_read := t\<rparr>) = block_ptr s"
  "block_ptr (s\<lparr>num_bytes_buffered := n\<rparr>) = block_ptr s"
  "block_ptr (s\<lparr>bytes_received := r\<rparr>) = block_ptr s"
  by (simp_all add: fun_eq_iff block_ptr_def)

lemma stored_updates [buf_simps]:
  "stored (s\<lparr>total_bytes_read := t\<rparr>) = stored s"
  "stored (s\<lparr>num_bytes_buffered := n\<rparr>) = stored s"
  "stored (s\<lparr>bytes_received := r\<rparr>) = stored s"
  by (simp_all add: fun_eq_iff stored_def buf_simps split: option.splits)

lemma geom_updates [buf_simps]:
  "geom (s\<lparr>total_bytes_read := t\<rparr>) = geom s"
  "geom (s\<lparr>num_bytes_buffered := n\<rparr>) = geom s"
  "geom (s\<lparr>bytes_received := r\<rparr>) = geom s"
  by (simp_all add: geom_def)

lemma geom_blocks [buf_simps]:
  "geom s \<Longrightarrow> length bs = max_blocks_count s \<Longrightarrow> geom (s\<lparr>blocks := Some bs\<rparr>)"
  "geom s \<Longrightarrow> geom (s\<lparr>blocks := None\<rparr>)"
  by (simp_all add: geom_def)

section \<open>Index, offset, capacity\<close>

lemma block_split:
  "get_block_index s p * 8192 + get_in_block_offset s p = p mod max_buffer_capacity_bytes s"
  by (simp add: get_block_index_def get_in_block_offset_def kBlockSizeBytes_def)

lemma in_block_offset_less: "get_in_block_offset s p < 8192"
  by (simp add: get_in_block_offset_def kBlockSizeBytes_def)

lemma block_index_less:
  assumes "geom s"
  shows "get_block_index s p < max_blocks_count s"
proof -
  have "p mod max_buffer_capacity_bytes s < max_buffer_capacity_bytes s"
    using geomD(1) [OF assms] by simp
  then show ?thesis
    using geomD(3) [OF assms] by (simp add: get_block_index_def kBlockSizeBytes_def)
qed

text \<open>The capacity of a block is what is left of the buffer at its start, at most a block.\<close>

lemma block_capacity_eq:
  assumes "geom s" "idx < max_blocks_count s"
  shows "get_block_capacity s idx = min 8192 (max_buffer_capacity_bytes s - idx * 8192)"
proof -
  let ?C = "max_buffer_capacity_bytes s"
  have N: "max_blocks_count s = (?C + 8191) div 8192" and C: "0 < ?C" using geomD [OF assms(1)] by auto
  obtain q r where qr: "?C = 8192 * q + r" "r < 8192"
    by (metis mod_less_divisor mult_div_mod_eq zero_less_numeral)
  then have r: "?C mod 8192 = r" by simp
  have N': "max_blocks_count s = (if r = 0 then q else q + 1)"
    using qr N by auto
  show ?thesis
  proof (cases "idx + 1 = max_blocks_count s")
    case True
    then show ?thesis
      using qr r N' C by (cases "r = 0") (auto simp: get_block_capacity_def kBlockSizeBytes_def)
  next
    case False
    then have "idx + 1 \<le> q" using assms(2) N' by (auto split: if_splits)
    then have "8192 \<le> ?C - idx * 8192" using qr(1) by simp
    then show ?thesis using False by (simp add: get_block_capacity_def kBlockSizeBytes_def)
  qed
qed

lemma in_block_offset_capacity:
  assumes "geom s"
  shows "get_in_block_offset s p < get_block_capacity s (get_block_index s p)"
proof -
  have "p mod max_buffer_capacity_bytes s < max_buffer_capacity_bytes s"
    using geomD(1) [OF assms] by simp
  then show ?thesis
    using block_capacity_eq [OF assms block_index_less [OF assms]] block_split [of s p]
      in_block_offset_less [of s p] by simp
qed

lemma block_capacity_le: "geom s \<Longrightarrow> get_block_capacity s (get_block_index s p) \<le> 8192"
  using block_capacity_eq [OF _ block_index_less] by simp

text \<open>Within a block, consecutive stream offsets are consecutive bytes.\<close>

lemma block_step:
  assumes "geom s" "get_in_block_offset s p + k < get_block_capacity s (get_block_index s p)"
  shows "get_block_index s (p + k) = get_block_index s p"
    and "get_in_block_offset s (p + k) = get_in_block_offset s p + k"
    and "(p + k) mod max_buffer_capacity_bytes s = p mod max_buffer_capacity_bytes s + k"
proof -
  let ?C = "max_buffer_capacity_bytes s"
  have less: "p mod ?C + k < ?C" "get_in_block_offset s p + k < 8192"
    using assms(2) block_split [of s p]
    unfolding block_capacity_eq [OF assms(1) block_index_less [OF assms(1)]] by linarith+
  have "(p + k) mod ?C = (p mod ?C + k) mod ?C" by (simp add: mod_add_left_eq)
  with less(1) show eq: "(p + k) mod ?C = p mod ?C + k" by simp
  have "p mod ?C + k = get_block_index s p * 8192 + (get_in_block_offset s p + k)"
    using block_split [of s p] by simp
  then have "(p + k) mod ?C = (get_in_block_offset s p + k) + get_block_index s p * 8192"
    using eq by simp
  then show "get_block_index s (p + k) = get_block_index s p"
    "get_in_block_offset s (p + k) = get_in_block_offset s p + k"
    using less(2) unfolding get_block_index_def [of s "p + k"] get_in_block_offset_def [of s "p + k"]
      kBlockSizeBytes_def by simp_all
qed

text \<open>Offsets less than a buffer apart are different bytes.\<close>

lemma mod_window_inj:
  assumes "t \<le> p" "p < t + C" "t \<le> q" "q < t + C" "p mod C = q mod (C::nat)"
  shows "p = q"
proof (rule ccontr)
  assume "p \<noteq> q"
  then obtain a b where ab: "a < b" "t \<le> a" "b < t + C" "a mod C = b mod C"
    using assms by (metis linorder_neqE_nat)
  then have "C dvd b - a" by (metis mod_eq_dvd_iff_nat less_imp_le)
  moreover have "0 < b - a" "b - a < C" using ab by auto
  ultimately show False by (meson nat_dvd_not_less)
qed

lemma mod_from: "t \<le> x \<Longrightarrow> x mod C = (t mod C + (x - t)) mod (C::nat)"
  by (metis le_add_diff_inverse mod_add_left_eq)

lemma block_index_mono_between:
  "p mod C \<le> x mod C \<Longrightarrow> x mod C \<le> q mod C \<Longrightarrow> C = max_buffer_capacity_bytes s \<Longrightarrow>
    get_block_index s p = b \<Longrightarrow> get_block_index s q = b \<Longrightarrow> get_block_index s x = b"
  unfolding get_block_index_def
  by (metis div_le_mono le_antisym)

text \<open>
  The offsets of the window that fall into the block just read are the rest of this block, or
  run up to the end of the window.
\<close>

lemma block_window:
  assumes g: "geom s" and C: "C = max_buffer_capacity_bytes s"
    and t: "0 < t" "get_block_index s (t - 1) = b"
    and p: "t \<le> p" "p < t + C" "get_block_index s p = b"
  shows "(\<forall>x. t \<le> x \<and> x \<le> p \<longrightarrow> get_block_index s x = b) \<or>
    (\<forall>x. p \<le> x \<and> x < t + C \<longrightarrow> get_block_index s x = b)"
proof -
  have pos: "0 < C" using geomD(1) [OF g] C by simp
  define d where "d = p - t"
  have d: "p = t + d" "d < C" using p d_def by auto
  show ?thesis
  proof (cases "t mod C = 0")
    case True
    then obtain k where k: "t = k * C" by (metis mod_0_imp_dvd dvdE mult.commute)
    have "(t - 1) mod C = C - 1"
    proof -
      from k t(1) have "0 < k" by (cases k) auto
      with k pos have "t - 1 = (k - 1) * C + (C - 1)" by (cases k) auto
      then have "(t - 1) mod C = (C - 1) mod C" by (simp only: mod_mult_self3)
      then show ?thesis using pos by simp
    qed
    moreover have "x mod C = x - t" if "t \<le> x" "x < t + C" for x
    proof -
      have "x = k * C + (x - t)" using that k by simp
      then show ?thesis using that by (metis add_less_imp_less_left le_add_diff_inverse mod_less mod_mult_self3)
    qed
    ultimately have "get_block_index s x = b" if "p \<le> x" "x < t + C" for x
      using that p t C by (intro block_index_mono_between [of p C x "t - 1" s b]) auto
    then show ?thesis by blast
  next
    case False
    then have u: "(t - 1) mod C = t mod C - 1"
      using t(1) by (metis Suc_diff_1 diff_Suc_1 mod_Suc)
    show ?thesis
    proof (cases "t mod C + d < C")
      case True
      have m: "x mod C = t mod C + (x - t)" if "t \<le> x" "x \<le> p" for x
      proof -
        have "x mod C = (t mod C + (x - t)) mod C" using that by (intro mod_from) simp
        then show ?thesis using that True d by simp
      qed
      have "get_block_index s x = b" if "t \<le> x" "x \<le> p" for x
        using that u m [of x] m [of p] p t C
        by (intro block_index_mono_between [of "t - 1" C x p s b]) auto
      then show ?thesis by blast
    next
      case wrap: False
      have m: "x mod C = t mod C + (x - t) - C" if "p \<le> x" "x < t + C" for x
      proof -
        have "x mod C = (t mod C + (x - t)) mod C" using that p by (intro mod_from) simp
        moreover have "C \<le> t mod C + (x - t)" "t mod C + (x - t) < C + C"
          using that wrap d mod_less_divisor [OF pos, of t] by linarith+
        ultimately show ?thesis by (simp add: le_mod_geq)
      qed
      have "get_block_index s x = b" if "p \<le> x" "x < t + C" for x
        using that u m [of x] m [of p] p t C
        by (intro block_index_mono_between [of p C x "t - 1" s b]) auto
      then show ?thesis by blast
    qed
  qed
qed

text \<open>A block that ends and starts at the same place is the only one.\<close>

lemma single_block:
  assumes g: "geom s" and t: "0 < t" "get_block_index s (t - 1) = b" "get_block_index s t = b"
    and off: "get_in_block_offset s t = 0"
  shows "get_block_index s x = b"
proof -
  let ?C = "max_buffer_capacity_bytes s"
  have pos: "0 < ?C" using geomD(1) [OF g] .
  have tm: "t mod ?C = b * 8192" using block_split [of s t] t(3) off by simp
  have "t mod ?C = 0"
  proof (rule ccontr)
    assume nz: "t mod ?C \<noteq> 0"
    then have "(t - 1) mod ?C = t mod ?C - 1" using t(1) by (metis Suc_diff_1 diff_Suc_1 mod_Suc)
    then show False using block_split [of s "t - 1"] t(2) tm nz by simp
  qed
  moreover from this tm have "b = 0" by simp
  ultimately have "(t - 1) mod ?C = ?C - 1" using t(1) by (metis Suc_diff_1 diff_Suc_1 mod_Suc Suc_neq_Zero)
  then have "?C - 1 < 8192"
    using block_split [of s "t - 1"] t(2) \<open>b = 0\<close> in_block_offset_less [of s "t - 1"] by simp
  moreover have "x mod ?C < ?C" using pos by simp
  ultimately have "x mod ?C < 8192" by linarith
  then show ?thesis using \<open>b = 0\<close> by (simp add: get_block_index_def kBlockSizeBytes_def)
qed

lemma block_end:
  assumes g: "geom s" and n: "get_in_block_offset s p + n = get_block_capacity s (get_block_index s p)"
  shows "get_in_block_offset s (p + n) = 0"
proof -
  let ?C = "max_buffer_capacity_bytes s" and ?i = "get_block_index s p"
  have pm: "p mod ?C < ?C" using geomD(1) [OF g] by simp
  have cap: "get_in_block_offset s p + n = min 8192 (?C - ?i * 8192)"
    using n block_capacity_eq [OF g block_index_less [OF g]] by simp
  have sum: "p mod ?C + n = ?i * 8192 + min 8192 (?C - ?i * 8192)"
    using cap block_split [of s p] by simp
  have le: "?i * 8192 \<le> ?C" using pm block_split [of s p] by simp
  have "(p + n) mod ?C = (p mod ?C + n) mod ?C" by (simp add: mod_add_left_eq)
  then have eq: "(p + n) mod ?C = (?i * 8192 + min 8192 (?C - ?i * 8192)) mod ?C"
    unfolding sum .
  have "(p + n) mod ?C mod 8192 = 0"
  proof (cases "?i * 8192 + 8192 < ?C")
    case True
    then have "(p + n) mod ?C = (?i + 1) * 8192" using eq by simp
    then show ?thesis by simp
  next
    case False
    then have "?i * 8192 + min 8192 (?C - ?i * 8192) = ?C" using le by simp
    then show ?thesis using eq by simp
  qed
  then show ?thesis by (simp add: get_in_block_offset_def kBlockSizeBytes_def)
qed

end
