(* ===== verification/Buffer_Receive.thy ===== *)
theory Buffer_Receive
  imports Buffer_Geometry
begin

text \<open>
  The receiving side of the reassembly buffer: copying into the blocks, the invariant of the
  buffer and what \<open>OnStreamData\<close> does to the received set and the stored bytes.
\<close>

section \<open>Copying into the blocks\<close>

definition with_blocks :: "seq_buffer \<Rightarrow> mem option list \<Rightarrow> seq_buffer" where
  "with_blocks s bs = s\<lparr>blocks := Some bs\<rparr>"

lemma with_blocks_simps [simp]:
  "blocks (with_blocks s bs) = Some bs"
  "max_buffer_capacity_bytes (with_blocks s bs) = max_buffer_capacity_bytes s"
  "max_blocks_count (with_blocks s bs) = max_blocks_count s"
  "total_bytes_read (with_blocks s bs) = total_bytes_read s"
  "num_bytes_buffered (with_blocks s bs) = num_bytes_buffered s"
  "bytes_received (with_blocks s bs) = bytes_received s"
  "allocate_blocks_on_demand (with_blocks s bs) = allocate_blocks_on_demand s"
  "with_blocks (with_blocks s cs) bs = with_blocks s bs"
  "get_block_index (with_blocks s bs) = get_block_index s"
  "get_in_block_offset (with_blocks s bs) = get_in_block_offset s"
  "get_block_capacity (with_blocks s bs) = get_block_capacity s"
  by (simp_all add: with_blocks_def buf_simps)

lemma geom_with_blocks [simp]: "geom s \<Longrightarrow> length bs = max_blocks_count s \<Longrightarrow> geom (with_blocks s bs)"
  by (simp add: with_blocks_def buf_simps)

lemma stored_with_blocks:
  "length bs = max_blocks_count s \<Longrightarrow> geom s \<Longrightarrow> stored (with_blocks s bs) p =
    map_option (\<lambda>m. m (get_in_block_offset s p)) (bs ! get_block_index s p)"
  by (auto simp: stored_def block_ptr_def block_index_less split: option.splits)

text \<open>What a write keeps: bytes at the offsets \<open>P\<close>.\<close>

definition keeps :: "seq_buffer \<Rightarrow> seq_buffer \<Rightarrow> (u64 \<Rightarrow> bool) \<Rightarrow> bool" where
  "keeps s s' P \<longleftrightarrow> (\<forall>p b. P p \<longrightarrow> stored s p = Some b \<longrightarrow> stored s' p = Some b)"

lemma keeps_trans: "keeps s s' P \<Longrightarrow> keeps s' s'' Q \<Longrightarrow> keeps s s'' (\<lambda>p. P p \<and> Q p)"
  by (auto simp: keeps_def)

lemma keeps_mono: "keeps s s' P \<Longrightarrow> (\<And>p. Q p \<Longrightarrow> P p) \<Longrightarrow> keeps s s' Q"
  by (auto simp: keeps_def)

lemma write_block_correct:
  assumes g: "geom s" and bs: "blocks s = Some bs"
    and fits: "get_in_block_offset s p + length d \<le> get_block_capacity s (get_block_index s p)"
  shows "\<exists>cs. write_block s (get_block_index s p) (get_in_block_offset s p) d = Some (with_blocks s cs) \<and>
    length cs = max_blocks_count s \<and>
    (\<forall>k < length d. stored (with_blocks s cs) (p + k) = Some (d ! k)) \<and>
    keeps s (with_blocks s cs)
      (\<lambda>q. \<forall>k < length d. (p + k) mod max_buffer_capacity_bytes s \<noteq> q mod max_buffer_capacity_bytes s)"
proof -
  let ?i = "get_block_index s p" and ?o = "get_in_block_offset s p"
  have len: "length bs = max_blocks_count s" using geomD(5) [OF g bs] .
  have i: "?i < length bs" using block_index_less [OF g] len by simp
  define m where "m = (case bs ! ?i of None \<Rightarrow> zero_block | Some m \<Rightarrow> m)"
  define cs where "cs = bs[?i := Some (mem_write m ?o d)]"
  have lcs: "length cs = max_blocks_count s" using len cs_def by simp
  have fit: "?o + length d \<le> 8192" using fits block_capacity_le [OF g, of p] by simp
  have wr: "write_block s ?i ?o d = Some (with_blocks s cs)"
    using bs i fit by (simp add: write_block_def block_ptr_def with_blocks_def cs_def m_def kBlockSizeBytes_def)
  have "stored (with_blocks s cs) (p + k) = Some (d ! k)" if "k < length d" for k
  proof -
    have "?o + k < get_block_capacity s ?i" using that fits by simp
    from block_step [OF g this] show ?thesis
      unfolding stored_with_blocks [OF lcs g] using that i by (simp add: cs_def mem_simps)
  qed
  moreover have "keeps s (with_blocks s cs)
    (\<lambda>q. \<forall>k < length d. (p + k) mod max_buffer_capacity_bytes s \<noteq> q mod max_buffer_capacity_bytes s)"
    unfolding keeps_def
  proof (intro allI impI)
    fix q b
    assume other: "\<forall>k < length d. (p + k) mod max_buffer_capacity_bytes s \<noteq> q mod max_buffer_capacity_bytes s"
      and old: "stored s q = Some b"
    let ?j = "get_block_index s q" and ?r = "get_in_block_offset s q"
    show "stored (with_blocks s cs) q = Some b"
    proof (cases "?j = ?i")
      case True
      obtain m' where m': "bs ! ?i = Some m'" "m' ?r = b"
        using old True i bs by (auto simp: stored_def block_ptr_def split: option.splits)
      have "?r < ?o \<or> ?o + length d \<le> ?r"
      proof (rule ccontr)
        assume "\<not> ?thesis"
        then have k: "?o \<le> ?r" "?r - ?o < length d" by auto
        then have "?o + (?r - ?o) < get_block_capacity s ?i" using fits by simp
        from block_step(3) [OF g this] k True
        have "(p + (?r - ?o)) mod max_buffer_capacity_bytes s = q mod max_buffer_capacity_bytes s"
          using block_split [of s p] block_split [of s q] by simp
        with other k show False by blast
      qed
      then show ?thesis
        unfolding stored_with_blocks [OF lcs g] using True m' i by (auto simp: cs_def m_def mem_simps)
    next
      case False
      then show ?thesis
        unfolding stored_with_blocks [OF lcs g] using old bs len i
        by (auto simp: cs_def stored_def block_ptr_def split: option.splits if_splits)
    qed
  qed
  ultimately show ?thesis using wr lcs by blast
qed

lemma zeroed_blocks_correct:
  assumes "geom s"
  shows "\<exists>bs. zeroed_blocks s = with_blocks s bs \<and> length bs = max_blocks_count s \<and>
    keeps s (with_blocks s bs) (\<lambda>_. True)"
proof (cases "blocks s")
  case None
  then have "stored s p = None" for p by (simp add: stored_def block_ptr_def)
  with None geomD(4) [OF assms] show ?thesis
    by (intro exI [of _ "replicate (max_blocks_count s) None"])
      (simp add: zeroed_blocks_def with_blocks_def keeps_def)
next
  case (Some bs)
  then have "with_blocks s bs = s" by (simp add: with_blocks_def)
  with Some geomD(5) [OF assms Some] show ?thesis
    by (intro exI [of _ bs]) (simp add: zeroed_blocks_def keeps_def)
qed

lemma copy_loop_correct:
  "geom s \<Longrightarrow> total_bytes_read s \<le> p \<Longrightarrow>
    p + length d \<le> total_bytes_read s + max_buffer_capacity_bytes s \<Longrightarrow>
    total_bytes_read s + max_buffer_capacity_bytes s + 8192 < 2 ^ 64 \<Longrightarrow>
    n + length d < 2 ^ 64 \<Longrightarrow>
    \<exists>s'. copy_loop s p d n = Some (True, n + length d, s') \<and>
      (d = [] \<and> s' = s \<or> (\<exists>cs. s' = with_blocks s cs \<and> length cs = max_blocks_count s)) \<and>
      (\<forall>k < length d. stored s' (p + k) = Some (d ! k)) \<and>
      keeps s s' (\<lambda>q. total_bytes_read s \<le> q \<and>
        q < total_bytes_read s + max_buffer_capacity_bytes s \<and> \<not> (p \<le> q \<and> q < p + length d))"
proof (induction "length d" arbitrary: s p d n rule: less_induct)
  case less
  let ?C = "max_buffer_capacity_bytes s" and ?T = "total_bytes_read s"
  let ?i = "get_block_index s p" and ?o = "get_in_block_offset s p"
  note g = less.prems(1)
  show ?case
  proof (cases "d = []")
    case True
    then show ?thesis by (subst copy_loop.simps) (simp add: keeps_def)
  next
    case False
    let ?cap = "get_block_capacity s ?i"
    have cap: "?o < ?cap" "?cap \<le> 8192"
      using in_block_offset_capacity [OF g] block_capacity_le [OF g] by auto
    have avail: "u64_sub ?cap ?o = ?cap - ?o"
      using cap by (intro u64_sub_no_wrap) auto
    have limit: "u64_add ?T ?C = ?T + ?C" "u64_add p (?cap - ?o) = p + (?cap - ?o)"
      "u64_sub (?T + ?C) p = ?T + ?C - p"
    proof -
      have "?T + ?C < 2 ^ 64" "p + (?cap - ?o) < 2 ^ 64" "p \<le> ?T + ?C"
        using less.prems cap by linarith+
      then show "u64_add ?T ?C = ?T + ?C" "u64_add p (?cap - ?o) = p + (?cap - ?o)"
        "u64_sub (?T + ?C) p = ?T + ?C - p"
        by (simp_all only: u64_simps)
    qed
    define a where "a = (if ?T + ?C < p + (?cap - ?o) then ?T + ?C - p else ?cap - ?o)"
    define l where "l = min a (length d)"
    have pos: "0 < length d" using False by simp
    have l: "0 < l" "l \<le> length d" "?o + l \<le> ?cap" "p + l \<le> ?T + ?C"
      using pos less.prems(3) cap by (auto simp del: length_greater_0_conv simp: l_def a_def min_def not_less)
    obtain bs where bs: "zeroed_blocks s = with_blocks s bs" "length bs = max_blocks_count s"
        and keep0: "keeps s (with_blocks s bs) (\<lambda>_. True)"
      using zeroed_blocks_correct [OF g] by blast
    let ?s1 = "with_blocks s bs"
    have g1: "geom ?s1" using g bs(2) by simp
    obtain cs where cs: "write_block ?s1 ?i ?o (take l d) = Some (with_blocks s cs)"
        "length cs = max_blocks_count s"
        "\<forall>k < l. stored (with_blocks s cs) (p + k) = Some (d ! k)"
        and keep1: "keeps ?s1 (with_blocks s cs) (\<lambda>q. \<forall>k < l. (p + k) mod ?C \<noteq> q mod ?C)"
      using write_block_correct [OF g1, of bs p "take l d"] l by auto
    let ?s2 = "with_blocks s cs"
    have step: "copy_loop s p d n = copy_loop ?s2 (p + l) (drop l d) (n + l)"
    proof -
      have "u64_add p l = p + l" "u64_add n l = n + l"
        using less.prems l by (auto intro!: u64_add_no_wrap)
      then show ?thesis
        using False geomD(4) [OF g] block_index_less [OF g, of p, unfolded not_le [symmetric]] bs(1) cs(1)
        by (subst copy_loop.simps)
          (simp only: Let_def avail limit a_def [symmetric] l_def [symmetric] if_False
            with_blocks_simps option.distinct bind.bind_lunit)
    qed
    have "\<exists>s'. copy_loop ?s2 (p + l) (drop l d) (n + l) = Some (True, (n + l) + length (drop l d), s') \<and>
      (drop l d = [] \<and> s' = ?s2 \<or> (\<exists>cs. s' = with_blocks ?s2 cs \<and> length cs = max_blocks_count ?s2)) \<and>
      (\<forall>k < length (drop l d). stored s' (p + l + k) = Some (drop l d ! k)) \<and>
      keeps ?s2 s' (\<lambda>q. total_bytes_read ?s2 \<le> q \<and>
        q < total_bytes_read ?s2 + max_buffer_capacity_bytes ?s2 \<and>
        \<not> (p + l \<le> q \<and> q < p + l + length (drop l d)))"
      using less.prems l cs(2) False by (intro less.hyps) auto
    then obtain s' where s': "copy_loop s p d n = Some (True, n + length d, s')"
        "\<exists>cs. s' = with_blocks s cs \<and> length cs = max_blocks_count s"
        "\<forall>k < length d - l. stored s' (p + l + k) = Some (d ! (l + k))"
        and keep2: "keeps ?s2 s' (\<lambda>q. ?T \<le> q \<and> q < ?T + ?C \<and> \<not> (p + l \<le> q \<and> q < p + length d))"
      using step l cs(2) by auto
    have apart: "\<forall>k < l. (p + k) mod ?C \<noteq> q mod ?C"
      if "?T \<le> q" "q < ?T + ?C" "\<not> (p \<le> q \<and> q < p + l)" for q
    proof (intro allI impI notI)
      fix k assume k: "k < l" "(p + k) mod ?C = q mod ?C"
      have "p + k = q"
        using that k(1) l less.prems(2) by (intro mod_window_inj [OF _ _ _ _ k(2), of ?T]) linarith+
      with k(1) that(3) show False by auto
    qed
    have "keeps s s' (\<lambda>q. ?T \<le> q \<and> q < ?T + ?C \<and> \<not> (p \<le> q \<and> q < p + length d))"
    proof (rule keeps_mono [OF keeps_trans [OF keeps_trans [OF keep0 keep1] keep2]])
      fix q assume q: "?T \<le> q \<and> q < ?T + ?C \<and> \<not> (p \<le> q \<and> q < p + length d)"
      then have "\<not> (p \<le> q \<and> q < p + l)" "\<not> (p + l \<le> q \<and> q < p + length d)" using l by auto
      with q apart show "(True \<and> (\<forall>k < l. (p + k) mod ?C \<noteq> q mod ?C)) \<and>
          ?T \<le> q \<and> q < ?T + ?C \<and> \<not> (p + l \<le> q \<and> q < p + length d)" by blast
    qed
    moreover have "stored s' (p + k) = Some (d ! k)" if "k < length d" for k
    proof (cases "k < l")
      case True
      then have "stored ?s2 (p + k) = Some (d ! k)" using cs(3) by blast
      then show ?thesis
        using keep2 True l less.prems(2,3) by (auto simp: keeps_def)
    next
      case False
      then show ?thesis using s'(3) [rule_format, of "k - l"] that by simp
    qed
    ultimately show ?thesis using s'(1,2) False by blast
  qed
qed

section \<open>The invariant\<close>

definition received :: "seq_buffer \<Rightarrow> u64 set" where
  "received s = iset_pts (bytes_received s)"

text \<open>
  \<open>buf_inv f s\<close>: the buffer \<open>s\<close> holds the stream \<open>f\<close>.  Everything consumed has been
  received, everything received lies in the window that starts at the consumed bytes and
  below the largest stream offset \<open>2 ^ 62\<close> of the wire format, the number of intervals is
  under the limit, \<open>num_bytes_buffered_\<close> counts the received bytes that are not consumed,
  and each of these bytes is stored.
\<close>

definition buf_inv :: "(u64 \<Rightarrow> byte) \<Rightarrow> seq_buffer \<Rightarrow> bool" where
  "buf_inv f s \<longleftrightarrow> geom s \<and> iset_inv (bytes_received s) \<and> {..<total_bytes_read s} \<subseteq> received s \<and>
     (\<forall>p \<in> received s. p < total_bytes_read s + max_buffer_capacity_bytes s \<and> p < 2 ^ 62) \<and>
     length (bytes_received s) < kMaxNumDataIntervalsAllowed \<and>
     num_bytes_buffered s = card (received s - {..<total_bytes_read s}) \<and>
     (\<forall>p \<in> received s. total_bytes_read s \<le> p \<longrightarrow> stored s p = Some (f p))"

lemma buf_invD:
  assumes "buf_inv f s"
  shows "geom s" "iset_inv (bytes_received s)" "{..<total_bytes_read s} \<subseteq> received s"
    "p \<in> received s \<Longrightarrow> p < total_bytes_read s + max_buffer_capacity_bytes s"
    "p \<in> received s \<Longrightarrow> p < 2 ^ 62"
    "length (bytes_received s) < kMaxNumDataIntervalsAllowed"
    "num_bytes_buffered s = card (received s - {..<total_bytes_read s})"
    "p \<in> received s \<Longrightarrow> total_bytes_read s \<le> p \<Longrightarrow> stored s p = Some (f p)"
  using assms by (auto simp: buf_inv_def)

lemma received_finite: "buf_inv f s \<Longrightarrow> finite (received s)"
  using buf_invD(5) by (intro finite_subset [of "received s" "{..<2 ^ 62}"]) auto

lemma total_bytes_bound: "buf_inv f s \<Longrightarrow> total_bytes_read s \<le> 2 ^ 62"
proof -
  assume inv: "buf_inv f s"
  show ?thesis
  proof (cases "total_bytes_read s")
    case (Suc n)
    then have "n \<in> received s" using buf_invD(3) [OF inv] by auto
    from buf_invD(5) [OF inv this] Suc show ?thesis by simp
  qed simp
qed

lemma window_no_wrap:
  assumes "buf_inv f s"
  shows "total_bytes_read s + max_buffer_capacity_bytes s + 8192 < 2 ^ 64"
    "u64_add (total_bytes_read s) (max_buffer_capacity_bytes s) =
      total_bytes_read s + max_buffer_capacity_bytes s"
proof -
  have "total_bytes_read s \<le> 2 ^ 62" "max_buffer_capacity_bytes s \<le> 2 ^ 62"
    using total_bytes_bound [OF assms] geomD(2) [OF buf_invD(1) [OF assms]] by auto
  then show "total_bytes_read s + max_buffer_capacity_bytes s + 8192 < 2 ^ 64"
    "u64_add (total_bytes_read s) (max_buffer_capacity_bytes s) =
      total_bytes_read s + max_buffer_capacity_bytes s" by (simp_all add: u64_add_def)
qed

section \<open>Copying the new ranges\<close>

lemma copy_stream_data_correct:
  assumes "geom s" "total_bytes_read s \<le> p"
    "p + length d \<le> total_bytes_read s + max_buffer_capacity_bytes s"
    "total_bytes_read s + max_buffer_capacity_bytes s + 8192 < 2 ^ 64"
  shows "\<exists>s'. copy_stream_data s p d = Some (True, length d, s') \<and>
    (s' = s \<or> (\<exists>cs. s' = with_blocks s cs \<and> length cs = max_blocks_count s)) \<and>
    (\<forall>k < length d. stored s' (p + k) = Some (d ! k)) \<and>
    keeps s s' (\<lambda>q. total_bytes_read s \<le> q \<and>
      q < total_bytes_read s + max_buffer_capacity_bytes s \<and> \<not> (p \<le> q \<and> q < p + length d))"
  using copy_loop_correct [OF assms, of 0] assms(3,4) by (auto simp: copy_stream_data_def)

lemma iset_pts_card_Cons:
  assumes "iset_inv (i # S)" "finite (iset_pts (i # S))"
  shows "card (iset_pts (i # S)) = (imax i - imin i) + card (iset_pts S)"
proof -
  have "ivl_pts i \<inter> iset_pts S = {}"
    using iset_pts_above [OF assms(1)] by (force simp: ivl_pts_def)
  with assms(2) show ?thesis by (simp add: card_Un_disjoint) (simp add: ivl_pts_def)
qed

lemma copy_new_ranges_correct:
  "geom s \<Longrightarrow> iset_inv js \<Longrightarrow> iset_pts js \<subseteq> {p..<p + length d} \<Longrightarrow>
    iset_pts js \<subseteq> {total_bytes_read s..<total_bytes_read s + max_buffer_capacity_bytes s} \<Longrightarrow>
    total_bytes_read s + max_buffer_capacity_bytes s + 8192 < 2 ^ 64 \<Longrightarrow>
    p + length d < 2 ^ 64 \<Longrightarrow> n + card (iset_pts js) < 2 ^ 64 \<Longrightarrow>
    \<exists>s'. copy_new_ranges s js p d n = Some (True, n + card (iset_pts js), s') \<and>
      (s' = s \<or> (\<exists>cs. s' = with_blocks s cs \<and> length cs = max_blocks_count s)) \<and>
      (\<forall>q \<in> iset_pts js. stored s' q = Some (d ! (q - p))) \<and>
      keeps s s' (\<lambda>q. total_bytes_read s \<le> q \<and>
        q < total_bytes_read s + max_buffer_capacity_bytes s \<and> q \<notin> iset_pts js)"
proof (induction "js" arbitrary: s n)
  case (Cons i js)
  let ?C = "max_buffer_capacity_bytes s" and ?T = "total_bytes_read s"
  have ne: "imin i < imax i" and inv: "iset_inv js" using Cons.prems(2) by (auto simp: iset_inv_Cons)
  have "{imin i..<imax i} \<subseteq> {p..<p + length d}" "{imin i..<imax i} \<subseteq> {?T..<?T + ?C}"
    using Cons.prems(3,4) by (simp_all add: ivl_pts_def)
  then have range: "p \<le> imin i" "imax i \<le> p + length d" "?T \<le> imin i" "imax i \<le> ?T + ?C"
    using ne by (auto simp: atLeastLessThan_subset_iff)
  have subs: "u64_sub (imin i) p = imin i - p" "u64_sub (imax i) (imin i) = imax i - imin i"
    using range ne Cons.prems(6) by (auto intro!: u64_sub_no_wrap)
  have fin: "finite (iset_pts (i # js))" using Cons.prems(3) by (rule finite_subset) simp
  note card = iset_pts_card_Cons [OF Cons.prems(2) fin]
  let ?d = "take (imax i - imin i) (drop (imin i - p) d)"
  have len: "length ?d = imax i - imin i" using range ne by simp
  obtain s1 where s1: "copy_stream_data s (imin i) ?d = Some (True, imax i - imin i, s1)"
      "s1 = s \<or> (\<exists>cs. s1 = with_blocks s cs \<and> length cs = max_blocks_count s)"
      "\<forall>k < imax i - imin i. stored s1 (imin i + k) = Some (?d ! k)"
      and keep1: "keeps s s1 (\<lambda>q. ?T \<le> q \<and> q < ?T + ?C \<and> \<not> (imin i \<le> q \<and> q < imax i))"
    using copy_stream_data_correct [of s "imin i" ?d] Cons.prems range ne by (auto simp: len)
  have same: "geom s1" "total_bytes_read s1 = ?T" "max_buffer_capacity_bytes s1 = ?C"
      "max_blocks_count s1 = max_blocks_count s"
      "\<And>cs. with_blocks s1 cs = with_blocks s cs"
    using s1(2) Cons.prems(1) by auto
  have "\<exists>s'. copy_new_ranges s1 js p d (n + (imax i - imin i)) =
        Some (True, n + (imax i - imin i) + card (iset_pts js), s') \<and>
      (s' = s1 \<or> (\<exists>cs. s' = with_blocks s1 cs \<and> length cs = max_blocks_count s1)) \<and>
      (\<forall>q \<in> iset_pts js. stored s' q = Some (d ! (q - p))) \<and>
      keeps s1 s' (\<lambda>q. total_bytes_read s1 \<le> q \<and>
        q < total_bytes_read s1 + max_buffer_capacity_bytes s1 \<and> q \<notin> iset_pts js)"
    using Cons.prems inv same card by (intro Cons.IH) auto
  then obtain s' where s': "copy_new_ranges s1 js p d (n + (imax i - imin i)) =
        Some (True, n + card (iset_pts (i # js)), s')"
      "s' = s \<or> (\<exists>cs. s' = with_blocks s cs \<and> length cs = max_blocks_count s)"
      "\<forall>q \<in> iset_pts js. stored s' q = Some (d ! (q - p))"
      and keep2: "keeps s1 s' (\<lambda>q. ?T \<le> q \<and> q < ?T + ?C \<and> q \<notin> iset_pts js)"
    using same s1(2) card by (auto simp: add.assoc)
  have "u64_add n (imax i - imin i) = n + (imax i - imin i)"
    using Cons.prems(7) card by (intro u64_add_no_wrap) simp
  then have "copy_new_ranges s (i # js) p d n = Some (True, n + card (iset_pts (i # js)), s')"
    using subs range ne s1(1) s'(1) by simp
  moreover have "stored s' q = Some (d ! (q - p))" if "q \<in> iset_pts (i # js)" for q
  proof (cases "q \<in> iset_pts js")
    case False
    with that have q: "imin i \<le> q" "q < imax i" by (auto simp: ivl_pts_def)
    then have "q - imin i < imax i - imin i" by simp
    from s1(3) [rule_format, OF this] q have "stored s1 q = Some (d ! (q - p))" using q range by simp
    then show ?thesis using keep2 False q range by (auto simp: keeps_def)
  qed (use s'(3) in blast)
  moreover have "keeps s s' (\<lambda>q. ?T \<le> q \<and> q < ?T + ?C \<and> q \<notin> iset_pts (i # js))"
    by (rule keeps_mono [OF keeps_trans [OF keep1 keep2]]) (auto simp: ivl_pts_def)
  ultimately show ?case using s'(2) by blast
qed (simp add: keeps_def)

section \<open>OnStreamData\<close>

definition overwrite :: "(u64 \<Rightarrow> byte) \<Rightarrow> u64 set \<Rightarrow> u64 \<Rightarrow> byte list \<Rightarrow> u64 \<Rightarrow> byte" where
  "overwrite f seen p d q = (if p \<le> q \<and> q < p + length d \<and> q \<notin> seen then d ! (q - p) else f q)"

lemma on_stream_data_empty: "on_stream_data s p [] = Some (QUIC_EMPTY_STREAM_FRAME_NO_FIN, 0, s)"
  by (simp add: on_stream_data_def)

lemma on_stream_data_beyond:
  assumes "buf_inv f s" "d \<noteq> []" "p < 2 ^ 64" "length d < 2 ^ 64"
    "total_bytes_read s + max_buffer_capacity_bytes s < p + length d"
  shows "on_stream_data s p d = Some (QUIC_INTERNAL_ERROR, 0, s)"
proof -
  have "total_bytes_read s + max_buffer_capacity_bytes s < u64_add p (length d) \<or> u64_add p (length d) < p"
    using u64_add_overflow [OF assms(3,4)] assms(5) by (cases "p + length d < 2 ^ 64") (auto simp: u64_simps)
  then show ?thesis
    using assms(2) window_no_wrap(2) [OF assms(1)] by (simp add: on_stream_data_def Let_def)
qed

lemma received_updates [buf_simps]:
  "received (s\<lparr>num_bytes_buffered := n\<rparr>) = received s"
  "received (s\<lparr>bytes_received := r\<rparr>) = iset_pts r"
  "received (s\<lparr>blocks := b\<rparr>) = received s"
  "received (s\<lparr>total_bytes_read := t\<rparr>) = received s"
  "received (with_blocks s bs) = received s"
  by (simp_all add: received_def)

lemma receive_finish:
  assumes inv: "buf_inv f s" and R: "iset_inv R" "iset_pts R = received s \<union> {p..<p + length d}"
      "length R < kMaxNumDataIntervalsAllowed"
    and fits: "p + length d \<le> total_bytes_read s + max_buffer_capacity_bytes s" "p + length d \<le> 2 ^ 62"
    and n: "n = card ({p..<p + length d} - received s)"
    and s2: "s2 = s\<lparr>bytes_received := R\<rparr> \<or>
      (\<exists>cs. s2 = with_blocks (s\<lparr>bytes_received := R\<rparr>) cs \<and> length cs = max_blocks_count s)"
    and new: "\<forall>q \<in> {p..<p + length d} - received s. stored s2 q = Some (d ! (q - p))"
    and kept: "keeps s s2 (\<lambda>q. total_bytes_read s \<le> q \<and>
      q < total_bytes_read s + max_buffer_capacity_bytes s \<and> q \<notin> {p..<p + length d} - received s)"
  shows "buf_inv (overwrite f (received s) p d) (s2\<lparr>num_bytes_buffered := u64_add (num_bytes_buffered s2) n\<rparr>)"
proof -
  let ?T = "total_bytes_read s" and ?new = "{p..<p + length d} - received s"
  note D = buf_invD [OF inv] and fin = received_finite [OF inv]
  have same: "geom s2" "total_bytes_read s2 = ?T" "bytes_received s2 = R" "received s2 = iset_pts R"
      "max_buffer_capacity_bytes s2 = max_buffer_capacity_bytes s"
      "num_bytes_buffered s2 = num_bytes_buffered s"
    using s2 D(1) by (auto simp: buf_simps received_def)
  have split: "iset_pts R - {..<?T} = (received s - {..<?T}) \<union> ?new"
    using R(2) D(3) by auto
  have count: "num_bytes_buffered s + n = card (iset_pts R - {..<?T})"
    unfolding split D(7) n using fin by (subst card_Un_disjoint) auto
  have "iset_pts R - {..<?T} \<subseteq> {..<2 ^ 62}" using R(2) D(5) fits(2) by auto
  then have "card (iset_pts R - {..<?T}) \<le> 2 ^ 62" using card_mono [of "{..<2 ^ 62}"] by fastforce
  then have "u64_add (num_bytes_buffered s2) n = card (iset_pts R - {..<?T})"
    using count same(6) by (simp add: u64_add_def)
  moreover have "stored s2 q = Some (overwrite f (received s) p d q)"
    if "q \<in> iset_pts R" "?T \<le> q" for q
  proof (cases "q \<in> ?new")
    case True
    then show ?thesis using new by (auto simp: overwrite_def)
  next
    case False
    then have "q \<in> received s" using that R(2) by auto
    with False kept that D(4,8) show ?thesis by (auto simp: keeps_def overwrite_def)
  qed
  moreover have "q < ?T + max_buffer_capacity_bytes s \<and> q < 2 ^ 62" if "q \<in> iset_pts R" for q
    using that R(2) D(4,5) fits by auto
  moreover have "{..<?T} \<subseteq> iset_pts R" using D(3) R(2) by auto
  ultimately show ?thesis
    using same R(1,3) by (simp add: buf_inv_def buf_simps)
qed

lemma after_last_disjoint:
  assumes "iset_inv R" "R = [] \<or> imax (last R) \<le> lo"
  shows "iset_pts R \<inter> {lo..<hi} = {}"
proof (cases "R = []")
  case False
  have "q < imax (last R)" if "q \<in> iset_pts R" for q
    by (rule iset_pts_below_last [OF assms(1) False that])
  with False assms(2) show ?thesis by force
qed simp

lemma on_stream_data_accept:
  assumes inv: "buf_inv f s" and d: "d \<noteq> []"
    and fits: "p + length d \<le> total_bytes_read s + max_buffer_capacity_bytes s" "p + length d \<le> 2 ^ 62"
  defines "R \<equiv> iset_add (bytes_received s) (Interval p (p + length d))"
  shows "if kMaxNumDataIntervalsAllowed \<le> length R
    then on_stream_data s p d = Some (QUIC_TOO_MANY_STREAM_DATA_INTERVALS, 0, s\<lparr>bytes_received := R\<rparr>)
    else \<exists>s'. on_stream_data s p d =
          Some (QUIC_NO_ERROR, card ({p..<p + length d} - received s), s') \<and>
        buf_inv (overwrite f (received s) p d) s' \<and> bytes_received s' = R \<and>
        total_bytes_read s' = total_bytes_read s \<and>
        max_buffer_capacity_bytes s' = max_buffer_capacity_bytes s"
proof -
  note D = buf_invD [OF inv] and win = window_no_wrap [OF inv]
  let ?i = "Interval p (p + length d)" and ?T = "total_bytes_read s" and ?C = "max_buffer_capacity_bytes s"
  let ?new = "{p..<p + length d} - received s" and ?s1 = "s\<lparr>bytes_received := R\<rparr>"
  have fin: "u64_add p (length d) = p + length d" using fits(2) by (intro u64_add_no_wrap) simp
  have R: "iset_inv R" "iset_pts R = received s \<union> {p..<p + length d}"
    using iset_add_correct [OF D(2), of ?i] by (simp_all add: R_def received_def ivl_pts_def)
  have guards: "d \<noteq> []" "\<not> u64_add ?T ?C < p + length d" "\<not> p + length d < p"
    "\<not> allocate_blocks_on_demand s"
    using d win(2) fits(1) geomD(4) [OF D(1)] by auto
  show ?thesis
  proof (cases "bytes_received s = [] \<or> imax (last (bytes_received s)) \<le> p
      \<or> iset_is_disjoint (bytes_received s) ?i")
    case True
    have dis: "received s \<inter> {p..<p + length d} = {}"
      using True iset_store.disjoint_law [OF D(2), of ?i] after_last_disjoint [OF D(2), of p]
      by (auto simp: received_def ivl_pts_def)
    then have new: "?new = {p..<p + length d}" by auto
    have eq: "iset_add_append (bytes_received s) ?i = R"
      using iset_store.append_eq_add [OF D(2)] by (simp add: R_def)
    show ?thesis
    proof (cases "kMaxNumDataIntervalsAllowed \<le> length R")
      case full: True
      then show ?thesis using True guards fin eq by (simp add: on_stream_data_def Let_def)
    next
      case room: False
      have "p \<ge> ?T" using dis D(3) d by (cases "p < ?T") auto
      then obtain s2 where s2: "copy_stream_data ?s1 p d = Some (True, length d, s2)"
          "s2 = ?s1 \<or> (\<exists>cs. s2 = with_blocks ?s1 cs \<and> length cs = max_blocks_count s)"
          "\<forall>k < length d. stored s2 (p + k) = Some (d ! k)"
          "keeps ?s1 s2 (\<lambda>q. ?T \<le> q \<and> q < ?T + ?C \<and> \<not> (p \<le> q \<and> q < p + length d))"
        using copy_stream_data_correct [of ?s1 p d] D(1) fits(1) win(1) by (auto simp: buf_simps)
      let ?s3 = "s2\<lparr>num_bytes_buffered := u64_add (num_bytes_buffered s2) (length d)\<rparr>"
      have run: "on_stream_data s p d = Some (QUIC_NO_ERROR, length d, ?s3)"
        using True room guards fin eq s2(1) by (simp add: on_stream_data_def Let_def)
      have new_stored: "stored s2 q = Some (d ! (q - p))" if "q \<in> ?new" for q
        using s2(3) [rule_format, of "q - p"] that by auto
      have kept: "keeps s s2 (\<lambda>q. ?T \<le> q \<and> q < ?T + ?C \<and> q \<notin> ?new)"
        using s2(4) unfolding new by (simp add: keeps_def buf_simps)
      have "buf_inv (overwrite f (received s) p d) ?s3"
        using receive_finish [OF inv R _ fits _ s2(2) _ kept, of "length d"] room new new_stored by simp
      moreover have "bytes_received ?s3 = R" "total_bytes_read ?s3 = ?T" "max_buffer_capacity_bytes ?s3 = ?C"
        using s2(2) by auto
      ultimately show ?thesis using room run new by simp
    qed
  next
    case slow: False
    obtain N where N: "iset_difference (iset_add [] ?i) (bytes_received s) = Some N" "iset_inv N"
        "iset_pts N = ?new"
      using iset_store.fresh [OF D(2), of ?i] by (auto simp: ivl_pts_def received_def)
    show ?thesis
    proof (cases "N = []")
      case True
      then have "ivl_pts ?i \<subseteq> iset_pts (bytes_received s)"
        using N(3) by (auto simp: received_def ivl_pts_def)
      then have "R = bytes_received s" unfolding R_def by (rule iset_store.add_seen [OF D(2)])
      moreover from this have "\<not> kMaxNumDataIntervalsAllowed \<le> length R" using D(6) by simp
      moreover have "overwrite f (received s) p d = f"
      proof -
        have "?new = {}" using True N(3) by simp
        then show ?thesis by (auto simp: overwrite_def fun_eq_iff)
      qed
      moreover have "on_stream_data s p d = Some (QUIC_NO_ERROR, 0, s)"
        using slow guards fin N(1) True by (simp add: on_stream_data_def Let_def iset_add_range_def)
      moreover have "card ?new = 0" using True N(3) by simp
      ultimately show ?thesis using inv by auto
    next
      case some_new: False
      show ?thesis
      proof (cases "kMaxNumDataIntervalsAllowed \<le> length R")
        case True
        then show ?thesis
          using slow some_new guards fin N(1)
          by (simp add: on_stream_data_def Let_def iset_add_range_def R_def)
      next
        case room: False
        have "?T \<le> q" if "q \<notin> received s" for q using D(3) that by (cases "q < ?T") auto
        then have "?new \<subseteq> {?T..<?T + ?C}" using fits(1) by auto
        moreover have "card ?new \<le> length d" using card_mono [of "{p..<p + length d}" ?new] by auto
        ultimately obtain s2 where s2: "copy_new_ranges ?s1 N p d 0 = Some (True, card ?new, s2)"
            "s2 = ?s1 \<or> (\<exists>cs. s2 = with_blocks ?s1 cs \<and> length cs = max_blocks_count s)"
            "\<forall>q \<in> ?new. stored s2 q = Some (d ! (q - p))"
            "keeps ?s1 s2 (\<lambda>q. ?T \<le> q \<and> q < ?T + ?C \<and> q \<notin> ?new)"
          using copy_new_ranges_correct [of ?s1 N p d 0] D(1) N fits win(1) by (auto simp: buf_simps)
        let ?s3 = "s2\<lparr>num_bytes_buffered := u64_add (num_bytes_buffered s2) (card ?new)\<rparr>"
        have run: "on_stream_data s p d = Some (QUIC_NO_ERROR, card ?new, ?s3)"
          using slow some_new room guards fin N(1) s2(1)
          by (simp add: on_stream_data_def Let_def iset_add_range_def R_def)
        have "keeps s s2 (\<lambda>q. ?T \<le> q \<and> q < ?T + ?C \<and> q \<notin> ?new)"
          using s2(4) by (simp add: keeps_def buf_simps)
        then have "buf_inv (overwrite f (received s) p d) ?s3"
          using receive_finish [OF inv R _ fits refl s2(2,3)] room by simp
        moreover have "bytes_received ?s3 = R" "total_bytes_read ?s3 = ?T" "max_buffer_capacity_bytes ?s3 = ?C"
          using s2(2) by auto
        ultimately show ?thesis using room run by simp
      qed
    qed
  qed
qed

end
