(* ===== verification/Buffer_Consume.thy ===== *)
theory Buffer_Consume
  imports Buffer_Receive
begin

text \<open>
  The consuming side of the reassembly buffer: reading, peeking, marking as consumed,
  flushing and releasing keep the invariant; what is read is the stream, in order; a block is
  retired only when it holds nothing that is still to be read, and never twice.
\<close>

section \<open>First missing and next expected byte\<close>

lemma first_missing_byte_correct:
  assumes inv: "buf_inv f s"
  shows "{..<first_missing_byte s} \<subseteq> received s" "first_missing_byte s \<notin> received s"
    "total_bytes_read s \<le> first_missing_byte s" "first_missing_byte s \<le> 2 ^ 62"
    "readable_bytes s = first_missing_byte s - total_bytes_read s"
proof -
  note D = buf_invD [OF inv]
  have "{..<first_missing_byte s} \<subseteq> received s \<and> first_missing_byte s \<notin> received s"
  proof (cases "bytes_received s")
    case (Cons i S)
    have inv_S: "iset_inv (i # S)" using D(2) Cons by simp
    show ?thesis
    proof (cases "imin i = 0")
      case True
      then show ?thesis
        using iset_pts_at_imax [OF inv_S] Cons
        by (auto simp: first_missing_byte_def received_def ivl_pts_def)
    next
      case False
      have "0 \<notin> received s"
        using iset_pts_bounds [OF inv_S, of 0] False Cons by (auto simp: received_def)
      then show ?thesis using Cons False by (simp add: first_missing_byte_def)
    qed
  qed (simp add: first_missing_byte_def received_def)
  then show sub: "{..<first_missing_byte s} \<subseteq> received s" and out: "first_missing_byte s \<notin> received s"
    by auto
  show le: "total_bytes_read s \<le> first_missing_byte s" using D(3) out by (auto simp: not_less [symmetric])
  show bound: "first_missing_byte s \<le> 2 ^ 62"
  proof (cases "first_missing_byte s")
    case (Suc n)
    then have "n \<in> received s" using sub by auto
    from D(5) [OF this] Suc show ?thesis by simp
  qed simp
  show "readable_bytes s = first_missing_byte s - total_bytes_read s"
    unfolding readable_bytes_def using le bound by (intro u64_sub_no_wrap) auto
qed

lemma next_expected_byte_correct:
  assumes inv: "buf_inv f s"
  shows "p \<in> received s \<Longrightarrow> p < next_expected_byte s"
    "received s \<noteq> {} \<Longrightarrow> next_expected_byte s - 1 \<in> received s \<and> 0 < next_expected_byte s"
    "next_expected_byte s \<le> 2 ^ 62"
proof -
  note D = buf_invD [OF inv]
  show below: "p < next_expected_byte s" if "p \<in> received s" for p
    using that iset_pts_below_last [OF D(2)]
    by (cases "bytes_received s = []") (auto simp: received_def next_expected_byte_def)
  have last: "next_expected_byte s - 1 \<in> received s \<and> 0 < next_expected_byte s" if "bytes_received s \<noteq> []"
    using that iset_inv_butlast_last [OF D(2) that]
    by (auto simp: received_def next_expected_byte_def ivl_pts_def)
  then show "next_expected_byte s - 1 \<in> received s \<and> 0 < next_expected_byte s" if "received s \<noteq> {}"
    using that by (cases "bytes_received s = []") (auto simp: received_def)
  show "next_expected_byte s \<le> 2 ^ 62"
  proof (cases "bytes_received s = []")
    case False
    from last [OF False] D(5) [of "next_expected_byte s - 1"] show ?thesis by simp
  qed (simp add: next_expected_byte_def)
qed

section \<open>Advancing the read position\<close>

definition advance :: "seq_buffer \<Rightarrow> u64 \<Rightarrow> seq_buffer" where
  "advance s n = s\<lparr>num_bytes_buffered := num_bytes_buffered s - n,
                   total_bytes_read := total_bytes_read s + n\<rparr>"

lemma advance_simps [simp]:
  "blocks (advance s n) = blocks s"
  "max_buffer_capacity_bytes (advance s n) = max_buffer_capacity_bytes s"
  "max_blocks_count (advance s n) = max_blocks_count s"
  "total_bytes_read (advance s n) = total_bytes_read s + n"
  "num_bytes_buffered (advance s n) = num_bytes_buffered s - n"
  "bytes_received (advance s n) = bytes_received s"
  "received (advance s n) = received s"
  "allocate_blocks_on_demand (advance s n) = allocate_blocks_on_demand s"
  "get_block_index (advance s n) = get_block_index s"
  "get_in_block_offset (advance s n) = get_in_block_offset s"
  "get_block_capacity (advance s n) = get_block_capacity s"
  "block_ptr (advance s n) = block_ptr s"
  "stored (advance s n) = stored s"
  "first_missing_byte (advance s n) = first_missing_byte s"
  "next_expected_byte (advance s n) = next_expected_byte s"
  by (simp_all add: advance_def buf_simps first_missing_byte_def next_expected_byte_def)

lemma readable_buffered:
  assumes inv: "buf_inv f s" and n: "n \<le> readable_bytes s"
  shows "{total_bytes_read s..<total_bytes_read s + n} \<subseteq> received s" "n \<le> num_bytes_buffered s"
proof -
  let ?T = "total_bytes_read s"
  show sub: "{?T..<?T + n} \<subseteq> received s"
  proof
    fix x assume "x \<in> {?T..<?T + n}"
    then have "x \<in> {..<first_missing_byte s}"
      using first_missing_byte_correct(3,5) [OF inv] n by auto
    then show "x \<in> received s" using first_missing_byte_correct(1) [OF inv] by blast
  qed
  have "card {?T..<?T + n} \<le> card (received s - {..<?T})"
    using sub received_finite [OF inv] by (intro card_mono) auto
  then show "n \<le> num_bytes_buffered s" using buf_invD(7) [OF inv] by simp
qed

lemma advance_inv:
  assumes inv: "buf_inv f s" and n: "n \<le> readable_bytes s"
  shows "buf_inv f (advance s n)"
proof -
  let ?T = "total_bytes_read s"
  note D = buf_invD [OF inv] and sub = readable_buffered [OF assms]
  have split: "received s - {..<?T} = (received s - {..<?T + n}) \<union> {?T..<?T + n}"
    using sub(1) by auto
  have "card (received s - {..<?T}) = card (received s - {..<?T + n}) + card {?T..<?T + n}"
    unfolding split using received_finite [OF inv] by (subst card_Un_disjoint) auto
  then have "num_bytes_buffered s - n = card (received s - {..<?T + n})"
    using D(7) by simp
  moreover have "{..<?T + n} \<subseteq> received s"
    using D(3) sub(1) by (metis ivl_disj_un_one(2) le_add1 Un_least)
  moreover have "\<forall>p \<in> received s. p < ?T + n + max_buffer_capacity_bytes s \<and> p < 2 ^ 62"
    using D(4,5) by fastforce
  ultimately show ?thesis
    using D(1,2,6,8) by (simp add: buf_inv_def geom_def)
qed

lemma advance_eq:
  assumes inv: "buf_inv f s" and n: "n \<le> readable_bytes s"
  shows "s\<lparr>num_bytes_buffered := u64_sub (num_bytes_buffered s) n,
           total_bytes_read := u64_add (total_bytes_read s) n\<rparr> = advance s n"
    and "s\<lparr>total_bytes_read := u64_add (total_bytes_read s) n,
           num_bytes_buffered := u64_sub (num_bytes_buffered s) n\<rparr> = advance s n"
proof -
  have "num_bytes_buffered s \<le> 2 ^ 62"
    using buf_invD(5,7) [OF inv] card_mono [of "{..<2 ^ 62}" "received s - {..<total_bytes_read s}"]
    by fastforce
  then have "u64_sub (num_bytes_buffered s) n = num_bytes_buffered s - n"
    using readable_buffered(2) [OF assms] by (intro u64_sub_no_wrap) auto
  moreover have "u64_add (total_bytes_read s) n = total_bytes_read s + n"
    using first_missing_byte_correct(3,4,5) [OF inv] n by (intro u64_add_no_wrap) simp
  ultimately show "s\<lparr>num_bytes_buffered := u64_sub (num_bytes_buffered s) n,
           total_bytes_read := u64_add (total_bytes_read s) n\<rparr> = advance s n"
    and "s\<lparr>total_bytes_read := u64_add (total_bytes_read s) n,
           num_bytes_buffered := u64_sub (num_bytes_buffered s) n\<rparr> = advance s n"
    by (simp_all add: advance_def)
qed

section \<open>Retiring blocks\<close>

definition drop_block :: "seq_buffer \<Rightarrow> nat \<Rightarrow> seq_buffer" where
  "drop_block s b = s\<lparr>blocks := map_option (\<lambda>bs. bs[b := None]) (blocks s)\<rparr>"

lemma drop_block_simps [simp]:
  "max_buffer_capacity_bytes (drop_block s b) = max_buffer_capacity_bytes s"
  "max_blocks_count (drop_block s b) = max_blocks_count s"
  "total_bytes_read (drop_block s b) = total_bytes_read s"
  "num_bytes_buffered (drop_block s b) = num_bytes_buffered s"
  "bytes_received (drop_block s b) = bytes_received s"
  "received (drop_block s b) = received s"
  "allocate_blocks_on_demand (drop_block s b) = allocate_blocks_on_demand s"
  by (simp_all add: drop_block_def buf_simps)

lemma retire_block_correct:
  assumes "block_ptr s b = Some (Some m)"
  shows "retire_block s b = Some (True, drop_block s b)"
  using assms by (simp add: retire_block_def drop_block_def)

lemma stored_drop_block:
  "get_block_index s p \<noteq> b \<Longrightarrow> stored (drop_block s b) p = stored s p"
  by (auto simp: stored_def block_ptr_def drop_block_def buf_simps split: option.splits)

lemma drop_block_inv:
  assumes inv: "buf_inv f s"
    and unused: "\<forall>p \<in> received s. total_bytes_read s \<le> p \<longrightarrow> get_block_index s p \<noteq> b"
  shows "buf_inv f (drop_block s b)"
proof -
  have "geom (drop_block s b)"
    using buf_invD(1) [OF inv] by (auto simp: geom_def drop_block_def)
  with inv unused show ?thesis
    by (auto simp: buf_inv_def stored_drop_block)
qed

lemma buffer_empty_received:
  assumes inv: "buf_inv f s" and t: "0 < total_bytes_read s"
  shows "buffer_empty s \<longleftrightarrow> received s = {..<total_bytes_read s}"
proof -
  let ?T = "total_bytes_read s"
  note D = buf_invD [OF inv]
  have "iset_inv [Interval 0 ?T]" using t by (simp add: iset_inv_Cons)
  moreover have pts: "iset_pts [Interval 0 ?T] = {..<?T}" by (auto simp: ivl_pts_def)
  ultimately have can: "received s = {..<?T} \<longleftrightarrow> bytes_received s = [Interval 0 ?T]"
    using iset_store.canonical [OF D(2), of "[Interval 0 ?T]"] unfolding received_def by metis
  have zero: "0 \<in> received s" using D(3) t by auto
  have "buffer_empty s \<longleftrightarrow> bytes_received s = [Interval 0 ?T]"
  proof
    assume empty: "buffer_empty s"
    have "bytes_received s \<noteq> []" using zero by (auto simp: received_def)
    with empty obtain i where one: "bytes_received s = [i]" and max: "imax i = ?T"
      by (auto simp: buffer_empty_def length_Suc_conv)
    have "imin i = 0" using zero one by (simp add: received_def ivl_pts_def)
    with one max show "bytes_received s = [Interval 0 ?T]" by (cases i) simp
  qed (use t in \<open>simp add: buffer_empty_def\<close>)
  with can show ?thesis by simp
qed

text \<open>
  After the last byte of a readable run in block \<open>b\<close> has been consumed:
  \<open>RetireBlockIfEmpty\<close> succeeds, and the block is dropped only when no byte that is still
  to be read is in it.
\<close>

lemma retire_block_if_empty_correct:
  assumes inv: "buf_inv f s" and t: "0 < total_bytes_read s"
    and b: "get_block_index s (total_bytes_read s - 1) = b" and ptr: "block_ptr s b = Some (Some m)"
    and stop: "readable_bytes s = 0 \<or> get_in_block_offset s (total_bytes_read s) = 0"
  shows "\<exists>s'. retire_block_if_empty s b = Some (True, s') \<and> buf_inv f s' \<and> (s' = s \<or> s' = drop_block s b)"
proof -
  let ?T = "total_bytes_read s" and ?E = "next_expected_byte s" and ?C = "max_buffer_capacity_bytes s"
  note D = buf_invD [OF inv] and N = next_expected_byte_correct [OF inv]
  have E: "?E - 1 \<in> received s" "0 < ?E" using N(2) D(3) t by auto
  have E1: "u64_sub ?E 1 = ?E - 1" using E(2) N(3) by (intro u64_sub_no_wrap) auto
  have wE: "?E - 1 < ?T + ?C" using D(4) E(1) by blast
  note retire = retire_block_correct [OF ptr]
  show ?thesis
  proof (cases "buffer_empty s")
    case True
    then have "\<forall>p \<in> received s. ?T \<le> p \<longrightarrow> get_block_index s p \<noteq> b"
      using buffer_empty_received [OF inv t] by auto
    then show ?thesis
      using True retire stop drop_block_inv [OF inv] by (simp add: retire_block_if_empty_def)
  next
    case nonempty: False
    show ?thesis
    proof (cases "get_block_index s (?E - 1) = b")
      case True
      then show ?thesis using nonempty stop inv E1 by (simp add: retire_block_if_empty_def)
    next
      case end_elsewhere: False
      have ahead: "\<forall>x. ?T \<le> x \<and> x \<le> p \<longrightarrow> get_block_index s x = b"
        if p: "p \<in> received s" "?T \<le> p" "get_block_index s p = b" for p
      proof -
        have "p \<le> ?E - 1" using N(1) [OF p(1)] by simp
        then have "\<not> (\<forall>x. p \<le> x \<and> x < ?T + ?C \<longrightarrow> get_block_index s x = b)"
          using wE end_elsewhere by blast
        then show ?thesis
          using block_window [OF D(1) refl t b p(2) _ p(3)] D(4) [OF p(1)] by blast
      qed
      show ?thesis
      proof (cases "get_block_index s ?T = b")
        case False
        then have "\<forall>p \<in> received s. ?T \<le> p \<longrightarrow> get_block_index s p \<noteq> b" using ahead by blast
        then show ?thesis
          using False nonempty end_elsewhere E1 retire stop drop_block_inv [OF inv]
          by (simp add: retire_block_if_empty_def next_block_to_read_def)
      next
        case here: True
        have none: "readable_bytes s = 0"
        proof (rule ccontr)
          assume "readable_bytes s \<noteq> 0"
          with stop have off: "get_in_block_offset s ?T = 0" by simp
          have one_block: "get_block_index s x = b" for x
            by (rule single_block [OF D(1) t b here off])
          then show False using end_elsewhere by blast
        qed
        then have stopT: "first_missing_byte s = ?T"
          using first_missing_byte_correct(3,5) [OF inv] by simp
        then obtain i S where R: "bytes_received s = i # S" "imin i = 0" "imax i = ?T"
          using t by (cases "bytes_received s") (auto simp: first_missing_byte_def split: if_splits)
        then obtain j S' where S: "S = j # S'"
          using nonempty t by (cases S) (auto simp: buffer_empty_def)
        have run: "retire_block_if_empty s b =
            (if get_block_index s (imin j) = b then Some (True, s) else Some (True, drop_block s b))"
          using nonempty end_elsewhere here E1 none R S retire
          by (simp add: retire_block_if_empty_def next_block_to_read_def)
        show ?thesis
        proof (cases "get_block_index s (imin j) = b")
          case False
          have "get_block_index s p \<noteq> b" if p: "p \<in> received s" "?T \<le> p" for p
          proof
            assume "get_block_index s p = b"
            with ahead p have all: "\<forall>x. ?T \<le> x \<and> x \<le> p \<longrightarrow> get_block_index s x = b" by blast
            have inv_R: "iset_inv (i # j # S')" using D(2) R S by simp
            have "p \<in> iset_pts (j # S')" using p R S by (auto simp: received_def ivl_pts_def)
            then have "imin j \<le> p" using iset_pts_bounds [of j S' p] inv_R by (simp add: iset_inv_Cons)
            moreover have "?T < imin j" using inv_R R(3) by (simp add: iset_inv_Cons)
            ultimately show False using all False by auto
          qed
          with run False drop_block_inv [OF inv] show ?thesis by auto
        qed (use run inv in simp)
      qed
    qed
  qed
qed

section \<open>One step of a reading loop\<close>

definition block_run :: "seq_buffer \<Rightarrow> u64" where
  "block_run s = min (readable_bytes s)
     (u64_sub (get_block_capacity s (next_block_to_read s)) (read_offset s))"

lemma block_run_eq:
  assumes "buf_inv f s"
  shows "block_run s = min (readable_bytes s)
    (get_block_capacity s (next_block_to_read s) - read_offset s)"
    and "0 < readable_bytes s \<Longrightarrow> 0 < block_run s"
proof -
  note g = buf_invD(1) [OF assms]
  have cap: "read_offset s < get_block_capacity s (next_block_to_read s)"
      "get_block_capacity s (next_block_to_read s) \<le> 8192"
    unfolding read_offset_def next_block_to_read_def
    using in_block_offset_capacity [OF g] block_capacity_le [OF g] by auto
  then have "u64_sub (get_block_capacity s (next_block_to_read s)) (read_offset s) =
      get_block_capacity s (next_block_to_read s) - read_offset s"
    by (intro u64_sub_no_wrap) auto
  then show eq: "block_run s = min (readable_bytes s)
      (get_block_capacity s (next_block_to_read s) - read_offset s)"
    by (simp add: block_run_def)
  show "0 < readable_bytes s \<Longrightarrow> 0 < block_run s" unfolding eq using cap by simp
qed

lemma block_run_read:
  assumes inv: "buf_inv f s" and n: "0 < n" "n \<le> block_run s"
  obtains m where "block_ptr s (next_block_to_read s) = Some (Some m)"
    "read_offset s + n \<le> 8192" "n \<le> readable_bytes s"
    "mem_read m (read_offset s) n = map f [total_bytes_read s..<total_bytes_read s + n]"
proof -
  let ?T = "total_bytes_read s"
  note D = buf_invD [OF inv]
  have le: "n \<le> readable_bytes s" "read_offset s + n \<le> get_block_capacity s (next_block_to_read s)"
    using n block_run_eq(1) [OF inv] by auto
  have sub: "{?T..<?T + n} \<subseteq> received s" by (rule readable_buffered(1) [OF inv le(1)])
  then have "?T \<in> received s" using n(1) by auto
  then have "stored s ?T = Some (f ?T)" using D(8) by simp
  then obtain m where m: "block_ptr s (next_block_to_read s) = Some (Some m)"
    by (auto simp: stored_def next_block_to_read_def split: option.splits)
  have "m (read_offset s + k) = f (?T + k)" if "k < n" for k
  proof -
    have "get_in_block_offset s ?T + k < get_block_capacity s (get_block_index s ?T)"
      using that le(2) by (simp add: read_offset_def next_block_to_read_def)
    note step = block_step [OF D(1) this]
    have "?T + k \<in> received s" using sub that by auto
    then have "stored s (?T + k) = Some (f (?T + k))" using D(8) by simp
    then show ?thesis
      using step m by (simp add: stored_def next_block_to_read_def read_offset_def)
  qed
  then have "mem_read m (read_offset s) n = map f [?T..<?T + n]"
    by (intro nth_equalityI) auto
  moreover have "read_offset s + n \<le> 8192"
    using le(2) block_capacity_le [OF D(1), of ?T] by (simp add: next_block_to_read_def)
  ultimately show thesis using that m le(1) by blast
qed

lemma block_run_retire:
  assumes inv: "buf_inv f s" and pos: "0 < readable_bytes s"
  defines "n \<equiv> block_run s"
  shows "\<exists>s'. retire_block_if_empty (advance s n) (next_block_to_read s) = Some (True, s') \<and>
    buf_inv f s' \<and> bytes_received s' = bytes_received s \<and>
    total_bytes_read s' = total_bytes_read s + n \<and>
    max_buffer_capacity_bytes s' = max_buffer_capacity_bytes s"
proof -
  let ?T = "total_bytes_read s"
  note D = buf_invD [OF inv]
  have n: "0 < n" "n \<le> readable_bytes s" using block_run_eq [OF inv] pos n_def by auto
  obtain m where m: "block_ptr s (next_block_to_read s) = Some (Some m)"
    using block_run_read [OF inv n(1)] n_def by auto
  have inv': "buf_inv f (advance s n)" by (rule advance_inv [OF inv n(2)])
  have "get_in_block_offset s ?T + (n - 1) < get_block_capacity s (get_block_index s ?T)"
    using n(1) block_run_eq(1) [OF inv] n_def
    by (auto simp: read_offset_def next_block_to_read_def min_def split: if_splits)
  from block_step(1) [OF D(1) this] n(1)
  have idx: "get_block_index (advance s n) (total_bytes_read (advance s n) - 1) = next_block_to_read s"
    by (simp add: next_block_to_read_def)
  have stop: "readable_bytes (advance s n) = 0 \<or>
      get_in_block_offset (advance s n) (total_bytes_read (advance s n)) = 0"
  proof (cases "n = readable_bytes s")
    case True
    then show ?thesis
      using first_missing_byte_correct(5) [OF inv'] first_missing_byte_correct(3,5) [OF inv] by simp
  next
    case False
    then have "read_offset s + n = get_block_capacity s (next_block_to_read s)"
      using block_run_eq(1) [OF inv] n(1) n_def by (auto simp: min_def split: if_splits)
    then have "get_in_block_offset s (?T + n) = 0"
      using block_end [OF D(1)] by (simp add: read_offset_def next_block_to_read_def)
    then show ?thesis by simp
  qed
  obtain s' where "retire_block_if_empty (advance s n) (next_block_to_read s) = Some (True, s')"
      "buf_inv f s'" "s' = advance s n \<or> s' = drop_block (advance s n) (next_block_to_read s)"
    using retire_block_if_empty_correct [OF inv' _ idx _ stop] m n(1) by auto
  then show ?thesis by auto
qed

section \<open>Readv\<close>

lemma upt_split: "n \<le> k \<Longrightarrow> [t..<t + k] = [t..<t + n] @ [t + n..<t + n + (k - n)]"
  by (metis le_add1 le_add_diff_inverse upt_add_eq_append add.assoc)

lemma readable_after:
  assumes "buf_inv f s" "buf_inv f s'" "bytes_received s' = bytes_received s"
    "total_bytes_read s' = total_bytes_read s + n"
  shows "readable_bytes s' = readable_bytes s - n"
  using first_missing_byte_correct(5) [OF assms(1)] first_missing_byte_correct(5) [OF assms(2)] assms(3,4)
  by (simp add: first_missing_byte_def)

lemma read_loop_correct:
  "buf_inv f s \<Longrightarrow> r < 2 ^ 64 \<Longrightarrow> c + readable_bytes s < 2 ^ 64 \<Longrightarrow>
    \<exists>s'. read_loop s True r c out =
        Some (QUIC_NO_ERROR, c + min r (readable_bytes s),
          out @ map f [total_bytes_read s..<total_bytes_read s + min r (readable_bytes s)], s') \<and>
      buf_inv f s' \<and> bytes_received s' = bytes_received s \<and>
      total_bytes_read s' = total_bytes_read s + min r (readable_bytes s) \<and>
      max_buffer_capacity_bytes s' = max_buffer_capacity_bytes s"
proof (induction r arbitrary: s c out rule: less_induct)
  case (less r)
  let ?T = "total_bytes_read s" and ?k = "min r (readable_bytes s)"
  note inv = less.prems(1)
  show ?case
  proof (cases "0 < r \<and> 0 < readable_bytes s")
    case False
    then have "?k = 0" by auto
    with False inv show ?thesis by (subst read_loop.simps) auto
  next
    case True
    define n where "n = min (block_run s) r"
    have n: "0 < n" "n \<le> block_run s" "n \<le> r"
      using block_run_eq(2) [OF inv] True by (auto simp: n_def)
    obtain m where m: "block_ptr s (next_block_to_read s) = Some (Some m)"
        "read_offset s + n \<le> 8192" "n \<le> readable_bytes s"
        "mem_read m (read_offset s) n = map f [?T..<?T + n]"
      by (rule block_run_read [OF inv n(1,2)])
    have arith: "u64_add c n = c + n" "u64_sub r n = r - n"
      using less.prems m(3) n(3) by (auto intro!: u64_add_no_wrap u64_sub_no_wrap)
    have body: "read_loop s True r c out =
        (if n = block_run s
         then Option.bind (retire_block_if_empty (advance s n) (next_block_to_read s)) (\<lambda>(ok, s2).
           if \<not> ok then Some (QUIC_STREAM_SEQUENCER_INVALID_STATE, c + n, out @ map f [?T..<?T + n], s2)
           else read_loop s2 True (r - n) (c + n) (out @ map f [?T..<?T + n]))
         else read_loop (advance s n) True (r - n) (c + n) (out @ map f [?T..<?T + n]))"
      unfolding read_loop.simps [of s True r c out] Let_def block_run_def [symmetric] n_def [symmetric]
        advance_eq(1) [OF inv m(3)] arith m(4) [symmetric]
      using True m(1,2) n(1) by (simp add: kBlockSizeBytes_def)
    obtain s1 where s1: "read_loop s True r c out = read_loop s1 True (r - n) (c + n) (out @ map f [?T..<?T + n])"
        "buf_inv f s1" "bytes_received s1 = bytes_received s" "total_bytes_read s1 = ?T + n"
        "max_buffer_capacity_bytes s1 = max_buffer_capacity_bytes s"
    proof (cases "n = block_run s")
      case True
      then show thesis
        using that body block_run_retire [OF inv] m(3) n(1) by auto
    next
      case False
      then show thesis using that [of "advance s n"] body advance_inv [OF inv m(3)] by simp
    qed
    have left: "readable_bytes s1 = readable_bytes s - n"
      by (rule readable_after [OF inv s1(2,3,4)])
    have k: "min (r - n) (readable_bytes s - n) = ?k - n" "n \<le> ?k" using n m(3) by auto
    have "\<exists>s'. read_loop s1 True (r - n) (c + n) (out @ map f [?T..<?T + n]) =
        Some (QUIC_NO_ERROR, (c + n) + min (r - n) (readable_bytes s1),
          (out @ map f [?T..<?T + n]) @
            map f [total_bytes_read s1..<total_bytes_read s1 + min (r - n) (readable_bytes s1)], s') \<and>
      buf_inv f s' \<and> bytes_received s' = bytes_received s1 \<and>
      total_bytes_read s' = total_bytes_read s1 + min (r - n) (readable_bytes s1) \<and>
      max_buffer_capacity_bytes s' = max_buffer_capacity_bytes s1"
      using less.prems n m(3) s1(2) left by (intro less.IH) auto
    then show ?thesis
      unfolding s1 left k(1) upt_split [OF k(2)] using k(2) by (auto simp: add.assoc)
  qed
qed

text \<open>What a scatter read leaves in the caller's vectors: each is filled before the next.\<close>

fun scatter :: "nat list \<Rightarrow> 'a list \<Rightarrow> 'a list list" where
  "scatter [] xs = []"
| "scatter (l # ls) xs = (if xs = [] then [] else take l xs # scatter ls (drop l xs))"

lemma concat_scatter: "concat (scatter ls xs) = take (sum_list ls) xs"
  by (induction ls xs rule: scatter.induct) (auto simp: take_add)

definition readable_stream :: "(u64 \<Rightarrow> byte) \<Rightarrow> seq_buffer \<Rightarrow> byte list" where
  "readable_stream f s = map f [total_bytes_read s..<total_bytes_read s + readable_bytes s]"

lemma length_readable_stream [simp]: "length (readable_stream f s) = readable_bytes s"
  by (simp add: readable_stream_def)

lemma take_readable_stream:
  "take r (readable_stream f s) =
    map f [total_bytes_read s..<total_bytes_read s + min r (readable_bytes s)]"
  by (auto simp: readable_stream_def take_map take_upt min_def)

lemma drop_readable_stream:
  assumes "buf_inv f s" "buf_inv f s'" "bytes_received s' = bytes_received s"
    "total_bytes_read s' = total_bytes_read s + n" "n \<le> readable_bytes s"
  shows "readable_stream f s' = drop n (readable_stream f s)"
  using readable_after [OF assms(1-4)] assms(4,5)
  by (simp add: readable_stream_def drop_map)

definition consumed_to :: "(u64 \<Rightarrow> byte) \<Rightarrow> seq_buffer \<Rightarrow> u64 \<Rightarrow> seq_buffer \<Rightarrow> bool" where
  "consumed_to f s n s' \<longleftrightarrow> buf_inv f s' \<and> bytes_received s' = bytes_received s \<and>
     total_bytes_read s' = total_bytes_read s + n \<and>
     max_buffer_capacity_bytes s' = max_buffer_capacity_bytes s"

lemma consumed_to_trans:
  "consumed_to f s m s1 \<Longrightarrow> consumed_to f s1 n s2 \<Longrightarrow> consumed_to f s (m + n) s2"
  by (simp add: consumed_to_def)

lemma readv_loop_correct:
  "buf_inv f s \<Longrightarrow> \<forall>v \<in> set iovs. fst v \<and> snd v < 2 ^ 64 \<Longrightarrow> c + readable_bytes s < 2 ^ 64 \<Longrightarrow>
    \<exists>s'. readv_loop s iovs c outs =
        Some (QUIC_NO_ERROR, c + min (sum_list (map snd iovs)) (readable_bytes s),
          outs @ scatter (map snd iovs) (readable_stream f s), s') \<and>
      consumed_to f s (min (sum_list (map snd iovs)) (readable_bytes s)) s'"
proof (induction iovs arbitrary: s c outs)
  case (Cons v iovs)
  note inv = Cons.prems(1)
  let ?k = "min (snd v) (readable_bytes s)" and ?l = "sum_list (map snd iovs)"
  show ?case
  proof (cases "0 < readable_bytes s")
    case False
    then have "readable_stream f s = []" by (simp add: readable_stream_def)
    with False inv show ?thesis by (simp add: consumed_to_def)
  next
    case True
    obtain s1 where s1: "read_loop s True (snd v) c [] =
          Some (QUIC_NO_ERROR, c + ?k, take (snd v) (readable_stream f s), s1)"
        and to1: "consumed_to f s ?k s1"
      using read_loop_correct [OF inv, of "snd v" c "[]"] Cons.prems(2,3)
      by (auto simp: take_readable_stream consumed_to_def)
    then have c1: "buf_inv f s1" "bytes_received s1 = bytes_received s"
        "total_bytes_read s1 = total_bytes_read s + ?k" by (auto simp: consumed_to_def)
    have left: "readable_bytes s1 = readable_bytes s - ?k" by (rule readable_after [OF inv c1])
    have rest: "readable_stream f s1 = drop (snd v) (readable_stream f s)"
    proof -
      have "readable_stream f s1 = drop ?k (readable_stream f s)"
        by (rule drop_readable_stream [OF inv c1]) simp
      then show ?thesis by (cases "snd v \<le> readable_bytes s") (simp_all add: min_def)
    qed
    obtain s2 where s2: "readv_loop s1 iovs (c + ?k) (outs @ [take (snd v) (readable_stream f s)]) =
        Some (QUIC_NO_ERROR, (c + ?k) + min ?l (readable_bytes s1),
          (outs @ [take (snd v) (readable_stream f s)]) @ scatter (map snd iovs) (readable_stream f s1), s2)"
        and to2: "consumed_to f s1 (min ?l (readable_bytes s1)) s2"
    proof -
      have "c + ?k + readable_bytes s1 < 2 ^ 64" using Cons.prems(3) left by simp
      with Cons.IH [OF c1(1), of "c + ?k" "outs @ [take (snd v) (readable_stream f s)]"] Cons.prems(2) that
      show thesis by auto
    qed
    have k: "?k + min ?l (readable_bytes s1) = min (snd v + ?l) (readable_bytes s)"
      unfolding left by auto
    have ne: "readable_stream f s \<noteq> []" using True by (metis length_readable_stream less_numeral_extra(3) list.size(3))
    show ?thesis
      using True Cons.prems(2) s1 s2 ne consumed_to_trans [OF to1 to2]
      by (simp add: rest k add.assoc)
  qed
qed (simp add: consumed_to_def)

lemma readv_correct:
  assumes "buf_inv f s" "\<forall>v \<in> set iovs. fst v \<and> snd v < 2 ^ 64"
  shows "\<exists>s'. readv s iovs =
      Some (QUIC_NO_ERROR, min (sum_list (map snd iovs)) (readable_bytes s),
        scatter (map snd iovs) (readable_stream f s), s') \<and>
    consumed_to f s (min (sum_list (map snd iovs)) (readable_bytes s)) s'"
  using readv_loop_correct [OF assms, of 0 "[]"] first_missing_byte_correct(4,5) [OF assms(1)]
  by (simp add: readv_def)

section \<open>MarkConsumed\<close>

lemma consume_loop_correct:
  "buf_inv f s \<Longrightarrow> r \<le> readable_bytes s \<Longrightarrow>
    \<exists>s'. consume_loop s r = Some s' \<and> consumed_to f s r s'"
proof (induction r arbitrary: s rule: less_induct)
  case (less r)
  note inv = less.prems(1)
  show ?case
  proof (cases "0 < r")
    case False
    with inv show ?thesis by (subst consume_loop.simps) (simp add: consumed_to_def)
  next
    case True
    define n where "n = min r (block_run s)"
    have n: "0 < n" "n \<le> block_run s" "n \<le> r" "n \<le> readable_bytes s"
      using block_run_eq [OF inv] True less.prems(2) by (auto simp: n_def)
    have "r < 2 ^ 64" using less.prems(2) first_missing_byte_correct(4,5) [OF inv] by simp
    then have arith: "u64_sub r n = r - n" using n(3) by (intro u64_sub_no_wrap)
    have body: "consume_loop s r =
        (if block_run s = n
         then Option.bind (retire_block_if_empty (advance s n) (next_block_to_read s)) (\<lambda>(_, s2). consume_loop s2 (r - n))
         else consume_loop (advance s n) (r - n))"
      unfolding consume_loop.simps [of s r] Let_def block_run_def [symmetric] n_def [symmetric]
        advance_eq(2) [OF inv n(4)] arith
      using True by simp
    obtain s1 where s1: "consume_loop s r = consume_loop s1 (r - n)" "consumed_to f s n s1"
    proof (cases "n = block_run s")
      case True
      then show thesis
        using that body block_run_retire [OF inv] n by (auto simp: consumed_to_def)
    next
      case False
      then show thesis
        using that [of "advance s n"] body advance_inv [OF inv n(4)] by (simp add: consumed_to_def)
    qed
    have left: "readable_bytes s1 = readable_bytes s - n"
      using s1(2) by (intro readable_after [OF inv]) (auto simp: consumed_to_def)
    obtain s2 where "consume_loop s1 (r - n) = Some s2" "consumed_to f s1 (r - n) s2"
    proof -
      have "r - n \<le> readable_bytes s1" using less.prems(2) left by (simp add: diff_le_mono)
      with less.IH [of "r - n" s1] n s1(2) that show thesis by (auto simp: consumed_to_def)
    qed
    then show ?thesis using s1 consumed_to_trans [OF s1(2)] n(3) by fastforce
  qed
qed

lemma mark_consumed_correct:
  assumes "buf_inv f s"
  shows "if readable_bytes s < n then mark_consumed s n = Some (False, s)
    else \<exists>s'. mark_consumed s n = Some (True, s') \<and> consumed_to f s n s'"
  using consume_loop_correct [OF assms, of n] by (auto simp: mark_consumed_def not_less)

end
