(* ===== verification/Buffer_Regions.thy ===== *)
theory Buffer_Regions
  imports Buffer_Consume
begin

text \<open>
  Construction, flushing and release of the reassembly buffer, and the operations that hand
  out regions of its blocks: \<open>GetReadableRegions\<close> lists the readable stream in order;
  \<open>PeekRegion\<close> does too, except when the region ends in the block it starts in after the
  buffer has wrapped around.
\<close>

section \<open>Clearing\<close>

lemma clear_blocks_correct:
  "blocks s = Some bs \<Longrightarrow> i + k = length bs \<Longrightarrow>
    clear_blocks s i k = Some (s\<lparr>blocks := Some (take i bs @ replicate k None)\<rparr>)"
proof (induction k arbitrary: s i bs)
  case (Suc k)
  let ?bs = "bs[i := None]"
  have i: "i < length bs" using Suc.prems by simp
  have "clear_blocks s i (Suc k) = clear_blocks (s\<lparr>blocks := Some ?bs\<rparr>) (i + 1) k"
  proof (cases "bs ! i")
    case None
    then have "bs[i := None] = bs" by (metis list_update_id)
    then have same: "s\<lparr>blocks := Some ?bs\<rparr> = s" using Suc.prems(1) by simp
    show ?thesis unfolding same using None Suc.prems(1) i by (simp add: block_ptr_def)
  next
    case (Some m)
    then show ?thesis using Suc.prems(1) i by (simp add: block_ptr_def retire_block_def)
  qed
  also have "\<dots> = Some (s\<lparr>blocks := Some (take (i + 1) ?bs @ replicate k None)\<rparr>)"
    using Suc.IH [of "s\<lparr>blocks := Some ?bs\<rparr>" ?bs "i + 1"] Suc.prems(2) by simp
  also have "take (i + 1) ?bs @ replicate k None = take i bs @ replicate (Suc k) None"
    using i by (simp add: take_Suc_conv_app_nth)
  finally show ?case by simp
qed simp

lemma buffer_clear_correct:
  assumes g: "geom s" and t: "total_bytes_read s \<le> 2 ^ 62"
  shows "\<exists>s'. buffer_clear s = Some s' \<and> buf_inv f s' \<and> received s' = {..<total_bytes_read s} \<and>
    total_bytes_read s' = total_bytes_read s \<and>
    max_buffer_capacity_bytes s' = max_buffer_capacity_bytes s \<and> num_bytes_buffered s' = 0"
proof -
  let ?T = "total_bytes_read s"
  define R where "R = iset_add_range [] 0 ?T"
  have R: "iset_inv R" "iset_pts R = {..<?T}"
    using iset_add_correct [of "[]" "Interval 0 ?T"] by (auto simp: R_def iset_add_range_def ivl_pts_def)
  have "R = [] \<or> R = [Interval 0 ?T]"
  proof (cases "?T = 0")
    case False
    have one: "iset_inv [Interval 0 ?T]" using False by (simp add: iset_inv_Cons)
    have "iset_pts R = iset_pts [Interval 0 ?T]" using R(2) by (simp add: ivl_pts_def atLeast0LessThan)
    from iset_store.canonical [OF R(1) one this] show ?thesis by simp
  qed (use R iset_pts_eq_Nil [OF R(1)] in simp)
  then have len: "length R < kMaxNumDataIntervalsAllowed" by (auto simp: kMaxNumDataIntervalsAllowed_def)
  obtain s1 where s1: "buffer_clear s = Some (s1\<lparr>num_bytes_buffered := 0, bytes_received := R\<rparr>)"
      "geom s1" "total_bytes_read s1 = ?T" "max_buffer_capacity_bytes s1 = max_buffer_capacity_bytes s"
  proof (cases "blocks s")
    case None
    with that [of s] g show thesis by (simp add: buffer_clear_def R_def)
  next
    case (Some bs)
    let ?s1 = "s\<lparr>blocks := Some (replicate (max_blocks_count s) None)\<rparr>"
    have "clear_blocks s 0 (max_blocks_count s) = Some ?s1"
      using clear_blocks_correct [OF Some, of 0] geomD(5) [OF g Some] by simp
    with that [of ?s1] Some g geomD(4) [OF g] show thesis
      by (simp add: buffer_clear_def R_def buf_simps)
  qed
  let ?s' = "s1\<lparr>num_bytes_buffered := 0, bytes_received := R\<rparr>"
  have "buf_inv f ?s'"
    using s1 R len t geomD(1) [OF g] by (auto simp: buf_inv_def buf_simps)
  with s1 R(2) show ?thesis by (intro exI [of _ ?s']) (simp add: buf_simps)
qed

lemma calculate_block_count_eq:
  "c \<le> 2 ^ 62 \<Longrightarrow> calculate_block_count c = (c + 8191) div 8192"
proof -
  assume "c \<le> 2 ^ 62"
  then have "u64_add c kBlockSizeBytes = c + 8192" "u64_sub (c + 8192) 1 = c + 8191"
    by (simp_all add: u64_simps kBlockSizeBytes_def)
  then show ?thesis unfolding calculate_block_count_def by (simp add: kBlockSizeBytes_def)
qed

lemma buffer_new_correct:
  assumes "0 < c" "c \<le> 2 ^ 62"
  shows "\<exists>s. buffer_new c = Some s \<and> buf_inv f s \<and> received s = {} \<and> total_bytes_read s = 0 \<and>
    max_buffer_capacity_bytes s = c"
  unfolding buffer_new_def
  using buffer_clear_correct [of "\<lparr>max_buffer_capacity_bytes = c,
      max_blocks_count = calculate_block_count c, current_blocks_count = 0, total_bytes_read = 0,
      allocate_blocks_on_demand = False, blocks = None, num_bytes_buffered = 0,
      bytes_received = []\<rparr>" f] assms
  by (auto simp: geom_def calculate_block_count_eq)

lemma flush_buffered_frames_correct:
  assumes inv: "buf_inv f s"
  shows "\<exists>s'. flush_buffered_frames s = Some (next_expected_byte s - total_bytes_read s, s') \<and>
    buf_inv g s' \<and> received s' = {..<next_expected_byte s} \<and>
    total_bytes_read s' = next_expected_byte s \<and> num_bytes_buffered s' = 0 \<and>
    max_buffer_capacity_bytes s' = max_buffer_capacity_bytes s"
proof -
  let ?s = "s\<lparr>total_bytes_read := next_expected_byte s\<rparr>"
  have bound: "next_expected_byte s \<le> 2 ^ 62" by (rule next_expected_byte_correct(3) [OF inv])
  have "total_bytes_read s \<le> next_expected_byte s"
  proof (cases "total_bytes_read s")
    case (Suc n)
    then have "n \<in> received s" using buf_invD(3) [OF inv] by auto
    from next_expected_byte_correct(1) [OF inv this] Suc show ?thesis by simp
  qed simp
  then have "u64_sub (next_expected_byte s) (total_bytes_read s) = next_expected_byte s - total_bytes_read s"
    using bound by (intro u64_sub_no_wrap) auto
  then show ?thesis
    using buffer_clear_correct [of ?s g] buf_invD(1) [OF inv] bound
    by (auto simp: flush_buffered_frames_def buf_simps Let_def)
qed

lemma release_whole_buffer_correct:
  assumes inv: "buf_inv f s"
  shows "\<exists>s'. release_whole_buffer s = Some s' \<and> buf_inv f s' \<and> blocks s' = None \<and>
    received s' = {..<total_bytes_read s} \<and> total_bytes_read s' = total_bytes_read s"
proof -
  obtain s1 where s1: "buffer_clear s = Some s1" "buf_inv f s1" "received s1 = {..<total_bytes_read s}"
      "total_bytes_read s1 = total_bytes_read s"
    using buffer_clear_correct [OF buf_invD(1) [OF inv] total_bytes_bound [OF inv]] by blast
  let ?s' = "s1\<lparr>current_blocks_count := 0, blocks := None\<rparr>"
  have "geom ?s'" using buf_invD(1) [OF s1(2)] by (simp add: geom_def)
  moreover have "received ?s' = received s1" by (simp add: received_def)
  ultimately have "buf_inv f ?s'"
    using s1(2-4) by (auto simp: buf_inv_def)
  with s1 show ?thesis by (simp add: release_whole_buffer_def received_def)
qed

section \<open>Readable regions\<close>

definition region_bytes :: "seq_buffer \<Rightarrow> region \<Rightarrow> byte list" where
  "region_bytes s r = (case r of Null_Region \<Rightarrow> [] | Region i off len \<Rightarrow>
     (case block_ptr s i of Some (Some m) \<Rightarrow> mem_read m off len | _ \<Rightarrow> []))"

lemma block_region_readable:
  assumes inv: "buf_inv f s" and p: "total_bytes_read s \<le> p" "p + n \<le> first_missing_byte s" "0 < n"
    and fits: "get_in_block_offset s p + n \<le> get_block_capacity s (get_block_index s p)"
  shows "block_region s (get_block_index s p) (get_in_block_offset s p) n =
      Some (Region (get_block_index s p) (get_in_block_offset s p) n)"
    and "region_bytes s (Region (get_block_index s p) (get_in_block_offset s p) n) = map f [p..<p + n]"
proof -
  note D = buf_invD [OF inv]
  have rec: "p + k \<in> received s" if "k < n" for k
    using that p(2) first_missing_byte_correct(1) [OF inv] by (auto simp: subset_iff)
  then have "stored s p = Some (f p)" using rec [of 0] p D(8) by simp
  then obtain m where m: "block_ptr s (get_block_index s p) = Some (Some m)"
    by (auto simp: stored_def split: option.splits)
  then show "block_region s (get_block_index s p) (get_in_block_offset s p) n =
      Some (Region (get_block_index s p) (get_in_block_offset s p) n)"
    by (simp add: block_region_def)
  have "m (get_in_block_offset s p + k) = f (p + k)" if k: "k < n" for k
  proof -
    have "get_in_block_offset s p + k < get_block_capacity s (get_block_index s p)" using fits k by simp
    note step = block_step [OF D(1) this]
    have "stored s (p + k) = Some (f (p + k))" using rec [OF k] D(8) p(1) by simp
    then show ?thesis using step m by (simp add: stored_def)
  qed
  then show "region_bytes s (Region (get_block_index s p) (get_in_block_offset s p) n) = map f [p..<p + n]"
    using m by (intro nth_equalityI) (auto simp: region_bytes_def)
qed

text \<open>The block after the one that is read to its end.\<close>

lemma next_block_index:
  assumes g: "geom s" and n: "get_in_block_offset s p + n = get_block_capacity s (get_block_index s p)"
  shows "get_block_index s (p + n) = (get_block_index s p + 1) mod max_blocks_count s"
proof -
  let ?C = "max_buffer_capacity_bytes s" and ?i = "get_block_index s p" and ?N = "max_blocks_count s"
  have C: "0 < ?C" and N: "?N = (?C + 8191) div 8192" using geomD [OF g] by auto
  have cap: "get_in_block_offset s p + n = min 8192 (?C - ?i * 8192)"
    using n block_capacity_eq [OF g block_index_less [OF g]] by simp
  have pm: "p mod ?C < ?C" using C by simp
  then have less: "?i * 8192 < ?C" using block_split [of s p] by simp
  have "(p + n) mod ?C = (p mod ?C + n) mod ?C" by (simp add: mod_add_left_eq)
  also have "p mod ?C + n = ?i * 8192 + min 8192 (?C - ?i * 8192)"
    using cap block_split [of s p] by simp
  finally have eq: "(p + n) mod ?C = (?i * 8192 + min 8192 (?C - ?i * 8192)) mod ?C" .
  show ?thesis
  proof (cases "?i * 8192 + 8192 < ?C")
    case True
    then have "(p + n) mod ?C = (?i + 1) * 8192" using eq by simp
    moreover have "?i + 1 < ?N" using True N by simp
    ultimately show ?thesis by (simp add: get_block_index_def [of s "p + n"] kBlockSizeBytes_def)
  next
    case False
    then have "?i * 8192 + min 8192 (?C - ?i * 8192) = ?C" using less by simp
    then have "(p + n) mod ?C = 0" using eq by simp
    moreover have "?i + 1 = ?N" using False less N by simp
    ultimately show ?thesis by (simp add: get_block_index_def [of s "p + n"])
  qed
qed

text \<open>The last readable byte \<open>e\<close>, seen from a position \<open>p\<close> of the window.\<close>

lemma same_block_ahead:
  assumes g: "geom s" and e: "p \<le> e" "e < p + max_buffer_capacity_bytes s"
    and same: "get_block_index s p = get_block_index s e"
    and off: "get_in_block_offset s p \<le> get_in_block_offset s e"
  shows "e = p + (get_in_block_offset s e - get_in_block_offset s p)"
proof -
  let ?C = "max_buffer_capacity_bytes s" and ?k = "get_in_block_offset s e - get_in_block_offset s p"
  have "get_in_block_offset s p + ?k < get_block_capacity s (get_block_index s p)"
    using off same in_block_offset_capacity [OF g, of e] by simp
  from block_step(3) [OF g this] have "(p + ?k) mod ?C = e mod ?C"
    using block_split [of s p] block_split [of s e] same off by simp
  moreover have "?k < ?C"
  proof -
    have "get_in_block_offset s e \<le> e mod ?C" using block_split [of s e] by simp
    moreover have "e mod ?C < ?C" using geomD(1) [OF g] by simp
    ultimately show ?thesis by simp
  qed
  ultimately show ?thesis
    using e mod_window_inj [of p e ?C "p + ?k"] by simp
qed

lemma other_block_ahead:
  assumes g: "geom s" and e: "p \<le> e"
    and other: "get_block_index s p \<noteq> get_block_index s e \<or> get_in_block_offset s e < get_in_block_offset s p"
  shows "p + (get_block_capacity s (get_block_index s p) - get_in_block_offset s p) \<le> e"
proof (rule ccontr)
  assume "\<not> ?thesis"
  then have "get_in_block_offset s p + (e - p) < get_block_capacity s (get_block_index s p)"
    using e by simp
  from block_step [OF g this] e other show False by simp
qed

lemma middle_regions_correct:
  assumes inv: "buf_inv f s" and e: "first_missing_byte s = e + 1"
  shows "total_bytes_read s \<le> p \<Longrightarrow> p \<le> e \<Longrightarrow> get_in_block_offset s p = 0 \<Longrightarrow>
    get_block_index s p = (start + length iov) mod max_blocks_count s \<Longrightarrow>
    concat (map (region_bytes s) iov) = map f [total_bytes_read s..<p] \<Longrightarrow>
    \<exists>iov' q. middle_regions s start (get_block_index s e) (get_in_block_offset s e) k iov = Some iov' \<and>
      length iov \<le> length iov' \<and> length iov' \<le> length iov + k \<and> p \<le> q \<and> q \<le> e + 1 \<and>
      concat (map (region_bytes s) iov') = map f [total_bytes_read s..<q] \<and>
      (length iov' < length iov + k \<longrightarrow> q = e + 1)"
proof (induction k arbitrary: p iov)
  case (Suc k)
  note D = buf_invD [OF inv]
  let ?T = "total_bytes_read s"
  have cat: "map f [?T..<p] @ map f [p..<q] = map f [?T..<q]" if "p \<le> q" for q
    using upt_add_eq_append [OF Suc.prems(1), of "q - p"] that by (simp flip: map_append)
  show ?case
  proof (cases "get_block_index s p = get_block_index s e")
    case True
    have "e \<in> received s" using first_missing_byte_correct(1) [OF inv] e by auto
    then have "e < p + max_buffer_capacity_bytes s" using D(4) [of e] Suc.prems(1) by simp
    then have ep: "e = p + get_in_block_offset s e"
      using same_block_ahead [OF D(1) Suc.prems(2) _ True] Suc.prems(3) by simp
    let ?n = "get_in_block_offset s e + 1"
    have n: "p + ?n = e + 1" using ep by simp
    have fits: "get_in_block_offset s p + ?n \<le> get_block_capacity s (get_block_index s p)"
      using in_block_offset_capacity [OF D(1), of e] True Suc.prems(3) by simp
    note region = block_region_readable [OF inv Suc.prems(1) _ _ fits]
    let ?r = "Region (get_block_index s p) 0 ?n"
    have "middle_regions s start (get_block_index s e) (get_in_block_offset s e) (Suc k) iov = Some (iov @ [?r])"
      using region(1) n e True Suc.prems(3,4) by (simp add: Let_def)
    moreover have "region_bytes s ?r = map f [p..<e + 1]"
      using region(2) n e Suc.prems(3) by (simp del: upt_Suc)
    then have "concat (map (region_bytes s) (iov @ [?r])) = map f [?T..<e + 1]"
      using Suc.prems(2,5) cat [of "e + 1"] by (simp del: upt_Suc)
    ultimately show ?thesis
      using Suc.prems(2) by (intro exI [of _ "iov @ [?r]"] exI [of _ "e + 1"]) simp
  next
    case False
    let ?cap = "get_block_capacity s (get_block_index s p)"
    let ?r = "Region (get_block_index s p) 0 ?cap"
    have le: "p + ?cap \<le> e"
      using other_block_ahead [OF D(1) Suc.prems(2)] False Suc.prems(3) by simp
    have cap: "0 < ?cap" using in_block_offset_capacity [OF D(1), of p] by simp
    have full: "get_in_block_offset s p + ?cap = ?cap" using Suc.prems(3) by simp
    have fits: "get_in_block_offset s p + ?cap \<le> ?cap" using full by simp
    note region = block_region_readable [OF inv Suc.prems(1) _ cap fits]
    have next_idx: "get_block_index s (p + ?cap) = (start + length (iov @ [?r])) mod max_blocks_count s"
      using next_block_index [OF D(1) full] Suc.prems(4) by (simp add: mod_Suc_eq)
    have "concat (map (region_bytes s) (iov @ [?r])) = map f [?T..<p + ?cap]"
      using region(2) le e Suc.prems(3,5) cat [of "p + ?cap"] by simp
    from Suc.IH [OF _ le block_end [OF D(1) full] next_idx this] Suc.prems(1)
    obtain iov' q where rec: "middle_regions s start (get_block_index s e) (get_in_block_offset s e) k
          (iov @ [?r]) = Some iov'"
        "length (iov @ [?r]) \<le> length iov'" "length iov' \<le> length (iov @ [?r]) + k"
        "p + ?cap \<le> q" "q \<le> e + 1" "concat (map (region_bytes s) iov') = map f [?T..<q]"
        "length iov' < length (iov @ [?r]) + k \<longrightarrow> q = e + 1"
      by auto
    have "middle_regions s start (get_block_index s e) (get_in_block_offset s e) (Suc k) iov = Some iov'"
      using region(1) le e False Suc.prems(3,4) rec(1) by (simp add: Let_def)
    then show ?thesis using rec by (intro exI [of _ iov'] exI [of _ q]) auto
  qed
next
  case 0
  then show ?case by (intro exI [of _ iov] exI [of _ p]) simp
qed

lemma get_readable_regions_correct:
  assumes inv: "buf_inv f s" and len: "0 < n"
  shows "if readable_bytes s = 0 then get_readable_regions s n = Some (0, [Null_Region])
    else \<exists>iov k. get_readable_regions s n = Some (length iov, iov) \<and> 1 \<le> length iov \<and> length iov \<le> n \<and>
      0 < k \<and> k \<le> readable_bytes s \<and>
      concat (map (region_bytes s) iov) = take k (readable_stream f s) \<and>
      (length iov < n \<longrightarrow> k = readable_bytes s)"
proof (cases "readable_bytes s = 0")
  case True
  then show ?thesis using len by (simp add: get_readable_regions_def)
next
  case False
  note D = buf_invD [OF inv] and F = first_missing_byte_correct [OF inv]
  let ?T = "total_bytes_read s" and ?cap = "get_block_capacity s (next_block_to_read s)"
  define e where "e = first_missing_byte s - 1"
  have e: "first_missing_byte s = e + 1" "?T \<le> e" using False F(3,5) by (auto simp: e_def)
  have u: "u64_sub (first_missing_byte s) 1 = e" "u64_add e 1 = e + 1"
    using e F(4) by (simp_all add: u64_simps)
  have "e \<in> received s" using F(1) e by auto
  then have ahead: "e < ?T + max_buffer_capacity_bytes s" using D(4) by blast
  have take: "map f [?T..<q] = take (q - ?T) (readable_stream f s)" if "?T \<le> q" "q \<le> e + 1" for q
    using that F(5) e by (auto simp: take_readable_stream min_def)
  have cap: "read_offset s < ?cap" "?cap \<le> 8192"
    unfolding read_offset_def next_block_to_read_def
    using in_block_offset_capacity [OF D(1)] block_capacity_le [OF D(1)] by auto
  show ?thesis
  proof (cases "next_block_to_read s = get_block_index s e \<and> read_offset s \<le> get_in_block_offset s e")
    case True
    have ep: "e = ?T + (get_in_block_offset s e - read_offset s)"
      unfolding read_offset_def
      using True same_block_ahead [OF D(1) e(2) ahead] by (simp add: next_block_to_read_def read_offset_def)
    have r: "readable_bytes s = get_in_block_offset s e - read_offset s + 1"
      using F(5) e ep by simp
    have fits: "get_in_block_offset s ?T + readable_bytes s \<le> get_block_capacity s (get_block_index s ?T)"
      using in_block_offset_capacity [OF D(1), of e] True r
      by (simp add: next_block_to_read_def read_offset_def)
    let ?r = "Region (next_block_to_read s) (read_offset s) (readable_bytes s)"
    have "block_region s (next_block_to_read s) (read_offset s) (readable_bytes s) = Some ?r"
      "region_bytes s ?r = readable_stream f s"
      using block_region_readable [OF inv order.refl _ _ fits] False F(3,5)
      by (simp_all add: next_block_to_read_def read_offset_def readable_stream_def)
    then show ?thesis
      using False True len e u F(3)
      by (auto simp: get_readable_regions_def Let_def intro!: exI [of _ "[?r]"] exI [of _ "readable_bytes s"])
  next
    case elsewhere: False
    let ?n = "?cap - read_offset s"
    let ?r = "Region (next_block_to_read s) (read_offset s) ?n"
    have sub: "u64_sub ?cap (read_offset s) = ?n" using cap by (intro u64_sub_no_wrap) auto
    have le: "?T + ?n \<le> e"
      using other_block_ahead [OF D(1) e(2)] elsewhere
      by (auto simp: next_block_to_read_def read_offset_def)
    have add: "u64_add ?T ?n = ?T + ?n" using le e F(4) by (intro u64_add_no_wrap) simp
    have full: "get_in_block_offset s ?T + ?n = get_block_capacity s (get_block_index s ?T)"
      using cap by (simp add: next_block_to_read_def read_offset_def)
    have region: "block_region s (next_block_to_read s) (read_offset s) ?n = Some ?r"
      "region_bytes s ?r = map f [?T..<?T + ?n]"
      using block_region_readable [OF inv order.refl _ _ eq_refl [OF full]] le e cap
      by (simp_all add: next_block_to_read_def read_offset_def)
    have idx: "get_block_index s (?T + ?n) = (next_block_to_read s + length [?r]) mod max_blocks_count s"
      using next_block_index [OF D(1) full] by (simp add: next_block_to_read_def)
    obtain iov q where mid: "middle_regions s (next_block_to_read s) (get_block_index s e)
          (get_in_block_offset s e) (n - 1) [?r] = Some iov"
        "length [?r] \<le> length iov" "length iov \<le> length [?r] + (n - 1)" "?T + ?n \<le> q" "q \<le> e + 1"
        "concat (map (region_bytes s) iov) = map f [?T..<q]"
        "length iov < length [?r] + (n - 1) \<longrightarrow> q = e + 1"
      using middle_regions_correct [OF inv e(1) _ le block_end [OF D(1) full] idx, of "n - 1"] region(2)
      by auto
    have "get_readable_regions s n = Some (length iov, iov)"
      unfolding get_readable_regions_def
      using False elsewhere len e(1) u sub region(1) add le mid(1) F(3)
      by (cases "next_block_to_read s = get_block_index s e") (simp_all add: Let_def)
    moreover have "concat (map (region_bytes s) iov) = take (q - ?T) (readable_stream f s)"
      using take [of q] mid(4-6) by simp
    moreover have "0 < q - ?T" "q - ?T \<le> readable_bytes s" using mid(4,5) cap F(5) e by auto
    moreover have "length iov < n \<longrightarrow> q - ?T = readable_bytes s" using mid(7) len F(5) e by auto
    ultimately show ?thesis
      using False mid(2,3) len by (auto intro!: exI [of _ iov] exI [of _ "q - ?T"])
  qed
qed

section \<open>PeekRegion\<close>

lemma peek_region_outside:
  assumes "p < total_bytes_read s \<or> first_missing_byte s \<le> p"
  shows "peek_region s p = Some None"
  using assms by (auto simp: peek_region_def)

text \<open>
  A readable offset whose block is not the one where the readable bytes end, or that lies
  before their end within one pass over the block: the region is the rest of the block, or
  what is readable of it.
\<close>

lemma peek_region_correct:
  assumes inv: "buf_inv f s" and p: "total_bytes_read s \<le> p" "p < first_missing_byte s"
    and ahead: "get_block_index s p = get_block_index s (first_missing_byte s) \<Longrightarrow>
      get_in_block_offset s p < get_in_block_offset s (first_missing_byte s)"
  shows "\<exists>n. peek_region s p = Some (Some (Region (get_block_index s p) (get_in_block_offset s p) n)) \<and>
    0 < n \<and> p + n \<le> first_missing_byte s \<and>
    region_bytes s (Region (get_block_index s p) (get_in_block_offset s p) n) = map f [p..<p + n]"
proof -
  note D = buf_invD [OF inv] and F = first_missing_byte_correct [OF inv]
  let ?F = "first_missing_byte s" and ?i = "get_block_index s p" and ?o = "get_in_block_offset s p"
  have "?F - 1 \<in> received s" using F(1) p(2) by auto
  then have "?F \<le> total_bytes_read s + max_buffer_capacity_bytes s" using D(4) [of "?F - 1"] by simp
  have cap: "?o < get_block_capacity s ?i" "get_block_capacity s ?i \<le> 8192"
    using in_block_offset_capacity [OF D(1)] block_capacity_le [OF D(1)] by auto
  define n where "n = (if ?i = get_block_index s ?F then get_in_block_offset s ?F - ?o
    else get_block_capacity s ?i - ?o)"
  have n: "0 < n" "?o + n \<le> get_block_capacity s ?i"
    using ahead cap in_block_offset_capacity [OF D(1), of ?F] by (auto simp: n_def)
  have le: "p + n \<le> ?F"
  proof (cases "?i = get_block_index s ?F")
    case True
    show ?thesis
    proof (rule ccontr)
      assume no: "\<not> ?thesis"
      then have "?o + (?F - p) < get_block_capacity s ?i" using n p by simp
      from block_step(2) [OF D(1) this] p(2) no True show False by (simp add: n_def)
    qed
  next
    case False
    then show ?thesis using other_block_ahead [OF D(1), of p ?F] p(2) by (simp add: n_def)
  qed
  have sub: "(if ?i = get_block_index s ?F then u64_sub (get_in_block_offset s ?F) ?o
      else u64_sub (get_block_capacity s ?i) ?o) = n"
    using ahead cap in_block_offset_less [of s ?F] by (auto simp: n_def intro!: u64_sub_no_wrap)
  have "peek_region s p = Some (Some (Region ?i ?o n))"
    using p block_region_readable(1) [OF inv p(1) le n(1,2)] sub
    by (simp add: peek_region_def Let_def)
  moreover have "region_bytes s (Region ?i ?o n) = map f [p..<p + n]"
    by (rule block_region_readable(2) [OF inv p(1) le n(1,2)])
  ultimately show ?thesis using n(1) le by blast
qed

end
