(* ===== verification/Stream_Sequencer.thy ===== *)
theory Stream_Sequencer
  imports Buffer_Regions
begin

text \<open>
  \<open>QuicStreamSequencer\<close> (\<open>sequencer/quic_stream_sequencer.cc\<close>): frames of a stream go
  in, the stream's owner is called back when data can be read in order.  The owner
  (\<open>StreamInterface\<close>) is the record \<open>'h stream_interface\<close> of its virtual functions
  over a state of type \<open>'h\<close>; \<open>OnDataAvailable\<close> reads from the sequencer that calls it, so it
  takes and returns the sequencer too.  The contract of a reading owner is the locale
  \<open>stream_reader\<close>.  The two frame counters are statistics of type \<open>int\<close>, which the
  model does not bound.
\<close>

section \<open>State and interface\<close>

record sequencer =
  buffered_frames :: seq_buffer
  highest_offset :: u64
  close_offset :: u64
  blocked :: bool
  num_frames_received :: int
  num_duplicate_frames_received :: int
  ignore_read_data :: bool
  level_triggered :: bool

record 'h stream_interface =
  on_data_available :: "sequencer \<Rightarrow> 'h \<Rightarrow> (sequencer \<times> 'h) option"
  on_fin_read :: "'h \<Rightarrow> 'h"
  add_bytes_consumed :: "u64 \<Rightarrow> 'h \<Rightarrow> 'h"
  on_unrecoverable_error :: "quic_error_code \<Rightarrow> 'h \<Rightarrow> 'h"

definition kStreamReceiveWindowLimit :: u64 where
  "kStreamReceiveWindowLimit = 64 * 1024 * 1024"

definition kMaxOffset :: u64 where
  "kMaxOffset = 2 ^ 64 - 1"

record stream_frame =
  fin :: bool
  frame_offset :: u64
  frame_data :: "byte list"

definition sequencer_new :: "sequencer option" where
  "sequencer_new = do {
     buf \<leftarrow> buffer_new kStreamReceiveWindowLimit;
     Some \<lparr>buffered_frames = buf, highest_offset = 0, close_offset = kMaxOffset, blocked = False,
           num_frames_received = 0, num_duplicate_frames_received = 0, ignore_read_data = False,
           level_triggered = False\<rparr>
   }"

section \<open>Queries\<close>

definition seq_readable_bytes :: "sequencer \<Rightarrow> u64" where
  "seq_readable_bytes q = readable_bytes (buffered_frames q)"

definition seq_has_bytes_to_read :: "sequencer \<Rightarrow> bool" where
  "seq_has_bytes_to_read q = has_bytes_to_read (buffered_frames q)"

definition is_closed :: "sequencer \<Rightarrow> bool" where
  "is_closed q \<longleftrightarrow> close_offset q \<le> bytes_consumed (buffered_frames q)"

definition num_bytes_buffered_seq :: "sequencer \<Rightarrow> u64" where
  "num_bytes_buffered_seq q = bytes_buffered (buffered_frames q)"

definition num_bytes_consumed :: "sequencer \<Rightarrow> u64" where
  "num_bytes_consumed q = bytes_consumed (buffered_frames q)"

definition seq_get_readable_regions :: "sequencer \<Rightarrow> nat \<Rightarrow> (nat \<times> region list) option" where
  "seq_get_readable_regions q n = do {
     fatal_unless (\<not> blocked q);
     get_readable_regions (buffered_frames q) n
   }"

definition seq_get_readable_region :: "sequencer \<Rightarrow> (bool \<times> region list) option" where
  "seq_get_readable_region q = do {
     fatal_unless (\<not> blocked q);
     get_readable_region (buffered_frames q)
   }"

definition seq_peek_region :: "sequencer \<Rightarrow> u64 \<Rightarrow> region option option" where
  "seq_peek_region q offset = do {
     fatal_unless (\<not> blocked q);
     peek_region (buffered_frames q) offset
   }"

section \<open>Operations\<close>

definition maybe_close_stream ::
  "'h stream_interface \<Rightarrow> sequencer \<Rightarrow> 'h \<Rightarrow> (sequencer \<times> 'h) option" where
  "maybe_close_stream I q h =
     (if blocked q \<or> \<not> is_closed q then Some (q, h)
      else do {
        (q1, h1) \<leftarrow> (if ignore_read_data q then Some (q, on_fin_read I h)
                      else on_data_available I q h);
        buf \<leftarrow> buffer_clear (buffered_frames q1);
        Some (q1\<lparr>buffered_frames := buf\<rparr>, h1)
      })"

definition close_stream_at_offset ::
  "'h stream_interface \<Rightarrow> sequencer \<Rightarrow> 'h \<Rightarrow> u64 \<Rightarrow> (bool \<times> sequencer \<times> 'h) option" where
  "close_stream_at_offset I q h offset =
     (if close_offset q \<noteq> kMaxOffset \<and> offset \<noteq> close_offset q then
        Some (False, q, on_unrecoverable_error I QUIC_STREAM_SEQUENCER_INVALID_STATE h)
      else if offset < highest_offset q then
        Some (False, q, on_unrecoverable_error I QUIC_STREAM_SEQUENCER_INVALID_STATE h)
      else map_option (\<lambda>(q', h'). (True, q', h'))
        (maybe_close_stream I (q\<lparr>close_offset := offset\<rparr>) h))"

definition seq_flush_buffered_frames ::
  "'h stream_interface \<Rightarrow> sequencer \<Rightarrow> 'h \<Rightarrow> (sequencer \<times> 'h) option" where
  "seq_flush_buffered_frames I q h = do {
     fatal_unless (ignore_read_data q);
     (bytes_flushed, buf) \<leftarrow> flush_buffered_frames (buffered_frames q);
     maybe_close_stream I (q\<lparr>buffered_frames := buf\<rparr>) (add_bytes_consumed I bytes_flushed h)
   }"

definition on_frame_data ::
  "'h stream_interface \<Rightarrow> sequencer \<Rightarrow> 'h \<Rightarrow> u64 \<Rightarrow> byte list \<Rightarrow> (sequencer \<times> 'h) option" where
  "on_frame_data I q h byte_offset data = do {
     let q0 = q\<lparr>highest_offset := max (highest_offset q) (u64_add byte_offset (length data))\<rparr>;
     let previous_readable_bytes = readable_bytes (buffered_frames q0);
     (result, bytes_written, buf) \<leftarrow> on_stream_data (buffered_frames q0) byte_offset data;
     let q1 = q0\<lparr>buffered_frames := buf\<rparr>;
     if result \<noteq> QUIC_NO_ERROR then Some (q1, on_unrecoverable_error I result h)
     else if bytes_written = 0 then
       Some (q1\<lparr>num_duplicate_frames_received := num_duplicate_frames_received q1 + 1\<rparr>, h)
     else if blocked q1 then Some (q1, h)
     else
       let notify =
         (if level_triggered q1 then previous_readable_bytes < readable_bytes buf
          else previous_readable_bytes = 0 \<and> 0 < readable_bytes buf)
       in if \<not> notify then Some (q1, h)
          else if ignore_read_data q1 then seq_flush_buffered_frames I q1 h
          else on_data_available I q1 h
   }"

definition on_stream_frame ::
  "'h stream_interface \<Rightarrow> sequencer \<Rightarrow> 'h \<Rightarrow> stream_frame \<Rightarrow> (sequencer \<times> 'h) option" where
  "on_stream_frame I q h frame = do {
     let finish = u64_add (frame_offset frame) (length (frame_data frame));
     fatal_unless (finish \<le> close_offset q);
     let q0 = q\<lparr>num_frames_received := num_frames_received q + 1\<rparr>;
     if fin frame then do {
       (ok, q1, h1) \<leftarrow> close_stream_at_offset I q0 h finish;
       if \<not> ok \<or> frame_data frame = [] then Some (q1, h1)
       else on_frame_data I q1 h1 (frame_offset frame) (frame_data frame)
     }
     else on_frame_data I q0 h (frame_offset frame) (frame_data frame)
   }"

definition seq_readv ::
  "'h stream_interface \<Rightarrow> sequencer \<Rightarrow> 'h \<Rightarrow> dest_iovec list \<Rightarrow>
    (u64 \<times> byte list list \<times> sequencer \<times> 'h) option" where
  "seq_readv I q h iov = do {
     fatal_unless (\<not> blocked q);
     (err, bytes_read, outs, buf) \<leftarrow> readv (buffered_frames q) iov;
     let q1 = q\<lparr>buffered_frames := buf\<rparr>;
     if err \<noteq> QUIC_NO_ERROR then Some (bytes_read, outs, q1, on_unrecoverable_error I err h)
     else Some (bytes_read, outs, q1, add_bytes_consumed I bytes_read h)
   }"

text \<open>\<open>Read(&buffer)\<close> appends everything readable: the result is what is appended.\<close>

definition seq_read ::
  "'h stream_interface \<Rightarrow> sequencer \<Rightarrow> 'h \<Rightarrow> (byte list \<times> sequencer \<times> 'h) option" where
  "seq_read I q h = do {
     fatal_unless (\<not> blocked q);
     let n = seq_readable_bytes q;
     (_, outs, q', h') \<leftarrow> seq_readv I q h [(True, n)];
     Some (concat outs @ replicate (n - length (concat outs)) 0, q', h')
   }"

definition seq_mark_consumed ::
  "'h stream_interface \<Rightarrow> sequencer \<Rightarrow> 'h \<Rightarrow> u64 \<Rightarrow> (sequencer \<times> 'h) option" where
  "seq_mark_consumed I q h n = do {
     fatal_unless (\<not> blocked q);
     (ok, buf) \<leftarrow> mark_consumed (buffered_frames q) n;
     fatal_unless ok;
     Some (q\<lparr>buffered_frames := buf\<rparr>, add_bytes_consumed I n h)
   }"

definition set_blocked_until_flush :: "sequencer \<Rightarrow> sequencer" where
  "set_blocked_until_flush q = q\<lparr>blocked := True\<rparr>"

definition set_unblocked ::
  "'h stream_interface \<Rightarrow> sequencer \<Rightarrow> 'h \<Rightarrow> (sequencer \<times> 'h) option" where
  "set_unblocked I q h =
     (let q1 = q\<lparr>blocked := False\<rparr>
      in if is_closed q1 \<or> seq_has_bytes_to_read q1 then on_data_available I q1 h else Some (q1, h))"

definition stop_reading ::
  "'h stream_interface \<Rightarrow> sequencer \<Rightarrow> 'h \<Rightarrow> (sequencer \<times> 'h) option" where
  "stop_reading I q h =
     (if ignore_read_data q then Some (q, h)
      else seq_flush_buffered_frames I (q\<lparr>ignore_read_data := True\<rparr>) h)"

definition release_buffer :: "sequencer \<Rightarrow> sequencer option" where
  "release_buffer q = map_option (\<lambda>buf. q\<lparr>buffered_frames := buf\<rparr>) (release_whole_buffer (buffered_frames q))"

definition release_buffer_if_empty :: "sequencer \<Rightarrow> sequencer option" where
  "release_buffer_if_empty q =
     (if buffer_empty (buffered_frames q) then release_buffer q else Some q)"

end
