(* ===== verification/Sequencer_Delivery.thy ===== *)
theory Sequencer_Delivery
  imports Stream_Sequencer
begin

text \<open>
  What the sequencer promises to an owner that reads everything it is told about: frames may
  arrive in any order, overlap and repeat; the owner is handed the bytes of the stream in
  order, each exactly once, up to the first offset that is still missing.  The lemmas are
  proved in the locale \<open>stream_reader\<close>, the contract of such an owner.
\<close>

section \<open>Agreement of a frame with the stream\<close>

definition frame_of :: "(u64 \<Rightarrow> byte) \<Rightarrow> u64 \<Rightarrow> byte list \<Rightarrow> bool" where
  "frame_of f p d \<longleftrightarrow> (\<forall>k < length d. d ! k = f (p + k))"

lemma overwrite_frame_of: "frame_of f p d \<Longrightarrow> overwrite f seen p d = f"
proof (rule ext)
  fix q assume a: "frame_of f p d"
  show "overwrite f seen p d q = f q"
  proof (cases "p \<le> q \<and> q < p + length d")
    case True
    then have "q - p < length d" "p + (q - p) = q" by auto
    with a have "d ! (q - p) = f q" unfolding frame_of_def by metis
    then show ?thesis by (simp add: overwrite_def)
  qed (auto simp: overwrite_def)
qed

lemma first_missing_unique:
  assumes "buf_inv f s" "{..<m} \<subseteq> received s" "m \<notin> received s"
  shows "first_missing_byte s = m"
  using first_missing_byte_correct(1,2) [OF assms(1)] assms(2,3)
  by (metis lessThan_iff linorder_neqE_nat subsetD)

section \<open>A reading owner\<close>

locale stream_reader =
  fixes I :: "'h stream_interface" and log :: "'h \<Rightarrow> byte list" and ready :: "'h \<Rightarrow> bool"
  assumes reads: "buf_inv f (buffered_frames q) \<Longrightarrow> \<not> blocked q \<Longrightarrow> ready h \<Longrightarrow>
      \<exists>buf h'. on_data_available I q h = Some (q\<lparr>buffered_frames := buf\<rparr>, h') \<and>
        consumed_to f (buffered_frames q) (seq_readable_bytes q) buf \<and>
        log h' = log h @ readable_stream f (buffered_frames q) \<and> ready h'"
    and error_log: "log (on_unrecoverable_error I e h) = log h"
begin

text \<open>Between two frames: everything readable has been handed over.\<close>

definition drained :: "(u64 \<Rightarrow> byte) \<Rightarrow> sequencer \<Rightarrow> 'h \<Rightarrow> bool" where
  "drained f q h \<longleftrightarrow> buf_inv f (buffered_frames q) \<and> \<not> blocked q \<and> \<not> ignore_read_data q \<and>
     seq_readable_bytes q = 0 \<and> log h = map f [0..<total_bytes_read (buffered_frames q)] \<and> ready h"

lemma drained_log:
  assumes "drained f q h"
  shows "log h = map f [0..<first_missing_byte (buffered_frames q)]"
  using assms first_missing_byte_correct(3,5) [of f "buffered_frames q"]
  by (simp add: drained_def seq_readable_bytes_def)

lemma on_frame_data_drained:
  assumes dr: "drained f q h" and d: "d \<noteq> []" "frame_of f p d"
    and fits: "p + length d \<le> total_bytes_read (buffered_frames q) + max_buffer_capacity_bytes (buffered_frames q)"
      "p + length d \<le> 2 ^ 62"
    and room: "length (bytes_received (buffered_frames q)) + 1 < kMaxNumDataIntervalsAllowed"
  shows "\<exists>q' h'. on_frame_data I q h p d = Some (q', h') \<and> drained f q' h' \<and>
    received (buffered_frames q') = received (buffered_frames q) \<union> {p..<p + length d} \<and>
    length (bytes_received (buffered_frames q')) \<le> length (bytes_received (buffered_frames q)) + 1 \<and>
    max_buffer_capacity_bytes (buffered_frames q') = max_buffer_capacity_bytes (buffered_frames q) \<and>
    close_offset q' = close_offset q \<and>
    total_bytes_read (buffered_frames q) \<le> total_bytes_read (buffered_frames q')"
proof -
  let ?b = "buffered_frames q" and ?i = "Interval p (p + length d)"
  have inv: "buf_inv f ?b" and nb: "\<not> blocked q" and ni: "\<not> ignore_read_data q"
      and r0: "readable_bytes ?b = 0" and log: "log h = map f [0..<total_bytes_read ?b]" and rd: "ready h"
    using dr by (auto simp: drained_def seq_readable_bytes_def)
  note R = iset_add_correct [OF buf_invD(2) [OF inv], of ?i]
  have len: "length (iset_add (bytes_received ?b) ?i) \<le> length (bytes_received ?b) + 1"
    by (rule length_iset_add [OF buf_invD(2) [OF inv]])
  with room have "\<not> kMaxNumDataIntervalsAllowed \<le> length (iset_add (bytes_received ?b) ?i)" by simp
  then obtain b where b: "on_stream_data ?b p d = Some (QUIC_NO_ERROR, card ({p..<p + length d} - received ?b), b)"
      "buf_inv f b" "bytes_received b = iset_add (bytes_received ?b) ?i"
      "total_bytes_read b = total_bytes_read ?b"
      "max_buffer_capacity_bytes b = max_buffer_capacity_bytes ?b"
    using on_stream_data_accept [OF inv d(1) fits] overwrite_frame_of [OF d(2)] by auto
  have rec: "received b = received ?b \<union> {p..<p + length d}"
    using R b(3) by (simp add: received_def ivl_pts_def)
  define q1 where "q1 = q\<lparr>highest_offset := max (highest_offset q) (u64_add p (length d)), buffered_frames := b\<rparr>"
  show ?thesis
  proof (cases "card ({p..<p + length d} - received ?b) = 0")
    case True
    then have "received b = received ?b" unfolding rec by auto
    then have "first_missing_byte b = first_missing_byte ?b"
      using first_missing_unique [OF b(2)] first_missing_byte_correct(1,2) [OF inv] by simp
    then have "readable_bytes b = 0"
      using r0 b(4) first_missing_byte_correct(5) [OF inv] first_missing_byte_correct(5) [OF b(2)] by simp
    then show ?thesis
      using True b nb ni rd log rec len
      by (simp add: on_frame_data_def Let_def drained_def seq_readable_bytes_def)
  next
    case False
    have run: "on_frame_data I q h p d =
        (if 0 < readable_bytes b then on_data_available I q1 h else Some (q1, h))"
      using False b(1) nb ni r0 by (simp add: on_frame_data_def Let_def q1_def)
    show ?thesis
    proof (cases "0 < readable_bytes b")
      case True
      have "buf_inv f (buffered_frames q1)" "\<not> blocked q1" using b(2) nb by (simp_all add: q1_def)
      from reads [OF this rd] obtain buf h' where
          da: "on_data_available I q1 h = Some (q1\<lparr>buffered_frames := buf\<rparr>, h')" and
          to: "consumed_to f b (readable_bytes b) buf" and
          log': "log h' = log h @ readable_stream f b" and rd': "ready h'"
        by (auto simp: q1_def seq_readable_bytes_def)
      have c: "buf_inv f buf" "bytes_received buf = bytes_received b"
          "total_bytes_read buf = total_bytes_read b + readable_bytes b"
          "max_buffer_capacity_bytes buf = max_buffer_capacity_bytes ?b"
        using to b(5) by (auto simp: consumed_to_def)
      have "readable_bytes buf = 0" using readable_after [OF b(2) c(1-3)] by simp
      moreover have "[0..<total_bytes_read b + readable_bytes b] =
          [0..<total_bytes_read b] @ [total_bytes_read b..<total_bytes_read b + readable_bytes b]"
        by (rule upt_add_eq_append) simp
      then have "log h' = map f [0..<total_bytes_read buf]"
        using log' log b(4) c(3) by (simp add: readable_stream_def)
      moreover have "received buf = received b" using c(2) by (simp add: received_def)
      ultimately show ?thesis
        using run True da c rd' nb ni rec len b(3,4)
        by (simp add: drained_def seq_readable_bytes_def q1_def)
    next
      case False
      then show ?thesis
        using run b nb ni rd log rec len by (simp add: drained_def seq_readable_bytes_def q1_def)
    qed
  qed
qed

lemma on_stream_frame_drained:
  assumes dr: "drained f q h" and fr: "\<not> fin fr" "frame_data fr \<noteq> []"
      "frame_of f (frame_offset fr) (frame_data fr)"
    and fits: "frame_offset fr + length (frame_data fr) \<le>
        total_bytes_read (buffered_frames q) + max_buffer_capacity_bytes (buffered_frames q)"
      "frame_offset fr + length (frame_data fr) \<le> 2 ^ 62"
      "frame_offset fr + length (frame_data fr) \<le> close_offset q"
    and room: "length (bytes_received (buffered_frames q)) + 1 < kMaxNumDataIntervalsAllowed"
  shows "\<exists>q' h'. on_stream_frame I q h fr = Some (q', h') \<and> drained f q' h' \<and>
    received (buffered_frames q') = received (buffered_frames q) \<union>
      {frame_offset fr..<frame_offset fr + length (frame_data fr)} \<and>
    length (bytes_received (buffered_frames q')) \<le> length (bytes_received (buffered_frames q)) + 1 \<and>
    max_buffer_capacity_bytes (buffered_frames q') = max_buffer_capacity_bytes (buffered_frames q) \<and>
    close_offset q' = close_offset q \<and>
    total_bytes_read (buffered_frames q) \<le> total_bytes_read (buffered_frames q')"
proof -
  let ?q = "q\<lparr>num_frames_received := num_frames_received q + 1\<rparr>"
  have "u64_add (frame_offset fr) (length (frame_data fr)) = frame_offset fr + length (frame_data fr)"
    using fits(2) by (intro u64_add_no_wrap) simp
  then have "on_stream_frame I q h fr = on_frame_data I ?q h (frame_offset fr) (frame_data fr)"
    using fr(1) fits(3) by (simp add: on_stream_frame_def Let_def)
  moreover have "drained f ?q h" using dr by (simp add: drained_def seq_readable_bytes_def)
  from on_frame_data_drained [OF this fr(2,3)] fits(1,2) room
  have "\<exists>q' h'. on_frame_data I ?q h (frame_offset fr) (frame_data fr) = Some (q', h') \<and> drained f q' h' \<and>
    received (buffered_frames q') = received (buffered_frames q) \<union>
      {frame_offset fr..<frame_offset fr + length (frame_data fr)} \<and>
    length (bytes_received (buffered_frames q')) \<le> length (bytes_received (buffered_frames q)) + 1 \<and>
    max_buffer_capacity_bytes (buffered_frames q') = max_buffer_capacity_bytes (buffered_frames q) \<and>
    close_offset q' = close_offset q \<and>
    total_bytes_read (buffered_frames q) \<le> total_bytes_read (buffered_frames q')"
    by simp
  ultimately show ?thesis by simp
qed

end

section \<open>A sequence of frames\<close>

fun on_stream_frames ::
  "'h stream_interface \<Rightarrow> sequencer \<Rightarrow> 'h \<Rightarrow> stream_frame list \<Rightarrow> (sequencer \<times> 'h) option" where
  "on_stream_frames I q h [] = Some (q, h)"
| "on_stream_frames I q h (fr # frs) = do {
     (q', h') \<leftarrow> on_stream_frame I q h fr;
     on_stream_frames I q' h' frs
   }"

definition frame_range :: "stream_frame \<Rightarrow> u64 set" where
  "frame_range fr = {frame_offset fr..<frame_offset fr + length (frame_data fr)}"

definition good_frame :: "(u64 \<Rightarrow> byte) \<Rightarrow> u64 \<Rightarrow> stream_frame \<Rightarrow> bool" where
  "good_frame f n fr \<longleftrightarrow> \<not> fin fr \<and> frame_data fr \<noteq> [] \<and>
     frame_of f (frame_offset fr) (frame_data fr) \<and> frame_offset fr + length (frame_data fr) \<le> n"

context stream_reader
begin

lemma on_stream_frames_drained:
  "drained f q h \<Longrightarrow> \<forall>fr \<in> set frs. good_frame f n fr \<Longrightarrow>
    n \<le> total_bytes_read (buffered_frames q) + max_buffer_capacity_bytes (buffered_frames q) \<Longrightarrow>
    n \<le> 2 ^ 62 \<Longrightarrow> n \<le> close_offset q \<Longrightarrow>
    length (bytes_received (buffered_frames q)) + length frs < kMaxNumDataIntervalsAllowed \<Longrightarrow>
    \<exists>q' h'. on_stream_frames I q h frs = Some (q', h') \<and> drained f q' h' \<and>
      received (buffered_frames q') = received (buffered_frames q) \<union> (\<Union>fr \<in> set frs. frame_range fr)"
proof (induction frs arbitrary: q h)
  case (Cons fr frs)
  have g: "\<not> fin fr" "frame_data fr \<noteq> []" "frame_of f (frame_offset fr) (frame_data fr)"
      "frame_offset fr + length (frame_data fr) \<le> n"
    using Cons.prems(2) by (simp_all add: good_frame_def)
  have room: "length (bytes_received (buffered_frames q)) + 1 < kMaxNumDataIntervalsAllowed"
    using Cons.prems(6) by simp
  obtain q1 h1 where step: "on_stream_frame I q h fr = Some (q1, h1)" "drained f q1 h1"
      "received (buffered_frames q1) = received (buffered_frames q) \<union> frame_range fr"
      "length (bytes_received (buffered_frames q1)) \<le> length (bytes_received (buffered_frames q)) + 1"
      "max_buffer_capacity_bytes (buffered_frames q1) = max_buffer_capacity_bytes (buffered_frames q)"
      "close_offset q1 = close_offset q"
      "total_bytes_read (buffered_frames q) \<le> total_bytes_read (buffered_frames q1)"
    using on_stream_frame_drained [OF Cons.prems(1) g(1-3) _ _ _ room] g(4) Cons.prems(3-5)
    by (auto simp: frame_range_def)
  obtain q2 h2 where "on_stream_frames I q1 h1 frs = Some (q2, h2)" "drained f q2 h2"
      "received (buffered_frames q2) = received (buffered_frames q1) \<union> (\<Union>fr \<in> set frs. frame_range fr)"
    using Cons.IH [OF step(2)] Cons.prems step by auto
  with step show ?case by (auto simp: Un_assoc)
qed simp

text \<open>
  A fresh sequencer is given the frames of a stream in any order: its owner is handed the
  stream up to the first missing offset.
\<close>

lemma fresh_sequencer_drained:
  assumes "ready h" "log h = []"
  shows "\<exists>q. sequencer_new = Some q \<and> drained f q h \<and> received (buffered_frames q) = {} \<and>
    bytes_received (buffered_frames q) = [] \<and> close_offset q = kMaxOffset \<and>
    total_bytes_read (buffered_frames q) = 0 \<and>
    max_buffer_capacity_bytes (buffered_frames q) = kStreamReceiveWindowLimit"
proof -
  obtain b where b: "buffer_new kStreamReceiveWindowLimit = Some b" "buf_inv f b" "received b = {}"
      "total_bytes_read b = 0" "max_buffer_capacity_bytes b = kStreamReceiveWindowLimit"
    using buffer_new_correct [of kStreamReceiveWindowLimit f] by (auto simp: kStreamReceiveWindowLimit_def)
  have nil: "bytes_received b = []"
    using b(3) iset_pts_eq_Nil [OF buf_invD(2) [OF b(2)]] by (simp add: received_def)
  then have "readable_bytes b = 0" using b(4) by (simp add: readable_bytes_def first_missing_byte_def u64_sub_def)
  then show ?thesis
    using b nil assms by (simp add: sequencer_new_def drained_def seq_readable_bytes_def)
qed

lemma any_order_delivery:
  assumes h: "ready h" "log h = []" and frames: "\<forall>fr \<in> set frs. good_frame f kStreamReceiveWindowLimit fr"
    and few: "length frs < kMaxNumDataIntervalsAllowed"
  shows "\<exists>q0 q' h' m. sequencer_new = Some q0 \<and> on_stream_frames I q0 h frs = Some (q', h') \<and>
    log h' = map f [0..<m] \<and> {..<m} \<subseteq> (\<Union>fr \<in> set frs. frame_range fr) \<and>
    m \<notin> (\<Union>fr \<in> set frs. frame_range fr)"
proof -
  obtain q where q: "sequencer_new = Some q" "drained f q h" "received (buffered_frames q) = {}"
      "bytes_received (buffered_frames q) = []" "close_offset q = kMaxOffset"
      "total_bytes_read (buffered_frames q) = 0"
      "max_buffer_capacity_bytes (buffered_frames q) = kStreamReceiveWindowLimit"
    using fresh_sequencer_drained [OF h] by blast
  obtain q' h' where run: "on_stream_frames I q h frs = Some (q', h')" "drained f q' h'"
      "received (buffered_frames q') = (\<Union>fr \<in> set frs. frame_range fr)"
    using on_stream_frames_drained [OF q(2) frames] q few
    by (auto simp: kStreamReceiveWindowLimit_def kMaxOffset_def)
  have inv: "buf_inv f (buffered_frames q')" using run(2) by (simp add: drained_def)
  show ?thesis
    using q(1) run first_missing_byte_correct(1,2) [OF inv] drained_log [OF run(2)] by auto
qed

end

section \<open>The final offset\<close>

lemma close_at_other_offset:
  "close_offset q \<noteq> kMaxOffset \<Longrightarrow> offset \<noteq> close_offset q \<Longrightarrow>
    close_stream_at_offset I q h offset =
      Some (False, q, on_unrecoverable_error I QUIC_STREAM_SEQUENCER_INVALID_STATE h)"
  by (simp add: close_stream_at_offset_def)

lemma close_below_highest:
  "offset < highest_offset q \<Longrightarrow>
    close_stream_at_offset I q h offset =
      Some (False, q, on_unrecoverable_error I QUIC_STREAM_SEQUENCER_INVALID_STATE h)"
  by (simp add: close_stream_at_offset_def)

end
