(* ===== verification/Sample_States.thy ===== *)
theory Sample_States
  imports Sequencer_Delivery
begin

text \<open>
  Concrete states on which the properties are instantiated: a buffer of 16384 bytes (two
  blocks) that has received the bytes 0 to 9 and 20 to 29 of a stream and handed out the
  first four, and an empty one.
\<close>

definition sample_stream :: "u64 \<Rightarrow> byte" where
  "sample_stream p = word_of_nat p"

definition sample_buffer :: seq_buffer where
  "sample_buffer = \<lparr>max_buffer_capacity_bytes = 16384, max_blocks_count = 2, current_blocks_count = 0,
     total_bytes_read = 4, allocate_blocks_on_demand = False,
     blocks = Some [Some sample_stream, None], num_bytes_buffered = 16,
     bytes_received = [Interval 0 10, Interval 20 30]\<rparr>"

lemma sample_received: "received sample_buffer = {0..<10} \<union> {20..<30}"
  by (auto simp: received_def sample_buffer_def ivl_pts_def)

lemma sample_invariant: "buf_inv sample_stream sample_buffer"
proof -
  have "received sample_buffer - {..<total_bytes_read sample_buffer} = {4..<10} \<union> {20..<30}"
    unfolding sample_received by (auto simp: sample_buffer_def)
  also have "card \<dots> = 16" by (subst card_Un_disjoint) auto
  finally have card: "num_bytes_buffered sample_buffer =
      card (received sample_buffer - {..<total_bytes_read sample_buffer})"
    by (simp add: sample_buffer_def)
  have st: "stored sample_buffer p = Some (sample_stream p)" if "p < 30" for p
    using that by (simp add: stored_def block_ptr_def get_block_index_def get_in_block_offset_def
        sample_buffer_def kBlockSizeBytes_def)
  have "stored sample_buffer p = Some (sample_stream p)" if "p \<in> received sample_buffer" for p
    using that st [of p] by (auto simp: sample_received)
  moreover have "geom sample_buffer" by (simp add: geom_def sample_buffer_def)
  moreover have "iset_inv (bytes_received sample_buffer)" by (simp add: sample_buffer_def iset_inv_Cons)
  moreover have "{..<total_bytes_read sample_buffer} \<subseteq> received sample_buffer"
    unfolding sample_received by (auto simp: sample_buffer_def)
  moreover have "\<forall>p \<in> received sample_buffer.
      p < total_bytes_read sample_buffer + max_buffer_capacity_bytes sample_buffer \<and> p < 2 ^ 62"
    unfolding sample_received by (auto simp: sample_buffer_def)
  moreover have "length (bytes_received sample_buffer) < kMaxNumDataIntervalsAllowed"
    by (simp add: sample_buffer_def kMaxNumDataIntervalsAllowed_def)
  ultimately show ?thesis using card unfolding buf_inv_def by blast
qed

lemma sample_readable: "readable_bytes sample_buffer = 6" "first_missing_byte sample_buffer = 10"
  by (simp_all add: readable_bytes_def first_missing_byte_def sample_buffer_def u64_sub_def)

end
