(* ===== verification/Buffer_Properties.thy ===== *)
theory Buffer_Properties
  imports Sample_States
begin

text \<open>
  The properties of \<open>QuicStreamSequencerBuffer\<close>.  They are stated against the abstract view
  of a buffer: \<open>buf_inv f s\<close> says that \<open>s\<close> is well formed and that \<open>f\<close> gives the bytes
  of the stream at the offsets received; an operation is described by the offsets received
  (\<open>received\<close>), the number of bytes handed out (\<open>total_bytes_read\<close>) and \<open>f\<close>.
\<close>

section \<open>Receiving\<close>

text \<open>
  C11: \<open>OnStreamData\<close> on data that lies in the window and keeps the number of intervals below
  the limit returns \<open>QUIC_NO_ERROR\<close> and the number of offsets that are new; afterwards the
  offsets of the data are received, old bytes are kept where the data overlaps what was
  received, the new ones are stored, and the invariant holds.
\<close>

theorem on_stream_data_stores:
  assumes "buf_inv f s" "d \<noteq> []"
    "p + length d \<le> total_bytes_read s + max_buffer_capacity_bytes s" "p + length d \<le> 2 ^ 62"
    "length (iset_add (bytes_received s) (Interval p (p + length d))) < kMaxNumDataIntervalsAllowed"
  shows "\<exists>s'. on_stream_data s p d =
      Some (QUIC_NO_ERROR, card ({p..<p + length d} - received s), s') \<and>
    buf_inv (\<lambda>q. if p \<le> q \<and> q < p + length d \<and> q \<notin> received s then d ! (q - p) else f q) s' \<and>
    received s' = received s \<union> {p..<p + length d} \<and> total_bytes_read s' = total_bytes_read s"
proof -
  have "iset_pts (iset_add (bytes_received s) (Interval p (p + length d))) = received s \<union> {p..<p + length d}"
    using iset_add_correct [OF buf_invD(2) [OF assms(1)]] by (simp add: received_def ivl_pts_def)
  moreover have "(\<lambda>q. if p \<le> q \<and> q < p + length d \<and> q \<notin> received s then d ! (q - p) else f q) =
      overwrite f (received s) p d"
    by (simp add: overwrite_def fun_eq_iff)
  ultimately show ?thesis
    using on_stream_data_accept [OF assms(1-4)] assms(5) by (auto simp: received_def)
qed

theorem on_stream_data_stores_witness:
  "\<exists>s'. on_stream_data sample_buffer 8 [1, 2, 3, 4] = Some (QUIC_NO_ERROR, 2, s') \<and>
    received s' = received sample_buffer \<union> {8..<12}"
proof -
  have fits: "length (iset_add (bytes_received sample_buffer) (Interval 8 12)) < kMaxNumDataIntervalsAllowed"
    using length_iset_add [OF buf_invD(2) [OF sample_invariant], of "Interval 8 12"]
    by (simp add: sample_buffer_def kMaxNumDataIntervalsAllowed_def)
  have "{8..<12} - received sample_buffer = {10, 11}" by (auto simp: sample_received)
  then show ?thesis
    using on_stream_data_stores [OF sample_invariant, of "[1, 2, 3, 4]" 8] fits
    by (auto simp: sample_buffer_def)
qed

text \<open>
  C32: the errors of \<open>OnStreamData\<close>: no data, data that ends beyond the window (or beyond
  2^64), and data that brings the number of intervals to the limit.  The first two leave the
  buffer alone.  The last one does not: the offsets are recorded as received although
  nothing was stored.
\<close>

theorem on_stream_data_rejects:
  assumes "buf_inv f s" "p < 2 ^ 64" "length d < 2 ^ 64"
  shows "on_stream_data s p [] = Some (QUIC_EMPTY_STREAM_FRAME_NO_FIN, 0, s) \<and>
    (d \<noteq> [] \<and> total_bytes_read s + max_buffer_capacity_bytes s < p + length d \<longrightarrow>
      on_stream_data s p d = Some (QUIC_INTERNAL_ERROR, 0, s)) \<and>
    (d \<noteq> [] \<and> p + length d \<le> total_bytes_read s + max_buffer_capacity_bytes s \<and> p + length d \<le> 2 ^ 62 \<and>
      kMaxNumDataIntervalsAllowed \<le> length (iset_add (bytes_received s) (Interval p (p + length d))) \<longrightarrow>
      (\<exists>s'. on_stream_data s p d = Some (QUIC_TOO_MANY_STREAM_DATA_INTERVALS, 0, s') \<and>
        received s' = received s \<union> {p..<p + length d} \<and> blocks s' = blocks s))"
proof -
  have pts: "iset_pts (iset_add (bytes_received s) (Interval p (p + length d))) = received s \<union> {p..<p + length d}"
    using iset_add_correct [OF buf_invD(2) [OF assms(1)]] by (simp add: received_def ivl_pts_def)
  show ?thesis
    using on_stream_data_empty on_stream_data_beyond [OF assms(1) _ assms(2,3)]
      on_stream_data_accept [OF assms(1), of d p] pts
    by (simp add: buf_simps)
qed

theorem on_stream_data_rejects_witness:
  "on_stream_data sample_buffer 17000 [1] = Some (QUIC_INTERNAL_ERROR, 0, sample_buffer)"
  using on_stream_data_rejects [OF sample_invariant, of 17000 "[1]"] by (simp add: sample_buffer_def)

section \<open>Reading\<close>

text \<open>
  C12: \<open>Readv\<close> fills the vectors one after the other with the bytes of the stream from
  \<open>total_bytes_read\<close> on, as many as are readable and fit, returns their number without an
  error, and the buffer has consumed exactly them.
\<close>

theorem readv_delivers:
  assumes "buf_inv f s" "\<forall>v \<in> set iovs. fst v \<and> snd v < 2 ^ 64"
  defines "n \<equiv> min (sum_list (map snd iovs)) (readable_bytes s)"
  shows "\<exists>outs s'. readv s iovs = Some (QUIC_NO_ERROR, n, outs, s') \<and>
    concat outs = map f [total_bytes_read s..<total_bytes_read s + n] \<and>
    buf_inv f s' \<and> received s' = received s \<and> total_bytes_read s' = total_bytes_read s + n"
proof -
  obtain s' where s': "readv s iovs = Some (QUIC_NO_ERROR, n, scatter (map snd iovs) (readable_stream f s), s')"
      "consumed_to f s n s'"
    using readv_correct [OF assms(1,2)] unfolding n_def by blast
  have "concat (scatter (map snd iovs) (readable_stream f s)) =
      map f [total_bytes_read s..<total_bytes_read s + n]"
    unfolding concat_scatter take_readable_stream n_def ..
  with s' show ?thesis by (auto simp: consumed_to_def received_def)
qed

theorem readv_delivers_witness:
  "\<exists>outs s'. readv sample_buffer [(True, 2), (True, 100)] = Some (QUIC_NO_ERROR, 6, outs, s') \<and>
    concat outs = map sample_stream [4..<10] \<and> total_bytes_read s' = 10"
  using readv_delivers [OF sample_invariant, of "[(True, 2), (True, 100)]"] sample_readable
  by (auto simp: sample_buffer_def)

text \<open>
  \<open>MarkConsumed\<close> consumes exactly the bytes asked for, or refuses without a change when
  fewer are readable; \<open>FirstMissingByte\<close> and \<open>ReadableBytes\<close>, which decide it, are the first
  offset not received and its distance from \<open>total_bytes_read\<close>.
\<close>

theorem mark_consumed_spec:
  assumes "buf_inv f s"
  shows "{..<first_missing_byte s} \<subseteq> received s \<and> first_missing_byte s \<notin> received s \<and>
    readable_bytes s = first_missing_byte s - total_bytes_read s \<and>
    (if readable_bytes s < n then mark_consumed s n = Some (False, s)
     else \<exists>s'. mark_consumed s n = Some (True, s') \<and> buf_inv f s' \<and> received s' = received s \<and>
       total_bytes_read s' = total_bytes_read s + n)"
  using first_missing_byte_correct [OF assms] mark_consumed_correct [OF assms, of n]
  by (auto simp: consumed_to_def received_def)

theorem mark_consumed_spec_witness:
  "mark_consumed sample_buffer 7 = Some (False, sample_buffer)"
  using mark_consumed_spec [OF sample_invariant, of 7] sample_readable by simp

text \<open>
  \<open>GetReadableRegions\<close> points into the blocks at the bytes of the stream from
  \<open>total_bytes_read\<close> on, in order and without a gap; when it does not use all the vectors it
  was given it covers everything readable.
\<close>

theorem get_readable_regions_spec:
  assumes "buf_inv f s" "0 < n"
  shows "if readable_bytes s = 0 then get_readable_regions s n = Some (0, [Null_Region])
    else \<exists>iov k. get_readable_regions s n = Some (length iov, iov) \<and> 1 \<le> length iov \<and> length iov \<le> n \<and>
      0 < k \<and> k \<le> readable_bytes s \<and>
      concat (map (region_bytes s) iov) = map f [total_bytes_read s..<total_bytes_read s + k] \<and>
      (length iov < n \<longrightarrow> k = readable_bytes s)"
proof -
  have "k \<le> readable_bytes s \<Longrightarrow> take k (readable_stream f s) =
      map f [total_bytes_read s..<total_bytes_read s + k]" for k
    by (simp add: take_readable_stream min_def)
  then show ?thesis
    using get_readable_regions_correct [OF assms] by (simp split: if_splits) metis
qed

theorem get_readable_regions_spec_witness:
  "\<exists>iov k. get_readable_regions sample_buffer 2 = Some (length iov, iov) \<and> 0 < k \<and> k \<le> 6 \<and>
    concat (map (region_bytes sample_buffer) iov) = map sample_stream [4..<4 + k]"
  using get_readable_regions_spec [OF sample_invariant, of 2] sample_readable
  by (auto simp: sample_buffer_def)

text \<open>
  \<open>PeekRegion\<close> refuses offsets that are consumed or not readable; else it points at the
  bytes of the stream from the offset on, at least one and none beyond the first missing
  one, provided that the readable bytes have not wrapped around into the offset's own block.
\<close>

theorem peek_region_spec:
  assumes "buf_inv f s"
    and "get_block_index s p = get_block_index s (first_missing_byte s) \<Longrightarrow>
      get_in_block_offset s p < get_in_block_offset s (first_missing_byte s)"
  shows "if p < total_bytes_read s \<or> first_missing_byte s \<le> p then peek_region s p = Some None
    else \<exists>r n. peek_region s p = Some (Some r) \<and> 0 < n \<and> p + n \<le> first_missing_byte s \<and>
      region_bytes s r = map f [p..<p + n]"
  using peek_region_outside [of p s] peek_region_correct [OF assms(1) _ _ assms(2)]
  by (cases "p < total_bytes_read s \<or> first_missing_byte s \<le> p") (simp, fastforce)

theorem peek_region_spec_witness:
  "\<exists>r n. peek_region sample_buffer 6 = Some (Some r) \<and> 0 < n \<and> 6 + n \<le> 10 \<and>
    region_bytes sample_buffer r = map sample_stream [6..<6 + n]"
proof -
  have "get_block_index sample_buffer 6 = get_block_index sample_buffer (first_missing_byte sample_buffer) \<Longrightarrow>
      get_in_block_offset sample_buffer 6 < get_in_block_offset sample_buffer (first_missing_byte sample_buffer)"
    unfolding sample_readable by (simp add: sample_buffer_def get_in_block_offset_def kBlockSizeBytes_def)
  from peek_region_spec [OF sample_invariant this] show ?thesis
    unfolding sample_readable by (simp add: sample_buffer_def)
qed

text \<open>
  C31: the case that \<open>PeekRegion\<close> does not handle: the readable bytes fill the buffer so far
  that the first missing byte lies in the block of the offset, at a smaller place.  The
  length is then a difference below zero: the region claims more than 2^63 bytes.
\<close>

theorem peek_region_wrapped:
  assumes inv: "buf_inv f s" and p: "total_bytes_read s \<le> p" "p < first_missing_byte s"
    and wrapped: "get_block_index s p = get_block_index s (first_missing_byte s)"
      "get_in_block_offset s (first_missing_byte s) < get_in_block_offset s p"
  shows "\<exists>i off n. peek_region s p = Some (Some (Region i off n)) \<and> 2 ^ 63 \<le> n"
proof -
  have "p \<in> received s" using first_missing_byte_correct(1) [OF inv] p(2) by auto
  then have "stored s p = Some (f p)" using buf_invD(8) [OF inv] p(1) by simp
  then obtain m where m: "block_ptr s (get_block_index s p) = Some (Some m)"
    by (auto simp: stored_def split: option.splits)
  let ?a = "get_in_block_offset s (first_missing_byte s)" and ?b = "get_in_block_offset s p"
  have "?b < 8192" by (simp add: get_in_block_offset_def kBlockSizeBytes_def)
  then have "u64_sub ?a ?b = 2 ^ 64 + ?a - ?b" using wrapped(2) by (simp add: u64_sub_def)
  then have "2 ^ 63 \<le> u64_sub ?a ?b" using \<open>?b < 8192\<close> by simp
  then show ?thesis using m p wrapped(1) by (simp add: peek_region_def block_region_def Let_def)
qed

text \<open>A full buffer of two blocks whose first ten bytes have been handed out.\<close>

definition wrapped_buffer :: seq_buffer where
  "wrapped_buffer = sample_buffer\<lparr>total_bytes_read := 10, num_bytes_buffered := 16384,
     bytes_received := [Interval 0 16394],
     blocks := Some [Some (\<lambda>i. sample_stream (if i < 10 then 16384 + i else i)),
                     Some (\<lambda>i. sample_stream (8192 + i))]\<rparr>"

lemma wrapped_invariant: "buf_inv sample_stream wrapped_buffer"
proof -
  have rec: "received wrapped_buffer = {0..<16394}"
    by (simp add: received_def wrapped_buffer_def ivl_pts_def)
  have "stored wrapped_buffer q = Some (sample_stream q)" if "10 \<le> q" "q < 16394" for q
  proof -
    consider "q < 8192" | "8192 \<le> q" "q < 16384" | "16384 \<le> q" by linarith
    then show ?thesis
    proof cases
      case 1
      then show ?thesis using that by (simp add: stored_def block_ptr_def get_block_index_def
            get_in_block_offset_def wrapped_buffer_def sample_buffer_def kBlockSizeBytes_def)
    next
      case 2
      then have "q div 8192 = 1" "q mod 8192 = q - 8192" by (simp_all add: div_nat_eqI mod_if)
      with 2 show ?thesis by (simp add: stored_def block_ptr_def get_block_index_def
            get_in_block_offset_def wrapped_buffer_def sample_buffer_def kBlockSizeBytes_def)
    next
      case 3
      then have "q mod 16384 = q - 16384" "q - 16384 < 10" using that by (simp_all add: mod_if)
      with 3 that show ?thesis by (simp add: stored_def block_ptr_def get_block_index_def
            get_in_block_offset_def wrapped_buffer_def sample_buffer_def kBlockSizeBytes_def)
    qed
  qed
  moreover have "{0..<16394} - {..<10} = {10..<16394::nat}" by auto
  ultimately show ?thesis
    unfolding buf_inv_def rec
    by (auto simp: geom_def wrapped_buffer_def sample_buffer_def iset_inv_Cons kMaxNumDataIntervalsAllowed_def)
qed

theorem peek_region_wrapped_witness:
  "\<exists>i off n. peek_region wrapped_buffer 20 = Some (Some (Region i off n)) \<and> 2 ^ 63 \<le> n"
proof -
  have first: "first_missing_byte wrapped_buffer = 16394"
    by (simp add: first_missing_byte_def wrapped_buffer_def)
  show ?thesis
    by (rule peek_region_wrapped [OF wrapped_invariant], unfold first)
      (simp_all add: wrapped_buffer_def sample_buffer_def get_block_index_def get_in_block_offset_def kBlockSizeBytes_def)
qed

section \<open>Life cycle\<close>

text \<open>
  a new buffer is empty and well formed; \<open>FlushBufferedFrames\<close> consumes everything up to
  the highest offset received, gaps included, and returns how far it moved;
  \<open>ReleaseWholeBuffer\<close> frees every block and forgets what was not handed out.  None of them
  fails.
\<close>

theorem buffer_life_cycle:
  assumes "buf_inv f s" "0 < c" "c \<le> 2 ^ 62"
  shows "(\<exists>b. buffer_new c = Some b \<and> buf_inv f b \<and> received b = {} \<and> total_bytes_read b = 0) \<and>
    (\<exists>b. flush_buffered_frames s = Some (next_expected_byte s - total_bytes_read s, b) \<and> buf_inv f b \<and>
      total_bytes_read b = next_expected_byte s \<and> received b = {..<next_expected_byte s} \<and>
      (\<forall>p \<in> received s. p < next_expected_byte s)) \<and>
    (\<exists>b. release_whole_buffer s = Some b \<and> buf_inv f b \<and> blocks b = None \<and>
      received b = {..<total_bytes_read s} \<and> total_bytes_read b = total_bytes_read s)"
  using buffer_new_correct [OF assms(2,3), of f] flush_buffered_frames_correct [OF assms(1), of f]
    release_whole_buffer_correct [OF assms(1)] next_expected_byte_correct(1) [OF assms(1)]
  by auto

theorem buffer_life_cycle_witness:
  "\<exists>b. flush_buffered_frames sample_buffer = Some (26, b) \<and> total_bytes_read b = 30"
proof -
  have "next_expected_byte sample_buffer = 30" by (simp add: next_expected_byte_def sample_buffer_def)
  then show ?thesis
    using buffer_life_cycle [OF sample_invariant, of 1] by (auto simp: sample_buffer_def)
qed

end
