(* ===== verification/Byte_Codec.thy ===== *)
theory Byte_Codec
  imports Prelude "HOL-Library.Monad_Syntax"
begin

text \<open>
  \<open>DataReader\<close> and \<open>DataWriter\<close> (\<open>base/byte_codec.cc\<close>): fixed-width integers in
  either byte order, the 62-bit variable-length integers of QUIC and the base-128 integers.
  Machine words keep their width; the host is little endian
  (\<open>QuicheEndian::HostIsLittleEndian\<close>).  A read returns the value, \<open>None\<close> when it
  fails, and the reader; a write returns the flag and the writer.  The outer option is
  \<open>None\<close> where a \<open>DCHECK\<close> fails.
\<close>

unbundle bit_operations_syntax

section \<open>Endianness\<close>

datatype endianness = NETWORK_BYTE_ORDER | HOST_BYTE_ORDER

text \<open>The bytes of a word in memory, and the word in memory: least significant byte first.\<close>

fun le_bytes :: "nat \<Rightarrow> 'a::len word \<Rightarrow> byte list" where
  "le_bytes 0 w = []"
| "le_bytes (Suc n) w = ucast w # le_bytes n (drop_bit 8 w)"

fun le_word :: "byte list \<Rightarrow> 'a::len word" where
  "le_word [] = 0"
| "le_word (b # bs) = ucast b + push_bit 8 (le_word bs)"

definition byte_swap :: "nat \<Rightarrow> 'a::len word \<Rightarrow> 'a word" where
  "byte_swap n w = le_word (rev (le_bytes n w))"

section \<open>Reader\<close>

record data_reader =
  rd_data :: "byte list"
  rd_len :: nat
  rd_pos :: nat
  rd_order :: endianness

definition reader_new :: "byte list \<Rightarrow> nat \<Rightarrow> data_reader" where
  "reader_new data len = \<lparr>rd_data = data, rd_len = len, rd_pos = 0, rd_order = NETWORK_BYTE_ORDER\<rparr>"

definition bytes_remaining :: "data_reader \<Rightarrow> u64" where
  "bytes_remaining r = u64_sub (rd_len r) (rd_pos r)"

definition is_done_reading :: "data_reader \<Rightarrow> bool" where
  "is_done_reading r \<longleftrightarrow> rd_len r = rd_pos r"

definition can_read :: "data_reader \<Rightarrow> u64 \<Rightarrow> bool" where
  "can_read r n \<longleftrightarrow> n \<le> u64_sub (rd_len r) (rd_pos r)"

definition on_failure :: "data_reader \<Rightarrow> data_reader" where
  "on_failure r = r\<lparr>rd_pos := rd_len r\<rparr>"

definition advance_pos :: "data_reader \<Rightarrow> u64 \<Rightarrow> data_reader option" where
  "advance_pos r n = do {
     fatal_unless (rd_pos r \<le> u64_sub (2 ^ 64 - 1) n);
     fatal_unless (rd_pos r \<le> u64_sub (rd_len r) n);
     Some (r\<lparr>rd_pos := u64_add (rd_pos r) n\<rparr>)
   }"

definition truncate_remaining :: "data_reader \<Rightarrow> u64 \<Rightarrow> bool \<times> data_reader" where
  "truncate_remaining r n =
     (if bytes_remaining r < n then (False, r) else (True, r\<lparr>rd_len := u64_add (rd_pos r) n\<rparr>))"

definition peek_byte :: "data_reader \<Rightarrow> byte" where
  "peek_byte r = (if rd_len r \<le> rd_pos r then 0 else rd_data r ! rd_pos r)"

definition reader_seek :: "data_reader \<Rightarrow> u64 \<Rightarrow> bool \<times> data_reader" where
  "reader_seek r n =
     (if \<not> can_read r n then (False, on_failure r)
      else (True, r\<lparr>rd_pos := u64_add (rd_pos r) n\<rparr>))"

definition read_bytes :: "data_reader \<Rightarrow> u64 \<Rightarrow> byte list option \<times> data_reader" where
  "read_bytes r n =
     (if \<not> can_read r n then (None, on_failure r)
      else (Some (take n (drop (rd_pos r) (rd_data r))), r\<lparr>rd_pos := u64_add (rd_pos r) n\<rparr>))"

text \<open>The \<open>ReadUIntN\<close> functions: \<open>n\<close> bytes into a word, swapped from network order.\<close>

definition read_uint :: "nat \<Rightarrow> data_reader \<Rightarrow> 'a::len word option \<times> data_reader" where
  "read_uint n r =
     (case read_bytes r n of
        (None, r') \<Rightarrow> (None, r')
      | (Some bs, r') \<Rightarrow>
          (Some (if rd_order r' = NETWORK_BYTE_ORDER then byte_swap n (le_word bs) else le_word bs), r'))"

definition read_uint8 :: "data_reader \<Rightarrow> 8 word option \<times> data_reader" where
  "read_uint8 r =
     (case read_bytes r 1 of (None, r') \<Rightarrow> (None, r') | (Some bs, r') \<Rightarrow> (Some (le_word bs), r'))"

definition read_uint16 :: "data_reader \<Rightarrow> 16 word option \<times> data_reader" where
  "read_uint16 r = read_uint 2 r"

definition read_uint32 :: "data_reader \<Rightarrow> 32 word option \<times> data_reader" where
  "read_uint32 r = read_uint 4 r"

definition read_uint64 :: "data_reader \<Rightarrow> 64 word option \<times> data_reader" where
  "read_uint64 r = read_uint 8 r"

text \<open>
  \<open>ReadBytesToUInt64\<close>: in network order the bytes go to the end of the zeroed result, in
  host order to its start.
\<close>

definition read_bytes_to_uint64 :: "data_reader \<Rightarrow> u64 \<Rightarrow> 64 word option \<times> data_reader" where
  "read_bytes_to_uint64 r n =
     (if 8 < n then (None, r)
      else
        case read_bytes r n of
          (None, r') \<Rightarrow> (None, r')
        | (Some bs, r') \<Rightarrow>
            (Some (if rd_order r = HOST_BYTE_ORDER then le_word bs
                   else byte_swap 8 (le_word (replicate (8 - n) 0 @ bs))), r'))"

definition read_varint62 :: "data_reader \<Rightarrow> (64 word option \<times> data_reader) option" where
  "read_varint62 r = do {
     fatal_unless (rd_order r = NETWORK_BYTE_ORDER);
     let remaining = bytes_remaining r;
     let nxt = (\<lambda>i. rd_data r ! (rd_pos r + i));
     let b = (\<lambda>i. ucast (nxt i) :: 64 word);
     let first = (ucast (nxt 0 AND 0x3f) :: 64 word);
     if remaining = 0 then Some (None, r)
     else if nxt 0 AND 0xc0 = 0xc0 then
       (if 8 \<le> remaining then do {
          r' \<leftarrow> advance_pos r 8;
          Some (Some (push_bit 56 first + push_bit 48 (b 1) + push_bit 40 (b 2) + push_bit 32 (b 3)
                 + push_bit 24 (b 4) + push_bit 16 (b 5) + push_bit 8 (b 6) + b 7), r')
        } else Some (None, r))
     else if nxt 0 AND 0xc0 = 0x80 then
       (if 4 \<le> remaining then do {
          r' \<leftarrow> advance_pos r 4;
          Some (Some (push_bit 24 first + push_bit 16 (b 1) + push_bit 8 (b 2) + b 3), r')
        } else Some (None, r))
     else if nxt 0 AND 0xc0 = 0x40 then
       (if 2 \<le> remaining then do {
          r' \<leftarrow> advance_pos r 2;
          Some (Some (push_bit 8 first + b 1), r')
        } else Some (None, r))
     else do {
       r' \<leftarrow> advance_pos r 1;
       Some (Some first, r')
     }
   }"

text \<open>
  \<open>ReadVarInt\<close>: the first loop finds the length (\<open>k\<close> bytes are left to look at), the
  second one adds up the groups of seven bits.
\<close>

fun varint_scan :: "byte list \<Rightarrow> nat \<Rightarrow> nat \<times> bool" where
  "varint_scan [] len = (len, False)"
| "varint_scan (b # bs) len =
     (if b AND 128 = 0 then (len + 1, True)
      else if 8 < len + 1 then (len + 1, False)
      else varint_scan bs (len + 1))"

fun varint_sum :: "byte list \<Rightarrow> 64 word \<Rightarrow> 64 word \<Rightarrow> 64 word" where
  "varint_sum [] multi acc = acc"
| "varint_sum (b # bs) multi acc = varint_sum bs (multi * 128) (acc + ucast (b AND 127) * multi)"

definition read_varint :: "data_reader \<Rightarrow> (64 word option \<times> data_reader) option" where
  "read_varint r =
     (let rest = take (bytes_remaining r) (drop (rd_pos r) (rd_data r));
          (len, decodable) = varint_scan rest 0
      in if 0 < len \<and> len \<le> 8 \<and> decodable then do {
           r' \<leftarrow> advance_pos r len;
           Some (Some (varint_sum (take len rest) 1 0), r')
         } else Some (None, r))"

section \<open>Writer\<close>

record data_writer =
  wr_buffer :: "byte list"
  wr_capacity :: nat
  wr_length :: nat
  wr_order :: endianness

definition writer_new :: "byte list \<Rightarrow> nat \<Rightarrow> data_writer" where
  "writer_new buffer cap =
     \<lparr>wr_buffer = buffer, wr_capacity = cap, wr_length = 0, wr_order = NETWORK_BYTE_ORDER\<rparr>"

definition writer_remaining :: "data_writer \<Rightarrow> u64" where
  "writer_remaining w = u64_sub (wr_capacity w) (wr_length w)"

definition written :: "data_writer \<Rightarrow> byte list" where
  "written w = take (wr_length w) (wr_buffer w)"

definition kVarInt62ErrorMask :: "64 word" where
  "kVarInt62ErrorMask = 0xc000000000000000"

definition kVarInt62Mask8Bytes :: "64 word" where
  "kVarInt62Mask8Bytes = 0x3fffffffc0000000"

definition kVarInt62Mask4Bytes :: "64 word" where
  "kVarInt62Mask4Bytes = 0x000000003fffc000"

definition kVarInt62Mask2Bytes :: "64 word" where
  "kVarInt62Mask2Bytes = 0x0000000000003fc0"

definition get_varint62_len :: "64 word \<Rightarrow> nat" where
  "get_varint62_len v =
     (if v AND kVarInt62ErrorMask \<noteq> 0 then 0
      else if v AND kVarInt62Mask8Bytes \<noteq> 0 then 8
      else if v AND kVarInt62Mask4Bytes \<noteq> 0 then 4
      else if v AND kVarInt62Mask2Bytes \<noteq> 0 then 2
      else 1)"

definition get_varint_len :: "64 word \<Rightarrow> nat" where
  "get_varint_len v =
     (if v \<le> 0x7f then 1 else if v \<le> 0x3fff then 2 else if v \<le> 0x1fffff then 3
      else if v \<le> 0xfffffff then 4 else if v \<le> 0x7ffffffff then 5
      else if v \<le> 0x3ffffffffff then 6 else if v \<le> 0x1ffffffffffff then 7
      else if v \<le> 0xffffffffffffff then 8 else 0)"

definition begin_write :: "data_writer \<Rightarrow> u64 \<Rightarrow> bool" where
  "begin_write w n \<longleftrightarrow> \<not> (wr_capacity w < wr_length w) \<and> \<not> (wr_capacity w - wr_length w < n)"

text \<open>Storing bytes at the end of what is written.\<close>

definition store :: "data_writer \<Rightarrow> byte list \<Rightarrow> data_writer" where
  "store w bs = w\<lparr>wr_buffer := take (wr_length w) (wr_buffer w) @ bs @
                    drop (wr_length w + length bs) (wr_buffer w)\<rparr>"

definition increase_length :: "data_writer \<Rightarrow> u64 \<Rightarrow> data_writer option" where
  "increase_length w n = do {
     fatal_unless (wr_length w \<le> u64_sub (2 ^ 64 - 1) n);
     fatal_unless (wr_length w \<le> u64_sub (wr_capacity w) n);
     Some (w\<lparr>wr_length := u64_add (wr_length w) n\<rparr>)
   }"

definition write_bytes :: "data_writer \<Rightarrow> byte list \<Rightarrow> bool \<times> data_writer" where
  "write_bytes w bs =
     (if \<not> begin_write w (length bs) then (False, w)
      else (True, (store w bs)\<lparr>wr_length := u64_add (wr_length w) (length bs)\<rparr>))"

definition writer_seek :: "data_writer \<Rightarrow> u64 \<Rightarrow> bool \<times> data_writer" where
  "writer_seek w n =
     (if \<not> begin_write w n then (False, w) else (True, w\<lparr>wr_length := u64_add (wr_length w) n\<rparr>))"

definition write_uint :: "nat \<Rightarrow> data_writer \<Rightarrow> 'a::len word \<Rightarrow> bool \<times> data_writer" where
  "write_uint n w v =
     write_bytes w (le_bytes n (if wr_order w = NETWORK_BYTE_ORDER then byte_swap n v else v))"

definition write_uint8 :: "data_writer \<Rightarrow> 8 word \<Rightarrow> bool \<times> data_writer" where
  "write_uint8 w v = write_bytes w (le_bytes 1 v)"

definition write_uint16 :: "data_writer \<Rightarrow> 16 word \<Rightarrow> bool \<times> data_writer" where
  "write_uint16 w v = write_uint 2 w v"

definition write_uint32 :: "data_writer \<Rightarrow> 32 word \<Rightarrow> bool \<times> data_writer" where
  "write_uint32 w v = write_uint 4 w v"

definition write_uint64 :: "data_writer \<Rightarrow> 64 word \<Rightarrow> bool \<times> data_writer" where
  "write_uint64 w v = write_uint 8 w v"

definition write_bytes_to_uint64 :: "data_writer \<Rightarrow> u64 \<Rightarrow> 64 word \<Rightarrow> bool \<times> data_writer" where
  "write_bytes_to_uint64 w n v =
     (if 8 < n then (False, w)
      else if wr_order w = HOST_BYTE_ORDER then write_bytes w (take n (le_bytes 8 v))
      else write_bytes w (drop (8 - n) (le_bytes 8 (byte_swap 8 v))))"

text \<open>A run of stores \<open>*(next + i) = ...\<close> followed by \<open>IncreaseLength\<close>, when there is room.\<close>

definition put_bytes :: "data_writer \<Rightarrow> byte list \<Rightarrow> (bool \<times> data_writer) option" where
  "put_bytes w bs =
     (if length bs \<le> writer_remaining w
      then map_option (\<lambda>w'. (True, w')) (increase_length (store w bs) (length bs))
      else Some (False, w))"

definition write_varint62 :: "data_writer \<Rightarrow> 64 word \<Rightarrow> (bool \<times> data_writer) option" where
  "write_varint62 w v = do {
     fatal_unless (wr_order w = NETWORK_BYTE_ORDER);
     let byte_at = (\<lambda>i. ucast (drop_bit i v AND 0xff) :: byte);
     if v AND kVarInt62ErrorMask = 0 then
       if v AND kVarInt62Mask8Bytes \<noteq> 0 then
         put_bytes w [ucast ((drop_bit 56 v AND 0x3f) + 0xc0), byte_at 48, byte_at 40, byte_at 32,
                      byte_at 24, byte_at 16, byte_at 8, byte_at 0]
       else if v AND kVarInt62Mask4Bytes \<noteq> 0 then
         put_bytes w [ucast ((drop_bit 24 v AND 0x3f) + 0x80), byte_at 16, byte_at 8, byte_at 0]
       else if v AND kVarInt62Mask2Bytes \<noteq> 0 then
         put_bytes w [ucast ((drop_bit 8 v AND 0x3f) + 0x40), byte_at 0]
       else put_bytes w [ucast (v AND 0x3f)]
     else Some (False, w)
   }"

text \<open>\<open>WriteVarInt\<close>: the loop writes seven bits a byte, the results of the writes unused.\<close>

function write_varint_loop :: "data_writer \<Rightarrow> 64 word \<Rightarrow> data_writer" where
  "write_varint_loop w next_v =
     (let first = (ucast (next_v mod 128) :: byte);
          rest = next_v div 128
      in if 0 < rest then write_varint_loop (snd (write_uint8 w (first OR 128))) rest
         else snd (write_uint8 w first))"
  by pat_completeness auto

termination write_varint_loop
proof (relation "measure (\<lambda>(w, v). unat v)", goal_cases)
  case (2 w v first rest)
  have "unat (v div 128) = unat v div 128" by (simp add: unat_div)
  moreover have "0 < unat v"
  proof (rule ccontr)
    assume "\<not> 0 < unat v"
    then have "v = 0" by (simp add: unat_eq_0)
    then show False using 2 by simp
  qed
  ultimately show ?case using 2(2) by simp
qed simp

declare write_varint_loop.simps [simp del]

definition write_varint :: "data_writer \<Rightarrow> 64 word \<Rightarrow> bool \<times> data_writer" where
  "write_varint w v =
     (let need = get_varint_len v
      in if need = 0 \<or> writer_remaining w < need then (False, w)
         else (True, write_varint_loop w v))"

end
