(* ===== verification/Codec_Laws.thy ===== *)
theory Codec_Laws
  imports Byte_Codec
begin

text \<open>
  The laws of the byte codec.  The wire formats are stated as functions on numbers and byte
  lists (big-endian digits; the variable-length integers of RFC 9000; groups of seven bits),
  and the reader and the writer are shown to implement them; what is written reads back as
  the value it was written from, with whatever follows it left unread.
\<close>

unbundle bit_operations_syntax

section \<open>Words and numbers\<close>

lemma unat_byte: "unat (b :: byte) < 256"
  using unsigned_less [of b, where 'a = nat] by simp

lemma ucast_byte: "ucast (b :: byte) = (word_of_nat (unat b) :: 64 word)"
  using unat_byte [of b]
  by (simp add: word_eq_iff_unsigned [where 'a = nat] unsigned_ucast_eq unsigned_of_nat take_bit_eq_mod)

lemma push_byte: "push_bit n (ucast (b :: byte)) = (word_of_nat (unat b * 2 ^ n) :: 64 word)"
  by (simp only: push_bit_eq_mult ucast_byte of_nat_mult of_nat_power of_nat_numeral)

lemma and_not_mask: "w AND NOT (mask n) = push_bit n (drop_bit n (w :: 'a::len word))"
  by (rule bit_eqI) (auto simp: bit_simps)

lemma not_mask_zero: "w AND NOT (mask n) = 0 \<longleftrightarrow> unat (w :: 'a::len word) < 2 ^ n"
proof -
  have "push_bit n (drop_bit n w) = 0 \<longleftrightarrow> take_bit n w = w"
    using bits_ident [of n w] by (metis add_0 add_cancel_left_left)
  also have "\<dots> \<longleftrightarrow> take_bit n (unat w) = unat w"
    by (metis unsigned_take_bit_eq unsigned_word_eqI)
  also have "\<dots> \<longleftrightarrow> unat w < 2 ^ n" by (rule take_bit_nat_eq_self_iff)
  finally show ?thesis by (simp add: and_not_mask)
qed

lemma unat_take: "unat (take_bit n w) = unat w mod 2 ^ n" for w :: "'a::len word"
  unfolding unsigned_take_bit_eq by (rule take_bit_eq_mod)

lemma unat_drop: "unat (drop_bit n w) = unat w div 2 ^ n" for w :: "'a::len word"
  unfolding unat_drop_bit_eq by (rule drop_bit_eq_div)

lemma byte_low: "unat (b AND 0x3f :: byte) = unat b mod 64"
proof -
  have "b AND 0x3f = take_bit 6 b" by (simp add: take_bit_eq_mask mask_eq_exp_minus_1)
  then have "unat (b AND 0x3f) = unat (take_bit 6 b)" by (simp only:)
  then show ?thesis by (simp only: unat_take) simp
qed

lemma byte_high: "unat (b AND 0xc0 :: byte) = unat b div 64 * 64"
proof -
  have "0xc0 = NOT (mask 6 :: byte)" by (simp add: mask_eq_exp_minus_1)
  then have "b AND 0xc0 = push_bit 6 (drop_bit 6 b)" by (simp only: and_not_mask)
  then have "unat (b AND 0xc0) = unat b div 64 * 64 mod 256"
    by (simp only: unsigned_push_bit_eq unat_drop push_bit_eq_mult [where 'a = nat] take_bit_eq_mod [where 'a = nat]) simp
  also have "\<dots> = unat b div 64 * 64" using unat_byte [of b] by simp
  finally show ?thesis .
qed

lemma byte_tag:
  "b AND 0xc0 = 0xc0 \<longleftrightarrow> unat b div 64 = 3" "b AND 0xc0 = 0x80 \<longleftrightarrow> unat b div 64 = 2"
  "b AND 0xc0 = 0x40 \<longleftrightarrow> unat b div 64 = 1" for b :: byte
proof -
  have "b AND 0xc0 = c \<longleftrightarrow> unat b div 64 * 64 = unat c" for c :: byte
    unfolding byte_high [symmetric] by (simp add: word_eq_iff_unsigned [where 'a = nat])
  from this [of "0xc0"] this [of "0x80"] this [of "0x40"]
  show "b AND 0xc0 = 0xc0 \<longleftrightarrow> unat b div 64 = 3" "b AND 0xc0 = 0x80 \<longleftrightarrow> unat b div 64 = 2"
    "b AND 0xc0 = 0x40 \<longleftrightarrow> unat b div 64 = 1" by auto
qed

lemma word64_low: "unat (w AND 0x3f :: 64 word) = unat w mod 64" "unat (w AND 0xff :: 64 word) = unat w mod 256"
proof -
  have "w AND 0x3f = take_bit 6 w" "w AND 0xff = take_bit 8 w"
    by (simp_all add: take_bit_eq_mask mask_eq_exp_minus_1)
  then have "unat (w AND 0x3f) = unat (take_bit 6 w)" "unat (w AND 0xff) = unat (take_bit 8 w)"
    by (simp_all only:)
  then show "unat (w AND 0x3f) = unat w mod 64" "unat (w AND 0xff) = unat w mod 256"
    by (simp_all only: unat_take) simp_all
qed

lemma byte_of_nat_mod: "word_of_nat (n mod 256) = (word_of_nat n :: byte)"
  by (rule unsigned_word_eqI [where 'a = nat]) (simp add: unsigned_of_nat take_bit_eq_mod)

lemma ucast_to_byte: "ucast (w :: 64 word) = (word_of_nat (unat w) :: byte)"
  by (rule unsigned_word_eqI [where 'a = nat]) (simp add: unsigned_ucast_eq unsigned_of_nat)

section \<open>Big-endian digits\<close>

fun be_bytes :: "nat \<Rightarrow> nat \<Rightarrow> byte list" where
  "be_bytes 0 n = []"
| "be_bytes (Suc k) n = be_bytes k (n div 256) @ [word_of_nat n]"

definition be_nat :: "byte list \<Rightarrow> nat" where
  "be_nat bs = foldl (\<lambda>a b. a * 256 + unat b) 0 bs"

lemma length_be_bytes [simp]: "length (be_bytes k n) = k"
  by (induction k arbitrary: n) auto

lemma be_nat_snoc: "be_nat (bs @ [b]) = be_nat bs * 256 + unat b"
  by (simp add: be_nat_def)

lemma be_nat_Nil [simp]: "be_nat [] = 0"
  by (simp add: be_nat_def)

lemma be_nat_Cons: "be_nat (b # bs) = unat b * 256 ^ length bs + be_nat bs"
proof (induction bs rule: rev_induct)
  case (snoc c bs)
  have "be_nat (b # bs @ [c]) = be_nat (b # bs) * 256 + unat c"
    using be_nat_snoc [of "b # bs" c] by simp
  also have "\<dots> = unat b * 256 ^ length (bs @ [c]) + be_nat (bs @ [c])"
    by (simp add: snoc be_nat_snoc algebra_simps)
  finally show ?case by simp
qed (simp add: be_nat_def)

lemma be_nat_less: "be_nat bs < 256 ^ length bs"
proof (induction bs rule: rev_induct)
  case (snoc c bs)
  then have "be_nat bs * 256 + unat c < 256 * 256 ^ length bs" using unat_byte [of c] by linarith
  then show ?case by (simp add: be_nat_snoc)
qed simp

lemma be_nat_be_bytes: "be_nat (be_bytes k n) = n mod 256 ^ k"
proof (induction k arbitrary: n)
  case (Suc k)
  have "unat (word_of_nat n :: byte) = n mod 256" by (simp add: unsigned_of_nat take_bit_eq_mod)
  then show ?case
    by (simp add: be_nat_snoc Suc mod_mult2_eq)
qed simp

lemma be_bytes_nth: "i < k \<Longrightarrow> be_bytes k n ! i = word_of_nat (n div 256 ^ (k - 1 - i))"
proof (induction k arbitrary: n)
  case (Suc k)
  show ?case
  proof (cases "i = k")
    case False
    then have "i < k" using Suc.prems by simp
    then have "k - i = Suc (k - 1 - i)" by simp
    then show ?thesis
      using Suc.IH [OF \<open>i < k\<close>, of "n div 256"] \<open>i < k\<close>
      by (simp add: nth_append div_mult2_eq)
  qed (simp add: nth_append)
qed simp

section \<open>The 62-bit variable-length integer\<close>

definition varint62_len :: "nat \<Rightarrow> nat" where
  "varint62_len n = (if n < 2 ^ 6 then 1 else if n < 2 ^ 14 then 2 else if n < 2 ^ 30 then 4 else 8)"

text \<open>RFC 9000, section 16: the two most significant bits are the logarithm of the length.\<close>

definition varint62_tag :: "nat \<Rightarrow> nat" where
  "varint62_tag k = (if k = 1 then 0 else if k = 2 then 1 else if k = 4 then 2 else 3)"

definition varint62_bytes :: "nat \<Rightarrow> byte list" where
  "varint62_bytes n =
     (let k = varint62_len n in be_bytes k (n + varint62_tag k * 2 ^ (8 * k - 2)))"

definition varint62_parse :: "byte list \<Rightarrow> (nat \<times> nat) option" where
  "varint62_parse bs =
     (if bs = [] then None
      else let k = 2 ^ (unat (hd bs) div 64)
           in if length bs < k then None else Some (be_nat (take k bs) mod 2 ^ (8 * k - 2), k))"

lemma length_varint62_bytes [simp]: "length (varint62_bytes n) = varint62_len n"
  by (simp add: varint62_bytes_def Let_def)

lemma varint62_len_pos: "0 < varint62_len n"
  by (simp add: varint62_len_def)

lemma varint62_roundtrip:
  assumes "n < 2 ^ 62"
  shows "varint62_parse (varint62_bytes n @ rest) = Some (n, varint62_len n)"
proof -
  define k where "k = varint62_len n"
  define m where "m = n + varint62_tag k * 2 ^ (8 * k - 2)"
  have k: "k = 1 \<or> k = 2 \<or> k = 4 \<or> k = 8" by (auto simp: k_def varint62_len_def)
  have n: "n < 2 ^ (8 * k - 2)" using assms by (auto simp: k_def varint62_len_def)
  have ne: "be_bytes k m \<noteq> []" using k by (metis length_0_conv length_be_bytes zero_neq_numeral zero_neq_one)
  have "hd (be_bytes k m) = word_of_nat (m div 256 ^ (k - 1))"
    using be_bytes_nth [of 0 k m] k ne by (auto simp: hd_conv_nth)
  moreover have "m div 256 ^ (k - 1) < 256" "m div 256 ^ (k - 1) div 64 = varint62_tag k"
    using k n unfolding m_def varint62_tag_def by (auto simp: div_less_iff_less_mult)
  ultimately have tag: "unat (hd (be_bytes k m)) div 64 = varint62_tag k"
    by (simp add: unsigned_of_nat take_bit_eq_mod)
  have pow: "2 ^ varint62_tag k = k" using k by (auto simp: varint62_tag_def)
  have "be_nat (be_bytes k m) = m"
  proof -
    have "m < 256 ^ k" using k n unfolding m_def varint62_tag_def by auto
    then show ?thesis by (simp add: be_nat_be_bytes)
  qed
  moreover have "m mod 2 ^ (8 * k - 2) = n" using n by (simp add: m_def)
  ultimately have "varint62_parse (be_bytes k m @ rest) = Some (n, k)"
    using ne tag pow by (simp add: varint62_parse_def Let_def)
  then show ?thesis by (simp add: varint62_bytes_def Let_def k_def m_def)
qed

section \<open>Well-formed readers and writers\<close>

definition rd_ok :: "data_reader \<Rightarrow> bool" where
  "rd_ok r \<longleftrightarrow> rd_pos r \<le> rd_len r \<and> rd_len r \<le> length (rd_data r) \<and> rd_len r < 2 ^ 64"

definition unread :: "data_reader \<Rightarrow> byte list" where
  "unread r = drop (rd_pos r) (take (rd_len r) (rd_data r))"

definition skip :: "data_reader \<Rightarrow> nat \<Rightarrow> data_reader" where
  "skip r n = r\<lparr>rd_pos := rd_pos r + n\<rparr>"

definition wr_ok :: "data_writer \<Rightarrow> bool" where
  "wr_ok w \<longleftrightarrow> wr_length w \<le> wr_capacity w \<and> length (wr_buffer w) = wr_capacity w \<and> wr_capacity w < 2 ^ 64"

definition append_bytes :: "data_writer \<Rightarrow> byte list \<Rightarrow> data_writer" where
  "append_bytes w bs = (store w bs)\<lparr>wr_length := wr_length w + length bs\<rparr>"

lemma length_unread: "rd_ok r \<Longrightarrow> length (unread r) = rd_len r - rd_pos r"
  by (simp add: rd_ok_def unread_def)

lemma bytes_remaining_eq: "rd_ok r \<Longrightarrow> bytes_remaining r = length (unread r)"
  by (simp add: bytes_remaining_def length_unread rd_ok_def u64_simps)

lemma can_read_iff: "rd_ok r \<Longrightarrow> can_read r n \<longleftrightarrow> n \<le> length (unread r)"
  using bytes_remaining_eq [of r] by (simp add: can_read_def bytes_remaining_def)

lemma skip_ok: "rd_ok r \<Longrightarrow> n \<le> length (unread r) \<Longrightarrow> rd_ok (skip r n)"
  by (auto simp: rd_ok_def skip_def length_unread)

lemma unread_skip: "unread (skip r n) = drop n (unread r)"
  by (simp add: unread_def skip_def add.commute)

lemma skip_simps [simp]:
  "rd_data (skip r n) = rd_data r" "rd_len (skip r n) = rd_len r" "rd_order (skip r n) = rd_order r"
  "rd_pos (skip r n) = rd_pos r + n" "skip (skip r n) m = skip r (n + m)"
  by (simp_all add: skip_def add.assoc)

lemma nth_unread: "rd_ok r \<Longrightarrow> i < length (unread r) \<Longrightarrow> rd_data r ! (rd_pos r + i) = unread r ! i"
  by (simp add: unread_def rd_ok_def)

lemma advance_pos_eq:
  assumes "rd_ok r" "n \<le> length (unread r)"
  shows "advance_pos r n = Some (skip r n)"
proof -
  have n: "rd_pos r + n \<le> rd_len r" "rd_len r < 2 ^ 64" using assms by (auto simp: rd_ok_def length_unread)
  then have "u64_sub (2 ^ 64 - 1) n = 2 ^ 64 - 1 - n" "u64_sub (rd_len r) n = rd_len r - n"
    "u64_add (rd_pos r) n = rd_pos r + n"
    by (auto intro!: u64_sub_no_wrap u64_add_no_wrap)
  then show ?thesis using n by (auto simp: advance_pos_def skip_def)
qed

lemma append_bytes_ok:
  "wr_ok w \<Longrightarrow> wr_length w + length bs \<le> wr_capacity w \<Longrightarrow> wr_ok (append_bytes w bs)"
  by (simp add: wr_ok_def append_bytes_def store_def)

lemma written_append_bytes:
  "wr_ok w \<Longrightarrow> wr_length w + length bs \<le> wr_capacity w \<Longrightarrow> written (append_bytes w bs) = written w @ bs"
  by (simp add: written_def append_bytes_def store_def wr_ok_def)

lemma append_bytes_simps [simp]:
  "wr_length (append_bytes w bs) = wr_length w + length bs"
  "wr_capacity (append_bytes w bs) = wr_capacity w"
  "wr_order (append_bytes w bs) = wr_order w"
  by (simp_all add: append_bytes_def store_def)

lemma writer_remaining_eq: "wr_ok w \<Longrightarrow> writer_remaining w = wr_capacity w - wr_length w"
  by (simp add: writer_remaining_def wr_ok_def u64_simps)

lemma write_bytes_eq:
  assumes "wr_ok w"
  shows "write_bytes w bs =
    (if wr_length w + length bs \<le> wr_capacity w then (True, append_bytes w bs) else (False, w))"
  using assms by (auto simp: write_bytes_def begin_write_def append_bytes_def wr_ok_def u64_simps)

lemma put_bytes_eq:
  assumes "wr_ok w"
  shows "put_bytes w bs = Some
    (if wr_length w + length bs \<le> wr_capacity w then (True, append_bytes w bs) else (False, w))"
proof (cases "wr_length w + length bs \<le> wr_capacity w")
  case True
  have "u64_sub (2 ^ 64 - 1) (length bs) = 2 ^ 64 - 1 - length bs"
    "u64_sub (wr_capacity w) (length bs) = wr_capacity w - length bs"
    "u64_add (wr_length w) (length bs) = wr_length w + length bs"
    using True assms by (auto simp: wr_ok_def intro!: u64_sub_no_wrap u64_add_no_wrap)
  then show ?thesis
    using True assms writer_remaining_eq [OF assms]
    by (auto simp: put_bytes_def increase_length_def store_def append_bytes_def wr_ok_def)
next
  case False
  then show ?thesis using writer_remaining_eq [OF assms] assms by (auto simp: put_bytes_def wr_ok_def)
qed

section \<open>Writing and reading the 62-bit integers\<close>

lemma varint62_masks:
  fixes v :: "64 word"
  shows "v AND kVarInt62ErrorMask = 0 \<longleftrightarrow> unat v < 2 ^ 62"
    and "unat v < 2 ^ 62 \<Longrightarrow> v AND kVarInt62Mask8Bytes = 0 \<longleftrightarrow> unat v < 2 ^ 30"
    and "unat v < 2 ^ 30 \<Longrightarrow> v AND kVarInt62Mask4Bytes = 0 \<longleftrightarrow> unat v < 2 ^ 14"
    and "unat v < 2 ^ 14 \<Longrightarrow> v AND kVarInt62Mask2Bytes = 0 \<longleftrightarrow> unat v < 2 ^ 6"
proof -
  have masks: "kVarInt62ErrorMask = NOT (mask 62)"
    "kVarInt62Mask8Bytes OR NOT (mask 62) = NOT (mask 30)"
    "kVarInt62Mask4Bytes OR NOT (mask 30) = NOT (mask 14)"
    "kVarInt62Mask2Bytes OR NOT (mask 14) = NOT (mask 6)"
    by (simp_all add: kVarInt62ErrorMask_def kVarInt62Mask8Bytes_def kVarInt62Mask4Bytes_def
        kVarInt62Mask2Bytes_def mask_eq_exp_minus_1)
  have part: "v AND m = 0 \<longleftrightarrow> unat v < 2 ^ j"
    if "unat v < 2 ^ i" "m OR NOT (mask i) = NOT (mask j)" for m i j
  proof -
    have "v AND NOT (mask i) = 0" using that(1) by (simp add: not_mask_zero)
    then have eq: "v AND m = v AND (m OR NOT (mask i))" by (simp add: bit.conj_disj_distrib)
    show ?thesis unfolding eq that(2) by (rule not_mask_zero)
  qed
  show "v AND kVarInt62ErrorMask = 0 \<longleftrightarrow> unat v < 2 ^ 62" unfolding masks(1) by (rule not_mask_zero)
  show "unat v < 2 ^ 62 \<Longrightarrow> v AND kVarInt62Mask8Bytes = 0 \<longleftrightarrow> unat v < 2 ^ 30"
    by (rule part [OF _ masks(2)])
  show "unat v < 2 ^ 30 \<Longrightarrow> v AND kVarInt62Mask4Bytes = 0 \<longleftrightarrow> unat v < 2 ^ 14"
    by (rule part [OF _ masks(3)])
  show "unat v < 2 ^ 14 \<Longrightarrow> v AND kVarInt62Mask2Bytes = 0 \<longleftrightarrow> unat v < 2 ^ 6"
    by (rule part [OF _ masks(4)])
qed

lemma get_varint62_len_eq:
  "get_varint62_len v = (if unat v < 2 ^ 62 then varint62_len (unat v) else 0)"
proof -
  consider "2 ^ 62 \<le> unat v" | "unat v < 2 ^ 62" "2 ^ 30 \<le> unat v" | "unat v < 2 ^ 30" "2 ^ 14 \<le> unat v"
    | "unat v < 2 ^ 14" "2 ^ 6 \<le> unat v" | "unat v < 2 ^ 6" by linarith
  then show ?thesis
    by cases (simp_all add: get_varint62_len_def varint62_len_def varint62_masks not_less)
qed

lemma byte_at: "ucast (drop_bit i v AND 0xff :: 64 word) = (word_of_nat (unat v div 2 ^ i) :: byte)"
  unfolding ucast_to_byte word64_low unat_drop byte_of_nat_mod ..

lemma top_byte:
  assumes "c \<le> 192"
  shows "ucast ((drop_bit i v AND 0x3f) + of_nat c :: 64 word) =
    (word_of_nat (unat v div 2 ^ i mod 64 + c) :: byte)"
proof -
  have "unat v div 2 ^ i mod 64 < 64" by simp
  then have "unat v div 2 ^ i mod 64 + c < 2 ^ 64" using assms by simp
  then have "unat ((drop_bit i v AND 0x3f) + of_nat c :: 64 word) = unat v div 2 ^ i mod 64 + c"
    by (simp only: unat_word_ariths word64_low unat_drop) (simp add: unsigned_of_nat take_bit_eq_mod)
  then show ?thesis unfolding ucast_to_byte by (simp only:)
qed

lemma be_bytes_map: "be_bytes k n = map (\<lambda>i. word_of_nat (n div 256 ^ (k - 1 - i))) [0..<k]"
  by (rule nth_equalityI) (simp_all add: be_bytes_nth)

lemma be_bytes_explicit:
  "be_bytes 1 n = [word_of_nat n]"
  "be_bytes 2 n = [word_of_nat (n div 2 ^ 8), word_of_nat n]"
  "be_bytes 4 n = [word_of_nat (n div 2 ^ 24), word_of_nat (n div 2 ^ 16), word_of_nat (n div 2 ^ 8), word_of_nat n]"
  "be_bytes 8 n = [word_of_nat (n div 2 ^ 56), word_of_nat (n div 2 ^ 48), word_of_nat (n div 2 ^ 40),
     word_of_nat (n div 2 ^ 32), word_of_nat (n div 2 ^ 24), word_of_nat (n div 2 ^ 16),
     word_of_nat (n div 2 ^ 8), word_of_nat n]"
  unfolding be_bytes_map by (simp_all add: upt_rec)

lemma tagged_digit:
  assumes "i + 8 \<le> m"
  shows "word_of_nat ((n + t * 2 ^ m) div 2 ^ i) = (word_of_nat (n div 2 ^ i) :: byte)"
proof -
  obtain j where m: "m = i + 8 + j" using assms by (metis le_add_diff_inverse)
  have "(n + t * 2 ^ m) div 2 ^ i = (n + 2 ^ i * (256 * (t * 2 ^ j))) div 2 ^ i"
    unfolding m power_add by (simp add: algebra_simps)
  also have "\<dots> = n div 2 ^ i + 256 * (t * 2 ^ j)" by (simp add: div_mult_self2)
  finally have "(n + t * 2 ^ m) div 2 ^ i mod 256 = n div 2 ^ i mod 256" by simp
  then show ?thesis by (metis byte_of_nat_mod)
qed

lemma tagged_top:
  fixes n :: nat
  assumes "n < 2 ^ (i + 6)"
  shows "n div 2 ^ i mod 64 + t * 64 = (n + t * 2 ^ (i + 6)) div 2 ^ i"
proof -
  have "n + t * 2 ^ (i + 6) = n + 2 ^ i * (t * 64)" by (simp add: power_add algebra_simps)
  then have "(n + t * 2 ^ (i + 6)) div 2 ^ i = n div 2 ^ i + t * 64" by (simp only: div_mult_self2 zero_neq_numeral power_not_zero) simp
  moreover have "n div 2 ^ i < 64" using assms by (simp add: div_less_iff_less_mult power_add mult.commute)
  ultimately show ?thesis by simp
qed

lemma write_varint62_eq:
  fixes v :: "64 word"
  assumes w: "wr_ok w" and order: "wr_order w = NETWORK_BYTE_ORDER"
  defines "bs \<equiv> varint62_bytes (unat v)"
  shows "write_varint62 w v = Some
    (if unat v < 2 ^ 62 \<and> wr_length w + length bs \<le> wr_capacity w then (True, append_bytes w bs)
     else (False, w))"
proof -
  let ?n = "unat v"
  have tops: "ucast ((drop_bit i v AND 0x3f) + 0xc0) = (word_of_nat (?n div 2 ^ i mod 64 + 3 * 64) :: byte)"
    "ucast ((drop_bit i v AND 0x3f) + 0x80) = (word_of_nat (?n div 2 ^ i mod 64 + 2 * 64) :: byte)"
    "ucast ((drop_bit i v AND 0x3f) + 0x40) = (word_of_nat (?n div 2 ^ i mod 64 + 1 * 64) :: byte)" for i
    using top_byte [of 192 i v] top_byte [of 128 i v] top_byte [of 64 i v] by simp_all
  consider "2 ^ 62 \<le> ?n" | "?n < 2 ^ 62" "2 ^ 30 \<le> ?n" | "?n < 2 ^ 30" "2 ^ 14 \<le> ?n"
    | "?n < 2 ^ 14" "2 ^ 6 \<le> ?n" | "?n < 2 ^ 6" by linarith
  then show ?thesis
  proof cases
    case 1
    then show ?thesis using order by (simp add: write_varint62_def Let_def varint62_masks)
  next
    case 2
    have "bs = [ucast ((drop_bit 56 v AND 0x3f) + 0xc0), ucast (drop_bit 48 v AND 0xff),
        ucast (drop_bit 40 v AND 0xff), ucast (drop_bit 32 v AND 0xff), ucast (drop_bit 24 v AND 0xff),
        ucast (drop_bit 16 v AND 0xff), ucast (drop_bit 8 v AND 0xff), ucast (drop_bit 0 v AND 0xff)]"
      using tagged_digit [of 48 62 ?n 3] tagged_digit [of 40 62 ?n 3] tagged_digit [of 32 62 ?n 3]
        tagged_digit [of 24 62 ?n 3] tagged_digit [of 16 62 ?n 3] tagged_digit [of 8 62 ?n 3]
        tagged_digit [of 0 62 ?n 3] tagged_top [of ?n 56 3] 2
      unfolding byte_at tops bs_def varint62_bytes_def Let_def
      by (simp add: varint62_len_def varint62_tag_def be_bytes_explicit)
    then show ?thesis
      using 2 order put_bytes_eq [OF w, of bs] by (simp add: write_varint62_def Let_def varint62_masks)
  next
    case 3
    have "bs = [ucast ((drop_bit 24 v AND 0x3f) + 0x80), ucast (drop_bit 16 v AND 0xff),
        ucast (drop_bit 8 v AND 0xff), ucast (drop_bit 0 v AND 0xff)]"
      using tagged_digit [of 16 30 ?n 2] tagged_digit [of 8 30 ?n 2] tagged_digit [of 0 30 ?n 2]
        tagged_top [of ?n 24 2] 3
      unfolding byte_at tops bs_def varint62_bytes_def Let_def
      by (simp add: varint62_len_def varint62_tag_def be_bytes_explicit)
    then show ?thesis
      using 3 order put_bytes_eq [OF w, of bs] by (simp add: write_varint62_def Let_def varint62_masks)
  next
    case 4
    have "bs = [ucast ((drop_bit 8 v AND 0x3f) + 0x40), ucast (drop_bit 0 v AND 0xff)]"
      using tagged_digit [of 0 14 ?n 1] tagged_top [of ?n 8 1] 4
      unfolding byte_at tops bs_def varint62_bytes_def Let_def
      by (simp add: varint62_len_def varint62_tag_def be_bytes_explicit)
    then show ?thesis
      using 4 order put_bytes_eq [OF w, of bs] by (simp add: write_varint62_def Let_def varint62_masks)
  next
    case 5
    have "bs = [ucast (v AND 0x3f)]"
      using 5 unfolding ucast_to_byte word64_low bs_def varint62_bytes_def Let_def
      by (simp add: varint62_len_def varint62_tag_def be_bytes_explicit)
    then show ?thesis
      using 5 order put_bytes_eq [OF w, of bs] by (simp add: write_varint62_def Let_def varint62_masks)
  qed
qed

lemma low_part:
  fixes r :: nat
  assumes "r < 256 ^ k"
  shows "(b * 256 ^ k + r) mod (64 * 256 ^ k) = b mod 64 * 256 ^ k + r"
proof -
  have eq: "b * 256 ^ k + r = (b div 64) * (64 * 256 ^ k) + (b mod 64 * 256 ^ k + r)"
    by (metis (no_types) add.assoc add_mult_distrib div_mult_mod_eq mult.assoc)
  have "b mod 64 * 256 ^ k + r < 64 * 256 ^ k"
  proof -
    have "b mod 64 \<le> 63" by (simp add: less_Suc_eq_le [symmetric])
    then have "b mod 64 * 256 ^ k \<le> 63 * 256 ^ k" by (rule mult_right_mono) simp
    then show ?thesis using assms by linarith
  qed
  then show ?thesis unfolding eq mod_mult_self3 by (rule mod_less)
qed

lemma be_nat_tail: "be_nat (b # bs) mod 2 ^ (8 * length (b # bs) - 2) =
    unat b mod 64 * 256 ^ length bs + be_nat bs"
proof -
  have "(2::nat) ^ (8 * length (b # bs) - 2) = 64 * 256 ^ length bs"
  proof -
    have "8 * length (b # bs) - 2 = 6 + 8 * length bs" by simp
    then show ?thesis by (simp only: power_add power_mult) simp
  qed
  then show ?thesis using low_part [OF be_nat_less [of bs], of "unat b"] by (simp add: be_nat_Cons)
qed

lemma take_explicit:
  "1 \<le> length u \<Longrightarrow> take 1 u = [u ! 0]"
  "2 \<le> length u \<Longrightarrow> take 2 u = [u ! 0, u ! 1]"
  "4 \<le> length u \<Longrightarrow> take 4 u = [u ! 0, u ! 1, u ! 2, u ! 3]"
  "8 \<le> length u \<Longrightarrow> take 8 u = [u ! 0, u ! 1, u ! 2, u ! 3, u ! 4, u ! 5, u ! 6, u ! 7]"
  by (auto intro!: nth_equalityI simp: nth_Cons' less_Suc_eq numeral_eq_Suc)

lemma read_varint62_eq:
  assumes r: "rd_ok r" and order: "rd_order r = NETWORK_BYTE_ORDER"
  shows "read_varint62 r = Some
    (case varint62_parse (unread r) of None \<Rightarrow> (None, r)
     | Some (n, k) \<Rightarrow> (Some (word_of_nat n), skip r k))"
proof (cases "unread r = []")
  case True
  then show ?thesis
    using order bytes_remaining_eq [OF r] by (simp add: read_varint62_def varint62_parse_def Let_def)
next
  case False
  define u where "u = unread r"
  have len: "bytes_remaining r = length u" "0 < length u"
    using bytes_remaining_eq [OF r] False by (simp_all add: u_def)
  have nth: "rd_data r ! (rd_pos r + i) = u ! i" if "i < length u" for i
    using nth_unread [OF r] that by (simp add: u_def)
  have near: "rd_data r ! rd_pos r = u ! 0"
    "1 < length u \<Longrightarrow> rd_data r ! Suc (rd_pos r) = u ! Suc 0"
    "2 < length u \<Longrightarrow> rd_data r ! Suc (Suc (rd_pos r)) = u ! 2"
    using nth [of 0] nth [of 1] nth [of 2] len(2) by simp_all
  have hd: "hd u = u ! 0" using len(2) by (simp add: hd_conv_nth)
  have adv: "advance_pos r n = Some (skip r n)" if "n \<le> length u" for n
    using advance_pos_eq [OF r] that by (simp add: u_def)
  have first0: "ucast (u ! 0 AND 0x3f) = (word_of_nat (unat (u ! 0) mod 64) :: 64 word)"
    unfolding ucast_byte byte_low ..
  have "unat (u ! 0) div 64 < 4" using unat_byte [of "u ! 0"] by simp
  then consider (8) "unat (u ! 0) div 64 = 3" | (4) "unat (u ! 0) div 64 = 2"
    | (2) "unat (u ! 0) div 64 = 1" | (1) "unat (u ! 0) div 64 = 0" by linarith
  then show ?thesis
  proof cases
    case 8
    show ?thesis
    proof (cases "8 \<le> length u")
      case True
      have "be_nat (take 8 u) mod 2 ^ 62 = unat (u ! 0) mod 64 * 2 ^ 56 + unat (u ! 1) * 2 ^ 48 +
          unat (u ! 2) * 2 ^ 40 + unat (u ! 3) * 2 ^ 32 + unat (u ! 4) * 2 ^ 24 +
          unat (u ! 5) * 2 ^ 16 + unat (u ! 6) * 2 ^ 8 + unat (u ! 7)"
        unfolding take_explicit(4) [OF True]
        using be_nat_tail [of "u ! 0" "[u ! 1, u ! 2, u ! 3, u ! 4, u ! 5, u ! 6, u ! 7]"]
        by (simp add: be_nat_Cons)
      then have "push_bit 56 (ucast (u ! 0 AND 0x3f)) + push_bit 48 (ucast (u ! 1)) +
          push_bit 40 (ucast (u ! 2)) + push_bit 32 (ucast (u ! 3)) + push_bit 24 (ucast (u ! 4)) +
          push_bit 16 (ucast (u ! 5)) + push_bit 8 (ucast (u ! 6)) + ucast (u ! 7) =
          (word_of_nat (be_nat (take 8 u) mod 2 ^ 62) :: 64 word)"
        unfolding push_byte unfolding ucast_byte unfolding byte_low of_nat_add [symmetric] by (simp only:)
      then show ?thesis
        using 8 True order len False nth near adv [OF True] hd
        by (simp add: read_varint62_def Let_def byte_tag varint62_parse_def flip: u_def)
    qed (use 8 order len False nth near hd in
      \<open>simp add: read_varint62_def Let_def byte_tag varint62_parse_def flip: u_def\<close>)
  next
    case 4
    show ?thesis
    proof (cases "4 \<le> length u")
      case True
      have "be_nat (take 4 u) mod 2 ^ 30 = unat (u ! 0) mod 64 * 2 ^ 24 + unat (u ! 1) * 2 ^ 16 +
          unat (u ! 2) * 2 ^ 8 + unat (u ! 3)"
        unfolding take_explicit(3) [OF True]
        using be_nat_tail [of "u ! 0" "[u ! 1, u ! 2, u ! 3]"] by (simp add: be_nat_Cons)
      then have "push_bit 24 (ucast (u ! 0 AND 0x3f)) + push_bit 16 (ucast (u ! 1)) +
          push_bit 8 (ucast (u ! 2)) + ucast (u ! 3) =
          (word_of_nat (be_nat (take 4 u) mod 2 ^ 30) :: 64 word)"
        unfolding push_byte unfolding ucast_byte unfolding byte_low of_nat_add [symmetric] by (simp only:)
      then show ?thesis
        using 4 True order len False nth near adv [OF True] hd
        by (simp add: read_varint62_def Let_def byte_tag varint62_parse_def flip: u_def)
    qed (use 4 order len False nth near hd in
      \<open>simp add: read_varint62_def Let_def byte_tag varint62_parse_def flip: u_def\<close>)
  next
    case 2
    show ?thesis
    proof (cases "2 \<le> length u")
      case True
      have "be_nat (take 2 u) mod 2 ^ 14 = unat (u ! 0) mod 64 * 2 ^ 8 + unat (u ! 1)"
        unfolding take_explicit(2) [OF True]
        using be_nat_tail [of "u ! 0" "[u ! 1]"] by (simp add: be_nat_Cons)
      then have "push_bit 8 (ucast (u ! 0 AND 0x3f)) + ucast (u ! 1) =
          (word_of_nat (be_nat (take 2 u) mod 2 ^ 14) :: 64 word)"
        unfolding push_byte unfolding ucast_byte unfolding byte_low of_nat_add [symmetric] by (simp only:)
      then show ?thesis
        using 2 True order len False nth near adv [OF True] hd
        by (simp add: read_varint62_def Let_def byte_tag varint62_parse_def flip: u_def)
    qed (use 2 order len False nth near hd in
      \<open>simp add: read_varint62_def Let_def byte_tag varint62_parse_def flip: u_def\<close>)
  next
    case 1
    have one: "1 \<le> length u" using len(2) by (simp del: length_greater_0_conv add: Suc_le_eq)
    have "be_nat (take 1 u) mod 2 ^ 6 = unat (u ! 0) mod 64"
      unfolding take_explicit(1) [OF one] using be_nat_tail [of "u ! 0" "[]"] by simp
    then have "ucast (u ! 0 AND 0x3f) = (word_of_nat (be_nat (take 1 u) mod 2 ^ 6) :: 64 word)"
      unfolding first0 by (simp only:)
    then show ?thesis
      using 1 order len False nth near adv [OF one] hd one
      by (simp add: read_varint62_def Let_def byte_tag varint62_parse_def flip: u_def)
  qed
qed

section \<open>Fixed-width integers\<close>

lemma ucast_of_unat: "ucast (w :: 'a::len word) = (word_of_nat (unat w) :: byte)"
  by (rule unsigned_word_eqI [where 'a = nat])
    (simp add: unsigned_ucast_eq unsigned_of_nat)

lemma le_bytes_eq: "le_bytes n w = rev (be_bytes n (unat w))"
proof (induction n arbitrary: w)
  case (Suc n)
  have "unat (drop_bit 8 w) = unat w div 256" by (simp add: unat_drop)
  then show ?case by (simp add: Suc ucast_of_unat del: of_nat_unat)
qed simp

lemma unat_small_byte: "m < 256 \<Longrightarrow> unat (word_of_nat m :: byte) = m"
  by (simp add: unsigned_of_nat take_bit_nat_eq_self)

lemma ucast_byte_wide: "ucast (b :: byte) = (word_of_nat (unat b) :: 'a::len word)"
  by (rule unsigned_word_eqI [where 'a = nat]) (simp add: unsigned_ucast_eq unsigned_of_nat)

lemma le_word_eq: "le_word bs = (word_of_nat (be_nat (rev bs)) :: 'a::len word)"
proof (induction bs)
  case (Cons b bs)
  have "le_word (b # bs) = (word_of_nat (unat b) :: 'a word) + push_bit 8 (word_of_nat (be_nat (rev bs)))"
    by (simp only: le_word.simps ucast_byte_wide Cons.IH)
  also have "\<dots> = word_of_nat (be_nat (rev (b # bs)))"
    by (simp add: push_bit_eq_mult be_nat_snoc del: of_nat_unat)
  finally show ?case .
qed simp

lemma be_bytes_be_nat: "be_bytes (length bs) (be_nat bs) = bs"
proof (induction bs rule: rev_induct)
  case (snoc b bs)
  have "(be_nat bs * 256 + unat b) div 256 = be_nat bs" using unat_byte [of b] by simp
  moreover have "(word_of_nat (be_nat bs * 256 + unat b) :: byte) = b"
    by (subst byte_of_nat_mod [symmetric]) (use unat_byte [of b] in simp)
  ultimately show ?case using snoc by (simp add: be_nat_snoc del: of_nat_add of_nat_mult)
qed simp

lemma unat_of_be_nat:
  assumes "8 * length bs \<le> LENGTH('a)"
  shows "unat (word_of_nat (be_nat bs) :: 'a::len word) = be_nat bs"
proof -
  have "be_nat bs < 2 ^ (8 * length bs)" using be_nat_less [of bs] by (simp add: power_mult)
  also have "\<dots> \<le> 2 ^ LENGTH('a)" using assms by (simp add: power_increasing)
  finally show ?thesis by (simp add: unsigned_of_nat take_bit_nat_eq_self)
qed

lemma le_bytes_le_word:
  "8 * length bs \<le> LENGTH('a) \<Longrightarrow> le_bytes (length bs) (le_word bs :: 'a::len word) = bs"
  unfolding le_bytes_eq le_word_eq
  using unat_of_be_nat [of "rev bs", where 'a = 'a] be_bytes_be_nat [of "rev bs"] by simp

lemma length_le_bytes [simp]: "length (le_bytes n w) = n"
  by (simp add: le_bytes_eq)

text \<open>In network order the bytes on the wire are the big-endian digits.\<close>

lemma byte_swap_bytes:
  fixes v :: "'a::len word"
  assumes "8 * n \<le> LENGTH('a)"
  shows "le_bytes n (byte_swap n v) = be_bytes n (unat v)"
  using le_bytes_le_word [of "rev (le_bytes n v)", where 'a = 'a] assms
  by (simp add: byte_swap_def le_bytes_eq [of n v])

lemma byte_swap_le_word:
  assumes "8 * length bs \<le> LENGTH('a)"
  shows "byte_swap (length bs) (le_word bs :: 'a::len word) = word_of_nat (be_nat bs)"
  unfolding byte_swap_def le_bytes_le_word [OF assms] by (simp add: le_word_eq)

lemma read_bytes_eq:
  assumes "rd_ok r"
  shows "read_bytes r n = (if n \<le> length (unread r) then (Some (take n (unread r)), skip r n)
    else (None, on_failure r))"
proof -
  have "take n (drop (rd_pos r) (rd_data r)) = take n (unread r)" "u64_add (rd_pos r) n = rd_pos r + n"
    if "n \<le> length (unread r)"
  proof -
    have le: "n \<le> rd_len r - rd_pos r" using that length_unread [OF assms] by simp
    then show "take n (drop (rd_pos r) (rd_data r)) = take n (unread r)"
      by (simp add: unread_def drop_take min_def)
    have "rd_pos r + n \<le> rd_len r" using le assms by (auto simp: rd_ok_def)
    then show "u64_add (rd_pos r) n = rd_pos r + n"
      using assms by (intro u64_add_no_wrap) (simp add: rd_ok_def)
  qed
  then show ?thesis using can_read_iff [OF assms, of n] by (auto simp: read_bytes_def skip_def)
qed

lemma read_uint_eq:
  assumes r: "rd_ok r" and n: "8 * n \<le> LENGTH('a)" and order: "rd_order r = NETWORK_BYTE_ORDER"
  shows "(read_uint n r :: 'a::len word option \<times> data_reader) =
    (if n \<le> length (unread r) then (Some (word_of_nat (be_nat (take n (unread r)))), skip r n)
     else (None, on_failure r))"
proof (cases "n \<le> length (unread r)")
  case True
  let ?bs = "take n (unread r)"
  have len: "length ?bs = n" using True by simp
  have "byte_swap n (le_word ?bs :: 'a word) = word_of_nat (be_nat ?bs)"
    using byte_swap_le_word [of ?bs, where 'a = 'a] n unfolding len by simp
  then show ?thesis using True order by (simp add: read_uint_def read_bytes_eq [OF r])
qed (simp add: read_uint_def read_bytes_eq [OF r])

lemma write_uint_eq:
  fixes v :: "'a::len word"
  assumes w: "wr_ok w" and n: "8 * n \<le> LENGTH('a)" and order: "wr_order w = NETWORK_BYTE_ORDER"
  shows "write_uint n w v =
    (if wr_length w + n \<le> wr_capacity w then (True, append_bytes w (be_bytes n (unat v)))
     else (False, w))"
  using write_bytes_eq [OF w, of "be_bytes n (unat v)"] order
  by (simp add: write_uint_def byte_swap_bytes [OF n])

lemma be_uint_roundtrip:
  fixes v :: "'a::len word"
  assumes "8 * n = LENGTH('a)"
  shows "word_of_nat (be_nat (take n (be_bytes n (unat v) @ rest))) = v"
proof -
  have "(256::nat) ^ n = 2 ^ LENGTH('a)" unfolding assms [symmetric] by (simp add: power_mult)
  then have "unat v < 256 ^ n" using unsigned_less [of v, where 'a = nat] by simp
  then show ?thesis by (simp add: be_nat_be_bytes)
qed

section \<open>The base-128 integers\<close>

function varint_bytes :: "nat \<Rightarrow> byte list" where
  "varint_bytes n =
     (if n < 128 then [word_of_nat n] else word_of_nat (n mod 128 + 128) # varint_bytes (n div 128))"
  by pat_completeness auto
termination by (relation "measure id") auto

declare varint_bytes.simps [simp del]

lemma byte_flag: "unat (b AND 127 :: byte) = unat b mod 128" "b AND 128 = 0 \<longleftrightarrow> unat b < 128"
proof -
  have "b AND 127 = take_bit 7 b" by (simp add: take_bit_eq_mask mask_eq_exp_minus_1)
  then have "unat (b AND 127) = unat (take_bit 7 b)" by (simp only:)
  then show "unat (b AND 127) = unat b mod 128" by (simp only: unat_take) simp
  have "128 = NOT (mask 7 :: byte)" by (simp add: mask_eq_exp_minus_1)
  then show "b AND 128 = 0 \<longleftrightarrow> unat b < 128" using not_mask_zero [of b 7] by (simp only:) simp
qed

lemma varint_scan_bytes:
  "l + length (varint_bytes n) \<le> 9 \<Longrightarrow>
    varint_scan (varint_bytes n @ rest) l = (l + length (varint_bytes n), True)"
proof (induction n arbitrary: l rule: varint_bytes.induct)
  case (1 n)
  show ?case
  proof (cases "n < 128")
    case True
    then have "unat (word_of_nat n :: byte) < 128" by (simp add: unsigned_of_nat take_bit_eq_mod)
    then show ?thesis using True by (simp add: varint_bytes.simps [of n] byte_flag(2))
  next
    case False
    have "unat (word_of_nat (n mod 128 + 128) :: byte) = n mod 128 + 128"
      by (rule unat_small_byte) simp
    then have "\<not> (word_of_nat (n mod 128 + 128) AND 128 = (0 :: byte))" by (simp only: byte_flag(2))
    moreover have "Suc 0 \<le> length (varint_bytes (n div 128))" by (subst varint_bytes.simps) simp
    then have "\<not> 7 < l" using 1(2) False by (simp add: varint_bytes.simps [of n])
    ultimately show ?thesis
      using False 1 by (simp add: varint_bytes.simps [of n] Suc_le_eq del: of_nat_add)
  qed
qed

lemma varint_sum_bytes:
  "varint_sum (varint_bytes n) (word_of_nat m) (word_of_nat a) = word_of_nat (a + m * n)"
proof (induction n arbitrary: m a rule: varint_bytes.induct)
  case (1 n)
  show ?case
  proof (cases "n < 128")
    case True
    then have "unat (word_of_nat n AND 127 :: byte) = n"
      by (simp only: byte_flag(1)) (simp add: unsigned_of_nat take_bit_eq_mod)
    then have "ucast (word_of_nat n AND 127 :: byte) = (word_of_nat n :: 64 word)"
      by (simp only: ucast_byte)
    then show ?thesis using True by (simp add: varint_bytes.simps [of n] mult.commute)
  next
    case False
    have "unat (word_of_nat (n mod 128 + 128) :: byte) = n mod 128 + 128"
      by (rule unat_small_byte) simp
    then have "unat (word_of_nat (n mod 128 + 128) AND 127 :: byte) = n mod 128"
      by (simp only: byte_flag(1)) simp
    then have digit: "ucast (word_of_nat (n mod 128 + 128) AND 127 :: byte) = (word_of_nat (n mod 128) :: 64 word)"
      by (simp only: ucast_byte)
    have "varint_sum (varint_bytes n) (word_of_nat m) (word_of_nat a) =
        varint_sum (varint_bytes (n div 128)) (word_of_nat m * 128) (word_of_nat a + word_of_nat (n mod 128) * word_of_nat m)"
      using False digit by (simp add: varint_bytes.simps [of n] del: of_nat_add)
    also have "\<dots> = varint_sum (varint_bytes (n div 128)) (word_of_nat (m * 128)) (word_of_nat (a + n mod 128 * m))"
      by simp
    also have "\<dots> = word_of_nat (a + n mod 128 * m + m * 128 * (n div 128))"
      by (rule 1) (use False in simp)
    also have "a + n mod 128 * m + m * 128 * (n div 128) = a + m * n"
    proof -
      have "m * n = m * (128 * (n div 128) + n mod 128)" by simp
      then show ?thesis by (simp only: distrib_left mult.assoc mult.commute [of _ m])
    qed
    finally show ?thesis .
  qed
qed

lemma append_append_bytes:
  "wr_ok w \<Longrightarrow> wr_length w + length a + length b \<le> wr_capacity w \<Longrightarrow>
    append_bytes (append_bytes w a) b = append_bytes w (a @ b)"
  by (simp add: append_bytes_def store_def wr_ok_def ac_simps)

lemma byte_flagged: "n < 128 \<Longrightarrow> (word_of_nat n :: byte) OR 128 = word_of_nat (n + 128)"
proof -
  assume n: "n < 128"
  then have "unat (word_of_nat n :: byte) = n" by (intro unat_small_byte) simp
  then have "(word_of_nat n :: byte) AND 128 = 0" using n by (simp only: byte_flag(2))
  then have "(word_of_nat n :: byte) OR 128 = word_of_nat n + 128" by (rule disjunctive_add_eq_or [symmetric])
  then show ?thesis by simp
qed

lemma length_varint_bytes: "128 ^ k \<le> n \<or> k = 0 \<Longrightarrow> n < 128 ^ Suc k \<Longrightarrow> length (varint_bytes n) = Suc k"
proof (induction k arbitrary: n)
  case 0
  then show ?case by (simp add: varint_bytes.simps [of n])
next
  case (Suc k)
  then have "128 * 128 ^ k \<le> n" by simp
  moreover have "(1::nat) \<le> 128 ^ k" by simp
  ultimately have "128 \<le> n" by linarith
  moreover have "128 ^ k \<le> n div 128" "n div 128 < 128 ^ Suc k"
    using Suc.prems by (auto simp: less_eq_div_iff_mult_less_eq div_less_iff_less_mult)
  ultimately show ?case using Suc.IH [of "n div 128"] by (simp add: varint_bytes.simps [of n])
qed

lemma get_varint_len_eq:
  "get_varint_len v = (if unat v < 2 ^ 56 then length (varint_bytes (unat v)) else 0)"
proof -
  let ?n = "unat v"
  have les: "v \<le> 0x7f \<longleftrightarrow> ?n < 128 ^ 1" "v \<le> 0x3fff \<longleftrightarrow> ?n < 128 ^ 2" "v \<le> 0x1fffff \<longleftrightarrow> ?n < 128 ^ 3"
    "v \<le> 0xfffffff \<longleftrightarrow> ?n < 128 ^ 4" "v \<le> 0x7ffffffff \<longleftrightarrow> ?n < 128 ^ 5"
    "v \<le> 0x3ffffffffff \<longleftrightarrow> ?n < 128 ^ 6" "v \<le> 0x1ffffffffffff \<longleftrightarrow> ?n < 128 ^ 7"
    "v \<le> 0xffffffffffffff \<longleftrightarrow> ?n < 128 ^ 8"
    unfolding word_le_nat_alt by (simp_all, linarith+)
  consider "?n < 128 ^ 1"
    | "128 ^ 1 \<le> ?n" "?n < 128 ^ 2"
    | "128 ^ 2 \<le> ?n" "?n < 128 ^ 3"
    | "128 ^ 3 \<le> ?n" "?n < 128 ^ 4"
    | "128 ^ 4 \<le> ?n" "?n < 128 ^ 5"
    | "128 ^ 5 \<le> ?n" "?n < 128 ^ 6"
    | "128 ^ 6 \<le> ?n" "?n < 128 ^ 7"
    | "128 ^ 7 \<le> ?n" "?n < 128 ^ 8"
    | "128 ^ 8 \<le> ?n" by linarith
  then show ?thesis
  proof cases
    case 1
    then show ?thesis using length_varint_bytes [of 0 ?n] unfolding get_varint_len_def les by simp
  next
    case 2
    then show ?thesis using length_varint_bytes [of 1 ?n] unfolding get_varint_len_def les by simp
  next
    case 3
    then show ?thesis using length_varint_bytes [of 2 ?n] unfolding get_varint_len_def les by simp
  next
    case 4
    then show ?thesis using length_varint_bytes [of 3 ?n] unfolding get_varint_len_def les by simp
  next
    case 5
    then show ?thesis using length_varint_bytes [of 4 ?n] unfolding get_varint_len_def les by simp
  next
    case 6
    then show ?thesis using length_varint_bytes [of 5 ?n] unfolding get_varint_len_def les by simp
  next
    case 7
    then show ?thesis using length_varint_bytes [of 6 ?n] unfolding get_varint_len_def les by simp
  next
    case 8
    then show ?thesis using length_varint_bytes [of 7 ?n] unfolding get_varint_len_def les by simp
  next
    case 9
    then show ?thesis unfolding get_varint_len_def les by simp
  qed
qed

lemma write_varint_loop_eq:
  "wr_ok w \<Longrightarrow> wr_length w + length (varint_bytes (unat v)) \<le> wr_capacity w \<Longrightarrow>
    write_varint_loop w v = append_bytes w (varint_bytes (unat v))"
proof (induction w v rule: write_varint_loop.induct)
  case (1 w v)
  let ?n = "unat v"
  have div: "unat (v div 128) = ?n div 128" and mod: "unat (v mod 128) = ?n mod 128"
    by (simp_all add: unat_div unat_mod)
  have first: "ucast (v mod 128) = (word_of_nat (?n mod 128) :: byte)"
    unfolding ucast_of_unat mod ..
  have pos: "0 < v div 128 \<longleftrightarrow> \<not> ?n < 128"
  proof -
    have "0 < v div 128 \<longleftrightarrow> 0 < unat (v div 128)" by (simp add: word_less_nat_alt)
    then show ?thesis unfolding div by (auto simp: div_greater_zero_iff)
  qed
  have one: "le_bytes 1 b = [b]" for b :: byte by simp
  show ?case
  proof (cases "?n < 128")
    case True
    then show ?thesis
      using 1(2,3) pos first write_bytes_eq [OF 1(2), of "[word_of_nat ?n]"]
      by (simp add: write_varint_loop.simps [of w v] varint_bytes.simps [of ?n] write_uint8_def)
  next
    case False
    let ?b = "word_of_nat (?n mod 128 + 128) :: byte"
    have vb: "varint_bytes ?n = ?b # varint_bytes (?n div 128)" using False by (simp add: varint_bytes.simps [of ?n])
    have w1: "write_uint8 w (word_of_nat (?n mod 128) OR 128) = (True, append_bytes w [?b])"
      using write_bytes_eq [OF 1(2), of "[?b]"] 1(3) byte_flagged [of "?n mod 128"]
      by (simp add: write_uint8_def vb)
    have step: "write_varint_loop w v = write_varint_loop (append_bytes w [?b]) (v div 128)"
      using False pos w1 unfolding write_varint_loop.simps [of w v] Let_def first by simp
    have "write_varint_loop (append_bytes w [?b]) (v div 128) =
        append_bytes (append_bytes w [?b]) (varint_bytes (?n div 128))"
      using 1(1) [OF refl refl] False pos w1 1(2,3) append_bytes_ok [OF 1(2), of "[?b]"]
      unfolding first div by (simp add: vb)
    also have "\<dots> = append_bytes w (varint_bytes ?n)"
      using append_append_bytes [OF 1(2), of "[?b]"] 1(3) by (simp add: vb)
    finally show ?thesis using step by simp
  qed
qed

lemma write_varint_eq:
  assumes w: "wr_ok w"
  shows "write_varint w v =
    (if unat v < 2 ^ 56 \<and> wr_length w + length (varint_bytes (unat v)) \<le> wr_capacity w
     then (True, append_bytes w (varint_bytes (unat v))) else (False, w))"
proof -
  let ?n = "length (varint_bytes (unat v))"
  have pos: "?n \<noteq> 0" by (subst varint_bytes.simps) simp
  have rem: "writer_remaining w < ?n \<longleftrightarrow> \<not> wr_length w + ?n \<le> wr_capacity w"
    using writer_remaining_eq [OF w] w by (auto simp: wr_ok_def)
  show ?thesis
  proof (cases "unat v < 2 ^ 56 \<and> wr_length w + ?n \<le> wr_capacity w")
    case True
    then show ?thesis using pos rem write_varint_loop_eq [OF w, of v]
      unfolding write_varint_def Let_def get_varint_len_eq by simp
  next
    case False
    then show ?thesis using pos rem unfolding write_varint_def Let_def get_varint_len_eq by simp
  qed
qed

definition varint_parse :: "byte list \<Rightarrow> (nat \<times> nat) option" where
  "varint_parse u = (case varint_scan u 0 of (len, decodable) \<Rightarrow>
     if 0 < len \<and> len \<le> 8 \<and> decodable then Some (unat (varint_sum (take len u) 1 0), len) else None)"

lemma varint_scan_bound: "fst (varint_scan u l) \<le> l + length u"
  by (induction u l rule: varint_scan.induct) auto

lemma read_varint_eq:
  assumes r: "rd_ok r"
  shows "read_varint r = Some
    (case varint_parse (unread r) of None \<Rightarrow> (None, r)
     | Some (n, k) \<Rightarrow> (Some (word_of_nat n), skip r k))"
proof -
  have rest: "take (bytes_remaining r) (drop (rd_pos r) (rd_data r)) = unread r"
    using bytes_remaining_eq [OF r] length_unread [OF r] by (simp add: unread_def drop_take)
  obtain len ok where scan: "varint_scan (unread r) 0 = (len, ok)" by (cases "varint_scan (unread r) 0")
  then have "len \<le> length (unread r)" using varint_scan_bound [of "unread r" 0] by simp
  then show ?thesis
    using advance_pos_eq [OF r, of len] scan
    by (simp add: read_varint_def rest varint_parse_def)
qed

lemma length_varint_bytes_le: "n < 128 ^ Suc k \<Longrightarrow> length (varint_bytes n) \<le> Suc k"
proof (induction k arbitrary: n)
  case 0
  then show ?case by (simp add: varint_bytes.simps [of n])
next
  case (Suc k)
  then have "n div 128 < 128 ^ Suc k" by (simp add: div_less_iff_less_mult)
  then show ?case using Suc.IH [of "n div 128"] by (simp add: varint_bytes.simps [of n])
qed

lemma varint_roundtrip:
  assumes "n < 2 ^ 56"
  shows "varint_parse (varint_bytes n @ rest) = Some (n, length (varint_bytes n))"
proof -
  let ?len = "length (varint_bytes n)"
  have len: "?len \<le> 8" using length_varint_bytes_le [of n 7] assms by simp
  have "0 < ?len" by (subst varint_bytes.simps) simp
  moreover have "varint_scan (varint_bytes n @ rest) 0 = (?len, True)"
    using varint_scan_bytes [of 0 n rest] len by simp
  moreover have "unat (varint_sum (varint_bytes n) 1 0) = n"
    using varint_sum_bytes [of n 1 0] assms by (simp add: unsigned_of_nat take_bit_nat_eq_self)
  ultimately show ?thesis using len by (simp add: varint_parse_def)
qed

section \<open>Codecs\<close>

text \<open>
  What a framing protocol needs of the encoding of a field: a legal value is found again in
  front of whatever follows it.
\<close>

locale codec =
  fixes enc :: "'v \<Rightarrow> byte list" and dec :: "byte list \<Rightarrow> ('v \<times> nat) option" and legal :: "'v \<Rightarrow> bool"
  assumes dec_enc: "legal v \<Longrightarrow> dec (enc v @ rest) = Some (v, length (enc v))"
begin

lemma prefix_free:
  "legal v \<Longrightarrow> legal u \<Longrightarrow> enc v @ xs = enc u @ ys \<Longrightarrow> v = u \<and> xs = ys"
  using dec_enc [of v xs] dec_enc [of u ys] by auto

lemma enc_inject: "legal v \<Longrightarrow> legal u \<Longrightarrow> enc v = enc u \<Longrightarrow> v = u"
  using prefix_free [of v u "[]" "[]"] by simp

lemma list_inject:
  "\<forall>v \<in> set vs. legal v \<Longrightarrow> \<forall>u \<in> set us. legal u \<Longrightarrow> length vs = length us \<Longrightarrow>
    concat (map enc vs) @ xs = concat (map enc us) @ ys \<Longrightarrow> vs = us \<and> xs = ys"
proof (induction vs arbitrary: us)
  case (Cons v vs)
  then obtain u us' where us: "us = u # us'" by (cases us) auto
  have "enc v @ (concat (map enc vs) @ xs) = enc u @ (concat (map enc us') @ ys)"
    using Cons.prems(4) us by simp
  from prefix_free [OF _ _ this] have "v = u" "concat (map enc vs) @ xs = concat (map enc us') @ ys"
    using Cons.prems(1,2) us by simp_all
  with Cons.IH [of us'] Cons.prems(1,2,3) us show ?case by simp
qed simp

end

text \<open>Two fields one after the other.\<close>

locale codec_pair = first: codec enc1 dec1 legal1 + second: codec enc2 dec2 legal2
  for enc1 :: "'v \<Rightarrow> byte list" and dec1 legal1 and enc2 :: "'u \<Rightarrow> byte list" and dec2 legal2
begin

lemma pair_dec:
  assumes "legal1 v" "legal2 u"
  shows "dec1 (enc1 v @ enc2 u @ rest) = Some (v, length (enc1 v))"
    "dec2 (drop (length (enc1 v)) (enc1 v @ enc2 u @ rest)) = Some (u, length (enc2 u))"
  using first.dec_enc [OF assms(1)] second.dec_enc [OF assms(2)] by simp_all

lemma pair_prefix_free:
  "legal1 v \<Longrightarrow> legal1 v' \<Longrightarrow> legal2 u \<Longrightarrow> legal2 u' \<Longrightarrow>
    enc1 v @ enc2 u @ xs = enc1 v' @ enc2 u' @ ys \<Longrightarrow> v = v' \<and> u = u' \<and> xs = ys"
  using first.prefix_free [of v v'] second.prefix_free [of u u' xs ys] by blast

end

interpretation varint62: codec varint62_bytes varint62_parse "\<lambda>n. n < 2 ^ 62"
proof
  fix v :: nat and rest
  assume "v < 2 ^ 62"
  from varint62_roundtrip [OF this, of rest]
  show "varint62_parse (varint62_bytes v @ rest) = Some (v, length (varint62_bytes v))"
    unfolding length_varint62_bytes .
qed

interpretation varint: codec varint_bytes varint_parse "\<lambda>n. n < 2 ^ 56"
  by unfold_locales (rule varint_roundtrip)

interpretation varint62_pair: codec_pair varint62_bytes varint62_parse "\<lambda>n. n < 2 ^ 62"
    varint62_bytes varint62_parse "\<lambda>n. n < 2 ^ 62"
  by unfold_locales

end
