(* ===== verification/Codec_Properties.thy ===== *)
theory Codec_Properties
  imports Codec_Laws
begin

text \<open>
  The properties of \<open>DataWriter\<close> and \<open>DataReader\<close>: what each \<open>Write\<close> function appends
  and when it refuses, and that the matching \<open>Read\<close> function finds the value in front of
  anything that follows.  \<open>sample_writer\<close> and the readers of the instances have sixteen bytes.
\<close>

definition sample_writer :: data_writer where
  "sample_writer = writer_new (replicate 16 0) 16"

lemma sample_writer_ok: "wr_ok sample_writer" "wr_order sample_writer = NETWORK_BYTE_ORDER"
  "wr_length sample_writer = 0" "wr_capacity sample_writer = 16"
  by (simp_all add: sample_writer_def writer_new_def wr_ok_def)

text \<open>A reader on received bytes.\<close>

lemma reader_new_ok:
  assumes "length data < 2 ^ 64"
  shows "rd_ok (reader_new data (length data))" "unread (reader_new data (length data)) = data"
    "rd_order (reader_new data (length data)) = NETWORK_BYTE_ORDER"
  using assms by (simp_all add: reader_new_def rd_ok_def unread_def)

section \<open>Variable-length integers\<close>

text \<open>
  \<open>WriteVarInt62\<close> appends the encoding of RFC 9000 (the shortest of 1, 2, 4 or 8 bytes,
  big endian, the length in the two top bits) iff the value has at most 62 bits and the bytes
  fit, and else leaves the writer alone; \<open>GetVarInt62Len\<close> is the length written.
\<close>

theorem write_varint62_spec:
  assumes "wr_ok w" "wr_order w = NETWORK_BYTE_ORDER"
  shows "if unat v < 2 ^ 62 \<and> wr_length w + get_varint62_len v \<le> wr_capacity w
    then \<exists>w'. write_varint62 w v = Some (True, w') \<and> wr_ok w' \<and>
      written w' = written w @ varint62_bytes (unat v) \<and>
      length (varint62_bytes (unat v)) = get_varint62_len v
    else write_varint62 w v = Some (False, w)"
  using assms write_varint62_eq [OF assms, of v] append_bytes_ok [of w "varint62_bytes (unat v)"]
    written_append_bytes [of w "varint62_bytes (unat v)"]
  by (auto simp: get_varint62_len_eq)

theorem write_varint62_spec_witness:
  "\<exists>w'. write_varint62 sample_writer 15293 = Some (True, w') \<and> written w' = varint62_bytes 15293"
proof -
  have "unat (15293 :: 64 word) = 15293" "get_varint62_len 15293 = 2"
    by (simp_all add: get_varint62_len_eq varint62_len_def)
  then show ?thesis
    using write_varint62_spec [OF sample_writer_ok(1,2), of 15293] sample_writer_ok
    by (auto simp: written_def)
qed

text \<open>
  reading back: \<open>ReadVarInt62\<close> on the encoding of a value of at most 62 bits followed by
  anything returns the value and stands at the first byte after it.
\<close>

theorem varint62_read_back:
  assumes "unat v < 2 ^ 62" "length (varint62_bytes (unat v) @ rest) < 2 ^ 64"
  shows "\<exists>r'. read_varint62 (reader_new (varint62_bytes (unat v) @ rest)
      (length (varint62_bytes (unat v) @ rest))) = Some (Some v, r') \<and>
    rd_ok r' \<and> unread r' = rest"
proof -
  let ?data = "varint62_bytes (unat v) @ rest"
  note rd = reader_new_ok [OF assms(2)]
  show ?thesis
    unfolding read_varint62_eq [OF rd(1,3)] rd(2) varint62_roundtrip [OF assms(1)]
    using skip_ok [OF rd(1), of "varint62_len (unat v)"] rd(2)
    by (auto simp: unread_skip simp flip: length_varint62_bytes)
qed

theorem varint62_read_back_witness:
  "\<exists>r'. read_varint62 (reader_new (varint62_bytes 494878333 @ [1, 2]) 6) = Some (Some 494878333, r') \<and> unread r' = [1, 2]"
proof -
  have v: "unat (494878333 :: 64 word) = 494878333" by simp
  have len: "length (varint62_bytes 494878333 @ [1, 2 :: byte]) = 6"
    by (simp add: varint62_len_def)
  show ?thesis using varint62_read_back [of 494878333 "[1, 2]"] unfolding v len by auto
qed

text \<open>
  \<open>ReadVarInt62\<close> on any bytes: no bytes at all or fewer than the length in the two top
  bits of the first one promises, and it fails and does not move; else it returns the
  big-endian number without these two bits and moves past it.  It accepts encodings that are
  not the shortest one.
\<close>

theorem read_varint62_spec:
  assumes "rd_ok r" "rd_order r = NETWORK_BYTE_ORDER"
  shows "case unread r of
      [] \<Rightarrow> read_varint62 r = Some (None, r)
    | b # _ \<Rightarrow> let k = 2 ^ (unat b div 64) in
        if length (unread r) < k then read_varint62 r = Some (None, r)
        else read_varint62 r =
          Some (Some (word_of_nat (be_nat (take k (unread r)) mod 2 ^ (8 * k - 2))), skip r k)"
  using read_varint62_eq [OF assms] by (simp add: varint62_parse_def Let_def split: list.splits)

theorem read_varint62_spec_witness:
  "read_varint62 (reader_new [0x40] 1) = Some (None, reader_new [0x40] 1)"
  using read_varint62_spec [of "reader_new [0x40] 1"] reader_new_ok [of "[0x40]"] by simp

text \<open>
  The base-128 integers: \<open>WriteVarInt\<close> appends seven bits a byte, least significant
  first, iff the value is below 2^56 and the bytes fit, \<open>GetVarIntLen\<close> is their number, and
  \<open>ReadVarInt\<close> finds the value again in front of anything.
\<close>

theorem varint_spec:
  assumes w: "wr_ok w" and len: "length (varint_bytes (unat v) @ rest) < 2 ^ 64"
  shows "if unat v < 2 ^ 56 \<and> wr_length w + get_varint_len v \<le> wr_capacity w
    then \<exists>w' r'. write_varint w v = (True, w') \<and> written w' = written w @ varint_bytes (unat v) \<and>
      length (varint_bytes (unat v)) = get_varint_len v \<and>
      read_varint (reader_new (varint_bytes (unat v) @ rest) (length (varint_bytes (unat v) @ rest))) =
        Some (Some v, r') \<and> unread r' = rest
    else write_varint w v = (False, w)"
proof (cases "unat v < 2 ^ 56 \<and> wr_length w + get_varint_len v \<le> wr_capacity w")
  case True
  then have lt: "unat v < 2 ^ 56" by simp
  from lt have glen: "get_varint_len v = length (varint_bytes (unat v))" by (simp add: get_varint_len_eq)
  with True have fits: "wr_length w + length (varint_bytes (unat v)) \<le> wr_capacity w" by simp
  note rd = reader_new_ok [OF len]
  have "varint_parse (varint_bytes (unat v) @ rest) = Some (unat v, length (varint_bytes (unat v)))"
    by (rule varint_roundtrip [OF lt])
  then have read: "read_varint (reader_new (varint_bytes (unat v) @ rest) (length (varint_bytes (unat v) @ rest))) =
      Some (Some v, skip (reader_new (varint_bytes (unat v) @ rest) (length (varint_bytes (unat v) @ rest)))
        (length (varint_bytes (unat v))))"
    unfolding read_varint_eq [OF rd(1)] rd(2) by simp
  have "write_varint w v = (True, append_bytes w (varint_bytes (unat v)))"
    using lt fits write_varint_eq [OF w, of v] by simp
  moreover have "written (append_bytes w (varint_bytes (unat v))) = written w @ varint_bytes (unat v)"
    by (rule written_append_bytes [OF w fits])
  ultimately show ?thesis using glen lt fits read rd(2) by (simp add: unread_skip)
next
  case False
  then have "\<not> (unat v < 2 ^ 56 \<and> wr_length w + length (varint_bytes (unat v)) \<le> wr_capacity w)"
    by (auto simp: get_varint_len_eq)
  then show ?thesis using write_varint_eq [OF w, of v] False by simp
qed

theorem varint_spec_witness:
  "\<exists>w'. write_varint sample_writer 300 = (True, w') \<and> written w' = varint_bytes 300"
proof -
  have "unat (300 :: 64 word) = 300" "get_varint_len 300 = 2" "length (varint_bytes 300) < 2 ^ 64"
    using length_varint_bytes_le [of 300 1] by (simp_all add: get_varint_len_def)
  then show ?thesis
    using varint_spec [OF sample_writer_ok(1), of 300 "[]"] sample_writer_ok
    by (auto simp: written_def)
qed

section \<open>Fixed-width integers\<close>

text \<open>
  the fixed-width integers in network order: writing appends the big-endian bytes iff they
  fit, and reading them back in front of anything returns the value; a read of more bytes
  than there are fails and moves the reader to its end.
\<close>

theorem uint32_spec:
  assumes w: "wr_ok w" "wr_order w = NETWORK_BYTE_ORDER" and len: "length data < 2 ^ 64"
  shows "(if wr_length w + 4 \<le> wr_capacity w
      then \<exists>w'. write_uint32 w v = (True, w') \<and> written w' = written w @ be_bytes 4 (unat v)
      else write_uint32 w v = (False, w)) \<and>
    (if 4 \<le> length data
      then \<exists>r'. read_uint32 (reader_new data (length data)) =
          (Some (word_of_nat (be_nat (take 4 data))), r') \<and> unread r' = drop 4 data
      else \<exists>r'. read_uint32 (reader_new data (length data)) = (None, r') \<and> unread r' = []) \<and>
    (word_of_nat (be_nat (take 4 (be_bytes 4 (unat v) @ rest))) :: 32 word) = v"
proof -
  note rd = reader_new_ok [OF len]
  have "4 \<le> length data \<Longrightarrow> read_uint32 (reader_new data (length data)) =
      (Some (word_of_nat (be_nat (take 4 data))), skip (reader_new data (length data)) 4)"
    "\<not> 4 \<le> length data \<Longrightarrow> read_uint32 (reader_new data (length data)) =
      (None, on_failure (reader_new data (length data)))"
    using read_uint_eq [OF rd(1) _ rd(3), of 4, where 'a = 32] unfolding rd(2)
    by (simp_all add: read_uint32_def)
  moreover have "unread (on_failure (reader_new data (length data))) = []"
    by (simp add: unread_def on_failure_def reader_new_def)
  moreover have "(word_of_nat (be_nat (take 4 (be_bytes 4 (unat v) @ rest))) :: 32 word) = v"
    by (rule be_uint_roundtrip) simp
  ultimately show ?thesis
    using write_uint_eq [OF w(1) _ w(2), of 4 v] written_append_bytes [OF w(1), of "be_bytes 4 (unat v)"] rd(2)
    by (simp add: write_uint32_def unread_skip)
qed

theorem uint32_spec_witness:
  "\<exists>w'. write_uint32 sample_writer 0xdeadbeef = (True, w') \<and> written w' = be_bytes 4 0xdeadbeef"
  using uint32_spec [OF sample_writer_ok(1,2), of "[]" "0xdeadbeef"] sample_writer_ok
  by (auto simp: written_def)

end
