(* ===== verification/Base_Time.thy ===== *)
theory Base_Time
  imports Prelude "HOL-Library.Signed_Division"
begin

text \<open>
  Time, bandwidth and alarms: \<open>QuicTime\<close>, \<open>QuicTime::Delta\<close> and \<open>QuicWallTime\<close>
  (\<open>base/base_time.h\<close>, \<open>base/base_time.cc\<close>), \<open>QuicBandwidth\<close>
  (\<open>tpproxy/bandwidth.h\<close>), \<open>BaseAlarm\<close> (\<open>base/base_alarm.cc\<close>) and its
  implementation on the epoll server (\<open>base/base_epoll_alarm_factory.cc\<close>).  Signed 64-bit
  values are \<^typ>\<open>int\<close> (their overflow is undefined in C++ and is not modelled), unsigned
  ones are \<^typ>\<open>u64\<close> with the wrap-around written out.
\<close>

section \<open>Conversions between signed and unsigned\<close>

definition to_uint64 :: "int \<Rightarrow> u64" where
  "to_uint64 i = nat (i mod 2 ^ 64)"

definition to_int64 :: "u64 \<Rightarrow> int" where
  "to_int64 n = (let m = int (n mod 2 ^ 64) in if m < 2 ^ 63 then m else m - 2 ^ 64)"

text \<open>The conversion to \<open>int\<close> of a value of 64 bits.\<close>

definition to_int32 :: "int \<Rightarrow> int" where
  "to_int32 i = (i + 2 ^ 31) mod 2 ^ 32 - 2 ^ 31"

section \<open>Intervals and points of time, in microseconds\<close>

type_synonym time_delta = int

type_synonym quic_time = int

definition kQuicInfiniteTimeUs :: int where
  "kQuicInfiniteTimeUs = 2 ^ 63 - 1"

definition delta_from_seconds :: "int \<Rightarrow> time_delta" where
  "delta_from_seconds secs = secs * 1000 * 1000"

definition delta_from_milliseconds :: "int \<Rightarrow> time_delta" where
  "delta_from_milliseconds ms = ms * 1000"

definition delta_to_seconds :: "time_delta \<Rightarrow> int" where
  "delta_to_seconds d = d sdiv 1000 sdiv 1000"

definition delta_to_milliseconds :: "time_delta \<Rightarrow> int" where
  "delta_to_milliseconds d = d sdiv 1000"

definition time_is_initialized :: "quic_time \<Rightarrow> bool" where
  "time_is_initialized t \<longleftrightarrow> 0 \<noteq> t"

section \<open>Wall time\<close>

type_synonym wall_time = u64

definition from_unix_seconds :: "u64 \<Rightarrow> wall_time" where
  "from_unix_seconds s = (s * 1000000) mod 2 ^ 64"

definition to_unix_seconds :: "wall_time \<Rightarrow> u64" where
  "to_unix_seconds t = t div 1000000"

definition wall_is_after :: "wall_time \<Rightarrow> wall_time \<Rightarrow> bool" where
  "wall_is_after t other \<longleftrightarrow> other < t"

definition wall_is_before :: "wall_time \<Rightarrow> wall_time \<Rightarrow> bool" where
  "wall_is_before t other \<longleftrightarrow> t < other"

definition wall_is_zero :: "wall_time \<Rightarrow> bool" where
  "wall_is_zero t \<longleftrightarrow> t = 0"

definition absolute_difference :: "wall_time \<Rightarrow> wall_time \<Rightarrow> time_delta" where
  "absolute_difference t other =
     (let d = (if other < t then u64_sub t other else u64_sub other t);
          d' = (if 2 ^ 63 - 1 < d then 2 ^ 63 - 1 else d)
      in to_int64 d')"

definition wall_add :: "wall_time \<Rightarrow> time_delta \<Rightarrow> wall_time" where
  "wall_add t delta =
     (let m = u64_add t (to_uint64 delta) in if m < t then 2 ^ 64 - 1 else m)"

definition wall_subtract :: "wall_time \<Rightarrow> time_delta \<Rightarrow> wall_time" where
  "wall_subtract t delta =
     (let m = u64_sub t (to_uint64 delta) in if t < m then 0 else m)"

lemma to_uint64_nonneg: "0 \<le> d \<Longrightarrow> d < 2 ^ 63 \<Longrightarrow> to_uint64 d = nat d"
  by (simp add: to_uint64_def)

lemma to_uint64_neg: "- (2 ^ 63) \<le> d \<Longrightarrow> d < 0 \<Longrightarrow> to_uint64 d = 2 ^ 64 - nat (- d)"
proof -
  assume d: "- (2 ^ 63) \<le> d" "d < 0"
  have "d mod 2 ^ 64 = d + 2 ^ 64" using d mod_pos_pos_trivial [of "d + 2 ^ 64" "2 ^ 64"] by simp
  then show ?thesis using d by (simp add: to_uint64_def nat_add_distrib nat_diff_distrib' algebra_simps)
qed

text \<open>Saturating addition and subtraction of an interval that is not negative.\<close>

lemma wall_add_nonneg:
  assumes "t < 2 ^ 64" "0 \<le> d" "d < 2 ^ 63"
  shows "wall_add t d = min (t + nat d) (2 ^ 64 - 1)"
proof (cases "t + nat d < 2 ^ 64")
  case True
  then show ?thesis using assms by (simp add: wall_add_def to_uint64_nonneg u64_simps Let_def)
next
  case False
  have "u64_add t (nat d) = t + nat d - 2 ^ 64"
    unfolding u64_add_def using False assms by (intro mod_nat_eqI) auto
  then show ?thesis using assms False by (simp add: wall_add_def to_uint64_nonneg Let_def)
qed

lemma wall_subtract_nonneg:
  assumes "t < 2 ^ 64" "0 \<le> d" "d < 2 ^ 63"
  shows "wall_subtract t d = t - nat d"
proof (cases "nat d \<le> t")
  case True
  then show ?thesis using assms by (auto simp: wall_subtract_def to_uint64_nonneg u64_simps Let_def)
next
  case False
  have "nat d < 2 ^ 64" using assms by simp
  then have "u64_sub t (nat d) = t + (2 ^ 64 - nat d)"
    using False by (simp add: u64_sub_def)
  then show ?thesis using assms False by (simp add: wall_subtract_def to_uint64_nonneg Let_def)
qed

text \<open>A negative interval is not added but saturates.\<close>

lemma wall_add_negative:
  assumes "0 < t" "t < 2 ^ 64" "- int t \<le> d" "- (2 ^ 63) \<le> d" "d < 0"
  shows "wall_add t d = 2 ^ 64 - 1"
proof -
  have "to_uint64 d = 2 ^ 64 - nat (- d)" using assms by (intro to_uint64_neg) auto
  moreover have "u64_add t (2 ^ 64 - nat (- d)) = t - nat (- d)"
    unfolding u64_add_def using assms by (intro mod_nat_eqI) auto
  ultimately show ?thesis using assms by (simp add: wall_add_def Let_def)
qed

lemma absolute_difference_eq:
  assumes "t < 2 ^ 64" "u < 2 ^ 64"
  shows "absolute_difference t u = min \<bar>int t - int u\<bar> (2 ^ 63 - 1)"
proof -
  have "absolute_difference t u = to_int64 (min (if u < t then t - u else u - t) (2 ^ 63 - 1))"
    using assms by (auto simp: absolute_difference_def u64_simps Let_def min_def)
  also have "\<dots> = int (min (if u < t then t - u else u - t) (2 ^ 63 - 1))"
    by (simp add: to_int64_def Let_def)
  also have "\<dots> = min \<bar>int t - int u\<bar> (2 ^ 63 - 1)" by (auto simp: min_def)
  finally show ?thesis .
qed

section \<open>Bandwidth, in bits per second\<close>

type_synonym quic_bandwidth = int

text \<open>The constructor: never negative.\<close>

definition bandwidth :: "int \<Rightarrow> quic_bandwidth" where
  "bandwidth bits_per_second = (if 0 \<le> bits_per_second then bits_per_second else 0)"

definition bw_from_kbits_per_second :: "int \<Rightarrow> quic_bandwidth" where
  "bw_from_kbits_per_second k = bandwidth (k * 1000)"

definition bw_from_bytes_per_second :: "int \<Rightarrow> quic_bandwidth" where
  "bw_from_bytes_per_second b = bandwidth (b * 8)"

definition bw_from_kbytes_per_second :: "int \<Rightarrow> quic_bandwidth" where
  "bw_from_kbytes_per_second k = bandwidth (k * 8000)"

text \<open>The product is computed in \<open>uint64_t\<close> and stored in an \<open>int64_t\<close>; a zero interval traps.\<close>

definition bw_from_bytes_and_time_delta :: "u64 \<Rightarrow> time_delta \<Rightarrow> quic_bandwidth option" where
  "bw_from_bytes_and_time_delta bytes delta =
     (if bytes = 0 then Some (bandwidth 0)
      else
        let num_micro_bits = to_int64 (8 * bytes * 1000000)
        in if num_micro_bits < delta then Some (bandwidth 1)
           else if delta = 0 then None
           else Some (bandwidth (num_micro_bits sdiv delta)))"

definition bw_to_kbits_per_second :: "quic_bandwidth \<Rightarrow> int" where
  "bw_to_kbits_per_second b = b sdiv 1000"

definition bw_to_bytes_per_second :: "quic_bandwidth \<Rightarrow> int" where
  "bw_to_bytes_per_second b = b sdiv 8"

definition bw_to_kbytes_per_second :: "quic_bandwidth \<Rightarrow> int" where
  "bw_to_kbytes_per_second b = b sdiv 8000"

definition bw_to_bytes_per_period :: "quic_bandwidth \<Rightarrow> time_delta \<Rightarrow> u64" where
  "bw_to_bytes_per_period b period = to_uint64 ((b * period) sdiv 8) div 1000000"

definition bw_transfer_time :: "quic_bandwidth \<Rightarrow> u64 \<Rightarrow> time_delta" where
  "bw_transfer_time b bytes =
     (if b = 0 then 0 else to_int64 ((bytes * 8 * 1000000) mod 2 ^ 64 div to_uint64 b))"

definition bw_add :: "quic_bandwidth \<Rightarrow> quic_bandwidth \<Rightarrow> quic_bandwidth" where
  "bw_add lhs rhs = bandwidth (lhs + rhs)"

definition bw_sub :: "quic_bandwidth \<Rightarrow> quic_bandwidth \<Rightarrow> quic_bandwidth" where
  "bw_sub lhs rhs = bandwidth (lhs - rhs)"

lemma bandwidth_nonneg: "0 \<le> bandwidth b"
  by (simp add: bandwidth_def)

text \<open>The measured rate: bytes times eight over seconds, rounded down, at least one.\<close>

lemma bw_from_bytes_and_time_delta_eq:
  assumes "0 < bytes" "8 * bytes * 1000000 < 2 ^ 63" "0 < delta"
  shows "bw_from_bytes_and_time_delta bytes delta =
    Some (max 1 (int bytes * 8000000 div delta))"
proof -
  have n: "to_int64 (8 * bytes * 1000000) = int bytes * 8000000"
    using assms(2) by (simp add: to_int64_def Let_def)
  show ?thesis
  proof (cases "int bytes * 8000000 < delta")
    case True
    then have "int bytes * 8000000 div delta = 0" by (simp add: div_pos_pos_trivial)
    then show ?thesis using True assms n by (simp add: bw_from_bytes_and_time_delta_def bandwidth_def)
  next
    case False
    then have "1 \<le> int bytes * 8000000 div delta" using assms by (simp add: int_one_le_iff_zero_less pos_imp_zdiv_pos_iff)
    moreover have "int bytes * 8000000 sdiv delta = int bytes * 8000000 div delta"
      using assms by (simp add: signed_divide_int_def sgn_if)
    ultimately show ?thesis
      using False assms n by (simp add: bw_from_bytes_and_time_delta_def bandwidth_def)
  qed
qed

section \<open>Alarms\<close>

text \<open>
  The state of an alarm is its deadline (zero when it is not set) and, in the epoll server,
  the time it is registered for.  \<open>None\<close> where a \<open>DCHECK\<close> fails.  The second field is what the maps of the
  server say of the alarm: \<open>Epoll_Alarms\<close> models \<open>QuicEpollAlarm\<close> on these maps, and \<open>Epoll_Properties\<close> proves
  that its operations refine the ones here.
\<close>

record base_alarm =
  alarm_deadline :: quic_time
  alarm_registered :: "quic_time option"

definition alarm_new :: base_alarm where
  "alarm_new = \<lparr>alarm_deadline = 0, alarm_registered = None\<rparr>"

definition alarm_is_set :: "base_alarm \<Rightarrow> bool" where
  "alarm_is_set a \<longleftrightarrow> time_is_initialized (alarm_deadline a)"

definition alarm_set_impl :: "base_alarm \<Rightarrow> base_alarm option" where
  "alarm_set_impl a =
     (if \<not> time_is_initialized (alarm_deadline a) \<or> alarm_registered a \<noteq> None then None
      else Some (a\<lparr>alarm_registered := Some (alarm_deadline a)\<rparr>))"

definition alarm_cancel_impl :: "base_alarm \<Rightarrow> base_alarm option" where
  "alarm_cancel_impl a =
     (if time_is_initialized (alarm_deadline a) then None else Some (a\<lparr>alarm_registered := None\<rparr>))"

definition alarm_update_impl :: "base_alarm \<Rightarrow> base_alarm option" where
  "alarm_update_impl a =
     (if \<not> time_is_initialized (alarm_deadline a) then None
      else Some (a\<lparr>alarm_registered := Some (alarm_deadline a)\<rparr>))"

definition alarm_set :: "base_alarm \<Rightarrow> quic_time \<Rightarrow> base_alarm option" where
  "alarm_set a new_deadline =
     (if alarm_is_set a \<or> \<not> time_is_initialized new_deadline then None
      else alarm_set_impl (a\<lparr>alarm_deadline := new_deadline\<rparr>))"

definition alarm_cancel :: "base_alarm \<Rightarrow> base_alarm option" where
  "alarm_cancel a =
     (if \<not> alarm_is_set a then Some a else alarm_cancel_impl (a\<lparr>alarm_deadline := 0\<rparr>))"

definition alarm_update :: "base_alarm \<Rightarrow> quic_time \<Rightarrow> time_delta \<Rightarrow> base_alarm option" where
  "alarm_update a new_deadline granularity =
     (if \<not> time_is_initialized new_deadline then alarm_cancel a
      else if \<bar>new_deadline - alarm_deadline a\<bar> < granularity then Some a
      else
        let was_set = alarm_is_set a;
            a' = a\<lparr>alarm_deadline := new_deadline\<rparr>
        in if was_set then alarm_update_impl a' else alarm_set_impl a')"

text \<open>
  The epoll server's callback: the registration is gone, then \<open>Fire\<close>; the flag tells
  whether the delegate is called.
\<close>

definition alarm_fire :: "base_alarm \<Rightarrow> bool \<times> base_alarm" where
  "alarm_fire a =
     (if \<not> alarm_is_set a then (False, a) else (True, a\<lparr>alarm_deadline := 0\<rparr>))"

definition alarm_on_epoll :: "base_alarm \<Rightarrow> bool \<times> base_alarm" where
  "alarm_on_epoll a = alarm_fire (a\<lparr>alarm_registered := None\<rparr>)"

text \<open>An alarm is registered for its deadline, and not registered when it has none.\<close>

definition alarm_inv :: "base_alarm \<Rightarrow> bool" where
  "alarm_inv a \<longleftrightarrow> alarm_registered a = (if alarm_deadline a = 0 then None else Some (alarm_deadline a))"

lemmas alarm_defs = alarm_inv_def alarm_set_def alarm_cancel_def alarm_update_def alarm_fire_def
  alarm_on_epoll_def alarm_set_impl_def alarm_cancel_impl_def alarm_update_impl_def alarm_is_set_def
  time_is_initialized_def

lemma alarm_cancel_inv: "alarm_inv a \<Longrightarrow> \<exists>a'. alarm_cancel a = Some a' \<and> alarm_inv a' \<and> alarm_deadline a' = 0"
  by (auto simp: alarm_defs)

lemma alarm_update_inv:
  "alarm_inv a \<Longrightarrow> \<exists>a'. alarm_update a t g = Some a' \<and> alarm_inv a' \<and>
    alarm_deadline a' = (if t = 0 then 0 else if \<bar>t - alarm_deadline a\<bar> < g then alarm_deadline a else t)"
  by (auto simp: alarm_defs Let_def)

lemma alarm_set_inv:
  "alarm_inv a \<Longrightarrow> alarm_deadline a = 0 \<Longrightarrow> t \<noteq> 0 \<Longrightarrow>
    \<exists>a'. alarm_set a t = Some a' \<and> alarm_inv a' \<and> alarm_deadline a' = t"
  by (auto simp: alarm_defs)

lemma alarm_on_epoll_inv:
  "alarm_inv a \<Longrightarrow> alarm_inv (snd (alarm_on_epoll a)) \<and> alarm_deadline (snd (alarm_on_epoll a)) = 0 \<and>
    (fst (alarm_on_epoll a) \<longleftrightarrow> alarm_deadline a \<noteq> 0)"
  by (auto simp: alarm_defs)

end
