(* ===== verification/Interval_Budget.thy ===== *)
theory Interval_Budget
  imports Prelude "HOL-Library.Signed_Division"
begin

text \<open>
  \<open>IntervalBudget\<close> (\<open>tpproxy/interval_budget.cc\<close>): the byte budget that paces a
  connection.  The fields of type \<open>int64_t\<close> are \<^typ>\<open>int\<close>: with a rate of type
  \<open>int\<close> and an interval below 2^32 ms no product leaves 64 bits.  Division truncates
  towards zero (\<open>sdiv\<close>).
\<close>

record interval_budget =
  started :: bool
  target_rate_kbps :: int
  max_bytes_in_budget :: int
  budget_bytes :: int
  can_build_up_underuse :: bool

definition kWindowMs :: int where
  "kWindowMs = 500"

definition set_target_rate_kbps :: "interval_budget \<Rightarrow> int \<Rightarrow> interval_budget" where
  "set_target_rate_kbps b rate =
     (let limit = (kWindowMs * rate) sdiv 8
      in b\<lparr>started := True, target_rate_kbps := rate, max_bytes_in_budget := limit,
           budget_bytes := min (max (- limit) (budget_bytes b)) limit\<rparr>)"

definition budget_new :: "int \<Rightarrow> bool \<Rightarrow> interval_budget" where
  "budget_new rate build_up = set_target_rate_kbps
     \<lparr>started = False, target_rate_kbps = 0, max_bytes_in_budget = 0, budget_bytes = 0,
      can_build_up_underuse = build_up\<rparr> rate"

definition increase_budget :: "interval_budget \<Rightarrow> int \<Rightarrow> interval_budget" where
  "increase_budget b delta_time_ms =
     (let bytes = (target_rate_kbps b * delta_time_ms) sdiv 8
      in if budget_bytes b < 0 \<or> can_build_up_underuse b
         then b\<lparr>budget_bytes := min (budget_bytes b + bytes) (max_bytes_in_budget b)\<rparr>
         else b\<lparr>budget_bytes := min bytes (max_bytes_in_budget b)\<rparr>)"

definition use_budget :: "interval_budget \<Rightarrow> int \<Rightarrow> interval_budget" where
  "use_budget b bytes =
     b\<lparr>budget_bytes := max (budget_bytes b - bytes) (- max_bytes_in_budget b)\<rparr>"

definition budget_remaining :: "interval_budget \<Rightarrow> int" where
  "budget_remaining b = max 0 (budget_bytes b)"

section \<open>The invariant\<close>

definition budget_inv :: "interval_budget \<Rightarrow> bool" where
  "budget_inv b \<longleftrightarrow> started b \<and> 0 \<le> target_rate_kbps b \<and>
     max_bytes_in_budget b = (500 * target_rate_kbps b) div 8 \<and>
     - max_bytes_in_budget b \<le> budget_bytes b \<and> budget_bytes b \<le> max_bytes_in_budget b"

lemma sdiv8: "0 \<le> (a::int) \<Longrightarrow> a sdiv 8 = a div 8"
  by (simp add: signed_divide_int_def sgn_if)

lemma set_target_rate_inv: "0 \<le> rate \<Longrightarrow> budget_inv (set_target_rate_kbps b rate)"
  by (auto simp: budget_inv_def set_target_rate_kbps_def Let_def kWindowMs_def sdiv8)

lemma budget_new_inv: "0 \<le> rate \<Longrightarrow> budget_inv (budget_new rate u)"
  by (simp add: budget_new_def set_target_rate_inv)

lemma gain_nonneg: "budget_inv b \<Longrightarrow> 0 \<le> ms \<Longrightarrow> 0 \<le> (target_rate_kbps b * ms) sdiv 8"
  by (simp add: budget_inv_def sdiv8 pos_imp_zdiv_nonneg_iff)

lemma increase_budget_inv: "budget_inv b \<Longrightarrow> 0 \<le> ms \<Longrightarrow> budget_inv (increase_budget b ms)"
  using gain_nonneg [of b ms] by (auto simp: budget_inv_def increase_budget_def Let_def)

lemma use_budget_inv: "budget_inv b \<Longrightarrow> 0 \<le> n \<Longrightarrow> budget_inv (use_budget b n)"
  by (auto simp: budget_inv_def use_budget_def)

lemma budget_remaining_bounds: "budget_inv b \<Longrightarrow> 0 \<le> budget_remaining b \<and> budget_remaining b \<le> max_bytes_in_budget b"
  by (auto simp: budget_inv_def budget_remaining_def)

section \<open>Long runs\<close>

text \<open>
  A run of the owner of a budget: time passes, bytes are sent.  Between two changes of the
  rate the bytes sent are bounded by the rate times the time, one window and one overdraft.
\<close>

datatype budget_step = Elapse int | Spend int

fun budget_step_apply :: "interval_budget \<Rightarrow> budget_step \<Rightarrow> interval_budget" where
  "budget_step_apply b (Elapse ms) = increase_budget b ms"
| "budget_step_apply b (Spend n) = use_budget b n"

fun run_ok :: "interval_budget \<Rightarrow> budget_step list \<Rightarrow> bool" where
  "run_ok b [] = True"
| "run_ok b (Elapse ms # ss) = (0 \<le> ms \<and> run_ok (increase_budget b ms) ss)"
| "run_ok b (Spend n # ss) =
     (0 < budget_remaining b \<and> 0 \<le> n \<and> n \<le> max_bytes_in_budget b \<and> run_ok (use_budget b n) ss)"

fun spent :: "budget_step list \<Rightarrow> int" where
  "spent [] = 0"
| "spent (Elapse ms # ss) = spent ss"
| "spent (Spend n # ss) = n + spent ss"

fun elapsed :: "budget_step list \<Rightarrow> int" where
  "elapsed [] = 0"
| "elapsed (Elapse ms # ss) = ms + elapsed ss"
| "elapsed (Spend n # ss) = elapsed ss"

lemma budget_step_fields [simp]:
  "target_rate_kbps (increase_budget b ms) = target_rate_kbps b"
  "max_bytes_in_budget (increase_budget b ms) = max_bytes_in_budget b"
  "target_rate_kbps (use_budget b n) = target_rate_kbps b"
  "max_bytes_in_budget (use_budget b n) = max_bytes_in_budget b"
  by (simp_all add: increase_budget_def use_budget_def Let_def)

lemma increase_budget_le:
  assumes "budget_inv b" "0 \<le> ms"
  shows "budget_bytes (increase_budget b ms) \<le> budget_bytes b + (target_rate_kbps b * ms) div 8"
  using gain_nonneg [OF assms] assms by (auto simp: increase_budget_def Let_def budget_inv_def sdiv8)

lemma use_budget_eq:
  "budget_inv b \<Longrightarrow> 0 < budget_remaining b \<Longrightarrow> n \<le> max_bytes_in_budget b \<Longrightarrow>
    budget_bytes (use_budget b n) = budget_bytes b - n"
  by (auto simp: use_budget_def budget_remaining_def budget_inv_def)

lemma elapsed_nonneg: "run_ok b ss \<Longrightarrow> 0 \<le> elapsed ss"
  by (induction b ss rule: run_ok.induct) auto

lemma spent_bound:
  "budget_inv b \<Longrightarrow> run_ok b ss \<Longrightarrow>
    spent ss \<le> budget_bytes b + max_bytes_in_budget b + (target_rate_kbps b * elapsed ss) div 8"
proof (induction b ss rule: run_ok.induct)
  case (2 b ms ss)
  have "(target_rate_kbps b * ms) div 8 + (target_rate_kbps b * elapsed ss) div 8 \<le>
      (target_rate_kbps b * (ms + elapsed ss)) div 8"
    unfolding distrib_left by linarith
  then show ?case using 2 increase_budget_inv [of b ms] increase_budget_le [of b ms] by simp
next
  case (3 b n ss)
  then show ?case using use_budget_inv [of b n] use_budget_eq [of b n] by simp
qed (simp add: budget_inv_def)

lemma run_ok_inv: "budget_inv b \<Longrightarrow> run_ok b ss \<Longrightarrow> budget_inv (foldl budget_step_apply b ss)"
  by (induction b ss rule: run_ok.induct) (simp_all add: increase_budget_inv use_budget_inv)

text \<open>The budget that is handed out is never negative: a test for a negative one never holds.\<close>

lemma budget_remaining_nonneg: "\<not> budget_remaining b < 0"
  by (simp add: budget_remaining_def)

end
