(* ===== verification/Windowed_Filter.thy ===== *)
theory Windowed_Filter
  imports Main
begin

text \<open>
  \<open>WindowedFilter\<close> (\<open>tpproxy/windowed_filter.h\<close>): the best three estimates of a sample
  stream over a window of time.  \<open>Compare\<close> is the argument \<open>better\<close> (\<open>MaxFilter\<close> is
  \<open>\<ge>\<close>, \<open>MinFilter\<close> is \<open>\<le>\<close>); time stamps and intervals are \<^typ>\<open>int\<close>, as in
  the instance the proxy uses (\<open>int64_t\<close> round counts, far from the bounds).
\<close>

record 'a estimate =
  est_value :: 'a
  est_time :: int

record 'a windowed_filter =
  window_length :: int
  zero_value :: 'a
  best1 :: "'a estimate"
  best2 :: "'a estimate"
  best3 :: "'a estimate"

definition estimate_of :: "'a \<Rightarrow> int \<Rightarrow> 'a estimate" where
  "estimate_of v t = \<lparr>est_value = v, est_time = t\<rparr>"

definition max_filter :: "'a::linorder \<Rightarrow> 'a \<Rightarrow> bool" where
  "max_filter lhs rhs \<longleftrightarrow> rhs \<le> lhs"

definition min_filter :: "'a::linorder \<Rightarrow> 'a \<Rightarrow> bool" where
  "min_filter lhs rhs \<longleftrightarrow> lhs \<le> rhs"

definition filter_new :: "int \<Rightarrow> 'a \<Rightarrow> int \<Rightarrow> 'a windowed_filter" where
  "filter_new window zero_val zero_time =
     \<lparr>window_length = window, zero_value = zero_val, best1 = estimate_of zero_val zero_time,
      best2 = estimate_of zero_val zero_time, best3 = estimate_of zero_val zero_time\<rparr>"

definition set_window_length :: "'a windowed_filter \<Rightarrow> int \<Rightarrow> 'a windowed_filter" where
  "set_window_length w n = w\<lparr>window_length := n\<rparr>"

definition filter_reset :: "'a windowed_filter \<Rightarrow> 'a \<Rightarrow> int \<Rightarrow> 'a windowed_filter" where
  "filter_reset w v t = w\<lparr>best1 := estimate_of v t, best2 := estimate_of v t, best3 := estimate_of v t\<rparr>"

definition filter_update ::
  "('a \<Rightarrow> 'a \<Rightarrow> bool) \<Rightarrow> 'a windowed_filter \<Rightarrow> 'a \<Rightarrow> int \<Rightarrow> 'a windowed_filter" where
  "filter_update better w v t =
     (if est_value (best1 w) = zero_value w \<or> better v (est_value (best1 w)) \<or>
         window_length w < t - est_time (best3 w)
      then filter_reset w v t
      else
        let w1 = (if better v (est_value (best2 w))
                  then w\<lparr>best2 := estimate_of v t, best3 := estimate_of v t\<rparr>
                  else if better v (est_value (best3 w)) then w\<lparr>best3 := estimate_of v t\<rparr>
                  else w)
        in if window_length w < t - est_time (best1 w1) then
             let w2 = w1\<lparr>best1 := best2 w1, best2 := best3 w1, best3 := estimate_of v t\<rparr>
             in if window_length w < t - est_time (best1 w2)
                then w2\<lparr>best1 := best2 w2, best2 := best3 w2\<rparr> else w2
           else if est_value (best2 w1) = est_value (best1 w1) \<and>
              window_length w div 4 < t - est_time (best2 w1)
             then w1\<lparr>best2 := estimate_of v t, best3 := estimate_of v t\<rparr>
           else if est_value (best3 w1) = est_value (best2 w1) \<and>
              window_length w div 2 < t - est_time (best3 w1)
             then w1\<lparr>best3 := estimate_of v t\<rparr>
           else w1)"

definition get_best :: "'a windowed_filter \<Rightarrow> 'a" where
  "get_best w = est_value (best1 w)"

definition get_second_best :: "'a windowed_filter \<Rightarrow> 'a" where
  "get_second_best w = est_value (best2 w)"

definition get_third_best :: "'a windowed_filter \<Rightarrow> 'a" where
  "get_third_best w = est_value (best3 w)"

section \<open>The invariant of a maximum filter\<close>

definition filter_inv :: "('a::linorder) windowed_filter \<Rightarrow> int \<Rightarrow> bool" where
  "filter_inv w now \<longleftrightarrow> 0 \<le> window_length w \<and>
     est_value (best3 w) \<le> est_value (best2 w) \<and> est_value (best2 w) \<le> est_value (best1 w) \<and>
     est_time (best1 w) \<le> est_time (best2 w) \<and> est_time (best2 w) \<le> est_time (best3 w) \<and>
     est_time (best3 w) \<le> now"

lemma filter_new_inv: "0 \<le> window \<Longrightarrow> z \<le> now \<Longrightarrow> filter_inv (filter_new window v z) now"
  by (simp add: filter_inv_def filter_new_def estimate_of_def)

lemma filter_update_inv:
  fixes w :: "('a::linorder) windowed_filter"
  assumes "filter_inv w now" "now \<le> t"
  shows "filter_inv (filter_update max_filter w v t) t"
  using assms by (auto simp: filter_update_def filter_inv_def filter_reset_def estimate_of_def max_filter_def Let_def)

text \<open>The best estimate is at least the new sample and not older than the window.\<close>

lemma filter_update_fresh:
  fixes w :: "('a::linorder) windowed_filter"
  assumes "filter_inv w now" "now \<le> t"
  shows "v \<le> get_best (filter_update max_filter w v t) \<and>
    t - est_time (best1 (filter_update max_filter w v t)) \<le> window_length w"
  using assms by (auto simp: filter_update_def filter_inv_def filter_reset_def estimate_of_def max_filter_def
      Let_def get_best_def)

section \<open>What the estimates are\<close>

text \<open>
  Against the history of samples with their times: the estimates are samples, and an estimate
  is an upper bound of every later sample.  So the best estimate is the maximum of the samples
  since its own time, which lies in the window.
\<close>

definition bounds_later :: "('a::linorder \<times> int) set \<Rightarrow> 'a estimate \<Rightarrow> bool" where
  "bounds_later H e \<longleftrightarrow> (est_value e, est_time e) \<in> H \<and>
     (\<forall>(u, s) \<in> H. est_time e < s \<longrightarrow> u \<le> est_value e)"

definition tracks :: "('a::linorder) windowed_filter \<Rightarrow> ('a \<times> int) set \<Rightarrow> bool" where
  "tracks w H \<longleftrightarrow> bounds_later H (best1 w) \<and> bounds_later H (best2 w) \<and> bounds_later H (best3 w)"

lemma bounds_later_new: "\<forall>(u, s) \<in> H. s \<le> t \<Longrightarrow> bounds_later (insert (v, t) H) (estimate_of v t)"
  by (auto simp: bounds_later_def estimate_of_def)

lemma bounds_later_keep: "bounds_later H e \<Longrightarrow> v \<le> est_value e \<Longrightarrow> bounds_later (insert (v, t) H) e"
  by (auto simp: bounds_later_def)

lemma filter_update_tracks:
  fixes w :: "('a::linorder) windowed_filter"
  assumes "filter_inv w now" "tracks w H" "\<forall>(u, s) \<in> H. s \<le> t"
  shows "tracks (filter_update max_filter w v t) (insert (v, t) H)"
proof (cases "est_value (best1 w) = zero_value w \<or> max_filter v (est_value (best1 w)) \<or>
    window_length w < t - est_time (best3 w)")
  case True
  then show ?thesis
    using bounds_later_new [OF assms(3), of v] by (simp add: filter_update_def filter_reset_def tracks_def)
next
  case False
  let ?H = "insert (v, t) H"
  define w1 where "w1 = (if max_filter v (est_value (best2 w))
      then w\<lparr>best2 := estimate_of v t, best3 := estimate_of v t\<rparr>
      else if max_filter v (est_value (best3 w)) then w\<lparr>best3 := estimate_of v t\<rparr> else w)"
  note new = bounds_later_new [OF assms(3), of v]
  have old: "bounds_later H (best1 w)" "bounds_later H (best2 w)" "bounds_later H (best3 w)"
    "est_value (best3 w) \<le> est_value (best2 w)" "v \<le> est_value (best1 w)"
    using assms False by (auto simp: tracks_def filter_inv_def max_filter_def)
  have kept: "bounds_later ?H (best1 w)" "v \<le> est_value (best2 w) \<Longrightarrow> bounds_later ?H (best2 w)"
    "v \<le> est_value (best3 w) \<Longrightarrow> bounds_later ?H (best3 w)"
    using old by (simp_all add: bounds_later_keep)
  have w1: "bounds_later ?H (best1 w1)" "bounds_later ?H (best2 w1)" "bounds_later ?H (best3 w1)"
    using new kept by (simp_all add: w1_def max_filter_def not_le less_imp_le)
  have len: "window_length w1 = window_length w" by (simp add: w1_def)
  show ?thesis
    using False w1 new
    unfolding filter_update_def Let_def w1_def [symmetric] tracks_def by simp
qed

end
