(* ===== verification/Timing_Properties.thy ===== *)
theory Timing_Properties
  imports Base_Time Interval_Budget Windowed_Filter
begin

text \<open>
  The properties of time, the pacing budget and the windowed filter.
\<close>

section \<open>The pacing budget\<close>

text \<open>
  C39: Pacing.  A budget set to a rate of \<open>r\<close> kbit/s stays within its window, and over every
  run of its owner that sends only when bytes remain, the bytes sent are at most what
  the rate gives for the time elapsed plus two windows of 500 ms (one saved, one overdrawn).
\<close>

theorem budget_paces:
  assumes "0 \<le> rate" and "run_ok (budget_new rate underuse) steps"
  shows "spent steps \<le> (rate * elapsed steps) div 8 + 2 * ((500 * rate) div 8) \<and>
    budget_inv (foldl budget_step_apply (budget_new rate underuse) steps)"
proof -
  have inv: "budget_inv (budget_new rate underuse)" using assms(1) by (rule budget_new_inv)
  have rate: "target_rate_kbps (budget_new rate underuse) = rate"
    by (simp add: budget_new_def set_target_rate_kbps_def Let_def)
  have max: "max_bytes_in_budget (budget_new rate underuse) = (500 * rate) div 8"
    using inv by (simp add: budget_inv_def rate)
  have top: "budget_bytes (budget_new rate underuse) \<le> max_bytes_in_budget (budget_new rate underuse)"
    using inv by (simp add: budget_inv_def)
  have "spent steps \<le> (rate * elapsed steps) div 8 + 2 * ((500 * rate) div 8)"
    using spent_bound [OF inv assms(2)] top unfolding rate max by linarith
  then show ?thesis using run_ok_inv [OF inv assms(2)] by blast
qed

theorem budget_paces_witness:
  "spent [Elapse 10, Spend 1000, Elapse 10] \<le> (800 * elapsed [Elapse 10, Spend 1000, Elapse 10]) div 8
     + 2 * ((500 * 800) div 8)"
proof (rule budget_paces [THEN conjunct1])
  show "run_ok (budget_new 800 False) [Elapse 10, Spend 1000, Elapse 10]"
    by (simp add: budget_new_def set_target_rate_kbps_def increase_budget_def use_budget_def
        budget_remaining_def kWindowMs_def signed_divide_int_def Let_def)
qed simp

text \<open>
  Spending.  Whatever the state of a budget, the bytes it offers are never negative (so the
  guard \<open>if(target<0) return\<close> of the reading loop never returns), spending from a
  budget that offers bytes takes exactly those bytes, and an overdrawn budget is repaid by later
  time before anything is offered.
\<close>

theorem budget_spending:
  shows "\<not> budget_remaining b < 0 \<and>
    (budget_inv b \<and> 0 < budget_remaining b \<and> 0 \<le> n \<and> n \<le> max_bytes_in_budget b \<longrightarrow>
      budget_inv (use_budget b n) \<and> budget_bytes (use_budget b n) = budget_bytes b - n) \<and>
    (budget_inv b \<and> 0 \<le> ms \<and> budget_bytes b < 0 \<longrightarrow>
      budget_bytes (increase_budget b ms) =
        min (budget_bytes b + (target_rate_kbps b * ms) div 8) (max_bytes_in_budget b))"
proof -
  have offers: "\<not> budget_remaining b < 0" by (rule budget_remaining_nonneg)
  have spends: "budget_inv (use_budget b n) \<and> budget_bytes (use_budget b n) = budget_bytes b - n"
    if "budget_inv b" "0 < budget_remaining b" "0 \<le> n" "n \<le> max_bytes_in_budget b"
    using use_budget_inv [OF that(1,3)] use_budget_eq [OF that(1,2,4)] by blast
  have repays: "budget_bytes (increase_budget b ms) =
      min (budget_bytes b + (target_rate_kbps b * ms) div 8) (max_bytes_in_budget b)"
    if "budget_inv b" "0 \<le> ms" "budget_bytes b < 0"
    using that by (simp add: increase_budget_def Let_def sdiv8 budget_inv_def)
  show ?thesis using offers spends repays by blast
qed

theorem budget_spending_witness:
  "budget_bytes (increase_budget (use_budget (increase_budget (budget_new 800 False) 10) 3000) 10) = - 1000"
proof -
  define b where "b = use_budget (increase_budget (budget_new 800 False) 10) 3000"
  have ev: "b = \<lparr>started = True, target_rate_kbps = 800, max_bytes_in_budget = 50000, budget_bytes = - 2000,
      can_build_up_underuse = False\<rparr>"
    by (simp add: b_def budget_new_def set_target_rate_kbps_def increase_budget_def use_budget_def
        kWindowMs_def signed_divide_int_def Let_def)
  have "budget_inv b" by (simp add: ev budget_inv_def)
  then show ?thesis unfolding b_def [symmetric] using budget_spending [of b 0 10] by (simp add: ev)
qed

section \<open>The goodput filter\<close>

text \<open>
  The windowed maximum.  After a sample the filter's best estimate is one of the samples
  given so far, taken within the window, at least the new sample, and at least every sample
  taken after it; the three estimates stay ordered by value and by age.
\<close>

theorem windowed_maximum:
  fixes w :: "('a::linorder) windowed_filter" and v :: 'a
  assumes "filter_inv w now" and "now \<le> t" and "tracks w H" and "\<forall>(u, s) \<in> H. s \<le> t"
  defines "w' \<equiv> filter_update max_filter w v t"
  shows "filter_inv w' t \<and> tracks w' (insert (v, t) H) \<and>
    (get_best w', est_time (best1 w')) \<in> insert (v, t) H \<and> v \<le> get_best w' \<and>
    t - est_time (best1 w') \<le> window_length w \<and>
    (\<forall>(u, s) \<in> H. est_time (best1 w') < s \<longrightarrow> u \<le> get_best w')"
proof -
  have inv: "filter_inv w' t" using assms(1,2) unfolding w'_def by (rule filter_update_inv)
  have tr: "tracks w' (insert (v, t) H)" using assms(1,3,4) unfolding w'_def by (rule filter_update_tracks)
  have best: "(get_best w', est_time (best1 w')) \<in> insert (v, t) H"
    using tr by (simp add: tracks_def bounds_later_def get_best_def)
  have fresh: "v \<le> get_best w'" "t - est_time (best1 w') \<le> window_length w"
    using filter_update_fresh [OF assms(1,2), of v] by (simp_all add: w'_def)
  have later: "\<forall>(u, s) \<in> H. est_time (best1 w') < s \<longrightarrow> u \<le> get_best w'"
    using tr by (auto simp: tracks_def bounds_later_def get_best_def)
  show ?thesis using inv tr best fresh later by blast
qed

theorem windowed_maximum_witness:
  "get_best (filter_update max_filter (filter_new 10 (0::int) 0) 7 3) \<ge> 7"
proof -
  let ?w = "filter_new 10 (0::int) 0"
  have inv: "filter_inv ?w 0" by (simp add: filter_new_inv)
  have "tracks ?w {(0, 0)}" "\<forall>(u, s) \<in> {(0::int, 0::int)}. s \<le> 3"
    by (simp_all add: tracks_def bounds_later_def filter_new_def estimate_of_def)
  from windowed_maximum [OF inv _ this, of 7] show ?thesis by simp
qed

section \<open>Wall time\<close>

text \<open>
  \<open>QuicWallTime\<close> saturates.  Adding or subtracting an interval that is not negative gives
  the exact result cut to the range of 64 bits; but a negative interval added to a later
  time gives the largest time, not an earlier one; the absolute difference is exact up to
  the largest interval.
\<close>

theorem wall_time_saturates:
  assumes "t < 2 ^ 64"
  shows "(0 \<le> d \<and> d < 2 ^ 63 \<longrightarrow>
      wall_add t d = min (t + nat d) (2 ^ 64 - 1) \<and> wall_subtract t d = t - nat d) \<and>
    (0 < n \<and> n \<le> t \<and> n < 2 ^ 63 \<longrightarrow> wall_add t (- int n) = 2 ^ 64 - 1) \<and>
    (u < 2 ^ 64 \<longrightarrow> absolute_difference t u = min \<bar>int t - int u\<bar> (2 ^ 63 - 1))"
proof -
  have adds: "wall_add t d = min (t + nat d) (2 ^ 64 - 1)" if "0 \<le> d" "d < 2 ^ 63"
    using assms that by (rule wall_add_nonneg)
  have subtracts: "wall_subtract t d = t - nat d" if "0 \<le> d" "d < 2 ^ 63"
    using assms that by (rule wall_subtract_nonneg)
  have negative: "wall_add t (- int n) = 2 ^ 64 - 1" if "0 < n" "n \<le> t" "n < 2 ^ 63"
    using assms that by (intro wall_add_negative) auto
  have absolute: "absolute_difference t u = min \<bar>int t - int u\<bar> (2 ^ 63 - 1)" if "u < 2 ^ 64"
    using assms that by (rule absolute_difference_eq)
  show ?thesis using adds subtracts negative absolute by blast
qed

theorem wall_time_saturates_witness:
  "wall_add 10 (- 3) = 2 ^ 64 - 1 \<and> wall_subtract 3 10 = 0 \<and> absolute_difference 3 10 = 7"
  using wall_time_saturates [of 10 0 3 0] wall_time_saturates [of 3 10 0 10] by simp

end
