(* ===== verification/Epoll_Server.thy ===== *)
theory Epoll_Server
  imports Prelude "HOL-Library.Word" "HOL-Library.Monad_Syntax"
begin

text \<open>
  \<open>SimpleEpollServer\<close> (\<open>base/simple_epoll_server.cc\<close>): the callbacks registered for file
  descriptors, the list of those that are ready, and the alarms ordered by time.

  A pointer to a callback is a key; a ready list is the list of its descriptors, first
  to last, and a node's \<open>le_prev\<close> is not null exactly while it is in one of the two lists.
  The set of descriptors that the kernel watches is the field \<open>interest\<close> and \<open>epoll_ctl\<close> acts on
  it as documented; its failures are not reported, as \<open>EPOLL_LOG\<close> is a dummy.  What a callback
  does to the server is a list of commands; \<open>OnRegistration\<close>, \<open>OnModification\<close> and
  \<open>OnUnregistration\<close> of a descriptor are taken not to call the server.  Times are mathematical integers.
\<close>

unbundle bit_operations_syntax

section \<open>State\<close>

type_synonym event_mask = "32 word"

record cb_and_event_mask =
  entry_cb :: "nat option"
  cb_event_mask :: event_mask
  events_asserted :: event_mask
  events_to_fake :: event_mask
  in_use :: bool

definition cb_entry_new :: "nat \<Rightarrow> event_mask \<Rightarrow> cb_and_event_mask" where
  "cb_entry_new cb m = \<lparr>entry_cb = Some cb, cb_event_mask = m, events_asserted = 0, events_to_fake = 0, in_use = False\<rparr>"

text \<open>
  An entry of \<open>alarm_map_\<close>: its time, its identity (what an iterator points to) and its alarm.
  \<open>alarm_token\<close> holds the fields \<open>registered_\<close> and \<open>token_\<close> of every \<open>EpollAlarm\<close>.
\<close>

type_synonym alarm_entry = "int \<times> nat \<times> nat"

record 'h epoll_server =
  cb_map :: "int \<rightharpoonup> cb_and_event_mask"
  ready_fds :: "int list"
  tmp_fds :: "int list"
  ready_list_size :: int
  interest :: "int \<rightharpoonup> event_mask"
  alarm_map :: "alarm_entry list"
  next_token :: nat
  all_alarms :: "nat set"
  skipped_alarms :: "nat set"
  alarm_token :: "nat \<rightharpoonup> nat"
  recorded_now_us :: int
  timeout_us :: int
  in_wait :: bool
  last_delay_us :: int
  client_state :: 'h

definition EPOLLIN_bit :: event_mask where "EPOLLIN_bit = 0x1"
definition EPOLLOUT_bit :: event_mask where "EPOLLOUT_bit = 0x4"
definition EPOLLERR_HUP :: event_mask where "EPOLLERR_HUP = 0x8 OR 0x10"

section \<open>The kernel's interest set\<close>

text \<open>\<open>AddFD\<close>, \<open>ModFD\<close> and \<open>DelFD\<close>: adding a descriptor twice or changing one that is not there fails.\<close>

definition add_fd :: "int \<Rightarrow> event_mask \<Rightarrow> 'h epoll_server \<Rightarrow> 'h epoll_server" where
  "add_fd fd m s =
     (if interest s fd = None then s\<lparr>interest := (interest s)(fd \<mapsto> m OR EPOLLERR_HUP)\<rparr> else s)"

definition mod_fd :: "int \<Rightarrow> event_mask \<Rightarrow> 'h epoll_server \<Rightarrow> 'h epoll_server" where
  "mod_fd fd m s =
     (if interest s fd = None then s else s\<lparr>interest := (interest s)(fd \<mapsto> m OR EPOLLERR_HUP)\<rparr>)"

definition del_fd :: "int \<Rightarrow> 'h epoll_server \<Rightarrow> 'h epoll_server" where
  "del_fd fd s = s\<lparr>interest := (interest s)(fd := None)\<rparr>"

section \<open>Ready list\<close>

definition listed :: "int \<Rightarrow> 'h epoll_server \<Rightarrow> bool" where
  "listed fd s \<longleftrightarrow> fd \<in> set (ready_fds s) \<or> fd \<in> set (tmp_fds s)"

definition add_to_ready_list :: "int \<Rightarrow> 'h epoll_server \<Rightarrow> 'h epoll_server" where
  "add_to_ready_list fd s =
     (if \<not> listed fd s then s\<lparr>ready_fds := fd # ready_fds s, ready_list_size := ready_list_size s + 1\<rparr> else s)"

definition remove_from_ready_list :: "int \<Rightarrow> 'h epoll_server \<Rightarrow> 'h epoll_server" where
  "remove_from_ready_list fd s =
     (if listed fd s
      then s\<lparr>ready_fds := remove1 fd (ready_fds s), tmp_fds := remove1 fd (tmp_fds s),
             ready_list_size := ready_list_size s - 1\<rparr>
      else s)"

definition update_entry :: "int \<Rightarrow> (cb_and_event_mask \<Rightarrow> cb_and_event_mask) \<Rightarrow> 'h epoll_server \<Rightarrow> 'h epoll_server" where
  "update_entry fd f s = s\<lparr>cb_map := (cb_map s)(fd := map_option f (cb_map s fd))\<rparr>"

definition erase_entry :: "int \<Rightarrow> 'h epoll_server \<Rightarrow> 'h epoll_server" where
  "erase_entry fd s = s\<lparr>cb_map := (cb_map s)(fd := None)\<rparr>"

text \<open>The callback registered for a descriptor.\<close>

definition registered_cb :: "'h epoll_server \<Rightarrow> int \<Rightarrow> nat option" where
  "registered_cb s fd = Option.bind (cb_map s fd) entry_cb"

definition set_fd_ready :: "int \<Rightarrow> event_mask \<Rightarrow> 'h epoll_server \<Rightarrow> 'h epoll_server" where
  "set_fd_ready fd events s =
     (if registered_cb s fd = None then s
      else add_to_ready_list fd (update_entry fd (\<lambda>e. e\<lparr>events_to_fake := events\<rparr>) s))"

definition set_fd_not_ready :: "int \<Rightarrow> 'h epoll_server \<Rightarrow> 'h epoll_server" where
  "set_fd_not_ready fd s = (if cb_map s fd = None then s else remove_from_ready_list fd s)"

definition is_fd_ready :: "int \<Rightarrow> 'h epoll_server \<Rightarrow> bool" where
  "is_fd_ready fd s \<longleftrightarrow> registered_cb s fd \<noteq> None \<and> listed fd s"

definition verify_ready_list :: "'h epoll_server \<Rightarrow> bool" where
  "verify_ready_list s \<longleftrightarrow> ready_list_size s = int (length (ready_fds s) + length (tmp_fds s))"

text \<open>The event that \<open>epoll_wait\<close> reports.\<close>

definition epoll_handle_event :: "int \<Rightarrow> event_mask \<Rightarrow> 'h epoll_server \<Rightarrow> 'h epoll_server" where
  "epoll_handle_event fd m s =
     (if registered_cb s fd = None then s
      else add_to_ready_list fd (update_entry fd (\<lambda>e. e\<lparr>events_asserted := m\<rparr>) s))"

section \<open>Registration\<close>

text \<open>
  \<open>RegisterFD\<close>.  A callback that is replaced leaves the ready list; an entry that was
  unregistered within its own callback is used again.
\<close>

definition register_fd :: "int \<Rightarrow> nat \<Rightarrow> event_mask \<Rightarrow> 'h epoll_server \<Rightarrow> 'h epoll_server" where
  "register_fd fd cb m s =
     (case cb_map s fd of
        Some e \<Rightarrow>
          let s1 = (if entry_cb e \<noteq> None then mod_fd fd m (remove_from_ready_list fd s) else add_fd fd m s)
          in update_entry fd (\<lambda>e. e\<lparr>entry_cb := Some cb, cb_event_mask := m, events_to_fake := 0\<rparr>) s1
      | None \<Rightarrow>
          let s1 = add_fd fd m s in s1\<lparr>cb_map := (cb_map s1)(fd \<mapsto> cb_entry_new cb m)\<rparr>)"

definition register_fd_for_write :: "int \<Rightarrow> nat \<Rightarrow> 'h epoll_server \<Rightarrow> 'h epoll_server" where
  "register_fd_for_write fd cb = register_fd fd cb EPOLLOUT_bit"

definition register_fd_for_read_write :: "int \<Rightarrow> nat \<Rightarrow> 'h epoll_server \<Rightarrow> 'h epoll_server" where
  "register_fd_for_read_write fd cb = register_fd fd cb (EPOLLIN_bit OR EPOLLOUT_bit)"

definition register_fd_for_read :: "int \<Rightarrow> nat \<Rightarrow> 'h epoll_server \<Rightarrow> 'h epoll_server" where
  "register_fd_for_read fd cb = register_fd fd cb EPOLLIN_bit"

definition unregister_fd :: "int \<Rightarrow> 'h epoll_server \<Rightarrow> 'h epoll_server" where
  "unregister_fd fd s =
     (case cb_map s fd of
        None \<Rightarrow> s
      | Some e \<Rightarrow>
          if entry_cb e = None then s
          else
            let s1 = del_fd fd (remove_from_ready_list fd s)
            in if \<not> in_use e then erase_entry fd s1
               else update_entry fd (\<lambda>e. e\<lparr>entry_cb := None, cb_event_mask := 0, events_to_fake := 0\<rparr>) s1)"

definition modify_fd :: "int \<Rightarrow> event_mask \<Rightarrow> event_mask \<Rightarrow> 'h epoll_server \<Rightarrow> 'h epoll_server" where
  "modify_fd fd remove_event add_event s =
     (case cb_map s fd of
        None \<Rightarrow> s
      | Some e \<Rightarrow>
          if entry_cb e = None then s
          else
            let m = (cb_event_mask e AND NOT remove_event) OR add_event
            in mod_fd fd m (update_entry fd (\<lambda>e. e\<lparr>cb_event_mask := m\<rparr>) s))"

definition modify_callback :: "int \<Rightarrow> event_mask \<Rightarrow> 'h epoll_server \<Rightarrow> 'h epoll_server" where
  "modify_callback fd m = modify_fd fd (NOT 0) m"

definition stop_read :: "int \<Rightarrow> 'h epoll_server \<Rightarrow> 'h epoll_server" where "stop_read fd = modify_fd fd EPOLLIN_bit 0"
definition start_read :: "int \<Rightarrow> 'h epoll_server \<Rightarrow> 'h epoll_server" where "start_read fd = modify_fd fd 0 EPOLLIN_bit"
definition stop_write :: "int \<Rightarrow> 'h epoll_server \<Rightarrow> 'h epoll_server" where "stop_write fd = modify_fd fd EPOLLOUT_bit 0"
definition start_write :: "int \<Rightarrow> 'h epoll_server \<Rightarrow> 'h epoll_server" where "start_write fd = modify_fd fd 0 EPOLLOUT_bit"

text \<open>The constructor: nothing is registered but the end of the pipe that wakes the server up.\<close>

definition epoll_server_empty :: "'h \<Rightarrow> 'h epoll_server" where
  "epoll_server_empty h = \<lparr>cb_map = (\<lambda>_. None), ready_fds = [], tmp_fds = [], ready_list_size = 0, interest = (\<lambda>_. None),
     alarm_map = [], next_token = 0, all_alarms = {}, skipped_alarms = {}, alarm_token = (\<lambda>_. None),
     recorded_now_us = 0, timeout_us = 0, in_wait = False, last_delay_us = 0, client_state = h\<rparr>"

definition epoll_server_new :: "int \<Rightarrow> nat \<Rightarrow> 'h \<Rightarrow> 'h epoll_server" where
  "epoll_server_new read_fd wake_cb h = register_fd read_fd wake_cb EPOLLIN_bit (epoll_server_empty h)"

section \<open>Alarms\<close>

text \<open>\<open>std::multimap::insert\<close>: behind the entries of the same time.\<close>

fun insert_alarm :: "alarm_entry \<Rightarrow> alarm_entry list \<Rightarrow> alarm_entry list" where
  "insert_alarm x [] = [x]"
| "insert_alarm x (y # ys) = (if fst x < fst y then x # y # ys else y # insert_alarm x ys)"

definition erase_token :: "nat \<Rightarrow> alarm_entry list \<Rightarrow> alarm_entry list" where
  "erase_token t xs = filter (\<lambda>(_, t', _). t' \<noteq> t) xs"

text \<open>Registering an alarm that is registered is fatal; \<open>OnRegistration\<close> stores the token.\<close>

definition register_alarm :: "int \<Rightarrow> nat \<Rightarrow> 'h epoll_server \<Rightarrow> 'h epoll_server option" where
  "register_alarm time a s =
     (if a \<in> all_alarms s then None
      else Some (s\<lparr>alarm_map := insert_alarm (time, next_token s, a) (alarm_map s),
                   all_alarms := insert a (all_alarms s),
                   alarm_token := (alarm_token s)(a \<mapsto> next_token s), next_token := next_token s + 1\<rparr>))"

definition unregister_alarm :: "nat \<Rightarrow> nat \<Rightarrow> 'h epoll_server \<Rightarrow> 'h epoll_server" where
  "unregister_alarm t a s = s\<lparr>alarm_map := erase_token t (alarm_map s), all_alarms := all_alarms s - {a},
     alarm_token := (alarm_token s)(a := None)\<rparr>"

text \<open>\<open>EpollAlarm::UnregisterIfRegistered\<close> and \<open>EpollAlarm::ReregisterAlarm\<close>\<close>

definition unregister_if_registered :: "nat \<Rightarrow> 'h epoll_server \<Rightarrow> 'h epoll_server" where
  "unregister_if_registered a s = (case alarm_token s a of None \<Rightarrow> s | Some t \<Rightarrow> unregister_alarm t a s)"

definition reregister_alarm :: "nat \<Rightarrow> int \<Rightarrow> 'h epoll_server \<Rightarrow> 'h epoll_server option" where
  "reregister_alarm a time s =
     (case alarm_token s a of
        None \<Rightarrow> None
      | Some t \<Rightarrow> Some (s\<lparr>alarm_map := insert_alarm (time, next_token s, a) (erase_token t (alarm_map s)),
          alarm_token := (alarm_token s)(a \<mapsto> next_token s), next_token := next_token s + 1\<rparr>))"

text \<open>\<open>QuicEpollAlarm::UpdateImpl\<close>: moved where it is registered, registered where it is not.\<close>

definition epoll_update_alarm :: "nat \<Rightarrow> int \<Rightarrow> 'h epoll_server \<Rightarrow> 'h epoll_server option" where
  "epoll_update_alarm a epoll_deadline s =
     (if alarm_token s a \<noteq> None then reregister_alarm a epoll_deadline s else register_alarm epoll_deadline a s)"

definition num_fds_registered :: "'h epoll_server \<Rightarrow> nat" where
  "num_fds_registered s = card (dom (cb_map s)) - 1"

definition approximate_now_in_usec :: "int \<Rightarrow> 'h epoll_server \<Rightarrow> int" where
  "approximate_now_in_usec now s = (if recorded_now_us s \<noteq> 0 then recorded_now_us s else now)"

section \<open>Callbacks\<close>

text \<open>What a callback does to the server that calls it.\<close>

datatype epoll_command =
    Do_Register_FD int nat event_mask
  | Do_Unregister_FD int
  | Do_Modify_FD int event_mask event_mask
  | Do_Set_FD_Ready int event_mask
  | Do_Set_FD_Not_Ready int
  | Do_Register_Alarm int nat
  | Do_Unregister_Alarm nat
  | Do_Reregister_Alarm nat int
  | Do_Update_Alarm nat int

fun run_command :: "epoll_command \<Rightarrow> 'h epoll_server \<Rightarrow> 'h epoll_server option" where
  "run_command (Do_Register_FD fd cb m) s = Some (register_fd fd cb m s)"
| "run_command (Do_Unregister_FD fd) s = Some (unregister_fd fd s)"
| "run_command (Do_Modify_FD fd rm ad) s = Some (modify_fd fd rm ad s)"
| "run_command (Do_Set_FD_Ready fd m) s = Some (set_fd_ready fd m s)"
| "run_command (Do_Set_FD_Not_Ready fd) s = Some (set_fd_not_ready fd s)"
| "run_command (Do_Register_Alarm time a) s = register_alarm time a s"
| "run_command (Do_Unregister_Alarm a) s = Some (unregister_if_registered a s)"
| "run_command (Do_Reregister_Alarm a time) s = reregister_alarm a time s"
| "run_command (Do_Update_Alarm a time) s = epoll_update_alarm a time s"

fun run_commands :: "epoll_command list \<Rightarrow> 'h epoll_server \<Rightarrow> 'h epoll_server option" where
  "run_commands [] s = Some s"
| "run_commands (c # cs) s = Option.bind (run_command c s) (run_commands cs)"

text \<open>
  \<open>OnEvent\<close> gets the descriptor and the events and gives \<open>out_ready_mask\<close>; \<open>OnAlarm\<close> gives
  the time at which the alarm is to run again, or zero.
\<close>

record 'h epoll_client =
  on_event :: "nat \<Rightarrow> int \<Rightarrow> event_mask \<Rightarrow> 'h \<Rightarrow> epoll_command list \<times> event_mask \<times> 'h"
  on_alarm :: "nat \<Rightarrow> 'h \<Rightarrow> epoll_command list \<times> int \<times> 'h"

section \<open>Calling the ready list\<close>

text \<open>
  The body of the loop: before the callback is called and after it returned.  \<open>in_use\<close> is
  reset to what it was; an entry that was unregistered meanwhile is erased.
\<close>

definition start_call :: "int \<Rightarrow> 'h epoll_server \<Rightarrow> 'h epoll_server" where
  "start_call fd s = update_entry fd (\<lambda>e. e\<lparr>events_asserted := 0, events_to_fake := 0, in_use := True\<rparr>)
     (remove_from_ready_list fd s)"

definition finish_call :: "int \<Rightarrow> bool \<Rightarrow> event_mask \<Rightarrow> 'h epoll_server \<Rightarrow> 'h epoll_server option" where
  "finish_call fd was_in_use out_ready_mask s = do {
     e \<leftarrow> cb_map s fd;
     let s1 = update_entry fd (\<lambda>e. e\<lparr>in_use := was_in_use\<rparr>) s;
     Some (if entry_cb e = None then erase_entry fd s1
       else if out_ready_mask \<noteq> 0
       then add_to_ready_list fd (update_entry fd (\<lambda>e. e\<lparr>events_to_fake := out_ready_mask\<rparr>) s1)
       else s1)
   }"

definition call_one :: "'h epoll_client \<Rightarrow> int \<Rightarrow> 'h epoll_server \<Rightarrow> ((int \<times> nat \<times> event_mask) \<times> 'h epoll_server) option" where
  "call_one K fd s = do {
     e \<leftarrow> cb_map s fd;
     cb \<leftarrow> entry_cb e;
     let events = events_asserted e OR events_to_fake e;
     let s1 = start_call fd s;
     let (commands, out_ready_mask, h) = on_event K cb fd events (client_state s1);
     s2 \<leftarrow> run_commands commands (s1\<lparr>client_state := h\<rparr>);
     s3 \<leftarrow> finish_call fd (in_use e) out_ready_mask s2;
     Some ((fd, cb, events), s3)
   }"

lemma call_one_SomeE:
  assumes "call_one K fd s = Some (c, s')"
  obtains e cb commands out_mask h s2 where "cb_map s fd = Some e" "entry_cb e = Some cb"
    "c = (fd, cb, events_asserted e OR events_to_fake e)"
    "on_event K cb fd (events_asserted e OR events_to_fake e) (client_state s) = (commands, out_mask, h)"
    "run_commands commands ((start_call fd s)\<lparr>client_state := h\<rparr>) = Some s2"
    "finish_call fd (in_use e) out_mask s2 = Some s'"
proof -
  obtain e cb where e: "cb_map s fd = Some e" "entry_cb e = Some cb"
    using assms by (auto simp: call_one_def Option.bind_eq_Some_conv)
  have client: "client_state (start_call fd s) = client_state s"
    by (simp add: start_call_def update_entry_def remove_from_ready_list_def)
  obtain commands out_mask h where
    ev: "on_event K cb fd (events_asserted e OR events_to_fake e) (client_state s) = (commands, out_mask, h)"
    by (cases "on_event K cb fd (events_asserted e OR events_to_fake e) (client_state s)") auto
  show thesis using assms e ev that [OF e _ ev] client
    by (auto simp: call_one_def Option.bind_eq_Some_conv Let_def)
qed

text \<open>Commands do not put anything on \<open>tmp_list_\<close>: the loop gets shorter.\<close>

lemma server_update_fields [simp]:
  "tmp_fds (update_entry fd f s) = tmp_fds s" "ready_fds (update_entry fd f s) = ready_fds s"
  "ready_list_size (update_entry fd f s) = ready_list_size s" "interest (update_entry fd f s) = interest s"
  "tmp_fds (erase_entry fd s) = tmp_fds s" "ready_fds (erase_entry fd s) = ready_fds s"
  "ready_list_size (erase_entry fd s) = ready_list_size s" "interest (erase_entry fd s) = interest s"
  "tmp_fds (add_fd fd m s) = tmp_fds s" "ready_fds (add_fd fd m s) = ready_fds s" "cb_map (add_fd fd m s) = cb_map s"
  "tmp_fds (mod_fd fd m s) = tmp_fds s" "ready_fds (mod_fd fd m s) = ready_fds s" "cb_map (mod_fd fd m s) = cb_map s"
  "tmp_fds (del_fd fd s) = tmp_fds s" "ready_fds (del_fd fd s) = ready_fds s" "cb_map (del_fd fd s) = cb_map s"
  "ready_list_size (add_fd fd m s) = ready_list_size s" "ready_list_size (mod_fd fd m s) = ready_list_size s"
  "ready_list_size (del_fd fd s) = ready_list_size s"
  "tmp_fds (add_to_ready_list fd s) = tmp_fds s" "cb_map (add_to_ready_list fd s) = cb_map s"
  "interest (add_to_ready_list fd s) = interest s"
  "cb_map (remove_from_ready_list fd s) = cb_map s" "interest (remove_from_ready_list fd s) = interest s"
  by (simp_all add: update_entry_def erase_entry_def add_fd_def mod_fd_def del_fd_def add_to_ready_list_def
      remove_from_ready_list_def)

lemma cb_map_update [simp]:
  "cb_map (update_entry fd f s) = (cb_map s)(fd := map_option f (cb_map s fd))"
  "cb_map (erase_entry fd s) = (cb_map s)(fd := None)"
  by (simp_all add: update_entry_def erase_entry_def)

lemma remove_from_ready_list_tmp:
  "tmp_fds (remove_from_ready_list fd s) = remove1 fd (tmp_fds s)"
  "ready_fds (remove_from_ready_list fd s) = remove1 fd (ready_fds s)"
  by (auto simp: remove_from_ready_list_def listed_def remove1_idem)

lemma run_command_tmp:
  "run_command c s = Some s' \<Longrightarrow> length (tmp_fds s') \<le> length (tmp_fds s) \<and> set (tmp_fds s') \<subseteq> set (tmp_fds s)"
  by (cases c) (auto simp: register_fd_def unregister_fd_def modify_fd_def set_fd_ready_def set_fd_not_ready_def
      register_alarm_def unregister_if_registered_def unregister_alarm_def reregister_alarm_def epoll_update_alarm_def Let_def
      remove_from_ready_list_tmp length_remove1 split: option.splits if_splits dest: set_remove1_subset [THEN subsetD])

lemma run_commands_tmp:
  "run_commands cs s = Some s' \<Longrightarrow> length (tmp_fds s') \<le> length (tmp_fds s) \<and> set (tmp_fds s') \<subseteq> set (tmp_fds s)"
proof (induction cs arbitrary: s)
  case (Cons c cs)
  then obtain s1 where s1: "run_command c s = Some s1" "run_commands cs s1 = Some s'"
    by (auto simp: Option.bind_eq_Some_conv)
  show ?case using run_command_tmp [OF s1(1)] Cons.IH [OF s1(2)] by fastforce
qed simp

lemma finish_call_tmp: "finish_call fd u m s = Some s' \<Longrightarrow> tmp_fds s' = tmp_fds s"
  by (auto simp: finish_call_def Option.bind_eq_Some_conv Let_def split: if_splits)

lemma call_one_tmp:
  assumes "call_one K fd s = Some (c, s')"
  shows "length (tmp_fds s') \<le> length (remove1 fd (tmp_fds s))" "set (tmp_fds s') \<subseteq> set (remove1 fd (tmp_fds s))"
  using assms
  by (auto elim!: call_one_SomeE dest!: run_commands_tmp
      simp: finish_call_tmp start_call_def remove_from_ready_list_tmp)

function call_tmp_list :: "'h epoll_client \<Rightarrow> 'h epoll_server \<Rightarrow> ((int \<times> nat \<times> event_mask) list \<times> 'h epoll_server) option" where
  "call_tmp_list K s =
     (case tmp_fds s of
        [] \<Rightarrow> Some ([], s)
      | fd # _ \<Rightarrow>
          Option.bind (call_one K fd s) (\<lambda>(c, s1).
          Option.bind (call_tmp_list K s1) (\<lambda>(cs, s2). Some (c # cs, s2))))"
  by pat_completeness auto

termination call_tmp_list
proof (relation "measure (\<lambda>(K, s). length (tmp_fds s))")
  fix K :: "'h epoll_client" and s :: "'h epoll_server" and fd rest r c s1
  assume "tmp_fds s = fd # rest" "call_one K fd s = Some r" "(c, s1) = r"
  then show "((K, s1), K, s) \<in> measure (\<lambda>(K, s). length (tmp_fds s))"
    using call_one_tmp(1) [of K fd s c s1] by simp
qed simp

declare call_tmp_list.simps [simp del]

definition call_ready_list_callbacks ::
  "'h epoll_client \<Rightarrow> 'h epoll_server \<Rightarrow> ((int \<times> nat \<times> event_mask) list \<times> 'h epoll_server) option" where
  "call_ready_list_callbacks K s = call_tmp_list K (s\<lparr>ready_fds := tmp_fds s, tmp_fds := ready_fds s\<rparr>)"

section \<open>The alarm round\<close>

text \<open>The iterator behind a token; \<open>None\<close> is \<open>end()\<close>.\<close>

fun token_after :: "nat \<Rightarrow> alarm_entry list \<Rightarrow> nat option" where
  "token_after t [] = None"
| "token_after t ((_, t', _) # xs) =
     (if t' = t then (case xs of [] \<Rightarrow> None | (_, t2, _) # _ \<Rightarrow> Some t2) else token_after t xs)"

definition find_token :: "nat \<Rightarrow> alarm_entry list \<Rightarrow> alarm_entry option" where
  "find_token t xs = find (\<lambda>(_, t', _). t' = t) xs"

text \<open>
  \<open>CallAndReregisterAlarmEvents\<close>: an iterator whose entry was erased meanwhile has no result;
  neither has a loop that does not end.
\<close>

partial_function (option) alarm_loop ::
  "'h epoll_client \<Rightarrow> int \<Rightarrow> nat option \<Rightarrow> 'h epoll_server \<Rightarrow> (nat list \<times> 'h epoll_server) option" where
  "alarm_loop K now i s =
     (case i of
        None \<Rightarrow> Some ([], s)
      | Some t \<Rightarrow>
          Option.bind (find_token t (alarm_map s)) (\<lambda>(time, _, a).
          if now < time then Some ([], s)
          else if a \<in> skipped_alarms s then alarm_loop K now (token_after t (alarm_map s)) s
          else
            let s1 = s\<lparr>all_alarms := all_alarms s - {a}, alarm_token := (alarm_token s)(a := None)\<rparr>;
                (commands, new_time, h) = on_alarm K a (client_state s1)
            in Option.bind (run_commands commands (s1\<lparr>client_state := h\<rparr>)) (\<lambda>s2.
               Option.bind (find_token t (alarm_map s2)) (\<lambda>_.
               let i' = token_after t (alarm_map s2);
                   s3 = s2\<lparr>alarm_map := erase_token t (alarm_map s2)\<rparr>
               in Option.bind
                    (if 0 < new_time
                     then register_alarm new_time a
                       (if new_time \<le> now then s3\<lparr>skipped_alarms := insert a (skipped_alarms s3)\<rparr> else s3)
                     else Some s3)
                    (\<lambda>s4. Option.bind (alarm_loop K now i' s4) (\<lambda>(as, s5). Some (a # as, s5)))))))"

definition first_token :: "alarm_entry list \<Rightarrow> nat option" where
  "first_token xs = (case xs of [] \<Rightarrow> None | (_, t, _) # _ \<Rightarrow> Some t)"

text \<open>The recorded time must not be zero: the assertion before the loop.\<close>

definition call_and_reregister_alarm_events ::
  "'h epoll_client \<Rightarrow> 'h epoll_server \<Rightarrow> (nat list \<times> 'h epoll_server) option" where
  "call_and_reregister_alarm_events K s =
     (if recorded_now_us s = 0 then None
      else map_option (\<lambda>(as, s'). (as, s'\<lparr>skipped_alarms := {}\<rparr>))
        (alarm_loop K (recorded_now_us s) (first_token (alarm_map s)) s))"

section \<open>One turn of the event loop\<close>

text \<open>The answers of the operating system in one turn: the events, and the four readings of the clock.\<close>

record wait_result =
  wait_events :: "(int \<times> event_mask) list"
  now_before :: int
  now_entering :: int
  now_woken :: int
  now_after :: int

text \<open>The time that \<open>epoll_wait\<close> is asked to wait; \<open>-1000\<close> is for ever.\<close>

definition epoll_timeout_us :: "int \<Rightarrow> 'h epoll_server \<Rightarrow> int" where
  "epoll_timeout_us t s =
     (if t = 0 \<or> ready_fds s \<noteq> [] then 0 else if t < 0 then - 1000 else if t < 1000 then 1000 else t)"

definition wait_for_events_and_call_handle_events ::
  "'h epoll_client \<Rightarrow> wait_result \<Rightarrow> int \<Rightarrow> 'h epoll_server \<Rightarrow> ((int \<times> nat \<times> event_mask) list \<times> 'h epoll_server) option" where
  "wait_for_events_and_call_handle_events K W t s =
     (let timeout = epoll_timeout_us t s;
          expected = now_entering W + timeout;
          delta = now_after W - expected;
          s1 = s\<lparr>recorded_now_us := now_woken W, last_delay_us := (if 0 < timeout then max delta 0 else 0)\<rparr>;
          s2 = foldl (\<lambda>s (fd, m). epoll_handle_event fd m s) s1 (wait_events W)
      in if ready_fds s2 \<noteq> [] then call_ready_list_callbacks K s2 else Some ([], s2))"

definition wait_time_us :: "int \<Rightarrow> int \<Rightarrow> int \<Rightarrow> int" where
  "wait_time_us now next_alarm timeout =
     (let alarm_timeout = next_alarm - now
      in if alarm_timeout < timeout \<or> timeout < 0 then max alarm_timeout 0 else timeout)"

definition wait_for_events_and_execute_callbacks ::
  "'h epoll_client \<Rightarrow> wait_result \<Rightarrow> 'h epoll_server \<Rightarrow>
    ((int \<times> nat \<times> event_mask) list \<times> nat list \<times> 'h epoll_server) option" where
  "wait_for_events_and_execute_callbacks K W s =
     (if in_wait s then Some ([], [], s)
      else
        let s1 = s\<lparr>in_wait := True\<rparr>
        in (case alarm_map s1 of
              [] \<Rightarrow> do {
                (calls, s2) \<leftarrow> wait_for_events_and_call_handle_events K W (timeout_us s1) s1;
                Some (calls, [], s2\<lparr>recorded_now_us := 0, in_wait := False\<rparr>)
              }
            | (next_alarm, _) # _ \<Rightarrow> do {
                (calls, s2) \<leftarrow> wait_for_events_and_call_handle_events K W
                  (wait_time_us (now_before W) next_alarm (timeout_us s1)) s1;
                (alarms, s3) \<leftarrow> call_and_reregister_alarm_events K s2;
                Some (calls, alarms, s3\<lparr>recorded_now_us := 0, in_wait := False\<rparr>)
              }))"

end
