(* ===== verification/Epoll_Laws.thy ===== *)
theory Epoll_Laws
  imports Epoll_Server
begin

text \<open>
  The invariants of the epoll server: its ready list, its table of callbacks and the kernel's
  interest set agree, whatever the callbacks do; and the order and identity of its alarms.
\<close>

section \<open>Descriptors\<close>

text \<open>What the kernel is to watch a descriptor for.\<close>

definition watched :: "'h epoll_server \<Rightarrow> int \<Rightarrow> event_mask option" where
  "watched s fd = (case cb_map s fd of
     None \<Rightarrow> None
   | Some e \<Rightarrow> if entry_cb e = None then None else Some (cb_event_mask e OR EPOLLERR_HUP))"

definition ready_inv :: "'h epoll_server \<Rightarrow> bool" where
  "ready_inv s \<longleftrightarrow> distinct (ready_fds s @ tmp_fds s) \<and>
     ready_list_size s = int (length (ready_fds s @ tmp_fds s)) \<and>
     (\<forall>fd. listed fd s \<longrightarrow> registered_cb s fd \<noteq> None)"

text \<open>\<open>D\<close> is the descriptor whose callback is running.\<close>

definition epoll_inv :: "int option \<Rightarrow> 'h epoll_server \<Rightarrow> bool" where
  "epoll_inv D s \<longleftrightarrow> ready_inv s \<and> interest s = watched s \<and>
     (\<forall>fd e. cb_map s fd = Some e \<longrightarrow> (in_use e \<longrightarrow> D = Some fd) \<and> (entry_cb e = None \<longrightarrow> in_use e))"

lemma listed_add [simp]: "listed fd (add_to_ready_list fd' s) \<longleftrightarrow> fd = fd' \<or> listed fd s"
  by (auto simp: listed_def add_to_ready_list_def)

lemma listed_update [simp]: "listed fd (update_entry fd' f s) = listed fd s" "listed fd (erase_entry fd' s) = listed fd s"
  "listed fd (add_fd fd' m s) = listed fd s" "listed fd (mod_fd fd' m s) = listed fd s" "listed fd (del_fd fd' s) = listed fd s"
  by (simp_all add: listed_def)

lemma listed_remove: "ready_inv s \<Longrightarrow> listed fd (remove_from_ready_list fd' s) \<longleftrightarrow> fd \<noteq> fd' \<and> listed fd s"
  by (auto simp: ready_inv_def listed_def remove_from_ready_list_tmp set_remove1_eq)

lemma ready_inv_add:
  assumes "ready_inv s" "registered_cb s fd \<noteq> None"
  shows "ready_inv (add_to_ready_list fd s)"
  using assms by (auto simp: ready_inv_def add_to_ready_list_def listed_def registered_cb_def)

lemma int_length_remove1: "x \<in> set xs \<Longrightarrow> int (length xs) - 1 = int (length xs - Suc 0)"
  by (cases xs) auto

lemma ready_inv_remove: "ready_inv s \<Longrightarrow> ready_inv (remove_from_ready_list fd s)"
  by (auto simp: ready_inv_def remove_from_ready_list_def listed_def registered_cb_def length_remove1 int_length_remove1
      dest: set_remove1_subset [THEN subsetD])

text \<open>Changes of the table that keep the listed descriptors registered.\<close>

lemma ready_inv_change:
  assumes "ready_inv s" "ready_fds s' = ready_fds s" "tmp_fds s' = tmp_fds s" "ready_list_size s' = ready_list_size s"
    "\<And>fd. listed fd s \<Longrightarrow> registered_cb s' fd \<noteq> None"
  shows "ready_inv s'"
  using assms by (simp add: ready_inv_def listed_def)

text \<open>A change of one entry.\<close>

lemma epoll_inv_change:
  assumes inv: "epoll_inv D s" and map: "cb_map s' = (cb_map s)(fd := x)" and ready: "ready_inv s'"
    and interest: "interest s' = (interest s)(fd := watched s' fd)"
    and x: "\<And>e. x = Some e \<Longrightarrow> (in_use e \<longrightarrow> D = Some fd) \<and> (entry_cb e = None \<longrightarrow> in_use e)"
  shows "epoll_inv D s'"
proof -
  have "watched s' fd' = watched s fd'" if "fd' \<noteq> fd" for fd' using that map by (simp add: watched_def)
  then have "interest s' = watched s'" using interest inv by (auto simp: epoll_inv_def fun_eq_iff)
  then show ?thesis using inv ready map x by (simp add: epoll_inv_def)
qed

lemma epoll_inv_parts:
  assumes "epoll_inv D s"
  shows "ready_inv s" "interest s fd = watched s fd"
    "cb_map s fd = Some e \<Longrightarrow> in_use e \<Longrightarrow> D = Some fd" "cb_map s fd = Some e \<Longrightarrow> entry_cb e = None \<Longrightarrow> in_use e"
    "listed fd s \<Longrightarrow> registered_cb s fd \<noteq> None"
  using assms by (auto simp: epoll_inv_def ready_inv_def)

lemma ready_inv_cong:
  assumes "ready_inv s" "cb_map s' = cb_map s" "ready_fds s' = ready_fds s" "tmp_fds s' = tmp_fds s"
    "ready_list_size s' = ready_list_size s"
  shows "ready_inv s'"
  by (rule ready_inv_change [OF assms(1,3-5)]) (use assms in \<open>auto simp: ready_inv_def registered_cb_def\<close>)

lemma register_fd_inv:
  assumes inv: "epoll_inv D s"
  shows "epoll_inv D (register_fd fd cb m s)"
proof (cases "cb_map s fd")
  case None
  note I = epoll_inv_parts [OF inv]
  define s' where "s' = (add_fd fd m s)\<lparr>cb_map := (cb_map (add_fd fd m s))(fd \<mapsto> cb_entry_new cb m)\<rparr>"
  have eq: "register_fd fd cb m s = s'" using None by (simp add: register_fd_def s'_def Let_def)
  have "ready_inv s'"
    by (rule ready_inv_change [OF I(1)]) (use I(5) in \<open>auto simp: s'_def registered_cb_def cb_entry_new_def\<close>)
  then show ?thesis unfolding eq using None I(2) [of fd]
    by (intro epoll_inv_change [OF inv]) (auto simp: s'_def watched_def add_fd_def cb_entry_new_def)
next
  case (Some e)
  note I = epoll_inv_parts [OF inv]
  define s1 where "s1 = (if entry_cb e \<noteq> None then mod_fd fd m (remove_from_ready_list fd s) else add_fd fd m s)"
  have interest: "interest s1 = (interest s)(fd \<mapsto> m OR EPOLLERR_HUP)" and map: "cb_map s1 = cb_map s"
    using Some I(2) [of fd] by (simp_all add: s1_def mod_fd_def add_fd_def watched_def)
  have r1: "ready_inv s1"
    using I(1) ready_inv_remove [OF I(1), of fd] by (auto simp: s1_def intro: ready_inv_cong)
  define s' where "s' = update_entry fd (\<lambda>e. e\<lparr>entry_cb := Some cb, cb_event_mask := m, events_to_fake := 0\<rparr>) s1"
  have eq: "register_fd fd cb m s = s'" using Some by (simp add: register_fd_def s'_def s1_def)
  have "ready_inv s'"
    by (rule ready_inv_change [OF r1])
      (use r1 map Some in \<open>auto simp: s'_def registered_cb_def ready_inv_def\<close>)
  then show ?thesis unfolding eq using Some I(3) [of fd] map interest
    by (intro epoll_inv_change [OF inv, where fd = fd]) (auto simp: s'_def watched_def)
qed

lemma unregister_fd_inv:
  assumes inv: "epoll_inv D s"
  shows "epoll_inv D (unregister_fd fd s)"
proof (cases "registered_cb s fd")
  case None
  then have "unregister_fd fd s = s" by (auto simp: unregister_fd_def registered_cb_def split: option.splits)
  then show ?thesis using inv by simp
next
  case (Some cb)
  then obtain e where e: "cb_map s fd = Some e" "entry_cb e = Some cb" by (auto simp: registered_cb_def Option.bind_eq_Some_conv)
  note I = epoll_inv_parts [OF inv]
  define s1 where "s1 = del_fd fd (remove_from_ready_list fd s)"
  have s1: "cb_map s1 = cb_map s" "interest s1 = (interest s)(fd := None)" "listed x s1 \<longleftrightarrow> x \<noteq> fd \<and> listed x s" for x
    using listed_remove [OF I(1)] by (simp_all add: s1_def del_fd_def listed_def)
  have r1: "ready_inv s1"
    using ready_inv_remove [OF I(1), of fd] by (rule ready_inv_cong) (simp_all add: s1_def)
  define s' where "s' = (if \<not> in_use e then erase_entry fd s1
      else update_entry fd (\<lambda>e. e\<lparr>entry_cb := None, cb_event_mask := 0, events_to_fake := 0\<rparr>) s1)"
  have eq: "unregister_fd fd s = s'" using e by (simp add: unregister_fd_def s1_def s'_def)
  have "ready_inv s'"
    by (rule ready_inv_change [OF r1]) (use r1 s1(3) in \<open>auto simp: s'_def ready_inv_def registered_cb_def\<close>)
  then show ?thesis unfolding eq using e s1(1,2) I(3) [of fd]
    by (intro epoll_inv_change [OF inv, where fd = fd and x = "if in_use e then Some (e\<lparr>entry_cb := None, cb_event_mask := 0,
        events_to_fake := 0\<rparr>) else None"])
      (auto simp: s'_def watched_def fun_eq_iff split: if_splits)
qed

lemma modify_fd_inv:
  assumes inv: "epoll_inv D s"
  shows "epoll_inv D (modify_fd fd rm ad s)"
proof (cases "registered_cb s fd")
  case None
  then have "modify_fd fd rm ad s = s" by (auto simp: modify_fd_def registered_cb_def split: option.splits)
  then show ?thesis using inv by simp
next
  case (Some cb)
  then obtain e where e: "cb_map s fd = Some e" "entry_cb e = Some cb" by (auto simp: registered_cb_def Option.bind_eq_Some_conv)
  note I = epoll_inv_parts [OF inv]
  define m where "m = (cb_event_mask e AND NOT rm) OR ad"
  define s' where "s' = mod_fd fd m (update_entry fd (\<lambda>e. e\<lparr>cb_event_mask := m\<rparr>) s)"
  have eq: "modify_fd fd rm ad s = s'" using e by (simp add: modify_fd_def s'_def m_def Let_def)
  have "ready_inv s'"
    by (rule ready_inv_change [OF I(1)]) (use I(5) e in \<open>auto simp: s'_def registered_cb_def\<close>)
  then show ?thesis unfolding eq using e I(2,3) [of fd]
    by (intro epoll_inv_change [OF inv, where fd = fd]) (auto simp: s'_def watched_def mod_fd_def)
qed

lemma set_fd_ready_inv:
  assumes inv: "epoll_inv D s"
  shows "epoll_inv D (set_fd_ready fd m s)" "epoll_inv D (epoll_handle_event fd m s)"
proof -
  have "epoll_inv D (add_to_ready_list fd (update_entry fd f s))"
    if f: "\<And>e. entry_cb (f e) = entry_cb e \<and> cb_event_mask (f e) = cb_event_mask e \<and> in_use (f e) = in_use e"
      and reg: "registered_cb s fd \<noteq> None" for f
  proof -
    have "ready_inv (update_entry fd f s)"
      by (rule ready_inv_change [where s = s])
        (use inv f in \<open>auto simp: epoll_inv_def ready_inv_def registered_cb_def Option.bind_eq_None_conv\<close>)
    moreover have "registered_cb (update_entry fd f s) fd \<noteq> None"
      using reg f by (auto simp: registered_cb_def Option.bind_eq_None_conv)
    ultimately have "ready_inv (add_to_ready_list fd (update_entry fd f s))" by (rule ready_inv_add)
    moreover have "watched (add_to_ready_list fd (update_entry fd f s)) = watched s"
      using f by (auto simp: watched_def fun_eq_iff split: option.splits)
    ultimately show ?thesis using inv f by (auto simp: epoll_inv_def split: if_splits)
  qed
  then show "epoll_inv D (set_fd_ready fd m s)" "epoll_inv D (epoll_handle_event fd m s)"
    using inv by (simp_all add: set_fd_ready_def epoll_handle_event_def)
qed

lemma epoll_inv_remove: "epoll_inv D s \<Longrightarrow> epoll_inv D (remove_from_ready_list fd s)"
  by (simp add: epoll_inv_def ready_inv_remove watched_def fun_eq_iff)

text \<open>Alarms do not touch the descriptors.\<close>

lemma epoll_inv_alarms:
  "epoll_inv D s \<Longrightarrow> cb_map s' = cb_map s \<Longrightarrow> ready_fds s' = ready_fds s \<Longrightarrow> tmp_fds s' = tmp_fds s \<Longrightarrow>
    ready_list_size s' = ready_list_size s \<Longrightarrow> interest s' = interest s \<Longrightarrow> epoll_inv D s'"
  by (simp add: epoll_inv_def ready_inv_def listed_def registered_cb_def watched_def fun_eq_iff)

lemma run_command_inv:
  assumes inv: "epoll_inv D s" and run: "run_command c s = Some s'"
  shows "epoll_inv D s'"
proof (cases c)
  case (Do_Set_FD_Not_Ready fd)
  then show ?thesis using run inv epoll_inv_remove [OF inv] by (auto simp: set_fd_not_ready_def split: if_splits)
next
  case (Do_Register_Alarm t a)
  then show ?thesis using run by (intro epoll_inv_alarms [OF inv]) (auto simp: register_alarm_def split: if_splits)
next
  case (Do_Unregister_Alarm a)
  then show ?thesis using run
    by (intro epoll_inv_alarms [OF inv]) (auto simp: unregister_if_registered_def unregister_alarm_def split: option.splits)
next
  case (Do_Reregister_Alarm a t)
  then show ?thesis using run by (intro epoll_inv_alarms [OF inv]) (auto simp: reregister_alarm_def split: option.splits)
next
  case (Do_Update_Alarm a t)
  then show ?thesis using run
    by (intro epoll_inv_alarms [OF inv])
      (auto simp: epoll_update_alarm_def reregister_alarm_def register_alarm_def split: option.splits if_splits)
qed (use run register_fd_inv [OF inv] unregister_fd_inv [OF inv] modify_fd_inv [OF inv] set_fd_ready_inv [OF inv] in auto)

lemma run_commands_inv: "epoll_inv D s \<Longrightarrow> run_commands cs s = Some s' \<Longrightarrow> epoll_inv D s'"
  by (induction cs arbitrary: s) (auto simp: Option.bind_eq_Some_conv dest: run_command_inv)

section \<open>Calling the ready list\<close>

text \<open>While a callback runs, the entry of its descriptor is in use: it is not erased.\<close>

definition kept :: "int \<Rightarrow> 'h epoll_server \<Rightarrow> bool" where
  "kept fd s \<longleftrightarrow> (\<exists>e. cb_map s fd = Some e \<and> in_use e)"

lemma run_command_kept: "kept fd s \<Longrightarrow> run_command c s = Some s' \<Longrightarrow> kept fd s'"
  by (cases c) (auto simp: kept_def register_fd_def unregister_fd_def modify_fd_def set_fd_ready_def set_fd_not_ready_def
      register_alarm_def unregister_if_registered_def unregister_alarm_def reregister_alarm_def epoll_update_alarm_def Let_def
      split: option.splits if_splits)

lemma run_commands_kept: "kept fd s \<Longrightarrow> run_commands cs s = Some s' \<Longrightarrow> kept fd s'"
  by (induction cs arbitrary: s) (auto simp: Option.bind_eq_Some_conv dest: run_command_kept)

lemma start_call_inv:
  assumes inv: "epoll_inv None s" and reg: "registered_cb s fd \<noteq> None"
  shows "epoll_inv (Some fd) ((start_call fd s)\<lparr>client_state := h\<rparr>)" "kept fd ((start_call fd s)\<lparr>client_state := h\<rparr>)"
proof -
  obtain e cb where e: "cb_map s fd = Some e" "entry_cb e = Some cb"
    using reg by (auto simp: registered_cb_def Option.bind_eq_Some_conv)
  note I = epoll_inv_parts [OF inv]
  have inv': "epoll_inv (Some fd) (remove_from_ready_list fd s)"
    using epoll_inv_remove [OF inv, of fd] unfolding epoll_inv_def by auto
  have "ready_inv (start_call fd s)"
    unfolding start_call_def
    by (rule ready_inv_change [OF ready_inv_remove [OF I(1), of fd]])
      (use ready_inv_remove [OF I(1), of fd] e in \<open>auto simp: ready_inv_def registered_cb_def\<close>)
  then have "epoll_inv (Some fd) (start_call fd s)"
    using e I(2) [of fd] by (intro epoll_inv_change [OF inv', where fd = fd]) (auto simp: start_call_def watched_def)
  then show "epoll_inv (Some fd) ((start_call fd s)\<lparr>client_state := h\<rparr>)" by (rule epoll_inv_alarms) simp_all
  show "kept fd ((start_call fd s)\<lparr>client_state := h\<rparr>)" using e by (simp add: kept_def start_call_def)
qed

lemma finish_call_inv:
  assumes inv: "epoll_inv (Some fd) s" and kept: "kept fd s"
  shows "\<exists>s'. finish_call fd False out_mask s = Some s' \<and> epoll_inv None s'"
proof -
  obtain e where e: "cb_map s fd = Some e" "in_use e" using kept by (auto simp: kept_def)
  note I = epoll_inv_parts [OF inv]
  have other: "\<not> in_use e'" if "cb_map s fd' = Some e'" "fd' \<noteq> fd" for fd' e' using I(3) [OF that(1)] that(2) by auto
  have none: "epoll_inv None s'" if s': "epoll_inv (Some fd) s'" "\<And>e. cb_map s' fd = Some e \<Longrightarrow> \<not> in_use e" for s' :: "'a epoll_server"
    using s' unfolding epoll_inv_def by (metis option.inject)
  show ?thesis
  proof (cases "entry_cb e = None")
    case True
    have unlisted: "\<not> listed fd s" using I(5) [of fd] e(1) True by (auto simp: registered_cb_def)
    have r: "ready_inv (erase_entry fd (update_entry fd (\<lambda>e. e\<lparr>in_use := False\<rparr>) s))"
      by (rule ready_inv_change [OF I(1)]) (use I(5) unlisted in \<open>auto simp: registered_cb_def\<close>)
    have "epoll_inv (Some fd) (erase_entry fd (update_entry fd (\<lambda>e. e\<lparr>in_use := False\<rparr>) s))"
      using e True r I(2) [of fd] by (intro epoll_inv_change [OF inv, where fd = fd and x = None]) (auto simp: watched_def fun_eq_iff)
    from none [OF this] show ?thesis using e True by (simp add: finish_call_def)
  next
    case False
    define g :: "cb_and_event_mask \<Rightarrow> cb_and_event_mask" where "g = (\<lambda>e. (if out_mask \<noteq> 0 then e\<lparr>in_use := False, events_to_fake := out_mask\<rparr> else e\<lparr>in_use := False\<rparr>))"
    have g: "entry_cb (g e) = entry_cb e" "cb_event_mask (g e) = cb_event_mask e" "\<not> in_use (g e)" for e
      by (simp_all add: g_def)
    have ru: "ready_inv (update_entry fd g s)"
      by (rule ready_inv_change [OF I(1)]) (use I(5) e False g in \<open>auto simp: registered_cb_def\<close>)
    have u: "epoll_inv (Some fd) (update_entry fd g s)"
      using e False g ru I(2) [of fd]
      by (intro epoll_inv_change [OF inv, where fd = fd and x = "Some (g e)"]) (auto simp: watched_def fun_eq_iff)
    have "ready_inv (add_to_ready_list fd (update_entry fd g s))"
      using ru e False g by (intro ready_inv_add) (simp_all add: registered_cb_def)
    then have a: "epoll_inv (Some fd) (add_to_ready_list fd (update_entry fd g s))"
      using u by (simp add: epoll_inv_def watched_def fun_eq_iff)
    have "epoll_inv None (add_to_ready_list fd (update_entry fd g s))" by (rule none [OF a]) (use e g in auto)
    moreover have "epoll_inv None (update_entry fd g s)" by (rule none [OF u]) (use e g in auto)
    moreover have "finish_call fd False out_mask s =
        Some (if out_mask \<noteq> 0 then add_to_ready_list fd (update_entry fd g s) else update_entry fd g s)"
      using e False by (auto simp: finish_call_def g_def update_entry_def Let_def)
    ultimately show ?thesis by simp
  qed
qed

section \<open>Alarms\<close>

definition entry_token :: "alarm_entry \<Rightarrow> nat" where "entry_token x = fst (snd x)"
definition entry_alarm :: "alarm_entry \<Rightarrow> nat" where "entry_alarm x = snd (snd x)"

lemma entry_simps [simp]: "entry_token (t, n, a) = n" "entry_alarm (t, n, a) = a"
  by (simp_all add: entry_token_def entry_alarm_def)

definition alarms_inv :: "'h epoll_server \<Rightarrow> bool" where
  "alarms_inv s \<longleftrightarrow> sorted (map fst (alarm_map s)) \<and> distinct (map entry_token (alarm_map s)) \<and>
     (\<forall>x \<in> set (alarm_map s). entry_token x < next_token s) \<and>
     all_alarms s = entry_alarm ` set (alarm_map s) \<and>
     (\<forall>a n. alarm_token s a = Some n \<longleftrightarrow> (\<exists>t. (t, n, a) \<in> set (alarm_map s)))"

lemma set_insert_alarm [simp]: "set (insert_alarm x xs) = insert x (set xs)"
  by (induction xs) auto

lemma sorted_insert_alarm: "sorted (map fst xs) \<Longrightarrow> sorted (map fst (insert_alarm x xs))"
  by (induction xs) auto

lemma tokens_insert_alarm:
  "distinct (map entry_token (insert_alarm x xs)) \<longleftrightarrow> distinct (map entry_token xs) \<and> entry_token x \<notin> entry_token ` set xs"
  by (induction xs) auto

lemma set_erase_token: "set (erase_token n xs) = {x \<in> set xs. entry_token x \<noteq> n}"
  by (auto simp: erase_token_def)

lemma sorted_erase_token: "sorted (map fst xs) \<Longrightarrow> sorted (map fst (erase_token n xs))"
  by (simp add: erase_token_def sorted_filter)

lemma distinct_erase_token: "distinct (map entry_token xs) \<Longrightarrow> distinct (map entry_token (erase_token n xs))"
  by (simp add: erase_token_def distinct_map_filter)

lemma erase_token_none: "n \<notin> entry_token ` set xs \<Longrightarrow> erase_token n xs = xs"
  by (induction xs) (auto simp: erase_token_def)

lemma entry_unique:
  assumes "distinct (map entry_token xs)" "(t, n, a) \<in> set xs" "(t', n, a') \<in> set xs"
  shows "t' = t \<and> a' = a"
  using assms by (induction xs) force+

lemma register_alarm_inv:
  assumes inv: "alarms_inv s" and run: "register_alarm t a s = Some s'"
  shows "alarms_inv s'"
proof -
  have free: "a \<notin> entry_alarm ` set (alarm_map s)" and
    s': "s' = s\<lparr>alarm_map := insert_alarm (t, next_token s, a) (alarm_map s), all_alarms := insert a (all_alarms s),
      alarm_token := (alarm_token s)(a \<mapsto> next_token s), next_token := next_token s + 1\<rparr>"
    using inv run by (auto simp: register_alarm_def alarms_inv_def split: if_splits)
  have old: "\<exists>t. (t, n, b) \<in> set (alarm_map s) \<Longrightarrow> b \<noteq> a" for n b using free by force
  have fresh: "(t', next_token s, b) \<notin> set (alarm_map s)" for t' b using inv by (force simp: alarms_inv_def)
  have less: "\<forall>x \<in> set (alarm_map s). entry_token x < next_token s" using inv by (simp add: alarms_inv_def)
  then have new: "next_token s \<notin> entry_token ` set (alarm_map s)" by fastforce
  have tok: "alarm_token s' b = Some n \<longleftrightarrow> (\<exists>t'. (t', n, b) \<in> set (alarm_map s'))" for b n
    using inv old fresh by (auto simp: s' alarms_inv_def)
  then show ?thesis using inv new less by (auto simp: alarms_inv_def s' sorted_insert_alarm tokens_insert_alarm less_Suc_eq)
qed

lemma alarm_free_iff:
  assumes "alarms_inv s"
  shows "a \<notin> all_alarms s \<longleftrightarrow> alarm_token s a = None"
proof -
  have tok: "alarm_token s a = Some n \<longleftrightarrow> (\<exists>t. (t, n, a) \<in> set (alarm_map s))" for n
    using assms unfolding alarms_inv_def by blast
  have "all_alarms s = entry_alarm ` set (alarm_map s)" using assms by (simp add: alarms_inv_def)
  then have "a \<in> all_alarms s \<longleftrightarrow> (\<exists>t n. (t, n, a) \<in> set (alarm_map s))" by force
  then show ?thesis using tok by (metis not_None_eq)
qed

lemma unregister_if_registered_inv:
  assumes inv: "alarms_inv s"
  shows "alarms_inv (unregister_if_registered a s)" "a \<notin> all_alarms (unregister_if_registered a s)"
proof -
  show "alarms_inv (unregister_if_registered a s)"
  proof (cases "alarm_token s a")
    case None
    then show ?thesis using inv by (simp add: unregister_if_registered_def)
  next
    case (Some n)
    then obtain t where t: "(t, n, a) \<in> set (alarm_map s)" using inv by (auto simp: alarms_inv_def)
    have d: "distinct (map entry_token (alarm_map s))" using inv by (simp add: alarms_inv_def)
    have uniq: "b = a" if "(u, n, b) \<in> set (alarm_map s)" for u b using entry_unique [OF d t that] by simp
    have own: "m = n" if "(u, m, a) \<in> set (alarm_map s)" for u m
    proof -
      have "alarm_token s a = Some m" using inv that unfolding alarms_inv_def by blast
      then show ?thesis using Some by simp
    qed
    have "entry_alarm ` set (erase_token n (alarm_map s)) = entry_alarm ` set (alarm_map s) - {a}"
    proof (intro equalityI subsetI)
      fix b assume "b \<in> entry_alarm ` set (erase_token n (alarm_map s))"
      then obtain u m where "(u, m, b) \<in> set (alarm_map s)" "m \<noteq> n" by (auto simp: set_erase_token)
      then show "b \<in> entry_alarm ` set (alarm_map s) - {a}" using own by (auto intro: image_eqI [where x = "(u, m, b)"])
    next
      fix b assume "b \<in> entry_alarm ` set (alarm_map s) - {a}"
      then obtain u m where "(u, m, b) \<in> set (alarm_map s)" "b \<noteq> a" by auto
      then show "b \<in> entry_alarm ` set (erase_token n (alarm_map s))"
        using uniq by (auto simp: set_erase_token intro!: image_eqI [where x = "(u, m, b)"])
    qed
    moreover have "((alarm_token s)(a := None)) b = Some m \<longleftrightarrow> (\<exists>u. (u, m, b) \<in> set (erase_token n (alarm_map s)))" for b m
    proof (cases "b = a")
      case True
      then show ?thesis using own by (auto simp: set_erase_token)
    next
      case False
      have "alarm_token s b = Some m \<longleftrightarrow> (\<exists>u. (u, m, b) \<in> set (alarm_map s))" using inv unfolding alarms_inv_def by blast
      then show ?thesis using False uniq by (auto simp: set_erase_token)
    qed
    moreover have "sorted (map fst (erase_token n (alarm_map s)))" "distinct (map entry_token (erase_token n (alarm_map s)))"
      "\<forall>x \<in> set (erase_token n (alarm_map s)). entry_token x < next_token s"
      "all_alarms s = entry_alarm ` set (alarm_map s)"
      using inv by (simp_all add: alarms_inv_def sorted_erase_token distinct_erase_token set_erase_token)
    ultimately show ?thesis using Some
      by (simp add: unregister_if_registered_def unregister_alarm_def alarms_inv_def)
  qed
  from alarm_free_iff [OF this] show "a \<notin> all_alarms (unregister_if_registered a s)"
    by (simp add: unregister_if_registered_def unregister_alarm_def split: option.split)
qed

lemma reregister_alarm_inv:
  assumes inv: "alarms_inv s" and run: "reregister_alarm a t s = Some s'"
  shows "alarms_inv s'"
proof -
  obtain n where n: "alarm_token s a = Some n" using run by (auto simp: reregister_alarm_def split: option.splits)
  define u where "u = unregister_if_registered a s"
  have u: "alarms_inv u" "a \<notin> all_alarms u" unfolding u_def by (rule unregister_if_registered_inv [OF inv])+
  have "a \<in> all_alarms s" using n alarm_free_iff [OF inv, of a] by simp
  then have same: "insert a (all_alarms s - {a}) = all_alarms s" by blast
  have s': "s' = s\<lparr>alarm_map := insert_alarm (t, next_token s, a) (erase_token n (alarm_map s)),
      alarm_token := (alarm_token s)(a \<mapsto> next_token s), next_token := next_token s + 1\<rparr>"
    using run n by (simp add: reregister_alarm_def)
  have u': "u = s\<lparr>alarm_map := erase_token n (alarm_map s), all_alarms := all_alarms s - {a}, alarm_token := (alarm_token s)(a := None)\<rparr>"
    using n by (simp add: u_def unregister_if_registered_def unregister_alarm_def)
  have "register_alarm t a u = Some s'"
    by (simp add: register_alarm_def u' s' same del: insert_Diff_single)
  then show ?thesis using register_alarm_inv [OF u(1)] by blast
qed

lemma alarms_inv_cong:
  "alarms_inv s \<Longrightarrow> alarm_map s' = alarm_map s \<Longrightarrow> next_token s' = next_token s \<Longrightarrow> all_alarms s' = all_alarms s \<Longrightarrow>
    alarm_token s' = alarm_token s \<Longrightarrow> alarms_inv s'"
  by (simp add: alarms_inv_def)

lemma descriptor_alarm_fields [simp]:
  "alarm_map (update_entry fd f s) = alarm_map s" "next_token (update_entry fd f s) = next_token s"
  "all_alarms (update_entry fd f s) = all_alarms s" "alarm_token (update_entry fd f s) = alarm_token s"
  "alarm_map (erase_entry fd s) = alarm_map s" "next_token (erase_entry fd s) = next_token s"
  "all_alarms (erase_entry fd s) = all_alarms s" "alarm_token (erase_entry fd s) = alarm_token s"
  "alarm_map (add_fd fd m s) = alarm_map s" "next_token (add_fd fd m s) = next_token s"
  "all_alarms (add_fd fd m s) = all_alarms s" "alarm_token (add_fd fd m s) = alarm_token s"
  "alarm_map (mod_fd fd m s) = alarm_map s" "next_token (mod_fd fd m s) = next_token s"
  "all_alarms (mod_fd fd m s) = all_alarms s" "alarm_token (mod_fd fd m s) = alarm_token s"
  "alarm_map (del_fd fd s) = alarm_map s" "next_token (del_fd fd s) = next_token s"
  "all_alarms (del_fd fd s) = all_alarms s" "alarm_token (del_fd fd s) = alarm_token s"
  "alarm_map (add_to_ready_list fd s) = alarm_map s" "next_token (add_to_ready_list fd s) = next_token s"
  "all_alarms (add_to_ready_list fd s) = all_alarms s" "alarm_token (add_to_ready_list fd s) = alarm_token s"
  "alarm_map (remove_from_ready_list fd s) = alarm_map s" "next_token (remove_from_ready_list fd s) = next_token s"
  "all_alarms (remove_from_ready_list fd s) = all_alarms s" "alarm_token (remove_from_ready_list fd s) = alarm_token s"
  by (simp_all add: update_entry_def erase_entry_def add_fd_def mod_fd_def del_fd_def add_to_ready_list_def
      remove_from_ready_list_def)

lemma run_command_alarms:
  assumes inv: "alarms_inv s" and run: "run_command c s = Some s'"
  shows "alarms_inv s'"
proof (cases c)
  case (Do_Register_Alarm t a)
  then show ?thesis using run register_alarm_inv [OF inv] by simp
next
  case (Do_Unregister_Alarm a)
  then show ?thesis using run unregister_if_registered_inv(1) [OF inv] by auto
next
  case (Do_Reregister_Alarm a t)
  then show ?thesis using run reregister_alarm_inv [OF inv] by simp
next
  case (Do_Update_Alarm a t)
  then show ?thesis using run reregister_alarm_inv [OF inv] register_alarm_inv [OF inv]
    by (auto simp: epoll_update_alarm_def split: if_splits)
qed (use run in \<open>auto intro!: alarms_inv_cong [OF inv] simp: register_fd_def unregister_fd_def modify_fd_def set_fd_ready_def
      set_fd_not_ready_def Let_def split: option.splits if_splits\<close>)

section \<open>Clients\<close>

text \<open>
  The commands that a client of the program gives: descriptors as it likes, alarms through
  \<open>QuicEpollAlarm\<close>, which moves, registers or cancels them.  They always return.
\<close>

fun client_command :: "epoll_command \<Rightarrow> bool" where
  "client_command (Do_Register_Alarm _ _) = False"
| "client_command (Do_Reregister_Alarm _ _) = False"
| "client_command _ = True"

definition event_client :: "'h epoll_client \<Rightarrow> bool" where
  "event_client K \<longleftrightarrow> (\<forall>cb fd m h. list_all client_command (fst (on_event K cb fd m h)))"

lemma epoll_update_alarm_eq:
  assumes inv: "alarms_inv s"
  shows "epoll_update_alarm a t s = register_alarm t a (unregister_if_registered a s)"
proof (cases "alarm_token s a")
  case None
  then show ?thesis by (simp add: epoll_update_alarm_def unregister_if_registered_def)
next
  case (Some n)
  then have "a \<in> all_alarms s" using alarm_free_iff [OF inv, of a] by simp
  then have "insert a (all_alarms s - {a}) = all_alarms s" by blast
  then show ?thesis using Some
    by (simp add: epoll_update_alarm_def reregister_alarm_def unregister_if_registered_def unregister_alarm_def
        register_alarm_def del: insert_Diff_single)
qed

lemma epoll_update_alarm_returns: "alarms_inv s \<Longrightarrow> \<exists>s'. epoll_update_alarm a t s = Some s'"
  by (simp add: epoll_update_alarm_eq register_alarm_def unregister_if_registered_inv(2))

lemma client_command_returns: "alarms_inv s \<Longrightarrow> client_command c \<Longrightarrow> \<exists>s'. run_command c s = Some s' \<and> alarms_inv s'"
proof -
  assume inv: "alarms_inv s" and c: "client_command c"
  have "\<exists>s'. run_command c s = Some s'" using c epoll_update_alarm_returns [OF inv] by (cases c) auto
  then show ?thesis using run_command_alarms [OF inv] by blast
qed

lemma run_commands_alarms: "alarms_inv s \<Longrightarrow> run_commands cs s = Some s' \<Longrightarrow> alarms_inv s'"
  by (induction cs arbitrary: s) (auto simp: Option.bind_eq_Some_conv dest: run_command_alarms)

lemma client_commands_return: "alarms_inv s \<Longrightarrow> list_all client_command cs \<Longrightarrow> \<exists>s'. run_commands cs s = Some s'"
proof (induction cs arbitrary: s)
  case (Cons c cs)
  then obtain s1 where "run_command c s = Some s1" "alarms_inv s1" using client_command_returns [of s c] by auto
  then show ?case using Cons.IH [of s1] Cons.prems by auto
qed simp

section \<open>Calling the callbacks\<close>

text \<open>What takes a descriptor off the list that is being called.\<close>

fun takes_off :: "int \<Rightarrow> epoll_command \<Rightarrow> bool" where
  "takes_off fd (Do_Register_FD fd' _ _) \<longleftrightarrow> fd' = fd"
| "takes_off fd (Do_Unregister_FD fd') \<longleftrightarrow> fd' = fd"
| "takes_off fd (Do_Set_FD_Not_Ready fd') \<longleftrightarrow> fd' = fd"
| "takes_off fd _ \<longleftrightarrow> False"

definition shortened :: "(int \<Rightarrow> bool) \<Rightarrow> 'h epoll_server \<Rightarrow> 'h epoll_server \<Rightarrow> bool" where
  "shortened taken s s' \<longleftrightarrow> tmp_fds s' = filter (\<lambda>fd. fd \<in> set (tmp_fds s')) (tmp_fds s) \<and>
     (\<forall>fd \<in> set (tmp_fds s) - set (tmp_fds s'). taken fd) \<and>
     (\<forall>fd \<in> set (tmp_fds s'). registered_cb s' fd = registered_cb s fd)"

lemma shortened_same: "tmp_fds s' = tmp_fds s \<Longrightarrow> (\<And>fd. fd \<in> set (tmp_fds s) \<Longrightarrow> registered_cb s' fd = registered_cb s fd) \<Longrightarrow> shortened T s s'"
  by (simp add: shortened_def)

lemma shortened_remove:
  assumes "distinct (tmp_fds s)" "tmp_fds s' = remove1 fd (tmp_fds s)" "T fd"
    "\<And>x. x \<noteq> fd \<Longrightarrow> registered_cb s' x = registered_cb s x"
  shows "shortened T s s'"
  using assms by (auto simp: shortened_def distinct_remove1_removeAll removeAll_filter_not_eq intro!: filter_cong)

lemma filter_filter_set:
  assumes "ys = filter P xs" "zs = filter Q ys"
  shows "filter (\<lambda>x. x \<in> set zs) xs = filter (\<lambda>x. x \<in> set zs) ys"
  using assms by (auto intro: filter_cong)

lemma shortened_trans:
  assumes "shortened T s s1" "shortened U s1 s'"
  shows "shortened (\<lambda>fd. T fd \<or> U fd) s s'"
proof -
  have "set (tmp_fds s') \<subseteq> set (tmp_fds s1)" "set (tmp_fds s1) \<subseteq> set (tmp_fds s)"
    using assms unfolding shortened_def by (metis filter_is_subset)+
  moreover have "filter (\<lambda>fd. fd \<in> set (tmp_fds s')) (tmp_fds s) = filter (\<lambda>fd. fd \<in> set (tmp_fds s')) (tmp_fds s1)"
    by (rule filter_filter_set [OF assms(1) [unfolded shortened_def, THEN conjunct1] assms(2) [unfolded shortened_def, THEN conjunct1]])
  ultimately show ?thesis using assms by (auto simp: shortened_def)
qed

lemma registered_cb_simps [simp]:
  "registered_cb (mod_fd fd m s) = registered_cb s" "registered_cb (add_to_ready_list fd s) = registered_cb s"
  "registered_cb (add_fd fd m s) = registered_cb s" "registered_cb (del_fd fd s) = registered_cb s"
  "registered_cb (remove_from_ready_list fd s) = registered_cb s" "registered_cb (s\<lparr>client_state := h\<rparr>) = registered_cb s"
  by (simp_all add: registered_cb_def fun_eq_iff)

lemma registered_cb_update:
  "(\<And>e. entry_cb (f e) = entry_cb e) \<Longrightarrow> registered_cb (update_entry fd f s) = registered_cb s"
  by (auto simp: registered_cb_def fun_eq_iff split: Option.bind_splits)

lemma registered_cb_other:
  "x \<noteq> fd \<Longrightarrow> registered_cb (update_entry fd f s) x = registered_cb s x"
  "x \<noteq> fd \<Longrightarrow> registered_cb (erase_entry fd s) x = registered_cb s x"
  by (simp_all add: registered_cb_def)

lemma alarm_command_shortened:
  assumes "run_command c s = Some s'" "cb_map s' = cb_map s" "tmp_fds s' = tmp_fds s"
  shows "shortened T s s'"
  by (rule shortened_same) (simp_all add: assms registered_cb_def)

lemma run_command_shortened:
  assumes inv: "epoll_inv D s" and run: "run_command c s = Some s'"
  shows "shortened (\<lambda>fd. takes_off fd c) s s'"
proof (cases c)
  case (Do_Register_FD fd cb m)
  have d: "distinct (tmp_fds s)" using epoll_inv_parts(1) [OF inv] by (simp add: ready_inv_def)
  have other: "registered_cb s' x = registered_cb s x" if "x \<noteq> fd" for x
    using that run Do_Register_FD by (auto simp: register_fd_def Let_def registered_cb_def split: option.splits)
  have "fd \<notin> set (tmp_fds s)" if "registered_cb s fd = None"
    using that epoll_inv_parts(5) [OF inv, of fd] by (auto simp: listed_def)
  then have "tmp_fds s' = remove1 fd (tmp_fds s)"
    using run Do_Register_FD by (auto simp: register_fd_def Let_def remove_from_ready_list_tmp registered_cb_def remove1_idem
        split: option.splits)
  then show ?thesis by (rule shortened_remove [OF d]) (simp_all add: Do_Register_FD other)
next
  case (Do_Unregister_FD fd)
  have d: "distinct (tmp_fds s)" using epoll_inv_parts(1) [OF inv] by (simp add: ready_inv_def)
  have other: "registered_cb s' x = registered_cb s x" if "x \<noteq> fd" for x
    using that run Do_Unregister_FD by (auto simp: unregister_fd_def Let_def registered_cb_def split: option.splits)
  have "fd \<notin> set (tmp_fds s)" if "registered_cb s fd = None"
    using that epoll_inv_parts(5) [OF inv, of fd] by (auto simp: listed_def)
  then have "tmp_fds s' = remove1 fd (tmp_fds s)"
    using run Do_Unregister_FD by (auto simp: unregister_fd_def Let_def remove_from_ready_list_tmp registered_cb_def remove1_idem
        split: option.splits)
  then show ?thesis by (rule shortened_remove [OF d]) (simp_all add: Do_Unregister_FD other)
next
  case (Do_Set_FD_Not_Ready fd)
  have d: "distinct (tmp_fds s)" using epoll_inv_parts(1) [OF inv] by (simp add: ready_inv_def)
  show ?thesis
  proof (cases "cb_map s fd")
    case None
    then show ?thesis using run Do_Set_FD_Not_Ready by (auto simp: set_fd_not_ready_def intro: shortened_same)
  next
    case (Some e)
    then show ?thesis using run Do_Set_FD_Not_Ready
      by (intro shortened_remove [OF d, where fd = fd]) (auto simp: set_fd_not_ready_def remove_from_ready_list_tmp)
  qed
qed (use run in \<open>auto intro!: shortened_same simp: modify_fd_def set_fd_ready_def registered_cb_update Let_def register_alarm_def
      unregister_if_registered_def unregister_alarm_def reregister_alarm_def epoll_update_alarm_def registered_cb_def
      split: option.splits if_splits\<close>)

lemma run_commands_shortened:
  "epoll_inv D s \<Longrightarrow> run_commands cs s = Some s' \<Longrightarrow> shortened (\<lambda>fd. \<exists>c \<in> set cs. takes_off fd c) s s'"
proof (induction cs arbitrary: s)
  case Nil
  then show ?case by (simp add: shortened_same)
next
  case (Cons c cs)
  then obtain s1 where s1: "run_command c s = Some s1" "run_commands cs s1 = Some s'" by (auto simp: Option.bind_eq_Some_conv)
  have "shortened (\<lambda>fd. takes_off fd c) s s1" by (rule run_command_shortened [OF Cons.prems(1) s1(1)])
  moreover have "shortened (\<lambda>fd. \<exists>c \<in> set cs. takes_off fd c) s1 s'"
    by (rule Cons.IH [OF run_command_inv [OF Cons.prems(1) s1(1)] s1(2)])
  ultimately show ?case using shortened_trans by fastforce
qed

lemma finish_call_cb:
  assumes fin: "finish_call fd u out_mask s = Some s'" and x: "registered_cb s x \<noteq> None"
  shows "registered_cb s' x = registered_cb s x"
proof -
  obtain e where e: "cb_map s fd = Some e" using fin by (auto simp: finish_call_def Option.bind_eq_Some_conv)
  show ?thesis
  proof (cases "entry_cb e = None")
    case True
    then have "x \<noteq> fd" using x e by (auto simp: registered_cb_def)
    then show ?thesis using fin e True by (auto simp: finish_call_def registered_cb_def)
  next
    case False
    then have "s' = (let s1 = update_entry fd (\<lambda>e. e\<lparr>in_use := u\<rparr>) s in
        if out_mask \<noteq> 0 then add_to_ready_list fd (update_entry fd (\<lambda>e. e\<lparr>events_to_fake := out_mask\<rparr>) s1) else s1)"
      using fin e by (simp add: finish_call_def Let_def split: if_splits)
    then show ?thesis by (simp add: Let_def registered_cb_update)
  qed
qed

lemma call_one_inv:
  assumes inv: "epoll_inv None s" and alarms: "alarms_inv s" and reg: "registered_cb s fd = Some cb" and K: "event_client K"
  shows "\<exists>m h s'. call_one K fd s = Some ((fd, cb, m), s') \<and> epoll_inv None s' \<and> alarms_inv s' \<and>
    shortened (\<lambda>x. x = fd \<or> (\<exists>c \<in> set (fst (on_event K cb fd m h)). takes_off x c)) s s'"
proof -
  obtain e where e: "cb_map s fd = Some e" "entry_cb e = Some cb"
    using reg by (auto simp: registered_cb_def Option.bind_eq_Some_conv)
  define m where "m = events_asserted e OR events_to_fake e"
  obtain cs out_mask h where ev: "on_event K cb fd m (client_state (start_call fd s)) = (cs, out_mask, h)"
    by (cases "on_event K cb fd m (client_state (start_call fd s))") auto
  have cs: "list_all client_command cs" using K ev unfolding event_client_def by (metis fst_conv)
  define s1 where "s1 = (start_call fd s)\<lparr>client_state := h\<rparr>"
  have a1: "alarms_inv s1" by (rule alarms_inv_cong [OF alarms]) (simp_all add: s1_def start_call_def)
  obtain s2 where run: "run_commands cs s1 = Some s2" using client_commands_return [OF a1 cs] by blast
  have reg': "registered_cb s fd \<noteq> None" using reg by simp
  note S = start_call_inv [OF inv reg', of h, folded s1_def]
  obtain s3 where s3: "finish_call fd False out_mask s2 = Some s3" "epoll_inv None s3"
    using finish_call_inv [OF run_commands_inv [OF S(1) run] run_commands_kept [OF S(2) run]] by blast
  have a3: "alarms_inv s3"
    by (rule alarms_inv_cong [OF run_commands_alarms [OF a1 run]])
      (use s3(1) in \<open>auto simp: finish_call_def Option.bind_eq_Some_conv Let_def split: if_splits\<close>)
  have "shortened (\<lambda>x. x = fd) s s1"
    by (rule shortened_remove [where fd = fd])
      (use epoll_inv_parts(1) [OF inv] in \<open>simp_all add: ready_inv_def s1_def start_call_def remove_from_ready_list_tmp registered_cb_other\<close>)
  moreover have "shortened (\<lambda>x. \<exists>c \<in> set cs. takes_off x c) s1 s2" by (rule run_commands_shortened [OF S(1) run])
  ultimately have "shortened (\<lambda>x. x = fd \<or> (\<exists>c \<in> set cs. takes_off x c)) s s2" by (rule shortened_trans)
  moreover have "shortened (\<lambda>x. False) s2 s3"
  proof (rule shortened_same)
    show "tmp_fds s3 = tmp_fds s2" by (rule finish_call_tmp [OF s3(1)])
    fix x assume x: "x \<in> set (tmp_fds s2)"
    then have "registered_cb s2 x \<noteq> None"
      using epoll_inv_parts(5) [OF run_commands_inv [OF S(1) run], of x] by (simp add: listed_def)
    then show "registered_cb s3 x = registered_cb s2 x" by (rule finish_call_cb [OF s3(1)])
  qed
  ultimately have "shortened (\<lambda>x. x = fd \<or> (\<exists>c \<in> set cs. takes_off x c)) s s3" using shortened_trans by fastforce
  moreover have "\<not> in_use e" using epoll_inv_parts(3) [OF inv e(1)] by auto
  then have "call_one K fd s = Some ((fd, cb, m), s3)"
    using e ev run s3(1) by (simp add: call_one_def m_def [symmetric] s1_def [symmetric] del: bind_eq_Some_conv)
  moreover have "cs = fst (on_event K cb fd m (client_state (start_call fd s)))" by (simp add: ev)
  ultimately show ?thesis using s3(2) a3 by blast
qed

text \<open>
  The pass over the descriptors \<open>fds\<close>: what is called, and that whatever is not called was taken off
  by a callback of the pass that had its turn before.
\<close>

definition taken_by :: "'h epoll_client \<Rightarrow> (int \<times> nat \<times> event_mask) set \<Rightarrow> int \<Rightarrow> bool" where
  "taken_by K calls fd \<longleftrightarrow>
     (\<exists>(fd', cb, m) \<in> calls. \<exists>h. \<exists>c \<in> set (fst (on_event K cb fd' m h)). takes_off fd c)"

definition pass_calls :: "'h epoll_client \<Rightarrow> (int \<times> nat \<times> event_mask) list \<Rightarrow> 'h epoll_server \<Rightarrow> int list \<Rightarrow> bool" where
  "pass_calls K calls s fds \<longleftrightarrow> map fst calls = filter (\<lambda>fd. fd \<in> set (map fst calls)) fds \<and>
     (\<forall>(fd, cb, m) \<in> set calls. registered_cb s fd = Some cb) \<and>
     (\<forall>us fd vs. fds = us @ fd # vs \<longrightarrow> fd \<notin> set (map fst calls) \<longrightarrow> taken_by K {c \<in> set calls. fst c \<in> set us} fd)"

lemma taken_by_mono: "taken_by K A fd \<Longrightarrow> A \<subseteq> B \<Longrightarrow> taken_by K B fd"
  unfolding taken_by_def by blast

lemma pass_calls_cons:
  assumes d: "distinct (fd # fds)" and tmp: "tmp_fds s = fd # fds"
    and one: "shortened (\<lambda>x. x = fd \<or> (\<exists>c \<in> set (fst (on_event K cb fd m h)). takes_off x c)) s s1" "registered_cb s fd = Some cb"
    and out: "fd \<notin> set (tmp_fds s1)" and rest: "pass_calls K calls s1 (tmp_fds s1)"
  shows "pass_calls K ((fd, cb, m) # calls) s (fd # fds)"
proof -
  have t1: "tmp_fds s1 = filter (\<lambda>x. x \<in> set (tmp_fds s1)) fds" using one(1) tmp out by (simp add: shortened_def)
  then have sub: "set (tmp_fds s1) \<subseteq> set fds" by (metis filter_is_subset)
  have called: "set (map fst calls) \<subseteq> set (tmp_fds s1)" using rest unfolding pass_calls_def by (metis filter_is_subset)
  have "map fst calls = filter (\<lambda>x. x \<in> set (map fst calls)) (tmp_fds s1)" using rest unfolding pass_calls_def by blast
  also have "\<dots> = filter (\<lambda>x. x \<in> set (map fst calls)) fds"
    by (rule filter_filter_set [OF t1 rest [unfolded pass_calls_def, THEN conjunct1], symmetric])
  also have "\<dots> = filter (\<lambda>x. x \<in> set (map fst ((fd, cb, m) # calls))) fds" using d by (auto intro!: filter_cong)
  finally have "fd # map fst calls = fd # filter (\<lambda>x. x \<in> set (map fst ((fd, cb, m) # calls))) fds" by (rule arg_cong)
  also have "\<dots> = filter (\<lambda>x. x \<in> set (map fst ((fd, cb, m) # calls))) (fd # fds)" by simp
  finally have order: "map fst ((fd, cb, m) # calls) = filter (\<lambda>x. x \<in> set (map fst ((fd, cb, m) # calls))) (fd # fds)"
    unfolding list.map fst_conv .
  have cbs: "registered_cb s x = Some c" if "(x, c, k) \<in> set calls" for x c k
  proof -
    have "x \<in> set (map fst calls)" using that by force
    then have "x \<in> set (tmp_fds s1)" using called by blast
    then show ?thesis using that rest one(1) by (auto simp: pass_calls_def shortened_def)
  qed
  have gone: "taken_by K {c \<in> set ((fd, cb, m) # calls). fst c \<in> set us} x"
    if split: "fd # fds = us @ x # vs" and x: "x \<notin> set (map fst ((fd, cb, m) # calls))" for us x vs
  proof -
    obtain us' where us: "us = fd # us'" "fds = us' @ x # vs" using split x by (cases us) auto
    show ?thesis
    proof (cases "x \<in> set (tmp_fds s1)")
      case True
      define P where "P = (\<lambda>y. y \<in> set (tmp_fds s1))"
      have "tmp_fds s1 = filter P fds" unfolding P_def by (rule t1)
      then have "tmp_fds s1 = filter P us' @ x # filter P vs" using True us(2) by (simp add: P_def)
      moreover have "x \<notin> set (map fst calls)" using x by simp
      ultimately have "taken_by K {c \<in> set calls. fst c \<in> set (filter P us')} x"
        using rest unfolding pass_calls_def by blast
      then show ?thesis by (rule taken_by_mono) (auto simp: us(1))
    next
      case False
      then have "x = fd \<or> (\<exists>c \<in> set (fst (on_event K cb fd m h)). takes_off x c)"
        using one(1) us(2) tmp by (simp add: shortened_def)
      then have "\<exists>c \<in> set (fst (on_event K cb fd m h)). takes_off x c" using x by auto
      then show ?thesis unfolding taken_by_def us(1) by (intro bexI [of _ "(fd, cb, m)"]) auto
    qed
  qed
  have "\<forall>(x, c, k) \<in> set ((fd, cb, m) # calls). registered_cb s x = Some c" using cbs one(2) by auto
  then show ?thesis unfolding pass_calls_def using order gone by blast
qed

lemma call_tmp_list_inv:
  assumes K: "event_client K"
  shows "epoll_inv None s \<Longrightarrow> alarms_inv s \<Longrightarrow> \<exists>calls s'. call_tmp_list K s = Some (calls, s') \<and> epoll_inv None s' \<and>
    alarms_inv s' \<and> tmp_fds s' = [] \<and> pass_calls K calls s (tmp_fds s)"
proof (induction "length (tmp_fds s)" arbitrary: s rule: less_induct)
  case less
  show ?case
  proof (cases "tmp_fds s")
    case Nil
    then show ?thesis using less.prems by (subst call_tmp_list.simps) (simp add: pass_calls_def)
  next
    case (Cons fd fds)
    have "listed fd s" using Cons by (simp add: listed_def)
    then obtain cb where cb: "registered_cb s fd = Some cb" using epoll_inv_parts(5) [OF less.prems(1)] by blast
    then obtain m h s1 where one: "call_one K fd s = Some ((fd, cb, m), s1)" "epoll_inv None s1" "alarms_inv s1"
      "shortened (\<lambda>x. x = fd \<or> (\<exists>c \<in> set (fst (on_event K cb fd m h)). takes_off x c)) s s1"
      using call_one_inv [OF less.prems _ K] by blast
    note T = call_one_tmp [OF one(1)]
    have "length (tmp_fds s1) < length (tmp_fds s)" using T(1) Cons by simp
    from less.hyps [OF this one(2,3)] obtain calls s2 where
      rest: "call_tmp_list K s1 = Some (calls, s2)" "epoll_inv None s2" "alarms_inv s2" "tmp_fds s2 = []"
        "pass_calls K calls s1 (tmp_fds s1)" by blast
    have d: "distinct (fd # fds)" using Cons less.prems(1) by (simp add: epoll_inv_def ready_inv_def)
    have "fd \<notin> set (tmp_fds s1)" using T(2) Cons d by auto
    from pass_calls_cons [OF d Cons one(4) cb this rest(5)] show ?thesis using one(1) rest Cons
      by (subst call_tmp_list.simps) auto
  qed
qed

lemma pass_calls_distinct: "pass_calls K calls s fds \<Longrightarrow> distinct fds \<Longrightarrow> distinct (map fst calls) \<and> set (map fst calls) \<subseteq> set fds"
  unfolding pass_calls_def by (metis distinct_filter filter_is_subset)

end
