(* ===== verification/Epoll_Alarms.thy ===== *)
theory Epoll_Alarms
  imports Epoll_Laws Base_Time
begin

text \<open>
  The alarm round of the epoll server, for callbacks that set, move and cancel alarms: it returns
  when alarms are woken at once only finitely often, leaves no due alarm behind, and runs
  every due alarm that is left alone exactly once, in order; a callback that registers its own alarm
  again at a time that is already due keeps the round going for ever.  Last, the alarms of the program
  (\<open>base/base_alarm.cc\<close> with \<open>base/base_epoll_alarm_factory.cc\<close>) as clients of this server.
\<close>

section \<open>Commands on alarms\<close>

fun names_alarm :: "epoll_command \<Rightarrow> nat option" where
  "names_alarm (Do_Register_Alarm _ a) = Some a"
| "names_alarm (Do_Unregister_Alarm a) = Some a"
| "names_alarm (Do_Reregister_Alarm a _) = Some a"
| "names_alarm (Do_Update_Alarm a _) = Some a"
| "names_alarm _ = None"

text \<open>Wakes an alarm at once, that is, within the round.\<close>

fun wakes_now :: "int \<Rightarrow> epoll_command \<Rightarrow> bool" where
  "wakes_now now (Do_Update_Alarm _ t) \<longleftrightarrow> t \<le> now"
| "wakes_now now _ \<longleftrightarrow> False"

text \<open>The alarms of a server, and the time at which it woke up.\<close>

definition alarm_part :: "'h epoll_server \<Rightarrow> alarm_entry list \<times> nat \<times> nat set \<times> nat set \<times> (nat \<rightharpoonup> nat) \<times> int" where
  "alarm_part s = (alarm_map s, next_token s, all_alarms s, skipped_alarms s, alarm_token s, recorded_now_us s)"

lemma skipped_alarm_fields [simp]:
  "skipped_alarms (update_entry fd f s) = skipped_alarms s" "skipped_alarms (erase_entry fd s) = skipped_alarms s"
  "skipped_alarms (add_fd fd m s) = skipped_alarms s" "skipped_alarms (mod_fd fd m s) = skipped_alarms s"
  "skipped_alarms (del_fd fd s) = skipped_alarms s" "skipped_alarms (add_to_ready_list fd s) = skipped_alarms s"
  "skipped_alarms (remove_from_ready_list fd s) = skipped_alarms s"
  "recorded_now_us (update_entry fd f s) = recorded_now_us s" "recorded_now_us (erase_entry fd s) = recorded_now_us s"
  "recorded_now_us (add_fd fd m s) = recorded_now_us s" "recorded_now_us (mod_fd fd m s) = recorded_now_us s"
  "recorded_now_us (del_fd fd s) = recorded_now_us s" "recorded_now_us (add_to_ready_list fd s) = recorded_now_us s"
  "recorded_now_us (remove_from_ready_list fd s) = recorded_now_us s"
  by (simp_all add: update_entry_def erase_entry_def add_fd_def mod_fd_def del_fd_def add_to_ready_list_def
      remove_from_ready_list_def)

lemma descriptor_command:
  "names_alarm c = None \<Longrightarrow> \<exists>s'. run_command c s = Some s' \<and> alarm_part s' = alarm_part s"
  by (cases c) (auto simp: alarm_part_def register_fd_def unregister_fd_def modify_fd_def set_fd_ready_def
      set_fd_not_ready_def Let_def split: option.splits)

lemma run_command_fields:
  "run_command c s = Some s' \<Longrightarrow> client_state s' = client_state s \<and> skipped_alarms s' = skipped_alarms s \<and>
    recorded_now_us s' = recorded_now_us s"
  by (cases c) (auto simp: register_fd_def unregister_fd_def modify_fd_def set_fd_ready_def set_fd_not_ready_def
      register_alarm_def unregister_if_registered_def unregister_alarm_def reregister_alarm_def epoll_update_alarm_def Let_def
      update_entry_def erase_entry_def add_fd_def mod_fd_def del_fd_def add_to_ready_list_def remove_from_ready_list_def
      split: option.splits if_splits)

lemma run_commands_fields:
  "run_commands cs s = Some s' \<Longrightarrow> client_state s' = client_state s \<and> skipped_alarms s' = skipped_alarms s \<and>
    recorded_now_us s' = recorded_now_us s"
  by (induction cs arbitrary: s) (auto simp: Option.bind_eq_Some_conv dest: run_command_fields)

lemma insert_alarm_behind: "\<forall>z \<in> set xs. fst z \<le> fst y \<Longrightarrow> insert_alarm y (xs @ ys) = xs @ insert_alarm y ys"
  by (induction xs) auto

lemma filter_insert_alarm: "\<not> P y \<Longrightarrow> filter P (insert_alarm y xs) = filter P xs"
  by (induction xs) auto

lemma length_filter_insert_alarm: "length (filter P (insert_alarm y xs)) = (if P y then 1 else 0) + length (filter P xs)"
  by (induction xs) auto

lemma erase_token_filter: "erase_token m xs = filter (\<lambda>y. entry_token y \<noteq> m) xs"
  by (auto simp: erase_token_def entry_token_def intro: filter_cong)

text \<open>Cancelling an alarm takes exactly its entry out of the list.\<close>

lemma alarm_token_iff: "alarms_inv s \<Longrightarrow> alarm_token s a = Some n \<longleftrightarrow> (\<exists>t. (t, n, a) \<in> set (alarm_map s))"
  unfolding alarms_inv_def by blast

lemma unregister_filter:
  assumes inv: "alarms_inv s"
  shows "alarm_map (unregister_if_registered b s) = filter (\<lambda>y. entry_alarm y \<noteq> b) (alarm_map s)"
proof (cases "alarm_token s b")
  case None
  then have "(t, n, b) \<notin> set (alarm_map s)" for t n using alarm_token_iff [OF inv, of b n] by auto
  then have "\<forall>y \<in> set (alarm_map s). entry_alarm y \<noteq> b" by auto
  then show ?thesis using None by (simp add: unregister_if_registered_def filter_id_conv [THEN iffD2])
next
  case (Some m)
  have "entry_token y \<noteq> m \<longleftrightarrow> entry_alarm y \<noteq> b" if y: "y \<in> set (alarm_map s)" for y
  proof -
    obtain t n a where e: "y = (t, n, a)" by (cases y)
    obtain u where u: "(u, m, b) \<in> set (alarm_map s)" using alarm_token_iff [OF inv, of b m] Some by blast
    have "distinct (map entry_token (alarm_map s))" using inv by (simp add: alarms_inv_def)
    from entry_unique [OF this u] have "n = m \<Longrightarrow> a = b" using y e by blast
    moreover have "a = b \<Longrightarrow> n = m" using alarm_token_iff [OF inv, of b n] Some y e by auto
    ultimately show ?thesis using e by auto
  qed
  from filter_cong [OF refl this] show ?thesis using Some
    by (simp add: unregister_if_registered_def unregister_alarm_def erase_token_filter)
qed

section \<open>The iterator\<close>

lemma token_after_split:
  "distinct (map entry_token (pre @ x # rest)) \<Longrightarrow> token_after (entry_token x) (pre @ x # rest) = first_token rest"
  by (cases x; induction pre) (auto simp: first_token_def split: list.splits)

lemma find_token_split:
  "distinct (map entry_token (pre @ x # rest)) \<Longrightarrow> find_token (entry_token x) (pre @ x # rest) = Some x"
  by (induction pre) (auto simp: find_token_def entry_token_def)

lemma erase_token_split:
  "distinct (map entry_token (pre @ x # rest)) \<Longrightarrow> erase_token (entry_token x) (pre @ x # rest) = pre @ rest"
proof (induction pre)
  case Nil
  then have "entry_token x \<notin> entry_token ` set rest" by simp
  then show ?case using erase_token_none [of "entry_token x" rest]
    by (simp add: erase_token_def entry_token_def split_beta)
next
  case (Cons p pre)
  then show ?case by (auto simp: erase_token_def entry_token_def split_beta)
qed

section \<open>The entry whose callback runs\<close>

text \<open>
  While the callback of the entry \<open>x\<close> runs, the entry is still in the list but the server
  has forgotten its alarm: the entries before and behind it are those of a server without it.
\<close>

definition without :: "alarm_entry list \<Rightarrow> 'h epoll_server \<Rightarrow> 'h epoll_server" where
  "without xs s = s\<lparr>alarm_map := xs\<rparr>"

definition beside :: "alarm_entry \<Rightarrow> alarm_entry list \<Rightarrow> alarm_entry list \<Rightarrow> 'h epoll_server \<Rightarrow> bool" where
  "beside x pre rest s \<longleftrightarrow> alarm_map s = pre @ x # rest \<and> alarms_inv (without (pre @ rest) s) \<and>
     sorted (map fst (pre @ x # rest)) \<and> distinct (map entry_token (pre @ x # rest)) \<and> entry_token x < next_token s"

definition due_now :: "int \<Rightarrow> nat set \<Rightarrow> alarm_entry list \<Rightarrow> alarm_entry list" where
  "due_now now skipped xs = filter (\<lambda>x. fst x \<le> now \<and> entry_alarm x \<notin> skipped) xs"

text \<open>What commands do to the entries before and behind it.\<close>

definition moved :: "int \<Rightarrow> epoll_command list \<Rightarrow> alarm_entry list \<Rightarrow> alarm_entry list \<Rightarrow> alarm_entry list \<Rightarrow> alarm_entry list \<Rightarrow> bool" where
  "moved now cs pre rest pre' rest' \<longleftrightarrow> set pre' \<subseteq> set pre \<and>
     (\<forall>y \<in> set rest' - set rest. Do_Update_Alarm (entry_alarm y) (fst y) \<in> set cs) \<and>
     (\<forall>S. length (due_now now S rest') \<le> length (due_now now S rest) + length (filter (wakes_now now) cs)) \<and>
     (\<forall>M. (\<forall>c \<in> set cs. \<forall>b. names_alarm c = Some b \<longrightarrow> b \<notin> M) \<longrightarrow>
       filter (\<lambda>y. entry_alarm y \<in> M) pre' = filter (\<lambda>y. entry_alarm y \<in> M) pre \<and>
       filter (\<lambda>y. entry_alarm y \<in> M) rest' = filter (\<lambda>y. entry_alarm y \<in> M) rest)"

lemma moved_refl: "moved now cs pre rest pre rest"
  by (simp add: moved_def)

lemma moved_trans:
  assumes one: "moved now [c] pre rest pre1 rest1" and two: "moved now cs pre1 rest1 pre' rest'"
  shows "moved now (c # cs) pre rest pre' rest'"
proof -
  have "length (due_now now S rest') \<le> length (due_now now S rest) + length (filter (wakes_now now) (c # cs))" for S
  proof -
    have "length (due_now now S rest1) \<le> length (due_now now S rest) + length (filter (wakes_now now) [c])"
      "length (due_now now S rest') \<le> length (due_now now S rest1) + length (filter (wakes_now now) cs)"
      using one two unfolding moved_def by blast+
    then show ?thesis by (simp split: if_splits)
  qed
  moreover have "set pre' \<subseteq> set pre" "\<forall>y \<in> set rest' - set rest. Do_Update_Alarm (entry_alarm y) (fst y) \<in> set (c # cs)"
    using one two unfolding moved_def by auto
  ultimately show ?thesis using one two unfolding moved_def by simp
qed

lemma beside_unregister:
  assumes "beside x pre rest s"
  shows "beside x (filter (\<lambda>y. entry_alarm y \<noteq> b) pre) (filter (\<lambda>y. entry_alarm y \<noteq> b) rest) (unregister_if_registered b s)"
proof -
  define g where "g = without (pre @ rest) s"
  have inv: "alarms_inv g" and map: "alarm_map s = pre @ x # rest" and tok: "alarm_token s = alarm_token g"
    and d: "distinct (map entry_token (pre @ x # rest))"
    using assms by (simp_all add: beside_def g_def without_def)
  have eq: "alarm_map (unregister_if_registered b g) = filter (\<lambda>y. entry_alarm y \<noteq> b) (pre @ rest)"
    using unregister_filter [OF inv, of b] by (simp add: g_def without_def)
  have other: "entry_token x \<noteq> m" if m: "alarm_token g b = Some m" for m
  proof -
    have "alarm_map g = pre @ rest" by (simp add: g_def without_def)
    then obtain t where "(t, m, b) \<in> set (pre @ rest)" using alarm_token_iff [OF inv, of b m] m by metis
    then have "m \<in> entry_token ` set (pre @ rest)" by force
    then show ?thesis using d by auto
  qed
  have own: "alarm_token s b = Some m \<Longrightarrow> entry_token x \<noteq> m" for m
    by (rule other) (simp add: tok)
  have map': "alarm_map (unregister_if_registered b s) =
      filter (\<lambda>y. entry_alarm y \<noteq> b) pre @ x # filter (\<lambda>y. entry_alarm y \<noteq> b) rest"
  proof (cases "alarm_token s b")
    case None
    then have "unregister_if_registered b g = g" using tok by (simp add: unregister_if_registered_def)
    then have "filter (\<lambda>y. entry_alarm y \<noteq> b) (pre @ rest) = pre @ rest" using eq by (simp add: g_def without_def)
    then have "\<forall>y \<in> set (pre @ rest). entry_alarm y \<noteq> b" by (simp only: filter_id_conv)
    then show ?thesis using None map by (simp add: unregister_if_registered_def filter_id_conv [THEN iffD2])
  next
    case (Some m)
    have "unregister_if_registered b g = unregister_alarm m b g" using tok Some by (simp add: unregister_if_registered_def)
    then have "erase_token m (pre @ rest) = filter (\<lambda>y. entry_alarm y \<noteq> b) (pre @ rest)"
      using eq by (simp only: unregister_alarm_def) (simp add: g_def without_def)
    then have "set (filter (\<lambda>y. entry_token y \<noteq> m) (pre @ rest)) = set (filter (\<lambda>y. entry_alarm y \<noteq> b) (pre @ rest))"
      unfolding erase_token_filter by (rule arg_cong)
    then have same: "entry_token y \<noteq> m \<longleftrightarrow> entry_alarm y \<noteq> b" if "y \<in> set (pre @ rest)" for y using that by auto
    have "erase_token m pre = filter (\<lambda>y. entry_alarm y \<noteq> b) pre" "erase_token m rest = filter (\<lambda>y. entry_alarm y \<noteq> b) rest"
      unfolding erase_token_filter by (rule filter_cong [OF refl same], simp)+
    then show ?thesis using Some map own [OF Some]
      by (simp add: unregister_if_registered_def unregister_alarm_def erase_token_filter)
  qed
  have "alarms_inv (without (filter (\<lambda>y. entry_alarm y \<noteq> b) pre @ filter (\<lambda>y. entry_alarm y \<noteq> b) rest) (unregister_if_registered b s))"
    by (rule alarms_inv_cong [OF unregister_if_registered_inv(1) [OF inv, of b]])
      (use eq in \<open>simp_all add: without_def g_def unregister_if_registered_def unregister_alarm_def split: option.split\<close>)
  moreover have "next_token (unregister_if_registered b s) = next_token s"
    by (simp add: unregister_if_registered_def unregister_alarm_def split: option.split)
  moreover have "sorted (map fst (filter (\<lambda>y. entry_alarm y \<noteq> b) pre @ x # filter (\<lambda>y. entry_alarm y \<noteq> b) rest))"
    using assms by (auto simp: beside_def sorted_append simp del: split_paired_All intro!: sorted_filter)
  moreover have "distinct (map entry_token (filter (\<lambda>y. entry_alarm y \<noteq> b) pre @ x # filter (\<lambda>y. entry_alarm y \<noteq> b) rest))"
    using d by (auto simp: distinct_map_filter)
  ultimately show ?thesis using assms map' by (simp add: beside_def)
qed

lemma beside_register:
  assumes "beside x pre rest s" "b \<notin> all_alarms s" "fst x \<le> t"
  shows "\<exists>s'. register_alarm t b s = Some s' \<and> beside x pre (insert_alarm (t, next_token s, b) rest) s'"
proof -
  define y where "y = (t, next_token s, b)"
  obtain s' where s': "register_alarm t b s = Some s'" using assms(2) by (simp add: register_alarm_def)
  have map: "alarm_map s = pre @ x # rest" and sorted: "sorted (map fst (pre @ x # rest))" using assms(1) by (simp_all add: beside_def)
  have le: "\<forall>z \<in> set (pre @ [x]). fst z \<le> fst y" using sorted assms(3) by (auto simp: sorted_append y_def)
  have ins: "insert_alarm y (pre @ x # rest) = pre @ x # insert_alarm y rest" "insert_alarm y (pre @ rest) = pre @ insert_alarm y rest"
    using insert_alarm_behind [OF le, of rest] insert_alarm_behind [of pre y rest] le by simp_all
  have "register_alarm t b (without (pre @ rest) s) = Some (without (pre @ insert_alarm y rest) s')"
    using s' ins by (auto simp: register_alarm_def without_def y_def split: if_splits)
  then have "alarms_inv (without (pre @ insert_alarm y rest) s')"
    using register_alarm_inv assms(1) unfolding beside_def by blast
  moreover have "alarm_map s' = pre @ x # insert_alarm y rest" "next_token s' = next_token s + 1"
    using s' ins map by (auto simp: register_alarm_def y_def split: if_splits)
  moreover have "sorted (map fst (pre @ x # insert_alarm y rest))"
    using sorted_insert_alarm [OF sorted, of y] unfolding ins .
  moreover have "distinct (map entry_token (pre @ x # insert_alarm y rest))"
  proof -
    have "\<forall>z \<in> set (pre @ rest). entry_token z < next_token s" using assms(1) by (simp add: beside_def alarms_inv_def without_def)
    then have "\<forall>z \<in> set (pre @ x # rest). entry_token z < entry_token y" using assms(1) by (auto simp: beside_def y_def)
    then have "entry_token y \<notin> entry_token ` set (pre @ x # rest)" by fastforce
    then show ?thesis using assms(1) tokens_insert_alarm [of y "pre @ x # rest"] unfolding ins beside_def by blast
  qed
  ultimately show ?thesis using s' assms(1) by (auto simp: beside_def y_def)
qed

lemma beside_command:
  assumes b: "beside x pre rest s" and now: "fst x \<le> now" and c: "client_command c" "\<And>b t. c = Do_Update_Alarm b t \<Longrightarrow> now \<le> t"
  shows "\<exists>s' pre' rest'. run_command c s = Some s' \<and> beside x pre' rest' s' \<and> moved now [c] pre rest pre' rest'"
proof (cases "names_alarm c")
  case None
  then obtain s' where s': "run_command c s = Some s'" "alarm_part s' = alarm_part s" using descriptor_command by blast
  have "beside x pre rest s'" using b s'(2) alarms_inv_cong [of "without (pre @ rest) s" "without (pre @ rest) s'"]
    by (simp add: beside_def alarm_part_def without_def)
  then show ?thesis using s'(1) moved_refl by blast
next
  case (Some d)
  define drop where "drop = filter (\<lambda>y. entry_alarm y \<noteq> d)"
  have u: "beside x (drop pre) (drop rest) (unregister_if_registered d s)" unfolding drop_def by (rule beside_unregister [OF b])
  have shorter: "length (due_now now S (drop rest)) \<le> length (due_now now S rest)" for S
    by (induction rest) (auto simp: due_now_def drop_def)
  have same: "d \<notin> M \<Longrightarrow> filter (\<lambda>y. entry_alarm y \<in> M) (drop ys) = filter (\<lambda>y. entry_alarm y \<in> M) ys" for M ys
    by (auto simp: drop_def intro!: filter_cong)
  show ?thesis
  proof (cases "\<exists>t. c = Do_Update_Alarm d t")
    case False
    then have c': "c = Do_Unregister_Alarm d" using Some c(1) by (cases c) auto
    have "moved now [c] pre rest (drop pre) (drop rest)" unfolding moved_def
      using shorter same by (auto simp: c') (auto simp: drop_def)
    then show ?thesis using u c' by auto
  next
    case True
    then obtain t where c': "c = Do_Update_Alarm d t" by blast
    define g where "g = without (pre @ rest) s"
    have inv: "alarms_inv g" using b by (simp add: beside_def g_def)
    have "epoll_update_alarm d t s = register_alarm t d (unregister_if_registered d s)"
    proof (cases "alarm_token s d")
      case None
      then show ?thesis by (simp add: epoll_update_alarm_def unregister_if_registered_def)
    next
      case (Some n)
      then have "d \<in> all_alarms s" using alarm_free_iff [OF inv, of d] by (simp add: g_def without_def)
      then have "insert d (all_alarms s - {d}) = all_alarms s" by blast
      then show ?thesis using Some
        by (simp add: epoll_update_alarm_def reregister_alarm_def unregister_if_registered_def unregister_alarm_def
            register_alarm_def del: insert_Diff_single)
    qed
    moreover have "d \<notin> all_alarms (unregister_if_registered d s)"
    proof -
      have "all_alarms (unregister_if_registered d s) = all_alarms (unregister_if_registered d g)"
        by (simp add: unregister_if_registered_def unregister_alarm_def g_def without_def split: option.split)
      then show ?thesis using unregister_if_registered_inv(2) [OF inv] by simp
    qed
    moreover have "now \<le> t" by (rule c(2) [OF c'])
    ultimately obtain s' k where s': "epoll_update_alarm d t s = Some s'" "beside x (drop pre) (insert_alarm (t, k, d) (drop rest)) s'"
      using beside_register [OF u, of d t] now by auto
    have "moved now [c] pre rest (drop pre) (insert_alarm (t, k, d) (drop rest))" unfolding moved_def
    proof (intro conjI allI impI ballI)
      show "set (drop pre) \<subseteq> set pre" by (auto simp: drop_def)
      show "Do_Update_Alarm (entry_alarm y) (fst y) \<in> set [c]" if "y \<in> set (insert_alarm (t, k, d) (drop rest)) - set rest" for y
        using that by (auto simp: c' drop_def)
      show "length (due_now now S (insert_alarm (t, k, d) (drop rest))) \<le> length (due_now now S rest) + length (filter (wakes_now now) [c])" for S
        using shorter [of S] by (simp add: due_now_def length_filter_insert_alarm c')
    next
      fix M assume "\<forall>c \<in> set [c]. \<forall>b. names_alarm c = Some b \<longrightarrow> b \<notin> M"
      then have "d \<notin> M" by (simp add: c')
      then show "filter (\<lambda>y. entry_alarm y \<in> M) (drop pre) = filter (\<lambda>y. entry_alarm y \<in> M) pre"
        "filter (\<lambda>y. entry_alarm y \<in> M) (insert_alarm (t, k, d) (drop rest)) = filter (\<lambda>y. entry_alarm y \<in> M) rest"
        by (simp_all add: same filter_insert_alarm)
    qed
    then show ?thesis using s' c' by auto
  qed
qed

lemma beside_commands:
  "beside x pre rest s \<Longrightarrow> fst x \<le> now \<Longrightarrow> list_all client_command cs \<Longrightarrow> (\<And>b t. Do_Update_Alarm b t \<in> set cs \<Longrightarrow> now \<le> t) \<Longrightarrow>
    \<exists>s' pre' rest'. run_commands cs s = Some s' \<and> beside x pre' rest' s' \<and> moved now cs pre rest pre' rest'"
proof (induction cs arbitrary: s pre rest)
  case Nil
  then show ?case using moved_refl [of now "[]" pre rest] by (intro exI [of _ s] exI [of _ pre] exI [of _ rest]) simp
next
  case (Cons c cs)
  obtain s1 pre1 rest1 where s1: "run_command c s = Some s1" "beside x pre1 rest1 s1" "moved now [c] pre rest pre1 rest1"
    using beside_command [OF Cons.prems(1,2), of c] Cons.prems(3,4) by (metis list.set_intros(1) list.pred_inject(2))
  obtain s' pre' rest' where "run_commands cs s1 = Some s'" "beside x pre' rest' s'" "moved now cs pre1 rest1 pre' rest'"
    using Cons.IH [OF s1(2) Cons.prems(2)] Cons.prems(3,4) by (metis list.set_intros(2) list.pred_inject(2))
  then show ?case using s1(1) moved_trans [OF s1(3)] by (simp del: split_paired_Ex) blast
qed

lemma alarm_unique:
  assumes inv: "alarms_inv s" and map: "alarm_map s = pre @ (t, n, a) # rest"
  shows "a \<notin> entry_alarm ` set (pre @ rest)"
proof
  assume "a \<in> entry_alarm ` set (pre @ rest)"
  then obtain y where "y \<in> set (pre @ rest)" "a = entry_alarm y" by (rule imageE) (rule that)
  then have "(fst y, entry_token y, a) \<in> set (pre @ rest)" by (simp add: entry_token_def entry_alarm_def)
  then obtain u m where m: "(u, m, a) \<in> set (pre @ rest)" by (rule that)
  have tok: "alarm_token s a = Some k \<longleftrightarrow> (\<exists>t. (t, k, a) \<in> set (alarm_map s))" for k
    using inv unfolding alarms_inv_def by blast
  have "alarm_token s a = Some n" "alarm_token s a = Some m" using m map by (auto simp: tok)
  then have "m = n" by simp
  moreover have "distinct (map entry_token (pre @ (t, n, a) # rest))" using inv map by (simp add: alarms_inv_def)
  ultimately show False using m by (force simp: entry_token_def)
qed

section \<open>The round\<close>

text \<open>
  What is asked of the callbacks: alarms are handled through \<open>QuicEpollAlarm\<close> and never set for the
  past; one that names the time at which it is to run again does not also set itself; and
  alarms are woken at once only finitely often, which \<open>rank\<close> bounds.
\<close>

definition alarm_client :: "'h epoll_client \<Rightarrow> int \<Rightarrow> ('h \<Rightarrow> nat) \<Rightarrow> bool" where
  "alarm_client K now rank \<longleftrightarrow> (\<forall>a h. case on_alarm K a h of (cs, new_time, h') \<Rightarrow>
     list_all client_command cs \<and> (\<forall>b t. Do_Update_Alarm b t \<in> set cs \<longrightarrow> now \<le> t) \<and>
     (0 < new_time \<longrightarrow> (\<forall>c \<in> set cs. names_alarm c \<noteq> Some a)) \<and>
     rank h' + length (filter (wakes_now now) cs) \<le> rank h)"

text \<open>No other callback names the alarm, and its own does not wake it at once.\<close>

definition alarm_left_alone :: "'h epoll_client \<Rightarrow> int \<Rightarrow> nat \<Rightarrow> bool" where
  "alarm_left_alone K now a \<longleftrightarrow> (\<forall>cb fd m h. \<forall>c \<in> set (fst (on_event K cb fd m h)). names_alarm c \<noteq> Some a) \<and>
     (\<forall>b h. \<forall>c \<in> set (fst (on_alarm K b h)). names_alarm c = Some a \<longrightarrow> b = a \<and> \<not> wakes_now now c)"

text \<open>The callback may name a time at which it is to run again.\<close>

definition names_time :: "'h epoll_client \<Rightarrow> nat \<Rightarrow> bool" where
  "names_time K a \<longleftrightarrow> (\<exists>h. 0 < fst (snd (on_alarm K a h)))"

lemma insert_alarm_split:
  "\<exists>pre' rest'. insert_alarm y (pre @ rest) = pre' @ rest' \<and> first_token rest' = first_token rest \<and>
     set pre' \<subseteq> insert y (set pre) \<and> (rest' = rest \<or> rest' = insert_alarm y rest)"
proof (induction pre)
  case Nil
  show ?case
  proof (cases rest)
    case Nil
    then show ?thesis by (intro exI [of _ "[y]"] exI [of _ "[]"]) simp
  next
    case (Cons z zs)
    show ?thesis
    proof (cases "fst y < fst z")
      case True
      then show ?thesis using Cons by (intro exI [of _ "[y]"] exI [of _ rest]) simp
    next
      case False
      then show ?thesis using Cons
        by (intro exI [of _ "[]"] exI [of _ "insert_alarm y rest"]) (simp add: first_token_def)
    qed
  qed
next
  case (Cons p pre)
  then obtain pre' rest' where IH: "insert_alarm y (pre @ rest) = pre' @ rest'" "first_token rest' = first_token rest"
    "set pre' \<subseteq> insert y (set pre)" "rest' = rest \<or> rest' = insert_alarm y rest" by blast
  show ?case
  proof (cases "fst y < fst p")
    case True
    then show ?thesis by (intro exI [of _ "y # p # pre"] exI [of _ rest]) simp
  next
    case False
    then show ?thesis using IH by (intro exI [of _ "p # pre'"] exI [of _ rest']) auto
  qed
qed

lemma due_now_none: "sorted (map fst (x # xs)) \<Longrightarrow> now < fst x \<Longrightarrow> due_now now S (x # xs) = []"
  by (fastforce simp: due_now_def filter_empty_conv)

text \<open>The entry that the time returned by the callback makes.\<close>

definition rearm :: "int \<Rightarrow> int \<Rightarrow> nat \<Rightarrow> 'h epoll_server \<Rightarrow> 'h epoll_server option" where
  "rearm now new_time a s =
     (if 0 < new_time
      then register_alarm new_time a
        (if new_time \<le> now then s\<lparr>skipped_alarms := insert a (skipped_alarms s)\<rparr> else s)
      else Some s)"

lemma rearm_round:
  assumes inv: "alarms_inv s" and map: "alarm_map s = pre @ rest" and free: "0 < new_time \<Longrightarrow> a \<notin> all_alarms s"
  shows "\<exists>s' pre' rest'. rearm now new_time a s = Some s' \<and> alarms_inv s' \<and> alarm_map s' = pre' @ rest' \<and>
    first_token rest' = first_token rest \<and> set (alarm_map s) \<subseteq> set (alarm_map s') \<and> client_state s' = client_state s \<and>
    (\<forall>y \<in> set pre' - set pre. fst y \<le> now \<longrightarrow> entry_alarm y = a \<and> 0 < new_time) \<and>
    (\<forall>b \<in> skipped_alarms s' - skipped_alarms s. b = a \<and> 0 < new_time) \<and>
    due_now now (skipped_alarms s') rest' = due_now now (skipped_alarms s) rest"
proof (cases "0 < new_time")
  case False
  then show ?thesis using inv map by (intro exI [of _ s] exI [of _ pre] exI [of _ rest]) (simp add: rearm_def)
next
  case True
  define s1 where "s1 = (if new_time \<le> now then s\<lparr>skipped_alarms := insert a (skipped_alarms s)\<rparr> else s)"
  have s1: "alarms_inv s1" "alarm_map s1 = pre @ rest" "a \<notin> all_alarms s1" "next_token s1 = next_token s"
    using alarms_inv_cong [OF inv, of s1] map free [OF True] by (simp_all add: s1_def)
  obtain s' where s': "register_alarm new_time a s1 = Some s'" using s1(3) by (simp add: register_alarm_def)
  have eq: "rearm now new_time a s = Some s'" using True s' by (simp add: rearm_def s1_def)
  define y where "y = (new_time, next_token s, a)"
  have map': "alarm_map s' = insert_alarm y (pre @ rest)" and skip: "skipped_alarms s' = skipped_alarms s1"
    and client: "client_state s' = client_state s"
    using s' s1 by (auto simp: register_alarm_def y_def s1_def)
  obtain pre' rest' where split: "insert_alarm y (pre @ rest) = pre' @ rest'" "first_token rest' = first_token rest"
    "set pre' \<subseteq> insert y (set pre)" "rest' = rest \<or> rest' = insert_alarm y rest" using insert_alarm_split [of y pre rest] by blast
  have "all_alarms s = entry_alarm ` set (alarm_map s)" using inv by (simp add: alarms_inv_def)
  then have other: "entry_alarm x \<noteq> a" if "x \<in> set rest" for x using that free [OF True] map by auto
  have "due_now now (skipped_alarms s') rest = due_now now (skipped_alarms s) rest"
    using other by (auto simp: due_now_def skip s1_def cong: filter_cong)
  moreover have "due_now now (skipped_alarms s') (insert_alarm y rest) = due_now now (skipped_alarms s') rest"
    unfolding due_now_def by (rule filter_insert_alarm) (auto simp: y_def skip s1_def)
  ultimately have due: "due_now now (skipped_alarms s') rest' = due_now now (skipped_alarms s) rest" using split(4) by auto
  have "set (alarm_map s) \<subseteq> set (alarm_map s')" using map map' by auto
  moreover have "\<forall>z \<in> set pre' - set pre. fst z \<le> now \<longrightarrow> entry_alarm z = a \<and> 0 < new_time" using split(3) True by (auto simp: y_def)
  moreover have "\<forall>b \<in> skipped_alarms s' - skipped_alarms s. b = a \<and> 0 < new_time" using True by (auto simp: skip s1_def)
  ultimately show ?thesis using eq register_alarm_inv [OF s1(1) s'] map' split(1,2) due client by metis
qed

text \<open>One call, from taking the alarm off to arming it again.\<close>

lemma beside_start:
  assumes inv: "alarms_inv s" and map: "alarm_map s = pre @ (t, n, a) # rest"
  shows "beside (t, n, a) pre rest (s\<lparr>all_alarms := all_alarms s - {a}, alarm_token := (alarm_token s)(a := None), client_state := h\<rparr>)"
proof -
  have "(t, n, a) \<in> set (alarm_map s)" using map by simp
  then have tok: "alarm_token s a = Some n" using alarm_token_iff [OF inv] by blast
  have d: "distinct (map entry_token (pre @ (t, n, a) # rest))" using inv map by (simp add: alarms_inv_def)
  have "erase_token n (alarm_map s) = pre @ rest" using erase_token_split [OF d] map by simp
  then have "alarms_inv (without (pre @ rest) (s\<lparr>all_alarms := all_alarms s - {a}, alarm_token := (alarm_token s)(a := None), client_state := h\<rparr>))"
    by (intro alarms_inv_cong [OF unregister_if_registered_inv(1) [OF inv, of a]])
      (simp_all add: without_def unregister_if_registered_def unregister_alarm_def tok)
  moreover have "sorted (map fst (pre @ (t, n, a) # rest))" "n < next_token s" using inv map by (simp_all add: alarms_inv_def)
  ultimately show ?thesis using d map by (simp add: beside_def)
qed

lemma beside_finish:
  assumes b: "beside (t, n, a) pre rest s"
  shows "find_token n (alarm_map s) = Some (t, n, a)" "token_after n (alarm_map s) = first_token rest"
    "alarm_map (s\<lparr>alarm_map := erase_token n (alarm_map s)\<rparr>) = pre @ rest"
    "alarms_inv (s\<lparr>alarm_map := erase_token n (alarm_map s)\<rparr>)"
proof -
  have d: "distinct (map entry_token (pre @ (t, n, a) # rest))" and map: "alarm_map s = pre @ (t, n, a) # rest"
    using b by (simp_all add: beside_def)
  show "find_token n (alarm_map s) = Some (t, n, a)" "token_after n (alarm_map s) = first_token rest"
    "alarm_map (s\<lparr>alarm_map := erase_token n (alarm_map s)\<rparr>) = pre @ rest"
    using find_token_split [OF d] token_after_split [OF d] erase_token_split [OF d] map by simp_all
  then show "alarms_inv (s\<lparr>alarm_map := erase_token n (alarm_map s)\<rparr>)" using b by (simp add: beside_def without_def)
qed

text \<open>What a call keeps of a set \<open>L\<close> of alarms that it names only to put its own off.\<close>

definition spares :: "int \<Rightarrow> nat \<Rightarrow> epoll_command list \<Rightarrow> nat set \<Rightarrow> bool" where
  "spares now a cs L \<longleftrightarrow> (\<forall>c \<in> set cs. \<forall>b \<in> L. names_alarm c = Some b \<longrightarrow> b = a \<and> \<not> wakes_now now c)"

lemma moved_spares:
  assumes mv: "moved now cs pre rest pre' rest'" and sp: "spares now a cs L" and uniq: "a \<notin> entry_alarm ` set (pre @ rest)"
  shows "filter (\<lambda>y. entry_alarm y \<in> L) (due_now now S rest') = filter (\<lambda>y. entry_alarm y \<in> L) (due_now now S rest)"
    "{y \<in> set (pre @ rest). entry_alarm y \<in> L} \<subseteq> set (pre' @ rest')"
proof -
  have "\<forall>c \<in> set cs. \<forall>b. names_alarm c = Some b \<longrightarrow> b \<notin> L - {a}" using sp unfolding spares_def by blast
  then have same: "filter (\<lambda>y. entry_alarm y \<in> L - {a}) pre' = filter (\<lambda>y. entry_alarm y \<in> L - {a}) pre"
    "filter (\<lambda>y. entry_alarm y \<in> L - {a}) rest' = filter (\<lambda>y. entry_alarm y \<in> L - {a}) rest"
    using mv unfolding moved_def by blast+
  have late: "now < fst y" if "y \<in> set rest'" "entry_alarm y = a" "a \<in> L" for y
  proof -
    have "y \<notin> set rest" using uniq that(2) by auto
    then have "Do_Update_Alarm a (fst y) \<in> set cs" using mv that(1,2) unfolding moved_def by blast
    then show ?thesis using sp that(3) unfolding spares_def by fastforce
  qed
  define P where "P = (\<lambda>y::alarm_entry. fst y \<le> now \<and> entry_alarm y \<notin> S)"
  have "(fst y \<le> now \<and> entry_alarm y \<notin> S) \<and> entry_alarm y \<in> L \<longleftrightarrow> entry_alarm y \<in> L - {a} \<and> P y" if "y \<in> set rest'" for y
    using late [OF that] by (auto simp: P_def)
  from filter_cong [OF refl this]
  have "filter (\<lambda>y. entry_alarm y \<in> L) (due_now now S rest') = filter P (filter (\<lambda>y. entry_alarm y \<in> L - {a}) rest')"
    unfolding due_now_def filter_filter .
  also have "\<dots> = filter P (filter (\<lambda>y. entry_alarm y \<in> L - {a}) rest)" unfolding same ..
  also have "\<dots> = filter (\<lambda>y. entry_alarm y \<in> L) (due_now now S rest)"
    using uniq by (auto simp: due_now_def P_def intro!: filter_cong)
  finally show "filter (\<lambda>y. entry_alarm y \<in> L) (due_now now S rest') = filter (\<lambda>y. entry_alarm y \<in> L) (due_now now S rest)" .
  have "set (filter (\<lambda>y. entry_alarm y \<in> L - {a}) (pre' @ rest')) = set (filter (\<lambda>y. entry_alarm y \<in> L - {a}) (pre @ rest))"
    using same by simp
  then show "{y \<in> set (pre @ rest). entry_alarm y \<in> L} \<subseteq> set (pre' @ rest')" using uniq by auto
qed

lemma call_round:
  assumes K: "alarm_client K now rank" and inv: "alarms_inv s" and map: "alarm_map s = pre @ (t, n, a) # rest"
    and now: "t \<le> now" and al: "on_alarm K a (client_state s) = (cs, nt, h)"
  obtains s2 rest2 s4 pre4 rest4 where
    "run_commands cs (s\<lparr>all_alarms := all_alarms s - {a}, alarm_token := (alarm_token s)(a := None), client_state := h\<rparr>) = Some s2"
    "find_token n (alarm_map s2) = Some (t, n, a)" "token_after n (alarm_map s2) = first_token rest4"
    "rearm now nt a (s2\<lparr>alarm_map := erase_token n (alarm_map s2)\<rparr>) = Some s4"
    "alarms_inv s4" "alarm_map s4 = pre4 @ rest4" "client_state s4 = h"
    "\<forall>y \<in> set pre4. fst y \<le> now \<longrightarrow> y \<in> set pre \<or> entry_alarm y = a \<and> 0 < nt"
    "\<forall>b \<in> skipped_alarms s4. b \<in> skipped_alarms s \<or> b = a \<and> 0 < nt"
    "length (due_now now (skipped_alarms s4) rest4) \<le> length (due_now now (skipped_alarms s) rest) + length (filter (wakes_now now) cs)"
    "\<And>L. spares now a cs L \<Longrightarrow> filter (\<lambda>y. entry_alarm y \<in> L) (due_now now (skipped_alarms s4) rest4) =
        filter (\<lambda>y. entry_alarm y \<in> L) (due_now now (skipped_alarms s) rest) \<and>
      {y \<in> set (pre @ rest). entry_alarm y \<in> L} \<subseteq> set (alarm_map s4)"
proof -
  define s1 where "s1 = s\<lparr>all_alarms := all_alarms s - {a}, alarm_token := (alarm_token s)(a := None), client_state := h\<rparr>"
  have cs: "list_all client_command cs" "\<And>b t. Do_Update_Alarm b t \<in> set cs \<Longrightarrow> now \<le> t"
    "0 < nt \<Longrightarrow> \<forall>c \<in> set cs. names_alarm c \<noteq> Some a"
    using K al unfolding alarm_client_def by (metis (mono_tags, lifting) case_prod_conv)+
  have uniq: "a \<notin> entry_alarm ` set (pre @ rest)" by (rule alarm_unique [OF inv map])
  have "fst (t, n, a) \<le> now" using now by simp
  from beside_commands [OF beside_start [OF inv map, of h, folded s1_def] this cs(1)] cs(2)
  obtain s2 pre2 rest2 where s2: "run_commands cs s1 = Some s2" "beside (t, n, a) pre2 rest2 s2" "moved now cs pre rest pre2 rest2"
    by blast
  define s3 where "s3 = s2\<lparr>alarm_map := erase_token n (alarm_map s2)\<rparr>"
  note F = beside_finish [OF s2(2), folded s3_def]
  have skip3: "skipped_alarms s3 = skipped_alarms s" and client3: "client_state s3 = h"
    using run_commands_fields [OF s2(1)] by (simp_all add: s3_def s1_def)
  have free: "a \<notin> all_alarms s3" if nt: "0 < nt"
  proof -
    have "\<forall>c \<in> set cs. \<forall>b. names_alarm c = Some b \<longrightarrow> b \<notin> {a}" using cs(3) [OF nt] by auto
    then have "filter (\<lambda>y. entry_alarm y \<in> {a}) pre2 = filter (\<lambda>y. entry_alarm y \<in> {a}) pre \<and>
        filter (\<lambda>y. entry_alarm y \<in> {a}) rest2 = filter (\<lambda>y. entry_alarm y \<in> {a}) rest"
      using s2(3) unfolding moved_def by blast
    then have "filter (\<lambda>y. entry_alarm y \<in> {a}) (pre2 @ rest2) = filter (\<lambda>y. entry_alarm y \<in> {a}) (pre @ rest)" by simp
    also have "\<dots> = []" using uniq by (auto simp: filter_empty_conv)
    finally have "a \<notin> entry_alarm ` set (pre2 @ rest2)" by (auto simp: filter_empty_conv)
    then show ?thesis using F(3,4) by (simp add: alarms_inv_def)
  qed
  obtain s4 pre4 rest4 where s4: "rearm now nt a s3 = Some s4" "alarms_inv s4" "alarm_map s4 = pre4 @ rest4"
    "first_token rest4 = first_token rest2" "set (alarm_map s3) \<subseteq> set (alarm_map s4)" "client_state s4 = client_state s3"
    "\<forall>y \<in> set pre4 - set pre2. fst y \<le> now \<longrightarrow> entry_alarm y = a \<and> 0 < nt"
    "\<forall>b \<in> skipped_alarms s4 - skipped_alarms s3. b = a \<and> 0 < nt"
    "due_now now (skipped_alarms s4) rest4 = due_now now (skipped_alarms s3) rest2"
    using rearm_round [where now = now and new_time = nt and a = a, OF F(4,3)] free by blast
  have pre2: "set pre2 \<subseteq> set pre" and len: "length (due_now now (skipped_alarms s) rest2) \<le>
      length (due_now now (skipped_alarms s) rest) + length (filter (wakes_now now) cs)"
    using s2(3) unfolding moved_def by blast+
  have spare: "filter (\<lambda>y. entry_alarm y \<in> L) (due_now now (skipped_alarms s4) rest4) =
      filter (\<lambda>y. entry_alarm y \<in> L) (due_now now (skipped_alarms s) rest) \<and>
      {y \<in> set (pre @ rest). entry_alarm y \<in> L} \<subseteq> set (alarm_map s4)" if "spares now a cs L" for L
    using moved_spares [OF s2(3) that uniq] s4(5,9) F(3) skip3 by auto
  show thesis
    by (rule that [of s2 rest4 s4 pre4])
      (use s2(1) F(1,2) s4 pre2 len spare skip3 client3 in \<open>auto simp: s1_def [symmetric] s3_def [symmetric]\<close>)
qed

text \<open>
  The round: \<open>R\<close> are the alarms that have run in it.  An entry that is left although it is due
  belongs to an alarm that has run and named its next time itself.
\<close>

definition ran_again :: "'h epoll_client \<Rightarrow> int \<Rightarrow> nat set \<Rightarrow> alarm_entry list \<Rightarrow> bool" where
  "ran_again K now R xs \<longleftrightarrow> (\<forall>y \<in> set xs. fst y \<le> now \<longrightarrow> entry_alarm y \<in> R \<and> names_time K (entry_alarm y))"

definition round_done :: "'h epoll_client \<Rightarrow> int \<Rightarrow> nat set \<Rightarrow> alarm_entry list \<Rightarrow> 'h epoll_server \<Rightarrow> nat list \<Rightarrow> 'h epoll_server \<Rightarrow> bool" where
  "round_done K now R due s as s' \<longleftrightarrow> alarms_inv s' \<and> ran_again K now (R \<union> set as) (alarm_map s') \<and>
     filter (alarm_left_alone K now) as = map entry_alarm (filter (\<lambda>y. alarm_left_alone K now (entry_alarm y)) due) \<and>
     {y \<in> set (alarm_map s). now < fst y \<and> alarm_left_alone K now (entry_alarm y)} \<subseteq> set (alarm_map s')"

lemma alarm_left_alone_spares:
  "on_alarm K a h = (cs, r) \<Longrightarrow> spares now a cs {b. alarm_left_alone K now b}"
proof -
  assume al: "on_alarm K a h = (cs, r)"
  have "b = a \<and> \<not> wakes_now now c" if "c \<in> set cs" "alarm_left_alone K now b" "names_alarm c = Some b" for b c
  proof -
    have "c \<in> set (fst (on_alarm K a h))" using al that(1) by simp
    moreover have "\<forall>c \<in> set (fst (on_alarm K a h)). names_alarm c = Some b \<longrightarrow> a = b \<and> \<not> wakes_now now c"
      using that(2) by (simp add: alarm_left_alone_def)
    ultimately show ?thesis using that(3) by auto
  qed
  then show ?thesis by (simp add: spares_def)
qed

lemma round_done_cons:
  assumes inv: "alarms_inv s" and map: "alarm_map s = pre @ (t, n, a) # rest" and now: "t \<le> now"
    and sp: "filter (\<lambda>y. alarm_left_alone K now (entry_alarm y)) due' = filter (\<lambda>y. alarm_left_alone K now (entry_alarm y)) due"
      "{y \<in> set (pre @ rest). alarm_left_alone K now (entry_alarm y)} \<subseteq> set (alarm_map s4)"
    and rd: "round_done K now (insert a R) due' s4 as s'"
  shows "round_done K now R ((t, n, a) # due) s (a # as) s'"
proof -
  have "{y \<in> set (alarm_map s). now < fst y \<and> alarm_left_alone K now (entry_alarm y)} \<subseteq> set (alarm_map s4)" using map now sp(2) by auto
  then have "{y \<in> set (alarm_map s). now < fst y \<and> alarm_left_alone K now (entry_alarm y)} \<subseteq> set (alarm_map s')"
    using rd unfolding round_done_def by blast
  moreover have "insert a R \<union> set as = R \<union> set (a # as)" by auto
  ultimately show ?thesis using rd sp(1) unfolding round_done_def by simp
qed

lemma alarm_loop_round:
  assumes K: "alarm_client K now rank"
  shows "alarms_inv s \<Longrightarrow> alarm_map s = pre @ suf \<Longrightarrow> ran_again K now R pre \<Longrightarrow>
    (\<forall>b \<in> skipped_alarms s. b \<in> R \<and> names_time K b) \<Longrightarrow>
    \<exists>as s'. alarm_loop K now (first_token suf) s = Some (as, s') \<and>
      round_done K now R (due_now now (skipped_alarms s) suf) s as s'"
proof (induction "(rank (client_state s) + length (due_now now (skipped_alarms s) suf), length suf)" arbitrary: s pre suf R
    rule: wf_induct_rule [OF wf_lex_prod [OF wf_less_than wf_less_than]])
  case 1
  note IH = 1(1) and inv = 1(2) and map = 1(3) and pre = 1(4) and skip = 1(5)
  show ?case
  proof (cases suf)
    case Nil
    then show ?thesis using inv map pre by (subst alarm_loop.simps) (auto simp: first_token_def due_now_def round_done_def)
  next
    case (Cons x rest)
    obtain t n a where x: "x = (t, n, a)" by (cases x)
    have map': "alarm_map s = pre @ (t, n, a) # rest" using map Cons x by simp
    have d: "distinct (map entry_token (pre @ (t, n, a) # rest))" using inv map' by (simp add: alarms_inv_def)
    have find: "find_token n (alarm_map s) = Some (t, n, a)" using find_token_split [OF d] map' by simp
    have i: "first_token suf = Some n" using Cons x by (simp add: first_token_def)
    consider "now < t" | "t \<le> now" "a \<in> skipped_alarms s" | "t \<le> now" "a \<notin> skipped_alarms s" by fastforce
    then show ?thesis
    proof cases
      case 1
      have "sorted (map fst suf)" using inv map by (simp add: alarms_inv_def sorted_append)
      then have "\<forall>y \<in> set suf. now < fst y" "due_now now (skipped_alarms s) suf = []"
        using 1 Cons x due_now_none [of x rest now] by auto
      moreover from this have "ran_again K now R (alarm_map s)" using pre map by (auto simp: ran_again_def)
      ultimately show ?thesis using inv find 1 i by (subst alarm_loop.simps) (auto simp: round_done_def)
    next
      case 2
      have due: "due_now now (skipped_alarms s) suf = due_now now (skipped_alarms s) rest"
        using 2 Cons x by (simp add: due_now_def)
      have after: "token_after n (alarm_map s) = first_token rest" using token_after_split [OF d] map' by simp
      have step: "alarm_loop K now (first_token suf) s = alarm_loop K now (first_token rest) s"
        using find 2 i after by (subst alarm_loop.simps) simp
      have "ran_again K now R (pre @ [x])" using pre skip 2 x by (auto simp: ran_again_def)
      then show ?thesis unfolding step due
        by (intro IH [of _ rest "pre @ [x]"]) (use inv map Cons due skip in simp_all)
    next
      case 3
      obtain cs nt h where al: "on_alarm K a (client_state s) = (cs, nt, h)" by (cases "on_alarm K a (client_state s)") auto
      have rank: "rank h + length (filter (wakes_now now) cs) \<le> rank (client_state s)"
        using K al unfolding alarm_client_def by (metis (mono_tags, lifting) case_prod_conv)
      have names: "0 < nt \<Longrightarrow> names_time K a" using al unfolding names_time_def by (metis fst_conv snd_conv)
      obtain s2 s4 pre4 rest4 where s2: "run_commands cs (s\<lparr>all_alarms := all_alarms s - {a}, alarm_token := (alarm_token s)(a := None), client_state := h\<rparr>) = Some s2"
        "find_token n (alarm_map s2) = Some (t, n, a)" "token_after n (alarm_map s2) = first_token rest4"
        and s4: "rearm now nt a (s2\<lparr>alarm_map := erase_token n (alarm_map s2)\<rparr>) = Some s4"
        "alarms_inv s4" "alarm_map s4 = pre4 @ rest4" "client_state s4 = h"
        "\<forall>y \<in> set pre4. fst y \<le> now \<longrightarrow> y \<in> set pre \<or> entry_alarm y = a \<and> 0 < nt"
        "\<forall>b \<in> skipped_alarms s4. b \<in> skipped_alarms s \<or> b = a \<and> 0 < nt"
        "length (due_now now (skipped_alarms s4) rest4) \<le> length (due_now now (skipped_alarms s) rest) + length (filter (wakes_now now) cs)"
        and sp: "\<And>L. spares now a cs L \<Longrightarrow> filter (\<lambda>y. entry_alarm y \<in> L) (due_now now (skipped_alarms s4) rest4) =
            filter (\<lambda>y. entry_alarm y \<in> L) (due_now now (skipped_alarms s) rest) \<and>
          {y \<in> set (pre @ rest). entry_alarm y \<in> L} \<subseteq> set (alarm_map s4)"
        by (rule call_round [OF K inv map' 3(1) al]) blast
      have due: "due_now now (skipped_alarms s) suf = (t, n, a) # due_now now (skipped_alarms s) rest"
        using 3 Cons x by (simp add: due_now_def)
      have pre4: "ran_again K now (insert a R) pre4" using pre s4(5) names unfolding ran_again_def by blast
      have skip4: "\<forall>b \<in> skipped_alarms s4. b \<in> insert a R \<and> names_time K b" using skip s4(6) names by blast
      have "\<exists>as s5. alarm_loop K now (first_token rest4) s4 = Some (as, s5) \<and>
          round_done K now (insert a R) (due_now now (skipped_alarms s4) rest4) s4 as s5"
        by (rule IH [OF _ s4(2,3) pre4 skip4]) (use rank s4(4,7) due in simp)
      then obtain as s5 where s5: "alarm_loop K now (first_token rest4) s4 = Some (as, s5)"
        "round_done K now (insert a R) (due_now now (skipped_alarms s4) rest4) s4 as s5" by blast
      have step: "alarm_loop K now (first_token suf) s = Some (a # as, s5)"
        using 3 i find al s2 s4(1) s5(1)
        by (subst alarm_loop.simps) (simp add: rearm_def [symmetric] Let_def)
      have "round_done K now R (due_now now (skipped_alarms s) suf) s (a # as) s5"
        unfolding due by (rule round_done_cons [OF inv map' 3(1) _ _ s5(2)])
          (use sp [OF alarm_left_alone_spares [OF al]] in simp_all)
      then show ?thesis using step by blast
    qed
  qed
qed

section \<open>A round that never ends\<close>

text \<open>The iterator stands at the alarm \<open>a\<close>, the only one, due since \<open>t\<close>.\<close>

definition alone :: "int \<Rightarrow> nat \<Rightarrow> nat \<Rightarrow> 'h epoll_server \<Rightarrow> bool" where
  "alone t n a s \<longleftrightarrow> alarm_map s = [(t, n, a)] \<and> all_alarms s \<subseteq> {a} \<and> a \<notin> skipped_alarms s \<and> n < next_token s"

lemma alone_step:
  assumes "alone t n a s" "t \<le> r"
  shows "\<exists>s2. register_alarm r a ((s\<lparr>all_alarms := all_alarms s - {a}, alarm_token := (alarm_token s)(a := None)\<rparr>)\<lparr>client_state := h\<rparr>)
      = Some s2 \<and> find_token n (alarm_map s2) = Some (t, n, a) \<and> token_after n (alarm_map s2) = Some (next_token s) \<and>
      alone r (next_token s) a (s2\<lparr>alarm_map := erase_token n (alarm_map s2)\<rparr>)"
  using assms by (auto simp: alone_def register_alarm_def find_token_def erase_token_def)

lemma alone_not_some:
  assumes K: "\<And>h. \<exists>h'. on_alarm K a h = ([Do_Register_Alarm r a], 0, h')"
    and run: "alarm_loop K' now i s = Some res"
  shows "K' = K \<Longrightarrow> r \<le> now \<Longrightarrow> i = Some n \<Longrightarrow> t \<le> r \<Longrightarrow> \<not> alone t n a s"
  using run
proof (induction K' now i s res arbitrary: n t rule: alarm_loop.raw_induct [rotated, consumes 1])
  case (1 loop K' now i s res)
  show ?case
  proof
    assume alone: "alone t n a s"
    obtain h where h: "on_alarm K a (client_state s) = ([Do_Register_Alarm r a], 0, h)" using K by blast
    obtain s2 where s2: "register_alarm r a ((s\<lparr>all_alarms := all_alarms s - {a}, alarm_token := (alarm_token s)(a := None)\<rparr>)\<lparr>client_state := h\<rparr>) = Some s2"
      "find_token n (alarm_map s2) = Some (t, n, a)" "token_after n (alarm_map s2) = Some (next_token s)"
      "alone r (next_token s) a (s2\<lparr>alarm_map := erase_token n (alarm_map s2)\<rparr>)"
      using alone_step [OF alone \<open>t \<le> r\<close>, of h] by blast
    have found: "find_token n (alarm_map s) = Some (t, n, a)" "a \<notin> skipped_alarms s" "t \<le> now"
      using alone \<open>t \<le> r\<close> \<open>r \<le> now\<close> by (simp_all add: alone_def find_token_def)
    obtain r1 where r1: "loop K now (Some (next_token s)) (s2\<lparr>alarm_map := erase_token n (alarm_map s2)\<rparr>) = Some r1"
      using 1 found h s2(1-3) by (auto simp: Let_def Option.bind_eq_Some_conv)
    show False using 1(1) [OF r1 refl \<open>r \<le> now\<close> refl order_refl] s2(4) by blast
  qed
qed

lemma alone_never_returns:
  assumes "\<And>h. \<exists>h'. on_alarm K a h = ([Do_Register_Alarm r a], 0, h')" "alone t n a s" "t \<le> r" "r \<le> now"
  shows "alarm_loop K now (Some n) s = None"
  using alone_not_some [OF assms(1) _ refl assms(4) refl assms(3)] assms(2)
  by (cases "alarm_loop K now (Some n) s") auto

section \<open>One turn\<close>

text \<open>What the callbacks of descriptors keep of the alarms: those that no command names.\<close>

definition alarms_kept :: "nat set \<Rightarrow> 'h epoll_server \<Rightarrow> 'h epoll_server \<Rightarrow> bool" where
  "alarms_kept M s s' \<longleftrightarrow> skipped_alarms s' = skipped_alarms s \<and> recorded_now_us s' = recorded_now_us s \<and>
     filter (\<lambda>y. entry_alarm y \<in> M) (alarm_map s') = filter (\<lambda>y. entry_alarm y \<in> M) (alarm_map s)"

lemma alarms_kept_part: "alarm_part s' = alarm_part s \<Longrightarrow> alarms_kept M s s'"
  by (simp add: alarms_kept_def alarm_part_def)

lemma alarms_kept_trans: "alarms_kept M s s1 \<Longrightarrow> alarms_kept M s1 s' \<Longrightarrow> alarms_kept M s s'"
  by (simp add: alarms_kept_def)

lemma alarms_kept_update: "alarm_map s1 = alarm_map s \<Longrightarrow> skipped_alarms s1 = skipped_alarms s \<Longrightarrow>
    recorded_now_us s1 = recorded_now_us s \<Longrightarrow> alarms_kept M s s1"
  by (simp add: alarms_kept_def)

lemma run_command_kept_alarms:
  assumes inv: "alarms_inv s" and c: "client_command c" "\<And>b. names_alarm c = Some b \<Longrightarrow> b \<notin> M" and run: "run_command c s = Some s'"
  shows "alarms_kept M s s'"
proof (cases "names_alarm c")
  case None
  then show ?thesis using descriptor_command [OF None, of s] run by (auto intro: alarms_kept_part)
next
  case (Some b)
  have spare: "b \<notin> M" by (rule c(2) [OF Some])
  have un: "filter (\<lambda>y. entry_alarm y \<in> M) (alarm_map (unregister_if_registered b s)) = filter (\<lambda>y. entry_alarm y \<in> M) (alarm_map s)"
    unfolding unregister_filter [OF inv] using spare by (auto intro!: filter_cong)
  show ?thesis
  proof (cases "\<exists>t. c = Do_Update_Alarm b t")
    case True
    then obtain t where "register_alarm t b (unregister_if_registered b s) = Some s'" using run epoll_update_alarm_eq [OF inv] by auto
    then have "\<exists>k. alarm_map s' = insert_alarm (t, k, b) (alarm_map (unregister_if_registered b s))"
      by (auto simp: register_alarm_def split: if_splits)
    then show ?thesis using un spare run_command_fields [OF run] by (auto simp: alarms_kept_def filter_insert_alarm)
  next
    case False
    then have "c = Do_Unregister_Alarm b" using Some c(1) by (cases c) auto
    then show ?thesis using un run run_command_fields [OF run] by (auto simp: alarms_kept_def)
  qed
qed

lemma run_commands_kept_alarms:
  "alarms_inv s \<Longrightarrow> list_all client_command cs \<Longrightarrow> (\<And>c b. c \<in> set cs \<Longrightarrow> names_alarm c = Some b \<Longrightarrow> b \<notin> M) \<Longrightarrow>
    run_commands cs s = Some s' \<Longrightarrow> alarms_kept M s s'"
proof (induction cs arbitrary: s)
  case Nil
  then show ?case by (simp add: alarms_kept_def)
next
  case (Cons c cs)
  then obtain s1 where s1: "run_command c s = Some s1" "run_commands cs s1 = Some s'" by (auto simp: Option.bind_eq_Some_conv)
  have "alarms_kept M s s1" by (rule run_command_kept_alarms [OF Cons.prems(1) _ _ s1(1)]) (use Cons.prems in auto)
  moreover have "alarms_kept M s1 s'"
    by (rule Cons.IH [OF run_command_alarms [OF Cons.prems(1) s1(1)] _ _ s1(2)]) (use Cons.prems in auto)
  ultimately show ?case by (rule alarms_kept_trans)
qed

lemma call_one_kept_alarms:
  assumes K: "event_client K" and inv: "alarms_inv s" and run: "call_one K fd s = Some (c, s')"
  shows "alarms_inv s' \<and> alarms_kept {a. alarm_left_alone K now a} s s'"
  using run
proof (rule call_one_SomeE)
  fix e cb cs out_mask h s2
  assume ev: "on_event K cb fd (events_asserted e OR events_to_fake e) (client_state s) = (cs, out_mask, h)"
    and run: "run_commands cs ((start_call fd s)\<lparr>client_state := h\<rparr>) = Some s2"
    and fin: "finish_call fd (in_use e) out_mask s2 = Some s'"
  define s1 where "s1 = (start_call fd s)\<lparr>client_state := h\<rparr>"
  have cs: "cs = fst (on_event K cb fd (events_asserted e OR events_to_fake e) (client_state s))" by (simp add: ev)
  have a1: "alarms_inv s1" by (rule alarms_inv_cong [OF inv]) (simp_all add: s1_def start_call_def)
  have run1: "run_commands cs s1 = Some s2" using run by (simp add: s1_def)
  have "alarms_kept {a. alarm_left_alone K now a} s s1" by (rule alarms_kept_update) (simp_all add: s1_def start_call_def)
  moreover have "alarms_kept {a. alarm_left_alone K now a} s1 s2"
    by (rule run_commands_kept_alarms [OF a1 _ _ run1]) (use K in \<open>auto simp: event_client_def alarm_left_alone_def cs\<close>)
  moreover have "alarms_kept {a. alarm_left_alone K now a} s2 s'"
    by (rule alarms_kept_update) (use fin in \<open>auto simp: finish_call_def Option.bind_eq_Some_conv Let_def split: if_splits\<close>)
  moreover have "alarms_inv s'"
    by (rule alarms_inv_cong [OF run_commands_alarms [OF a1 run1]])
      (use fin in \<open>auto simp: finish_call_def Option.bind_eq_Some_conv Let_def split: if_splits\<close>)
  ultimately show ?thesis by (blast intro: alarms_kept_trans)
qed

lemma call_tmp_list_kept_alarms:
  assumes K: "event_client K"
  shows "alarms_inv s \<Longrightarrow> call_tmp_list K s = Some (calls, s') \<Longrightarrow> alarms_kept {a. alarm_left_alone K now a} s s'"
proof (induction "length (tmp_fds s)" arbitrary: s calls rule: less_induct)
  case less
  show ?case
  proof (cases "tmp_fds s")
    case Nil
    then show ?thesis using less.prems by (subst (asm) call_tmp_list.simps) (simp add: alarms_kept_def)
  next
    case (Cons fd fds)
    obtain c s1 cs where one: "call_one K fd s = Some (c, s1)" "call_tmp_list K s1 = Some (cs, s')"
      using less.prems(2) Cons by (subst (asm) call_tmp_list.simps) (auto simp: Option.bind_eq_Some_conv)
    have "length (tmp_fds s1) < length (tmp_fds s)" using call_one_tmp(1) [OF one(1)] Cons by simp
    note kept = call_one_kept_alarms [OF K less.prems(1) one(1), of now]
    from less.hyps [OF \<open>length (tmp_fds s1) < length (tmp_fds s)\<close> _ one(2)] kept show ?thesis by (blast intro: alarms_kept_trans)
  qed
qed

lemma handle_events_inv:
  "epoll_inv D s \<Longrightarrow> epoll_inv D (foldl (\<lambda>s (fd, m). epoll_handle_event fd m s) s evs) \<and>
    tmp_fds (foldl (\<lambda>s (fd, m). epoll_handle_event fd m s) s evs) = tmp_fds s \<and>
    alarm_part (foldl (\<lambda>s (fd, m). epoll_handle_event fd m s) s evs) = alarm_part s"
proof (induction evs arbitrary: s)
  case (Cons ev evs)
  obtain fd m where ev: "ev = (fd, m)" by (cases ev)
  have "tmp_fds (epoll_handle_event fd m s) = tmp_fds s" "alarm_part (epoll_handle_event fd m s) = alarm_part s"
    by (simp_all add: epoll_handle_event_def alarm_part_def)
  then show ?case using Cons.IH [OF set_fd_ready_inv(2) [OF Cons.prems, of fd m]] ev by simp
qed simp

lemma epoll_inv_swap:
  assumes inv: "epoll_inv D s"
  shows "epoll_inv D (s\<lparr>ready_fds := tmp_fds s, tmp_fds := ready_fds s\<rparr>)"
  using inv by (auto simp: epoll_inv_def ready_inv_def listed_def registered_cb_def watched_def fun_eq_iff)

lemma ready_callbacks_inv:
  assumes K: "event_client K" and inv: "epoll_inv None s" "alarms_inv s" and tmp: "tmp_fds s = []"
  shows "\<exists>calls s'. call_ready_list_callbacks K s = Some (calls, s') \<and> epoll_inv None s' \<and> alarms_inv s' \<and> tmp_fds s' = [] \<and>
    pass_calls K calls s (ready_fds s) \<and> distinct (map fst calls) \<and> alarms_kept {a. alarm_left_alone K now a} s s'"
proof -
  define s1 where "s1 = s\<lparr>ready_fds := tmp_fds s, tmp_fds := ready_fds s\<rparr>"
  have s1: "epoll_inv None s1" "tmp_fds s1 = ready_fds s" "registered_cb s1 = registered_cb s"
    using epoll_inv_swap [OF inv(1)] by (simp_all add: s1_def registered_cb_def fun_eq_iff)
  have a1: "alarms_inv s1" by (rule alarms_inv_cong [OF inv(2)]) (simp_all add: s1_def)
  obtain calls s' where run: "call_tmp_list K s1 = Some (calls, s')" "epoll_inv None s'" "alarms_inv s'" "tmp_fds s' = []"
    "pass_calls K calls s1 (tmp_fds s1)"
    using call_tmp_list_inv [OF K s1(1) a1] by blast
  have "alarms_kept {a. alarm_left_alone K now a} s s1" by (rule alarms_kept_update) (simp_all add: s1_def)
  then have "alarms_kept {a. alarm_left_alone K now a} s s'"
    by (rule alarms_kept_trans [OF _ call_tmp_list_kept_alarms [OF K a1 run(1)]])
  moreover have "pass_calls K calls s (ready_fds s)" using run(5) unfolding pass_calls_def s1(2,3) .
  moreover have "distinct (ready_fds s)" using inv(1) tmp by (simp add: epoll_inv_def ready_inv_def)
  ultimately show ?thesis using run pass_calls_distinct [of K calls s "ready_fds s"]
    by (simp add: call_ready_list_callbacks_def s1_def [symmetric])
qed

lemma handle_wait_inv:
  assumes K: "event_client K" and inv: "epoll_inv None s" "alarms_inv s" and tmp: "tmp_fds s = []"
  shows "\<exists>calls s'. wait_for_events_and_call_handle_events K W t s = Some (calls, s') \<and> epoll_inv None s' \<and> alarms_inv s' \<and>
    tmp_fds s' = [] \<and> distinct (map fst calls) \<and> alarms_kept {a. alarm_left_alone K now a} (s\<lparr>recorded_now_us := now_woken W\<rparr>) s'"
proof -
  define s1 where "s1 = s\<lparr>recorded_now_us := now_woken W, last_delay_us := (if 0 < epoll_timeout_us t s
      then max (now_after W - (now_entering W + epoll_timeout_us t s)) 0 else 0)\<rparr>"
  define s2 where "s2 = foldl (\<lambda>s (fd, m). epoll_handle_event fd m s) s1 (wait_events W)"
  have s1: "epoll_inv None s1" "tmp_fds s1 = []" "alarm_part s1 = alarm_part (s\<lparr>recorded_now_us := now_woken W\<rparr>)"
    using epoll_inv_alarms [OF inv(1), of s1] tmp by (simp_all add: s1_def alarm_part_def)
  have s2: "epoll_inv None s2" "tmp_fds s2 = []" "alarm_part s2 = alarm_part s1"
    using handle_events_inv [OF s1(1), of "wait_events W"] s1(2) by (simp_all add: s2_def)
  have a2: "alarms_inv s2" by (rule alarms_inv_cong [OF inv(2)]) (use s2(3) s1(3) in \<open>simp_all add: alarm_part_def\<close>)
  have eq: "wait_for_events_and_call_handle_events K W t s =
      (if ready_fds s2 \<noteq> [] then call_ready_list_callbacks K s2 else Some ([], s2))"
    by (simp add: wait_for_events_and_call_handle_events_def Let_def s1_def s2_def)
  have k2: "alarms_kept {a. alarm_left_alone K now a} (s\<lparr>recorded_now_us := now_woken W\<rparr>) s2"
    by (rule alarms_kept_part) (simp add: s2(3) s1(3))
  show ?thesis
  proof (cases "ready_fds s2 = []")
    case True
    then show ?thesis using s2 a2 k2 unfolding eq by simp
  next
    case False
    then show ?thesis using ready_callbacks_inv [OF K s2(1) a2 s2(2), of now] alarms_kept_trans [OF k2] unfolding eq by auto
  qed
qed

lemma alarm_round_inv:
  assumes K: "alarm_client K (recorded_now_us s) rank" and inv: "alarms_inv s" "skipped_alarms s = {}" and now: "recorded_now_us s \<noteq> 0"
  shows "\<exists>as s'. call_and_reregister_alarm_events K s = Some (as, s') \<and> skipped_alarms s' = {} \<and>
    round_done K (recorded_now_us s) {} (filter (\<lambda>y. fst y \<le> recorded_now_us s) (alarm_map s)) s as s'"
proof -
  have "ran_again K (recorded_now_us s) {} []" by (simp add: ran_again_def)
  with alarm_loop_round [OF K inv(1), of "[]" "alarm_map s" "{}"]
  obtain as s1 where s1: "alarm_loop K (recorded_now_us s) (first_token (alarm_map s)) s = Some (as, s1)"
    "round_done K (recorded_now_us s) {} (due_now (recorded_now_us s) (skipped_alarms s) (alarm_map s)) s as s1"
    using inv(2) by auto
  have "round_done K (recorded_now_us s) {} (filter (\<lambda>y. fst y \<le> recorded_now_us s) (alarm_map s)) s as (s1\<lparr>skipped_alarms := {}\<rparr>)"
    using s1(2) alarms_inv_cong [of s1 "s1\<lparr>skipped_alarms := {}\<rparr>"] inv(2) by (simp add: round_done_def due_now_def)
  then show ?thesis using s1(1) now by (simp add: call_and_reregister_alarm_events_def)
qed

text \<open>The round touches the descriptors only by its commands.\<close>

lemma rearm_descriptors: "rearm now t a s = Some s' \<Longrightarrow> epoll_inv D s \<Longrightarrow> epoll_inv D s' \<and> tmp_fds s' = tmp_fds s"
  by (auto simp: rearm_def register_alarm_def intro: epoll_inv_alarms split: if_splits)

lemma alarm_loop_descriptors:
  assumes run: "alarm_loop K now i s = Some r"
  shows "epoll_inv D s \<Longrightarrow> tmp_fds s = [] \<Longrightarrow> epoll_inv D (snd r) \<and> tmp_fds (snd r) = []"
  using run
proof (induction K now i s r rule: alarm_loop.raw_induct [rotated, consumes 1])
  case (1 loop K now i s r)
  show ?case
  proof (cases "i = None \<or> (\<exists>t n a. find_token (the i) (alarm_map s) = Some (t, n, a) \<and> now < t)")
    case True
    then show ?thesis using 1(2-4) by (auto split: option.splits)
  next
    case False
    then obtain m t n a where i: "i = Some m" and found: "find_token m (alarm_map s) = Some (t, n, a)" "\<not> now < t"
      using 1(2) by (auto simp: Option.bind_eq_Some_conv split: option.splits if_splits)
    show ?thesis
    proof (cases "a \<in> skipped_alarms s")
      case True
      then have "loop K now (token_after m (alarm_map s)) s = Some r" using 1(2) i found by simp
      from 1(1) [OF this 1(3,4)] show ?thesis .
    next
      case skipped: False
      define s1 where "s1 = s\<lparr>all_alarms := all_alarms s - {a}, alarm_token := (alarm_token s)(a := None)\<rparr>"
      obtain cs nt h where al: "on_alarm K a (client_state s1) = (cs, nt, h)" by (cases "on_alarm K a (client_state s1)") auto
      obtain s2 s4 as s5 where s2: "run_commands cs (s1\<lparr>client_state := h\<rparr>) = Some s2"
        and s4: "rearm now nt a (s2\<lparr>alarm_map := erase_token m (alarm_map s2)\<rparr>) = Some s4"
        and s5: "loop K now (token_after m (alarm_map s2)) s4 = Some (as, s5)" and r: "r = (a # as, s5)"
        using 1(2) i found skipped al by (auto simp: Option.bind_eq_Some_conv s1_def [symmetric] rearm_def [symmetric] Let_def)
      have e1: "epoll_inv D (s1\<lparr>client_state := h\<rparr>)" by (rule epoll_inv_alarms [OF 1(3)]) (simp_all add: s1_def)
      have "tmp_fds s2 = []" using run_commands_tmp [OF s2] 1(4) by (simp add: s1_def)
      moreover from this have "epoll_inv D (s2\<lparr>alarm_map := erase_token m (alarm_map s2)\<rparr>)"
        by (intro epoll_inv_alarms [OF run_commands_inv [OF e1 s2]]) simp_all
      ultimately have "epoll_inv D s4" "tmp_fds s4 = []" using rearm_descriptors [OF s4] by simp_all
      from 1(1) [OF s5 this] show ?thesis by (simp add: r)
    qed
  qed
qed

lemma alarm_round_descriptors:
  assumes "call_and_reregister_alarm_events K s = Some (as, s')" "epoll_inv D s" "tmp_fds s = []"
  shows "epoll_inv D s' \<and> tmp_fds s' = []"
proof -
  obtain s1 where run: "alarm_loop K (recorded_now_us s) (first_token (alarm_map s)) s = Some (as, s1)"
    and s': "s' = s1\<lparr>skipped_alarms := {}\<rparr>" using assms(1) by (auto simp: call_and_reregister_alarm_events_def split: if_splits)
  show ?thesis using alarm_loop_descriptors [OF run assms(2,3)] epoll_inv_alarms [of D s1 s'] by (simp add: s')
qed

section \<open>The alarms of the program\<close>

text \<open>
  A \<open>QuicEpollAlarm\<close>: its deadline and the server it registers with.  \<open>a\<close> is the key of its
  \<open>epoll_alarm_impl_\<close>; \<open>None\<close> where an assertion fails.
\<close>

definition quic_set_impl :: "nat \<Rightarrow> quic_time \<times> 'h epoll_server \<Rightarrow> (quic_time \<times> 'h epoll_server) option" where
  "quic_set_impl a = (\<lambda>(deadline, s).
     if \<not> time_is_initialized deadline then None else map_option (Pair deadline) (register_alarm deadline a s))"

definition quic_cancel_impl :: "nat \<Rightarrow> quic_time \<times> 'h epoll_server \<Rightarrow> (quic_time \<times> 'h epoll_server) option" where
  "quic_cancel_impl a = (\<lambda>(deadline, s).
     if time_is_initialized deadline then None else Some (deadline, unregister_if_registered a s))"

definition quic_update_impl :: "nat \<Rightarrow> quic_time \<times> 'h epoll_server \<Rightarrow> (quic_time \<times> 'h epoll_server) option" where
  "quic_update_impl a = (\<lambda>(deadline, s).
     if \<not> time_is_initialized deadline then None else map_option (Pair deadline) (epoll_update_alarm a deadline s))"

text \<open>\<open>BaseAlarm::Set\<close>, \<open>Cancel\<close> and \<open>Update\<close> over these.\<close>

definition quic_alarm_set :: "nat \<Rightarrow> quic_time \<Rightarrow> quic_time \<times> 'h epoll_server \<Rightarrow> (quic_time \<times> 'h epoll_server) option" where
  "quic_alarm_set a new_deadline = (\<lambda>(deadline, s).
     if time_is_initialized deadline \<or> \<not> time_is_initialized new_deadline then None else quic_set_impl a (new_deadline, s))"

definition quic_alarm_cancel :: "nat \<Rightarrow> quic_time \<times> 'h epoll_server \<Rightarrow> (quic_time \<times> 'h epoll_server) option" where
  "quic_alarm_cancel a = (\<lambda>(deadline, s).
     if \<not> time_is_initialized deadline then Some (deadline, s) else quic_cancel_impl a (0, s))"

definition quic_alarm_update ::
  "nat \<Rightarrow> quic_time \<Rightarrow> time_delta \<Rightarrow> quic_time \<times> 'h epoll_server \<Rightarrow> (quic_time \<times> 'h epoll_server) option" where
  "quic_alarm_update a new_deadline granularity = (\<lambda>(deadline, s).
     if \<not> time_is_initialized new_deadline then quic_alarm_cancel a (deadline, s)
     else if \<bar>new_deadline - deadline\<bar> < granularity then Some (deadline, s)
     else if time_is_initialized deadline then quic_update_impl a (new_deadline, s)
     else quic_set_impl a (new_deadline, s))"

text \<open>
  The one field \<open>alarm_registered\<close> that stands for the registration elsewhere: it is the time of the alarm's
  entry in the list of the server.
\<close>

definition alarm_stands :: "nat \<Rightarrow> base_alarm \<Rightarrow> quic_time \<times> 'h epoll_server \<Rightarrow> bool" where
  "alarm_stands a al = (\<lambda>(deadline, s). deadline = alarm_deadline al \<and>
     (\<forall>t. alarm_registered al = Some t \<longleftrightarrow> (\<exists>n. (t, n, a) \<in> set (alarm_map s))))"

definition other_alarms :: "nat \<Rightarrow> 'h epoll_server \<Rightarrow> alarm_entry list" where
  "other_alarms a s = filter (\<lambda>y. entry_alarm y \<noteq> a) (alarm_map s)"

lemma alarm_stands_registered:
  assumes "alarms_inv s" "alarm_stands a al (d, s)"
  shows "a \<in> all_alarms s \<longleftrightarrow> alarm_registered al \<noteq> None" "alarm_token s a \<noteq> None \<longleftrightarrow> alarm_registered al \<noteq> None"
proof -
  have "all_alarms s = entry_alarm ` set (alarm_map s)" using assms(1) by (simp add: alarms_inv_def)
  then have "a \<in> all_alarms s \<longleftrightarrow> (\<exists>t n. (t, n, a) \<in> set (alarm_map s))" by force
  also have "\<dots> \<longleftrightarrow> (\<exists>t. alarm_registered al = Some t)" using assms(2) by (simp add: alarm_stands_def)
  finally show "a \<in> all_alarms s \<longleftrightarrow> alarm_registered al \<noteq> None" by auto
  then show "alarm_token s a \<noteq> None \<longleftrightarrow> alarm_registered al \<noteq> None" using alarm_free_iff [OF assms(1), of a] by auto
qed

text \<open>The server's part of the three operations.\<close>

definition alarm_on_server :: "nat \<Rightarrow> 'h epoll_server \<Rightarrow> base_alarm \<Rightarrow> quic_time \<times> 'h epoll_server \<Rightarrow> bool" where
  "alarm_on_server a s al c \<longleftrightarrow> alarm_stands a al c \<and> alarms_inv (snd c) \<and> other_alarms a (snd c) = other_alarms a s"

lemma alarm_on_server_cancel:
  assumes inv: "alarms_inv s" and d: "d = alarm_deadline al" and none: "alarm_registered al = None"
  shows "alarm_on_server a s al (d, unregister_if_registered a s)"
  using unregister_if_registered_inv(1) [OF inv, of a] d none unregister_filter [OF inv, of a]
  by (auto simp: alarm_on_server_def alarm_stands_def other_alarms_def)

lemma alarm_on_server_register:
  assumes inv: "alarms_inv s" and free: "a \<notin> all_alarms s" and al: "d = alarm_deadline al" "alarm_registered al = Some t"
  shows "\<exists>s'. register_alarm t a s = Some s' \<and> alarm_on_server a s al (d, s')"
proof -
  obtain s' where s': "register_alarm t a s = Some s'" using free by (simp add: register_alarm_def)
  have map: "alarm_map s' = insert_alarm (t, next_token s, a) (alarm_map s)" using s' by (auto simp: register_alarm_def split: if_splits)
  have "all_alarms s = entry_alarm ` set (alarm_map s)" using inv by (simp add: alarms_inv_def)
  then have "(u, n, a) \<notin> set (alarm_map s)" for u n using free by force
  then have "alarm_stands a al (d, s')" using al by (auto simp: alarm_stands_def map)
  moreover have "other_alarms a s' = other_alarms a s" by (simp add: other_alarms_def map filter_insert_alarm)
  ultimately show ?thesis using s' register_alarm_inv [OF inv s'] by (simp add: alarm_on_server_def)
qed

lemma alarm_on_server_update:
  assumes inv: "alarms_inv s" and al: "d = alarm_deadline al" "alarm_registered al = Some t"
  shows "\<exists>s'. epoll_update_alarm a t s = Some s' \<and> alarm_on_server a s al (d, s')"
proof -
  define u where "u = unregister_if_registered a s"
  have u: "alarms_inv u" "a \<notin> all_alarms u" unfolding u_def by (rule unregister_if_registered_inv [OF inv])+
  have "other_alarms a u = other_alarms a s" using unregister_filter [OF inv, of a] by (simp add: other_alarms_def u_def)
  then show ?thesis using alarm_on_server_register [OF u al] epoll_update_alarm_eq [OF inv, of a t] by (simp add: alarm_on_server_def u_def)
qed

lemma quic_set_impl_refines:
  assumes inv: "alarms_inv s" and st: "alarm_stands a al0 (d0, s)" "alarm_registered al = alarm_registered al0" "d = alarm_deadline al"
  shows "rel_option (alarm_on_server a s) (alarm_set_impl al) (quic_set_impl a (d, s))"
proof (cases "time_is_initialized d \<and> alarm_registered al = None")
  case False
  then show ?thesis using alarm_stands_registered(1) [OF inv st(1)] st(2,3)
    by (auto simp: alarm_set_impl_def quic_set_impl_def register_alarm_def)
next
  case True
  have "a \<notin> all_alarms s" using True alarm_stands_registered(1) [OF inv st(1)] st(2) by simp
  from alarm_on_server_register [OF inv this, of d "al\<lparr>alarm_registered := Some d\<rparr>"] st(3)
  show ?thesis using True st(3) by (auto simp: alarm_set_impl_def quic_set_impl_def)
qed

lemma quic_update_impl_refines:
  assumes inv: "alarms_inv s" and d: "d = alarm_deadline al"
  shows "rel_option (alarm_on_server a s) (alarm_update_impl al) (quic_update_impl a (d, s))"
  using alarm_on_server_update [OF inv, of d "al\<lparr>alarm_registered := Some d\<rparr>" d a] d
  by (auto simp: alarm_update_impl_def quic_update_impl_def)

lemma quic_cancel_impl_refines:
  assumes inv: "alarms_inv s" and d: "d = alarm_deadline al"
  shows "rel_option (alarm_on_server a s) (alarm_cancel_impl al) (quic_cancel_impl a (d, s))"
  using alarm_on_server_cancel [OF inv, of d "al\<lparr>alarm_registered := None\<rparr>" a] d
  by (auto simp: alarm_cancel_impl_def quic_cancel_impl_def)

lemma quic_alarm_refines:
  assumes inv: "alarms_inv s" and st: "alarm_stands a al (d, s)"
  shows "rel_option (alarm_on_server a s) (alarm_set al t) (quic_alarm_set a t (d, s))"
    "rel_option (alarm_on_server a s) (alarm_cancel al) (quic_alarm_cancel a (d, s))"
    "rel_option (alarm_on_server a s) (alarm_update al t g) (quic_alarm_update a t g (d, s))"
proof -
  have d: "d = alarm_deadline al" using st by (simp add: alarm_stands_def)
  have same: "alarm_on_server a s al (d, s)" using inv st by (simp add: alarm_on_server_def)
  have sets: "rel_option (alarm_on_server a s) (alarm_set_impl (al\<lparr>alarm_deadline := t\<rparr>)) (quic_set_impl a (t, s))"
    by (rule quic_set_impl_refines [OF inv st]) simp_all
  have updates: "rel_option (alarm_on_server a s) (alarm_update_impl (al\<lparr>alarm_deadline := t\<rparr>)) (quic_update_impl a (t, s))"
    by (rule quic_update_impl_refines [OF inv]) simp
  have cancels: "rel_option (alarm_on_server a s) (alarm_cancel_impl (al\<lparr>alarm_deadline := 0\<rparr>)) (quic_cancel_impl a (0, s))"
    by (rule quic_cancel_impl_refines [OF inv]) simp
  show "rel_option (alarm_on_server a s) (alarm_set al t) (quic_alarm_set a t (d, s))"
    using sets by (simp add: alarm_set_def quic_alarm_set_def alarm_is_set_def d)
  show cancel: "rel_option (alarm_on_server a s) (alarm_cancel al) (quic_alarm_cancel a (d, s))"
    using cancels same by (simp add: alarm_cancel_def quic_alarm_cancel_def alarm_is_set_def d)
  show "rel_option (alarm_on_server a s) (alarm_update al t g) (quic_alarm_update a t g (d, s))"
    using sets updates cancel same by (simp add: alarm_update_def quic_alarm_update_def alarm_is_set_def d Let_def)
qed

end
