(* ===== verification/Epoll_Properties.thy ===== *)
theory Epoll_Properties
  imports Epoll_Alarms
begin

text \<open>
  What the epoll server promises to its clients: its tables agree after every command, a turn
  returns after calling each ready descriptor at most once and leaves no due alarm behind, a
  ready descriptor is passed over only when a callback took it off the list, and what a callback must not do
  for that to hold; and the alarms of the program, \<open>QuicEpollAlarm\<close>, on this server.
\<close>

section \<open>A sample server\<close>


definition eager_client :: "nat epoll_client" where
  "eager_client = \<lparr>on_event = (\<lambda>cb fd m n. ([], 0, n)), on_alarm = (\<lambda>a n. ([Do_Register_Alarm 20 a], 0, n))\<rparr>"

abbreviation empty_server :: "nat epoll_server" where
  "empty_server \<equiv> epoll_server_empty 0"

definition sample_setup :: "epoll_command list" where
  "sample_setup = [Do_Register_FD 3 7 EPOLLIN_bit, Do_Register_FD 4 8 EPOLLIN_bit, Do_Register_Alarm 10 1,
     Do_Register_Alarm 8 2, Do_Register_Alarm 50 3]"

definition sample_epoll_server :: "nat epoll_server" where
  "sample_epoll_server = the (run_commands sample_setup empty_server)"


lemma empty_server_inv: "epoll_inv D empty_server" "alarms_inv empty_server"
  by (simp_all add: epoll_inv_def ready_inv_def listed_def watched_def epoll_server_empty_def alarms_inv_def fun_eq_iff)

lemma epoll_server_new_inv: "epoll_inv None (epoll_server_new fd cb (0::nat))" "num_fds_registered (epoll_server_new fd cb (0::nat)) = 0"
proof -
  show "epoll_inv None (epoll_server_new fd cb (0::nat))" unfolding epoll_server_new_def by (rule register_fd_inv [OF empty_server_inv(1)])
  show "num_fds_registered (epoll_server_new fd cb (0::nat)) = 0"
    by (simp add: epoll_server_new_def num_fds_registered_def register_fd_def epoll_server_empty_def add_fd_def)
qed

section \<open>Commands\<close>

text \<open>
  C10: Every command of a callback (registering, replacing, modifying and unregistering descriptors,
  making them ready or not, registering, moving and cancelling alarms) keeps the tables of the
  epoll server in agreement: the kernel watches exactly the registered descriptors for
  their masks, a listed descriptor is registered and listed once, the size of the list is counted, an entry
  without a callback is that of the running one; the alarms are sorted, their tokens are
  distinct and every alarm that thinks it is registered has its own entry.  A command that fails
  is the registration of an alarm that is registered, or moving one that is not.
\<close>

theorem epoll_tables_agree:
  assumes "epoll_inv D s" "alarms_inv s"
  shows "(case run_command c s of
      Some s' \<Rightarrow> epoll_inv D s' \<and> alarms_inv s'
    | None \<Rightarrow> (\<exists>t a. c = Do_Register_Alarm t a \<and> a \<in> all_alarms s \<or> c = Do_Reregister_Alarm a t \<and> a \<notin> all_alarms s))"
proof (cases "run_command c s")
  case None
  moreover have "epoll_update_alarm a t s \<noteq> None" for a t using epoll_update_alarm_returns [OF assms(2)] by (simp add: not_None_eq)
  ultimately show ?thesis using alarm_free_iff [OF assms(2)]
    by (cases c) (auto simp: register_alarm_def reregister_alarm_def split: if_splits option.splits)
next
  case (Some s')
  then show ?thesis using run_command_inv [OF assms(1) Some] run_command_alarms [OF assms(2) Some] by simp
qed

theorem epoll_tables_agree_witness:
  "epoll_inv None (register_fd 3 7 EPOLLIN_bit empty_server) \<and> alarms_inv (register_fd 3 7 EPOLLIN_bit empty_server)"
  using epoll_tables_agree [OF empty_server_inv, of "Do_Register_FD 3 7 EPOLLIN_bit"] by simp

lemma sample_epoll_server_run: "run_commands sample_setup empty_server = Some sample_epoll_server"
  by (simp add: sample_epoll_server_def sample_setup_def register_alarm_def epoll_server_empty_def register_fd_def add_fd_def)

lemma sample_epoll_server_inv: "epoll_inv None sample_epoll_server" "alarms_inv sample_epoll_server"
  using run_commands_inv [OF empty_server_inv(1) sample_epoll_server_run]
    run_commands_alarms [OF empty_server_inv(2) sample_epoll_server_run] by simp_all

lemma sample_epoll_server_fields:
  "tmp_fds sample_epoll_server = []" "in_wait sample_epoll_server = False" "skipped_alarms sample_epoll_server = {}"
  "alarm_map sample_epoll_server = [(8, 1, 2), (10, 0, 1), (50, 2, 3)]"
  by (simp_all add: sample_epoll_server_def sample_setup_def register_alarm_def epoll_server_empty_def register_fd_def add_fd_def)


section \<open>One turn\<close>



section \<open>Nobody is forgotten\<close>

text \<open>
  C15: The pass over the ready list returns, whatever the callbacks do to descriptors.  It calls
  descriptors of the list only, in the order of the list, each at most once and with the callback that was registered for it when
  the pass began.  A ready descriptor is passed over only when a callback of the pass whose turn came
  before unregistered it, replaced its callback or took it off the list; what becomes
  ready meanwhile waits for the next pass.
\<close>

theorem every_ready_descriptor_called:
  assumes "event_client K" "epoll_inv None s" "alarms_inv s" "tmp_fds s = []"
  shows "\<exists>calls s'. call_ready_list_callbacks K s = Some (calls, s') \<and> tmp_fds s' = [] \<and> epoll_inv None s' \<and>
    distinct (map fst calls) \<and> map fst calls = filter (\<lambda>fd. fd \<in> set (map fst calls)) (ready_fds s) \<and>
    (\<forall>(fd, cb, m) \<in> set calls. registered_cb s fd = Some cb) \<and>
    (\<forall>us fd vs. ready_fds s = us @ fd # vs \<and> fd \<notin> set (map fst calls) \<longrightarrow>
      (\<exists>(fd', cb, m) \<in> set calls. fd' \<in> set us \<and> (\<exists>h. \<exists>c \<in> set (fst (on_event K cb fd' m h)). takes_off fd c)))"
proof -
  obtain calls s' where run: "call_ready_list_callbacks K s = Some (calls, s')" "epoll_inv None s'" "tmp_fds s' = []"
    "pass_calls K calls s (ready_fds s)" "distinct (map fst calls)"
    using ready_callbacks_inv [OF assms] by blast
  have order: "map fst calls = filter (\<lambda>fd. fd \<in> set (map fst calls)) (ready_fds s)"
    and cbs: "\<forall>(fd, cb, m) \<in> set calls. registered_cb s fd = Some cb"
    and taken: "\<forall>us fd vs. ready_fds s = us @ fd # vs \<longrightarrow> fd \<notin> set (map fst calls) \<longrightarrow> taken_by K {c \<in> set calls. fst c \<in> set us} fd"
    using run(4) unfolding pass_calls_def by blast+
  have "\<forall>us fd vs. ready_fds s = us @ fd # vs \<and> fd \<notin> set (map fst calls) \<longrightarrow>
      (\<exists>(fd', cb, m) \<in> set calls. fd' \<in> set us \<and> (\<exists>h. \<exists>c \<in> set (fst (on_event K cb fd' m h)). takes_off fd c))"
    using taken unfolding taken_by_def by fastforce
  then show ?thesis using run(1-3,5) order cbs by blast
qed

text \<open>The callback of descriptor 4 closes descriptor 3 before its turn.\<close>

definition closing_client :: "nat epoll_client" where
  "closing_client = \<lparr>on_event = (\<lambda>cb fd m n. (if cb = 8 then [Do_Unregister_FD 3] else [], 0, n)), on_alarm = (\<lambda>a n. ([], 0, n))\<rparr>"

theorem every_ready_descriptor_called_witness:
  "\<exists>calls s'. call_ready_list_callbacks closing_client (set_fd_ready 4 EPOLLIN_bit (set_fd_ready 3 EPOLLIN_bit sample_epoll_server))
      = Some (calls, s') \<and> 4 \<in> set (map fst calls) \<and> set (map fst calls) \<subseteq> {4, 3}"
proof -
  define s where "s = set_fd_ready 4 EPOLLIN_bit (set_fd_ready 3 EPOLLIN_bit sample_epoll_server)"
  have fields: "ready_fds s = [4, 3]" "tmp_fds s = []"
    by (simp_all add: s_def sample_epoll_server_def sample_setup_def register_alarm_def epoll_server_empty_def register_fd_def
        add_fd_def set_fd_ready_def registered_cb_def add_to_ready_list_def update_entry_def cb_entry_new_def listed_def)
  have inv: "epoll_inv None s" unfolding s_def by (intro set_fd_ready_inv(1) sample_epoll_server_inv(1))
  have alarms: "alarms_inv s"
    by (rule alarms_inv_cong [OF sample_epoll_server_inv(2)]) (simp_all add: s_def set_fd_ready_def)
  have "event_client closing_client" by (simp add: event_client_def closing_client_def)
  from every_ready_descriptor_called [OF this inv alarms fields(2)] obtain calls s' where
    run: "call_ready_list_callbacks closing_client s = Some (calls, s')"
      "map fst calls = filter (\<lambda>fd. fd \<in> set (map fst calls)) [4, 3]" and
    taken: "\<forall>us fd vs. [4, 3] = us @ fd # vs \<and> fd \<notin> set (map fst calls) \<longrightarrow>
      (\<exists>(fd', cb, m) \<in> set calls. fd' \<in> set us \<and> (\<exists>h. \<exists>c \<in> set (fst (on_event closing_client cb fd' m h)). takes_off fd c))"
    unfolding fields(1) by blast
  have "4 \<in> set (map fst calls)" using taken [rule_format, of "[]" 4 "[3]"] by auto
  moreover have "set (map fst calls) \<subseteq> {4, 3}" using run(2) by (metis filter_is_subset list.simps(15) set_empty)
  ultimately show ?thesis using run(1) unfolding s_def by blast
qed

section \<open>The alarm that registers itself\<close>

text \<open>
  The set of alarms to be skipped guards only against a time that \<open>OnAlarm\<close> returns.
  A callback that registers its own alarm with \<open>RegisterAlarm\<close>, which is allowed since the
  server has forgotten it before the call, for a time that is not before the entry's and is already due,
  is called for ever: the round does not end.
\<close>

theorem self_registering_alarm_livelocks:
  assumes "\<And>h. \<exists>h'. on_alarm K a h = ([Do_Register_Alarm r a], 0, h')"
    and "alarms_inv s" "alarm_map s = [(t, n, a)]" "skipped_alarms s = {}" "t \<le> r" "r \<le> recorded_now_us s" "recorded_now_us s \<noteq> 0"
  shows "call_and_reregister_alarm_events K s = None"
proof -
  have "alone t n a s" using assms(2-4) by (simp add: alone_def alarms_inv_def)
  from alone_never_returns [OF assms(1) this assms(5,6)] show ?thesis
    using assms(3) by (simp add: call_and_reregister_alarm_events_def first_token_def)
qed

theorem self_registering_alarm_livelocks_witness:
  "\<exists>s. register_alarm 10 1 (empty_server\<lparr>recorded_now_us := 20\<rparr>) = Some s \<and> call_and_reregister_alarm_events eager_client s = None"
proof -
  obtain s where s: "register_alarm 10 1 (empty_server\<lparr>recorded_now_us := 20\<rparr>) = Some s" "alarm_map s = [(10, 0, 1)]"
    "skipped_alarms s = {}" "recorded_now_us s = 20"
    by (simp add: register_alarm_def epoll_server_empty_def)
  have "alarms_inv (empty_server\<lparr>recorded_now_us := 20\<rparr>)" by (rule alarms_inv_cong [OF empty_server_inv(2)]) simp_all
  then have "alarms_inv s" using s(1) by (rule register_alarm_inv)
  have "call_and_reregister_alarm_events eager_client s = None"
    by (rule self_registering_alarm_livelocks [where r = 20, OF _ \<open>alarms_inv s\<close> s(2,3)]) (simp_all add: eager_client_def s(4))
  then show ?thesis using s(1) by blast
qed

section \<open>The alarms of the program\<close>

text \<open>
  C40: An alarm of the program and the epoll server agree.  Everywhere else an alarm is a deadline and
  one field for its registration; \<open>Set\<close>, \<open>Cancel\<close> and \<open>Update\<close> on that record fail and succeed exactly
  as they do on the tables of the server, where they leave all other alarms as they were and the alarm in the
  list at the time of the field.  Where the alarm is registered for its deadline and not registered when it has
  none, \<open>Update\<close> and \<open>Cancel\<close> never fail and keep this: \<open>Update\<close> leaves a deadline that differs by less
  than the granularity and moves any other (also one that is exactly the granularity away, where the
  comment in the header asks for more), with granularity zero it is the one command
  \<open>Do_Update_Alarm\<close> to the server, and the epoll callback clears the alarm and calls the delegate exactly
  when it was set.
\<close>

theorem quic_alarm_on_the_server:
  assumes "alarms_inv s" "alarm_stands a al (d, s)"
  shows "rel_option (alarm_on_server a s) (alarm_set al t) (quic_alarm_set a t (d, s)) \<and>
    rel_option (alarm_on_server a s) (alarm_cancel al) (quic_alarm_cancel a (d, s)) \<and>
    rel_option (alarm_on_server a s) (alarm_update al t g) (quic_alarm_update a t g (d, s)) \<and>
    (alarm_inv al \<longrightarrow>
      (\<exists>al' s'. alarm_cancel al = Some al' \<and> quic_alarm_cancel a (d, s) = Some (0, s') \<and> alarm_inv al') \<and>
      (\<exists>al' s'. alarm_update al t g = Some al' \<and> alarm_inv al' \<and>
        quic_alarm_update a t g (d, s) = Some (if t = 0 then 0 else if \<bar>t - d\<bar> < g then d else t, s')) \<and>
      (t \<noteq> 0 \<and> g \<le> 0 \<longrightarrow> quic_alarm_update a t g (d, s) = map_option (Pair t) (run_command (Do_Update_Alarm a t) s)) \<and>
      (fst (alarm_on_epoll al) \<longleftrightarrow> d \<noteq> 0) \<and> alarm_inv (snd (alarm_on_epoll al)) \<and>
      alarm_on_server a s (snd (alarm_on_epoll al)) (0, unregister_if_registered a s))"
proof -
  have d: "d = alarm_deadline al" using assms(2) by (simp add: alarm_stands_def)
  note R = quic_alarm_refines [OF assms]
  have cancels: "\<exists>al' s'. alarm_cancel al = Some al' \<and> quic_alarm_cancel a (d, s) = Some (0, s') \<and> alarm_inv al'" if inv: "alarm_inv al"
  proof -
    obtain al' where al': "alarm_cancel al = Some al'" "alarm_inv al'" "alarm_deadline al' = 0" using alarm_cancel_inv [OF inv] by blast
    obtain c where "quic_alarm_cancel a (d, s) = Some c" "alarm_on_server a s al' c" using R(2) al'(1) by (auto simp: option_rel_Some1)
    then show ?thesis using al' by (cases c) (simp add: alarm_on_server_def alarm_stands_def)
  qed
  have updates: "\<exists>al' s'. alarm_update al t g = Some al' \<and> alarm_inv al' \<and>
      quic_alarm_update a t g (d, s) = Some (if t = 0 then 0 else if \<bar>t - d\<bar> < g then d else t, s')" if inv: "alarm_inv al"
  proof -
    obtain al' where al': "alarm_update al t g = Some al'" "alarm_inv al'"
      "alarm_deadline al' = (if t = 0 then 0 else if \<bar>t - d\<bar> < g then d else t)" using alarm_update_inv [OF inv, of t g] d by auto
    obtain c where "quic_alarm_update a t g (d, s) = Some c" "alarm_on_server a s al' c" using R(3) [of t g] al'(1) by (auto simp: option_rel_Some1)
    then show ?thesis using al' by (cases c) (simp add: alarm_on_server_def alarm_stands_def)
  qed
  have command: "quic_alarm_update a t g (d, s) = map_option (Pair t) (run_command (Do_Update_Alarm a t) s)"
    if inv: "alarm_inv al" and t: "t \<noteq> 0" "g \<le> 0"
  proof -
    have "alarm_token s a \<noteq> None \<longleftrightarrow> d \<noteq> 0" using alarm_stands_registered(2) [OF assms] inv by (simp add: alarm_inv_def d)
    then show ?thesis using t
      by (auto simp: quic_alarm_update_def quic_update_impl_def quic_set_impl_def epoll_update_alarm_def time_is_initialized_def)
  qed
  have fires: "(fst (alarm_on_epoll al) \<longleftrightarrow> d \<noteq> 0) \<and> alarm_inv (snd (alarm_on_epoll al)) \<and>
      alarm_on_server a s (snd (alarm_on_epoll al)) (0, unregister_if_registered a s)" if inv: "alarm_inv al"
    using alarm_on_epoll_inv [OF inv] alarm_on_server_cancel [OF assms(1), of 0 "snd (alarm_on_epoll al)" a] d
    by (simp add: alarm_inv_def)
  show ?thesis using R cancels updates command fires by blast
qed

theorem quic_alarm_on_the_server_witness:
  "\<exists>s'. quic_alarm_update 3 70 20 (50, sample_epoll_server) = Some (70, s') \<and>
    quic_alarm_update 3 69 20 (50, sample_epoll_server) = Some (50, sample_epoll_server)"
proof -
  define al where "al = \<lparr>alarm_deadline = 50, alarm_registered = Some 50\<rparr>"
  have stands: "alarm_stands 3 al (50, sample_epoll_server)"
    using sample_epoll_server_fields(4) by (auto simp: alarm_stands_def al_def)
  have "alarm_inv al" by (simp add: al_def alarm_inv_def)
  then have "\<exists>s'. quic_alarm_update 3 70 20 (50, sample_epoll_server) = Some (70, s')"
    using quic_alarm_on_the_server [OF sample_epoll_server_inv(2) stands, of 70 20] by auto
  moreover have "quic_alarm_update 3 69 20 (50, sample_epoll_server) = Some (50, sample_epoll_server)"
    by (simp add: quic_alarm_update_def time_is_initialized_def)
  ultimately show ?thesis by blast
qed

end
