(* ===== verification/Proxy_Socket.thy ===== *)
theory Proxy_Socket
  imports Base_Time "HOL-Library.Monad_Syntax"
begin

text \<open>
  \<open>SocketBase\<close> of the multipath proxy (\<open>tpproxy/mpproxy_types.h\<close>,
  \<open>tpproxy/mpproxy_types.cc\<close>): the buffered, non-blocking socket under the two ends of the
  proxy.  What the code gets from the operating system and from floating-point arithmetic is
  the parameter \<open>'k platform\<close> over a state \<open>'k\<close>; what it tells the epoll server and the
  kernel is kept in order in \<open>io_log\<close>.  The virtual functions of the class are the record
  \<open>socket_class\<close>; their contract is the locale \<open>socket_virtual\<close>.
\<close>

unbundle bit_operations_syntax

section \<open>The outside\<close>

text \<open>
  \<open>sys_send\<close> to \<open>sys_original_dst\<close> are the system calls (for \<open>read\<close>, \<open>None\<close> is
  \<open>-1\<close> and \<open>Some []\<close> the end of the stream; a \<^typ>\<open>bool\<close> is success; \<open>connect\<close> is
  started, refused with \<open>EAGAIN\<close> or with another error); addresses are IPv4, as every
  socket of the proxy is \<open>AF_INET\<close>; \<open>tcp_bytes_acked\<close> is the answer of \<open>getsockopt(TCP_INFO)\<close>;
  \<open>gain_scale\<close> is the product of a rate and the \<open>double\<close> \<open>kBandwidthGain\<close>, rounded;
  \<open>ratio_share n a t\<close> is the \<open>double\<close> product \<open>n * (1.0 * a / t)\<close> cut to a \<open>size_t\<close>.
\<close>

type_synonym sock_addr = "32 word \<times> 16 word"

datatype connect_result = Connect_Started | Connect_Again | Connect_Failed

record 'k platform =
  sys_send :: "'k \<Rightarrow> int \<Rightarrow> byte list \<Rightarrow> int \<times> 'k"
  sys_read :: "'k \<Rightarrow> int \<Rightarrow> nat \<Rightarrow> byte list option \<times> 'k"
  sys_close :: "'k \<Rightarrow> int \<Rightarrow> 'k"
  sys_socket :: "'k \<Rightarrow> int \<times> 'k"
  sys_reuse_addr :: "'k \<Rightarrow> int \<Rightarrow> bool \<times> 'k"
  sys_bind :: "'k \<Rightarrow> int \<Rightarrow> sock_addr \<Rightarrow> bool \<times> 'k"
  sys_connect :: "'k \<Rightarrow> int \<Rightarrow> sock_addr \<Rightarrow> connect_result \<times> 'k"
  sys_original_dst :: "'k \<Rightarrow> int \<Rightarrow> sock_addr option"
  clock_now :: "'k \<Rightarrow> quic_time"
  tcp_bytes_acked :: "'k \<Rightarrow> int \<Rightarrow> u64 option"
  gain_scale :: "quic_bandwidth \<Rightarrow> quic_bandwidth"
  ratio_share :: "nat \<Rightarrow> int \<Rightarrow> int \<Rightarrow> nat"

text \<open>POSIX: \<open>send\<close> does not report more bytes than it was given, nor \<open>read\<close> than asked for.\<close>

definition posix :: "'k platform \<Rightarrow> bool" where
  "posix P \<longleftrightarrow> (\<forall>k fd d. fst (sys_send P k fd d) \<le> int (length d)) \<and>
     (\<forall>k fd n d. fst (sys_read P k fd n) = Some d \<longrightarrow> length d \<le> n)"

lemma posix_send: "posix P \<Longrightarrow> sys_send P k fd d = (n, k') \<Longrightarrow> n \<le> int (length d)"
  unfolding posix_def by (metis fst_conv)

datatype object = Connection nat | Server nat

datatype io_event =
    Send int "byte list"
  | Modify_Callback int "32 word"
  | Register_Fd int "32 word"
  | Unregister_Fd int
  | Close_Fd int

record 'k io =
  kernel :: 'k
  io_log :: "io_event list"
  posted :: "object list"
  sessions :: "u64 \<rightharpoonup> (u64 \<rightharpoonup> nat)"

definition log_event :: "io_event \<Rightarrow> 'k io \<Rightarrow> 'k io" where
  "log_event e io = io\<lparr>io_log := io_log io @ [e]\<rparr>"

text \<open>The bytes that the kernel accepted for a descriptor, in order.\<close>

definition sent_event :: "int \<Rightarrow> io_event \<Rightarrow> byte list" where
  "sent_event fd e = (case e of Send fd' d \<Rightarrow> if fd' = fd then d else [] | _ \<Rightarrow> [])"

definition sent_on :: "int \<Rightarrow> 'k io \<Rightarrow> byte list" where
  "sent_on fd io = concat (map (sent_event fd) (io_log io))"

definition EPOLLIN :: "32 word" where "EPOLLIN = 0x1"
definition EPOLLOUT :: "32 word" where "EPOLLOUT = 0x4"
definition EPOLLERR :: "32 word" where "EPOLLERR = 0x8"
definition EPOLLHUP :: "32 word" where "EPOLLHUP = 0x10"
definition EPOLLRDHUP :: "32 word" where "EPOLLRDHUP = 0x2000"
definition EPOLLET :: "32 word" where "EPOLLET = 0x80000000"

section \<open>State\<close>

datatype tcp_status = TCP_STATUS_MIN | TCP_CONNECTING | TCP_CONNECTED | TCP_DISCONNECT

definition FD_CLOSED :: "8 word" where "FD_CLOSED = 0x01"
definition FD_WAIT_CLOSE :: "8 word" where "FD_WAIT_CLOSE = 0x02"
definition ENTITY_CLOSED :: "8 word" where "ENTITY_CLOSED = 0x04"
definition ENTITY_WAIT_CLOSE :: "8 word" where "ENTITY_WAIT_CLOSE = 0x08"

definition FD_WAIT_CLOSE_IF_ENTITY_CLOSED :: "8 word" where
  "FD_WAIT_CLOSE_IF_ENTITY_CLOSED = FD_WAIT_CLOSE OR ENTITY_CLOSED"

definition ENTITY_WAIT_CLOSE_IF_FD_CLOSED :: "8 word" where
  "ENTITY_WAIT_CLOSE_IF_FD_CLOSED = ENTITY_WAIT_CLOSE OR FD_CLOSED"

definition kBufferSize :: nat where "kBufferSize = 1500"

record socket =
  io_status :: "8 word"
  sock_status :: tcp_status
  sock_fd :: int
  write_buffer :: "byte list"
  read_buffer :: "byte list"
  destroyed :: bool
  send_bytes :: int
  recv_bytes :: int

record ('s, 'k) socket_class =
  this_object :: object
  can_send :: "'s \<Rightarrow> int \<Rightarrow> bool"
  on_packet_sent :: "int \<Rightarrow> 's \<Rightarrow> 's"
  delete_self :: "'s \<Rightarrow> 'k io \<Rightarrow> ('s \<times> 'k io) option"

text \<open>\<open>io_status_ & flag\<close>, and the pair \<open>io_status_ &= ~m; io_status_ |= m\<close>.\<close>

definition has_status :: "'a socket_scheme \<Rightarrow> 8 word \<Rightarrow> bool" where
  "has_status s flag \<longleftrightarrow> io_status s AND flag \<noteq> 0"

definition raise_status :: "8 word \<Rightarrow> 'a socket_scheme \<Rightarrow> 'a socket_scheme" where
  "raise_status m s = s\<lparr>io_status := (io_status s AND NOT m) OR m\<rparr>"

definition is_connected :: "'a socket_scheme \<Rightarrow> bool" where
  "is_connected s \<longleftrightarrow> sock_status s = TCP_CONNECTED"

section \<open>Writing\<close>

function flush_loop ::
  "'k platform \<Rightarrow> ('a socket_scheme, 'k) socket_class \<Rightarrow> 'a socket_scheme \<Rightarrow> byte list \<Rightarrow> bool \<Rightarrow> 'k io \<Rightarrow>
    'a socket_scheme \<times> byte list \<times> bool \<times> 'k io" where
  "flush_loop P C s data flushed io =
     (if data = [] then (s, data, flushed, io)
      else
        let intend = take kBufferSize data
        in if can_send C s (int (length intend)) then
             (let (sent, k) = sys_send P (kernel io) (sock_fd s) intend
              in if sent \<le> 0 then (s, data, flushed, io\<lparr>kernel := k\<rparr>)
                 else flush_loop P C (on_packet_sent C sent (s\<lparr>send_bytes := send_bytes s + sent\<rparr>))
                   (drop (nat sent) data) True
                   (log_event (Send (sock_fd s) (take (nat sent) intend)) (io\<lparr>kernel := k\<rparr>)))
           else (s, data, flushed, io))"
  by pat_completeness auto

termination flush_loop
  by (relation "measure (\<lambda>(P, C, s, data, flushed, io). length data)") auto

declare flush_loop.simps [simp del]

definition flush_buffer ::
  "'k platform \<Rightarrow> ('a socket_scheme, 'k) socket_class \<Rightarrow> 'a socket_scheme \<Rightarrow> 'k io \<Rightarrow> 'a socket_scheme \<times> 'k io" where
  "flush_buffer P C s io =
     (if sock_fd s < 0 then (s, io)
      else
        let (s', rest, flushed, io') = flush_loop P C s (write_buffer s) False io
        in (if flushed then s'\<lparr>write_buffer := rest\<rparr> else s', io'))"

section \<open>Closing\<close>

text \<open>\<open>SocketBase::DeleteSelf\<close>: the deletion is posted once.\<close>

definition base_delete_self :: "object \<Rightarrow> 'a socket_scheme \<Rightarrow> 'k io \<Rightarrow> ('a socket_scheme \<times> 'k io) option" where
  "base_delete_self self s io =
     (if destroyed s then Some (s, io)
      else Some (s\<lparr>destroyed := True\<rparr>, io\<lparr>posted := posted io @ [self]\<rparr>))"

definition check_to_delete_self ::
  "('a socket_scheme, 'k) socket_class \<Rightarrow> 'a socket_scheme \<Rightarrow> 'k io \<Rightarrow> ('a socket_scheme \<times> 'k io) option" where
  "check_to_delete_self C s io =
     (if has_status s FD_CLOSED \<and> has_status s ENTITY_CLOSED then delete_self C s io else Some (s, io))"

definition close_fd ::
  "'k platform \<Rightarrow> ('a socket_scheme, 'k) socket_class \<Rightarrow> 'a socket_scheme \<Rightarrow> 'k io \<Rightarrow> ('a socket_scheme \<times> 'k io) option" where
  "close_fd P C s io =
     (if 0 < sock_fd s
      then check_to_delete_self C ((raise_status ENTITY_WAIT_CLOSE_IF_FD_CLOSED s)\<lparr>sock_fd := - 1\<rparr>)
        (log_event (Close_Fd (sock_fd s))
          ((log_event (Unregister_Fd (sock_fd s)) io)\<lparr>kernel := sys_close P (kernel io) (sock_fd s)\<rparr>))
      else check_to_delete_self C s io)"

definition check_close_fd ::
  "'k platform \<Rightarrow> ('a socket_scheme, 'k) socket_class \<Rightarrow> 'a socket_scheme \<Rightarrow> 'k io \<Rightarrow> ('a socket_scheme \<times> 'k io) option" where
  "check_close_fd P C s io =
     (if has_status s FD_WAIT_CLOSE \<and> write_buffer s = [] then close_fd P C s io else Some (s, io))"

text \<open>\<open>OnCanSend\<close>, which it may call, does nothing in either class.\<close>

definition on_write_event ::
  "'k platform \<Rightarrow> ('a socket_scheme, 'k) socket_class \<Rightarrow> 'a socket_scheme \<Rightarrow> 'k io \<Rightarrow>
    ('a socket_scheme \<times> 'k io) option" where
  "on_write_event P C s io =
     (let (s1, io1) = flush_buffer P C s io;
          mask = (if write_buffer s1 \<noteq> [] then EPOLLET OR EPOLLIN OR EPOLLOUT OR EPOLLRDHUP OR EPOLLERR
                  else EPOLLET OR EPOLLIN OR EPOLLRDHUP OR EPOLLERR)
      in check_close_fd P C s1 (log_event (Modify_Callback (sock_fd s1) mask) io1))"

section \<open>Facts about the status and the log\<close>

named_theorems io_simps "effects on the log of the socket operations"

lemma and_not_or: "(x AND NOT m) OR m = x OR (m :: 'a::len word)"
  by (rule bit_word_eqI) (auto simp: bit_simps)

lemma raise_status_eq: "io_status (raise_status m s) = io_status s OR m"
  by (simp add: raise_status_def and_not_or)

lemma raise_status_fields [simp]:
  "sock_fd (raise_status m s) = sock_fd s" "write_buffer (raise_status m s) = write_buffer s"
  "read_buffer (raise_status m s) = read_buffer s" "destroyed (raise_status m s) = destroyed s"
  "sock_status (raise_status m s) = sock_status s"
  by (simp_all add: raise_status_def)

lemma status_bits:
  "(x OR ENTITY_WAIT_CLOSE_IF_FD_CLOSED) AND FD_CLOSED \<noteq> 0"
  "(x OR ENTITY_WAIT_CLOSE_IF_FD_CLOSED) AND ENTITY_WAIT_CLOSE \<noteq> 0"
  "(x OR FD_WAIT_CLOSE_IF_ENTITY_CLOSED) AND ENTITY_CLOSED \<noteq> 0"
  "(x OR FD_WAIT_CLOSE_IF_ENTITY_CLOSED) AND FD_WAIT_CLOSE \<noteq> 0"
  "((x OR ENTITY_WAIT_CLOSE_IF_FD_CLOSED) AND ENTITY_CLOSED \<noteq> 0) = (x AND ENTITY_CLOSED \<noteq> 0)"
  "((x OR ENTITY_WAIT_CLOSE_IF_FD_CLOSED) AND FD_WAIT_CLOSE \<noteq> 0) = (x AND FD_WAIT_CLOSE \<noteq> 0)"
  "((x OR FD_WAIT_CLOSE_IF_ENTITY_CLOSED) AND FD_CLOSED \<noteq> 0) = (x AND FD_CLOSED \<noteq> 0)"
  "((x OR FD_WAIT_CLOSE_IF_ENTITY_CLOSED) AND ENTITY_WAIT_CLOSE \<noteq> 0) = (x AND ENTITY_WAIT_CLOSE \<noteq> 0)"
  "(x OR ENTITY_CLOSED) AND ENTITY_CLOSED \<noteq> 0"
  "((x OR ENTITY_CLOSED) AND FD_CLOSED \<noteq> 0) = (x AND FD_CLOSED \<noteq> 0)"
  "((x OR ENTITY_CLOSED) AND FD_WAIT_CLOSE \<noteq> 0) = (x AND FD_WAIT_CLOSE \<noteq> 0)"
  "((x OR ENTITY_CLOSED) AND ENTITY_WAIT_CLOSE \<noteq> 0) = (x AND ENTITY_WAIT_CLOSE \<noteq> 0)"
proof -
  have one: "(x AND 1 \<noteq> 0) = bit x 0" for x :: "8 word"
    by (simp add: and_exp_eq_0_iff_not_bit [of x 0, simplified])
  have two: "(x AND 2 \<noteq> 0) = bit x 1" for x :: "8 word"
    using and_exp_eq_0_iff_not_bit [of x 1] by simp
  have four: "(x AND 4 \<noteq> 0) = bit x 2" for x :: "8 word"
    using and_exp_eq_0_iff_not_bit [of x 2] by simp
  have eight: "(x AND 8 \<noteq> 0) = bit x 3" for x :: "8 word"
    using and_exp_eq_0_iff_not_bit [of x 3] by simp
  note flags = FD_CLOSED_def FD_WAIT_CLOSE_def ENTITY_CLOSED_def ENTITY_WAIT_CLOSE_def
    FD_WAIT_CLOSE_IF_ENTITY_CLOSED_def ENTITY_WAIT_CLOSE_IF_FD_CLOSED_def
  show "(x OR ENTITY_WAIT_CLOSE_IF_FD_CLOSED) AND FD_CLOSED \<noteq> 0"
    "(x OR ENTITY_WAIT_CLOSE_IF_FD_CLOSED) AND ENTITY_WAIT_CLOSE \<noteq> 0"
    "(x OR FD_WAIT_CLOSE_IF_ENTITY_CLOSED) AND ENTITY_CLOSED \<noteq> 0"
    "(x OR FD_WAIT_CLOSE_IF_ENTITY_CLOSED) AND FD_WAIT_CLOSE \<noteq> 0"
    "((x OR ENTITY_WAIT_CLOSE_IF_FD_CLOSED) AND ENTITY_CLOSED \<noteq> 0) = (x AND ENTITY_CLOSED \<noteq> 0)"
    "((x OR ENTITY_WAIT_CLOSE_IF_FD_CLOSED) AND FD_WAIT_CLOSE \<noteq> 0) = (x AND FD_WAIT_CLOSE \<noteq> 0)"
    "((x OR FD_WAIT_CLOSE_IF_ENTITY_CLOSED) AND FD_CLOSED \<noteq> 0) = (x AND FD_CLOSED \<noteq> 0)"
    "((x OR FD_WAIT_CLOSE_IF_ENTITY_CLOSED) AND ENTITY_WAIT_CLOSE \<noteq> 0) = (x AND ENTITY_WAIT_CLOSE \<noteq> 0)"
    "(x OR ENTITY_CLOSED) AND ENTITY_CLOSED \<noteq> 0"
    "((x OR ENTITY_CLOSED) AND FD_CLOSED \<noteq> 0) = (x AND FD_CLOSED \<noteq> 0)"
    "((x OR ENTITY_CLOSED) AND FD_WAIT_CLOSE \<noteq> 0) = (x AND FD_WAIT_CLOSE \<noteq> 0)"
    "((x OR ENTITY_CLOSED) AND ENTITY_WAIT_CLOSE \<noteq> 0) = (x AND ENTITY_WAIT_CLOSE \<noteq> 0)"
    unfolding flags one two four eight by (simp_all add: bit_simps bit_numeral_rec)
qed

lemma status_bits_zero:
  "((x OR ENTITY_WAIT_CLOSE_IF_FD_CLOSED) AND ENTITY_CLOSED = 0) = (x AND ENTITY_CLOSED = 0)"
  "((x OR ENTITY_WAIT_CLOSE_IF_FD_CLOSED) AND FD_WAIT_CLOSE = 0) = (x AND FD_WAIT_CLOSE = 0)"
  "((x OR FD_WAIT_CLOSE_IF_ENTITY_CLOSED) AND FD_CLOSED = 0) = (x AND FD_CLOSED = 0)"
  "((x OR FD_WAIT_CLOSE_IF_ENTITY_CLOSED) AND ENTITY_WAIT_CLOSE = 0) = (x AND ENTITY_WAIT_CLOSE = 0)"
  "((x OR ENTITY_CLOSED) AND FD_CLOSED = 0) = (x AND FD_CLOSED = 0)"
  "((x OR ENTITY_CLOSED) AND FD_WAIT_CLOSE = 0) = (x AND FD_WAIT_CLOSE = 0)"
  "((x OR ENTITY_CLOSED) AND ENTITY_WAIT_CLOSE = 0) = (x AND ENTITY_WAIT_CLOSE = 0)"
  using status_bits [of x] by blast+

lemma log_event_simps [simp]:
  "kernel (log_event e io) = kernel io" "io_log (log_event e io) = io_log io @ [e]"
  "posted (log_event e io) = posted io" "sessions (log_event e io) = sessions io"
  by (simp_all add: log_event_def)

lemma sent_on_log [io_simps]: "sent_on fd (log_event e io) = sent_on fd io @ sent_event fd e"
  by (simp add: sent_on_def)

lemma sent_on_kernel [io_simps]: "sent_on fd (io\<lparr>kernel := k\<rparr>) = sent_on fd io"
  "sent_on fd (io\<lparr>posted := q\<rparr>) = sent_on fd io" "sent_on fd (io\<lparr>sessions := m\<rparr>) = sent_on fd io"
  by (simp_all add: sent_on_def)

lemma sent_event_simps [io_simps]:
  "sent_event fd (Send fd' d) = (if fd' = fd then d else [])"
  "sent_event fd (Modify_Callback a b) = []" "sent_event fd (Register_Fd a b) = []"
  "sent_event fd (Unregister_Fd a) = []" "sent_event fd (Close_Fd a) = []"
  by (simp_all add: sent_event_def)

section \<open>The contract of a socket class\<close>

text \<open>
  What the operations of \<open>SocketBase\<close> rest on when they call the virtual functions:
  \<open>OnPacketSent\<close> leaves the fields of \<open>SocketBase\<close> alone, \<open>DeleteSelf\<close> marks the object as
  destroyed, posts it at most once, and touches nothing else of the socket.
\<close>

locale socket_virtual =
  fixes C :: "('a socket_scheme, 'k) socket_class"
  assumes packet_sent: "socket.truncate (on_packet_sent C n s) = socket.truncate s"
    and delete_law: "delete_self C s io = Some (s', io') \<Longrightarrow>
      socket.truncate s' = (socket.truncate s)\<lparr>destroyed := True\<rparr> \<and> io_log io' = io_log io \<and>
      kernel io' = kernel io \<and>
      posted io' = (if destroyed s then posted io else posted io @ [this_object C])"
begin

lemma packet_sent_fields [simp]:
  "sock_fd (on_packet_sent C n s) = sock_fd s" "write_buffer (on_packet_sent C n s) = write_buffer s"
  "read_buffer (on_packet_sent C n s) = read_buffer s" "io_status (on_packet_sent C n s) = io_status s"
  "destroyed (on_packet_sent C n s) = destroyed s" "sock_status (on_packet_sent C n s) = sock_status s"
  "send_bytes (on_packet_sent C n s) = send_bytes s" "recv_bytes (on_packet_sent C n s) = recv_bytes s"
  using packet_sent [of n s] by (simp_all add: socket.defs)

lemma delete_fields:
  assumes "delete_self C s io = Some (s', io')"
  shows "sock_fd s' = sock_fd s" "write_buffer s' = write_buffer s" "read_buffer s' = read_buffer s"
    "io_status s' = io_status s" "destroyed s'" "sock_status s' = sock_status s"
  using delete_law [OF assms] by (simp_all add: socket.defs)

text \<open>Flushing moves bytes from the buffer to the kernel: none is lost, repeated or reordered.\<close>

lemma flush_loop_conserves:
  assumes posix: "posix P"
  shows "flush_loop P C s data fl io = (s', rest, fl', io') \<Longrightarrow>
    sent_on (sock_fd s) io' @ rest = sent_on (sock_fd s) io @ data \<and>
    (\<forall>fd. fd \<noteq> sock_fd s \<longrightarrow> sent_on fd io' = sent_on fd io) \<and>
    sock_fd s' = sock_fd s \<and> write_buffer s' = write_buffer s \<and> read_buffer s' = read_buffer s \<and>
    io_status s' = io_status s \<and> destroyed s' = destroyed s \<and> sock_status s' = sock_status s \<and>
    posted io' = posted io \<and> sessions io' = sessions io \<and> (fl' \<or> rest = data) \<and> (fl \<longrightarrow> fl')"
proof (induction "length data" arbitrary: data s fl io rule: less_induct)
  case less
  let ?chunk = "take kBufferSize data"
  obtain n k where send: "sys_send P (kernel io) (sock_fd s) ?chunk = (n, k)"
    by (cases "sys_send P (kernel io) (sock_fd s) ?chunk") auto
  show ?case
  proof (cases "data \<noteq> [] \<and> can_send C s (int (length ?chunk)) \<and> 0 < n")
    case False
    then show ?thesis
      using less.prems send by (subst (asm) flush_loop.simps) (auto simp: io_simps Let_def split: if_splits)
  next
    case True
    let ?s = "on_packet_sent C n (s\<lparr>send_bytes := send_bytes s + n\<rparr>)"
    let ?io = "log_event (Send (sock_fd s) (take (nat n) ?chunk)) (io\<lparr>kernel := k\<rparr>)"
    have run: "flush_loop P C ?s (drop (nat n) data) True ?io = (s', rest, fl', io')"
      using less.prems True send by (subst (asm) flush_loop.simps) (simp add: Let_def)
    have "n \<le> int (length ?chunk)" using posix_send [OF posix send] .
    then have "take (nat n) ?chunk @ drop (nat n) data = data" by simp
    moreover have "length (drop (nat n) data) < length data" using True by simp
    from less.hyps [OF this run] show ?thesis using calculation by (simp add: io_simps)
  qed
qed

lemma flush_buffer_conserves:
  assumes posix: "posix P" and run: "flush_buffer P C s io = (s', io')"
  shows "sent_on (sock_fd s) io' @ write_buffer s' = sent_on (sock_fd s) io @ write_buffer s"
    "fd \<noteq> sock_fd s \<Longrightarrow> sent_on fd io' = sent_on fd io"
    "sock_fd s' = sock_fd s" "read_buffer s' = read_buffer s" "io_status s' = io_status s"
    "destroyed s' = destroyed s" "sock_status s' = sock_status s" "posted io' = posted io"
    "sessions io' = sessions io"
proof -
  obtain t rest fl o' where loop: "flush_loop P C s (write_buffer s) False io = (t, rest, fl, o')"
    by (cases "flush_loop P C s (write_buffer s) False io") auto
  note L = flush_loop_conserves [OF posix loop]
  have eq: "s' = (if sock_fd s < 0 then s else if fl then t\<lparr>write_buffer := rest\<rparr> else t)"
    "io' = (if sock_fd s < 0 then io else o')"
    using run loop by (auto simp: flush_buffer_def)
  show "sent_on (sock_fd s) io' @ write_buffer s' = sent_on (sock_fd s) io @ write_buffer s"
    "fd \<noteq> sock_fd s \<Longrightarrow> sent_on fd io' = sent_on fd io"
    "sock_fd s' = sock_fd s" "read_buffer s' = read_buffer s" "io_status s' = io_status s"
    "destroyed s' = destroyed s" "sock_status s' = sock_status s" "posted io' = posted io"
    "sessions io' = sessions io"
    unfolding eq using L by (cases "sock_fd s < 0"; cases fl; auto)+
qed

text \<open>Closing the descriptor: when, and what is left.\<close>

lemma check_to_delete_self_fields:
  assumes "check_to_delete_self C s io = Some (s', io')"
  defines "gone \<equiv> has_status s FD_CLOSED \<and> has_status s ENTITY_CLOSED"
  shows "sock_fd s' = sock_fd s" "write_buffer s' = write_buffer s" "read_buffer s' = read_buffer s"
    "io_status s' = io_status s" "sock_status s' = sock_status s" "io_log io' = io_log io"
    "destroyed s' \<longleftrightarrow> destroyed s \<or> gone"
    "posted io' = (if gone \<and> \<not> destroyed s then posted io @ [this_object C] else posted io)"
proof -
  have eq: "if gone then delete_self C s io = Some (s', io') else s' = s \<and> io' = io"
    using assms(1) by (auto simp: check_to_delete_self_def gone_def)
  show "sock_fd s' = sock_fd s" "write_buffer s' = write_buffer s" "read_buffer s' = read_buffer s"
    "io_status s' = io_status s" "sock_status s' = sock_status s"
    using eq delete_fields [of s io s' io'] by (cases gone; simp)+
  show "io_log io' = io_log io" "destroyed s' \<longleftrightarrow> destroyed s \<or> gone"
    "posted io' = (if gone \<and> \<not> destroyed s then posted io @ [this_object C] else posted io)"
    using eq delete_law [of s io s' io'] delete_fields(5) [of s io s' io'] by (cases gone; simp)+
qed

lemma close_fd_fields:
  assumes "close_fd P C s io = Some (s', io')"
  shows "write_buffer s' = write_buffer s" "read_buffer s' = read_buffer s"
    "0 < sock_fd s \<Longrightarrow> sock_fd s' = - 1 \<and> has_status s' FD_CLOSED \<and> has_status s' ENTITY_WAIT_CLOSE \<and>
      io_log io' = io_log io @ [Unregister_Fd (sock_fd s), Close_Fd (sock_fd s)]"
    "\<not> 0 < sock_fd s \<Longrightarrow> sock_fd s' = sock_fd s \<and> io_log io' = io_log io"
    "sent_on fd io' = sent_on fd io"
    "has_status s' ENTITY_CLOSED \<longleftrightarrow> has_status s ENTITY_CLOSED"
    "has_status s' FD_WAIT_CLOSE \<longleftrightarrow> has_status s FD_WAIT_CLOSE"
proof -
  define t where "t = (if 0 < sock_fd s
      then (raise_status ENTITY_WAIT_CLOSE_IF_FD_CLOSED s)\<lparr>sock_fd := - 1\<rparr> else s)"
  define o1 where "o1 = (if 0 < sock_fd s
      then log_event (Close_Fd (sock_fd s))
        ((log_event (Unregister_Fd (sock_fd s)) io)\<lparr>kernel := sys_close P (kernel io) (sock_fd s)\<rparr>)
      else io)"
  have "check_to_delete_self C t o1 = Some (s', io')"
    using assms by (simp add: close_fd_def t_def o1_def split: if_splits)
  note F = check_to_delete_self_fields(1-4,6) [OF this]
  show fields: "write_buffer s' = write_buffer s" "read_buffer s' = read_buffer s"
    "0 < sock_fd s \<Longrightarrow> sock_fd s' = - 1 \<and> has_status s' FD_CLOSED \<and> has_status s' ENTITY_WAIT_CLOSE \<and>
      io_log io' = io_log io @ [Unregister_Fd (sock_fd s), Close_Fd (sock_fd s)]"
    "\<not> 0 < sock_fd s \<Longrightarrow> sock_fd s' = sock_fd s \<and> io_log io' = io_log io"
    "has_status s' ENTITY_CLOSED \<longleftrightarrow> has_status s ENTITY_CLOSED"
    "has_status s' FD_WAIT_CLOSE \<longleftrightarrow> has_status s FD_WAIT_CLOSE"
    by (simp_all add: F has_status_def t_def o1_def raise_status_eq status_bits status_bits_zero)
  show "sent_on fd io' = sent_on fd io"
    using fields(3,4) by (cases "0 < sock_fd s") (simp_all add: sent_on_def sent_event_def)
qed

lemma on_write_event_conserves:
  assumes posix: "posix P" and run: "on_write_event P C s io = Some (s', io')"
  shows "sent_on (sock_fd s) io' @ write_buffer s' = sent_on (sock_fd s) io @ write_buffer s"
    "fd \<noteq> sock_fd s \<Longrightarrow> sent_on fd io' = sent_on fd io"
    "read_buffer s' = read_buffer s"
    "sock_fd s' \<noteq> sock_fd s \<Longrightarrow> write_buffer s' = [] \<and> has_status s FD_WAIT_CLOSE \<and> sock_fd s' = - 1"
proof -
  obtain t o1 where fb: "flush_buffer P C s io = (t, o1)" by (cases "flush_buffer P C s io") auto
  note F = flush_buffer_conserves [OF posix fb]
  define o2 where "o2 = log_event (Modify_Callback (sock_fd t)
      (if write_buffer t \<noteq> [] then EPOLLET OR EPOLLIN OR EPOLLOUT OR EPOLLRDHUP OR EPOLLERR
       else EPOLLET OR EPOLLIN OR EPOLLRDHUP OR EPOLLERR)) o1"
  have run': "check_close_fd P C t o2 = Some (s', io')"
    using run fb by (simp add: on_write_event_def o2_def)
  have o2: "sent_on fd o2 = sent_on fd o1" for fd by (simp add: o2_def io_simps)
  have "has_status t FD_WAIT_CLOSE \<longleftrightarrow> has_status s FD_WAIT_CLOSE" using F(5) by (simp add: has_status_def)
  then show "sent_on (sock_fd s) io' @ write_buffer s' = sent_on (sock_fd s) io @ write_buffer s"
    "fd \<noteq> sock_fd s \<Longrightarrow> sent_on fd io' = sent_on fd io"
    "read_buffer s' = read_buffer s"
    "sock_fd s' \<noteq> sock_fd s \<Longrightarrow> write_buffer s' = [] \<and> has_status s FD_WAIT_CLOSE \<and> sock_fd s' = - 1"
    using run' F(1-4) o2 close_fd_fields [of P t o2 s' io']
    by (auto simp: check_close_fd_def split: if_splits)
qed

end

end
