(* ===== verification/Proxy_Framing.thy ===== *)
theory Proxy_Framing
  imports Codec_Laws
begin

text \<open>
  The frames that carry a stream over the connections of the multipath proxy
  (\<open>tpproxy/mpproxy_types.cc\<close>): offset, length, payload.  \<open>IsDeliverable\<close>, the writing
  part of \<open>SendData\<close> and \<open>WriteMessage\<close>, and the loop of \<open>Deliver\<close>, whose two uses of a
  frame are the argument \<open>handle\<close>.
\<close>

definition kReserveOffset :: u64 where "kReserveOffset = 1"

section \<open>Definitions\<close>

text \<open>
  \<open>IsDeliverable\<close>: offset, its bytes, length, its bytes, when the frame is complete.
\<close>

definition is_deliverable :: "byte list \<Rightarrow> (u64 \<times> nat \<times> u64 \<times> nat) option option" where
  "is_deliverable data =
     (if data = [] then Some None
      else do {
        (offset_read, r1) \<leftarrow> read_varint62 (reader_new data (length data));
        case offset_read of
          None \<Rightarrow> Some None
        | Some offset \<Rightarrow> do {
            (len_read, r2) \<leftarrow> read_varint62 r1;
            case len_read of
              None \<Rightarrow> Some None
            | Some len \<Rightarrow>
                let offset_bytes = get_varint62_len offset;
                    len_bytes = get_varint62_len len;
                    frame_size = u64_add (offset_bytes + len_bytes) (unat len)
                in if frame_size \<le> length data
                   then Some (Some (unat offset, offset_bytes, unat len, len_bytes))
                   else Some None
          }
      })"

text \<open>The frame that \<open>SendData\<close> appends to the write buffer.\<close>

definition write_frame :: "u64 \<Rightarrow> byte list \<Rightarrow> byte list option" where
  "write_frame offset payload = do {
     let len = get_varint62_len (word_of_nat offset) + get_varint62_len (word_of_nat (length payload))
       + length payload;
     (ok1, w1) \<leftarrow> write_varint62 (writer_new (replicate len 0) len) (word_of_nat offset);
     (ok2, w2) \<leftarrow> (if ok1 then write_varint62 w1 (word_of_nat (length payload)) else Some (False, w1));
     let (ok3, w3) = (if ok2 then write_bytes w2 payload else (False, w2));
     fatal_unless ok3;
     Some (wr_buffer w3)
   }"

text \<open>
  The message that \<open>WriteMessage\<close> builds in a buffer of \<open>kBufferSize\<close> bytes: offset zero,
  the type and the data (\<open>None\<close> is the null pointer, with the size given).
\<close>

definition write_message_frame :: "byte \<Rightarrow> byte list option \<Rightarrow> nat \<Rightarrow> byte list option" where
  "write_message_frame type data n = do {
     let len = 1 + n;
     (ok1, w1) \<leftarrow> write_varint62 (writer_new (replicate 1500 0) 1500) 0;
     (ok2, w2) \<leftarrow> (if ok1 then write_varint62 w1 (word_of_nat len) else Some (False, w1));
     let (ok3, w3) = (if ok2 then write_uint8 w2 type else (False, w2));
     fatal_unless ok3;
     case data of
       None \<Rightarrow> Some (written w3)
     | Some d \<Rightarrow>
         if 0 < n then do {
           let (ok4, w4) = write_bytes w3 d;
           fatal_unless ok4;
           Some (written w4)
         } else Some (written w3)
   }"

section \<open>The shape of a frame\<close>

definition frame_bytes :: "u64 \<Rightarrow> byte list \<Rightarrow> byte list" where
  "frame_bytes offset payload = varint62_bytes offset @ varint62_bytes (length payload) @ payload"

definition frame_parse :: "byte list \<Rightarrow> (u64 \<times> nat \<times> u64 \<times> nat) option" where
  "frame_parse data =
     (case varint62_parse data of
        None \<Rightarrow> None
      | Some (offset, k) \<Rightarrow>
          (case varint62_parse (drop k data) of
             None \<Rightarrow> None
           | Some (len, l) \<Rightarrow>
               if varint62_len offset + varint62_len len + len \<le> length data
               then Some (offset, varint62_len offset, len, varint62_len len) else None))"

lemma varint62_parse_range:
  assumes "varint62_parse u = Some (n, k)"
  shows "n < 2 ^ 62" "k \<le> length u"
proof -
  define t where "t = unat (hd u) div 64"
  have k: "k = 2 ^ t" "length u \<ge> k" "n = be_nat (take k u) mod 2 ^ (8 * k - 2)"
    using assms by (auto simp: varint62_parse_def Let_def t_def split: if_splits)
  have "t \<le> 3" using unat_byte [of "hd u"] by (simp add: t_def)
  then have "k \<in> {1, 2, 4, 8}" unfolding k(1) by (auto simp: le_Suc_eq numeral_3_eq_3)
  then have "(2::nat) ^ (8 * k - 2) \<le> 2 ^ 62" by (auto simp: power_increasing)
  moreover have "n < 2 ^ (8 * k - 2)" using k(3) by simp
  ultimately show "n < 2 ^ 62" by linarith
  show "k \<le> length u" by (rule k(2))
qed

lemma unat_of_62: "n < 2 ^ 62 \<Longrightarrow> unat (word_of_nat n :: 64 word) = n"
  by (simp add: unsigned_of_nat take_bit_nat_eq_self)

lemma is_deliverable_eq:
  assumes len: "length data < 2 ^ 62"
  shows "is_deliverable data = Some (frame_parse data)"
proof (cases "data = []")
  case True
  then show ?thesis by (simp add: is_deliverable_def frame_parse_def varint62_parse_def)
next
  case False
  let ?r = "reader_new data (length data)"
  have r: "rd_ok ?r" "unread ?r = data" "rd_order ?r = NETWORK_BYTE_ORDER"
    using len by (simp_all add: reader_new_def rd_ok_def unread_def)
  show ?thesis
  proof (cases "varint62_parse data")
    case None
    then show ?thesis using False r read_varint62_eq [OF r(1,3)]
      by (simp add: is_deliverable_def frame_parse_def)
  next
    case (Some p)
    then obtain offset k where p1: "varint62_parse data = Some (offset, k)" by (cases p) auto
    note bounds1 = varint62_parse_range [OF p1]
    have r1: "rd_ok (skip ?r k)" "unread (skip ?r k) = drop k data" "rd_order (skip ?r k) = NETWORK_BYTE_ORDER"
      using skip_ok [OF r(1)] bounds1(2) r by (simp_all add: unread_skip)
    have read1: "read_varint62 ?r = Some (Some (word_of_nat offset), skip ?r k)"
      using read_varint62_eq [OF r(1,3)] r(2) p1 by simp
    show ?thesis
    proof (cases "varint62_parse (drop k data)")
      case None
      then show ?thesis using False read1 p1 read_varint62_eq [OF r1(1,3)] r1(2)
        by (simp add: is_deliverable_def frame_parse_def)
    next
      case (Some q)
      then obtain n l where p2: "varint62_parse (drop k data) = Some (n, l)" by (cases q) auto
      note bounds2 = varint62_parse_range [OF p2]
      have read2: "read_varint62 (skip ?r k) = Some (Some (word_of_nat n), skip (skip ?r k) l)"
        using read_varint62_eq [OF r1(1,3)] r1(2) p2 by simp
      have lens: "get_varint62_len (word_of_nat offset) = varint62_len offset"
        "get_varint62_len (word_of_nat n) = varint62_len n"
        using bounds1(1) bounds2(1) by (simp_all add: get_varint62_len_eq unat_of_62)
      have "varint62_len offset \<le> 8" "varint62_len n \<le> 8" by (simp_all add: varint62_len_def)
      then have add: "u64_add (varint62_len offset + varint62_len n) n =
          varint62_len offset + varint62_len n + n"
        using bounds2(1) by (intro u64_add_no_wrap) simp
      show ?thesis
        using False read1 read2 p1 p2 lens add bounds1(1) bounds2(1)
        by (simp add: is_deliverable_def frame_parse_def unat_of_62 Let_def)
    qed
  qed
qed

lemma frame_parse_frame:
  assumes "offset < 2 ^ 62" "length payload < 2 ^ 62"
  shows "frame_parse (frame_bytes offset payload @ rest) =
    Some (offset, varint62_len offset, length payload, varint62_len (length payload))"
  using varint62_roundtrip [OF assms(1), of "varint62_bytes (length payload) @ payload @ rest"]
    varint62_roundtrip [OF assms(2), of "payload @ rest"]
  by (simp add: frame_parse_def frame_bytes_def)

lemma frame_parse_Nil [simp]: "frame_parse [] = None"
  by (simp add: frame_parse_def varint62_parse_def)

lemma length_frame_bytes:
  "length (frame_bytes offset payload) = varint62_len offset + varint62_len (length payload) + length payload"
  by (simp add: frame_bytes_def)

lemma varint62_parse_prefix:
  assumes n: "n < 2 ^ 62" and k: "k < varint62_len n"
  shows "varint62_parse (take k (varint62_bytes n @ rest)) = None"
proof (cases "k = 0")
  case False
  have "varint62_parse (varint62_bytes n @ []) = Some (n, varint62_len n)" by (rule varint62_roundtrip [OF n])
  then have len: "2 ^ (unat (hd (varint62_bytes n)) div 64) = varint62_len n"
    by (auto simp: varint62_parse_def Let_def split: if_splits)
  have ne: "varint62_bytes n \<noteq> []" using varint62_len_pos [of n] length_varint62_bytes [of n] by force
  have "hd (take k (varint62_bytes n @ rest)) = hd (varint62_bytes n)" using False ne by simp
  then show ?thesis using False ne k len by (simp add: varint62_parse_def Let_def)
qed (simp add: varint62_parse_def)

text \<open>An incomplete frame is not deliverable, wherever the byte stream is cut.\<close>

lemma frame_parse_prefix:
  assumes o: "offset < 2 ^ 62" and p: "length payload < 2 ^ 62" and k: "k < length (frame_bytes offset payload)"
  shows "frame_parse (take k (frame_bytes offset payload)) = None"
proof (cases "k < varint62_len offset")
  case True
  then show ?thesis
    using varint62_parse_prefix [OF o True, of "varint62_bytes (length payload) @ payload"]
    by (simp add: frame_parse_def frame_bytes_def)
next
  case False
  let ?a = "varint62_len offset" and ?b = "varint62_len (length payload)"
  have data: "take k (frame_bytes offset payload) =
      varint62_bytes offset @ take (k - ?a) (varint62_bytes (length payload) @ payload)"
    using False by (simp add: frame_bytes_def)
  have p1: "varint62_parse (take k (frame_bytes offset payload)) = Some (offset, ?a)"
    unfolding data by (rule varint62_roundtrip [OF o])
  have rest: "drop ?a (take k (frame_bytes offset payload)) =
      take (k - ?a) (varint62_bytes (length payload) @ payload)"
    unfolding data by simp
  show ?thesis
  proof (cases "k - ?a < ?b")
    case True
    then show ?thesis
      using p1 rest varint62_parse_prefix [OF p True, of payload] by (simp add: frame_parse_def)
  next
    case False
    have "varint62_parse (varint62_bytes (length payload) @ take (k - ?a - ?b) payload) =
        Some (length payload, ?b)"
      by (rule varint62_roundtrip [OF p])
    then have "varint62_parse (take (k - ?a) (varint62_bytes (length payload) @ payload)) =
        Some (length payload, ?b)"
      using False by simp
    moreover have "\<not> ?a + ?b + length payload \<le> length (take k (frame_bytes offset payload))"
      using k by (simp add: length_frame_bytes)
    ultimately show ?thesis unfolding frame_parse_def p1 by (simp add: rest)
  qed
qed

section \<open>Writing frames\<close>

lemma writer_new_ok:
  assumes "n < 2 ^ 64"
  shows "wr_ok (writer_new (replicate n 0) n)" "wr_order (writer_new (replicate n 0) n) = NETWORK_BYTE_ORDER"
    "wr_length (writer_new (replicate n 0) n) = 0" "wr_capacity (writer_new (replicate n 0) n) = n"
    "written (writer_new (replicate n 0) n) = []"
  using assms by (simp_all add: writer_new_def wr_ok_def written_def)

lemma append_bytes_ok_simp: "wr_ok w \<Longrightarrow> wr_length w + length bs \<le> wr_capacity w \<Longrightarrow>
    wr_ok (append_bytes w bs) \<and> written (append_bytes w bs) = written w @ bs"
  by (simp add: append_bytes_ok written_append_bytes)

lemma written_full: "wr_ok w \<Longrightarrow> wr_length w = wr_capacity w \<Longrightarrow> written w = wr_buffer w"
  by (simp add: written_def wr_ok_def)

text \<open>The header: offset and length.\<close>

lemma write_header:
  assumes w: "wr_ok w" "wr_order w = NETWORK_BYTE_ORDER" and o: "offset < 2 ^ 62" and n: "n < 2 ^ 62"
    and fits: "wr_length w + varint62_len offset + varint62_len n \<le> wr_capacity w"
  shows "write_varint62 w (word_of_nat offset) = Some (True, append_bytes w (varint62_bytes offset))"
    "write_varint62 (append_bytes w (varint62_bytes offset)) (word_of_nat n) =
      Some (True, append_bytes (append_bytes w (varint62_bytes offset)) (varint62_bytes n))"
    "wr_ok (append_bytes (append_bytes w (varint62_bytes offset)) (varint62_bytes n))"
    "written (append_bytes (append_bytes w (varint62_bytes offset)) (varint62_bytes n)) =
      written w @ varint62_bytes offset @ varint62_bytes n"
proof -
  have w1: "wr_ok (append_bytes w (varint62_bytes offset)) \<and>
      written (append_bytes w (varint62_bytes offset)) = written w @ varint62_bytes offset"
    using fits by (intro append_bytes_ok_simp w) simp
  then show "write_varint62 w (word_of_nat offset) = Some (True, append_bytes w (varint62_bytes offset))"
    "write_varint62 (append_bytes w (varint62_bytes offset)) (word_of_nat n) =
      Some (True, append_bytes (append_bytes w (varint62_bytes offset)) (varint62_bytes n))"
    using write_varint62_eq [OF w, of "word_of_nat offset"] fits w(2) o n
      write_varint62_eq [of "append_bytes w (varint62_bytes offset)" "word_of_nat n"]
    by (simp_all add: unat_of_62)
  show "wr_ok (append_bytes (append_bytes w (varint62_bytes offset)) (varint62_bytes n))"
    "written (append_bytes (append_bytes w (varint62_bytes offset)) (varint62_bytes n)) =
      written w @ varint62_bytes offset @ varint62_bytes n"
    using w1 fits append_bytes_ok_simp [of "append_bytes w (varint62_bytes offset)" "varint62_bytes n"]
    by simp_all
qed

lemma write_frame_eq:
  assumes o: "offset < 2 ^ 62" and n: "length payload < 2 ^ 62"
  shows "write_frame offset payload = Some (frame_bytes offset payload)"
proof -
  let ?len = "varint62_len offset + varint62_len (length payload) + length payload"
  let ?w = "writer_new (replicate ?len 0) ?len"
  let ?w2 = "append_bytes (append_bytes ?w (varint62_bytes offset)) (varint62_bytes (length payload))"
  have lens: "get_varint62_len (word_of_nat offset) = varint62_len offset"
    "get_varint62_len (word_of_nat (length payload)) = varint62_len (length payload)"
    using o n by (simp_all add: get_varint62_len_eq unat_of_62)
  have "varint62_len offset \<le> 8" "varint62_len (length payload) \<le> 8" by (simp_all add: varint62_len_def)
  then have "?len < 2 ^ 64" using n by simp
  note w = writer_new_ok [OF this]
  have fits: "wr_length ?w + varint62_len offset + varint62_len (length payload) \<le> wr_capacity ?w"
    using w by simp
  note H = write_header [OF w(1,2) o n fits]
  have len2: "wr_length ?w2 = varint62_len offset + varint62_len (length payload)" "wr_capacity ?w2 = ?len"
    using w by simp_all
  let ?w3 = "append_bytes ?w2 payload"
  have w3: "write_bytes ?w2 payload = (True, ?w3)" using write_bytes_eq [OF H(3)] len2 by simp
  have ok3: "wr_ok ?w3 \<and> written ?w3 = written ?w2 @ payload"
    using len2 by (intro append_bytes_ok_simp H(3)) simp
  moreover have "wr_length ?w3 = wr_capacity ?w3" using len2 by simp
  ultimately have "written ?w3 = wr_buffer ?w3" by (intro written_full) simp_all
  then have "wr_buffer ?w3 = frame_bytes offset payload"
    using ok3 H(4) w(5) by (simp add: frame_bytes_def)
  then show ?thesis using H(1,2) w3 lens by (simp add: write_frame_def Let_def)
qed

lemma write_message_frame_eq:
  assumes "n \<le> 1496" "\<forall>d. data = Some d \<longrightarrow> length d = n" "data = None \<longrightarrow> n = 0"
  shows "write_message_frame type data n =
    Some (frame_bytes 0 (type # (case data of None \<Rightarrow> [] | Some d \<Rightarrow> d)))"
proof -
  let ?w = "writer_new (replicate 1500 0) 1500"
  note w = writer_new_ok [of 1500, simplified]
  have small: "varint62_len 0 = 1" "varint62_len (1 + n) \<le> 2" using assms(1) by (simp_all add: varint62_len_def)
  have fits: "wr_length ?w + varint62_len 0 + varint62_len (1 + n) \<le> wr_capacity ?w"
    unfolding w small(1) using small(2) by simp
  let ?w2 = "append_bytes (append_bytes ?w (varint62_bytes 0)) (varint62_bytes (1 + n))"
  have "(0::nat) < 2 ^ 62" "1 + n < 2 ^ 62" using assms(1) by simp_all
  note H = write_header [OF w(1,2) this fits]
  have len2: "wr_length ?w2 = 1 + varint62_len (1 + n)" "wr_capacity ?w2 = 1500"
    using w small by simp_all
  let ?w3 = "append_bytes ?w2 [type]"
  have w3: "write_uint8 ?w2 type = (True, ?w3)"
    using write_bytes_eq [of ?w2 "[type]"] H(3) len2 small assms(1) by (simp add: write_uint8_def)
  have ok3: "wr_ok ?w3 \<and> written ?w3 = varint62_bytes 0 @ varint62_bytes (1 + n) @ [type]"
    using append_bytes_ok_simp [of ?w2 "[type]"] H(3,4) w(5) len2 small assms(1) by simp
  have head: "write_message_frame type data n = (case data of None \<Rightarrow> Some (written ?w3)
      | Some d \<Rightarrow> if 0 < n then (let (ok4, w4) = write_bytes ?w3 d in if ok4 then Some (written w4) else None)
          else Some (written ?w3))"
    using H(1,2) w3 by (simp add: write_message_frame_def Let_def split: option.splits prod.splits)
  show ?thesis
  proof (cases data)
    case None
    then show ?thesis using head ok3 assms(3) by (simp add: frame_bytes_def)
  next
    case (Some d)
    then have d: "length d = n" using assms(2) by simp
    have fits3: "wr_length ?w3 + length d \<le> wr_capacity ?w3" using len2 small d assms(1) by simp
    have "write_bytes ?w3 d = (True, append_bytes ?w3 d)" using write_bytes_eq [of ?w3 d] ok3 fits3 by simp
    moreover have "written (append_bytes ?w3 d) = frame_bytes 0 (type # d)"
      using written_append_bytes [OF conjunct1 [OF ok3] fits3] ok3 d by (simp add: frame_bytes_def)
    moreover have "n = 0 \<Longrightarrow> written ?w3 = frame_bytes 0 [type]" using ok3 by (simp add: frame_bytes_def)
    ultimately show ?thesis using head Some d by (cases "n = 0") simp_all
  qed
qed

section \<open>The loop of Deliver\<close>

text \<open>
  \<open>handle offset payload\<close> is what the body does with a frame.  The result is what is left of
  the data, \<open>update\<close> and the state.
\<close>

partial_function (option) deliver_loop ::
  "(u64 \<Rightarrow> byte list \<Rightarrow> 'w \<Rightarrow> 'w option) \<Rightarrow> byte list \<Rightarrow> bool \<Rightarrow> 'w \<Rightarrow> (byte list \<times> bool \<times> 'w) option" where
  "deliver_loop handle data update w =
     (if data = [] then Some (data, update, w)
      else Option.bind (is_deliverable data) (\<lambda>d.
        case d of
          None \<Rightarrow> Some (data, update, w)
        | Some (offset, offset_bytes, len, len_bytes) \<Rightarrow>
            let header_size = offset_bytes + len_bytes;
                frame_size = header_size + len
            in Option.bind (handle offset (take len (drop header_size data)) w) (\<lambda>w'.
                 deliver_loop handle (drop frame_size data) True w')))"

text \<open>Frames are handled one after the other; a rest that is not deliverable stays.\<close>

type_synonym frame = "u64 \<times> byte list"

definition frames_bytes :: "frame list \<Rightarrow> byte list" where
  "frames_bytes frames = concat (map (\<lambda>(offset, payload). frame_bytes offset payload) frames)"

definition legal_frame :: "frame \<Rightarrow> bool" where
  "legal_frame fr \<longleftrightarrow> fst fr < 2 ^ 62 \<and> length (snd fr) < 2 ^ 62"

fun handle_frames :: "(u64 \<Rightarrow> byte list \<Rightarrow> 'w \<Rightarrow> 'w option) \<Rightarrow> frame list \<Rightarrow> 'w \<Rightarrow> 'w option" where
  "handle_frames handle [] w = Some w"
| "handle_frames handle ((offset, payload) # frames) w =
     Option.bind (handle offset payload w) (handle_frames handle frames)"

lemma frames_bytes_simps [simp]:
  "frames_bytes [] = []"
  "frames_bytes ((offset, payload) # frames) = frame_bytes offset payload @ frames_bytes frames"
  "frames_bytes (frs @ frames) = frames_bytes frs @ frames_bytes frames"
  by (simp_all add: frames_bytes_def)

lemma frame_bytes_ne [simp]: "frame_bytes offset payload \<noteq> []"
proof -
  have "0 < length (frame_bytes offset payload)"
    using varint62_len_pos [of offset] by (simp add: length_frame_bytes)
  then show ?thesis by force
qed

lemma deliver_loop_frames:
  "\<forall>fr \<in> set frames. legal_frame fr \<Longrightarrow> frame_parse rest = None \<Longrightarrow>
    length (frames_bytes frames @ rest) < 2 ^ 62 \<Longrightarrow>
    deliver_loop handle (frames_bytes frames @ rest) update w =
      map_option (\<lambda>w'. (rest, update \<or> frames \<noteq> [], w')) (handle_frames handle frames w)"
proof (induction frames arbitrary: update w)
  case Nil
  then show ?case using is_deliverable_eq [of rest] by (subst deliver_loop.simps) simp
next
  case (Cons fr frames)
  obtain offset payload where fr: "fr = (offset, payload)" by (cases fr)
  have legal: "offset < 2 ^ 62" "length payload < 2 ^ 62" using Cons.prems(1) by (simp_all add: fr legal_frame_def)
  let ?rest = "frames_bytes frames @ rest"
  define D where "D = frames_bytes (fr # frames) @ rest"
  have data: "D = frame_bytes offset payload @ ?rest" by (simp add: fr D_def)
  have ne: "D \<noteq> []" by (simp add: data)
  have parse: "is_deliverable D =
      Some (Some (offset, varint62_len offset, length payload, varint62_len (length payload)))"
    using is_deliverable_eq [OF Cons.prems(3)] frame_parse_frame [OF legal, of ?rest]
    unfolding D_def [symmetric] by (simp add: data)
  have cut: "take (length payload) (drop (varint62_len offset + varint62_len (length payload)) D) = payload"
    "drop (varint62_len offset + varint62_len (length payload) + length payload) D = ?rest"
    unfolding data frame_bytes_def by simp_all
  have "deliver_loop handle D update w =
      Option.bind (handle offset payload w) (\<lambda>w'. deliver_loop handle ?rest True w')"
    by (subst deliver_loop.simps) (simp add: ne parse cut Let_def)
  also have "\<dots> = map_option (\<lambda>w'. (rest, update \<or> fr # frames \<noteq> [], w')) (handle_frames handle (fr # frames) w)"
    using Cons.IH Cons.prems by (cases "handle offset payload w") (simp_all add: fr)
  finally show ?case unfolding D_def .
qed

text \<open>
  Cutting the byte stream: whatever the pieces in which it arrives, the frames that are
  complete are the ones delivered.
\<close>

lemma take_frames_bytes:
  assumes "k \<le> length (frames_bytes frames)" "\<forall>fr \<in> set frames. legal_frame fr"
  obtains fin_frs todo rest where "frames = fin_frs @ todo" "take k (frames_bytes frames) = frames_bytes fin_frs @ rest"
    "frame_parse rest = None" "rest @ drop k (frames_bytes frames) = frames_bytes todo"
  using assms
proof (induction frames arbitrary: k thesis)
  case Nil
  then show ?case by simp
next
  case (Cons fr frames)
  obtain offset payload where fr: "fr = (offset, payload)" by (cases fr)
  have legal: "offset < 2 ^ 62" "length payload < 2 ^ 62" using Cons.prems(3) by (simp_all add: fr legal_frame_def)
  let ?n = "length (frame_bytes offset payload)"
  show ?case
  proof (cases "k < ?n")
    case True
    show ?thesis
      using True frame_parse_prefix [OF legal True]
      by (intro Cons.prems(1) [of "[]" "fr # frames" "take k (frame_bytes offset payload)"]) (simp_all add: fr)
  next
    case False
    then have "k - ?n \<le> length (frames_bytes frames)" using Cons.prems(2) by (simp add: fr)
    then obtain d t r where IH: "frames = d @ t" "take (k - ?n) (frames_bytes frames) = frames_bytes d @ r"
        "frame_parse r = None" "r @ drop (k - ?n) (frames_bytes frames) = frames_bytes t"
      using Cons.IH [of "k - ?n"] Cons.prems(3) by auto
    show ?thesis
      using False IH by (intro Cons.prems(1) [of "fr # d" t r]) (simp_all add: fr)
  qed
qed

end
