(* ===== verification/Proxy_Connection.thy ===== *)
theory Proxy_Connection
  imports Proxy_Socket Proxy_Framing Interval_Budget Windowed_Filter
begin

text \<open>
  \<open>TcpConnectionBase\<close> (\<open>tpproxy/mpproxy_types.cc\<close>): one connection between the two halves
  of the proxy.  It frames data and messages into its write buffer, sends within a budget that
  follows the measured goodput, and collects what it reads.  What it does with complete frames
  involves other objects and is in \<open>Proxy_World\<close>.  \<open>connection_role\<close> holds the fields
  that the subclasses \<open>TcpConnectionLeft\<close> and \<open>TcpConnectionRight\<close> add.
\<close>

section \<open>State\<close>

datatype connection_role =
    Left_Connection (left_uuid: u64) (dst_connect_msg_sent: bool)
  | Right_Connection (right_uuid: u64) (right_sid: u64) (origin_ip: "32 word") (origin_port: "16 word")
      (right_origin_connected: bool)

record tcp_connection = socket +
  max_goodput :: "quic_bandwidth windowed_filter"
  conn_budget :: interval_budget
  server_ref :: "nat option"
  conn_budget_alarm :: base_alarm
  goodput_alarm :: base_alarm
  last_bytes_acked :: u64
  last_goodput_time :: quic_time
  conn_last_budget_time :: quic_time
  round_trip_count :: int
  conn_role :: connection_role

definition kGoodputInterval :: time_delta where "kGoodputInterval = delta_from_milliseconds 100"
definition kBudgetInterval :: time_delta where "kBudgetInterval = delta_from_milliseconds 10"
definition kMinGoodput :: quic_bandwidth where "kMinGoodput = bw_from_kbits_per_second 500"
definition kBandwithWindowSize :: int where "kBandwithWindowSize = 10"
definition kWriteBufferThreshold :: nat where "kWriteBufferThreshold = 1500 * 10"

section \<open>Goodput and budget\<close>

definition goodput_with_minimum :: "tcp_connection \<Rightarrow> quic_bandwidth" where
  "goodput_with_minimum c =
     (let b = get_best (max_goodput c) in if b < kMinGoodput then kMinGoodput else b)"

definition is_buffer_above_threshold :: "tcp_connection \<Rightarrow> bool" where
  "is_buffer_above_threshold c \<longleftrightarrow> kWriteBufferThreshold < length (write_buffer c)"

text \<open>\<open>packet_budget_.set_target_rate_kbps((kBandwidthGain*GoodputWithMinimum()).ToKBitsPerSecond())\<close>\<close>

definition retarget :: "'k platform \<Rightarrow> tcp_connection \<Rightarrow> tcp_connection" where
  "retarget P c = c\<lparr>conn_budget := set_target_rate_kbps (conn_budget c)
     (to_int32 (bw_to_kbits_per_second (gain_scale P (goodput_with_minimum c))))\<rparr>"

definition acked_or_zero :: "'k platform \<Rightarrow> 'k \<Rightarrow> int \<Rightarrow> u64" where
  "acked_or_zero P k fd = (case tcp_bytes_acked P k fd of None \<Rightarrow> 0 | Some n \<Rightarrow> n)"

definition connection_new ::
  "'k platform \<Rightarrow> 'k \<Rightarrow> int \<Rightarrow> tcp_status \<Rightarrow> nat option \<Rightarrow> connection_role \<Rightarrow> tcp_connection option" where
  "connection_new P k fd status server role = do {
     let now = clock_now P k;
     goodput \<leftarrow> alarm_update alarm_new (now + kGoodputInterval) 0;
     budget \<leftarrow> alarm_update alarm_new (now + kBudgetInterval) 0;
     let c = retarget P
       \<lparr>io_status = 0, sock_status = status, sock_fd = fd, write_buffer = [], read_buffer = [],
        destroyed = False, send_bytes = 0, recv_bytes = 0,
        max_goodput = filter_new kBandwithWindowSize 0 0, conn_budget = budget_new 0 False,
        server_ref = server, conn_budget_alarm = budget, goodput_alarm = goodput,
        last_bytes_acked = acked_or_zero P k fd, last_goodput_time = now,
        conn_last_budget_time = now, round_trip_count = 0, conn_role = role\<rparr>;
     Some (c\<lparr>conn_budget := increase_budget (conn_budget c) (delta_to_milliseconds kBudgetInterval)\<rparr>)
   }"

definition on_goodput_alarm :: "'k platform \<Rightarrow> 'k \<Rightarrow> tcp_connection \<Rightarrow> tcp_connection option" where
  "on_goodput_alarm P k c = do {
     let acked = acked_or_zero P k (sock_fd c);
     let now = clock_now P k;
     al \<leftarrow> alarm_update (goodput_alarm c) (now + kGoodputInterval) 0;
     b \<leftarrow> (if last_bytes_acked c < acked \<and> last_goodput_time c < now
           then bw_from_bytes_and_time_delta (acked - last_bytes_acked c) (now - last_goodput_time c)
           else Some 0);
     let c1 = retarget P (c\<lparr>goodput_alarm := al,
       max_goodput := filter_update max_filter (max_goodput c) b (round_trip_count c)\<rparr>);
     Some (c1\<lparr>round_trip_count := round_trip_count c1 + 1, last_bytes_acked := acked,
              last_goodput_time := now\<rparr>)
   }"

definition on_budget_alarm :: "'k platform \<Rightarrow> 'k \<Rightarrow> tcp_connection \<Rightarrow> tcp_connection option" where
  "on_budget_alarm P k c = do {
     let now = clock_now P k;
     let c1 = (if conn_last_budget_time c < now
       then let c' = retarget P c
            in c'\<lparr>conn_budget := increase_budget (conn_budget c')
                    (delta_to_milliseconds (now - conn_last_budget_time c))\<rparr>
       else c);
     al \<leftarrow> alarm_update (conn_budget_alarm c1) (now + kBudgetInterval) 0;
     Some (c1\<lparr>conn_last_budget_time := now, conn_budget_alarm := al\<rparr>)
   }"

section \<open>The socket class\<close>

definition conn_can_send :: "tcp_connection \<Rightarrow> int \<Rightarrow> bool" where
  "conn_can_send c bytes = (if started (conn_budget c) then 0 < budget_remaining (conn_budget c) else True)"

definition conn_on_packet_sent :: "int \<Rightarrow> tcp_connection \<Rightarrow> tcp_connection" where
  "conn_on_packet_sent bytes c =
     (if started (conn_budget c) then c\<lparr>conn_budget := use_budget (conn_budget c) bytes\<rparr> else c)"

definition connection_class :: "nat \<Rightarrow> (tcp_connection, 'k) socket_class" where
  "connection_class i = \<lparr>this_object = Connection i, can_send = conn_can_send,
     on_packet_sent = conn_on_packet_sent, delete_self = base_delete_self (Connection i)\<rparr>"

interpretation connection: socket_virtual "connection_class i" for i :: nat
  by unfold_locales
    (auto simp: connection_class_def conn_on_packet_sent_def base_delete_self_def socket.defs split: if_splits)

section \<open>Writing\<close>

definition append_and_flush ::
  "'k platform \<Rightarrow> nat \<Rightarrow> tcp_connection \<Rightarrow> byte list \<Rightarrow> 'k io \<Rightarrow> (tcp_connection \<times> 'k io) option" where
  "append_and_flush P i c bytes io =
     (let c1 = c\<lparr>write_buffer := write_buffer c @ bytes\<rparr>
      in if is_connected c1 then on_write_event P (connection_class i) c1 io else Some (c1, io))"

definition send_data ::
  "'k platform \<Rightarrow> nat \<Rightarrow> tcp_connection \<Rightarrow> u64 \<Rightarrow> byte list \<Rightarrow> 'k io \<Rightarrow> (tcp_connection \<times> 'k io) option" where
  "send_data P i c offset payload io = do {
     fatal_unless (0 < sock_fd c);
     fatal_unless (length payload \<le> 65535);
     frame \<leftarrow> write_frame offset payload;
     append_and_flush P i c frame io
   }"

definition write_message ::
  "'k platform \<Rightarrow> nat \<Rightarrow> tcp_connection \<Rightarrow> byte \<Rightarrow> byte list option \<Rightarrow> nat \<Rightarrow> 'k io \<Rightarrow>
    (tcp_connection \<times> 'k io) option" where
  "write_message P i c type data n io = do {
     frame \<leftarrow> write_message_frame type data n;
     append_and_flush P i c frame io
   }"

section \<open>Reading\<close>

text \<open>
  The loop of \<open>OnReadEvent\<close>: the descriptor is the argument of the event, also after the
  connection closed it.
\<close>

partial_function (option) conn_read_loop ::
  "'k platform \<Rightarrow> nat \<Rightarrow> int \<Rightarrow> tcp_connection \<Rightarrow> bool \<Rightarrow> 'k io \<Rightarrow> (tcp_connection \<times> bool \<times> 'k io) option" where
  "conn_read_loop P i fd c update io =
     (case sys_read P (kernel io) fd (kBufferSize + 500) of
        (None, k) \<Rightarrow> Some (c, update, io\<lparr>kernel := k\<rparr>)
      | (Some d, k) \<Rightarrow>
          if d = [] then
            Option.bind (close_fd P (connection_class i) c (io\<lparr>kernel := k\<rparr>)) (\<lambda>(c1, io1).
            Option.bind (fatal_unless (write_buffer c1 = [])) (\<lambda>_.
              conn_read_loop P i fd c1 update io1))
          else conn_read_loop P i fd
            (c\<lparr>recv_bytes := recv_bytes c + int (length d), read_buffer := read_buffer c @ d\<rparr>)
            True (io\<lparr>kernel := k\<rparr>))"

section \<open>What writing does\<close>

lemma append_and_flush_conserves:
  assumes posix: "posix P" and run: "append_and_flush P i c bytes io = Some (c', io')"
  shows "sent_on (sock_fd c) io' @ write_buffer c' = sent_on (sock_fd c) io @ write_buffer c @ bytes \<and>
    (fd \<noteq> sock_fd c \<longrightarrow> sent_on fd io' = sent_on fd io) \<and> read_buffer c' = read_buffer c"
proof -
  define d where "d = c\<lparr>write_buffer := write_buffer c @ bytes\<rparr>"
  have d: "sock_fd d = sock_fd c" "write_buffer d = write_buffer c @ bytes" "read_buffer d = read_buffer c"
    by (simp_all add: d_def)
  show ?thesis
  proof (cases "is_connected d")
    case True
    then have "on_write_event P (connection_class i) d io = Some (c', io')"
      using run by (simp add: append_and_flush_def d_def)
    from connection.on_write_event_conserves(1-3) [OF posix this] show ?thesis unfolding d by blast
  next
    case False
    then have "c' = d" "io' = io" using run by (simp_all add: append_and_flush_def d_def)
    then show ?thesis by (simp add: d)
  qed
qed

lemma append_and_flush_fd:
  assumes posix: "posix P" and run: "append_and_flush P i c bytes io = Some (c', io')"
  shows "sock_fd c' = sock_fd c \<or> sock_fd c' = - 1 \<and> write_buffer c' = []"
proof -
  define d where "d = c\<lparr>write_buffer := write_buffer c @ bytes\<rparr>"
  have d: "sock_fd d = sock_fd c" by (simp add: d_def)
  show ?thesis
  proof (cases "is_connected d")
    case True
    then have "on_write_event P (connection_class i) d io = Some (c', io')"
      using run by (simp add: append_and_flush_def d_def)
    from connection.on_write_event_conserves(4) [OF posix this] show ?thesis unfolding d by blast
  next
    case False
    then have "c' = d" using run by (simp add: append_and_flush_def d_def)
    then show ?thesis by (simp add: d)
  qed
qed

lemma send_data_run:
  assumes "offset < 2 ^ 62" "length payload \<le> 65535" "0 < sock_fd c"
  shows "send_data P i c offset payload io = append_and_flush P i c (frame_bytes offset payload) io"
  using assms write_frame_eq [of offset payload] by (simp add: send_data_def)

text \<open>The connection's class never refuses to delete itself: writing always returns.\<close>

lemma connection_close_fd: "\<exists>c' io'. close_fd P (connection_class i) c io = Some (c', io')"
  by (simp add: close_fd_def check_to_delete_self_def connection_class_def base_delete_self_def)

lemma append_and_flush_returns: "\<exists>c' io'. append_and_flush P i c bytes io = Some (c', io')"
  using connection_close_fd [of P i]
  by (auto simp: append_and_flush_def on_write_event_def check_close_fd_def Let_def split: prod.split)

section \<open>The budget of a connection\<close>

definition conn_budget_inv :: "tcp_connection \<Rightarrow> bool" where
  "conn_budget_inv c \<longleftrightarrow> budget_inv (conn_budget c)"

end
