(* ===== verification/Proxy_Server.thy ===== *)
theory Proxy_Server
  imports Proxy_Connection Sequencer_Delivery
begin

text \<open>
  \<open>TpServerBase\<close> (\<open>tpproxy/mpproxy_types.cc\<close>): the end of the proxy that faces the
  application.  It reads a byte stream from its own socket, cuts it into frames for the
  connections that are ready, and puts the frames it receives back in order through a
  \<open>QuicStreamSequencer\<close> of which it is the owner.  \<open>server_role\<close> holds the fields that
  \<open>TpServerLeft\<close> and \<open>TpServerRight\<close> add.  The connections a server writes to are a store
  \<open>nat \<rightharpoonup> tcp_connection\<close>, the pointers in \<open>ready_list_\<close> are keys of it; a pointer without
  an object has no result.
\<close>

section \<open>State\<close>

datatype server_role =
    Left_Server (origin_connected: bool) (wait_list: "nat list") (left_origin: sock_addr)
  | Right_Server (server_uuid: u64) (server_sid: u64) (right_origin: sock_addr)

record tp_server = socket +
  server_seq :: sequencer
  server_budget :: interval_budget
  health_alarm :: "base_alarm option"
  server_budget_alarm :: "base_alarm option"
  write_offset :: u64
  ready_list :: "nat list"
  sequencer_bytes :: int
  server_last_budget_time :: quic_time
  last_health_time :: quic_time
  health_time_out :: nat
  server_role :: server_role

type_synonym connections = "nat \<rightharpoonup> tcp_connection"

definition kScheduleInterval :: time_delta where "kScheduleInterval = delta_from_milliseconds 10"
definition kHealthInterval :: time_delta where "kHealthInterval = delta_from_milliseconds 2000"
definition kMinPayloadSize :: nat where "kMinPayloadSize = 1500"
definition kMaxPacketLength :: nat where "kMaxPacketLength = 65535"

definition server_new :: "int \<Rightarrow> tcp_status \<Rightarrow> server_role \<Rightarrow> tp_server option" where
  "server_new fd status role = do {
     q \<leftarrow> sequencer_new;
     Some \<lparr>io_status = 0, sock_status = status, sock_fd = fd, write_buffer = [], read_buffer = [],
       destroyed = False, send_bytes = 0, recv_bytes = 0, server_seq = q,
       server_budget = budget_new 0 False, health_alarm = None, server_budget_alarm = None,
       write_offset = kReserveOffset, ready_list = [], sequencer_bytes = 0,
       server_last_budget_time = 0, last_health_time = 0, health_time_out = 0, server_role = role\<rparr>
   }"

section \<open>The sessions of the backend\<close>

text \<open>
  \<open>TpServerBackend\<close> (\<open>tpproxy/mpproxy_server.cc\<close>): the map from user and session to the
  server.  Registering a session twice and removing one that is not there are fatal.
\<close>

definition find_session :: "(u64 \<rightharpoonup> (u64 \<rightharpoonup> nat)) \<Rightarrow> u64 \<Rightarrow> u64 \<Rightarrow> nat option" where
  "find_session m uuid sid = Option.bind (m uuid) (\<lambda>session. session sid)"

definition register_sink :: "nat \<Rightarrow> u64 \<Rightarrow> u64 \<Rightarrow> (u64 \<rightharpoonup> (u64 \<rightharpoonup> nat)) \<Rightarrow> (u64 \<rightharpoonup> (u64 \<rightharpoonup> nat)) option" where
  "register_sink server uuid ssid m =
     (case m uuid of
        Some session \<Rightarrow>
          if session ssid = None then Some (m(uuid \<mapsto> session(ssid \<mapsto> server))) else None
      | None \<Rightarrow> Some (m(uuid \<mapsto> [ssid \<mapsto> server])))"

definition unregister_sink :: "u64 \<Rightarrow> u64 \<Rightarrow> (u64 \<rightharpoonup> (u64 \<rightharpoonup> nat)) \<Rightarrow> (u64 \<rightharpoonup> (u64 \<rightharpoonup> nat)) option" where
  "unregister_sink uuid ssid m =
     (case m uuid of
        Some session \<Rightarrow>
          if session ssid = None then None
          else
            let session' = session(ssid := None)
            in if session' = Map.empty then Some (m(uuid := None)) else Some (m(uuid \<mapsto> session'))
      | None \<Rightarrow> None)"

section \<open>The socket class\<close>

text \<open>\<open>TpServerRight::DeleteSelf\<close> also gives up its session.\<close>

definition server_delete_self :: "nat \<Rightarrow> tp_server \<Rightarrow> 'k io \<Rightarrow> (tp_server \<times> 'k io) option" where
  "server_delete_self i s io =
     (case server_role s of
        Left_Server _ _ _ \<Rightarrow> base_delete_self (Server i) s io
      | Right_Server uuid sid _ \<Rightarrow>
          if destroyed s then Some (s, io)
          else do {
            m \<leftarrow> unregister_sink uuid sid (sessions io);
            Some (s\<lparr>destroyed := True\<rparr>, io\<lparr>sessions := m, posted := posted io @ [Server i]\<rparr>)
          })"

definition server_class :: "nat \<Rightarrow> (tp_server, 'k) socket_class" where
  "server_class i = \<lparr>this_object = Server i, can_send = \<lambda>_ _. True,
     on_packet_sent = \<lambda>_ s. s, delete_self = server_delete_self i\<rparr>"

interpretation server: socket_virtual "server_class i" for i :: nat
  by unfold_locales
    (auto simp: server_class_def server_delete_self_def base_delete_self_def socket.defs Option.bind_eq_Some_conv
      split: if_splits server_role.splits)

section \<open>Alarms\<close>

definition create_health_alarm :: "'k platform \<Rightarrow> tp_server \<Rightarrow> 'k io \<Rightarrow> tp_server option" where
  "create_health_alarm P s io =
     (if health_alarm s \<noteq> None then Some s
      else map_option (\<lambda>al. s\<lparr>health_alarm := Some al\<rparr>) (alarm_update alarm_new (clock_now P (kernel io)) 0))"

text \<open>
  \<open>UpdateReadBudgetRate\<close>: the pointers of \<open>ready_list_\<close> are read in the store.
\<close>

fun ready_goodput :: "'k platform \<Rightarrow> connections \<Rightarrow> nat list \<Rightarrow> quic_bandwidth \<Rightarrow> quic_bandwidth option" where
  "ready_goodput P cs [] b = Some b"
| "ready_goodput P cs (j # js) b = do {
     c \<leftarrow> cs j;
     ready_goodput P cs js
       (if \<not> is_buffer_above_threshold c then bw_add b (gain_scale P (goodput_with_minimum c)) else b)
   }"

definition update_read_budget_rate :: "'k platform \<Rightarrow> connections \<Rightarrow> tp_server \<Rightarrow> tp_server option" where
  "update_read_budget_rate P cs s = do {
     b \<leftarrow> ready_goodput P cs (ready_list s) 0;
     let b' = (if b < kMinGoodput then kMinGoodput else b);
     Some (s\<lparr>server_budget := set_target_rate_kbps (server_budget s) (to_int32 (bw_to_kbits_per_second b'))\<rparr>)
   }"

definition create_budget_alarm ::
  "'k platform \<Rightarrow> connections \<Rightarrow> tp_server \<Rightarrow> 'k io \<Rightarrow> tp_server option" where
  "create_budget_alarm P cs s io =
     (if server_budget_alarm s \<noteq> None then Some s
      else do {
        s1 \<leftarrow> update_read_budget_rate P cs s;
        al \<leftarrow> alarm_update alarm_new (clock_now P (kernel io)) 0;
        Some (s1\<lparr>server_budget_alarm := Some al\<rparr>)
      })"

text \<open>\<open>if(budget_alarm_->IsSet()) Cancel(); Update(now, 0)\<close> of an alarm that exists.\<close>

definition rearm_budget_alarm :: "'k platform \<Rightarrow> 'k \<Rightarrow> tp_server \<Rightarrow> tp_server option" where
  "rearm_budget_alarm P k s = do {
     al \<leftarrow> server_budget_alarm s;
     al1 \<leftarrow> (if alarm_is_set al then alarm_cancel al else Some al);
     al2 \<leftarrow> alarm_update al1 (clock_now P k) 0;
     Some (s\<lparr>server_budget_alarm := Some al2\<rparr>)
   }"

definition on_health_alarm :: "'k platform \<Rightarrow> 'k \<Rightarrow> tp_server \<Rightarrow> tp_server option" where
  "on_health_alarm P k s = do {
     let now = clock_now P k;
     let s1 = (if last_health_time s = 0 then s\<lparr>last_health_time := now\<rparr> else s);
     let s2 = (if last_health_time s1 + kHealthInterval \<le> now
               then s1\<lparr>health_time_out := (health_time_out s1 + 1) mod 2 ^ 32\<rparr>
               else s1\<lparr>health_time_out := 0\<rparr>);
     al \<leftarrow> health_alarm s2;
     al' \<leftarrow> alarm_update al (now + kHealthInterval) 0;
     Some (s2\<lparr>health_alarm := Some al'\<rparr>)
   }"

section \<open>From the connections to the application\<close>

text \<open>\<open>WriteDataToFd\<close>; its result, the size or zero, is not used.\<close>

definition write_data_to_fd :: "'k platform \<Rightarrow> nat \<Rightarrow> tp_server \<Rightarrow> byte list \<Rightarrow> 'k io \<Rightarrow> tp_server \<times> 'k io" where
  "write_data_to_fd P i s pv io =
     (if sock_fd s < 0 then (s, io)
      else
        let (s1, io1) = flush_buffer P (server_class i) s io
        in if write_buffer s1 \<noteq> [] then (s1\<lparr>write_buffer := write_buffer s1 @ pv\<rparr>, io1)
           else
             let (sent, k) = sys_send P (kernel io1) (sock_fd s1) pv;
                 io2 = io1\<lparr>kernel := k\<rparr>;
                 n = (if 0 < sent then nat sent else 0);
                 s2 = (if 0 < sent then s1\<lparr>send_bytes := send_bytes s1 + sent\<rparr> else s1);
                 io3 = (if 0 < sent then log_event (Send (sock_fd s1) (take n pv)) io2 else io2)
             in if n < length pv
                then (s2\<lparr>write_buffer := drop n pv\<rparr>,
                      log_event (Modify_Callback (sock_fd s2)
                        (EPOLLET OR EPOLLIN OR EPOLLOUT OR EPOLLRDHUP OR EPOLLERR)) io3)
                else (s2, io3))"

text \<open>
  The server as the owner of its sequencer.  While the sequencer runs, its state is the
  argument and not the field \<open>server_seq\<close>.  \<open>Read\<close> calls back \<open>AddBytesConsumed\<close> only,
  which does nothing.
\<close>

definition quiet_interface :: "'h stream_interface" where
  "quiet_interface = \<lparr>on_data_available = \<lambda>q h. None, on_fin_read = \<lambda>h. h,
     add_bytes_consumed = \<lambda>n h. h, on_unrecoverable_error = \<lambda>e h. h\<rparr>"

definition server_on_data_available ::
  "'k platform \<Rightarrow> nat \<Rightarrow> sequencer \<Rightarrow> tp_server \<times> 'k io \<Rightarrow> (sequencer \<times> tp_server \<times> 'k io) option" where
  "server_on_data_available P i q h = do {
     let (s, io) = h;
     s1 \<leftarrow> create_health_alarm P s io;
     let s2 = s1\<lparr>last_health_time := clock_now P (kernel io)\<rparr>;
     (buffer, q', _) \<leftarrow> seq_read quiet_interface q ();
     let s3 = s2\<lparr>sequencer_bytes := sequencer_bytes s2 + int (length buffer)\<rparr>;
     Some (q', write_data_to_fd P i s3 buffer io)
   }"

definition server_interface :: "'k platform \<Rightarrow> nat \<Rightarrow> (tp_server \<times> 'k io) stream_interface" where
  "server_interface P i = quiet_interface\<lparr>on_data_available := server_on_data_available P i\<rparr>"

text \<open>\<open>RecvData\<close>: the size is cut to 16 bits.\<close>

definition recv_data ::
  "'k platform \<Rightarrow> nat \<Rightarrow> u64 \<Rightarrow> byte list \<Rightarrow> tp_server \<Rightarrow> 'k io \<Rightarrow> (tp_server \<times> 'k io) option" where
  "recv_data P i offset pv s io =
     (if kReserveOffset \<le> offset then do {
        (q, s', io') \<leftarrow> on_stream_frame (server_interface P i) (server_seq s) (s, io)
          \<lparr>fin = False, frame_offset = offset - kReserveOffset, frame_data = take (length pv mod 2 ^ 16) pv\<rparr>;
        Some (s'\<lparr>server_seq := q\<rparr>, io')
      } else Some (s, io))"

section \<open>From the application to the connections\<close>

definition on_data_from_fd :: "'k platform \<Rightarrow> byte list \<Rightarrow> tp_server \<Rightarrow> 'k io \<Rightarrow> tp_server option" where
  "on_data_from_fd P pv s io = do {
     s1 \<leftarrow> create_health_alarm P s io;
     Some (s1\<lparr>last_health_time := clock_now P (kernel io), read_buffer := read_buffer s1 @ pv\<rparr>)
   }"

text \<open>The loop of \<open>OnReadEvent\<close> and the bytes it read.\<close>

partial_function (option) server_read_loop ::
  "'k platform \<Rightarrow> nat \<Rightarrow> int \<Rightarrow> int \<Rightarrow> int \<Rightarrow> tp_server \<Rightarrow> 'k io \<Rightarrow> (int \<times> tp_server \<times> 'k io) option" where
  "server_read_loop P i fd target got s io =
     (case sys_read P (kernel io) fd kBufferSize of
        (None, k) \<Rightarrow> Some (got, s, io\<lparr>kernel := k\<rparr>)
      | (Some d, k) \<Rightarrow>
          if d = [] then
            Option.bind (close_fd P (server_class i) s (io\<lparr>kernel := k\<rparr>))
              (\<lambda>(s1, io1). server_read_loop P i fd target got s1 io1)
          else
            Option.bind (on_data_from_fd P d (s\<lparr>recv_bytes := recv_bytes s + int (length d)\<rparr>) (io\<lparr>kernel := k\<rparr>))
              (\<lambda>s1. if target \<le> got + int (length d)
                    then Some (got + int (length d), s1, io\<lparr>kernel := k\<rparr>)
                    else server_read_loop P i fd target (got + int (length d)) s1 (io\<lparr>kernel := k\<rparr>)))"

text \<open>\<open>SendDataWithLimit\<close>: the connection, the next offset and the effects.\<close>

function send_data_with_limit ::
  "'k platform \<Rightarrow> nat \<Rightarrow> u64 \<Rightarrow> tcp_connection \<Rightarrow> byte list \<Rightarrow> 'k io \<Rightarrow> (u64 \<times> tcp_connection \<times> 'k io) option" where
  "send_data_with_limit P j offset c pv io =
     (if pv = [] then Some (offset, c, io)
      else
        let sent = min (length pv) kMaxPacketLength
        in Option.bind (send_data P j c offset (take sent pv) io)
             (\<lambda>(c', io'). send_data_with_limit P j (u64_add offset sent) c' (drop sent pv) io'))"
  by pat_completeness auto

termination send_data_with_limit
  by (relation "measure (\<lambda>(P, j, offset, c, pv, io). length pv)")
    (auto simp: kMaxPacketLength_def)

declare send_data_with_limit.simps [simp del]

text \<open>\<open>Schedule\<close>: the connections with room and the sum of their rates.\<close>

fun available_connections ::
  "connections \<Rightarrow> nat list \<Rightarrow> quic_bandwidth \<Rightarrow> (nat list \<times> quic_bandwidth) option" where
  "available_connections cs [] sum_bw = Some ([], sum_bw)"
| "available_connections cs (j # js) sum_bw = do {
     c \<leftarrow> cs j;
     if \<not> is_buffer_above_threshold c then do {
       (js', sum_bw') \<leftarrow> available_connections cs js (bw_add sum_bw (goodput_with_minimum c));
       Some (j # js', sum_bw')
     } else available_connections cs js sum_bw
   }"

text \<open>The shares of all but the last connection; the last one takes the rest.\<close>

fun schedule_loop ::
  "'k platform \<Rightarrow> int \<Rightarrow> nat list \<Rightarrow> u64 \<Rightarrow> byte list \<Rightarrow> connections \<Rightarrow> 'k io \<Rightarrow>
    (u64 \<times> connections \<times> 'k io) option" where
  "schedule_loop P sum_bw [] offset data cs io = Some (offset, cs, io)"
| "schedule_loop P sum_bw [j] offset data cs io =
     (if data = [] then Some (offset, cs, io)
      else do {
        c \<leftarrow> cs j;
        (offset', c', io') \<leftarrow> send_data_with_limit P j offset c data io;
        Some (offset', cs(j \<mapsto> c'), io')
      })"
| "schedule_loop P sum_bw (j # j' # js) offset data cs io =
     (if data = [] then Some (offset, cs, io)
      else do {
        c \<leftarrow> cs j;
        let target = max (ratio_share P (length data)
          (bw_to_kbits_per_second (goodput_with_minimum c)) sum_bw) kMinPayloadSize;
        let sent = min target (length data);
        (offset', c', io') \<leftarrow> send_data_with_limit P j offset c (take sent data) io;
        schedule_loop P sum_bw (j' # js) offset' (drop sent data) (cs(j \<mapsto> c')) io'
      })"

definition schedule ::
  "'k platform \<Rightarrow> tp_server \<Rightarrow> connections \<Rightarrow> 'k io \<Rightarrow> (tp_server \<times> connections \<times> 'k io) option" where
  "schedule P s cs io = do {
     (js, sum_bw) \<leftarrow> available_connections cs (ready_list s) 0;
     if js = [] then Some (s, cs, io)
     else do {
       (offset, cs', io') \<leftarrow> schedule_loop P (bw_to_kbits_per_second sum_bw) js (write_offset s) (read_buffer s) cs io;
       Some (s\<lparr>write_offset := offset, read_buffer := []\<rparr>, cs', io')
     }
   }"

text \<open>\<open>RemoveFromReadyList\<close>, and \<open>RemoveFromWaitList\<close>: the first occurrence, and whether there was one.\<close>

fun remove_from_list :: "nat \<Rightarrow> nat list \<Rightarrow> bool \<times> nat list" where
  "remove_from_list connection [] = (False, [])"
| "remove_from_list connection (j # js) =
     (if j = connection then (True, js)
      else let (removed, js') = remove_from_list connection js in (removed, j # js'))"

lemma remove_from_list_eq: "remove_from_list j js = (j \<in> set js, remove1 j js)"
  by (induction js) auto

end
