(* ===== verification/Server_Receive.thy ===== *)
theory Server_Receive
  imports Proxy_Server
begin

text \<open>
  The receiving half of \<open>TpServerBase\<close>: \<open>WriteDataToFd\<close> appends to what the application is
  sent and loses nothing, \<open>OnDataAvailable\<close> makes the server a \<open>stream_reader\<close> of its
  sequencer, and so frames in any order come out as the stream.
\<close>

section \<open>Writing to the application\<close>

text \<open>What the application has been sent and what waits to be sent.\<close>

definition outgoing :: "int \<Rightarrow> 'a socket_scheme \<Rightarrow> 'k io \<Rightarrow> byte list" where
  "outgoing fd s io = sent_on fd io @ write_buffer s"

lemma write_data_to_fd_conserves:
  assumes posix: "posix P" and open_fd: "0 \<le> sock_fd s" and run: "write_data_to_fd P i s pv io = (s', io')"
  shows "outgoing (sock_fd s) s' io' = outgoing (sock_fd s) s io @ pv"
    "fd \<noteq> sock_fd s \<Longrightarrow> sent_on fd io' = sent_on fd io"
    "sock_fd s' = sock_fd s" "read_buffer s' = read_buffer s" "io_status s' = io_status s"
    "posted io' = posted io"
proof -
  obtain s1 io1 where fb: "flush_buffer P (server_class i) s io = (s1, io1)"
    by (cases "flush_buffer P (server_class i) s io") auto
  note F = server.flush_buffer_conserves [OF posix fb]
  obtain sent k where send: "sys_send P (kernel io1) (sock_fd s1) pv = (sent, k)"
    by (cases "sys_send P (kernel io1) (sock_fd s1) pv") auto
  have le: "sent \<le> int (length pv)" using posix_send [OF posix send] .
  have wb: "sent_on (sock_fd s) io1 @ write_buffer s1 = sent_on (sock_fd s) io @ write_buffer s"
    by (rule F(1))
  have eq: "s' = (if write_buffer s1 \<noteq> [] then s1\<lparr>write_buffer := write_buffer s1 @ pv\<rparr>
      else let s2 = (if 0 < sent then s1\<lparr>send_bytes := send_bytes s1 + sent\<rparr> else s1)
        in if (if 0 < sent then nat sent else 0) < length pv
           then s2\<lparr>write_buffer := drop (if 0 < sent then nat sent else 0) pv\<rparr> else s2)"
    and io: "sent_on fd io' = (if write_buffer s1 \<noteq> [] \<or> fd \<noteq> sock_fd s1 then sent_on fd io1
      else sent_on fd io1 @ take (if 0 < sent then nat sent else 0) pv)"
    and posted: "posted io' = posted io1" for fd
    using run open_fd fb send
    by (auto simp: write_data_to_fd_def io_simps Let_def split: if_splits)
  show "sock_fd s' = sock_fd s" "read_buffer s' = read_buffer s" "io_status s' = io_status s"
    unfolding eq using F by (auto simp: Let_def)
  show "posted io' = posted io" using posted F(8) by simp
  show "sent_on fd io' = sent_on fd io" if "fd \<noteq> sock_fd s"
    unfolding io using that F(2,3) by simp
  show "outgoing (sock_fd s) s' io' = outgoing (sock_fd s) s io @ pv"
  proof (cases "write_buffer s1 = []")
    case False
    then show ?thesis unfolding outgoing_def io unfolding eq using wb by (simp flip: append_assoc)
  next
    case True
    then have "sent_on (sock_fd s) io1 = sent_on (sock_fd s) io @ write_buffer s" using wb by simp
    then show ?thesis unfolding outgoing_def io unfolding eq using True F(3) by (auto simp: Let_def)
  qed
qed

lemma write_data_to_fd_destroyed:
  assumes posix: "posix P" and run: "write_data_to_fd P i s pv io = (s', io')"
  shows "destroyed s' = destroyed s"
proof -
  obtain s1 io1 where fb: "flush_buffer P (server_class i) s io = (s1, io1)"
    by (cases "flush_buffer P (server_class i) s io") auto
  have "destroyed s' = destroyed s1 \<or> s' = s"
    using run fb by (auto simp: write_data_to_fd_def Let_def split: if_splits prod.splits)
  then show ?thesis using server.flush_buffer_conserves(6) [OF posix fb] by auto
qed

section \<open>The server as the owner of its sequencer\<close>

lemma alarm_new_update: "\<exists>al. alarm_update alarm_new t g = Some al"
  using alarm_update_inv [of alarm_new t g] by (auto simp: alarm_new_def alarm_inv_def)

lemma create_health_alarm_fields:
  "\<exists>al. create_health_alarm P s io = Some (s\<lparr>health_alarm := Some al\<rparr>)"
proof (cases "health_alarm s")
  case None
  then show ?thesis using alarm_new_update by (fastforce simp: create_health_alarm_def)
next
  case (Some al)
  then have "s\<lparr>health_alarm := Some al\<rparr> = s" by simp
  then show ?thesis using Some by (metis create_health_alarm_def option.distinct(1))
qed

lemma seq_read_quiet:
  assumes inv: "buf_inv f (buffered_frames q)" and nb: "\<not> blocked q"
  shows "\<exists>buf. seq_read quiet_interface q () =
      Some (readable_stream f (buffered_frames q), q\<lparr>buffered_frames := buf\<rparr>, ()) \<and>
    consumed_to f (buffered_frames q) (seq_readable_bytes q) buf"
proof -
  let ?b = "buffered_frames q"
  have small: "readable_bytes ?b < 2 ^ 64" by (simp add: readable_bytes_def u64_sub_def)
  obtain buf where buf: "readv ?b [(True, readable_bytes ?b)] = Some (QUIC_NO_ERROR, readable_bytes ?b,
      scatter [readable_bytes ?b] (readable_stream f ?b), buf)" "consumed_to f ?b (readable_bytes ?b) buf"
    using readv_correct [OF inv, of "[(True, readable_bytes ?b)]"] small by auto
  have "concat (scatter [readable_bytes ?b] (readable_stream f ?b)) = readable_stream f ?b"
    by (simp add: concat_scatter)
  then show ?thesis
    using buf nb by (intro exI [of _ buf]) (simp add: seq_read_def seq_readv_def seq_readable_bytes_def quiet_interface_def)
qed

definition server_log :: "tp_server \<times> 'k io \<Rightarrow> byte list" where
  "server_log h = outgoing (sock_fd (fst h)) (fst h) (snd h)"

definition server_ready :: "'k platform \<Rightarrow> tp_server \<times> 'k io \<Rightarrow> bool" where
  "server_ready P h \<longleftrightarrow> posix P \<and> 0 \<le> sock_fd (fst h)"

lemma server_reads:
  assumes inv: "buf_inv f (buffered_frames q)" and nb: "\<not> blocked q" and rd: "server_ready P h"
  shows "\<exists>buf h'. on_data_available (server_interface P i) q h = Some (q\<lparr>buffered_frames := buf\<rparr>, h') \<and>
    consumed_to f (buffered_frames q) (seq_readable_bytes q) buf \<and>
    server_log h' = server_log h @ readable_stream f (buffered_frames q) \<and> server_ready P h'"
proof -
  obtain s io where h: "h = (s, io)" by (cases h)
  obtain al where al: "create_health_alarm P s io = Some (s\<lparr>health_alarm := Some al\<rparr>)"
    using create_health_alarm_fields by blast
  obtain buf where buf: "seq_read quiet_interface q () =
      Some (readable_stream f (buffered_frames q), q\<lparr>buffered_frames := buf\<rparr>, ())"
    "consumed_to f (buffered_frames q) (seq_readable_bytes q) buf"
    using seq_read_quiet [OF inv nb] by blast
  define d where "d = readable_stream f (buffered_frames q)"
  define s3 where "s3 = s\<lparr>health_alarm := Some al, last_health_time := clock_now P (kernel io),
    sequencer_bytes := sequencer_bytes s + int (length d)\<rparr>"
  obtain s' io' where wr: "write_data_to_fd P i s3 d io = (s', io')"
    by (cases "write_data_to_fd P i s3 d io") auto
  have s3: "sock_fd s3 = sock_fd s" "write_buffer s3 = write_buffer s" by (simp_all add: s3_def)
  have ready: "posix P" "0 \<le> sock_fd s3" using rd by (simp_all add: server_ready_def h s3)
  note W = write_data_to_fd_conserves [OF ready wr]
  have "on_data_available (server_interface P i) q h = Some (q\<lparr>buffered_frames := buf\<rparr>, s', io')"
    using al buf wr
    by (simp add: server_interface_def server_on_data_available_def h d_def s3_def)
  moreover have "server_log (s', io') = server_log h @ d" "server_ready P (s', io')"
    using W(1,3) ready s3 by (simp_all add: server_log_def server_ready_def outgoing_def h)
  ultimately show ?thesis using buf(2) unfolding d_def by blast
qed

interpretation server_stream: stream_reader "server_interface P i" server_log "server_ready P"
  for P :: "'k platform" and i :: nat
proof unfold_locales
  show "\<exists>buf h'. on_data_available (server_interface P i) q h = Some (q\<lparr>buffered_frames := buf\<rparr>, h') \<and>
      consumed_to f (buffered_frames q) (seq_readable_bytes q) buf \<and>
      server_log h' = server_log h @ readable_stream f (buffered_frames q) \<and> server_ready P h'"
    if "buf_inv f (buffered_frames q)" "\<not> blocked q" "server_ready P h" for f q h
    using that by (rule server_reads)
  show "server_log (on_unrecoverable_error (server_interface P i) e h) = server_log h" for e h
    by (simp add: server_interface_def quiet_interface_def)
qed

section \<open>Frames as they come from the connections\<close>

text \<open>The frames of a server: wire offsets start at one.\<close>

fun recv_frames :: "'k platform \<Rightarrow> nat \<Rightarrow> frame list \<Rightarrow> tp_server \<Rightarrow> 'k io \<Rightarrow> (tp_server \<times> 'k io) option" where
  "recv_frames P i [] s io = Some (s, io)"
| "recv_frames P i (fr # frs) s io = do {
     (s', io') \<leftarrow> recv_data P i (fst fr) (snd fr) s io;
     recv_frames P i frs s' io'
   }"

text \<open>Between two frames: the server has passed on everything that could be read in order.\<close>

definition server_drained :: "'k platform \<Rightarrow> (u64 \<Rightarrow> byte) \<Rightarrow> tp_server \<Rightarrow> 'k io \<Rightarrow> bool" where
  "server_drained P f s io \<longleftrightarrow> server_stream.drained P f (server_seq s) (s, io)"

definition wire_range :: "frame \<Rightarrow> u64 set" where
  "wire_range fr = {fst fr - 1..<fst fr - 1 + length (snd fr)}"

text \<open>A frame of the stream \<open>f\<close> that ends before the offset \<open>n\<close> and fits into a packet.\<close>

definition wire_frame :: "(u64 \<Rightarrow> byte) \<Rightarrow> u64 \<Rightarrow> frame \<Rightarrow> bool" where
  "wire_frame f n fr \<longleftrightarrow> 1 \<le> fst fr \<and> snd fr \<noteq> [] \<and> length (snd fr) \<le> 65535 \<and>
     frame_of f (fst fr - 1) (snd fr) \<and> fst fr - 1 + length (snd fr) \<le> n"

abbreviation server_buffer :: "tp_server \<Rightarrow> seq_buffer" where
  "server_buffer s \<equiv> buffered_frames (server_seq s)"

lemma recv_data_drained:
  assumes dr: "server_drained P f s io" and fr: "wire_frame f n fr"
    and fits: "n \<le> total_bytes_read (server_buffer s) + max_buffer_capacity_bytes (server_buffer s)"
      "n \<le> 2 ^ 62" "n \<le> close_offset (server_seq s)"
    and room: "length (bytes_received (server_buffer s)) + 1 < kMaxNumDataIntervalsAllowed"
  shows "\<exists>s' io'. recv_data P i (fst fr) (snd fr) s io = Some (s', io') \<and> server_drained P f s' io' \<and>
    received (server_buffer s') = received (server_buffer s) \<union> wire_range fr \<and>
    length (bytes_received (server_buffer s')) \<le> length (bytes_received (server_buffer s)) + 1 \<and>
    max_buffer_capacity_bytes (server_buffer s') = max_buffer_capacity_bytes (server_buffer s) \<and>
    close_offset (server_seq s') = close_offset (server_seq s) \<and>
    total_bytes_read (server_buffer s) \<le> total_bytes_read (server_buffer s')"
proof -
  define x where "x = \<lparr>fin = False, frame_offset = fst fr - 1, frame_data = snd fr\<rparr>"
  have w: "1 \<le> fst fr" "snd fr \<noteq> []" "length (snd fr) \<le> 65535" "frame_of f (fst fr - 1) (snd fr)"
    "fst fr - 1 + length (snd fr) \<le> n"
    using fr unfolding wire_frame_def by blast+
  have x: "\<not> fin x" "frame_data x = snd fr" "frame_offset x = fst fr - 1" by (simp_all add: x_def)
  have le: "frame_offset x + length (frame_data x) \<le>
        total_bytes_read (server_buffer s) + max_buffer_capacity_bytes (server_buffer s)"
      "frame_offset x + length (frame_data x) \<le> 2 ^ 62"
      "frame_offset x + length (frame_data x) \<le> close_offset (server_seq s)"
    unfolding x using w(5) fits by linarith+
  have ne: "frame_data x \<noteq> []" "frame_of f (frame_offset x) (frame_data x)"
    unfolding x by (rule w)+
  have d: "server_stream.drained P f (server_seq s) (s, io)" using dr by (simp add: server_drained_def)
  obtain q h1 where step: "on_stream_frame (server_interface P i) (server_seq s) (s, io) x = Some (q, h1)"
      "server_stream.drained P f q h1"
      "received (buffered_frames q) = received (server_buffer s) \<union> {frame_offset x..<frame_offset x + length (frame_data x)}"
      "length (bytes_received (buffered_frames q)) \<le> length (bytes_received (server_buffer s)) + 1"
      "max_buffer_capacity_bytes (buffered_frames q) = max_buffer_capacity_bytes (server_buffer s)"
      "close_offset q = close_offset (server_seq s)"
      "total_bytes_read (server_buffer s) \<le> total_bytes_read (buffered_frames q)"
    using server_stream.on_stream_frame_drained [OF d x(1) ne le room] by blast
  obtain s1 io1 where h1: "h1 = (s1, io1)" by (cases h1)
  have "recv_data P i (fst fr) (snd fr) s io = Some (s1\<lparr>server_seq := q\<rparr>, io1)"
    using step(1) w by (simp add: recv_data_def kReserveOffset_def x_def h1)
  moreover have "server_drained P f (s1\<lparr>server_seq := q\<rparr>) io1"
    using step(2) by (simp add: h1 server_drained_def server_stream.drained_def server_log_def outgoing_def server_ready_def)
  ultimately show ?thesis using step(3-7) by (simp add: wire_range_def x)
qed

lemma recv_frames_drained:
  "server_drained P f s io \<Longrightarrow> \<forall>fr \<in> set frs. wire_frame f n fr \<Longrightarrow>
    n \<le> total_bytes_read (server_buffer s) + max_buffer_capacity_bytes (server_buffer s) \<Longrightarrow>
    n \<le> 2 ^ 62 \<Longrightarrow> n \<le> close_offset (server_seq s) \<Longrightarrow>
    length (bytes_received (server_buffer s)) + length frs < kMaxNumDataIntervalsAllowed \<Longrightarrow>
    \<exists>s' io'. recv_frames P i frs s io = Some (s', io') \<and> server_drained P f s' io' \<and>
      received (server_buffer s') = received (server_buffer s) \<union> (\<Union>fr \<in> set frs. wire_range fr)"
proof (induction frs arbitrary: s io)
  case (Cons fr frs)
  have "wire_frame f n fr" "length (bytes_received (server_buffer s)) + 1 < kMaxNumDataIntervalsAllowed"
    using Cons.prems by simp_all
  from recv_data_drained [OF Cons.prems(1) this(1) Cons.prems(3-5) this(2)] obtain s1 io1 where
    step: "recv_data P i (fst fr) (snd fr) s io = Some (s1, io1)" "server_drained P f s1 io1"
      "received (server_buffer s1) = received (server_buffer s) \<union> wire_range fr"
      "length (bytes_received (server_buffer s1)) \<le> length (bytes_received (server_buffer s)) + 1"
      "max_buffer_capacity_bytes (server_buffer s1) = max_buffer_capacity_bytes (server_buffer s)"
      "close_offset (server_seq s1) = close_offset (server_seq s)"
      "total_bytes_read (server_buffer s) \<le> total_bytes_read (server_buffer s1)"
    by blast
  obtain s2 io2 where "recv_frames P i frs s1 io1 = Some (s2, io2)" "server_drained P f s2 io2"
      "received (server_buffer s2) = received (server_buffer s1) \<union> (\<Union>fr \<in> set frs. wire_range fr)"
    using Cons.IH [OF step(2)] Cons.prems step(4-7) by auto
  with step(1,3) show ?case by (auto simp: Un_assoc)
qed simp

text \<open>A new server on an open descriptor.\<close>

lemma new_server_drained:
  assumes "server_new fd status role = Some s" "posix P" "0 \<le> fd" "sent_on fd io = []"
  shows "server_drained P f s io" "received (server_buffer s) = {}"
    "bytes_received (server_buffer s) = []" "close_offset (server_seq s) = kMaxOffset"
    "total_bytes_read (server_buffer s) = 0"
    "max_buffer_capacity_bytes (server_buffer s) = kStreamReceiveWindowLimit"
    "sock_fd s = fd"
proof -
  obtain q where q: "sequencer_new = Some q" using assms(1) by (cases sequencer_new) (simp_all add: server_new_def)
  have s: "server_seq s = q" "sock_fd s = fd" "write_buffer s = []"
    using assms(1) unfolding server_new_def q by auto
  have "server_ready P (s, io)" "server_log (s, io) = []"
    using assms s by (simp_all add: server_ready_def server_log_def outgoing_def)
  from server_stream.fresh_sequencer_drained [OF this, of f]
  have "server_stream.drained P f q (s, io) \<and> received (buffered_frames q) = {} \<and>
      bytes_received (buffered_frames q) = [] \<and> close_offset q = kMaxOffset \<and>
      total_bytes_read (buffered_frames q) = 0 \<and>
      max_buffer_capacity_bytes (buffered_frames q) = kStreamReceiveWindowLimit"
    by (simp add: q)
  then show "server_drained P f s io" "received (server_buffer s) = {}"
    "bytes_received (server_buffer s) = []" "close_offset (server_seq s) = kMaxOffset"
    "total_bytes_read (server_buffer s) = 0"
    "max_buffer_capacity_bytes (server_buffer s) = kStreamReceiveWindowLimit"
    by (simp_all add: server_drained_def s)
  show "sock_fd s = fd" by (rule s)
qed

text \<open>What the application has been sent: the stream up to the first missing offset.\<close>

lemma server_drained_outgoing:
  assumes "server_drained P f s io"
  shows "outgoing (sock_fd s) s io = map f [0..<first_missing_byte (server_buffer s)]"
    "{..<first_missing_byte (server_buffer s)} \<subseteq> received (server_buffer s)"
    "first_missing_byte (server_buffer s) \<notin> received (server_buffer s)"
  using server_stream.drained_log [of P f "server_seq s" "(s, io)"] assms
    first_missing_byte_correct(1,2) [of f "server_buffer s"]
  by (simp_all add: server_drained_def server_log_def server_stream.drained_def)

end
