(* ===== verification/Server_Send.thy ===== *)
theory Server_Send
  imports Server_Receive
begin

text \<open>
  The sending half of \<open>TpServerBase\<close>: \<open>SendDataWithLimit\<close> and \<open>Schedule\<close> cut what the
  application sent into frames with consecutive offsets, give each to one connection and lose
  none; and the frames, received in any order, are what the peer's server needs to
  reproduce the bytes.
\<close>

section \<open>Frames that tile a byte string\<close>

fun tiles :: "u64 \<Rightarrow> frame list \<Rightarrow> byte list \<Rightarrow> bool" where
  "tiles o1 [] d \<longleftrightarrow> d = []"
| "tiles o1 (fr # frs) d \<longleftrightarrow> fst fr = o1 \<and> snd fr \<noteq> [] \<and> length (snd fr) \<le> 65535 \<and>
     d = snd fr @ drop (length (snd fr)) d \<and> tiles (o1 + length (snd fr)) frs (drop (length (snd fr)) d)"

lemma tiles_Cons: "tiles o1 ((o2, p) # frs) d \<longleftrightarrow>
    o2 = o1 \<and> p \<noteq> [] \<and> length p \<le> 65535 \<and> (\<exists>d'. d = p @ d' \<and> tiles (o1 + length p) frs d')"
  by auto

lemma tiles_append: "tiles o1 frs d \<Longrightarrow> tiles (o1 + length d) frs' d' \<Longrightarrow> tiles o1 (frs @ frs') (d @ d')"
proof (induction frs arbitrary: o1 d)
  case (Cons fr frs)
  obtain p where fr: "fr = (o1, p)" using Cons.prems(1) by (cases fr) auto
  obtain e where e: "d = p @ e" "tiles (o1 + length p) frs e" "p \<noteq> []" "length p \<le> 65535"
    using Cons.prems(1) unfolding fr tiles_Cons by blast
  have "tiles (o1 + length p) (frs @ frs') (e @ d')" using Cons.IH [OF e(2)] Cons.prems(2) e(1) by (simp add: add.assoc)
  then show ?case unfolding fr append_Cons tiles_Cons using e by simp
qed simp

lemma tiles_cover:
  "tiles (Suc p) frs d \<Longrightarrow> \<forall>k < length d. f (p + k) = d ! k \<Longrightarrow> p + length d \<le> n \<Longrightarrow>
    (\<forall>fr \<in> set frs. wire_frame f n fr) \<and> (\<Union>fr \<in> set frs. wire_range fr) = {p..<p + length d}"
proof (induction frs arbitrary: p d)
  case (Cons fr frs)
  obtain q where fr: "fr = (Suc p, q)" using Cons.prems(1) by (cases fr) auto
  obtain e where e: "d = q @ e" "tiles (Suc p + length q) frs e" "q \<noteq> []" "length q \<le> 65535"
    using Cons.prems(1) unfolding fr tiles_Cons by blast
  have f: "\<forall>k < length q. f (p + k) = q ! k" "\<forall>k < length e. f (p + length q + k) = e ! k"
    using Cons.prems(2) unfolding e(1) by (auto simp: nth_append add.assoc)
  have IH: "(\<forall>fr \<in> set frs. wire_frame f n fr) \<and> (\<Union>fr \<in> set frs. wire_range fr) = {p + length q..<p + length q + length e}"
    using Cons.IH [of "p + length q" e] e(2) f(2) Cons.prems(3) e(1) by simp
  have w: "wire_frame f n fr" "wire_range fr = {p..<p + length q}"
    using f(1) Cons.prems(3) e by (simp_all add: fr wire_frame_def wire_range_def frame_of_def)
  have "(\<Union>fr \<in> set (fr # frs). wire_range fr) = {p..<p + length q} \<union> {p + length q..<p + length q + length e}"
    using IH w by simp
  also have "\<dots> = {p..<p + length d}" using e(1) by auto
  finally show ?case using IH w by simp
qed simp

lemma tiles_legal: "tiles o1 frs d \<Longrightarrow> o1 + length d \<le> 2 ^ 62 \<Longrightarrow> \<forall>fr \<in> set frs. legal_frame fr"
proof (induction frs arbitrary: o1 d)
  case (Cons fr frs)
  obtain p where fr: "fr = (o1, p)" using Cons.prems(1) by (cases fr) auto
  obtain e where e: "d = p @ e" "tiles (o1 + length p) frs e" "p \<noteq> []" "length p \<le> 65535"
    using Cons.prems(1) unfolding fr tiles_Cons by blast
  have "0 < length p" using e(3) by simp
  then have "o1 < 2 ^ 62" using Cons.prems(2) unfolding e(1) length_append by linarith
  then have "legal_frame fr" using e(4) by (simp add: fr legal_frame_def)
  moreover have "\<forall>fr \<in> set frs. legal_frame fr" using Cons.IH [OF e(2)] Cons.prems(2) e(1) by simp
  ultimately show ?case by simp
qed simp

section \<open>SendDataWithLimit\<close>

function limit_frames :: "u64 \<Rightarrow> byte list \<Rightarrow> frame list" where
  "limit_frames o1 pv =
     (if pv = [] then []
      else (o1, take kMaxPacketLength pv) #
        limit_frames (o1 + min (length pv) kMaxPacketLength) (drop kMaxPacketLength pv))"
  by pat_completeness auto

termination limit_frames
  by (relation "measure (\<lambda>(o1, pv). length pv)") (auto simp: kMaxPacketLength_def)

declare limit_frames.simps [simp del]

lemma limit_frames_tile: "tiles o1 (limit_frames o1 pv) pv"
proof (induction o1 pv rule: limit_frames.induct)
  case (1 o1 pv)
  show ?case
  proof (cases "pv = []")
    case True
    then show ?thesis by (subst limit_frames.simps) simp
  next
    case False
    then show ?thesis
      using 1 [OF False] by (subst limit_frames.simps) (auto simp: kMaxPacketLength_def min_def split: if_splits)
  qed
qed

lemma send_data_conserves:
  assumes posix: "posix P" and small: "offset < 2 ^ 62"
    and run: "send_data P j c offset payload io = Some (c', io')"
  shows "0 < sock_fd c" "outgoing (sock_fd c) c' io' = outgoing (sock_fd c) c io @ frame_bytes offset payload"
    "fd \<noteq> sock_fd c \<Longrightarrow> sent_on fd io' = sent_on fd io" "read_buffer c' = read_buffer c"
    "sock_fd c' = sock_fd c \<or> sock_fd c' = - 1 \<and> write_buffer c' = []"
proof -
  have ok: "0 < sock_fd c" "length payload \<le> 65535" using run by (auto simp: send_data_def split: if_splits)
  then have run': "append_and_flush P j c (frame_bytes offset payload) io = Some (c', io')"
    using run send_data_run [OF small ok(2,1), of P j io] by simp
  note A = append_and_flush_conserves [OF posix run']
  show "0 < sock_fd c" by (rule ok)
  show "outgoing (sock_fd c) c' io' = outgoing (sock_fd c) c io @ frame_bytes offset payload"
    "fd \<noteq> sock_fd c \<Longrightarrow> sent_on fd io' = sent_on fd io" "read_buffer c' = read_buffer c"
    using A by (simp_all add: outgoing_def)
  show "sock_fd c' = sock_fd c \<or> sock_fd c' = - 1 \<and> write_buffer c' = []"
    by (rule append_and_flush_fd [OF posix run'])
qed

lemma send_data_with_limit_conserves:
  assumes posix: "posix P"
  shows "send_data_with_limit P j offset c pv io = Some (offset', c', io') \<Longrightarrow> offset + length pv \<le> 2 ^ 62 \<Longrightarrow>
    offset' = offset + length pv \<and>
    outgoing (sock_fd c) c' io' = outgoing (sock_fd c) c io @ frames_bytes (limit_frames offset pv) \<and>
    (\<forall>fd. fd \<noteq> sock_fd c \<longrightarrow> sent_on fd io' = sent_on fd io) \<and> read_buffer c' = read_buffer c \<and>
    (pv \<noteq> [] \<longrightarrow> 0 < sock_fd c) \<and> (sock_fd c' = sock_fd c \<or> sock_fd c' = - 1 \<and> write_buffer c' = [])"
proof (induction "length pv" arbitrary: offset c pv io rule: less_induct)
  case less
  show ?case
  proof (cases "pv = []")
    case True
    then show ?thesis
      using less.prems(1) by (subst (asm) send_data_with_limit.simps) (simp add: limit_frames.simps)
  next
    case False
    let ?n = "min (length pv) kMaxPacketLength"
    have n: "0 < ?n" using False by (simp add: kMaxPacketLength_def)
    have tk: "take ?n pv = take kMaxPacketLength pv" "drop ?n pv = drop kMaxPacketLength pv"
      by (simp_all add: min_def)
    obtain c1 io1 where first: "send_data P j c offset (take ?n pv) io = Some (c1, io1)"
      and rest: "send_data_with_limit P j (u64_add offset ?n) c1 (drop ?n pv) io1 = Some (offset', c', io')"
      using less.prems(1) False by (subst (asm) send_data_with_limit.simps)
        (auto simp: Let_def Option.bind_eq_Some_conv)
    have small: "offset < 2 ^ 62" using less.prems(2) n by linarith
    note S = send_data_conserves [OF posix small first]
    have next_offset: "u64_add offset ?n = offset + ?n" using less.prems(2) by (intro u64_add_no_wrap) simp
    have "length (drop ?n pv) < length pv" using n False by simp
    from less.hyps [OF this rest] less.prems(2)
    have R: "offset' = offset + ?n + length (drop ?n pv)"
      "outgoing (sock_fd c1) c' io' = outgoing (sock_fd c1) c1 io1 @ frames_bytes (limit_frames (offset + ?n) (drop ?n pv))"
      "\<forall>fd. fd \<noteq> sock_fd c1 \<longrightarrow> sent_on fd io' = sent_on fd io1" "read_buffer c' = read_buffer c1"
      "drop ?n pv \<noteq> [] \<longrightarrow> 0 < sock_fd c1" "sock_fd c' = sock_fd c1 \<or> sock_fd c' = - 1 \<and> write_buffer c' = []"
      unfolding next_offset by auto
    have frames: "limit_frames offset pv = (offset, take ?n pv) # limit_frames (offset + ?n) (drop ?n pv)"
      using False tk by (subst limit_frames.simps) simp
    show ?thesis
    proof (cases "drop ?n pv = []")
      case True
      then have "offset' = offset + ?n" "c' = c1" "io' = io1"
        using rest next_offset by (simp_all add: send_data_with_limit.simps)
      then show ?thesis using S True R(1) less.prems(2) unfolding frames
        by (auto simp: limit_frames.simps)
    next
      case more: False
      then have "sock_fd c1 = sock_fd c" using R(5) S(5) by auto
      then show ?thesis using S R n unfolding frames by (simp add: min_def)
    qed
  qed
qed

section \<open>Schedule\<close>

text \<open>
  \<open>fd\<close> is the descriptor each connection was opened with.  No two connections share one,
  and a connection has its own or none.
\<close>

definition fds_ok :: "(nat \<Rightarrow> int) \<Rightarrow> connections \<Rightarrow> bool" where
  "fds_ok fd cs \<longleftrightarrow> inj_on fd (dom cs) \<and> (\<forall>j c. cs j = Some c \<longrightarrow> sock_fd c = fd j \<or> sock_fd c = - 1)"

definition conn_out :: "(nat \<Rightarrow> int) \<Rightarrow> connections \<Rightarrow> 'k io \<Rightarrow> nat \<Rightarrow> byte list" where
  "conn_out fd cs io j = outgoing (fd j) (the (cs j)) io"

text \<open>The frames of an assignment that go to one connection.\<close>

definition frames_for :: "nat \<Rightarrow> (nat \<times> frame) list \<Rightarrow> frame list" where
  "frames_for j ts = map snd (filter (\<lambda>t. fst t = j) ts)"

definition assigned :: "(nat \<Rightarrow> int) \<Rightarrow> connections \<Rightarrow> 'k io \<Rightarrow> (nat \<times> frame) list \<Rightarrow> connections \<Rightarrow> 'k io \<Rightarrow> bool" where
  "assigned fd cs io ts cs' io' \<longleftrightarrow> dom cs' = dom cs \<and> fds_ok fd cs' \<and>
     (\<forall>j \<in> dom cs. conn_out fd cs' io' j = conn_out fd cs io j @ frames_bytes (frames_for j ts) \<and>
        read_buffer (the (cs' j)) = read_buffer (the (cs j)))"

lemma frames_for_append [simp]: "frames_for j (ts @ us) = frames_for j ts @ frames_for j us"
  by (simp add: frames_for_def)

lemma frames_for_const: "frames_for j (map (Pair i) frs) = (if i = j then frs else [])"
  by (simp add: frames_for_def comp_def)

lemma assigned_refl: "fds_ok fd cs \<Longrightarrow> assigned fd cs io [] cs io"
  by (simp add: assigned_def frames_for_def)

lemma assigned_trans:
  "assigned fd cs io ts cs1 io1 \<Longrightarrow> assigned fd cs1 io1 us cs2 io2 \<Longrightarrow> assigned fd cs io (ts @ us) cs2 io2"
  by (simp add: assigned_def)

lemma assigned_send:
  assumes posix: "posix P" and ok: "fds_ok fd cs" and c: "cs j = Some c"
    and run: "send_data_with_limit P j offset c pv io = Some (offset', c', io')" and small: "offset + length pv \<le> 2 ^ 62"
  shows "assigned fd cs io (map (Pair j) (limit_frames offset pv)) (cs(j \<mapsto> c')) io'"
proof (cases "pv = []")
  case True
  then have eq: "c' = c" "io' = io" using run by (simp_all add: send_data_with_limit.simps)
  have "cs(j \<mapsto> c) = cs" using c by (simp add: fun_upd_idem)
  then show ?thesis using assigned_refl [OF ok] eq True by (simp add: limit_frames.simps)
next
  case False
  note S = send_data_with_limit_conserves [OF posix run small]
  have "sock_fd c = fd j \<or> sock_fd c = - 1" using ok c unfolding fds_ok_def by blast
  moreover have "0 < sock_fd c" using S False by blast
  ultimately have fd: "sock_fd c = fd j" by auto
  have inj: "fd i \<noteq> fd j" if "cs i \<noteq> None" "i \<noteq> j" for i
    using ok that c unfolding fds_ok_def inj_on_def by blast
  have "fds_ok fd (cs(j \<mapsto> c'))" using ok S fd c by (simp add: fds_ok_def insert_absorb domI) blast
  moreover have "conn_out fd (cs(j \<mapsto> c')) io' i = conn_out fd cs io i @
      frames_bytes (frames_for i (map (Pair j) (limit_frames offset pv))) \<and>
      read_buffer (the ((cs(j \<mapsto> c')) i)) = read_buffer (the (cs i))" if i: "i \<in> dom cs" for i
  proof (cases "i = j")
    case True
    then show ?thesis using S fd c by (simp add: conn_out_def frames_for_const)
  next
    case False
    then have "sent_on (fd i) io' = sent_on (fd i) io" using S fd inj [of i] i by auto
    then show ?thesis using False by (simp add: conn_out_def frames_for_const outgoing_def)
  qed
  moreover have "dom (cs(j \<mapsto> c')) = dom cs" using c by auto
  ultimately show ?thesis unfolding assigned_def by blast
qed

lemma schedule_loop_conserves:
  "schedule_loop P sum_bw js offset data cs io = Some (offset', cs', io') \<Longrightarrow> fds_ok fd cs \<Longrightarrow>
    offset + length data \<le> 2 ^ 62 \<Longrightarrow> js \<noteq> [] \<Longrightarrow> posix P \<Longrightarrow>
    \<exists>ts. tiles offset (map snd ts) data \<and> assigned fd cs io ts cs' io' \<and> fst ` set ts \<subseteq> set js \<and>
      offset' = offset + length data"
proof (induction P sum_bw js offset data cs io rule: schedule_loop.induct)
  case (2 P sum_bw j offset data cs io)
  show ?case
  proof (cases "data = []")
    case True
    then show ?thesis using 2 assigned_refl by (intro exI [of _ "[]"]) simp
  next
    case False
    then obtain c c' where c: "cs j = Some c"
        and run: "send_data_with_limit P j offset c data io = Some (offset', c', io')" and cs': "cs' = cs(j \<mapsto> c')"
      using "2.prems"(1) by (auto simp: Option.bind_eq_Some_conv)
    note A = assigned_send [OF "2.prems"(5) "2.prems"(2) c run "2.prems"(3)]
    have "offset' = offset + length data"
      using send_data_with_limit_conserves [OF "2.prems"(5) run "2.prems"(3)] by blast
    moreover have "map snd (map (Pair j) (limit_frames offset data)) = limit_frames offset data"
      by (simp add: comp_def)
    moreover have "fst ` set (map (Pair j) (limit_frames offset data)) \<subseteq> set [j]" by auto
    ultimately show ?thesis
      using A limit_frames_tile [of offset data] unfolding cs' by metis
  qed
next
  case (3 P sum_bw j j' js offset data cs io)
  show ?case
  proof (cases "data = []")
    case True
    then show ?thesis using 3 assigned_refl by (intro exI [of _ "[]"]) simp
  next
    case False
    obtain c where c: "cs j = Some c" using "3.prems"(1) False by (auto simp: Option.bind_eq_Some_conv)
    define n where "n = min (max (ratio_share P (length data)
        (bw_to_kbits_per_second (goodput_with_minimum c)) sum_bw) kMinPayloadSize) (length data)"
    obtain o1 c1 io1 where first: "send_data_with_limit P j offset c (take n data) io = Some (o1, c1, io1)"
        and rest: "schedule_loop P sum_bw (j' # js) o1 (drop n data) (cs(j \<mapsto> c1)) io1 = Some (offset', cs', io')"
      using "3.prems"(1) False c by (auto simp: Option.bind_eq_Some_conv n_def Let_def)
    have le: "n \<le> length data" by (simp add: n_def)
    have small: "offset + length (take (n) data) \<le> 2 ^ 62" using "3.prems"(3) by simp
    note A = assigned_send [OF "3.prems"(5) "3.prems"(2) c first small]
    have o1: "o1 = offset + n"
      using send_data_with_limit_conserves [OF "3.prems"(5) first small] le by simp
    have "fds_ok fd (cs(j \<mapsto> c1))" using A by (simp add: assigned_def)
    moreover have "o1 + length (drop (n) data) \<le> 2 ^ 62" using "3.prems"(3) o1 le by simp
    ultimately obtain ts where ts: "tiles o1 (map snd ts) (drop (n) data)"
        "assigned fd (cs(j \<mapsto> c1)) io1 ts cs' io'" "fst ` set ts \<subseteq> set (j' # js)"
        "offset' = o1 + length (drop (n) data)"
      using "3.IH" [OF False c refl n_def first refl refl rest _ _ _ "3.prems"(5)] by blast
    have "tiles offset (limit_frames offset (take (n) data) @ map snd ts) (take (n) data @ drop (n) data)"
      using limit_frames_tile ts(1) o1 le by (intro tiles_append) simp_all
    then show ?thesis
      using assigned_trans [OF A ts(2)] ts(3,4) o1 le
      by (intro exI [of _ "map (Pair j) (limit_frames offset (take (n) data)) @ ts"]) (auto simp: comp_def)
  qed
qed simp

end
