(* ===== verification/Proxy_World.thy ===== *)
theory Proxy_World
  imports Server_Send
begin

text \<open>
  The objects of a proxy process and the calls between them: \<open>TcpConnectionLeft\<close>,
  \<open>TpServerRight\<close> and \<open>TpServerBackend\<close> (\<open>tpproxy/mpproxy_server.cc\<close>),
  \<open>TpServerLeft\<close>, \<open>TcpConnectionRight\<close> and \<open>TpClientBackend\<close>
  (\<open>tpproxy/mpproxy_client.cc\<close>), and the operations of their base classes that call other
  objects (\<open>tpproxy/mpproxy_types.cc\<close>).  A world holds the live objects; a pointer is a key;
  an operation on an object that is gone, a failed check and a read of an uninitialised value
  have no result.
\<close>

section \<open>The world\<close>

record 'k world =
  w_conns :: connections
  w_servers :: "nat \<rightharpoonup> tp_server"
  next_object :: nat
  w_io :: "'k io"

definition on_conn ::
  "nat \<Rightarrow> (tcp_connection \<Rightarrow> 'k io \<Rightarrow> (tcp_connection \<times> 'k io) option) \<Rightarrow> 'k world \<Rightarrow> 'k world option" where
  "on_conn j f w = do {
     c \<leftarrow> w_conns w j;
     (c', io') \<leftarrow> f c (w_io w);
     Some (w\<lparr>w_conns := (w_conns w)(j \<mapsto> c'), w_io := io'\<rparr>)
   }"

definition on_server ::
  "nat \<Rightarrow> (tp_server \<Rightarrow> 'k io \<Rightarrow> (tp_server \<times> 'k io) option) \<Rightarrow> 'k world \<Rightarrow> 'k world option" where
  "on_server i f w = do {
     s \<leftarrow> w_servers w i;
     (s', io') \<leftarrow> f s (w_io w);
     Some (w\<lparr>w_servers := (w_servers w)(i \<mapsto> s'), w_io := io'\<rparr>)
   }"

fun each :: "('a \<Rightarrow> 'w \<Rightarrow> 'w option) \<Rightarrow> 'a list \<Rightarrow> 'w \<Rightarrow> 'w option" where
  "each f [] w = Some w"
| "each f (x # xs) w = Option.bind (f x w) (each f xs)"

definition do_when :: "bool \<Rightarrow> ('w \<Rightarrow> 'w option) \<Rightarrow> 'w \<Rightarrow> 'w option" where
  "do_when b f w = (if b then f w else Some w)"

definition has_event :: "32 word \<Rightarrow> 32 word \<Rightarrow> bool" where
  "has_event events flags \<longleftrightarrow> events AND flags \<noteq> 0"

section \<open>Signals and messages\<close>

datatype proxy_signal = PROXY_MIN | PROXY_CONNECT_FAIL | PROXY_CONNECTED | PROXY_CLOSE
  | PROXY_DST_CONNECTED | PROXY_DST_CONNECT_FAIL | PROXY_MAX

definition PROXY_MESSAGE_META :: byte where "PROXY_MESSAGE_META = 1"
definition PROXY_MESSAGE_ORIGIN_CONNECTED :: byte where "PROXY_MESSAGE_ORIGIN_CONNECTED = 2"
definition PROXY_MESSAGE_ORIGIN_FAIL :: byte where "PROXY_MESSAGE_ORIGIN_FAIL = 3"

text \<open>\<open>WriteMetaData\<close>: the message is written before the writer's success is checked.\<close>

definition metadata_writer :: "u64 \<Rightarrow> u64 \<Rightarrow> sock_addr \<Rightarrow> (bool \<times> byte list) option" where
  "metadata_writer uuid sid addr = do {
     (ok1, w1) \<leftarrow> write_varint62 (writer_new (replicate kBufferSize 0) kBufferSize) (word_of_nat uuid);
     (ok2, w2) \<leftarrow> (if ok1 then write_varint62 w1 (word_of_nat sid) else Some (False, w1));
     let (ok3, w3) = (if ok2 then write_uint32 w2 (fst addr) else (False, w2));
     let (ok4, w4) = (if ok3 then write_uint16 w3 (snd addr) else (False, w3));
     Some (ok4, written w4)
   }"

definition write_meta_data ::
  "'k platform \<Rightarrow> nat \<Rightarrow> tcp_connection \<Rightarrow> 'k io \<Rightarrow> (tcp_connection \<times> 'k io) option" where
  "write_meta_data P j c io =
     (case conn_role c of
        Left_Connection _ _ \<Rightarrow> None
      | Right_Connection uuid sid ip port _ \<Rightarrow> do {
          (ok, data) \<leftarrow> metadata_writer uuid sid (ip, port);
          r \<leftarrow> write_message P j c PROXY_MESSAGE_META (Some data) (length data) io;
          fatal_unless ok;
          Some r
        })"

text \<open>
  The fields of a metadata message.  When a field cannot be read the later ones are skipped; the
  user, the session and the port then are zero, the address is uninitialised.
\<close>

definition parse_metadata :: "data_reader \<Rightarrow> (u64 \<times> u64 \<times> sock_addr) option" where
  "parse_metadata r0 = do {
     (uuid, r1) \<leftarrow> read_varint62 r0;
     uuid' \<leftarrow> uuid;
     (sid, r2) \<leftarrow> read_varint62 r1;
     sid' \<leftarrow> sid;
     let (ip, r3) = read_uint32 r2;
     ip' \<leftarrow> ip;
     Some (unat uuid', unat sid', ip', (case fst (read_uint16 r3) of None \<Rightarrow> 0 | Some port \<Rightarrow> port))
   }"

section \<open>Notifying a connection\<close>

definition send_dst_connect_message ::
  "'k platform \<Rightarrow> nat \<Rightarrow> tcp_connection \<Rightarrow> 'k io \<Rightarrow> (tcp_connection \<times> 'k io) option" where
  "send_dst_connect_message P j c io =
     (case conn_role c of
        Right_Connection _ _ _ _ _ \<Rightarrow> None
      | Left_Connection uuid sent \<Rightarrow> do {
          (c1, io1) \<leftarrow> (if sent then Some (c, io)
            else do {
              (c', io') \<leftarrow> write_message P j c PROXY_MESSAGE_ORIGIN_CONNECTED None 0 io;
              on_write_event P (connection_class j) c' io'
            });
          Some (c1\<lparr>conn_role := Left_Connection uuid True\<rparr>, io1)
        })"

definition conn_notify ::
  "'k platform \<Rightarrow> nat \<Rightarrow> proxy_signal \<Rightarrow> tcp_connection \<Rightarrow> 'k io \<Rightarrow> (tcp_connection \<times> 'k io) option" where
  "conn_notify P j signal c io =
     (if signal = PROXY_CLOSE then
        check_close_fd P (connection_class j)
          ((raise_status FD_WAIT_CLOSE_IF_ENTITY_CLOSED c)\<lparr>server_ref := None\<rparr>) io
      else if signal = PROXY_CONNECTED \<and> is_Left_Connection (conn_role c) then
        send_dst_connect_message P j c io
      else Some (c, io))"

section \<open>Notifying a server\<close>

definition wait_for_close_fd ::
  "'k platform \<Rightarrow> nat \<Rightarrow> tp_server \<Rightarrow> 'k io \<Rightarrow> (tp_server \<times> 'k io) option" where
  "wait_for_close_fd P i s io =
     check_close_fd P (server_class i) (raise_status FD_WAIT_CLOSE_IF_ENTITY_CLOSED s) io"

definition right_notify ::
  "'k platform \<Rightarrow> nat \<Rightarrow> nat \<Rightarrow> proxy_signal \<Rightarrow> tp_server \<Rightarrow> 'k io \<Rightarrow> (tp_server \<times> 'k io) option" where
  "right_notify P i from signal s io =
     (if signal = PROXY_CLOSE then
        let s1 = s\<lparr>ready_list := snd (remove_from_list from (ready_list s))\<rparr>
        in if ready_list s1 = [] then wait_for_close_fd P i s1 io else Some (s1, io)
      else Some (s, io))"

text \<open>The connections of \<open>wait_list_\<close> that are connected by now move to \<open>ready_list_\<close>.\<close>

fun split_connected :: "connections \<Rightarrow> nat list \<Rightarrow> (nat list \<times> nat list) option" where
  "split_connected cs [] = Some ([], [])"
| "split_connected cs (j # js) = do {
     c \<leftarrow> cs j;
     (waiting, connected) \<leftarrow> split_connected cs js;
     Some (if is_connected c then (waiting, j # connected) else (j # waiting, connected))
   }"

definition left_dst_connected ::
  "'k platform \<Rightarrow> connections \<Rightarrow> nat \<Rightarrow> tp_server \<Rightarrow> 'k io \<Rightarrow> (tp_server \<times> 'k io) option" where
  "left_dst_connected P cs from s io =
     (case server_role s of
        Right_Server _ _ _ \<Rightarrow> None
      | Left_Server connected waiting origin \<Rightarrow> do {
          let ready1 = (if fst (remove_from_list from waiting) then ready_list s @ [from] else ready_list s);
          (waiting', moved) \<leftarrow> split_connected cs (snd (remove_from_list from waiting));
          let s1 = s\<lparr>ready_list := ready1 @ moved, server_role := Left_Server True waiting' origin\<rparr>;
          if connected then Some (s1, io)
          else do {
            let io1 = log_event (Modify_Callback (sock_fd s1) (EPOLLET OR EPOLLIN OR EPOLLRDHUP OR EPOLLERR)) io;
            s2 \<leftarrow> create_budget_alarm P cs s1 io1;
            Some (s2, io1)
          }
        })"

definition left_notify ::
  "'k platform \<Rightarrow> connections \<Rightarrow> nat \<Rightarrow> nat \<Rightarrow> proxy_signal \<Rightarrow> tp_server \<Rightarrow> 'k io \<Rightarrow> (tp_server \<times> 'k io) option" where
  "left_notify P cs i from signal s io =
     (case server_role s of
        Right_Server _ _ _ \<Rightarrow> None
      | Left_Server connected waiting origin \<Rightarrow>
          (case signal of
             PROXY_DST_CONNECTED \<Rightarrow> left_dst_connected P cs from s io
           | PROXY_CONNECTED \<Rightarrow>
               if connected then
                 map_option (\<lambda>s'. (s', io)) (rearm_budget_alarm P (kernel io)
                   (s\<lparr>ready_list := (if fst (remove_from_list from waiting) then ready_list s @ [from] else ready_list s),
                      server_role := Left_Server connected (snd (remove_from_list from waiting)) origin\<rparr>))
               else Some (s, io)
           | PROXY_CLOSE \<Rightarrow>
               let s1 = s\<lparr>ready_list := snd (remove_from_list from (ready_list s)),
                          server_role := Left_Server connected (snd (remove_from_list from waiting)) origin\<rparr>
               in if snd (remove_from_list from waiting) = [] \<and> ready_list s1 = [] then wait_for_close_fd P i s1 io
                  else Some (s1, io)
           | _ \<Rightarrow>
               if signal = PROXY_CONNECT_FAIL \<or> signal = PROXY_DST_CONNECT_FAIL then do {
                 fatal_unless (fst (remove_from_list from waiting));
                 let s1 = s\<lparr>server_role := Left_Server connected (snd (remove_from_list from waiting)) origin\<rparr>;
                 if snd (remove_from_list from waiting) = [] \<and> ready_list s1 = [] then wait_for_close_fd P i s1 io
                 else Some (s1, io)
               } else Some (s, io)))"

lemmas notify_defs = right_notify_def left_dst_connected_def left_notify_def

lemmas notify_eqs = notify_defs [unfolded remove_from_list_eq fst_conv snd_conv]

definition server_notify :: "'k platform \<Rightarrow> nat \<Rightarrow> nat \<Rightarrow> proxy_signal \<Rightarrow> 'k world \<Rightarrow> 'k world option" where
  "server_notify P i from signal w =
     on_server i (\<lambda>s. if is_Left_Server (server_role s) then left_notify P (w_conns w) i from signal s
                      else right_notify P i from signal s) w"

section \<open>Closing entities\<close>

definition server_close_entity :: "'k platform \<Rightarrow> nat \<Rightarrow> 'k world \<Rightarrow> 'k world option" where
  "server_close_entity P i w = do {
     w1 \<leftarrow> on_server i (\<lambda>s io. Some (raise_status ENTITY_CLOSED s, io)) w;
     s \<leftarrow> w_servers w1 i;
     w2 \<leftarrow> each (\<lambda>j. on_conn j (conn_notify P j PROXY_CLOSE)) (ready_list s) w1;
     on_server i (\<lambda>s. check_to_delete_self (server_class i) (s\<lparr>ready_list := []\<rparr>)) w2
   }"

definition server_check_close_entity :: "'k platform \<Rightarrow> nat \<Rightarrow> 'k world \<Rightarrow> 'k world option" where
  "server_check_close_entity P i w = do {
     s \<leftarrow> w_servers w i;
     if has_status s ENTITY_WAIT_CLOSE \<and> read_buffer s = [] then server_close_entity P i w else Some w
   }"

definition conn_close_entity :: "'k platform \<Rightarrow> nat \<Rightarrow> 'k world \<Rightarrow> 'k world option" where
  "conn_close_entity P j w = do {
     w1 \<leftarrow> on_conn j (\<lambda>c io. Some (raise_status ENTITY_CLOSED c, io)) w;
     c \<leftarrow> w_conns w1 j;
     w2 \<leftarrow> (case server_ref c of
       None \<Rightarrow> Some w1
     | Some i \<Rightarrow> do {
         w' \<leftarrow> server_notify P i j PROXY_CLOSE w1;
         on_conn j (\<lambda>c io. Some (c\<lparr>server_ref := None\<rparr>, io)) w'
       });
     on_conn j (check_to_delete_self (connection_class j)) w2
   }"

definition conn_check_close_entity :: "'k platform \<Rightarrow> nat \<Rightarrow> 'k world \<Rightarrow> 'k world option" where
  "conn_check_close_entity P j w = do {
     c \<leftarrow> w_conns w j;
     if has_status c ENTITY_WAIT_CLOSE \<and> read_buffer c = [] then conn_close_entity P j w else Some w
   }"

section \<open>A connection finds its server\<close>

text \<open>\<open>TpServerRight::Register\<close>\<close>

definition right_register :: "'k platform \<Rightarrow> nat \<Rightarrow> nat \<Rightarrow> 'k world \<Rightarrow> 'k world option" where
  "right_register P i from w = do {
     w1 \<leftarrow> on_server i (\<lambda>s io. Some (s\<lparr>ready_list := snd (remove_from_list from (ready_list s)) @ [from]\<rparr>, io)) w;
     s \<leftarrow> w_servers w1 i;
     w2 \<leftarrow> (if is_connected s then on_conn from (conn_notify P from PROXY_CONNECTED) w1 else Some w1);
     on_server i (\<lambda>s io. do {
       s1 \<leftarrow> (if server_budget_alarm s = None then Some s else rearm_budget_alarm P (kernel io) s);
       s2 \<leftarrow> create_budget_alarm P (w_conns w2) s1 io;
       Some (s2, io)
     }) w2
   }"

text \<open>\<open>TpServerRight::AsynConnect\<close>: whether the connection was started.\<close>

definition right_asyn_connect ::
  "'k platform \<Rightarrow> nat \<Rightarrow> tp_server \<Rightarrow> 'k io \<Rightarrow> (bool \<times> tp_server \<times> 'k io) option" where
  "right_asyn_connect P i s io = do {
     let (reuse, k) = sys_reuse_addr P (kernel io) (sock_fd s);
     let io1 = io\<lparr>kernel := k\<rparr>;
     let give_up = (\<lambda>o1. do {
       (s1, o2) \<leftarrow> close_fd P (server_class i) s o1;
       (s2, o3) \<leftarrow> delete_self (server_class i) s1 o2;
       Some (False, s2, o3)
     });
     if \<not> reuse then give_up io1
     else
       let io2 = log_event (Register_Fd (sock_fd s)
             (EPOLLIN OR EPOLLOUT OR EPOLLRDHUP OR EPOLLERR OR EPOLLET)) io1;
           (result, k2) = sys_connect P (kernel io2) (sock_fd s) (right_origin (server_role s));
           io3 = io2\<lparr>kernel := k2\<rparr>
       in if result = Connect_Again then give_up io3
          else Some (True, s\<lparr>sock_status := TCP_CONNECTING\<rparr>, io3)
   }"

text \<open>A new \<open>TpServerRight\<close> for the first connection of a session.\<close>

definition open_session ::
  "'k platform \<Rightarrow> nat \<Rightarrow> u64 \<Rightarrow> u64 \<Rightarrow> sock_addr \<Rightarrow> int \<Rightarrow> 'k world \<Rightarrow> 'k world option" where
  "open_session P j uuid sid addr fd w = do {
     let i = next_object w;
     s \<leftarrow> server_new fd TCP_STATUS_MIN (Right_Server uuid sid addr);
     let w1 = w\<lparr>w_servers := (w_servers w)(i \<mapsto> s), next_object := i + 1\<rparr>;
     w2 \<leftarrow> on_conn j (\<lambda>c io. Some (c\<lparr>server_ref := Some i\<rparr>, io)) w1;
     w3 \<leftarrow> right_register P i j w2;
     s3 \<leftarrow> w_servers w3 i;
     (started, s4, io4) \<leftarrow> right_asyn_connect P i s3 (w_io w3);
     let w4 = w3\<lparr>w_servers := (w_servers w3)(i \<mapsto> s4), w_io := io4\<rparr>;
     if \<not> started then do {
       w5 \<leftarrow> on_conn j (close_fd P (connection_class j)) w4;
       conn_close_entity P j w5
     }
     else do {
       m \<leftarrow> register_sink i uuid sid (sessions (w_io w4));
       Some (w4\<lparr>w_io := (w_io w4)\<lparr>sessions := m\<rparr>\<rparr>)
     }
   }"

definition left_parse_message :: "'k platform \<Rightarrow> nat \<Rightarrow> byte list \<Rightarrow> 'k world \<Rightarrow> 'k world option" where
  "left_parse_message P j data w = do {
     let (type, r) = read_uint8 (reader_new data (length data));
     if type \<noteq> Some PROXY_MESSAGE_META then Some w
     else do {
       (uuid, sid, addr) \<leftarrow> parse_metadata r;
       c \<leftarrow> w_conns w j;
       if left_uuid (conn_role c) \<noteq> 0 then Some w
       else do {
         w1 \<leftarrow> on_conn j (\<lambda>c io. Some (c\<lparr>conn_role := Left_Connection uuid (dst_connect_msg_sent (conn_role c))\<rparr>, io)) w;
         case find_session (sessions (w_io w1)) uuid sid of
           Some i \<Rightarrow> do {
             w2 \<leftarrow> on_conn j (\<lambda>c io. Some (c\<lparr>server_ref := Some i\<rparr>, io)) w1;
             right_register P i j w2
           }
         | None \<Rightarrow>
             let (fd, k) = sys_socket P (kernel (w_io w1));
                 w2 = w1\<lparr>w_io := (w_io w1)\<lparr>kernel := k\<rparr>\<rparr>
             in if fd < 0 then Some w2 else open_session P j uuid sid addr fd w2
       }
     }
   }"

definition right_parse_message :: "'k platform \<Rightarrow> nat \<Rightarrow> byte list \<Rightarrow> 'k world \<Rightarrow> 'k world option" where
  "right_parse_message P j data w =
     (case fst (read_uint8 (reader_new data (length data))) of
        None \<Rightarrow> Some w
      | Some type \<Rightarrow>
          if type = PROXY_MESSAGE_ORIGIN_CONNECTED then do {
            c \<leftarrow> w_conns w j;
            if right_origin_connected (conn_role c) then Some w
            else do {
              w1 \<leftarrow> on_conn j (\<lambda>c io. Some (c\<lparr>conn_role := Right_Connection (right_uuid (conn_role c))
                (right_sid (conn_role c)) (origin_ip (conn_role c)) (origin_port (conn_role c)) True\<rparr>, io)) w;
              case server_ref c of None \<Rightarrow> Some w1 | Some i \<Rightarrow> server_notify P i j PROXY_DST_CONNECTED w1
            }
          }
          else if type = PROXY_MESSAGE_ORIGIN_FAIL then do {
            w1 \<leftarrow> on_conn j (close_fd P (connection_class j)) w;
            conn_close_entity P j w1
          }
          else Some w)"

definition parse_message :: "'k platform \<Rightarrow> nat \<Rightarrow> byte list \<Rightarrow> 'k world \<Rightarrow> 'k world option" where
  "parse_message P j data w = do {
     c \<leftarrow> w_conns w j;
     if is_Left_Connection (conn_role c) then left_parse_message P j data w
     else right_parse_message P j data w
   }"

section \<open>Reading from a connection\<close>

definition handle_frame :: "'k platform \<Rightarrow> nat \<Rightarrow> u64 \<Rightarrow> byte list \<Rightarrow> 'k world \<Rightarrow> 'k world option" where
  "handle_frame P j offset pv w =
     (if kReserveOffset \<le> offset then do {
        c \<leftarrow> w_conns w j;
        i \<leftarrow> server_ref c;
        on_server i (recv_data P i offset pv) w
      }
      else if pv \<noteq> [] then parse_message P j pv w else Some w)"

definition deliver :: "'k platform \<Rightarrow> nat \<Rightarrow> 'k world \<Rightarrow> 'k world option" where
  "deliver P j w = do {
     c \<leftarrow> w_conns w j;
     (rest, update, w1) \<leftarrow> deliver_loop (handle_frame P j) (read_buffer c) False w;
     if \<not> update then Some w1
     else do {
       w2 \<leftarrow> on_conn j (\<lambda>c io. Some (c\<lparr>read_buffer := rest\<rparr>, io)) w1;
       if rest = [] then conn_check_close_entity P j w2 else Some w2
     }
   }"

definition conn_on_read_event :: "'k platform \<Rightarrow> nat \<Rightarrow> int \<Rightarrow> 'k world \<Rightarrow> 'k world option" where
  "conn_on_read_event P j fd w = do {
     c \<leftarrow> w_conns w j;
     (c1, update, io1) \<leftarrow> conn_read_loop P j fd c False (w_io w);
     let w1 = w\<lparr>w_conns := (w_conns w)(j \<mapsto> c1), w_io := io1\<rparr>;
     w2 \<leftarrow> (if update then deliver P j w1 else Some w1);
     c2 \<leftarrow> w_conns w2 j;
     fatal_unless (has_status c2 FD_CLOSED \<longrightarrow> read_buffer c2 = []);
     Some w2
   }"

text \<open>\<open>TcpConnectionLeft::OnEvent\<close> and the branch for a peer that hangs up.\<close>

definition left_conn_hang_up :: "'k platform \<Rightarrow> nat \<Rightarrow> 'k world \<Rightarrow> 'k world option" where
  "left_conn_hang_up P j w = do {
     w1 \<leftarrow> deliver P j w;
     w2 \<leftarrow> on_conn j (close_fd P (connection_class j)) w1;
     w3 \<leftarrow> conn_check_close_entity P j w2;
     c \<leftarrow> w_conns w3 j;
     fatal_unless (write_buffer c = []);
     Some w3
   }"

definition left_conn_on_event :: "'k platform \<Rightarrow> nat \<Rightarrow> int \<Rightarrow> 32 word \<Rightarrow> 'k world \<Rightarrow> 'k world option" where
  "left_conn_on_event P j fd events w = do {
     w1 \<leftarrow> do_when (has_event events EPOLLIN) (conn_on_read_event P j fd) w;
     w2 \<leftarrow> do_when (has_event events EPOLLOUT) (on_conn j (on_write_event P (connection_class j))) w1;
     do_when (has_event events (EPOLLRDHUP OR EPOLLHUP OR EPOLLERR)) (left_conn_hang_up P j) w2
   }"

text \<open>\<open>TcpConnectionRight::OnEvent\<close>, its first branch and what follows a connection made.\<close>

definition right_conn_hang_up :: "'k platform \<Rightarrow> nat \<Rightarrow> 'k world \<Rightarrow> 'k world option" where
  "right_conn_hang_up P j w = do {
     w1 \<leftarrow> on_conn j (close_fd P (connection_class j)) w;
     w2 \<leftarrow> conn_close_entity P j w1;
     c \<leftarrow> w_conns w2 j;
     fatal_unless (write_buffer c = []);
     Some w2
   }"

definition right_conn_connected :: "'k platform \<Rightarrow> nat \<Rightarrow> 'k world \<Rightarrow> 'k world option" where
  "right_conn_connected P j w = do {
     w1 \<leftarrow> on_conn j (\<lambda>c. write_meta_data P j (c\<lparr>sock_status := TCP_CONNECTED\<rparr>)) w;
     c \<leftarrow> w_conns w1 j;
     case server_ref c of None \<Rightarrow> Some w1 | Some i \<Rightarrow> server_notify P i j PROXY_CONNECTED w1
   }"

definition right_conn_writable :: "'k platform \<Rightarrow> nat \<Rightarrow> 'k world \<Rightarrow> 'k world option" where
  "right_conn_writable P j w = do {
     c \<leftarrow> w_conns w j;
     w1 \<leftarrow> do_when (sock_status c = TCP_CONNECTING) (right_conn_connected P j) w;
     on_conn j (on_write_event P (connection_class j)) w1
   }"

definition right_conn_on_event :: "'k platform \<Rightarrow> nat \<Rightarrow> int \<Rightarrow> 32 word \<Rightarrow> 'k world \<Rightarrow> 'k world option" where
  "right_conn_on_event P j fd events w = do {
     w1 \<leftarrow> do_when (has_event events (EPOLLERR OR EPOLLRDHUP OR EPOLLHUP)) (right_conn_hang_up P j) w;
     w2 \<leftarrow> do_when (has_event events EPOLLOUT) (right_conn_writable P j) w1;
     do_when (has_event events EPOLLIN) (conn_on_read_event P j fd) w2
   }"

section \<open>Reading from the application\<close>

text \<open>
  \<open>TpServerBase::OnReadEvent\<close>.  The guard for a negative target is the code's.
\<close>

definition server_on_read_event :: "'k platform \<Rightarrow> nat \<Rightarrow> int \<Rightarrow> 'k world \<Rightarrow> 'k world option" where
  "server_on_read_event P i fd w = do {
     s \<leftarrow> w_servers w i;
     let target = budget_remaining (server_budget s);
     if target < 0 then Some w
     else do {
       (got, s1, io1) \<leftarrow> server_read_loop P i fd target 0 s (w_io w);
       let s2 = (if 0 < got then s1\<lparr>server_budget := use_budget (server_budget s1) got\<rparr> else s1);
       server_check_close_entity P i (w\<lparr>w_servers := (w_servers w)(i \<mapsto> s2), w_io := io1\<rparr>)
     }
   }"

text \<open>The number of connections whose write buffer is above the threshold.\<close>

fun buffer_full_connections :: "connections \<Rightarrow> nat list \<Rightarrow> nat option" where
  "buffer_full_connections cs [] = Some 0"
| "buffer_full_connections cs (j # js) = do {
     c \<leftarrow> cs j;
     n \<leftarrow> buffer_full_connections cs js;
     Some (if is_buffer_above_threshold c then n + 1 else n)
   }"

definition server_schedule :: "'k platform \<Rightarrow> nat \<Rightarrow> 'k world \<Rightarrow> 'k world option" where
  "server_schedule P i w = do {
     s \<leftarrow> w_servers w i;
     (s', cs', io') \<leftarrow> schedule P s (w_conns w) (w_io w);
     Some (w\<lparr>w_servers := (w_servers w)(i \<mapsto> s'), w_conns := cs', w_io := io'\<rparr>)
   }"

text \<open>The first half of \<open>TpServerBase::OnBudgetAlarm\<close>: budget and alarm.\<close>

definition server_refill :: "'k platform \<Rightarrow> connections \<Rightarrow> 'k \<Rightarrow> tp_server \<Rightarrow> tp_server option" where
  "server_refill P cs k s = do {
     let now = clock_now P k;
     s1 \<leftarrow> update_read_budget_rate P cs s;
     let ms = (if server_last_budget_time s1 = 0 \<or> \<not> server_last_budget_time s1 < now
               then delta_to_milliseconds kScheduleInterval
               else delta_to_milliseconds (now - server_last_budget_time s1));
     al \<leftarrow> server_budget_alarm s1;
     al' \<leftarrow> alarm_update al (now + kScheduleInterval) 0;
     Some (s1\<lparr>server_budget := increase_budget (server_budget s1) ms,
              server_last_budget_time := now, server_budget_alarm := Some al'\<rparr>)
   }"

text \<open>The second half: read when some connection has room, and schedule what was read.\<close>

definition server_on_budget_alarm :: "'k platform \<Rightarrow> nat \<Rightarrow> 'k world \<Rightarrow> 'k world option" where
  "server_on_budget_alarm P i w = do {
     w1 \<leftarrow> on_server i (\<lambda>s io. map_option (\<lambda>s'. (s', io)) (server_refill P (w_conns w) (kernel io) s)) w;
     s1 \<leftarrow> w_servers w1 i;
     full \<leftarrow> buffer_full_connections (w_conns w1) (ready_list s1);
     let buffer_full = (full = length (ready_list s1));
     w2 \<leftarrow> do_when (0 < sock_fd s1 \<and> \<not> buffer_full) (server_on_read_event P i (sock_fd s1)) w1;
     s2 \<leftarrow> w_servers w2 i;
     w3 \<leftarrow> do_when (read_buffer s2 \<noteq> []) (server_schedule P i) w2;
     s3 \<leftarrow> w_servers w3 i;
     do_when (has_status s3 FD_CLOSED) (server_check_close_entity P i) w3
   }"

text \<open>\<open>TpServerRight::OnEvent\<close>\<close>

definition right_server_connected :: "'k platform \<Rightarrow> nat \<Rightarrow> 'k world \<Rightarrow> 'k world option" where
  "right_server_connected P i w = do {
     w1 \<leftarrow> on_server i (\<lambda>s io. Some (s\<lparr>sock_status := TCP_CONNECTED\<rparr>, io)) w;
     s \<leftarrow> w_servers w1 i;
     w2 \<leftarrow> each (\<lambda>j. on_conn j (conn_notify P j PROXY_CONNECTED)) (ready_list s) w1;
     on_server i (\<lambda>s io. map_option (\<lambda>s'. (s', io)) (rearm_budget_alarm P (kernel io) s)) w2
   }"

definition right_server_writable :: "'k platform \<Rightarrow> nat \<Rightarrow> 'k world \<Rightarrow> 'k world option" where
  "right_server_writable P i w = do {
     s \<leftarrow> w_servers w i;
     w1 \<leftarrow> do_when (sock_status s = TCP_CONNECTING) (right_server_connected P i) w;
     on_server i (on_write_event P (server_class i)) w1
   }"

definition right_server_hang_up :: "'k platform \<Rightarrow> nat \<Rightarrow> 'k world \<Rightarrow> 'k world option" where
  "right_server_hang_up P i w =
     Option.bind (on_server i (close_fd P (server_class i)) w) (server_close_entity P i)"

definition right_server_on_event :: "'k platform \<Rightarrow> nat \<Rightarrow> int \<Rightarrow> 32 word \<Rightarrow> 'k world \<Rightarrow> 'k world option" where
  "right_server_on_event P i fd events w = do {
     w1 \<leftarrow> do_when (has_event events EPOLLOUT) (right_server_writable P i) w;
     w2 \<leftarrow> do_when (has_event events EPOLLIN) (server_on_read_event P i fd) w1;
     do_when (has_event events (EPOLLERR OR EPOLLRDHUP OR EPOLLHUP)) (right_server_hang_up P i) w2
   }"

text \<open>\<open>TpServerLeft::OnEvent\<close>\<close>

definition left_server_hang_up :: "'k platform \<Rightarrow> nat \<Rightarrow> 'k world \<Rightarrow> 'k world option" where
  "left_server_hang_up P i w =
     Option.bind (on_server i (close_fd P (server_class i)) w) (server_check_close_entity P i)"

definition left_server_on_event :: "'k platform \<Rightarrow> nat \<Rightarrow> int \<Rightarrow> 32 word \<Rightarrow> 'k world \<Rightarrow> 'k world option" where
  "left_server_on_event P i fd events w = do {
     w1 \<leftarrow> do_when (has_event events (EPOLLRDHUP OR EPOLLHUP)) (left_server_hang_up P i) w;
     w2 \<leftarrow> do_when (has_event events EPOLLIN) (server_on_read_event P i fd) w1;
     do_when (has_event events EPOLLOUT) (on_server i (on_write_event P (server_class i))) w2
   }"

section \<open>New objects\<close>

text \<open>\<open>TpServerBackend::CreateEndpoint\<close>: a connection accepted from the other half.\<close>

definition left_conn_create :: "'k platform \<Rightarrow> int \<Rightarrow> 'k world \<Rightarrow> 'k world option" where
  "left_conn_create P fd w = do {
     c \<leftarrow> connection_new P (kernel (w_io w)) fd TCP_CONNECTED None (Left_Connection 0 False);
     Some (w\<lparr>w_conns := (w_conns w)(next_object w \<mapsto> c), next_object := next_object w + 1,
            w_io := log_event (Register_Fd fd (EPOLLIN OR EPOLLET OR EPOLLRDHUP OR EPOLLHUP OR EPOLLERR)) (w_io w)\<rparr>)
   }"

text \<open>\<open>TcpConnectionRight::AsynConnect\<close>\<close>

definition conn_asyn_connect ::
  "'k platform \<Rightarrow> nat \<Rightarrow> sock_addr \<Rightarrow> sock_addr \<Rightarrow> tcp_connection \<Rightarrow> 'k io \<Rightarrow>
    (bool \<times> tcp_connection \<times> 'k io) option" where
  "conn_asyn_connect P j src dst c io = do {
     let give_up = (\<lambda>o1. do {
       (c1, o2) \<leftarrow> close_fd P (connection_class j) c o1;
       (c2, o3) \<leftarrow> delete_self (connection_class j) c1 o2;
       Some (False, c2, o3)
     });
     let (reuse, k) = sys_reuse_addr P (kernel io) (sock_fd c);
     if \<not> reuse then give_up (io\<lparr>kernel := k\<rparr>)
     else
       let (bound, k1) = sys_bind P k (sock_fd c) src
       in if \<not> bound then give_up (io\<lparr>kernel := k1\<rparr>)
          else
            let io2 = log_event (Register_Fd (sock_fd c)
                  (EPOLLIN OR EPOLLOUT OR EPOLLRDHUP OR EPOLLERR OR EPOLLET)) (io\<lparr>kernel := k1\<rparr>);
                (result, k2) = sys_connect P (kernel io2) (sock_fd c) dst;
                io3 = io2\<lparr>kernel := k2\<rparr>
            in if result = Connect_Again then give_up io3
               else Some (True, c\<lparr>sock_status := TCP_CONNECTING\<rparr>, io3)
   }"

text \<open>\<open>TpServerLeft::CreateConnections\<close>: one connection for each pair of addresses.\<close>

definition create_connection ::
  "'k platform \<Rightarrow> nat \<Rightarrow> u64 \<Rightarrow> u64 \<Rightarrow> sock_addr \<Rightarrow> sock_addr \<times> sock_addr \<Rightarrow> 'k world \<Rightarrow> 'k world option" where
  "create_connection P i uuid sid origin pair w = do {
     let (fd, k) = sys_socket P (kernel (w_io w));
     let w1 = w\<lparr>w_io := (w_io w)\<lparr>kernel := k\<rparr>\<rparr>;
     if fd < 0 then Some w1
     else do {
       let j = next_object w1;
       c \<leftarrow> connection_new P k fd TCP_STATUS_MIN (Some i) (Right_Connection uuid sid (fst origin) (snd origin) False);
       (started, c1, io1) \<leftarrow> conn_asyn_connect P j (fst pair) (snd pair) c (w_io w1);
       let w2 = w1\<lparr>w_conns := (w_conns w1)(j \<mapsto> c1), next_object := j + 1, w_io := io1\<rparr>;
       if started then on_server i (\<lambda>s io. case server_role s of
           Left_Server connected waiting a \<Rightarrow> Some (s\<lparr>server_role := Left_Server connected (waiting @ [j]) a\<rparr>, io)
         | Right_Server _ _ _ \<Rightarrow> None) w2
       else Some w2
     }
   }"

text \<open>
  The constructor \<open>TpServerLeft\<close>.  Nothing registers the accepted descriptor with the epoll server: the
  acceptor hands it over as it is, and \<open>ModifyCallback\<close>, here and in \<open>Notify\<close>, does nothing for a
  descriptor that is not registered.
\<close>

definition left_server_create ::
  "'k platform \<Rightarrow> int \<Rightarrow> u64 \<Rightarrow> u64 \<Rightarrow> (sock_addr \<times> sock_addr) list \<Rightarrow> 'k world \<Rightarrow> 'k world option" where
  "left_server_create P fd uuid sid pairs w = do {
     fatal_unless (pairs \<noteq> []);
     let i = next_object w;
     let io1 = log_event (Modify_Callback fd (EPOLLET OR EPOLLRDHUP OR EPOLLERR)) (w_io w);
     case sys_original_dst P (kernel io1) fd of
       None \<Rightarrow> do {
         s \<leftarrow> server_new fd TCP_STATUS_MIN (Left_Server False [] (0, 0));
         let w1 = w\<lparr>w_servers := (w_servers w)(i \<mapsto> s), next_object := i + 1, w_io := io1\<rparr>;
         w2 \<leftarrow> on_server i (close_fd P (server_class i)) w1;
         on_server i (delete_self (server_class i)) w2
       }
     | Some origin \<Rightarrow> do {
         s \<leftarrow> server_new fd TCP_CONNECTED (Left_Server False [] origin);
         let w1 = w\<lparr>w_servers := (w_servers w)(i \<mapsto> s), next_object := i + 1, w_io := io1\<rparr>;
         w2 \<leftarrow> each (create_connection P i uuid sid origin) pairs w1;
         s2 \<leftarrow> w_servers w2 i;
         if wait_list (server_role s2) = [] then do {
           w3 \<leftarrow> on_server i (close_fd P (server_class i)) w2;
           server_close_entity P i w3
         } else Some w2
       }
   }"

text \<open>\<open>TpClientBackend::CreateEndpoint\<close>: the session number counts up.\<close>

definition client_create_endpoint ::
  "'k platform \<Rightarrow> u64 \<Rightarrow> (sock_addr \<times> sock_addr) list \<Rightarrow> int \<Rightarrow> u64 \<Rightarrow> 'k world \<Rightarrow> (u64 \<times> 'k world) option" where
  "client_create_endpoint P uuid pairs fd sid w =
     map_option (\<lambda>w'. (u64_add sid 1, w')) (left_server_create P fd uuid sid pairs w)"

section \<open>The event loop\<close>

text \<open>
  \<open>OnShutdown\<close> of the four classes; \<open>BaseContext::ExecuteTask\<close> runs the posted deletions,
  in order.  A deletion ends the object and cancels its alarms.
\<close>

definition delete_object :: "object \<Rightarrow> 'k world \<Rightarrow> 'k world option" where
  "delete_object ob w =
     (case ob of
        Connection j \<Rightarrow> (if w_conns w j = None then None else Some (w\<lparr>w_conns := (w_conns w)(j := None)\<rparr>))
      | Server i \<Rightarrow> (if w_servers w i = None then None else Some (w\<lparr>w_servers := (w_servers w)(i := None)\<rparr>)))"

definition execute_tasks :: "'k world \<Rightarrow> 'k world option" where
  "execute_tasks w = each delete_object (posted (w_io w)) (w\<lparr>w_io := (w_io w)\<lparr>posted := []\<rparr>\<rparr>)"

datatype proxy_event =
    Conn_Event nat int "32 word"
  | Server_Event nat int "32 word"
  | Goodput_Alarm nat
  | Conn_Budget_Alarm nat
  | Server_Budget_Alarm nat
  | Health_Alarm nat
  | Conn_Shutdown nat
  | Server_Shutdown nat
  | Accept_Left int
  | Accept_Client int u64 u64 "(sock_addr \<times> sock_addr) list"
  | Run_Tasks

text \<open>
  An alarm event is the epoll server's call of \<open>OnAlarm\<close>, which clears the alarm first.  The descriptor
  of a \<open>TpServerLeft\<close> is never registered, so the epoll server calls neither its \<open>OnEvent\<close>
  (\<open>left_server_on_event\<close>) nor its \<open>OnShutdown\<close>: such an event changes nothing.
\<close>

definition alarm_event :: "base_alarm \<Rightarrow> base_alarm" where
  "alarm_event a = snd (alarm_on_epoll a)"

fun handle_event :: "'k platform \<Rightarrow> proxy_event \<Rightarrow> 'k world \<Rightarrow> 'k world option" where
  "handle_event P (Conn_Event j fd events) w = do {
     c \<leftarrow> w_conns w j;
     if is_Left_Connection (conn_role c) then left_conn_on_event P j fd events w
     else right_conn_on_event P j fd events w
   }"
| "handle_event P (Server_Event i fd events) w = do {
     s \<leftarrow> w_servers w i;
     if is_Left_Server (server_role s) then Some w else right_server_on_event P i fd events w
   }"
| "handle_event P (Goodput_Alarm j) w = on_conn j (\<lambda>c io. map_option (\<lambda>c'. (c', io))
     (on_goodput_alarm P (kernel io) (c\<lparr>goodput_alarm := alarm_event (goodput_alarm c)\<rparr>))) w"
| "handle_event P (Conn_Budget_Alarm j) w = on_conn j (\<lambda>c io. map_option (\<lambda>c'. (c', io))
     (on_budget_alarm P (kernel io) (c\<lparr>conn_budget_alarm := alarm_event (conn_budget_alarm c)\<rparr>))) w"
| "handle_event P (Server_Budget_Alarm i) w = do {
     w1 \<leftarrow> on_server i (\<lambda>s io. Some (s\<lparr>server_budget_alarm := map_option alarm_event (server_budget_alarm s)\<rparr>, io)) w;
     server_on_budget_alarm P i w1
   }"
| "handle_event P (Health_Alarm i) w = on_server i (\<lambda>s io. map_option (\<lambda>s'. (s', io))
     (on_health_alarm P (kernel io) (s\<lparr>health_alarm := map_option alarm_event (health_alarm s)\<rparr>))) w"
| "handle_event P (Conn_Shutdown j) w = do {
     w1 \<leftarrow> on_conn j (close_fd P (connection_class j)) w;
     on_conn j (delete_self (connection_class j)) w1
   }"
| "handle_event P (Server_Shutdown i) w = do {
     s \<leftarrow> w_servers w i;
     if is_Left_Server (server_role s) then Some w
     else do {
       w1 \<leftarrow> on_server i (close_fd P (server_class i)) w;
       on_server i (delete_self (server_class i)) w1
     }
   }"
| "handle_event P (Accept_Left fd) w = left_conn_create P fd w"
| "handle_event P (Accept_Client fd uuid sid pairs) w = left_server_create P fd uuid sid pairs w"
| "handle_event P Run_Tasks w = execute_tasks w"

end
