(* ===== verification/Read_Loops.thy ===== *)
theory Read_Loops
  imports Server_Send
begin

text \<open>
  The two reading loops of the proxy, \<open>TcpConnectionBase::OnReadEvent\<close> and
  \<open>TpServerBase::OnReadEvent\<close>: induction rules for runs that return, what such a run has
  collected, and that the loops do return once the descriptor has nothing left to read.
\<close>

section \<open>Induction rules\<close>

lemma conn_read_loop_induct [consumes 1, case_names block eof data]:
  assumes run: "conn_read_loop P j fd c u io = Some r"
    and block: "\<And>c u io k. sys_read P (kernel io) fd (kBufferSize + 500) = (None, k) \<Longrightarrow>
      Q c u io (c, u, io\<lparr>kernel := k\<rparr>)"
    and eof: "\<And>c u io k c1 io1 r. sys_read P (kernel io) fd (kBufferSize + 500) = (Some [], k) \<Longrightarrow>
      close_fd P (connection_class j) c (io\<lparr>kernel := k\<rparr>) = Some (c1, io1) \<Longrightarrow> write_buffer c1 = [] \<Longrightarrow>
      Q c1 u io1 r \<Longrightarrow> Q c u io r"
    and data: "\<And>c u io k d r. sys_read P (kernel io) fd (kBufferSize + 500) = (Some d, k) \<Longrightarrow> d \<noteq> [] \<Longrightarrow>
      Q (c\<lparr>recv_bytes := recv_bytes c + int (length d), read_buffer := read_buffer c @ d\<rparr>) True
        (io\<lparr>kernel := k\<rparr>) r \<Longrightarrow> Q c u io r"
  shows "Q c u io r"
proof -
  have "P = P \<and> j = j \<and> fd = fd \<longrightarrow> Q c u io r"
  proof (rule conn_read_loop.raw_induct [where Pa = "\<lambda>(((((P', j'), fd'), c), u), io) r.
      P' = P \<and> j' = j \<and> fd' = fd \<longrightarrow> Q c u io r", OF _ run, simplified prod.case], intro impI, elim conjE)
    fix loop P' j' fd' c u io r
    assume IH: "\<And>P' j' fd' c u io r. loop P' j' fd' c u io = Some r \<Longrightarrow>
        P' = P \<and> j' = j \<and> fd' = fd \<longrightarrow> Q c u io r"
      and body: "(case sys_read P' (kernel io) fd' (kBufferSize + 500) of
        (None, k) \<Rightarrow> Some (c, u, io\<lparr>kernel := k\<rparr>)
      | (Some d, k) \<Rightarrow>
          if d = [] then
            Option.bind (close_fd P' (connection_class j') c (io\<lparr>kernel := k\<rparr>)) (\<lambda>(c1, io1).
            Option.bind (fatal_unless (write_buffer c1 = [])) (\<lambda>_. loop P' j' fd' c1 u io1))
          else loop P' j' fd' (c\<lparr>recv_bytes := recv_bytes c + int (length d), read_buffer := read_buffer c @ d\<rparr>)
            True (io\<lparr>kernel := k\<rparr>)) = Some r"
      and eq: "P' = P" "j' = j" "fd' = fd"
    obtain d k where read: "sys_read P (kernel io) fd (kBufferSize + 500) = (d, k)"
      by (cases "sys_read P (kernel io) fd (kBufferSize + 500)")
    note body = body [unfolded eq read prod.case]
    consider "d = None" | "d = Some []" | bytes where "d = Some bytes" "bytes \<noteq> []" by (cases d) auto
    then show "Q c u io r"
    proof cases
      case 1
      then show ?thesis using body block [of io k c u] read by simp
    next
      case 2
      then obtain c1 io1 where "close_fd P (connection_class j) c (io\<lparr>kernel := k\<rparr>) = Some (c1, io1)"
          "write_buffer c1 = []" "loop P j fd c1 u io1 = Some r"
        using body by (auto simp: Option.bind_eq_Some_conv split: if_splits)
      then show ?thesis using eof [of io k c c1 io1 u r] IH [of P j fd c1 u io1 r] read 2 by simp
    next
      case 3
      then have "loop P j fd (c\<lparr>recv_bytes := recv_bytes c + int (length bytes),
          read_buffer := read_buffer c @ bytes\<rparr>) True (io\<lparr>kernel := k\<rparr>) = Some r"
        using body by simp
      then show ?thesis using data [of io bytes k c r u] IH read 3 by simp
    qed
  qed
  then show ?thesis by simp
qed

lemma server_read_loop_induct [consumes 1, case_names block eof data]:
  assumes run: "server_read_loop P i fd target got s io = Some r"
    and block: "\<And>got s io k. sys_read P (kernel io) fd kBufferSize = (None, k) \<Longrightarrow>
      Q got s io (got, s, io\<lparr>kernel := k\<rparr>)"
    and eof: "\<And>got s io k s1 io1 r. sys_read P (kernel io) fd kBufferSize = (Some [], k) \<Longrightarrow>
      close_fd P (server_class i) s (io\<lparr>kernel := k\<rparr>) = Some (s1, io1) \<Longrightarrow> Q got s1 io1 r \<Longrightarrow> Q got s io r"
    and data: "\<And>got s io k d s1 r. sys_read P (kernel io) fd kBufferSize = (Some d, k) \<Longrightarrow> d \<noteq> [] \<Longrightarrow>
      on_data_from_fd P d (s\<lparr>recv_bytes := recv_bytes s + int (length d)\<rparr>) (io\<lparr>kernel := k\<rparr>) = Some s1 \<Longrightarrow>
      (target \<le> got + int (length d) \<Longrightarrow> r = (got + int (length d), s1, io\<lparr>kernel := k\<rparr>)) \<Longrightarrow>
      (\<not> target \<le> got + int (length d) \<Longrightarrow> Q (got + int (length d)) s1 (io\<lparr>kernel := k\<rparr>) r) \<Longrightarrow>
      Q got s io r"
  shows "Q got s io r"
proof -
  have "P = P \<and> i = i \<and> fd = fd \<and> target = target \<longrightarrow> Q got s io r"
  proof (rule server_read_loop.raw_induct [where Pa = "\<lambda>((((((P', i'), fd'), target'), got), s), io) r.
      P' = P \<and> i' = i \<and> fd' = fd \<and> target' = target \<longrightarrow> Q got s io r", OF _ run, simplified prod.case],
      intro impI, elim conjE)
    fix loop P' i' fd' target' got s io r
    assume IH: "\<And>P' i' fd' target' got s io r. loop P' i' fd' target' got s io = Some r \<Longrightarrow>
        P' = P \<and> i' = i \<and> fd' = fd \<and> target' = target \<longrightarrow> Q got s io r"
      and body: "(case sys_read P' (kernel io) fd' kBufferSize of
        (None, k) \<Rightarrow> Some (got, s, io\<lparr>kernel := k\<rparr>)
      | (Some d, k) \<Rightarrow>
          if d = [] then
            Option.bind (close_fd P' (server_class i') s (io\<lparr>kernel := k\<rparr>))
              (\<lambda>(s1, io1). loop P' i' fd' target' got s1 io1)
          else
            Option.bind (on_data_from_fd P' d (s\<lparr>recv_bytes := recv_bytes s + int (length d)\<rparr>) (io\<lparr>kernel := k\<rparr>))
              (\<lambda>s1. if target' \<le> got + int (length d)
                    then Some (got + int (length d), s1, io\<lparr>kernel := k\<rparr>)
                    else loop P' i' fd' target' (got + int (length d)) s1 (io\<lparr>kernel := k\<rparr>))) = Some r"
      and eq: "P' = P" "i' = i" "fd' = fd" "target' = target"
    obtain d k where read: "sys_read P (kernel io) fd kBufferSize = (d, k)"
      by (cases "sys_read P (kernel io) fd kBufferSize")
    note body = body [unfolded eq read prod.case]
    consider "d = None" | "d = Some []" | bytes where "d = Some bytes" "bytes \<noteq> []" by (cases d) auto
    then show "Q got s io r"
    proof cases
      case 1
      then show ?thesis using body block [of io k got s] read by simp
    next
      case 2
      then obtain s1 io1 where "close_fd P (server_class i) s (io\<lparr>kernel := k\<rparr>) = Some (s1, io1)"
          "loop P i fd target got s1 io1 = Some r"
        using body by (auto simp: Option.bind_eq_Some_conv split: if_splits)
      then show ?thesis using eof [of io k s s1 io1 got r] IH [of P i fd target got s1 io1 r] read 2 by simp
    next
      case 3
      then obtain s1 where s1: "on_data_from_fd P bytes (s\<lparr>recv_bytes := recv_bytes s + int (length bytes)\<rparr>)
          (io\<lparr>kernel := k\<rparr>) = Some s1"
        and rest: "(if target \<le> got + int (length bytes) then Some (got + int (length bytes), s1, io\<lparr>kernel := k\<rparr>)
          else loop P i fd target (got + int (length bytes)) s1 (io\<lparr>kernel := k\<rparr>)) = Some r"
        using body by (auto simp: Option.bind_eq_Some_conv split del: if_split)
      have read': "sys_read P (kernel io) fd kBufferSize = (Some bytes, k)" using read 3(1) by simp
      show ?thesis
      proof (rule data [OF read' 3(2) s1])
        show "r = (got + int (length bytes), s1, io\<lparr>kernel := k\<rparr>)" if "target \<le> got + int (length bytes)"
          using rest that by simp
        show "Q (got + int (length bytes)) s1 (io\<lparr>kernel := k\<rparr>) r" if "\<not> target \<le> got + int (length bytes)"
          using IH rest that by simp
      qed
    qed
  qed
  then show ?thesis by simp
qed

section \<open>What the kernel has to read\<close>

text \<open>
  \<open>reads P fd n k ds eof k'\<close>: reading \<open>n\<close> bytes at a time from \<open>fd\<close> gives the pieces \<open>ds\<close>,
  then the end of the stream (\<open>eof\<close>) or nothing for now.
\<close>

inductive reads :: "'k platform \<Rightarrow> int \<Rightarrow> nat \<Rightarrow> 'k \<Rightarrow> byte list list \<Rightarrow> bool \<Rightarrow> 'k \<Rightarrow> bool" for P fd n where
  reads_block: "sys_read P k fd n = (None, k') \<Longrightarrow> reads P fd n k [] False k'"
| reads_eof: "sys_read P k fd n = (Some [], k') \<Longrightarrow> reads P fd n k [] True k'"
| reads_data: "sys_read P k fd n = (Some d, k1) \<Longrightarrow> d \<noteq> [] \<Longrightarrow> reads P fd n k1 ds eof k' \<Longrightarrow>
    reads P fd n k (d # ds) eof k'"

inductive_cases reads_Nil [elim!]: "reads P fd n k [] eof k'"

inductive_cases reads_Cons [elim!]: "reads P fd n k (d # ds) eof k'"

text \<open>POSIX: reading from a closed descriptor fails.\<close>

definition closed_fails :: "'k platform \<Rightarrow> bool" where
  "closed_fails P \<longleftrightarrow> (\<forall>k fd n. fst (sys_read P (sys_close P k fd) fd n) = None)"

section \<open>The loop of a connection\<close>

definition conn_collect :: "tcp_connection \<Rightarrow> byte list list \<Rightarrow> tcp_connection" where
  "conn_collect c ds = c\<lparr>recv_bytes := recv_bytes c + int (length (concat ds)), read_buffer := read_buffer c @ concat ds\<rparr>"

lemma conn_collect_Cons:
  "conn_collect (c\<lparr>recv_bytes := recv_bytes c + int (length d), read_buffer := read_buffer c @ d\<rparr>) ds =
    conn_collect c (d # ds)"
  by (simp add: conn_collect_def add.assoc)

lemma kernel_twice: "io\<lparr>kernel := a, kernel := b\<rparr> = io\<lparr>kernel := b\<rparr>"
  by simp

lemma conn_collect_Nil: "conn_collect c [] = c"
  by (simp add: conn_collect_def)

lemma conn_read_loop_block:
  "reads P fd (kBufferSize + 500) k ds eof k' \<Longrightarrow> \<not> eof \<Longrightarrow> kernel io = k \<Longrightarrow>
    conn_read_loop P j fd c u io = Some (conn_collect c ds, u \<or> ds \<noteq> [], io\<lparr>kernel := k'\<rparr>)"
proof (induction arbitrary: c u io rule: reads.induct)
  case (reads_block k k')
  then show ?case by (subst conn_read_loop.simps) (simp add: conn_collect_Nil)
next
  case (reads_data k d k1 ds eof k')
  have "kernel (io\<lparr>kernel := k1\<rparr>) = k1" by simp
  from reads_data.IH [OF reads_data.prems(1) this, of
      "c\<lparr>recv_bytes := recv_bytes c + int (length d), read_buffer := read_buffer c @ d\<rparr>" True,
      unfolded conn_collect_Cons]
  show ?case
    using reads_data.hyps(1,2) reads_data.prems(2)
    by (subst conn_read_loop.simps) (simp only: prod.case option.case if_False simp_thms list.distinct kernel_twice)
qed simp

lemma conn_read_loop_eof:
  "reads P fd (kBufferSize + 500) k ds eof k' \<Longrightarrow> eof \<Longrightarrow> kernel io = k \<Longrightarrow>
    conn_read_loop P j fd c u io = Option.bind (close_fd P (connection_class j) (conn_collect c ds) (io\<lparr>kernel := k'\<rparr>))
      (\<lambda>(c1, io1). Option.bind (fatal_unless (write_buffer c1 = []))
        (\<lambda>_. conn_read_loop P j fd c1 (u \<or> ds \<noteq> []) io1))"
proof (induction arbitrary: c u io rule: reads.induct)
  case (reads_eof k k')
  then show ?case by (subst conn_read_loop.simps) (simp add: conn_collect_Nil)
next
  case (reads_data k d k1 ds eof k')
  have "kernel (io\<lparr>kernel := k1\<rparr>) = k1" by simp
  from reads_data.IH [OF reads_data.prems(1) this, of
      "c\<lparr>recv_bytes := recv_bytes c + int (length d), read_buffer := read_buffer c @ d\<rparr>" True,
      unfolded conn_collect_Cons]
  show ?case
    using reads_data.hyps(1,2) reads_data.prems(2)
    by (subst conn_read_loop.simps) (simp only: prod.case option.case if_False simp_thms list.distinct kernel_twice)
qed simp

lemma conn_collect_fields [simp]:
  "sock_fd (conn_collect c ds) = sock_fd c" "write_buffer (conn_collect c ds) = write_buffer c"
  "read_buffer (conn_collect c ds) = read_buffer c @ concat ds"
  by (simp_all add: conn_collect_def)

lemma close_fd_kernel:
  assumes "close_fd P (connection_class j) c io = Some (c', io')" "0 < sock_fd c"
  shows "kernel io' = sys_close P (kernel io) (sock_fd c)"
  using assms by (auto simp: close_fd_def check_to_delete_self_def connection_class_def base_delete_self_def
      split: if_splits)

text \<open>At the end of the stream the loop closes the descriptor and returns, unless bytes wait to be written.\<close>

lemma conn_read_loop_end:
  assumes reads: "reads P fd (kBufferSize + 500) (kernel io) ds True k'" and fd: "sock_fd c = fd" "0 < fd"
    and closed: "closed_fails P"
  shows "write_buffer c \<noteq> [] \<Longrightarrow> conn_read_loop P j fd c u io = None"
    and "write_buffer c = [] \<Longrightarrow> \<exists>c' io'. conn_read_loop P j fd c u io = Some (c', u \<or> ds \<noteq> [], io') \<and>
      read_buffer c' = read_buffer c @ concat ds \<and> sock_fd c' = - 1 \<and> has_status c' FD_CLOSED \<and>
      has_status c' ENTITY_WAIT_CLOSE"
proof -
  obtain c1 io1 where close: "close_fd P (connection_class j) (conn_collect c ds) (io\<lparr>kernel := k'\<rparr>) = Some (c1, io1)"
    using connection_close_fd by blast
  note F = connection.close_fd_fields(1-3) [OF close]
  have kern: "kernel io1 = sys_close P k' fd" using close_fd_kernel [OF close] fd by simp
  obtain k2 where "sys_read P (kernel io1) fd (kBufferSize + 500) = (None, k2)"
    using closed unfolding kern closed_fails_def by (metis prod.collapse)
  then have last: "conn_read_loop P j fd c1 (u \<or> ds \<noteq> []) io1 = Some (c1, u \<or> ds \<noteq> [], io1\<lparr>kernel := k2\<rparr>)"
    by (subst conn_read_loop.simps) simp
  note run = conn_read_loop_eof [OF reads _ refl, of j c u, unfolded close Option.bind.simps prod.case]
  show "conn_read_loop P j fd c u io = None" if "write_buffer c \<noteq> []"
    using run F(1) that by simp
  show "\<exists>c' io'. conn_read_loop P j fd c u io = Some (c', u \<or> ds \<noteq> [], io') \<and>
      read_buffer c' = read_buffer c @ concat ds \<and> sock_fd c' = - 1 \<and> has_status c' FD_CLOSED \<and>
      has_status c' ENTITY_WAIT_CLOSE" if "write_buffer c = []"
    using run F that fd last by simp
qed

section \<open>The loop of a server\<close>

lemma on_data_from_fd_fields:
  "\<exists>s'. on_data_from_fd P d s io = Some s' \<and> read_buffer s' = read_buffer s @ d \<and> sock_fd s' = sock_fd s \<and>
    io_status s' = io_status s \<and> destroyed s' = destroyed s \<and> write_buffer s' = write_buffer s \<and>
    write_offset s' = write_offset s \<and> ready_list s' = ready_list s"
proof -
  obtain al where "create_health_alarm P s io = Some (s\<lparr>health_alarm := Some al\<rparr>)"
    using create_health_alarm_fields by blast
  then show ?thesis by (simp add: on_data_from_fd_def)
qed

text \<open>Every run that returns has appended what it counts.\<close>

lemma server_read_loop_collects:
  assumes "server_read_loop P i fd target got s io = Some r"
  shows "\<exists>d. read_buffer (fst (snd r)) = read_buffer s @ d \<and> fst r = got + int (length d)"
  using assms
proof (induction rule: server_read_loop_induct)
  case (block got s io k)
  show ?case by simp
next
  case (eof got s io k s1 io1 r)
  then show ?case using server.close_fd_fields(2) [OF eof(2)] by simp
next
  case (data got s io k d s1 r)
  have rb: "read_buffer s1 = read_buffer s @ d"
    using on_data_from_fd_fields [of P d "s\<lparr>recv_bytes := recv_bytes s + int (length d)\<rparr>" "io\<lparr>kernel := k\<rparr>"] data(3)
    by auto
  show ?case
  proof (cases "target \<le> got + int (length d)")
    case True
    then show ?thesis using data(4) rb by simp
  next
    case False
    then obtain e where "read_buffer (fst (snd r)) = read_buffer s1 @ e" "fst r = got + int (length d) + int (length e)"
      using data(5) by blast
    then show ?thesis using rb by (intro exI [of _ "d @ e"]) simp
  qed
qed

text \<open>With finitely much to read the loop returns, at the target or when nothing is left.\<close>

lemma server_read_loop_returns:
  assumes posix: "posix P"
  shows "reads P fd kBufferSize k ds eof k' \<Longrightarrow> \<not> eof \<Longrightarrow> kernel io = k \<Longrightarrow> got \<le> max 0 (target - 1) \<Longrightarrow>
    \<exists>m s' k2. server_read_loop P i fd target got s io =
        Some (got + int (length (concat (take m ds))), s', io\<lparr>kernel := k2\<rparr>) \<and>
      read_buffer s' = read_buffer s @ concat (take m ds) \<and> sock_fd s' = sock_fd s \<and> write_offset s' = write_offset s \<and>
      got + int (length (concat (take m ds))) \<le> max 0 (target - 1) + int kBufferSize \<and>
      (length ds \<le> m \<or> target \<le> got + int (length (concat (take m ds))))"
proof (induction arbitrary: got s io rule: reads.induct)
  case (reads_block k k')
  then show ?case
    by (intro exI [of _ 0] exI [of _ s] exI [of _ k'], subst server_read_loop.simps) simp
next
  case (reads_data k d k1 ds eof k')
  let ?io = "io\<lparr>kernel := k1\<rparr>"
  have d: "length d \<le> kBufferSize" using posix reads_data.hyps(1) unfolding posix_def by (metis fst_conv)
  obtain s1 where s1: "on_data_from_fd P d (s\<lparr>recv_bytes := recv_bytes s + int (length d)\<rparr>) ?io = Some s1"
      "read_buffer s1 = read_buffer s @ d" "sock_fd s1 = sock_fd s" "write_offset s1 = write_offset s"
    using on_data_from_fd_fields [of P d "s\<lparr>recv_bytes := recv_bytes s + int (length d)\<rparr>" ?io] by auto
  have run: "server_read_loop P i fd target got s io =
      (if target \<le> got + int (length d) then Some (got + int (length d), s1, ?io)
       else server_read_loop P i fd target (got + int (length d)) s1 ?io)"
    using reads_data.hyps(1,2) reads_data.prems(2) s1(1) by (subst server_read_loop.simps) simp
  show ?case
  proof (cases "target \<le> got + int (length d)")
    case True
    then show ?thesis
      using run s1 reads_data.prems(3) d by (intro exI [of _ 1] exI [of _ s1] exI [of _ k1]) auto
  next
    case False
    have "kernel ?io = k1" "got + int (length d) \<le> max 0 (target - 1)" using False by simp_all
    from reads_data.IH [OF reads_data.prems(1) this, of s1]
    obtain m s2 k2 where "server_read_loop P i fd target (got + int (length d)) s1 ?io =
          Some (got + int (length d) + int (length (concat (take m ds))), s2, ?io\<lparr>kernel := k2\<rparr>)"
        "read_buffer s2 = read_buffer s1 @ concat (take m ds)" "sock_fd s2 = sock_fd s1"
        "write_offset s2 = write_offset s1"
        "got + int (length d) + int (length (concat (take m ds))) \<le> max 0 (target - 1) + int kBufferSize"
        "length ds \<le> m \<or> target \<le> got + int (length d) + int (length (concat (take m ds)))"
      by blast
    then show ?thesis
      using run False s1
      by (intro exI [of _ "Suc m"] exI [of _ s2] exI [of _ k2]) (auto simp: add.assoc)
  qed
qed simp

end
