(* ===== verification/Proxy_Safety.thy ===== *)
theory Proxy_Safety
  imports Proxy_World Read_Loops
begin

text \<open>
  Life and death of the objects of a proxy.  In every world that events can reach, the
  deletion of an object has been posted at most once and only after its descriptor was
  closed, and exactly the objects that are marked as destroyed are waiting for it; so running
  the posted tasks always succeeds and no object is deleted twice.
\<close>

section \<open>One socket\<close>

definition sock_inv :: "'a socket_scheme \<Rightarrow> bool" where
  "sock_inv s \<longleftrightarrow> (has_status s FD_CLOSED \<longrightarrow> sock_fd s = - 1) \<and> (destroyed s \<longrightarrow> sock_fd s \<le> 0)"

text \<open>A step of one object keeps its invariant and posts its deletion when it destroys it.\<close>

definition life_step ::
  "object \<Rightarrow> 'a socket_scheme \<Rightarrow> 'k io \<Rightarrow> 'a socket_scheme \<Rightarrow> 'k io \<Rightarrow> bool" where
  "life_step ob s io s' io' \<longleftrightarrow> (sock_inv s \<longrightarrow> sock_inv s' \<and>
     (destroyed s' = destroyed s \<and> posted io' = posted io \<or>
      \<not> destroyed s \<and> destroyed s' \<and> posted io' = posted io @ [ob]))"

lemma life_step_trans:
  "life_step ob s io s1 io1 \<Longrightarrow> life_step ob s1 io1 s2 io2 \<Longrightarrow> life_step ob s io s2 io2"
  unfolding life_step_def by metis

text \<open>Steps that touch neither the status nor the descriptor nor the task queue.\<close>

lemma life_step_quiet:
  assumes "io_status s' = io_status s" "sock_fd s' = sock_fd s" "destroyed s' = destroyed s" "posted io' = posted io"
  shows "life_step ob s io s' io'"
  using assms by (simp add: life_step_def sock_inv_def has_status_def)

lemma life_step_raise:
  assumes "io_status s' = io_status s OR m" "m AND FD_CLOSED = 0" "sock_fd s' = sock_fd s"
    "destroyed s' = destroyed s" "posted io' = posted io"
  shows "life_step ob s io s' io'"
proof -
  have "(io_status s OR m) AND FD_CLOSED = io_status s AND FD_CLOSED"
    using assms(2) by (simp add: bit.conj_disj_distrib2)
  then show ?thesis using assms by (simp add: life_step_def sock_inv_def has_status_def)
qed

lemma raise_flags:
  "FD_WAIT_CLOSE_IF_ENTITY_CLOSED AND FD_CLOSED = 0" "ENTITY_CLOSED AND FD_CLOSED = 0"
  by (simp_all add: FD_WAIT_CLOSE_IF_ENTITY_CLOSED_def FD_WAIT_CLOSE_def ENTITY_CLOSED_def FD_CLOSED_def)

context socket_virtual
begin

lemma delete_life:
  assumes "delete_self C s io = Some (s', io')" "sock_fd s \<le> 0"
  shows "life_step (this_object C) s io s' io'"
  using delete_law [OF assms(1)] delete_fields [OF assms(1)] assms(2)
  by (cases "destroyed s") (simp_all add: life_step_def sock_inv_def has_status_def)

lemma check_to_delete_life:
  assumes "check_to_delete_self C s io = Some (s', io')"
  shows "life_step (this_object C) s io s' io'"
proof (cases "has_status s FD_CLOSED \<and> sock_inv s")
  case True
  then have "sock_fd s \<le> 0" by (simp add: sock_inv_def)
  then show ?thesis
    using assms delete_life [of s io s' io'] by (auto simp: check_to_delete_self_def life_step_def split: if_splits)
next
  case False
  then show ?thesis using assms by (auto simp: check_to_delete_self_def life_step_def split: if_splits)
qed

lemma close_fd_life:
  assumes "close_fd P C s io = Some (s', io')"
  shows "life_step (this_object C) s io s' io' \<and> sock_fd s' \<le> 0"
proof (cases "0 < sock_fd s")
  case True
  define t where "t = (raise_status ENTITY_WAIT_CLOSE_IF_FD_CLOSED s)\<lparr>sock_fd := - 1\<rparr>"
  define o1 where "o1 = log_event (Close_Fd (sock_fd s))
      ((log_event (Unregister_Fd (sock_fd s)) io)\<lparr>kernel := sys_close P (kernel io) (sock_fd s)\<rparr>)"
  have run: "check_to_delete_self C t o1 = Some (s', io')"
    using assms True by (simp add: close_fd_def t_def o1_def)
  have t: "sock_fd t = - 1" "destroyed t = destroyed s" "posted o1 = posted io" by (simp_all add: t_def o1_def)
  then have "life_step (this_object C) s io t o1" by (simp add: life_step_def sock_inv_def)
  then show ?thesis
    using life_step_trans check_to_delete_life [OF run] check_to_delete_self_fields(1) [OF run] t(1) by fastforce
next
  case False
  then have run: "check_to_delete_self C s io = Some (s', io')" using assms by (simp add: close_fd_def)
  then show ?thesis using check_to_delete_life check_to_delete_self_fields(1) False by fastforce
qed

lemma check_close_fd_life:
  assumes "check_close_fd P C s io = Some (s', io')"
  shows "life_step (this_object C) s io s' io'"
  using assms close_fd_life life_step_quiet [of s s io io]
  by (auto simp: check_close_fd_def split: if_splits)

lemma flush_buffer_life:
  assumes "posix P" "flush_buffer P C s io = (s', io')"
  shows "life_step ob s io s' io'"
  using flush_buffer_conserves [OF assms] by (intro life_step_quiet)

lemma on_write_event_life:
  assumes posix: "posix P" and run: "on_write_event P C s io = Some (s', io')"
  shows "life_step (this_object C) s io s' io'"
proof -
  obtain t o1 where fb: "flush_buffer P C s io = (t, o1)" by (cases "flush_buffer P C s io") auto
  define o2 where "o2 = log_event (Modify_Callback (sock_fd t)
      (if write_buffer t \<noteq> [] then EPOLLET OR EPOLLIN OR EPOLLOUT OR EPOLLRDHUP OR EPOLLERR
       else EPOLLET OR EPOLLIN OR EPOLLRDHUP OR EPOLLERR)) o1"
  have run': "check_close_fd P C t o2 = Some (s', io')" using run fb by (simp add: on_write_event_def o2_def)
  have "life_step (this_object C) t o1 t o2" by (rule life_step_quiet) (simp_all add: o2_def)
  then show ?thesis
    using life_step_trans flush_buffer_life [OF posix fb] check_close_fd_life [OF run'] by blast
qed

lemma close_then_delete_life:
  assumes "close_fd P C s io = Some (s1, io1)" "delete_self C s1 io1 = Some (s', io')"
  shows "life_step (this_object C) s io s' io'"
  using close_fd_life [OF assms(1)] delete_life [OF assms(2)] life_step_trans by blast

end

lemma this_object_simps [simp]:
  "this_object (connection_class j) = Connection j" "this_object (server_class i) = Server i"
  by (simp_all add: connection_class_def server_class_def)

lemmas conn_life = connection.check_to_delete_life [of j for j, unfolded this_object_simps]
  connection.close_fd_life [of _ j for j, unfolded this_object_simps]
  connection.check_close_fd_life [of _ j for j, unfolded this_object_simps]
  connection.on_write_event_life [of _ j for j, unfolded this_object_simps]
  connection.close_then_delete_life [of _ j for j, unfolded this_object_simps]

lemmas server_life = server.check_to_delete_life [of i for i, unfolded this_object_simps]
  server.close_fd_life [of _ i for i, unfolded this_object_simps]
  server.check_close_fd_life [of _ i for i, unfolded this_object_simps]
  server.on_write_event_life [of _ i for i, unfolded this_object_simps]
  server.close_then_delete_life [of _ i for i, unfolded this_object_simps]

lemma life_step_pre:
  "life_step ob t io s' io' \<Longrightarrow> io_status t = io_status s \<Longrightarrow> sock_fd t = sock_fd s \<Longrightarrow>
    destroyed t = destroyed s \<Longrightarrow> life_step ob s io s' io'"
  using life_step_trans life_step_quiet by blast

lemma life_step_io: "life_step ob s io s' io1 \<Longrightarrow> posted io' = posted io1 \<Longrightarrow> life_step ob s io s' io'"
  by (simp add: life_step_def)

section \<open>The operations of a connection\<close>

lemma append_and_flush_life:
  assumes "posix P" "append_and_flush P j c bytes io = Some (c', io')"
  shows "life_step (Connection j) c io c' io'"
proof -
  define d where "d = c\<lparr>write_buffer := write_buffer c @ bytes\<rparr>"
  have "life_step (Connection j) d io c' io'"
    using assms conn_life(4) [OF assms(1), of j d io c' io'] life_step_quiet [of d d io io]
    by (auto simp: append_and_flush_def d_def [symmetric] Let_def split: if_splits)
  then show ?thesis by (rule life_step_pre) (simp_all add: d_def)
qed

lemma send_data_life:
  "posix P \<Longrightarrow> send_data P j c offset pv io = Some (c', io') \<Longrightarrow> life_step (Connection j) c io c' io'"
  using append_and_flush_life by (auto simp: send_data_def Option.bind_eq_Some_conv split: if_splits)

lemma write_message_life:
  "posix P \<Longrightarrow> write_message P j c type d n io = Some (c', io') \<Longrightarrow> life_step (Connection j) c io c' io'"
  using append_and_flush_life by (auto simp: write_message_def Option.bind_eq_Some_conv)

lemma send_data_with_limit_life:
  "posix P \<Longrightarrow> send_data_with_limit P j offset c pv io = Some (offset', c', io') \<Longrightarrow>
    life_step (Connection j) c io c' io'"
proof (induction P j offset c pv io rule: send_data_with_limit.induct)
  case (1 P j offset c pv io)
  show ?case
  proof (cases "pv = []")
    case True
    then show ?thesis using 1(3) life_step_quiet [of c c io io] by (simp add: send_data_with_limit.simps)
  next
    case False
    let ?n = "min (length pv) kMaxPacketLength"
    obtain c1 io1 where first: "send_data P j c offset (take ?n pv) io = Some (c1, io1)"
      and rest: "send_data_with_limit P j (u64_add offset ?n) c1 (drop ?n pv) io1 = Some (offset', c', io')"
      using 1(3) False by (subst (asm) send_data_with_limit.simps) (auto simp: Let_def Option.bind_eq_Some_conv)
    show ?thesis
      using life_step_trans send_data_life [OF 1(2) first] 1(1) [OF False refl first refl 1(2) rest] by blast
  qed
qed

lemma write_meta_data_life:
  "posix P \<Longrightarrow> write_meta_data P j c io = Some (c', io') \<Longrightarrow> life_step (Connection j) c io c' io'"
  using write_message_life
  by (auto simp: write_meta_data_def Option.bind_eq_Some_conv split: connection_role.splits if_splits)

lemma send_dst_connect_message_life:
  assumes posix: "posix P" and run: "send_dst_connect_message P j c io = Some (c', io')"
  shows "life_step (Connection j) c io c' io'"
proof -
  obtain c1 where c1: "c' = c1\<lparr>conn_role := conn_role c'\<rparr>" "life_step (Connection j) c io c1 io'"
  proof -
    obtain uuid sent where role: "conn_role c = Left_Connection uuid sent"
      using run by (auto simp: send_dst_connect_message_def split: connection_role.splits)
    show thesis
    proof (cases sent)
      case True
      then show thesis
        using run role life_step_quiet [of c c io io]
        by (intro that [of c]) (auto simp: send_dst_connect_message_def)
    next
      case False
      then obtain c2 io2 c1 where w: "write_message P j c PROXY_MESSAGE_ORIGIN_CONNECTED None 0 io = Some (c2, io2)"
          "on_write_event P (connection_class j) c2 io2 = Some (c1, io')" "c' = c1\<lparr>conn_role := Left_Connection uuid True\<rparr>"
        using run role by (auto simp: send_dst_connect_message_def Option.bind_eq_Some_conv)
      show thesis
        using w(3) life_step_trans write_message_life [OF posix w(1)] conn_life(4) [OF posix w(2)]
        by (intro that [of c1]) auto
    qed
  qed
  have "life_step (Connection j) c1 io' c' io'" by (subst c1(1), rule life_step_quiet) simp_all
  then show ?thesis using life_step_trans c1(2) by blast
qed

lemma conn_notify_life:
  assumes posix: "posix P" and run: "conn_notify P j signal c io = Some (c', io')"
  shows "life_step (Connection j) c io c' io'"
proof (cases "signal = PROXY_CLOSE")
  case True
  define d where "d = (raise_status FD_WAIT_CLOSE_IF_ENTITY_CLOSED c)\<lparr>server_ref := None\<rparr>"
  have "check_close_fd P (connection_class j) d io = Some (c', io')"
    using run True by (simp add: conn_notify_def d_def)
  moreover have "life_step (Connection j) c io d io"
    by (rule life_step_raise [where m = FD_WAIT_CLOSE_IF_ENTITY_CLOSED]) (simp_all add: d_def raise_status_eq raise_flags)
  ultimately show ?thesis using conn_life(3) life_step_trans by blast
next
  case False
  then show ?thesis
    using run send_dst_connect_message_life [OF posix] life_step_quiet [of c c io io]
    by (auto simp: conn_notify_def split: if_splits)
qed

lemma conn_read_loop_life:
  assumes "conn_read_loop P j fd c update io = Some r"
  shows "life_step (Connection j) c io (fst r) (snd (snd r))"
  using assms
proof (induction rule: conn_read_loop_induct)
  case (block c u io k)
  show ?case by (rule life_step_quiet) simp_all
next
  case (eof c u io k c1 io1 r)
  have "life_step (Connection j) c io c (io\<lparr>kernel := k\<rparr>)" by (rule life_step_quiet) simp_all
  then show ?case using conn_life(2) [OF eof(2)] eof(4) life_step_trans by blast
next
  case (data c u io k d r)
  let ?c = "c\<lparr>recv_bytes := recv_bytes c + int (length d), read_buffer := read_buffer c @ d\<rparr>"
  have "life_step (Connection j) c io ?c (io\<lparr>kernel := k\<rparr>)" by (rule life_step_quiet) simp_all
  then show ?case using data(3) life_step_trans by blast
qed

lemma conn_alarms_life:
  "on_goodput_alarm P k c = Some c' \<Longrightarrow> life_step (Connection j) c io c' io"
  "on_budget_alarm P k c = Some c' \<Longrightarrow> life_step (Connection j) c io c' io"
  by (rule life_step_quiet;
      auto simp: on_goodput_alarm_def on_budget_alarm_def retarget_def Let_def Option.bind_eq_Some_conv split: if_splits)+

section \<open>The operations of a server\<close>

lemma write_data_to_fd_life:
  assumes "posix P" "write_data_to_fd P i s pv io = (s', io')"
  shows "life_step (Server i) s io s' io'"
proof (cases "sock_fd s < 0")
  case True
  then show ?thesis using assms life_step_quiet [of s s io io] by (simp add: write_data_to_fd_def)
next
  case False
  then have fd: "0 \<le> sock_fd s" by simp
  note W = write_data_to_fd_conserves [OF assms(1) fd assms(2)]
  show ?thesis using W(3,5,6) write_data_to_fd_destroyed [OF assms] by (intro life_step_quiet)
qed

text \<open>A relation that the callbacks of a sequencer's owner keep is kept by the sequencer.\<close>

lemma on_stream_frame_keeps:
  assumes data: "\<And>q h q' h'. on_data_available I q h = Some (q', h') \<Longrightarrow> R h h'"
    and others: "\<And>h. R h (on_fin_read I h)" "\<And>n h. R h (add_bytes_consumed I n h)"
      "\<And>e h. R h (on_unrecoverable_error I e h)"
    and order: "\<And>h. R h h" "\<And>a b c. R a b \<Longrightarrow> R b c \<Longrightarrow> R a c"
    and run: "on_stream_frame I q h fr = Some (q', h')"
  shows "R h h'"
proof -
  have close: "R h h'" if "maybe_close_stream I q h = Some (q', h')" for q h q' h'
    using that data others(1) order
    by (auto simp: maybe_close_stream_def Option.bind_eq_Some_conv split: if_splits)
  have at: "R h h'" if "close_stream_at_offset I q h n = Some (ok, q', h')" for q h n ok q' h'
    using that close others(3) by (auto simp: close_stream_at_offset_def split: if_splits)
  have flush: "R h h'" if "seq_flush_buffered_frames I q h = Some (q', h')" for q h q' h'
    using that close others(2) order(2)
    by (fastforce simp: seq_flush_buffered_frames_def Option.bind_eq_Some_conv split: if_splits)
  have frame: "R h h'" if "on_frame_data I q h p d = Some (q', h')" for q h p d q' h'
    using that flush data others(3) order(1)
    by (auto simp: on_frame_data_def Let_def Option.bind_eq_Some_conv split: if_splits)
  show ?thesis
  proof (cases "fin fr")
    case False
    then show ?thesis using run frame by (auto simp: on_stream_frame_def Let_def split: if_splits)
  next
    case True
    define q0 where "q0 = q\<lparr>num_frames_received := num_frames_received q + 1\<rparr>"
    obtain ok q1 h1 where fin: "close_stream_at_offset I q0 h
          (u64_add (frame_offset fr) (length (frame_data fr))) = Some (ok, q1, h1)"
        and rest: "(if \<not> ok \<or> frame_data fr = [] then Some (q1, h1)
          else on_frame_data I q1 h1 (frame_offset fr) (frame_data fr)) = Some (q', h')"
      using run True unfolding on_stream_frame_def Let_def q0_def [symmetric]
      by (auto simp: Option.bind_eq_Some_conv simp del: split_paired_Ex split: if_split_asm)
    have "R h1 h'" using rest frame order(1) by (auto split: if_splits)
    then show ?thesis using at [OF fin] order(2) by blast
  qed
qed

definition server_life :: "nat \<Rightarrow> tp_server \<times> 'k io \<Rightarrow> tp_server \<times> 'k io \<Rightarrow> bool" where
  "server_life i h h' \<longleftrightarrow> life_step (Server i) (fst h) (snd h) (fst h') (snd h')"

lemma recv_data_life:
  assumes posix: "posix P" and run: "recv_data P i offset pv s io = Some (s', io')"
  shows "life_step (Server i) s io s' io'"
proof (cases "kReserveOffset \<le> offset")
  case False
  then show ?thesis using run life_step_quiet [of s s io io] by (simp add: recv_data_def)
next
  case True
  then obtain q s1 where frame: "on_stream_frame (server_interface P i) (server_seq s) (s, io)
        \<lparr>fin = False, frame_offset = offset - kReserveOffset, frame_data = take (length pv mod 2 ^ 16) pv\<rparr> =
        Some (q, s1, io')" and s': "s' = s1\<lparr>server_seq := q\<rparr>"
    using run by (auto simp: recv_data_def Option.bind_eq_Some_conv)
  have refl: "server_life i h h" for h by (simp add: server_life_def life_step_def)
  have trans: "server_life i a b \<Longrightarrow> server_life i b c \<Longrightarrow> server_life i a c" for a b c
    unfolding server_life_def by (rule life_step_trans)
  have "server_life i (s, io) (s1, io')"
  proof (rule on_stream_frame_keeps [OF _ _ _ _ refl trans frame])
    show "server_life i h h'" if avail: "on_data_available (server_interface P i) q h = Some (q', h')" for q h q' h'
    proof -
      obtain t o1 where h: "h = (t, o1)" by (cases h)
      obtain t' o2 where h': "h' = (t', o2)" by (cases h')
      obtain al where al: "create_health_alarm P t o1 = Some (t\<lparr>health_alarm := Some al\<rparr>)"
        using create_health_alarm_fields by blast
      obtain buffer n where wr: "write_data_to_fd P i (t\<lparr>health_alarm := Some al,
          last_health_time := clock_now P (kernel o1), sequencer_bytes := n\<rparr>) buffer o1 = (t', o2)"
        using avail al by (auto simp: h h' server_interface_def server_on_data_available_def Option.bind_eq_Some_conv)
      show ?thesis
        unfolding server_life_def h h' fst_conv snd_conv
        by (rule life_step_pre [OF write_data_to_fd_life [OF posix wr]]) simp_all
    qed
  qed (simp_all add: server_interface_def quiet_interface_def refl)
  then have "life_step (Server i) s io s1 io'" by (simp add: server_life_def)
  moreover have "life_step (Server i) s1 io' s' io'" unfolding s' by (rule life_step_quiet) simp_all
  ultimately show ?thesis by (rule life_step_trans)
qed

text \<open>What the alarms of a server change is not of the socket.\<close>

definition same_socket :: "'a socket_scheme \<Rightarrow> 'a socket_scheme \<Rightarrow> bool" where
  "same_socket s s' \<longleftrightarrow> io_status s' = io_status s \<and> sock_fd s' = sock_fd s \<and> destroyed s' = destroyed s"

lemma same_socket_life: "same_socket s s' \<Longrightarrow> posted io' = posted io \<Longrightarrow> life_step ob s io s' io'"
  by (simp add: same_socket_def life_step_quiet)

lemma same_socket_refl: "same_socket s s"
  by (simp add: same_socket_def)

lemma update_rate_same: "update_read_budget_rate P cs s = Some s' \<Longrightarrow> same_socket s s'"
  by (auto simp: update_read_budget_rate_def same_socket_def Let_def Option.bind_eq_Some_conv)

lemma create_budget_alarm_same:
  assumes "create_budget_alarm P cs s io = Some s'"
  shows "same_socket s s'"
proof (cases "server_budget_alarm s = None")
  case True
  then obtain s1 al where "update_read_budget_rate P cs s = Some s1" "s' = s1\<lparr>server_budget_alarm := Some al\<rparr>"
    using assms by (auto simp: create_budget_alarm_def Option.bind_eq_Some_conv)
  then show ?thesis using update_rate_same [of P cs s s1] by (simp add: same_socket_def)
next
  case False
  then show ?thesis using assms by (simp add: create_budget_alarm_def same_socket_refl)
qed

lemma rearm_same: "rearm_budget_alarm P k s = Some s' \<Longrightarrow> same_socket s s'"
  by (auto simp: rearm_budget_alarm_def same_socket_def Option.bind_eq_Some_conv)

lemma health_same:
  assumes "on_health_alarm P k s = Some s'"
  shows "same_socket s s'"
proof -
  define s1 where "s1 = (if last_health_time s = 0 then s\<lparr>last_health_time := clock_now P k\<rparr> else s)"
  obtain n al where "s' = s1\<lparr>health_time_out := n, health_alarm := Some al\<rparr>"
    using assms unfolding on_health_alarm_def Let_def s1_def [symmetric]
    by (cases "last_health_time s1 + kHealthInterval \<le> clock_now P k") (auto simp: Option.bind_eq_Some_conv)
  moreover have "same_socket s s1" by (simp add: s1_def same_socket_def)
  ultimately show ?thesis by (simp add: same_socket_def)
qed

lemma refill_same:
  assumes "server_refill P cs k s = Some s'"
  shows "same_socket s s'"
proof -
  obtain s1 b t al where "update_read_budget_rate P cs s = Some s1"
      "s' = s1\<lparr>server_budget := b, server_last_budget_time := t, server_budget_alarm := Some al\<rparr>"
    using assms unfolding server_refill_def Let_def by (fastforce simp: Option.bind_eq_Some_conv)
  then show ?thesis using update_rate_same [of P cs s s1] by (simp add: same_socket_def)
qed

lemma wait_for_close_fd_life:
  assumes "wait_for_close_fd P i s io = Some (s', io')"
  shows "life_step (Server i) s io s' io'"
proof -
  have "life_step (Server i) s io (raise_status FD_WAIT_CLOSE_IF_ENTITY_CLOSED s) io"
    by (rule life_step_raise [where m = FD_WAIT_CLOSE_IF_ENTITY_CLOSED]) (simp_all add: raise_status_eq raise_flags)
  then show ?thesis
    using assms server_life(3) life_step_trans unfolding wait_for_close_fd_def by blast
qed

lemma wait_for_close_fd_pre:
  assumes "wait_for_close_fd P i t io = Some (s', io')" "io_status t = io_status s" "sock_fd t = sock_fd s"
    "destroyed t = destroyed s"
  shows "life_step (Server i) s io s' io'"
  using life_step_pre [OF wait_for_close_fd_life [OF assms(1)] assms(2-4)] .

lemma right_notify_life:
  assumes "right_notify P i from signal s io = Some (s', io')"
  shows "life_step (Server i) s io s' io'"
proof -
  define t where "t = s\<lparr>ready_list := remove1 from (ready_list s)\<rparr>"
  have t: "io_status t = io_status s" "sock_fd t = sock_fd s" "destroyed t = destroyed s" by (simp_all add: t_def)
  show ?thesis
    using assms wait_for_close_fd_pre [of P i t io s' io' s] t life_step_quiet [of t s io io]
      life_step_quiet [of s s io io]
    by (auto simp: notify_eqs(1) t_def [symmetric] Let_def split: if_splits)
qed

lemma left_dst_connected_life:
  assumes "left_dst_connected P cs from s io = Some (s', io')"
  shows "life_step (Server i) s io s' io'"
proof -
  obtain connected waiting origin where role: "server_role s = Left_Server connected waiting origin"
    using assms by (auto simp: notify_eqs(2) split: server_role.splits)
  obtain w' moved where split: "split_connected cs (remove1 from waiting) = Some (w', moved)"
    using assms role by (auto simp: notify_eqs(2) Option.bind_eq_Some_conv)
  define t where "t = s\<lparr>ready_list := (if from \<in> set waiting then ready_list s @ [from] else ready_list s) @ moved,
    server_role := Left_Server True w' origin\<rparr>"
  have quiet: "life_step (Server i) s io t io" by (rule life_step_quiet) (simp_all add: t_def)
  show ?thesis
  proof (cases connected)
    case True
    then show ?thesis using assms role split quiet by (simp add: notify_eqs(2) t_def [symmetric] Let_def)
  next
    case False
    then obtain o1 where "create_budget_alarm P cs t o1 = Some s'" "posted io' = posted io"
      using assms role split
      by (auto simp: notify_eqs(2) t_def [symmetric] Let_def Option.bind_eq_Some_conv)
    then show ?thesis using quiet create_budget_alarm_same same_socket_life life_step_trans by metis
  qed
qed

lemma left_notify_life:
  assumes run: "left_notify P cs i from signal s io = Some (s', io')"
  shows "life_step (Server i) s io s' io'"
proof -
  obtain connected waiting origin where role: "server_role s = Left_Server connected waiting origin"
    using run by (auto simp: notify_eqs(3) split: server_role.splits)
  define t where "t = (\<lambda>ready. s\<lparr>ready_list := ready, server_role := Left_Server connected (remove1 from waiting) origin\<rparr>)"
  have t: "io_status (t r) = io_status s" "sock_fd (t r) = sock_fd s" "destroyed (t r) = destroyed s" for r
    by (simp_all add: t_def)
  have same: "s\<lparr>server_role := Left_Server connected (remove1 from waiting) origin\<rparr> = t (ready_list s)"
    by (simp add: t_def)
  have quiet: "life_step (Server i) s io (t r) io" "life_step (Server i) s io s io" for r
    using t by (simp_all add: life_step_quiet)
  have wait: "wait_for_close_fd P i (t r) io = Some (s', io') \<Longrightarrow> life_step (Server i) s io s' io'" for r
    using wait_for_close_fd_pre t by blast
  note D = notify_eqs(3) role same t_def [symmetric]
  show ?thesis
  proof (cases signal)
    case PROXY_DST_CONNECTED
    then show ?thesis using run left_dst_connected_life by (simp add: notify_eqs(3) role)
  next
    case PROXY_CONNECTED
    define r where "r = (if from \<in> set waiting then ready_list s @ [from] else ready_list s)"
    have step: "(if connected then map_option (\<lambda>s'. (s', io)) (rearm_budget_alarm P (kernel io) (t r))
        else Some (s, io)) = Some (s', io')"
      using run PROXY_CONNECTED unfolding notify_eqs(3) role t_def r_def by simp
    show ?thesis
    proof (cases connected)
      case True
      then have "rearm_budget_alarm P (kernel io) (t r) = Some s'" "io' = io" using step by auto
      then show ?thesis using rearm_same same_socket_life quiet(1) life_step_trans by metis
    next
      case False
      then show ?thesis using step quiet(2) by simp
    qed
  next
    case PROXY_CLOSE
    then show ?thesis using run quiet wait by (auto simp: notify_eqs(3) role t_def Let_def split: if_split_asm)
  qed (use run in \<open>auto simp: notify_eqs(3) role Let_def split: if_split_asm
        elim!: wait_for_close_fd_pre intro!: life_step_quiet\<close>)
qed

lemma server_read_loop_life:
  assumes "server_read_loop P i fd target got s io = Some r"
  shows "life_step (Server i) s io (fst (snd r)) (snd (snd r))"
  using assms
proof (induction rule: server_read_loop_induct)
  case (block got s io k)
  show ?case by (rule life_step_quiet) simp_all
next
  case (eof got s io k s1 io1 r)
  have "life_step (Server i) s io s (io\<lparr>kernel := k\<rparr>)" by (rule life_step_quiet) simp_all
  then show ?case using server_life(2) [OF eof(2)] eof(3) life_step_trans by blast
next
  case (data got s io k d s1 r)
  have "life_step (Server i) s io s1 (io\<lparr>kernel := k\<rparr>)"
    using on_data_from_fd_fields [of P d "s\<lparr>recv_bytes := recv_bytes s + int (length d)\<rparr>" "io\<lparr>kernel := k\<rparr>"] data(3)
    by (intro life_step_quiet) auto
  then show ?case using data(4,5) life_step_trans by (cases "target \<le> got + int (length d)") fastforce+
qed

end
