(* ===== verification/World_Invariant.thy ===== *)
theory World_Invariant
  imports Proxy_Safety
begin

text \<open>
  The invariant of worlds and that every event keeps it: \<open>handle_event_inv\<close>.  Reachable
  worlds are the inductive set of \<open>proxy_step\<close> from an empty world.
\<close>

section \<open>The invariant\<close>

definition world_inv :: "'k world \<Rightarrow> bool" where
  "world_inv w \<longleftrightarrow>
     (\<forall>j c. w_conns w j = Some c \<longrightarrow> sock_inv c \<and> j < next_object w) \<and>
     (\<forall>i s. w_servers w i = Some s \<longrightarrow> sock_inv s \<and> i < next_object w) \<and>
     distinct (posted (w_io w)) \<and>
     (\<forall>j. Connection j \<in> set (posted (w_io w)) \<longleftrightarrow> (\<exists>c. w_conns w j = Some c \<and> destroyed c)) \<and>
     (\<forall>i. Server i \<in> set (posted (w_io w)) \<longleftrightarrow> (\<exists>s. w_servers w i = Some s \<and> destroyed s))"

lemma inv_conn:
  assumes inv: "world_inv w" and c: "w_conns w j = Some c" and step: "life_step (Connection j) c (w_io w) c' io'"
  shows "world_inv (w\<lparr>w_conns := (w_conns w)(j \<mapsto> c'), w_io := io'\<rparr>)"
proof -
  have "sock_inv c" "j < next_object w" using inv c unfolding world_inv_def by blast+
  then have s: "sock_inv c'" "destroyed c' = destroyed c \<and> posted io' = posted (w_io w) \<or>
      \<not> destroyed c \<and> destroyed c' \<and> posted io' = posted (w_io w) @ [Connection j]"
    using step unfolding life_step_def by blast+
  have new: "Connection j \<notin> set (posted (w_io w))" if "\<not> destroyed c"
    using inv c that unfolding world_inv_def by auto
  show ?thesis
    using inv c s new \<open>j < next_object w\<close> unfolding world_inv_def by (elim disjE conjE) auto
qed

lemma inv_server:
  assumes inv: "world_inv w" and s: "w_servers w i = Some s" and step: "life_step (Server i) s (w_io w) s' io'"
  shows "world_inv (w\<lparr>w_servers := (w_servers w)(i \<mapsto> s'), w_io := io'\<rparr>)"
proof -
  have "sock_inv s" "i < next_object w" using inv s unfolding world_inv_def by blast+
  then have d: "sock_inv s'" "destroyed s' = destroyed s \<and> posted io' = posted (w_io w) \<or>
      \<not> destroyed s \<and> destroyed s' \<and> posted io' = posted (w_io w) @ [Server i]"
    using step unfolding life_step_def by blast+
  have new: "Server i \<notin> set (posted (w_io w))" if "\<not> destroyed s"
    using inv s that unfolding world_inv_def by auto
  show ?thesis
    using inv s d new \<open>i < next_object w\<close> unfolding world_inv_def by (elim disjE conjE) auto
qed

lemma inv_io: "world_inv w \<Longrightarrow> posted io' = posted (w_io w) \<Longrightarrow> world_inv (w\<lparr>w_io := io'\<rparr>)"
  by (simp add: world_inv_def)

lemma inv_on_conn:
  assumes "world_inv w" "on_conn j f w = Some w'"
    "\<And>c io c' io'. f c io = Some (c', io') \<Longrightarrow> life_step (Connection j) c io c' io'"
  shows "world_inv w'"
  using assms(2) inv_conn [OF assms(1)] assms(3) by (auto simp: on_conn_def Option.bind_eq_Some_conv)

lemma inv_on_server:
  assumes "world_inv w" "on_server i f w = Some w'"
    "\<And>s io s' io'. f s io = Some (s', io') \<Longrightarrow> life_step (Server i) s io s' io'"
  shows "world_inv w'"
  using assms(2) inv_server [OF assms(1)] assms(3) by (auto simp: on_server_def Option.bind_eq_Some_conv)

lemma inv_each:
  "world_inv w \<Longrightarrow> each f xs w = Some w' \<Longrightarrow>
    (\<And>x w w'. world_inv w \<Longrightarrow> f x w = Some w' \<Longrightarrow> world_inv w') \<Longrightarrow> world_inv w'"
  by (induction xs arbitrary: w) (auto simp: Option.bind_eq_Some_conv)

lemma fresh_object: "world_inv w \<Longrightarrow> w_conns w (next_object w) = None \<and> w_servers w (next_object w) = None"
  unfolding world_inv_def by (metis less_irrefl option.exhaust)

lemma inv_new_conn:
  assumes inv: "world_inv w" and c: "sock_inv c" "\<not> destroyed c"
  shows "world_inv (w\<lparr>w_conns := (w_conns w)(next_object w \<mapsto> c), next_object := next_object w + 1\<rparr>)"
  using inv c fresh_object [OF inv] unfolding world_inv_def by (auto simp: less_Suc_eq)

lemma inv_new_server:
  assumes inv: "world_inv w" and s: "sock_inv s" "\<not> destroyed s"
  shows "world_inv (w\<lparr>w_servers := (w_servers w)(next_object w \<mapsto> s), next_object := next_object w + 1\<rparr>)"
  using inv s fresh_object [OF inv] unfolding world_inv_def by (auto simp: less_Suc_eq)

text \<open>The usual case: a step that does not touch status, descriptor or task queue.\<close>

lemma quiet_conn: "life_step (Connection j) c io (c\<lparr>server_ref := r\<rparr>) io"
  "life_step (Connection j) c io (c\<lparr>conn_role := x\<rparr>) io"
  "life_step (Connection j) c io (c\<lparr>read_buffer := d\<rparr>) io"
  by (rule life_step_quiet; simp)+

lemma quiet_server: "life_step (Server i) s io (s\<lparr>ready_list := l\<rparr>) io"
  "life_step (Server i) s io (s\<lparr>sock_status := x\<rparr>) io"
  "life_step (Server i) s io (s\<lparr>server_role := y\<rparr>) io"
  by (rule life_step_quiet; simp)+

lemma raise_entity_closed: "life_step ob s io (raise_status ENTITY_CLOSED s) io"
  by (rule life_step_raise [where m = ENTITY_CLOSED]) (simp_all add: raise_status_eq raise_flags)

section \<open>Notifications and closing\<close>

lemma server_notify_inv:
  assumes "world_inv w" "server_notify P i from signal w = Some w'"
  shows "world_inv w'"
proof (rule inv_on_server [OF assms(1) assms(2) [unfolded server_notify_def]])
  show "life_step (Server i) s io s' io'"
    if "(if is_Left_Server (server_role s) then left_notify P (w_conns w) i from signal s
      else right_notify P i from signal s) io = Some (s', io')" for s io s' io'
    using that left_notify_life right_notify_life by (cases "is_Left_Server (server_role s)") fastforce+
qed

lemma server_close_entity_inv:
  assumes posix: "posix P" and inv: "world_inv w" and run: "server_close_entity P i w = Some w'"
  shows "world_inv w'"
proof -
  obtain w1 w2 and s :: tp_server where w1: "on_server i (\<lambda>s io. Some (raise_status ENTITY_CLOSED s, io)) w = Some w1"
      and w2: "each (\<lambda>j. on_conn j (conn_notify P j PROXY_CLOSE)) (ready_list s) w1 = Some w2"
      and w': "on_server i (\<lambda>s. check_to_delete_self (server_class i) (s\<lparr>ready_list := []\<rparr>)) w2 = Some w'"
    using run by (auto simp: server_close_entity_def Option.bind_eq_Some_conv)
  have "world_inv w1" using inv_on_server [OF inv w1] raise_entity_closed by auto
  then have "world_inv w2" using inv_each [OF _ w2] inv_on_conn conn_notify_life [OF posix] by blast
  then show ?thesis
    using inv_on_server [OF _ w'] server_life(1) life_step_trans quiet_server(1) by blast
qed

lemma server_check_close_entity_inv:
  "posix P \<Longrightarrow> world_inv w \<Longrightarrow> server_check_close_entity P i w = Some w' \<Longrightarrow> world_inv w'"
  using server_close_entity_inv
  by (auto simp: server_check_close_entity_def Option.bind_eq_Some_conv split: if_splits)

lemma conn_close_entity_inv:
  assumes inv: "world_inv w" and run: "conn_close_entity P j w = Some w'"
  shows "world_inv w'"
proof -
  obtain w1 w2 and c :: tcp_connection where w1: "on_conn j (\<lambda>c io. Some (raise_status ENTITY_CLOSED c, io)) w = Some w1"
      and w2: "(case server_ref c of None \<Rightarrow> Some w1
        | Some i \<Rightarrow> Option.bind (server_notify P i j PROXY_CLOSE w1)
            (on_conn j (\<lambda>c io. Some (c\<lparr>server_ref := None\<rparr>, io)))) = Some w2"
      and w': "on_conn j (check_to_delete_self (connection_class j)) w2 = Some w'"
    using run by (auto simp: conn_close_entity_def Option.bind_eq_Some_conv)
  have "world_inv w1" using inv_on_conn [OF inv w1] raise_entity_closed by auto
  then have "world_inv w2"
  proof (cases "server_ref c")
    case (Some i)
    then obtain w3 where w3: "server_notify P i j PROXY_CLOSE w1 = Some w3"
        "on_conn j (\<lambda>c io. Some (c\<lparr>server_ref := None\<rparr>, io)) w3 = Some w2"
      using w2 by (auto simp: Option.bind_eq_Some_conv)
    then have "world_inv w3" using \<open>world_inv w1\<close> server_notify_inv by blast
    then show ?thesis by (rule inv_on_conn [OF _ w3(2)]) (auto simp: quiet_conn)
  qed (use w2 in simp)
  then show ?thesis using inv_on_conn [OF _ w'] conn_life(1) by blast
qed

lemma conn_check_close_entity_inv:
  "world_inv w \<Longrightarrow> conn_check_close_entity P j w = Some w' \<Longrightarrow> world_inv w'"
  using conn_close_entity_inv
  by (auto simp: conn_check_close_entity_def Option.bind_eq_Some_conv split: if_splits)

section \<open>Sessions\<close>

lemma right_register_inv:
  assumes posix: "posix P" and inv: "world_inv w" and run: "right_register P i from w = Some w'"
  shows "world_inv w'"
proof -
  obtain w1 w2 and s :: tp_server where
      w1: "on_server i (\<lambda>s io. Some (s\<lparr>ready_list := remove1 from (ready_list s) @ [from]\<rparr>, io)) w = Some w1"
    and w2: "(if is_connected s then on_conn from (conn_notify P from PROXY_CONNECTED) w1 else Some w1) = Some w2"
    and w': "on_server i (\<lambda>s io. do {
       s1 \<leftarrow> (if server_budget_alarm s = None then Some s else rearm_budget_alarm P (kernel io) s);
       s2 \<leftarrow> create_budget_alarm P (w_conns w2) s1 io;
       Some (s2, io)
     }) w2 = Some w'"
    using run by (auto simp: right_register_def remove_from_list_eq Option.bind_eq_Some_conv)
  have "world_inv w1" using inv_on_server [OF inv w1] quiet_server(1) by auto
  then have "world_inv w2"
    using w2 inv_on_conn [of w1 "from" "conn_notify P from PROXY_CONNECTED" w2] conn_notify_life [OF posix]
    by (auto split: if_split_asm)
  then show ?thesis
  proof (rule inv_on_server [OF _ w'])
    fix s io s' io'
    assume "do {
       s1 \<leftarrow> (if server_budget_alarm s = None then Some s else rearm_budget_alarm P (kernel io) s);
       s2 \<leftarrow> create_budget_alarm P (w_conns w2) s1 io;
       Some (s2, io)
     } = Some (s', io')"
    then obtain s1 where "(if server_budget_alarm s = None then Some s else rearm_budget_alarm P (kernel io) s) = Some s1"
        "create_budget_alarm P (w_conns w2) s1 io = Some s'" "io' = io"
      by (auto simp: Option.bind_eq_Some_conv)
    then have "same_socket s s1" "same_socket s1 s'" "io' = io"
      using rearm_same same_socket_refl create_budget_alarm_same by (auto split: if_split_asm)
    then show "life_step (Server i) s io s' io'" by (intro same_socket_life) (simp_all add: same_socket_def)
  qed
qed

lemma right_asyn_connect_life:
  assumes run: "right_asyn_connect P i s io = Some (ok, s', io')"
  shows "life_step (Server i) s io s' io'"
proof -
  have give_up: "life_step (Server i) s io s' io'" if "posted o1 = posted io"
      "close_fd P (server_class i) s o1 = Some (s1, o2)" "delete_self (server_class i) s1 o2 = Some (s', io')" for o1 s1 o2
  proof -
    have "life_step (Server i) s io s o1" using that(1) by (intro life_step_quiet) simp_all
    then show ?thesis using server_life(5) [OF that(2,3)] life_step_trans by blast
  qed
  have go: "life_step (Server i) s io (s\<lparr>sock_status := TCP_CONNECTING\<rparr>) o1" if "posted o1 = posted io" for o1 :: "'a io"
    using that by (intro life_step_quiet) simp_all
  obtain reuse k where reuse: "sys_reuse_addr P (kernel io) (sock_fd s) = (reuse, k)" by (cases "sys_reuse_addr P (kernel io) (sock_fd s)")
  obtain result k2 where result: "sys_connect P k (sock_fd s) (right_origin (server_role s)) = (result, k2)"
    by (cases "sys_connect P k (sock_fd s) (right_origin (server_role s))")
  have posted: "posted (io\<lparr>kernel := k\<rparr>) = posted io" "posted ((log_event (Register_Fd (sock_fd s)
        (EPOLLIN OR EPOLLOUT OR EPOLLRDHUP OR EPOLLERR OR EPOLLET)) (io\<lparr>kernel := k\<rparr>))\<lparr>kernel := k2\<rparr>) = posted io"
    by simp_all
  show ?thesis
    using run reuse result go [OF posted(2)] give_up [OF posted(1)] give_up [OF posted(2)]
    by (auto simp: right_asyn_connect_def Let_def Option.bind_eq_Some_conv split: if_split_asm)
qed

lemma server_new_fresh:
  "server_new fd status role = Some s \<Longrightarrow> io_status s = 0 \<and> \<not> destroyed s \<and> sock_fd s = fd \<and> sock_status s = status \<and>
    server_role s = role \<and> ready_list s = [] \<and> server_budget_alarm s = None \<and> read_buffer s = [] \<and> write_buffer s = []"
  by (auto simp: server_new_def Option.bind_eq_Some_conv)

lemma status_zero [simp]: "io_status s = 0 \<Longrightarrow> \<not> has_status s m"
  by (simp add: has_status_def)

lemma open_session_inv:
  fixes w :: "'k world"
  assumes posix: "posix P" and inv: "world_inv w" and run: "open_session P j uuid sid addr fd w = Some w'"
  shows "world_inv w'"
proof -
  define i where "i = next_object w"
  define W :: "'k world \<Rightarrow> tp_server \<Rightarrow> 'k io \<Rightarrow> 'k world" where
    "W w3 s4 io4 = w3\<lparr>w_servers := (w_servers w3)(i \<mapsto> s4), w_io := io4\<rparr>" for w3 s4 io4
  obtain s w2 w3 s3 started s4 io4 where s: "server_new fd TCP_STATUS_MIN (Right_Server uuid sid addr) = Some s"
      and w2: "on_conn j (\<lambda>c io. Some (c\<lparr>server_ref := Some i\<rparr>, io))
        (w\<lparr>w_servers := (w_servers w)(i \<mapsto> s), next_object := i + 1\<rparr>) = Some w2"
      and w3: "right_register P i j w2 = Some w3" and s3: "w_servers w3 i = Some s3"
      and s4: "right_asyn_connect P i s3 (w_io w3) = Some (started, s4, io4)"
      and rest: "(if \<not> started then Option.bind (on_conn j (close_fd P (connection_class j))
            (W w3 s4 io4)) (conn_close_entity P j)
         else Option.bind (register_sink i uuid sid (sessions (w_io (W w3 s4 io4))))
            (\<lambda>m. Some ((W w3 s4 io4)\<lparr>w_io := (w_io (W w3 s4 io4))\<lparr>sessions := m\<rparr>\<rparr>))) = Some w'"
    using run unfolding open_session_def i_def [symmetric] Let_def W_def [symmetric]
    by (auto simp: Option.bind_eq_Some_conv)
  have "world_inv (w\<lparr>w_servers := (w_servers w)(i \<mapsto> s), next_object := i + 1\<rparr>)"
    unfolding i_def using inv server_new_fresh [OF s] by (intro inv_new_server) (simp_all add: sock_inv_def)
  then have "world_inv w2" by (rule inv_on_conn [OF _ w2]) (auto simp: quiet_conn)
  then have "world_inv w3" using right_register_inv [OF posix _ w3] by blast
  then have w4: "world_inv (W w3 s4 io4)"
    using inv_server [OF _ s3 right_asyn_connect_life [OF s4]] unfolding W_def by blast
  show ?thesis
  proof (cases started)
    case True
    then obtain m where "w' = (W w3 s4 io4)\<lparr>w_io := (w_io (W w3 s4 io4))\<lparr>sessions := m\<rparr>\<rparr>"
      using rest by (auto simp: Option.bind_eq_Some_conv)
    then show ?thesis using inv_io [OF w4] by simp
  next
    case False
    then obtain w5 where w5: "on_conn j (close_fd P (connection_class j))
          (W w3 s4 io4) = Some w5" "conn_close_entity P j w5 = Some w'"
      using rest by (auto simp: Option.bind_eq_Some_conv)
    then have "world_inv w5" using inv_on_conn [OF w4 w5(1)] conn_life(2) by blast
    then show ?thesis using conn_close_entity_inv w5(2) by blast
  qed
qed

section \<open>Messages and reading\<close>

lemma left_parse_message_inv:
  fixes w :: "'k world"
  assumes posix: "posix P" and inv: "world_inv w" and run: "left_parse_message P j data w = Some w'"
  shows "world_inv w'"
proof (cases "fst (read_uint8 (reader_new data (length data))) = Some PROXY_MESSAGE_META")
  case False
  then show ?thesis using run inv by (auto simp: left_parse_message_def Let_def split: prod.splits)
next
  case True
  obtain uuid sid addr and c :: tcp_connection where c: "w_conns w j = Some c"
      and rest: "(if left_uuid (conn_role c) \<noteq> 0 then Some w
       else do {
         w1 \<leftarrow> on_conn j (\<lambda>c io. Some (c\<lparr>conn_role := Left_Connection uuid (dst_connect_msg_sent (conn_role c))\<rparr>, io)) w;
         case find_session (sessions (w_io w1)) uuid sid of
           Some i \<Rightarrow> do {
             w2 \<leftarrow> on_conn j (\<lambda>c io. Some (c\<lparr>server_ref := Some i\<rparr>, io)) w1;
             right_register P i j w2
           }
         | None \<Rightarrow>
             let (fd, k) = sys_socket P (kernel (w_io w1));
                 w2 = w1\<lparr>w_io := (w_io w1)\<lparr>kernel := k\<rparr>\<rparr>
             in if fd < 0 then Some w2 else open_session P j uuid sid addr fd w2
       }) = Some w'"
    using run True by (auto simp: left_parse_message_def Option.bind_eq_Some_conv split: prod.splits)
  show ?thesis
  proof (cases "left_uuid (conn_role c) = 0")
    case False
    then show ?thesis using rest inv by simp
  next
    case True
    then obtain w1 where w1: "on_conn j (\<lambda>c io. Some (c\<lparr>conn_role := Left_Connection uuid (dst_connect_msg_sent (conn_role c))\<rparr>, io)) w = Some w1"
        and more: "(case find_session (sessions (w_io w1)) uuid sid of
           Some i \<Rightarrow> Option.bind (on_conn j (\<lambda>c io. Some (c\<lparr>server_ref := Some i\<rparr>, io)) w1) (right_register P i j)
         | None \<Rightarrow>
             let (fd, k) = sys_socket P (kernel (w_io w1));
                 w2 = w1\<lparr>w_io := (w_io w1)\<lparr>kernel := k\<rparr>\<rparr>
             in if fd < 0 then Some w2 else open_session P j uuid sid addr fd w2) = Some w'"
      using rest by (auto simp: Option.bind_eq_Some_conv)
    have i1: "world_inv w1" by (rule inv_on_conn [OF inv w1]) (auto simp: quiet_conn)
    show ?thesis
    proof (cases "find_session (sessions (w_io w1)) uuid sid")
      case None
      obtain fd k where sock: "sys_socket P (kernel (w_io w1)) = (fd, k)" by (cases "sys_socket P (kernel (w_io w1))")
      have "world_inv (w1\<lparr>w_io := (w_io w1)\<lparr>kernel := k\<rparr>\<rparr>)" by (rule inv_io [OF i1]) simp
      then show ?thesis
        using more None sock open_session_inv [OF posix] by (auto simp: Let_def split: if_split_asm)
    next
      case (Some i)
      then obtain w2 where w2: "on_conn j (\<lambda>c io. Some (c\<lparr>server_ref := Some i\<rparr>, io)) w1 = Some w2"
          "right_register P i j w2 = Some w'"
        using more by (auto simp: Option.bind_eq_Some_conv)
      have "world_inv w2" by (rule inv_on_conn [OF i1 w2(1)]) (auto simp: quiet_conn)
      then show ?thesis using right_register_inv [OF posix] w2(2) by blast
    qed
  qed
qed

lemma right_parse_message_inv:
  assumes inv: "world_inv w" and run: "right_parse_message P j data w = Some w'"
  shows "world_inv w'"
proof -
  obtain type where ty: "fst (read_uint8 (reader_new data (length data))) = type" by blast
  consider "type = Some PROXY_MESSAGE_ORIGIN_CONNECTED" | "type = Some PROXY_MESSAGE_ORIGIN_FAIL"
      "PROXY_MESSAGE_ORIGIN_FAIL \<noteq> PROXY_MESSAGE_ORIGIN_CONNECTED"
    | "type \<noteq> Some PROXY_MESSAGE_ORIGIN_CONNECTED" "type \<noteq> Some PROXY_MESSAGE_ORIGIN_FAIL" by metis
  then show ?thesis
  proof cases
    case 1
    then obtain c where c: "w_conns w j = Some c"
        and rest: "(if right_origin_connected (conn_role c) then Some w
            else do {
              w1 \<leftarrow> on_conn j (\<lambda>c io. Some (c\<lparr>conn_role := Right_Connection (right_uuid (conn_role c))
                (right_sid (conn_role c)) (origin_ip (conn_role c)) (origin_port (conn_role c)) True\<rparr>, io)) w;
              case server_ref c of None \<Rightarrow> Some w1 | Some i \<Rightarrow> server_notify P i j PROXY_DST_CONNECTED w1
            }) = Some w'"
      using run ty by (auto simp: right_parse_message_def Option.bind_eq_Some_conv)
    show ?thesis
    proof (cases "right_origin_connected (conn_role c)")
      case True
      then show ?thesis using rest inv by simp
    next
      case False
      then obtain w1 where w1: "on_conn j (\<lambda>c io. Some (c\<lparr>conn_role := Right_Connection (right_uuid (conn_role c))
                (right_sid (conn_role c)) (origin_ip (conn_role c)) (origin_port (conn_role c)) True\<rparr>, io)) w = Some w1"
          "(case server_ref c of None \<Rightarrow> Some w1 | Some i \<Rightarrow> server_notify P i j PROXY_DST_CONNECTED w1) = Some w'"
        using rest by (auto simp: Option.bind_eq_Some_conv)
      have "world_inv w1" by (rule inv_on_conn [OF inv w1(1)]) (auto simp: quiet_conn)
      then show ?thesis using w1(2) server_notify_inv by (auto split: option.splits)
    qed
  next
    case 2
    then obtain w1 where w1: "on_conn j (close_fd P (connection_class j)) w = Some w1" "conn_close_entity P j w1 = Some w'"
      using run ty by (auto simp: right_parse_message_def Option.bind_eq_Some_conv)
    have "world_inv w1" using inv_on_conn [OF inv w1(1)] conn_life(2) by blast
    then show ?thesis using conn_close_entity_inv w1(2) by blast
  next
    case 3
    then show ?thesis using run ty inv by (auto simp: right_parse_message_def split: option.splits)
  qed
qed

lemma handle_frame_inv:
  assumes posix: "posix P" and inv: "world_inv w" and run: "handle_frame P j offset pv w = Some w'"
  shows "world_inv w'"
proof (cases "kReserveOffset \<le> offset")
  case True
  then obtain i where "on_server i (recv_data P i offset pv) w = Some w'"
    using run by (auto simp: handle_frame_def Option.bind_eq_Some_conv)
  then show ?thesis using inv_on_server [OF inv] recv_data_life [OF posix] by blast
next
  case False
  then show ?thesis
    using run inv left_parse_message_inv [OF posix inv] right_parse_message_inv [OF inv]
    by (auto simp: handle_frame_def parse_message_def Option.bind_eq_Some_conv split: if_split_asm)
qed

text \<open>What the handler keeps, the loop of \<open>Deliver\<close> keeps.\<close>

lemma deliver_loop_keeps:
  assumes run: "deliver_loop handle data update w = Some r"
    and step: "\<And>offset pv w w'. I w \<Longrightarrow> handle offset pv w = Some w' \<Longrightarrow> I w'"
    and start: "I w"
  shows "I (snd (snd r))"
proof -
  have "handle = handle \<longrightarrow> I w \<longrightarrow> I (snd (snd r))"
  proof (rule deliver_loop.raw_induct [where P = "\<lambda>h d u w r. h = handle \<longrightarrow> I w \<longrightarrow> I (snd (snd r))", OF _ run],
      intro impI)
    fix loop h d u w r
    assume IH: "\<And>h d u w r. loop h d u w = Some r \<Longrightarrow> h = handle \<longrightarrow> I w \<longrightarrow> I (snd (snd r))"
      and body: "(if d = [] then Some (d, u, w)
          else Option.bind (is_deliverable d) (\<lambda>x. case x of None \<Rightarrow> Some (d, u, w)
            | Some (offset, offset_bytes, len, len_bytes) \<Rightarrow>
                let header_size = offset_bytes + len_bytes; frame_size = header_size + len
                in Option.bind (h offset (take len (drop header_size d)) w) (loop h (drop frame_size d) True))) = Some r"
      and h: "h = handle" and w: "I w"
    show "I (snd (snd r))"
    proof (cases "d = [] \<or> is_deliverable d = Some None")
      case True
      then show ?thesis using body w by (auto split: if_split_asm)
    next
      case False
      then obtain a b c e where x: "is_deliverable d = Some (Some (a, b, c, e))"
        using body by (cases "is_deliverable d") auto
      then obtain w1 where "handle a (take c (drop (b + e) d)) w = Some w1" "loop handle (drop (b + e + c) d) True w1 = Some r"
        using body False h by (auto simp: Let_def Option.bind_eq_Some_conv)
      then show ?thesis using IH step [OF w] by blast
    qed
  qed
  then show ?thesis using start by simp
qed

lemma deliver_inv:
  assumes posix: "posix P" and inv: "world_inv w" and run: "deliver P j w = Some w'"
  shows "world_inv w'"
proof -
  obtain rest update w1 and c :: tcp_connection where
      loop: "deliver_loop (handle_frame P j) (read_buffer c) False w = Some (rest, update, w1)"
    and more: "(if \<not> update then Some w1
       else do {
         w2 \<leftarrow> on_conn j (\<lambda>c io. Some (c\<lparr>read_buffer := rest\<rparr>, io)) w1;
         if rest = [] then conn_check_close_entity P j w2 else Some w2
       }) = Some w'"
    using run by (auto simp: deliver_def Option.bind_eq_Some_conv)
  have i1: "world_inv w1"
    using deliver_loop_keeps [OF loop, of world_inv] handle_frame_inv [OF posix] inv by fastforce
  show ?thesis
  proof (cases update)
    case False
    then show ?thesis using more i1 by simp
  next
    case True
    then obtain w2 where w2: "on_conn j (\<lambda>c io. Some (c\<lparr>read_buffer := rest\<rparr>, io)) w1 = Some w2"
        "(if rest = [] then conn_check_close_entity P j w2 else Some w2) = Some w'"
      using more by (auto simp: Option.bind_eq_Some_conv)
    have "world_inv w2" by (rule inv_on_conn [OF i1 w2(1)]) (auto simp: quiet_conn)
    then show ?thesis using conn_check_close_entity_inv w2(2) by (auto split: if_split_asm)
  qed
qed

lemma conn_on_read_event_inv:
  assumes posix: "posix P" and inv: "world_inv w" and run: "conn_on_read_event P j fd w = Some w'"
  shows "world_inv w'"
proof -
  obtain c c1 update io1 where c: "w_conns w j = Some c"
      and loop: "conn_read_loop P j fd c False (w_io w) = Some (c1, update, io1)"
      and rest: "(if update then deliver P j (w\<lparr>w_conns := (w_conns w)(j \<mapsto> c1), w_io := io1\<rparr>)
        else Some (w\<lparr>w_conns := (w_conns w)(j \<mapsto> c1), w_io := io1\<rparr>)) = Some w'"
    using run by (auto simp: conn_on_read_event_def Let_def Option.bind_eq_Some_conv split: if_split_asm)
  have "world_inv (w\<lparr>w_conns := (w_conns w)(j \<mapsto> c1), w_io := io1\<rparr>)"
    using inv_conn [OF inv c] conn_read_loop_life [OF loop] by simp
  then show ?thesis using rest deliver_inv [OF posix] by (auto split: if_split_asm)
qed

section \<open>Events of a connection\<close>

lemma inv_when:
  "world_inv w \<Longrightarrow> do_when b f w = Some w' \<Longrightarrow> (\<And>w'. f w = Some w' \<Longrightarrow> world_inv w') \<Longrightarrow> world_inv w'"
  by (auto simp: do_when_def split: if_split_asm)

lemma conn_write_inv:
  "posix P \<Longrightarrow> world_inv w \<Longrightarrow> on_conn j (on_write_event P (connection_class j)) w = Some w' \<Longrightarrow> world_inv w'"
  using inv_on_conn conn_life(4) by blast

lemma conn_close_inv:
  "world_inv w \<Longrightarrow> on_conn j (close_fd P (connection_class j)) w = Some w' \<Longrightarrow> world_inv w'"
  using inv_on_conn conn_life(2) by blast

lemma left_conn_on_event_inv:
  assumes posix: "posix P" and inv: "world_inv w" and run: "left_conn_on_event P j fd events w = Some w'"
  shows "world_inv w'"
proof -
  have hang_up: "world_inv w'" if "world_inv w" "left_conn_hang_up P j w = Some w'" for w w'
    using that deliver_inv [OF posix] conn_close_inv conn_check_close_entity_inv
    by (auto simp: left_conn_hang_up_def Option.bind_eq_Some_conv split: if_split_asm) blast
  obtain w1 w2 where w1: "do_when (has_event events EPOLLIN) (conn_on_read_event P j fd) w = Some w1"
      and w2: "do_when (has_event events EPOLLOUT) (on_conn j (on_write_event P (connection_class j))) w1 = Some w2"
      and w3: "do_when (has_event events (EPOLLRDHUP OR EPOLLHUP OR EPOLLERR)) (left_conn_hang_up P j) w2 = Some w'"
    using run by (auto simp: left_conn_on_event_def Option.bind_eq_Some_conv)
  have "world_inv w1" using inv_when [OF inv w1] conn_on_read_event_inv [OF posix inv] by blast
  then have "world_inv w2" using inv_when [OF _ w2] conn_write_inv [OF posix] by blast
  then show ?thesis using inv_when [OF _ w3] hang_up by blast
qed

lemma right_conn_connected_inv:
  assumes posix: "posix P" and inv: "world_inv w" and run: "right_conn_connected P j w = Some w'"
  shows "world_inv w'"
proof -
  obtain w1 and c :: tcp_connection where
      w1: "on_conn j (\<lambda>c. write_meta_data P j (c\<lparr>sock_status := TCP_CONNECTED\<rparr>)) w = Some w1"
    and more: "(case server_ref c of None \<Rightarrow> Some w1 | Some i \<Rightarrow> server_notify P i j PROXY_CONNECTED w1) = Some w'"
    using run by (auto simp: right_conn_connected_def Option.bind_eq_Some_conv)
  have "world_inv w1"
  proof (rule inv_on_conn [OF inv w1])
    show "life_step (Connection j) c io c' io'"
      if "write_meta_data P j (c\<lparr>sock_status := TCP_CONNECTED\<rparr>) io = Some (c', io')" for c io c' io'
      by (rule life_step_pre [OF write_meta_data_life [OF posix that]]) simp_all
  qed
  then show ?thesis using more server_notify_inv by (cases "server_ref c") auto
qed

lemma right_conn_on_event_inv:
  assumes posix: "posix P" and inv: "world_inv w" and run: "right_conn_on_event P j fd events w = Some w'"
  shows "world_inv w'"
proof -
  have hang_up: "world_inv w'" if "world_inv w" "right_conn_hang_up P j w = Some w'" for w w'
    using that conn_close_inv conn_close_entity_inv
    by (auto simp: right_conn_hang_up_def Option.bind_eq_Some_conv split: if_split_asm) blast
  have writable: "world_inv w'" if w: "world_inv w" "right_conn_writable P j w = Some w'" for w w'
  proof -
    obtain w1 and c :: tcp_connection where "do_when (sock_status c = TCP_CONNECTING) (right_conn_connected P j) w = Some w1"
        "on_conn j (on_write_event P (connection_class j)) w1 = Some w'"
      using w(2) by (auto simp: right_conn_writable_def Option.bind_eq_Some_conv)
    then show ?thesis
      using inv_when [OF w(1)] right_conn_connected_inv [OF posix w(1)] conn_write_inv [OF posix] by blast
  qed
  obtain w1 w2 where w1: "do_when (has_event events (EPOLLERR OR EPOLLRDHUP OR EPOLLHUP)) (right_conn_hang_up P j) w = Some w1"
      and w2: "do_when (has_event events EPOLLOUT) (right_conn_writable P j) w1 = Some w2"
      and w3: "do_when (has_event events EPOLLIN) (conn_on_read_event P j fd) w2 = Some w'"
    using run by (auto simp: right_conn_on_event_def Option.bind_eq_Some_conv)
  have "world_inv w1" using inv_when [OF inv w1] hang_up [OF inv] by blast
  then have "world_inv w2" using inv_when [OF _ w2] writable by blast
  then show ?thesis using inv_when [OF _ w3] conn_on_read_event_inv [OF posix] by blast
qed

section \<open>Events of a server\<close>

lemma server_write_inv:
  "posix P \<Longrightarrow> world_inv w \<Longrightarrow> on_server i (on_write_event P (server_class i)) w = Some w' \<Longrightarrow> world_inv w'"
  using inv_on_server server_life(4) by blast

lemma server_close_inv:
  "world_inv w \<Longrightarrow> on_server i (close_fd P (server_class i)) w = Some w' \<Longrightarrow> world_inv w'"
  using inv_on_server server_life(2) by blast

lemma server_on_read_event_inv:
  assumes posix: "posix P" and inv: "world_inv w" and run: "server_on_read_event P i fd w = Some w'"
  shows "world_inv w'"
proof -
  obtain s where s: "w_servers w i = Some s" using run by (auto simp: server_on_read_event_def Option.bind_eq_Some_conv)
  show ?thesis
  proof (cases "budget_remaining (server_budget s) < 0")
    case True
    then show ?thesis using run s inv by (simp add: server_on_read_event_def Let_def)
  next
    case False
    then obtain got s1 io1 where loop: "server_read_loop P i fd (budget_remaining (server_budget s)) 0 s (w_io w) = Some (got, s1, io1)"
        and rest: "server_check_close_entity P i (w\<lparr>w_servers := (w_servers w)(i \<mapsto>
          (if 0 < got then s1\<lparr>server_budget := use_budget (server_budget s1) got\<rparr> else s1)), w_io := io1\<rparr>) = Some w'"
      using run s by (auto simp: server_on_read_event_def Option.bind_eq_Some_conv simp del: split_paired_Ex)
    define b where "b = (if 0 < got then use_budget (server_budget s1) got else server_budget s1)"
    have eq: "(if 0 < got then s1\<lparr>server_budget := use_budget (server_budget s1) got\<rparr> else s1) = s1\<lparr>server_budget := b\<rparr>"
      by (simp add: b_def)
    note rest = rest [unfolded eq]
    have "life_step (Server i) s1 io1 (s1\<lparr>server_budget := b\<rparr>) io1" by (rule life_step_quiet) simp_all
    then have "life_step (Server i) s (w_io w) (s1\<lparr>server_budget := b\<rparr>) io1"
      using server_read_loop_life [OF loop] life_step_trans by fastforce
    then show ?thesis using server_check_close_entity_inv [OF posix inv_server [OF inv s] rest] by blast
  qed
qed

lemma schedule_loop_inv:
  "schedule_loop P b js offset data cs io = Some (offset', cs', io') \<Longrightarrow> posix P \<Longrightarrow>
    world_inv (w\<lparr>w_conns := cs, w_io := io\<rparr>) \<Longrightarrow> world_inv (w\<lparr>w_conns := cs', w_io := io'\<rparr>)"
proof (induction P b js offset data cs io rule: schedule_loop.induct)
  case (2 P b j offset data cs io)
  show ?case
  proof (cases "data = []")
    case False
    then obtain c c' where "cs j = Some c" "send_data_with_limit P j offset c data io = Some (offset', c', io')"
        "cs' = cs(j \<mapsto> c')"
      using 2(1) by (auto simp: Option.bind_eq_Some_conv)
    moreover have eq: "w\<lparr>w_conns := cs', w_io := io'\<rparr> = (w\<lparr>w_conns := cs, w_io := io\<rparr>)\<lparr>w_conns :=
        (w_conns (w\<lparr>w_conns := cs, w_io := io\<rparr>))(j \<mapsto> c'), w_io := io'\<rparr>"
      unfolding \<open>cs' = cs(j \<mapsto> c')\<close> by simp
    moreover have "life_step (Connection j) c io c' io'" using send_data_with_limit_life [OF 2(2)] calculation(2) by blast
    ultimately show ?thesis unfolding eq by (intro inv_conn [OF 2(3), of j c c' io']) simp_all
  qed (use 2 in simp)
next
  case (3 P b j j' js offset data cs io)
  show ?case
  proof (cases "data = []")
    case False
    then obtain c where c: "cs j = Some c" using 3(2) by (auto simp: Option.bind_eq_Some_conv)
    define n where "n = min (max (ratio_share P (length data)
        (bw_to_kbits_per_second (goodput_with_minimum c)) b) kMinPayloadSize) (length data)"
    obtain o1 c1 io1 where first: "send_data_with_limit P j offset c (take n data) io = Some (o1, c1, io1)"
        and rest: "schedule_loop P b (j' # js) o1 (drop n data) (cs(j \<mapsto> c1)) io1 = Some (offset', cs', io')"
      using 3(2) False c by (auto simp: Option.bind_eq_Some_conv n_def Let_def)
    have "world_inv (w\<lparr>w_conns := cs(j \<mapsto> c1), w_io := io1\<rparr>)"
      using inv_conn [OF 3(4), of j c c1 io1] c send_data_with_limit_life [OF 3(3) first] by simp
    from 3(1) [OF False c refl n_def first refl refl rest 3(3) this] show ?thesis .
  qed (use 3 in simp)
qed simp

lemma server_schedule_inv:
  fixes w :: "'k world"
  assumes posix: "posix P" and inv: "world_inv w" and run: "server_schedule P i w = Some w'"
  shows "world_inv w'"
proof -
  obtain s s' cs' io' where s: "w_servers w i = Some s" and sch: "schedule P s (w_conns w) (w_io w) = Some (s', cs', io')"
      and w': "w' = w\<lparr>w_servers := (w_servers w)(i \<mapsto> s'), w_conns := cs', w_io := io'\<rparr>"
    using run by (auto simp: server_schedule_def Option.bind_eq_Some_conv)
  obtain js b where av: "available_connections (w_conns w) (ready_list s) 0 = Some (js, b)"
    using sch by (auto simp: schedule_def Option.bind_eq_Some_conv)
  show ?thesis
  proof (cases "js = []")
    case True
    then have "s' = s" "cs' = w_conns w" "io' = w_io w" using sch av by (auto simp: schedule_def)
    moreover have "(w_servers w)(i \<mapsto> s) = w_servers w" using s by (simp add: fun_upd_idem)
    ultimately show ?thesis using w' inv by simp
  next
    case False
    then obtain offset' where loop: "schedule_loop P (bw_to_kbits_per_second b) js (write_offset s) (read_buffer s)
          (w_conns w) (w_io w) = Some (offset', cs', io')" and s': "s' = s\<lparr>write_offset := offset', read_buffer := []\<rparr>"
      using sch av by (auto simp: schedule_def Option.bind_eq_Some_conv)
    have "world_inv (w\<lparr>w_conns := w_conns w, w_io := w_io w\<rparr>)" using inv by simp
    from schedule_loop_inv [OF loop posix this] have i1: "world_inv (w\<lparr>w_conns := cs', w_io := io'\<rparr>)" .
    have "life_step (Server i) s io' s' io'" unfolding s' by (rule life_step_quiet) simp_all
    moreover have "w' = (w\<lparr>w_conns := cs', w_io := io'\<rparr>)\<lparr>w_servers :=
        (w_servers (w\<lparr>w_conns := cs', w_io := io'\<rparr>))(i \<mapsto> s'), w_io := io'\<rparr>"
      unfolding w' by simp
    ultimately show ?thesis using inv_server [OF i1, of i s s' io'] s by simp
  qed
qed

lemma on_server_quiet:
  assumes "world_inv w" "on_server i (\<lambda>s io. map_option (\<lambda>s'. (s', io)) (f s io)) w = Some w'"
    "\<And>s io s'. f s io = Some s' \<Longrightarrow> same_socket s s'"
  shows "world_inv w'"
  by (rule inv_on_server [OF assms(1,2)]) (auto dest: assms(3) intro: same_socket_life)

lemma on_conn_quiet:
  assumes "world_inv w" "on_conn j (\<lambda>c io. map_option (\<lambda>c'. (c', io)) (f c io)) w = Some w'"
    "\<And>c io c'. f c io = Some c' \<Longrightarrow> life_step (Connection j) c io c' io"
  shows "world_inv w'"
  by (rule inv_on_conn [OF assms(1,2)]) (auto dest: assms(3))

lemma server_on_budget_alarm_inv:
  assumes posix: "posix P" and inv: "world_inv w" and run: "server_on_budget_alarm P i w = Some w'"
  shows "world_inv w'"
proof -
  obtain w1 w2 w3 b1 b2 b3 fd where
      w1: "on_server i (\<lambda>s io. map_option (\<lambda>s'. (s', io)) (server_refill P (w_conns w) (kernel io) s)) w = Some w1"
    and w2: "do_when b1 (server_on_read_event P i fd) w1 = Some w2"
    and w3: "do_when b2 (server_schedule P i) w2 = Some w3"
    and w4: "do_when b3 (server_check_close_entity P i) w3 = Some w'"
    using run unfolding server_on_budget_alarm_def Let_def by (auto simp: Option.bind_eq_Some_conv)
  have "world_inv w1" by (rule on_server_quiet [OF inv w1]) (rule refill_same)
  then have "world_inv w2" using inv_when [OF _ w2] server_on_read_event_inv [OF posix] by blast
  then have "world_inv w3" using inv_when [OF _ w3] server_schedule_inv [OF posix] by blast
  then show ?thesis using inv_when [OF _ w4] server_check_close_entity_inv [OF posix] by blast
qed

lemma right_server_connected_inv:
  assumes posix: "posix P" and inv: "world_inv w" and run: "right_server_connected P i w = Some w'"
  shows "world_inv w'"
proof -
  obtain w1 w2 and s :: tp_server where
      w1: "on_server i (\<lambda>s io. Some (s\<lparr>sock_status := TCP_CONNECTED\<rparr>, io)) w = Some w1"
    and w2: "each (\<lambda>j. on_conn j (conn_notify P j PROXY_CONNECTED)) (ready_list s) w1 = Some w2"
    and w3: "on_server i (\<lambda>s io. map_option (\<lambda>s'. (s', io)) (rearm_budget_alarm P (kernel io) s)) w2 = Some w'"
    using run by (auto simp: right_server_connected_def Option.bind_eq_Some_conv)
  have "world_inv w1" by (rule inv_on_server [OF inv w1]) (auto simp: quiet_server)
  then have "world_inv w2" using inv_each [OF _ w2] inv_on_conn conn_notify_life [OF posix] by blast
  then show ?thesis by (rule on_server_quiet [OF _ w3]) (rule rearm_same)
qed

lemma right_server_on_event_inv:
  assumes posix: "posix P" and inv: "world_inv w" and run: "right_server_on_event P i fd events w = Some w'"
  shows "world_inv w'"
proof -
  have hang_up: "world_inv w'" if "world_inv w" "right_server_hang_up P i w = Some w'" for w w'
    using that server_close_inv server_close_entity_inv [OF posix]
    unfolding right_server_hang_up_def Option.bind_eq_Some_conv by blast
  have writable: "world_inv w'" if w: "world_inv w" "right_server_writable P i w = Some w'" for w w'
  proof -
    obtain w1 and s :: tp_server where "do_when (sock_status s = TCP_CONNECTING) (right_server_connected P i) w = Some w1"
        "on_server i (on_write_event P (server_class i)) w1 = Some w'"
      using w(2) by (auto simp: right_server_writable_def Option.bind_eq_Some_conv)
    then show ?thesis
      using inv_when [OF w(1)] right_server_connected_inv [OF posix w(1)] server_write_inv [OF posix] by blast
  qed
  obtain w1 w2 where w1: "do_when (has_event events EPOLLOUT) (right_server_writable P i) w = Some w1"
      and w2: "do_when (has_event events EPOLLIN) (server_on_read_event P i fd) w1 = Some w2"
      and w3: "do_when (has_event events (EPOLLERR OR EPOLLRDHUP OR EPOLLHUP)) (right_server_hang_up P i) w2 = Some w'"
    using run by (auto simp: right_server_on_event_def Option.bind_eq_Some_conv)
  have "world_inv w1" using inv_when [OF inv w1] writable [OF inv] by blast
  then have "world_inv w2" using inv_when [OF _ w2] server_on_read_event_inv [OF posix] by blast
  then show ?thesis using inv_when [OF _ w3] hang_up by blast
qed

text \<open>\<open>TpServerLeft::OnEvent\<close> would keep the invariant too, if its descriptor were registered.\<close>

lemma left_server_on_event_inv:
  assumes posix: "posix P" and inv: "world_inv w" and run: "left_server_on_event P i fd events w = Some w'"
  shows "world_inv w'"
proof -
  have hang_up: "world_inv w'" if "world_inv w" "left_server_hang_up P i w = Some w'" for w w'
    using that server_close_inv server_check_close_entity_inv [OF posix]
    unfolding left_server_hang_up_def Option.bind_eq_Some_conv by blast
  obtain w1 w2 where w1: "do_when (has_event events (EPOLLRDHUP OR EPOLLHUP)) (left_server_hang_up P i) w = Some w1"
      and w2: "do_when (has_event events EPOLLIN) (server_on_read_event P i fd) w1 = Some w2"
      and w3: "do_when (has_event events EPOLLOUT) (on_server i (on_write_event P (server_class i))) w2 = Some w'"
    using run by (auto simp: left_server_on_event_def Option.bind_eq_Some_conv)
  have "world_inv w1" using inv_when [OF inv w1] hang_up [OF inv] by blast
  then have "world_inv w2" using inv_when [OF _ w2] server_on_read_event_inv [OF posix] by blast
  then show ?thesis using inv_when [OF _ w3] server_write_inv [OF posix] by blast
qed

section \<open>New objects\<close>

lemma connection_new_fresh:
  assumes "connection_new P k fd status server role = Some c"
  shows "io_status c = 0 \<and> \<not> destroyed c \<and> sock_fd c = fd \<and> server_ref c = server \<and> conn_role c = role"
  using assms by (auto simp: connection_new_def Let_def retarget_def Option.bind_eq_Some_conv)

lemma left_conn_create_inv:
  assumes inv: "world_inv w" and run: "left_conn_create P fd w = Some w'"
  shows "world_inv w'"
proof -
  obtain c o1 where c: "connection_new P (kernel (w_io w)) fd TCP_CONNECTED None (Left_Connection 0 False) = Some c"
      and w': "w' = (w\<lparr>w_conns := (w_conns w)(next_object w \<mapsto> c), next_object := next_object w + 1\<rparr>)\<lparr>w_io := o1\<rparr>"
      and o1: "posted o1 = posted (w_io w)"
    using run by (auto simp: left_conn_create_def Option.bind_eq_Some_conv)
  show ?thesis
    unfolding w' using connection_new_fresh [OF c] o1
    by (intro inv_io inv_new_conn [OF inv]) (simp_all add: sock_inv_def)
qed

lemma conn_asyn_connect_life:
  assumes run: "conn_asyn_connect P j src dst c io = Some (ok, c', io')"
  shows "life_step (Connection j) c io c' io'"
proof -
  have give_up: "life_step (Connection j) c io c' io'" if "posted o1 = posted io"
      "close_fd P (connection_class j) c o1 = Some (c1, o2)" "delete_self (connection_class j) c1 o2 = Some (c', io')" for o1 c1 o2
  proof -
    have "life_step (Connection j) c io c o1" using that(1) by (intro life_step_quiet) simp_all
    then show ?thesis using conn_life(5) [OF that(2,3)] life_step_trans by blast
  qed
  have go: "life_step (Connection j) c io (c\<lparr>sock_status := TCP_CONNECTING\<rparr>) o1" if "posted o1 = posted io" for o1 :: "'a io"
    using that by (intro life_step_quiet) simp_all
  obtain reuse k where reuse: "sys_reuse_addr P (kernel io) (sock_fd c) = (reuse, k)" by (cases "sys_reuse_addr P (kernel io) (sock_fd c)")
  obtain bound k1 where bound: "sys_bind P k (sock_fd c) src = (bound, k1)" by (cases "sys_bind P k (sock_fd c) src")
  obtain result k2 where result: "sys_connect P k1 (sock_fd c) dst = (result, k2)" by (cases "sys_connect P k1 (sock_fd c) dst")
  have posted: "posted (io\<lparr>kernel := k\<rparr>) = posted io" "posted (io\<lparr>kernel := k1\<rparr>) = posted io"
    "posted ((log_event (Register_Fd (sock_fd c) (EPOLLIN OR EPOLLOUT OR EPOLLRDHUP OR EPOLLERR OR EPOLLET))
      (io\<lparr>kernel := k1\<rparr>))\<lparr>kernel := k2\<rparr>) = posted io"
    by simp_all
  show ?thesis
    using run reuse bound result go [OF posted(3)] give_up [OF posted(1)] give_up [OF posted(2)] give_up [OF posted(3)]
    by (auto simp: conn_asyn_connect_def Let_def Option.bind_eq_Some_conv split: if_split_asm)
qed

lemma create_connection_inv:
  fixes w :: "'k world"
  assumes inv: "world_inv w" and run: "create_connection P i uuid sid origin pair w = Some w'"
  shows "world_inv w'"
proof -
  obtain fd k where sock: "sys_socket P (kernel (w_io w)) = (fd, k)" by (cases "sys_socket P (kernel (w_io w))")
  define w1 where "w1 = w\<lparr>w_io := (w_io w)\<lparr>kernel := k\<rparr>\<rparr>"
  have i1: "world_inv w1" unfolding w1_def by (rule inv_io [OF inv]) simp
  show ?thesis
  proof (cases "fd < 0")
    case True
    then show ?thesis using run sock i1 by (simp add: create_connection_def w1_def)
  next
    case False
    define j where "j = next_object w1"
    obtain c started c1 io1 where c: "connection_new P k fd TCP_STATUS_MIN (Some i) (Right_Connection uuid sid (fst origin) (snd origin) False) = Some c"
        and con: "conn_asyn_connect P j (fst pair) (snd pair) c (w_io w1) = Some (started, c1, io1)"
        and rest: "(if started then on_server i (\<lambda>s io. case server_role s of
             Left_Server connected waiting a \<Rightarrow> Some (s\<lparr>server_role := Left_Server connected (waiting @ [j]) a\<rparr>, io)
           | Right_Server _ _ _ \<Rightarrow> None) (w1\<lparr>w_conns := (w_conns w1)(j \<mapsto> c1), next_object := j + 1, w_io := io1\<rparr>)
         else Some (w1\<lparr>w_conns := (w_conns w1)(j \<mapsto> c1), next_object := j + 1, w_io := io1\<rparr>)) = Some w'"
      using run False unfolding create_connection_def sock prod.case Let_def w1_def [symmetric] j_def [symmetric]
      by (auto simp: Option.bind_eq_Some_conv)
    define w2 where "w2 = w1\<lparr>w_conns := (w_conns w1)(j \<mapsto> c), next_object := j + 1\<rparr>"
    have i2: "world_inv w2" unfolding w2_def j_def
      using connection_new_fresh [OF c] by (intro inv_new_conn [OF i1]) (simp_all add: sock_inv_def)
    have "w1\<lparr>w_conns := (w_conns w1)(j \<mapsto> c1), next_object := j + 1, w_io := io1\<rparr> =
        w2\<lparr>w_conns := (w_conns w2)(j \<mapsto> c1), w_io := io1\<rparr>"
      by (simp add: w2_def)
    moreover have "world_inv (w2\<lparr>w_conns := (w_conns w2)(j \<mapsto> c1), w_io := io1\<rparr>)"
      using conn_asyn_connect_life [OF con] by (intro inv_conn [OF i2, where c = c]) (simp_all add: w2_def)
    ultimately have i3: "world_inv (w1\<lparr>w_conns := (w_conns w1)(j \<mapsto> c1), next_object := j + 1, w_io := io1\<rparr>)"
      by metis
    show ?thesis
    proof (cases started)
      case True
      then have "on_server i (\<lambda>s io. case server_role s of
             Left_Server connected waiting a \<Rightarrow> Some (s\<lparr>server_role := Left_Server connected (waiting @ [j]) a\<rparr>, io)
           | Right_Server _ _ _ \<Rightarrow> None) (w1\<lparr>w_conns := (w_conns w1)(j \<mapsto> c1), next_object := j + 1, w_io := io1\<rparr>) = Some w'"
        using rest by simp
      then show ?thesis by (rule inv_on_server [OF i3]) (auto simp: quiet_server split: server_role.splits)
    next
      case False
      then show ?thesis using rest i3 by simp
    qed
  qed
qed

lemma left_server_create_inv:
  fixes w :: "'k world"
  assumes posix: "posix P" and inv: "world_inv w" and run: "left_server_create P fd uuid sid pairs w = Some w'"
  shows "world_inv w'"
proof -
  define i where "i = next_object w"
  define o1 where "o1 = log_event (Modify_Callback fd (EPOLLET OR EPOLLRDHUP OR EPOLLERR)) (w_io w)"
  define W where "W = (\<lambda>s. w\<lparr>w_servers := (w_servers w)(i \<mapsto> s), next_object := i + 1, w_io := o1\<rparr>)"
  have W: "world_inv (W s)" if "server_new fd st role = Some s" for s st role
  proof -
    have "world_inv ((w\<lparr>w_servers := (w_servers w)(i \<mapsto> s), next_object := i + 1\<rparr>)\<lparr>w_io := o1\<rparr>)"
      unfolding i_def using server_new_fresh [OF that]
      by (intro inv_io inv_new_server [OF inv]) (simp_all add: sock_inv_def o1_def)
    then show ?thesis by (simp add: W_def)
  qed
  show ?thesis
  proof (cases "sys_original_dst P (kernel o1) fd")
    case None
    then obtain s w2 where s: "server_new fd TCP_STATUS_MIN (Left_Server False [] (0, 0)) = Some s"
        and w2: "on_server i (close_fd P (server_class i)) (W s) = Some w2"
        and w': "on_server i (delete_self (server_class i)) w2 = Some w'"
      using run by (auto simp: left_server_create_def o1_def [symmetric] i_def [symmetric] W_def Let_def
          Option.bind_eq_Some_conv split: if_split_asm)
    obtain t io2 where t: "w_servers (W s) i = Some s" "close_fd P (server_class i) s (w_io (W s)) = Some (t, io2)"
        "w2 = (W s)\<lparr>w_servers := (w_servers (W s))(i \<mapsto> t), w_io := io2\<rparr>"
      using w2 by (auto simp: on_server_def W_def Option.bind_eq_Some_conv)
    have "on_server i (delete_self (server_class i)) w2 = Some w'" by (rule w')
    then obtain t' io3 where t': "delete_self (server_class i) t io2 = Some (t', io3)"
        "w' = w2\<lparr>w_servers := (w_servers w2)(i \<mapsto> t'), w_io := io3\<rparr>"
      by (auto simp: on_server_def t(3) Option.bind_eq_Some_conv)
    have "world_inv ((W s)\<lparr>w_servers := (w_servers (W s))(i \<mapsto> t'), w_io := io3\<rparr>)"
      by (rule inv_server [OF W [OF s] t(1) server_life(5) [OF t(2) t'(1)]])
    then show ?thesis by (simp add: t'(2) t(3))
  next
    case (Some origin)
    then obtain s w2 where s: "server_new fd TCP_CONNECTED (Left_Server False [] origin) = Some s"
        and w2: "each (create_connection P i uuid sid origin) pairs (W s) = Some w2"
        and w': "w' = w2 \<or> (\<exists>w3. on_server i (close_fd P (server_class i)) w2 = Some w3 \<and>
          server_close_entity P i w3 = Some w')"
      using run by (auto simp: left_server_create_def o1_def [symmetric] i_def [symmetric] W_def Let_def
          Option.bind_eq_Some_conv split: if_split_asm)
    have "world_inv w2" using inv_each [OF W [OF s] w2] create_connection_inv by blast
    then show ?thesis using w' server_close_inv server_close_entity_inv [OF posix] by metis
  qed
qed

section \<open>The event loop\<close>

text \<open>The posted deletions: each finds its object, once.\<close>

lemma delete_posted:
  "distinct obs \<Longrightarrow> \<forall>j. Connection j \<in> set obs \<longrightarrow> w_conns w j \<noteq> None \<Longrightarrow>
    \<forall>i. Server i \<in> set obs \<longrightarrow> w_servers w i \<noteq> None \<Longrightarrow>
    each delete_object obs w = Some (w\<lparr>
      w_conns := (\<lambda>j. if Connection j \<in> set obs then None else w_conns w j),
      w_servers := (\<lambda>i. if Server i \<in> set obs then None else w_servers w i)\<rparr>)"
proof (induction obs arbitrary: w)
  case (Cons ob obs)
  show ?case
  proof (cases ob)
    case (Connection j)
    define w1 where "w1 = w\<lparr>w_conns := (w_conns w)(j := None)\<rparr>"
    have del: "delete_object ob w = Some w1" using Cons.prems(2) by (simp add: delete_object_def Connection w1_def)
    have "each delete_object obs w1 = Some (w1\<lparr>
      w_conns := (\<lambda>j. if Connection j \<in> set obs then None else w_conns w1 j),
      w_servers := (\<lambda>i. if Server i \<in> set obs then None else w_servers w1 i)\<rparr>)"
      using Cons.prems unfolding Connection by (intro Cons.IH) (auto simp: w1_def)
    moreover have "(\<lambda>j'. if Connection j' \<in> set obs then None else w_conns w1 j') =
        (\<lambda>j'. if Connection j' \<in> set (ob # obs) then None else w_conns w j')"
      by (rule ext) (simp add: w1_def Connection)
    moreover have "(\<lambda>i. if Server i \<in> set obs then None else w_servers w1 i) =
        (\<lambda>i. if Server i \<in> set (ob # obs) then None else w_servers w i)"
      by (rule ext) (simp add: w1_def Connection)
    ultimately show ?thesis using del by (simp add: w1_def)
  next
    case (Server i)
    define w1 where "w1 = w\<lparr>w_servers := (w_servers w)(i := None)\<rparr>"
    have del: "delete_object ob w = Some w1" using Cons.prems(3) by (simp add: delete_object_def Server w1_def)
    have "each delete_object obs w1 = Some (w1\<lparr>
      w_conns := (\<lambda>j. if Connection j \<in> set obs then None else w_conns w1 j),
      w_servers := (\<lambda>i. if Server i \<in> set obs then None else w_servers w1 i)\<rparr>)"
      using Cons.prems unfolding Server by (intro Cons.IH) (auto simp: w1_def)
    moreover have "(\<lambda>j. if Connection j \<in> set obs then None else w_conns w1 j) =
        (\<lambda>j. if Connection j \<in> set (ob # obs) then None else w_conns w j)"
      by (rule ext) (simp add: w1_def Server)
    moreover have "(\<lambda>i'. if Server i' \<in> set obs then None else w_servers w1 i') =
        (\<lambda>i'. if Server i' \<in> set (ob # obs) then None else w_servers w i')"
      by (rule ext) (simp add: w1_def Server)
    ultimately show ?thesis using del by (simp add: w1_def)
  qed
qed simp

lemma execute_tasks_eq:
  assumes inv: "world_inv w"
  shows "execute_tasks w = Some (w\<lparr>
      w_conns := (\<lambda>j. if Connection j \<in> set (posted (w_io w)) then None else w_conns w j),
      w_servers := (\<lambda>i. if Server i \<in> set (posted (w_io w)) then None else w_servers w i),
      w_io := (w_io w)\<lparr>posted := []\<rparr>\<rparr>)"
proof -
  define v where "v = w\<lparr>w_io := (w_io w)\<lparr>posted := []\<rparr>\<rparr>"
  have v: "w_conns v = w_conns w" "w_servers v = w_servers w" by (simp_all add: v_def)
  have "each delete_object (posted (w_io w)) v = Some (v\<lparr>
      w_conns := (\<lambda>j. if Connection j \<in> set (posted (w_io w)) then None else w_conns v j),
      w_servers := (\<lambda>i. if Server i \<in> set (posted (w_io w)) then None else w_servers v i)\<rparr>)"
    by (rule delete_posted; use inv in \<open>auto simp: world_inv_def v\<close>)
  then show ?thesis unfolding execute_tasks_def v_def [symmetric] v by (simp add: v_def)
qed

lemma execute_tasks_inv:
  assumes inv: "world_inv w" and run: "execute_tasks w = Some w'"
  shows "world_inv w'"
  using run inv unfolding execute_tasks_eq [OF inv] world_inv_def by (auto split: if_split_asm)

lemma handle_event_inv:
  assumes posix: "posix P" and inv: "world_inv w" and run: "handle_event P e w = Some w'"
  shows "world_inv w'"
proof (cases e)
  case (Conn_Event j fd events)
  then show ?thesis
    using run left_conn_on_event_inv [OF posix inv] right_conn_on_event_inv [OF posix inv]
    by (auto simp: Option.bind_eq_Some_conv split: if_split_asm)
next
  case (Server_Event i fd events)
  then show ?thesis
    using run inv right_server_on_event_inv [OF posix inv]
    by (auto simp: Option.bind_eq_Some_conv split: if_split_asm)
next
  case (Goodput_Alarm j)
  show ?thesis
    by (rule on_conn_quiet [OF inv run [unfolded Goodput_Alarm handle_event.simps]])
      (erule life_step_pre [OF conn_alarms_life(1)]; simp)
next
  case (Conn_Budget_Alarm j)
  show ?thesis
    by (rule on_conn_quiet [OF inv run [unfolded Conn_Budget_Alarm handle_event.simps]])
      (erule life_step_pre [OF conn_alarms_life(2)]; simp)
next
  case (Server_Budget_Alarm i)
  then obtain w1 where w1: "on_server i (\<lambda>s io. Some (s\<lparr>server_budget_alarm :=
        map_option alarm_event (server_budget_alarm s)\<rparr>, io)) w = Some w1" "server_on_budget_alarm P i w1 = Some w'"
    using run by (auto simp: Option.bind_eq_Some_conv)
  have "world_inv w1" by (rule inv_on_server [OF inv w1(1)]) (auto intro: life_step_quiet)
  then show ?thesis using server_on_budget_alarm_inv [OF posix] w1(2) by blast
next
  case (Health_Alarm i)
  show ?thesis
    by (rule on_server_quiet [OF inv run [unfolded Health_Alarm handle_event.simps]])
      (drule health_same, simp add: same_socket_def)
next
  case (Conn_Shutdown j)
  then obtain c c1 io1 c2 io2 where c: "w_conns w j = Some c" "close_fd P (connection_class j) c (w_io w) = Some (c1, io1)"
      "delete_self (connection_class j) c1 io1 = Some (c2, io2)" "w' = w\<lparr>w_conns := (w_conns w)(j \<mapsto> c2), w_io := io2\<rparr>"
    using run by (auto simp: on_conn_def Option.bind_eq_Some_conv)
  then show ?thesis using inv_conn [OF inv c(1) conn_life(5) [OF c(2,3)]] by simp
next
  case (Server_Shutdown i)
  then consider "w' = w" | s s1 io1 s2 io2 where "w_servers w i = Some s" "close_fd P (server_class i) s (w_io w) = Some (s1, io1)"
      "delete_self (server_class i) s1 io1 = Some (s2, io2)" "w' = w\<lparr>w_servers := (w_servers w)(i \<mapsto> s2), w_io := io2\<rparr>"
    using run by (auto simp: on_server_def Option.bind_eq_Some_conv split: if_split_asm)
  then show ?thesis
  proof cases
    case (2 s s1 io1 s2 io2)
    then show ?thesis using inv_server [OF inv 2(1) server_life(5) [OF 2(2,3)]] by simp
  qed (simp add: inv)
next
  case (Accept_Left fd)
  then show ?thesis using run left_conn_create_inv [OF inv] by simp
next
  case (Accept_Client fd uuid sid pairs)
  then show ?thesis using run left_server_create_inv [OF posix inv] by simp
next
  case Run_Tasks
  then show ?thesis using run execute_tasks_inv [OF inv] by simp
qed

section \<open>Reachable worlds\<close>

definition empty_world :: "'k \<Rightarrow> 'k world" where
  "empty_world k = \<lparr>w_conns = Map.empty, w_servers = Map.empty, next_object = 0,
     w_io = \<lparr>kernel = k, io_log = [], posted = [], sessions = Map.empty\<rparr>\<rparr>"

text \<open>
  A process handles one event after the other; between two events the kernel may move on.
\<close>

inductive reachable :: "'k platform \<Rightarrow> 'k world \<Rightarrow> bool" for P where
  reach_empty: "reachable P (empty_world k)"
| reach_event: "reachable P w \<Longrightarrow> handle_event P e w = Some w' \<Longrightarrow> reachable P w'"
| reach_kernel: "reachable P w \<Longrightarrow> reachable P (w\<lparr>w_io := (w_io w)\<lparr>kernel := k\<rparr>\<rparr>)"

lemma empty_world_inv: "world_inv (empty_world k)"
  by (simp add: world_inv_def empty_world_def)

lemma reachable_inv: "reachable P w \<Longrightarrow> posix P \<Longrightarrow> world_inv w"
proof (induction rule: reachable.induct)
  case (reach_event w e w')
  then show ?case using handle_event_inv by blast
next
  case (reach_kernel w k)
  then show ?case by (intro inv_io) simp_all
qed (rule empty_world_inv)

end
