(* ===== verification/Proxy_Handshake.thy ===== *)
theory Proxy_Handshake
  imports World_Invariant
begin

text \<open>
  How the two halves of the proxy meet: the metadata message is read as it was written, and the
  session table of \<open>TpServerBackend\<close> as an instance of a table with two-part keys.
\<close>

section \<open>The metadata message\<close>

definition metadata_bytes :: "u64 \<Rightarrow> u64 \<Rightarrow> sock_addr \<Rightarrow> byte list" where
  "metadata_bytes uuid sid addr = varint62_bytes uuid @ varint62_bytes sid @
     be_bytes 4 (unat (fst addr)) @ be_bytes 2 (unat (snd addr))"

lemma length_metadata_bytes: "length (metadata_bytes uuid sid addr) \<le> 22"
  by (simp add: metadata_bytes_def varint62_len_def)

lemma metadata_writer_eq:
  assumes "uuid < 2 ^ 62" "sid < 2 ^ 62"
  shows "metadata_writer uuid sid addr = Some (True, metadata_bytes uuid sid addr)"
proof -
  let ?w = "writer_new (replicate kBufferSize 0) kBufferSize"
  have "kBufferSize < 2 ^ 64" by (simp add: kBufferSize_def)
  note w = writer_new_ok [OF this]
  have lens: "varint62_len uuid \<le> 8" "varint62_len sid \<le> 8" by (simp_all add: varint62_len_def)
  have fits: "wr_length ?w + varint62_len uuid + varint62_len sid \<le> wr_capacity ?w"
    unfolding w using lens by (simp add: kBufferSize_def)
  note H = write_header [OF w(1,2) assms fits]
  let ?w2 = "append_bytes (append_bytes ?w (varint62_bytes uuid)) (varint62_bytes sid)"
  have w2: "wr_length ?w2 \<le> 16" "wr_capacity ?w2 = 1500" "wr_order ?w2 = NETWORK_BYTE_ORDER"
    using w lens by (simp_all add: kBufferSize_def)
  let ?w3 = "append_bytes ?w2 (be_bytes 4 (unat (fst addr)))"
  have w3: "write_uint32 ?w2 (fst addr) = (True, ?w3)"
    using write_uint_eq [OF H(3), of 4 "fst addr"] w2 by (simp add: write_uint32_def)
  have ok3: "wr_ok ?w3 \<and> written ?w3 = written ?w2 @ be_bytes 4 (unat (fst addr))"
    using w2 by (intro append_bytes_ok_simp [OF H(3)]) simp
  have l3: "wr_length ?w3 \<le> 20" "wr_capacity ?w3 = 1500" "wr_order ?w3 = NETWORK_BYTE_ORDER"
    using w2 by simp_all
  let ?w4 = "append_bytes ?w3 (be_bytes 2 (unat (snd addr)))"
  have w4: "write_uint16 ?w3 (snd addr) = (True, ?w4)"
    using write_uint_eq [OF conjunct1 [OF ok3], of 2 "snd addr"] l3 by (simp add: write_uint16_def)
  have "written ?w4 = written ?w3 @ be_bytes 2 (unat (snd addr))"
    using l3 append_bytes_ok_simp [OF conjunct1 [OF ok3], of "be_bytes 2 (unat (snd addr))"] by simp
  then have "written ?w4 = metadata_bytes uuid sid addr"
    using ok3 H(4) w(5) by (simp add: metadata_bytes_def)
  then show ?thesis using H(1,2) w3 w4 by (simp add: metadata_writer_def)
qed

lemma parse_metadata_eq:
  assumes r: "rd_ok r" "rd_order r = NETWORK_BYTE_ORDER" "unread r = metadata_bytes uuid sid addr @ rest"
    and n: "uuid < 2 ^ 62" "sid < 2 ^ 62"
  shows "parse_metadata r = Some (uuid, sid, addr)"
proof -
  let ?r1 = "skip r (varint62_len uuid)" and ?t1 = "varint62_bytes sid @ be_bytes 4 (unat (fst addr)) @
      be_bytes 2 (unat (snd addr)) @ rest"
  have len1: "varint62_len uuid \<le> length (unread r)" by (simp add: r(3) metadata_bytes_def)
  have r1: "rd_ok ?r1" "unread ?r1 = ?t1" "rd_order ?r1 = NETWORK_BYTE_ORDER"
    using skip_ok [OF r(1) len1] r by (simp_all add: unread_skip metadata_bytes_def)
  have read1: "read_varint62 r = Some (Some (word_of_nat uuid), ?r1)"
    using read_varint62_eq [OF r(1,2)] varint62_roundtrip [OF n(1), of ?t1] r(3)
    by (simp add: metadata_bytes_def)
  let ?r2 = "skip ?r1 (varint62_len sid)" and ?t2 = "be_bytes 4 (unat (fst addr)) @ be_bytes 2 (unat (snd addr)) @ rest"
  have len2: "varint62_len sid \<le> length (unread ?r1)" unfolding r1(2) by simp
  have "unread ?r2 = drop (varint62_len sid) ?t1" unfolding unread_skip [of ?r1] r1(2) ..
  then have r2: "rd_ok ?r2" "unread ?r2 = ?t2" "rd_order ?r2 = NETWORK_BYTE_ORDER"
    using skip_ok [OF r1(1) len2] r1(3) by simp_all
  have read2: "read_varint62 ?r1 = Some (Some (word_of_nat sid), ?r2)"
    using read_varint62_eq [OF r1(1,3)] varint62_roundtrip [OF n(2), of ?t2] r1(2) by simp
  let ?r3 = "skip ?r2 4"
  have "unread ?r3 = drop 4 ?t2" unfolding unread_skip [of ?r2] r2(2) ..
  then have r3: "rd_ok ?r3" "unread ?r3 = be_bytes 2 (unat (snd addr)) @ rest" "rd_order ?r3 = NETWORK_BYTE_ORDER"
    using skip_ok [OF r2(1), of 4] r2(2,3) by simp_all
  have read3: "read_uint32 ?r2 = (Some (fst addr), ?r3)"
    using read_uint_eq [OF r2(1) _ r2(3), of 4, where 'a = 32] r2(2)
      be_uint_roundtrip [of 4 "fst addr" "be_bytes 2 (unat (snd addr)) @ rest"]
    by (simp add: read_uint32_def)
  have read4: "fst (read_uint16 ?r3) = Some (snd addr)"
    using read_uint_eq [OF r3(1) _ r3(3), of 2, where 'a = 16] r3(2) be_uint_roundtrip [of 2 "snd addr" rest]
    by (simp add: read_uint16_def)
  show ?thesis
    using read1 read2 read3 read4 n by (simp add: parse_metadata_def unat_of_62)
qed

lemma read_type:
  assumes "length data < 2 ^ 64"
  shows "data = t # ds \<Longrightarrow> \<exists>r. read_uint8 (reader_new data (length data)) = (Some t, r) \<and> rd_ok r \<and>
      rd_order r = NETWORK_BYTE_ORDER \<and> unread r = ds"
    and "data = [] \<Longrightarrow> fst (read_uint8 (reader_new data (length data))) = None"
proof -
  let ?r = "reader_new data (length data)"
  have r: "rd_ok ?r" "unread ?r = data" "rd_order ?r = NETWORK_BYTE_ORDER"
    using assms by (simp_all add: reader_new_def rd_ok_def unread_def)
  show "\<exists>r. read_uint8 ?r = (Some t, r) \<and> rd_ok r \<and> rd_order r = NETWORK_BYTE_ORDER \<and> unread r = ds"
    if "data = t # ds"
  proof -
    have one: "1 \<le> length (unread ?r)" using r that by simp
    have "read_uint8 ?r = (Some t, skip ?r 1)"
      using read_bytes_eq [OF r(1), of 1] r that by (simp add: read_uint8_def)
    then show ?thesis using skip_ok [OF r(1) one] r that by (simp add: unread_skip)
  qed
  show "fst (read_uint8 ?r) = None" if "data = []"
    using read_bytes_eq [OF r(1), of 1] r that by (simp add: read_uint8_def)
qed

section \<open>The session table\<close>

text \<open>
  What the proxy needs of a table of sessions: a registered session is found and no other one
  is touched; a key is registered at most once; removing takes what was registered.
\<close>

locale session_table =
  fixes find_in :: "'t \<Rightarrow> 'u \<Rightarrow> 's \<Rightarrow> 'v option" and reg :: "'v \<Rightarrow> 'u \<Rightarrow> 's \<Rightarrow> 't \<Rightarrow> 't option"
    and unreg :: "'u \<Rightarrow> 's \<Rightarrow> 't \<Rightarrow> 't option"
  assumes reg_law: "find_in t u s = None \<Longrightarrow> \<exists>t'. reg v u s t = Some t' \<and>
      (\<forall>x y. find_in t' x y = (if x = u \<and> y = s then Some v else find_in t x y))"
    and reg_twice: "find_in t u s = Some v' \<Longrightarrow> reg v u s t = None"
    and unreg_law: "find_in t u s = Some v' \<Longrightarrow> \<exists>t'. unreg u s t = Some t' \<and>
      (\<forall>x y. find_in t' x y = (if x = u \<and> y = s then None else find_in t x y))"
    and unreg_missing: "find_in t u s = None \<Longrightarrow> unreg u s t = None"
begin

lemma reg_unreg:
  assumes "find_in t u s = None"
  shows "\<exists>t1 t2. reg v u s t = Some t1 \<and> unreg u s t1 = Some t2 \<and> find_in t2 = find_in t"
proof -
  obtain t1 where t1: "reg v u s t = Some t1" "\<forall>x y. find_in t1 x y = (if x = u \<and> y = s then Some v else find_in t x y)"
    using reg_law [OF assms] by blast
  then have "find_in t1 u s = Some v" by simp
  from unreg_law [OF this] obtain t2 where t2: "unreg u s t1 = Some t2"
      "\<forall>x y. find_in t2 x y = (if x = u \<and> y = s then None else find_in t1 x y)" by blast
  have "find_in t2 x y = find_in t x y" for x y using t1(2) t2(2) assms by simp
  then show ?thesis using t1(1) t2(1) by blast
qed

lemma unreg_twice: "unreg u s t = Some t1 \<Longrightarrow> unreg u s t1 = None"
  using unreg_law [of t u s] unreg_missing [of t1 u s] unreg_missing [of t u s]
  by (cases "find_in t u s") auto

end

interpretation sessions: session_table find_session register_sink unregister_sink
proof unfold_locales
  fix m :: "u64 \<rightharpoonup> (u64 \<rightharpoonup> nat)" and u s :: u64 and v v' :: nat
  show "\<exists>t'. register_sink v u s m = Some t' \<and>
      (\<forall>x y. find_session t' x y = (if x = u \<and> y = s then Some v else find_session m x y))"
    if "find_session m u s = None"
    using that by (cases "m u") (auto simp: find_session_def register_sink_def)
  show "register_sink v u s m = None" if "find_session m u s = Some v'"
    using that by (cases "m u") (auto simp: find_session_def register_sink_def)
  show "\<exists>t'. unregister_sink u s m = Some t' \<and>
      (\<forall>x y. find_session t' x y = (if x = u \<and> y = s then None else find_session m x y))"
    if found: "find_session m u s = Some v'"
  proof -
    obtain t where t: "m u = Some t" "t s = Some v'"
      using found unfolding find_session_def Option.bind_eq_Some_conv by blast
    have "t(s := None) = Map.empty \<Longrightarrow> y \<noteq> s \<Longrightarrow> t y = None" for y by (metis fun_upd_other)
    then show ?thesis using t by (auto simp: find_session_def unregister_sink_def Let_def)
  qed
  show "unregister_sink u s m = None" if "find_session m u s = None"
    using that by (cases "m u") (auto simp: find_session_def unregister_sink_def)
qed

section \<open>A server that cannot connect\<close>

text \<open>
  \<open>AsynConnect\<close> fails before the session is registered, but its \<open>DeleteSelf\<close> removes the
  session: the failed check ends the process.
\<close>

lemma close_fd_entity_open:
  assumes "\<not> has_status s ENTITY_CLOSED"
  shows "close_fd P C s io = Some (if 0 < sock_fd s then
    ((raise_status ENTITY_WAIT_CLOSE_IF_FD_CLOSED s)\<lparr>sock_fd := - 1\<rparr>,
     log_event (Close_Fd (sock_fd s))
       ((log_event (Unregister_Fd (sock_fd s)) io)\<lparr>kernel := sys_close P (kernel io) (sock_fd s)\<rparr>))
    else (s, io))"
  using assms
  by (simp add: close_fd_def check_to_delete_self_def has_status_def raise_status_eq status_bits_zero)

lemma connect_failure_fatal:
  assumes role: "server_role s = Right_Server uuid sid addr" and fresh: "\<not> destroyed s" "\<not> has_status s ENTITY_CLOSED"
    and unregistered: "find_session (sessions io) uuid sid = None"
    and fails: "\<not> fst (sys_reuse_addr P (kernel io) (sock_fd s))"
  shows "right_asyn_connect P i s io = None"
proof -
  obtain k where k: "sys_reuse_addr P (kernel io) (sock_fd s) = (False, k)"
    using fails by (cases "sys_reuse_addr P (kernel io) (sock_fd s)") auto
  obtain s1 o2 where close: "close_fd P (server_class i) s (io\<lparr>kernel := k\<rparr>) = Some (s1, o2)"
      "server_role s1 = server_role s" "destroyed s1 = destroyed s" "sessions o2 = sessions io"
    using close_fd_entity_open [OF fresh(2), of P "server_class i" "io\<lparr>kernel := k\<rparr>"]
    by (cases "0 < sock_fd s") (auto simp: raise_status_def)
  have "unregister_sink uuid sid (sessions o2) = None"
    using sessions.unreg_missing [OF unregistered] close(4) by simp
  then have "delete_self (server_class i) s1 o2 = None"
    using role fresh(1) close(2,3) by (simp add: server_class_def server_delete_self_def)
  then show ?thesis using k close(1) by (simp add: right_asyn_connect_def Let_def)
qed

end
