(* ===== verification/Proxy_Progress.thy ===== *)
theory Proxy_Progress
  imports Proxy_Handshake
begin

text \<open>
  Progress: \<open>Schedule\<close> returns while its connections are open, a socket that waits to be closed
  closes once its bytes are written, and what the peer's server makes of the frames that
  \<open>Schedule\<close> sent.
\<close>

section \<open>Schedule returns\<close>

definition sendable :: "tcp_connection \<Rightarrow> bool" where
  "sendable c \<longleftrightarrow> 0 < sock_fd c \<and> \<not> has_status c FD_WAIT_CLOSE"

lemma append_and_flush_sendable:
  assumes posix: "posix P" and ok: "sendable c"
  shows "\<exists>c' io'. append_and_flush P j c bytes io = Some (c', io') \<and> sendable c'"
proof -
  define d where "d = c\<lparr>write_buffer := write_buffer c @ bytes\<rparr>"
  have d: "sendable d" using ok by (simp add: d_def sendable_def has_status_def)
  obtain t o1 where fb: "flush_buffer P (connection_class j) d io = (t, o1)"
    by (cases "flush_buffer P (connection_class j) d io") auto
  have t: "sendable t"
    using connection.flush_buffer_conserves(3,5) [OF posix fb] d by (simp add: sendable_def has_status_def)
  then show ?thesis
    using d fb by (simp add: append_and_flush_def d_def [symmetric] on_write_event_def check_close_fd_def
        sendable_def Let_def)
qed

lemma send_data_sendable:
  assumes "posix P" "sendable c" "offset < 2 ^ 62" "length payload \<le> 65535"
  shows "\<exists>c' io'. send_data P j c offset payload io = Some (c', io') \<and> sendable c'"
proof -
  have "0 < sock_fd c" using assms(2) by (simp add: sendable_def)
  then show ?thesis
    using append_and_flush_sendable [OF assms(1,2), of j "frame_bytes offset payload" io]
      send_data_run [OF assms(3,4), of c P j io] by simp
qed

lemma send_data_with_limit_sendable:
  assumes posix: "posix P"
  shows "sendable c \<Longrightarrow> offset + length pv \<le> 2 ^ 62 \<Longrightarrow>
    \<exists>c' io'. send_data_with_limit P j offset c pv io = Some (offset + length pv, c', io') \<and> sendable c'"
proof (induction "length pv" arbitrary: offset c pv io rule: less_induct)
  case less
  show ?case
  proof (cases "pv = []")
    case True
    then show ?thesis using less.prems by (simp add: send_data_with_limit.simps)
  next
    case False
    define n where "n = min (length pv) kMaxPacketLength"
    have n: "0 < n" "n \<le> length pv" "n \<le> 65535" using False by (simp_all add: n_def kMaxPacketLength_def)
    have small: "offset < 2 ^ 62" using less.prems(2) n(1,2) by linarith
    obtain c1 io1 where first: "send_data P j c offset (take n pv) io = Some (c1, io1)" "sendable c1"
      using send_data_sendable [OF posix less.prems(1) small, of "take n pv" j io] n by auto
    have next_offset: "u64_add offset n = offset + n" using less.prems(2) n(2) by (intro u64_add_no_wrap) simp
    have "length (drop n pv) < length pv" "offset + n + length (drop n pv) \<le> 2 ^ 62"
      using n less.prems(2) by simp_all
    from less.hyps [OF this(1) first(2) this(2)] obtain c' io' where
      "send_data_with_limit P j (offset + n) c1 (drop n pv) io1 = Some (offset + n + length (drop n pv), c', io')"
      "sendable c'" by blast
    then show ?thesis
      using False first(1) next_offset n(2)
      by (subst send_data_with_limit.simps) (simp add: Let_def n_def [symmetric])
  qed
qed

lemma schedule_loop_returns:
  "posix P \<Longrightarrow> \<forall>j \<in> set js. \<exists>c. cs j = Some c \<and> sendable c \<Longrightarrow> offset + length data \<le> 2 ^ 62 \<Longrightarrow>
    \<exists>r. schedule_loop P sum_bw js offset data cs io = Some r"
proof (induction P sum_bw js offset data cs io rule: schedule_loop.induct)
  case (2 P sum_bw j offset data cs io)
  then obtain c where c: "cs j = Some c" "sendable c" by auto
  show ?case
    using send_data_with_limit_sendable [OF "2.prems"(1) c(2) "2.prems"(3), of j io] c(1) by auto
next
  case (3 P sum_bw j j' js offset data cs io)
  show ?case
  proof (cases "data = []")
    case False
    obtain c where c: "cs j = Some c" "sendable c" using "3.prems"(2) by auto
    define n where "n = min (max (ratio_share P (length data)
        (bw_to_kbits_per_second (goodput_with_minimum c)) sum_bw) kMinPayloadSize) (length data)"
    have n: "n \<le> length data" by (simp add: n_def)
    have "offset + length (take n data) \<le> 2 ^ 62" using "3.prems"(3) by simp
    from send_data_with_limit_sendable [OF "3.prems"(1) c(2) this, of j io] obtain c1 io1 where
      first: "send_data_with_limit P j offset c (take n data) io = Some (offset + n, c1, io1)" "sendable c1"
      using n by auto
    have "\<forall>k \<in> set (j' # js). \<exists>c. (cs(j \<mapsto> c1)) k = Some c \<and> sendable c" using "3.prems"(2) first(2) by simp
    moreover have "offset + n + length (drop n data) \<le> 2 ^ 62" using "3.prems"(3) n by simp
    ultimately have "\<exists>r. schedule_loop P sum_bw (j' # js) (offset + n) (drop n data) (cs(j \<mapsto> c1)) io1 = Some r"
      using "3.IH" [OF False c(1) refl n_def first(1) refl refl "3.prems"(1)] by blast
    then show ?thesis using False c(1) first(1) by (simp add: Let_def n_def [symmetric])
  qed simp
qed simp

lemma available_filter:
  "\<forall>j \<in> set js. cs j \<noteq> None \<Longrightarrow> \<exists>js' b'. available_connections cs js b = Some (js', b') \<and>
    set js' = {j \<in> set js. \<not> is_buffer_above_threshold (the (cs j))}"
proof (induction js arbitrary: b)
  case (Cons j js)
  then obtain c where c: "cs j = Some c" by auto
  let ?b = "if is_buffer_above_threshold c then b else bw_add b (goodput_with_minimum c)"
  have split: "{k \<in> set (j # js). \<not> is_buffer_above_threshold (the (cs k))} =
      (if is_buffer_above_threshold c then {} else {j}) \<union> {k \<in> set js. \<not> is_buffer_above_threshold (the (cs k))}"
    using c by auto
  obtain js' b' where IH: "available_connections cs js ?b = Some (js', b')"
      "set js' = {j \<in> set js. \<not> is_buffer_above_threshold (the (cs j))}"
    using Cons.IH [of ?b] Cons.prems by auto
  show ?case
  proof (cases "is_buffer_above_threshold c")
    case True
    then show ?thesis using c IH unfolding split by simp
  next
    case False
    then show ?thesis using c IH unfolding split by simp
  qed
qed simp

text \<open>What \<open>Schedule\<close> does as a whole.\<close>

lemma schedule_correct:
  assumes posix: "posix P" and alive: "\<forall>j \<in> set (ready_list s). \<exists>c. cs j = Some c \<and> sendable c"
    and room: "\<exists>j \<in> set (ready_list s). \<not> is_buffer_above_threshold (the (cs j))"
    and small: "write_offset s + length (read_buffer s) \<le> 2 ^ 62" and fds: "fds_ok fd cs"
  shows "\<exists>ts cs' io'. schedule P s cs io =
      Some (s\<lparr>write_offset := write_offset s + length (read_buffer s), read_buffer := []\<rparr>, cs', io') \<and>
    tiles (write_offset s) (map snd ts) (read_buffer s) \<and> assigned fd cs io ts cs' io' \<and>
    fst ` set ts \<subseteq> {j \<in> set (ready_list s). \<not> is_buffer_above_threshold (the (cs j))}"
proof -
  have live: "\<forall>j \<in> set (ready_list s). cs j \<noteq> None" using alive by blast
  obtain js b where js: "available_connections cs (ready_list s) 0 = Some (js, b)"
      "set js = {j \<in> set (ready_list s). \<not> is_buffer_above_threshold (the (cs j))}"
    using available_filter [OF live, of 0] by blast
  have ne: "js \<noteq> []" using js(2) room by auto
  have "\<forall>j \<in> set js. \<exists>c. cs j = Some c \<and> sendable c" using alive js(2) by blast
  from schedule_loop_returns [OF posix this small] obtain o1 cs' io' where
    run: "schedule_loop P (bw_to_kbits_per_second b) js (write_offset s) (read_buffer s) cs io = Some (o1, cs', io')"
    by (metis prod_cases3)
  obtain ts where ts: "tiles (write_offset s) (map snd ts) (read_buffer s)" "assigned fd cs io ts cs' io'"
      "fst ` set ts \<subseteq> set js" "o1 = write_offset s + length (read_buffer s)"
    using schedule_loop_conserves [OF run fds small ne posix] by blast
  have "schedule P s cs io =
      Some (s\<lparr>write_offset := write_offset s + length (read_buffer s), read_buffer := []\<rparr>, cs', io')"
    using js(1) ne run ts(4) by (simp add: schedule_def)
  then show ?thesis using ts(1-3) unfolding js(2) by blast
qed

section \<open>The frames reach the other side\<close>

text \<open>
  A server that has passed on the first \<open>p\<close> bytes of the stream, and frames that tile the next
  bytes: in any order, and with repetitions, they make it pass on exactly those bytes.
\<close>

lemma tiled_frames_received:
  assumes dr: "server_drained Q f r ro" and upto: "received (server_buffer r) = {..<p}"
    and tile: "tiles (Suc p) frs d" and f: "\<forall>k < length d. f (p + k) = d ! k"
    and window: "p + length d \<le> total_bytes_read (server_buffer r) + max_buffer_capacity_bytes (server_buffer r)"
      "p + length d \<le> 2 ^ 62" "p + length d \<le> close_offset (server_seq r)"
    and set: "set frs' = set frs"
    and room: "length (bytes_received (server_buffer r)) + length frs' < kMaxNumDataIntervalsAllowed"
  shows "\<exists>r' ro'. recv_frames Q i frs' r ro = Some (r', ro') \<and> server_drained Q f r' ro' \<and>
    received (server_buffer r') = {..<p + length d} \<and>
    outgoing (sock_fd r') r' ro' = outgoing (sock_fd r) r ro @ d"
proof -
  note C = tiles_cover [OF tile f order_refl]
  have wire: "\<forall>fr \<in> set frs'. wire_frame f (p + length d) fr"
    and cover: "(\<Union>fr \<in> set frs'. wire_range fr) = {p..<p + length d}"
    using C set by simp_all
  obtain r' ro' where run: "recv_frames Q i frs' r ro = Some (r', ro')" and dr': "server_drained Q f r' ro'"
      and rc: "received (server_buffer r') = received (server_buffer r) \<union> (\<Union>fr \<in> set frs'. wire_range fr)"
    using recv_frames_drained [OF dr wire window room] by blast
  have all: "received (server_buffer r') = {..<p + length d}" unfolding rc upto cover by auto
  have first: "first_missing_byte (server_buffer r) = p"
    using server_drained_outgoing(2,3) [OF dr] unfolding upto
    by (metis lessThan_iff lessThan_subset_iff linorder_neqE_nat not_less)
  have last: "first_missing_byte (server_buffer r') = p + length d"
    using server_drained_outgoing(2,3) [OF dr'] unfolding all
    by (metis lessThan_iff lessThan_subset_iff linorder_neqE_nat not_less)
  have "f k = d ! (k - p)" if "\<not> k < p" "k < p + length d" for k
    using f [rule_format, of "k - p"] that by simp
  then have "map f [0..<p + length d] = map f [0..<p] @ d"
    by (intro nth_equalityI) (auto simp: nth_append)
  then have "outgoing (sock_fd r') r' ro' = outgoing (sock_fd r) r ro @ d"
    using server_drained_outgoing(1) [OF dr] server_drained_outgoing(1) [OF dr'] first last by simp
  then show ?thesis using run dr' all by blast
qed

section \<open>A socket that waits to be closed\<close>

text \<open>A peer that keeps reading: \<open>send\<close> accepts at least one byte.\<close>

definition accepting :: "'k platform \<Rightarrow> bool" where
  "accepting P \<longleftrightarrow> (\<forall>k fd d. d \<noteq> [] \<longrightarrow> 0 < fst (sys_send P k fd d))"

context socket_virtual
begin

lemma flush_loop_drains:
  assumes "accepting P" and free: "\<And>s n. can_send C s n"
  shows "flush_loop P C s data fl io = (s', rest, fl', io') \<Longrightarrow> rest = []"
proof (induction "length data" arbitrary: data s fl io rule: less_induct)
  case less
  show ?case
  proof (cases "data = []")
    case True
    then show ?thesis using less.prems by (subst (asm) flush_loop.simps) simp
  next
    case False
    let ?chunk = "take kBufferSize data"
    obtain n k where send: "sys_send P (kernel io) (sock_fd s) ?chunk = (n, k)"
      by (cases "sys_send P (kernel io) (sock_fd s) ?chunk") auto
    have "?chunk \<noteq> []" using False by (simp add: kBufferSize_def)
    then have n: "0 < n" using assms(1) send unfolding accepting_def by (metis fst_conv)
    have run: "flush_loop P C (on_packet_sent C n (s\<lparr>send_bytes := send_bytes s + n\<rparr>)) (drop (nat n) data) True
        (log_event (Send (sock_fd s) (take (nat n) ?chunk)) (io\<lparr>kernel := k\<rparr>)) = (s', rest, fl', io')"
      using less.prems False send n free by (subst (asm) flush_loop.simps) (simp add: Let_def)
    have "length (drop (nat n) data) < length data" using False n by simp
    from less.hyps [OF this run] show ?thesis .
  qed
qed

lemma flush_buffer_drains:
  assumes posix: "posix P" and "accepting P" "\<And>s n. can_send C s n" "0 \<le> sock_fd s"
    and run: "flush_buffer P C s io = (s', io')"
  shows "write_buffer s' = []"
proof -
  obtain t rest fl o' where loop: "flush_loop P C s (write_buffer s) False io = (t, rest, fl, o')"
    by (cases "flush_loop P C s (write_buffer s) False io") auto
  have "rest = []" using flush_loop_drains [OF assms(2,3) loop] .
  moreover have "fl \<or> rest = write_buffer s" "write_buffer t = write_buffer s"
    using flush_loop_conserves [OF posix loop] by blast+
  ultimately show ?thesis using run loop assms(4) by (auto simp: flush_buffer_def split: if_splits)
qed

text \<open>The descriptor is closed when the entity is: the deletion follows.\<close>

lemma close_fd_deletes:
  assumes "0 < sock_fd s" "has_status s ENTITY_CLOSED"
  shows "close_fd P C s io = delete_self C ((raise_status ENTITY_WAIT_CLOSE_IF_FD_CLOSED s)\<lparr>sock_fd := - 1\<rparr>)
    (log_event (Close_Fd (sock_fd s))
      ((log_event (Unregister_Fd (sock_fd s)) io)\<lparr>kernel := sys_close P (kernel io) (sock_fd s)\<rparr>))"
  using assms by (simp add: close_fd_def check_to_delete_self_def has_status_def raise_status_eq status_bits status_bits_zero)

end

text \<open>A server of a session that is gone: closed, marked, posted once, and out of the table.\<close>

definition server_gone :: "nat \<Rightarrow> u64 \<Rightarrow> u64 \<Rightarrow> 'k io \<Rightarrow> tp_server \<times> 'k io \<Rightarrow> bool" where
  "server_gone i uuid sid io r \<longleftrightarrow> sock_fd (fst r) = - 1 \<and> destroyed (fst r) \<and>
     posted (snd r) = posted io @ [Server i] \<and> find_session (sessions (snd r)) uuid sid = None"

lemma server_close_fd_gone:
  assumes "0 < sock_fd s" "has_status s ENTITY_CLOSED" "\<not> destroyed s"
    and role: "server_role s = Right_Server uuid sid addr" and reg: "find_session (sessions io) uuid sid = Some v"
  shows "\<exists>r. close_fd P (server_class i) s io = Some r \<and> server_gone i uuid sid io r \<and>
    (\<forall>fd. sent_on fd (snd r) = sent_on fd io)"
proof -
  obtain m where m: "unregister_sink uuid sid (sessions io) = Some m" "find_session m uuid sid = None"
    using sessions.unreg_law [OF reg] by auto
  have "\<exists>r. close_fd P (server_class i) s io = Some r \<and> server_gone i uuid sid io r"
    unfolding server.close_fd_deletes [OF assms(1,2)]
    using assms(3) role m by (simp add: server_class_def server_delete_self_def server_gone_def raise_status_def)
  then show ?thesis using server.close_fd_fields(5) by (metis prod.collapse)
qed

lemma server_flush_loop_role:
  "flush_loop P (server_class i) s data fl io = (s', rest, fl', io') \<Longrightarrow> server_role s' = server_role s"
proof (induction "length data" arbitrary: data s fl io rule: less_induct)
  case less
  obtain n k where send: "sys_send P (kernel io) (sock_fd s) (take kBufferSize data) = (n, k)"
    by (cases "sys_send P (kernel io) (sock_fd s) (take kBufferSize data)") auto
  show ?case
  proof (cases "data = [] \<or> n \<le> 0")
    case True
    then show ?thesis
      using less.prems send by (subst (asm) flush_loop.simps) (auto simp: server_class_def split: if_splits)
  next
    case False
    then have "flush_loop P (server_class i) (s\<lparr>send_bytes := send_bytes s + n\<rparr>) (drop (nat n) data) True
        (log_event (Send (sock_fd s) (take (nat n) (take kBufferSize data))) (io\<lparr>kernel := k\<rparr>)) = (s', rest, fl', io')"
      using less.prems send by (subst (asm) flush_loop.simps) (simp add: server_class_def)
    moreover have "length (drop (nat n) data) < length data" using False by simp
    ultimately show ?thesis using less.hyps by force
  qed
qed

lemma server_flush_role:
  assumes "flush_buffer P (server_class i) s io = (s', io')" "server_role s = R"
  shows "server_role s' = R"
proof -
  obtain t rest fl o' where loop: "flush_loop P (server_class i) s (write_buffer s) False io = (t, rest, fl, o')"
    by (cases "flush_loop P (server_class i) s (write_buffer s) False io") auto
  then show ?thesis using assms server_flush_loop_role [OF loop] by (auto simp: flush_buffer_def split: if_splits)
qed

lemma server_write_gone:
  assumes posix: "posix P" and acc: "accepting P" and open_fd: "0 < sock_fd s"
    and st: "has_status s ENTITY_CLOSED" "has_status s FD_WAIT_CLOSE" "\<not> destroyed s"
    and role: "server_role s = Right_Server uuid sid addr" and reg: "find_session (sessions io) uuid sid = Some v"
  shows "\<exists>r. on_write_event P (server_class i) s io = Some r \<and> server_gone i uuid sid io r \<and>
    sent_on (sock_fd s) (snd r) = sent_on (sock_fd s) io @ write_buffer s"
proof -
  obtain t o1 where fb: "flush_buffer P (server_class i) s io = (t, o1)"
    by (cases "flush_buffer P (server_class i) s io") auto
  note F = server.flush_buffer_conserves [OF posix fb]
  have wb: "write_buffer t = []"
    using server.flush_buffer_drains [OF posix acc _ _ fb] open_fd by (simp add: server_class_def)
  have role': "server_role t = Right_Server uuid sid addr"
    using fb role by (rule server_flush_role)
  define o2 where "o2 = log_event (Modify_Callback (sock_fd t) (EPOLLET OR EPOLLIN OR EPOLLRDHUP OR EPOLLERR)) o1"
  have o2: "posted o2 = posted io" "sessions o2 = sessions io" "sent_on fd o2 = sent_on fd o1" for fd
    using F by (simp_all add: o2_def io_simps)
  have "on_write_event P (server_class i) s io = close_fd P (server_class i) t o2"
    using fb wb st(2) F(5) by (simp add: on_write_event_def check_close_fd_def o2_def has_status_def)
  moreover have "0 < sock_fd t" "has_status t ENTITY_CLOSED" "\<not> destroyed t" "find_session (sessions o2) uuid sid = Some v"
    using open_fd st F o2 reg by (simp_all add: has_status_def)
  ultimately obtain r where "on_write_event P (server_class i) s io = Some r" "server_gone i uuid sid o2 r"
      "\<forall>fd. sent_on fd (snd r) = sent_on fd o2"
    using server_close_fd_gone [of t uuid sid addr o2 v P i] role' by metis
  then show ?thesis using F(1) wb o2 by (auto simp: server_gone_def)
qed

section \<open>A connection keeps its server\<close>

lemma conn_flush_loop_ref:
  "flush_loop P (connection_class j) c data fl io = (c', rest, fl', io') \<Longrightarrow> server_ref c' = server_ref c"
proof (induction "length data" arbitrary: data c fl io rule: less_induct)
  case less
  obtain n k where send: "sys_send P (kernel io) (sock_fd c) (take kBufferSize data) = (n, k)"
    by (cases "sys_send P (kernel io) (sock_fd c) (take kBufferSize data)") auto
  show ?case
  proof (cases "data = [] \<or> n \<le> 0 \<or> \<not> conn_can_send c (int (length (take kBufferSize data)))")
    case True
    then show ?thesis
      using less.prems send by (subst (asm) flush_loop.simps) (auto simp: connection_class_def Let_def split: if_splits)
  next
    case False
    define d where "d = conn_on_packet_sent n (c\<lparr>send_bytes := send_bytes c + n\<rparr>)"
    have "flush_loop P (connection_class j) d (drop (nat n) data) True
        (log_event (Send (sock_fd c) (take (nat n) (take kBufferSize data))) (io\<lparr>kernel := k\<rparr>)) = (c', rest, fl', io')"
      using less.prems send False by (subst (asm) flush_loop.simps) (simp add: connection_class_def Let_def d_def)
    moreover have "length (drop (nat n) data) < length data" using False by simp
    ultimately have "server_ref c' = server_ref d" using less.hyps by blast
    then show ?thesis by (simp add: d_def conn_on_packet_sent_def)
  qed
qed

lemma conn_close_fd_ref:
  "close_fd P (connection_class j) c io = Some (c', io') \<Longrightarrow> server_ref c' = server_ref c"
  by (auto simp: close_fd_def check_to_delete_self_def connection_class_def base_delete_self_def raise_status_def
      split: if_splits)

lemma append_and_flush_ref:
  assumes "append_and_flush P j c bytes io = Some (c', io')"
  shows "server_ref c' = server_ref c"
proof -
  define d where "d = c\<lparr>write_buffer := write_buffer c @ bytes\<rparr>"
  obtain t rest fl o1 where loop: "flush_loop P (connection_class j) d (write_buffer d) False io = (t, rest, fl, o1)"
    by (cases "flush_loop P (connection_class j) d (write_buffer d) False io") auto
  define u where "u = fst (flush_buffer P (connection_class j) d io)"
  have u: "server_ref u = server_ref c"
    using conn_flush_loop_ref [OF loop] loop by (simp add: u_def flush_buffer_def d_def)
  have "server_ref c' = server_ref c" if "is_connected d" "check_close_fd P (connection_class j) u o2 = Some (c', io')" for o2
    using that(2) u by (auto simp: check_close_fd_def split: if_splits dest: conn_close_fd_ref)
  then show ?thesis
    using assms unfolding append_and_flush_def d_def [symmetric] on_write_event_def Let_def u_def
    by (auto simp: d_def split: if_splits prod.splits)
qed

section \<open>The metadata message of a connection\<close>

lemma write_meta_data_eq:
  assumes "conn_role c = Right_Connection uuid sid ip port b" and "uuid < 2 ^ 62" and "sid < 2 ^ 62"
  shows "write_meta_data P j c io =
    append_and_flush P j c (frame_bytes 0 (PROXY_MESSAGE_META # metadata_bytes uuid sid (ip, port))) io"
proof -
  define data where "data = metadata_bytes uuid sid (ip, port)"
  let ?msg = "PROXY_MESSAGE_META # data"
  have len: "length data \<le> 22" "length ?msg < 2 ^ 64"
    using length_metadata_bytes [of uuid sid "(ip, port)"] unfolding data_def [symmetric] by simp_all
  obtain c' io' where run: "append_and_flush P j c (frame_bytes 0 ?msg) io = Some (c', io')"
    using append_and_flush_returns by blast
  have "write_message_frame PROXY_MESSAGE_META (Some data) (length data) =
      Some (frame_bytes 0 (PROXY_MESSAGE_META # (case Some data of None \<Rightarrow> [] | Some d \<Rightarrow> d)))"
    by (rule write_message_frame_eq) (use len(1) in simp_all)
  then have "write_message P j c PROXY_MESSAGE_META (Some data) (length data) io = Some (c', io')"
    by (simp only: write_message_def option.case Option.bind.simps run)
  then have "write_meta_data P j c io = append_and_flush P j c (frame_bytes 0 ?msg) io"
    by (simp only: write_meta_data_def assms(1) connection_role.case prod.case Option.bind.simps fatal_unless_def
        metadata_writer_eq [OF assms(2,3), of "(ip, port)", folded data_def] if_True run)
  then show ?thesis by (simp only: data_def)
qed

end
