(* ===== verification/Sample_Proxy.thy ===== *)
theory Sample_Proxy
  imports Proxy_Progress
begin

text \<open>
  A concrete platform and concrete objects on which the properties of the proxy are
  instantiated.  The state of the platform is the list of answers that \<open>read\<close> will give; \<open>send\<close>
  accepts everything.
\<close>

definition script_platform :: "byte list option list platform" where
  "script_platform = \<lparr>
     sys_send = \<lambda>k fd d. (int (length d), k),
     sys_read = \<lambda>k fd n. (case k of [] \<Rightarrow> (None, []) | x # xs \<Rightarrow> (map_option (take n) x, xs)),
     sys_close = \<lambda>k fd. [],
     sys_socket = \<lambda>k. (7, k),
     sys_reuse_addr = \<lambda>k fd. (True, k),
     sys_bind = \<lambda>k fd a. (True, k),
     sys_connect = \<lambda>k fd a. (Connect_Started, k),
     sys_original_dst = \<lambda>k fd. Some (1, 80),
     clock_now = \<lambda>k. 1000,
     tcp_bytes_acked = \<lambda>k fd. None,
     gain_scale = \<lambda>b. b,
     ratio_share = \<lambda>n a t. (if t \<le> 0 then 0 else nat (int n * a div t))\<rparr>"

lemma script_posix: "posix script_platform"
  by (auto simp: posix_def script_platform_def split: list.splits)

lemma script_accepting: "accepting script_platform"
  by (simp add: accepting_def script_platform_def)

lemma script_closed: "closed_fails script_platform"
  by (simp add: closed_fails_def script_platform_def)

definition sample_io :: "byte list option list \<Rightarrow> byte list option list io" where
  "sample_io k = \<lparr>kernel = k, io_log = [], posted = [], sessions = [1 \<mapsto> [1 \<mapsto> 0]]\<rparr>"

lemma sample_io_fields [simp]:
  "kernel (sample_io k) = k" "posted (sample_io k) = []" "sessions (sample_io k) = [1 \<mapsto> [1 \<mapsto> 0]]"
  "sent_on fd (sample_io k) = []"
  by (simp_all add: sample_io_def sent_on_def)

text \<open>The reading loop of a script.\<close>

lemma script_reads:
  "\<forall>d \<in> set ds. d \<noteq> [] \<and> length d \<le> n \<Longrightarrow> reads script_platform fd n (map Some ds) ds False []"
proof (induction ds)
  case (Cons d ds)
  then show ?case by (intro reads_data [of _ _ _ _ d "map Some ds"]) (simp_all add: script_platform_def)
qed (simp add: reads_block script_platform_def)

lemma script_reads_end:
  "\<forall>d \<in> set ds. d \<noteq> [] \<and> length d \<le> n \<Longrightarrow> reads script_platform fd n (map Some ds @ [Some []]) ds True []"
proof (induction ds)
  case (Cons d ds)
  then show ?case
    by (intro reads_data [of _ _ _ _ d "map Some ds @ [Some []]"]) (simp_all add: script_platform_def)
qed (simp add: reads_eof script_platform_def)

section \<open>Objects\<close>

definition sample_conn :: "int \<Rightarrow> connection_role \<Rightarrow> tcp_connection" where
  "sample_conn fd r = the (connection_new script_platform [] fd TCP_CONNECTED (Some 0) r)"

definition sample_server :: "server_role \<Rightarrow> tp_server" where
  "sample_server r = the (server_new 9 TCP_CONNECTED r)"

lemma alarm_new_updated: "t \<noteq> 0 \<Longrightarrow> \<exists>al. alarm_update alarm_new t 0 = Some al"
  using alarm_update_inv [of alarm_new t 0] by (auto simp: alarm_new_def alarm_inv_def)

lemma script_connection_new:
  "\<exists>c. connection_new script_platform [] fd status srv r = Some c \<and>
    sock_fd c = fd \<and> write_buffer c = [] \<and> read_buffer c = [] \<and> io_status c = 0 \<and> \<not> destroyed c \<and> conn_role c = r \<and>
    sock_status c = status \<and> server_ref c = srv"
  using alarm_new_updated [of "1000 + kGoodputInterval"] alarm_new_updated [of "1000 + kBudgetInterval"]
  by (auto simp: connection_new_def script_platform_def Let_def retarget_def
      kGoodputInterval_def kBudgetInterval_def delta_from_milliseconds_def)

lemma sample_conn_fields [simp]:
  "sock_fd (sample_conn fd r) = fd" "write_buffer (sample_conn fd r) = []" "read_buffer (sample_conn fd r) = []"
  "io_status (sample_conn fd r) = 0" "destroyed (sample_conn fd r) = False" "conn_role (sample_conn fd r) = r"
  "sock_status (sample_conn fd r) = TCP_CONNECTED" "server_ref (sample_conn fd r) = Some 0"
  using script_connection_new [of fd TCP_CONNECTED "Some 0" r] by (auto simp: sample_conn_def)

lemma sequencer_new_returns: "\<exists>q. sequencer_new = Some q"
proof -
  have "server_ready script_platform (sample_server r\<lparr>sock_fd := 9, write_buffer := []\<rparr>, sample_io [])"
      "server_log (sample_server r\<lparr>sock_fd := 9, write_buffer := []\<rparr>, sample_io []) = []" for r
    by (simp_all add: server_ready_def script_posix server_log_def outgoing_def)
  then show ?thesis using server_stream.fresh_sequencer_drained by blast
qed

lemma sample_server_new: "server_new 9 TCP_CONNECTED r = Some (sample_server r)"
proof -
  obtain q where q: "sequencer_new = Some q" using sequencer_new_returns by blast
  show ?thesis unfolding sample_server_def server_new_def q by simp
qed

lemma sample_server_role: "sample_server r\<lparr>server_role := r'\<rparr> = sample_server r'"
proof -
  obtain q where q: "sequencer_new = Some q" using sequencer_new_returns by blast
  show ?thesis unfolding sample_server_def server_new_def q by simp
qed

lemma sample_server_fields [simp]:
  "sock_fd (sample_server r) = 9" "write_buffer (sample_server r) = []" "read_buffer (sample_server r) = []"
  "io_status (sample_server r) = 0" "destroyed (sample_server r) = False" "server_role (sample_server r) = r"
  "sock_status (sample_server r) = TCP_CONNECTED" "write_offset (sample_server r) = 1" "ready_list (sample_server r) = []"
  "server_budget_alarm (sample_server r) = None"
proof -
  have "sock_fd s = 9 \<and> write_buffer s = [] \<and> read_buffer s = [] \<and> io_status s = 0 \<and> \<not> destroyed s \<and> server_role s = r \<and>
      sock_status s = TCP_CONNECTED \<and> write_offset s = 1 \<and> ready_list s = [] \<and> server_budget_alarm s = None"
    if "server_new 9 TCP_CONNECTED r = Some s" for s
    using that by (auto simp: server_new_def Option.bind_eq_Some_conv kReserveOffset_def)
  from this [OF sample_server_new] show
    "sock_fd (sample_server r) = 9" "write_buffer (sample_server r) = []" "read_buffer (sample_server r) = []"
    "io_status (sample_server r) = 0" "destroyed (sample_server r) = False" "server_role (sample_server r) = r"
    "sock_status (sample_server r) = TCP_CONNECTED" "write_offset (sample_server r) = 1" "ready_list (sample_server r) = []"
    "server_budget_alarm (sample_server r) = None"
    by simp_all
qed

lemma sample_server_drained:
  "server_drained script_platform f (sample_server r) (sample_io [])"
  "received (server_buffer (sample_server r)) = {}" "bytes_received (server_buffer (sample_server r)) = []"
  "close_offset (server_seq (sample_server r)) = kMaxOffset" "total_bytes_read (server_buffer (sample_server r)) = 0"
  "max_buffer_capacity_bytes (server_buffer (sample_server r)) = kStreamReceiveWindowLimit"
  using new_server_drained [OF sample_server_new script_posix, of "sample_io []"] by simp_all

end
