(* ===== verification/Proxy_Properties.thy ===== *)
theory Proxy_Properties
  imports Sample_Proxy
begin

text \<open>
  The properties of the multipath proxy: what one half sends over several connections is what
  the other half hands to its application, no byte is lost on the way, and the objects of a
  process live and end in order.
\<close>

section \<open>From one application to the other\<close>

text \<open>
  C1: Multipath delivery.  While the ready connections of a server are open and one of them has
  room, \<open>Schedule\<close> returns: it empties the read buffer, advances the write offset by its
  length, and appends to each connection, and to no other, the frames it assigned to it, which
  together tile the bytes read.  The server of the other half that has passed on the stream up
  to there, given these frames in any order and any number of times, hands its application
  exactly those bytes, in order.
\<close>

theorem multipath_delivery:
  assumes "posix P" and "fds_ok fd cs"
    and alive: "\<forall>j \<in> set (ready_list s). \<exists>c. cs j = Some c \<and> sendable c"
    and room: "\<exists>j \<in> set (ready_list s). \<not> is_buffer_above_threshold (the (cs j))"
    and offset: "write_offset s = Suc p" and d: "d = read_buffer s" and small: "Suc p + length d \<le> 2 ^ 62"
    and peer: "server_drained Q f r ro" "received (server_buffer r) = {..<p}" and f: "\<forall>k < length d. f (p + k) = d ! k"
    and window: "p + length d \<le> total_bytes_read (server_buffer r) + max_buffer_capacity_bytes (server_buffer r)"
      "p + length d \<le> close_offset (server_seq r)"
  shows "\<exists>ts cs' io'.
    schedule P s cs io = Some (s\<lparr>write_offset := Suc p + length d, read_buffer := []\<rparr>, cs', io') \<and>
    tiles (Suc p) (map snd ts) d \<and>
    fst ` set ts \<subseteq> {j \<in> set (ready_list s). \<not> is_buffer_above_threshold (the (cs j))} \<and>
    (\<forall>j \<in> dom cs. conn_out fd cs' io' j = conn_out fd cs io j @ frames_bytes (frames_for j ts)) \<and>
    (\<forall>frs. set frs = snd ` set ts \<and>
      length (bytes_received (server_buffer r)) + length frs < kMaxNumDataIntervalsAllowed \<longrightarrow>
      (\<exists>r' ro'. recv_frames Q i frs r ro = Some (r', ro') \<and> server_drained Q f r' ro' \<and>
        outgoing (sock_fd r') r' ro' = outgoing (sock_fd r) r ro @ d))"
proof -
  have "write_offset s + length (read_buffer s) \<le> 2 ^ 62" using small offset d by simp
  from schedule_correct [OF assms(1) alive room this assms(2), of io] obtain ts cs' io' where
    S: "schedule P s cs io = Some (s\<lparr>write_offset := Suc p + length d, read_buffer := []\<rparr>, cs', io')"
      "tiles (Suc p) (map snd ts) d" "assigned fd cs io ts cs' io'"
      "fst ` set ts \<subseteq> {j \<in> set (ready_list s). \<not> is_buffer_above_threshold (the (cs j))}"
    unfolding offset d by blast
  have "\<exists>r' ro'. recv_frames Q i frs r ro = Some (r', ro') \<and> server_drained Q f r' ro' \<and>
      outgoing (sock_fd r') r' ro' = outgoing (sock_fd r) r ro @ d"
    if "set frs = snd ` set ts" "length (bytes_received (server_buffer r)) + length frs < kMaxNumDataIntervalsAllowed" for frs
  proof -
    have "set frs = set (map snd ts)" "p + length d \<le> 2 ^ 62" using that(1) small by simp_all
    from tiled_frames_received [OF peer S(2) f window(1) this(2) window(2) this(1) that(2)] show ?thesis by blast
  qed
  with S show ?thesis unfolding assigned_def by blast
qed

theorem multipath_delivery_witness:
  "\<exists>ts cs' io'. schedule script_platform
      (sample_server (Right_Server 1 1 (0, 0))\<lparr>ready_list := [1, 2], read_buffer := [10, 20, 30]\<rparr>)
      [1 \<mapsto> sample_conn 3 (Left_Connection 1 True), 2 \<mapsto> sample_conn 4 (Left_Connection 1 True)] (sample_io []) =
    Some (sample_server (Right_Server 1 1 (0, 0))\<lparr>ready_list := [1, 2], write_offset := 4, read_buffer := []\<rparr>, cs', io') \<and>
    tiles 1 (map snd ts) [10, 20, 30] \<and> fst ` set ts \<subseteq> {1, 2 :: nat}"
proof -
  define s where "s = sample_server (Right_Server 1 1 (0, 0))\<lparr>ready_list := [1, 2], read_buffer := [10, 20, 30]\<rparr>"
  define cs :: connections where "cs = [1 \<mapsto> sample_conn 3 (Left_Connection 1 True), 2 \<mapsto> sample_conn 4 (Left_Connection 1 True)]"
  define d :: "byte list" where "d = [10, 20, 30]"
  let ?fd = "\<lambda>j :: nat. if j = 1 then 3 else 4 :: int"
  have fds: "fds_ok ?fd cs" by (auto simp: fds_ok_def cs_def inj_on_def)
  have alive: "\<forall>j \<in> set (ready_list s). \<exists>c. cs j = Some c \<and> sendable c"
    by (simp add: s_def cs_def sendable_def has_status_def)
  have room: "\<exists>j \<in> set (ready_list s). \<not> is_buffer_above_threshold (the (cs j))"
    by (simp add: s_def cs_def is_buffer_above_threshold_def)
  have s: "write_offset s = Suc 0" "d = read_buffer s" by (simp_all add: s_def d_def)
  have small: "Suc 0 + length d \<le> 2 ^ 62" by (simp add: d_def)
  let ?r = "sample_server (Right_Server 1 1 (0, 0))"
  have peer: "received (server_buffer ?r) = {..<0}" unfolding sample_server_drained by simp
  have f: "\<forall>k < length d. d ! (0 + k) = d ! k" by simp
  have window: "0 + length d \<le> total_bytes_read (server_buffer ?r) + max_buffer_capacity_bytes (server_buffer ?r)"
      "0 + length d \<le> close_offset (server_seq ?r)"
    unfolding sample_server_drained by (simp_all add: d_def kStreamReceiveWindowLimit_def kMaxOffset_def)
  from multipath_delivery [OF script_posix fds alive room s small sample_server_drained(1) peer f window,
      where io = "sample_io []" and i = 0]
  obtain ts cs' io' where
    "schedule script_platform s cs (sample_io []) = Some (s\<lparr>write_offset := Suc 0 + length d, read_buffer := []\<rparr>, cs', io')"
    "tiles (Suc 0) (map snd ts) d"
    "fst ` set ts \<subseteq> {j \<in> set (ready_list s). \<not> is_buffer_above_threshold (the (cs j))}"
    by (elim exE conjE) (rule that; assumption)
  then show ?thesis unfolding cs_def [symmetric]
    by (intro exI [of _ ts] exI [of _ cs'] exI [of _ io']) (auto simp: s_def d_def)
qed

section \<open>Frames on a byte stream\<close>

text \<open>
  \<open>read_buffer_\<close> between two events: what is read is appended and delivered as far as
  it is complete.
\<close>

fun feed :: "(u64 \<Rightarrow> byte list \<Rightarrow> 'w \<Rightarrow> 'w option) \<Rightarrow> byte list \<Rightarrow> byte list list \<Rightarrow> 'w \<Rightarrow> (byte list \<times> 'w) option" where
  "feed handle rest [] w = Some (rest, w)"
| "feed handle rest (d # ds) w = do {
     (rest', update, w') \<leftarrow> deliver_loop handle (rest @ d) False w;
     feed handle rest' ds w'
   }"

lemma handle_frames_append:
  "handle_frames handle (frs @ frames) w = Option.bind (handle_frames handle frs w) (handle_frames handle frames)"
  by (induction handle frs w rule: handle_frames.induct) (auto split: Option.bind_split)

lemma feed_frames:
  "rest @ concat ds = frames_bytes frames \<Longrightarrow> frame_parse rest = None \<Longrightarrow> \<forall>fr \<in> set frames. legal_frame fr \<Longrightarrow>
    length (frames_bytes frames) < 2 ^ 62 \<Longrightarrow>
    feed handle rest ds w = map_option (Pair []) (handle_frames handle frames w)"
proof (induction ds arbitrary: rest frames w)
  case Nil
  have "frames = []"
  proof (rule ccontr)
    assume "frames \<noteq> []"
    then obtain offset payload frs where "frames = (offset, payload) # frs" by (cases frames) auto
    then show False
      using Nil.prems frame_parse_frame [of offset payload "frames_bytes frs"] by (simp add: legal_frame_def)
  qed
  then show ?case using Nil.prems(1) by simp
next
  case (Cons d ds)
  have "length (rest @ d) \<le> length (frames_bytes frames)" unfolding Cons.prems(1) [symmetric] by simp
  from take_frames_bytes [OF this Cons.prems(3)] obtain frs todo rest' where
    cut: "frames = frs @ todo" "take (length (rest @ d)) (frames_bytes frames) = frames_bytes frs @ rest'"
      "frame_parse rest' = None" "rest' @ drop (length (rest @ d)) (frames_bytes frames) = frames_bytes todo" .
  have whole: "frames_bytes frames = (rest @ d) @ concat ds" using Cons.prems(1) by simp
  have data: "rest @ d = frames_bytes frs @ rest'" "rest' @ concat ds = frames_bytes todo"
    using cut(2,4) unfolding whole by (simp_all del: append_assoc)
  have legal: "\<forall>fr \<in> set frs. legal_frame fr" "\<forall>fr \<in> set todo. legal_frame fr"
    using Cons.prems(3) cut(1) by auto
  have "length rest' \<le> length (frames_bytes todo)" unfolding data(2) [symmetric] by simp
  then have "length (frames_bytes frs @ rest') < 2 ^ 62" "length (frames_bytes todo) < 2 ^ 62"
    using Cons.prems(4) unfolding cut(1) by simp_all
  note D = deliver_loop_frames [OF legal(1) cut(3) this(1), of handle False w, folded data(1)]
    and IH = Cons.IH [OF data(2) cut(3) legal(2) this(2)]
  show ?case unfolding feed.simps D cut(1) handle_frames_append
    by (cases "handle_frames handle frs w") (simp_all add: IH)
qed

text \<open>
  C3: Framing over TCP.  However the byte stream of a connection is cut into reads, the frames
  that the other half wrote are handed on one by one, in order and whole, and nothing is left
  in the read buffer at their end; a frame that cannot be handled stops both.
\<close>

theorem frames_survive_cuts:
  assumes "concat ds = frames_bytes frames" and "\<forall>fr \<in> set frames. legal_frame fr"
    and "length (frames_bytes frames) < 2 ^ 62"
  shows "feed handle [] ds w = map_option (Pair []) (handle_frames handle frames w)"
  by (rule feed_frames) (use assms in simp_all)

theorem frames_survive_cuts_witness:
  "feed (\<lambda>offset payload w. Some (w @ [(offset, payload)])) [] [[5], [], [2, 7], [8, 0, 1, 9]] [] =
    Some ([], [(5, [7, 8]), (0, [9])])"
proof -
  let ?frames = "[(5, [7, 8]), (0, [9])] :: frame list"
  have bytes: "concat [[5], [], [2, 7], [8, 0, 1, 9]] = frames_bytes ?frames"
    by (simp add: frame_bytes_def varint62_bytes_def varint62_len_def varint62_tag_def)
  show ?thesis
    using frames_survive_cuts [OF bytes, of "\<lambda>offset payload w. Some (w @ [(offset, payload)])" "[]"]
    by (simp add: legal_frame_def length_frame_bytes varint62_len_def)
qed

text \<open>
  One frame.  \<open>SendData\<close> writes for every offset below \<open>2^62\<close> and every payload of at most
  65535 bytes a frame that \<open>IsDeliverable\<close> recognises in front of anything with its offset and
  length, and does not recognise before its last byte has arrived.
\<close>

theorem frame_roundtrip:
  assumes "offset < 2 ^ 62" and "length payload \<le> 65535" and "length rest < 2 ^ 61"
  shows "\<exists>frame. write_frame offset payload = Some frame \<and>
    is_deliverable (frame @ rest) = Some (Some (offset, varint62_len offset, length payload, varint62_len (length payload))) \<and>
    drop (varint62_len offset + varint62_len (length payload)) frame = payload \<and>
    (\<forall>k < length frame. is_deliverable (take k frame) = Some None)"
proof -
  have p: "length payload < 2 ^ 62" using assms(2) by simp
  have len: "length (frame_bytes offset payload) \<le> 65551" "length (frame_bytes offset payload @ rest) < 2 ^ 62"
    using assms(2,3) by (simp_all add: length_frame_bytes varint62_len_def)
  have "is_deliverable (take k (frame_bytes offset payload)) = Some None" if "k < length (frame_bytes offset payload)" for k
    using frame_parse_prefix [OF assms(1) p that] is_deliverable_eq [of "take k (frame_bytes offset payload)"] len(1)
    by simp
  then show ?thesis
    using write_frame_eq [OF assms(1) p] is_deliverable_eq [OF len(2)] frame_parse_frame [OF assms(1) p, of rest]
    by (simp add: frame_bytes_def)
qed

theorem frame_roundtrip_witness:
  "\<exists>frame. write_frame 300 [1, 2] = Some frame \<and> is_deliverable (frame @ [9]) = Some (Some (300, 2, 2, 1))"
  using frame_roundtrip [of 300 "[1, 2]" "[9]"] by (auto simp: varint62_len_def)

text \<open>
  Headers are measured by value.  \<open>IsDeliverable\<close> takes the size of a header from the values
  that it read and not from the bytes: a peer that encodes an offset in more bytes than
  needed, as RFC 9000 allows, has its payload read from the wrong place and the rest of
  the stream out of step.
\<close>

theorem header_size_by_value:
  "is_deliverable [0x40, 5, 1, 0xAA] = Some (Some (5, 1, 1, 1)) \<and>
    deliver_loop (\<lambda>offset payload w. Some (w @ [(offset, payload)])) [0x40, 5, 1, 0xAA] False [] =
      Some ([0xAA], True, [(5, [1])])"
proof -
  have d: "is_deliverable [0x40, 5, 1, 0xAA] = Some (Some (5, 1, 1, 1))" "is_deliverable [0xAA] = Some None"
    using is_deliverable_eq [of "[0x40, 5, 1, 0xAA]"] is_deliverable_eq [of "[0xAA]"]
    by (simp_all add: frame_parse_def varint62_parse_def be_nat_def varint62_len_def)
  then have "deliver_loop (\<lambda>offset payload w. Some (w @ [(offset, payload)])) [0x40, 5, 1, 0xAA] False [] =
      Some ([0xAA], True, [(5, [1])])"
    by (subst deliver_loop.simps, simp, subst deliver_loop.simps, simp)
  then show ?thesis using d(1) by blast
qed

lemma connection_write_returns: "\<exists>c' io'. on_write_event P (connection_class j) c io = Some (c', io')"
proof -
  obtain t o1 where fb: "flush_buffer P (connection_class j) c io = (t, o1)"
    by (cases "flush_buffer P (connection_class j) c io") auto
  define o2 where "o2 = log_event (Modify_Callback (sock_fd t)
      (if write_buffer t \<noteq> [] then EPOLLET OR EPOLLIN OR EPOLLOUT OR EPOLLRDHUP OR EPOLLERR
       else EPOLLET OR EPOLLIN OR EPOLLRDHUP OR EPOLLERR)) o1"
  have "on_write_event P (connection_class j) c io = check_close_fd P (connection_class j) t o2"
    using fb by (simp add: on_write_event_def o2_def)
  then show ?thesis using connection_close_fd [of P j t o2] by (simp add: check_close_fd_def)
qed

section \<open>No byte is lost\<close>

text \<open>
  C7: Writing.  Flushing a socket of either kind moves bytes from the front of its buffer to the
  kernel: what was sent and what still waits are together what they were, no other descriptor is
  written, and the descriptor is closed only with nothing left to write.  What a server
  passes on to its application is appended to that.
\<close>

theorem writing_loses_nothing:
  assumes "posix P"
  shows "(\<exists>c' io'. on_write_event P (connection_class j) c io = Some (c', io') \<and>
      outgoing (sock_fd c) c' io' = outgoing (sock_fd c) c io \<and>
      (\<forall>fd. fd \<noteq> sock_fd c \<longrightarrow> sent_on fd io' = sent_on fd io) \<and>
      (sock_fd c' = sock_fd c \<or> sock_fd c' = - 1 \<and> write_buffer c' = [] \<and> has_status c FD_WAIT_CLOSE)) \<and>
    (\<forall>s' io'. on_write_event P (server_class i) s io = Some (s', io') \<longrightarrow>
      outgoing (sock_fd s) s' io' = outgoing (sock_fd s) s io \<and>
      (\<forall>fd. fd \<noteq> sock_fd s \<longrightarrow> sent_on fd io' = sent_on fd io) \<and>
      (sock_fd s' = sock_fd s \<or> sock_fd s' = - 1 \<and> write_buffer s' = [] \<and> has_status s FD_WAIT_CLOSE)) \<and>
    (0 \<le> sock_fd s \<longrightarrow> (\<exists>s' io'. write_data_to_fd P i s pv io = (s', io') \<and>
      outgoing (sock_fd s) s' io' = outgoing (sock_fd s) s io @ pv \<and> sock_fd s' = sock_fd s \<and>
      (\<forall>fd. fd \<noteq> sock_fd s \<longrightarrow> sent_on fd io' = sent_on fd io)))"
proof (intro conjI allI impI)
  obtain c' io' where "on_write_event P (connection_class j) c io = Some (c', io')"
    using connection_write_returns by blast
  then show "\<exists>c' io'. on_write_event P (connection_class j) c io = Some (c', io') \<and>
      outgoing (sock_fd c) c' io' = outgoing (sock_fd c) c io \<and>
      (\<forall>fd. fd \<noteq> sock_fd c \<longrightarrow> sent_on fd io' = sent_on fd io) \<and>
      (sock_fd c' = sock_fd c \<or> sock_fd c' = - 1 \<and> write_buffer c' = [] \<and> has_status c FD_WAIT_CLOSE)"
    using connection.on_write_event_conserves [OF assms, of j c io c' io'] unfolding outgoing_def by blast
next
  fix s' io' assume run: "on_write_event P (server_class i) s io = Some (s', io')"
  note W = server.on_write_event_conserves [OF assms run]
  show "outgoing (sock_fd s) s' io' = outgoing (sock_fd s) s io" using W(1) by (simp add: outgoing_def)
  show "sent_on fd io' = sent_on fd io" if "fd \<noteq> sock_fd s" for fd using W(2) that .
  show "sock_fd s' = sock_fd s \<or> sock_fd s' = - 1 \<and> write_buffer s' = [] \<and> has_status s FD_WAIT_CLOSE"
    using W(4) by blast
next
  assume open_fd: "0 \<le> sock_fd s"
  obtain s' io' where run: "write_data_to_fd P i s pv io = (s', io')"
    by (cases "write_data_to_fd P i s pv io")
  then show "\<exists>s' io'. write_data_to_fd P i s pv io = (s', io') \<and>
      outgoing (sock_fd s) s' io' = outgoing (sock_fd s) s io @ pv \<and> sock_fd s' = sock_fd s \<and>
      (\<forall>fd. fd \<noteq> sock_fd s \<longrightarrow> sent_on fd io' = sent_on fd io)"
    using write_data_to_fd_conserves [OF assms open_fd run] by blast
qed

theorem writing_loses_nothing_witness:
  "\<exists>c' io'. on_write_event script_platform (connection_class 1)
      (sample_conn 3 (Left_Connection 1 True)\<lparr>write_buffer := [1, 2, 3]\<rparr>) (sample_io []) = Some (c', io') \<and>
    outgoing 3 c' io' = [1, 2, 3]"
proof -
  let ?c = "sample_conn 3 (Left_Connection 1 True)\<lparr>write_buffer := [1, 2, 3]\<rparr>"
  have "outgoing (sock_fd ?c) ?c (sample_io []) = [1, 2, 3]" "sock_fd ?c = 3" by (simp_all add: outgoing_def)
  then show ?thesis using conjunct1 [OF writing_loses_nothing [OF script_posix, of 1 ?c "sample_io []"]] by metis
qed

section \<open>The first message of a connection\<close>

text \<open>
  C28: Metadata.  What a connection of the client's half writes first is a frame of offset zero
  with the type \<open>PROXY_MESSAGE_META\<close>, and the other half reads from it the same user, session and
  original destination.
\<close>

theorem metadata_roundtrip:
  assumes "conn_role c = Right_Connection uuid sid ip port b" and "uuid < 2 ^ 62" and "sid < 2 ^ 62"
  shows "\<exists>data. write_meta_data P j c io = append_and_flush P j c (frame_bytes 0 (PROXY_MESSAGE_META # data)) io \<and>
    length data \<le> 22 \<and>
    (\<exists>r. read_uint8 (reader_new (PROXY_MESSAGE_META # data) (length (PROXY_MESSAGE_META # data))) =
        (Some PROXY_MESSAGE_META, r) \<and> parse_metadata r = Some (uuid, sid, (ip, port)))"
proof -
  let ?data = "metadata_bytes uuid sid (ip, port)"
  let ?msg = "PROXY_MESSAGE_META # ?data"
  have len: "length ?data \<le> 22" "length ?msg < 2 ^ 64"
    using length_metadata_bytes [of uuid sid "(ip, port)"] by simp_all
  obtain r where r: "read_uint8 (reader_new ?msg (length ?msg)) = (Some PROXY_MESSAGE_META, r)" "rd_ok r"
      "rd_order r = NETWORK_BYTE_ORDER" "unread r = ?data @ []"
    using read_type(1) [OF len(2) refl] by auto
  have "parse_metadata r = Some (uuid, sid, (ip, port))"
    using parse_metadata_eq [OF r(2-4) assms(2,3)] .
  then show ?thesis
    using write_meta_data_eq [OF assms, of P j io] len(1) r(1) by (intro exI [of _ ?data] conjI exI [of _ r])
qed

theorem metadata_roundtrip_witness:
  "\<exists>data. write_meta_data script_platform 1 (sample_conn 3 (Right_Connection 7 8 9 10 False)) (sample_io []) =
      append_and_flush script_platform 1 (sample_conn 3 (Right_Connection 7 8 9 10 False))
        (frame_bytes 0 (PROXY_MESSAGE_META # data)) (sample_io []) \<and> length data \<le> 22"
proof -
  have "conn_role (sample_conn 3 (Right_Connection 7 8 9 10 False)) = Right_Connection 7 8 9 10 False" by simp
  from metadata_roundtrip [OF this, of script_platform 1 "sample_io []"] show ?thesis by auto
qed

end
