(* ===== verification/Proxy_Lifecycle.thy ===== *)
theory Proxy_Lifecycle
  imports Sample_Proxy
begin

text \<open>
  The properties of the life of the proxy's objects: reading until the kernel has no more,
  closing in both directions, deletion, the session table, and the orders of events that end
  badly.
\<close>

section \<open>Reading\<close>

text \<open>
  C27: The loop of a connection.  Once the kernel has nothing more for now, \<open>OnReadEvent\<close> stops
  with everything it had in the read buffer.  At the end of the stream it closes the
  descriptor and stops, but when bytes still wait to be written its check ends the process: the
  proxy does not survive a peer that closes first.
\<close>

theorem connection_read_loop:
  assumes "reads P fd (kBufferSize + 500) (kernel io) ds eof k'"
  shows "(\<not> eof \<longrightarrow> (\<exists>c' io'. conn_read_loop P j fd c False io = Some (c', ds \<noteq> [], io') \<and>
      read_buffer c' = read_buffer c @ concat ds \<and> sock_fd c' = sock_fd c \<and> write_buffer c' = write_buffer c)) \<and>
    (eof \<and> sock_fd c = fd \<and> 0 < fd \<and> closed_fails P \<longrightarrow>
      (if write_buffer c = []
       then \<exists>c' io'. conn_read_loop P j fd c False io = Some (c', ds \<noteq> [], io') \<and>
         read_buffer c' = read_buffer c @ concat ds \<and> sock_fd c' = - 1 \<and> has_status c' ENTITY_WAIT_CLOSE
       else conn_read_loop P j fd c False io = None))"
proof (intro conjI impI)
  show "\<exists>c' io'. conn_read_loop P j fd c False io = Some (c', ds \<noteq> [], io') \<and>
      read_buffer c' = read_buffer c @ concat ds \<and> sock_fd c' = sock_fd c \<and> write_buffer c' = write_buffer c"
    if "\<not> eof"
    using conn_read_loop_block [OF assms that refl, of j c False] by simp
next
  assume "eof \<and> sock_fd c = fd \<and> 0 < fd \<and> closed_fails P"
  then have fin: "eof" "sock_fd c = fd" "0 < fd" "closed_fails P" by blast+
  have reads: "reads P fd (kBufferSize + 500) (kernel io) ds True k'" using assms fin(1) by simp
  show "if write_buffer c = []
      then \<exists>c' io'. conn_read_loop P j fd c False io = Some (c', ds \<noteq> [], io') \<and>
         read_buffer c' = read_buffer c @ concat ds \<and> sock_fd c' = - 1 \<and> has_status c' ENTITY_WAIT_CLOSE
      else conn_read_loop P j fd c False io = None"
    using conn_read_loop_end [OF reads fin(2-4), of j False] by auto
qed

theorem connection_read_loop_witness:
  "conn_read_loop script_platform 1 3 (sample_conn 3 (Left_Connection 1 True)\<lparr>write_buffer := [9]\<rparr>) False
      (sample_io [Some [1, 2], Some []]) = None \<and>
    (\<exists>c' io'. conn_read_loop script_platform 1 3 (sample_conn 3 (Left_Connection 1 True)) False
      (sample_io [Some [1, 2], Some []]) = Some (c', True, io') \<and> read_buffer c' = [1, 2])"
proof -
  let ?c = "sample_conn 3 (Left_Connection 1 True)"
  have r: "reads script_platform 3 (kBufferSize + 500) (kernel (sample_io [Some [1, 2], Some []])) [[1, 2]] True []"
    using script_reads_end [of "[[1, 2]]" "kBufferSize + 500" 3] by (simp add: kBufferSize_def)
  have "conn_read_loop script_platform 1 3 (?c\<lparr>write_buffer := [9]\<rparr>) False (sample_io [Some [1, 2], Some []]) = None"
    using connection_read_loop [OF r, of 1 "?c\<lparr>write_buffer := [9]\<rparr>"] by (simp add: script_closed)
  moreover have "\<exists>c' io'. conn_read_loop script_platform 1 3 ?c False (sample_io [Some [1, 2], Some []]) =
      Some (c', True, io') \<and> read_buffer c' = [1, 2]"
    using connection_read_loop [OF r, of 1 ?c] by (auto simp: script_closed)
  ultimately show ?thesis by blast
qed

text \<open>
  The loop of a server.  With finitely much to read, \<open>OnReadEvent\<close> stops: it has read a prefix
  of the pieces, at most the target and one buffer more, and it stopped because the target is
  reached or nothing is left; the bytes are at the end of the read buffer.  A run that
  returns has never dropped or repeated a byte.
\<close>

theorem server_read_loop_stops:
  assumes "posix P" and "reads P fd kBufferSize (kernel io) ds False k'"
  shows "(\<exists>m s' io'. server_read_loop P i fd target 0 s io = Some (int (length (concat (take m ds))), s', io') \<and>
      read_buffer s' = read_buffer s @ concat (take m ds) \<and> sock_fd s' = sock_fd s \<and>
      int (length (concat (take m ds))) \<le> max 0 (target - 1) + int kBufferSize \<and>
      (length ds \<le> m \<or> target \<le> int (length (concat (take m ds))))) \<and>
    (\<forall>fd' target' got t o1 n t' o2. server_read_loop P i fd' target' got t o1 = Some (n, t', o2) \<longrightarrow>
      (\<exists>d. read_buffer t' = read_buffer t @ d \<and> n = got + int (length d)))"
proof (intro conjI allI impI)
  show "\<exists>m s' io'. server_read_loop P i fd target 0 s io = Some (int (length (concat (take m ds))), s', io') \<and>
      read_buffer s' = read_buffer s @ concat (take m ds) \<and> sock_fd s' = sock_fd s \<and>
      int (length (concat (take m ds))) \<le> max 0 (target - 1) + int kBufferSize \<and>
      (length ds \<le> m \<or> target \<le> int (length (concat (take m ds))))"
    using server_read_loop_returns [OF assms _ refl, of 0 target i s] by (simp, metis)
next
  fix fd' target' got t o1 n t' o2
  assume "server_read_loop P i fd' target' got t o1 = Some (n, t', o2)"
  from server_read_loop_collects [OF this] show "\<exists>d. read_buffer t' = read_buffer t @ d \<and> n = got + int (length d)"
    by simp
qed

theorem server_read_loop_stops_witness:
  "\<exists>m s' io'. server_read_loop script_platform 0 9 3 0 (sample_server (Right_Server 1 1 (0, 0)))
      (sample_io [Some [1, 2], Some [3, 4], Some [5]]) = Some (int (length (concat (take m [[1, 2], [3, 4], [5 :: byte]]))), s', io') \<and>
    read_buffer s' = concat (take m [[1, 2], [3, 4], [5 :: byte]])"
proof -
  have r: "reads script_platform 9 kBufferSize (kernel (sample_io [Some [1, 2], Some [3, 4], Some [5]]))
      [[1, 2], [3, 4], [5]] False []"
    using script_reads [of "[[1, 2], [3, 4], [5]]" kBufferSize 9] by (simp add: kBufferSize_def)
  show ?thesis
    using conjunct1 [OF server_read_loop_stops [OF script_posix r, of 0 3 "sample_server (Right_Server 1 1 (0, 0))"]]
    unfolding sample_server_fields append_Nil by blast
qed

section \<open>The objects of a process\<close>

text \<open>
  C2: Life and death.  Whatever events happen in whatever order, from a process without objects:
  the deletion of an object is posted at most once, exactly for the objects that are marked as
  destroyed, only after the descriptor was closed, and never for an object that is gone.  So
  the posted tasks run without fault, and they remove exactly those objects.
\<close>

theorem world_safety:
  assumes "reachable P w" and "posix P"
  shows "distinct (posted (w_io w)) \<and>
    (\<forall>j. Connection j \<in> set (posted (w_io w)) \<longleftrightarrow> (\<exists>c. w_conns w j = Some c \<and> destroyed c)) \<and>
    (\<forall>i. Server i \<in> set (posted (w_io w)) \<longleftrightarrow> (\<exists>s. w_servers w i = Some s \<and> destroyed s)) \<and>
    (\<forall>j c. w_conns w j = Some c \<longrightarrow>
      (has_status c FD_CLOSED \<longrightarrow> sock_fd c = - 1) \<and> (destroyed c \<longrightarrow> sock_fd c \<le> 0)) \<and>
    (\<forall>i s. w_servers w i = Some s \<longrightarrow>
      (has_status s FD_CLOSED \<longrightarrow> sock_fd s = - 1) \<and> (destroyed s \<longrightarrow> sock_fd s \<le> 0)) \<and>
    (\<exists>w'. handle_event P Run_Tasks w = Some w' \<and> posted (w_io w') = [] \<and>
      w_conns w' = (\<lambda>j. if Connection j \<in> set (posted (w_io w)) then None else w_conns w j) \<and>
      w_servers w' = (\<lambda>i. if Server i \<in> set (posted (w_io w)) then None else w_servers w i))"
proof -
  have inv: "world_inv w" using assms by (rule reachable_inv)
  have "\<exists>w'. handle_event P Run_Tasks w = Some w' \<and> posted (w_io w') = [] \<and>
      w_conns w' = (\<lambda>j. if Connection j \<in> set (posted (w_io w)) then None else w_conns w j) \<and>
      w_servers w' = (\<lambda>i. if Server i \<in> set (posted (w_io w)) then None else w_servers w i)"
    unfolding handle_event.simps execute_tasks_eq [OF inv] by simp
  with inv show ?thesis unfolding world_inv_def sock_inv_def by blast
qed

theorem world_safety_witness:
  "\<exists>w w'. reachable script_platform w \<and> w_conns w 0 \<noteq> None \<and> posted (w_io w) = [Connection 0] \<and>
    handle_event script_platform Run_Tasks w = Some w' \<and> w_conns w' 0 = None"
proof -
  let ?w0 = "empty_world [] :: byte list option list world"
  obtain c where c: "connection_new script_platform [] 5 TCP_CONNECTED None (Left_Connection 0 False) = Some c"
      "sock_fd c = 5" "\<not> destroyed c" "\<not> has_status c ENTITY_CLOSED"
    using script_connection_new [of 5 TCP_CONNECTED None "Left_Connection 0 False"] by (auto simp: has_status_def)
  obtain w1 where w1: "handle_event script_platform (Accept_Left 5) ?w0 = Some w1"
      "w_conns w1 0 = Some c" "posted (w_io w1) = []"
    using c by (auto simp: left_conn_create_def empty_world_def)
  obtain w2 where w2: "handle_event script_platform (Conn_Shutdown 0) w1 = Some w2" "w_conns w2 0 \<noteq> None"
      "posted (w_io w2) = [Connection 0]"
    using w1(2,3) c by (auto simp: on_conn_def close_fd_entity_open connection_class_def base_delete_self_def)
  have reached: "reachable script_platform w2" by (intro reach_event [OF reach_event [OF reach_empty w1(1)] w2(1)])
  obtain w3 where "handle_event script_platform Run_Tasks w2 = Some w3"
      "w_conns w3 = (\<lambda>j. if Connection j \<in> set (posted (w_io w2)) then None else w_conns w2 j)"
    using world_safety [OF reached script_posix] by blast
  then show ?thesis using reached w2(2,3) by (intro exI [of _ w2] exI [of _ w3]) simp
qed



section \<open>The session table\<close>

text \<open>
  Sessions.  A pair of user and session that is registered is found and no other pair is
  affected; it can be registered once; removing it gives back the table as it was, also when it was
  the last session of its user; removing it twice fails.
\<close>

theorem session_registry:
  assumes "find_session m uuid sid = None"
  shows "\<exists>m1 m2. register_sink v uuid sid m = Some m1 \<and> unregister_sink uuid sid m1 = Some m2 \<and>
      (\<forall>u s. find_session m1 u s = (if u = uuid \<and> s = sid then Some v else find_session m u s)) \<and>
      register_sink v' uuid sid m1 = None \<and> find_session m2 = find_session m \<and> unregister_sink uuid sid m2 = None"
proof -
  obtain m1 m2 where m: "register_sink v uuid sid m = Some m1" "unregister_sink uuid sid m1 = Some m2"
      "find_session m2 = find_session m"
    using sessions.reg_unreg [OF assms] by blast
  obtain m1' where m1': "register_sink v uuid sid m = Some m1'"
      "\<forall>u s. find_session m1' u s = (if u = uuid \<and> s = sid then Some v else find_session m u s)"
    using sessions.reg_law [OF assms] by blast
  have law: "\<forall>u s. find_session m1 u s = (if u = uuid \<and> s = sid then Some v else find_session m u s)"
    using m(1) m1' by simp
  then have "find_session m1 uuid sid = Some v" by simp
  then have "register_sink v' uuid sid m1 = None" by (rule sessions.reg_twice)
  then show ?thesis using m law sessions.unreg_twice [OF m(2)] by blast
qed

theorem session_registry_witness:
  "\<exists>m1 m2. register_sink 5 1 2 [1 \<mapsto> [1 \<mapsto> 0]] = Some m1 \<and> unregister_sink 1 2 m1 = Some m2 \<and>
    find_session m2 = find_session [1 \<mapsto> [1 \<mapsto> 0]]"
proof -
  have "find_session [1 \<mapsto> [1 \<mapsto> 0]] 1 2 = None" by (simp add: find_session_def)
  from session_registry [OF this] show ?thesis by blast
qed

section \<open>Orders of events that end the process\<close>

text \<open>
  A destination that cannot be reached.  When the socket of a new session cannot be set up
  or connected, the server deletes itself before its session was registered, and removing
  that session is a failed check: the metadata of one client ends the whole process.
\<close>

theorem failed_connect_is_fatal:
  assumes "server_role s = Right_Server uuid sid addr" and "\<not> destroyed s" and "\<not> has_status s ENTITY_CLOSED"
    and "find_session (sessions io) uuid sid = None"
    and "\<not> fst (sys_reuse_addr P (kernel io) (sock_fd s))"
  shows "right_asyn_connect P i s io = None"
  by (rule connect_failure_fatal [OF assms])

theorem failed_connect_is_fatal_witness:
  "right_asyn_connect (script_platform\<lparr>sys_reuse_addr := \<lambda>k fd. (False, k)\<rparr>) 0
    (sample_server (Right_Server 2 1 (0, 0))) (sample_io []) = None"
  by (rule failed_connect_is_fatal [where uuid = 2 and sid = 1 and addr = "(0, 0)"])
    (simp_all add: has_status_def find_session_def)

lemma write_meta_data_returns:
  assumes "conn_role c = Right_Connection uuid sid ip port b" "uuid < 2 ^ 62" "sid < 2 ^ 62"
  shows "\<exists>c' io'. write_meta_data P j c io = Some (c', io') \<and> server_ref c' = server_ref c"
proof -
  obtain data where "write_meta_data P j c io = append_and_flush P j c (frame_bytes 0 (PROXY_MESSAGE_META # data)) io"
    using write_meta_data_eq [OF assms] by blast
  then show ?thesis using append_and_flush_returns append_and_flush_ref by metis
qed

text \<open>Telling the connections of a server that it closes: each returns, and no other object is touched.\<close>

lemma conn_notify_close_returns: "\<exists>c' io'. conn_notify P j PROXY_CLOSE c io = Some (c', io')"
  using connection_close_fd by (auto simp: conn_notify_def check_close_fd_def)

lemma each_notify_close:
  "\<forall>k \<in> set ks. \<exists>c. w_conns w k = Some c \<Longrightarrow> j \<notin> set ks \<Longrightarrow>
    \<exists>w'. each (\<lambda>k. on_conn k (conn_notify P k PROXY_CLOSE)) ks w = Some w' \<and> w_servers w' = w_servers w \<and>
      w_conns w' j = w_conns w j"
proof (induction ks arbitrary: w)
  case (Cons k ks)
  obtain c where c: "w_conns w k = Some c" using Cons.prems(1) by auto
  obtain c' io' where n: "conn_notify P k PROXY_CLOSE c (w_io w) = Some (c', io')" using conn_notify_close_returns by blast
  define w1 where "w1 = w\<lparr>w_conns := (w_conns w)(k \<mapsto> c'), w_io := io'\<rparr>"
  have step: "on_conn k (conn_notify P k PROXY_CLOSE) w = Some w1" using c n by (simp add: on_conn_def w1_def)
  have "\<forall>k \<in> set ks. \<exists>c. w_conns w1 k = Some c" using Cons.prems(1) by (auto simp: w1_def)
  then obtain w' where "each (\<lambda>k. on_conn k (conn_notify P k PROXY_CLOSE)) ks w1 = Some w'" "w_servers w' = w_servers w1"
      "w_conns w' j = w_conns w1 j" using Cons.IH [of w1] Cons.prems(2) by auto
  then show ?case using step Cons.prems(2) by (simp add: w1_def)
qed simp

lemma left_server_close_entity:
  assumes s: "w_servers w i = Some s" "is_Left_Server (server_role s)" "has_status s FD_CLOSED"
    and ready: "\<forall>k \<in> set (ready_list s). \<exists>c. w_conns w k = Some c" "j \<notin> set (ready_list s)"
  shows "\<exists>w' s'. server_close_entity P i w = Some w' \<and> w_servers w' i = Some s' \<and> destroyed s' \<and> ready_list s' = [] \<and>
    has_status s' FD_CLOSED \<and> (has_status s' ENTITY_WAIT_CLOSE \<longleftrightarrow> has_status s ENTITY_WAIT_CLOSE) \<and>
    read_buffer s' = read_buffer s \<and> server_role s' = server_role s \<and> w_conns w' j = w_conns w j"
proof -
  define s1 where "s1 = raise_status ENTITY_CLOSED s"
  have s1: "has_status s1 FD_CLOSED" "has_status s1 ENTITY_CLOSED" "ready_list s1 = ready_list s" "read_buffer s1 = read_buffer s"
    "server_role s1 = server_role s" "has_status s1 ENTITY_WAIT_CLOSE \<longleftrightarrow> has_status s ENTITY_WAIT_CLOSE"
    using s(3) by (simp_all add: s1_def has_status_def raise_status_eq status_bits) (simp_all add: raise_status_def ENTITY_CLOSED_def)
  define w1 where "w1 = w\<lparr>w_servers := (w_servers w)(i \<mapsto> s1)\<rparr>"
  have live: "\<forall>k \<in> set (ready_list s). \<exists>c. w_conns w1 k = Some c" using ready(1) by (simp add: w1_def)
  obtain w2 where w2: "each (\<lambda>k. on_conn k (conn_notify P k PROXY_CLOSE)) (ready_list s) w1 = Some w2"
      "w_servers w2 = w_servers w1" "w_conns w2 j = w_conns w1 j"
    using each_notify_close [OF live ready(2)] by blast
  define s2 where "s2 = s1\<lparr>ready_list := []\<rparr>"
  have fields: "has_status s2 f \<longleftrightarrow> has_status s1 f" for f by (simp add: s2_def has_status_def)
  obtain b io' where del: "check_to_delete_self (server_class i) s2 (w_io w2) = Some (s2\<lparr>destroyed := True\<rparr>, io')"
    using s1(1,2,5) s(2) fields by (cases "destroyed s2"; cases "server_role s")
      (auto simp: check_to_delete_self_def server_class_def server_delete_self_def base_delete_self_def s2_def)
  have "server_close_entity P i w = Some (w2\<lparr>w_servers := (w_servers w2)(i \<mapsto> s2\<lparr>destroyed := True\<rparr>), w_io := io'\<rparr>)"
    using s(1) w2 del s1(3) by (simp add: server_close_entity_def on_server_def s1_def [symmetric] w1_def [symmetric] s2_def)
      (simp add: w1_def)
  then show ?thesis using w2 s1 by (simp add: w1_def s2_def has_status_def)
qed

lemma ready_live:
  "\<forall>k \<in> set ks. \<exists>c. cs k = Some c \<Longrightarrow> \<exists>b. ready_goodput P cs ks b0 = Some b"
  "\<forall>k \<in> set ks. \<exists>c. cs k = Some c \<Longrightarrow> \<exists>n. buffer_full_connections cs ks = Some n \<and> n \<le> length ks \<and>
    (\<forall>k c. k \<in> set ks \<and> cs k = Some c \<and> \<not> is_buffer_above_threshold c \<longrightarrow> n < length ks)"
proof -
  show "\<forall>k \<in> set ks. \<exists>c. cs k = Some c \<Longrightarrow> \<exists>b. ready_goodput P cs ks b0 = Some b"
    by (induction ks arbitrary: b0) auto
  show "\<forall>k \<in> set ks. \<exists>c. cs k = Some c \<Longrightarrow> \<exists>n. buffer_full_connections cs ks = Some n \<and> n \<le> length ks \<and>
      (\<forall>k c. k \<in> set ks \<and> cs k = Some c \<and> \<not> is_buffer_above_threshold c \<longrightarrow> n < length ks)"
  proof (induction ks)
    case (Cons k ks)
    then obtain n c where "buffer_full_connections cs ks = Some n" "n \<le> length ks" "cs k = Some c"
        "\<forall>k c. k \<in> set ks \<and> cs k = Some c \<and> \<not> is_buffer_above_threshold c \<longrightarrow> n < length ks" by auto
    then show ?case by fastforce
  qed simp
qed

lemma server_refill_returns:
  assumes "server_budget_alarm s = Some al" "alarm_inv al" "\<forall>k \<in> set (ready_list s). \<exists>c. cs k = Some c"
  shows "\<exists>s'. server_refill P cs k s = Some s' \<and> io_status s' = io_status s \<and> sock_fd s' = sock_fd s \<and>
    read_buffer s' = read_buffer s \<and> destroyed s' = destroyed s \<and> server_role s' = server_role s \<and> ready_list s' = ready_list s"
proof -
  obtain b where b: "ready_goodput P cs (ready_list s) 0 = Some b" using ready_live(1) [OF assms(3)] by blast
  obtain al' where "alarm_update al (clock_now P k + kScheduleInterval) 0 = Some al'" using alarm_update_inv [OF assms(2)] by blast
  then show ?thesis using assms(1) b by (simp add: server_refill_def update_read_budget_rate_def Let_def)
qed

text \<open>The application has closed: the reading loop closes the descriptor and returns.\<close>

lemma server_read_loop_eof:
  assumes eof: "sys_read P (kernel io) (sock_fd s) kBufferSize = (Some [], k)" and closed: "closed_fails P"
    and s: "0 < sock_fd s" "\<not> has_status s ENTITY_CLOSED"
  shows "\<exists>s' io'. server_read_loop P i (sock_fd s) target 0 s io = Some (0, s', io') \<and> has_status s' FD_CLOSED \<and>
    has_status s' ENTITY_WAIT_CLOSE \<and> read_buffer s' = read_buffer s \<and> server_role s' = server_role s \<and>
    ready_list s' = ready_list s"
proof -
  define s1 where "s1 = (raise_status ENTITY_WAIT_CLOSE_IF_FD_CLOSED s)\<lparr>sock_fd := - 1\<rparr>"
  obtain io1 where close: "close_fd P (server_class i) s (io\<lparr>kernel := k\<rparr>) = Some (s1, io1)" "kernel io1 = sys_close P k (sock_fd s)"
    using s by (simp add: close_fd_def check_to_delete_self_def has_status_def raise_status_eq status_bits_zero s1_def)
  obtain k2 where "sys_read P (kernel io1) (sock_fd s) kBufferSize = (None, k2)"
    using closed unfolding close(2) closed_fails_def by (metis prod.collapse)
  then have last: "server_read_loop P i (sock_fd s) target 0 s1 io1 = Some (0, s1, io1\<lparr>kernel := k2\<rparr>)"
    by (subst server_read_loop.simps) simp
  have "server_read_loop P i (sock_fd s) target 0 s io = Some (0, s1, io1\<lparr>kernel := k2\<rparr>)"
    using eof close(1) last by (subst server_read_loop.simps) simp
  then show ?thesis by (simp add: s1_def has_status_def raise_status_eq status_bits) (simp add: raise_status_def)
qed

text \<open>The budget alarm that meets the end of the stream: the server is destroyed, the waiting connection is not told.\<close>

lemma budget_alarm_eof:
  assumes s: "w_servers w i = Some s" "is_Left_Server (server_role s)" "read_buffer s = []" "0 < sock_fd s"
      "\<not> has_status s ENTITY_CLOSED" "server_budget_alarm s = Some al" "alarm_inv al"
    and ready: "\<forall>k \<in> set (ready_list s). \<exists>c. w_conns w k = Some c" "k \<in> set (ready_list s)" "w_conns w k = Some ck"
      "\<not> is_buffer_above_threshold ck" "j \<notin> set (ready_list s)"
    and eof: "fst (sys_read P (kernel (w_io w)) (sock_fd s) kBufferSize) = Some []" and closed: "closed_fails P"
  shows "\<exists>w' s'. handle_event P (Server_Budget_Alarm i) w = Some w' \<and> w_servers w' i = Some s' \<and> destroyed s' \<and>
    w_conns w' j = w_conns w j"
proof -
  define s0 where "s0 = s\<lparr>server_budget_alarm := Some (alarm_event al)\<rparr>"
  have live0: "\<forall>k \<in> set (ready_list s0). \<exists>c. w_conns w k = Some c" using ready(1) by (simp add: s0_def)
  have "server_budget_alarm s0 = Some (alarm_event al)" "alarm_inv (alarm_event al)"
    using alarm_on_epoll_inv [OF s(7)] by (simp_all add: s0_def alarm_event_def)
  then obtain s1 where s1: "server_refill P (w_conns w) (kernel (w_io w)) s0 = Some s1" "io_status s1 = io_status s"
      "sock_fd s1 = sock_fd s" "read_buffer s1 = []" "server_role s1 = server_role s" "ready_list s1 = ready_list s"
    using server_refill_returns [OF _ _ live0, of _ P "kernel (w_io w)"] s(3) by (auto simp: s0_def)
  define w1 where "w1 = w\<lparr>w_servers := (w_servers w)(i \<mapsto> s1)\<rparr>"
  obtain n where n: "buffer_full_connections (w_conns w) (ready_list s) = Some n" "n < length (ready_list s)"
    using ready_live(2) [OF ready(1)] ready(2-4) by blast
  obtain k1 where "sys_read P (kernel (w_io w)) (sock_fd s1) kBufferSize = (Some [], k1)" using eof s1(3) by (metis prod.collapse)
  from server_read_loop_eof [OF this closed] s(4,5) s1(2,3)
  obtain s2 io2 where s2: "server_read_loop P i (sock_fd s1) (budget_remaining (server_budget s1)) 0 s1 (w_io w) = Some (0, s2, io2)"
      "has_status s2 FD_CLOSED" "has_status s2 ENTITY_WAIT_CLOSE" "read_buffer s2 = []" "server_role s2 = server_role s"
      "ready_list s2 = ready_list s"
    using s1(4-6) by (fastforce simp: has_status_def)
  define w2 where "w2 = w\<lparr>w_servers := (w_servers w)(i \<mapsto> s2), w_io := io2\<rparr>"
  have w2: "w_servers w2 i = Some s2" "w_conns w2 = w_conns w" by (simp_all add: w2_def)
  have "\<forall>k \<in> set (ready_list s2). \<exists>c. w_conns w2 k = Some c" "j \<notin> set (ready_list s2)" "is_Left_Server (server_role s2)"
    using ready(1,5) s2(5,6) s(2) w2 by simp_all
  from left_server_close_entity [OF w2(1) this(3) s2(2) this(1,2), of P]
  obtain w3 s3 where w3: "server_close_entity P i w2 = Some w3" "w_servers w3 i = Some s3" "destroyed s3" "ready_list s3 = []"
      "has_status s3 FD_CLOSED" "has_status s3 ENTITY_WAIT_CLOSE" "read_buffer s3 = []" "is_Left_Server (server_role s3)"
      "w_conns w3 j = w_conns w j"
    using s2(3-5) s(2) w2(2) by auto
  have "server_on_read_event P i (sock_fd s) w1 = Some w3"
    using s2(1) s1(3) w3(1) s2(3,4) budget_remaining_nonneg [of "server_budget s1"]
    by (simp add: server_on_read_event_def w1_def server_check_close_entity_def Let_def w2_def [symmetric] w2(1))
  moreover obtain w4 s4 where w4: "server_close_entity P i w3 = Some w4" "w_servers w4 i = Some s4" "destroyed s4"
      "w_conns w4 j = w_conns w j"
    using left_server_close_entity [OF w3(2,8,5), of j P] w3(4,9) by auto
  ultimately have "server_on_budget_alarm P i (w\<lparr>w_servers := (w_servers w)(i \<mapsto> s0)\<rparr>) = Some w4"
    using s1 n s(4) w3(2,5-7)
    by (simp add: server_on_budget_alarm_def on_server_def w1_def [symmetric] do_when_def)
      (simp add: w1_def server_check_close_entity_def)
  then have "handle_event P (Server_Budget_Alarm i) w = Some w4" using s(1,6) by (simp add: on_server_def s0_def)
  then show ?thesis using w4(2-4) by blast
qed

text \<open>
  C38: A dangling server.  Of the connections of a client's server some are ready and one still waits to
  be connected when the application closes its socket.  The server's budget alarm reads the end of the stream;
  \<open>CloseEntity\<close> tells the connections in \<open>ready_list_\<close> only, and the server deletes itself.
  The waiting connection keeps its pointer, and the event that it is connected follows it to an object
  that is gone.
\<close>

theorem waiting_connection_dangles:
  assumes w: "reachable P w" "posix P" "closed_fails P" "posted (w_io w) = []"
    and s: "w_servers w i = Some s" "server_role s = Left_Server connected waiting origin" "read_buffer s = []"
      "0 < sock_fd s" "\<not> has_status s ENTITY_CLOSED" "server_budget_alarm s = Some al" "alarm_inv al"
    and ready: "\<forall>k \<in> set (ready_list s). \<exists>c. w_conns w k = Some c" "k \<in> set (ready_list s)" "w_conns w k = Some ck"
      "\<not> is_buffer_above_threshold ck"
    and eof: "fst (sys_read P (kernel (w_io w)) (sock_fd s) kBufferSize) = Some []"
    and c: "j \<notin> set (ready_list s)" "w_conns w j = Some c" "server_ref c = Some i" "sock_status c = TCP_CONNECTING"
      "conn_role c = Right_Connection uuid sid ip port False" "uuid < 2 ^ 62" "sid < 2 ^ 62"
  shows "\<exists>w1 w2. handle_event P (Server_Budget_Alarm i) w = Some w1 \<and>
    handle_event P Run_Tasks w1 = Some w2 \<and> w_conns w2 j = Some c \<and> w_servers w2 i = None \<and>
    on_conn j (\<lambda>c. write_meta_data P j (c\<lparr>sock_status := TCP_CONNECTED\<rparr>)) w2 \<noteq> None \<and>
    handle_event P (Conn_Event j fd EPOLLOUT) w2 = None"
proof -
  have left: "is_Left_Server (server_role s)" using s(2) by simp
  obtain w1 s1 where w1: "handle_event P (Server_Budget_Alarm i) w = Some w1" "w_servers w1 i = Some s1" "destroyed s1"
      "w_conns w1 j = Some c"
    using budget_alarm_eof [OF s(1) left s(3-7) ready c(1) eof w(3)] c(2) by auto
  have inv: "world_inv w1" by (rule handle_event_inv [OF w(2) reachable_inv [OF w(1,2)] w1(1)])
  have "\<not> destroyed c" using reachable_inv [OF w(1,2)] w(4) c(2) unfolding world_inv_def by auto
  then have gone: "Server i \<in> set (posted (w_io w1))" "Connection j \<notin> set (posted (w_io w1))"
    using inv w1(2-4) unfolding world_inv_def by auto
  obtain w2 where w2: "handle_event P Run_Tasks w1 = Some w2" "w_conns w2 j = Some c" "w_servers w2 i = None"
    using execute_tasks_eq [OF inv] gone w1(4) by simp
  define d where "d = c\<lparr>sock_status := TCP_CONNECTED\<rparr>"
  have dr: "conn_role d = Right_Connection uuid sid ip port False" "server_ref d = Some i" using c by (simp_all add: d_def)
  obtain d' io' where meta: "write_meta_data P j d (w_io w2) = Some (d', io')" "server_ref d' = Some i"
    using write_meta_data_returns [OF dr(1) c(6,7), of P j "w_io w2"] dr(2) by auto
  have "right_conn_connected P j w2 = None"
    using w2(2,3) meta by (simp add: right_conn_connected_def on_conn_def d_def [symmetric] server_notify_def on_server_def)
  then have "handle_event P (Conn_Event j fd EPOLLOUT) w2 = None"
    using w2(2) c(4,5) by (simp add: right_conn_on_event_def right_conn_writable_def do_when_def has_event_def
        EPOLLRDHUP_def EPOLLHUP_def EPOLLIN_def EPOLLOUT_def EPOLLERR_def)
  then show ?thesis using w1(1) w2 meta(1)
    by (intro exI [of _ w1] exI [of _ w2]) (simp add: on_conn_def d_def)
qed

text \<open>
  A client with two paths on a platform whose kernel takes nothing for now: the first connection is made
  and hears that the origin is connected; the second one is still on its way.
\<close>

definition busy_platform :: "byte list option list platform" where
  "busy_platform = script_platform\<lparr>sys_send := (\<lambda>k fd d. (- 1, k)),
     sys_socket := (\<lambda>k. (7 + int (length k), k @ [None]))\<rparr>"

lemma busy_laws: "posix busy_platform" "closed_fails busy_platform" "clock_now busy_platform = (\<lambda>_. 1000)"
  by (auto simp: posix_def closed_fails_def busy_platform_def script_platform_def split: list.splits)

lemma busy_os:
  "sys_original_dst busy_platform k fd = Some (1, 80)" "sys_socket busy_platform k = (7 + int (length k), k @ [None])"
  "sys_reuse_addr busy_platform k fd = (True, k)" "sys_bind busy_platform k fd a = (True, k)"
  "sys_connect busy_platform k fd a = (Connect_Started, k)" "sys_send busy_platform k fd d = (- 1, k)"
  "sys_read busy_platform k fd n = sys_read script_platform k fd n"
  by (simp_all add: busy_platform_def script_platform_def)

lemma busy_connection_new: "connection_new busy_platform k = connection_new script_platform []"
  by (intro ext) (simp add: connection_new_def retarget_def acked_or_zero_def busy_platform_def script_platform_def)

lemma busy_flush: "flush_buffer busy_platform C c io = (c, io)"
  by (simp add: flush_buffer_def flush_loop.simps busy_os Let_def)

lemma busy_write:
  "io_status c = 0 \<Longrightarrow> \<exists>e. on_write_event busy_platform C c io = Some (c, log_event e io)"
  by (auto simp: on_write_event_def busy_flush check_close_fd_def has_status_def)

lemma busy_append:
  "io_status c = 0 \<Longrightarrow> is_connected c \<Longrightarrow>
    \<exists>e. append_and_flush busy_platform j c d io = Some (c\<lparr>write_buffer := write_buffer c @ d\<rparr>, log_event e io)"
  using busy_write [of "c\<lparr>write_buffer := write_buffer c @ d\<rparr>" "connection_class j" io]
  by (simp add: append_and_flush_def is_connected_def)

abbreviation two_paths :: "nat list \<Rightarrow> server_role" where
  "two_paths waiting \<equiv> Left_Server False waiting (1, 80)"

abbreviation path_role :: "bool \<Rightarrow> connection_role" where
  "path_role connected \<equiv> Right_Connection 1 1 1 80 connected"

definition two_path_world :: "tcp_connection \<Rightarrow> tcp_connection \<Rightarrow> byte list option list world \<Rightarrow> bool" where
  "two_path_world a b w \<longleftrightarrow> reachable busy_platform w \<and> w_servers w 0 = Some (sample_server (two_paths [1, 2])) \<and>
     w_conns w 1 = Some a \<and> w_conns w 2 = Some b \<and> posted (w_io w) = [] \<and>
     sock_status b = TCP_CONNECTING \<and>
     (\<forall>c \<in> {a, b}. server_ref c = Some 0 \<and> io_status c = 0 \<and> read_buffer c = [] \<and> conn_role c = path_role False)"

lemma two_paths_accepted:
  "\<exists>w c d. two_path_world c d w \<and> write_buffer c = [] \<and> sock_status c = TCP_CONNECTING \<and> sock_fd d = 8"
proof -
  let ?r = "path_role False"
  obtain c where c: "connection_new script_platform [] 7 TCP_STATUS_MIN (Some 0) ?r = Some c"
      "conn_role c = ?r" "server_ref c = Some 0" "io_status c = 0" "read_buffer c = []" "write_buffer c = []"
    using script_connection_new [of 7 TCP_STATUS_MIN "Some 0" ?r] by auto
  obtain d where d: "connection_new script_platform [] 8 TCP_STATUS_MIN (Some 0) ?r = Some d"
      "conn_role d = ?r" "server_ref d = Some 0" "io_status d = 0" "read_buffer d = []" "sock_fd d = 8"
    using script_connection_new [of 8 TCP_STATUS_MIN "Some 0" ?r] by auto
  let ?c = "c\<lparr>sock_status := TCP_CONNECTING\<rparr>" and ?d = "d\<lparr>sock_status := TCP_CONNECTING\<rparr>"
  obtain w where w: "handle_event busy_platform (Accept_Client 9 1 1 [((0, 0), (2, 90)), ((0, 0), (3, 90))]) (empty_world []) = Some w"
      "w_servers w 0 = Some (sample_server (two_paths [1, 2]))" "w_conns w 1 = Some ?c" "w_conns w 2 = Some ?d" "posted (w_io w) = []"
    using c(1) d(1) by (simp add: left_server_create_def busy_os sample_server_new empty_world_def create_connection_def
        busy_connection_new conn_asyn_connect_def on_server_def sample_server_role fatal_unless_def numeral_2_eq_2)
  have "reachable busy_platform w" by (rule reach_event [OF reach_empty w(1)])
  then have "two_path_world ?c ?d w \<and> write_buffer ?c = [] \<and> sock_status ?c = TCP_CONNECTING \<and> sock_fd ?d = 8"
    using w(2-5) c(2-6) d(2-6) by (simp add: two_path_world_def)
  then show ?thesis by blast
qed

text \<open>The first connection is made: the metadata waits in its buffer.\<close>

lemma two_paths_connected:
  assumes w: "two_path_world c b w" and c: "sock_status c = TCP_CONNECTING" "write_buffer c = []"
  shows "\<exists>w' c'. two_path_world c' b w' \<and> length (write_buffer c') \<le> 100"
proof -
  define d where "d = c\<lparr>sock_status := TCP_CONNECTED\<rparr>"
  let ?frame = "frame_bytes 0 (PROXY_MESSAGE_META # metadata_bytes 1 1 (1, 80))"
  have d: "io_status d = 0" "is_connected d" "conn_role d = path_role False" "write_buffer d = []" "server_ref d = Some 0"
      "read_buffer d = []" "sock_status d = TCP_CONNECTED"
    using w c by (simp_all add: d_def two_path_world_def is_connected_def)
  have "write_meta_data busy_platform 1 d io = append_and_flush busy_platform 1 d ?frame io" for io
    by (rule write_meta_data_eq [OF d(3)]) simp_all
  then obtain e where meta: "write_meta_data busy_platform 1 d (w_io w) = Some (d\<lparr>write_buffer := ?frame\<rparr>, log_event e (w_io w))"
    using busy_append [OF d(1,2), of 1 ?frame "w_io w"] d(4) by auto
  define d' where "d' = d\<lparr>write_buffer := ?frame\<rparr>"
  have d': "io_status d' = 0" "server_ref d' = Some 0" "conn_role d' = path_role False" "read_buffer d' = []"
      "write_buffer d' = ?frame" using d by (simp_all add: d'_def)
  define w1 where "w1 = w\<lparr>w_conns := (w_conns w)(1 \<mapsto> d'), w_io := log_event e (w_io w)\<rparr>"
  have "left_notify busy_platform cs 0 1 PROXY_CONNECTED (sample_server (two_paths [1, 2])) io =
      Some (sample_server (two_paths [1, 2]), io)" for cs io by (simp add: left_notify_def)
  then have "server_notify busy_platform 0 1 PROXY_CONNECTED w1 = Some w1"
    using w by (simp add: server_notify_def on_server_def w1_def two_path_world_def fun_upd_idem)
  moreover have "on_conn 1 (\<lambda>c. write_meta_data busy_platform 1 (c\<lparr>sock_status := TCP_CONNECTED\<rparr>)) w = Some w1"
    using w meta by (simp add: on_conn_def two_path_world_def d_def [symmetric] w1_def d'_def)
  ultimately have conn: "right_conn_connected busy_platform 1 w = Some w1"
    using d'(2) by (simp add: right_conn_connected_def) (simp add: w1_def)
  obtain e' where "on_write_event busy_platform (connection_class 1) d' (w_io w1) = Some (d', log_event e' (w_io w1))"
    using busy_write [OF d'(1)] by blast
  define w2 where "w2 = w1\<lparr>w_io := log_event e' (w_io w1)\<rparr>"
  have "on_conn 1 (on_write_event busy_platform (connection_class 1)) w1 = Some w2"
    using \<open>on_write_event _ _ _ _ = _\<close> by (simp add: on_conn_def w1_def w2_def)
  then have ev: "handle_event busy_platform (Conn_Event 1 7 EPOLLOUT) w = Some w2"
    using w c(1) conn by (simp add: two_path_world_def right_conn_on_event_def right_conn_writable_def do_when_def has_event_def
        EPOLLRDHUP_def EPOLLHUP_def EPOLLIN_def EPOLLOUT_def EPOLLERR_def)
  have "reachable busy_platform w2" by (rule reach_event [OF _ ev]) (use w in \<open>simp add: two_path_world_def\<close>)
  then have "two_path_world d' b w2" using w d' by (auto simp: two_path_world_def w2_def w1_def)
  moreover have "length (write_buffer d') \<le> 100"
    using length_metadata_bytes [of 1 1 "(1, 80)"] unfolding d'(5) length_frame_bytes by (simp add: varint62_len_def)
  ultimately show ?thesis by blast
qed

text \<open>The remote half reports that the origin is connected: the first connection is ready, the second one waits.\<close>

lemma two_paths_notified:
  assumes cs: "cs 1 = Some a" "cs 2 = Some b" "sock_status b = TCP_CONNECTING"
  shows "\<exists>s e al. left_notify busy_platform cs 0 1 PROXY_DST_CONNECTED (sample_server (two_paths [1, 2])) io =
      Some (s, log_event e io) \<and> server_role s = Left_Server True [2] (1, 80) \<and> ready_list s = [1] \<and> read_buffer s = [] \<and>
    sock_fd s = 9 \<and> io_status s = 0 \<and> server_budget_alarm s = Some al \<and> alarm_inv al"
proof -
  define s1 where "s1 = sample_server (two_paths [1, 2])\<lparr>ready_list := [1], server_role := Left_Server True [2] (1, 80)\<rparr>"
  have s1: "ready_list s1 = [1]" "server_role s1 = Left_Server True [2] (1, 80)" "read_buffer s1 = []" "sock_fd s1 = 9"
      "io_status s1 = 0" "server_budget_alarm s1 = None" by (simp_all add: s1_def)
  obtain g where g: "ready_goodput busy_platform cs [1] 0 = Some g" using cs(1) by simp
  obtain al where al: "alarm_update alarm_new 1000 0 = Some al" "alarm_inv al"
    using alarm_update_inv [of alarm_new 1000 0] by (auto simp: alarm_new_def alarm_inv_def)
  obtain q where q: "update_read_budget_rate busy_platform cs s1 = Some (s1\<lparr>server_budget := q\<rparr>)"
    unfolding update_read_budget_rate_def s1(1) g by (simp add: Let_def)
  define s where "s = s1\<lparr>server_budget := q, server_budget_alarm := Some al\<rparr>"
  have s: "create_budget_alarm busy_platform cs s1 io' = Some s" "server_role s = Left_Server True [2] (1, 80)"
      "ready_list s = [1]" "read_buffer s = []" "sock_fd s = 9" "io_status s = 0" "server_budget_alarm s = Some al" for io'
    using q al(1) s1 by (simp_all add: create_budget_alarm_def busy_laws s_def)
  have "split_connected cs [2] = Some ([2], [])" using cs(2,3) by (simp add: is_connected_def)
  then have "\<exists>e. left_notify busy_platform cs 0 1 PROXY_DST_CONNECTED (sample_server (two_paths [1, 2])) io = Some (s, log_event e io)"
    using s(1) by (auto simp: left_notify_def left_dst_connected_def remove_from_list_eq s1_def [unfolded One_nat_def, symmetric] Let_def)
  then show ?thesis using s(2-) al(2) by blast
qed

lemma two_paths_ready:
  assumes w: "two_path_world a b w"
  shows "\<exists>w' s c al. reachable busy_platform w' \<and> w_servers w' 0 = Some s \<and> server_role s = Left_Server True [2] (1, 80) \<and>
    ready_list s = [1] \<and> read_buffer s = [] \<and> sock_fd s = 9 \<and> io_status s = 0 \<and> server_budget_alarm s = Some al \<and> alarm_inv al \<and>
    w_conns w' 1 = Some c \<and> write_buffer c = write_buffer a \<and> w_conns w' 2 = Some b \<and> posted (w_io w') = []"
proof -
  let ?f = "frame_bytes 0 [PROXY_MESSAGE_ORIGIN_CONNECTED]"
  define w0 where "w0 = w\<lparr>w_io := (w_io w)\<lparr>kernel := [Some ?f]\<rparr>\<rparr>"
  have len: "length ?f \<le> kBufferSize + 500" by (simp add: length_frame_bytes varint62_len_def kBufferSize_def)
  have "reads busy_platform 7 (kBufferSize + 500) [Some ?f] [?f] False []"
    using len by (intro reads_data [of _ _ _ _ ?f "[]"] reads_block) (simp_all add: busy_os script_platform_def)
  then have rd: "conn_read_loop busy_platform 1 7 a False (w_io w0) = Some (conn_collect a [?f], True, (w_io w0)\<lparr>kernel := []\<rparr>)"
    using conn_read_loop_block [of busy_platform 7 "[Some ?f]" "[?f]" False "[]" "w_io w0" 1 a False] by (simp add: w0_def)
  define a1 where "a1 = conn_collect a [?f]"
  have a1: "read_buffer a1 = ?f" "server_ref a1 = Some 0" "io_status a1 = 0" "conn_role a1 = path_role False"
      "write_buffer a1 = write_buffer a" using w by (simp_all add: a1_def two_path_world_def conn_collect_def)
  define w1 where "w1 = w0\<lparr>w_conns := (w_conns w0)(1 \<mapsto> a1), w_io := (w_io w0)\<lparr>kernel := []\<rparr>\<rparr>"
  define a2 where "a2 = a1\<lparr>conn_role := path_role True\<rparr>"
  define w2 where "w2 = w1\<lparr>w_conns := (w_conns w1)(1 \<mapsto> a2)\<rparr>"
  have w2: "w_conns w2 1 = Some a2" "w_conns w2 2 = Some b" "sock_status b = TCP_CONNECTING"
      "w_servers w2 0 = Some (sample_server (two_paths [1, 2]))" "posted (w_io w2) = []"
    using w by (simp_all add: w2_def w1_def w0_def two_path_world_def)
  obtain s e al where s: "left_notify busy_platform (w_conns w2) 0 1 PROXY_DST_CONNECTED (sample_server (two_paths [1, 2])) (w_io w2) =
      Some (s, log_event e (w_io w2))" "server_role s = Left_Server True [2] (1, 80)" "ready_list s = [1]" "read_buffer s = []"
      "sock_fd s = 9" "io_status s = 0" "server_budget_alarm s = Some al" "alarm_inv al"
    using two_paths_notified [OF w2(1-3)] by blast
  define w3 where "w3 = w2\<lparr>w_servers := (w_servers w2)(0 \<mapsto> s), w_io := log_event e (w_io w2)\<rparr>"
  have "server_notify busy_platform 0 1 PROXY_DST_CONNECTED w2 = Some w3"
    using w2(4) s(1) by (simp add: server_notify_def on_server_def w3_def)
  moreover have "on_conn 1 (\<lambda>c io. Some (c\<lparr>conn_role := Right_Connection (right_uuid (conn_role c))
      (right_sid (conn_role c)) (origin_ip (conn_role c)) (origin_port (conn_role c)) True\<rparr>, io)) w1 = Some w2"
    using a1(4) by (simp add: on_conn_def w1_def w2_def a2_def)
  moreover have "fst (read_uint8 (reader_new [PROXY_MESSAGE_ORIGIN_CONNECTED] 1)) = Some PROXY_MESSAGE_ORIGIN_CONNECTED"
    using read_type(1) [of "[PROXY_MESSAGE_ORIGIN_CONNECTED]" PROXY_MESSAGE_ORIGIN_CONNECTED "[]"] by auto
  moreover have a1': "w_conns w1 1 = Some a1" by (simp add: w1_def)
  ultimately have "right_parse_message busy_platform 1 [PROXY_MESSAGE_ORIGIN_CONNECTED] w1 = Some w3"
    using a1 by (simp add: right_parse_message_def)
  then have "handle_frame busy_platform 1 0 [PROXY_MESSAGE_ORIGIN_CONNECTED] w1 = Some w3"
    using a1 a1' by (simp add: handle_frame_def parse_message_def kReserveOffset_def)
  then have "deliver_loop (handle_frame busy_platform 1) ?f False w1 = Some ([], True, w3)"
    using deliver_loop_frames [of "[(0, [PROXY_MESSAGE_ORIGIN_CONNECTED])]" "[]" "handle_frame busy_platform 1" False w1]
    by (simp add: legal_frame_def length_frame_bytes varint62_len_def)
  moreover define w4 where "w4 = w3\<lparr>w_conns := (w_conns w3)(1 \<mapsto> a2\<lparr>read_buffer := []\<rparr>)\<rparr>"
  ultimately have "deliver busy_platform 1 w1 = Some w4"
    using a1 a1' w2(1) by (simp add: deliver_def on_conn_def w3_def conn_check_close_entity_def has_status_def a2_def)
  moreover have "w_conns w0 1 = Some a" using w by (simp add: w0_def two_path_world_def)
  ultimately have "conn_on_read_event busy_platform 1 7 w0 = Some w4"
    using rd a1(3) by (simp add: conn_on_read_event_def a1_def [symmetric] w1_def [unfolded One_nat_def, symmetric] fatal_unless_def)
      (simp add: w4_def has_status_def a2_def)
  then have ev: "handle_event busy_platform (Conn_Event 1 7 EPOLLIN) w0 = Some w4"
    using w by (simp add: w0_def two_path_world_def right_conn_on_event_def do_when_def has_event_def
        EPOLLRDHUP_def EPOLLHUP_def EPOLLIN_def EPOLLOUT_def EPOLLERR_def)
  have "reachable busy_platform w0" unfolding w0_def by (rule reach_kernel) (use w in \<open>simp add: two_path_world_def\<close>)
  from reach_event [OF this ev] have "reachable busy_platform w4" .
  moreover have "w_servers w4 0 = Some s" "w_conns w4 1 = Some (a2\<lparr>read_buffer := []\<rparr>)" "w_conns w4 2 = Some b" "posted (w_io w4) = []"
    "write_buffer (a2\<lparr>read_buffer := []\<rparr>) = write_buffer a"
    using w2 a1(5) by (simp_all add: w4_def w3_def a2_def)
  ultimately show ?thesis using s(2-8) by blast
qed

theorem waiting_connection_dangles_witness:
  "\<exists>w w1 w2. reachable busy_platform w \<and>
    handle_event busy_platform (Server_Budget_Alarm 0) w = Some w1 \<and>
    handle_event busy_platform Run_Tasks w1 = Some w2 \<and> w_servers w2 0 = None \<and>
    handle_event busy_platform (Conn_Event 2 8 EPOLLOUT) w2 = None"
proof -
  obtain w0 d b where w0: "two_path_world d b w0" "write_buffer d = []" "sock_status d = TCP_CONNECTING"
    using two_paths_accepted by blast
  then have b: "sock_status b = TCP_CONNECTING" "server_ref b = Some 0" "conn_role b = path_role False" by (simp_all add: two_path_world_def)
  obtain w1 a where w1: "two_path_world a b w1" "length (write_buffer a) \<le> 100"
    using two_paths_connected [OF w0(1,3,2)] by blast
  obtain w2 s c al where w2: "reachable busy_platform w2" "w_servers w2 0 = Some s" "server_role s = Left_Server True [2] (1, 80)"
      "ready_list s = [1]" "read_buffer s = []" "sock_fd s = 9" "io_status s = 0" "server_budget_alarm s = Some al" "alarm_inv al"
      "w_conns w2 1 = Some c" "write_buffer c = write_buffer a" "w_conns w2 2 = Some b" "posted (w_io w2) = []"
    using two_paths_ready [OF w1(1)] by blast
  define w where "w = w2\<lparr>w_io := (w_io w2)\<lparr>kernel := [Some []]\<rparr>\<rparr>"
  have reach: "reachable busy_platform w" unfolding w_def by (rule reach_kernel [OF w2(1)])
  have w: "w_servers w 0 = Some s" "w_conns w 1 = Some c" "w_conns w 2 = Some b" "posted (w_io w) = []"
      "fst (sys_read busy_platform (kernel (w_io w)) (sock_fd s) kBufferSize) = Some []"
    using w2 by (simp_all add: w_def busy_os script_platform_def)
  have s: "0 < sock_fd s" "\<not> has_status s ENTITY_CLOSED" using w2(6,7) by (simp_all add: has_status_def)
  have ready: "\<forall>k \<in> set (ready_list s). \<exists>c. w_conns w k = Some c" "1 \<in> set (ready_list s)" "2 \<notin> set (ready_list s)"
      "\<not> is_buffer_above_threshold c"
    using w2(4,11) w(2) w1(2) by (simp_all add: is_buffer_above_threshold_def kWriteBufferThreshold_def)
  show ?thesis
    using waiting_connection_dangles [OF reach busy_laws(1,2) w(4,1) w2(3,5) s w2(8,9) ready(1,2) w(2) ready(4) w(5) ready(3) w(3) b(2,1,3),
      of 8] reach by auto
qed

end
