(* ===== verification/Octopus_Base.thy ===== *)
theory Octopus_Base
  imports Proxy_Socket Windowed_Filter Byte_Codec
begin

text \<open>
  What the two ends of an Octopus session share (\<open>octopus/octopus_base.h\<close> and
  \<open>octopus/octopus_base.cc\<close>): the session key and the table of sessions, binding a
  socket, and \<open>OctopusBase\<close>, a buffered socket with an estimate of its bandwidth.  The operating
  system is the parameter \<open>'k octo_platform\<close> over a state \<open>'k\<close>; what it is told is kept in
  \<open>octo_log\<close>.  \<open>None\<close> is a failed \<open>CHECK\<close> or undefined behaviour.
\<close>

section \<open>The outside\<close>

datatype read_result = Read_Again | Read_Error | Read_Data "byte list"

text \<open>
  \<open>Read_Again\<close> is -1 with \<open>EINTR\<close>, \<open>EWOULDBLOCK\<close> or \<open>EAGAIN\<close>; \<open>Read_Data []\<close> is the end of the
  stream.  \<open>o_pending\<close> is \<open>SIOCOUTQ\<close>, \<open>o_tcp_info\<close> the acknowledged bytes and the least round-trip
  time of \<open>TCP_INFO\<close>; \<open>o_edge_triggered\<close> is \<open>OctopusEpollETFlag\<close>.
\<close>

record 'k octo_platform =
  o_send :: "'k \<Rightarrow> int \<Rightarrow> byte list \<Rightarrow> int \<times> 'k"
  o_read :: "'k \<Rightarrow> int \<Rightarrow> nat \<Rightarrow> read_result \<times> 'k"
  o_close :: "'k \<Rightarrow> int \<Rightarrow> 'k"
  o_socket :: "'k \<Rightarrow> int \<times> 'k"
  o_reuse_addr :: "'k \<Rightarrow> int \<Rightarrow> bool \<times> 'k"
  o_transparent :: "'k \<Rightarrow> int \<Rightarrow> bool \<times> 'k"
  o_bind :: "'k \<Rightarrow> int \<Rightarrow> sock_addr \<Rightarrow> bool \<times> 'k"
  o_connect :: "'k \<Rightarrow> int \<Rightarrow> sock_addr \<Rightarrow> connect_result \<times> 'k"
  o_peer :: "'k \<Rightarrow> int \<Rightarrow> sock_addr"
  o_name :: "'k \<Rightarrow> int \<Rightarrow> sock_addr"
  o_now :: "'k \<Rightarrow> quic_time"
  o_pending :: "'k \<Rightarrow> int \<Rightarrow> int"
  o_tcp_info :: "'k \<Rightarrow> int \<Rightarrow> (u64 \<times> nat) option"
  o_edge_triggered :: bool

definition octo_posix :: "'k octo_platform \<Rightarrow> bool" where
  "octo_posix P \<longleftrightarrow> (\<forall>k fd d. fst (o_send P k fd d) \<le> int (length d)) \<and>
     (\<forall>k fd n d. fst (o_read P k fd n) = Read_Data d \<longrightarrow> length d \<le> n)"

section \<open>Session keys\<close>

record session_key =
  key_from :: "32 word"
  key_to :: "32 word"
  key_src_port :: "16 word"
  key_dst_port :: "16 word"

definition key_less :: "session_key \<Rightarrow> session_key \<Rightarrow> bool" where
  "key_less k q \<longleftrightarrow> key_from k < key_from q \<or> key_to k < key_to q \<or>
     key_src_port k < key_src_port q \<or> key_dst_port k < key_dst_port q"

text \<open>
  \<open>std::map\<close> asks for a strict weak order on its keys.  On keys of which no two are less than each
  other \<open>key_less\<close> is one and equivalent keys are equal; on others a map operation is undefined.
\<close>

definition keys_ordered :: "session_key list \<Rightarrow> bool" where
  "keys_ordered ks \<longleftrightarrow> (\<forall>a \<in> set ks. \<forall>b \<in> set ks. \<not> (key_less a b \<and> key_less b a))"

type_synonym session_table = "(session_key \<times> nat) list"

definition table_find :: "session_table \<Rightarrow> session_key \<Rightarrow> nat option option" where
  "table_find t k = (if keys_ordered (k # map fst t) then Some (map_of t k) else None)"

definition table_register :: "session_key \<Rightarrow> nat \<Rightarrow> session_table \<Rightarrow> (bool \<times> session_table) option" where
  "table_register k d t = do {
     found \<leftarrow> table_find t k;
     Some (if found = None then (True, (k, d) # t) else (False, t))
   }"

definition table_unregister :: "session_key \<Rightarrow> session_table \<Rightarrow> (bool \<times> session_table) option" where
  "table_unregister k t = do {
     found \<leftarrow> table_find t k;
     Some (if found = None then (False, t) else (True, filter (\<lambda>(k', _). k' \<noteq> k) t))
   }"

section \<open>Input and output\<close>

datatype octo_object = Hand nat | Dispatcher nat

record 'k octo_io =
  octo_kernel :: 'k
  octo_log :: "io_event list"
  octo_posted :: "octo_object list"
  octo_table :: session_table
  octo_visitors :: "nat list"

definition octo_event :: "io_event \<Rightarrow> 'k octo_io \<Rightarrow> 'k octo_io" where
  "octo_event e io = io\<lparr>octo_log := octo_log io @ [e]\<rparr>"

definition octo_sent :: "int \<Rightarrow> 'k octo_io \<Rightarrow> byte list" where
  "octo_sent fd io = concat (map (sent_event fd) (octo_log io))"

text \<open>The mask is completed with \<open>EPOLLET\<close> when the process runs edge-triggered.\<close>

definition octo_mask :: "'k octo_platform \<Rightarrow> 32 word \<Rightarrow> 32 word" where
  "octo_mask P m = (if o_edge_triggered P then EPOLLET OR m else m)"

text \<open>\<open>bind_addr\<close>: a socket bound to the address, or \<open>-1\<close>; \<open>socket\<close>'s own error code is handed on.\<close>

definition give_up_socket :: "'k octo_platform \<Rightarrow> int \<Rightarrow> 'k octo_io \<Rightarrow> int \<times> 'k octo_io" where
  "give_up_socket P fd io = (- 1, octo_event (Close_Fd fd) (io\<lparr>octo_kernel := o_close P (octo_kernel io) fd\<rparr>))"

definition bind_addr :: "'k octo_platform \<Rightarrow> sock_addr \<Rightarrow> bool \<Rightarrow> 'k octo_io \<Rightarrow> int \<times> 'k octo_io" where
  "bind_addr P addr transparent io =
     (let (fd, k) = o_socket P (octo_kernel io);
          io0 = io\<lparr>octo_kernel := k\<rparr>
      in if fd < 0 then (fd, io0)
      else
        let (reuse, k1) = o_reuse_addr P k fd;
            io1 = io0\<lparr>octo_kernel := k1\<rparr>
        in if \<not> reuse then give_up_socket P fd io1
        else
          let (trans, k2) = (if transparent then o_transparent P k1 fd else (True, k1));
              io2 = io1\<lparr>octo_kernel := k2\<rparr>
          in if \<not> trans then give_up_socket P fd io2
          else
            let (bound, k3) = o_bind P k2 fd addr;
                io3 = io2\<lparr>octo_kernel := k3\<rparr>
            in if \<not> bound then give_up_socket P fd io3 else (fd, io3))"

section \<open>The buffered socket\<close>

datatype octo_status = OCTOPUS_CONN_MIN | OCTOPUS_CONN_CONNECTING | OCTOPUS_CONN_CONNECTED | OCTOPUS_CONN_DISCONN

record octo_base =
  ob_fd :: int
  ob_status :: octo_status
  ob_rb :: "byte list"
  ob_wb :: "byte list"
  ob_send_bytes :: u64
  ob_recv_bytes :: u64
  out_bw_filter :: "quic_bandwidth windowed_filter"
  last_out_bw_ts :: quic_time
  last_out_bytes_acked :: int
  ob_round :: int
  ob_destroyed :: bool

definition octo_kSegmentSize :: nat where "octo_kSegmentSize = 1500"
definition octo_kBufferSize :: nat where "octo_kBufferSize = 1500"
definition octo_kMinBandwidth :: quic_bandwidth where "octo_kMinBandwidth = bw_from_kbits_per_second 500"
definition kBandwidthInterval :: time_delta where "kBandwidthInterval = delta_from_milliseconds 5"
definition kSocketRWInterval :: time_delta where "kSocketRWInterval = delta_from_milliseconds 5"
definition kMinRoundTripTime :: time_delta where "kMinRoundTripTime = delta_from_milliseconds 5"
definition octo_kBandwithWindowSize :: int where "octo_kBandwithWindowSize = 10"

definition octo_base_new :: "int \<Rightarrow> octo_status \<Rightarrow> octo_base" where
  "octo_base_new fd status =
     \<lparr>ob_fd = fd, ob_status = status, ob_rb = [], ob_wb = [], ob_send_bytes = 0, ob_recv_bytes = 0,
      out_bw_filter = filter_new octo_kBandwithWindowSize 0 0, last_out_bw_ts = 0, last_out_bytes_acked = 0,
      ob_round = 0, ob_destroyed = False\<rparr>"

definition get_write_budget :: "'k octo_platform \<Rightarrow> 'k \<Rightarrow> 'a octo_base_scheme \<Rightarrow> int option" where
  "get_write_budget P k s =
     (if 0 < ob_fd s then do {
        let pending = o_pending P k (ob_fd s);
        min_rtt \<leftarrow> (case o_tcp_info P k (ob_fd s) of
          None \<Rightarrow> Some 0
        | Some (_, m) \<Rightarrow> if 0 < m then Some m else None);
        let rtt = (if int min_rtt < kMinRoundTripTime then kMinRoundTripTime else int min_rtt);
        let best = get_best (out_bw_filter s);
        let estimate_bw = (if best < octo_kMinBandwidth then octo_kMinBandwidth else best);
        let budget = to_int32 (int (bw_to_bytes_per_period estimate_bw (2 * rtt)));
        let remain = budget - pending;
        let atleast = (if remain < int octo_kSegmentSize then int octo_kSegmentSize else remain);
        let result = (if pending < budget then atleast else 0);
        Some result
      } else Some 0)"

text \<open>One \<open>send\<close> and what the log keeps of it.\<close>

definition octo_send :: "'k octo_platform \<Rightarrow> int \<Rightarrow> byte list \<Rightarrow> 'k octo_io \<Rightarrow> int \<times> 'k octo_io" where
  "octo_send P fd d io =
     (let (n, k) = o_send P (octo_kernel io) fd d;
          io' = io\<lparr>octo_kernel := k\<rparr>
      in (n, if 0 < n then octo_event (Send fd (take (nat n) d)) io' else io'))"

text \<open>
  The loop that sends segments; \<open>FlushBuffer\<close> checks the result of \<open>send\<close> and the loop of \<open>Sink\<close>
  does not.
\<close>

function flush_segments ::
  "'k octo_platform \<Rightarrow> 'a octo_base_scheme \<Rightarrow> byte list \<Rightarrow> bool \<Rightarrow> 'k octo_io \<Rightarrow>
    ('a octo_base_scheme \<times> byte list \<times> bool \<times> 'k octo_io) option" where
  "flush_segments P s data flushed io =
     (if data = [] then Some (s, data, flushed, io)
      else
        let target = take octo_kSegmentSize data;
            (n, io') = octo_send P (ob_fd s) target io
        in if int (length target) < n then None
           else if n \<le> 0 then Some (s, data, flushed, io')
           else flush_segments P (s\<lparr>ob_send_bytes := u64_add (ob_send_bytes s) (nat n)\<rparr>) (drop (nat n) data) True io')"
  by pat_completeness auto

termination flush_segments
  by (relation "measure (\<lambda>(P, s, data, flushed, io). length data)") auto

declare flush_segments.simps [simp del]

definition octo_flush_buffer ::
  "'k octo_platform \<Rightarrow> 'a octo_base_scheme \<Rightarrow> 'k octo_io \<Rightarrow> ('a octo_base_scheme \<times> 'k octo_io) option" where
  "octo_flush_buffer P s io =
     (if ob_fd s < 0 then (if ob_wb s = [] then Some (s, io) else None)
      else do {
        (s', rest, flushed, io') \<leftarrow> flush_segments P s (ob_wb s) False io;
        Some (if flushed then s'\<lparr>ob_wb := rest\<rparr> else s', io')
      })"

function sink_segments ::
  "'k octo_platform \<Rightarrow> 'a octo_base_scheme \<Rightarrow> byte list \<Rightarrow> 'k octo_io \<Rightarrow> 'a octo_base_scheme \<times> byte list \<times> 'k octo_io" where
  "sink_segments P s data io =
     (if data = [] then (s, data, io)
      else
        let (n, io') = octo_send P (ob_fd s) (take octo_kSegmentSize data) io
        in if n \<le> 0 then (s, data, io')
           else sink_segments P (s\<lparr>ob_send_bytes := u64_add (ob_send_bytes s) (nat n)\<rparr>) (drop (nat n) data) io')"
  by pat_completeness auto

termination sink_segments
  by (relation "measure (\<lambda>(P, s, data, io). length data)") auto

declare sink_segments.simps [simp del]

text \<open>\<open>OctopusDispatcher::Sink\<close>, and \<open>OctopusHand::Sink\<close> after it made its alarm.\<close>

definition octo_sink ::
  "'k octo_platform \<Rightarrow> byte list \<Rightarrow> 'a octo_base_scheme \<Rightarrow> 'k octo_io \<Rightarrow> ('a octo_base_scheme \<times> 'k octo_io) option" where
  "octo_sink P pv s io = do {
     (s1, io1) \<leftarrow> octo_flush_buffer P s io;
     let (s2, rest, io2) = (if ob_wb s1 = [] \<and> 0 < ob_fd s1 then sink_segments P s1 pv io1 else (s1, pv, io1));
     Some (s2\<lparr>ob_wb := ob_wb s2 @ rest\<rparr>, io2)
   }"

definition octo_close_fd :: "'k octo_platform \<Rightarrow> 'a octo_base_scheme \<Rightarrow> 'k octo_io \<Rightarrow> 'a octo_base_scheme \<times> 'k octo_io" where
  "octo_close_fd P s io =
     (s\<lparr>ob_fd := - 1\<rparr>, octo_event (Close_Fd (ob_fd s)) (io\<lparr>octo_kernel := o_close P (octo_kernel io) (ob_fd s)\<rparr>))"

text \<open>\<open>DeleteSelf\<close> of both classes.\<close>

definition octo_delete_self :: "octo_object \<Rightarrow> 'a octo_base_scheme \<Rightarrow> 'k octo_io \<Rightarrow> 'a octo_base_scheme \<times> 'k octo_io" where
  "octo_delete_self self s io =
     (if ob_destroyed s then (s, io)
      else (s\<lparr>ob_destroyed := True\<rparr>, io\<lparr>octo_posted := octo_posted io @ [self]\<rparr>))"

end
