(* ===== verification/Octopus_Hand.thy ===== *)
theory Octopus_Hand
  imports Octopus_Base
begin

text \<open>
  \<open>OctopusHand\<close> and \<open>OctopusDispatcher\<close> (\<open>octopus/octopus_base.cc\<close>): their state and the
  operations that touch one object only.  A hand is the end of the connection between the two
  halves of the relay, a dispatcher that of the connection to the application or its destination.
\<close>

section \<open>Codes\<close>

datatype octo_signal = OCTOPUS_SIG_MIN | OCTOPUS_SIG_CONN_CONNECTING | OCTOPUS_SIG_CONN_CONNECTED
  | OCTOPUS_SIG_CONN_FAILED | OCTOPUS_SIG_CONN_DISCONN | OCTOPUS_SIG_DST_CONNECTED | OCTOPUS_SIG_DST_FAILED

datatype octo_hand_role = OCTOPUS_HAND_CLIENT | OCTOPUS_HAND_SERVER

datatype octo_dispatcher_role = OCTOPUS_DISPATCHER_CLIENT | OCTOPUS_DISPATCHER_SERVER

definition OCTOPUS_MSG_META :: byte where "OCTOPUS_MSG_META = 1"
definition OCTOPUS_MSG_DST_CONNECTED :: byte where "OCTOPUS_MSG_DST_CONNECTED = 2"
definition OCTOPUS_MSG_DST_FAILED :: byte where "OCTOPUS_MSG_DST_FAILED = 3"

definition OCTOPUS_META_FLAG :: "8 word" where "OCTOPUS_META_FLAG = 0x01"
definition OCTOPUS_META_ACK_FLAG :: "8 word" where "OCTOPUS_META_ACK_FLAG = 0x02"

section \<open>State\<close>

text \<open>
  A pointer is a key of the world; \<open>hand_manager\<close> and \<open>disp_manager\<close> tell whether the reference to
  the manager is one (the calling side passes a null reference).  A \<open>std::set\<close> of pointers is the list of
  its elements in order.  The order is that of the addresses, which the code does not determine; hands that join
  are inserted here by their number, that is for addresses that grow.  Only \<open>begin()\<close>, the head of the list, and
  loops over the whole set use the order, and what is proved of them holds for every list, so for every order.
\<close>

record hand = octo_base +
  hand_role :: octo_hand_role
  hand_dispatcher :: "nat option"
  hand_manager :: bool
  out_bw_alarm :: "base_alarm option"
  msg_flag :: "8 word"
  sp_flag :: bool
  hand_wait_close :: bool

record dispatcher = octo_base +
  disp_uuid :: session_key
  disp_role :: octo_dispatcher_role
  disp_manager :: bool
  socket_alarm :: "base_alarm option"
  last_alarm_time :: quic_time
  wait_hands :: "nat list"
  ready_hands :: "nat list"
  disp_wait_close :: bool

definition hand_new ::
  "'k octo_platform \<Rightarrow> int \<Rightarrow> octo_hand_role \<Rightarrow> bool \<Rightarrow> nat option \<Rightarrow> 'k octo_io \<Rightarrow> hand \<times> 'k octo_io" where
  "hand_new P fd role manager dispatcher io =
     (let b = octo_base_new fd (if role = OCTOPUS_HAND_SERVER then OCTOPUS_CONN_CONNECTED else OCTOPUS_CONN_CONNECTING);
          c = octo_base.extend b \<lparr>hand_role = role, hand_dispatcher = dispatcher, hand_manager = manager,
            out_bw_alarm = None, msg_flag = 0, sp_flag = True, hand_wait_close = False\<rparr>
      in (c, if role = OCTOPUS_HAND_SERVER then octo_event (Register_Fd fd (octo_mask P EPOLLIN)) io else io))"

definition dispatcher_new ::
  "int \<Rightarrow> session_key \<Rightarrow> octo_dispatcher_role \<Rightarrow> bool \<Rightarrow> dispatcher" where
  "dispatcher_new fd uuid role manager =
     octo_base.extend
       (octo_base_new fd (if role = OCTOPUS_DISPATCHER_CLIENT then OCTOPUS_CONN_CONNECTED else OCTOPUS_CONN_CONNECTING))
       \<lparr>disp_uuid = uuid, disp_role = role, disp_manager = manager, socket_alarm = None, last_alarm_time = 0,
        wait_hands = [], ready_hands = [], disp_wait_close = False\<rparr>"

section \<open>The metadata message\<close>

definition meta_message :: "session_key \<Rightarrow> bool \<Rightarrow> byte list" where
  "meta_message uuid sp =
     (let w0 = writer_new (replicate octo_kBufferSize 0) octo_kBufferSize;
          (ok1, w1) = write_uint8 w0 OCTOPUS_MSG_META;
          (ok2, w2) = (if ok1 then write_uint8 w1 (if sp then 1 else 0) else (False, w1));
          (ok3, w3) = (if ok2 then write_uint32 w2 (key_from uuid) else (False, w2));
          (ok4, w4) = (if ok3 then write_uint32 w3 (key_to uuid) else (False, w3));
          (ok5, w5) = (if ok4 then write_uint16 w4 (key_src_port uuid) else (False, w4));
          (ok6, w6) = (if ok5 then write_uint16 w5 (key_dst_port uuid) else (False, w5))
      in written w6)"

definition write_meta :: "session_key \<Rightarrow> bool \<Rightarrow> hand \<Rightarrow> hand" where
  "write_meta uuid sp c =
     (if hand_role c = OCTOPUS_HAND_SERVER then c
      else if msg_flag c AND OCTOPUS_META_FLAG = 0
      then c\<lparr>sp_flag := sp, ob_wb := ob_wb c @ meta_message uuid sp, msg_flag := msg_flag c OR OCTOPUS_META_FLAG\<rparr>
      else c)"

text \<open>The fields of the message, and what is left behind them; no result when one cannot be read.\<close>

definition read_meta :: "data_reader \<Rightarrow> (bool \<times> session_key \<times> data_reader) option" where
  "read_meta r0 = do {
     let (type, r1) = read_uint8 r0;
     _ \<leftarrow> type;
     let (sp, r2) = read_uint8 r1;
     sp' \<leftarrow> sp;
     let (from, r3) = read_uint32 r2;
     from' \<leftarrow> from;
     let (to, r4) = read_uint32 r3;
     to' \<leftarrow> to;
     let (src, r5) = read_uint16 r4;
     src' \<leftarrow> src;
     let (dst, r6) = read_uint16 r5;
     dst' \<leftarrow> dst;
     Some (sp' \<noteq> 0, \<lparr>key_from = from', key_to = to', key_src_port = src', key_dst_port = dst'\<rparr>, r6)
   }"

section \<open>Hands\<close>

text \<open>\<open>ConnClose\<close> once there is no dispatcher to tell.\<close>

definition hand_finish :: "'k octo_platform \<Rightarrow> nat \<Rightarrow> hand \<Rightarrow> 'k octo_io \<Rightarrow> hand \<times> 'k octo_io" where
  "hand_finish P j c io =
     (let (c1, io1) = octo_close_fd P (c\<lparr>ob_status := OCTOPUS_CONN_DISCONN\<rparr>) (octo_event (Unregister_Fd (ob_fd c)) io)
      in octo_delete_self (Hand j) c1 io1)"

definition send_meta_ack ::
  "'k octo_platform \<Rightarrow> octo_signal \<Rightarrow> hand \<Rightarrow> 'k octo_io \<Rightarrow> (hand \<times> 'k octo_io) option" where
  "send_meta_ack P code c io =
     (if 0 < ob_fd c \<and> msg_flag c AND OCTOPUS_META_ACK_FLAG = 0 then do {
        let type = (if code = OCTOPUS_SIG_DST_CONNECTED then OCTOPUS_MSG_DST_CONNECTED
          else if code = OCTOPUS_SIG_DST_FAILED then OCTOPUS_MSG_DST_FAILED else 0);
        fatal_unless (type \<noteq> 0);
        let (_, io') = octo_send P (ob_fd c) [type] io;
        Some (c\<lparr>msg_flag := msg_flag c OR OCTOPUS_META_ACK_FLAG, ob_send_bytes := u64_add (ob_send_bytes c) 1\<rparr>, io')
      } else Some (c, io))"

definition hand_signal_from ::
  "'k octo_platform \<Rightarrow> nat \<Rightarrow> octo_signal \<Rightarrow> hand \<Rightarrow> 'k octo_io \<Rightarrow> (hand \<times> 'k octo_io) option" where
  "hand_signal_from P j code c io = do {
     (c1, io1) \<leftarrow> (if hand_role c = OCTOPUS_HAND_SERVER \<and>
          (code = OCTOPUS_SIG_DST_FAILED \<or> code = OCTOPUS_SIG_DST_CONNECTED)
        then do {
          (c', io') \<leftarrow> send_meta_ack P code c io;
          Some (if code = OCTOPUS_SIG_DST_FAILED
            then hand_finish P j (c'\<lparr>hand_dispatcher := None\<rparr>) io' else (c', io'))
        }
        else Some (c, io));
     if code = OCTOPUS_SIG_CONN_DISCONN then
       (let c2 = c1\<lparr>hand_dispatcher := None, hand_wait_close := True\<rparr>
        in Some (if ob_wb c2 = [] then hand_finish P j c2 io1 else (c2, io1)))
     else Some (c1, io1)
   }"

definition hand_asyn_connect ::
  "'k octo_platform \<Rightarrow> nat \<Rightarrow> sock_addr \<Rightarrow> hand \<Rightarrow> 'k octo_io \<Rightarrow> bool \<times> hand \<times> 'k octo_io" where
  "hand_asyn_connect P j addr c io =
     (if hand_role c = OCTOPUS_HAND_SERVER then (False, c, io)
      else
        let io1 = octo_event (Register_Fd (ob_fd c) (octo_mask P (EPOLLIN OR EPOLLOUT))) io;
            (result, k) = o_connect P (octo_kernel io1) (ob_fd c) addr;
            io2 = io1\<lparr>octo_kernel := k\<rparr>
        in if result = Connect_Again then
             let (c3, io3) = octo_close_fd P c io2 in (False, octo_delete_self (Hand j) c3 io3)
           else (True, c\<lparr>ob_status := OCTOPUS_CONN_CONNECTING\<rparr>, io2))"

definition hand_sink ::
  "'k octo_platform \<Rightarrow> byte list \<Rightarrow> hand \<Rightarrow> 'k octo_io \<Rightarrow> (hand \<times> 'k octo_io) option" where
  "hand_sink P pv c io = do {
     c1 \<leftarrow> (if out_bw_alarm c = None then do {
         al \<leftarrow> alarm_update alarm_new (o_now P (octo_kernel io)) 0;
         Some (c\<lparr>out_bw_alarm := Some al\<rparr>)
       } else Some c);
     octo_sink P pv c1 io
   }"

text \<open>\<open>OutBandwidthAlarm\<close>: the measurement, and the flush behind it.\<close>

definition hand_measure :: "'k octo_platform \<Rightarrow> 'k \<Rightarrow> hand \<Rightarrow> hand option" where
  "hand_measure P k c = do {
     let (bytes_acked, min_rtt) = (case o_tcp_info P k (ob_fd c) of None \<Rightarrow> (0, 0) | Some info \<Rightarrow> info);
     let update_interval = (if kBandwidthInterval < int min_rtt then int min_rtt else kBandwidthInterval);
     let now = o_now P k;
     c1 \<leftarrow> (if last_out_bw_ts c \<noteq> 0 then do {
         b \<leftarrow> (if to_uint64 (last_out_bytes_acked c) < bytes_acked \<and> last_out_bw_ts c < now
               then bw_from_bytes_and_time_delta (u64_sub bytes_acked (to_uint64 (last_out_bytes_acked c)))
                 (now - last_out_bw_ts c)
               else Some 0);
         Some (c\<lparr>out_bw_filter := filter_update max_filter (out_bw_filter c) b (ob_round c), ob_round := ob_round c + 1\<rparr>)
       } else Some c);
     al \<leftarrow> out_bw_alarm c1;
     al' \<leftarrow> alarm_update al (now + update_interval) 0;
     Some (c1\<lparr>last_out_bw_ts := now, last_out_bytes_acked := to_int64 bytes_acked, out_bw_alarm := Some al'\<rparr>)
   }"

definition hand_measure_and_flush ::
  "'k octo_platform \<Rightarrow> hand \<Rightarrow> 'k octo_io \<Rightarrow> (hand \<times> 'k octo_io) option" where
  "hand_measure_and_flush P c io = do {
     c1 \<leftarrow> hand_measure P (octo_kernel io) c;
     if ob_wb c1 \<noteq> [] then octo_flush_buffer P c1 io else Some (c1, io)
   }"

text \<open>The part of \<open>OnCallerEvent\<close> for \<open>EPOLLOUT\<close>.\<close>

definition hand_writable ::
  "'k octo_platform \<Rightarrow> hand \<Rightarrow> 'k octo_io \<Rightarrow> (hand \<times> 'k octo_io) option" where
  "hand_writable P c io =
     (let (c1, io1) = (if ob_status c = OCTOPUS_CONN_CONNECTING
        then (c\<lparr>ob_status := OCTOPUS_CONN_CONNECTED\<rparr>, octo_event (Modify_Callback (ob_fd c) (octo_mask P EPOLLIN)) io)
        else (c, io))
      in if ob_status c1 = OCTOPUS_CONN_CONNECTED then octo_flush_buffer P c1 io1 else Some (c1, io1))"

definition hand_shutdown :: "'k octo_platform \<Rightarrow> nat \<Rightarrow> hand \<Rightarrow> 'k octo_io \<Rightarrow> hand \<times> 'k octo_io" where
  "hand_shutdown P j c io = (let (c1, io1) = octo_close_fd P c io in octo_delete_self (Hand j) c1 io1)"

section \<open>Dispatchers\<close>

definition disp_shutdown :: "'k octo_platform \<Rightarrow> nat \<Rightarrow> dispatcher \<Rightarrow> 'k octo_io \<Rightarrow> dispatcher \<times> 'k octo_io" where
  "disp_shutdown P i d io = (let (d1, io1) = octo_close_fd P d io in octo_delete_self (Dispatcher i) d1 io1)"

definition disp_asyn_connect ::
  "'k octo_platform \<Rightarrow> nat \<Rightarrow> sock_addr \<Rightarrow> dispatcher \<Rightarrow> 'k octo_io \<Rightarrow> bool \<times> dispatcher \<times> 'k octo_io" where
  "disp_asyn_connect P i addr d io =
     (let io1 = octo_event (Register_Fd (ob_fd d) (octo_mask P (EPOLLIN OR EPOLLOUT))) io;
          (result, k) = o_connect P (octo_kernel io1) (ob_fd d) addr;
          io2 = io1\<lparr>octo_kernel := k\<rparr>
      in if result = Connect_Again then
           let (d3, io3) = octo_close_fd P d io2 in (False, octo_delete_self (Dispatcher i) d3 io3)
         else (True, d\<lparr>ob_status := OCTOPUS_CONN_CONNECTING\<rparr>, io2))"

text \<open>The alarm that reads from the socket is created once and set to now.\<close>

definition make_socket_alarm :: "'k octo_platform \<Rightarrow> 'k \<Rightarrow> dispatcher \<Rightarrow> dispatcher option" where
  "make_socket_alarm P k d =
     (if socket_alarm d \<noteq> None then Some d
      else do {
        al \<leftarrow> alarm_update alarm_new (o_now P k) 0;
        Some (d\<lparr>socket_alarm := Some al\<rparr>)
      })"

text \<open>\<open>ConnClose\<close> of a dispatcher, after its hands were told.\<close>

definition disp_finish ::
  "'k octo_platform \<Rightarrow> nat \<Rightarrow> dispatcher \<Rightarrow> 'k octo_io \<Rightarrow> (dispatcher \<times> 'k octo_io) option" where
  "disp_finish P i d io = do {
     let d1 = d\<lparr>wait_hands := [], ready_hands := [], ob_status := OCTOPUS_CONN_DISCONN\<rparr>;
     table \<leftarrow> (if disp_manager d then map_option snd (table_unregister (disp_uuid d) (octo_table io))
               else Some (octo_table io));
     let io1 = octo_event (Unregister_Fd (ob_fd d)) (io\<lparr>octo_table := table\<rparr>);
     let io2 = io1\<lparr>octo_visitors := removeAll i (octo_visitors io1)\<rparr>;
     let (d2, io3) = octo_close_fd P d1 io2;
     Some (octo_delete_self (Dispatcher i) d2 io3)
   }"

end
