(* ===== verification/Octopus_World.thy ===== *)
theory Octopus_World
  imports Octopus_Hand Proxy_World
begin

text \<open>
  The hands and dispatchers of an Octopus process and the calls between them
  (\<open>octopus/octopus_base.cc\<close>): closing, signals, the two event handlers of a hand, the
  socket alarm of a dispatcher, and the two backends that make them.  An operation on an object that
  is gone has no result.
\<close>

record 'k octo_world =
  ow_hands :: "nat \<rightharpoonup> hand"
  ow_disps :: "nat \<rightharpoonup> dispatcher"
  ow_next :: nat
  ow_io :: "'k octo_io"

definition on_hand ::
  "nat \<Rightarrow> (hand \<Rightarrow> 'k octo_io \<Rightarrow> (hand \<times> 'k octo_io) option) \<Rightarrow> 'k octo_world \<Rightarrow> 'k octo_world option" where
  "on_hand j f w = do {
     c \<leftarrow> ow_hands w j;
     (c', io') \<leftarrow> f c (ow_io w);
     Some (w\<lparr>ow_hands := (ow_hands w)(j \<mapsto> c'), ow_io := io'\<rparr>)
   }"

definition on_disp ::
  "nat \<Rightarrow> (dispatcher \<Rightarrow> 'k octo_io \<Rightarrow> (dispatcher \<times> 'k octo_io) option) \<Rightarrow> 'k octo_world \<Rightarrow> 'k octo_world option" where
  "on_disp i f w = do {
     d \<leftarrow> ow_disps w i;
     (d', io') \<leftarrow> f d (ow_io w);
     Some (w\<lparr>ow_disps := (ow_disps w)(i \<mapsto> d'), ow_io := io'\<rparr>)
   }"

section \<open>Closing and signals\<close>

definition disp_conn_close :: "'k octo_platform \<Rightarrow> nat \<Rightarrow> octo_signal \<Rightarrow> 'k octo_world \<Rightarrow> 'k octo_world option" where
  "disp_conn_close P i code w = do {
     d \<leftarrow> ow_disps w i;
     w1 \<leftarrow> each (\<lambda>j. on_hand j (hand_signal_from P j code)) (wait_hands d @ ready_hands d) w;
     on_disp i (disp_finish P i) w1
   }"

definition hand_ready ::
  "'k octo_platform \<Rightarrow> nat \<Rightarrow> dispatcher \<Rightarrow> 'k octo_io \<Rightarrow> (dispatcher \<times> 'k octo_io) option" where
  "hand_ready P j d io =
     map_option (\<lambda>d'. (d', io)) (make_socket_alarm P (octo_kernel io)
       (d\<lparr>wait_hands := removeAll j (wait_hands d), ready_hands := insort_insert j (ready_hands d)\<rparr>))"

definition disp_signal_from ::
  "'k octo_platform \<Rightarrow> nat \<Rightarrow> nat \<Rightarrow> octo_signal \<Rightarrow> 'k octo_world \<Rightarrow> 'k octo_world option" where
  "disp_signal_from P i j code w = do {
     d0 \<leftarrow> ow_disps w i;
     w1 \<leftarrow> (if disp_role d0 = OCTOPUS_DISPATCHER_CLIENT \<and> code = OCTOPUS_SIG_DST_CONNECTED
            then on_disp i (hand_ready P j) w else Some w);
     if code = OCTOPUS_SIG_CONN_FAILED \<or> code = OCTOPUS_SIG_CONN_DISCONN then do {
       d \<leftarrow> ow_disps w1 i;
       let d1 = d\<lparr>wait_hands := removeAll j (wait_hands d), ready_hands := removeAll j (ready_hands d)\<rparr>;
       if wait_hands d1 = [] \<and> ready_hands d1 = [] then do {
         let d2 = d1\<lparr>disp_wait_close := True\<rparr>;
         let w2 = w1\<lparr>ow_disps := (ow_disps w1)(i \<mapsto> d2)\<rparr>;
         if ob_wb d2 = [] then disp_conn_close P i OCTOPUS_SIG_CONN_DISCONN w2 else Some w2
       }
       else Some (w1\<lparr>ow_disps := (ow_disps w1)(i \<mapsto> d1)\<rparr>)
     }
     else Some w1
   }"

definition hand_conn_close :: "'k octo_platform \<Rightarrow> nat \<Rightarrow> octo_signal \<Rightarrow> 'k octo_world \<Rightarrow> 'k octo_world option" where
  "hand_conn_close P j code w = do {
     c \<leftarrow> ow_hands w j;
     w1 \<leftarrow> (case hand_dispatcher c of
         None \<Rightarrow> Some w
       | Some i \<Rightarrow> do {
           w' \<leftarrow> disp_signal_from P i j code w;
           on_hand j (\<lambda>c io. Some (c\<lparr>hand_dispatcher := None\<rparr>, io)) w'
         });
     on_hand j (\<lambda>c io. Some (hand_finish P j c io)) w1
   }"

definition register_hand :: "'k octo_platform \<Rightarrow> nat \<Rightarrow> nat \<Rightarrow> 'k octo_world \<Rightarrow> 'k octo_world option" where
  "register_hand P i j w = do {
     d \<leftarrow> ow_disps w i;
     if ob_status d = OCTOPUS_CONN_CONNECTING then
       Some (w\<lparr>ow_disps := (ow_disps w)(i \<mapsto> d\<lparr>wait_hands := insort_insert j (wait_hands d)\<rparr>)\<rparr>)
     else if ob_status d = OCTOPUS_CONN_CONNECTED then
       on_hand j (hand_signal_from P j OCTOPUS_SIG_DST_CONNECTED)
         (w\<lparr>ow_disps := (ow_disps w)(i \<mapsto> d\<lparr>ready_hands := insort_insert j (ready_hands d)\<rparr>)\<rparr>)
     else Some w
   }"

section \<open>Events of the hand that called\<close>

definition octo_alarm_hand :: "'k octo_platform \<Rightarrow> nat \<Rightarrow> 'k octo_world \<Rightarrow> 'k octo_world option" where
  "octo_alarm_hand P j w = do {
     w1 \<leftarrow> on_hand j (hand_measure_and_flush P) w;
     c \<leftarrow> ow_hands w1 j;
     if hand_wait_close c \<and> ob_wb c = [] then hand_conn_close P j OCTOPUS_SIG_CONN_DISCONN w1 else Some w1
   }"

definition note_read :: "nat \<Rightarrow> 'k \<Rightarrow> hand \<Rightarrow> 'k octo_io \<Rightarrow> (hand \<times> 'k octo_io) option" where
  "note_read n k c io = Some (c\<lparr>ob_recv_bytes := u64_add (ob_recv_bytes c) n\<rparr>, io\<lparr>octo_kernel := k\<rparr>)"

definition set_kernel :: "'k \<Rightarrow> 'k octo_world \<Rightarrow> 'k octo_world" where
  "set_kernel k w = w\<lparr>ow_io := (ow_io w)\<lparr>octo_kernel := k\<rparr>\<rparr>"

text \<open>The first bytes after the metadata are the answer of the other half.\<close>

definition caller_first :: "'k octo_platform \<Rightarrow> nat \<Rightarrow> byte \<Rightarrow> byte list \<Rightarrow> 'k octo_world \<Rightarrow> 'k octo_world option" where
  "caller_first P j b bs w = do {
     w1 \<leftarrow> on_hand j (\<lambda>c io. Some (c\<lparr>msg_flag := msg_flag c OR OCTOPUS_META_ACK_FLAG\<rparr>, io)) w;
     c \<leftarrow> ow_hands w1 j;
     w2 \<leftarrow> (if b = OCTOPUS_MSG_DST_CONNECTED
       then (case hand_dispatcher c of
           None \<Rightarrow> Some w1
         | Some i \<Rightarrow> do {
             w' \<leftarrow> disp_signal_from P i j OCTOPUS_SIG_DST_CONNECTED w1;
             if bs \<noteq> [] then on_disp i (octo_sink P bs) w' else Some w'
           })
       else Some w1);
     if b = OCTOPUS_MSG_DST_FAILED then hand_conn_close P j OCTOPUS_SIG_DST_FAILED w2 else Some w2
   }"

definition caller_data :: "'k octo_platform \<Rightarrow> nat \<Rightarrow> byte list \<Rightarrow> 'k octo_world \<Rightarrow> 'k octo_world option" where
  "caller_data P j bs w = do {
     c \<leftarrow> ow_hands w j;
     i \<leftarrow> hand_dispatcher c;
     on_disp i (octo_sink P bs) w
   }"

partial_function (option) caller_read_loop :: "'k octo_platform \<Rightarrow> nat \<Rightarrow> 'k octo_world \<Rightarrow> 'k octo_world option" where
  "caller_read_loop P j w =
     Option.bind (ow_hands w j) (\<lambda>c.
     case o_read P (octo_kernel (ow_io w)) (ob_fd c) octo_kBufferSize of
       (Read_Again, k) \<Rightarrow> Some (set_kernel k w)
     | (Read_Error, k) \<Rightarrow> hand_conn_close P j OCTOPUS_SIG_CONN_DISCONN (set_kernel k w)
     | (Read_Data [], k) \<Rightarrow> hand_conn_close P j OCTOPUS_SIG_CONN_DISCONN (set_kernel k w)
     | (Read_Data (b # bs), k) \<Rightarrow>
         Option.bind (on_hand j (note_read (length (b # bs)) k) w) (\<lambda>w1.
         if msg_flag c AND OCTOPUS_META_ACK_FLAG = 0 then
           Option.bind (caller_first P j b bs w1) (\<lambda>w2.
           if b = OCTOPUS_MSG_DST_FAILED then Some w2 else caller_read_loop P j w2)
         else Option.bind (caller_data P j (b # bs) w1) (caller_read_loop P j)))"

definition on_caller_event :: "'k octo_platform \<Rightarrow> nat \<Rightarrow> 32 word \<Rightarrow> 'k octo_world \<Rightarrow> 'k octo_world option" where
  "on_caller_event P j events w = do {
     c \<leftarrow> ow_hands w j;
     if has_event events (EPOLLERR OR EPOLLHUP) then
       hand_conn_close P j (if ob_status c = OCTOPUS_CONN_CONNECTING then OCTOPUS_SIG_CONN_FAILED
         else OCTOPUS_SIG_CONN_DISCONN) w
     else do {
       w1 \<leftarrow> do_when (0 < ob_fd c \<and> has_event events EPOLLIN \<and> sp_flag c) (caller_read_loop P j) w;
       c1 \<leftarrow> ow_hands w1 j;
       do_when (0 < ob_fd c1 \<and> has_event events EPOLLOUT) (on_hand j (hand_writable P)) w1
     }
   }"

section \<open>Events of the hand that was called\<close>

text \<open>A new dispatcher that is connected to the destination in the name of the source.\<close>

definition open_dispatcher ::
  "'k octo_platform \<Rightarrow> nat \<Rightarrow> bool \<Rightarrow> session_key \<Rightarrow> int \<Rightarrow> 'k octo_world \<Rightarrow> (bool \<times> 'k octo_world) option" where
  "open_dispatcher P j sp uuid sock w = do {
     let i = ow_next w;
     let d = dispatcher_new sock uuid OCTOPUS_DISPATCHER_SERVER True;
     let io = (ow_io w)\<lparr>octo_visitors := octo_visitors (ow_io w) @ [i]\<rparr>;
     table \<leftarrow> (if sp then Some (octo_table io) else map_option snd (table_register uuid i (octo_table io)));
     let (ok, d1, io1) = disp_asyn_connect P i (key_to uuid, key_dst_port uuid) d (io\<lparr>octo_table := table\<rparr>);
     let w1 = w\<lparr>ow_disps := (ow_disps w)(i \<mapsto> d1), ow_next := i + 1, ow_io := io1\<rparr>;
     w2 \<leftarrow> on_hand j (\<lambda>c io. Some (c\<lparr>hand_dispatcher := Some i\<rparr>, io)) w1;
     w3 \<leftarrow> do_when ok (register_hand P i j) w2;
     Some (ok, w3)
   }"

definition callee_parse_meta :: "'k octo_platform \<Rightarrow> nat \<Rightarrow> 'k octo_world \<Rightarrow> 'k octo_world option" where
  "callee_parse_meta P j w = do {
     c \<leftarrow> ow_hands w j;
     if msg_flag c AND OCTOPUS_META_FLAG \<noteq> 0 then Some w
     else (case read_meta (reader_new (ob_rb c) (length (ob_rb c))) of
       None \<Rightarrow> Some w
     | Some (sp, uuid, reader) \<Rightarrow> do {
         w1 \<leftarrow> on_hand j (\<lambda>c io. Some (c\<lparr>msg_flag := msg_flag c OR OCTOPUS_META_FLAG, sp_flag := sp\<rparr>, io)) w;
         fatal_unless (hand_manager c);
         found \<leftarrow> table_find (octo_table (ow_io w1)) uuid;
         (case found of
           Some i \<Rightarrow> do {
             w2 \<leftarrow> on_hand j (\<lambda>c io. Some (c\<lparr>hand_dispatcher := Some i\<rparr>, io)) w1;
             register_hand P i j w2
           }
         | None \<Rightarrow> do {
             let (sock, io2) = bind_addr P (key_from uuid, key_src_port uuid) True (ow_io w1);
             let w2 = w1\<lparr>ow_io := io2\<rparr>;
             (positive, w3) \<leftarrow> (if 0 < sock then open_dispatcher P j sp uuid sock w2 else Some (False, w2));
             w4 \<leftarrow> (if positive then Some w3 else do {
               w' \<leftarrow> on_hand j (send_meta_ack P OCTOPUS_SIG_DST_FAILED) w3;
               hand_conn_close P j OCTOPUS_SIG_DST_FAILED w'
             });
             fatal_unless (bytes_remaining reader = 0);
             on_hand j (\<lambda>c io. Some (c\<lparr>ob_rb := []\<rparr>, io)) w4
           })
       })
   }"

definition callee_data :: "'k octo_platform \<Rightarrow> nat \<Rightarrow> byte list \<Rightarrow> 'k octo_world \<Rightarrow> 'k octo_world option" where
  "callee_data P j bs w = do {
     c \<leftarrow> ow_hands w j;
     if msg_flag c AND OCTOPUS_META_FLAG = 0 then do {
       w1 \<leftarrow> on_hand j (\<lambda>c io. Some (c\<lparr>ob_rb := ob_rb c @ bs\<rparr>, io)) w;
       callee_parse_meta P j w1
     }
     else do {
       fatal_unless (ob_rb c = []);
       i \<leftarrow> hand_dispatcher c;
       on_disp i (octo_sink P bs) w
     }
   }"

partial_function (option) callee_read_loop :: "'k octo_platform \<Rightarrow> nat \<Rightarrow> 'k octo_world \<Rightarrow> 'k octo_world option" where
  "callee_read_loop P j w =
     Option.bind (ow_hands w j) (\<lambda>c.
     case o_read P (octo_kernel (ow_io w)) (ob_fd c) octo_kBufferSize of
       (Read_Again, k) \<Rightarrow> Some (set_kernel k w)
     | (Read_Error, k) \<Rightarrow> hand_conn_close P j OCTOPUS_SIG_CONN_DISCONN (set_kernel k w)
     | (Read_Data [], k) \<Rightarrow> hand_conn_close P j OCTOPUS_SIG_CONN_DISCONN (set_kernel k w)
     | (Read_Data (b # bs), k) \<Rightarrow>
         Option.bind (on_hand j (note_read (length (b # bs)) k) w) (\<lambda>w1.
         Option.bind (callee_data P j (b # bs) w1) (callee_read_loop P j)))"

definition on_callee_event :: "'k octo_platform \<Rightarrow> nat \<Rightarrow> 32 word \<Rightarrow> 'k octo_world \<Rightarrow> 'k octo_world option" where
  "on_callee_event P j events w = do {
     w1 \<leftarrow> do_when (has_event events (EPOLLERR OR EPOLLHUP)) (hand_conn_close P j OCTOPUS_SIG_CONN_DISCONN) w;
     c \<leftarrow> ow_hands w1 j;
     do_when (0 < ob_fd c \<and> has_event events EPOLLIN) (callee_read_loop P j) w1
   }"

definition hand_on_event :: "'k octo_platform \<Rightarrow> nat \<Rightarrow> 32 word \<Rightarrow> 'k octo_world \<Rightarrow> 'k octo_world option" where
  "hand_on_event P j events w = do {
     c \<leftarrow> ow_hands w j;
     (case hand_role c of
        OCTOPUS_HAND_SERVER \<Rightarrow> on_callee_event P j events w
      | OCTOPUS_HAND_CLIENT \<Rightarrow> on_caller_event P j events w)
   }"

section \<open>Events of a dispatcher\<close>

text \<open>The connection to the destination is there: the waiting hands are told, and ready from now on.\<close>

definition disp_connected ::
  "'k octo_platform \<Rightarrow> nat \<Rightarrow> dispatcher \<Rightarrow> 'k octo_io \<Rightarrow> (dispatcher \<times> 'k octo_io) option" where
  "disp_connected P i d io = do {
     fatal_unless (ready_hands d = []);
     let d1 = d\<lparr>ready_hands := wait_hands d, wait_hands := ready_hands d\<rparr>;
     let io1 = octo_event (Unregister_Fd (ob_fd d)) io;
     d2 \<leftarrow> make_socket_alarm P (octo_kernel io1) d1;
     Some (d2, io1)
   }"

definition disp_on_event :: "'k octo_platform \<Rightarrow> nat \<Rightarrow> 32 word \<Rightarrow> 'k octo_world \<Rightarrow> 'k octo_world option" where
  "disp_on_event P i events w = do {
     d \<leftarrow> ow_disps w i;
     w1 \<leftarrow> do_when (has_event events (EPOLLERR OR EPOLLHUP) \<and> ob_status d = OCTOPUS_CONN_CONNECTING)
       (disp_conn_close P i OCTOPUS_SIG_DST_FAILED) w;
     d1 \<leftarrow> ow_disps w1 i;
     if 0 < ob_fd d1 \<and> has_event events EPOLLOUT \<and> ob_status d1 = OCTOPUS_CONN_CONNECTING then do {
       w2 \<leftarrow> each (\<lambda>j. on_hand j (hand_signal_from P j OCTOPUS_SIG_DST_CONNECTED)) (wait_hands d1)
         (w1\<lparr>ow_disps := (ow_disps w1)(i \<mapsto> d1\<lparr>ob_status := OCTOPUS_CONN_CONNECTED\<rparr>)\<rparr>);
       on_disp i (disp_connected P i) w2
     }
     else Some w1
   }"

text \<open>The loop of \<open>HandleSocketAlarm\<close>: from the socket to the first ready hand, within the budget.\<close>

function socket_read_loop ::
  "'k octo_platform \<Rightarrow> nat \<Rightarrow> nat \<Rightarrow> int \<Rightarrow> 'k octo_world \<Rightarrow> (bool \<times> 'k octo_world) option" where
  "socket_read_loop P i j budget w =
     (if budget \<le> 0 then Some (False, w)
      else
        Option.bind (ow_disps w i) (\<lambda>d.
        let target = min (nat budget) octo_kBufferSize
        in case o_read P (octo_kernel (ow_io w)) (ob_fd d) target of
             (Read_Again, k) \<Rightarrow> Some (False, set_kernel k w)
           | (Read_Error, k) \<Rightarrow> Some (True, set_kernel k w)
           | (Read_Data [], k) \<Rightarrow> Some (True, set_kernel k w)
           | (Read_Data (b # bs), k) \<Rightarrow>
               if target < length (b # bs) then None
               else
                 Option.bind (on_hand j (hand_sink P (b # bs))
                   ((set_kernel k w)\<lparr>ow_disps := (ow_disps w)(i \<mapsto>
                      d\<lparr>ob_recv_bytes := u64_add (ob_recv_bytes d) (length (b # bs))\<rparr>)\<rparr>))
                   (socket_read_loop P i j (budget - int (length (b # bs))))))"
  by pat_completeness auto

termination socket_read_loop
  by (relation "measure (\<lambda>(P, i, j, budget, w). nat budget)") auto

declare socket_read_loop.simps [simp del]

definition disp_flush ::
  "'k octo_platform \<Rightarrow> dispatcher \<Rightarrow> 'k octo_io \<Rightarrow> (dispatcher \<times> 'k octo_io) option" where
  "disp_flush P d io = do {
     (d1, io1) \<leftarrow> octo_flush_buffer P d io;
     Some (d1\<lparr>last_alarm_time := o_now P (octo_kernel io1)\<rparr>, io1)
   }"

definition rearm_socket_alarm :: "quic_time \<Rightarrow> dispatcher \<Rightarrow> 'k octo_io \<Rightarrow> (dispatcher \<times> 'k octo_io) option" where
  "rearm_socket_alarm now d io = do {
     al \<leftarrow> socket_alarm d;
     al' \<leftarrow> alarm_update al (now + kSocketRWInterval) 0;
     Some (d\<lparr>socket_alarm := Some al'\<rparr>, io)
   }"

definition handle_socket_alarm :: "'k octo_platform \<Rightarrow> nat \<Rightarrow> 'k octo_world \<Rightarrow> 'k octo_world option" where
  "handle_socket_alarm P i w = do {
     d \<leftarrow> ow_disps w i;
     if 0 < ob_fd d then do {
       w1 \<leftarrow> on_disp i (disp_flush P) w;
       let now = o_now P (octo_kernel (ow_io w1));
       (closed, w2) \<leftarrow> (case ready_hands d of
           [] \<Rightarrow> Some (False, w1)
         | j # _ \<Rightarrow> do {
             c \<leftarrow> ow_hands w1 j;
             budget \<leftarrow> get_write_budget P (octo_kernel (ow_io w1)) c;
             socket_read_loop P i j budget w1
           });
       if \<not> closed then on_disp i (rearm_socket_alarm now) w2
       else disp_conn_close P i OCTOPUS_SIG_CONN_DISCONN w2
     }
     else Some w
   }"

section \<open>Making the objects\<close>

definition create_single_connection ::
  "'k octo_platform \<Rightarrow> nat \<Rightarrow> sock_addr \<Rightarrow> sock_addr \<Rightarrow> 'k octo_world \<Rightarrow> (bool \<times> 'k octo_world) option" where
  "create_single_connection P i src dst w = do {
     d \<leftarrow> ow_disps w i;
     let (sock, io1) = bind_addr P src False (ow_io w);
     (success, w1) \<leftarrow> (if 0 < sock then do {
         let j = ow_next w;
         let (c, io2) = hand_new P sock OCTOPUS_HAND_CLIENT False (Some i) io1;
         let (ok, c1, io3) = hand_asyn_connect P j dst (write_meta (disp_uuid d) True c) io2;
         let w' = w\<lparr>ow_hands := (ow_hands w)(j \<mapsto> c1), ow_next := j + 1, ow_io := io3\<rparr>;
         Some (ok, if ok then w'\<lparr>ow_disps := (ow_disps w')(i \<mapsto> d\<lparr>wait_hands := insort_insert j (wait_hands d)\<rparr>)\<rparr> else w')
       }
       else Some (False, w\<lparr>ow_io := io1\<rparr>));
     if \<not> success then map_option (\<lambda>w2. (False, w2)) (disp_conn_close P i OCTOPUS_SIG_CONN_FAILED w1)
     else Some (True, w1)
   }"

text \<open>\<open>OctopusCallerBackend::CreateEndpoint\<close>: an accepted client, whose dispatcher gets no manager.\<close>

definition caller_create_endpoint ::
  "'k octo_platform \<Rightarrow> (sock_addr \<times> sock_addr) list \<Rightarrow> int \<Rightarrow> 'k octo_world \<Rightarrow> 'k octo_world option" where
  "caller_create_endpoint P proxies fd w = do {
     let k = octo_kernel (ow_io w);
     let (from, src_port) = o_peer P k fd;
     let (to, dst_port) = o_name P k fd;
     let uuid = \<lparr>key_from = from, key_to = to, key_src_port = src_port, key_dst_port = dst_port\<rparr>;
     (src, dst) \<leftarrow> (case proxies of [] \<Rightarrow> None | p # _ \<Rightarrow> Some p);
     let i = ow_next w;
     let io = (ow_io w)\<lparr>octo_visitors := octo_visitors (ow_io w) @ [i]\<rparr>;
     map_option snd (create_single_connection P i src dst
       (w\<lparr>ow_disps := (ow_disps w)(i \<mapsto> dispatcher_new fd uuid OCTOPUS_DISPATCHER_CLIENT False), ow_next := i + 1, ow_io := io\<rparr>))
   }"

definition callee_create_endpoint :: "'k octo_platform \<Rightarrow> int \<Rightarrow> 'k octo_world \<Rightarrow> 'k octo_world option" where
  "callee_create_endpoint P fd w =
     (let j = ow_next w;
          (c, io) = hand_new P fd OCTOPUS_HAND_SERVER True None (ow_io w)
      in Some (w\<lparr>ow_hands := (ow_hands w)(j \<mapsto> c), ow_next := j + 1, ow_io := io\<rparr>))"

section \<open>What happens to a process\<close>

definition octo_delete_object :: "octo_object \<Rightarrow> 'k octo_world \<Rightarrow> 'k octo_world option" where
  "octo_delete_object ob w =
     (case ob of
        Hand j \<Rightarrow> (if ow_hands w j = None then None else Some (w\<lparr>ow_hands := (ow_hands w)(j := None)\<rparr>))
      | Dispatcher i \<Rightarrow> (if ow_disps w i = None then None else Some (w\<lparr>ow_disps := (ow_disps w)(i := None)\<rparr>)))"

definition octo_execute_tasks :: "'k octo_world \<Rightarrow> 'k octo_world option" where
  "octo_execute_tasks w = each octo_delete_object (octo_posted (ow_io w)) (w\<lparr>ow_io := (ow_io w)\<lparr>octo_posted := []\<rparr>\<rparr>)"

datatype octopus_event =
    Hand_Event nat "32 word"
  | Dispatcher_Event nat "32 word"
  | Out_Bandwidth_Alarm nat
  | Socket_Alarm nat
  | Hand_Shutdown nat
  | Dispatcher_Shutdown nat
  | Accept_Callee int
  | Accept_Caller int "(sock_addr \<times> sock_addr) list"
  | Run_Octo_Tasks

text \<open>An alarm calls its handler when it is set; \<open>Dispatcher_Shutdown\<close> is also \<open>ExitGracefully\<close>.\<close>

fun octo_handle_event :: "'k octo_platform \<Rightarrow> octopus_event \<Rightarrow> 'k octo_world \<Rightarrow> 'k octo_world option" where
  "octo_handle_event P (Hand_Event j events) w = hand_on_event P j events w"
| "octo_handle_event P (Dispatcher_Event i events) w = disp_on_event P i events w"
| "octo_handle_event P (Out_Bandwidth_Alarm j) w = do {
     c \<leftarrow> ow_hands w j;
     al \<leftarrow> out_bw_alarm c;
     let (fires, al') = alarm_on_epoll al;
     do_when fires (octo_alarm_hand P j) (w\<lparr>ow_hands := (ow_hands w)(j \<mapsto> c\<lparr>out_bw_alarm := Some al'\<rparr>)\<rparr>)
   }"
| "octo_handle_event P (Socket_Alarm i) w = do {
     d \<leftarrow> ow_disps w i;
     al \<leftarrow> socket_alarm d;
     let (fires, al') = alarm_on_epoll al;
     do_when fires (handle_socket_alarm P i) (w\<lparr>ow_disps := (ow_disps w)(i \<mapsto> d\<lparr>socket_alarm := Some al'\<rparr>)\<rparr>)
   }"
| "octo_handle_event P (Hand_Shutdown j) w = on_hand j (\<lambda>c io. Some (hand_shutdown P j c io)) w"
| "octo_handle_event P (Dispatcher_Shutdown i) w = on_disp i (\<lambda>d io. Some (disp_shutdown P i d io)) w"
| "octo_handle_event P (Accept_Callee fd) w = callee_create_endpoint P fd w"
| "octo_handle_event P (Accept_Caller fd proxies) w = caller_create_endpoint P proxies fd w"
| "octo_handle_event P Run_Octo_Tasks w = octo_execute_tasks w"

end
