(* ===== verification/Octopus_Laws.thy ===== *)
theory Octopus_Laws
  imports Octopus_World Proxy_Handshake
begin

text \<open>
  The laws of the Octopus operations: writing conserves bytes, the metadata message is read as it was
  written, and the session table is a map as long as its keys are ordered.
\<close>

section \<open>Writing\<close>

lemma octo_event_simps [simp]:
  "octo_kernel (octo_event e io) = octo_kernel io" "octo_posted (octo_event e io) = octo_posted io"
  "octo_table (octo_event e io) = octo_table io" "octo_visitors (octo_event e io) = octo_visitors io"
  "octo_log (octo_event e io) = octo_log io @ [e]"
  by (simp_all add: octo_event_def)

lemma octo_sent_simps [simp]:
  "octo_sent fd (octo_event e io) = octo_sent fd io @ sent_event fd e" "octo_sent fd (io\<lparr>octo_kernel := k\<rparr>) = octo_sent fd io"
  "octo_sent fd (io\<lparr>octo_posted := q\<rparr>) = octo_sent fd io" "octo_sent fd (io\<lparr>octo_table := t\<rparr>) = octo_sent fd io"
  "octo_sent fd (io\<lparr>octo_visitors := v\<rparr>) = octo_sent fd io"
  by (simp_all add: octo_sent_def)

text \<open>Nothing but the log and the kernel changes.\<close>

definition io_quiet :: "'k octo_io \<Rightarrow> 'k octo_io \<Rightarrow> bool" where
  "io_quiet io io' \<longleftrightarrow> octo_posted io' = octo_posted io \<and> octo_table io' = octo_table io \<and>
     octo_visitors io' = octo_visitors io"

lemma io_quiet_refl [simp]: "io_quiet io io" by (simp add: io_quiet_def)

lemma io_quiet_trans: "io_quiet a b \<Longrightarrow> io_quiet b c \<Longrightarrow> io_quiet a c" by (simp add: io_quiet_def)

text \<open>The bytes accepted for \<open>fd\<close> grow by \<open>d\<close>, those for other descriptors do not.\<close>

definition sends :: "int \<Rightarrow> byte list \<Rightarrow> 'k octo_io \<Rightarrow> 'k octo_io \<Rightarrow> bool" where
  "sends fd d io io' \<longleftrightarrow> io_quiet io io' \<and> octo_sent fd io' = octo_sent fd io @ d \<and>
     (\<forall>f. f \<noteq> fd \<longrightarrow> octo_sent f io' = octo_sent f io)"

lemma sends_Nil [simp]: "sends fd [] io io" by (simp add: sends_def)

lemma sends_trans: "sends fd d io io' \<Longrightarrow> sends fd e io' io'' \<Longrightarrow> sends fd (d @ e) io io''"
  by (auto simp: sends_def intro: io_quiet_trans)

lemma octo_send_sends:
  "octo_posix P \<Longrightarrow> octo_send P fd d io = (n, io') \<Longrightarrow> n \<le> int (length d) \<and> sends fd (take (nat n) d) io io'"
proof -
  assume posix: "octo_posix P" and run: "octo_send P fd d io = (n, io')"
  obtain k where k: "o_send P (octo_kernel io) fd d = (n, k)" using run by (auto simp: octo_send_def Let_def split: prod.splits)
  have "n \<le> int (length d)" using posix k unfolding octo_posix_def by (metis fst_conv)
  moreover have "sends fd (take (nat n) d) io io'"
    using run k by (auto simp: octo_send_def sends_def io_quiet_def sent_event_def Let_def)
  ultimately show ?thesis by simp
qed

lemma take_accepted: "n \<le> int (length (take m xs)) \<Longrightarrow> take (nat n) (take m xs) = take (nat n) xs"
proof -
  assume "n \<le> int (length (take m xs))"
  then have "nat n \<le> m" by simp
  then show ?thesis by (simp add: min_def)
qed

lemma wb_self: "s\<lparr>ob_wb := ob_wb s\<rparr> = s"
  by (cases s) simp

lemma flush_segments_sends:
  assumes posix: "octo_posix P"
  shows "\<exists>s' d rest fl' io'. flush_segments P s data fl io = Some (s', rest, fl', io') \<and> data = d @ rest \<and>
    sends (ob_fd s) d io io' \<and> s' = s\<lparr>ob_send_bytes := ob_send_bytes s'\<rparr> \<and> (\<not> fl' \<longrightarrow> d = []) \<and> (fl \<longrightarrow> fl')"
proof (induction "length data" arbitrary: data s fl io rule: less_induct)
  case less
  let ?seg = "take octo_kSegmentSize data"
  show ?case
  proof (cases "data = []")
    case True
    then show ?thesis by (subst flush_segments.simps) (auto intro!: exI [of _ s])
  next
    case False
    obtain n io1 where send: "octo_send P (ob_fd s) ?seg io = (n, io1)" by (cases "octo_send P (ob_fd s) ?seg io") auto
    note S = octo_send_sends [OF posix send]
    show ?thesis
    proof (cases "n \<le> 0")
      case True
      then show ?thesis using S send False
        by (subst flush_segments.simps) (auto simp: Let_def intro!: exI [of _ s])
    next
      case pos: False
      define s1 where "s1 = s\<lparr>ob_send_bytes := u64_add (ob_send_bytes s) (nat n)\<rparr>"
      have "length (drop (nat n) data) < length data" using False pos by simp
      from less.hyps [OF this, of s1 True io1] obtain s' d rest fl' io' where
        rec: "flush_segments P s1 (drop (nat n) data) True io1 = Some (s', rest, fl', io')" "drop (nat n) data = d @ rest"
          "sends (ob_fd s1) d io1 io'" "s' = s1\<lparr>ob_send_bytes := ob_send_bytes s'\<rparr>" "fl'"
        by blast
      have eq: "flush_segments P s data fl io = Some (s', rest, fl', io')"
        using rec(1) send S pos False by (subst flush_segments.simps) (simp add: Let_def s1_def)
      have n: "take (nat n) ?seg = take (nat n) data" using S by (intro take_accepted) blast
      have "data = take (nat n) data @ d @ rest" using rec(2) append_take_drop_id [of "nat n" data] by simp
      moreover have "sends (ob_fd s) (take (nat n) data @ d) io io'"
        using sends_trans [of "ob_fd s" _ io io1 d io'] S rec(3) n by (simp add: s1_def)
      moreover have "s' = s\<lparr>ob_send_bytes := ob_send_bytes s'\<rparr>" using rec(4) by (simp add: s1_def)
      ultimately show ?thesis using eq rec(5) by (metis append.assoc)
    qed
  qed
qed

lemma sink_segments_sends:
  assumes posix: "octo_posix P"
  shows "\<exists>s' d rest io'. sink_segments P s data io = (s', rest, io') \<and> data = d @ rest \<and>
    sends (ob_fd s) d io io' \<and> s' = s\<lparr>ob_send_bytes := ob_send_bytes s'\<rparr>"
proof (induction "length data" arbitrary: data s io rule: less_induct)
  case less
  let ?seg = "take octo_kSegmentSize data"
  show ?case
  proof (cases "data = []")
    case True
    then show ?thesis by (subst sink_segments.simps) (auto intro!: exI [of _ s])
  next
    case False
    obtain n io1 where send: "octo_send P (ob_fd s) ?seg io = (n, io1)" by (cases "octo_send P (ob_fd s) ?seg io") auto
    note S = octo_send_sends [OF posix send]
    show ?thesis
    proof (cases "n \<le> 0")
      case True
      then show ?thesis using S send False
        by (subst sink_segments.simps) (auto simp: Let_def intro!: exI [of _ s])
    next
      case pos: False
      define s1 where "s1 = s\<lparr>ob_send_bytes := u64_add (ob_send_bytes s) (nat n)\<rparr>"
      have "length (drop (nat n) data) < length data" using False pos by simp
      from less.hyps [OF this, of s1 io1] obtain s' d rest io' where
        rec: "sink_segments P s1 (drop (nat n) data) io1 = (s', rest, io')" "drop (nat n) data = d @ rest"
          "sends (ob_fd s1) d io1 io'" "s' = s1\<lparr>ob_send_bytes := ob_send_bytes s'\<rparr>"
        by blast
      have eq: "sink_segments P s data io = (s', rest, io')"
        using rec(1) send pos False by (subst sink_segments.simps) (simp add: Let_def s1_def)
      have n: "take (nat n) ?seg = take (nat n) data" using S by (intro take_accepted) blast
      have "data = take (nat n) data @ d @ rest" using rec(2) append_take_drop_id [of "nat n" data] by simp
      moreover have "sends (ob_fd s) (take (nat n) data @ d) io io'"
        using sends_trans [of "ob_fd s" _ io io1 d io'] S rec(3) n by (simp add: s1_def)
      moreover have "s' = s\<lparr>ob_send_bytes := ob_send_bytes s'\<rparr>" using rec(4) by (simp add: s1_def)
      ultimately show ?thesis using eq by (metis append.assoc)
    qed
  qed
qed

text \<open>A flush and a sink: what is sent and what stays behind, in order; they fail only without a descriptor.\<close>

definition flushes :: "byte list \<Rightarrow> 'a octo_base_scheme \<Rightarrow> 'k octo_io \<Rightarrow> 'a octo_base_scheme \<times> 'k octo_io \<Rightarrow> bool" where
  "flushes new s io r \<longleftrightarrow> (\<exists>d. sends (ob_fd s) d io (snd r) \<and> d @ ob_wb (fst r) = ob_wb s @ new) \<and>
     fst r = s\<lparr>ob_send_bytes := ob_send_bytes (fst r), ob_wb := ob_wb (fst r)\<rparr>"

lemma octo_flush_buffer_flushes:
  assumes posix: "octo_posix P" and fd: "0 \<le> ob_fd s \<or> ob_wb s = []"
  shows "\<exists>r. octo_flush_buffer P s io = Some r \<and> flushes [] s io r"
proof (cases "ob_fd s < 0")
  case True
  then show ?thesis using fd by (auto simp: octo_flush_buffer_def flushes_def intro!: exI [of _ "[]"])
next
  case False
  obtain s' d rest fl' io' where run: "flush_segments P s (ob_wb s) False io = Some (s', rest, fl', io')" "ob_wb s = d @ rest"
    "sends (ob_fd s) d io io'" "s' = s\<lparr>ob_send_bytes := ob_send_bytes s'\<rparr>" "\<not> fl' \<longrightarrow> d = []"
    using flush_segments_sends [OF posix, of s "ob_wb s" False io] by blast
  define t where "t = (if fl' then s'\<lparr>ob_wb := rest\<rparr> else s')"
  have wb: "ob_wb s' = ob_wb s" by (subst run(4)) simp
  have "octo_flush_buffer P s io = Some (t, io')" using False run(1) by (simp add: octo_flush_buffer_def t_def)
  moreover have "ob_wb t = rest" using run(2,5) wb by (auto simp: t_def)
  moreover have "t = s\<lparr>ob_send_bytes := ob_send_bytes t, ob_wb := ob_wb t\<rparr>"
  proof (cases fl')
    case True
    then show ?thesis unfolding t_def by (subst run(4)) simp
  next
    case False
    have "s\<lparr>ob_send_bytes := ob_send_bytes s', ob_wb := ob_wb s\<rparr> = s\<lparr>ob_send_bytes := ob_send_bytes s'\<rparr>"
      using wb_self [of "s\<lparr>ob_send_bytes := ob_send_bytes s'\<rparr>"] by simp
    then show ?thesis using False run(4) wb by (simp add: t_def)
  qed
  ultimately show ?thesis using run(2,3) by (auto simp: flushes_def)
qed

lemma octo_sink_flushes:
  assumes posix: "octo_posix P" and fd: "0 \<le> ob_fd s \<or> ob_wb s = []"
  shows "\<exists>r. octo_sink P pv s io = Some r \<and> flushes pv s io r"
proof -
  obtain s1 io1 where f: "octo_flush_buffer P s io = Some (s1, io1)" "flushes [] s io (s1, io1)"
    using octo_flush_buffer_flushes [OF posix fd] by (metis surj_pair)
  obtain d1 where d1: "sends (ob_fd s) d1 io io1" "d1 @ ob_wb s1 = ob_wb s"
    "s1 = s\<lparr>ob_send_bytes := ob_send_bytes s1, ob_wb := ob_wb s1\<rparr>" using f(2) by (auto simp: flushes_def)
  have fd1: "ob_fd s1 = ob_fd s" by (subst d1(3)) simp
  show ?thesis
  proof (cases "ob_wb s1 = [] \<and> 0 < ob_fd s1")
    case True
    obtain s2 d rest io2 where k: "sink_segments P s1 pv io1 = (s2, rest, io2)" "pv = d @ rest"
      "sends (ob_fd s1) d io1 io2" "s2 = s1\<lparr>ob_send_bytes := ob_send_bytes s2\<rparr>"
      using sink_segments_sends [OF posix, of s1 pv io1] by blast
    have wb2: "ob_wb s2 = []" using k(4) True by (metis octo_base.ext_inject octo_base.surjective octo_base.update_convs(5))
    define t where "t = s2\<lparr>ob_wb := rest\<rparr>"
    have "octo_sink P pv s io = Some (t, io2)" using f(1) k(1) True wb2 by (simp add: octo_sink_def t_def)
    moreover have "sends (ob_fd s) (d1 @ d) io io2" using sends_trans [OF d1(1)] k(3) fd1 by simp
    moreover have "(d1 @ d) @ ob_wb t = ob_wb s @ pv" using d1(2) True k(2) by (simp add: t_def)
    moreover have "t = s\<lparr>ob_send_bytes := ob_send_bytes t, ob_wb := ob_wb t\<rparr>"
      unfolding t_def by (subst k(4), subst d1(3)) simp
    ultimately show ?thesis by (auto simp: flushes_def)
  next
    case False
    define t where "t = s1\<lparr>ob_wb := ob_wb s1 @ pv\<rparr>"
    have "octo_sink P pv s io = Some (t, io1)" using f(1) False by (auto simp: octo_sink_def t_def)
    moreover have "d1 @ ob_wb t = ob_wb s @ pv" using d1(2) by (simp add: t_def)
    moreover have "t = s\<lparr>ob_send_bytes := ob_send_bytes t, ob_wb := ob_wb t\<rparr>"
      unfolding t_def by (subst d1(3)) simp
    ultimately show ?thesis using d1(1) by (auto simp: flushes_def)
  qed
qed

section \<open>The metadata message\<close>

definition meta_bytes :: "session_key \<Rightarrow> bool \<Rightarrow> byte list" where
  "meta_bytes uuid sp = [OCTOPUS_MSG_META, if sp then 1 else 0] @ be_bytes 4 (unat (key_from uuid)) @
     be_bytes 4 (unat (key_to uuid)) @ be_bytes 2 (unat (key_src_port uuid)) @ be_bytes 2 (unat (key_dst_port uuid))"

lemma length_meta_bytes [simp]: "length (meta_bytes uuid sp) = 14"
  by (simp add: meta_bytes_def)

text \<open>A writer of the message's buffer that has written \<open>bs\<close>.\<close>

definition wrote :: "data_writer \<Rightarrow> byte list \<Rightarrow> bool" where
  "wrote w bs \<longleftrightarrow> wr_ok w \<and> written w = bs \<and> wr_capacity w = 1500 \<and> wr_order w = NETWORK_BYTE_ORDER \<and> wr_length w = length bs"

lemma wrote_append:
  "wrote w bs \<Longrightarrow> length bs + length cs \<le> 1500 \<Longrightarrow> wrote (append_bytes w cs) (bs @ cs)"
  using append_bytes_ok_simp [of w cs] by (simp add: wrote_def)

lemma write_steps:
  assumes w: "wrote w bs" and len: "length bs \<le> 1000"
  shows "\<exists>w'. write_uint8 w b = (True, w') \<and> wrote w' (bs @ [b])"
    "\<exists>w'. write_uint16 w u = (True, w') \<and> wrote w' (bs @ be_bytes 2 (unat u))"
    "\<exists>w'. write_uint32 w v = (True, w') \<and> wrote w' (bs @ be_bytes 4 (unat v))"
proof -
  have ok: "wr_ok w" "wr_length w = length bs" "wr_capacity w = 1500" "wr_order w = NETWORK_BYTE_ORDER"
    using w by (simp_all add: wrote_def)
  show "\<exists>w'. write_uint8 w b = (True, w') \<and> wrote w' (bs @ [b])"
    using write_bytes_eq [OF ok(1), of "[b]"] wrote_append [OF w, of "[b]"] ok len by (simp add: write_uint8_def)
  show "\<exists>w'. write_uint16 w u = (True, w') \<and> wrote w' (bs @ be_bytes 2 (unat u))"
    using write_uint_eq [OF ok(1) _ ok(4), of 2 u] wrote_append [OF w, of "be_bytes 2 (unat u)"] ok len
    by (simp add: write_uint16_def)
  show "\<exists>w'. write_uint32 w v = (True, w') \<and> wrote w' (bs @ be_bytes 4 (unat v))"
    using write_uint_eq [OF ok(1) _ ok(4), of 4 v] wrote_append [OF w, of "be_bytes 4 (unat v)"] ok len
    by (simp add: write_uint32_def)
qed

lemma meta_message_eq: "meta_message uuid sp = meta_bytes uuid sp"
proof -
  have w0: "wrote (writer_new (replicate octo_kBufferSize 0) octo_kBufferSize) []"
    using writer_new_ok [of octo_kBufferSize] by (simp add: wrote_def octo_kBufferSize_def)
  obtain w1 where w1: "write_uint8 (writer_new (replicate octo_kBufferSize 0) octo_kBufferSize) OCTOPUS_MSG_META = (True, w1)"
    "wrote w1 [OCTOPUS_MSG_META]" using write_steps(1) [OF w0, of OCTOPUS_MSG_META] by auto
  obtain w2 where w2: "write_uint8 w1 (if sp then 1 else 0) = (True, w2)" "wrote w2 [OCTOPUS_MSG_META, if sp then 1 else 0]"
    using write_steps(1) [OF w1(2), of "if sp then 1 else 0"] by auto
  obtain w3 where w3: "write_uint32 w2 (key_from uuid) = (True, w3)"
    "wrote w3 ([OCTOPUS_MSG_META, if sp then 1 else 0] @ be_bytes 4 (unat (key_from uuid)))"
    using write_steps(3) [OF w2(2), of "key_from uuid"] by auto
  obtain w4 where w4: "write_uint32 w3 (key_to uuid) = (True, w4)"
    "wrote w4 (([OCTOPUS_MSG_META, if sp then 1 else 0] @ be_bytes 4 (unat (key_from uuid))) @ be_bytes 4 (unat (key_to uuid)))"
    using write_steps(3) [OF w3(2), of "key_to uuid"] by auto
  obtain w5 where w5: "write_uint16 w4 (key_src_port uuid) = (True, w5)"
    "wrote w5 ((([OCTOPUS_MSG_META, if sp then 1 else 0] @ be_bytes 4 (unat (key_from uuid))) @ be_bytes 4 (unat (key_to uuid)))
      @ be_bytes 2 (unat (key_src_port uuid)))"
    using write_steps(2) [OF w4(2), of "key_src_port uuid"] by auto
  obtain w6 where w6: "write_uint16 w5 (key_dst_port uuid) = (True, w6)" "written w6 = meta_bytes uuid sp"
    using write_steps(2) [OF w5(2), of "key_dst_port uuid"] by (auto simp: wrote_def meta_bytes_def)
  show ?thesis by (simp add: meta_message_def w1(1) w2(1) w3(1) w4(1) w5(1) w6 Let_def split: if_splits)
qed

text \<open>A reader that has \<open>bs\<close> in front of it.\<close>

definition at :: "data_reader \<Rightarrow> byte list \<Rightarrow> bool" where
  "at r bs \<longleftrightarrow> rd_ok r \<and> unread r = bs \<and> rd_order r = NETWORK_BYTE_ORDER"

lemma at_skip: "at r (bs @ cs) \<Longrightarrow> at (skip r (length bs)) cs"
  using skip_ok [of r "length bs"] by (simp add: at_def unread_skip)

lemma read_steps:
  "at r (b # cs) \<Longrightarrow> read_uint8 r = (Some b, skip r 1) \<and> at (skip r 1) cs"
  "at r (be_bytes 2 (unat u) @ cs) \<Longrightarrow> read_uint16 r = (Some u, skip r 2) \<and> at (skip r 2) cs"
  "at r (be_bytes 4 (unat v) @ cs) \<Longrightarrow> read_uint32 r = (Some v, skip r 4) \<and> at (skip r 4) cs"
proof -
  show "at r (b # cs) \<Longrightarrow> read_uint8 r = (Some b, skip r 1) \<and> at (skip r 1) cs"
    using at_skip [of r "[b]" cs] by (auto simp: at_def read_uint8_def read_bytes_eq)
  show "at r (be_bytes 2 (unat u) @ cs) \<Longrightarrow> read_uint16 r = (Some u, skip r 2) \<and> at (skip r 2) cs"
    using at_skip [of r "be_bytes 2 (unat u)" cs] be_uint_roundtrip [of 2 u cs]
    by (auto simp: at_def read_uint16_def read_uint_eq)
  show "at r (be_bytes 4 (unat v) @ cs) \<Longrightarrow> read_uint32 r = (Some v, skip r 4) \<and> at (skip r 4) cs"
    using at_skip [of r "be_bytes 4 (unat v)" cs] be_uint_roundtrip [of 4 v cs]
    by (auto simp: at_def read_uint32_def read_uint_eq)
qed

lemma read_step_obtain:
  "at r (b # cs) \<Longrightarrow> \<exists>r'. read_uint8 r = (Some b, r') \<and> at r' cs"
  "at r (be_bytes 2 (unat u) @ cs) \<Longrightarrow> \<exists>r'. read_uint16 r = (Some u, r') \<and> at r' cs"
  "at r (be_bytes 4 (unat v) @ cs) \<Longrightarrow> \<exists>r'. read_uint32 r = (Some v, r') \<and> at r' cs"
  using read_steps by blast+

lemma read_meta_eq:
  assumes "length rest < 2 ^ 63"
  shows "\<exists>r. read_meta (reader_new (meta_bytes uuid sp @ rest) (length (meta_bytes uuid sp @ rest))) = Some (sp, uuid, r) \<and>
    bytes_remaining r = length rest"
proof -
  define r0 where "r0 = reader_new (meta_bytes uuid sp @ rest) (length (meta_bytes uuid sp @ rest))"
  have "at r0 (OCTOPUS_MSG_META # (if sp then 1 else 0) # be_bytes 4 (unat (key_from uuid)) @ be_bytes 4 (unat (key_to uuid)) @
      be_bytes 2 (unat (key_src_port uuid)) @ be_bytes 2 (unat (key_dst_port uuid)) @ rest)"
    using assms by (simp add: r0_def at_def reader_new_def rd_ok_def unread_def meta_bytes_def)
  from read_step_obtain(1) [OF this] obtain r1 where r1: "read_uint8 r0 = (Some OCTOPUS_MSG_META, r1)"
    and a1: "at r1 ((if sp then 1 else 0) # be_bytes 4 (unat (key_from uuid)) @ be_bytes 4 (unat (key_to uuid)) @
      be_bytes 2 (unat (key_src_port uuid)) @ be_bytes 2 (unat (key_dst_port uuid)) @ rest)" by blast
  from read_step_obtain(1) [OF a1] obtain r2 where r2: "read_uint8 r1 = (Some (if sp then 1 else 0), r2)"
    and a2: "at r2 (be_bytes 4 (unat (key_from uuid)) @ be_bytes 4 (unat (key_to uuid)) @
      be_bytes 2 (unat (key_src_port uuid)) @ be_bytes 2 (unat (key_dst_port uuid)) @ rest)" by blast
  from read_step_obtain(3) [OF a2] obtain r3 where r3: "read_uint32 r2 = (Some (key_from uuid), r3)"
    and a3: "at r3 (be_bytes 4 (unat (key_to uuid)) @
      be_bytes 2 (unat (key_src_port uuid)) @ be_bytes 2 (unat (key_dst_port uuid)) @ rest)" by blast
  from read_step_obtain(3) [OF a3] obtain r4 where r4: "read_uint32 r3 = (Some (key_to uuid), r4)"
    and a4: "at r4 (be_bytes 2 (unat (key_src_port uuid)) @ be_bytes 2 (unat (key_dst_port uuid)) @ rest)" by blast
  from read_step_obtain(2) [OF a4] obtain r5 where r5: "read_uint16 r4 = (Some (key_src_port uuid), r5)"
    and a5: "at r5 (be_bytes 2 (unat (key_dst_port uuid)) @ rest)" by blast
  from read_step_obtain(2) [OF a5] obtain r6 where r6: "read_uint16 r5 = (Some (key_dst_port uuid), r6)"
    and a6: "at r6 rest" by blast
  have "read_meta r0 = Some (sp, uuid, r6)" by (simp add: read_meta_def r1 r2 r3 r4 r5 r6)
  moreover have "bytes_remaining r6 = length rest" using a6 by (simp add: at_def bytes_remaining_eq)
  ultimately show ?thesis unfolding r0_def [symmetric] by blast
qed

section \<open>The session table\<close>

definition key_le :: "session_key \<Rightarrow> session_key \<Rightarrow> bool" where
  "key_le k q \<longleftrightarrow> key_from k \<le> key_from q \<and> key_to k \<le> key_to q \<and>
     key_src_port k \<le> key_src_port q \<and> key_dst_port k \<le> key_dst_port q"

lemma key_less_iff: "key_less k q \<longleftrightarrow> \<not> key_le q k"
  by (auto simp: key_less_def key_le_def)

lemma key_le_antisym: "key_le k q \<Longrightarrow> key_le q k \<Longrightarrow> k = q"
  by (cases k; cases q) (auto simp: key_le_def)

lemma key_le_trans: "key_le k q \<Longrightarrow> key_le q r \<Longrightarrow> key_le k r"
  by (auto simp: key_le_def)

lemma key_less_irrefl: "\<not> key_less k k"
  by (simp add: key_less_def)

text \<open>Keys are ordered exactly when any two of them can be compared component by component.\<close>

lemma keys_ordered_iff: "keys_ordered ks \<longleftrightarrow> (\<forall>a \<in> set ks. \<forall>b \<in> set ks. key_le a b \<or> key_le b a)"
  by (auto simp: keys_ordered_def key_less_iff)

text \<open>On ordered keys \<open>key_less\<close> is the strict order that \<open>std::map\<close> asks for.\<close>

lemma keys_ordered_strict:
  assumes "keys_ordered ks" "a \<in> set ks" "b \<in> set ks" "c \<in> set ks"
  shows "key_less a b \<and> key_less b c \<Longrightarrow> key_less a c" "\<not> key_less a b \<and> \<not> key_less b a \<longleftrightarrow> a = b"
proof -
  show "key_less a c" if "key_less a b \<and> key_less b c"
  proof -
    have "key_le a b" "key_le b c" using assms that by (auto simp: keys_ordered_iff key_less_iff)
    then have "\<not> key_le c a" using that key_le_trans by (auto simp: key_less_iff)
    then show ?thesis by (simp add: key_less_iff)
  qed
  show "\<not> key_less a b \<and> \<not> key_less b a \<longleftrightarrow> a = b"
    using key_le_antisym [of a b] by (auto simp: key_less_iff key_le_def)
qed

definition table_ok :: "session_table \<Rightarrow> bool" where
  "table_ok t \<longleftrightarrow> distinct (map fst t) \<and> keys_ordered (map fst t)"

lemma keys_ordered_subset: "keys_ordered ks \<Longrightarrow> set ks' \<subseteq> set ks \<Longrightarrow> keys_ordered ks'"
  by (auto simp: keys_ordered_def)

lemma table_find_eq: "keys_ordered (k # map fst t) \<Longrightarrow> table_find t k = Some (map_of t k)"
  by (simp add: table_find_def)

lemma map_of_filter: "map_of (filter (\<lambda>(k', _). k' \<noteq> k) t) = (map_of t)(k := None)"
  by (induction t) (auto simp: fun_eq_iff)

lemma table_register_ok:
  assumes t: "table_ok t" and k: "keys_ordered (k # map fst t)"
  shows "\<exists>ok t'. table_register k d t = Some (ok, t') \<and> table_ok t' \<and> (ok \<longleftrightarrow> map_of t k = None) \<and>
    map_of t' = (if ok then (map_of t)(k \<mapsto> d) else map_of t)"
  using t k by (auto simp: table_register_def table_find_eq table_ok_def map_of_eq_None_iff)

lemma table_unregister_ok:
  assumes t: "table_ok t" and k: "keys_ordered (k # map fst t)"
  shows "\<exists>ok t'. table_unregister k t = Some (ok, t') \<and> table_ok t' \<and> (ok \<longleftrightarrow> map_of t k \<noteq> None) \<and>
    map_of t' = (map_of t)(k := None)"
proof -
  have ok: "table_ok (filter (\<lambda>(k', _). k' \<noteq> k) t)"
  proof -
    have "set (map fst (filter (\<lambda>(k', _). k' \<noteq> k) t)) \<subseteq> set (map fst t)" by auto
    then show ?thesis using t keys_ordered_subset [of "map fst t"]
      by (simp add: table_ok_def distinct_map_filter)
  qed
  show ?thesis
  proof (cases "map_of t k")
    case None
    then have "(map_of t)(k := None) = map_of t" by (simp add: fun_upd_idem)
    moreover have "table_unregister k t = Some (False, t)" using None k by (simp add: table_unregister_def table_find_eq)
    ultimately show ?thesis using None t by auto
  next
    case (Some d)
    then have "table_unregister k t = Some (True, filter (\<lambda>(k', _). k' \<noteq> k) t)" using k
      by (simp add: table_unregister_def table_find_eq)
    then show ?thesis using ok Some by (auto simp: map_of_filter)
  qed
qed

end
