(* ===== verification/Octopus_Relay.thy ===== *)
theory Octopus_Relay
  imports Octopus_Laws
begin

text \<open>
  Relaying: what the loops of \<open>octopus/octopus_base.cc\<close> read from one descriptor is, in order, sent to
  the other one or kept in its write buffer.  A kernel holds, for every descriptor, the bytes
  that are still to be read; this is the ghost function \<open>inc\<close>.
\<close>

section \<open>Kernels with byte streams\<close>

definition octo_streams :: "'k octo_platform \<Rightarrow> ('k \<Rightarrow> int \<Rightarrow> byte list) \<Rightarrow> bool" where
  "octo_streams P inc \<longleftrightarrow>
     (\<forall>k fd n. inc k fd = (case fst (o_read P k fd n) of Read_Data d \<Rightarrow> d | _ \<Rightarrow> []) @ inc (snd (o_read P k fd n)) fd) \<and>
     (\<forall>k fd d. inc (snd (o_send P k fd d)) = inc k)"

lemma octo_streams_read:
  "octo_streams P inc \<Longrightarrow> o_read P k fd n = (Read_Data d, k') \<Longrightarrow> inc k fd = d @ inc k' fd"
  "octo_streams P inc \<Longrightarrow> o_read P k fd n = (Read_Again, k') \<Longrightarrow> inc k' fd = inc k fd"
  "octo_streams P inc \<Longrightarrow> o_read P k fd n = (Read_Error, k') \<Longrightarrow> inc k' fd = inc k fd"
  unfolding octo_streams_def by (metis fst_conv snd_conv read_result.case append_Nil)+

lemma octo_send_inc:
  "octo_streams P inc \<Longrightarrow> octo_send P fd d io = (n, io') \<Longrightarrow> inc (octo_kernel io') = inc (octo_kernel io)"
proof -
  assume streams: "octo_streams P inc" and run: "octo_send P fd d io = (n, io')"
  obtain k where k: "o_send P (octo_kernel io) fd d = (n, k)" using run by (auto simp: octo_send_def Let_def split: prod.splits)
  then have "inc k = inc (octo_kernel io)" using streams unfolding octo_streams_def by (metis snd_conv)
  then show ?thesis using run k by (auto simp: octo_send_def Let_def split: if_splits)
qed

lemma flush_segments_inc:
  "flush_segments P s data fl io = Some (s', rest, fl', io') \<Longrightarrow> octo_streams P inc \<Longrightarrow>
    inc (octo_kernel io') = inc (octo_kernel io)"
proof (induction P s data fl io rule: flush_segments.induct)
  case (1 P s data fl io)
  obtain n io1 where send: "octo_send P (ob_fd s) (take octo_kSegmentSize data) io = (n, io1)"
    by (cases "octo_send P (ob_fd s) (take octo_kSegmentSize data) io")
  show ?case
    using 1(1) [OF _ refl send [symmetric] refl] 1(2) octo_send_inc [OF 1(3) send] send 1(3)
    by (subst (asm) (2) flush_segments.simps) (auto simp: Let_def split: if_splits)
qed

lemma sink_segments_inc:
  "sink_segments P s data io = (s', rest, io') \<Longrightarrow> octo_streams P inc \<Longrightarrow>
    inc (octo_kernel io') = inc (octo_kernel io)"
proof (induction P s data io rule: sink_segments.induct)
  case (1 P s data io)
  obtain n io1 where send: "octo_send P (ob_fd s) (take octo_kSegmentSize data) io = (n, io1)"
    by (cases "octo_send P (ob_fd s) (take octo_kSegmentSize data) io")
  show ?case
    using 1(1) [OF _ send [symmetric] refl] 1(2) octo_send_inc [OF 1(3) send] send 1(3)
    by (subst (asm) (2) sink_segments.simps) (auto simp: Let_def split: if_splits)
qed

lemma octo_flush_buffer_inc:
  "octo_flush_buffer P s io = Some (s', io') \<Longrightarrow> octo_streams P inc \<Longrightarrow> inc (octo_kernel io') = inc (octo_kernel io)"
  by (auto simp: octo_flush_buffer_def split: if_splits bind_splits prod.splits dest: flush_segments_inc)

lemma octo_sink_inc:
  "octo_sink P pv s io = Some (s', io') \<Longrightarrow> octo_streams P inc \<Longrightarrow> inc (octo_kernel io') = inc (octo_kernel io)"
  by (auto simp: octo_sink_def Let_def split: if_splits bind_splits prod.splits
      dest!: octo_flush_buffer_inc [where inc = inc] sink_segments_inc [where inc = inc])

section \<open>What a relay keeps\<close>

text \<open>
  \<open>relayed\<close>: the bytes \<open>d\<close> taken from what is to be read on \<open>fd\<close> come, in order, behind those
  that waited to be written; only the write buffer, the counter of sent bytes and what the equation
  \<open>same\<close> ignores have changed in the socket.
\<close>

definition relayed :: "('k \<Rightarrow> int \<Rightarrow> byte list) \<Rightarrow> int \<Rightarrow> byte list \<Rightarrow> 'a octo_base_scheme \<Rightarrow> 'k octo_io \<Rightarrow>
    'a octo_base_scheme \<Rightarrow> 'k octo_io \<Rightarrow> bool" where
  "relayed inc fd d s io s' io' \<longleftrightarrow> inc (octo_kernel io) fd = d @ inc (octo_kernel io') fd \<and>
     (\<exists>sent. sends (ob_fd s) sent io io' \<and> sent @ ob_wb s' = ob_wb s @ d)"

lemma relayed_refl: "relayed inc fd [] s io s io"
  by (auto simp: relayed_def intro!: exI [of _ "[]"])

lemma relayed_trans:
  "relayed inc fd d s io s' io' \<Longrightarrow> relayed inc fd e s' io' s'' io'' \<Longrightarrow> ob_fd s' = ob_fd s \<Longrightarrow>
    relayed inc fd (d @ e) s io s'' io''"
  unfolding relayed_def by (metis append.assoc sends_trans)

text \<open>Nothing is lost or repeated between the descriptors.\<close>

lemma relayed_conserves:
  "relayed inc fd d s io s' io' \<Longrightarrow>
    octo_sent (ob_fd s) io' @ ob_wb s' @ inc (octo_kernel io') fd = octo_sent (ob_fd s) io @ ob_wb s @ inc (octo_kernel io) fd"
  unfolding relayed_def sends_def by (metis append.assoc)

lemma sends_kernel: "sends fd d (io\<lparr>octo_kernel := k\<rparr>) io' \<longleftrightarrow> sends fd d io io'"
  by (simp add: sends_def io_quiet_def)

text \<open>Reading \<open>d\<close> and sinking it.\<close>

lemma octo_sink_relayed:
  assumes P: "octo_posix P" "octo_streams P inc" and fd: "0 \<le> ob_fd s \<or> ob_wb s = []"
    and inc: "inc (octo_kernel io) fd = d @ inc k fd"
  shows "\<exists>s' io'. octo_sink P d s (io\<lparr>octo_kernel := k\<rparr>) = Some (s', io') \<and> relayed inc fd d s io s' io' \<and>
    s' = s\<lparr>ob_send_bytes := ob_send_bytes s', ob_wb := ob_wb s'\<rparr>"
proof -
  obtain s' io' where run: "octo_sink P d s (io\<lparr>octo_kernel := k\<rparr>) = Some (s', io')"
    "flushes d s (io\<lparr>octo_kernel := k\<rparr>) (s', io')"
    using octo_sink_flushes [OF P(1) fd] by (metis surj_pair)
  then have "relayed inc fd d s io s' io'" using octo_sink_inc [OF run(1) P(2)] inc
    by (auto simp: relayed_def flushes_def sends_kernel)
  then show ?thesis using run by (auto simp: flushes_def)
qed

end
