(* ===== verification/Octopus_Flow.thy ===== *)
theory Octopus_Flow
  imports Octopus_Relay
begin

text \<open>
  The loops that carry data through a process: from the socket of a dispatcher to its first hand,
  within the budget of the alarm, and from a hand to the socket of its dispatcher.
\<close>

section \<open>From the dispatcher to the hand\<close>

lemma hand_sink_relayed:
  assumes P: "octo_posix P" "octo_streams P inc" and fd: "0 \<le> ob_fd c \<or> ob_wb c = []"
    and inc: "inc (octo_kernel io) fd = d @ inc k fd"
  shows "\<exists>sb wb al io'. hand_sink P d c (io\<lparr>octo_kernel := k\<rparr>) =
      Some (c\<lparr>ob_send_bytes := sb, ob_wb := wb, out_bw_alarm := al\<rparr>, io') \<and>
    relayed inc fd d c io (c\<lparr>ob_send_bytes := sb, ob_wb := wb, out_bw_alarm := al\<rparr>) io'"
proof -
  obtain al where al: "alarm_update alarm_new (o_now P k) 0 = Some al"
    using alarm_update_inv [of alarm_new] by (auto simp: alarm_inv_def alarm_new_def)
  define c1 where "c1 = (if out_bw_alarm c = None then c\<lparr>out_bw_alarm := Some al\<rparr> else c)"
  have c1: "c1 = c\<lparr>out_bw_alarm := out_bw_alarm c1\<rparr>" by (simp add: c1_def)
  then have fields: "ob_fd c1 = ob_fd c" "ob_wb c1 = ob_wb c" by (simp_all add: c1_def)
  obtain c' io' where run: "octo_sink P d c1 (io\<lparr>octo_kernel := k\<rparr>) = Some (c', io')" "relayed inc fd d c1 io c' io'"
    "c' = c1\<lparr>ob_send_bytes := ob_send_bytes c', ob_wb := ob_wb c'\<rparr>"
    using octo_sink_relayed [OF P, of c1 io fd d k] fd inc fields by auto
  have eq: "c' = c\<lparr>ob_send_bytes := ob_send_bytes c', ob_wb := ob_wb c', out_bw_alarm := out_bw_alarm c1\<rparr>"
    by (subst run(3), subst c1) simp
  have "hand_sink P d c (io\<lparr>octo_kernel := k\<rparr>) = Some (c', io')"
    using run(1) al by (cases "out_bw_alarm c") (simp_all add: hand_sink_def c1_def)
  moreover have "relayed inc fd d c io c' io'" using run(2) fields by (simp add: relayed_def)
  ultimately show ?thesis using eq by metis
qed

lemma recv_self: "d\<lparr>ob_recv_bytes := ob_recv_bytes d\<rparr> = d"
  by (cases d) simp

lemma socket_self: "d\<lparr>ob_send_bytes := ob_send_bytes d, ob_wb := ob_wb d\<rparr> = d"
  by (cases d) simp

lemma world_update_swap:
  "w\<lparr>ow_disps := a, ow_hands := b, ow_io := io\<rparr> = w\<lparr>ow_hands := b, ow_disps := a, ow_io := io\<rparr>"
  by (cases w) simp

lemma hand_self:
  "c\<lparr>ob_send_bytes := ob_send_bytes c, ob_wb := ob_wb c, out_bw_alarm := out_bw_alarm c\<rparr> = (c :: hand)"
  by (cases c) simp

lemma socket_read_loop_relays:
  assumes P: "octo_posix P" "octo_streams P inc"
  shows "ow_disps w i = Some d \<Longrightarrow> ow_hands w j = Some c \<Longrightarrow> 0 \<le> ob_fd c \<Longrightarrow>
    \<exists>closed bs d' c' io'. socket_read_loop P i j budget w =
        Some (closed, w\<lparr>ow_disps := (ow_disps w)(i \<mapsto> d'), ow_hands := (ow_hands w)(j \<mapsto> c'), ow_io := io'\<rparr>) \<and>
      relayed inc (ob_fd d) bs c (ow_io w) c' io' \<and> int (length bs) \<le> max 0 budget \<and>
      d' = d\<lparr>ob_recv_bytes := ob_recv_bytes d'\<rparr> \<and>
      c' = c\<lparr>ob_send_bytes := ob_send_bytes c', ob_wb := ob_wb c', out_bw_alarm := out_bw_alarm c'\<rparr>"
proof (induction "nat budget" arbitrary: budget w d c rule: less_induct)
  case less
  have same: "w\<lparr>ow_disps := (ow_disps w)(i \<mapsto> d), ow_hands := (ow_hands w)(j \<mapsto> c), ow_io := io\<rparr> = w\<lparr>ow_io := io\<rparr>" for io
    using less.prems by (simp add: fun_upd_idem)
  let ?target = "min (nat budget) octo_kBufferSize"
  show ?case
  proof (cases "budget \<le> 0")
    case True
    then have "socket_read_loop P i j budget w = Some (False, w\<lparr>ow_io := ow_io w\<rparr>)"
      by (subst socket_read_loop.simps) simp
    then show ?thesis
      by (intro exI [of _ False] exI [of _ "[]"] exI [of _ d] exI [of _ c] exI [of _ "ow_io w"])
        (simp add: same relayed_refl recv_self hand_self)
  next
    case pos: False
    obtain r k where read: "o_read P (octo_kernel (ow_io w)) (ob_fd d) ?target = (r, k)"
      by (cases "o_read P (octo_kernel (ow_io w)) (ob_fd d) ?target")
    have stop: ?thesis if "socket_read_loop P i j budget w = Some (cl, set_kernel k w)"
      "inc k (ob_fd d) = inc (octo_kernel (ow_io w)) (ob_fd d)" for cl
    proof -
      have "relayed inc (ob_fd d) [] c (ow_io w) c ((ow_io w)\<lparr>octo_kernel := k\<rparr>)"
        using that(2) by (auto simp: relayed_def sends_def io_quiet_def intro!: exI [of _ "[]"])
      then show ?thesis using that(1) unfolding set_kernel_def
        by (intro exI [of _ cl] exI [of _ "[]"] exI [of _ d] exI [of _ c] exI [of _ "(ow_io w)\<lparr>octo_kernel := k\<rparr>"])
          (simp add: same recv_self hand_self)
    qed
    show ?thesis
    proof (cases r)
      case Read_Again
      then show ?thesis using pos read less.prems octo_streams_read(2) [OF P(2)]
        by (intro stop [of False]) (simp_all add: socket_read_loop.simps [of P i j budget w] Let_def)
    next
      case Read_Error
      then show ?thesis using pos read less.prems octo_streams_read(3) [OF P(2)]
        by (intro stop [of True]) (simp_all add: socket_read_loop.simps [of P i j budget w] Let_def)
    next
      case (Read_Data ds)
      show ?thesis
      proof (cases ds)
        case Nil
        then show ?thesis using Read_Data pos read less.prems octo_streams_read(1) [OF P(2), of _ _ _ "[]"]
          by (intro stop [of True]) (simp_all add: socket_read_loop.simps [of P i j budget w] Let_def)
      next
        case (Cons b bs)
        have len: "length ds \<le> ?target" using P(1) read Read_Data unfolding octo_posix_def by (metis fst_conv)
        have inc: "inc (octo_kernel (ow_io w)) (ob_fd d) = ds @ inc k (ob_fd d)"
          using octo_streams_read(1) [OF P(2)] read Read_Data by blast
        obtain sb wb al io1 where sink: "hand_sink P ds c ((ow_io w)\<lparr>octo_kernel := k\<rparr>) =
            Some (c\<lparr>ob_send_bytes := sb, ob_wb := wb, out_bw_alarm := al\<rparr>, io1)"
          "relayed inc (ob_fd d) ds c (ow_io w) (c\<lparr>ob_send_bytes := sb, ob_wb := wb, out_bw_alarm := al\<rparr>) io1"
          using hand_sink_relayed [where inc = inc, OF P _ inc] less.prems(3) by blast
        define c1 where "c1 = c\<lparr>ob_send_bytes := sb, ob_wb := wb, out_bw_alarm := al\<rparr>"
        define d1 where "d1 = d\<lparr>ob_recv_bytes := u64_add (ob_recv_bytes d) (length ds)\<rparr>"
        define w1 where "w1 = w\<lparr>ow_disps := (ow_disps w)(i \<mapsto> d1), ow_hands := (ow_hands w)(j \<mapsto> c1), ow_io := io1\<rparr>"
        have step: "socket_read_loop P i j budget w = socket_read_loop P i j (budget - int (length ds)) w1"
          using read Read_Data Cons len pos less.prems sink(1)
          by (subst socket_read_loop.simps) (simp add: Let_def on_hand_def set_kernel_def w1_def d1_def c1_def min_less_iff_disj)
        have smaller: "nat (budget - int (length ds)) < nat budget" using pos Cons by simp
        have w1: "ow_disps w1 i = Some d1" "ow_hands w1 j = Some c1" "ow_io w1 = io1" "0 \<le> ob_fd c1" "ob_fd d1 = ob_fd d"
          using less.prems(3) by (simp_all add: w1_def d1_def c1_def)
        obtain closed es d' c' io' where rec: "socket_read_loop P i j (budget - int (length ds)) w1 =
            Some (closed, w1\<lparr>ow_disps := (ow_disps w1)(i \<mapsto> d'), ow_hands := (ow_hands w1)(j \<mapsto> c'), ow_io := io'\<rparr>)"
          "relayed inc (ob_fd d) es c1 io1 c' io'" "int (length es) \<le> max 0 (budget - int (length ds))"
          "d' = d1\<lparr>ob_recv_bytes := ob_recv_bytes d'\<rparr>"
          "c' = c1\<lparr>ob_send_bytes := ob_send_bytes c', ob_wb := ob_wb c', out_bw_alarm := out_bw_alarm c'\<rparr>"
          using less.hyps [OF smaller w1(1,2,4)] unfolding w1(3,5) by blast
        have "relayed inc (ob_fd d) (ds @ es) c (ow_io w) c' io'"
          using relayed_trans [OF sink(2)] rec(2) by (simp add: c1_def)
        moreover have "int (length (ds @ es)) \<le> max 0 budget" using rec(3) len pos by auto
        moreover have "d' = d\<lparr>ob_recv_bytes := ob_recv_bytes d'\<rparr>" using rec(4) by (simp add: d1_def)
        moreover have "c' = c\<lparr>ob_send_bytes := ob_send_bytes c', ob_wb := ob_wb c', out_bw_alarm := out_bw_alarm c'\<rparr>"
          using rec(5) by (simp add: c1_def)
        moreover have "socket_read_loop P i j budget w =
            Some (closed, w\<lparr>ow_disps := (ow_disps w)(i \<mapsto> d'), ow_hands := (ow_hands w)(j \<mapsto> c'), ow_io := io'\<rparr>)"
          using step rec(1) by (simp add: w1_def)
        ultimately show ?thesis by blast
      qed
    qed
  qed
qed

text \<open>
  The whole alarm, up to closing or setting it again.  \<open>rtt_known\<close>: the kernel has measured a
  round-trip time, which \<open>GetWriteBudget\<close> checks.
\<close>

definition rtt_known :: "'k octo_platform \<Rightarrow> int \<Rightarrow> bool" where
  "rtt_known P fd \<longleftrightarrow> (\<forall>k m r. o_tcp_info P k fd = Some (m, r) \<longrightarrow> 0 < r)"

lemma get_write_budget_returns: "rtt_known P (ob_fd s) \<Longrightarrow> \<exists>b. get_write_budget P k s = Some b"
  by (auto simp: get_write_budget_def rtt_known_def Let_def split: option.splits prod.splits)

lemma disp_flush_sends:
  assumes P: "octo_posix P" "octo_streams P inc" and fd: "0 < ob_fd d"
  shows "\<exists>d' io'. disp_flush P d io = Some (d', io') \<and> inc (octo_kernel io') = inc (octo_kernel io) \<and>
    (\<exists>sent. sends (ob_fd d) sent io io' \<and> sent @ ob_wb d' = ob_wb d) \<and> last_alarm_time d' = o_now P (octo_kernel io') \<and>
    d' = d\<lparr>ob_send_bytes := ob_send_bytes d', ob_wb := ob_wb d', last_alarm_time := last_alarm_time d'\<rparr>"
proof -
  obtain d1 io1 where run: "octo_flush_buffer P d io = Some (d1, io1)" "flushes [] d io (d1, io1)"
    using octo_flush_buffer_flushes [OF P(1), of d io] fd by (metis less_imp_le surj_pair)
  have eq: "d1 = d\<lparr>ob_send_bytes := ob_send_bytes d1, ob_wb := ob_wb d1\<rparr>"
    and sent: "\<exists>sent. sends (ob_fd d) sent io io1 \<and> sent @ ob_wb d1 = ob_wb d" using run(2) by (auto simp: flushes_def)
  have "d1\<lparr>last_alarm_time := o_now P (octo_kernel io1)\<rparr> =
      d\<lparr>ob_send_bytes := ob_send_bytes d1, ob_wb := ob_wb d1, last_alarm_time := o_now P (octo_kernel io1)\<rparr>"
    by (subst eq) simp
  then show ?thesis using run(1) sent octo_flush_buffer_inc [OF run(1) P(2)] by (simp add: disp_flush_def)
qed

lemma sends_other: "sends fd d io io' \<Longrightarrow> f \<noteq> fd \<Longrightarrow> octo_sent f io' = octo_sent f io"
  by (simp add: sends_def)

lemma handle_socket_alarm_relays:
  assumes P: "octo_posix P" "octo_streams P inc" and d: "ow_disps w i = Some d" "ready_hands d = j # js" "0 < ob_fd d"
    and c: "ow_hands w j = Some c" "0 \<le> ob_fd c" "ob_fd c \<noteq> ob_fd d" "rtt_known P (ob_fd c)"
  shows "\<exists>closed d' c' io' budget k.
    handle_socket_alarm P i w =
      (let w' = w\<lparr>ow_disps := (ow_disps w)(i \<mapsto> d'), ow_hands := (ow_hands w)(j \<mapsto> c'), ow_io := io'\<rparr>
       in if closed then disp_conn_close P i OCTOPUS_SIG_CONN_DISCONN w'
          else on_disp i (rearm_socket_alarm (last_alarm_time d')) w') \<and>
    octo_sent (ob_fd d) io' @ ob_wb d' = octo_sent (ob_fd d) (ow_io w) @ ob_wb d \<and>
    octo_sent (ob_fd c) io' @ ob_wb c' @ inc (octo_kernel io') (ob_fd d) =
      octo_sent (ob_fd c) (ow_io w) @ ob_wb c @ inc (octo_kernel (ow_io w)) (ob_fd d) \<and>
    get_write_budget P k c = Some budget \<and>
    int (length (inc (octo_kernel (ow_io w)) (ob_fd d))) \<le> int (length (inc (octo_kernel io') (ob_fd d))) + max 0 budget \<and>
    d' = d\<lparr>ob_send_bytes := ob_send_bytes d', ob_recv_bytes := ob_recv_bytes d', ob_wb := ob_wb d',
      last_alarm_time := last_alarm_time d'\<rparr> \<and>
    c' = c\<lparr>ob_send_bytes := ob_send_bytes c', ob_wb := ob_wb c', out_bw_alarm := out_bw_alarm c'\<rparr>"
proof -
  obtain d1 io1 sent1 where flush: "disp_flush P d (ow_io w) = Some (d1, io1)"
    "inc (octo_kernel io1) = inc (octo_kernel (ow_io w))" "sends (ob_fd d) sent1 (ow_io w) io1" "sent1 @ ob_wb d1 = ob_wb d"
    "last_alarm_time d1 = o_now P (octo_kernel io1)"
    and eq1: "d1 = d\<lparr>ob_send_bytes := ob_send_bytes d1, ob_wb := ob_wb d1, last_alarm_time := last_alarm_time d1\<rparr>"
    using disp_flush_sends [OF P d(3), of "ow_io w"] by blast
  have fd1: "ob_fd d1 = ob_fd d" by (subst eq1) simp
  define w1 where "w1 = w\<lparr>ow_disps := (ow_disps w)(i \<mapsto> d1), ow_io := io1\<rparr>"
  have w1: "ow_disps w1 i = Some d1" "ow_hands w1 j = Some c" "ow_io w1 = io1" using c by (simp_all add: w1_def)
  obtain budget where budget: "get_write_budget P (octo_kernel io1) c = Some budget"
    using get_write_budget_returns [OF c(4)] by blast
  obtain closed bs d' c' io' where loop: "socket_read_loop P i j budget w1 =
      Some (closed, w1\<lparr>ow_disps := (ow_disps w1)(i \<mapsto> d'), ow_hands := (ow_hands w1)(j \<mapsto> c'), ow_io := io'\<rparr>)"
    "relayed inc (ob_fd d) bs c io1 c' io'" "int (length bs) \<le> max 0 budget" "d' = d1\<lparr>ob_recv_bytes := ob_recv_bytes d'\<rparr>"
    "c' = c\<lparr>ob_send_bytes := ob_send_bytes c', ob_wb := ob_wb c', out_bw_alarm := out_bw_alarm c'\<rparr>"
    using socket_read_loop_relays [OF P w1(1,2) c(2), of budget] unfolding w1(3) fd1 by blast
  obtain sb wb la where e1: "d1 = d\<lparr>ob_send_bytes := sb, ob_wb := wb, last_alarm_time := la\<rparr>" using eq1 by blast
  obtain rb where e2: "d' = d1\<lparr>ob_recv_bytes := rb\<rparr>" using loop(4) by blast
  have d': "last_alarm_time d' = o_now P (octo_kernel io1)" "ob_wb d' = ob_wb d1"
    "d' = d\<lparr>ob_send_bytes := ob_send_bytes d', ob_recv_bytes := ob_recv_bytes d', ob_wb := ob_wb d', last_alarm_time := last_alarm_time d'\<rparr>"
    using flush(5) by (simp_all add: e2 e1)
  have w': "w1\<lparr>ow_disps := (ow_disps w1)(i \<mapsto> d'), ow_hands := (ow_hands w1)(j \<mapsto> c'), ow_io := io'\<rparr> =
      w\<lparr>ow_disps := (ow_disps w)(i \<mapsto> d'), ow_hands := (ow_hands w)(j \<mapsto> c'), ow_io := io'\<rparr>"
    by (simp add: w1_def)
  have run: "handle_socket_alarm P i w =
      (let w' = w\<lparr>ow_disps := (ow_disps w)(i \<mapsto> d'), ow_hands := (ow_hands w)(j \<mapsto> c'), ow_io := io'\<rparr>
       in if closed then disp_conn_close P i OCTOPUS_SIG_CONN_DISCONN w'
          else on_disp i (rearm_socket_alarm (last_alarm_time d')) w')"
    using d c flush(1) budget loop(1) w' d'(1) by (simp add: handle_socket_alarm_def on_disp_def w1_def Let_def)
  obtain sent2 where sent2: "sends (ob_fd c) sent2 io1 io'" using loop(2) by (auto simp: relayed_def)
  have "octo_sent (ob_fd d) io' @ ob_wb d' = octo_sent (ob_fd d) (ow_io w) @ ob_wb d"
    using sends_other [OF sent2, of "ob_fd d"] flush(3,4) c(3) d'(2) by (simp add: sends_def)
  moreover have "octo_sent (ob_fd c) io' @ ob_wb c' @ inc (octo_kernel io') (ob_fd d) =
      octo_sent (ob_fd c) (ow_io w) @ ob_wb c @ inc (octo_kernel (ow_io w)) (ob_fd d)"
    using relayed_conserves [OF loop(2)] flush(2) sends_other [OF flush(3) c(3)] by simp
  moreover have "int (length (inc (octo_kernel (ow_io w)) (ob_fd d))) \<le>
      int (length (inc (octo_kernel io') (ob_fd d))) + max 0 budget"
    using loop(2,3) flush(2) by (simp add: relayed_def)
  ultimately show ?thesis using run budget d'(3) loop(5) by blast
qed

section \<open>From the hand to the dispatcher\<close>

text \<open>
  Both kinds of hand have a loop that hands what it reads to the dispatcher, once the hand is
  \<open>ready\<close> for data.
\<close>

locale upstream =
  fixes loop :: "'k octo_platform \<Rightarrow> nat \<Rightarrow> 'k octo_world \<Rightarrow> 'k octo_world option"
    and ready :: "hand \<Rightarrow> bool"
  assumes loop_eq: "ow_hands w j = Some c \<Longrightarrow> ready c \<Longrightarrow> hand_dispatcher c = Some i \<Longrightarrow>
      loop P j w = (case o_read P (octo_kernel (ow_io w)) (ob_fd c) octo_kBufferSize of
          (Read_Again, k) \<Rightarrow> Some (set_kernel k w)
        | (Read_Error, k) \<Rightarrow> hand_conn_close P j OCTOPUS_SIG_CONN_DISCONN (set_kernel k w)
        | (Read_Data [], k) \<Rightarrow> hand_conn_close P j OCTOPUS_SIG_CONN_DISCONN (set_kernel k w)
        | (Read_Data (b # bs), k) \<Rightarrow>
            Option.bind (on_hand j (note_read (length (b # bs)) k) w)
              (\<lambda>w1. Option.bind (on_disp i (octo_sink P (b # bs)) w1) (loop P j)))"
    and ready_recv: "ready c \<Longrightarrow> ready (c\<lparr>ob_recv_bytes := n\<rparr>)"
begin

lemma loop_relays:
  assumes P: "octo_posix P" "octo_streams P inc"
  shows "ow_hands w j = Some c \<Longrightarrow> ready c \<Longrightarrow> hand_dispatcher c = Some i \<Longrightarrow> ow_disps w i = Some d \<Longrightarrow> 0 \<le> ob_fd d \<Longrightarrow>
    \<exists>bs c' d' io' k. loop P j w =
        (let w' = w\<lparr>ow_disps := (ow_disps w)(i \<mapsto> d'), ow_hands := (ow_hands w)(j \<mapsto> c'), ow_io := io'\<rparr>
         in if fst (o_read P k (ob_fd c) octo_kBufferSize) = Read_Again then Some w'
            else hand_conn_close P j OCTOPUS_SIG_CONN_DISCONN w') \<and>
      relayed inc (ob_fd c) bs d (ow_io w) d' io' \<and> c' = c\<lparr>ob_recv_bytes := ob_recv_bytes c'\<rparr> \<and>
      d' = d\<lparr>ob_send_bytes := ob_send_bytes d', ob_wb := ob_wb d'\<rparr>"
proof (induction "length (inc (octo_kernel (ow_io w)) (ob_fd c))" arbitrary: w c d rule: less_induct)
  case less
  let ?k = "octo_kernel (ow_io w)"
  obtain r k where read: "o_read P ?k (ob_fd c) octo_kBufferSize = (r, k)"
    by (cases "o_read P ?k (ob_fd c) octo_kBufferSize")
  note eq = loop_eq [OF less.prems(1-3), of P, unfolded read]
  have stop: ?case if "loop P j w = (if r = Read_Again then Some (set_kernel k w)
        else hand_conn_close P j OCTOPUS_SIG_CONN_DISCONN (set_kernel k w))"
    "inc k (ob_fd c) = inc ?k (ob_fd c)"
  proof -
    have "relayed inc (ob_fd c) [] d (ow_io w) d ((ow_io w)\<lparr>octo_kernel := k\<rparr>)"
      using that(2) by (auto simp: relayed_def sends_def io_quiet_def intro!: exI [of _ "[]"])
    moreover have "w\<lparr>ow_disps := (ow_disps w)(i \<mapsto> d), ow_hands := (ow_hands w)(j \<mapsto> c), ow_io := (ow_io w)\<lparr>octo_kernel := k\<rparr>\<rparr> =
        set_kernel k w"
      using less.prems by (simp add: set_kernel_def fun_upd_idem)
    ultimately show ?case using that(1) read
      by (intro exI [of _ "[]"] exI [of _ c] exI [of _ d] exI [of _ "(ow_io w)\<lparr>octo_kernel := k\<rparr>"] exI [of _ ?k])
        (simp add: Let_def recv_self socket_self)
  qed
  show ?case
  proof (cases r)
    case Read_Again
    then show ?thesis using eq octo_streams_read(2) [OF P(2)] read by (intro stop) simp_all
  next
    case Read_Error
    then show ?thesis using eq octo_streams_read(3) [OF P(2)] read by (intro stop) simp_all
  next
    case (Read_Data ds)
    have inc: "inc ?k (ob_fd c) = ds @ inc k (ob_fd c)" using octo_streams_read(1) [OF P(2)] read Read_Data by blast
    show ?thesis
    proof (cases ds)
      case Nil
      then show ?thesis using eq inc Read_Data by (intro stop) simp_all
    next
      case (Cons b bs)
      define c1 where "c1 = c\<lparr>ob_recv_bytes := u64_add (ob_recv_bytes c) (length ds)\<rparr>"
      obtain d1 io1 where sink: "octo_sink P ds d ((ow_io w)\<lparr>octo_kernel := k\<rparr>) = Some (d1, io1)"
        "relayed inc (ob_fd c) ds d (ow_io w) d1 io1" "d1 = d\<lparr>ob_send_bytes := ob_send_bytes d1, ob_wb := ob_wb d1\<rparr>"
        using octo_sink_relayed [OF P _ inc] less.prems(5) by blast
      have fd1: "ob_fd d1 = ob_fd d" by (subst sink(3)) simp
      define w1 where "w1 = w\<lparr>ow_disps := (ow_disps w)(i \<mapsto> d1), ow_hands := (ow_hands w)(j \<mapsto> c1), ow_io := io1\<rparr>"
      have step: "loop P j w = loop P j w1"
        using eq Read_Data Cons less.prems sink(1) unfolding w1_def world_update_swap
        by (simp add: on_hand_def on_disp_def note_read_def c1_def)
      have w1: "ow_hands w1 j = Some c1" "ready c1" "hand_dispatcher c1 = Some i" "ow_disps w1 i = Some d1" "0 \<le> ob_fd d1"
        "ow_io w1 = io1" "ob_fd c1 = ob_fd c"
        using less.prems ready_recv fd1 by (simp_all add: w1_def c1_def)
      have smaller: "length (inc (octo_kernel (ow_io w1)) (ob_fd c1)) < length (inc ?k (ob_fd c))"
        using sink(2) Cons unfolding w1(6,7) by (simp add: relayed_def)
      obtain es c' d' io' k' where rec: "loop P j w1 =
          (let w' = w1\<lparr>ow_disps := (ow_disps w1)(i \<mapsto> d'), ow_hands := (ow_hands w1)(j \<mapsto> c'), ow_io := io'\<rparr>
           in if fst (o_read P k' (ob_fd c) octo_kBufferSize) = Read_Again then Some w'
              else hand_conn_close P j OCTOPUS_SIG_CONN_DISCONN w')"
        "relayed inc (ob_fd c) es d1 io1 d' io'" "c' = c1\<lparr>ob_recv_bytes := ob_recv_bytes c'\<rparr>"
        "d' = d1\<lparr>ob_send_bytes := ob_send_bytes d', ob_wb := ob_wb d'\<rparr>"
        using less.hyps [OF smaller w1(1-5)] unfolding w1(6,7) by blast
      have "relayed inc (ob_fd c) (ds @ es) d (ow_io w) d' io'" using relayed_trans [OF sink(2) rec(2) fd1] .
      moreover have "c' = c\<lparr>ob_recv_bytes := ob_recv_bytes c'\<rparr>" using rec(3) by (simp add: c1_def)
      moreover have "d' = d\<lparr>ob_send_bytes := ob_send_bytes d', ob_wb := ob_wb d'\<rparr>"
        by (subst rec(4), subst sink(3)) simp
      moreover have "w1\<lparr>ow_disps := (ow_disps w1)(i \<mapsto> d'), ow_hands := (ow_hands w1)(j \<mapsto> c'), ow_io := io'\<rparr> =
          w\<lparr>ow_disps := (ow_disps w)(i \<mapsto> d'), ow_hands := (ow_hands w)(j \<mapsto> c'), ow_io := io'\<rparr>"
        by (simp add: w1_def)
      ultimately show ?thesis using rec(1) unfolding step by metis
    qed
  qed
qed

text \<open>The same, with what the two descriptors have sent and kept.\<close>

lemma loop_conserves:
  assumes "octo_posix P" "octo_streams P inc" "ow_hands w j = Some c" "hand_dispatcher c = Some i" "ow_disps w i = Some d"
    "0 \<le> ob_fd d" "ready c"
  shows "\<exists>c' d' io' k. loop P j w =
        (let w' = w\<lparr>ow_disps := (ow_disps w)(i \<mapsto> d'), ow_hands := (ow_hands w)(j \<mapsto> c'), ow_io := io'\<rparr>
         in if fst (o_read P k (ob_fd c) octo_kBufferSize) = Read_Again then Some w'
            else hand_conn_close P j OCTOPUS_SIG_CONN_DISCONN w') \<and>
      octo_sent (ob_fd d) io' @ ob_wb d' @ inc (octo_kernel io') (ob_fd c) =
        octo_sent (ob_fd d) (ow_io w) @ ob_wb d @ inc (octo_kernel (ow_io w)) (ob_fd c) \<and>
      c' = c\<lparr>ob_recv_bytes := ob_recv_bytes c'\<rparr> \<and> d' = d\<lparr>ob_send_bytes := ob_send_bytes d', ob_wb := ob_wb d'\<rparr>"
proof -
  obtain bs c' d' io' k where run: "loop P j w =
        (let w' = w\<lparr>ow_disps := (ow_disps w)(i \<mapsto> d'), ow_hands := (ow_hands w)(j \<mapsto> c'), ow_io := io'\<rparr>
         in if fst (o_read P k (ob_fd c) octo_kBufferSize) = Read_Again then Some w'
            else hand_conn_close P j OCTOPUS_SIG_CONN_DISCONN w')"
      "relayed inc (ob_fd c) bs d (ow_io w) d' io'" "c' = c\<lparr>ob_recv_bytes := ob_recv_bytes c'\<rparr>"
      "d' = d\<lparr>ob_send_bytes := ob_send_bytes d', ob_wb := ob_wb d'\<rparr>"
    using loop_relays [OF assms(1-3) assms(7) assms(4-6)] by blast
  then show ?thesis using relayed_conserves [OF run(2)] by blast
qed

end

definition caller_ready :: "hand \<Rightarrow> bool" where
  "caller_ready c \<longleftrightarrow> msg_flag c AND OCTOPUS_META_ACK_FLAG \<noteq> 0"

definition callee_ready :: "hand \<Rightarrow> bool" where
  "callee_ready c \<longleftrightarrow> msg_flag c AND OCTOPUS_META_FLAG \<noteq> 0 \<and> ob_rb c = []"

lemma on_hand_bind: "ow_hands w j = Some c \<Longrightarrow>
  Option.bind (on_hand j (note_read n k) w) f =
    f (w\<lparr>ow_hands := (ow_hands w)(j \<mapsto> c\<lparr>ob_recv_bytes := u64_add (ob_recv_bytes c) n\<rparr>), ow_io := (ow_io w)\<lparr>octo_kernel := k\<rparr>\<rparr>)"
  by (simp add: on_hand_def note_read_def)

interpretation caller: upstream caller_read_loop caller_ready
proof
  show "caller_read_loop P j w = (case o_read P (octo_kernel (ow_io w)) (ob_fd c) octo_kBufferSize of
          (Read_Again, k) \<Rightarrow> Some (set_kernel k w)
        | (Read_Error, k) \<Rightarrow> hand_conn_close P j OCTOPUS_SIG_CONN_DISCONN (set_kernel k w)
        | (Read_Data [], k) \<Rightarrow> hand_conn_close P j OCTOPUS_SIG_CONN_DISCONN (set_kernel k w)
        | (Read_Data (b # bs), k) \<Rightarrow>
            Option.bind (on_hand j (note_read (length (b # bs)) k) w)
              (\<lambda>w1. Option.bind (on_disp i (octo_sink P (b # bs)) w1) (caller_read_loop P j)))"
    if "ow_hands w j = Some c" "caller_ready c" "hand_dispatcher c = Some i" for w j c i and P :: "'a octo_platform"
    using that by (subst caller_read_loop.simps)
      (auto simp: caller_ready_def on_hand_bind caller_data_def split: prod.splits read_result.splits list.splits)
qed (simp add: caller_ready_def)

interpretation callee: upstream callee_read_loop callee_ready
proof
  show "callee_read_loop P j w = (case o_read P (octo_kernel (ow_io w)) (ob_fd c) octo_kBufferSize of
          (Read_Again, k) \<Rightarrow> Some (set_kernel k w)
        | (Read_Error, k) \<Rightarrow> hand_conn_close P j OCTOPUS_SIG_CONN_DISCONN (set_kernel k w)
        | (Read_Data [], k) \<Rightarrow> hand_conn_close P j OCTOPUS_SIG_CONN_DISCONN (set_kernel k w)
        | (Read_Data (b # bs), k) \<Rightarrow>
            Option.bind (on_hand j (note_read (length (b # bs)) k) w)
              (\<lambda>w1. Option.bind (on_disp i (octo_sink P (b # bs)) w1) (callee_read_loop P j)))"
    if "ow_hands w j = Some c" "callee_ready c" "hand_dispatcher c = Some i" for w j c i and P :: "'a octo_platform"
    using that by (subst callee_read_loop.simps)
      (auto simp: callee_ready_def on_hand_bind callee_data_def split: prod.splits read_result.splits list.splits)
qed (simp add: callee_ready_def)

end
