(* ===== verification/Octopus_Safety.thy ===== *)
theory Octopus_Safety
  imports Octopus_Flow
begin

text \<open>
  Life and death of hands and dispatchers: the invariant of a process, which every operation of
  \<open>octopus/octopus_base.cc\<close> keeps, and the process states that events can reach.
\<close>

section \<open>The life of one object\<close>

text \<open>A step of an object posts its deletion at most once, and leaves no deleted object with a descriptor.\<close>

definition life :: "octo_object \<Rightarrow> 'a octo_base_scheme \<Rightarrow> 'k octo_io \<Rightarrow> 'a octo_base_scheme \<Rightarrow> 'k octo_io \<Rightarrow> bool" where
  "life self s io s' io' \<longleftrightarrow>
     (octo_posted io' = octo_posted io \<and> ob_destroyed s' = ob_destroyed s \<or>
      octo_posted io' = octo_posted io @ [self] \<and> \<not> ob_destroyed s \<and> ob_destroyed s') \<and>
     (ob_destroyed s' \<longrightarrow> ob_destroyed s \<and> ob_fd s' = ob_fd s \<or> ob_fd s' = - 1)"

lemma life_trans: "life self s io s' io' \<Longrightarrow> life self s' io' s'' io'' \<Longrightarrow> life self s io s'' io''"
  by (auto simp: life_def)

lemma life_same:
  "octo_posted io' = octo_posted io \<Longrightarrow> ob_destroyed s' = ob_destroyed s \<Longrightarrow> ob_fd s' = ob_fd s \<Longrightarrow> life self s io s' io'"
  by (simp add: life_def)

lemma flushes_life: "flushes new s io (s', io') \<Longrightarrow> life self s io s' io'"
proof -
  assume f: "flushes new s io (s', io')"
  then obtain sb wb where "s' = s\<lparr>ob_send_bytes := sb, ob_wb := wb\<rparr>" unfolding flushes_def fst_conv by blast
  then show ?thesis using f by (auto simp: flushes_def sends_def io_quiet_def life_def)
qed

lemma octo_flush_buffer_life:
  assumes posix: "octo_posix P" and run: "octo_flush_buffer P s io = Some (s', io')"
  shows "life self s io s' io'"
proof -
  have "0 \<le> ob_fd s \<or> ob_wb s = []" using run by (auto simp: octo_flush_buffer_def split: if_splits)
  then have "flushes [] s io (s', io')" using octo_flush_buffer_flushes [OF posix, of s io] run by auto
  then show ?thesis by (rule flushes_life)
qed

lemma octo_sink_life:
  assumes posix: "octo_posix P" and run: "octo_sink P pv s io = Some (s', io')"
  shows "life self s io s' io'"
proof -
  have "octo_flush_buffer P s io \<noteq> None" using run by (cases "octo_flush_buffer P s io") (simp_all add: octo_sink_def)
  then have "0 \<le> ob_fd s \<or> ob_wb s = []" by (auto simp: octo_flush_buffer_def split: if_splits)
  then have "flushes pv s io (s', io')" using octo_sink_flushes [OF posix, of s pv io] run by auto
  then show ?thesis by (rule flushes_life)
qed

lemma octo_delete_life:
  "octo_delete_self self s io = (s', io') \<Longrightarrow> ob_fd s = - 1 \<Longrightarrow> life self s io s' io'"
  by (auto simp: octo_delete_self_def life_def split: if_splits)

lemma close_delete_life:
  "octo_posted io1 = octo_posted io \<Longrightarrow> ob_destroyed s1 = ob_destroyed s \<Longrightarrow>
    octo_delete_self self (s1\<lparr>ob_fd := - 1\<rparr>) io1 = (s', io') \<Longrightarrow> life self s io s' io'"
  by (auto simp: octo_delete_self_def life_def split: if_splits)

lemma octo_send_posted: "octo_send P fd d io = (n, io') \<Longrightarrow> octo_posted io' = octo_posted io"
  by (auto simp: octo_send_def Let_def split: prod.splits if_splits)

lemma octo_close_fd_eq: "octo_close_fd P s io =
    (s\<lparr>ob_fd := - 1\<rparr>, octo_event (Close_Fd (ob_fd s)) (io\<lparr>octo_kernel := o_close P (octo_kernel io) (ob_fd s)\<rparr>))"
  by (simp add: octo_close_fd_def)

lemma hand_finish_life: "hand_finish P j c io = (c', io') \<Longrightarrow> life (Hand j) c io c' io'"
  unfolding hand_finish_def octo_close_fd_eq Let_def prod.case by (erule close_delete_life [rotated 2]) simp_all

lemma hand_shutdown_life: "hand_shutdown P j c io = (c', io') \<Longrightarrow> life (Hand j) c io c' io'"
  unfolding hand_shutdown_def octo_close_fd_eq Let_def prod.case by (erule close_delete_life [rotated 2]) simp_all

lemma disp_shutdown_life: "disp_shutdown P i d io = (d', io') \<Longrightarrow> life (Dispatcher i) d io d' io'"
  unfolding disp_shutdown_def octo_close_fd_eq Let_def prod.case by (erule close_delete_life [rotated 2]) simp_all

lemma disp_finish_life: "disp_finish P i d io = Some (d', io') \<Longrightarrow> life (Dispatcher i) d io d' io'"
  by (auto simp: disp_finish_def octo_close_fd_eq octo_delete_self_def life_def Let_def split: bind_splits if_splits)

lemma send_meta_ack_life: "send_meta_ack P code c io = Some (c', io') \<Longrightarrow> life (Hand j) c io c' io'"
  by (auto simp: send_meta_ack_def Let_def split: if_splits prod.splits intro!: life_same dest: octo_send_posted)

lemma hand_signal_from_life:
  assumes "hand_signal_from P j code c io = Some (c', io')"
  shows "life (Hand j) c io c' io'"
proof -
  define first where "first = (if hand_role c = OCTOPUS_HAND_SERVER \<and> (code = OCTOPUS_SIG_DST_FAILED \<or> code = OCTOPUS_SIG_DST_CONNECTED)
        then do {
          (c', io') \<leftarrow> send_meta_ack P code c io;
          Some (if code = OCTOPUS_SIG_DST_FAILED
            then hand_finish P j (c'\<lparr>hand_dispatcher := None\<rparr>) io' else (c', io'))
        }
        else Some (c, io))"
  obtain c1 io1 where one: "first = Some (c1, io1)"
    using assms by (auto simp: hand_signal_from_def first_def split: bind_splits)
  have finish: "life (Hand j) a o1 c2 o2" if "hand_finish P j (a\<lparr>hand_dispatcher := x, hand_wait_close := y\<rparr>) o1 = (c2, o2)" for a o1 x y c2 o2
    using hand_finish_life [OF that] by (simp add: life_def)
  have finish': "life (Hand j) a o1 c2 o2" if "hand_finish P j (a\<lparr>hand_dispatcher := x\<rparr>) o1 = (c2, o2)" for a o1 x c2 o2
    using hand_finish_life [OF that] by (simp add: life_def)
  have "life (Hand j) c io c1 io1"
    using one unfolding first_def
    by (auto split: if_splits bind_splits intro: life_same life_trans [OF send_meta_ack_life finish'] send_meta_ack_life)
  moreover have "life (Hand j) c1 io1 c' io'"
    using assms one unfolding hand_signal_from_def first_def [symmetric]
    by (auto simp: Let_def split: if_splits intro: life_same finish)
  ultimately show ?thesis by (rule life_trans)
qed

lemma hand_asyn_connect_life: "hand_asyn_connect P j addr c io = (ok, c', io') \<Longrightarrow> life (Hand j) c io c' io'"
  by (auto simp: hand_asyn_connect_def octo_close_fd_eq octo_delete_self_def life_def Let_def split: if_splits prod.splits)

lemma disp_asyn_connect_life: "disp_asyn_connect P i addr d io = (ok, d', io') \<Longrightarrow> life (Dispatcher i) d io d' io'"
  by (auto simp: disp_asyn_connect_def octo_close_fd_eq octo_delete_self_def life_def Let_def split: if_splits prod.splits)

lemma life_from:
  "life self s1 io1 s' io' \<Longrightarrow> ob_destroyed s1 = ob_destroyed s \<Longrightarrow> ob_fd s1 = ob_fd s \<Longrightarrow>
    octo_posted io1 = octo_posted io \<Longrightarrow> life self s io s' io'"
  by (simp add: life_def)

lemma hand_sink_life:
  "octo_posix P \<Longrightarrow> hand_sink P pv c io = Some (c', io') \<Longrightarrow> life (Hand j) c io c' io'"
  by (auto simp: hand_sink_def split: if_splits bind_splits
      dest!: octo_sink_life [where self = "Hand j"] elim: life_from)

lemma hand_measure_life: "hand_measure P k c = Some c' \<Longrightarrow> ob_destroyed c' = ob_destroyed c \<and> ob_fd c' = ob_fd c"
  by (auto simp: hand_measure_def Let_def split: if_splits bind_splits prod.splits option.splits)

lemma hand_measure_and_flush_life:
  "octo_posix P \<Longrightarrow> hand_measure_and_flush P c io = Some (c', io') \<Longrightarrow> life (Hand j) c io c' io'"
  by (auto simp: hand_measure_and_flush_def split: bind_splits if_splits dest!: hand_measure_life
      dest: octo_flush_buffer_life [where self = "Hand j"] intro: life_same elim: life_from)

lemma hand_writable_life:
  "octo_posix P \<Longrightarrow> hand_writable P c io = Some (c', io') \<Longrightarrow> life (Hand j) c io c' io'"
  by (auto simp: hand_writable_def Let_def split: if_splits
      dest!: octo_flush_buffer_life [where self = "Hand j"] intro: life_same elim: life_from)

lemma disp_flush_life:
  "octo_posix P \<Longrightarrow> disp_flush P d io = Some (d', io') \<Longrightarrow> life (Dispatcher i) d io d' io'"
  by (auto simp: disp_flush_def split: bind_splits intro: life_trans [OF octo_flush_buffer_life life_same])

lemma make_socket_alarm_life: "make_socket_alarm P k d = Some d' \<Longrightarrow> ob_destroyed d' = ob_destroyed d \<and> ob_fd d' = ob_fd d"
  by (auto simp: make_socket_alarm_def split: if_splits bind_splits)

section \<open>The invariant of a process\<close>

definition octo_inv :: "'k octo_world \<Rightarrow> bool" where
  "octo_inv w \<longleftrightarrow> distinct (octo_posted (ow_io w)) \<and>
     (\<forall>j. Hand j \<in> set (octo_posted (ow_io w)) \<longleftrightarrow> (\<exists>c. ow_hands w j = Some c \<and> ob_destroyed c)) \<and>
     (\<forall>i. Dispatcher i \<in> set (octo_posted (ow_io w)) \<longleftrightarrow> (\<exists>d. ow_disps w i = Some d \<and> ob_destroyed d)) \<and>
     (\<forall>j c. ow_hands w j = Some c \<longrightarrow> j < ow_next w \<and> (ob_destroyed c \<longrightarrow> ob_fd c = - 1)) \<and>
     (\<forall>i d. ow_disps w i = Some d \<longrightarrow> i < ow_next w \<and> (ob_destroyed d \<longrightarrow> ob_fd d = - 1))"

lemma octo_inv_hand:
  assumes "octo_inv w" "ow_hands w j = Some c" "life (Hand j) c (ow_io w) c' io'"
  shows "octo_inv (w\<lparr>ow_hands := (ow_hands w)(j \<mapsto> c'), ow_io := io'\<rparr>)"
  using assms unfolding octo_inv_def life_def by (elim conjE disjE) auto

lemma octo_inv_disp:
  assumes "octo_inv w" "ow_disps w i = Some d" "life (Dispatcher i) d (ow_io w) d' io'"
  shows "octo_inv (w\<lparr>ow_disps := (ow_disps w)(i \<mapsto> d'), ow_io := io'\<rparr>)"
  using assms unfolding octo_inv_def life_def by (elim conjE disjE) auto

lemma octo_inv_disp_fields:
  assumes "octo_inv w" "ow_disps w i = Some d" "ob_destroyed d' = ob_destroyed d" "ob_fd d' = ob_fd d"
  shows "octo_inv (w\<lparr>ow_disps := (ow_disps w)(i \<mapsto> d')\<rparr>)"
  using octo_inv_disp [OF assms(1,2), of d' "ow_io w"] assms(3,4) by (simp add: life_def)

lemma octo_inv_hand_fields:
  assumes "octo_inv w" "ow_hands w j = Some c" "ob_destroyed c' = ob_destroyed c" "ob_fd c' = ob_fd c"
  shows "octo_inv (w\<lparr>ow_hands := (ow_hands w)(j \<mapsto> c')\<rparr>)"
  using octo_inv_hand [OF assms(1,2), of c' "ow_io w"] assms(3,4) by (simp add: life_def)

lemma octo_inv_io: "octo_inv w \<Longrightarrow> octo_posted io = octo_posted (ow_io w) \<Longrightarrow> octo_inv (w\<lparr>ow_io := io\<rparr>)"
  by (simp add: octo_inv_def)

lemma octo_inv_kernel: "octo_inv w \<Longrightarrow> octo_inv (set_kernel k w)"
  by (simp add: set_kernel_def octo_inv_io)

lemma octo_inv_new_hand:
  assumes inv: "octo_inv w" and new: "\<not> ob_destroyed c0" "life (Hand (ow_next w)) c0 (ow_io w) c io"
  shows "octo_inv (w\<lparr>ow_hands := (ow_hands w)(ow_next w \<mapsto> c), ow_next := ow_next w + 1, ow_io := io\<rparr>)"
proof -
  have none: "ow_hands w (ow_next w) = None" "Hand (ow_next w) \<notin> set (octo_posted (ow_io w))"
    using inv unfolding octo_inv_def by (metis less_irrefl option.exhaust, metis less_irrefl)
  show ?thesis using assms none unfolding octo_inv_def life_def by (elim conjE disjE) (auto simp: less_SucI)
qed

lemma octo_inv_new_disp:
  assumes inv: "octo_inv w" and new: "\<not> ob_destroyed d0" "life (Dispatcher (ow_next w)) d0 (ow_io w) d io"
  shows "octo_inv (w\<lparr>ow_disps := (ow_disps w)(ow_next w \<mapsto> d), ow_next := ow_next w + 1, ow_io := io\<rparr>)"
proof -
  have none: "ow_disps w (ow_next w) = None" "Dispatcher (ow_next w) \<notin> set (octo_posted (ow_io w))"
    using inv unfolding octo_inv_def by (metis less_irrefl option.exhaust, metis less_irrefl)
  show ?thesis using assms none unfolding octo_inv_def life_def by (elim conjE disjE) (auto simp: less_SucI)
qed

lemma on_hand_inv:
  assumes "on_hand j f w = Some w'" "octo_inv w"
    and "\<And>c c' io'. ow_hands w j = Some c \<Longrightarrow> f c (ow_io w) = Some (c', io') \<Longrightarrow> life (Hand j) c (ow_io w) c' io'"
  shows "octo_inv w'"
proof -
  obtain c c' io' where "ow_hands w j = Some c" "f c (ow_io w) = Some (c', io')"
    "w' = w\<lparr>ow_hands := (ow_hands w)(j \<mapsto> c'), ow_io := io'\<rparr>"
    using assms(1) by (auto simp: on_hand_def split: bind_splits)
  then show ?thesis using octo_inv_hand [OF assms(2)] assms(3) by blast
qed

lemma on_disp_inv:
  assumes "on_disp i f w = Some w'" "octo_inv w"
    and "\<And>d d' io'. ow_disps w i = Some d \<Longrightarrow> f d (ow_io w) = Some (d', io') \<Longrightarrow> life (Dispatcher i) d (ow_io w) d' io'"
  shows "octo_inv w'"
proof -
  obtain d d' io' where "ow_disps w i = Some d" "f d (ow_io w) = Some (d', io')"
    "w' = w\<lparr>ow_disps := (ow_disps w)(i \<mapsto> d'), ow_io := io'\<rparr>"
    using assms(1) by (auto simp: on_disp_def split: bind_splits)
  then show ?thesis using octo_inv_disp [OF assms(2)] assms(3) by blast
qed

text \<open>A step that touches nothing but fields of the hand.\<close>

lemma on_hand_fields_inv:
  assumes "on_hand j (\<lambda>c io. Some (g c, io)) w = Some w'" "octo_inv w"
    and "\<And>c. ob_destroyed (g c) = ob_destroyed c \<and> ob_fd (g c) = ob_fd c"
  shows "octo_inv w'"
  using assms(1,2) by (rule on_hand_inv) (auto simp: assms(3) intro: life_same)

lemma each_inv:
  "each f xs w = Some w' \<Longrightarrow> octo_inv w \<Longrightarrow> (\<And>x w w'. f x w = Some w' \<Longrightarrow> octo_inv w \<Longrightarrow> octo_inv w') \<Longrightarrow> octo_inv w'"
  by (induction xs arbitrary: w) (auto split: bind_splits)

lemma do_when_inv:
  "do_when b f w = Some w' \<Longrightarrow> octo_inv w \<Longrightarrow> (\<And>w'. f w = Some w' \<Longrightarrow> octo_inv w') \<Longrightarrow> octo_inv w'"
  by (auto simp: do_when_def split: if_splits)

section \<open>Every operation keeps it\<close>

lemma signal_hands_inv:
  "each (\<lambda>j. on_hand j (hand_signal_from P j code)) js w = Some w' \<Longrightarrow> octo_inv w \<Longrightarrow> octo_inv w'"
  by (erule each_inv) (auto elim!: on_hand_inv dest: hand_signal_from_life)

lemma disp_conn_close_inv: "disp_conn_close P i code w = Some w' \<Longrightarrow> octo_inv w \<Longrightarrow> octo_inv w'"
  by (auto simp: disp_conn_close_def split: bind_splits
      elim!: on_disp_inv dest!: signal_hands_inv dest: disp_finish_life)

lemma hand_ready_inv: "on_disp i (hand_ready P j) w = Some w' \<Longrightarrow> octo_inv w \<Longrightarrow> octo_inv w'"
  by (erule on_disp_inv) (auto simp: hand_ready_def intro!: life_same dest: make_socket_alarm_life)

lemma disp_signal_from_inv:
  assumes run: "disp_signal_from P i j code w = Some w'" and inv: "octo_inv w"
  shows "octo_inv w'"
proof -
  define first where "first d0 = (if disp_role d0 = OCTOPUS_DISPATCHER_CLIENT \<and> code = OCTOPUS_SIG_DST_CONNECTED
            then on_disp i (hand_ready P j) w else Some w)" for d0 :: dispatcher
  obtain d0 w1 where w1: "ow_disps w i = Some d0" "first d0 = Some w1"
    using run by (auto simp: disp_signal_from_def first_def split: bind_splits)
  have "octo_inv w1" using w1(2) inv hand_ready_inv by (auto simp: first_def split: if_splits)
  then show ?thesis using run w1(1) unfolding disp_signal_from_def
    by (auto simp: w1(2) first_def [symmetric] Let_def split: bind_splits if_splits
        intro: octo_inv_disp_fields elim!: disp_conn_close_inv)
qed

lemma hand_finish_inv: "on_hand j (\<lambda>c io. Some (hand_finish P j c io)) w = Some w' \<Longrightarrow> octo_inv w \<Longrightarrow> octo_inv w'"
  by (erule on_hand_inv) (auto dest: hand_finish_life)

lemma hand_conn_close_inv: "hand_conn_close P j code w = Some w' \<Longrightarrow> octo_inv w \<Longrightarrow> octo_inv w'"
  by (auto simp: hand_conn_close_def split: bind_splits option.splits
      elim!: hand_finish_inv on_hand_fields_inv dest!: disp_signal_from_inv)

lemma register_hand_inv: "register_hand P i j w = Some w' \<Longrightarrow> octo_inv w \<Longrightarrow> octo_inv w'"
  by (auto simp: register_hand_def split: bind_splits if_splits
      intro: octo_inv_disp_fields elim!: on_hand_inv dest: hand_signal_from_life)

lemma octo_alarm_hand_inv: "octo_posix P \<Longrightarrow> octo_alarm_hand P j w = Some w' \<Longrightarrow> octo_inv w \<Longrightarrow> octo_inv w'"
  by (auto simp: octo_alarm_hand_def split: bind_splits if_splits
      elim!: hand_conn_close_inv on_hand_inv dest: hand_measure_and_flush_life)

lemma note_read_inv: "on_hand j (note_read n k) w = Some w' \<Longrightarrow> octo_inv w \<Longrightarrow> octo_inv w'"
  by (erule on_hand_inv) (auto simp: note_read_def intro!: life_same)

lemma disp_sink_inv: "on_disp i (octo_sink P bs) w = Some w' \<Longrightarrow> octo_inv w \<Longrightarrow> octo_posix P \<Longrightarrow> octo_inv w'"
  by (erule on_disp_inv) (auto dest: octo_sink_life)

lemma caller_first_inv:
  assumes run: "caller_first P j b bs w = Some w'" and inv: "octo_inv w" and posix: "octo_posix P"
  shows "octo_inv w'"
proof -
  obtain w1 c where w1: "on_hand j (\<lambda>c io. Some (c\<lparr>msg_flag := msg_flag c OR OCTOPUS_META_ACK_FLAG\<rparr>, io)) w = Some w1"
    "ow_hands w1 j = Some c"
    using run by (auto simp: caller_first_def split: bind_splits)
  have inv1: "octo_inv w1" using w1(1) inv by (rule on_hand_fields_inv) simp
  show ?thesis using run w1 inv1 posix unfolding caller_first_def
    by (auto split: bind_splits if_splits option.splits elim!: hand_conn_close_inv disp_sink_inv disp_signal_from_inv)
qed

lemma caller_data_inv: "caller_data P j bs w = Some w' \<Longrightarrow> octo_inv w \<Longrightarrow> octo_posix P \<Longrightarrow> octo_inv w'"
  by (auto simp: caller_data_def split: bind_splits elim!: disp_sink_inv)

lemma caller_read_loop_inv:
  assumes run: "caller_read_loop P j w = Some w'" and posix: "octo_posix P" and inv: "octo_inv w"
  shows "octo_inv w'"
proof -
  have "octo_posix P \<longrightarrow> octo_inv w \<longrightarrow> octo_inv w'"
  proof (rule caller_read_loop.raw_induct [where Pa = "\<lambda>((P, j), w) w'. octo_posix P \<longrightarrow> octo_inv w \<longrightarrow> octo_inv w'",
      unfolded prod.case, OF _ run], goal_cases)
    case (1 loop P j w w')
    then show ?case
      by (auto split: bind_splits prod.splits read_result.splits list.splits if_splits
          intro: octo_inv_kernel elim!: hand_conn_close_inv dest!: note_read_inv caller_first_inv caller_data_inv)
  qed
  then show ?thesis using posix inv by blast
qed

lemma hand_writable_inv: "on_hand j (hand_writable P) w = Some w' \<Longrightarrow> octo_inv w \<Longrightarrow> octo_posix P \<Longrightarrow> octo_inv w'"
  by (erule on_hand_inv) (auto dest: hand_writable_life)

lemma on_caller_event_inv:
  "on_caller_event P j events w = Some w' \<Longrightarrow> octo_inv w \<Longrightarrow> octo_posix P \<Longrightarrow> octo_inv w'"
  by (auto simp: on_caller_event_def split: bind_splits if_splits
      elim!: hand_conn_close_inv do_when_inv hand_writable_inv caller_read_loop_inv)

lemma give_up_socket_posted: "octo_posted (snd (give_up_socket P fd io)) = octo_posted io"
  by (simp add: give_up_socket_def)

lemma bind_addr_posted: "octo_posted (snd (bind_addr P addr tr io)) = octo_posted io"
  by (simp add: bind_addr_def Let_def give_up_socket_posted split: prod.splits)

end
