(* ===== verification/Octopus_Reach.thy ===== *)
theory Octopus_Reach
  imports Octopus_Safety
begin

text \<open>
  The invariant of \<open>Octopus_Safety\<close> over the operations of called hands and of dispatchers
  (\<open>octopus/octopus_base.cc\<close>), and over everything that can happen to a process.
\<close>

lemma open_dispatcher_inv:
  assumes run: "open_dispatcher P j sp uuid sock w = Some (ok, w')" and inv: "octo_inv w"
  shows "octo_inv w'"
proof -
  let ?i = "ow_next w"
  obtain table d1 io1 w2 where conn: "disp_asyn_connect P ?i (key_to uuid, key_dst_port uuid)
      (dispatcher_new sock uuid OCTOPUS_DISPATCHER_SERVER True)
      ((ow_io w)\<lparr>octo_visitors := octo_visitors (ow_io w) @ [?i], octo_table := table\<rparr>) = (ok, d1, io1)"
    and w2: "on_hand j (\<lambda>c io. Some (c\<lparr>hand_dispatcher := Some ?i\<rparr>, io))
      (w\<lparr>ow_disps := (ow_disps w)(?i \<mapsto> d1), ow_next := ?i + 1, ow_io := io1\<rparr>) = Some w2"
    and w3: "do_when ok (register_hand P ?i j) w2 = Some w'"
    using run by (auto simp: open_dispatcher_def Let_def split: bind_splits prod.splits)
  have "life (Dispatcher ?i) (dispatcher_new sock uuid OCTOPUS_DISPATCHER_SERVER True) (ow_io w) d1 io1"
    using disp_asyn_connect_life [OF conn] by (simp add: life_def)
  then have "octo_inv (w\<lparr>ow_disps := (ow_disps w)(?i \<mapsto> d1), ow_next := ?i + 1, ow_io := io1\<rparr>)"
    by (intro octo_inv_new_disp [OF inv, of "dispatcher_new sock uuid OCTOPUS_DISPATCHER_SERVER True"])
      (simp_all add: dispatcher_new_def octo_base_new_def octo_base.defs)
  then have "octo_inv w2" by (rule on_hand_fields_inv [OF w2]) simp
  then show ?thesis using w3 by (auto elim: do_when_inv register_hand_inv)
qed

lemma callee_parse_meta_inv:
  assumes run: "callee_parse_meta P j w = Some w'" and inv: "octo_inv w"
  shows "octo_inv w'"
proof -
  obtain c where c: "ow_hands w j = Some c" using run by (auto simp: callee_parse_meta_def split: bind_splits)
  show ?thesis
  proof (cases "msg_flag c AND OCTOPUS_META_FLAG \<noteq> 0 \<or> read_meta (reader_new (ob_rb c) (length (ob_rb c))) = None")
    case True
    then show ?thesis using run c inv by (auto simp: callee_parse_meta_def split: if_splits)
  next
    case False
    then obtain sp uuid reader where meta: "msg_flag c AND OCTOPUS_META_FLAG = 0"
      "read_meta (reader_new (ob_rb c) (length (ob_rb c))) = Some (sp, uuid, reader)" by auto
    obtain w1 where w1: "on_hand j (\<lambda>c io. Some (c\<lparr>msg_flag := msg_flag c OR OCTOPUS_META_FLAG, sp_flag := sp\<rparr>, io)) w = Some w1"
      using run c meta by (auto simp: callee_parse_meta_def split: bind_splits)
    have inv1: "octo_inv w1" using w1 inv by (rule on_hand_fields_inv) simp
    obtain found where found: "table_find (octo_table (ow_io w1)) uuid = Some found" "hand_manager c"
      using run c meta w1 by (auto simp: callee_parse_meta_def split: bind_splits if_splits)
    show ?thesis
    proof (cases found)
      case (Some i)
      then obtain w2 where "on_hand j (\<lambda>c io. Some (c\<lparr>hand_dispatcher := Some i\<rparr>, io)) w1 = Some w2" "register_hand P i j w2 = Some w'"
        using run c meta w1 found by (auto simp: callee_parse_meta_def split: bind_splits)
      then show ?thesis using on_hand_fields_inv [OF _ inv1] register_hand_inv by (auto intro: register_hand_inv on_hand_fields_inv)
    next
      case None
      obtain sock io2 where bind: "bind_addr P (key_from uuid, key_src_port uuid) True (ow_io w1) = (sock, io2)" by fastforce
      have inv2: "octo_inv (w1\<lparr>ow_io := io2\<rparr>)"
        using inv1 bind_addr_posted [of P "(key_from uuid, key_src_port uuid)" True "ow_io w1"] bind by (simp add: octo_inv_io)
      obtain ok w3 where w3: "(if 0 < sock then open_dispatcher P j sp uuid sock (w1\<lparr>ow_io := io2\<rparr>)
          else Some (False, w1\<lparr>ow_io := io2\<rparr>)) = Some (ok, w3)"
        using run c meta w1 found None bind by (auto simp: callee_parse_meta_def Let_def split: bind_splits)
      have inv3: "octo_inv w3" using w3 inv2 open_dispatcher_inv by (auto split: if_splits)
      obtain w4 where w4: "(if ok then Some w3 else do {
               w' \<leftarrow> on_hand j (send_meta_ack P OCTOPUS_SIG_DST_FAILED) w3;
               hand_conn_close P j OCTOPUS_SIG_DST_FAILED w'
             }) = Some w4" and last: "on_hand j (\<lambda>c io. Some (c\<lparr>ob_rb := []\<rparr>, io)) w4 = Some w'"
        using run c meta w1 found None bind w3 by (simp add: callee_parse_meta_def Let_def split: bind_splits if_split_asm)
      have "octo_inv w4" using w4 inv3
        by (auto split: if_splits bind_splits elim!: hand_conn_close_inv on_hand_inv dest: send_meta_ack_life)
      with last show ?thesis by (rule on_hand_fields_inv) simp
    qed
  qed
qed

lemma callee_data_inv:
  assumes run: "callee_data P j bs w = Some w'" and inv: "octo_inv w" and posix: "octo_posix P"
  shows "octo_inv w'"
  using run inv posix unfolding callee_data_def
  by (auto split: bind_splits if_splits elim!: callee_parse_meta_inv disp_sink_inv intro: on_hand_fields_inv)

lemma callee_read_loop_inv:
  assumes run: "callee_read_loop P j w = Some w'" and inv: "octo_inv w" and posix: "octo_posix P"
  shows "octo_inv w'"
proof -
  have "octo_posix P \<longrightarrow> octo_inv w \<longrightarrow> octo_inv w'"
  proof (rule callee_read_loop.raw_induct [where Pa = "\<lambda>((P, j), w) w'. octo_posix P \<longrightarrow> octo_inv w \<longrightarrow> octo_inv w'",
      unfolded prod.case, OF _ run], goal_cases)
    case (1 loop P j w w')
    then show ?case
      by (auto split: bind_splits prod.splits read_result.splits list.splits
          intro: octo_inv_kernel elim!: hand_conn_close_inv dest!: note_read_inv callee_data_inv)
  qed
  then show ?thesis using posix inv by blast
qed

lemma hand_on_event_inv:
  assumes run: "hand_on_event P j events w = Some w'" and inv: "octo_inv w" and posix: "octo_posix P"
  shows "octo_inv w'"
  using run inv posix unfolding hand_on_event_def on_callee_event_def
  by (auto split: bind_splits octo_hand_role.splits
      elim!: on_caller_event_inv hand_conn_close_inv do_when_inv callee_read_loop_inv)

section \<open>Dispatchers\<close>

lemma disp_connected_inv: "on_disp i (disp_connected P i) w = Some w' \<Longrightarrow> octo_inv w \<Longrightarrow> octo_inv w'"
  by (erule on_disp_inv)
    (auto simp: disp_connected_def Let_def split: bind_splits if_splits intro!: life_same dest!: make_socket_alarm_life)

lemma disp_on_event_inv:
  assumes run: "disp_on_event P i events w = Some w'" and inv: "octo_inv w"
  shows "octo_inv w'"
proof -
  obtain d w1 d1 where w1: "ow_disps w i = Some d" "ow_disps w1 i = Some d1"
    "do_when (has_event events (EPOLLERR OR EPOLLHUP) \<and> ob_status d = OCTOPUS_CONN_CONNECTING)
       (disp_conn_close P i OCTOPUS_SIG_DST_FAILED) w = Some w1"
    using run by (auto simp: disp_on_event_def split: bind_splits)
  have inv1: "octo_inv w1" using w1(3) inv by (auto elim: do_when_inv disp_conn_close_inv)
  then have "octo_inv (w1\<lparr>ow_disps := (ow_disps w1)(i \<mapsto> d1\<lparr>ob_status := OCTOPUS_CONN_CONNECTED\<rparr>)\<rparr>)"
    using w1(2) by (intro octo_inv_disp_fields) simp_all
  then show ?thesis using run w1 inv1 unfolding disp_on_event_def
    by (auto split: bind_splits if_splits elim!: disp_connected_inv signal_hands_inv)
qed

lemma socket_read_loop_inv:
  "socket_read_loop P i j budget w = Some (closed, w') \<Longrightarrow> octo_inv w \<Longrightarrow> octo_posix P \<Longrightarrow> octo_inv w'"
proof (induction P i j budget w arbitrary: closed w' rule: socket_read_loop.induct)
  case (1 P i j budget w)
  note IH = 1(1) and run = 1(2) and inv = 1(3) and posix = 1(4)
  show ?case
  proof (cases "budget \<le> 0")
    case True
    then show ?thesis using run inv by (subst (asm) socket_read_loop.simps) simp
  next
    case pos: False
    obtain d where d: "ow_disps w i = Some d"
      using run pos by (subst (asm) socket_read_loop.simps) (auto split: bind_splits)
    let ?target = "min (nat budget) octo_kBufferSize"
    obtain r k where read: "o_read P (octo_kernel (ow_io w)) (ob_fd d) ?target = (r, k)"
      by (cases "o_read P (octo_kernel (ow_io w)) (ob_fd d) ?target")
    have stop: "octo_inv (set_kernel k w)" using inv by (rule octo_inv_kernel)
    show ?thesis
    proof (cases "\<exists>b bs. r = Read_Data (b # bs)")
      case False
      then show ?thesis using run pos d read stop
        by (subst (asm) socket_read_loop.simps) (auto simp: Let_def split: read_result.splits list.splits)
    next
      case True
      then obtain b bs where r: "r = Read_Data (b # bs)" by blast
      define wr where "wr = (set_kernel k w)\<lparr>ow_disps := (ow_disps w)(i \<mapsto>
          d\<lparr>ob_recv_bytes := u64_add (ob_recv_bytes d) (length (b # bs))\<rparr>)\<rparr>"
      obtain w1 where w1: "\<not> ?target < length (b # bs)" "on_hand j (hand_sink P (b # bs)) wr = Some w1"
        "socket_read_loop P i j (budget - int (length (b # bs))) w1 = Some (closed, w')"
        using run pos d read r by (subst (asm) socket_read_loop.simps) (auto simp: Let_def wr_def split: bind_splits if_splits)
      have "octo_inv wr" using octo_inv_disp_fields [OF stop, of i d] d by (simp add: wr_def set_kernel_def)
      then have "octo_inv w1" by (rule on_hand_inv [OF w1(2)]) (auto dest: hand_sink_life [OF posix])
      then show ?thesis using IH [OF pos d refl read [symmetric] r refl w1(1) w1(2) [unfolded wr_def] w1(3)] posix by blast
    qed
  qed
qed

lemma handle_socket_alarm_inv:
  assumes run: "handle_socket_alarm P i w = Some w'" and inv: "octo_inv w" and posix: "octo_posix P"
  shows "octo_inv w'"
proof -
  have flush: "octo_inv w1" if "on_disp i (disp_flush P) w = Some w1" for w1
    using that inv by (rule on_disp_inv) (auto dest: disp_flush_life [OF posix])
  have rearm: "octo_inv w2" if "on_disp i (rearm_socket_alarm now) w1 = Some w2" "octo_inv w1" for now w1 w2
    using that by (rule on_disp_inv) (auto simp: rearm_socket_alarm_def split: bind_splits intro!: life_same)
  show ?thesis using run inv posix unfolding handle_socket_alarm_def
    by (auto simp: Let_def split: bind_splits if_splits list.splits
        elim!: disp_conn_close_inv rearm dest!: flush dest: socket_read_loop_inv)
qed

section \<open>Making and deleting\<close>

lemma create_single_connection_inv:
  assumes run: "create_single_connection P i src dst w = Some (ok, w')" and inv: "octo_inv w"
  shows "octo_inv w'"
proof -
  obtain d sock io1 where d: "ow_disps w i = Some d" and bind: "bind_addr P src False (ow_io w) = (sock, io1)"
    using run by (cases "bind_addr P src False (ow_io w)") (auto simp: create_single_connection_def split: bind_splits)
  have posted: "octo_posted io1 = octo_posted (ow_io w)" using bind_addr_posted [of P src False "ow_io w"] bind by simp
  have close: "octo_inv w2" if "disp_conn_close P i OCTOPUS_SIG_CONN_FAILED w1 = Some w2" "octo_inv w1" for w1 w2
    using that by (rule disp_conn_close_inv)
  show ?thesis
  proof (cases "0 < sock")
    case False
    then show ?thesis using run d bind close [of "w\<lparr>ow_io := io1\<rparr>" w'] octo_inv_io [OF inv posted]
      by (auto simp: create_single_connection_def)
  next
    case True
    let ?j = "ow_next w"
    obtain c io2 where new: "hand_new P sock OCTOPUS_HAND_CLIENT False (Some i) io1 = (c, io2)" by fastforce
    obtain ok1 c1 io3 where conn: "hand_asyn_connect P ?j dst (write_meta (disp_uuid d) True c) io2 = (ok1, c1, io3)"
      by (cases "hand_asyn_connect P ?j dst (write_meta (disp_uuid d) True c) io2")
    define w1 where "w1 = w\<lparr>ow_hands := (ow_hands w)(?j \<mapsto> c1), ow_next := ?j + 1, ow_io := io3\<rparr>"
    have "life (Hand ?j) (write_meta (disp_uuid d) True c) (ow_io w) c1 io3"
      using hand_asyn_connect_life [OF conn] new posted by (auto simp: hand_new_def Let_def life_def)
    moreover have "\<not> ob_destroyed (write_meta (disp_uuid d) True c)"
      using new by (auto simp: hand_new_def write_meta_def octo_base_new_def octo_base.defs Let_def)
    ultimately have inv1: "octo_inv w1" unfolding w1_def by (intro octo_inv_new_hand [OF inv])
    have d1: "ow_disps w1 i = Some d" using d by (simp add: w1_def)
    have "octo_inv (w1\<lparr>ow_disps := (ow_disps w1)(i \<mapsto> d\<lparr>wait_hands := insort_insert ?j (wait_hands d)\<rparr>)\<rparr>)"
      using inv1 d1 by (rule octo_inv_disp_fields) simp_all
    then show ?thesis using run d bind new conn True inv1 close
      by (auto simp: create_single_connection_def w1_def Let_def split: if_splits)
  qed
qed

lemma caller_create_endpoint_inv:
  assumes run: "caller_create_endpoint P proxies fd w = Some w'" and inv: "octo_inv w"
  shows "octo_inv w'"
proof -
  obtain uuid src dst ok where "create_single_connection P (ow_next w) src dst
      (w\<lparr>ow_disps := (ow_disps w)(ow_next w \<mapsto> dispatcher_new fd uuid OCTOPUS_DISPATCHER_CLIENT False),
        ow_next := ow_next w + 1, ow_io := (ow_io w)\<lparr>octo_visitors := octo_visitors (ow_io w) @ [ow_next w]\<rparr>\<rparr>) = Some (ok, w')"
    using run by (auto simp: caller_create_endpoint_def Let_def split: bind_splits prod.splits list.splits)
  then show ?thesis
    by (rule create_single_connection_inv)
      (intro octo_inv_new_disp [OF inv], auto intro: life_same simp: dispatcher_new_def octo_base_new_def octo_base.defs)
qed

lemma callee_create_endpoint_inv:
  assumes run: "callee_create_endpoint P fd w = Some w'" and inv: "octo_inv w"
  shows "octo_inv w'"
proof -
  obtain c io where new: "hand_new P fd OCTOPUS_HAND_SERVER True None (ow_io w) = (c, io)" by fastforce
  have "\<not> ob_destroyed c" "octo_posted io = octo_posted (ow_io w)"
    using new by (auto simp: hand_new_def octo_base_new_def octo_base.defs Let_def)
  then have "octo_inv (w\<lparr>ow_hands := (ow_hands w)(ow_next w \<mapsto> c), ow_next := ow_next w + 1, ow_io := io\<rparr>)"
    by (intro octo_inv_new_hand [OF inv]) (simp_all add: life_def)
  then show ?thesis using run new by (auto simp: callee_create_endpoint_def Let_def)
qed

text \<open>The posted deletions find their objects, and remove just these.\<close>

lemma octo_delete_each:
  "distinct obs \<Longrightarrow> \<forall>j. Hand j \<in> set obs \<longrightarrow> ow_hands w j \<noteq> None \<Longrightarrow> \<forall>i. Dispatcher i \<in> set obs \<longrightarrow> ow_disps w i \<noteq> None \<Longrightarrow>
    each octo_delete_object obs w = Some (w\<lparr>ow_hands := (\<lambda>j. if Hand j \<in> set obs then None else ow_hands w j),
      ow_disps := (\<lambda>i. if Dispatcher i \<in> set obs then None else ow_disps w i)\<rparr>)"
proof (induction obs arbitrary: w)
  case Nil
  then show ?case by simp
next
  case (Cons ob obs)
  define w1 where "w1 = (case ob of Hand j \<Rightarrow> w\<lparr>ow_hands := (ow_hands w)(j := None)\<rparr>
    | Dispatcher i \<Rightarrow> w\<lparr>ow_disps := (ow_disps w)(i := None)\<rparr>)"
  have del: "octo_delete_object ob w = Some w1"
    using Cons.prems by (cases ob) (auto simp: octo_delete_object_def w1_def)
  have "each octo_delete_object obs w1 = Some (w1\<lparr>ow_hands := (\<lambda>j. if Hand j \<in> set obs then None else ow_hands w1 j),
      ow_disps := (\<lambda>i. if Dispatcher i \<in> set obs then None else ow_disps w1 i)\<rparr>)"
    using Cons.prems by (intro Cons.IH) (cases ob; auto simp: w1_def)+
  then show ?case using del by (cases ob) (auto simp: w1_def fun_eq_iff intro!: octo_world.equality)
qed

lemma octo_execute_tasks_eq:
  assumes inv: "octo_inv w"
  shows "octo_execute_tasks w = Some (w\<lparr>ow_hands := (\<lambda>j. if Hand j \<in> set (octo_posted (ow_io w)) then None else ow_hands w j),
      ow_disps := (\<lambda>i. if Dispatcher i \<in> set (octo_posted (ow_io w)) then None else ow_disps w i),
      ow_io := (ow_io w)\<lparr>octo_posted := []\<rparr>\<rparr>)"
proof -
  have "each octo_delete_object (octo_posted (ow_io w)) (w\<lparr>ow_io := (ow_io w)\<lparr>octo_posted := []\<rparr>\<rparr>) =
      Some (w\<lparr>ow_io := (ow_io w)\<lparr>octo_posted := []\<rparr>,
        ow_hands := (\<lambda>j. if Hand j \<in> set (octo_posted (ow_io w)) then None else ow_hands w j),
        ow_disps := (\<lambda>i. if Dispatcher i \<in> set (octo_posted (ow_io w)) then None else ow_disps w i)\<rparr>)"
    using inv by (subst octo_delete_each) (auto simp: octo_inv_def cong: if_cong)
  then show ?thesis by (simp add: octo_execute_tasks_def)
qed

lemma octo_execute_tasks_inv: "octo_execute_tasks w = Some w' \<Longrightarrow> octo_inv w \<Longrightarrow> octo_inv w'"
  unfolding octo_execute_tasks_eq by (auto simp: octo_inv_def split: if_splits)

section \<open>Reachable processes\<close>

definition octo_start :: "'k \<Rightarrow> 'k octo_world" where
  "octo_start k = \<lparr>ow_hands = Map.empty, ow_disps = Map.empty, ow_next = 0,
     ow_io = \<lparr>octo_kernel = k, octo_log = [], octo_posted = [], octo_table = [], octo_visitors = []\<rparr>\<rparr>"

inductive octo_reachable :: "'k octo_platform \<Rightarrow> 'k octo_world \<Rightarrow> bool" for P where
  octo_reach_start: "octo_reachable P (octo_start k)"
| octo_reach_event: "octo_reachable P w \<Longrightarrow> octo_handle_event P e w = Some w' \<Longrightarrow> octo_reachable P w'"
| octo_reach_kernel: "octo_reachable P w \<Longrightarrow> octo_reachable P (set_kernel k w)"

lemma octo_handle_event_inv:
  assumes run: "octo_handle_event P e w = Some w'" and inv: "octo_inv w" and posix: "octo_posix P"
  shows "octo_inv w'"
proof (cases e)
  case (Out_Bandwidth_Alarm j)
  then show ?thesis using run inv
    by (auto split: bind_splits prod.splits elim!: do_when_inv octo_alarm_hand_inv [OF posix] intro!: octo_inv_hand_fields)
next
  case (Socket_Alarm i)
  then show ?thesis using run inv posix
    by (auto split: bind_splits prod.splits elim!: do_when_inv handle_socket_alarm_inv intro!: octo_inv_disp_fields)
next
  case (Hand_Shutdown j)
  with run have "on_hand j (\<lambda>c io. Some (hand_shutdown P j c io)) w = Some w'" by simp
  then show ?thesis using inv by (rule on_hand_inv) (auto dest: hand_shutdown_life)
next
  case (Dispatcher_Shutdown i)
  with run have "on_disp i (\<lambda>d io. Some (disp_shutdown P i d io)) w = Some w'" by simp
  then show ?thesis using inv by (rule on_disp_inv) (auto dest: disp_shutdown_life)
qed (use run inv posix in \<open>auto elim: hand_on_event_inv disp_on_event_inv callee_create_endpoint_inv
    caller_create_endpoint_inv octo_execute_tasks_inv\<close>)

lemma octo_reachable_inv: "octo_reachable P w \<Longrightarrow> octo_posix P \<Longrightarrow> octo_inv w"
proof (induction rule: octo_reachable.induct)
  case (octo_reach_start k)
  then show ?case by (simp add: octo_start_def octo_inv_def)
next
  case (octo_reach_event w e w')
  then show ?case by (blast intro: octo_handle_event_inv)
next
  case (octo_reach_kernel w k)
  then show ?case by (blast intro: octo_inv_kernel)
qed

end
