(* ===== verification/Octopus_Session.thy ===== *)
theory Octopus_Session
  imports Octopus_Reach
begin

text \<open>
  Opening a session in \<open>octopus/octopus_base.cc\<close>: the metadata message in any two pieces, and what
  the called half makes of it.
\<close>

section \<open>Messages that are not complete\<close>

definition holds :: "data_reader \<Rightarrow> nat \<Rightarrow> bool" where
  "holds r n \<longleftrightarrow> rd_ok r \<and> rd_order r = NETWORK_BYTE_ORDER \<and> length (unread r) = n"

lemma holds_skip: "holds r n \<Longrightarrow> m \<le> n \<Longrightarrow> holds (skip r m) (n - m)"
  by (auto simp: holds_def skip_ok unread_skip)

lemma holds_read:
  "holds r n \<Longrightarrow> read_uint8 r = (Some b, r') \<Longrightarrow> 1 \<le> n \<and> holds r' (n - 1)"
  "holds r n \<Longrightarrow> read_uint16 r = (Some u, r') \<Longrightarrow> 2 \<le> n \<and> holds r' (n - 2)"
  "holds r n \<Longrightarrow> read_uint32 r = (Some v, r') \<Longrightarrow> 4 \<le> n \<and> holds r' (n - 4)"
proof -
  show "holds r n \<Longrightarrow> read_uint8 r = (Some b, r') \<Longrightarrow> 1 \<le> n \<and> holds r' (n - 1)"
    using holds_skip [of r n 1] by (auto simp: holds_def read_uint8_def read_bytes_eq split: if_splits)
  show "holds r n \<Longrightarrow> read_uint16 r = (Some u, r') \<Longrightarrow> 2 \<le> n \<and> holds r' (n - 2)"
    using holds_skip [of r n 2] by (auto simp: holds_def read_uint16_def read_uint_eq split: if_splits)
  show "holds r n \<Longrightarrow> read_uint32 r = (Some v, r') \<Longrightarrow> 4 \<le> n \<and> holds r' (n - 4)"
    using holds_skip [of r n 4] by (auto simp: holds_def read_uint32_def read_uint_eq split: if_splits)
qed

lemma read_meta_short:
  assumes short: "length bs < 14"
  shows "read_meta (reader_new bs (length bs)) = None"
proof (rule ccontr)
  assume "read_meta (reader_new bs (length bs)) \<noteq> None"
  then obtain t r1 sp r2 a r3 b r4 c r5 d r6 where r: "read_uint8 (reader_new bs (length bs)) = (Some t, r1)"
    "read_uint8 r1 = (Some sp, r2)" "read_uint32 r2 = (Some a, r3)" "read_uint32 r3 = (Some b, r4)"
    "read_uint16 r4 = (Some c, r5)" "read_uint16 r5 = (Some d, r6)"
    by (auto simp: read_meta_def split: prod.splits bind_splits)
  have h: "holds (reader_new bs (length bs)) (length bs)"
    using short by (simp add: holds_def reader_new_def rd_ok_def unread_def)
  note h1 = holds_read(1) [OF h r(1)]
  note h2 = holds_read(1) [OF conjunct2 [OF h1] r(2)]
  note h3 = holds_read(3) [OF conjunct2 [OF h2] r(3)]
  note h4 = holds_read(3) [OF conjunct2 [OF h3] r(4)]
  note h5 = holds_read(2) [OF conjunct2 [OF h4] r(5)]
  note h6 = holds_read(2) [OF conjunct2 [OF h5] r(6)]
  show False using h1 h2 h3 h4 h5 h6 short by linarith
qed

section \<open>The called half\<close>

lemma bind_addr_table: "octo_table (snd (bind_addr P addr tr io)) = octo_table io"
  by (simp add: bind_addr_def give_up_socket_def Let_def split: prod.splits)

lemma OCTOPUS_META_FLAG_nonzero: "OCTOPUS_META_FLAG \<noteq> 0"
  by (simp add: OCTOPUS_META_FLAG_def)

lemma has_meta_flag: "(x OR OCTOPUS_META_FLAG) AND OCTOPUS_META_FLAG \<noteq> 0"
  by (simp add: OCTOPUS_META_FLAG_def bit.conj_disj_distrib2 or_eq_0_iff)

text \<open>An incomplete message is kept.\<close>

lemma callee_data_short:
  assumes c: "ow_hands w j = Some c" "msg_flag c AND OCTOPUS_META_FLAG = 0" and short: "length (ob_rb c @ bs) < 14"
  shows "callee_data P j bs w = Some (w\<lparr>ow_hands := (ow_hands w)(j \<mapsto> c\<lparr>ob_rb := ob_rb c @ bs\<rparr>)\<rparr>)"
  using c read_meta_short [OF short] by (simp add: callee_data_def on_hand_def callee_parse_meta_def)

lemma open_dispatcher_eq:
  assumes table: "(if sp then Some (octo_table (ow_io w)) else map_option snd (table_register uuid (ow_next w) (octo_table (ow_io w)))) =
      Some table"
    and conn: "disp_asyn_connect P (ow_next w) (key_to uuid, key_dst_port uuid) (dispatcher_new sock uuid OCTOPUS_DISPATCHER_SERVER True)
      ((ow_io w)\<lparr>octo_visitors := octo_visitors (ow_io w) @ [ow_next w], octo_table := table\<rparr>) = (True, d, io)"
    and c: "ow_hands w j = Some c" and d: "ob_status d = OCTOPUS_CONN_CONNECTING" "wait_hands d = []"
  shows "open_dispatcher P j sp uuid sock w = Some (True, w\<lparr>ow_hands := (ow_hands w)(j \<mapsto> c\<lparr>hand_dispatcher := Some (ow_next w)\<rparr>),
      ow_disps := (ow_disps w)(ow_next w \<mapsto> d\<lparr>wait_hands := [j]\<rparr>), ow_next := ow_next w + 1, ow_io := io\<rparr>)"
proof -
  define w1 where "w1 = w\<lparr>ow_disps := (ow_disps w)(ow_next w \<mapsto> d), ow_next := ow_next w + 1, ow_io := io\<rparr>"
  have "open_dispatcher P j sp uuid sock w = do {
      w2 \<leftarrow> on_hand j (\<lambda>c io. Some (c\<lparr>hand_dispatcher := Some (ow_next w)\<rparr>, io)) w1;
      w3 \<leftarrow> register_hand P (ow_next w) j w2;
      Some (True, w3) }"
    using table conn by (simp add: open_dispatcher_def Let_def do_when_def w1_def split del: if_split cong: if_cong)
  then show ?thesis using c d
    by (simp add: on_hand_def register_hand_def insort_insert_key_def w1_def)
qed

text \<open>A complete one opens the session.\<close>

lemma callee_data_complete:
  assumes c: "ow_hands w j = Some c" "msg_flag c AND OCTOPUS_META_FLAG = 0" "hand_manager c"
    and meta: "ob_rb c @ bs = meta_message uuid sp"
    and new: "table_find (octo_table (ow_io w)) uuid = Some None"
    and bind: "bind_addr P (key_from uuid, key_src_port uuid) True (ow_io w) = (sock, io1)" "0 < sock"
      "octo_table io1 = octo_table (ow_io w)"
    and conn: "\<And>k. fst (o_connect P k sock (key_to uuid, key_dst_port uuid)) \<noteq> Connect_Again"
  shows "\<exists>c' d io'. callee_data P j bs w =
      Some (w\<lparr>ow_hands := (ow_hands w)(j \<mapsto> c'), ow_disps := (ow_disps w)(ow_next w \<mapsto> d), ow_next := ow_next w + 1, ow_io := io'\<rparr>) \<and>
    ob_fd d = sock \<and> disp_uuid d = uuid \<and> disp_role d = OCTOPUS_DISPATCHER_SERVER \<and>
    ob_status d = OCTOPUS_CONN_CONNECTING \<and> wait_hands d = [j] \<and> ready_hands d = [] \<and>
    hand_dispatcher c' = Some (ow_next w) \<and> callee_ready c' \<and> sp_flag c' = sp \<and> ob_wb c' = ob_wb c \<and> ob_fd c' = ob_fd c \<and>
    octo_table io' = (if sp then octo_table (ow_io w) else (uuid, ow_next w) # octo_table (ow_io w))"
proof -
  let ?i = "ow_next w"
  obtain reader where reader: "read_meta (reader_new (meta_message uuid sp) (length (meta_message uuid sp))) = Some (sp, uuid, reader)"
    "bytes_remaining reader = 0"
    using read_meta_eq [of "[]" uuid sp] by (auto simp: meta_message_eq)
  define c1 where "c1 = c\<lparr>ob_rb := meta_message uuid sp, msg_flag := msg_flag c OR OCTOPUS_META_FLAG, sp_flag := sp\<rparr>"
  define table where "table = (if sp then octo_table (ow_io w) else (uuid, ?i) # octo_table (ow_io w))"
  have table: "(if sp then Some (octo_table (ow_io w)) else map_option snd (table_register uuid ?i (octo_table (ow_io w)))) = Some table"
    using new by (simp add: table_register_def table_def)
  define d0 where "d0 = dispatcher_new sock uuid OCTOPUS_DISPATCHER_SERVER True"
  have d0: "ob_fd d0 = sock" "disp_uuid d0 = uuid" "disp_role d0 = OCTOPUS_DISPATCHER_SERVER" "wait_hands d0 = []" "ready_hands d0 = []"
    "ob_status d0 = OCTOPUS_CONN_CONNECTING"
    by (simp_all add: d0_def dispatcher_new_def octo_base_new_def octo_base.defs)
  define ioc where "ioc = io1\<lparr>octo_visitors := octo_visitors io1 @ [?i], octo_table := table\<rparr>"
  define ior where "ior = octo_event (Register_Fd sock (octo_mask P (EPOLLIN OR EPOLLOUT))) ioc"
  obtain res k where res: "o_connect P (octo_kernel ior) sock (key_to uuid, key_dst_port uuid) = (res, k)" "res \<noteq> Connect_Again"
    using conn [of "octo_kernel ior"] by (cases "o_connect P (octo_kernel ior) sock (key_to uuid, key_dst_port uuid)") auto
  define io2 where "io2 = ior\<lparr>octo_kernel := k\<rparr>"
  have asyn: "disp_asyn_connect P ?i (key_to uuid, key_dst_port uuid) d0 ioc = (True, d0, io2)"
  proof -
    have "d0\<lparr>ob_status := OCTOPUS_CONN_CONNECTING\<rparr> = d0"
      by (simp add: d0_def dispatcher_new_def octo_base_new_def octo_base.defs)
    then show ?thesis using res d0 by (simp add: disp_asyn_connect_def Let_def ior_def [symmetric] io2_def)
  qed
  define d where "d = d0\<lparr>wait_hands := [j]\<rparr>"
  define c2 where "c2 = c1\<lparr>hand_dispatcher := Some ?i, ob_rb := []\<rparr>"
  have "callee_data P j bs w =
      Some (w\<lparr>ow_hands := (ow_hands w)(j \<mapsto> c2), ow_disps := (ow_disps w)(?i \<mapsto> d), ow_next := ?i + 1, ow_io := io2\<rparr>)"
  proof -
    define w1 where "w1 = w\<lparr>ow_hands := (ow_hands w)(j \<mapsto> c1), ow_io := io1\<rparr>"
    define w2 where "w2 = w1\<lparr>ow_hands := (ow_hands w)(j \<mapsto> c1\<lparr>hand_dispatcher := Some ?i\<rparr>), ow_disps := (ow_disps w)(?i \<mapsto> d),
      ow_next := ?i + 1, ow_io := io2\<rparr>"
    have "open_dispatcher P j sp uuid sock w1 = Some (True, w2)"
      using open_dispatcher_eq [of sp w1 uuid table P sock d0 io2 j c1] asyn table bind(3) d0
      by (simp add: w1_def w2_def d0_def [symmetric] ioc_def d_def split del: if_split cong: if_cong)
    moreover have "callee_data P j bs w = do {
        (positive, w3) \<leftarrow> open_dispatcher P j sp uuid sock w1;
        w4 \<leftarrow> (if positive then Some w3 else do {
          w' \<leftarrow> on_hand j (send_meta_ack P OCTOPUS_SIG_DST_FAILED) w3;
          hand_conn_close P j OCTOPUS_SIG_DST_FAILED w'
        });
        on_hand j (\<lambda>c io. Some (c\<lparr>ob_rb := []\<rparr>, io)) w4 }"
      using c meta new bind reader
      by (simp add: callee_data_def callee_parse_meta_def on_hand_def Let_def c1_def w1_def)
    ultimately show ?thesis by (simp add: on_hand_def w2_def w1_def c2_def)
  qed
  moreover have "octo_table io2 = table" by (simp add: io2_def ior_def ioc_def)
  ultimately show ?thesis using d0
    by (intro exI [of _ c2] exI [of _ d] exI [of _ io2])
      (simp add: c2_def c1_def d_def table_def callee_ready_def has_meta_flag OCTOPUS_META_FLAG_nonzero)
qed

end
