(* ===== verification/Sample_Octopus.thy ===== *)
theory Sample_Octopus
  imports Octopus_Session
begin

text \<open>
  A concrete platform and concrete hands and dispatchers on which the properties of the Octopus
  sessions are instantiated.  The state of the platform is whether the stream has ended and the bytes that are
  still to be read; \<open>send\<close> accepts everything.
\<close>

definition pipe_platform :: "(bool \<times> byte list) octo_platform" where
  "pipe_platform = \<lparr>
     o_send = \<lambda>k fd d. (int (length d), k),
     o_read = \<lambda>k fd n. (if snd k = [] \<and> \<not> fst k then Read_Again else Read_Data (take n (snd k)), (fst k, drop n (snd k))),
     o_close = \<lambda>k fd. k,
     o_socket = \<lambda>k. (9, k),
     o_reuse_addr = \<lambda>k fd. (True, k),
     o_transparent = \<lambda>k fd. (True, k),
     o_bind = \<lambda>k fd a. (True, k),
     o_connect = \<lambda>k fd a. (if snd a = 0 then Connect_Again else Connect_Started, k),
     o_peer = \<lambda>k fd. (1, 1000),
     o_name = \<lambda>k fd. (2, 80),
     o_now = \<lambda>k. 1000,
     o_pending = \<lambda>k fd. 0,
     o_tcp_info = \<lambda>k fd. (if fd < 0 then None else Some (0, 1000)),
     o_edge_triggered = False\<rparr>"

lemma pipe_posix: "octo_posix pipe_platform"
  by (simp add: octo_posix_def pipe_platform_def)

lemma pipe_streams: "octo_streams pipe_platform (\<lambda>k fd. snd k)"
  by (simp add: octo_streams_def pipe_platform_def)

lemma pipe_rtt: "rtt_known pipe_platform fd"
  by (simp add: rtt_known_def pipe_platform_def)

lemma pipe_fields [simp]:
  "o_send pipe_platform k fd d = (int (length d), k)" "o_close pipe_platform k fd = k" "o_socket pipe_platform k = (9, k)"
  "o_reuse_addr pipe_platform k fd = (True, k)" "o_transparent pipe_platform k fd = (True, k)"
  "o_bind pipe_platform k fd a = (True, k)" "o_now pipe_platform k = 1000" "o_pending pipe_platform k fd = 0"
  "o_connect pipe_platform k fd a = (if snd a = 0 then Connect_Again else Connect_Started, k)"
  "o_edge_triggered pipe_platform = False"
  by (simp_all add: pipe_platform_def)

definition sample_key :: session_key where
  "sample_key = \<lparr>key_from = 1, key_to = 2, key_src_port = 1000, key_dst_port = 80\<rparr>"

definition sample_alarm :: base_alarm where
  "sample_alarm = \<lparr>alarm_deadline = 500, alarm_registered = Some 500\<rparr>"

definition sample_disp :: dispatcher where
  "sample_disp = (dispatcher_new 4 sample_key OCTOPUS_DISPATCHER_CLIENT False)\<lparr>socket_alarm := Some sample_alarm, ready_hands := [0]\<rparr>"

definition sample_hand :: hand where
  "sample_hand = (fst (hand_new pipe_platform 5 OCTOPUS_HAND_CLIENT False (Some 1)
     \<lparr>octo_kernel = (False, []), octo_log = [], octo_posted = [], octo_table = [], octo_visitors = []\<rparr>))
     \<lparr>ob_status := OCTOPUS_CONN_CONNECTED, msg_flag := OCTOPUS_META_FLAG OR OCTOPUS_META_ACK_FLAG\<rparr>"

definition sample_octo :: "bool \<times> byte list \<Rightarrow> hand \<Rightarrow> dispatcher \<Rightarrow> (bool \<times> byte list) octo_world" where
  "sample_octo k c d = \<lparr>ow_hands = [0 \<mapsto> c], ow_disps = [1 \<mapsto> d], ow_next = 2,
     ow_io = \<lparr>octo_kernel = k, octo_log = [], octo_posted = [], octo_table = [], octo_visitors = []\<rparr>\<rparr>"

lemma sample_octo_fields [simp]:
  "ow_hands (sample_octo k c d) = [0 \<mapsto> c]" "ow_disps (sample_octo k c d) = [1 \<mapsto> d]" "ow_next (sample_octo k c d) = 2"
  "octo_kernel (ow_io (sample_octo k c d)) = k" "octo_posted (ow_io (sample_octo k c d)) = []"
  "octo_table (ow_io (sample_octo k c d)) = []" "octo_sent fd (ow_io (sample_octo k c d)) = []"
  by (simp_all add: sample_octo_def octo_sent_def)

lemma sample_disp_fields [simp]:
  "ob_fd sample_disp = 4" "ob_wb sample_disp = []" "wait_hands sample_disp = []" "ready_hands sample_disp = [0]"
  "socket_alarm sample_disp = Some sample_alarm" "ob_destroyed sample_disp = False" "disp_manager sample_disp = False"
  "disp_role sample_disp = OCTOPUS_DISPATCHER_CLIENT" "disp_wait_close sample_disp = False"
  by (simp_all add: sample_disp_def dispatcher_new_def octo_base_new_def octo_base.defs)

lemma sample_hand_fields [simp]:
  "ob_fd sample_hand = 5" "ob_wb sample_hand = []" "ob_rb sample_hand = []" "hand_dispatcher sample_hand = Some 1"
  "ob_destroyed sample_hand = False" "hand_role sample_hand = OCTOPUS_HAND_CLIENT"
  "msg_flag sample_hand = OCTOPUS_META_FLAG OR OCTOPUS_META_ACK_FLAG" "out_bw_alarm sample_hand = None"
  "ob_status sample_hand = OCTOPUS_CONN_CONNECTED" "hand_wait_close sample_hand = False"
  by (simp_all add: sample_hand_def hand_new_def octo_base_new_def octo_base.defs Let_def)

lemma sample_ready: "caller_ready sample_hand" "callee_ready sample_hand"
  by (simp_all add: caller_ready_def callee_ready_def OCTOPUS_META_FLAG_def OCTOPUS_META_ACK_FLAG_def)

definition sample_callee :: hand where
  "sample_callee = fst (hand_new pipe_platform 6 OCTOPUS_HAND_SERVER True None (ow_io (sample_octo (False, []) sample_hand sample_disp)))"

lemma sample_callee_fields [simp]:
  "ob_fd sample_callee = 6" "ob_wb sample_callee = []" "ob_rb sample_callee = []" "hand_manager sample_callee"
  "ob_destroyed sample_callee = False" "hand_role sample_callee = OCTOPUS_HAND_SERVER" "msg_flag sample_callee = 0"
  "hand_dispatcher sample_callee = None" "out_bw_alarm sample_callee = None"
  by (simp_all add: sample_callee_def hand_new_def octo_base_new_def octo_base.defs Let_def)

lemma sample_alarm_inv: "alarm_inv sample_alarm" "alarm_on_epoll sample_alarm = (True, alarm_new)"
  by (simp_all add: sample_alarm_def alarm_defs alarm_new_def)

end
