(* ===== verification/Octopus_Properties.thy ===== *)
theory Octopus_Properties
  imports Sample_Octopus
begin

text \<open>
  The properties of the Octopus sessions (\<open>octopus/octopus_base.cc\<close>): relaying in both directions,
  opening a session, the life of the objects, the session table, and the orders of events that
  end badly.
\<close>

section \<open>Relaying\<close>

text \<open>
  C4: From the socket of a dispatcher to its first hand.  \<open>HandleSocketAlarm\<close> first sends what waits for the
  socket, then moves bytes from the socket to the hand: what was sent, what waits in the hand's
  write buffer and what the kernel still holds is, in order, what it was before, so nothing is lost, repeated or
  reordered, whatever the kernel accepts.  It moves no more than the budget that the hand's
  bandwidth estimate gives, and it sets its alarm again or, at the end of the stream, closes.
\<close>

theorem relay_to_hand:
  assumes "octo_posix P" "octo_streams P inc"
    and "ow_disps w i = Some d" "ready_hands d = j # js" "0 < ob_fd d" "socket_alarm d = Some al" "alarm_inv al"
    and "ow_hands w j = Some c" "0 \<le> ob_fd c" "ob_fd c \<noteq> ob_fd d" "rtt_known P (ob_fd c)"
  shows "\<exists>closed d' c' io' budget k al'.
    handle_socket_alarm P i w =
      (if closed then disp_conn_close P i OCTOPUS_SIG_CONN_DISCONN
            (w\<lparr>ow_hands := (ow_hands w)(j \<mapsto> c'), ow_disps := (ow_disps w)(i \<mapsto> d'), ow_io := io'\<rparr>)
       else Some (w\<lparr>ow_hands := (ow_hands w)(j \<mapsto> c'), ow_disps := (ow_disps w)(i \<mapsto> d'\<lparr>socket_alarm := Some al'\<rparr>), ow_io := io'\<rparr>)) \<and>
    octo_sent (ob_fd d) io' @ ob_wb d' = octo_sent (ob_fd d) (ow_io w) @ ob_wb d \<and>
    octo_sent (ob_fd c) io' @ ob_wb c' @ inc (octo_kernel io') (ob_fd d) =
      octo_sent (ob_fd c) (ow_io w) @ ob_wb c @ inc (octo_kernel (ow_io w)) (ob_fd d) \<and>
    get_write_budget P k c = Some budget \<and>
    int (length (inc (octo_kernel (ow_io w)) (ob_fd d))) \<le> int (length (inc (octo_kernel io') (ob_fd d))) + max 0 budget"
proof -
  obtain closed d' c' io' budget k where run: "handle_socket_alarm P i w =
      (let w' = w\<lparr>ow_disps := (ow_disps w)(i \<mapsto> d'), ow_hands := (ow_hands w)(j \<mapsto> c'), ow_io := io'\<rparr>
       in if closed then disp_conn_close P i OCTOPUS_SIG_CONN_DISCONN w'
          else on_disp i (rearm_socket_alarm (last_alarm_time d')) w')"
    and facts: "octo_sent (ob_fd d) io' @ ob_wb d' = octo_sent (ob_fd d) (ow_io w) @ ob_wb d"
      "octo_sent (ob_fd c) io' @ ob_wb c' @ inc (octo_kernel io') (ob_fd d) =
        octo_sent (ob_fd c) (ow_io w) @ ob_wb c @ inc (octo_kernel (ow_io w)) (ob_fd d)"
      "get_write_budget P k c = Some budget"
      "int (length (inc (octo_kernel (ow_io w)) (ob_fd d))) \<le> int (length (inc (octo_kernel io') (ob_fd d))) + max 0 budget"
    and d': "d' = d\<lparr>ob_send_bytes := ob_send_bytes d', ob_recv_bytes := ob_recv_bytes d', ob_wb := ob_wb d',
      last_alarm_time := last_alarm_time d'\<rparr>"
    using handle_socket_alarm_relays [OF assms(1-5) assms(8-11)] by blast
  have "socket_alarm d' = Some al" using assms(6) by (subst d') simp
  moreover obtain al' where "alarm_update al (last_alarm_time d' + kSocketRWInterval) 0 = Some al'"
    using alarm_update_inv [OF assms(7)] by blast
  ultimately have "handle_socket_alarm P i w =
      (if closed then disp_conn_close P i OCTOPUS_SIG_CONN_DISCONN
            (w\<lparr>ow_hands := (ow_hands w)(j \<mapsto> c'), ow_disps := (ow_disps w)(i \<mapsto> d'), ow_io := io'\<rparr>)
       else Some (w\<lparr>ow_hands := (ow_hands w)(j \<mapsto> c'), ow_disps := (ow_disps w)(i \<mapsto> d'\<lparr>socket_alarm := Some al'\<rparr>), ow_io := io'\<rparr>))"
    unfolding run by (simp add: Let_def on_disp_def rearm_socket_alarm_def world_update_swap)
  with facts show ?thesis by blast
qed

theorem relay_to_hand_witness:
  "\<exists>closed d' c' io' al'. handle_socket_alarm pipe_platform 1 (sample_octo (False, [1, 2, 3]) sample_hand sample_disp) =
      (if closed then disp_conn_close pipe_platform 1 OCTOPUS_SIG_CONN_DISCONN
          ((sample_octo (False, [1, 2, 3]) sample_hand sample_disp)\<lparr>ow_hands := [0 \<mapsto> c'], ow_disps := [1 \<mapsto> d'], ow_io := io'\<rparr>)
       else Some ((sample_octo (False, [1, 2, 3]) sample_hand sample_disp)\<lparr>ow_hands := [0 \<mapsto> c'],
          ow_disps := [1 \<mapsto> d'\<lparr>socket_alarm := Some al'\<rparr>], ow_io := io'\<rparr>)) \<and>
    octo_sent 5 io' @ ob_wb c' @ snd (octo_kernel io') = [1, 2, 3]"
  using relay_to_hand [OF pipe_posix pipe_streams, of "sample_octo (False, [1, 2, 3]) sample_hand sample_disp" 1
      sample_disp 0 "[]" sample_alarm sample_hand] pipe_rtt
  by (simp only: sample_octo_fields sample_disp_fields sample_hand_fields sample_alarm_inv fun_upd_same snd_conv fun_upd_upd
      append_Nil zero_less_numeral zero_le_numeral numeral_eq_iff num.distinct simp_thms True_implies_equals not_False_eq_True) blast

text \<open>
  C5: From a hand to the socket of its dispatcher, on both sides of the relay.  Once the hand is
  ready for data, its reading loop returns, since every round takes bytes from what
  there is to read; what was sent, what waits in the dispatcher's write buffer and what the kernel
  still holds is, in order, what it was before.  The loop ends when there is nothing more for
  now, or by closing the hand when the last read failed or was the end of the stream.
\<close>

theorem relay_to_dispatcher:
  assumes "octo_posix P" "octo_streams P inc"
    and "ow_hands w j = Some c" "hand_dispatcher c = Some i" "ow_disps w i = Some d" "0 \<le> ob_fd d"
  shows "\<forall>(loop, ready) \<in> {(caller_read_loop, caller_ready), (callee_read_loop, callee_ready)}. ready c \<longrightarrow>
    (\<exists>c' d' io' k. loop P j w =
        (let w' = w\<lparr>ow_disps := (ow_disps w)(i \<mapsto> d'), ow_hands := (ow_hands w)(j \<mapsto> c'), ow_io := io'\<rparr>
         in if fst (o_read P k (ob_fd c) octo_kBufferSize) = Read_Again then Some w'
            else hand_conn_close P j OCTOPUS_SIG_CONN_DISCONN w') \<and>
      octo_sent (ob_fd d) io' @ ob_wb d' @ inc (octo_kernel io') (ob_fd c) =
        octo_sent (ob_fd d) (ow_io w) @ ob_wb d @ inc (octo_kernel (ow_io w)) (ob_fd c) \<and>
      c' = c\<lparr>ob_recv_bytes := ob_recv_bytes c'\<rparr> \<and> d' = d\<lparr>ob_send_bytes := ob_send_bytes d', ob_wb := ob_wb d'\<rparr>)"
  using caller.loop_conserves [OF assms] callee.loop_conserves [OF assms] by simp

theorem relay_to_dispatcher_witness:
  "(\<exists>c' d' io'.
    (let w = sample_octo (False, [1, 2, 3]) sample_hand sample_disp;
         w' = w\<lparr>ow_disps := [1 \<mapsto> d'], ow_hands := [0 \<mapsto> c'], ow_io := io'\<rparr>
     in caller_read_loop pipe_platform 0 w = Some w' \<or> caller_read_loop pipe_platform 0 w = hand_conn_close pipe_platform 0 OCTOPUS_SIG_CONN_DISCONN w') \<and>
    octo_sent 4 io' @ ob_wb d' @ snd (octo_kernel io') = [1, 2, 3]) \<and>
   (\<exists>c' d' io'.
    (let w = sample_octo (False, [1, 2, 3]) sample_hand sample_disp;
         w' = w\<lparr>ow_disps := [1 \<mapsto> d'], ow_hands := [0 \<mapsto> c'], ow_io := io'\<rparr>
     in callee_read_loop pipe_platform 0 w = Some w' \<or> callee_read_loop pipe_platform 0 w = hand_conn_close pipe_platform 0 OCTOPUS_SIG_CONN_DISCONN w') \<and>
    octo_sent 4 io' @ ob_wb d' @ snd (octo_kernel io') = [1, 2, 3])"
proof -
  let ?w = "sample_octo (False, [1, 2, 3]) sample_hand sample_disp"
  have "\<forall>(loop, ready) \<in> {(caller_read_loop, caller_ready), (callee_read_loop, callee_ready)}. ready sample_hand \<longrightarrow>
    (\<exists>c' d' io' k. loop pipe_platform 0 ?w =
        (let w' = ?w\<lparr>ow_disps := (ow_disps ?w)(1 \<mapsto> d'), ow_hands := (ow_hands ?w)(0 \<mapsto> c'), ow_io := io'\<rparr>
         in if fst (o_read pipe_platform k (ob_fd sample_hand) octo_kBufferSize) = Read_Again then Some w'
            else hand_conn_close pipe_platform 0 OCTOPUS_SIG_CONN_DISCONN w') \<and>
      octo_sent (ob_fd sample_disp) io' @ ob_wb d' @ snd (octo_kernel io') =
        octo_sent (ob_fd sample_disp) (ow_io ?w) @ ob_wb sample_disp @ snd (octo_kernel (ow_io ?w)) \<and>
      c' = sample_hand\<lparr>ob_recv_bytes := ob_recv_bytes c'\<rparr> \<and>
      d' = sample_disp\<lparr>ob_send_bytes := ob_send_bytes d', ob_wb := ob_wb d'\<rparr>)"
    by (rule relay_to_dispatcher [OF pipe_posix pipe_streams]) simp_all
  then have "\<forall>loop \<in> {caller_read_loop, callee_read_loop}. \<exists>c' d' io' k. loop pipe_platform 0 ?w =
        (let w' = ?w\<lparr>ow_disps := [1 \<mapsto> d'], ow_hands := [0 \<mapsto> c'], ow_io := io'\<rparr>
         in if fst (o_read pipe_platform k 5 octo_kBufferSize) = Read_Again then Some w'
            else hand_conn_close pipe_platform 0 OCTOPUS_SIG_CONN_DISCONN w') \<and>
      octo_sent 4 io' @ ob_wb d' @ snd (octo_kernel io') = [1, 2, 3]"
    using sample_ready by (simp, blast)
  then have "\<forall>loop \<in> {caller_read_loop, callee_read_loop}. \<exists>c' d' io'.
      (let w' = ?w\<lparr>ow_disps := [1 \<mapsto> d'], ow_hands := [0 \<mapsto> c'], ow_io := io'\<rparr>
       in loop pipe_platform 0 ?w = Some w' \<or> loop pipe_platform 0 ?w = hand_conn_close pipe_platform 0 OCTOPUS_SIG_CONN_DISCONN w') \<and>
      octo_sent 4 io' @ ob_wb d' @ snd (octo_kernel io') = [1, 2, 3]"
    unfolding Let_def by metis
  then show ?thesis by (simp add: Let_def)
qed

section \<open>Opening a session\<close>

text \<open>
  C16: The metadata message.  What \<open>WriteMeta\<close> put into the write buffer of a calling hand, arriving
  at a called hand in any two pieces, opens exactly one session: nothing happens
  before the last byte is there; then there is one new dispatcher, for the same session key, on
  the socket that was bound for it, waiting for its destination with the hand in its waiting
  list; the hand knows it and is ready for data, and the table knows a session of
  several paths but not one of a single path.
\<close>

theorem session_opens:
  assumes "hand_role c0 = OCTOPUS_HAND_CLIENT" "msg_flag c0 AND OCTOPUS_META_FLAG = 0" "ob_wb c0 = []"
    and "ob_wb (write_meta uuid sp c0) = a @ b" "b \<noteq> []"
    and "ow_hands w j = Some c" "msg_flag c AND OCTOPUS_META_FLAG = 0" "ob_rb c = []" "hand_manager c"
    and "table_find (octo_table (ow_io w)) uuid = Some None"
    and "bind_addr P (key_from uuid, key_src_port uuid) True (ow_io w) = (sock, io1)" "0 < sock"
    and "\<And>k. fst (o_connect P k sock (key_to uuid, key_dst_port uuid)) \<noteq> Connect_Again"
  shows "\<exists>w1 c' d io'. callee_data P j a w = Some w1 \<and> ow_disps w1 = ow_disps w \<and> ow_io w1 = ow_io w \<and>
    callee_data P j b w1 = Some (w\<lparr>ow_hands := (ow_hands w)(j \<mapsto> c'), ow_disps := (ow_disps w)(ow_next w \<mapsto> d),
      ow_next := ow_next w + 1, ow_io := io'\<rparr>) \<and>
    ob_fd d = sock \<and> disp_uuid d = uuid \<and> disp_role d = OCTOPUS_DISPATCHER_SERVER \<and>
    ob_status d = OCTOPUS_CONN_CONNECTING \<and> wait_hands d = [j] \<and> ready_hands d = [] \<and>
    hand_dispatcher c' = Some (ow_next w) \<and> callee_ready c' \<and> sp_flag c' = sp \<and> ob_wb c' = ob_wb c \<and> ob_fd c' = ob_fd c \<and>
    octo_table io' = (if sp then octo_table (ow_io w) else (uuid, ow_next w) # octo_table (ow_io w))"
proof -
  have message: "meta_message uuid sp = a @ b" using assms(1-4) by (simp add: write_meta_def)
  then have "length (a @ b) = 14" by (metis meta_message_eq length_meta_bytes)
  then have short: "length (ob_rb c @ a) < 14" using assms(5,8) by (cases b) auto
  define w1 where "w1 = w\<lparr>ow_hands := (ow_hands w)(j \<mapsto> c\<lparr>ob_rb := a\<rparr>)\<rparr>"
  have first: "callee_data P j a w = Some w1"
    using callee_data_short [OF assms(6,7) short] assms(8) by (simp add: w1_def)
  have table: "octo_table io1 = octo_table (ow_io w)"
    using bind_addr_table [of P "(key_from uuid, key_src_port uuid)" True "ow_io w"] assms(11) by simp
  have w1: "ow_hands w1 j = Some (c\<lparr>ob_rb := a\<rparr>)" "ow_io w1 = ow_io w" "ow_next w1 = ow_next w" "ow_disps w1 = ow_disps w"
    by (simp_all add: w1_def)
  have eq: "w1\<lparr>ow_hands := (ow_hands w1)(j \<mapsto> c'), ow_disps := D, ow_next := n, ow_io := io'\<rparr> =
      w\<lparr>ow_hands := (ow_hands w)(j \<mapsto> c'), ow_disps := D, ow_next := n, ow_io := io'\<rparr>" for c' D n io'
    by (simp add: w1_def)
  obtain c' d io' where "callee_data P j b w1 = Some (w\<lparr>ow_hands := (ow_hands w)(j \<mapsto> c'),
      ow_disps := (ow_disps w)(ow_next w \<mapsto> d), ow_next := ow_next w + 1, ow_io := io'\<rparr>)"
    "ob_fd d = sock" "disp_uuid d = uuid" "disp_role d = OCTOPUS_DISPATCHER_SERVER"
    "ob_status d = OCTOPUS_CONN_CONNECTING" "wait_hands d = [j]" "ready_hands d = []"
    "hand_dispatcher c' = Some (ow_next w)" "callee_ready c'" "sp_flag c' = sp" "ob_wb c' = ob_wb c" "ob_fd c' = ob_fd c"
    "octo_table io' = (if sp then octo_table (ow_io w) else (uuid, ow_next w) # octo_table (ow_io w))"
    using callee_data_complete [OF w1(1), of b uuid sp P sock io1] assms(7,9-13) message table
    unfolding w1(2-4) eq by auto
  then show ?thesis using first w1(2,4) by blast
qed

theorem session_opens_witness:
  "\<exists>w1 w2. callee_data pipe_platform 0 (take 5 (meta_message sample_key True)) (sample_octo (False, []) sample_callee sample_disp) = Some w1 \<and>
    callee_data pipe_platform 0 (drop 5 (meta_message sample_key True)) w1 = Some w2 \<and>
    (\<exists>d. ow_disps w2 2 = Some d \<and> disp_uuid d = sample_key \<and> ob_fd d = 9)"
proof -
  let ?w = "sample_octo (False, []) sample_callee sample_disp"
  let ?c0 = "sample_hand\<lparr>msg_flag := 0\<rparr>"
  have bind: "bind_addr pipe_platform (key_from sample_key, key_src_port sample_key) True (ow_io ?w) = (9, ow_io ?w)"
    by (simp add: bind_addr_def sample_octo_def)
  have "ob_wb (write_meta sample_key True ?c0) = take 5 (meta_message sample_key True) @ drop 5 (meta_message sample_key True)"
    by (simp add: write_meta_def)
  moreover have "drop 5 (meta_message sample_key True) \<noteq> []" by (simp add: meta_message_eq)
  ultimately show ?thesis
    using session_opens [of ?c0 sample_key True "take 5 (meta_message sample_key True)" "drop 5 (meta_message sample_key True)"
        ?w 0 sample_callee pipe_platform 9 "ow_io ?w"] bind
    by (auto simp: table_find_def keys_ordered_def key_less_irrefl sample_key_def)
qed

section \<open>The session table\<close>

text \<open>
  C29: The table is a map as long as any two of the keys in it, with the one it is asked for, can
  be compared component by component: then finding, registering and unregistering are those of a map and
  keep the table usable.  Otherwise the order on keys says of two of them that each is less
  than the other, and the operations of \<open>std::map\<close> have no defined result.
\<close>

theorem session_table_map:
  assumes "table_ok t"
  shows "if \<forall>p \<in> insert k (fst ` set t). \<forall>q \<in> insert k (fst ` set t). key_le p q \<or> key_le q p
    then table_find t k = Some (map_of t k) \<and>
      (\<exists>t'. table_register k d t = Some (map_of t k = None, t') \<and> table_ok t' \<and>
        map_of t' = (if map_of t k = None then (map_of t)(k \<mapsto> d) else map_of t)) \<and>
      (\<exists>t'. table_unregister k t = Some (map_of t k \<noteq> None, t') \<and> table_ok t' \<and> map_of t' = (map_of t)(k := None))
    else table_find t k = None \<and> table_register k d t = None \<and> table_unregister k t = None \<and>
      (\<exists>p \<in> insert k (fst ` set t). \<exists>q \<in> insert k (fst ` set t). key_less p q \<and> key_less q p)"
proof (cases "keys_ordered (k # map fst t)")
  case True
  then have "\<forall>p \<in> insert k (fst ` set t). \<forall>q \<in> insert k (fst ` set t). key_le p q \<or> key_le q p"
    by (simp add: keys_ordered_iff)
  moreover have "table_find t k = Some (map_of t k)" using True by (rule table_find_eq)
  moreover have "\<exists>t'. table_register k d t = Some (map_of t k = None, t') \<and> table_ok t' \<and>
        map_of t' = (if map_of t k = None then (map_of t)(k \<mapsto> d) else map_of t)"
    using table_register_ok [OF assms True, of d] by (metis (full_types))
  moreover have "\<exists>t'. table_unregister k t = Some (map_of t k \<noteq> None, t') \<and> table_ok t' \<and> map_of t' = (map_of t)(k := None)"
    using table_unregister_ok [OF assms True] by (metis (full_types))
  ultimately show ?thesis by simp
next
  case False
  then have "\<not> (\<forall>p \<in> insert k (fst ` set t). \<forall>q \<in> insert k (fst ` set t). key_le p q \<or> key_le q p)"
    by (simp add: keys_ordered_iff)
  moreover have "\<exists>p \<in> insert k (fst ` set t). \<exists>q \<in> insert k (fst ` set t). key_less p q \<and> key_less q p"
    using False by (auto simp: keys_ordered_def)
  ultimately show ?thesis using False
    by (simp only: if_False) (simp add: table_find_def table_register_def table_unregister_def)
qed

theorem session_table_map_witness:
  "table_find [(\<lparr>key_from = 1, key_to = 9, key_src_port = 4000, key_dst_port = 80\<rparr>, 7)]
      \<lparr>key_from = 2, key_to = 9, key_src_port = 3000, key_dst_port = 80\<rparr> = None"
  using session_table_map [of "[(\<lparr>key_from = 1, key_to = 9, key_src_port = 4000, key_dst_port = 80\<rparr>, 7)]"
      "\<lparr>key_from = 2, key_to = 9, key_src_port = 3000, key_dst_port = 80\<rparr>" 0]
  by (auto simp: table_ok_def keys_ordered_def key_less_def key_le_def word_le_nat_alt split: if_splits)

section \<open>The objects of a process\<close>

text \<open>
  C6: Life and death.  Whatever events happen in whatever order, from a process without objects: the
  deletion of a hand or a dispatcher is posted at most once, exactly for those that are marked as
  destroyed, after their descriptor was closed, and never for one that is gone.  So the posted
  tasks run without fault, and they remove exactly those objects.
\<close>

theorem octo_world_safety:
  assumes "octo_reachable P w" "octo_posix P"
  shows "distinct (octo_posted (ow_io w)) \<and>
    (\<forall>j. Hand j \<in> set (octo_posted (ow_io w)) \<longleftrightarrow> (\<exists>c. ow_hands w j = Some c \<and> ob_destroyed c)) \<and>
    (\<forall>i. Dispatcher i \<in> set (octo_posted (ow_io w)) \<longleftrightarrow> (\<exists>d. ow_disps w i = Some d \<and> ob_destroyed d)) \<and>
    (\<forall>j c. ow_hands w j = Some c \<longrightarrow> ob_destroyed c \<longrightarrow> ob_fd c = - 1) \<and>
    (\<forall>i d. ow_disps w i = Some d \<longrightarrow> ob_destroyed d \<longrightarrow> ob_fd d = - 1) \<and>
    (\<exists>w'. octo_handle_event P Run_Octo_Tasks w = Some w' \<and> octo_posted (ow_io w') = [] \<and>
      ow_hands w' = (\<lambda>j. if Hand j \<in> set (octo_posted (ow_io w)) then None else ow_hands w j) \<and>
      ow_disps w' = (\<lambda>i. if Dispatcher i \<in> set (octo_posted (ow_io w)) then None else ow_disps w i))"
proof -
  have inv: "octo_inv w" using assms by (rule octo_reachable_inv)
  have "\<exists>w'. octo_handle_event P Run_Octo_Tasks w = Some w' \<and> octo_posted (ow_io w') = [] \<and>
      ow_hands w' = (\<lambda>j. if Hand j \<in> set (octo_posted (ow_io w)) then None else ow_hands w j) \<and>
      ow_disps w' = (\<lambda>i. if Dispatcher i \<in> set (octo_posted (ow_io w)) then None else ow_disps w i)"
    unfolding octo_handle_event.simps octo_execute_tasks_eq [OF inv] by simp
  with inv show ?thesis unfolding octo_inv_def by blast
qed

theorem octo_world_safety_witness:
  "\<exists>w w'. octo_reachable pipe_platform w \<and> ow_hands w 0 \<noteq> None \<and> octo_posted (ow_io w) = [Hand 0] \<and>
    octo_handle_event pipe_platform Run_Octo_Tasks w = Some w' \<and> ow_hands w' 0 = None"
proof -
  let ?w0 = "octo_start (False, []) :: (bool \<times> byte list) octo_world"
  obtain w1 c where w1: "octo_handle_event pipe_platform (Accept_Callee 5) ?w0 = Some w1" "ow_hands w1 0 = Some c"
      "\<not> ob_destroyed c" "octo_posted (ow_io w1) = []"
    by (auto simp: callee_create_endpoint_def octo_start_def hand_new_def octo_base_new_def octo_base.defs Let_def)
  obtain w2 where w2: "octo_handle_event pipe_platform (Hand_Shutdown 0) w1 = Some w2" "ow_hands w2 0 \<noteq> None"
      "octo_posted (ow_io w2) = [Hand 0]"
    using w1 by (auto simp: on_hand_def hand_shutdown_def octo_close_fd_eq octo_delete_self_def)
  have reached: "octo_reachable pipe_platform w2"
    by (intro octo_reach_event [OF octo_reach_event [OF octo_reach_start w1(1)] w2(1)])
  obtain w3 where "octo_handle_event pipe_platform Run_Octo_Tasks w2 = Some w3"
      "ow_hands w3 = (\<lambda>j. if Hand j \<in> set (octo_posted (ow_io w2)) then None else ow_hands w2 j)"
    using octo_world_safety [OF reached pipe_posix] by blast
  then show ?thesis using reached w2(2,3) by (intro exI [of _ w2] exI [of _ w3]) simp
qed

end
