(* ===== verification/Octopus_Faults.thy ===== *)
theory Octopus_Faults
  imports Sample_Octopus
begin

text \<open>
  Orders of events that \<open>octopus/octopus_base.cc\<close> does not survive, or never gets out of.
\<close>

section \<open>Closing with bytes to write\<close>

lemma on_disp_hands: "on_disp i f w = Some w' \<Longrightarrow> ow_hands w' = ow_hands w"
  by (auto simp: on_disp_def split: bind_splits)

text \<open>A signal of a hand to its dispatcher reaches no hand.\<close>

lemma disp_signal_from_hands:
  assumes run: "disp_signal_from P i j code w = Some w'"
  shows "ow_hands w' = ow_hands w"
proof -
  define first where "first d0 = (if disp_role d0 = OCTOPUS_DISPATCHER_CLIENT \<and> code = OCTOPUS_SIG_DST_CONNECTED
            then on_disp i (hand_ready P j) w else Some w)" for d0 :: dispatcher
  obtain d0 w1 where w1: "ow_disps w i = Some d0" "first d0 = Some w1"
    using run by (auto simp: disp_signal_from_def first_def split: bind_splits)
  have "ow_hands w1 = ow_hands w" using w1(2) on_disp_hands by (auto simp: first_def split: if_splits)
  then show ?thesis using run w1(1) unfolding disp_signal_from_def
    by (auto simp: w1(2) first_def [symmetric] Let_def disp_conn_close_def split: bind_splits if_splits dest!: on_disp_hands)
qed

text \<open>What closing a hand leaves of it.\<close>

lemma hand_conn_close_hand:
  assumes run: "hand_conn_close P j code w = Some w'" and c: "ow_hands w j = Some c"
  shows "\<exists>c'. ow_hands w' j = Some c' \<and> ob_fd c' = - 1 \<and> ob_wb c' = ob_wb c \<and> out_bw_alarm c' = out_bw_alarm c"
proof -
  obtain w1 where w1: "(case hand_dispatcher c of None \<Rightarrow> Some w
       | Some i \<Rightarrow> do {
           w' \<leftarrow> disp_signal_from P i j code w;
           on_hand j (\<lambda>c io. Some (c\<lparr>hand_dispatcher := None\<rparr>, io)) w'
         }) = Some w1" "on_hand j (\<lambda>c io. Some (hand_finish P j c io)) w1 = Some w'"
    using run c by (auto simp: hand_conn_close_def split: bind_splits)
  obtain c1 where c1: "ow_hands w1 j = Some c1" "ob_wb c1 = ob_wb c" "out_bw_alarm c1 = out_bw_alarm c"
    using w1(1) c by (auto simp: on_hand_def split: option.splits bind_splits dest!: disp_signal_from_hands)
  then show ?thesis using w1(2)
    by (auto simp: on_hand_def hand_finish_def octo_close_fd_eq octo_delete_self_def Let_def split: bind_splits if_splits)
qed

lemma closed_flush: "ob_fd c < 0 \<Longrightarrow> ob_wb c \<noteq> [] \<Longrightarrow> octo_flush_buffer P c io = None"
  by (simp add: octo_flush_buffer_def)

lemma hand_measure_wb: "hand_measure P k c = Some c' \<Longrightarrow> ob_wb c' = ob_wb c"
  by (auto simp: hand_measure_def Let_def split: if_splits bind_splits prod.splits option.splits)

text \<open>
  C34: A hand is closed by an error event while bytes wait in its write buffer and its bandwidth alarm is set.
  The alarm is cancelled only by the destructor, which a posted task runs; when the alarm is due first, it
  calls \<open>FlushBuffer\<close> on the closed hand, whose check that nothing waits ends the process.
\<close>

theorem closed_hand_alarm_aborts:
  assumes "ow_hands w j = Some c" "ob_wb c \<noteq> []" "out_bw_alarm c = Some al" "alarm_is_set al"
    and "has_event events (EPOLLERR OR EPOLLHUP)" "hand_on_event P j events w = Some w1"
  shows "octo_handle_event P (Out_Bandwidth_Alarm j) w1 = None"
proof -
  have "\<exists>c1. ow_hands w1 j = Some c1 \<and> ob_fd c1 = - 1 \<and> ob_wb c1 = ob_wb c \<and> out_bw_alarm c1 = Some al"
  proof (cases "hand_role c")
    case OCTOPUS_HAND_CLIENT
    then obtain code where "hand_conn_close P j code w = Some w1"
      using assms(1,5,6) by (auto simp: hand_on_event_def on_caller_event_def split: bind_splits)
    from hand_conn_close_hand [OF this assms(1)] show ?thesis using assms(3) by simp
  next
    case OCTOPUS_HAND_SERVER
    then obtain w2 where w2: "hand_conn_close P j OCTOPUS_SIG_CONN_DISCONN w = Some w2"
      "Option.bind (ow_hands w2 j) (\<lambda>c. do_when (0 < ob_fd c \<and> has_event events EPOLLIN) (callee_read_loop P j) w2) = Some w1"
      using assms(1,5,6) by (auto simp: hand_on_event_def on_callee_event_def do_when_def split: bind_splits)
    with hand_conn_close_hand [OF w2(1) assms(1)] show ?thesis using assms(3) by (auto simp: do_when_def)
  qed
  then obtain c1 where c1: "ow_hands w1 j = Some c1" "ob_fd c1 = - 1" "ob_wb c1 \<noteq> []" "out_bw_alarm c1 = Some al"
    using assms(2) by auto
  obtain al' where fire: "alarm_on_epoll al = (True, al')"
    using assms(4) by (auto simp: alarm_on_epoll_def alarm_fire_def alarm_is_set_def)
  have "hand_measure_and_flush P (c1\<lparr>out_bw_alarm := Some al'\<rparr>) io = None" for io
  proof (cases "hand_measure P (octo_kernel io) (c1\<lparr>out_bw_alarm := Some al'\<rparr>)")
    case (Some c2)
    then have "ob_fd c2 = - 1" "ob_wb c2 \<noteq> []" using hand_measure_wb [OF Some] hand_measure_life [OF Some] c1 by auto
    then show ?thesis using Some by (simp add: hand_measure_and_flush_def closed_flush)
  qed (simp add: hand_measure_and_flush_def)
  then show ?thesis using c1 fire by (simp add: do_when_def octo_alarm_hand_def on_hand_def)
qed

theorem closed_hand_alarm_aborts_witness:
  "\<exists>w1. hand_on_event pipe_platform 0 EPOLLHUP
      (sample_octo (False, []) (sample_hand\<lparr>ob_wb := [7], out_bw_alarm := Some sample_alarm, hand_dispatcher := None\<rparr>) sample_disp) = Some w1 \<and>
    octo_handle_event pipe_platform (Out_Bandwidth_Alarm 0) w1 = None"
proof -
  let ?c = "sample_hand\<lparr>ob_wb := [7], out_bw_alarm := Some sample_alarm, hand_dispatcher := None\<rparr>"
  let ?w = "sample_octo (False, []) ?c sample_disp"
  have hup: "has_event EPOLLHUP (EPOLLERR OR EPOLLHUP)" by (simp add: has_event_def EPOLLHUP_def EPOLLERR_def)
  obtain c' io' where "hand_finish pipe_platform 0 ?c (ow_io ?w) = (c', io')" by fastforce
  then obtain w1 where w1: "hand_on_event pipe_platform 0 EPOLLHUP ?w = Some w1"
    using hup by (auto simp: hand_on_event_def on_caller_event_def hand_conn_close_def on_hand_def)
  then show ?thesis
    using closed_hand_alarm_aborts [of ?w 0 ?c sample_alarm EPOLLHUP pipe_platform w1] hup
    by (auto simp: alarm_is_set_def sample_alarm_def time_is_initialized_def)
qed

section \<open>A hand without its dispatcher\<close>

text \<open>The signal \<open>DISCONN\<close> to a hand that still has bytes to write.\<close>

definition left_alone :: "hand \<Rightarrow> hand \<Rightarrow> bool" where
  "left_alone c c' \<longleftrightarrow> c' = c\<lparr>hand_dispatcher := None, hand_wait_close := True\<rparr>"

lemma disconn_signal:
  assumes run: "on_hand j' (hand_signal_from P j' OCTOPUS_SIG_CONN_DISCONN) w = Some w'" and wb: "ob_wb c \<noteq> []"
    and c: "ow_hands w j = Some c1" "c1 = c \<or> left_alone c c1"
  shows "\<exists>c2. ow_hands w' j = Some c2 \<and> (if j' = j then left_alone c c2 else c2 = c1)"
  using run c wb by (cases "j' = j") (auto simp: on_hand_def hand_signal_from_def left_alone_def Let_def split: bind_splits if_splits prod.splits)

lemma disconn_signals:
  assumes wb: "ob_wb c \<noteq> []"
  shows "each (\<lambda>j. on_hand j (hand_signal_from P j OCTOPUS_SIG_CONN_DISCONN)) js w = Some w' \<Longrightarrow>
    ow_hands w j = Some c1 \<Longrightarrow> c1 = c \<or> left_alone c c1 \<Longrightarrow>
    \<exists>c2. ow_hands w' j = Some c2 \<and> (if j \<in> set js then left_alone c c2 else c2 = c1)"
proof (induction js arbitrary: w c1)
  case (Cons j' js)
  obtain w1 where w1: "on_hand j' (hand_signal_from P j' OCTOPUS_SIG_CONN_DISCONN) w = Some w1"
    "each (\<lambda>j. on_hand j (hand_signal_from P j OCTOPUS_SIG_CONN_DISCONN)) js w1 = Some w'"
    using Cons.prems(1) by (auto split: bind_splits)
  obtain c2 where c2: "ow_hands w1 j = Some c2" "if j' = j then left_alone c c2 else c2 = c1"
    using disconn_signal [OF w1(1) wb Cons.prems(2,3)] by blast
  then have "c2 = c \<or> left_alone c c2" using Cons.prems(3) by (auto split: if_splits)
  from Cons.IH [OF w1(2) c2(1) this] c2(2) Cons.prems(3) show ?case
    by (auto simp: left_alone_def split: if_splits)
qed simp

lemma in_events: "has_event EPOLLIN EPOLLIN" "\<not> has_event EPOLLIN (EPOLLERR OR EPOLLHUP)"
  by (simp_all add: has_event_def EPOLLIN_def EPOLLERR_def EPOLLHUP_def)

text \<open>
  When a dispatcher closes, a hand that still has bytes to write stays open without a dispatcher until its
  bandwidth alarm finds them written.  If the peer sends data before that, the reading loop of either
  kind of hand fails its check that there is a dispatcher, which ends the process.
\<close>

theorem half_closed_hand_aborts:
  assumes "ow_disps w i = Some d" "j \<in> set (wait_hands d @ ready_hands d)" "ow_hands w j = Some c"
    and "ob_wb c \<noteq> []" "0 < ob_fd c" "sp_flag c" "caller_ready c" "callee_ready c"
    and "disp_conn_close P i OCTOPUS_SIG_CONN_DISCONN w = Some w1"
  shows "\<exists>c1. ow_hands w1 j = Some c1 \<and> ob_fd c1 = ob_fd c \<and> ob_wb c1 = ob_wb c \<and> hand_dispatcher c1 = None \<and>
    (\<forall>k b bs. fst (o_read P k (ob_fd c) octo_kBufferSize) = Read_Data (b # bs) \<longrightarrow>
      hand_on_event P j EPOLLIN (set_kernel k w1) = None)"
proof -
  obtain w0 where w0: "each (\<lambda>j. on_hand j (hand_signal_from P j OCTOPUS_SIG_CONN_DISCONN)) (wait_hands d @ ready_hands d) w = Some w0"
    "on_disp i (disp_finish P i) w0 = Some w1"
    using assms(1,9) by (auto simp: disp_conn_close_def split: bind_splits)
  obtain c1 where c1: "ow_hands w1 j = Some c1" "left_alone c c1"
    using disconn_signals [OF assms(4) w0(1) assms(3)] assms(2) on_disp_hands [OF w0(2)] by auto
  have f: "ob_fd c1 = ob_fd c" "ob_wb c1 = ob_wb c" "hand_dispatcher c1 = None" "sp_flag c1" "caller_ready c1" "callee_ready c1"
    using c1(2) assms(6-8) by (simp_all add: left_alone_def caller_ready_def callee_ready_def)
  have "hand_on_event P j EPOLLIN (set_kernel k w1) = None"
    if data: "fst (o_read P k (ob_fd c) octo_kBufferSize) = Read_Data (b # bs)" for k b bs
  proof -
    obtain k' where read: "o_read P k (ob_fd c) octo_kBufferSize = (Read_Data (b # bs), k')"
      using data by (cases "o_read P k (ob_fd c) octo_kBufferSize") auto
    have w: "ow_hands (set_kernel k w1) j = Some c1" "octo_kernel (ow_io (set_kernel k w1)) = k"
      using c1(1) by (simp_all add: set_kernel_def)
    have "caller_read_loop P j (set_kernel k w1) = None" "callee_read_loop P j (set_kernel k w1) = None"
      using read w f
      by (subst caller_read_loop.simps callee_read_loop.simps;
          simp add: on_hand_bind caller_data_def callee_data_def caller_ready_def callee_ready_def)+
    then show ?thesis using w f assms(5) in_events
      by (cases "hand_role c1") (simp_all add: hand_on_event_def on_caller_event_def on_callee_event_def do_when_def)
  qed
  then show ?thesis using c1(1) f by blast
qed

theorem half_closed_hand_aborts_witness:
  "\<exists>w1. disp_conn_close pipe_platform 1 OCTOPUS_SIG_CONN_DISCONN
      (sample_octo (False, []) (sample_hand\<lparr>ob_wb := [7]\<rparr>) sample_disp) = Some w1 \<and>
    hand_on_event pipe_platform 0 EPOLLIN (set_kernel (False, [1]) w1) = None"
proof -
  let ?c = "sample_hand\<lparr>ob_wb := [7]\<rparr>"
  let ?w = "sample_octo (False, []) ?c sample_disp"
  have sp: "sp_flag ?c" by (simp add: sample_hand_def hand_new_def octo_base_new_def octo_base.defs Let_def)
  obtain w1 where w1: "disp_conn_close pipe_platform 1 OCTOPUS_SIG_CONN_DISCONN ?w = Some w1"
    by (auto simp: disp_conn_close_def on_hand_def on_disp_def hand_signal_from_def disp_finish_def octo_close_fd_eq
        octo_delete_self_def Let_def)
  have "fst (o_read pipe_platform (False, [1]) 5 octo_kBufferSize) = Read_Data (1 # [])"
    by (simp add: pipe_platform_def octo_kBufferSize_def)
  then show ?thesis
    using half_closed_hand_aborts [of ?w 1 sample_disp 0 ?c pipe_platform w1] w1 sp sample_ready
    by (auto simp: caller_ready_def callee_ready_def)
qed

section \<open>Bytes behind the metadata\<close>

text \<open>What a hand that waits for its metadata does with a read that begins with the whole message.\<close>

definition parsed :: "hand \<Rightarrow> byte list \<Rightarrow> bool \<Rightarrow> hand" where
  "parsed c bs sp = c\<lparr>ob_rb := bs, msg_flag := msg_flag c OR OCTOPUS_META_FLAG, sp_flag := sp\<rparr>"

definition message_step :: "'k octo_platform \<Rightarrow> nat \<Rightarrow> session_key \<Rightarrow> bool \<Rightarrow> data_reader \<Rightarrow> 'k octo_world \<Rightarrow> 'k octo_world option" where
  "message_step P j uuid sp reader w1 = do {
     found \<leftarrow> table_find (octo_table (ow_io w1)) uuid;
     (case found of
        Some i \<Rightarrow> do {
          w2 \<leftarrow> on_hand j (\<lambda>c io. Some (c\<lparr>hand_dispatcher := Some i\<rparr>, io)) w1;
          register_hand P i j w2
        }
      | None \<Rightarrow> do {
          let (sock, io2) = bind_addr P (key_from uuid, key_src_port uuid) True (ow_io w1);
          let w2 = w1\<lparr>ow_io := io2\<rparr>;
          (positive, w3) \<leftarrow> (if 0 < sock then open_dispatcher P j sp uuid sock w2 else Some (False, w2));
          w4 \<leftarrow> (if positive then Some w3 else do {
            w' \<leftarrow> on_hand j (send_meta_ack P OCTOPUS_SIG_DST_FAILED) w3;
            hand_conn_close P j OCTOPUS_SIG_DST_FAILED w'
          });
          fatal_unless (bytes_remaining reader = 0);
          on_hand j (\<lambda>c io. Some (c\<lparr>ob_rb := []\<rparr>, io)) w4
        })
   }"

lemma callee_data_message:
  assumes c: "ow_hands w j = Some c" "msg_flag c AND OCTOPUS_META_FLAG = 0" "ob_rb c = []" "hand_manager c"
    and len: "length extra < 2 ^ 63"
  shows "\<exists>reader. bytes_remaining reader = length extra \<and> callee_data P j (meta_message uuid sp @ extra) w =
    message_step P j uuid sp reader (w\<lparr>ow_hands := (ow_hands w)(j \<mapsto> parsed c (meta_message uuid sp @ extra) sp)\<rparr>)"
proof -
  obtain reader where reader: "bytes_remaining reader = length extra"
    "read_meta (reader_new (meta_message uuid sp @ extra) (length (meta_message uuid sp @ extra))) = Some (sp, uuid, reader)"
    using read_meta_eq [OF len, of uuid sp] by (auto simp: meta_message_eq)
  define w0 where "w0 = w\<lparr>ow_hands := (ow_hands w)(j \<mapsto> c\<lparr>ob_rb := meta_message uuid sp @ extra\<rparr>)\<rparr>"
  define w1 where "w1 = w\<lparr>ow_hands := (ow_hands w)(j \<mapsto> parsed c (meta_message uuid sp @ extra) sp)\<rparr>"
  have w0: "ow_hands w0 j = Some (c\<lparr>ob_rb := meta_message uuid sp @ extra\<rparr>)" by (simp add: w0_def)
  have w1: "on_hand j (\<lambda>c io. Some (c\<lparr>msg_flag := msg_flag c OR OCTOPUS_META_FLAG, sp_flag := sp\<rparr>, io)) w0 = Some w1"
    by (simp add: on_hand_def w0_def w1_def parsed_def)
  have "callee_data P j (meta_message uuid sp @ extra) w = callee_parse_meta P j w0"
    using c by (simp add: callee_data_def on_hand_def w0_def)
  also have "\<dots> = message_step P j uuid sp reader w1"
    using c w0 w1 reader by (cases "table_find (octo_table (ow_io w1)) uuid"; cases "the (table_find (octo_table (ow_io w1)) uuid)")
      (simp_all add: callee_parse_meta_def message_step_def)
  finally show ?thesis using reader(1) unfolding w1_def by blast
qed

lemma register_hand_hand:
  assumes run: "register_hand P i j w = Some w'" and c: "ow_hands w j = Some c" "0 < ob_fd c \<longrightarrow> octo_posix P"
  shows "\<exists>c'. ow_hands w' j = Some c' \<and> ob_rb c' = ob_rb c \<and> (msg_flag c AND OCTOPUS_META_FLAG \<noteq> 0 \<longrightarrow> msg_flag c' AND OCTOPUS_META_FLAG \<noteq> 0)"
  using run c by (auto simp: register_hand_def on_hand_def hand_signal_from_def send_meta_ack_def Let_def
      OCTOPUS_META_FLAG_def OCTOPUS_META_ACK_FLAG_def bit.conj_disj_distrib2 or_eq_0_iff
      split: bind_splits if_splits prod.splits)

text \<open>
  The first data of a called hand is kept with the metadata.  When bytes follow the message in the same
  read and the session is new, the check that nothing is left of it fails and the process ends.  When
  the message joins a session that the table knows, the read buffer is never cleared, and it is
  the check on the next data that fails.
\<close>

theorem metadata_faults:
  assumes "ow_hands w j = Some c" "msg_flag c AND OCTOPUS_META_FLAG = 0" "ob_rb c = []" "hand_manager c" "octo_posix P"
    and "length extra < 2 ^ 63" "table_find (octo_table (ow_io w)) uuid = Some found"
  shows "(found = None \<and> extra \<noteq> [] \<longrightarrow> callee_data P j (meta_message uuid sp @ extra) w = None) \<and>
    (\<forall>i w1 b bs. found = Some i \<and> callee_data P j (meta_message uuid sp @ extra) w = Some w1 \<longrightarrow>
      callee_data P j (b # bs) w1 = None)"
proof -
  obtain reader where rem: "bytes_remaining reader = length extra" and run: "callee_data P j (meta_message uuid sp @ extra) w =
      message_step P j uuid sp reader (w\<lparr>ow_hands := (ow_hands w)(j \<mapsto> parsed c (meta_message uuid sp @ extra) sp)\<rparr>)"
    using callee_data_message [OF assms(1-4,6)] by blast
  have "callee_data P j (meta_message uuid sp @ extra) w = None" if "found = None" "extra \<noteq> []"
    using that assms(7) rem unfolding run by (auto simp: message_step_def Let_def split: prod.splits bind_splits)
  moreover have "callee_data P j (b # bs) w1 = None"
    if found: "found = Some i" and step: "callee_data P j (meta_message uuid sp @ extra) w = Some w1" for i w1 b bs
  proof -
    let ?c = "(parsed c (meta_message uuid sp @ extra) sp)\<lparr>hand_dispatcher := Some i\<rparr>"
    have "register_hand P i j (w\<lparr>ow_hands := (ow_hands w)(j \<mapsto> ?c)\<rparr>) = Some w1"
      using step found assms(7) unfolding run by (simp add: message_step_def on_hand_def)
    from register_hand_hand [OF this, of ?c] obtain c1 where "ow_hands w1 j = Some c1"
      "ob_rb c1 = meta_message uuid sp @ extra" "msg_flag c1 AND OCTOPUS_META_FLAG \<noteq> 0"
      using assms(5) has_meta_flag [of "msg_flag c"] by (auto simp: parsed_def)
    moreover have "meta_message uuid sp \<noteq> []" by (simp add: meta_message_eq meta_bytes_def)
    ultimately show ?thesis by (simp add: callee_data_def)
  qed
  ultimately show ?thesis by blast
qed

theorem metadata_faults_witness:
  "callee_data pipe_platform 0 (meta_message sample_key True @ [0]) (sample_octo (False, []) sample_callee sample_disp) = None"
  using metadata_faults [of "sample_octo (False, []) sample_callee sample_disp" 0 sample_callee pipe_platform "[0]" sample_key None True]
    pipe_posix by (simp add: table_find_def keys_ordered_def key_less_irrefl)

section \<open>Sessions that fail\<close>

lemma hand_conn_close_dst_failed:
  assumes c: "ow_hands w j = Some c" and d: "\<And>i. hand_dispatcher c = Some i \<Longrightarrow> ow_disps w i \<noteq> None"
  shows "\<exists>c' io'. hand_conn_close P j OCTOPUS_SIG_DST_FAILED w = Some (w\<lparr>ow_hands := (ow_hands w)(j \<mapsto> c'), ow_io := io'\<rparr>) \<and>
    octo_table io' = octo_table (ow_io w) \<and> ob_destroyed c' \<and>
    octo_posted io' = octo_posted (ow_io w) @ (if ob_destroyed c then [] else [Hand j])"
proof -
  have signal: "disp_signal_from P i j OCTOPUS_SIG_DST_FAILED w = Some w" if "hand_dispatcher c = Some i" for i
    using d [OF that] by (auto simp: disp_signal_from_def)
  define w1 where "w1 = w\<lparr>ow_hands := (ow_hands w)(j \<mapsto> c\<lparr>hand_dispatcher := None\<rparr>)\<rparr>"
  have same: "w\<lparr>ow_hands := (ow_hands w)(j \<mapsto> c)\<rparr> = w" using c by (simp add: fun_upd_idem)
  obtain c' io' where fin: "hand_finish P j (c\<lparr>hand_dispatcher := None\<rparr>) (ow_io w) = (c', io')" by fastforce
  have noop: "hand_dispatcher c = None \<Longrightarrow> c\<lparr>hand_dispatcher := None\<rparr> = c" by (cases c) simp
  have "hand_conn_close P j OCTOPUS_SIG_DST_FAILED w = Some (w\<lparr>ow_hands := (ow_hands w)(j \<mapsto> c'), ow_io := io'\<rparr>)"
    using c signal fin noop by (cases "hand_dispatcher c") (simp_all add: hand_conn_close_def on_hand_def)
  moreover have "octo_table io' = octo_table (ow_io w)" "ob_destroyed c'"
    "octo_posted io' = octo_posted (ow_io w) @ (if ob_destroyed c then [] else [Hand j])"
    using fin by (auto simp: hand_finish_def octo_close_fd_eq octo_delete_self_def Let_def split: if_splits)
  ultimately show ?thesis by blast
qed

text \<open>
  The destination cannot be reached, and the calling half is told so.  The hand closes and is deleted, but its
  dispatcher is not told to close: the signal \<open>DST_FAILED\<close> does nothing there.  The accepted
  connection stays open, with nothing that reads it, and the dispatcher keeps the hand in its waiting
  list when the hand is gone.
\<close>

theorem failed_destination_leaks:
  assumes "octo_inv w" "ow_hands w j = Some c" "hand_dispatcher c = Some i" "ow_disps w i = Some d"
    and "\<not> ob_destroyed d" "j \<in> set (wait_hands d)"
  shows "\<exists>w1 w2. caller_first P j OCTOPUS_MSG_DST_FAILED bs w = Some w1 \<and> octo_execute_tasks w1 = Some w2 \<and>
    ow_hands w2 j = None \<and> ow_disps w2 i = Some d"
proof -
  define w0 where "w0 = w\<lparr>ow_hands := (ow_hands w)(j \<mapsto> c\<lparr>msg_flag := msg_flag c OR OCTOPUS_META_ACK_FLAG\<rparr>)\<rparr>"
  have w0: "ow_hands w0 j = Some (c\<lparr>msg_flag := msg_flag c OR OCTOPUS_META_ACK_FLAG\<rparr>)" "ow_disps w0 = ow_disps w"
    by (simp_all add: w0_def)
  have inv0: "octo_inv w0" unfolding w0_def using assms(1,2) by (rule octo_inv_hand_fields) simp_all
  obtain w1 c' io' where w1: "hand_conn_close P j OCTOPUS_SIG_DST_FAILED w0 = Some w1"
    "w1 = w0\<lparr>ow_hands := (ow_hands w0)(j \<mapsto> c'), ow_io := io'\<rparr>" "ob_destroyed c'"
    using hand_conn_close_dst_failed [OF w0(1), of P] assms(3,4) w0(2) by auto
  have inv1: "octo_inv w1" using hand_conn_close_inv [OF w1(1) inv0] .
  have "caller_first P j OCTOPUS_MSG_DST_FAILED bs w = Some w1"
    using assms(2) w1(1) by (simp add: caller_first_def on_hand_def w0_def OCTOPUS_MSG_DST_FAILED_def OCTOPUS_MSG_DST_CONNECTED_def)
  moreover have "Hand j \<in> set (octo_posted (ow_io w1))" "Dispatcher i \<notin> set (octo_posted (ow_io w1))"
    using inv1 w1(2,3) assms(4,5) w0(2) unfolding octo_inv_def by auto
  ultimately show ?thesis using octo_execute_tasks_eq [OF inv1] w1(2) w0(2) assms(4) by auto
qed

theorem failed_destination_leaks_witness:
  "\<exists>w1 w2. caller_first pipe_platform 0 OCTOPUS_MSG_DST_FAILED []
      (sample_octo (False, []) sample_hand (sample_disp\<lparr>wait_hands := [0], ready_hands := []\<rparr>)) = Some w1 \<and>
    octo_execute_tasks w1 = Some w2 \<and> ow_hands w2 0 = None \<and> ow_disps w2 1 = Some (sample_disp\<lparr>wait_hands := [0], ready_hands := []\<rparr>)"
  using failed_destination_leaks [of "sample_octo (False, []) sample_hand (sample_disp\<lparr>wait_hands := [0], ready_hands := []\<rparr>)" 0 sample_hand 1
      "sample_disp\<lparr>wait_hands := [0], ready_hands := []\<rparr>" pipe_platform "[]"]
  by (simp add: octo_inv_def)

lemma refused_dispatcher:
  assumes "\<And>k. fst (o_connect P k sock addr) = Connect_Again"
  shows "\<exists>d io'. disp_asyn_connect P i addr (dispatcher_new sock uuid role m) io = (False, d, io') \<and>
    octo_table io' = octo_table io \<and> Dispatcher i \<in> set (octo_posted io')"
proof -
  have d0: "ob_fd (dispatcher_new sock uuid role m) = sock" "\<not> ob_destroyed (dispatcher_new sock uuid role m)"
    by (simp_all add: dispatcher_new_def octo_base_new_def octo_base.defs)
  obtain k where k: "o_connect P (octo_kernel io) sock addr = (Connect_Again, k)"
    using assms [of "octo_kernel io"] by (cases "o_connect P (octo_kernel io) sock addr") auto
  then show ?thesis using d0 by (simp add: disp_asyn_connect_def Let_def octo_close_fd_eq octo_delete_self_def)
qed

lemma send_meta_ack_failed:
  "\<exists>c' io'. send_meta_ack P OCTOPUS_SIG_DST_FAILED c io = Some (c', io') \<and> octo_table io' = octo_table io \<and>
    octo_posted io' = octo_posted io \<and> hand_dispatcher c' = hand_dispatcher c"
proof -
  obtain n io' where send: "octo_send P (ob_fd c) [OCTOPUS_MSG_DST_FAILED] io = (n, io')" by fastforce
  then have "octo_table io' = octo_table io" "octo_posted io' = octo_posted io"
    by (auto simp: octo_send_def Let_def split: prod.splits if_splits)
  then show ?thesis using send by (simp add: send_meta_ack_def OCTOPUS_MSG_DST_FAILED_def)
qed

text \<open>
  A session of several paths whose destination the kernel refuses at once (\<open>EAGAIN\<close>): \<open>CalleeParseMeta\<close>
  registers the dispatcher before it connects, and \<open>AsynConnect\<close> deletes it without taking it out of
  the table again.  The session key goes on leading to a dispatcher that is deleted.
\<close>

theorem failed_connect_leaves_session:
  assumes "ow_hands w j = Some c" "msg_flag c AND OCTOPUS_META_FLAG = 0" "ob_rb c = []" "hand_manager c" "octo_posix P"
    and "table_ok (octo_table (ow_io w))" "table_find (octo_table (ow_io w)) uuid = Some None"
    and "bind_addr P (key_from uuid, key_src_port uuid) True (ow_io w) = (sock, io1)" "0 < sock"
    and "\<And>k. fst (o_connect P k sock (key_to uuid, key_dst_port uuid)) = Connect_Again"
  shows "\<exists>w1. callee_data P j (meta_message uuid False) w = Some w1 \<and>
    table_find (octo_table (ow_io w1)) uuid = Some (Some (ow_next w)) \<and>
    Dispatcher (ow_next w) \<in> set (octo_posted (ow_io w1))"
proof -
  let ?i = "ow_next w"
  obtain reader where reader: "bytes_remaining reader = 0" and run: "callee_data P j (meta_message uuid False) w =
      message_step P j uuid False reader (w\<lparr>ow_hands := (ow_hands w)(j \<mapsto> parsed c (meta_message uuid False) False)\<rparr>)"
    using callee_data_message [OF assms(1-4), of "[]" P uuid False] by auto
  let ?c = "parsed c (meta_message uuid False) False"
  define w1 where "w1 = w\<lparr>ow_hands := (ow_hands w)(j \<mapsto> ?c), ow_io := io1\<rparr>"
  have table: "octo_table io1 = octo_table (ow_io w)"
    using bind_addr_table [of P "(key_from uuid, key_src_port uuid)" True "ow_io w"] assms(8) by simp
  define io2 where "io2 = io1\<lparr>octo_visitors := octo_visitors io1 @ [?i], octo_table := (uuid, ?i) # octo_table (ow_io w)\<rparr>"
  obtain d io3 where conn: "disp_asyn_connect P ?i (key_to uuid, key_dst_port uuid) (dispatcher_new sock uuid OCTOPUS_DISPATCHER_SERVER True) io2 =
      (False, d, io3)" "octo_table io3 = octo_table io2" "Dispatcher ?i \<in> set (octo_posted io3)"
    using refused_dispatcher [OF assms(10)] by blast
  define w2 where "w2 = w1\<lparr>ow_disps := (ow_disps w)(?i \<mapsto> d), ow_next := ?i + 1,
    ow_hands := (ow_hands w)(j \<mapsto> ?c\<lparr>hand_dispatcher := Some ?i\<rparr>), ow_io := io3\<rparr>"
  have opened: "open_dispatcher P j False uuid sock w1 = Some (False, w2)"
    using conn(1) assms(7) table by (simp add: open_dispatcher_def Let_def w1_def w2_def on_hand_def do_when_def table_register_def io2_def)
  obtain c3 io4 where ack: "send_meta_ack P OCTOPUS_SIG_DST_FAILED (?c\<lparr>hand_dispatcher := Some ?i\<rparr>) io3 = Some (c3, io4)"
    "octo_table io4 = octo_table io3" "octo_posted io4 = octo_posted io3" "hand_dispatcher c3 = Some ?i"
    using send_meta_ack_failed [of P "?c\<lparr>hand_dispatcher := Some ?i\<rparr>" io3] by auto
  define w3 where "w3 = w2\<lparr>ow_hands := (ow_hands w)(j \<mapsto> c3), ow_io := io4\<rparr>"
  obtain c4 io5 where closing: "hand_conn_close P j OCTOPUS_SIG_DST_FAILED w3 = Some (w3\<lparr>ow_hands := (ow_hands w3)(j \<mapsto> c4), ow_io := io5\<rparr>)"
    "octo_table io5 = octo_table io4" "set (octo_posted io4) \<subseteq> set (octo_posted io5)"
    using hand_conn_close_dst_failed [of w3 j c3 P] ack(4) by (auto simp: w3_def w2_def)
  have "callee_data P j (meta_message uuid False) w =
      Some (w3\<lparr>ow_hands := (ow_hands w3)(j \<mapsto> c4\<lparr>ob_rb := []\<rparr>), ow_io := io5\<rparr>)"
    using assms(7,8,9) opened ack(1) closing(1) reader unfolding run message_step_def
    by (simp add: w1_def [symmetric]) (simp add: on_hand_def w2_def w3_def)
  moreover have "table_find (octo_table io5) uuid = Some (Some ?i)"
    using assms(7) closing(2) ack(2) conn(2) by (auto simp: io2_def table_find_def keys_ordered_def split: if_splits)
  ultimately show ?thesis using closing(3) ack(3) conn(3) by auto
qed

theorem failed_connect_leaves_session_witness:
  "\<exists>w1. callee_data pipe_platform 0 (meta_message (sample_key\<lparr>key_dst_port := 0\<rparr>) False) (sample_octo (False, []) sample_callee sample_disp) = Some w1 \<and>
    table_find (octo_table (ow_io w1)) (sample_key\<lparr>key_dst_port := 0\<rparr>) = Some (Some 2) \<and> Dispatcher 2 \<in> set (octo_posted (ow_io w1))"
proof -
  let ?w = "sample_octo (False, []) sample_callee sample_disp"
  let ?k = "sample_key\<lparr>key_dst_port := 0\<rparr>"
  have "bind_addr pipe_platform (key_from ?k, key_src_port ?k) True (ow_io ?w) = (9, ow_io ?w)"
    by (simp add: bind_addr_def sample_octo_def)
  then show ?thesis
    using failed_connect_leaves_session [of ?w 0 sample_callee pipe_platform ?k 9 "ow_io ?w"] pipe_posix
    by (simp add: table_ok_def table_find_def keys_ordered_def key_less_irrefl)
qed

section \<open>A dispatcher that is never closed\<close>

text \<open>
  The state: connected, closing when the bytes are written, with no hands, and an alarm that is set.  Of \<open>data\<close>
  the socket has accepted a prefix, behind the bytes \<open>old\<close>, and the rest waits.
\<close>

definition abandoned :: "nat \<Rightarrow> int \<Rightarrow> byte list \<Rightarrow> byte list \<Rightarrow> 'k octo_world \<Rightarrow> bool" where
  "abandoned i fd old data w \<longleftrightarrow> Dispatcher i \<notin> set (octo_posted (ow_io w)) \<and>
     (\<exists>d al. ow_disps w i = Some d \<and> disp_wait_close d \<and> ob_status d = OCTOPUS_CONN_CONNECTED \<and> wait_hands d = [] \<and> ready_hands d = [] \<and>
       ob_fd d = fd \<and> 0 < fd \<and> (\<exists>sent. octo_sent fd (ow_io w) = old @ sent \<and> sent @ ob_wb d = data) \<and>
       socket_alarm d = Some al \<and> alarm_inv al \<and> alarm_deadline al \<noteq> 0)"

lemma abandoned_alarm:
  assumes P: "octo_posix P" "\<And>k. 0 < o_now P k" and w: "abandoned i fd old data w"
  shows "\<exists>w'. octo_handle_event P (Socket_Alarm i) w = Some w' \<and> abandoned i fd old data w'"
proof -
  obtain d al before where d: "ow_disps w i = Some d" "disp_wait_close d" "ob_status d = OCTOPUS_CONN_CONNECTED" "wait_hands d = []"
    "ready_hands d = []" "ob_fd d = fd" "0 < fd" "octo_sent fd (ow_io w) = old @ before \<and> before @ ob_wb d = data"
    "socket_alarm d = Some al" "alarm_inv al" "alarm_deadline al \<noteq> 0" and posted: "Dispatcher i \<notin> set (octo_posted (ow_io w))"
    using w by (auto simp: abandoned_def)
  define al1 where "al1 = al\<lparr>alarm_registered := None, alarm_deadline := 0\<rparr>"
  have fire: "alarm_on_epoll al = (True, al1)" "alarm_inv al1" "alarm_deadline al1 = 0"
    using d(11) by (auto simp: alarm_defs al1_def)
  define d1 where "d1 = d\<lparr>socket_alarm := Some al1\<rparr>"
  obtain d2 sent rest fl io2 where flush: "flush_segments P d1 (ob_wb d1) False (ow_io w) = Some (d2, rest, fl, io2)"
    "ob_wb d1 = sent @ rest" "sends (ob_fd d1) sent (ow_io w) io2" "d2 = d1\<lparr>ob_send_bytes := ob_send_bytes d2\<rparr>" "\<not> fl \<longrightarrow> sent = []"
    using flush_segments_sends [OF P(1), of d1 "ob_wb d1" False "ow_io w"] by blast
  obtain sb where sb: "d2 = d1\<lparr>ob_send_bytes := sb\<rparr>" using flush(4) by blast
  define d3 where "d3 = (if fl then d2\<lparr>ob_wb := rest\<rparr> else d2)"
  have d3: "d3 = d1\<lparr>ob_send_bytes := sb, ob_wb := rest\<rparr>"
    using flush(2,5) sb wb_self [of d1] wb_self [of "d1\<lparr>ob_send_bytes := sb\<rparr>"] by (auto simp: d3_def)
  define now where "now = o_now P (octo_kernel io2)"
  obtain al2 where al2: "alarm_update al1 (now + kSocketRWInterval) 0 = Some al2" "alarm_inv al2"
    "alarm_deadline al2 = now + kSocketRWInterval"
    using alarm_update_inv [OF fire(2), of "now + kSocketRWInterval" 0] P(2) [of "octo_kernel io2"]
    by (auto simp: now_def kSocketRWInterval_def delta_from_milliseconds_def)
  define d4 where "d4 = d3\<lparr>last_alarm_time := now, socket_alarm := Some al2\<rparr>"
  have fd1: "ob_fd d1 = fd" "ready_hands d1 = []" using d by (simp_all add: d1_def)
  have "disp_flush P d1 (ow_io w) = Some (d3\<lparr>last_alarm_time := now\<rparr>, io2)"
    using flush(1) fd1 d(7) by (simp add: disp_flush_def octo_flush_buffer_def d3_def now_def)
  moreover have "rearm_socket_alarm now (d3\<lparr>last_alarm_time := now\<rparr>) io2 = Some (d4, io2)"
    using al2(1) by (simp add: rearm_socket_alarm_def d3 d1_def d4_def)
  moreover have "octo_handle_event P (Socket_Alarm i) w =
      handle_socket_alarm P i (w\<lparr>ow_disps := (ow_disps w)(i \<mapsto> d1)\<rparr>)"
    using d fire(1) by (simp add: do_when_def d1_def)
  ultimately have "octo_handle_event P (Socket_Alarm i) w = Some (w\<lparr>ow_disps := (ow_disps w)(i \<mapsto> d4), ow_io := io2\<rparr>)"
    using fd1 d(7) by (simp add: handle_socket_alarm_def on_disp_def now_def [symmetric])
  moreover have "octo_sent fd io2 = old @ before @ sent" "(before @ sent) @ ob_wb d4 = data"
    using flush(2,3) fd1(1) d(8) by (simp_all add: sends_def d4_def d3 d1_def)
  then have "abandoned i fd old data (w\<lparr>ow_disps := (ow_disps w)(i \<mapsto> d4), ow_io := io2\<rparr>)"
    using d(1-7) posted flush(3) al2(2,3) P(2) [of "octo_kernel io2"]
    by (auto simp: abandoned_def sends_def io_quiet_def d4_def d3 d1_def now_def kSocketRWInterval_def delta_from_milliseconds_def)
  ultimately show ?thesis by auto
qed

lemma abandoned_event:
  assumes "octo_posix P" "\<And>k. 0 < o_now P k" "abandoned i fd old data w" "e = Socket_Alarm i \<or> e \<in> range (Dispatcher_Event i)"
  shows "\<exists>w'. octo_handle_event P e w = Some w' \<and> abandoned i fd old data w'"
proof (cases "e = Socket_Alarm i")
  case True
  then show ?thesis using abandoned_alarm [OF assms(1-3)] by simp
next
  case False
  then obtain events where "e = Dispatcher_Event i events" using assms(4) by blast
  then have "octo_handle_event P e w = Some w" using assms(3) by (auto simp: abandoned_def disp_on_event_def do_when_def)
  then show ?thesis using assms(3) by blast
qed

fun octo_handle_events :: "'k octo_platform \<Rightarrow> octopus_event list \<Rightarrow> 'k octo_world \<Rightarrow> 'k octo_world option" where
  "octo_handle_events P [] w = Some w"
| "octo_handle_events P (e # es) w = Option.bind (octo_handle_event P e w) (octo_handle_events P es)"

lemma abandoned_events:
  assumes "octo_posix P" "\<And>k. 0 < o_now P k"
  shows "abandoned i fd old data w \<Longrightarrow> set es \<subseteq> insert (Socket_Alarm i) (range (Dispatcher_Event i)) \<Longrightarrow>
    \<exists>w'. octo_handle_events P es w = Some w' \<and> abandoned i fd old data w'"
proof (induction es arbitrary: w)
  case (Cons e es)
  obtain w1 where "octo_handle_event P e w = Some w1" "abandoned i fd old data w1"
    using abandoned_event [OF assms Cons.prems(1), of e] Cons.prems(2) by auto
  then show ?case using Cons.IH [of w1] Cons.prems(2) by simp
qed simp

text \<open>
  C33: The last hand of a connected dispatcher disconnects while bytes that the kernel refused wait for the
  dispatcher's socket.  The dispatcher remembers to close when they are written, but nothing ever looks at that.
  Whatever the kernel does with the sends and however often the dispatcher is called back, by its socket
  alarm or by an event of its descriptor, it stays open with its alarm set and is not deleted, also when
  its last byte is out.  Only a new hand of the same session, or the end of the process, changes that.
\<close>

theorem abandoned_dispatcher_stays:
  assumes "octo_posix P" "\<And>k. 0 < o_now P k"
    and "ow_disps w i = Some d" "ob_status d = OCTOPUS_CONN_CONNECTED" "set (wait_hands d) \<subseteq> {j}" "set (ready_hands d) \<subseteq> {j}"
    and "ob_wb d \<noteq> []" "0 < ob_fd d" "socket_alarm d = Some al" "alarm_inv al" "alarm_deadline al \<noteq> 0"
    and "Dispatcher i \<notin> set (octo_posted (ow_io w))"
  shows "\<exists>w1. disp_signal_from P i j OCTOPUS_SIG_CONN_DISCONN w = Some w1 \<and>
    (\<forall>es. set es \<subseteq> insert (Socket_Alarm i) (range (Dispatcher_Event i)) \<longrightarrow>
      (\<exists>w' d' al' sent. octo_handle_events P es w1 = Some w' \<and> ow_disps w' i = Some d' \<and>
        octo_sent (ob_fd d) (ow_io w') = octo_sent (ob_fd d) (ow_io w1) @ sent \<and> ob_wb d = sent @ ob_wb d' \<and>
        disp_wait_close d' \<and> ob_fd d' = ob_fd d \<and> wait_hands d' = [] \<and> ready_hands d' = [] \<and>
        socket_alarm d' = Some al' \<and> alarm_deadline al' \<noteq> 0 \<and> Dispatcher i \<notin> set (octo_posted (ow_io w'))))"
proof -
  define d1 where "d1 = d\<lparr>wait_hands := [], ready_hands := [], disp_wait_close := True\<rparr>"
  define w1 where "w1 = w\<lparr>ow_disps := (ow_disps w)(i \<mapsto> d1)\<rparr>"
  have none: "removeAll j (wait_hands d) = []" "removeAll j (ready_hands d) = []"
    using assms(5,6) by (auto simp: filter_empty_conv removeAll_filter_not_eq)
  have signal: "disp_signal_from P i j OCTOPUS_SIG_CONN_DISCONN w = Some w1"
    using assms(3,7) none by (simp add: disp_signal_from_def w1_def d1_def Let_def)
  have start: "abandoned i (ob_fd d) (octo_sent (ob_fd d) (ow_io w1)) (ob_wb d) w1"
    using assms(4,8-12) by (auto simp: abandoned_def w1_def d1_def)
  have "\<exists>w'. octo_handle_events P es w1 = Some w' \<and> abandoned i (ob_fd d) (octo_sent (ob_fd d) (ow_io w1)) (ob_wb d) w'"
    if "set es \<subseteq> insert (Socket_Alarm i) (range (Dispatcher_Event i))" for es
    by (rule abandoned_events [OF assms(1,2) start that])
  then have "\<exists>w' d' al' sent. octo_handle_events P es w1 = Some w' \<and> ow_disps w' i = Some d' \<and>
        octo_sent (ob_fd d) (ow_io w') = octo_sent (ob_fd d) (ow_io w1) @ sent \<and> ob_wb d = sent @ ob_wb d' \<and>
        disp_wait_close d' \<and> ob_fd d' = ob_fd d \<and> wait_hands d' = [] \<and> ready_hands d' = [] \<and>
        socket_alarm d' = Some al' \<and> alarm_deadline al' \<noteq> 0 \<and> Dispatcher i \<notin> set (octo_posted (ow_io w'))"
    if "set es \<subseteq> insert (Socket_Alarm i) (range (Dispatcher_Event i))" for es
    using that unfolding abandoned_def by metis
  then show ?thesis using signal by blast
qed

text \<open>The sample kernel with a full send buffer.\<close>

definition full_pipe :: "(bool \<times> byte list) octo_platform" where
  "full_pipe = pipe_platform\<lparr>o_send := \<lambda>k fd d. (- 1, k)\<rparr>"

theorem abandoned_dispatcher_stays_witness:
  "\<exists>w0 w1 w' d'. on_disp 1 (octo_sink full_pipe [7]) (sample_octo (False, []) sample_hand sample_disp) = Some w0 \<and>
    disp_signal_from full_pipe 1 0 OCTOPUS_SIG_CONN_DISCONN w0 = Some w1 \<and>
    octo_handle_events full_pipe [Socket_Alarm 1, Dispatcher_Event 1 EPOLLOUT, Socket_Alarm 1] w1 = Some w' \<and>
    ow_disps w' 1 = Some d' \<and> disp_wait_close d' \<and> ob_fd d' = 4"
proof -
  let ?d = "sample_disp\<lparr>ob_wb := [7]\<rparr>"
  let ?w = "(sample_octo (False, []) sample_hand sample_disp)\<lparr>ow_disps := [1 \<mapsto> ?d]\<rparr>"
  have "sink_segments full_pipe sample_disp [7] io = (sample_disp, [7], io)" for io
    by (subst sink_segments.simps) (simp add: full_pipe_def octo_send_def)
  then have sink: "on_disp 1 (octo_sink full_pipe [7]) (sample_octo (False, []) sample_hand sample_disp) = Some ?w"
    by (simp add: on_disp_def octo_sink_def octo_flush_buffer_def flush_segments.simps [of _ _ "[]"] sample_octo_def)
  have posix: "octo_posix full_pipe" using pipe_posix by (simp add: octo_posix_def full_pipe_def)
  have status: "ob_status ?d = OCTOPUS_CONN_CONNECTED" by (simp add: sample_disp_def dispatcher_new_def octo_base_new_def octo_base.defs)
  obtain w1 where w1: "disp_signal_from full_pipe 1 0 OCTOPUS_SIG_CONN_DISCONN ?w = Some w1"
    "\<forall>es. set es \<subseteq> insert (Socket_Alarm 1) (range (Dispatcher_Event 1)) \<longrightarrow>
      (\<exists>w' d'. octo_handle_events full_pipe es w1 = Some w' \<and> ow_disps w' 1 = Some d' \<and> disp_wait_close d' \<and> ob_fd d' = 4)"
    using abandoned_dispatcher_stays [OF posix _ _ status, of ?w 1 0 sample_alarm] sample_alarm_inv
    by (simp add: full_pipe_def sample_alarm_def) blast
  have "set [Socket_Alarm 1, Dispatcher_Event 1 EPOLLOUT, Socket_Alarm 1] \<subseteq> insert (Socket_Alarm 1) (range (Dispatcher_Event 1))" by simp
  with w1 sink show ?thesis by blast
qed

end
