(* ===== verification/Tcp_Server.thy ===== *)
theory Tcp_Server
  imports Read_Loops
begin

text \<open>
  The listening server that the example programs, the single-path proxy and the DASH server share
  (\<open>tcp/tcp_handle.h\<close>, \<open>tcp/tcp_handle.cc\<close>, \<open>tcp/tcp_server.cc\<close>): the accepting socket
  \<open>PhysicalSocketServer\<close>, the owner \<open>TcpServer\<close>, and the endpoint that it creates
  for every connection.  What an endpoint does with its events is the record \<open>endpoint_class\<close>, the
  virtual functions of \<open>Backend\<close> and \<open>EpollCallbackInterface\<close>; their contract is the locale
  \<open>tcp_endpoints\<close>.  The system calls are those of \<open>'k platform\<close> and of \<open>'k listening\<close>.
\<close>

section \<open>The outside\<close>

datatype listen_option = Reuse_Addr | Reuse_Port

record 'k listening =
  sys_accept :: "'k \<Rightarrow> int \<Rightarrow> int \<times> 'k"
  sys_listen :: "'k \<Rightarrow> int \<Rightarrow> int \<Rightarrow> bool \<times> 'k"
  sys_set_option :: "'k \<Rightarrow> int \<Rightarrow> listen_option \<Rightarrow> bool \<times> 'k"

text \<open>\<open>tcp_posted\<close>: the endpoints whose deletion is posted to the task queue of the context.\<close>

record 'k tcp_io =
  tcp_kernel :: 'k
  tcp_log :: "io_event list"
  tcp_posted :: "nat list"

definition tcp_event :: "io_event \<Rightarrow> 'k tcp_io \<Rightarrow> 'k tcp_io" where
  "tcp_event e io = io\<lparr>tcp_log := tcp_log io @ [e]\<rparr>"

definition tcp_sent :: "int \<Rightarrow> 'k tcp_io \<Rightarrow> byte list" where
  "tcp_sent fd io = concat (map (sent_event fd) (tcp_log io))"

lemma tcp_event_fields [simp]:
  "tcp_kernel (tcp_event e io) = tcp_kernel io" "tcp_posted (tcp_event e io) = tcp_posted io"
  "tcp_log (tcp_event e io) = tcp_log io @ [e]" "tcp_sent fd (tcp_event e io) = tcp_sent fd io @ sent_event fd e"
  "tcp_sent fd (io\<lparr>tcp_kernel := k\<rparr>) = tcp_sent fd io" "tcp_sent fd (io\<lparr>tcp_posted := p\<rparr>) = tcp_sent fd io"
  by (simp_all add: tcp_event_def tcp_sent_def)

section \<open>Endpoints\<close>

text \<open>
  What \<open>MockEndpoint\<close> and \<open>DashServerEndpoint\<close> have in common: the descriptor, the flag that
  guards the deletion, and (in the epoll server) the descriptor the endpoint is registered for.
\<close>

record tcp_endpoint =
  te_fd :: int
  te_registered :: "int option"
  te_destroyed :: bool

definition endpoint_close :: "'k platform \<Rightarrow> 'a tcp_endpoint_scheme \<Rightarrow> 'k tcp_io \<Rightarrow> 'a tcp_endpoint_scheme \<times> 'k tcp_io" where
  "endpoint_close P e io =
     (if 0 < te_fd e
      then (e\<lparr>te_fd := - 1\<rparr>, tcp_event (Close_Fd (te_fd e)) (io\<lparr>tcp_kernel := sys_close P (tcp_kernel io) (te_fd e)\<rparr>))
      else (e, io))"

definition endpoint_delete_self :: "nat \<Rightarrow> 'a tcp_endpoint_scheme \<Rightarrow> 'k tcp_io \<Rightarrow> 'a tcp_endpoint_scheme \<times> 'k tcp_io" where
  "endpoint_delete_self self e io =
     (if te_destroyed e then (e, io)
      else (e\<lparr>te_destroyed := True\<rparr>, io\<lparr>tcp_posted := tcp_posted io @ [self]\<rparr>))"

definition endpoint_on_unregistration ::
  "'k platform \<Rightarrow> nat \<Rightarrow> 'a tcp_endpoint_scheme \<Rightarrow> 'k tcp_io \<Rightarrow> 'a tcp_endpoint_scheme \<times> 'k tcp_io" where
  "endpoint_on_unregistration P self e io =
     (let (e', io') = endpoint_close P e io in endpoint_delete_self self e' io')"

text \<open>
  \<open>UnregisterFD(fd_)\<close> of the epoll server, when the entry of \<open>fd_\<close> is this endpoint: the
  callback runs before the entry is cleared.  Without an entry for \<open>fd_\<close> nothing happens.
\<close>

definition endpoint_unregister ::
  "'k platform \<Rightarrow> nat \<Rightarrow> 'a tcp_endpoint_scheme \<Rightarrow> 'k tcp_io \<Rightarrow> 'a tcp_endpoint_scheme \<times> 'k tcp_io" where
  "endpoint_unregister P self e io =
     (if te_registered e = Some (te_fd e)
      then let (e', io') = endpoint_on_unregistration P self e (tcp_event (Unregister_Fd (te_fd e)) io)
           in (e'\<lparr>te_registered := None\<rparr>, io')
      else (e, io))"

text \<open>\<open>ModifyCallback\<close> of the epoll server does nothing for a descriptor without an entry.\<close>

definition endpoint_modify :: "'a tcp_endpoint_scheme \<Rightarrow> int \<Rightarrow> 32 word \<Rightarrow> 'k tcp_io \<Rightarrow> 'k tcp_io" where
  "endpoint_modify e fd m io = (if te_registered e = Some fd then tcp_event (Modify_Callback fd m) io else io)"

lemma endpoint_modify_fields [simp]:
  "tcp_posted (endpoint_modify e fd m io) = tcp_posted io" "tcp_kernel (endpoint_modify e fd m io) = tcp_kernel io"
  "tcp_sent fd' (endpoint_modify e fd m io) = tcp_sent fd' io"
  by (simp_all add: endpoint_modify_def sent_event_def)

record ('e, 'k) endpoint_class =
  ep_new :: "nat \<Rightarrow> int \<Rightarrow> 'k tcp_io \<Rightarrow> 'e \<times> 'k tcp_io"
  ep_on_event :: "nat \<Rightarrow> 32 word \<Rightarrow> 'e \<Rightarrow> 'k tcp_io \<Rightarrow> ('e \<times> 'k tcp_io) option"

text \<open>The life of an endpoint: registered for its descriptor until it is destroyed and closed.\<close>

definition endpoint_inv :: "'a tcp_endpoint_scheme \<Rightarrow> bool" where
  "endpoint_inv e \<longleftrightarrow>
     (if te_destroyed e then te_registered e = None \<and> te_fd e \<le> 0 else te_registered e = Some (te_fd e) \<and> 0 \<le> te_fd e)"

text \<open>An operation of the endpoint \<open>self\<close>: it stays alive, or it is destroyed and posted once.\<close>

definition endpoint_step ::
  "nat \<Rightarrow> 'a tcp_endpoint_scheme \<Rightarrow> 'k tcp_io \<Rightarrow> 'a tcp_endpoint_scheme \<Rightarrow> 'k tcp_io \<Rightarrow> bool" where
  "endpoint_step self e io e' io' \<longleftrightarrow> (endpoint_inv e \<longrightarrow> endpoint_inv e') \<and>
     (if te_destroyed e = te_destroyed e' then tcp_posted io' = tcp_posted io
      else te_destroyed e' \<and> tcp_posted io' = tcp_posted io @ [self])"

lemma endpoint_step_refl: "tcp_posted io' = tcp_posted io \<Longrightarrow> te_fd e' = te_fd e \<Longrightarrow>
    te_registered e' = te_registered e \<Longrightarrow> te_destroyed e' = te_destroyed e \<Longrightarrow> endpoint_step self e io e' io'"
  by (simp add: endpoint_step_def endpoint_inv_def)

lemma endpoint_step_trans:
  "endpoint_step self e io e1 io1 \<Longrightarrow> endpoint_step self e1 io1 e2 io2 \<Longrightarrow> endpoint_step self e io e2 io2"
  by (auto simp: endpoint_step_def split: if_splits)

lemma endpoint_close_eq:
  "endpoint_close P e io = (e\<lparr>te_fd := if 0 < te_fd e then - 1 else te_fd e\<rparr>, snd (endpoint_close P e io))"
  "tcp_posted (snd (endpoint_close P e io)) = tcp_posted io"
  "tcp_sent fd (snd (endpoint_close P e io)) = tcp_sent fd io"
  by (simp_all add: endpoint_close_def sent_event_def)

lemma endpoint_unregister_step:
  "endpoint_unregister P self e io = (e', io') \<Longrightarrow> endpoint_step self e io e' io'"
  by (auto simp: endpoint_unregister_def endpoint_on_unregistration_def endpoint_close_def endpoint_delete_self_def
      endpoint_step_def endpoint_inv_def split: if_splits)

lemma endpoint_unregister_live:
  "endpoint_inv e \<Longrightarrow> \<not> te_destroyed e \<Longrightarrow> endpoint_unregister P self e io = (e', io') \<Longrightarrow>
    e' = e\<lparr>te_fd := min (te_fd e) (- 1), te_registered := None, te_destroyed := True\<rparr> \<or> te_fd e = 0 \<and> e' = e\<lparr>te_registered := None, te_destroyed := True\<rparr>"
  by (auto simp: endpoint_unregister_def endpoint_on_unregistration_def endpoint_close_def endpoint_delete_self_def
      endpoint_inv_def split: if_splits)

section \<open>The accepting socket\<close>

record physical_server =
  ps_fd :: int
  ps_registered :: "int option"

definition ps_create :: "'k platform \<Rightarrow> 'k tcp_io \<Rightarrow> bool \<times> physical_server \<times> 'k tcp_io" where
  "ps_create P io =
     (let (fd, k) = sys_socket P (tcp_kernel io)
      in (0 \<le> fd, \<lparr>ps_fd = fd, ps_registered = None\<rparr>, io\<lparr>tcp_kernel := k\<rparr>))"

definition ps_bind :: "'k platform \<Rightarrow> sock_addr \<Rightarrow> physical_server \<Rightarrow> 'k tcp_io \<Rightarrow> bool \<times> 'k tcp_io" where
  "ps_bind P addr s io =
     (if 0 \<le> ps_fd s then let (ok, k) = sys_bind P (tcp_kernel io) (ps_fd s) addr in (ok, io\<lparr>tcp_kernel := k\<rparr>)
      else (False, io))"

definition ps_listen :: "'k listening \<Rightarrow> int \<Rightarrow> physical_server \<Rightarrow> 'k tcp_io \<Rightarrow> bool \<times> physical_server \<times> 'k tcp_io" where
  "ps_listen Q backlog s io =
     (if 0 \<le> ps_fd s then
        let (ok, k) = sys_listen Q (tcp_kernel io) (ps_fd s) backlog;
            io1 = io\<lparr>tcp_kernel := k\<rparr>
        in if ok
           then (True, s\<lparr>ps_registered := Some (ps_fd s)\<rparr>, tcp_event (Register_Fd (ps_fd s) (EPOLLIN OR EPOLLET)) io1)
           else (False, s, io1)
      else (False, s, io))"

definition ps_set_option :: "'k listening \<Rightarrow> listen_option \<Rightarrow> physical_server \<Rightarrow> 'k tcp_io \<Rightarrow> bool \<times> 'k tcp_io" where
  "ps_set_option Q opt s io =
     (if 0 \<le> ps_fd s then let (ok, k) = sys_set_option Q (tcp_kernel io) (ps_fd s) opt in (ok, io\<lparr>tcp_kernel := k\<rparr>)
      else (False, io))"

definition ps_close :: "'k platform \<Rightarrow> physical_server \<Rightarrow> 'k tcp_io \<Rightarrow> physical_server \<times> 'k tcp_io" where
  "ps_close P s io =
     (if 0 < ps_fd s
      then (s\<lparr>ps_fd := - 1\<rparr>, tcp_event (Close_Fd (ps_fd s)) (io\<lparr>tcp_kernel := sys_close P (tcp_kernel io) (ps_fd s)\<rparr>))
      else (s, io))"

text \<open>The destructor: \<open>UnregisterFD\<close>, whose callback closes, then \<open>Close\<close>.\<close>

definition ps_destroy :: "'k platform \<Rightarrow> physical_server \<Rightarrow> 'k tcp_io \<Rightarrow> 'k tcp_io" where
  "ps_destroy P s io =
     (let (s1, io1) = (if ps_registered s = Some (ps_fd s) then ps_close P s (tcp_event (Unregister_Fd (ps_fd s)) io) else (s, io))
      in snd (ps_close P s1 io1))"

section \<open>The server\<close>

text \<open>\<open>endpoints\<close> are the objects on the heap that the backend has created, named by numbers.\<close>

record ('e, 'k) tcp_server =
  ts_listener :: "physical_server option"
  ts_endpoints :: "nat \<rightharpoonup> 'e"
  ts_next :: nat
  ts_io :: "'k tcp_io"

definition tcp_server_new :: "'k platform \<Rightarrow> 'k \<Rightarrow> ('e, 'k) tcp_server" where
  "tcp_server_new P k =
     (let (created, s, io) = ps_create P \<lparr>tcp_kernel = k, tcp_log = [], tcp_posted = []\<rparr>
      in \<lparr>ts_listener = (if created then Some s else None), ts_endpoints = (\<lambda>_. None), ts_next = 0, ts_io = io\<rparr>)"

definition tcp_server_init :: "'k platform \<Rightarrow> 'k listening \<Rightarrow> sock_addr \<Rightarrow> ('e, 'k) tcp_server \<Rightarrow> bool \<times> ('e, 'k) tcp_server" where
  "tcp_server_init P Q addr w =
     (case ts_listener w of
        None \<Rightarrow> (False, w)
      | Some s \<Rightarrow>
          let (_, io1) = ps_set_option Q Reuse_Addr s (ts_io w);
              (_, io2) = ps_set_option Q Reuse_Port s io1;
              (bound, io3) = ps_bind P addr s io2
          in if \<not> bound then (False, w\<lparr>ts_io := io3\<rparr>)
             else let (ok, s', io4) = ps_listen Q 128 s io3
                  in (ok, w\<lparr>ts_listener := Some s', ts_io := io4\<rparr>))"

text \<open>\<open>Backend::CreateEndpoint\<close> of the two endpoint classes.\<close>

definition create_endpoint :: "('e, 'k) endpoint_class \<Rightarrow> int \<Rightarrow> ('e, 'k) tcp_server \<Rightarrow> ('e, 'k) tcp_server" where
  "create_endpoint C fd w =
     (let (e, io) = ep_new C (ts_next w) fd (ts_io w)
      in w\<lparr>ts_endpoints := (ts_endpoints w)(ts_next w \<mapsto> e), ts_next := ts_next w + 1, ts_io := io\<rparr>)"

text \<open>The loop ends when \<open>accept\<close> does; \<open>create\<close> is the virtual \<open>CreateEndpoint\<close>.\<close>

partial_function (option) accept_loop ::
  "'k listening \<Rightarrow> (int \<Rightarrow> ('e, 'k) tcp_server \<Rightarrow> ('e, 'k) tcp_server) \<Rightarrow> int \<Rightarrow> ('e, 'k) tcp_server \<Rightarrow> ('e, 'k) tcp_server option" where
  [code]: "accept_loop Q create fd w =
     (let (s, k) = sys_accept Q (tcp_kernel (ts_io w)) fd;
          w' = w\<lparr>ts_io := (ts_io w)\<lparr>tcp_kernel := k\<rparr>\<rparr>
      in if 0 \<le> s then accept_loop Q create fd (create s w') else Some w')"

definition listener_on_event ::
  "'k listening \<Rightarrow> (int \<Rightarrow> ('e, 'k) tcp_server \<Rightarrow> ('e, 'k) tcp_server) \<Rightarrow> 32 word \<Rightarrow> ('e, 'k) tcp_server \<Rightarrow> ('e, 'k) tcp_server option" where
  "listener_on_event Q create events w =
     (case ts_listener w of
        Some s \<Rightarrow> if ps_registered s \<noteq> None \<and> events AND EPOLLIN \<noteq> 0 then accept_loop Q create (ps_fd s) w else Some w
      | None \<Rightarrow> Some w)"

text \<open>An event of an endpoint that is not registered any more is ignored by the epoll server.\<close>

definition endpoint_on_event ::
  "('a tcp_endpoint_scheme, 'k) endpoint_class \<Rightarrow> nat \<Rightarrow> 32 word \<Rightarrow> ('a tcp_endpoint_scheme, 'k) tcp_server \<Rightarrow>
    ('a tcp_endpoint_scheme, 'k) tcp_server option" where
  "endpoint_on_event C j events w =
     (case ts_endpoints w j of
        Some e \<Rightarrow> if te_registered e = None then Some w
          else do {
            (e', io') \<leftarrow> ep_on_event C j events e (ts_io w);
            Some (w\<lparr>ts_endpoints := (ts_endpoints w)(j \<mapsto> e'), ts_io := io'\<rparr>)
          }
      | None \<Rightarrow> Some w)"

text \<open>The posted tasks: \<open>delete this\<close>, undefined for an object that does not exist.\<close>

fun delete_endpoints :: "nat list \<Rightarrow> (nat \<rightharpoonup> 'e) \<Rightarrow> (nat \<rightharpoonup> 'e) option" where
  "delete_endpoints [] es = Some es"
| "delete_endpoints (j # js) es = (if es j = None then None else delete_endpoints js (es(j := None)))"

definition tcp_execute_tasks :: "('e, 'k) tcp_server \<Rightarrow> ('e, 'k) tcp_server option" where
  "tcp_execute_tasks w = do {
     es \<leftarrow> delete_endpoints (tcp_posted (ts_io w)) (ts_endpoints w);
     Some (w\<lparr>ts_endpoints := es, ts_io := (ts_io w)\<lparr>tcp_posted := []\<rparr>\<rparr>)
   }"

datatype tcp_action = Listener_Event "32 word" | Endpoint_Event nat "32 word" | Run_Tcp_Tasks

fun tcp_handle :: "'k listening \<Rightarrow> ('a tcp_endpoint_scheme, 'k) endpoint_class \<Rightarrow> tcp_action \<Rightarrow>
    ('a tcp_endpoint_scheme, 'k) tcp_server \<Rightarrow> ('a tcp_endpoint_scheme, 'k) tcp_server option" where
  "tcp_handle Q C (Listener_Event m) w = listener_on_event Q (create_endpoint C) m w"
| "tcp_handle Q C (Endpoint_Event j m) w = endpoint_on_event C j m w"
| "tcp_handle Q C Run_Tcp_Tasks w = tcp_execute_tasks w"

text \<open>
  The end of the server: \<open>~TcpServer\<close> runs the tasks, the listening socket goes, \<open>~BaseContext\<close>
  runs the tasks again and its members are destroyed in reverse order: the task queue before
  the epoll server, whose destructor calls \<open>OnShutdown\<close> of what is still registered.  An endpoint that is
  not destroyed then posts its deletion to a queue that does not exist any more.
\<close>

definition tcp_server_destroy :: "'k platform \<Rightarrow> ('a tcp_endpoint_scheme, 'k) tcp_server \<Rightarrow> (nat \<rightharpoonup> 'a tcp_endpoint_scheme) option" where
  "tcp_server_destroy P w = do {
     w1 \<leftarrow> tcp_execute_tasks w;
     w2 \<leftarrow> tcp_execute_tasks (case ts_listener w1 of None \<Rightarrow> w1 | Some s \<Rightarrow> w1\<lparr>ts_listener := None, ts_io := ps_destroy P s (ts_io w1)\<rparr>);
     fatal_unless (\<forall>j < ts_next w2. case ts_endpoints w2 j of Some e \<Rightarrow> te_registered e = None \<or> te_destroyed e | None \<Rightarrow> True);
     Some (ts_endpoints w2)
   }"

end
