(* ===== verification/Tcp_Endpoints.thy ===== *)
theory Tcp_Endpoints
  imports Tcp_Server
begin

text \<open>
  What every server of \<open>tcp/tcp_handle.cc\<close> keeps true, proved once for all classes of endpoints that obey
  the contract \<open>tcp_endpoints\<close>, and the class \<open>MockEndpoint\<close>, which counts the bytes
  that it reads.
\<close>

section \<open>Invariants\<close>

definition endpoints_inv :: "('a tcp_endpoint_scheme, 'k) tcp_server \<Rightarrow> bool" where
  "endpoints_inv w \<longleftrightarrow> distinct (tcp_posted (ts_io w)) \<and>
     (\<forall>j. j \<in> set (tcp_posted (ts_io w)) \<longleftrightarrow> (\<exists>e. ts_endpoints w j = Some e \<and> te_destroyed e)) \<and>
     (\<forall>j e. ts_endpoints w j = Some e \<longrightarrow> endpoint_inv e \<and> j < ts_next w)"

lemma accept_loop_invariant:
  assumes run: "accept_loop Q create fd w = Some w'" and start: "I w"
    and create: "\<And>s w. I w \<Longrightarrow> 0 \<le> s \<Longrightarrow> I (create s w)" and kernel: "\<And>k w. I w \<Longrightarrow> I (w\<lparr>ts_io := (ts_io w)\<lparr>tcp_kernel := k\<rparr>\<rparr>)"
  shows "I w'"
proof -
  have "create = create \<longrightarrow> I w \<longrightarrow> I w'"
  proof (rule accept_loop.raw_induct [where P = "\<lambda>Q' c fd' w w'. c = create \<longrightarrow> I w \<longrightarrow> I w'", OF _ run], intro impI)
    fix loop Q' c fd' and w w' :: "('a, 'b) tcp_server"
    assume IH: "\<And>Q' c fd' w w'. loop Q' c fd' w = Some w' \<Longrightarrow> c = create \<longrightarrow> I w \<longrightarrow> I w'"
      and body: "(let (s, k) = sys_accept Q' (tcp_kernel (ts_io w)) fd';
            w' = w\<lparr>ts_io := (ts_io w)\<lparr>tcp_kernel := k\<rparr>\<rparr>
          in if 0 \<le> s then loop Q' c fd' (c s w') else Some w') = Some w'"
      and c: "c = create" and inv: "I w"
    obtain s k where acc: "sys_accept Q' (tcp_kernel (ts_io w)) fd' = (s, k)" by fastforce
    let ?w = "w\<lparr>ts_io := (ts_io w)\<lparr>tcp_kernel := k\<rparr>\<rparr>"
    have "I ?w" using kernel [OF inv] .
    then show "I w'" using body acc c IH [of Q' c fd' "c s ?w" w'] create [of ?w s]
      by (cases "0 \<le> s") (simp_all add: Let_def)
  qed
  then show ?thesis using start by simp
qed

text \<open>With finitely many connections waiting, the loop accepts each of them.\<close>

inductive accepts :: "'k listening \<Rightarrow> int \<Rightarrow> 'k \<Rightarrow> int list \<Rightarrow> bool" for Q fd where
  accepts_none: "sys_accept Q k fd = (s, k') \<Longrightarrow> s < 0 \<Longrightarrow> accepts Q fd k []"
| accepts_one: "sys_accept Q k fd = (s, k') \<Longrightarrow> 0 \<le> s \<Longrightarrow> accepts Q fd k' ss \<Longrightarrow> accepts Q fd k (s # ss)"

text \<open>Deleting exactly the posted objects.\<close>

lemma delete_endpoints_eq:
  "distinct js \<Longrightarrow> \<forall>j \<in> set js. es j \<noteq> None \<Longrightarrow> delete_endpoints js es = Some (\<lambda>j. if j \<in> set js then None else es j)"
proof (induction js arbitrary: es)
  case (Cons j js)
  have "\<forall>i \<in> set js. (es(j := None)) i \<noteq> None" using Cons.prems by auto
  then show ?case using Cons by (auto simp: fun_eq_iff)
qed simp

lemma tcp_execute_tasks_eq:
  assumes "endpoints_inv w"
  shows "tcp_execute_tasks w = Some (w\<lparr>ts_endpoints := (\<lambda>j. if j \<in> set (tcp_posted (ts_io w)) then None else ts_endpoints w j),
    ts_io := (ts_io w)\<lparr>tcp_posted := []\<rparr>\<rparr>)"
proof -
  have "\<forall>j \<in> set (tcp_posted (ts_io w)). ts_endpoints w j \<noteq> None" "distinct (tcp_posted (ts_io w))"
    using assms by (auto simp: endpoints_inv_def)
  then show ?thesis by (simp add: tcp_execute_tasks_def delete_endpoints_eq)
qed

lemma tcp_execute_tasks_inv: "endpoints_inv w \<Longrightarrow> tcp_execute_tasks w = Some w' \<Longrightarrow> endpoints_inv w'"
  by (subst (asm) tcp_execute_tasks_eq) (auto simp: endpoints_inv_def split: if_splits)

section \<open>The contract of an endpoint class\<close>

locale tcp_endpoints =
  fixes C :: "('a tcp_endpoint_scheme, 'k) endpoint_class"
  assumes new_live: "ep_new C self fd io = (e, io') \<Longrightarrow>
      te_fd e = fd \<and> te_registered e = Some fd \<and> \<not> te_destroyed e \<and> tcp_posted io' = tcp_posted io"
    and event_step: "ep_on_event C self m e io = Some (e', io') \<Longrightarrow> endpoint_step self e io e' io'"
begin

lemma create_inv:
  assumes inv: "endpoints_inv w" and fd: "0 \<le> fd"
  shows "endpoints_inv (create_endpoint C fd w)"
proof -
  obtain e io where new: "ep_new C (ts_next w) fd (ts_io w) = (e, io)" by fastforce
  have "ts_endpoints w (ts_next w) = None" using inv unfolding endpoints_inv_def by (metis less_irrefl not_Some_eq)
  then show ?thesis using inv new_live [OF new] fd
    by (auto simp: create_endpoint_def new endpoints_inv_def endpoint_inv_def less_Suc_eq)
qed

lemma listener_inv:
  assumes run: "listener_on_event Q (create_endpoint C) m w = Some w'" and inv: "endpoints_inv w"
  shows "endpoints_inv w'"
proof -
  have kernel: "endpoints_inv (w\<lparr>ts_io := (ts_io w)\<lparr>tcp_kernel := k\<rparr>\<rparr>)" if "endpoints_inv w" for k and w :: "('a tcp_endpoint_scheme, 'k) tcp_server"
    using that by (simp add: endpoints_inv_def)
  have loop: "endpoints_inv w'" if "accept_loop Q (create_endpoint C) fd w = Some w'" for fd
    using that inv by (rule accept_loop_invariant) (simp_all add: create_inv kernel)
  from run show ?thesis unfolding listener_on_event_def
    by (cases "ts_listener w") (use inv in \<open>auto simp: loop split: if_splits\<close>)
qed

lemma event_inv:
  assumes run: "endpoint_on_event C j m w = Some w'" and inv: "endpoints_inv w"
  shows "endpoints_inv w'"
proof -
  consider "w' = w" | e e' io' where "ts_endpoints w j = Some e" "te_registered e \<noteq> None" "ep_on_event C j m e (ts_io w) = Some (e', io')"
      "w' = w\<lparr>ts_endpoints := (ts_endpoints w)(j \<mapsto> e'), ts_io := io'\<rparr>"
  proof (cases "ts_endpoints w j")
    case None
    then show ?thesis using run that(1) by (simp add: endpoint_on_event_def)
  next
    case (Some e)
    show ?thesis
    proof (cases "te_registered e = None \<or> ep_on_event C j m e (ts_io w) = None")
      case True
      then show ?thesis using run Some that(1) by (auto simp: endpoint_on_event_def split: if_splits)
    next
      case False
      then show ?thesis using run Some that(2) by (auto simp: endpoint_on_event_def)
    qed
  qed
  then show ?thesis
  proof cases
    case 1
    then show ?thesis using inv by simp
  next
    case 2
    have e: "endpoint_inv e" "j < ts_next w" "j \<in> set (tcp_posted (ts_io w)) \<longleftrightarrow> te_destroyed e"
      using inv 2(1) by (auto simp: endpoints_inv_def)
    then have live: "\<not> te_destroyed e" using 2(2) by (auto simp: endpoint_inv_def)
    have step: "endpoint_inv e'" "tcp_posted io' = (if te_destroyed e' then tcp_posted (ts_io w) @ [j] else tcp_posted (ts_io w))"
      using event_step [OF 2(3)] e(1) live by (auto simp: endpoint_step_def split: if_splits)
    show ?thesis using inv e live step by (auto simp: 2(4) endpoints_inv_def)
  qed
qed

lemma handle_inv: "tcp_handle Q C a w = Some w' \<Longrightarrow> endpoints_inv w \<Longrightarrow> endpoints_inv w'"
  by (cases a) (auto intro: listener_inv event_inv tcp_execute_tasks_inv)

text \<open>Ending the server is defined exactly when no endpoint is alive any more.\<close>

lemma destroy_live:
  assumes inv: "endpoints_inv w"
  shows "tcp_server_destroy P w = (if \<exists>j e. ts_endpoints w j = Some e \<and> \<not> te_destroyed e then None else Some (\<lambda>_. None))"
proof -
  define es where "es = (\<lambda>j. if j \<in> set (tcp_posted (ts_io w)) then None else ts_endpoints w j)"
  define w1 where "w1 = w\<lparr>ts_endpoints := es, ts_io := (ts_io w)\<lparr>tcp_posted := []\<rparr>\<rparr>"
  define w2 where "w2 = (case ts_listener w1 of None \<Rightarrow> w1 | Some s \<Rightarrow> w1\<lparr>ts_listener := None, ts_io := ps_destroy P s (ts_io w1)\<rparr>)"
  have run1: "tcp_execute_tasks w = Some w1" using tcp_execute_tasks_eq [OF inv] by (simp add: w1_def es_def)
  have posted: "tcp_posted (ps_destroy P s io) = tcp_posted io" for s io
    by (simp add: ps_destroy_def ps_close_def)
  have w2: "ts_endpoints w2 = es" "ts_next w2 = ts_next w" "tcp_posted (ts_io w2) = []"
    by (auto simp: w2_def w1_def posted split: option.splits)
  have run2: "tcp_execute_tasks w2 = Some (w2\<lparr>ts_io := (ts_io w2)\<lparr>tcp_posted := []\<rparr>\<rparr>)"
    using w2(3) by (simp add: tcp_execute_tasks_def)
  have es: "es j = Some e \<longleftrightarrow> ts_endpoints w j = Some e \<and> \<not> te_destroyed e" for j e
    using inv by (auto simp: es_def endpoints_inv_def)
  have live: "te_registered e \<noteq> None \<and> j < ts_next w" if "es j = Some e" for j e
    using that inv unfolding es endpoints_inv_def endpoint_inv_def by (metis option.distinct(1))
  have check: "(\<forall>j < ts_next w. case es j of Some e \<Rightarrow> te_registered e = None \<or> te_destroyed e | None \<Rightarrow> True) \<longleftrightarrow>
      \<not> (\<exists>j e. ts_endpoints w j = Some e \<and> \<not> te_destroyed e)"
    (is "?all \<longleftrightarrow> _")
  proof
    assume all: ?all
    have "te_destroyed e" if "ts_endpoints w j = Some e" for j e
    proof (rule ccontr)
      assume "\<not> te_destroyed e"
      with that have "es j = Some e" by (simp add: es)
      with all live [OF this] \<open>\<not> te_destroyed e\<close> show False by auto
    qed
    then show "\<not> (\<exists>j e. ts_endpoints w j = Some e \<and> \<not> te_destroyed e)" by blast
  next
    assume "\<not> (\<exists>j e. ts_endpoints w j = Some e \<and> \<not> te_destroyed e)"
    then have "es j \<noteq> Some e" for j e by (auto simp: es)
    then show ?all by (simp split: option.split)
  qed
  have none: "es = (\<lambda>_. None)" if "\<not> (\<exists>j e. ts_endpoints w j = Some e \<and> \<not> te_destroyed e)"
    using that by (auto simp: fun_eq_iff es [symmetric] not_Some_eq [symmetric] simp del: not_Some_eq)
  show ?thesis unfolding tcp_server_destroy_def run1 Option.bind.simps w2_def [symmetric] run2
    using check none w2 by auto
qed

end

text \<open>The states of a server, from the start on; between two events the kernel may change.\<close>

inductive tcp_reachable :: "'k platform \<Rightarrow> 'k listening \<Rightarrow> ('a tcp_endpoint_scheme, 'k) endpoint_class \<Rightarrow>
    ('a tcp_endpoint_scheme, 'k) tcp_server \<Rightarrow> bool" for P Q C where
  tcp_reach_start: "tcp_server_init P Q addr (tcp_server_new P k) = (True, w) \<Longrightarrow> tcp_reachable P Q C w"
| tcp_reach_step: "tcp_reachable P Q C w \<Longrightarrow> tcp_handle Q C a w = Some w' \<Longrightarrow> tcp_reachable P Q C w'"
| tcp_reach_kernel: "tcp_reachable P Q C w \<Longrightarrow> tcp_reachable P Q C (w\<lparr>ts_io := (ts_io w)\<lparr>tcp_kernel := k\<rparr>\<rparr>)"

lemma tcp_server_start_inv: "tcp_server_init P Q addr (tcp_server_new P k) = (b, w) \<Longrightarrow> endpoints_inv w"
  by (auto simp: tcp_server_init_def tcp_server_new_def ps_create_def ps_set_option_def ps_bind_def ps_listen_def
      endpoints_inv_def Let_def split: prod.splits if_splits)

context tcp_endpoints
begin

lemma tcp_reachable_inv: "tcp_reachable P Q C w \<Longrightarrow> endpoints_inv w"
  by (induction rule: tcp_reachable.induct) (auto dest: tcp_server_start_inv handle_inv simp: endpoints_inv_def)

end

section \<open>\<open>MockEndpoint\<close>\<close>

record mock_endpoint = tcp_endpoint +
  me_id :: nat
  me_recv_bytes :: int

text \<open>\<open>MockBackend\<close> numbers its endpoints in the order of their creation.\<close>

definition mock_new :: "nat \<Rightarrow> int \<Rightarrow> 'k tcp_io \<Rightarrow> mock_endpoint \<times> 'k tcp_io" where
  "mock_new self fd io =
     (\<lparr>te_fd = fd, te_registered = Some fd, te_destroyed = False, me_id = self, me_recv_bytes = 0\<rparr>,
      tcp_event (Register_Fd fd (EPOLLIN OR EPOLLET)) io)"

partial_function (option) mock_read_loop ::
  "'k platform \<Rightarrow> nat \<Rightarrow> int \<Rightarrow> mock_endpoint \<Rightarrow> 'k tcp_io \<Rightarrow> (mock_endpoint \<times> 'k tcp_io) option" where
  [code]: "mock_read_loop P self fd e io =
     (case sys_read P (tcp_kernel io) fd kBufferSize of
        (None, k) \<Rightarrow> Some (e, io\<lparr>tcp_kernel := k\<rparr>)
      | (Some d, k) \<Rightarrow>
          if d = [] then
            let (e', io') = endpoint_unregister P self e (io\<lparr>tcp_kernel := k\<rparr>)
            in mock_read_loop P self fd e' io'
          else mock_read_loop P self fd (e\<lparr>me_recv_bytes := me_recv_bytes e + int (length d)\<rparr>) (io\<lparr>tcp_kernel := k\<rparr>))"

definition mock_on_event :: "'k platform \<Rightarrow> nat \<Rightarrow> 32 word \<Rightarrow> mock_endpoint \<Rightarrow> 'k tcp_io \<Rightarrow> (mock_endpoint \<times> 'k tcp_io) option" where
  "mock_on_event P self events e io =
     (if events AND EPOLLIN \<noteq> 0 then mock_read_loop P self (te_fd e) e io else Some (e, io))"

definition mock_class :: "'k platform \<Rightarrow> (mock_endpoint, 'k) endpoint_class" where
  "mock_class P = \<lparr>ep_new = mock_new, ep_on_event = mock_on_event P\<rparr>"

lemma mock_read_loop_step:
  assumes run: "mock_read_loop P self fd e io = Some (e', io')"
  shows "endpoint_step self e io e' io'"
proof -
  have "endpoint_step self e io (fst (e', io')) (snd (e', io'))"
  proof (rule mock_read_loop.raw_induct [where Pa = "\<lambda>((((P, self), fd), e), io) r. endpoint_step self e io (fst r) (snd r)",
        unfolded prod.case, OF _ run])
    fix loop P self fd and e :: mock_endpoint and io :: "'a tcp_io" and r
    assume IH: "\<And>P self fd (e :: mock_endpoint) io r. loop P self fd e io = Some r \<Longrightarrow> endpoint_step self e io (fst r) (snd r)"
      and body: "(case sys_read P (tcp_kernel io) fd kBufferSize of
        (None, k) \<Rightarrow> Some (e, io\<lparr>tcp_kernel := k\<rparr>)
      | (Some d, k) \<Rightarrow>
          if d = [] then
            let (e', io') = endpoint_unregister P self e (io\<lparr>tcp_kernel := k\<rparr>)
            in loop P self fd e' io'
          else loop P self fd (e\<lparr>me_recv_bytes := me_recv_bytes e + int (length d)\<rparr>) (io\<lparr>tcp_kernel := k\<rparr>)) = Some r"
    have same: "endpoint_step self e io e1 (io\<lparr>tcp_kernel := k\<rparr>)"
      if "te_fd e1 = te_fd e" "te_registered e1 = te_registered e" "te_destroyed e1 = te_destroyed e" for k and e1 :: mock_endpoint
      using that by (intro endpoint_step_refl) simp_all
    have gone: "endpoint_step self e io e1 io1" if "endpoint_unregister P self e (io\<lparr>tcp_kernel := k\<rparr>) = (e1, io1)" for k e1 io1
      using endpoint_step_trans [OF same endpoint_unregister_step [OF that]] by simp
    obtain d k where read: "sys_read P (tcp_kernel io) fd kBufferSize = (d, k)" by fastforce
    consider "d = None" | "d = Some []" | bytes where "d = Some bytes" "bytes \<noteq> []" by (cases d) auto
    then show "endpoint_step self e io (fst r) (snd r)"
    proof cases
      case 1
      then show ?thesis using body read by (auto intro: same)
    next
      case 2
      obtain e1 io1 where gone1: "endpoint_unregister P self e (io\<lparr>tcp_kernel := k\<rparr>) = (e1, io1)" by fastforce
      then have "loop P self fd e1 io1 = Some r" using body read 2 by simp
      from endpoint_step_trans [OF gone [OF gone1] IH [OF this]] show ?thesis .
    next
      case 3
      let ?e = "e\<lparr>me_recv_bytes := me_recv_bytes e + int (length bytes)\<rparr>"
      have "loop P self fd ?e (io\<lparr>tcp_kernel := k\<rparr>) = Some r" using body read 3 by simp
      from endpoint_step_trans [OF same IH [OF this]] show ?thesis by simp
    qed
  qed
  then show ?thesis by simp
qed

interpretation mock: tcp_endpoints "mock_class P" for P :: "'k platform"
  by unfold_locales
    (auto simp: mock_class_def mock_new_def mock_on_event_def endpoint_step_refl split: if_splits intro: mock_read_loop_step)

text \<open>Reading to the end: every byte is counted, and at the end of the stream the endpoint goes.\<close>

lemma registered_live: "endpoint_inv e \<Longrightarrow> te_registered e = Some fd \<Longrightarrow> \<not> te_destroyed e \<and> te_fd e = fd"
  by (cases "te_destroyed e") (simp_all add: endpoint_inv_def)

lemma mock_read_loop_counts:
  assumes reads: "reads P fd kBufferSize k ds eof k'" and closed: "closed_fails P"
  shows "tcp_kernel io = k \<Longrightarrow> endpoint_inv e \<Longrightarrow> te_registered e = Some fd \<Longrightarrow> 0 < fd \<Longrightarrow>
    \<exists>e' io'. mock_read_loop P self fd e io = Some (e', io') \<and> me_recv_bytes e' = me_recv_bytes e + int (length (concat ds)) \<and>
      te_destroyed e' = eof \<and> te_fd e' = (if eof then - 1 else fd)"
  using reads
proof (induction arbitrary: e io rule: reads.induct)
  case (reads_block k k')
  then show ?case using registered_live [OF reads_block.prems(2,3)] by (subst mock_read_loop.simps) auto
next
  case (reads_eof k k')
  note e = registered_live [OF reads_eof.prems(2,3)]
  obtain k2 where "sys_read P (sys_close P k' fd) fd kBufferSize = (None, k2)"
    using closed unfolding closed_fails_def by (metis prod.collapse)
  then show ?case using reads_eof e
    apply (subst mock_read_loop.simps)
    apply (simp add: endpoint_unregister_def endpoint_on_unregistration_def endpoint_close_def endpoint_delete_self_def)
    apply (subst mock_read_loop.simps)
    apply simp
    done
next
  case (reads_data k d k1 ds eof k')
  let ?e = "e\<lparr>me_recv_bytes := me_recv_bytes e + int (length d)\<rparr>"
  have "tcp_kernel (io\<lparr>tcp_kernel := k1\<rparr>) = k1" "endpoint_inv ?e" "te_registered ?e = Some fd"
    using reads_data.prems registered_live [OF reads_data.prems(2,3)] by (simp_all add: endpoint_inv_def)
  from reads_data.IH [OF this reads_data.prems(4)] show ?case
    using reads_data.hyps(1,2) reads_data.prems(1) by (subst mock_read_loop.simps) (auto simp: add.assoc)
qed

end
