(* ===== verification/Dash_Server.thy ===== *)
theory Dash_Server
  imports Tcp_Endpoints Codec_Laws
begin

text \<open>
  The DASH server (\<open>dash/dash_server.h\<close>, \<open>dash/dash_server.cc\<close>): an endpoint of the
  listening server that answers each request with as many bytes as the request asks for.
  The contents of the answer are whatever the stack holds: the parameter \<open>stack\<close>.
  \<open>None\<close> is undefined behaviour, or a loop that never returns.
\<close>

section \<open>State\<close>

definition DASH_REQ :: "8 word" where "DASH_REQ = 0"

record dash_endpoint = tcp_endpoint +
  sent_bytes :: int
  request_bytes :: "int list"
  request_counter :: int

definition dash_new :: "nat \<Rightarrow> int \<Rightarrow> 'k tcp_io \<Rightarrow> dash_endpoint \<times> 'k tcp_io" where
  "dash_new self fd io =
     (\<lparr>te_fd = fd, te_registered = Some fd, te_destroyed = False, sent_bytes = 0, request_bytes = [], request_counter = 0\<rparr>,
      tcp_event (Register_Fd fd (EPOLLIN OR EPOLLET)) io)"

section \<open>Answering\<close>

text \<open>The conversion of an \<open>int\<close> to \<open>uint32_t\<close>.\<close>

definition to_uint32 :: "int \<Rightarrow> int" where
  "to_uint32 i = i mod 2 ^ 32"

text \<open>
  The inner loop: \<open>bytes\<close> is a \<open>uint32_t\<close>, with which \<open>sent_bytes_\<close> is compared as unsigned.  A length that
  is negative as \<open>int\<close> would be handed to \<open>write\<close> as a huge \<open>size_t\<close>.
\<close>

partial_function (option) response_write ::
  "'k platform \<Rightarrow> byte list \<Rightarrow> int \<Rightarrow> dash_endpoint \<Rightarrow> 'k tcp_io \<Rightarrow> (bool \<times> dash_endpoint \<times> 'k tcp_io) option" where
  [code]: "response_write P buffer bytes e io =
     (if to_uint32 (sent_bytes e) < bytes then
        let intend = min (int kBufferSize) (to_int32 (to_uint32 (bytes - to_uint32 (sent_bytes e))))
        in if intend < 0 then None
           else
             let (sent, k) = sys_send P (tcp_kernel io) (te_fd e) (take (nat intend) buffer);
                 io' = io\<lparr>tcp_kernel := k\<rparr>
             in if sent < 0 then Some (True, e, io')
                else response_write P buffer bytes (e\<lparr>sent_bytes := sent_bytes e + sent\<rparr>)
                  (tcp_event (Send (te_fd e) (take (nat sent) (take (nat intend) buffer))) io')
      else Some (False, e, io))"

partial_function (option) response_loop ::
  "'k platform \<Rightarrow> ('k \<Rightarrow> byte list) \<Rightarrow> nat \<Rightarrow> dash_endpoint \<Rightarrow> 'k tcp_io \<Rightarrow> (dash_endpoint \<times> 'k tcp_io) option" where
  [code]: "response_loop P stack num e io =
     (if 0 < num then
        case request_bytes e of
          [] \<Rightarrow> None
        | front # rest \<Rightarrow> do {
            let bytes = to_uint32 front;
            (full, e1, io1) \<leftarrow> response_write P (stack (tcp_kernel io)) bytes e io;
            let (num', e2, io2) =
              (if to_uint32 (sent_bytes e1) = bytes
               then (num - 1, e1\<lparr>request_bytes := rest, sent_bytes := 0\<rparr>,
                     if num - 1 = 0 then endpoint_modify e1 (te_fd e1) EPOLLIN io1 else io1)
               else (num, e1, io1));
            if full then Some (e2, io2) else response_loop P stack num' e2 io2
          }
      else Some (e, io))"

definition responce :: "'k platform \<Rightarrow> ('k \<Rightarrow> byte list) \<Rightarrow> dash_endpoint \<Rightarrow> 'k tcp_io \<Rightarrow> (dash_endpoint \<times> 'k tcp_io) option" where
  "responce P stack e io = response_loop P stack (length (request_bytes e)) e io"

section \<open>Reading\<close>

text \<open>What one read is: a request, or something that is ignored.\<close>

definition parse_request :: "byte list \<Rightarrow> int option" where
  "parse_request data =
     (let (kind, reader) = read_uint8 (reader_new data (length data))
      in if kind = Some DASH_REQ
         then (case read_uint32 reader of (Some n, _) \<Rightarrow> Some (to_int32 (uint n)) | (None, _) \<Rightarrow> None)
         else None)"

definition dash_data :: "'k platform \<Rightarrow> ('k \<Rightarrow> byte list) \<Rightarrow> int \<Rightarrow> byte list \<Rightarrow> dash_endpoint \<Rightarrow> 'k tcp_io \<Rightarrow> (dash_endpoint \<times> 'k tcp_io) option" where
  "dash_data P stack fd data e io =
     (case parse_request data of
        None \<Rightarrow> Some (e, io)
      | Some n \<Rightarrow>
          responce P stack (e\<lparr>request_counter := request_counter e + 1, request_bytes := request_bytes e @ [n]\<rparr>)
            (endpoint_modify e fd (EPOLLIN OR EPOLLOUT) io))"

partial_function (option) dash_read_loop ::
  "'k platform \<Rightarrow> ('k \<Rightarrow> byte list) \<Rightarrow> nat \<Rightarrow> int \<Rightarrow> dash_endpoint \<Rightarrow> 'k tcp_io \<Rightarrow> (dash_endpoint \<times> 'k tcp_io) option" where
  [code]: "dash_read_loop P stack self fd e io =
     (case sys_read P (tcp_kernel io) fd kBufferSize of
        (None, k) \<Rightarrow> Some (e, io\<lparr>tcp_kernel := k\<rparr>)
      | (Some d, k) \<Rightarrow>
          if d = [] then
            let (e', io') = endpoint_unregister P self e (io\<lparr>tcp_kernel := k\<rparr>)
            in dash_read_loop P stack self fd e' io'
          else do {
            (e', io') \<leftarrow> dash_data P stack fd d e (io\<lparr>tcp_kernel := k\<rparr>);
            dash_read_loop P stack self fd e' io'
          })"

definition dash_on_event ::
  "'k platform \<Rightarrow> ('k \<Rightarrow> byte list) \<Rightarrow> nat \<Rightarrow> 32 word \<Rightarrow> dash_endpoint \<Rightarrow> 'k tcp_io \<Rightarrow> (dash_endpoint \<times> 'k tcp_io) option" where
  "dash_on_event P stack self events e io = do {
     (e1, io1) \<leftarrow> (if events AND EPOLLIN \<noteq> 0 then dash_read_loop P stack self (te_fd e) e io else Some (e, io));
     if events AND EPOLLOUT \<noteq> 0 then responce P stack e1 io1 else Some (e1, io1)
   }"

definition dash_class :: "'k platform \<Rightarrow> ('k \<Rightarrow> byte list) \<Rightarrow> (dash_endpoint, 'k) endpoint_class" where
  "dash_class P stack = \<lparr>ep_new = dash_new, ep_on_event = dash_on_event P stack\<rparr>"

section \<open>What answering does to the endpoint\<close>

text \<open>It changes the two counters and the queue, and posts nothing.\<close>

definition answers :: "dash_endpoint \<Rightarrow> 'k tcp_io \<Rightarrow> dash_endpoint \<Rightarrow> 'k tcp_io \<Rightarrow> bool" where
  "answers e io e' io' \<longleftrightarrow> e' = e\<lparr>sent_bytes := sent_bytes e', request_bytes := request_bytes e'\<rparr> \<and>
     tcp_posted io' = tcp_posted io"

lemma answers_refl: "tcp_posted io' = tcp_posted io \<Longrightarrow> answers e io e io'"
  by (simp add: answers_def)

lemma answers_trans:
  assumes "answers e io e1 io1" "answers e1 io1 e2 io2"
  shows "answers e io e2 io2"
proof -
  from assms(1) obtain s r where e1: "e1 = e\<lparr>sent_bytes := s, request_bytes := r\<rparr>" unfolding answers_def by blast
  from assms(2) obtain s' r' where e2: "e2 = e1\<lparr>sent_bytes := s', request_bytes := r'\<rparr>" unfolding answers_def by blast
  show ?thesis using assms by (simp add: answers_def e1 e2)
qed

lemma answers_step: "answers e io e' io' \<Longrightarrow> endpoint_step self e io e' io'"
  unfolding answers_def by (elim conjE, rule endpoint_step_refl) (assumption, (erule ssubst, simp)+)

lemma response_write_answers:
  "response_write P buffer bytes e io = Some (full, e', io') \<Longrightarrow> answers e io e' io'"
proof -
  assume run: "response_write P buffer bytes e io = Some (full, e', io')"
  have "answers e io (fst (snd (full, e', io'))) (snd (snd (full, e', io')))"
  proof (rule response_write.raw_induct [where Pa = "\<lambda>((((P, b), n), e), io) r. answers e io (fst (snd r)) (snd (snd r))",
        unfolded prod.case, OF _ run])
    fix loop P buffer bytes e and io :: "'a tcp_io" and r
    assume IH: "\<And>P buffer bytes e io r. loop P buffer bytes e io = Some r \<Longrightarrow> answers e io (fst (snd r)) (snd (snd r))"
      and body: "(if to_uint32 (sent_bytes e) < bytes then
        let intend = min (int kBufferSize) (to_int32 (to_uint32 (bytes - to_uint32 (sent_bytes e))))
        in if intend < 0 then None
           else
             let (sent, k) = sys_send P (tcp_kernel io) (te_fd e) (take (nat intend) buffer);
                 io' = io\<lparr>tcp_kernel := k\<rparr>
             in if sent < 0 then Some (True, e, io')
                else loop P buffer bytes (e\<lparr>sent_bytes := sent_bytes e + sent\<rparr>)
                  (tcp_event (Send (te_fd e) (take (nat sent) (take (nat intend) buffer))) io')
      else Some (False, e, io)) = Some r"
    have more: "answers e io (e\<lparr>sent_bytes := n\<rparr>) (tcp_event ev (io\<lparr>tcp_kernel := k\<rparr>))" for n ev k
      by (simp add: answers_def)
    show "answers e io (fst (snd r)) (snd (snd r))"
      using body
      by (auto simp: Let_def answers_refl split: if_splits prod.splits dest!: IH intro: answers_trans [OF more])
  qed
  then show ?thesis by simp
qed

lemma response_loop_answers:
  "response_loop P stack num e io = Some (e', io') \<Longrightarrow> answers e io e' io'"
proof -
  assume run: "response_loop P stack num e io = Some (e', io')"
  have "answers e io (fst (e', io')) (snd (e', io'))"
  proof (rule response_loop.raw_induct [where Pa = "\<lambda>((((P, s), n), e), io) r. answers e io (fst r) (snd r)",
        unfolded prod.case, OF _ run])
    fix loop P and num :: nat and e and stack :: "'a \<Rightarrow> byte list" and io :: "'a tcp_io" and r
    assume IH: "\<And>P stack num e io r. loop P stack num e io = Some r \<Longrightarrow> answers e io (fst r) (snd r)"
      and body: "(if 0 < num then
        case request_bytes e of
          [] \<Rightarrow> None
        | front # rest \<Rightarrow>
            (let bytes = to_uint32 front in
            Option.bind (response_write P (stack (tcp_kernel io)) bytes e io) (\<lambda>(full, e1, io1).
            let (num', e2, io2) =
              (if to_uint32 (sent_bytes e1) = bytes
               then (num - 1, e1\<lparr>request_bytes := rest, sent_bytes := 0\<rparr>,
                     if num - 1 = 0 then endpoint_modify e1 (te_fd e1) EPOLLIN io1 else io1)
               else (num, e1, io1))
            in if full then Some (e2, io2) else loop P stack num' e2 io2))
      else Some (e, io)) = Some r"
    show "answers e io (fst r) (snd r)"
    proof (cases "num = 0")
      case True
      then have "r = (e, io)" using body by (simp only: less_irrefl if_False option.inject)
      then show ?thesis by (simp add: answers_refl)
    next
      case False
      then obtain front rest full e1 io1 where f: "request_bytes e = front # rest"
        and w: "response_write P (stack (tcp_kernel io)) (to_uint32 front) e io = Some (full, e1, io1)"
        using body by (auto simp: Let_def split: list.splits bind_splits split del: if_split)
      obtain n e2 io2 where step: "(if to_uint32 (sent_bytes e1) = to_uint32 front
               then (num - 1, e1\<lparr>request_bytes := rest, sent_bytes := 0\<rparr>,
                     if num - 1 = 0 then endpoint_modify e1 (te_fd e1) EPOLLIN io1 else io1)
               else (num, e1, io1)) = (n, e2, io2)" by (metis prod_cases3)
      then have "answers e1 io1 e2 io2" by (auto simp: answers_def split: if_splits)
      with response_write_answers [OF w] have a: "answers e io e2 io2" by (rule answers_trans)
      have "(if full then Some (e2, io2) else loop P stack n e2 io2) = Some r"
        using body False f w step by (simp add: Let_def)
      then show ?thesis using a by (auto split: if_splits dest!: IH intro: answers_trans)
    qed
  qed
  then show ?thesis by simp
qed

lemma dash_data_answers:
  assumes run: "dash_data P stack fd d e io = Some (e', io')"
  shows "endpoint_step self e io e' io'"
proof (cases "parse_request d")
  case None
  then show ?thesis using run by (simp add: dash_data_def endpoint_step_refl)
next
  case (Some n)
  let ?e = "e\<lparr>request_counter := request_counter e + 1, request_bytes := request_bytes e @ [n]\<rparr>"
  have "answers ?e (endpoint_modify e fd (EPOLLIN OR EPOLLOUT) io) e' io'"
    using run Some by (auto simp: dash_data_def responce_def dest: response_loop_answers)
  from answers_step [OF this] have "endpoint_step self ?e (endpoint_modify e fd (EPOLLIN OR EPOLLOUT) io) e' io'" .
  moreover have "endpoint_step self e io ?e (endpoint_modify e fd (EPOLLIN OR EPOLLOUT) io)"
    by (rule endpoint_step_refl) simp_all
  ultimately show ?thesis by (rule endpoint_step_trans [rotated])
qed

lemma dash_read_loop_step:
  assumes run: "dash_read_loop P stack self fd e io = Some (e', io')"
  shows "endpoint_step self e io e' io'"
proof -
  have "endpoint_step self e io (fst (e', io')) (snd (e', io'))"
  proof (rule dash_read_loop.raw_induct [where Pa = "\<lambda>(((((P, s), self), fd), e), io) r. endpoint_step self e io (fst r) (snd r)",
        unfolded prod.case, OF _ run])
    fix loop P self fd e and stack :: "'a \<Rightarrow> byte list" and io :: "'a tcp_io" and r
    assume IH: "\<And>P stack self fd e io r. loop P stack self fd e io = Some r \<Longrightarrow> endpoint_step self e io (fst r) (snd r)"
      and body: "(case sys_read P (tcp_kernel io) fd kBufferSize of
        (None, k) \<Rightarrow> Some (e, io\<lparr>tcp_kernel := k\<rparr>)
      | (Some d, k) \<Rightarrow>
          if d = [] then
            let (e', io') = endpoint_unregister P self e (io\<lparr>tcp_kernel := k\<rparr>)
            in loop P stack self fd e' io'
          else Option.bind (dash_data P stack fd d e (io\<lparr>tcp_kernel := k\<rparr>)) (\<lambda>(e', io'). loop P stack self fd e' io')) = Some r"
    have same: "endpoint_step self e io e (io\<lparr>tcp_kernel := k\<rparr>)" for k by (rule endpoint_step_refl) simp_all
    obtain d k where read: "sys_read P (tcp_kernel io) fd kBufferSize = (d, k)" by fastforce
    consider "d = None" | "d = Some []" | bytes where "d = Some bytes" "bytes \<noteq> []" by (cases d) auto
    then show "endpoint_step self e io (fst r) (snd r)"
    proof cases
      case 1
      then show ?thesis using body read same by auto
    next
      case 2
      obtain e1 io1 where u: "endpoint_unregister P self e (io\<lparr>tcp_kernel := k\<rparr>) = (e1, io1)" by fastforce
      then have "loop P stack self fd e1 io1 = Some r" using body read 2 by simp
      from endpoint_step_trans [OF endpoint_step_trans [OF same endpoint_unregister_step [OF u]] IH [OF this]] show ?thesis .
    next
      case 3
      then obtain e1 io1 where u: "dash_data P stack fd bytes e (io\<lparr>tcp_kernel := k\<rparr>) = Some (e1, io1)"
        and "loop P stack self fd e1 io1 = Some r" using body read by (auto split: bind_splits)
      from endpoint_step_trans [OF endpoint_step_trans [OF same dash_data_answers [OF u]] IH [OF this(2)]] show ?thesis .
    qed
  qed
  then show ?thesis by simp
qed

lemma dash_on_event_step:
  assumes run: "dash_on_event P stack self m e io = Some (e', io')"
  shows "endpoint_step self e io e' io'"
proof -
  obtain e1 io1 where first: "(if m AND EPOLLIN \<noteq> 0 then dash_read_loop P stack self (te_fd e) e io else Some (e, io)) = Some (e1, io1)"
    and second: "(if m AND EPOLLOUT \<noteq> 0 then responce P stack e1 io1 else Some (e1, io1)) = Some (e', io')"
    using run unfolding dash_on_event_def by (auto split: bind_splits simp del: word_neq_0_conv)
  have "endpoint_step self e io e1 io1"
    using first by (auto split: if_splits intro: dash_read_loop_step endpoint_step_refl)
  moreover have "endpoint_step self e1 io1 e' io'"
    using second by (auto split: if_splits simp: responce_def intro: endpoint_step_refl answers_step response_loop_answers)
  ultimately show ?thesis by (rule endpoint_step_trans)
qed

interpretation dash: tcp_endpoints "dash_class P stack" for P :: "'k platform" and stack
  by unfold_locales (auto simp: dash_class_def dash_new_def intro: dash_on_event_step)

end
