(* ===== verification/Dash_Serving.thy ===== *)
theory Dash_Serving
  imports Dash_Server
begin

text \<open>
  What the DASH server sends: every request is answered with exactly its number of bytes, in order,
  however the kernel cuts the writing; and what the server takes for a request.
\<close>

section \<open>Requests on the wire\<close>

lemma to_uint32_small: "0 \<le> i \<Longrightarrow> i < 2 ^ 32 \<Longrightarrow> to_uint32 i = i"
  by (simp add: to_uint32_def)

lemma to_int32_small: "- (2 ^ 31) \<le> i \<Longrightarrow> i < 2 ^ 31 \<Longrightarrow> to_int32 i = i"
  by (simp add: to_int32_def)

lemma parse_request_eq:
  assumes len: "length data < 2 ^ 64"
  shows "parse_request data =
    (if 5 \<le> length data \<and> hd data = DASH_REQ then Some (to_int32 (int (be_nat (take 4 (tl data))))) else None)"
proof -
  define r where "r = reader_new data (length data)"
  have r: "rd_ok r" "unread r = data" "rd_order r = NETWORK_BYTE_ORDER"
    using len by (simp_all add: r_def rd_ok_def reader_new_def unread_def)
  show ?thesis
  proof (cases data)
    case Nil
    then have "read_uint8 r = (None, on_failure r)" using read_bytes_eq [OF r(1), of 1] r(2) by (simp add: read_uint8_def)
    then show ?thesis unfolding parse_request_def r_def [symmetric] using Nil by simp
  next
    case (Cons b bs)
    have byte: "le_word [b] = b" by (simp add: le_word_eq be_nat_def)
    have one: "read_uint8 r = (Some b, skip r 1)"
      using read_bytes_eq [OF r(1), of 1] r(2) Cons by (simp add: read_uint8_def byte)
    have r1: "rd_ok (skip r 1)" "unread (skip r 1) = bs" "rd_order (skip r 1) = NETWORK_BYTE_ORDER"
      using r Cons skip_ok [OF r(1), of 1] by (simp_all add: unread_skip)
    have four: "read_uint32 (skip r 1) = (if 4 \<le> length bs then (Some (word_of_nat (be_nat (take 4 bs))), skip (skip r 1) 4)
        else (None, on_failure (skip r 1)))"
      unfolding read_uint32_def using read_uint_eq [OF r1(1) _ r1(3), of 4, where 'a = 32] r1(2) by simp
    have small: "be_nat (take 4 bs) < 2 ^ 32" if "4 \<le> length bs"
      using be_nat_less [of "take 4 bs"] that by simp
    have "uint (word_of_nat (be_nat (take 4 bs)) :: 32 word) = int (be_nat (take 4 bs))" if "4 \<le> length bs"
      using small [OF that] by (simp add: unsigned_of_nat take_bit_eq_mod)
    then show ?thesis unfolding parse_request_def r_def [symmetric]
      by (auto simp: one four Cons simp del: One_nat_def)
  qed
qed

section \<open>Answering\<close>

text \<open>Writing something on a socket either fails or accepts at least one byte.\<close>

definition writes_or_fails :: "'k platform \<Rightarrow> bool" where
  "writes_or_fails P \<longleftrightarrow> (\<forall>k fd d. d \<noteq> [] \<longrightarrow> fst (sys_send P k fd d) \<noteq> 0)"

definition stack_full :: "('k \<Rightarrow> byte list) \<Rightarrow> bool" where
  "stack_full stack \<longleftrightarrow> (\<forall>k. length (stack k) = kBufferSize)"

lemma response_write_serves:
  assumes posix: "posix P" and writes: "writes_or_fails P" and buffer: "length buffer = kBufferSize" and bytes: "bytes < 2 ^ 31"
  shows "0 \<le> sent_bytes e \<Longrightarrow> sent_bytes e \<le> bytes \<Longrightarrow>
    \<exists>full io' data. response_write P buffer bytes e io = Some (full, e\<lparr>sent_bytes := sent_bytes e + int (length data)\<rparr>, io') \<and>
      tcp_sent (te_fd e) io' = tcp_sent (te_fd e) io @ data \<and> sent_bytes e + int (length data) \<le> bytes \<and>
      (full \<longleftrightarrow> sent_bytes e + int (length data) < bytes) \<and>
      (full \<longrightarrow> (\<exists>k d. fst (sys_send P k (te_fd e) d) < 0))"
proof (induction "nat (bytes - sent_bytes e)" arbitrary: e io rule: less_induct)
  case less
  have u: "to_uint32 (sent_bytes e) = sent_bytes e" using less.prems bytes by (intro to_uint32_small) auto
  show ?case
  proof (cases "sent_bytes e < bytes")
    case False
    then show ?thesis using less.prems u
      by (subst response_write.simps) (intro exI [of _ False] exI [of _ io] exI [of _ "[]"], simp)
  next
    case True
    define intend where "intend = min (int kBufferSize) (bytes - sent_bytes e)"
    have small: "to_int32 (to_uint32 (bytes - sent_bytes e)) = bytes - sent_bytes e"
      using True less.prems bytes by (simp add: to_uint32_small to_int32_small)
    have pos: "0 < intend" "intend \<le> int kBufferSize" using True by (simp_all add: intend_def kBufferSize_def)
    have out: "take (nat intend) buffer \<noteq> []" "int (length (take (nat intend) buffer)) = intend"
      using pos buffer by (auto simp: kBufferSize_def)
    obtain sent k where send: "sys_send P (tcp_kernel io) (te_fd e) (take (nat intend) buffer) = (sent, k)" by fastforce
    have le: "sent \<le> intend" using posix_send [OF posix send] out(2) by simp
    have "sent \<noteq> 0" using writes out(1) send unfolding writes_or_fails_def by (metis fst_conv)
    have step: "response_write P buffer bytes e io =
        (if sent < 0 then Some (True, e, io\<lparr>tcp_kernel := k\<rparr>)
         else response_write P buffer bytes (e\<lparr>sent_bytes := sent_bytes e + sent\<rparr>)
           (tcp_event (Send (te_fd e) (take (nat sent) (take (nat intend) buffer))) (io\<lparr>tcp_kernel := k\<rparr>)))"
      using True send pos by (subst response_write.simps) (simp add: Let_def u small intend_def [symmetric])
    show ?thesis
    proof (cases "sent < 0")
      case True
      have "\<exists>k d. fst (sys_send P k (te_fd e) d) < 0" using send True by (metis fst_conv)
      then show ?thesis using step True \<open>sent_bytes e < bytes\<close>
        by (intro exI [of _ True] exI [of _ "io\<lparr>tcp_kernel := k\<rparr>"] exI [of _ "[]"]) simp
    next
      case False
      then have s: "0 < sent" using \<open>sent \<noteq> 0\<close> by simp
      let ?e = "e\<lparr>sent_bytes := sent_bytes e + sent\<rparr>"
      let ?d = "take (nat sent) (take (nat intend) buffer)"
      let ?io = "tcp_event (Send (te_fd e) ?d) (io\<lparr>tcp_kernel := k\<rparr>)"
      have d: "int (length ?d) = sent" using s le out(2) by simp
      have less': "nat (bytes - sent_bytes ?e) < nat (bytes - sent_bytes e)" "0 \<le> sent_bytes ?e" "sent_bytes ?e \<le> bytes"
        using s le less.prems \<open>sent_bytes e < bytes\<close> by (simp_all add: intend_def)
      from less.hyps [OF this, of ?io] obtain full io' data where rec:
        "response_write P buffer bytes ?e ?io = Some (full, ?e\<lparr>sent_bytes := sent_bytes ?e + int (length data)\<rparr>, io')"
        "tcp_sent (te_fd e) io' = tcp_sent (te_fd e) ?io @ data" "sent_bytes ?e + int (length data) \<le> bytes"
        "full \<longleftrightarrow> sent_bytes ?e + int (length data) < bytes" "full \<longrightarrow> (\<exists>k d. fst (sys_send P k (te_fd e) d) < 0)"
        unfolding dash_endpoint.select_convs tcp_endpoint.select_convs tcp_endpoint.update_convs dash_endpoint.update_convs by force
      have eq: "sent_bytes ?e + int (length data) = sent_bytes e + int (length (?d @ data))" using d by simp
      show ?thesis
        using step False rec unfolding eq
        by (intro exI [of _ full] exI [of _ io'] exI [of _ "?d @ data"]) (simp add: sent_event_def)
    qed
  qed
qed

text \<open>The queue between two answers: proper sizes, and the first request partly answered.\<close>

definition queue_ok :: "dash_endpoint \<Rightarrow> bool" where
  "queue_ok e \<longleftrightarrow> (\<forall>n \<in> set (request_bytes e). 0 \<le> n \<and> n < 2 ^ 31) \<and> 0 \<le> sent_bytes e \<and>
     (case request_bytes e of [] \<Rightarrow> sent_bytes e = 0 | n # _ \<Rightarrow> sent_bytes e \<le> n)"

definition owed :: "dash_endpoint \<Rightarrow> int" where
  "owed e = sum_list (request_bytes e) - sent_bytes e"

lemma response_loop_serves:
  assumes posix: "posix P" and writes: "writes_or_fails P" and stack: "stack_full stack"
  shows "queue_ok e \<Longrightarrow> num = length (request_bytes e) \<Longrightarrow>
    \<exists>e' io' data m. response_loop P stack num e io = Some (e', io') \<and>
      tcp_sent (te_fd e) io' = tcp_sent (te_fd e) io @ data \<and> owed e = owed e' + int (length data) \<and> queue_ok e' \<and>
      request_bytes e' = drop m (request_bytes e) \<and>
      (request_bytes e' = [] \<or> (\<exists>k d. fst (sys_send P k (te_fd e) d) < 0))"
proof (induction num arbitrary: e io)
  case 0
  then show ?case by (subst response_loop.simps) (intro exI [of _ e] exI [of _ io] exI [of _ "[]"] exI [of _ 0], simp)
next
  case (Suc num)
  obtain n rest where q: "request_bytes e = n # rest" using Suc.prems(2) by (cases "request_bytes e") auto
  have n: "0 \<le> n" "n < 2 ^ 31" "0 \<le> sent_bytes e" "sent_bytes e \<le> n" "\<forall>n \<in> set rest. 0 \<le> n \<and> n < 2 ^ 31"
    using Suc.prems(1) q by (auto simp: queue_ok_def)
  have u: "to_uint32 n = n" using n by (intro to_uint32_small) auto
  have "length (stack (tcp_kernel io)) = kBufferSize" using stack by (simp add: stack_full_def)
  from response_write_serves [OF posix writes this n(2-4), of io]
  obtain full io1 data where w: "response_write P (stack (tcp_kernel io)) n e io = Some (full, e\<lparr>sent_bytes := sent_bytes e + int (length data)\<rparr>, io1)"
    "tcp_sent (te_fd e) io1 = tcp_sent (te_fd e) io @ data" "sent_bytes e + int (length data) \<le> n"
    "full \<longleftrightarrow> sent_bytes e + int (length data) < n" "full \<longrightarrow> (\<exists>k d. fst (sys_send P k (te_fd e) d) < 0)" by blast
  have u1: "to_uint32 (sent_bytes e + int (length data)) = sent_bytes e + int (length data)"
    using n w(3) by (intro to_uint32_small) auto
  show ?case
  proof (cases full)
    case True
    then have run: "response_loop P stack (Suc num) e io = Some (e\<lparr>sent_bytes := sent_bytes e + int (length data)\<rparr>, io1)"
      using q u w(1,4) u1 by (subst response_loop.simps) simp
    show ?thesis
      using run True w n q by (intro exI [of _ "e\<lparr>sent_bytes := sent_bytes e + int (length data)\<rparr>"] exI [of _ io1] exI [of _ data] exI [of _ 0])
        (auto simp: owed_def queue_ok_def)
  next
    case False
    then have finished: "sent_bytes e + int (length data) = n" using w(3,4) by simp
    define e1 where "e1 = e\<lparr>request_bytes := rest, sent_bytes := 0\<rparr>"
    define io2 where "io2 = (if num = 0 then endpoint_modify (e\<lparr>sent_bytes := n\<rparr>) (te_fd e) EPOLLIN io1 else io1)"
    have run: "response_loop P stack (Suc num) e io = response_loop P stack num e1 io2"
      using q u w(1) u1 finished False by (subst response_loop.simps) (simp add: e1_def io2_def Let_def)
    have "queue_ok e1" "num = length (request_bytes e1)"
      using n q Suc.prems(2) by (auto simp: queue_ok_def e1_def split: list.split)
    from Suc.IH [OF this, of io2] obtain e' io' data' m where rec: "response_loop P stack num e1 io2 = Some (e', io')"
      "tcp_sent (te_fd e1) io' = tcp_sent (te_fd e1) io2 @ data'" "owed e1 = owed e' + int (length data')" "queue_ok e'"
      "request_bytes e' = drop m (request_bytes e1)" "request_bytes e' = [] \<or> (\<exists>k d. fst (sys_send P k (te_fd e1) d) < 0)" by blast
    have io2: "tcp_sent fd io2 = tcp_sent fd io1" for fd by (simp add: io2_def)
    have "owed e = owed e1 + int (length data)" using finished q by (simp add: owed_def e1_def)
    then show ?thesis
      using run rec w(2) io2 q by (intro exI [of _ e'] exI [of _ io'] exI [of _ "data @ data'"] exI [of _ "Suc m"]) (simp add: e1_def)
  qed
qed

text \<open>A request of two gigabytes or more is negative as an \<open>int\<close>, and so is the length of the first write.\<close>

lemma responce_negative:
  assumes "request_bytes e = n # ns" "n < 0" "- (2 ^ 31) \<le> n" "sent_bytes e = 0"
  shows "responce P stack e io = None"
proof -
  have u: "to_uint32 n = n + 2 ^ 32" unfolding to_uint32_def using assms(2,3) by (intro int_mod_pos_eq [of _ _ "- 1"]) auto
  have "(n + 2 ^ 32 + 2 ^ 31) mod 2 ^ 32 = n + 2 ^ 31" using assms(2,3) by (intro int_mod_pos_eq [of _ _ 1]) auto
  then have "to_int32 (n + 2 ^ 32) = n" by (simp only: to_int32_def)
  moreover have "to_uint32 (n + 2 ^ 32 - 0) = n + 2 ^ 32" using assms(2,3) by (subst to_uint32_small) auto
  moreover have "to_uint32 0 = 0" by (simp add: to_uint32_def)
  ultimately have i: "to_int32 (to_uint32 (to_uint32 n - to_uint32 0)) = n" by (simp only: u)
  have "response_write P b (to_uint32 n) e io = None" for b
    using assms i u by (subst response_write.simps) (simp add: Let_def to_uint32_small)
  then show ?thesis using assms(1) unfolding responce_def by (subst response_loop.simps) simp
qed

end
