(* ===== verification/Dash_Client.thy ===== *)
theory Dash_Client
  imports Tcp_Server Codec_Laws
begin

text \<open>
  The DASH client (\<open>dash/dash_client.h\<close>, \<open>dash/dash_client.cc\<close>): it requests the segments of a
  video one after the other, each in the quality that the adaptation algorithm chooses, and plays
  them back by the clock.  The algorithm, a virtual function with a state \<open>'a\<close> of its own, is the parameter
  \<open>next_quality\<close>.  \<open>None\<close> is undefined behaviour (an index out of range, a null alarm, a division by zero),
  a failed check, or a loop that never returns.
\<close>

section \<open>State\<close>

datatype player_state = PLAYER_NOT_STARTED | PLAYER_INIT_BUFFERING | PLAYER_PLAY | PLAYER_PAUSED | PLAYER_DONE

record throughput_data =
  transmission_requested :: "quic_time list"
  transmission_start :: "quic_time list"
  transmission_end :: "quic_time list"
  bytes_received :: "int list"

record buffer_data =
  time_now :: "quic_time list"
  buffer_level_old :: "int list"
  buffer_level_new :: "int list"

text \<open>\<open>averageBitrate\<close>, a \<open>double\<close>, is read by the algorithms only.\<close>

record video_data =
  representation :: "int list list"
  segment_duration :: int

definition kFramesPerSecond :: int where "kFramesPerSecond = 25"
definition kInitialSegments :: int where "kInitialSegments = 3"

text \<open>\<open>dc_registered\<close>: the epoll server knows the client; \<open>dc_trace\<close>: the open trace file.\<close>

record 'a dash_client =
  dc_fd :: int
  dc_registered :: bool
  dc_status :: tcp_status
  player :: player_state
  video :: video_data
  history_quality :: "int list"
  quality :: int
  segment_index :: int
  playback_index :: int
  played_frames :: int
  frames_in_segment :: int
  segments_in_buffer :: int
  segment_bytes :: u64
  read_count :: u64
  session_bytes :: u64
  first_request_time :: quic_time
  pause_start :: quic_time
  pause_time :: time_delta
  startup_time :: time_delta
  throughput :: throughput_data
  buffer_levels :: buffer_data
  player_alarm :: "base_alarm option"
  request_alarm :: "base_alarm option"
  algorithm :: 'a
  init_segments :: int
  segment_counter :: int
  dc_trace :: "(int \<times> int \<times> int) list option"

text \<open>
  \<open>GetNextQuality\<close>: of the client, the time, the quality before and the index of the segment; the result is
  the reply (quality and delay) and the new state of the algorithm.
\<close>

type_synonym 'a adaptation = "'a dash_client \<Rightarrow> quic_time \<Rightarrow> int \<Rightarrow> int \<Rightarrow> (int \<times> time_delta \<times> 'a) option"

text \<open>\<open>ReadSegmentFromFile\<close> gives the representations.\<close>

definition dash_client_new :: "int \<Rightarrow> int list list \<Rightarrow> 'a \<Rightarrow> int \<Rightarrow> bool \<Rightarrow> 'a dash_client" where
  "dash_client_new segment_ms reps festive n trace_opens =
     \<lparr>dc_fd = - 1, dc_registered = False, dc_status = TCP_DISCONNECT, player = PLAYER_NOT_STARTED,
      video = \<lparr>representation = reps, segment_duration = segment_ms\<rparr>, history_quality = [], quality = 0,
      segment_index = 0, playback_index = 0, played_frames = 0,
      frames_in_segment = segment_ms * kFramesPerSecond sdiv 1000,
      segments_in_buffer = 0, segment_bytes = 0, read_count = 0, session_bytes = 0,
      first_request_time = 0, pause_start = 0, pause_time = 0, startup_time = 0,
      throughput = \<lparr>transmission_requested = [], transmission_start = [], transmission_end = [], bytes_received = []\<rparr>,
      buffer_levels = \<lparr>time_now = [], buffer_level_old = [], buffer_level_new = []\<rparr>,
      player_alarm = None, request_alarm = None, algorithm = festive, init_segments = n, segment_counter = 0,
      dc_trace = (if trace_opens then Some [] else None)\<rparr>"

section \<open>Buffer levels\<close>

definition get_buffer_level_ms :: "'a dash_client \<Rightarrow> int" where
  "get_buffer_level_ms c =
     (if buffer_level_new (buffer_levels c) \<noteq> [] then last (buffer_level_new (buffer_levels c)) else 0)"

definition get_buffer_diff_ms :: "'a dash_client \<Rightarrow> int" where
  "get_buffer_diff_ms c =
     (let levels = buffer_level_new (buffer_levels c)
      in if 1 < length levels then last levels - levels ! (length levels - 2) else 0)"

section \<open>Closing, and the trace\<close>

definition client_close :: "'k platform \<Rightarrow> 'a dash_client \<Rightarrow> 'k tcp_io \<Rightarrow> 'a dash_client \<times> 'k tcp_io" where
  "client_close P c io =
     (if 0 < dc_fd c
      then (c\<lparr>dc_status := TCP_DISCONNECT, dc_fd := - 1\<rparr>,
            tcp_event (Close_Fd (dc_fd c)) (io\<lparr>tcp_kernel := sys_close P (tcp_kernel io) (dc_fd c)\<rparr>))
      else (c, io))"

text \<open>\<open>UnregisterFD(fd_)\<close>; the client's callback does nothing.\<close>

definition client_unregister :: "'a dash_client \<Rightarrow> 'k tcp_io \<Rightarrow> 'a dash_client \<times> 'k tcp_io" where
  "client_unregister c io =
     (if dc_registered c \<and> 0 \<le> dc_fd c then (c\<lparr>dc_registered := False\<rparr>, tcp_event (Unregister_Fd (dc_fd c)) io) else (c, io))"

definition log_infomation :: "'k platform \<Rightarrow> 'k tcp_io \<Rightarrow> 'a dash_client \<Rightarrow> 'a dash_client" where
  "log_infomation P io c =
     (case dc_trace c of
        None \<Rightarrow> c
      | Some lines \<Rightarrow>
          let now = clock_now P (tcp_kernel io);
              wall_time = to_int32 (delta_to_milliseconds (now - first_request_time c))
          in c\<lparr>dc_trace := Some (lines @ [(wall_time, segments_in_buffer c, quality c)])\<rparr>)"

text \<open>\<open>Update\<close> of an alarm that may not have been created.\<close>

definition update_alarm :: "base_alarm option \<Rightarrow> quic_time \<Rightarrow> base_alarm option" where
  "update_alarm al t = Option.bind al (\<lambda>a. alarm_update a t 0)"

section \<open>Requests\<close>

text \<open>The message; the buffer's other bytes are not sent.\<close>

definition request_message :: "int \<Rightarrow> byte list option" where
  "request_message bytes =
     (let (ok1, w1) = write_uint8 (writer_new (replicate kBufferSize 0) kBufferSize) 0;
          (ok2, w2) = (if ok1 then write_uint32 w1 (word_of_int bytes) else (False, w1))
      in if ok1 \<and> ok2 then Some (written w2) else None)"

definition send_request :: "'k platform \<Rightarrow> int \<Rightarrow> 'a dash_client \<Rightarrow> 'k tcp_io \<Rightarrow> 'k tcp_io option" where
  "send_request P bytes c io = do {
     message \<leftarrow> request_message bytes;
     Some (if 0 < dc_fd c
           then let (sent, k) = sys_send P (tcp_kernel io) (dc_fd c) message
                in tcp_event (Send (dc_fd c) (take (nat sent) message)) (io\<lparr>tcp_kernel := k\<rparr>)
           else io)
   }"

definition delay_request_handle :: "'k platform \<Rightarrow> 'a dash_client \<Rightarrow> 'k tcp_io \<Rightarrow> ('a dash_client \<times> 'k tcp_io) option" where
  "delay_request_handle P c io =
     (case representation (video c) of
        [] \<Rightarrow> Some (c, io)
      | rep0 # _ \<Rightarrow>
          if segment_index c < int (length rep0) then do {
            let now = clock_now P (tcp_kernel io);
            let c1 = c\<lparr>throughput := (throughput c)\<lparr>transmission_requested := transmission_requested (throughput c) @ [now]\<rparr>\<rparr>;
            io1 \<leftarrow> send_request P (to_int32 (int (segment_bytes c1))) c1 io;
            Some (c1\<lparr>segment_index := segment_index c1 + 1\<rparr>, io1)
          } else Some (c, io))"

text \<open>\<open>representation[quality][index]\<close>, unchecked.\<close>

definition segment_size :: "video_data \<Rightarrow> int \<Rightarrow> int \<Rightarrow> int option" where
  "segment_size v q i =
     (if 0 \<le> q \<and> q < int (length (representation v)) \<and> 0 \<le> i \<and> i < int (length (representation v ! nat q))
      then Some (representation v ! nat q ! nat i) else None)"

definition request_segment :: "'k platform \<Rightarrow> 'a adaptation \<Rightarrow> 'a dash_client \<Rightarrow> 'k tcp_io \<Rightarrow> ('a dash_client \<times> 'k tcp_io) option" where
  "request_segment P next_quality c io = do {
     let now = clock_now P (tcp_kernel io);
     (q, delay, a) \<leftarrow> next_quality c now (quality c) (segment_index c);
     let c1 = c\<lparr>algorithm := a, quality := q, history_quality := history_quality c @ [q], read_count := 0\<rparr>;
     bytes \<leftarrow> segment_size (video c1) q (segment_index c1);
     let c2 = c1\<lparr>segment_bytes := to_uint64 bytes\<rparr>;
     if delay \<noteq> 0 then do {
       al \<leftarrow> update_alarm (request_alarm c2) (now + delay);
       Some (c2\<lparr>request_alarm := Some al\<rparr>, io)
     } else delay_request_handle P c2 io
   }"

section \<open>Playing\<close>

definition check_buffer_status :: "'k platform \<Rightarrow> 'a dash_client \<Rightarrow> 'k tcp_io \<Rightarrow> 'a dash_client option" where
  "check_buffer_status P c io = do {
     let now = clock_now P (tcp_kernel io);
     c1 \<leftarrow> (if player c = PLAYER_INIT_BUFFERING \<and> init_segments c \<le> segments_in_buffer c
            then do {
              al \<leftarrow> update_alarm (player_alarm c) now;
              Some (c\<lparr>player := PLAYER_PLAY, startup_time := now - first_request_time c, player_alarm := Some al\<rparr>)
            } else Some c);
     if player c1 = PLAYER_PAUSED \<and> 0 < segments_in_buffer c1
     then do {
       al \<leftarrow> update_alarm (player_alarm c1) now;
       Some (c1\<lparr>player := PLAYER_PLAY,
         pause_time := (if 0 < pause_start c1 then pause_time c1 + (now - pause_start c1) else pause_time c1),
         pause_start := 0, player_alarm := Some al\<rparr>)
     } else Some c1
   }"

definition play_back_handle :: "'k platform \<Rightarrow> 'a dash_client \<Rightarrow> 'k tcp_io \<Rightarrow> 'a dash_client option" where
  "play_back_handle P c io = do {
     c1 \<leftarrow> (if 0 < segments_in_buffer c
            then do {
              let c' = c\<lparr>played_frames := played_frames c + 1\<rparr>;
              fatal_unless (frames_in_segment c' \<noteq> 0);
              Some (if played_frames c' smod frames_in_segment c' = 0
                    then log_infomation P io (c'\<lparr>segments_in_buffer := segments_in_buffer c' - 1, playback_index := playback_index c' + 1\<rparr>)
                    else c')
            } else Some c);
     c2 \<leftarrow> (if segments_in_buffer c1 = 0
            then (case representation (video c1) of
                    [] \<Rightarrow> None
                  | rep0 # _ \<Rightarrow>
                      Some (if int (length rep0) \<le> playback_index c1 then c1\<lparr>player := PLAYER_DONE\<rparr>
                            else c1\<lparr>player := PLAYER_PAUSED, pause_start := clock_now P (tcp_kernel io)\<rparr>))
            else Some c1);
     if 0 < segments_in_buffer c2
     then do {
       al \<leftarrow> update_alarm (player_alarm c2) (clock_now P (tcp_kernel io) + delta_from_milliseconds (1000 sdiv kFramesPerSecond));
       Some (c2\<lparr>player_alarm := Some al\<rparr>)
     } else Some c2
   }"

section \<open>Receiving\<close>

text \<open>The bookkeeping of a segment whose last byte has come; \<open>None\<close> for \<open>back\<close> of an empty container.\<close>

definition last_of :: "'b list \<Rightarrow> 'b option" where
  "last_of xs = (if xs = [] then None else Some (last xs))"

definition segment_received :: "quic_time \<Rightarrow> 'a dash_client \<Rightarrow> 'a dash_client option" where
  "segment_received now c = do {
     old \<leftarrow> (if 0 < segment_counter c
             then do {
               ms \<leftarrow> last_of (buffer_level_new (buffer_levels c));
               ms' \<leftarrow> (if player c = PLAYER_INIT_BUFFERING then Some ms
                       else do {
                         ended \<leftarrow> last_of (transmission_end (throughput c));
                         Some (ms - delta_to_milliseconds (now - ended))
                       });
               Some (max ms' 0)
             } else Some 0);
     Some (c\<lparr>session_bytes := u64_add (session_bytes c) (segment_bytes c),
       buffer_levels := \<lparr>time_now = time_now (buffer_levels c) @ [now],
         buffer_level_old = buffer_level_old (buffer_levels c) @ [old],
         buffer_level_new = buffer_level_new (buffer_levels c) @ [old + segment_duration (video c)]\<rparr>,
       throughput := (throughput c)\<lparr>transmission_end := transmission_end (throughput c) @ [now],
         bytes_received := bytes_received (throughput c) @ [to_int64 (read_count c)]\<rparr>,
       segment_counter := segment_counter c + 1, segments_in_buffer := segments_in_buffer c + 1\<rparr>)
   }"

text \<open>One read of \<open>n\<close> bytes; the flag tells whether the handler returns.\<close>

definition client_data ::
  "'k platform \<Rightarrow> 'a adaptation \<Rightarrow> nat \<Rightarrow> 'a dash_client \<Rightarrow> 'k tcp_io \<Rightarrow> (bool \<times> 'a dash_client \<times> 'k tcp_io) option" where
  "client_data P next_quality n c io = do {
     let now = clock_now P (tcp_kernel io);
     let c1 = (if read_count c = 0
               then c\<lparr>throughput := (throughput c)\<lparr>transmission_start := transmission_start (throughput c) @ [now]\<rparr>\<rparr>
               else c);
     let c2 = c1\<lparr>read_count := u64_add (read_count c1) n\<rparr>;
     if read_count c2 = segment_bytes c2 then do {
       c3 \<leftarrow> segment_received now c2;
       c4 \<leftarrow> check_buffer_status P c3 io;
       if representation (video c4) \<noteq> [] \<and> segment_index c4 = int (length (hd (representation (video c4))))
       then
         let (c5, io5) = client_unregister c4 io;
             (c6, io6) = client_close P c5 io5
         in Some (True, c6, io6)
       else do {
         (c5, io5) \<leftarrow> request_segment P next_quality c4 io;
         Some (False, log_infomation P io5 c5, io5)
       }
     } else Some (False, c2, io)
   }"

partial_function (option) client_read_loop ::
  "'k platform \<Rightarrow> 'a adaptation \<Rightarrow> int \<Rightarrow> 'a dash_client \<Rightarrow> 'k tcp_io \<Rightarrow> ('a dash_client \<times> 'k tcp_io) option" where
  [code]: "client_read_loop P next_quality fd c io =
     (case sys_read P (tcp_kernel io) fd kBufferSize of
        (None, k) \<Rightarrow> Some (c, io\<lparr>tcp_kernel := k\<rparr>)
      | (Some d, k) \<Rightarrow>
          if d = [] then
            let (c', io') = client_unregister c (io\<lparr>tcp_kernel := k\<rparr>)
            in client_read_loop P next_quality fd c' io'
          else do {
            (done, c', io') \<leftarrow> client_data P next_quality (length d) c (io\<lparr>tcp_kernel := k\<rparr>);
            if done then Some (c', io') else client_read_loop P next_quality fd c' io'
          })"

section \<open>Connecting and events\<close>

definition client_asyn_connect ::
  "'k platform \<Rightarrow> sock_addr \<Rightarrow> sock_addr \<Rightarrow> 'a dash_client \<Rightarrow> 'k tcp_io \<Rightarrow> bool \<times> 'a dash_client \<times> 'k tcp_io" where
  "client_asyn_connect P local remote c io =
     (let (fd, k) = sys_socket P (tcp_kernel io);
          c0 = c\<lparr>dc_fd := fd\<rparr>; io0 = io\<lparr>tcp_kernel := k\<rparr>
      in if fd < 0 then (False, c0, io0)
      else
        let (bound, k1) = sys_bind P k fd local; io1 = io0\<lparr>tcp_kernel := k1\<rparr>
        in if \<not> bound then (False, client_close P c0 io1)
        else
          let (reuse, k2) = sys_reuse_addr P k1 fd; io2 = io1\<lparr>tcp_kernel := k2\<rparr>
          in if \<not> reuse then (False, client_close P c0 io2)
          else if representation (video c0) = [] then (False, client_close P c0 io2)
          else
            let c1 = c0\<lparr>dc_registered := True\<rparr>;
                io3 = tcp_event (Register_Fd fd (EPOLLOUT OR EPOLLIN OR EPOLLRDHUP OR EPOLLERR OR EPOLLET)) io2;
                (res, k4) = sys_connect P (tcp_kernel io3) fd remote; io4 = io3\<lparr>tcp_kernel := k4\<rparr>
            in case res of
                 Connect_Again \<Rightarrow> (let (c2, io5) = client_unregister c1 io4 in (False, client_close P c2 io5))
               | Connect_Failed \<Rightarrow> (True, c1\<lparr>player := PLAYER_INIT_BUFFERING, dc_status := TCP_CONNECTING\<rparr>, io4)
               | Connect_Started \<Rightarrow> (True, c1\<lparr>dc_status := TCP_CONNECTING\<rparr>, io4))"

definition on_connected :: "'k platform \<Rightarrow> 'a adaptation \<Rightarrow> 'a dash_client \<Rightarrow> 'k tcp_io \<Rightarrow> ('a dash_client \<times> 'k tcp_io) option" where
  "on_connected P next_quality c io = do {
     let c1 = c\<lparr>first_request_time := clock_now P (tcp_kernel io), player := PLAYER_INIT_BUFFERING,
                player_alarm := Some alarm_new, request_alarm := Some alarm_new\<rparr>;
     (c2, io2) \<leftarrow> request_segment P next_quality c1 io;
     Some (log_infomation P io2 c2, io2)
   }"

definition client_on_event ::
  "'k platform \<Rightarrow> 'a adaptation \<Rightarrow> int \<Rightarrow> 32 word \<Rightarrow> 'a dash_client \<Rightarrow> 'k tcp_io \<Rightarrow> ('a dash_client \<times> 'k tcp_io) option" where
  "client_on_event P next_quality fd events c io = do {
     let (c1, io1) =
       (if events AND (EPOLLERR OR EPOLLRDHUP OR EPOLLHUP) \<noteq> 0
        then let (c', io') = client_unregister (c\<lparr>player := PLAYER_DONE\<rparr>) io in client_close P c' io'
        else (c, io));
     (c2, io2) \<leftarrow> (if events AND EPOLLIN \<noteq> 0 then client_read_loop P next_quality fd c1 io1 else Some (c1, io1));
     if events AND EPOLLOUT \<noteq> 0 \<and> dc_status c2 = TCP_CONNECTING
     then on_connected P next_quality (c2\<lparr>dc_status := TCP_CONNECTED\<rparr>)
       (if dc_registered c2 then tcp_event (Modify_Callback (dc_fd c2) (EPOLLIN OR EPOLLRDHUP OR EPOLLERR OR EPOLLET)) io2 else io2)
     else Some (c2, io2)
   }"

definition client_destroy :: "'k platform \<Rightarrow> 'a dash_client \<Rightarrow> 'k tcp_io \<Rightarrow> ('a dash_client \<times> 'k tcp_io) option" where
  "client_destroy P c io = do {
     pl \<leftarrow> (case player_alarm c of None \<Rightarrow> Some None | Some al \<Rightarrow> map_option Some (alarm_cancel al));
     rq \<leftarrow> (case request_alarm c of None \<Rightarrow> Some None | Some al \<Rightarrow> map_option Some (alarm_cancel al));
     let (c1, io1) = client_unregister (c\<lparr>player_alarm := pl, request_alarm := rq\<rparr>) io;
     Some (client_close P c1 io1)
   }"

text \<open>
  What the epoll server calls: an event of the registered descriptor, an alarm that is due, or \<open>OnShutdown\<close>,
  after which it forgets the descriptor.
\<close>

datatype client_action = Client_Event "32 word" | Player_Alarm | Request_Alarm | Client_Shutdown

fun client_handle ::
  "'k platform \<Rightarrow> 'a adaptation \<Rightarrow> client_action \<Rightarrow> 'a dash_client \<times> 'k tcp_io \<Rightarrow> ('a dash_client \<times> 'k tcp_io) option" where
  "client_handle P nq (Client_Event events) (c, io) =
     (if dc_registered c then client_on_event P nq (dc_fd c) events c io else Some (c, io))"
| "client_handle P nq Player_Alarm (c, io) =
     (case player_alarm c of
        None \<Rightarrow> Some (c, io)
      | Some al \<Rightarrow>
          let (fires, al') = alarm_on_epoll al; c' = c\<lparr>player_alarm := Some al'\<rparr>
          in if fires then map_option (\<lambda>c. (c, io)) (play_back_handle P c' io) else Some (c', io))"
| "client_handle P nq Request_Alarm (c, io) =
     (case request_alarm c of
        None \<Rightarrow> Some (c, io)
      | Some al \<Rightarrow>
          let (fires, al') = alarm_on_epoll al; c' = c\<lparr>request_alarm := Some al'\<rparr>
          in if fires then delay_request_handle P c' io else Some (c', io))"
| "client_handle P nq Client_Shutdown (c, io) = (let (c', io') = client_close P c io in Some (c'\<lparr>dc_registered := False\<rparr>, io'))"

end
