(* ===== verification/Dash_Client_Laws.thy ===== *)
theory Dash_Client_Laws
  imports Dash_Client
begin

text \<open>
  The bookkeeping of the DASH client: an invariant that every handler keeps, and when the handlers
  have a result.
\<close>

section \<open>The invariant\<close>

text \<open>The lists have one entry for each segment received; buffer levels are never negative.\<close>

definition levels_ok :: "int \<Rightarrow> int \<Rightarrow> buffer_data \<Rightarrow> throughput_data \<Rightarrow> bool" where
  "levels_ok n duration b t \<longleftrightarrow> int (length (time_now b)) = n \<and> int (length (buffer_level_old b)) = n \<and>
     buffer_level_new b = map (\<lambda>old. old + duration) (buffer_level_old b) \<and> (\<forall>old \<in> set (buffer_level_old b). 0 \<le> old) \<and>
     int (length (transmission_end t)) = n \<and> int (length (bytes_received t)) = n"

definition played_ok :: "'a dash_client \<Rightarrow> bool" where
  "played_ok c \<longleftrightarrow> 0 \<le> segments_in_buffer c \<and> 0 \<le> playback_index c \<and> 0 \<le> played_frames c \<and>
     segments_in_buffer c + playback_index c = segment_counter c \<and>
     (0 < frames_in_segment c \<longrightarrow> playback_index c = played_frames c div frames_in_segment c)"

definition requests_ok :: "'a dash_client \<Rightarrow> bool" where
  "requests_ok c \<longleftrightarrow> 0 \<le> segment_index c \<and> int (length (transmission_requested (throughput c))) = segment_index c \<and>
     segment_index c \<le> int (length (history_quality c)) \<and>
     (\<forall>al. request_alarm c = Some al \<longrightarrow> alarm_inv al \<and> (alarm_is_set al \<longrightarrow> segment_index c < int (length (history_quality c)))) \<and>
     (\<forall>rep0 reps. representation (video c) = rep0 # reps \<longrightarrow> segment_index c \<le> int (length rep0))"

text \<open>Every segment, also the one that is coming in, has a time at which its first byte came.\<close>

definition starts_ok :: "'a dash_client \<Rightarrow> bool" where
  "starts_ok c \<longleftrightarrow> segment_counter c \<le> int (length (transmission_start (throughput c)))"

definition incoming_ok :: "'a dash_client \<Rightarrow> bool" where
  "incoming_ok c \<longleftrightarrow> (read_count c \<noteq> 0 \<longrightarrow> 0 < dc_fd c \<longrightarrow> segment_counter c < int (length (transmission_start (throughput c))))"

text \<open>The player runs exactly on a set alarm, and only with something to play.\<close>

definition player_ok :: "'a dash_client \<Rightarrow> bool" where
  "player_ok c \<longleftrightarrow> (\<forall>al. player_alarm c = Some al \<longrightarrow> alarm_inv al) \<and>
     (player c = PLAYER_PAUSED \<longrightarrow> segments_in_buffer c = 0) \<and>
     (player c = PLAYER_PLAY \<longrightarrow> 0 < segments_in_buffer c \<and> (\<exists>al. player_alarm c = Some al \<and> alarm_is_set al))"

definition client_core :: "'a dash_client \<Rightarrow> bool" where
  "client_core c \<longleftrightarrow> levels_ok (segment_counter c) (segment_duration (video c)) (buffer_levels c) (throughput c) \<and>
     played_ok c \<and> requests_ok c \<and> starts_ok c \<and> player_ok c"

definition client_inv :: "'a dash_client \<Rightarrow> bool" where
  "client_inv c \<longleftrightarrow> client_core c \<and> incoming_ok c"

definition client_good :: "'a dash_client \<Rightarrow> bool" where
  "client_good c \<longleftrightarrow> client_inv c \<and> (dc_registered c \<longrightarrow> 0 < dc_fd c)"

lemmas client_core_defs = client_core_def levels_ok_def played_ok_def requests_ok_def starts_ok_def player_ok_def

text \<open>The clock does not stand at zero, which means \<open>not set\<close> for an alarm.\<close>

definition clock_runs :: "'k platform \<Rightarrow> bool" where
  "clock_runs P \<longleftrightarrow> (\<forall>k. 0 < clock_now P k)"

lemma log_infomation_trace: "\<exists>t. log_infomation P io c = c\<lparr>dc_trace := t\<rparr>"
proof (cases "dc_trace c")
  case None
  have "c\<lparr>dc_trace := dc_trace c\<rparr> = c" by simp
  then show ?thesis using None unfolding log_infomation_def by (metis option.case(1))
next
  case (Some lines)
  then show ?thesis unfolding log_infomation_def Let_def by (simp only: option.case) blast
qed

lemma client_core_trace: "client_core (c\<lparr>dc_trace := t\<rparr>) = client_core c"
  by (simp add: client_core_defs)

lemma log_infomation_inv [simp]: "client_core (log_infomation P io c) = client_core c"
  using log_infomation_trace [of P io c] by (auto simp: client_core_trace)

lemma log_infomation_fields [simp]:
  "dc_fd (log_infomation P io c) = dc_fd c" "dc_registered (log_infomation P io c) = dc_registered c"
  "dc_status (log_infomation P io c) = dc_status c" "player (log_infomation P io c) = player c"
  "video (log_infomation P io c) = video c" "history_quality (log_infomation P io c) = history_quality c"
  "quality (log_infomation P io c) = quality c"
  "segment_index (log_infomation P io c) = segment_index c" "playback_index (log_infomation P io c) = playback_index c"
  "played_frames (log_infomation P io c) = played_frames c" "frames_in_segment (log_infomation P io c) = frames_in_segment c"
  "segments_in_buffer (log_infomation P io c) = segments_in_buffer c" "segment_counter (log_infomation P io c) = segment_counter c"
  "segment_bytes (log_infomation P io c) = segment_bytes c" "read_count (log_infomation P io c) = read_count c"
  "throughput (log_infomation P io c) = throughput c" "buffer_levels (log_infomation P io c) = buffer_levels c"
  "player_alarm (log_infomation P io c) = player_alarm c" "request_alarm (log_infomation P io c) = request_alarm c"
  "init_segments (log_infomation P io c) = init_segments c"
  using log_infomation_trace [of P io c] by auto

lemma bind_SomeE: "Option.bind f g = Some x \<Longrightarrow> (\<And>y. f = Some y \<Longrightarrow> g y = Some x \<Longrightarrow> R) \<Longrightarrow> R"
  by (cases f) simp_all

section \<open>Alarms\<close>

lemma update_alarm_eq:
  assumes "\<And>al. a = Some al \<Longrightarrow> alarm_inv al" "t \<noteq> 0"
  shows "update_alarm a t = None \<longleftrightarrow> a = None"
    and "update_alarm a t = Some al' \<Longrightarrow> alarm_inv al' \<and> alarm_is_set al'"
proof -
  show "update_alarm a t = None \<longleftrightarrow> a = None"
  proof (cases a)
    case (Some al)
    then show ?thesis using alarm_update_inv [OF assms(1) [OF Some], of t 0] by (auto simp: update_alarm_def)
  qed (simp add: update_alarm_def)
  show "update_alarm a t = Some al' \<Longrightarrow> alarm_inv al' \<and> alarm_is_set al'"
  proof (cases a)
    case (Some al)
    assume "update_alarm a t = Some al'"
    then show ?thesis using alarm_update_inv [OF assms(1) [OF Some], of t 0] Some assms(2)
      by (auto simp: update_alarm_def alarm_is_set_def time_is_initialized_def)
  qed (simp add: update_alarm_def)
qed

lemma update_alarm_inv:
  assumes "\<And>al. a = Some al \<Longrightarrow> alarm_inv al" "update_alarm a t = Some al'"
  shows "alarm_inv al'"
proof (cases a)
  case (Some al)
  then show ?thesis using alarm_update_inv [OF assms(1) [OF Some], of t 0] assms(2) by (auto simp: update_alarm_def)
qed (use assms(2) in \<open>simp add: update_alarm_def\<close>)

section \<open>Requests\<close>

lemma send_request_returns: "\<exists>io'. send_request P n c io = Some io'" if "\<exists>m. request_message n = Some m"
  using that by (auto simp: send_request_def)

lemma request_message_eq: "request_message n = Some (0 # be_bytes 4 (nat (n mod 2 ^ 32)))"
proof -
  let ?w0 = "writer_new (replicate kBufferSize 0) kBufferSize"
  have w0: "wr_ok ?w0" "wr_length ?w0 = 0" "wr_capacity ?w0 = 1500" "wr_order ?w0 = NETWORK_BYTE_ORDER" "written ?w0 = []"
    by (simp_all add: wr_ok_def writer_new_def kBufferSize_def written_def)
  have one: "le_bytes 1 (0 :: 8 word) = [0]" by (simp add: le_bytes_eq)
  let ?w1 = "append_bytes ?w0 [0]"
  have w1: "write_uint8 ?w0 0 = (True, ?w1)"
    unfolding write_uint8_def one write_bytes_eq [OF w0(1)] using w0 by simp
  have ok1: "wr_ok ?w1" "wr_length ?w1 = 1" "wr_capacity ?w1 = 1500" "wr_order ?w1 = NETWORK_BYTE_ORDER" "written ?w1 = [0]"
    using w0 by (simp_all add: append_bytes_ok written_append_bytes)
  let ?v = "word_of_int n :: 32 word"
  have w2: "write_uint32 ?w1 ?v = (True, append_bytes ?w1 (be_bytes 4 (unat ?v)))"
    unfolding write_uint32_def using write_uint_eq [OF ok1(1) _ ok1(4), of 4 ?v] ok1(2,3) by (simp del: append_bytes_simps)
  have v: "unat ?v = nat (n mod 2 ^ 32)" by (simp add: unat_eq_nat_uint uint_word_of_int)
  have "written (append_bytes ?w1 (be_bytes 4 (unat ?v))) = 0 # be_bytes 4 (unat ?v)"
    using ok1 by (subst written_append_bytes) simp_all
  then show ?thesis unfolding request_message_def Let_def w1 prod.case if_True w2 v by simp
qed

lemma send_request_fd: "dc_fd c' = dc_fd c \<Longrightarrow> send_request P n c' io = send_request P n c io"
  by (simp add: send_request_def cong: if_cong)

lemma send_request_total [simp]: "\<exists>io'. send_request P n c io = Some io'"
  by (rule send_request_returns) (simp add: request_message_eq)

text \<open>What \<open>DelayRequestHandle\<close> changes.\<close>

lemma delay_request_cases:
  obtains "delay_request_handle P c io = Some (c, io)"
    "\<And>rep0 reps. representation (video c) = rep0 # reps \<Longrightarrow> int (length rep0) \<le> segment_index c"
  | rep0 reps io' where "representation (video c) = rep0 # reps" "segment_index c < int (length rep0)"
    "send_request P (to_int32 (int (segment_bytes c))) c io = Some io'"
    "delay_request_handle P c io = Some (c\<lparr>segment_index := segment_index c + 1,
      throughput := (throughput c)\<lparr>transmission_requested := transmission_requested (throughput c) @ [clock_now P (tcp_kernel io)]\<rparr>\<rparr>, io')"
proof (cases "representation (video c)")
  case Nil
  then show thesis using that(1) by (simp add: delay_request_handle_def)
next
  case (Cons rep0 reps)
  show thesis
  proof (cases "segment_index c < int (length rep0)")
    case True
    let ?c = "c\<lparr>throughput := (throughput c)\<lparr>transmission_requested := transmission_requested (throughput c) @ [clock_now P (tcp_kernel io)]\<rparr>\<rparr>"
    have same: "send_request P n ?c io = send_request P n c io" for n by (rule send_request_fd) simp
    obtain io' where "send_request P (to_int32 (int (segment_bytes c))) c io = Some io'" using send_request_total by blast
    then show thesis using that(2) [OF Cons True] Cons True by (simp add: delay_request_handle_def same)
  next
    case False
    then show thesis using that(1) Cons by (simp add: delay_request_handle_def)
  qed
qed

lemma delay_request_inv:
  assumes run: "delay_request_handle P c io = Some (c', io')" and inv: "client_core c"
    and more: "segment_index c < int (length (history_quality c))"
    and alarm: "\<And>al. request_alarm c = Some al \<Longrightarrow> alarm_is_set al \<Longrightarrow> segment_index c + 1 < int (length (history_quality c))"
  shows "client_core c'"
proof (cases rule: delay_request_cases [of P c io])
  case 1
  then show ?thesis using run inv by simp
next
  case (2 rep0 reps io1)
  then have "c' = c\<lparr>segment_index := segment_index c + 1,
      throughput := (throughput c)\<lparr>transmission_requested := transmission_requested (throughput c) @ [clock_now P (tcp_kernel io)]\<rparr>\<rparr>"
    using run by simp
  then show ?thesis using inv more alarm 2(1,2) by (auto simp: client_core_defs)
qed

lemma request_segment_inv:
  assumes run: "request_segment P nq c io = Some (c', io')" and inv: "client_core c"
  shows "client_core c'"
proof -
  obtain q delay a where nq: "nq c (clock_now P (tcp_kernel io)) (quality c) (segment_index c) = Some (q, delay, a)"
    using run unfolding request_segment_def Let_def by (elim bind_SomeE) auto
  obtain bytes where bytes: "segment_size (video c) q (segment_index c) = Some bytes"
    using run nq by (cases "segment_size (video c) q (segment_index c)") (simp_all add: request_segment_def Let_def)
  define c2 where "c2 = c\<lparr>algorithm := a, quality := q, history_quality := history_quality c @ [q], read_count := 0,
    segment_bytes := to_uint64 bytes\<rparr>"
  have rest: "(if delay \<noteq> 0 then do {
       al \<leftarrow> update_alarm (request_alarm c2) (clock_now P (tcp_kernel io) + delay);
       Some (c2\<lparr>request_alarm := Some al\<rparr>, io)
     } else delay_request_handle P c2 io) = Some (c', io')"
    using run nq bytes by (simp add: request_segment_def Let_def c2_def cong: if_cong split del: if_split)
  have inv2: "client_core c2" using inv by (auto simp: client_core_defs c2_def)
  have hist: "int (length (history_quality c2)) = int (length (history_quality c)) + 1" "segment_index c2 = segment_index c"
    "request_alarm c2 = request_alarm c" by (simp_all add: c2_def)
  have more: "segment_index c2 < int (length (history_quality c2))"
    using inv hist by (auto simp: client_core_defs)
  show ?thesis
  proof (cases "delay = 0")
    case True
    have "segment_index c2 + 1 < int (length (history_quality c2))" if al: "request_alarm c2 = Some al" "alarm_is_set al" for al
    proof -
      have "segment_index c < int (length (history_quality c))"
        using inv al unfolding hist(3) by (auto simp: client_core_def requests_ok_def)
      then show ?thesis using hist by simp
    qed
    then show ?thesis using rest True delay_request_inv [OF _ inv2 more] by simp
  next
    case False
    obtain al where al: "update_alarm (request_alarm c2) (clock_now P (tcp_kernel io) + delay) = Some al"
      and c': "c' = c2\<lparr>request_alarm := Some al\<rparr>"
      using rest False by (auto split: bind_splits)
    have "alarm_inv al'" if "request_alarm c2 = Some al'" for al' using inv2 that by (auto simp: client_core_defs)
    from update_alarm_inv [OF this al] have "alarm_inv al" .
    then have "requests_ok c'" using inv2 more unfolding c' client_core_def requests_ok_def by auto
    then show ?thesis using inv2 unfolding c' by (simp add: client_core_def played_ok_def starts_ok_def player_ok_def)
  qed
qed

section \<open>Playing\<close>

text \<open>The parts of the invariant that the player's own fields do not touch.\<close>

lemma player_frame [simp]:
  "played_ok (c\<lparr>player := p\<rparr>) = played_ok c" "requests_ok (c\<lparr>player := p\<rparr>) = requests_ok c" "starts_ok (c\<lparr>player := p\<rparr>) = starts_ok c"
  "played_ok (c\<lparr>player_alarm := a\<rparr>) = played_ok c" "requests_ok (c\<lparr>player_alarm := a\<rparr>) = requests_ok c"
  "starts_ok (c\<lparr>player_alarm := a\<rparr>) = starts_ok c"
  "played_ok (c\<lparr>pause_start := t\<rparr>) = played_ok c" "requests_ok (c\<lparr>pause_start := t\<rparr>) = requests_ok c"
  "starts_ok (c\<lparr>pause_start := t\<rparr>) = starts_ok c"
  "played_ok (c\<lparr>pause_time := t\<rparr>) = played_ok c" "requests_ok (c\<lparr>pause_time := t\<rparr>) = requests_ok c"
  "starts_ok (c\<lparr>pause_time := t\<rparr>) = starts_ok c"
  "played_ok (c\<lparr>startup_time := t\<rparr>) = played_ok c" "requests_ok (c\<lparr>startup_time := t\<rparr>) = requests_ok c"
  "starts_ok (c\<lparr>startup_time := t\<rparr>) = starts_ok c"
  by (simp_all add: played_ok_def requests_ok_def starts_ok_def)

lemma check_buffer_inv:
  assumes run: "check_buffer_status P c io = Some c'" and clock: "clock_runs P"
    and levels: "levels_ok (segment_counter c) (segment_duration (video c)) (buffer_levels c) (throughput c)"
    and rest: "played_ok c" "requests_ok c" "starts_ok c" "0 < segments_in_buffer c"
    and player: "\<And>al. player_alarm c = Some al \<Longrightarrow> alarm_inv al"
      "player c = PLAYER_PLAY \<Longrightarrow> \<exists>al. player_alarm c = Some al \<and> alarm_is_set al"
  shows "client_core c'"
proof -
  define now where "now = clock_now P (tcp_kernel io)"
  have now: "now \<noteq> 0" using clock by (simp add: clock_runs_def now_def) (metis less_irrefl)
  obtain c1 where c1: "(if player c = PLAYER_INIT_BUFFERING \<and> init_segments c \<le> segments_in_buffer c
            then do {
              al \<leftarrow> update_alarm (player_alarm c) now;
              Some (c\<lparr>player := PLAYER_PLAY, startup_time := now - first_request_time c, player_alarm := Some al\<rparr>)
            } else Some c) = Some c1"
    and c': "(if player c1 = PLAYER_PAUSED \<and> 0 < segments_in_buffer c1
     then do {
       al \<leftarrow> update_alarm (player_alarm c1) now;
       Some (c1\<lparr>player := PLAYER_PLAY,
         pause_time := (if 0 < pause_start c1 then pause_time c1 + (now - pause_start c1) else pause_time c1),
         pause_start := 0, player_alarm := Some al\<rparr>)
     } else Some c1) = Some c'"
    using run unfolding check_buffer_status_def now_def [symmetric] Let_def by (auto split: bind_splits simp del: bind_eq_Some_conv)
  have one: "levels_ok (segment_counter c1) (segment_duration (video c1)) (buffer_levels c1) (throughput c1) \<and>
      played_ok c1 \<and> requests_ok c1 \<and> starts_ok c1 \<and> 0 < segments_in_buffer c1 \<and> (\<forall>al. player_alarm c1 = Some al \<longrightarrow> alarm_inv al) \<and>
      (player c1 = PLAYER_PLAY \<longrightarrow> (\<exists>al. player_alarm c1 = Some al \<and> alarm_is_set al))"
  proof (cases "player c = PLAYER_INIT_BUFFERING \<and> init_segments c \<le> segments_in_buffer c")
    case True
    then obtain al where al: "update_alarm (player_alarm c) now = Some al"
      "c1 = c\<lparr>player := PLAYER_PLAY, startup_time := now - first_request_time c, player_alarm := Some al\<rparr>"
      using c1 by (auto split: bind_splits)
    from update_alarm_eq(2) [OF player(1) now al(1)] show ?thesis using levels rest unfolding al(2) by simp
  qed (use c1 levels rest player in auto)
  show ?thesis
  proof (cases "player c1 = PLAYER_PAUSED \<and> 0 < segments_in_buffer c1")
    case True
    then obtain al p where al: "update_alarm (player_alarm c1) now = Some al"
      "c' = c1\<lparr>player := PLAYER_PLAY, pause_time := p, pause_start := 0, player_alarm := Some al\<rparr>"
      using c' by (auto split: bind_splits)
    have "alarm_inv al \<and> alarm_is_set al" using one by (intro update_alarm_eq(2) [OF _ now al(1)]) blast
    then show ?thesis using one unfolding al(2) by (simp add: client_core_def player_ok_def)
  next
    case False
    then show ?thesis using c' one by (auto simp: client_core_def player_ok_def)
  qed
qed

text \<open>One frame: the position moves, and after the last frame of a segment the segment is played.\<close>

definition play_frame :: "'k platform \<Rightarrow> 'k tcp_io \<Rightarrow> 'a dash_client \<Rightarrow> 'a dash_client" where
  "play_frame P io c =
     (let c' = c\<lparr>played_frames := played_frames c + 1\<rparr>
      in if played_frames c' smod frames_in_segment c' = 0
         then log_infomation P io (c'\<lparr>segments_in_buffer := segments_in_buffer c' - 1, playback_index := playback_index c' + 1\<rparr>)
         else c')"

definition played_out :: "'k platform \<Rightarrow> 'k tcp_io \<Rightarrow> 'a dash_client \<Rightarrow> 'a dash_client" where
  "played_out P io c =
     (if int (length (hd (representation (video c)))) \<le> playback_index c then c\<lparr>player := PLAYER_DONE\<rparr>
      else c\<lparr>player := PLAYER_PAUSED, pause_start := clock_now P (tcp_kernel io)\<rparr>)"

lemma play_back_eq:
  "play_back_handle P c io =
     (if 0 < segments_in_buffer c \<and> frames_in_segment c = 0 then None
      else
        let c1 = (if 0 < segments_in_buffer c then play_frame P io c else c)
        in if segments_in_buffer c1 = 0 then
             (if representation (video c1) = [] then None else Some (played_out P io c1))
           else if 0 < segments_in_buffer c1 then
             map_option (\<lambda>al. c1\<lparr>player_alarm := Some al\<rparr>) (update_alarm (player_alarm c1) (clock_now P (tcp_kernel io) + 40000))
           else Some c1)"
proof -
  have ms: "delta_from_milliseconds (1000 sdiv kFramesPerSecond) = 40000"
    by (simp add: delta_from_milliseconds_def kFramesPerSecond_def signed_divide_int_def)
  define rest where "rest c1 = Option.bind (if segments_in_buffer c1 = 0
            then (case representation (video c1) of
                    [] \<Rightarrow> None
                  | rep0 # _ \<Rightarrow>
                      Some (if int (length rep0) \<le> playback_index c1 then c1\<lparr>player := PLAYER_DONE\<rparr>
                            else c1\<lparr>player := PLAYER_PAUSED, pause_start := clock_now P (tcp_kernel io)\<rparr>))
            else Some c1) (\<lambda>c2. if 0 < segments_in_buffer c2
     then do {
       al \<leftarrow> update_alarm (player_alarm c2) (clock_now P (tcp_kernel io) + 40000);
       Some (c2\<lparr>player_alarm := Some al\<rparr>)
     } else Some c2)" for c1 :: "'a dash_client"
  have second: "rest c1 = (if segments_in_buffer c1 = 0 then
             (if representation (video c1) = [] then None else Some (played_out P io c1))
           else if 0 < segments_in_buffer c1 then
             map_option (\<lambda>al. c1\<lparr>player_alarm := Some al\<rparr>) (update_alarm (player_alarm c1) (clock_now P (tcp_kernel io) + 40000))
           else Some c1)" for c1
    by (cases "representation (video c1)"; cases "update_alarm (player_alarm c1) (clock_now P (tcp_kernel io) + 40000)")
      (simp_all add: rest_def played_out_def)
  have "play_back_handle P c io = Option.bind (if 0 < segments_in_buffer c
            then if frames_in_segment c = 0 then None else Some (play_frame P io c) else Some c) rest"
    unfolding play_back_handle_def ms rest_def by (simp add: Let_def play_frame_def)
  also have "\<dots> = (if 0 < segments_in_buffer c \<and> frames_in_segment c = 0 then None
      else rest (if 0 < segments_in_buffer c then play_frame P io c else c))" by simp
  finally show ?thesis unfolding second Let_def .
qed

lemma play_frame_fields [simp]:
  "representation (video (play_frame P io c)) = representation (video c)" "player_alarm (play_frame P io c) = player_alarm c"
  "frames_in_segment (play_frame P io c) = frames_in_segment c" "played_frames (play_frame P io c) = played_frames c + 1"
  "player (play_frame P io c) = player c" "video (play_frame P io c) = video c" "segment_counter (play_frame P io c) = segment_counter c"
  "buffer_levels (play_frame P io c) = buffer_levels c" "throughput (play_frame P io c) = throughput c"
  "dc_registered (play_frame P io c) = dc_registered c" "request_alarm (play_frame P io c) = request_alarm c"
  by (simp_all add: play_frame_def Let_def)

lemma play_frame_position:
  "segments_in_buffer (play_frame P io c) = segments_in_buffer c - (if (played_frames c + 1) smod frames_in_segment c = 0 then 1 else 0)"
  "playback_index (play_frame P io c) = playback_index c + (if (played_frames c + 1) smod frames_in_segment c = 0 then 1 else 0)"
  by (simp_all add: play_frame_def Let_def)

lemma next_frame: "0 < n \<Longrightarrow> 0 \<le> m \<Longrightarrow> (m + 1) div n = m div n + (if (m + 1) smod n = 0 then 1 else 0)" for m n :: int
proof -
  assume nm: "0 < n" "0 \<le> m"
  then have smod: "(m + 1) smod n = (m + 1) mod n" by (simp add: signed_modulo_int_def)
  have r: "0 \<le> m mod n" "m mod n < n" "m = n * (m div n) + m mod n" using nm by simp_all
  show ?thesis
  proof (cases "m mod n = n - 1")
    case True
    then have "m + 1 = n * (m div n) + n" using r(3) by linarith
    also have "\<dots> = n * (m div n + 1)" by (simp only: distrib_left mult_1_right)
    finally have eq: "m + 1 = n * (m div n + 1)" .
    have "(m + 1) div n = m div n + 1" "(m + 1) mod n = 0"
      using nm(1) by (subst eq, simp)+
    then show ?thesis by (simp only: smod if_True simp_thms)
  next
    case False
    then have small: "0 \<le> m mod n + 1" "m mod n + 1 < n" "m + 1 = n * (m div n) + (m mod n + 1)" using r by linarith+
    have "(m + 1) div n = m div n" using small(3,1,2) by (rule int_div_pos_eq)
    moreover have "(m + 1) mod n = m mod n + 1" using small(3,1,2) by (rule int_mod_pos_eq)
    moreover have "m mod n + 1 \<noteq> 0" using r(1) by linarith
    ultimately show ?thesis by (simp only: smod if_False add_0_right simp_thms)
  qed
qed

lemma play_frame_parts:
  assumes "played_ok c" "requests_ok c" "starts_ok c" "0 < segments_in_buffer c"
  shows "played_ok (play_frame P io c) \<and> requests_ok (play_frame P io c) \<and> starts_ok (play_frame P io c)"
proof -
  have "requests_ok (play_frame P io c) = requests_ok c" "starts_ok (play_frame P io c) = starts_ok c"
    by (simp_all add: play_frame_def Let_def requests_ok_def starts_ok_def)
  moreover have "played_ok (play_frame P io c)"
    using assms(1,4) next_frame [of "frames_in_segment c" "played_frames c"]
    by (auto simp: played_ok_def play_frame_position)
  ultimately show ?thesis using assms by simp
qed

lemma play_back_inv:
  assumes run: "play_back_handle P c io = Some c'" and clock: "clock_runs P"
    and inv: "levels_ok (segment_counter c) (segment_duration (video c)) (buffer_levels c) (throughput c)"
      "played_ok c" "requests_ok c" "starts_ok c"
    and alarm: "\<And>al. player_alarm c = Some al \<Longrightarrow> alarm_inv al"
    and state: "player c = PLAYER_PAUSED \<Longrightarrow> segments_in_buffer c = 0"
  shows "client_core c'"
proof -
  define c1 where "c1 = (if 0 < segments_in_buffer c then play_frame P io c else c)"
  have parts: "levels_ok (segment_counter c1) (segment_duration (video c1)) (buffer_levels c1) (throughput c1)"
    "played_ok c1" "requests_ok c1" "starts_ok c1" "\<And>al. player_alarm c1 = Some al \<Longrightarrow> alarm_inv al"
    "player c1 = PLAYER_PAUSED \<Longrightarrow> segments_in_buffer c1 = 0"
    using inv alarm state play_frame_parts [OF inv(2-4), of P io] by (auto simp: c1_def split: if_splits)
  have "0 \<le> segments_in_buffer c1" using parts(2) by (simp add: played_ok_def)
  then consider "segments_in_buffer c1 = 0" "c' = played_out P io c1"
    | al where "0 < segments_in_buffer c1" "update_alarm (player_alarm c1) (clock_now P (tcp_kernel io) + 40000) = Some al"
      "c' = c1\<lparr>player_alarm := Some al\<rparr>"
    using run unfolding play_back_eq c1_def [symmetric] Let_def by (auto split: if_splits)
  then show ?thesis
  proof cases
    case 1
    then show ?thesis using parts by (auto simp: played_out_def client_core_def player_ok_def)
  next
    case 2
    have "clock_now P (tcp_kernel io) + 40000 \<noteq> 0" using clock by (simp add: clock_runs_def) (metis add_pos_pos less_irrefl zero_less_numeral)
    from update_alarm_eq(2) [OF parts(5) this 2(2)] show ?thesis using parts 2(1) unfolding 2(3)
      by (auto simp: client_core_def player_ok_def)
  qed
qed

lemma play_back_fields:
  assumes run: "play_back_handle P c io = Some c'"
  shows "dc_fd c' = dc_fd c \<and> dc_registered c' = dc_registered c \<and> read_count c' = read_count c \<and>
    segment_counter c' = segment_counter c \<and> throughput c' = throughput c \<and> video c' = video c \<and>
    frames_in_segment c' = frames_in_segment c"
proof -
  have "dc_fd (play_frame P io c) = dc_fd c" "read_count (play_frame P io c) = read_count c"
    by (simp_all add: play_frame_def Let_def)
  then show ?thesis using run by (auto simp: play_back_eq Let_def played_out_def split: if_splits)
qed

section \<open>Receiving\<close>

lemma segment_received_parts:
  assumes run: "segment_received now c = Some c'"
    and levels: "levels_ok (segment_counter c) (segment_duration (video c)) (buffer_levels c) (throughput c)"
    and rest: "played_ok c" "requests_ok c" and start: "segment_counter c < int (length (transmission_start (throughput c)))"
  shows "levels_ok (segment_counter c') (segment_duration (video c')) (buffer_levels c') (throughput c') \<and>
    played_ok c' \<and> requests_ok c' \<and> 0 < segments_in_buffer c' \<and>
    segment_counter c' = segment_counter c + 1 \<and> segments_in_buffer c' = segments_in_buffer c + 1 \<and>
    segment_counter c' \<le> int (length (transmission_start (throughput c'))) \<and>
    player c' = player c \<and> player_alarm c' = player_alarm c \<and> dc_fd c' = dc_fd c \<and> dc_registered c' = dc_registered c \<and>
    read_count c' = read_count c"
proof -
  obtain old where old: "(if 0 < segment_counter c
             then do {
               ms \<leftarrow> last_of (buffer_level_new (buffer_levels c));
               ms' \<leftarrow> (if player c = PLAYER_INIT_BUFFERING then Some ms
                       else do {
                         ended \<leftarrow> last_of (transmission_end (throughput c));
                         Some (ms - delta_to_milliseconds (now - ended))
                       });
               Some (max ms' 0)
             } else Some 0) = Some old"
    and c': "c' = c\<lparr>session_bytes := u64_add (session_bytes c) (segment_bytes c),
       buffer_levels := \<lparr>time_now = time_now (buffer_levels c) @ [now],
         buffer_level_old = buffer_level_old (buffer_levels c) @ [old],
         buffer_level_new = buffer_level_new (buffer_levels c) @ [old + segment_duration (video c)]\<rparr>,
       throughput := (throughput c)\<lparr>transmission_end := transmission_end (throughput c) @ [now],
         bytes_received := bytes_received (throughput c) @ [to_int64 (read_count c)]\<rparr>,
       segment_counter := segment_counter c + 1, segments_in_buffer := segments_in_buffer c + 1\<rparr>"
    using run unfolding segment_received_def by (elim bind_SomeE) simp
  have "0 \<le> old" using old by (auto split: if_splits bind_splits)
  then show ?thesis using levels rest start unfolding c'
    by (simp add: levels_ok_def played_ok_def requests_ok_def)
qed

lemma client_core_closed: "client_core c \<Longrightarrow> client_core (fst (client_close P c io))"
  by (simp add: client_close_def client_core_def levels_ok_def played_ok_def requests_ok_def starts_ok_def player_ok_def)

lemma client_core_unregistered: "client_core (fst (client_unregister c io)) = client_core c"
  by (simp add: client_unregister_def client_core_def levels_ok_def played_ok_def requests_ok_def starts_ok_def player_ok_def)

lemma check_buffer_fields:
  assumes run: "check_buffer_status P c io = Some c'"
  shows "dc_fd c' = dc_fd c \<and> dc_registered c' = dc_registered c \<and> video c' = video c \<and> segment_index c' = segment_index c \<and>
    segments_in_buffer c' = segments_in_buffer c \<and> segment_counter c' = segment_counter c \<and> playback_index c' = playback_index c \<and>
    played_frames c' = played_frames c \<and> frames_in_segment c' = frames_in_segment c \<and> read_count c' = read_count c"
  using run by (auto simp: check_buffer_status_def Let_def split: if_splits bind_splits)

lemma request_segment_fields:
  assumes run: "request_segment P nq c io = Some (c', io')"
  shows "dc_fd c' = dc_fd c \<and> dc_registered c' = dc_registered c \<and> read_count c' = 0"
proof -
  obtain q delay a where nq: "nq c (clock_now P (tcp_kernel io)) (quality c) (segment_index c) = Some (q, delay, a)"
    using run unfolding request_segment_def Let_def by (elim bind_SomeE) auto
  obtain bytes where bytes: "segment_size (video c) q (segment_index c) = Some bytes"
    using run nq by (cases "segment_size (video c) q (segment_index c)") (simp_all add: request_segment_def Let_def)
  define c2 where "c2 = c\<lparr>algorithm := a, quality := q, history_quality := history_quality c @ [q], read_count := 0,
    segment_bytes := to_uint64 bytes\<rparr>"
  have rest: "(if delay \<noteq> 0 then do {
       al \<leftarrow> update_alarm (request_alarm c2) (clock_now P (tcp_kernel io) + delay);
       Some (c2\<lparr>request_alarm := Some al\<rparr>, io)
     } else delay_request_handle P c2 io) = Some (c', io')"
    using run nq bytes by (simp add: request_segment_def Let_def c2_def cong: if_cong split del: if_split)
  have "dc_fd c2 = dc_fd c" "dc_registered c2 = dc_registered c" "read_count c2 = 0" by (simp_all add: c2_def)
  then show ?thesis
    using rest by (cases rule: delay_request_cases [of P c2 io]) (auto split: if_splits bind_splits)
qed

lemma client_data_inv:
  assumes run: "client_data P nq n c io = Some (done, c', io')" and clock: "clock_runs P" and inv: "client_inv c" and fd: "0 < dc_fd c"
  shows "client_good c' \<and> (\<not> done \<longrightarrow> dc_fd c' = dc_fd c)"
proof -
  define now where "now = clock_now P (tcp_kernel io)"
  define c1 where "c1 = (if read_count c = 0
     then c\<lparr>throughput := (throughput c)\<lparr>transmission_start := transmission_start (throughput c) @ [now]\<rparr>\<rparr> else c)"
  define c2 where "c2 = c1\<lparr>read_count := u64_add (read_count c1) n\<rparr>"
  have parts: "levels_ok (segment_counter c2) (segment_duration (video c2)) (buffer_levels c2) (throughput c2)" "played_ok c2" "requests_ok c2"
    "segment_counter c2 < int (length (transmission_start (throughput c2)))" "player_ok c2" "dc_fd c2 = dc_fd c"
    using inv fd by (auto simp: client_inv_def client_core_def incoming_ok_def c2_def c1_def levels_ok_def played_ok_def requests_ok_def starts_ok_def player_ok_def)
  note body = run [unfolded client_data_def Let_def, folded now_def, folded c1_def, folded c2_def]
  show ?thesis
  proof (cases "read_count c2 = segment_bytes c2")
    case False
    then have "c' = c2" "\<not> done" using body by simp_all
    then show ?thesis using parts fd by (auto simp: client_good_def client_inv_def client_core_def starts_ok_def incoming_ok_def)
  next
    case True
    then obtain c3 c4 where c3: "segment_received now c2 = Some c3" and c4: "check_buffer_status P c3 io = Some c4"
      and rest: "(if representation (video c4) \<noteq> [] \<and> segment_index c4 = int (length (hd (representation (video c4))))
       then case client_unregister c4 io of (c5, io5) \<Rightarrow> case client_close P c5 io5 of (c6, io6) \<Rightarrow> Some (True, c6, io6)
       else do {
         (c5, io5) \<leftarrow> request_segment P nq c4 io;
         Some (False, log_infomation P io5 c5, io5)
       }) = Some (done, c', io')"
      using body [unfolded if_P [OF True]] by (elim bind_SomeE)
    note s3 = segment_received_parts [OF c3 parts(1-4)]
    have core: "client_core c4" using s3 parts(5)
      by (intro check_buffer_inv [OF c4 clock]) (auto simp: starts_ok_def player_ok_def)
    have fd4: "dc_fd c4 = dc_fd c" using check_buffer_fields [OF c4] s3 parts(6) by simp
    show ?thesis
    proof (cases "representation (video c4) \<noteq> [] \<and> segment_index c4 = int (length (hd (representation (video c4))))")
      case True
      then have "done" "c' = fst (client_close P (fst (client_unregister c4 io)) (snd (client_unregister c4 io)))"
        using rest by (auto split: prod.splits)
      moreover from this(2) have "incoming_ok c'" using fd4 fd
        by (simp add: incoming_ok_def client_close_def client_unregister_def)
      moreover have "\<not> dc_registered c'" using calculation(2) fd4 fd by (simp add: client_close_def client_unregister_def)
      ultimately show ?thesis using core by (simp add: client_good_def client_inv_def client_core_closed client_core_unregistered)
    next
      case False
      then obtain c5 where c5: "request_segment P nq c4 io = Some (c5, io')" "c' = log_infomation P io' c5" "\<not> done"
        using rest by (auto split: bind_splits)
      have "read_count c5 = 0" using request_segment_fields [OF c5(1)] by simp
      then have "incoming_ok c'" unfolding c5(2) by (simp add: incoming_ok_def)
      moreover have "client_core c'" using request_segment_inv [OF c5(1) core] unfolding c5(2) by simp
      moreover have "dc_fd c' = dc_fd c" using request_segment_fields [OF c5(1)] fd4 unfolding c5(2) by simp
      ultimately show ?thesis using fd by (simp add: client_good_def client_inv_def)
    qed
  qed
qed

lemma client_read_loop_inv:
  fixes P :: "'k platform" and nq :: "'a adaptation"
  assumes run: "client_read_loop P nq fd c io = Some (c', io')" and clock: "clock_runs P"
    and inv: "client_inv c" and fd: "0 < dc_fd c"
  shows "client_good c'"
proof -
  have "clock_runs P \<longrightarrow> client_inv c \<longrightarrow> 0 < dc_fd c \<longrightarrow> client_good (fst (c', io'))"
  proof (rule client_read_loop.raw_induct [where Pa = "\<lambda>((((P, nq), fd), c), io) r.
      clock_runs P \<longrightarrow> client_inv c \<longrightarrow> 0 < dc_fd c \<longrightarrow> client_good (fst r)", unfolded prod.case, OF _ run], intro impI)
    fix loop P fd and nq :: "'a adaptation" and c and io :: "'k tcp_io" and r
    assume IH: "\<And>P nq fd c io r. loop P nq fd c io = Some r \<Longrightarrow> clock_runs P \<longrightarrow> client_inv c \<longrightarrow> 0 < dc_fd c \<longrightarrow> client_good (fst r)"
      and body: "(case sys_read P (tcp_kernel io) fd kBufferSize of
        (None, k) \<Rightarrow> Some (c, io\<lparr>tcp_kernel := k\<rparr>)
      | (Some d, k) \<Rightarrow>
          if d = [] then
            let (c', io') = client_unregister c (io\<lparr>tcp_kernel := k\<rparr>)
            in loop P nq fd c' io'
          else Option.bind (client_data P nq (length d) c (io\<lparr>tcp_kernel := k\<rparr>)) (\<lambda>(done, c', io').
            if done then Some (c', io') else loop P nq fd c' io')) = Some r"
      and hyps: "clock_runs P" "client_inv c" "0 < dc_fd c"
    obtain d k where read: "sys_read P (tcp_kernel io) fd kBufferSize = (d, k)" by fastforce
    consider "d = None" | "d = Some []" | bytes where "d = Some bytes" "bytes \<noteq> []" by (cases d) auto
    then show "client_good (fst r)"
    proof cases
      case 1
      then show ?thesis using body read hyps by (auto simp: client_good_def)
    next
      case 2
      obtain c1 io1 where u: "client_unregister c (io\<lparr>tcp_kernel := k\<rparr>) = (c1, io1)" by fastforce
      then have "client_core c1" "dc_fd c1 = dc_fd c" "incoming_ok c1"
        using client_core_unregistered [of c "io\<lparr>tcp_kernel := k\<rparr>"] hyps(2)
        by (auto simp: client_inv_def incoming_ok_def client_unregister_def split: if_splits)
      moreover have "loop P nq fd c1 io1 = Some r" using body read 2 u by simp
      ultimately show ?thesis using IH hyps by (simp add: client_inv_def)
    next
      case 3
      then obtain stop c1 io1 where u: "client_data P nq (length bytes) c (io\<lparr>tcp_kernel := k\<rparr>) = Some (stop, c1, io1)"
        and rest: "(if stop then Some (c1, io1) else loop P nq fd c1 io1) = Some r"
        using body read by (auto split: bind_splits split del: if_split)
      from client_data_inv [OF u hyps] rest show ?thesis using IH [of P nq fd c1 io1 r] hyps by (auto simp: client_good_def split: if_splits)
    qed
  qed
  then show ?thesis using clock inv fd by simp
qed

section \<open>Events\<close>

lemma client_closed_event:
  assumes "closed_fails P" "0 < dc_fd c"
  shows "client_read_loop P nq (dc_fd c) (fst (client_close P c io)) (snd (client_close P c io)) =
    Some (fst (client_close P c io), (snd (client_close P c io))\<lparr>tcp_kernel := snd (sys_read P (sys_close P (tcp_kernel io) (dc_fd c)) (dc_fd c) kBufferSize)\<rparr>)"
proof -
  obtain k where "sys_read P (sys_close P (tcp_kernel io) (dc_fd c)) (dc_fd c) kBufferSize = (None, k)"
    using assms(1) unfolding closed_fails_def by (metis prod.collapse)
  then show ?thesis using assms(2) by (subst client_read_loop.simps) (simp add: client_close_def)
qed

lemma on_connected_inv:
  assumes run: "on_connected P nq c io = Some (c', io')" and inv: "client_core c"
  shows "client_inv c'"
proof -
  define c1 where "c1 = c\<lparr>first_request_time := clock_now P (tcp_kernel io), player := PLAYER_INIT_BUFFERING,
                player_alarm := Some alarm_new, request_alarm := Some alarm_new\<rparr>"
  obtain c2 where c2: "request_segment P nq c1 io = Some (c2, io')" "c' = log_infomation P io' c2"
    using run unfolding on_connected_def Let_def c1_def [symmetric] by (elim bind_SomeE) auto
  have new: "alarm_inv alarm_new" "\<not> alarm_is_set alarm_new"
    by (simp_all add: alarm_new_def alarm_inv_def alarm_is_set_def time_is_initialized_def)
  have "client_core c1" using inv new
    by (simp add: c1_def client_core_def levels_ok_def played_ok_def requests_ok_def starts_ok_def player_ok_def)
  then show ?thesis using request_segment_inv [OF c2(1)] request_segment_fields [OF c2(1)]
    by (simp add: c2(2) client_inv_def incoming_ok_def)
qed

lemma on_connected_fields:
  "on_connected P nq c io = Some (c', io') \<Longrightarrow> dc_fd c' = dc_fd c \<and> dc_registered c' = dc_registered c"
  unfolding on_connected_def Let_def by (elim bind_SomeE) (auto dest!: request_segment_fields)

lemma client_on_event_good:
  fixes P :: "'k platform" and nq :: "'a adaptation"
  assumes run: "client_on_event P nq (dc_fd c) events c io = Some (c', io')" and P: "clock_runs P" "closed_fails P"
    and inv: "client_inv c" and fd: "0 < dc_fd c"
  shows "client_good c'"
proof -
  define error where "error \<longleftrightarrow> events AND (EPOLLERR OR EPOLLRDHUP OR EPOLLHUP) \<noteq> 0"
  define c0 where "c0 = fst (client_unregister (c\<lparr>player := PLAYER_DONE\<rparr>) io)"
  define io0 where "io0 = snd (client_unregister (c\<lparr>player := PLAYER_DONE\<rparr>) io)"
  have first: "(if error then let (c', io') = client_unregister (c\<lparr>player := PLAYER_DONE\<rparr>) io in client_close P c' io' else (c, io)) =
      (if error then client_close P c0 io0 else (c, io))"
    by (simp add: c0_def io0_def split: prod.split)
  obtain c1 io1 where one: "(if error then client_close P c0 io0 else (c, io)) = (c1, io1)" by fastforce
  obtain c2 io2 where c2: "(if events AND EPOLLIN \<noteq> 0 then client_read_loop P nq (dc_fd c) c1 io1 else Some (c1, io1)) = Some (c2, io2)"
    and last: "(if events AND EPOLLOUT \<noteq> 0 \<and> dc_status c2 = TCP_CONNECTING
     then on_connected P nq (c2\<lparr>dc_status := TCP_CONNECTED\<rparr>)
       (if dc_registered c2 then tcp_event (Modify_Callback (dc_fd c2) (EPOLLIN OR EPOLLRDHUP OR EPOLLERR OR EPOLLET)) io2 else io2)
     else Some (c2, io2)) = Some (c', io')"
    using run unfolding client_on_event_def Let_def error_def [symmetric] first [unfolded Let_def] one prod.case
    by (elim bind_SomeE) auto
  have c0: "client_core c0" "dc_fd c0 = dc_fd c" "\<not> dc_registered c0"
    using inv fd client_core_unregistered [of "c\<lparr>player := PLAYER_DONE\<rparr>" io]
    by (auto simp: c0_def client_unregister_def client_inv_def client_core_def levels_ok_def player_ok_def)
  have good2: "client_good c2 \<and> (error \<longrightarrow> dc_status c2 = TCP_DISCONNECT)"
  proof (cases error)
    case True
    have closed: "client_good (fst (client_close P c0 io0)) \<and> dc_status (fst (client_close P c0 io0)) = TCP_DISCONNECT"
      using c0 fd client_core_closed [OF c0(1), of P io0] by (simp add: client_good_def client_inv_def incoming_ok_def client_close_def)
    then show ?thesis
      using c2 True one client_closed_event [OF P(2), of c0 nq io0] c0(2) fd by (auto split: if_splits)
  next
    case False
    then show ?thesis using c2 one client_read_loop_inv [OF _ P(1) inv fd] inv fd by (auto simp: client_good_def split: if_splits)
  qed
  show ?thesis
  proof (cases "events AND EPOLLOUT \<noteq> 0 \<and> dc_status c2 = TCP_CONNECTING")
    case True
    then have up: "on_connected P nq (c2\<lparr>dc_status := TCP_CONNECTED\<rparr>)
       (if dc_registered c2 then tcp_event (Modify_Callback (dc_fd c2) (EPOLLIN OR EPOLLRDHUP OR EPOLLERR OR EPOLLET)) io2 else io2) = Some (c', io')"
      using last by simp
    have "client_core (c2\<lparr>dc_status := TCP_CONNECTED\<rparr>)" using good2
      by (simp add: client_good_def client_inv_def client_core_def played_ok_def requests_ok_def starts_ok_def player_ok_def)
    from on_connected_inv [OF up this] on_connected_fields [OF up] show ?thesis using good2 by (simp add: client_good_def)
  next
    case False
    then show ?thesis using last good2 by (auto split: if_splits)
  qed
qed

lemma client_asyn_connect_good:
  assumes run: "client_asyn_connect P local remote (dash_client_new ms reps a n tr) io = (True, c, io')" and fd: "0 < dc_fd c"
  shows "client_good c"
proof -
  have new: "client_core (dash_client_new ms reps a n tr)"
    by (simp add: client_core_def dash_client_new_def levels_ok_def played_ok_def requests_ok_def starts_ok_def player_ok_def)
  have "\<exists>p. (p = PLAYER_NOT_STARTED \<or> p = PLAYER_INIT_BUFFERING) \<and> c = (dash_client_new ms reps a n tr)\<lparr>dc_fd := dc_fd c, dc_registered := True, player := p, dc_status := TCP_CONNECTING\<rparr>"
    using run by (auto simp: client_asyn_connect_def Let_def dash_client_new_def split: prod.splits if_splits connect_result.splits)
  then obtain p where p: "p = PLAYER_NOT_STARTED \<or> p = PLAYER_INIT_BUFFERING"
    and c: "c = (dash_client_new ms reps a n tr)\<lparr>dc_fd := dc_fd c, dc_registered := True, player := p, dc_status := TCP_CONNECTING\<rparr>" by blast
  have zero: "read_count (dash_client_new ms reps a n tr) = 0" by (simp add: dash_client_new_def)
  have "client_core c \<and> read_count c = 0" using new p zero
    by (subst (1 2) c) (auto simp: client_core_def played_ok_def requests_ok_def starts_ok_def player_ok_def)
  then show ?thesis using fd by (simp add: client_good_def client_inv_def incoming_ok_def)
qed

section \<open>Reachable states\<close>

text \<open>From a connection that was started, with any events and any changes of the kernel in between.\<close>

inductive client_reachable :: "'k platform \<Rightarrow> 'a adaptation \<Rightarrow> 'a dash_client \<times> 'k tcp_io \<Rightarrow> bool" for P nq where
  client_reach_start: "client_asyn_connect P local remote (dash_client_new ms reps a n tr) io = (True, c, io') \<Longrightarrow>
    0 < dc_fd c \<Longrightarrow> client_reachable P nq (c, io')"
| client_reach_event: "client_reachable P nq s \<Longrightarrow> client_handle P nq act s = Some s' \<Longrightarrow> client_reachable P nq s'"
| client_reach_kernel: "client_reachable P nq (c, io) \<Longrightarrow> client_reachable P nq (c, io\<lparr>tcp_kernel := k\<rparr>)"

lemma alarm_fired_core:
  assumes "client_core c" "player_alarm c = Some al"
  shows "levels_ok (segment_counter c) (segment_duration (video c)) (buffer_levels c) (throughput c)" "played_ok c" "requests_ok c" "starts_ok c"
    "alarm_inv (snd (alarm_on_epoll al))" "player c = PLAYER_PAUSED \<Longrightarrow> segments_in_buffer c = 0"
    "\<not> fst (alarm_on_epoll al) \<Longrightarrow> player c \<noteq> PLAYER_PLAY"
  using assms alarm_on_epoll_inv [of al]
  by (auto simp: client_core_def player_ok_def alarm_is_set_def time_is_initialized_def)

lemma player_alarm_good:
  assumes run: "client_handle P nq Player_Alarm (c, io) = Some (c', io')" and clock: "clock_runs P" and good: "client_good c"
  shows "client_good c'"
proof (cases "player_alarm c")
  case None
  then show ?thesis using run good by simp
next
  case (Some al)
  have core: "client_core c" using good by (simp add: client_good_def client_inv_def)
  note fired = alarm_fired_core [OF core Some]
  define c1 where "c1 = c\<lparr>player_alarm := Some (snd (alarm_on_epoll al))\<rparr>"
  have c1: "incoming_ok c1" "dc_registered c1 \<longrightarrow> 0 < dc_fd c1"
    using good by (simp_all add: c1_def client_good_def client_inv_def incoming_ok_def)
  show ?thesis
  proof (cases "fst (alarm_on_epoll al)")
    case True
    then have run': "play_back_handle P c1 io = Some c'" using run Some by (auto simp: c1_def split: prod.splits)
    have "client_core c'" using fired by (intro play_back_inv [OF run' clock]) (auto simp: c1_def)
    moreover have "incoming_ok c' \<and> (dc_registered c' \<longrightarrow> 0 < dc_fd c')"
      using play_back_fields [OF run'] c1 by (simp add: incoming_ok_def)
    ultimately show ?thesis by (simp add: client_good_def client_inv_def)
  next
    case False
    then have "c' = c1" using run Some by (auto simp: c1_def split: prod.splits)
    moreover have "client_core c1" using fired False by (simp add: c1_def client_core_def player_ok_def)
    ultimately show ?thesis using c1 by (simp add: client_good_def client_inv_def)
  qed
qed

lemma request_alarm_good:
  assumes run: "client_handle P nq Request_Alarm (c, io) = Some (c', io')" and good: "client_good c"
  shows "client_good c'"
proof (cases "request_alarm c")
  case None
  then show ?thesis using run good by simp
next
  case (Some al)
  have core: "client_core c" using good by (simp add: client_good_def client_inv_def)
  define c1 where "c1 = c\<lparr>request_alarm := Some (snd (alarm_on_epoll al))\<rparr>"
  have al: "alarm_inv al" "alarm_is_set al \<Longrightarrow> segment_index c < int (length (history_quality c))"
    using core Some by (auto simp: client_core_def requests_ok_def)
  have unset: "alarm_inv (snd (alarm_on_epoll al))" "\<not> alarm_is_set (snd (alarm_on_epoll al))" "fst (alarm_on_epoll al) = alarm_is_set al"
    using alarm_on_epoll_inv [OF al(1)] by (auto simp: alarm_is_set_def time_is_initialized_def)
  have c1: "client_core c1" "incoming_ok c1" "dc_registered c1 \<longrightarrow> 0 < dc_fd c1" "segment_index c1 = segment_index c" "history_quality c1 = history_quality c"
    using good unset core by (auto simp: c1_def client_good_def client_inv_def client_core_def played_ok_def requests_ok_def starts_ok_def player_ok_def incoming_ok_def)
  show ?thesis
  proof (cases "alarm_is_set al")
    case True
    then have run': "delay_request_handle P c1 io = Some (c', io')" using run Some unset by (auto simp: c1_def split: prod.splits)
    have "client_core c'"
      using unset al(2) [OF True] c1(4,5) by (intro delay_request_inv [OF run' c1(1)]) (auto simp: c1_def)
    moreover have "incoming_ok c' \<and> (dc_registered c' \<longrightarrow> 0 < dc_fd c')"
      using run' c1 by (cases rule: delay_request_cases [of P c1 io]) (auto simp: incoming_ok_def)
    ultimately show ?thesis by (simp add: client_good_def client_inv_def)
  next
    case False
    then have "c' = c1" using run Some unset by (auto simp: c1_def split: prod.splits)
    then show ?thesis using c1 by (simp add: client_good_def client_inv_def)
  qed
qed

lemma client_reachable_good:
  assumes "client_reachable P nq s" "clock_runs P" "closed_fails P"
  shows "client_good (fst s)"
  using assms(1)
proof (induction rule: client_reachable.induct)
  case (client_reach_start local remote ms reps a n tr io c io')
  then show ?case by (auto intro: client_asyn_connect_good)
next
  case (client_reach_event s act s')
  obtain c io c' io' where s: "s = (c, io)" "s' = (c', io')" by (metis surj_pair)
  note run = client_reach_event.hyps(2) [unfolded s]
  have good: "client_good c" using client_reach_event.IH s by simp
  have "client_good c'"
  proof (cases act)
    case (Client_Event events)
    then show ?thesis using run good client_on_event_good [OF _ assms(2,3), of nq c events io c' io']
      by (auto simp: client_good_def split: if_splits)
  next
    case Player_Alarm
    then show ?thesis using run player_alarm_good [OF _ assms(2) good] by simp
  next
    case Request_Alarm
    then show ?thesis using run request_alarm_good [OF _ good] by simp
  next
    case Client_Shutdown
    then have "c' = (fst (client_close P c io))\<lparr>dc_registered := False\<rparr>" using run by (auto split: prod.splits)
    moreover have "client_core (fst (client_close P c io))" using good client_core_closed by (auto simp: client_good_def client_inv_def)
    ultimately show ?thesis using good
      by (auto simp: client_good_def client_inv_def client_core_def played_ok_def requests_ok_def starts_ok_def player_ok_def
          incoming_ok_def client_close_def)
  qed
  then show ?case by (simp add: s)
qed simp

end

