(* ===== verification/Sample_Dash.thy ===== *)
theory Sample_Dash
  imports Dash_Serving Dash_Client_Laws
begin

text \<open>
  A concrete kernel for the DASH server and client: connections that wait to be accepted and a script of what
  the reads return.  Writing accepts everything, and the clock stands at one millisecond.
\<close>

type_synonym dash_kernel = "int list \<times> byte list option list"

definition dash_platform :: "dash_kernel platform" where
  "dash_platform = \<lparr>
     sys_send = \<lambda>k fd d. (if fd < 0 then - 1 else int (length d), k),
     sys_read = \<lambda>k fd n. (case snd k of [] \<Rightarrow> (None, k) | r # rs \<Rightarrow> (map_option (take n) r, (fst k, rs))),
     sys_close = \<lambda>k fd. (fst k, []),
     sys_socket = \<lambda>k. (5, k),
     sys_reuse_addr = \<lambda>k fd. (True, k),
     sys_bind = \<lambda>k fd a. (True, k),
     sys_connect = \<lambda>k fd a. (Connect_Started, k),
     sys_original_dst = \<lambda>k fd. None,
     clock_now = \<lambda>k. 1000,
     tcp_bytes_acked = \<lambda>k fd. None,
     gain_scale = \<lambda>b. b,
     ratio_share = \<lambda>n a t. n\<rparr>"

definition dash_listening :: "dash_kernel listening" where
  "dash_listening = \<lparr>
     sys_accept = \<lambda>k fd. (case fst k of [] \<Rightarrow> (- 1, k) | s # ss \<Rightarrow> (s, (ss, snd k))),
     sys_listen = \<lambda>k fd n. (True, k),
     sys_set_option = \<lambda>k fd opt. (True, k)\<rparr>"

definition dash_stack :: "dash_kernel \<Rightarrow> byte list" where
  "dash_stack k = replicate kBufferSize 0"

lemma dash_platform_fields [simp]:
  "sys_send dash_platform k fd d = (if fd < 0 then - 1 else int (length d), k)"
  "sys_read dash_platform k fd n = (case snd k of [] \<Rightarrow> (None, k) | r # rs \<Rightarrow> (map_option (take n) r, (fst k, rs)))"
  "sys_close dash_platform k fd = (fst k, [])" "sys_socket dash_platform k = (5, k)" "sys_bind dash_platform k fd a = (True, k)"
  "sys_reuse_addr dash_platform k fd = (True, k)" "sys_connect dash_platform k fd a = (Connect_Started, k)"
  "clock_now dash_platform k = 1000"
  by (simp_all add: dash_platform_def)

lemma dash_listening_fields [simp]:
  "sys_accept dash_listening k fd = (case fst k of [] \<Rightarrow> (- 1, k) | s # ss \<Rightarrow> (s, (ss, snd k)))"
  "sys_listen dash_listening k fd n = (True, k)" "sys_set_option dash_listening k fd opt = (True, k)"
  by (simp_all add: dash_listening_def)

lemma dash_posix: "posix dash_platform"
  by (auto simp: posix_def split: list.splits)

lemma dash_writes: "writes_or_fails dash_platform"
  by (simp add: writes_or_fails_def)

lemma dash_closed: "closed_fails dash_platform"
  by (simp add: closed_fails_def)

lemma dash_clock: "clock_runs dash_platform"
  by (simp add: clock_runs_def)

lemma dash_stack_full: "stack_full dash_stack"
  by (simp add: stack_full_def dash_stack_def)

definition dash_io :: "dash_kernel \<Rightarrow> dash_kernel tcp_io" where
  "dash_io k = \<lparr>tcp_kernel = k, tcp_log = [], tcp_posted = []\<rparr>"

lemma dash_io_fields [simp]: "tcp_kernel (dash_io k) = k" "tcp_posted (dash_io k) = []" "tcp_sent fd (dash_io k) = []"
  by (simp_all add: dash_io_def tcp_sent_def)

text \<open>An algorithm that keeps the quality, without delay.\<close>

definition keep_quality :: "unit adaptation" where
  "keep_quality c now q i = Some (q, 0, ())"

definition sample_dash_client :: "int list \<Rightarrow> unit dash_client" where
  "sample_dash_client sizes = fst (snd (client_asyn_connect dash_platform (0, 0) (1, 3333) (dash_client_new 40 [sizes] () 2 False) (dash_io ([], []))))"

lemma sample_dash_client_eq:
  "sample_dash_client sizes = (dash_client_new 40 [sizes] () 2 False)\<lparr>dc_fd := 5, dc_registered := True, dc_status := TCP_CONNECTING\<rparr>"
  by (simp add: sample_dash_client_def client_asyn_connect_def Let_def dash_client_new_def)

text \<open>Connected, with the first request on its way.\<close>

definition connected_client :: "int list \<Rightarrow> unit dash_client" where
  "connected_client sizes = (case on_connected dash_platform keep_quality ((sample_dash_client sizes)\<lparr>dc_status := TCP_CONNECTED\<rparr>) (dash_io ([], [])) of
     Some (c, _) \<Rightarrow> c | None \<Rightarrow> sample_dash_client sizes)"

end
