(* ===== verification/Dash_Properties.thy ===== *)
theory Dash_Properties
  imports Sample_Dash
begin

text \<open>
  The properties of the DASH server and client and of the listening server under the first of them.
\<close>

section \<open>The server\<close>

text \<open>
  C17: \<open>Responce\<close> answers the queued requests in order.  Whatever the kernel accepts, it returns, and what it has
  written is exactly what the server owes its client less before than after; the requests
  that are answered leave the queue from the front, and it stops only when nothing is queued or a write
  failed.
\<close>

theorem dash_answers:
  assumes "posix P" "writes_or_fails P" "stack_full stack" "queue_ok e"
  shows "\<exists>e' io' data m. responce P stack e io = Some (e', io') \<and>
    tcp_sent (te_fd e) io' = tcp_sent (te_fd e) io @ data \<and> owed e = owed e' + int (length data) \<and> queue_ok e' \<and>
    request_bytes e' = drop m (request_bytes e) \<and>
    (request_bytes e' = [] \<or> (\<exists>k d. fst (sys_send P k (te_fd e) d) < 0))"
  unfolding responce_def by (rule response_loop_serves [OF assms refl])

theorem dash_answers_witness:
  "\<exists>e' io' data. responce dash_platform dash_stack ((fst (dash_new 0 7 (dash_io ([], []))))\<lparr>request_bytes := [3, 2], sent_bytes := 1\<rparr>) (dash_io ([], []))
      = Some (e', io') \<and> tcp_sent 7 io' = data \<and> length data = 4 \<and> request_bytes e' = []"
proof -
  let ?e = "(fst (dash_new 0 7 (dash_io ([], []))))\<lparr>request_bytes := [3, 2], sent_bytes := 1\<rparr>"
  have e: "te_fd ?e = 7" "queue_ok ?e" by (simp_all add: dash_new_def queue_ok_def)
  obtain e' io' data where run: "responce dash_platform dash_stack ?e (dash_io ([], [])) = Some (e', io')"
    "tcp_sent 7 io' = data" "owed ?e = owed e' + int (length data)" "queue_ok e'"
    "request_bytes e' = [] \<or> (\<exists>k d. fst (sys_send dash_platform k 7 d) < 0)"
    using dash_answers [OF dash_posix dash_writes dash_stack_full e(2), of "dash_io ([], [])"] e(1) by auto
  then have "request_bytes e' = []" by simp
  moreover from this run(4) have "owed e' = 0" by (simp add: owed_def queue_ok_def)
  moreover have "owed ?e = 4" by (simp add: owed_def)
  ultimately show ?thesis using run by auto
qed

text \<open>
  C25: A request of the client reaches the server as it was sent, if it comes in one read: it joins the queue and is answered.
  What follows it in the same read, a second request for instance, is dropped; and a read that ends
  within the message is ignored altogether.
\<close>

theorem dash_request_roundtrip:
  assumes "request_message n = Some message" "0 \<le> n" "n < 2 ^ 31" "length extra < 2 ^ 63"
  shows "dash_data P stack fd (message @ extra) e io =
      responce P stack (e\<lparr>request_counter := request_counter e + 1, request_bytes := request_bytes e @ [n]\<rparr>)
        (endpoint_modify e fd (EPOLLIN OR EPOLLOUT) io) \<and>
    (m < 5 \<longrightarrow> dash_data P stack fd (take m message) e io = Some (e, io))"
proof -
  have message: "message = DASH_REQ # be_bytes 4 (nat n)" using assms(1-3) by (simp add: request_message_eq DASH_REQ_def)
  have "be_nat (be_bytes 4 (nat n)) = nat n" using assms(2,3) by (simp add: be_nat_be_bytes)
  then have "parse_request (message @ extra) = Some n"
    using assms(2-4) by (subst parse_request_eq) (simp_all add: message to_int32_small)
  moreover have "parse_request (take m message) = None" if "m < 5"
    using that by (subst parse_request_eq) (auto simp: message)
  ultimately show ?thesis by (simp add: dash_data_def)
qed

theorem dash_request_roundtrip_witness:
  "dash_data dash_platform dash_stack 7 (0 # be_bytes 4 1000 @ 0 # be_bytes 4 2000) (fst (dash_new 0 7 (dash_io ([], [])))) (dash_io ([], [])) =
    responce dash_platform dash_stack ((fst (dash_new 0 7 (dash_io ([], []))))\<lparr>request_counter := 1, request_bytes := [1000]\<rparr>)
      (tcp_event (Modify_Callback 7 (EPOLLIN OR EPOLLOUT)) (dash_io ([], [])))"
  using dash_request_roundtrip [of 1000 "0 # be_bytes 4 1000" "0 # be_bytes 4 2000" dash_platform dash_stack 7
      "fst (dash_new 0 7 (dash_io ([], [])))" "dash_io ([], [])" 0]
  by (simp add: request_message_eq dash_new_def endpoint_modify_def)

text \<open>
  C26: Every endpoint of the listening server is deleted once.  In every state that the server reaches, the posted
  deletions are those of the destroyed endpoints, once each, so the tasks run without fault and
  remove exactly those.  But a server that ends while an endpoint is alive calls back into its task queue
  when that is already gone.
\<close>

theorem dash_server_life:
  assumes "tcp_reachable P Q (dash_class P stack) w"
  shows "distinct (tcp_posted (ts_io w)) \<and>
    (\<forall>j. j \<in> set (tcp_posted (ts_io w)) \<longleftrightarrow> (\<exists>e. ts_endpoints w j = Some e \<and> te_destroyed e)) \<and>
    (\<forall>j e. ts_endpoints w j = Some e \<longrightarrow> te_destroyed e \<longrightarrow> te_registered e = None \<and> te_fd e \<le> 0) \<and>
    tcp_execute_tasks w = Some (w\<lparr>ts_endpoints := (\<lambda>j. if j \<in> set (tcp_posted (ts_io w)) then None else ts_endpoints w j),
      ts_io := (ts_io w)\<lparr>tcp_posted := []\<rparr>\<rparr>) \<and>
    (tcp_server_destroy P w = None \<longleftrightarrow> (\<exists>j e. ts_endpoints w j = Some e \<and> \<not> te_destroyed e))"
proof -
  have inv: "endpoints_inv w" using assms by (rule dash.tcp_reachable_inv)
  show ?thesis
    using inv tcp_execute_tasks_eq [OF inv] dash.destroy_live [OF inv, of P]
    by (auto simp: endpoints_inv_def endpoint_inv_def)
qed

theorem dash_server_life_witness:
  "\<exists>w. tcp_reachable dash_platform dash_listening (dash_class dash_platform dash_stack) w \<and> ts_endpoints w 0 \<noteq> None \<and>
    tcp_server_destroy dash_platform w = None"
proof -
  let ?w0 = "snd (tcp_server_init dash_platform dash_listening (0, 3333) (tcp_server_new dash_platform ([7], []))) :: (dash_endpoint, dash_kernel) tcp_server"
  have "tcp_server_init dash_platform dash_listening (0, 3333) (tcp_server_new dash_platform ([7], [])) = (True, ?w0)"
    by (simp add: tcp_server_init_def tcp_server_new_def ps_create_def ps_set_option_def ps_bind_def ps_listen_def Let_def)
  then have start: "tcp_reachable dash_platform dash_listening (dash_class dash_platform dash_stack) ?w0" by (rule tcp_reach_start)
  obtain w1 where w1: "tcp_handle dash_listening (dash_class dash_platform dash_stack) (Listener_Event EPOLLIN) ?w0 = Some w1"
    "\<exists>e. ts_endpoints w1 0 = Some e \<and> \<not> te_destroyed e"
    apply (simp add: tcp_server_init_def tcp_server_new_def ps_create_def ps_set_option_def ps_bind_def ps_listen_def Let_def
        listener_on_event_def EPOLLIN_def)
    apply (subst (asm) accept_loop.simps)
    apply (simp add: create_endpoint_def dash_class_def dash_new_def)
    apply (subst (asm) accept_loop.simps)
    apply simp
    done
  have reach: "tcp_reachable dash_platform dash_listening (dash_class dash_platform dash_stack) w1" by (rule tcp_reach_step [OF start w1(1)])
  have "tcp_server_destroy dash_platform w1 = None" using dash_server_life [OF reach] w1(2) by blast
  then show ?thesis using reach w1(2) by auto
qed

end
