(* ===== verification/Dash_Playing.thy ===== *)
theory Dash_Playing
  imports Dash_Client_Laws
begin

text \<open>
  Runs of the DASH client: playing a video to its end, reading a segment in pieces, and the two ways in
  which the client gets stuck.
\<close>

section \<open>Playing to the end\<close>

text \<open>Everything is received, and the player runs: \<open>n\<close> frames are left.\<close>

definition playing :: "int \<Rightarrow> 'a dash_client \<Rightarrow> bool" where
  "playing n c \<longleftrightarrow> played_ok c \<and> 0 < frames_in_segment c \<and> 0 < segments_in_buffer c \<and>
     n = segment_counter c * frames_in_segment c - played_frames c \<and>
     (\<exists>rep0 reps. representation (video c) = rep0 # reps \<and> int (length rep0) = segment_counter c) \<and>
     (\<exists>al. player_alarm c = Some al \<and> alarm_inv al \<and> alarm_is_set al)"

lemma position_bound:
  fixes s p f m :: int
  assumes "p = m div f" "0 < f" "0 < s"
  shows "0 < (s + p) * f - m"
proof -
  have "m = f * (m div f) + m mod f" "m mod f < f" using assms(2) by simp_all
  then have "m < f * p + f" unfolding assms(1) by linarith
  also have "f * p + f = (1 + p) * f" by (simp only: distrib_right mult_1 mult.commute [of f] add.commute)
  also have "\<dots> \<le> (s + p) * f" using assms(2,3) by (intro mult_right_mono) linarith+
  finally show ?thesis by simp
qed

lemma div_below:
  fixes x f k :: int
  assumes "0 < f" "x < k * f"
  shows "x div f < k"
proof (rule ccontr)
  assume "\<not> x div f < k"
  then have "k * f \<le> (x div f) * f" using assms(1) by (intro mult_right_mono) linarith+
  also have "\<dots> \<le> x" using assms(1) minus_mod_eq_div_mult [of x f] pos_mod_sign [of f x] by linarith
  finally show False using assms(2) by linarith
qed

lemma playing_step:
  assumes p: "playing n c" and clock: "clock_runs P"
  shows "0 < n \<and> (\<exists>c'. client_handle P nq Player_Alarm (c, io) = Some (c', io) \<and>
    played_frames c' = played_frames c + 1 \<and> segment_counter c' = segment_counter c \<and> frames_in_segment c' = frames_in_segment c \<and>
    (if n = 1 then player c' = PLAYER_DONE \<and> segments_in_buffer c' = 0 \<and> playback_index c' = segment_counter c
     else playing (n - 1) c'))"
proof -
  obtain al rep0 reps where al: "player_alarm c = Some al" "alarm_inv al" "alarm_is_set al"
    and rep: "representation (video c) = rep0 # reps" "int (length rep0) = segment_counter c"
    and ok: "played_ok c" "0 < frames_in_segment c" "0 < segments_in_buffer c" "n = segment_counter c * frames_in_segment c - played_frames c"
    using p by (auto simp: playing_def)
  define al0 where "al0 = snd (alarm_on_epoll al)"
  have fire: "alarm_on_epoll al = (True, al0)" "alarm_inv al0"
    using alarm_on_epoll_inv [OF al(2)] al(3) by (auto simp: al0_def alarm_is_set_def time_is_initialized_def prod_eq_iff)
  define c1 where "c1 = c\<lparr>player_alarm := Some al0\<rparr>"
  define c2 where "c2 = play_frame P io c1"
  have counter: "segment_counter c = segments_in_buffer c + playback_index c" "playback_index c = played_frames c div frames_in_segment c"
    using ok by (auto simp: played_ok_def)
  have pos: "0 < n" using position_bound [OF counter(2) ok(2,3)] ok(4) by (simp add: counter(1))
  have run: "client_handle P nq Player_Alarm (c, io) = map_option (\<lambda>c. (c, io)) (play_back_handle P c1 io)"
    using al(1) fire by (simp add: c1_def)
  have c2: "played_ok c2" "played_frames c2 = played_frames c + 1" "segment_counter c2 = segment_counter c"
    "frames_in_segment c2 = frames_in_segment c" "video c2 = video c" "player_alarm c2 = Some al0"
  proof -
    have "played_ok c1" "0 < segments_in_buffer c1" using ok by (simp_all add: c1_def)
    then show "played_ok c2" using play_frame_position [of P io c1] next_frame [of "frames_in_segment c1" "played_frames c1"]
      by (auto simp: c2_def played_ok_def)
  qed (simp_all add: c2_def c1_def)
  have sum: "segments_in_buffer c2 + playback_index c2 = segment_counter c" "playback_index c2 = (played_frames c + 1) div frames_in_segment c"
    "0 \<le> segments_in_buffer c2"
    using c2 ok(2) by (auto simp: played_ok_def)
  have body: "play_back_handle P c1 io = (if segments_in_buffer c2 = 0 then Some (played_out P io c2)
      else map_option (\<lambda>al. c2\<lparr>player_alarm := Some al\<rparr>) (update_alarm (player_alarm c2) (clock_now P (tcp_kernel io) + 40000)))"
    using ok(2,3) sum(3) rep(1) c2(5) unfolding play_back_eq c2_def [symmetric] by (auto simp: c1_def Let_def c2_def [symmetric, unfolded c1_def])
  show ?thesis
  proof (cases "n = 1")
    case True
    then have "played_frames c + 1 = segment_counter c * frames_in_segment c" using ok(4) by simp
    then have "playback_index c2 = segment_counter c" using sum(2) ok(2) by simp
    then have zero: "segments_in_buffer c2 = 0" "playback_index c2 = segment_counter c" using sum(1) by simp_all
    then have "play_back_handle P c1 io = Some (c2\<lparr>player := PLAYER_DONE\<rparr>)"
      using body rep c2(5) by (simp add: played_out_def)
    then show ?thesis using run pos True zero c2 by auto
  next
    case False
    then have "played_frames c + 1 < segment_counter c * frames_in_segment c" using ok(4) pos by simp
    then have "playback_index c2 < segment_counter c" unfolding sum(2)
      using ok(2) by (intro div_below)
    then have some: "0 < segments_in_buffer c2" using sum(1) by simp
    have t: "clock_now P (tcp_kernel io) + 40000 \<noteq> 0" using clock by (simp add: clock_runs_def) (metis add_pos_pos less_irrefl zero_less_numeral)
    have alarm: "\<And>al. player_alarm c2 = Some al \<Longrightarrow> alarm_inv al" using c2(6) fire(2) by simp
    obtain al2 where al2: "update_alarm (player_alarm c2) (clock_now P (tcp_kernel io) + 40000) = Some al2"
      using update_alarm_eq(1) [OF alarm t] c2(6) by auto
    have "playing (n - 1) (c2\<lparr>player_alarm := Some al2\<rparr>)"
      using update_alarm_eq(2) [OF alarm t al2] c2 some ok rep by (simp add: playing_def)
    then show ?thesis using run body some al2 pos False c2 by auto
  qed
qed

lemma playing_run:
  assumes clock: "clock_runs P"
  shows "playing (int (Suc m)) c \<Longrightarrow>
    \<exists>c'. ((\<lambda>s. Option.bind s (client_handle P nq Player_Alarm)) ^^ Suc m) (Some (c, io)) = Some (c', io) \<and>
      player c' = PLAYER_DONE \<and> segments_in_buffer c' = 0 \<and> playback_index c' = segment_counter c \<and>
      played_frames c' = segment_counter c * frames_in_segment c"
proof (induction m arbitrary: c)
  case 0
  then have "segment_counter c * frames_in_segment c = played_frames c + 1" by (simp add: playing_def)
  then show ?case using playing_step [OF 0 clock, of nq io] by (auto simp del: client_handle.simps)
next
  case (Suc m)
  obtain c1 where c1: "client_handle P nq Player_Alarm (c, io) = Some (c1, io)" "segment_counter c1 = segment_counter c"
    "frames_in_segment c1 = frames_in_segment c" "playing (int (Suc m)) c1"
    using playing_step [OF Suc.prems clock, of nq io] by (auto simp: algebra_simps simp del: client_handle.simps)
  from Suc.IH [OF c1(4)] c1 show ?case
    by (simp add: funpow_Suc_right del: funpow.simps client_handle.simps)
qed

section \<open>A segment in pieces\<close>

text \<open>The kernel hands out the pieces \<open>ds\<close>, none of them empty, while the clock stands at \<open>t\<close>.\<close>

inductive reads_pieces :: "'k platform \<Rightarrow> int \<Rightarrow> quic_time \<Rightarrow> 'k \<Rightarrow> byte list list \<Rightarrow> 'k \<Rightarrow> bool" for P fd t where
  reads_last: "sys_read P k fd kBufferSize = (Some d, k') \<Longrightarrow> d \<noteq> [] \<Longrightarrow> clock_now P k' = t \<Longrightarrow> reads_pieces P fd t k [d] k'"
| reads_more: "sys_read P k fd kBufferSize = (Some d, k1) \<Longrightarrow> d \<noteq> [] \<Longrightarrow> clock_now P k1 = t \<Longrightarrow> reads_pieces P fd t k1 ds k' \<Longrightarrow>
    reads_pieces P fd t k (d # ds) k'"

definition finish_data ::
  "'k platform \<Rightarrow> 'a adaptation \<Rightarrow> int \<Rightarrow> nat \<Rightarrow> 'a dash_client \<Rightarrow> 'k tcp_io \<Rightarrow> ('a dash_client \<times> 'k tcp_io) option" where
  "finish_data P nq fd n c io = Option.bind (client_data P nq n c io) (\<lambda>(stop, c', io').
     if stop then Some (c', io') else client_read_loop P nq fd c' io')"

lemma client_read_one:
  assumes "sys_read P (tcp_kernel io) fd kBufferSize = (Some d, k)" "d \<noteq> []"
  shows "client_read_loop P nq fd c io = finish_data P nq fd (length d) c (io\<lparr>tcp_kernel := k\<rparr>)"
  using assms by (subst client_read_loop.simps) (simp add: finish_data_def)

lemma client_data_partial:
  assumes "0 < n" "0 < m" "read_count c + n + m \<le> segment_bytes c" "segment_bytes c < 2 ^ 64" "clock_now P k = clock_now P k'"
  shows "\<exists>c1. client_data P nq n c (io\<lparr>tcp_kernel := k\<rparr>) = Some (False, c1, io\<lparr>tcp_kernel := k\<rparr>) \<and>
    read_count c1 = read_count c + n \<and> segment_bytes c1 = segment_bytes c \<and>
    client_data P nq m c1 (io\<lparr>tcp_kernel := k'\<rparr>) = client_data P nq (n + m) c (io\<lparr>tcp_kernel := k'\<rparr>)"
proof -
  define c0 where "c0 = (if read_count c = 0
     then c\<lparr>throughput := (throughput c)\<lparr>transmission_start := transmission_start (throughput c) @ [clock_now P k]\<rparr>\<rparr> else c)"
  define c1 where "c1 = c0\<lparr>read_count := read_count c + n\<rparr>"
  have c0: "read_count c0 = read_count c" "segment_bytes c0 = segment_bytes c" by (simp_all add: c0_def)
  have add: "u64_add (read_count c) n = read_count c + n" "u64_add (read_count c + n) m = read_count c + n + m"
    "u64_add (read_count c) (n + m) = read_count c + n + m"
    using assms(3,4) by (simp_all add: u64_add_no_wrap)
  have one: "client_data P nq n c (io\<lparr>tcp_kernel := k\<rparr>) = Some (False, c1, io\<lparr>tcp_kernel := k\<rparr>)"
    using assms(2,3) c0 add(1) by (simp add: client_data_def Let_def c0_def [symmetric] c1_def)
  have "c1\<lparr>read_count := u64_add (read_count c1) m\<rparr> = c0\<lparr>read_count := u64_add (read_count c0) (n + m)\<rparr>"
    using c0 add by (simp add: c1_def)
  moreover have "read_count c1 \<noteq> 0" using assms(1) by (simp add: c1_def)
  ultimately have "client_data P nq m c1 (io\<lparr>tcp_kernel := k'\<rparr>) = client_data P nq (n + m) c (io\<lparr>tcp_kernel := k'\<rparr>)"
    using assms(5) unfolding client_data_def Let_def by (simp only: c0_def if_False tcp_io.simps split: if_split) simp
  then show ?thesis using one c0 by (auto simp: c1_def)
qed

lemma reads_pieces_length: "reads_pieces P fd t k ds k' \<Longrightarrow> 0 < length (concat ds)"
  by (induction rule: reads_pieces.induct) auto

lemma pieces_as_one:
  assumes "reads_pieces P fd t k ds k'"
  shows "read_count c + length (concat ds) \<le> segment_bytes c \<Longrightarrow> segment_bytes c < 2 ^ 64 \<Longrightarrow>
    client_read_loop P nq fd c (io\<lparr>tcp_kernel := k\<rparr>) = finish_data P nq fd (length (concat ds)) c (io\<lparr>tcp_kernel := k'\<rparr>)"
  using assms
proof (induction arbitrary: c rule: reads_pieces.induct)
  case (reads_last k d k')
  then show ?case by (subst client_read_one [where k = k']) simp_all
next
  case (reads_more k d k1 ds k')
  have clock: "clock_now P k1 = clock_now P k'"
  proof -
    have "clock_now P k' = t" using reads_more.hyps(4) by (induction rule: reads_pieces.induct) simp_all
    then show ?thesis using reads_more.hyps(3) by simp
  qed
  have n: "0 < length d" "0 < length (concat ds)" "read_count c + length d + length (concat ds) \<le> segment_bytes c"
    using reads_more.hyps(2) reads_pieces_length [OF reads_more.hyps(4)] reads_more.prems(1) by simp_all
  obtain c1 where c1: "client_data P nq (length d) c (io\<lparr>tcp_kernel := k1\<rparr>) = Some (False, c1, io\<lparr>tcp_kernel := k1\<rparr>)"
    "read_count c1 = read_count c + length d" "segment_bytes c1 = segment_bytes c"
    "client_data P nq (length (concat ds)) c1 (io\<lparr>tcp_kernel := k'\<rparr>) =
      client_data P nq (length d + length (concat ds)) c (io\<lparr>tcp_kernel := k'\<rparr>)"
    using client_data_partial [OF n reads_more.prems(2) clock, of nq io] by blast
  have "client_read_loop P nq fd c (io\<lparr>tcp_kernel := k\<rparr>) = finish_data P nq fd (length d) c (io\<lparr>tcp_kernel := k1\<rparr>)"
    using client_read_one [of P "io\<lparr>tcp_kernel := k\<rparr>" fd d k1 nq c] reads_more.hyps(1,2) by simp
  also have "\<dots> = client_read_loop P nq fd c1 (io\<lparr>tcp_kernel := k1\<rparr>)" using c1(1) by (simp add: finish_data_def)
  also have "\<dots> = finish_data P nq fd (length (concat ds)) c1 (io\<lparr>tcp_kernel := k'\<rparr>)"
    using n(3) reads_more.prems(2) c1(2,3) by (intro reads_more.IH) simp_all
  also have "\<dots> = finish_data P nq fd (length (concat (d # ds))) c (io\<lparr>tcp_kernel := k'\<rparr>)"
    using c1(4) by (simp add: finish_data_def)
  finally show ?case .
qed

section \<open>Stuck\<close>

text \<open>A stream that has ended: every read returns nothing.\<close>

definition at_end :: "'k platform \<Rightarrow> int \<Rightarrow> ('k \<Rightarrow> bool) \<Rightarrow> bool" where
  "at_end P fd eof \<longleftrightarrow> (\<forall>k. eof k \<longrightarrow> fst (sys_read P k fd kBufferSize) = Some [] \<and> eof (snd (sys_read P k fd kBufferSize)))"

lemma client_read_loop_at_end:
  fixes P :: "'k platform" and nq :: "'a adaptation"
  assumes "at_end P fd eof" "eof (tcp_kernel io)"
  shows "client_read_loop P nq fd c io = None"
proof (rule ccontr)
  assume "client_read_loop P nq fd c io \<noteq> None"
  then obtain c' io' where run: "client_read_loop P nq fd c io = Some (c', io')" by auto
  have "at_end P fd eof \<longrightarrow> eof (tcp_kernel io) \<longrightarrow> False"
  proof (rule client_read_loop.raw_induct [where Pa = "\<lambda>((((P, nq), fd), c), io) r.
      at_end P fd eof \<longrightarrow> eof (tcp_kernel io) \<longrightarrow> False", unfolded prod.case, OF _ run], intro impI)
    fix loop P fd and nq :: "'a adaptation" and c and io :: "'k tcp_io" and r
    assume IH: "\<And>P nq fd c io r. loop P nq fd c io = Some r \<Longrightarrow> at_end P fd eof \<longrightarrow> eof (tcp_kernel io) \<longrightarrow> False"
      and body: "(case sys_read P (tcp_kernel io) fd kBufferSize of
        (None, k) \<Rightarrow> Some (c, io\<lparr>tcp_kernel := k\<rparr>)
      | (Some d, k) \<Rightarrow>
          if d = [] then
            let (c', io') = client_unregister c (io\<lparr>tcp_kernel := k\<rparr>)
            in loop P nq fd c' io'
          else Option.bind (client_data P nq (length d) c (io\<lparr>tcp_kernel := k\<rparr>)) (\<lambda>(done, c', io').
            if done then Some (c', io') else loop P nq fd c' io')) = Some r"
      and hyps: "at_end P fd eof" "eof (tcp_kernel io)"
    obtain k where k: "sys_read P (tcp_kernel io) fd kBufferSize = (Some [], k)" "eof k"
      using hyps unfolding at_end_def by (metis prod.collapse)
    obtain c1 io1 where u: "client_unregister c (io\<lparr>tcp_kernel := k\<rparr>) = (c1, io1)" by fastforce
    then have "tcp_kernel io1 = k" by (auto simp: client_unregister_def tcp_event_def split: if_splits)
    moreover have "loop P nq fd c1 io1 = Some r" using body k(1) u by simp
    ultimately show False using IH hyps(1) k(2) by blast
  qed
  then show False using assms by simp
qed

text \<open>Nothing can call this client any more.\<close>

definition client_abandoned :: "'a dash_client \<Rightarrow> bool" where
  "client_abandoned c \<longleftrightarrow> \<not> dc_registered c \<and> dc_fd c \<le> 0 \<and>
     (\<forall>al. player_alarm c = Some al \<or> request_alarm c = Some al \<longrightarrow> alarm_inv al \<and> \<not> alarm_is_set al)"

lemma client_abandoned_stays:
  assumes "client_abandoned c"
  shows "client_handle P nq act (c, io) = Some (c, io)"
proof -
  have fire: "alarm_on_epoll al = (False, al)" if "alarm_inv al" "\<not> alarm_is_set al" for al
    using that by (auto simp: alarm_defs)
  have same: "player_alarm c = Some al \<Longrightarrow> c\<lparr>player_alarm := Some al\<rparr> = c"
    "request_alarm c = Some al \<Longrightarrow> c\<lparr>request_alarm := Some al\<rparr> = c" for al
    by (cases c, simp)+
  show ?thesis
  proof (cases act)
    case Player_Alarm
    then show ?thesis using assms fire by (cases "player_alarm c") (simp_all add: client_abandoned_def same)
  next
    case Request_Alarm
    then show ?thesis using assms fire by (cases "request_alarm c") (simp_all add: client_abandoned_def same)
  qed (use assms in \<open>simp_all add: client_abandoned_def client_close_def\<close>)
qed

lemma last_segment_short:
  assumes seg: "representation (video c) = rep0 # reps" "segment_index c = int (length rep0)"
    and bytes: "u64_add (read_count c) n = segment_bytes c"
    and buffer: "player c = PLAYER_INIT_BUFFERING" "segments_in_buffer c + 1 < init_segments c"
    and levels: "levels_ok (segment_counter c) (segment_duration (video c)) (buffer_levels c) (throughput c)"
    and alarms: "\<And>al. player_alarm c = Some al \<or> request_alarm c = Some al \<Longrightarrow> alarm_inv al \<and> \<not> alarm_is_set al"
    and fd: "0 < dc_fd c"
  shows "\<exists>c' io'. client_data P nq n c io = Some (True, c', io') \<and> client_abandoned c' \<and> player c' = PLAYER_INIT_BUFFERING \<and>
    segments_in_buffer c' = segments_in_buffer c + 1"
proof -
  define now where "now = clock_now P (tcp_kernel io)"
  define c1 where "c1 = (if read_count c = 0
     then c\<lparr>throughput := (throughput c)\<lparr>transmission_start := transmission_start (throughput c) @ [now]\<rparr>\<rparr> else c)"
  define c2 where "c2 = c1\<lparr>read_count := u64_add (read_count c1) n\<rparr>"
  have c2: "read_count c2 = segment_bytes c2" "player c2 = PLAYER_INIT_BUFFERING" "segments_in_buffer c2 = segments_in_buffer c"
    "init_segments c2 = init_segments c" "video c2 = video c" "segment_index c2 = segment_index c" "player_alarm c2 = player_alarm c"
    "request_alarm c2 = request_alarm c" "buffer_levels c2 = buffer_levels c" "segment_counter c2 = segment_counter c" "dc_fd c2 = dc_fd c"
    using buffer bytes by (cases "read_count c = 0"; simp add: c2_def c1_def)+
  have "0 < segment_counter c \<Longrightarrow> buffer_level_new (buffer_levels c) \<noteq> []" using levels by (auto simp: levels_ok_def)
  then have "segment_received now c2 \<noteq> None" using c2 by (cases "0 < segment_counter c") (simp_all add: segment_received_def last_of_def)
  then obtain c3 where c3: "segment_received now c2 = Some c3" by blast
  then have f3: "player c3 = PLAYER_INIT_BUFFERING" "segments_in_buffer c3 = segments_in_buffer c + 1" "init_segments c3 = init_segments c"
    "video c3 = video c" "segment_index c3 = segment_index c" "player_alarm c3 = player_alarm c" "request_alarm c3 = request_alarm c" "dc_fd c3 = dc_fd c"
    using c2 unfolding segment_received_def by (auto elim!: bind_SomeE)
  have c4: "check_buffer_status P c3 io = Some c3" using f3 buffer by (simp add: check_buffer_status_def Let_def)
  let ?u = "client_unregister c3 io" let ?v = "client_close P (fst ?u) (snd ?u)"
  have "client_data P nq n c io = Some (True, fst ?v, snd ?v)"
    using c2(1) c3 c4 f3 seg unfolding client_data_def Let_def now_def [symmetric] c1_def [symmetric] c2_def [symmetric]
    by (simp split: prod.split)
  moreover have "client_abandoned (fst ?v)" "player (fst ?v) = PLAYER_INIT_BUFFERING" "segments_in_buffer (fst ?v) = segments_in_buffer c + 1"
    using f3 fd alarms by (auto simp: client_abandoned_def client_close_def client_unregister_def)
  ultimately show ?thesis by blast
qed

end
