(* ===== verification/Dash_Client_Properties.thy ===== *)
theory Dash_Client_Properties
  imports Sample_Dash Dash_Playing
begin

text \<open>
  The properties of the DASH client: what it keeps of a session, that it plays to the end, that it does not matter how a
  segment is cut, and how it gets stuck.
\<close>

section \<open>Sample states\<close>

lemmas client_event_bits = EPOLLIN_def EPOLLOUT_def EPOLLERR_def EPOLLRDHUP_def EPOLLHUP_def EPOLLET_def

text \<open>Connected, with the request for the first segment sent.\<close>

lemma sample_connects:
  "\<exists>c io. client_reachable dash_platform keep_quality (c, io) \<and> segment_index c = 1 \<and> segment_bytes c = 7 \<and>
     player c = PLAYER_INIT_BUFFERING \<and> dc_fd c = 5 \<and> video c = \<lparr>representation = [[7, 8]], segment_duration = 40\<rparr>"
proof -
  let ?c0 = "sample_dash_client [7, 8]"
  let ?io0 = "snd (snd (client_asyn_connect dash_platform (0, 0) (1, 3333) (dash_client_new 40 [[7, 8]] () 2 False) (dash_io ([], []))))"
  have start: "client_asyn_connect dash_platform (0, 0) (1, 3333) (dash_client_new 40 [[7, 8]] () 2 False) (dash_io ([], [])) = (True, ?c0, ?io0)"
    by (simp add: sample_dash_client_def client_asyn_connect_def Let_def dash_client_new_def)
  have "client_reachable dash_platform keep_quality (?c0, ?io0)"
    by (rule client_reach_start [OF start]) (simp add: sample_dash_client_eq)
  moreover have "\<exists>c io. client_handle dash_platform keep_quality (Client_Event EPOLLOUT) (?c0, ?io0) = Some (c, io) \<and>
     segment_index c = 1 \<and> segment_bytes c = 7 \<and> player c = PLAYER_INIT_BUFFERING \<and> dc_fd c = 5 \<and>
     video c = \<lparr>representation = [[7, 8]], segment_duration = 40\<rparr>"
    by (simp add: sample_dash_client_eq client_on_event_def client_event_bits on_connected_def request_segment_def keep_quality_def
        segment_size_def dash_client_new_def delay_request_handle_def send_request_def request_message_eq Let_def log_infomation_def to_uint64_def)
  ultimately show ?thesis by (meson client_reach_event)
qed

definition playing_client :: "unit dash_client" where
  "playing_client = (dash_client_new 40 [[7, 8]] () 2 False)\<lparr>player := PLAYER_PLAY, segment_counter := 2, segments_in_buffer := 2,
     segment_index := 2, player_alarm := Some \<lparr>alarm_deadline = 5, alarm_registered = Some 5\<rparr>\<rparr>"

lemma playing_client_playing: "playing 2 playing_client"
  by (simp add: playing_def playing_client_def dash_client_new_def played_ok_def kFramesPerSecond_def alarm_defs signed_divide_int_def)

section \<open>The session\<close>

text \<open>
  C18: The client's books agree.  In every state that a connection reaches, whatever the server sends and whenever
  the alarms fire: the lists have one entry for every segment received, no buffer level is negative and each is the old one plus a
  segment; received segments are in the buffer or played, and the position is the number of whole segments
  among the frames played; one request was recorded for each segment index, and never beyond the video;
  the player runs only on a set alarm and with something to play.
\<close>

theorem client_books:
  assumes "client_reachable P nq (c, io)" "clock_runs P" "closed_fails P"
  shows "int (length (time_now (buffer_levels c))) = segment_counter c \<and> int (length (transmission_end (throughput c))) = segment_counter c \<and>
    buffer_level_new (buffer_levels c) = map (\<lambda>old. old + segment_duration (video c)) (buffer_level_old (buffer_levels c)) \<and>
    (\<forall>old \<in> set (buffer_level_old (buffer_levels c)). 0 \<le> old) \<and>
    segments_in_buffer c + playback_index c = segment_counter c \<and> 0 \<le> segments_in_buffer c \<and>
    (0 < frames_in_segment c \<longrightarrow> playback_index c = played_frames c div frames_in_segment c) \<and>
    int (length (transmission_requested (throughput c))) = segment_index c \<and>
    (\<forall>rep0 reps. representation (video c) = rep0 # reps \<longrightarrow> segment_index c \<le> int (length rep0)) \<and>
    (player c = PLAYER_PLAY \<longrightarrow> 0 < segments_in_buffer c \<and> (\<exists>al. player_alarm c = Some al \<and> alarm_is_set al)) \<and>
    (player c = PLAYER_PAUSED \<longrightarrow> segments_in_buffer c = 0)"
  using client_reachable_good [OF assms]
  by (simp add: client_good_def client_inv_def client_core_def levels_ok_def played_ok_def requests_ok_def player_ok_def)

theorem client_books_witness:
  "\<exists>c io. client_reachable dash_platform keep_quality (c, io) \<and> segment_index c = 1 \<and> length (transmission_requested (throughput c)) = 1 \<and>
     segments_in_buffer c + playback_index c = segment_counter c"
  using sample_connects client_books [OF _ dash_clock dash_closed] by (metis int_eq_iff_numeral of_nat_1 of_nat_eq_iff)

text \<open>
  C19: Playing ends.  When all segments have come and the player runs, with \<open>n\<close> frames left, it is done
  after exactly \<open>n\<close> of its alarms, with the whole video played.
\<close>

theorem playback_ends:
  assumes "clock_runs P" "playing n c"
  shows "\<exists>c'. ((\<lambda>s. Option.bind s (client_handle P nq Player_Alarm)) ^^ nat n) (Some (c, io)) = Some (c', io) \<and>
      player c' = PLAYER_DONE \<and> segments_in_buffer c' = 0 \<and> playback_index c' = segment_counter c \<and>
      played_frames c' = segment_counter c * frames_in_segment c"
proof -
  have "0 < n" using playing_step [OF assms(2,1)] by blast
  then obtain m where m: "n = int (Suc m)" "nat n = Suc m" by (metis gr0_implies_Suc zero_less_nat_eq nat_0_le less_le)
  show ?thesis unfolding m(2) by (rule playing_run [OF assms(1)]) (use assms(2) m(1) in simp)
qed

theorem playback_ends_witness:
  "\<exists>c'. ((\<lambda>s. Option.bind s (client_handle dash_platform keep_quality Player_Alarm)) ^^ 2) (Some (playing_client, dash_io ([], []))) =
     Some (c', dash_io ([], [])) \<and> player c' = PLAYER_DONE \<and> playback_index c' = 2"
  using playback_ends [OF dash_clock playing_client_playing, of keep_quality "dash_io ([], [])"]
  by (auto simp: playing_client_def simp del: client_handle.simps)

text \<open>
  C23: It does not matter in which pieces the bytes of a segment come: while the clock stands, a loop that reads
  any pieces up to the end of the segment does what one read of all their bytes does, the last
  one completing the segment and requesting the next.
\<close>

theorem pieces_of_a_segment:
  assumes "reads_pieces P fd t (tcp_kernel io) ds k'" "read_count c + length (concat ds) \<le> segment_bytes c" "segment_bytes c < 2 ^ 64"
  shows "client_read_loop P nq fd c io = Option.bind (client_data P nq (length (concat ds)) c (io\<lparr>tcp_kernel := k'\<rparr>))
    (\<lambda>(stop, c', io'). if stop then Some (c', io') else client_read_loop P nq fd c' io')"
  using pieces_as_one [OF assms(1-3), of nq io] by (simp add: finish_data_def)

theorem pieces_of_a_segment_witness:
  "client_read_loop dash_platform keep_quality 5 (playing_client\<lparr>segment_bytes := 7\<rparr>) (dash_io ([], [Some [1, 2], Some [3]])) =
     Option.bind (client_data dash_platform keep_quality 3 (playing_client\<lparr>segment_bytes := 7\<rparr>) (dash_io ([], [])))
       (\<lambda>(stop, c', io'). if stop then Some (c', io') else client_read_loop dash_platform keep_quality 5 c' io')"
proof -
  have "reads_pieces dash_platform 5 1000 ([], [Some [1, 2], Some [3]]) [[1, 2], [3]] ([], [])"
    by (rule reads_more [where ?k1.0 = "([], [Some [3]])"], simp_all add: kBufferSize_def)
      (rule reads_last, simp_all add: kBufferSize_def)
  then show ?thesis
    using pieces_of_a_segment [of dash_platform 5 1000 "dash_io ([], [Some [1, 2], Some [3]])" "[[1, 2], [3]]" "([], [])"
        "playing_client\<lparr>segment_bytes := 7\<rparr>" keep_quality]
    by (simp add: playing_client_def dash_client_new_def dash_io_def numeral_3_eq_3)
qed

section \<open>Stuck\<close>

text \<open>
  C36: When the server closes its end first, the client never returns: at the end of the stream the
  reading loop only unregisters its descriptor and reads on, so an \<open>EPOLLIN\<close> event has no result.
\<close>

theorem end_of_stream_hangs:
  assumes "at_end P (dc_fd c) eof" "eof (tcp_kernel io)" "dc_registered c"
  shows "client_handle P nq (Client_Event EPOLLIN) (c, io) = None"
proof -
  have "EPOLLIN AND (EPOLLERR OR EPOLLRDHUP OR EPOLLHUP) = 0" "EPOLLIN AND EPOLLIN \<noteq> 0" by (simp_all add: client_event_bits)
  then show ?thesis using assms client_read_loop_at_end [OF assms(1,2), of nq c] by (simp add: client_on_event_def)
qed

theorem end_of_stream_hangs_witness:
  "client_handle (dash_platform\<lparr>sys_read := \<lambda>k fd n. (Some [], k)\<rparr>) keep_quality (Client_Event EPOLLIN)
     (sample_dash_client [7, 8], dash_io ([], [])) = None"
  by (rule end_of_stream_hangs [where eof = "\<lambda>k. True"]) (simp_all add: at_end_def sample_dash_client_eq)

text \<open>
  A short video never plays.  If the last segment comes while the player still buffers and fewer segments are there than the
  buffering asks for, the client closes its connection, and no later event or alarm changes it any more: it
  stays in \<open>PLAYER_INIT_BUFFERING\<close> with its segments unplayed.
\<close>

theorem short_video_never_plays:
  assumes "representation (video c) = rep0 # reps" "segment_index c = int (length rep0)"
    "u64_add (read_count c) n = segment_bytes c" "player c = PLAYER_INIT_BUFFERING" "segments_in_buffer c + 1 < init_segments c"
    "client_inv c" "0 < dc_fd c" "\<And>al. player_alarm c = Some al \<or> request_alarm c = Some al \<Longrightarrow> \<not> alarm_is_set al"
  shows "\<exists>c' io'. client_data P nq n c io = Some (True, c', io') \<and> player c' = PLAYER_INIT_BUFFERING \<and>
    segments_in_buffer c' = segments_in_buffer c + 1 \<and> (\<forall>act io''. client_handle P nq act (c', io'') = Some (c', io''))"
proof -
  have "\<exists>c' io'. client_data P nq n c io = Some (True, c', io') \<and> client_abandoned c' \<and> player c' = PLAYER_INIT_BUFFERING \<and>
    segments_in_buffer c' = segments_in_buffer c + 1"
  proof (rule last_segment_short [OF assms(1-5) _ _ assms(7)])
    show "levels_ok (segment_counter c) (segment_duration (video c)) (buffer_levels c) (throughput c)"
      using assms(6) by (simp add: client_inv_def client_core_def)
    show "alarm_inv al \<and> \<not> alarm_is_set al" if "player_alarm c = Some al \<or> request_alarm c = Some al" for al
      using assms(6) assms(8) [OF that] that by (auto simp: client_inv_def client_core_def requests_ok_def player_ok_def)
  qed
  then show ?thesis using client_abandoned_stays by blast
qed

definition short_client :: "unit dash_client" where
  "short_client = (sample_dash_client [7])\<lparr>player := PLAYER_INIT_BUFFERING, dc_status := TCP_CONNECTED, segment_index := 1, segment_bytes := 7,
     history_quality := [0], throughput := \<lparr>transmission_requested = [1000], transmission_start = [], transmission_end = [], bytes_received = []\<rparr>,
     player_alarm := Some alarm_new, request_alarm := Some alarm_new\<rparr>"

theorem short_video_never_plays_witness:
  "\<exists>c' io'. client_data dash_platform keep_quality 7 short_client (dash_io ([], [])) = Some (True, c', io') \<and> player c' = PLAYER_INIT_BUFFERING \<and>
    segments_in_buffer c' = 1 \<and> client_handle dash_platform keep_quality Player_Alarm (c', io') = Some (c', io')"
proof -
  have inv: "client_inv short_client"
    by (simp add: short_client_def sample_dash_client_eq dash_client_new_def client_inv_def client_core_def levels_ok_def played_ok_def requests_ok_def
        starts_ok_def player_ok_def incoming_ok_def alarm_new_def alarm_defs)
  have f: "representation (video short_client) = [[7]]" "segment_index short_client = 1" "read_count short_client = 0" "segment_bytes short_client = 7"
    "player short_client = PLAYER_INIT_BUFFERING" "segments_in_buffer short_client = 0" "init_segments short_client = 2" "dc_fd short_client = 5"
    "player_alarm short_client = Some alarm_new" "request_alarm short_client = Some alarm_new"
    by (simp_all add: short_client_def sample_dash_client_eq dash_client_new_def)
  show ?thesis
    using short_video_never_plays [OF f(1) _ _ f(5) _ inv, of 7 dash_platform keep_quality "dash_io ([], [])"] f
    by (auto simp: alarm_new_def alarm_defs u64_add_def simp del: client_handle.simps)
qed

end
