(* ===== verification/Random_Source.thy ===== *)
theory Random_Source
  imports Prelude "HOL-Library.Monad_Syntax" "HOL-Library.Signed_Division"
begin

unbundle bit_operations_syntax

text \<open>
  The random numbers of the adaptation algorithms (\<open>base/random.h\<close>, \<open>base/random.cc\<close>): the Mersenne twister MT19937.
  The state is an array that is renewed in place every 624 numbers; a number is a tempered entry.  The functions that compute in
  \<open>double\<close> are not modelled.
\<close>

section \<open>State\<close>

type_synonym u32 = "32 word"

record random =
  mt :: "u32 list"
  mti :: int
  mag01 :: "u32 list"

definition RANDOM_N :: nat where "RANDOM_N = 624"
definition RANDOM_M :: nat where "RANDOM_M = 397"
definition MATRIX_A :: u32 where "MATRIX_A = 0x9908b0df"
definition UPPER_MASK :: u32 where "UPPER_MASK = 0x80000000"
definition LOWER_MASK :: u32 where "LOWER_MASK = 0x7fffffff"

text \<open>The constructor leaves the array as the memory is.\<close>

definition random_new :: "u32 list \<Rightarrow> random" where
  "random_new memory = \<lparr>mt = memory, mti = int RANDOM_N + 1, mag01 = [0, MATRIX_A]\<rparr>"

section \<open>Seeding\<close>

text \<open>The products are \<open>unsigned long\<close>; the assignment to an entry cuts them to 32 bits.\<close>

definition seed_next :: "u32 \<Rightarrow> nat \<Rightarrow> u32" where
  "seed_next prev i = ucast ((1812433253 :: 64 word) * ucast (prev XOR drop_bit 30 prev) + of_nat i)"

text \<open>The loop sets the entries \<open>i\<close> to \<open>n - 1\<close> (\<open>k\<close> of them).\<close>

fun seed_loop :: "nat \<Rightarrow> nat \<Rightarrow> u32 list \<Rightarrow> u32 list" where
  "seed_loop i 0 m = m"
| "seed_loop i (Suc k) m = seed_loop (i + 1) k (m[i := seed_next (m ! (i - 1)) i])"

definition init_genrand :: "u32 \<Rightarrow> random \<Rightarrow> random" where
  "init_genrand s r = r\<lparr>mt := seed_loop 1 (RANDOM_N - 1) ((mt r)[0 := s]), mti := int RANDOM_N\<rparr>"

section \<open>Seeding by a key\<close>

text \<open>Position and array after one entry; after the last entry the first one takes its value.\<close>

definition key_wrap :: "nat \<Rightarrow> u32 list \<Rightarrow> nat \<times> u32 list" where
  "key_wrap i m = (if RANDOM_N \<le> i + 1 then (1, m[0 := m ! (RANDOM_N - 1)]) else (i + 1, m))"

definition key_mix :: "64 word \<Rightarrow> 64 word \<Rightarrow> nat \<Rightarrow> u32 list \<Rightarrow> u32 list" where
  "key_mix factor extra i m =
     m[i := ucast ((ucast (m ! i) XOR (ucast (m ! (i - 1) XOR drop_bit 30 (m ! (i - 1))) * factor)) + extra)]"

fun key_loop :: "nat \<Rightarrow> u32 list \<Rightarrow> nat \<Rightarrow> nat \<Rightarrow> u32 list \<Rightarrow> nat \<times> u32 list" where
  "key_loop 0 key i j m = (i, m)"
| "key_loop (Suc k) key i j m =
     (let (i', m') = key_wrap i (key_mix 1664525 (ucast (key ! j) + of_nat j) i m)
      in key_loop k key i' (if length key \<le> j + 1 then 0 else j + 1) m')"

fun key_finish :: "nat \<Rightarrow> nat \<Rightarrow> u32 list \<Rightarrow> u32 list" where
  "key_finish 0 i m = m"
| "key_finish (Suc k) i m =
     (let (i', m') = key_wrap i (key_mix 1566083941 (- of_nat i) i m) in key_finish k i' m')"

text \<open>An empty key is read out of its bounds.\<close>

definition init_by_array :: "u32 list \<Rightarrow> random \<Rightarrow> random option" where
  "init_by_array key r = do {
     fatal_unless (key \<noteq> []);
     let r1 = init_genrand 19650218 r;
     let (i, m) = key_loop (if length key < RANDOM_N then RANDOM_N else length key) key 1 0 (mt r1);
     Some (r1\<lparr>mt := (key_finish (RANDOM_N - 1) i m)[0 := 0x80000000]\<rparr>)
   }"

section \<open>Generating\<close>

definition twist_word :: "u32 list \<Rightarrow> u32 \<Rightarrow> u32 \<Rightarrow> u32 \<Rightarrow> u32" where
  "twist_word mag a b c =
     (let y = (a AND UPPER_MASK) OR (b AND LOWER_MASK) in c XOR drop_bit 1 y XOR (mag ! unat (y AND 1)))"

text \<open>The two loops over \<open>kk\<close>; the index \<open>kk + (M - N)\<close> of the second is \<open>unsigned\<close> and wraps to \<open>kk - 227\<close>.\<close>

function twist_first :: "u32 list \<Rightarrow> nat \<Rightarrow> u32 list \<Rightarrow> nat \<times> u32 list" where
  "twist_first mag kk m =
     (if kk < RANDOM_N - RANDOM_M
      then twist_first mag (kk + 1) (m[kk := twist_word mag (m ! kk) (m ! (kk + 1)) (m ! (kk + RANDOM_M))])
      else (kk, m))"
  by auto
termination by (relation "measure (\<lambda>(_, kk, _). RANDOM_N - kk)") (auto simp: RANDOM_N_def RANDOM_M_def)

function twist_second :: "u32 list \<Rightarrow> nat \<Rightarrow> u32 list \<Rightarrow> u32 list" where
  "twist_second mag kk m =
     (if kk < RANDOM_N - 1
      then twist_second mag (kk + 1) (m[kk := twist_word mag (m ! kk) (m ! (kk + 1))
        (m ! nat ((int kk + (int RANDOM_M - int RANDOM_N)) mod 2 ^ 32))])
      else m)"
  by auto
termination by (relation "measure (\<lambda>(_, kk, _). RANDOM_N - kk)") auto

declare twist_first.simps [simp del] twist_second.simps [simp del]

definition renew :: "random \<Rightarrow> random" where
  "renew r =
     (let r0 = (if mti r = int RANDOM_N + 1 then init_genrand 5489 r else r);
          (kk, m1) = twist_first (mag01 r0) 0 (mt r0);
          m2 = twist_second (mag01 r0) kk m1;
          m3 = m2[RANDOM_N - 1 := twist_word (mag01 r0) (m2 ! (RANDOM_N - 1)) (m2 ! 0) (m2 ! (RANDOM_M - 1))]
      in r0\<lparr>mt := m3, mti := 0\<rparr>)"

definition temper :: "u32 \<Rightarrow> u32" where
  "temper y0 =
     (let y1 = y0 XOR drop_bit 11 y0;
          y2 = y1 XOR (push_bit 7 y1 AND 0x9d2c5680);
          y3 = y2 XOR (push_bit 15 y2 AND 0xefc60000)
      in y3 XOR drop_bit 18 y3)"

definition genrand_int32 :: "random \<Rightarrow> u32 \<times> random" where
  "genrand_int32 r =
     (let r1 = (if int RANDOM_N \<le> mti r then renew r else r)
      in (temper (mt r1 ! nat (mti r1)), r1\<lparr>mti := mti r1 + 1\<rparr>))"

definition genrand_int31 :: "random \<Rightarrow> int \<times> random" where
  "genrand_int31 r = (let (y, r') = genrand_int32 r in (uint (drop_bit 1 y), r'))"

section \<open>The class\<close>

definition next_int :: "random \<Rightarrow> int \<times> random" where
  "next_int r = genrand_int31 r"

text \<open>\<open>None\<close>: a division by zero, or a result that is no \<open>int\<close>.\<close>

definition next_int_range :: "int \<Rightarrow> random \<Rightarrow> (int \<times> random) option" where
  "next_int_range n r = (let (x, r1) = next_int r in if n = 0 then None else Some (x smod n, r1))"

definition fits_int :: "int \<Rightarrow> bool" where
  "fits_int i \<longleftrightarrow> - (2 ^ 31) \<le> i \<and> i < 2 ^ 31"

definition next_int_between :: "int \<Rightarrow> int \<Rightarrow> random \<Rightarrow> (int \<times> random) option" where
  "next_int_between low high r =
     (let (n, r') = next_int r
      in if \<not> fits_int (high - low) \<or> high - low = 0 \<or> \<not> fits_int (n smod (high - low) + low) then None
         else Some (n smod (high - low) + low, r'))"

definition next_unsigned :: "random \<Rightarrow> u32 \<times> random" where
  "next_unsigned r = genrand_int32 r"

definition seed :: "u32 \<Rightarrow> random \<Rightarrow> random" where
  "seed value r = init_genrand value r"

end
