(* ===== verification/Dash_Algorithm.thy ===== *)
theory Dash_Algorithm
  imports Dash_Client Random_Source
begin

text \<open>
  The adaptation algorithms of the DASH client (\<open>dash/dash_algorithm.h\<close>, \<open>dash/dash_algorithm.cc\<close>): each chooses the
  quality of the next segment, and a delay before it is requested.  They compute in \<open>double\<close>; its operations are the
  parameter \<open>'d arith\<close>, of which nothing is assumed.  The average bit rates, computed when the segment files are
  read, are the parameter \<open>rates\<close>.  \<open>None\<close> is a failed check, an exception, or undefined behaviour: an index out of range, a
  conversion of a \<open>double\<close> that does not fit, \<open>back\<close> of an empty container.
\<close>

section \<open>Arithmetic\<close>

text \<open>\<open>d_dec m n\<close> is the literal with the digits \<open>m\<close> and \<open>n\<close> places; \<open>d_trunc\<close> has no value for NaN and infinity.\<close>

record 'd arith =
  d_int :: "int \<Rightarrow> 'd"
  d_dec :: "int \<Rightarrow> nat \<Rightarrow> 'd"
  d_add :: "'d \<Rightarrow> 'd \<Rightarrow> 'd"
  d_sub :: "'d \<Rightarrow> 'd \<Rightarrow> 'd"
  d_mul :: "'d \<Rightarrow> 'd \<Rightarrow> 'd"
  d_div :: "'d \<Rightarrow> 'd \<Rightarrow> 'd"
  d_less :: "'d \<Rightarrow> 'd \<Rightarrow> bool"
  d_le :: "'d \<Rightarrow> 'd \<Rightarrow> bool"
  d_abs :: "'d \<Rightarrow> 'd"
  d_pow :: "'d \<Rightarrow> 'd \<Rightarrow> 'd"
  d_sqrt :: "'d \<Rightarrow> 'd"
  d_exp :: "'d \<Rightarrow> 'd"
  d_trunc :: "'d \<Rightarrow> int option"
  d_largest :: 'd

definition d_min :: "'d arith \<Rightarrow> 'd \<Rightarrow> 'd \<Rightarrow> 'd" where
  "d_min A a b = (if d_less A b a then b else a)"

definition d_max :: "'d arith \<Rightarrow> 'd \<Rightarrow> 'd \<Rightarrow> 'd" where
  "d_max A a b = (if d_less A a b then b else a)"

definition to_int_within :: "'d arith \<Rightarrow> nat \<Rightarrow> 'd \<Rightarrow> int option" where
  "to_int_within A w x = Option.bind (d_trunc A x) (\<lambda>i. if - (2 ^ (w - 1)) \<le> i \<and> i < 2 ^ (w - 1) then Some i else None)"

text \<open>\<open>xs.at(i)\<close> and \<open>xs[i]\<close>.\<close>

definition at_index :: "'b list \<Rightarrow> int \<Rightarrow> 'b option" where
  "at_index xs i = (if 0 \<le> i \<and> i < int (length xs) then Some (xs ! nat i) else None)"

type_synonym reply = "int \<times> time_delta"

definition no_reply :: reply where "no_reply = (0, 0)"

section \<open>Prediction of the bandwidth\<close>

fun predict_loop :: "'d arith \<Rightarrow> throughput_data \<Rightarrow> nat \<Rightarrow> int \<Rightarrow> int \<Rightarrow> 'd \<Rightarrow> (int \<times> 'd) option" where
  "predict_loop A t 0 i millis temp = Some (millis, temp)"
| "predict_loop A t (Suc k) i millis temp = do {
     begun \<leftarrow> at_index (transmission_start t) i;
     ended \<leftarrow> at_index (transmission_end t) i;
     bytes \<leftarrow> at_index (bytes_received t) i;
     fatal_unless (begun < ended);
     let ms = delta_to_milliseconds (ended - begun);
     predict_loop A t k (i + 1) (millis + ms)
       (d_add A temp (d_div A (d_mul A (d_mul A (d_int A 1) (d_int A ms)) (d_int A ms)) (d_int A (8 * bytes))))
   }"

definition predict :: "'d arith \<Rightarrow> throughput_data \<Rightarrow> int \<Rightarrow> 'd option" where
  "predict A t horizon =
     (let n = int (length (transmission_start t))
      in if 0 < n then do {
           let index = max 0 (n - horizon);
           (millis, temp) \<leftarrow> predict_loop A t (nat (n - index)) index 0 (d_int A 0);
           Some (d_div A (d_mul A (d_mul A (d_int A 1) (d_int A 1000)) (d_int A millis)) temp)
         } else Some (d_int A 0))"

section \<open>Festive\<close>

record festive =
  fs_target :: int
  fs_horizon :: int
  fs_delta :: int
  fs_random :: random
  fs_switch_up :: int

definition kThroughputHorizon :: int where "kThroughputHorizon = 5"
definition kFestiveTarget :: int where "kFestiveTarget = 20000"
definition kFestiveHorizon :: int where "kFestiveHorizon = 5"
definition kSwitchUpThreshold :: "int list" where "kSwitchUpThreshold = [0, 1, 2, 3, 4, 5, 6, 7, 8, 9]"

definition festive_new :: "u32 list \<Rightarrow> int \<Rightarrow> int \<Rightarrow> int \<Rightarrow> festive" where
  "festive_new memory target horizon delta =
     \<lparr>fs_target = target, fs_horizon = horizon, fs_delta = delta, fs_random = seed 12321 (random_new memory), fs_switch_up = 0\<rparr>"

text \<open>The loop from the top quality down: the highest rate that the bandwidth carries, or the lowest.\<close>

fun festive_target :: "'d arith \<Rightarrow> 'd list \<Rightarrow> 'd \<Rightarrow> nat \<Rightarrow> int" where
  "festive_target A rates bw 0 = 0"
| "festive_target A rates bw (Suc i) = (if d_le A (rates ! i) bw then int i else festive_target A rates bw i)"

fun count_changes :: "int list \<Rightarrow> nat \<Rightarrow> int \<Rightarrow> int option" where
  "count_changes hist 0 i = Some 0"
| "count_changes hist (Suc k) i = do {
     a \<leftarrow> at_index hist i;
     b \<leftarrow> at_index hist (i + 1);
     n \<leftarrow> count_changes hist k (i + 1);
     Some ((if a \<noteq> b then 1 else 0) + n)
   }"

definition stability_score :: "'d arith \<Rightarrow> int \<Rightarrow> int \<Rightarrow> int \<Rightarrow> int list \<Rightarrow> 'd option" where
  "stability_score A horizon b b_cur hist = do {
     let len = int (length hist);
     let index = max 0 (len - horizon);
     n \<leftarrow> (if 0 < len then count_changes hist (nat (len - 1 - index)) index else Some 0);
     Some (d_pow A (d_int A 2) (d_int A (if b \<noteq> b_cur then n + 1 else n)))
   }"

definition efficiency_score :: "'d arith \<Rightarrow> int \<Rightarrow> int \<Rightarrow> 'd \<Rightarrow> 'd list \<Rightarrow> 'd option" where
  "efficiency_score A b b_ref bw rates = do {
     r \<leftarrow> at_index rates b_ref;
     x \<leftarrow> at_index rates b;
     Some (d_abs A (d_sub A (d_div A x (d_min A bw r)) (d_int A 1)))
   }"

definition combine_score :: "'d arith \<Rightarrow> int \<Rightarrow> int \<Rightarrow> int \<Rightarrow> int \<Rightarrow> 'd \<Rightarrow> int list \<Rightarrow> 'd list \<Rightarrow> 'd option" where
  "combine_score A horizon b b_ref b_cur bw hist rates = do {
     s \<leftarrow> stability_score A horizon b b_cur hist;
     e \<leftarrow> efficiency_score A b b_ref bw rates;
     Some (d_add A s (d_mul A (d_int A 12) e))
   }"

text \<open>The reference quality and the counter of upward switches, before it is cut to the range.\<close>

definition festive_reference :: "int \<Rightarrow> int \<Rightarrow> int \<Rightarrow> (int \<times> int) option" where
  "festive_reference b_target b_cur ups =
     (if b_cur < b_target then do {
        threshold \<leftarrow> at_index kSwitchUpThreshold b_cur;
        Some (if threshold < ups + 1 then b_cur + 1 else b_cur, ups + 1)
      } else if b_target < b_cur then Some (b_cur - 1, 0) else Some (b_cur, 0))"

definition festive_next :: "'d arith \<Rightarrow> 'd list \<Rightarrow> 'a dash_client \<Rightarrow> int \<Rightarrow> int \<Rightarrow> festive \<Rightarrow> (reply \<times> festive) option" where
  "festive_next A rates c pre segment_count f =
     (if segment_count = 0 then Some (no_reply, f)
      else do {
        bw \<leftarrow> predict A (throughput c) kThroughputHorizon;
        let top = int (length rates) - 1;
        let b_target = festive_target A rates (d_mul A (d_dec A 8 1) bw) (length rates);
        (b_ref0, ups) \<leftarrow> festive_reference b_target pre (fs_switch_up f);
        let b_ref = max (min b_ref0 top) 0;
        (q, ups') \<leftarrow>
          (if b_ref \<noteq> pre then do {
             score_cur \<leftarrow> combine_score A (fs_horizon f) pre b_ref pre bw (history_quality c) rates;
             score_ref \<leftarrow> combine_score A (fs_horizon f) b_ref b_ref pre bw (history_quality c) rates;
             Some (if d_le A score_cur score_ref then (pre, ups) else (b_ref, if pre < b_ref then 0 else ups))
           } else Some (pre, ups));
        (n, random') \<leftarrow> next_int_between 0 (2 * fs_delta f + 1) (fs_random f);
        let rand_buf = fs_target f - fs_delta f + n;
        let level = get_buffer_level_ms c;
        Some ((q, if rand_buf < level then delta_from_milliseconds (level - rand_buf) else 0),
          f\<lparr>fs_random := random', fs_switch_up := ups'\<rparr>)
      })"

section \<open>Panda\<close>

text \<open>\<open>m_lastVideoIndex\<close> is a \<open>double\<close> that only ever holds an index.  The constructor leaves the members as the memory is.\<close>

record 'd panda =
  pa_buffer :: 'd
  pa_target :: time_delta
  pa_share :: 'd
  pa_smooth :: 'd
  pa_index :: int

fun find_largest_loop :: "'d arith \<Rightarrow> 'd list \<Rightarrow> 'd \<Rightarrow> nat \<Rightarrow> nat \<Rightarrow> int \<Rightarrow> int" where
  "find_largest_loop A rates limit i 0 best = best"
| "find_largest_loop A rates limit i (Suc k) best =
     find_largest_loop A rates limit (i + 1) k (if d_le A (d_div A (rates ! i) (d_int A 1000000)) limit then int i else best)"

definition find_largest :: "'d arith \<Rightarrow> 'd list \<Rightarrow> 'd \<Rightarrow> 'd \<Rightarrow> int" where
  "find_largest A rates smooth delta = find_largest_loop A rates (d_sub A smooth delta) 0 (length rates - 1) 0"

definition panda_next ::
  "'d arith \<Rightarrow> 'd list \<Rightarrow> 'a dash_client \<Rightarrow> quic_time \<Rightarrow> int \<Rightarrow> 'd panda \<Rightarrow> (reply \<times> 'd panda) option" where
  "panda_next A rates c now segment_count p =
     (let seconds = (\<lambda>ms. d_div A (d_mul A (d_int A ms) (d_int A 1)) (d_int A 1000));
          omega = d_dec A 3 1
      in if segment_count = 0
         then Some (no_reply, p\<lparr>pa_index := 0, pa_buffer := seconds (segment_duration (video c)), pa_target := 0\<rparr>)
         else do {
           begun \<leftarrow> last_of (transmission_start (throughput c));
           ended \<leftarrow> last_of (transmission_end (throughput c));
           last_rate \<leftarrow> at_index rates (pa_index p);
           requested \<leftarrow> last_of (transmission_requested (throughput c));
           let measured = d_div A (d_div A (d_mul A (d_mul A (d_int A 1) last_rate) (d_int A (segment_duration (video c))))
               (d_int A (delta_to_milliseconds (ended - begun)))) (d_int A 1000000);
           let (share0, smooth0) = (if segment_count = 1 then (measured, measured) else (pa_share p, pa_smooth p));
           let waited = (if pa_target p < now - requested then now - requested else pa_target p);
           let actual = d_div A (d_mul A (d_int A 1) (d_int A (delta_to_milliseconds waited))) (d_int A 1000);
           let share1 = d_add A (d_mul A (d_mul A (d_dec A 28 2)
               (d_sub A omega (d_max A (d_int A 0) (d_add A (d_sub A share0 measured) omega)))) actual) share0;
           let share = (if d_less A share1 (d_int A 0) then d_int A 0 else share1);
           let smooth = d_add A (d_mul A (d_mul A (d_dec A (- 2) 1) (d_sub A smooth0 share)) actual) smooth0;
           let up = find_largest A rates smooth (d_add A omega (d_mul A (d_dec A 15 2) smooth));
           let down = find_largest A rates smooth omega;
           rate_up \<leftarrow> at_index rates up;
           rate_down \<leftarrow> at_index rates down;
           let index = (if d_less A last_rate rate_up then up
                        else if d_le A rate_up last_rate \<and> d_le A last_rate rate_down then pa_index p else down);
           rate \<leftarrow> at_index rates index;
           let needed = d_div A (d_mul A (d_div A rate (d_int A 1000000))
               (d_div A (d_mul A (d_int A 1) (d_int A (segment_duration (video c)))) (d_int A 1000))) smooth;
           let target = d_max A (d_int A 0) (d_add A needed (d_mul A (d_dec A 2 1) (d_sub A (pa_buffer p) (d_int A 26))));
           let fetched = ended - requested;
           let delay = (if fetched < pa_target p then pa_target p - fetched else 0);
           target_ms \<leftarrow> to_int_within A 64 (d_mul A target (d_int A 1000));
           Some ((index, delay), \<lparr>pa_buffer = seconds (get_buffer_level_ms c), pa_target = delta_from_milliseconds target_ms,
             pa_share = share, pa_smooth = smooth, pa_index = index\<rparr>)
         })"

end
