(* ===== verification/Dash_Adaptation.thy ===== *)
theory Dash_Adaptation
  imports Dash_Algorithm
begin

text \<open>
  The other algorithms of \<open>dash/dash_algorithm.cc\<close>, and the choice between all of them by name
  (\<open>SetAdaptationAlgorithm\<close>).
\<close>

section \<open>Tobasco\<close>

fun buffer_inc :: "int \<Rightarrow> int list \<Rightarrow> bool" where
  "buffer_inc prev [] = True"
| "buffer_inc prev (level # levels) = (if level < prev then False else buffer_inc level levels)"

text \<open>\<open>r_up_index\<close> and \<open>r_down_index\<close> are doubles that hold an index.  The state is \<open>m_running_fast_start\<close>.\<close>

definition tobasco_next ::
  "'d arith \<Rightarrow> 'd list \<Rightarrow> 'a dash_client \<Rightarrow> int \<Rightarrow> int \<Rightarrow> bool \<Rightarrow> (reply \<times> bool) option" where
  "tobasco_next A rates c pre segment_count fast =
     (if segment_count = 0 then Some (no_reply, fast)
      else do {
        let b_min = 10000000; let b_low = 20000000; let b_high = 40000000; let b_opt = 30000000;
        let b_t = get_buffer_level_ms c * 1000;
        let n = int (length rates);
        bw \<leftarrow> predict A (throughput c) 5;
        let taf = segment_duration (video c) * 1000;
        curr_rate \<leftarrow> at_index rates pre;
        let up = (if pre + 1 < n then pre + 1 else pre);
        let down = (if 1 \<le> pre then pre - 1 else pre);
        up_rate \<leftarrow> at_index rates up;
        let carries = (\<lambda>m k. d_le A up_rate (d_mul A (d_dec A m k) bw));
        let too_high = (pre = n - 1 \<or> d_le A (d_mul A (d_dec A 9 1) bw) up_rate);
        Some (if fast \<and> pre \<noteq> n - 1 \<and> buffer_inc 0 (buffer_level_new (buffer_levels c)) \<and> d_le A curr_rate (d_mul A (d_dec A 75 2) bw)
          then
            if b_t < b_min then ((if carries 33 2 then up else pre, 0), True)
            else if b_t < b_low then ((if carries 5 1 then up else pre, 0), True)
            else ((if carries 75 2 then up else pre, if b_high < b_t then b_high - taf else 0), True)
          else
            if b_t < b_min then ((0, 0), False)
            else if b_t < b_low then ((if pre \<noteq> 0 \<and> d_le A bw curr_rate then down else pre, 0), False)
            else if b_t < b_high then ((pre, if too_high then max (b_t - taf) b_opt else 0), False)
            else if too_high then ((pre, max (b_t - taf) b_opt), False)
            else ((up, 0), False))
      })"

section \<open>Osmp\<close>

text \<open>The \<open>do\<close> loop: up to the top, or until the next step is more than the download carries.\<close>

fun osmp_climb :: "'d arith \<Rightarrow> 'd list \<Rightarrow> 'd \<Rightarrow> 'd \<Rightarrow> nat \<Rightarrow> int \<Rightarrow> int option" where
  "osmp_climb A rates speed cur_rate 0 q = None"
| "osmp_climb A rates speed cur_rate (Suc k) q =
     (let q' = q + 1
      in if q' = int (length rates) - 1 then Some q'
         else do {
           next_rate \<leftarrow> at_index rates (q' + 1);
           if d_less A speed (d_div A (d_mul A (d_int A 1) next_rate) cur_rate) then Some q'
           else osmp_climb A rates speed cur_rate k q'
         })"

definition osmp_next :: "'d arith \<Rightarrow> 'd list \<Rightarrow> 'a dash_client \<Rightarrow> int \<Rightarrow> int \<Rightarrow> reply option" where
  "osmp_next A rates c pre segment_count =
     (if segment_count = 0 \<or> transmission_end (throughput c) = [] then Some no_reply
      else do {
        begun \<leftarrow> last_of (transmission_start (throughput c));
        ended \<leftarrow> last_of (transmission_end (throughput c));
        let took = d_mul A (d_int A 1) (d_int A (delta_to_milliseconds (ended - begun)));
        let speed = d_div A (d_mul A (d_int A 1) (d_int A (segment_duration (video c)))) took;
        let step = (\<lambda>q. do {
          below \<leftarrow> at_index rates (q - 1);
          here \<leftarrow> at_index rates q;
          Some (d_div A (d_mul A (d_int A 1) below) here)
        });
        q \<leftarrow> (if d_less A speed (d_int A 1) then
                if 0 < pre then do {
                  ratio \<leftarrow> step pre;
                  Some (if d_less A speed ratio then 0 else pre - 1)
                } else Some 0
              else if pre < int (length rates) - 1 then do {
                climbs \<leftarrow> (if pre = 0 then Some True else map_option (\<lambda>ratio. d_less A ratio speed) (step pre));
                if climbs then do {
                  cur_rate \<leftarrow> at_index rates pre;
                  osmp_climb A rates speed cur_rate (length rates) 0
                } else Some 0
              } else Some 0);
        Some (q, 0)
      })"

section \<open>Raahs\<close>

text \<open>The largest relative step; the index is \<open>unsigned\<close>, so without any rate it runs out of bounds.\<close>

fun raahs_epsilon :: "'d arith \<Rightarrow> 'd list \<Rightarrow> nat \<Rightarrow> nat \<Rightarrow> 'd \<Rightarrow> 'd" where
  "raahs_epsilon A rates i 0 eps = eps"
| "raahs_epsilon A rates i (Suc k) eps =
     raahs_epsilon A rates (i + 1) k (d_max A eps (d_div A (d_sub A (rates ! (i + 1)) (rates ! i)) (rates ! i)))"

text \<open>The loop down: its condition \<open>i >= 0\<close> always holds for an unsigned \<open>i\<close>, so below 0 it reads out of bounds.\<close>

fun raahs_down :: "'d arith \<Rightarrow> 'd list \<Rightarrow> 'd \<Rightarrow> nat \<Rightarrow> int option" where
  "raahs_down A rates limit 0 = None"
| "raahs_down A rates limit (Suc i) =
     (if i < length rates then if d_less A (rates ! i) limit then Some (int i) else raahs_down A rates limit i else None)"

definition raahs_next :: "'d arith \<Rightarrow> 'd list \<Rightarrow> 'a dash_client \<Rightarrow> int \<Rightarrow> int \<Rightarrow> reply option" where
  "raahs_next A rates c pre segment_count =
     (if segment_count = 0 \<or> transmission_end (throughput c) = [] then Some no_reply
      else do {
        begun \<leftarrow> last_of (transmission_start (throughput c));
        ended \<leftarrow> last_of (transmission_end (throughput c));
        let sft = d_mul A (d_int A 1) (d_int A (delta_to_milliseconds (ended - begun)));
        let mi = d_div A (d_mul A (d_int A 1) (d_int A (segment_duration (video c)))) sft;
        fatal_unless (rates \<noteq> []);
        let eps = raahs_epsilon A rates 0 (length rates - 1) (d_int A 0);
        cur_rate \<leftarrow> at_index rates pre;
        q \<leftarrow> (if d_less A (d_add A (d_int A 1) eps) mi then Some (if pre < int (length rates) - 1 then pre + 1 else pre)
              else if d_less A mi (d_dec A 67 2) then raahs_down A rates (d_mul A mi cur_rate) (nat pre)
              else Some pre);
        let temp = d_div A (d_mul A cur_rate (d_int A (segment_duration (video c)))) (hd rates);
        t \<leftarrow> to_int_within A 32 temp;
        let delay = get_buffer_level_ms c - 9000 - t;
        Some (q, if 0 < delay then delta_from_milliseconds delay else 0)
      })"

section \<open>Fdash\<close>

text \<open>The last rate below the result.\<close>

fun last_below :: "'d arith \<Rightarrow> 'd list \<Rightarrow> 'd \<Rightarrow> int \<Rightarrow> int \<Rightarrow> int" where
  "last_below A [] x i best = best"
| "last_below A (r # rs) x i best = last_below A rs x (i + 1) (if d_less A r x then i else best)"

text \<open>The fuzzy factor: membership of the buffer level and of its change, and the rules.\<close>

definition fdash_output :: "'d arith \<Rightarrow> 'd \<Rightarrow> 'd \<Rightarrow> 'd \<Rightarrow> 'd" where
  "fdash_output A t level diff =
     (let n = d_int A; add = d_add A; sub = d_sub A; mul = d_mul A; quot = d_div A; less = d_less A;
          two_thirds = quot (mul (n 2) t) (n 3);
          (slow, ok, fast) =
            (if less level two_thirds then (n 1, n 0, n 0)
             else if less level t then
               (sub (n 1) (mul (quot (n 1) (quot t (n 3))) (sub level two_thirds)),
                mul (quot (n 1) (quot t (n 3))) (sub level two_thirds), n 0)
             else if less level (mul (n 4) t) then
               (n 0, sub (n 1) (mul (quot (n 1) (mul (n 3) t)) (sub level t)), mul (quot (n 1) (mul (n 3) t)) (sub level t))
             else (n 0, n 0, n 1));
          (falling, steady, rising) =
            (if less diff (quot (mul (n (- 2)) t) (n 3)) then (n 1, n 0, n 0)
             else if less diff (n 0) then
               (sub (n 1) (mul (quot (n 1) two_thirds) (add diff two_thirds)), mul (quot (n 1) two_thirds) (add diff two_thirds), n 0)
             else if less diff (mul (n 4) t) then
               (n 0, sub (n 1) (mul (quot (n 1) (mul (n 4) t)) diff), mul (quot (n 1) (mul (n 4) t)) diff)
             else (n 0, n 0, n 1));
          square = (\<lambda>a b. d_pow A (d_min A a b) (n 2));
          p2 = d_sqrt A (square fast rising);
          p1 = d_sqrt A (add (square fast steady) (square ok rising));
          z = d_sqrt A (add (add (square fast falling) (square ok steady)) (square slow rising));
          n1 = d_sqrt A (add (square ok falling) (square slow steady));
          n2 = d_sqrt A (square slow falling)
      in quot (add (add (add (add (mul n2 (d_dec A 25 2)) (mul n1 (d_dec A 5 1))) (mul z (n 1))) (mul p1 (n 2))) (mul p2 (n 4)))
           (add (add (add (add n2 n1) z) p1) p2))"

definition fdash_next :: "'d arith \<Rightarrow> 'd list \<Rightarrow> 'a dash_client \<Rightarrow> int \<Rightarrow> int \<Rightarrow> int \<Rightarrow> reply option" where
  "fdash_next A rates c pre segment_count target =
     (if segment_count = 0 then Some no_reply
      else do {
        let secs = (\<lambda>ms. d_div A (d_int A ms) (d_int A 1000));
        let t = secs target;
        let level = secs (get_buffer_level_ms c);
        let diff = secs (get_buffer_diff_ms c);
        bw \<leftarrow> predict A (throughput c) 5;
        let result = d_mul A (fdash_output A t level diff) bw;
        let q0 = last_below A rates result 0 pre;
        rate0 \<leftarrow> at_index rates q0;
        pre_rate \<leftarrow> at_index rates pre;
        let t_60 = d_add A level (d_mul A (d_sub A (d_div A bw rate0) (d_int A 1)) (d_int A 60));
        let q = (if d_less A pre_rate rate0 then if d_less A t_60 t then pre else q0
                 else if d_less A rate0 pre_rate then if d_less A t t_60 then pre else q0
                 else q0);
        if q = int (length rates) - 1 then do {
          rate \<leftarrow> at_index rates q;
          let to_download = d_div A (d_div A (d_mul A rate (d_int A (segment_duration (video c)))) (d_int A 1000)) bw;
          let sleep_time = d_sub A (d_sub A level t) to_download;
          if d_less A (d_int A 0) sleep_time then do {
            ms \<leftarrow> to_int_within A 64 (d_mul A sleep_time (d_int A 1000));
            Some (q, delta_from_milliseconds ms)
          } else Some (q, 0)
        } else Some (q, 0)
      })"

section \<open>Sftm\<close>

text \<open>Largest upward and smallest downward relative step.\<close>

fun sftm_up :: "'d arith \<Rightarrow> 'd list \<Rightarrow> nat \<Rightarrow> nat \<Rightarrow> 'd \<Rightarrow> 'd" where
  "sftm_up A rates i 0 e = e"
| "sftm_up A rates i (Suc k) e =
     sftm_up A rates (i + 1) k (d_max A e (d_div A (d_sub A (rates ! (i + 1)) (rates ! i)) (rates ! i)))"

fun sftm_down :: "'d arith \<Rightarrow> 'd list \<Rightarrow> nat \<Rightarrow> nat \<Rightarrow> 'd \<Rightarrow> 'd" where
  "sftm_down A rates i 0 e = e"
| "sftm_down A rates i (Suc k) e =
     sftm_down A rates (i + 1) k (d_min A e (d_div A (d_sub A (rates ! i) (rates ! (i - 1))) (rates ! i)))"

text \<open>The loop that switches down: the last quality before the first rate that is too high.\<close>

fun sftm_switch :: "'d arith \<Rightarrow> 'd list \<Rightarrow> 'd \<Rightarrow> nat \<Rightarrow> nat \<Rightarrow> int \<Rightarrow> int" where
  "sftm_switch A rates limit i 0 q = q"
| "sftm_switch A rates limit i (Suc k) q =
     (if d_le A limit (rates ! i) then q else sftm_switch A rates limit (i + 1) k (int i))"

definition sftm_next ::
  "'d arith \<Rightarrow> 'd list \<Rightarrow> 'a dash_client \<Rightarrow> int \<Rightarrow> int \<Rightarrow> int \<times> bool \<Rightarrow> (reply \<times> (int \<times> bool)) option" where
  "sftm_next A rates c pre segment_count st =
     (if segment_count = 0 then Some (no_reply, st)
      else do {
        let (target, exceeded) = st;
        let n = int (length rates);
        ended \<leftarrow> last_of (transmission_end (throughput c));
        begun \<leftarrow> last_of (transmission_start (throughput c));
        let msd = d_int A (segment_duration (video c));
        let sft = d_int A (delta_to_milliseconds (ended - begun));
        fatal_unless (fits_int (played_frames c * 1000));
        let ts_o = d_int A (played_frames c * 1000 sdiv kFramesPerSecond);
        let rsft0 = d_sub A (d_sub A (d_mul A (d_int A segment_count) msd) ts_o) (d_int A target);
        let rsft_s = d_mul A (d_dec A 75 2) msd;
        let (rsft, exceeded') = (if d_less A rsft0 rsft_s \<and> \<not> exceeded then (rsft_s, exceeded) else (rsft0, True));
        let sftm = d_div A (d_min A msd rsft) sft;
        rate \<leftarrow> at_index rates pre;
        ec_u \<leftarrow> (if pre < n - 1 then map_option (\<lambda>r. d_div A (d_sub A r rate) rate) (at_index rates (pre + 1)) else Some (d_largest A));
        let e_u = d_min A (sftm_up A rates 0 (length rates - 1) (d_int A 0)) (d_mul A (d_int A 2) ec_u);
        ec_d \<leftarrow> (if 0 < pre then map_option (\<lambda>r. d_div A (d_sub A rate r) rate) (at_index rates (pre - 1)) else Some (d_int A 1));
        let emin_d = sftm_down A rates 1 (length rates - 1) (d_largest A);
        let e_d = d_max A (d_mul A (d_int A 2) emin_d) ec_d;
        let q = (if d_less A (d_add A (d_int A 1) e_u) sftm \<and> pre < n - 1 then pre + 1
                 else if d_less A sftm (d_sub A (d_int A 1) e_d) \<and> pre \<noteq> 0
                 then sftm_switch A rates (d_mul A sftm rate) 0 (nat pre) pre
                 else pre);
        b_max \<leftarrow> at_index rates (n - 1);
        b_min \<leftarrow> at_index rates 0;
        let t_id = d_sub A (d_int A (get_buffer_level_ms c)) (d_div A (d_mul A (d_int A (segment_duration (video c))) b_max) b_min);
        delay \<leftarrow> (if d_less A (d_int A 0) t_id then map_option delta_from_milliseconds (to_int_within A 64 t_id) else Some 0);
        Some ((q, delay), (target, exceeded'))
      })"

section \<open>Svaa\<close>

record svaa =
  sv_target :: int
  sv_k_1 :: int
  sv_k_2 :: int
  sv_counter :: int

text \<open>The loop from the top down to the first rate that the bandwidth carries, or to 0.\<close>

fun svaa_highest :: "'d arith \<Rightarrow> 'd list \<Rightarrow> 'd \<Rightarrow> nat \<Rightarrow> int" where
  "svaa_highest A rates bw 0 = 0"
| "svaa_highest A rates bw (Suc i) = (if d_less A bw (rates ! Suc i) then svaa_highest A rates bw i else int (Suc i))"

definition svaa_next :: "'d arith \<Rightarrow> 'd list \<Rightarrow> 'a dash_client \<Rightarrow> int \<Rightarrow> int \<Rightarrow> svaa \<Rightarrow> (reply \<times> svaa) option" where
  "svaa_next A rates c pre segment_count s =
     (if segment_count = 0 then Some (no_reply, s)
      else do {
        let secs = (\<lambda>ms. d_div A (d_mul A (d_int A 1) (d_int A ms)) (d_int A 1000));
        let diff = secs (get_buffer_diff_ms c);
        let q_tk = secs (get_buffer_level_ms c);
        let q_ref = d_int A (sv_target s sdiv 1000);
        let e = d_exp A (d_mul A (d_int A 1) (d_sub A q_tk q_ref));
        let f_q = d_div A (d_mul A (d_int A 2) e) (d_add A (d_int A 1) e);
        let delta = secs (segment_duration (video c));
        let f_t = d_div A delta (d_sub A delta diff);
        t_k \<leftarrow> predict A (throughput c) 5;
        let u_k = d_mul A (d_mul A (d_mul A f_q f_t) (d_int A 1)) t_k;
        let m_k = (if d_le A (d_mul A (d_dec A 4 1) delta) diff then 1
                   else if d_le A (d_mul A (d_dec A 2 1) delta) diff then 5
                   else if d_le A (d_int A 0) diff then 15 else 20);
        let m = (m_k + sv_k_1 s + sv_k_2 s) sdiv 3;
        let s1 = s\<lparr>sv_k_2 := sv_k_1 s, sv_k_1 := m_k\<rparr>;
        rate \<leftarrow> at_index rates pre;
        if d_less A q_tk (d_div A q_ref (d_int A 2)) then Some ((svaa_highest A rates t_k (length rates - 1), 0), s1)
        else if d_less A rate u_k then
          let s2 = s1\<lparr>sv_counter := sv_counter s1 + 1\<rparr>
          in if m < sv_counter s2 then Some ((svaa_highest A rates t_k (length rates - 1), 0), s2\<lparr>sv_counter := 0\<rparr>)
             else Some ((pre, 0), s2)
        else if d_less A u_k rate then Some ((pre, 0), s1\<lparr>sv_counter := 0\<rparr>)
        else Some ((pre, 0), s1)
      })"

section \<open>The choice\<close>

datatype 'd algorithm_state =
    Festive festive
  | Panda "'d panda"
  | Tobasco bool
  | Osmp
  | Raahs
  | Fdash int
  | Sftm "int \<times> bool"
  | Svaa svaa

text \<open>An unknown name leaves the algorithm as it is; \<open>memory\<close> is what the new Panda object finds in its members.\<close>

definition set_adaptation_algorithm :: "string \<Rightarrow> 'd panda \<Rightarrow> 'd algorithm_state \<Rightarrow> 'd algorithm_state" where
  "set_adaptation_algorithm name memory a =
     (if name = ''panda'' then Panda (memory\<lparr>pa_target := 0\<rparr>)
      else if name = ''tobasco'' then Tobasco True
      else if name = ''osmp'' then Osmp
      else if name = ''raahs'' then Raahs
      else if name = ''fdash'' then Fdash 20000
      else if name = ''sftm'' then Sftm (20000, False)
      else if name = ''svaa'' then Svaa \<lparr>sv_target = 20000, sv_k_1 = 0, sv_k_2 = 0, sv_counter = 0\<rparr>
      else a)"

fun get_next_quality ::
  "'d arith \<Rightarrow> 'd list \<Rightarrow> 'd algorithm_state \<Rightarrow> 'a dash_client \<Rightarrow> quic_time \<Rightarrow> int \<Rightarrow> int \<Rightarrow> (reply \<times> 'd algorithm_state) option" where
  "get_next_quality A rates (Festive f) c now pre i = map_option (map_prod id Festive) (festive_next A rates c pre i f)"
| "get_next_quality A rates (Panda p) c now pre i = map_option (map_prod id Panda) (panda_next A rates c now i p)"
| "get_next_quality A rates (Tobasco b) c now pre i = map_option (map_prod id Tobasco) (tobasco_next A rates c pre i b)"
| "get_next_quality A rates Osmp c now pre i = map_option (\<lambda>r. (r, Osmp)) (osmp_next A rates c pre i)"
| "get_next_quality A rates Raahs c now pre i = map_option (\<lambda>r. (r, Raahs)) (raahs_next A rates c pre i)"
| "get_next_quality A rates (Fdash t) c now pre i = map_option (\<lambda>r. (r, Fdash t)) (fdash_next A rates c pre i t)"
| "get_next_quality A rates (Sftm st) c now pre i = map_option (map_prod id Sftm) (sftm_next A rates c pre i st)"
| "get_next_quality A rates (Svaa s) c now pre i = map_option (map_prod id Svaa) (svaa_next A rates c pre i s)"

text \<open>The algorithm as the client calls it.\<close>

definition dash_adaptation :: "'d arith \<Rightarrow> 'd list \<Rightarrow> 'd algorithm_state adaptation" where
  "dash_adaptation A rates c now pre i = map_option (\<lambda>((q, delay), a). (q, delay, a)) (get_next_quality A rates (algorithm c) c now pre i)"

end
