(* ===== verification/Random_Laws.thy ===== *)
theory Random_Laws
  imports Random_Source
begin

text \<open>
  The generator against its reference: the sequence that the MT19937 recurrence defines, of which the array in the state is
  a window of 624 words.
\<close>

section \<open>The reference sequence\<close>

text \<open>One word of the recurrence: the highest bit of one word and the other bits of the next, twisted.\<close>

definition mt_twist :: "u32 \<Rightarrow> u32 \<Rightarrow> u32" where
  "mt_twist a b =
     (let y = (a AND 0x80000000) OR (b AND 0x7fffffff) in drop_bit 1 y XOR (if bit y 0 then 0x9908b0df else 0))"

function mt_seq :: "u32 \<Rightarrow> nat \<Rightarrow> u32" where
  "mt_seq s n =
     (if n = 0 then s
      else if n < 624 then 1812433253 * (mt_seq s (n - 1) XOR drop_bit 30 (mt_seq s (n - 1))) + of_nat n
      else mt_seq s (n - 227) XOR mt_twist (mt_seq s (n - 624)) (mt_seq s (n - 623)))"
  by auto
termination by (relation "measure snd") auto

declare mt_seq.simps [simp del]

definition mt_window :: "u32 \<Rightarrow> nat \<Rightarrow> u32 list" where
  "mt_window s b = map (\<lambda>i. mt_seq s (b + i)) [0..<624]"

lemma mt_window_nth [simp]: "i < 624 \<Longrightarrow> mt_window s b ! i = mt_seq s (b + i)" "length (mt_window s b) = 624"
  by (simp_all add: mt_window_def)

section \<open>Seeding\<close>

text \<open>Cutting a 64-bit result is computing with 32 bits.\<close>

lemma cut_word: "(ucast (word_of_int x :: 64 word) :: u32) = word_of_int x"
  by transfer (simp only: take_bit_take_bit, simp)

lemma cut_add: "(ucast (a + b :: 64 word) :: u32) = ucast a + ucast b"
proof -
  have "a + b = word_of_int (uint a + uint b)" by (simp only: wi_hom_add [symmetric] word_of_int_uint)
  then have "(ucast (a + b) :: u32) = word_of_int (uint a + uint b)" by (simp only: cut_word)
  also have "\<dots> = word_of_int (uint a) + word_of_int (uint b)" by (simp only: wi_hom_add)
  also have "\<dots> = ucast a + ucast b" by (simp only: cut_word [symmetric] word_of_int_uint)
  finally show ?thesis .
qed

lemma cut_mult: "(ucast (a * b :: 64 word) :: u32) = ucast a * ucast b"
proof -
  have "a * b = word_of_int (uint a * uint b)" by (simp only: wi_hom_mult [symmetric] word_of_int_uint)
  then have "(ucast (a * b) :: u32) = word_of_int (uint a * uint b)" by (simp only: cut_word)
  also have "\<dots> = word_of_int (uint a) * word_of_int (uint b)" by (simp only: wi_hom_mult)
  also have "\<dots> = ucast a * ucast b" by (simp only: cut_word [symmetric] word_of_int_uint)
  finally show ?thesis .
qed

lemma seed_next_eq: "seed_next prev i = 1812433253 * (prev XOR drop_bit 30 prev) + of_nat i"
proof -
  have "(ucast (ucast w :: 64 word) :: u32) = w" for w :: u32 by (rule bit_word_eqI) (simp add: bit_simps)
  moreover have "(ucast (of_nat i :: 64 word) :: u32) = of_nat i" using cut_word [of "int i"] by simp
  ultimately show ?thesis by (simp add: seed_next_def cut_add cut_mult)
qed

lemma seed_loop_length [simp]: "length (seed_loop i k m) = length m"
  by (induction i k m rule: seed_loop.induct) simp_all

lemma seed_loop_seq:
  assumes "length m = 624"
  shows "0 < i \<Longrightarrow> i + k \<le> 624 \<Longrightarrow> (\<forall>j < i. m ! j = mt_seq s j) \<Longrightarrow> (\<forall>j < i + k. seed_loop i k m ! j = mt_seq s j)"
  using assms
proof (induction i k m rule: seed_loop.induct)
  case (2 i k m)
  let ?m = "m[i := seed_next (m ! (i - 1)) i]"
  have "mt_seq s i = seed_next (m ! (i - 1)) i"
    using 2(2-4) by (subst mt_seq.simps) (simp add: seed_next_eq)
  then have "\<forall>j < i + 1. ?m ! j = mt_seq s j" using 2(3-5) by (auto simp: less_Suc_eq)
  then show ?case using 2 by simp
qed simp

lemma init_genrand_seq:
  assumes "length (mt r) = 624"
  shows "init_genrand s r = r\<lparr>mt := mt_window s 0, mti := 624\<rparr>"
proof -
  have "\<forall>j < 1 + 623. seed_loop 1 623 ((mt r)[0 := s]) ! j = mt_seq s j"
    using assms by (intro seed_loop_seq) (simp_all add: mt_seq.simps [of s 0])
  then have "seed_loop 1 623 ((mt r)[0 := s]) = mt_window s 0"
    using assms by (intro nth_equalityI) simp_all
  then show ?thesis by (simp add: init_genrand_def RANDOM_N_def)
qed

section \<open>Renewing the array in place\<close>

text \<open>Below \<open>k\<close> the next window, from there on the old one.\<close>

definition half_renewed :: "u32 \<Rightarrow> nat \<Rightarrow> nat \<Rightarrow> u32 list \<Rightarrow> bool" where
  "half_renewed s b k m \<longleftrightarrow> length m = 624 \<and> (\<forall>i < 624. m ! i = mt_seq s (if i < k then b + 624 + i else b + i))"

lemma mag_index: "unat (y AND 1 :: u32) = (if bit y 0 then 1 else 0)"
  by (simp add: and_one_eq mod_2_eq_odd bit_0)

lemma twist_word_eq: "twist_word [0, MATRIX_A] a b c = c XOR mt_twist a b"
  unfolding twist_word_def mt_twist_def Let_def mag_index UPPER_MASK_def LOWER_MASK_def MATRIX_A_def
  by (simp add: ac_simps)

lemma mt_seq_next: "mt_seq s (b + 624 + i) = mt_seq s (b + 397 + i) XOR mt_twist (mt_seq s (b + i)) (mt_seq s (b + i + 1))"
proof -
  have "b + 624 + i - 227 = b + 397 + i" "b + 624 + i - 624 = b + i" "b + 624 + i - 623 = b + i + 1" by simp_all
  moreover have "\<not> b + 624 + i < 624" "b + 624 + i \<noteq> 0" by simp_all
  ultimately show ?thesis by (subst mt_seq.simps) (simp only: if_False)
qed

lemma half_renewed_step:
  assumes half: "half_renewed s b k m" and k: "k < 623"
    and c: "c = (if k < 227 then m ! (k + 397) else m ! (k - 227))"
  shows "half_renewed s b (k + 1) (m[k := twist_word [0, MATRIX_A] (m ! k) (m ! (k + 1)) c])"
proof -
  have nth: "m ! i = mt_seq s (if i < k then b + 624 + i else b + i)" if "i < 624" for i
    using half that by (simp add: half_renewed_def)
  have "c = mt_seq s (b + 397 + k)"
  proof (cases "k < 227")
    case True
    then show ?thesis using nth [of "k + 397"] c by (simp add: algebra_simps)
  next
    case False
    then have same: "b + 624 + (k - 227) = b + 397 + k" by simp
    have "c = mt_seq s (b + 624 + (k - 227))" using nth [of "k - 227"] c False k by simp
    then show ?thesis unfolding same .
  qed
  then have "twist_word [0, MATRIX_A] (m ! k) (m ! (k + 1)) c = mt_seq s (b + 624 + k)"
    using nth [of k] nth [of "k + 1"] k mt_seq_next [of s b k] by (simp add: twist_word_eq)
  then show ?thesis using half nth k by (auto simp: half_renewed_def nth_list_update less_Suc_eq)
qed

lemma twist_first_renews:
  "mag = [0, MATRIX_A] \<Longrightarrow> half_renewed s b kk m \<Longrightarrow> kk \<le> 227 \<Longrightarrow>
    \<exists>m'. twist_first mag kk m = (227, m') \<and> half_renewed s b 227 m'"
proof (induction mag kk m rule: twist_first.induct)
  case (1 mag kk m)
  show ?case
  proof (cases "kk < 227")
    case True
    have "half_renewed s b (kk + 1) (m[kk := twist_word [0, MATRIX_A] (m ! kk) (m ! (kk + 1)) (m ! (kk + 397))])"
      using 1(3) True by (intro half_renewed_step) simp_all
    then show ?thesis using 1(1,2) True by (subst twist_first.simps) (simp add: RANDOM_N_def RANDOM_M_def)
  next
    case False
    then have "kk = 227" using 1(4) by simp
    then show ?thesis using 1(3) by (subst twist_first.simps) (simp add: RANDOM_N_def RANDOM_M_def)
  qed
qed

lemma twist_second_renews:
  "mag = [0, MATRIX_A] \<Longrightarrow> half_renewed s b kk m \<Longrightarrow> 227 \<le> kk \<Longrightarrow> kk \<le> 623 \<Longrightarrow> half_renewed s b 623 (twist_second mag kk m)"
proof (induction mag kk m rule: twist_second.induct)
  case (1 mag kk m)
  show ?case
  proof (cases "kk < 623")
    case True
    have index: "nat ((int kk + (int RANDOM_M - int RANDOM_N)) mod 2 ^ 32) = kk - 227"
      using 1(4) True by (simp add: RANDOM_N_def RANDOM_M_def)
    have "half_renewed s b (kk + 1) (m[kk := twist_word [0, MATRIX_A] (m ! kk) (m ! (kk + 1)) (m ! (kk - 227))])"
      using 1(3,4) True by (intro half_renewed_step) simp_all
    with 1(1) [OF _ 1(2)] 1(2,4) True
    have "half_renewed s b 623 (twist_second mag (kk + 1) (m[kk := twist_word mag (m ! kk) (m ! (kk + 1))
        (m ! nat ((int kk + (int RANDOM_M - int RANDOM_N)) mod 2 ^ 32))]))"
      unfolding index by (simp add: RANDOM_N_def)
    then show ?thesis using True by (subst twist_second.simps) (simp only: RANDOM_N_def, simp)
  next
    case False
    then have "kk = 623" using 1(5) by simp
    then show ?thesis using 1(3) by (subst twist_second.simps) (simp add: RANDOM_N_def)
  qed
qed

lemma renew_window:
  assumes "mt r = mt_window s b" "mag01 r = [0, MATRIX_A]" "mti r = 624"
  shows "renew r = r\<lparr>mt := mt_window s (b + 624), mti := 0\<rparr>"
proof -
  have start: "half_renewed s b 0 (mt r)" using assms(1) by (simp add: half_renewed_def)
  obtain m1 where m1: "twist_first (mag01 r) 0 (mt r) = (227, m1)" "half_renewed s b 227 m1"
    using twist_first_renews [OF assms(2) start] by auto
  define m2 where "m2 = twist_second (mag01 r) 227 m1"
  have half: "half_renewed s b 623 m2" using twist_second_renews [OF assms(2) m1(2)] by (simp add: m2_def)
  have m2: "m2 ! i = mt_seq s (if i < 623 then b + 624 + i else b + i)" if "i < 624" for i
    using half that by (simp add: half_renewed_def)
  have len: "length m2 = 624" using half by (simp add: half_renewed_def)
  have "twist_word (mag01 r) (m2 ! 623) (m2 ! 0) (m2 ! 396) = mt_seq s (b + 624 + 623)"
    using m2 [of 623] m2 [of 0] m2 [of 396] mt_seq_next [of s b 623] by (simp add: assms(2) twist_word_eq add.commute)
  then have "m2[623 := twist_word (mag01 r) (m2 ! 623) (m2 ! 0) (m2 ! 396)] = mt_window s (b + 624)"
    using m2 len by (intro nth_equalityI) (auto simp: nth_list_update)
  then show ?thesis unfolding renew_def Let_def using assms(3) m1(1)
    by (simp add: RANDOM_N_def RANDOM_M_def m2_def)
qed

section \<open>The numbers\<close>

text \<open>After \<open>n\<close> numbers: position and window.\<close>

definition at_number :: "u32 \<Rightarrow> nat \<Rightarrow> random \<Rightarrow> bool" where
  "at_number s n r \<longleftrightarrow> mag01 r = [0, MATRIX_A] \<and>
     (\<exists>b p. mt r = mt_window s b \<and> mti r = int p \<and> p \<le> 624 \<and> b + p = 624 + n)"

definition fresh :: "random \<Rightarrow> bool" where
  "fresh r \<longleftrightarrow> length (mt r) = 624 \<and> mag01 r = [0, MATRIX_A]"

lemma seeded_at: "fresh r \<Longrightarrow> at_number s 0 (init_genrand s r)"
  by (force simp: fresh_def at_number_def init_genrand_seq)

lemma genrand_at:
  assumes "at_number s n r"
  shows "\<exists>r'. genrand_int32 r = (temper (mt_seq s (624 + n)), r') \<and> at_number s (n + 1) r'"
proof -
  obtain b p where r: "mag01 r = [0, MATRIX_A]" "mt r = mt_window s b" "mti r = int p" "p \<le> 624" "b + p = 624 + n"
    using assms by (auto simp: at_number_def)
  show ?thesis
  proof (cases "p = 624")
    case True
    then have "renew r = r\<lparr>mt := mt_window s (b + 624), mti := 0\<rparr>" using r by (intro renew_window) simp_all
    moreover have "b = n" using r(5) True by simp
    ultimately show ?thesis using r True
      by (auto simp: genrand_int32_def Let_def RANDOM_N_def at_number_def add.commute intro!: exI [of _ "1 :: nat"] exI [of _ "b + 624"])
  next
    case False
    then have "genrand_int32 r = (temper (mt_seq s (624 + n)), r\<lparr>mti := int (p + 1)\<rparr>)"
      using r by (simp add: genrand_int32_def RANDOM_N_def)
    moreover have "at_number s (n + 1) (r\<lparr>mti := int (p + 1)\<rparr>)" unfolding at_number_def
      by (intro conjI exI [of _ b] exI [of _ "p + 1"]) (use r False in simp_all)
    ultimately show ?thesis by blast
  qed
qed

text \<open>A generator that was never seeded seeds itself.\<close>

lemma unseeded_at:
  assumes "fresh r" "mti r = 625"
  shows "genrand_int32 r = genrand_int32 (init_genrand 5489 r)"
proof -
  have "mti (init_genrand 5489 r) = 624" by (simp add: init_genrand_def RANDOM_N_def)
  then have "renew r = renew (init_genrand 5489 r)" using assms(2) by (simp add: renew_def RANDOM_N_def)
  then show ?thesis using assms(2) \<open>mti (init_genrand 5489 r) = 624\<close> by (simp add: genrand_int32_def RANDOM_N_def)
qed

fun take_numbers :: "nat \<Rightarrow> random \<Rightarrow> u32 list \<times> random" where
  "take_numbers 0 r = ([], r)"
| "take_numbers (Suc n) r = (let (y, r1) = next_unsigned r; (ys, r2) = take_numbers n r1 in (y # ys, r2))"

lemma take_numbers_at:
  "at_number s n r \<Longrightarrow> fst (take_numbers k r) = map (\<lambda>i. temper (mt_seq s (624 + n + i))) [0..<k] \<and> at_number s (n + k) (snd (take_numbers k r))"
proof (induction k arbitrary: n r)
  case (Suc k)
  obtain r1 where r1: "genrand_int32 r = (temper (mt_seq s (624 + n)), r1)" "at_number s (n + 1) r1"
    using genrand_at [OF Suc.prems] by blast
  have "map f [0..<Suc k] = f 0 # map (\<lambda>i. f (i + 1)) [0..<k]" for f :: "nat \<Rightarrow> u32"
    by (simp add: upt_conv_Cons map_Suc_upt [symmetric] comp_def del: upt_Suc)
  from this [of "\<lambda>i. temper (mt_seq s (624 + n + i))"] show ?case using Suc.IH [OF r1(2)]
    by (simp add: next_unsigned_def r1(1) add.assoc split: prod.split del: upt_Suc) (auto simp: add.commute)
qed simp

section \<open>Ranges\<close>

lemma genrand_int31_bounds: "genrand_int31 r = (n, r') \<Longrightarrow> 0 \<le> n \<and> n < 2 ^ 31"
proof -
  assume "genrand_int31 r = (n, r')"
  then obtain y where "n = uint (drop_bit 1 y :: u32)" by (auto simp: genrand_int31_def split: prod.splits)
  moreover have "uint (drop_bit 1 y) = uint y div 2" for y :: u32 
    by (simp only: unsigned_drop_bit_eq) (simp add: drop_bit_eq_div take_bit_int_eq_self uint_lt2p [of y, simplified])
  moreover have "uint y < 2 ^ 32" for y :: u32 using uint_lt2p [of y] by simp
  ultimately obtain m where "n = m div 2" "0 \<le> m" "m < 2 ^ 32" by (metis uint_ge_0)
  then show ?thesis by simp
qed

end
