(* ===== verification/Dash_Adaptation_Laws.thy ===== *)
theory Dash_Adaptation_Laws
  imports Dash_Adaptation Random_Laws Dash_Client_Laws
begin

text \<open>
  What holds of the adaptation algorithms whatever the arithmetic of \<open>double\<close> computes: the quality that they choose is one
  that the video has.  And when the prediction of the bandwidth has a value.
\<close>

lemma at_index_Some: "at_index xs i = Some x \<longleftrightarrow> 0 \<le> i \<and> i < int (length xs) \<and> x = xs ! nat i"
  by (auto simp: at_index_def)

text \<open>Taking a run apart, without the values that it names.\<close>

lemma Let_SomeE: "Let x f = Some y \<Longrightarrow> (\<And>z. f z = Some y \<Longrightarrow> R) \<Longrightarrow> R"
  by (simp add: Let_def)

lemma if_not_SomeE: "(if b then x else y) = Some z \<Longrightarrow> \<not> b \<Longrightarrow> (y = Some z \<Longrightarrow> R) \<Longrightarrow> R"
  by simp

lemma case_prod_SomeE: "(case p of (a, b) \<Rightarrow> f a b) = Some z \<Longrightarrow> (\<And>a b. f a b = Some z \<Longrightarrow> R) \<Longrightarrow> R"
  by (cases p) simp

section \<open>The prediction\<close>

lemma predict_loop_defined:
  "predict_loop A t k i m x \<noteq> None \<longleftrightarrow>
    (\<forall>j. i \<le> j \<and> j < i + int k \<longrightarrow> 0 \<le> j \<and> j < int (length (transmission_start t)) \<and> j < int (length (transmission_end t)) \<and>
      j < int (length (bytes_received t)) \<and> transmission_start t ! nat j < transmission_end t ! nat j)"
  (is "_ \<longleftrightarrow> (\<forall>j. i \<le> j \<and> j < i + int k \<longrightarrow> ?ok j)")
proof (induction k arbitrary: i m x)
  case (Suc k)
  have split: "(\<forall>j. i \<le> j \<and> j < i + int (Suc k) \<longrightarrow> ?ok j) \<longleftrightarrow> ?ok i \<and> (\<forall>j. i + 1 \<le> j \<and> j < i + 1 + int k \<longrightarrow> ?ok j)"
    (is "?all \<longleftrightarrow> ?one")
  proof
    assume ?one
    show ?all
    proof (intro allI impI)
      fix j
      assume "i \<le> j \<and> j < i + int (Suc k)"
      then show "?ok j" using \<open>?one\<close> by (cases "j = i") auto
    qed
  qed auto
  show ?case
  proof (cases "?ok i")
    case True
    then show ?thesis unfolding split using Suc.IH [of "i + 1"] by (simp add: at_index_def Let_def)
  next
    case False
    then show ?thesis unfolding split by (auto simp: at_index_def Let_def)
  qed
qed simp

lemma predict_defined:
  assumes "0 \<le> horizon"
  shows "predict A t horizon \<noteq> None \<longleftrightarrow>
    (\<forall>j. int (length (transmission_start t)) - horizon \<le> int j \<and> j < length (transmission_start t) \<longrightarrow>
      j < length (transmission_end t) \<and> j < length (bytes_received t) \<and> transmission_start t ! j < transmission_end t ! j)"
proof -
  define n where "n = length (transmission_start t)"
  define i where "i = max 0 (int n - horizon)"
  have i: "0 \<le> i" "i + int (nat (int n - i)) = int n" "int n - horizon \<le> i" using assms by (auto simp: i_def)
  let ?ok = "\<lambda>j. j < length (transmission_end t) \<and> j < length (bytes_received t) \<and> transmission_start t ! j < transmission_end t ! j"
  have "predict A t horizon \<noteq> None \<longleftrightarrow> predict_loop A t (nat (int n - i)) i 0 (d_int A 0) \<noteq> None"
    by (auto simp: predict_def Let_def n_def i_def split: bind_splits)
  also have "\<dots> \<longleftrightarrow> (\<forall>j. i \<le> j \<and> j < int n \<longrightarrow> ?ok (nat j))"
    unfolding predict_loop_defined i(2) using i(1) by (auto simp: n_def nat_less_iff)
  also have "\<dots> \<longleftrightarrow> (\<forall>j. int n - horizon \<le> int j \<and> j < n \<longrightarrow> ?ok j)"
  proof safe
    fix j assume all: "\<forall>j. i \<le> j \<and> j < int n \<longrightarrow> ?ok (nat j)" and j: "int n - horizon \<le> int j" "j < n"
    from all [rule_format, of "int j"] j show "j < length (transmission_end t)" "j < length (bytes_received t)"
      "transmission_start t ! j < transmission_end t ! j" by (auto simp: i_def)
  next
    fix j assume all: "\<forall>j. int n - horizon \<le> int j \<and> j < n \<longrightarrow> ?ok j" and j: "i \<le> j" "j < int n"
    from all [rule_format, of "nat j"] i j show "nat j < length (transmission_end t)" "nat j < length (bytes_received t)"
      "transmission_start t ! nat j < transmission_end t ! nat j" by auto
  qed
  finally show ?thesis by (simp add: n_def)
qed

section \<open>Qualities of the video\<close>

abbreviation in_rates :: "'d list \<Rightarrow> int \<Rightarrow> bool" where
  "in_rates rates q \<equiv> 0 \<le> q \<and> q < int (length rates)"

lemma festive_step:
  assumes run: "festive_next A rates c pre i f = Some ((q, delay), f')" and i: "i \<noteq> 0" and pre: "in_rates rates pre"
  shows "in_rates rates q \<and> \<bar>q - pre\<bar> \<le> 1 \<and>
    (\<exists>n r. next_int_between 0 (2 * fs_delta f + 1) (fs_random f) = Some (n, r) \<and> fs_random f' = r \<and> fs_target f' = fs_target f \<and> fs_delta f' = fs_delta f \<and>
      delay = (let buf = fs_target f - fs_delta f + n in if buf < get_buffer_level_ms c then (get_buffer_level_ms c - buf) * 1000 else 0))"
proof -
  define top where "top = int (length rates) - 1"
  obtain bw where bw: "predict A (throughput c) kThroughputHorizon = Some bw"
    using run i unfolding festive_next_def by (auto split: bind_splits)
  obtain b_ref0 ups where ref: "festive_reference (festive_target A rates (d_mul A (d_dec A 8 1) bw) (length rates)) pre (fs_switch_up f) = Some (b_ref0, ups)"
    using run i bw unfolding festive_next_def Let_def by (auto split: bind_splits)
  define b_ref where "b_ref = max (min b_ref0 top) 0"
  define choice where "choice = (if b_ref \<noteq> pre then do {
             score_cur \<leftarrow> combine_score A (fs_horizon f) pre b_ref pre bw (history_quality c) rates;
             score_ref \<leftarrow> combine_score A (fs_horizon f) b_ref b_ref pre bw (history_quality c) rates;
             Some (if d_le A score_cur score_ref then (pre, ups) else (b_ref, if pre < b_ref then 0 else ups))
           } else Some (pre, ups))"
  have body: "(do {
        (q, ups') \<leftarrow> choice;
        (n, random') \<leftarrow> next_int_between 0 (2 * fs_delta f + 1) (fs_random f);
        let rand_buf = fs_target f - fs_delta f + n;
        let level = get_buffer_level_ms c;
        Some ((q, if rand_buf < level then delta_from_milliseconds (level - rand_buf) else 0),
          f\<lparr>fs_random := random', fs_switch_up := ups'\<rparr>)}) = Some ((q, delay), f')"
    using run i bw ref unfolding festive_next_def Let_def by (simp add: choice_def b_ref_def top_def cong: if_cong)
  obtain ups' where q: "choice = Some (q, ups')" using body by (auto simp: Let_def split: bind_splits)
  have "\<bar>b_ref0 - pre\<bar> \<le> 1" using ref by (auto simp: festive_reference_def split: if_splits bind_splits)
  then have "in_rates rates b_ref" "\<bar>b_ref - pre\<bar> \<le> 1" using pre by (auto simp: b_ref_def top_def)
  moreover have "q = pre \<or> q = b_ref" using q by (auto simp: choice_def split: if_splits bind_splits)
  ultimately have "in_rates rates q \<and> \<bar>q - pre\<bar> \<le> 1" using pre by auto
  then show ?thesis using body q
    by (auto simp: Let_def delta_from_milliseconds_def split: bind_splits)
qed

lemma find_largest_range: "k + i \<le> n \<Longrightarrow> 0 \<le> best \<Longrightarrow> best < int n \<Longrightarrow>
    0 \<le> find_largest_loop A rates limit i k best \<and> find_largest_loop A rates limit i k best < int n"
  by (induction k arbitrary: i best) auto

lemma find_largest_in: "rates \<noteq> [] \<Longrightarrow> in_rates rates (find_largest A rates s d)"
  unfolding find_largest_def by (rule find_largest_range) (auto simp: Suc_le_eq)

lemma panda_range:
  assumes run: "panda_next A rates c now i p = Some ((q, delay), p')" and p: "in_rates rates (pa_index p)"
  shows "in_rates rates q \<and> in_rates rates (pa_index p')"
proof (cases "i = 0")
  case True
  then show ?thesis using run p by (auto simp: panda_next_def no_reply_def Let_def)
next
  case False
  from False run show ?thesis unfolding panda_next_def
    by (elim Let_SomeE if_not_SomeE bind_SomeE case_prod_SomeE) (auto simp: at_index_Some)
qed

lemma tobasco_choice:
  "(if fast then
      if c1 then ((if c2 then up else pre, d1), True)
      else if c3 then ((if c4 then up else pre, d2), True) else ((if c5 then up else pre, d3), True)
    else
      if c1 then ((0, d4), False)
      else if c3 then ((if c6 then down else pre, d5), False)
      else if c7 then ((pre, d6), False) else if c8 then ((pre, d7), False) else ((up, d8), False)) = ((q, delay), b') \<Longrightarrow>
    q = up \<or> q = down \<or> q = pre \<or> q = (0 :: int)"
  by (cases fast; cases c1; cases c3; simp split: if_splits; blast)

lemma tobasco_range:
  assumes run: "tobasco_next A rates c pre i b = Some ((q, delay), b')" and pre: "in_rates rates pre"
  shows "in_rates rates q"
proof (cases "i = 0")
  case True
  then show ?thesis using run pre by (auto simp: tobasco_next_def no_reply_def)
next
  case False
  define up where "up = (if pre + 1 < int (length rates) then pre + 1 else pre)"
  define down where "down = (if 1 \<le> pre then pre - 1 else pre)"
  have "in_rates rates up" "in_rates rates down" "in_rates rates 0" using pre by (auto simp: up_def down_def)
  moreover have "q = up \<or> q = down \<or> q = pre \<or> q = 0"
    using run unfolding tobasco_next_def up_def [symmetric] down_def [symmetric] Let_def if_not_P [OF False]
    by (elim bind_SomeE) (rule tobasco_choice, rule option.inject [THEN iffD1])
  ultimately show ?thesis using pre by auto
qed

lemma osmp_climb_range: "osmp_climb A rates s r k q = Some q' \<Longrightarrow> 0 \<le> q \<Longrightarrow> q + 1 < int (length rates) \<Longrightarrow> in_rates rates q'"
  by (induction k arbitrary: q) (auto simp: Let_def at_index_Some split: if_splits bind_splits)

lemma osmp_climb_total: "0 \<le> q \<Longrightarrow> q + 1 < int (length rates) \<Longrightarrow> int (length rates) \<le> q + 1 + int k \<Longrightarrow> osmp_climb A rates s r k q \<noteq> None"
proof (induction k arbitrary: q)
  case (Suc k)
  show ?case
  proof (cases "q + 1 = int (length rates) - 1")
    case False
    then have "osmp_climb A rates s r k (q + 1) \<noteq> None" using Suc.prems by (intro Suc.IH) simp_all
    then show ?thesis using Suc.prems False by (simp add: Let_def at_index_def)
  qed (simp add: Let_def)
qed simp

lemma osmp_range:
  assumes run: "osmp_next A rates c pre i = Some (q, delay)" and pre: "in_rates rates pre"
  shows "in_rates rates q"
proof (cases "i = 0 \<or> transmission_end (throughput c) = []")
  case True
  then show ?thesis using run pre by (auto simp: osmp_next_def no_reply_def)
next
  case False
  then show ?thesis using run pre unfolding osmp_next_def Let_def
    by (auto split: bind_splits if_splits dest: osmp_climb_range)
qed

lemma raahs_down_range: "raahs_down A rates l k = Some q \<Longrightarrow> in_rates rates q"
  by (induction k) (auto split: if_splits)

lemma raahs_range:
  assumes run: "raahs_next A rates c pre i = Some (q, delay)" and pre: "in_rates rates pre"
  shows "in_rates rates q \<and> 0 \<le> delay"
proof (cases "i = 0 \<or> transmission_end (throughput c) = []")
  case True
  then show ?thesis using run pre by (auto simp: raahs_next_def no_reply_def)
next
  case False
  then show ?thesis using run pre unfolding raahs_next_def Let_def
    by (auto simp: delta_from_milliseconds_def split: bind_splits if_splits dest: raahs_down_range)
qed

lemma last_below_range: "0 \<le> best \<Longrightarrow> best < n \<Longrightarrow> 0 \<le> i \<Longrightarrow> i + int (length rs) \<le> n \<Longrightarrow>
    0 \<le> last_below A rs x i best \<and> last_below A rs x i best < n"
  by (induction rs arbitrary: i best) auto

lemma fdash_range:
  assumes run: "fdash_next A rates c pre i t = Some (q, delay)" and pre: "in_rates rates pre"
  shows "in_rates rates q"
proof (cases "i = 0")
  case True
  then show ?thesis using run pre by (auto simp: fdash_next_def no_reply_def)
next
  case False
  have "in_rates rates (last_below A rates x 0 pre)" for x using pre by (intro last_below_range) simp_all
  then show ?thesis using run pre False unfolding fdash_next_def Let_def
    by (auto split: bind_splits if_splits)
qed

lemma sftm_switch_range: "0 \<le> q \<Longrightarrow> q < int n \<Longrightarrow> i + k \<le> n \<Longrightarrow> 0 \<le> sftm_switch A rates l i k q \<and> sftm_switch A rates l i k q < int n"
  by (induction k arbitrary: i q) auto

lemma sftm_range:
  assumes run: "sftm_next A rates c pre i st = Some ((q, delay), st')" and pre: "in_rates rates pre"
  shows "in_rates rates q"
proof (cases "i = 0")
  case True
  then show ?thesis using run pre by (auto simp: sftm_next_def no_reply_def)
next
  case False
  have "in_rates rates (sftm_switch A rates x 0 (nat pre) pre)" for x using pre by (intro sftm_switch_range) auto
  then show ?thesis using run pre False unfolding sftm_next_def Let_def
    by (auto split: bind_splits if_splits prod.splits)
qed

lemma svaa_highest_range: "k < length rates \<Longrightarrow> in_rates rates (svaa_highest A rates bw k)"
  by (induction k) auto

lemma svaa_range:
  assumes run: "svaa_next A rates c pre i s = Some ((q, delay), s')" and pre: "in_rates rates pre"
  shows "in_rates rates q"
proof (cases "i = 0")
  case True
  then show ?thesis using run pre by (auto simp: svaa_next_def no_reply_def)
next
  case False
  have "in_rates rates (svaa_highest A rates x (length rates - 1))" for x using pre by (intro svaa_highest_range) auto
  then show ?thesis using run pre False unfolding svaa_next_def Let_def
    by (auto split: bind_splits if_splits)
qed

text \<open>Only Panda keeps an index of its own.\<close>

definition algorithm_ok :: "nat \<Rightarrow> 'd algorithm_state \<Rightarrow> bool" where
  "algorithm_ok n a \<longleftrightarrow> (\<forall>p. a = Panda p \<longrightarrow> 0 \<le> pa_index p \<and> pa_index p < int n)"

lemma next_quality_range:
  assumes run: "get_next_quality A rates a c now pre i = Some ((q, delay), a')" and pre: "in_rates rates pre" and ok: "algorithm_ok (length rates) a"
  shows "in_rates rates q \<and> algorithm_ok (length rates) a'"
proof (cases a)
  case (Festive f)
  then obtain f' where f: "festive_next A rates c pre i f = Some ((q, delay), f')" "a' = Festive f'" using run by auto
  show ?thesis
  proof (cases "i = 0")
    case True
    then show ?thesis using f pre by (auto simp: festive_next_def no_reply_def algorithm_ok_def)
  qed (use festive_step [OF f(1)] pre f in \<open>auto simp: algorithm_ok_def\<close>)
next
  case (Panda p)
  then show ?thesis using run ok panda_range [of A rates c now i p q delay] by (auto simp: algorithm_ok_def)
qed (use run pre in \<open>auto simp: algorithm_ok_def dest: tobasco_range osmp_range raahs_range fdash_range sftm_range svaa_range\<close>)

end
