(* ===== verification/Random_Properties.thy ===== *)
theory Random_Properties
  imports Random_Laws
begin

text \<open>
  The properties of the random numbers: they are those of the MT19937 recurrence, and they lie in the ranges
  that are asked for.
\<close>

section \<open>Tempering loses nothing\<close>

text \<open>A word whose bits all come from higher bits of itself is zero, and likewise from lower bits.\<close>

lemma from_above_zero:
  fixes d :: u32
  assumes "\<And>n. bit d n \<Longrightarrow> bit d (n + k)" "0 < k"
  shows "d = 0"
proof (rule bit_eqI)
  fix n
  have "bit d (n + m * k)" if "bit d n" for m
    using that by (induction m) (auto simp: add.assoc [symmetric] add.commute dest: assms(1))
  moreover have "\<not> bit d (n + 32 * k)"
    using assms(2) bit_imp_le_length [of d "n + 32 * k"] by auto
  ultimately show "bit d n \<longleftrightarrow> bit 0 n" by auto
qed

lemma from_below_zero:
  fixes d :: u32
  assumes "\<And>n. bit d n \<Longrightarrow> k \<le> n \<and> bit d (n - k)" "0 < k"
  shows "d = 0"
proof (rule bit_eqI)
  fix n
  have "\<not> bit d n" by (induction n rule: less_induct) (use assms in \<open>meson diff_less order_less_le_trans\<close>)
  then show "bit d n \<longleftrightarrow> bit 0 n" by simp
qed

lemma xor_step_inj:
  fixes f :: "u32 \<Rightarrow> u32"
  assumes zero: "\<And>d. d = f d \<Longrightarrow> d = 0" and linear: "\<And>a b. f (a XOR b) = f a XOR f b"
    and eq: "x XOR f x = y XOR f y"
  shows "x = y"
proof -
  let ?d = "x XOR y"
  have "?d XOR f ?d = (x XOR f x) XOR (y XOR f y)" by (simp add: linear ac_simps)
  then have none: "?d XOR f ?d = 0" by (simp add: eq)
  have "f ?d = ?d XOR (?d XOR f ?d)" by (simp only: bit.xor_left_self)
  then have "?d = f ?d" by (simp only: none xor.right_neutral)
  then have "?d = 0" by (rule zero)
  then have "x = x XOR (x XOR y)" by (simp only: xor.right_neutral)
  then show ?thesis by (simp only: bit.xor_left_self)
qed

lemma temper_right_inj: "x XOR drop_bit k x = y XOR drop_bit k y \<Longrightarrow> 0 < k \<Longrightarrow> x = y" for x y :: u32
proof (rule xor_step_inj [where f = "drop_bit k"])
  fix d :: u32
  assume "d = drop_bit k d" "0 < k"
  then show "d = 0" by (intro from_above_zero [of d k]) (metis bit_drop_bit_eq comp_apply add.commute, simp)
qed simp_all

lemma temper_left_inj: "x XOR (push_bit k x AND c) = y XOR (push_bit k y AND c) \<Longrightarrow> 0 < k \<Longrightarrow> x = y" for x y :: u32
proof (rule xor_step_inj [where f = "\<lambda>x. push_bit k x AND c"])
  fix d :: u32
  assume d: "d = push_bit k d AND c" "0 < k"
  then show "d = 0" by (intro from_below_zero [of d k]) (metis bit_and_iff bit_push_bit_iff, simp)
next
  fix a b :: u32
  show "push_bit k (a XOR b) AND c = (push_bit k a AND c) XOR (push_bit k b AND c)"
    by (rule bit_word_eqI) (auto simp: bit_simps)
qed

lemma temper_inj: "inj temper"
proof (rule injI)
  fix x y :: u32
  define a where "a x = x XOR drop_bit 11 x" for x :: u32
  define b where "b x = x XOR (push_bit 7 x AND 0x9d2c5680)" for x :: u32
  define c where "c x = x XOR (push_bit 15 x AND 0xefc60000)" for x :: u32
  assume "temper x = temper y"
  then have "c (b (a x)) XOR drop_bit 18 (c (b (a x))) = c (b (a y)) XOR drop_bit 18 (c (b (a y)))"
    by (simp only: temper_def Let_def a_def b_def c_def)
  then have "c (b (a x)) = c (b (a y))" by (rule temper_right_inj) simp
  then have "b (a x) = b (a y)" unfolding c_def by (rule temper_left_inj) simp
  then have "a x = a y" unfolding b_def by (rule temper_left_inj) simp
  then show "x = y" unfolding a_def by (rule temper_right_inj) simp
qed

section \<open>Properties\<close>

text \<open>
  C21: The generator is the Mersenne twister.  From a seed on, the numbers are the tempered words of the MT19937
  recurrence, one after the other, however often the array is renewed in place; a generator that was never seeded
  gives those of the seed 5489; and different words are tempered into different numbers.
\<close>

theorem random_recurrence:
  assumes "fresh r"
  shows "fst (take_numbers k (seed s r)) = map (\<lambda>i. temper (mt_seq s (624 + i))) [0..<k] \<and>
    (mti r = int RANDOM_N + 1 \<longrightarrow> next_unsigned r = next_unsigned (seed 5489 r)) \<and> inj temper"
  using take_numbers_at [OF seeded_at [OF assms], of k s] unseeded_at [OF assms] temper_inj
  by (simp add: seed_def next_unsigned_def RANDOM_N_def)

theorem random_recurrence_witness:
  "fst (take_numbers 2 (seed 12321 (random_new (replicate 624 7)))) = [temper (mt_seq 12321 624), temper (mt_seq 12321 625)] \<and>
    next_unsigned (random_new (replicate 624 7)) = next_unsigned (seed 5489 (random_new (replicate 624 7)))"
proof -
  have "fresh (random_new (replicate 624 7))" by (simp add: fresh_def random_new_def)
  from random_recurrence [OF this, of 2 12321] show ?thesis by (simp add: random_new_def upt_rec numeral_2_eq_2)
qed

text \<open>
  The ranges.  A number for a positive range lies in it, and one between two bounds whose distance is an \<open>int\<close>
  is at least the lower and below the upper one; both are always defined.
\<close>

theorem random_ranges:
  assumes "0 < n" "low < high" "fits_int low" "fits_int high" "fits_int (high - low)"
  shows "\<exists>x y r1. next_int_range n r = Some (x, r1) \<and> 0 \<le> x \<and> x < n \<and> next_int_between low high r = Some (y, r1) \<and> low \<le> y \<and> y < high"
proof -
  obtain z r1 where z: "next_int r = (z, r1)" by fastforce
  then have pos: "0 \<le> z" using genrand_int31_bounds by (simp add: next_int_def)
  have d: "0 < high - low" using assms(2) by simp
  have "z smod n = z mod n" "z smod (high - low) = z mod (high - low)"
    using pos assms(1) d by (auto intro: smod_mod_positive)
  moreover have "0 \<le> z mod n" "z mod n < n" "0 \<le> z mod (high - low)" "z mod (high - low) < high - low" using assms(1) d by simp_all
  moreover have "low \<le> z mod (high - low) + low" "z mod (high - low) + low < high" using calculation(5,6) by linarith+
  moreover have "fits_int (z mod (high - low) + low)" using calculation(7,8) assms(3,4) by (simp add: fits_int_def)
  ultimately show ?thesis using z assms(1,2,5)
    by (simp add: next_int_range_def next_int_between_def)
qed

theorem random_ranges_witness:
  "\<exists>x y r1. next_int_range 6 (random_new []) = Some (x, r1) \<and> 0 \<le> x \<and> x < 6 \<and>
    next_int_between 0 81 (random_new []) = Some (y, r1) \<and> 0 \<le> y \<and> y < 81"
  by (rule random_ranges) (simp_all add: fits_int_def)

end
