(* ===== verification/Dash_Algorithm_Properties.thy ===== *)
theory Dash_Algorithm_Properties
  imports Complex_Main Sample_Dash Dash_Adaptation_Laws Random_Properties
begin

text \<open>
  The properties of the adaptation algorithms and of the client that runs them, for any arithmetic of \<open>double\<close>; the
  witnesses compute with real numbers.
\<close>

section \<open>An arithmetic\<close>

definition real_arith :: "real arith" where
  "real_arith = \<lparr>d_int = of_int, d_dec = (\<lambda>m n. of_int m / 10 ^ n), d_add = (+), d_sub = (-), d_mul = (*), d_div = (/),
     d_less = (<), d_le = (\<le>), d_abs = abs, d_pow = (powr), d_sqrt = sqrt, d_exp = exp,
     d_trunc = (\<lambda>x. Some (if x < 0 then \<lceil>x\<rceil> else \<lfloor>x\<rfloor>)), d_largest = 10 ^ 308\<rparr>"

definition real_rates :: "real list" where "real_rates = [1000000, 3000000, 5000000]"

text \<open>A client that has received one segment of a million bytes in two seconds.\<close>

definition adapting_client :: "'d algorithm_state \<Rightarrow> 'd algorithm_state dash_client" where
  "adapting_client a = (dash_client_new 4000 [[1000000, 7], [2000000, 8], [3000000, 9]] a 2 False)\<lparr>
     dc_fd := 5, dc_registered := True, dc_status := TCP_CONNECTED, player := PLAYER_INIT_BUFFERING, quality := 1, segment_index := 1,
     segment_bytes := 8, segment_counter := 1, segments_in_buffer := 1, history_quality := [0, 1],
     throughput := \<lparr>transmission_requested = [900], transmission_start = [1000], transmission_end = [2001000], bytes_received = [1000000]\<rparr>,
     buffer_levels := \<lparr>time_now = [2001000], buffer_level_old = [0], buffer_level_new = [4000]\<rparr>,
     player_alarm := Some alarm_new, request_alarm := Some alarm_new\<rparr>"

lemma adapting_client_fields [simp]:
  "throughput (adapting_client a) = \<lparr>transmission_requested = [900], transmission_start = [1000], transmission_end = [2001000], bytes_received = [1000000]\<rparr>"
  "history_quality (adapting_client a) = [0, 1]" "get_buffer_level_ms (adapting_client a) = 4000" "algorithm (adapting_client a) = a"
  "quality (adapting_client a) = 1" "segment_index (adapting_client a) = 1" "segment_bytes (adapting_client a) = 8"
  "video (adapting_client a) = \<lparr>representation = [[1000000, 7], [2000000, 8], [3000000, 9]], segment_duration = 4000\<rparr>"
  "request_alarm (adapting_client a) = Some alarm_new" "read_count (adapting_client a) = 0" "segment_counter (adapting_client a) = 1"
  by (simp_all add: adapting_client_def dash_client_new_def get_buffer_level_ms_def)

lemma real_predict: "predict real_arith (throughput (adapting_client a)) 5 = Some 4000000"
  by (simp add: predict_def real_arith_def at_index_def delta_to_milliseconds_def signed_divide_int_def)

definition sample_festive :: festive where
  "sample_festive = festive_new (replicate 624 0) 20000 5 4000"

abbreviation festive_client :: "real algorithm_state dash_client" where
  "festive_client \<equiv> adapting_client (Festive sample_festive)"

lemma sample_festive_runs:
  "\<exists>q delay f'. festive_next real_arith real_rates festive_client 1 1 sample_festive = Some ((q, delay), f')"
proof -
  obtain n r where n: "next_int_between 0 8001 (fs_random sample_festive) = Some (n, r)"
    using random_ranges [of 1 0 8001 "fs_random sample_festive"] by (auto simp: fits_int_def)
  have target: "festive_target real_arith real_rates 3200000 3 = 1"
    by (simp add: real_arith_def real_rates_def numeral_3_eq_3)
  have f: "fs_delta sample_festive = 4000" "fs_switch_up sample_festive = 0" by (simp_all add: sample_festive_def festive_new_def)
  have bw: "d_mul real_arith (d_dec real_arith 8 (Suc 0)) 4000000 = 3200000" "length real_rates = 3"
    by (simp_all add: real_arith_def real_rates_def)
  show ?thesis unfolding festive_next_def kThroughputHorizon_def real_predict
    using n by (simp add: Let_def bw target f festive_reference_def)
qed

section \<open>The choice of a quality\<close>

text \<open>
  C20: Whatever a \<open>double\<close> computes, the quality that an algorithm chooses is one that the video has, so
  \<open>RequestSegment\<close> reads inside the table of segments: it has no result exactly when the algorithm has none.  And the
  algorithm's own state stays in range.
\<close>

theorem quality_in_range:
  assumes "0 \<le> quality c" "quality c < int (length rates)" "algorithm_ok (length rates) (algorithm c)"
    "length (representation (video c)) = length rates" "\<And>rep. rep \<in> set (representation (video c)) \<Longrightarrow> segment_index c < int (length rep)"
    "0 \<le> segment_index c" "request_alarm c = Some al" "alarm_inv al"
  shows "(request_segment P (dash_adaptation A rates) c io = None \<longleftrightarrow>
      get_next_quality A rates (algorithm c) c (clock_now P (tcp_kernel io)) (quality c) (segment_index c) = None) \<and>
    (\<forall>c' io'. request_segment P (dash_adaptation A rates) c io = Some (c', io') \<longrightarrow>
      0 \<le> quality c' \<and> quality c' < int (length rates) \<and> algorithm_ok (length rates) (algorithm c') \<and>
      segment_bytes c' = to_uint64 (representation (video c) ! nat (quality c') ! nat (segment_index c)))"
proof (cases "get_next_quality A rates (algorithm c) c (clock_now P (tcp_kernel io)) (quality c) (segment_index c)")
  case None
  then show ?thesis by (simp add: request_segment_def dash_adaptation_def)
next
  case (Some res)
  obtain q delay a where res: "res = ((q, delay), a)" by (metis surj_pair)
  define bytes where "bytes = representation (video c) ! nat q ! nat (segment_index c)"
  define c2 where "c2 = c\<lparr>algorithm := a, quality := q, history_quality := history_quality c @ [q], read_count := 0, segment_bytes := to_uint64 bytes\<rparr>"
  have range: "in_rates rates q" "algorithm_ok (length rates) a"
    using next_quality_range [OF Some [unfolded res]] assms(1-3) by simp_all
  have "representation (video c) ! nat q \<in> set (representation (video c))" using range(1) assms(4) by (intro nth_mem) (simp add: nat_less_iff)
  from assms(5) [OF this] have bytes: "segment_size (video c) q (segment_index c) = Some bytes"
    using range(1) assms(4,6) by (simp add: segment_size_def bytes_def)
  have run: "request_segment P (dash_adaptation A rates) c io =
     (if delay \<noteq> 0 then do {
       al \<leftarrow> update_alarm (request_alarm c2) (clock_now P (tcp_kernel io) + delay);
       Some (c2\<lparr>request_alarm := Some al\<rparr>, io)
     } else delay_request_handle P c2 io)"
    using Some bytes by (simp add: request_segment_def dash_adaptation_def res Let_def c2_def cong: if_cong split del: if_split)
  have c2: "quality c2 = q" "algorithm c2 = a" "segment_bytes c2 = to_uint64 bytes" "request_alarm c2 = Some al" "video c2 = video c" "segment_index c2 = segment_index c"
    using assms(7) by (simp_all add: c2_def)
  have "\<exists>c' io'. request_segment P (dash_adaptation A rates) c io = Some (c', io') \<and> quality c' = q \<and> algorithm c' = a \<and> segment_bytes c' = to_uint64 bytes"
  proof (cases "delay = 0")
    case True
    then show ?thesis using run c2 by (cases rule: delay_request_cases [of P c2 io]) auto
  next
    case False
    then show ?thesis using run c2 alarm_update_inv [OF assms(8), of "clock_now P (tcp_kernel io) + delay" 0] by (auto simp: update_alarm_def)
  qed
  then show ?thesis using Some range by (auto simp: bytes_def)
qed

theorem quality_in_range_witness:
  "\<exists>c' io'. request_segment dash_platform (dash_adaptation real_arith real_rates) festive_client (dash_io ([], [])) = Some (c', io') \<and>
     0 \<le> quality c' \<and> quality c' < 3"
proof -
  let ?c = "festive_client"
  have ok: "algorithm_ok (length real_rates) (algorithm ?c)" "length real_rates = 3" by (simp_all add: algorithm_ok_def real_rates_def)
  have len: "length (representation (video ?c)) = length real_rates" using ok(2) by simp
  have index: "segment_index ?c < int (length rep)" if "rep \<in> set (representation (video ?c))" for rep using that by auto
  have pos: "0 \<le> quality ?c" "quality ?c < int (length real_rates)" "0 \<le> segment_index ?c" "alarm_inv alarm_new" "request_alarm ?c = Some alarm_new"
    using ok(2) by (simp_all add: alarm_new_def alarm_inv_def)
  note all = quality_in_range [OF pos(1,2) ok(1) len index pos(3,5,4), of dash_platform real_arith "dash_io ([], [])"]
  obtain q delay f' where "festive_next real_arith real_rates ?c 1 1 sample_festive = Some ((q, delay), f')" using sample_festive_runs by blast
  then have "get_next_quality real_arith real_rates (algorithm ?c) ?c 1000 (quality ?c) (segment_index ?c) \<noteq> None" by simp
  then show ?thesis using all ok(2) by auto
qed

text \<open>
  C22: The default algorithm moves gradually: it changes the quality by one step at most, and it delays the next
  request only by what the buffer holds above a level drawn at random within one segment of the target.
\<close>

theorem festive_gradual:
  assumes "festive_next A rates c pre i f = Some ((q, delay), f')" "i \<noteq> 0" "0 \<le> pre" "pre < int (length rates)"
    "0 \<le> fs_delta f" "fs_delta f < 2 ^ 29"
  shows "0 \<le> q \<and> q < int (length rates) \<and> \<bar>q - pre\<bar> \<le> 1 \<and> 0 \<le> delay \<and>
    (\<exists>level. \<bar>level - fs_target f\<bar> \<le> fs_delta f \<and> delay = max 0 (get_buffer_level_ms c - level) * 1000)"
proof -
  from festive_step [OF assms(1,2)] assms(3,4) obtain n r where
    q: "in_rates rates q" "\<bar>q - pre\<bar> \<le> 1" and n: "next_int_between 0 (2 * fs_delta f + 1) (fs_random f) = Some (n, r)"
    and delay: "delay = (let buf = fs_target f - fs_delta f + n in if buf < get_buffer_level_ms c then (get_buffer_level_ms c - buf) * 1000 else 0)"
    by auto
  have "0 \<le> n \<and> n < 2 * fs_delta f + 1"
    using random_ranges [of 1 0 "2 * fs_delta f + 1" "fs_random f"] n assms(5,6) by (auto simp: fits_int_def)
  then have "\<bar>(fs_target f - fs_delta f + n) - fs_target f\<bar> \<le> fs_delta f" by auto
  moreover have "delay = max 0 (get_buffer_level_ms c - (fs_target f - fs_delta f + n)) * 1000" using delay by (auto simp: Let_def)
  moreover have "0 \<le> delay" using calculation(2) by simp
  ultimately show ?thesis using q by blast
qed

theorem festive_gradual_witness:
  "\<exists>q delay f'. festive_next real_arith real_rates festive_client 1 1 sample_festive = Some ((q, delay), f') \<and>
     \<bar>q - 1\<bar> \<le> 1 \<and> delay = 0"
proof -
  obtain q delay f' where run: "festive_next real_arith real_rates festive_client 1 1 sample_festive = Some ((q, delay), f')"
    using sample_festive_runs by blast
  have "fs_target sample_festive = 20000" "fs_delta sample_festive = 4000" by (simp_all add: sample_festive_def festive_new_def)
  then have "\<bar>q - 1\<bar> \<le> 1 \<and> delay = 0"
    using festive_gradual [OF run] by (auto simp: real_rates_def)
  then show ?thesis using run by blast
qed

section \<open>A segment that comes at once\<close>

lemma check_buffer_throughput:
  "check_buffer_status P c io = Some c' \<Longrightarrow> throughput c' = throughput c \<and> algorithm c' = algorithm c"
  by (auto simp: check_buffer_status_def Let_def split: if_splits bind_splits)

lemma predict_fails:
  assumes "transmission_start t = xs @ [now]" "transmission_end t = ys @ [now]" "length xs = length ys"
  shows "predict A t 5 = None"
proof -
  have "\<not> (\<forall>j. int (length (transmission_start t)) - 5 \<le> int j \<and> j < length (transmission_start t) \<longrightarrow>
      j < length (transmission_end t) \<and> j < length (bytes_received t) \<and> transmission_start t ! j < transmission_end t ! j)"
    using assms by (auto intro!: exI [of _ "length xs"] simp: nth_append)
  then show ?thesis using predict_defined [of 5 A t] by auto
qed

text \<open>
  C37: A segment that comes at once ends the process.  If the last byte of a segment comes in the same turn of
  the loop as its first one, so that both have the same time, then \<open>CHECK(end>start)\<close> of the
  prediction fails in every algorithm that predicts the bandwidth, the default one among them.
\<close>

theorem segment_at_once_aborts:
  assumes "read_count c = 0" "n = segment_bytes c" "0 < n" "n < 2 ^ 64"
    "representation (video c) = rep0 # reps" "segment_index c \<noteq> int (length rep0)" "segment_index c \<noteq> 0"
    "length (transmission_start (throughput c)) = length (transmission_end (throughput c))"
    "(\<exists>f. algorithm c = Festive f) \<or> (\<exists>b. algorithm c = Tobasco b) \<or> (\<exists>t. algorithm c = Fdash t) \<or> (\<exists>s. algorithm c = Svaa s)"
  shows "client_data P (dash_adaptation A rates) n c io = None"
proof (rule ccontr)
  assume "client_data P (dash_adaptation A rates) n c io \<noteq> None"
  then obtain r where run: "client_data P (dash_adaptation A rates) n c io = Some r" by auto
  define now where "now = clock_now P (tcp_kernel io)"
  define c2 where "c2 = c\<lparr>throughput := (throughput c)\<lparr>transmission_start := transmission_start (throughput c) @ [now]\<rparr>, read_count := n\<rparr>"
  have "u64_add 0 n = n" using assms(4) by (simp add: u64_add_no_wrap)
  then have "Option.bind (segment_received now c2) (\<lambda>c3. Option.bind (check_buffer_status P c3 io) (\<lambda>c4.
      if representation (video c4) \<noteq> [] \<and> segment_index c4 = int (length (hd (representation (video c4))))
      then case client_unregister c4 io of (c5, io5) \<Rightarrow> case client_close P c5 io5 of (c6, io6) \<Rightarrow> Some (True, c6, io6)
      else do { (c5, io5) \<leftarrow> request_segment P (dash_adaptation A rates) c4 io; Some (False, log_infomation P io5 c5, io5) })) = Some r"
    using run assms(1,2) unfolding client_data_def Let_def now_def [symmetric] by (simp add: c2_def)
  then obtain c3 c4 where c3: "segment_received now c2 = Some c3" and c4: "check_buffer_status P c3 io = Some c4"
    and rest: "(if representation (video c4) \<noteq> [] \<and> segment_index c4 = int (length (hd (representation (video c4))))
      then case client_unregister c4 io of (c5, io5) \<Rightarrow> case client_close P c5 io5 of (c6, io6) \<Rightarrow> Some (True, c6, io6)
      else do { (c5, io5) \<leftarrow> request_segment P (dash_adaptation A rates) c4 io; Some (False, log_infomation P io5 c5, io5) }) = Some r"
    by (elim bind_SomeE)
  have f3: "video c3 = video c \<and> segment_index c3 = segment_index c \<and> algorithm c3 = algorithm c \<and>
      transmission_start (throughput c3) = transmission_start (throughput c) @ [now] \<and> transmission_end (throughput c3) = transmission_end (throughput c) @ [now]"
    using c3 unfolding segment_received_def by (elim bind_SomeE) (auto simp: c2_def)
  note f4 = check_buffer_throughput [OF c4] check_buffer_fields [OF c4]
  have "predict A (throughput c4) 5 = None"
    by (rule predict_fails [of _ "transmission_start (throughput c)" now "transmission_end (throughput c)"]) (use f3 f4 assms(8) in simp_all)
  then have "get_next_quality A rates (algorithm c4) c4 t q (segment_index c4) = None" for t q
    using f3 f4 assms(7,9)
    by (auto simp: festive_next_def tobasco_next_def fdash_next_def svaa_next_def kThroughputHorizon_def Let_def)
  then have "request_segment P (dash_adaptation A rates) c4 io = None"
    by (simp add: request_segment_def dash_adaptation_def)
  then show False using rest f3 f4 assms(5,6) by simp
qed

theorem segment_at_once_aborts_witness:
  "client_data dash_platform (dash_adaptation real_arith real_rates) 8 festive_client (dash_io ([], [])) = None"
  by (rule segment_at_once_aborts [where ?rep0.0 = "[1000000, 7]" and reps = "[[2000000, 8], [3000000, 9]]"]) simp_all

end
