(* ===== verification/Tpproxy_Server.thy ===== *)
theory Tpproxy_Server
  imports Tcp_Server Interval_Budget Windowed_Filter
begin

text \<open>
  The single-path proxy (\<open>tpproxy/tpproxy_server.h\<close>, \<open>tpproxy/tpproxy_server.cc\<close>): for every accepted connection
  a \<open>TpProxyLeft\<close>, which connects a \<open>TpProxyRight\<close> to the original destination; the two are peers, and what one reads
  the other sends.  Reading and writing are paced by budgets.  The objects are the endpoints of a listening
  server (\<open>Tcp_Server\<close>), named by numbers; following a pointer to an object that is gone has no result, nor
  has a failed check.  The virtual functions are the cases of \<open>tp_role\<close>.  The counters \<open>send_bytes_\<close> and
  \<open>recv_bytes_\<close>, which the code only prints, are unbounded here.
\<close>

section \<open>State\<close>

datatype tpproxy_signal = TPPROXY_MIN | TPPROXY_CONNECT_FAIL | TPPROXY_CONNECTED | TPPROXY_CLOSE | TPPROXY_MAX

datatype tp_role = Tp_Left | Tp_Right

record tp_proxy = tcp_endpoint +
  tp_role :: tp_role
  tp_status :: tcp_status
  tp_signal :: tpproxy_signal
  tp_peer :: "nat option"
  tp_buffer :: "byte list"
  tp_max_goodput :: "quic_bandwidth windowed_filter"
  tp_read_budget :: interval_budget
  tp_write_budget :: interval_budget
  tp_read_alarm :: "base_alarm option"
  tp_write_alarm :: "base_alarm option"
  tp_goodput_alarm :: base_alarm
  tp_goodput_time :: quic_time
  tp_read_time :: quic_time
  tp_write_time :: quic_time
  tp_send_bytes :: int
  tp_recv_bytes :: int
  tp_bytes_acked :: u64
  tp_sample_count :: u64

definition tp_kGoodputInterval :: time_delta where "tp_kGoodputInterval = delta_from_milliseconds 500"
definition tp_kWriteBudgetInterval :: time_delta where "tp_kWriteBudgetInterval = delta_from_milliseconds 10"
definition tp_kReadBudgetInterval :: time_delta where "tp_kReadBudgetInterval = delta_from_milliseconds 10"
definition tp_kMinGoodput :: quic_bandwidth where "tp_kMinGoodput = bw_from_kbits_per_second 500"
definition tp_kBandwithWindowSize :: int where "tp_kBandwithWindowSize = 5"
definition tp_kWriteBufferThreshold :: nat where "tp_kWriteBufferThreshold = 1500 * 5"

type_synonym 'k tp_world = "(tp_proxy, 'k) tcp_server"

section \<open>One object\<close>

definition tp_acked :: "'k platform \<Rightarrow> 'k \<Rightarrow> int \<Rightarrow> u64" where
  "tp_acked P k fd = (case tcp_bytes_acked P k fd of None \<Rightarrow> 0 | Some n \<Rightarrow> n)"

definition tp_new :: "'k platform \<Rightarrow> tp_role \<Rightarrow> int \<Rightarrow> 'k tcp_io \<Rightarrow> tp_proxy option" where
  "tp_new P role fd io = do {
     let now = clock_now P (tcp_kernel io);
     al \<leftarrow> alarm_update alarm_new (now + tp_kGoodputInterval) 0;
     Some \<lparr>te_fd = fd, te_registered = None, te_destroyed = False, tp_role = role, tp_status = TCP_DISCONNECT, tp_signal = TPPROXY_MIN,
       tp_peer = None, tp_buffer = [], tp_max_goodput = filter_new tp_kBandwithWindowSize 0 0,
       tp_read_budget = budget_new 0 False, tp_write_budget = budget_new 0 False, tp_read_alarm = None, tp_write_alarm = None,
       tp_goodput_alarm = al, tp_goodput_time = now, tp_read_time = 0, tp_write_time = 0, tp_send_bytes = 0, tp_recv_bytes = 0,
       tp_bytes_acked = tp_acked P (tcp_kernel io) fd, tp_sample_count = 0\<rparr>
   }"

definition tp_goodput_with_minimum :: "tp_proxy \<Rightarrow> quic_bandwidth" where
  "tp_goodput_with_minimum p =
     (let b = get_best (tp_max_goodput p) in if b < tp_kMinGoodput then tp_kMinGoodput else b)"

definition tp_above_threshold :: "tp_proxy \<Rightarrow> bool" where
  "tp_above_threshold p \<longleftrightarrow> tp_kWriteBufferThreshold \<le> length (tp_buffer p)"

definition tp_set_rate :: "interval_budget \<Rightarrow> quic_bandwidth \<Rightarrow> interval_budget" where
  "tp_set_rate b target = set_target_rate_kbps b (to_int32 (bw_to_kbits_per_second target))"

definition tp_retarget :: "'k platform \<Rightarrow> tp_proxy \<Rightarrow> tp_proxy" where
  "tp_retarget P p = p\<lparr>tp_write_budget := tp_set_rate (tp_write_budget p) (gain_scale P (tp_goodput_with_minimum p))\<rparr>"

definition tp_can_send :: "tp_proxy \<Rightarrow> bool" where
  "tp_can_send p = (if started (tp_write_budget p) then 0 < budget_remaining (tp_write_budget p) else True)"

definition tp_on_packet_sent :: "int \<Rightarrow> tp_proxy \<Rightarrow> tp_proxy" where
  "tp_on_packet_sent n p =
     (if started (tp_write_budget p) then p\<lparr>tp_write_budget := use_budget (tp_write_budget p) n\<rparr> else p)"

text \<open>The loop of \<open>FlushBuffer\<close>: what is left of the data, and whether anything was sent.\<close>

function tp_flush_loop ::
  "'k platform \<Rightarrow> tp_proxy \<Rightarrow> byte list \<Rightarrow> bool \<Rightarrow> 'k tcp_io \<Rightarrow> (tp_proxy \<times> byte list \<times> bool \<times> 'k tcp_io) option" where
  "tp_flush_loop P p data flushed io =
     (if data = [] then Some (p, data, flushed, io)
      else
        let intend = take kBufferSize data
        in if tp_can_send p then
             (let (sent, k) = sys_send P (tcp_kernel io) (te_fd p) intend; io' = io\<lparr>tcp_kernel := k\<rparr>
              in if sent \<le> 0 then Some (p, data, flushed, io')
                 else if int (length intend) < sent then None
                 else tp_flush_loop P (tp_on_packet_sent sent (p\<lparr>tp_send_bytes := tp_send_bytes p + sent\<rparr>)) (drop (nat sent) data) True
                   (tcp_event (Send (te_fd p) (take (nat sent) intend)) io'))
           else Some (p, data, flushed, io))"
  by pat_completeness auto

termination tp_flush_loop
  by (relation "measure (\<lambda>(P, p, data, flushed, io). length data)") auto

declare tp_flush_loop.simps [simp del]

definition tp_flush_buffer :: "'k platform \<Rightarrow> tp_proxy \<Rightarrow> 'k tcp_io \<Rightarrow> (tp_proxy \<times> 'k tcp_io) option" where
  "tp_flush_buffer P p io =
     (if te_fd p < 0 then (if tp_buffer p = [] then Some (p, io) else None)
      else do {
        (p', rest, flushed, io') \<leftarrow> tp_flush_loop P p (tp_buffer p) False io;
        Some (if flushed then p'\<lparr>tp_buffer := rest\<rparr> else p', io')
      })"

text \<open>\<open>SendData\<close>, after the alarm of the write budget has been created.\<close>

definition tp_append :: "byte list \<Rightarrow> tp_proxy \<Rightarrow> tp_proxy" where
  "tp_append data p = p\<lparr>tp_buffer := tp_buffer p @ data\<rparr>"

definition tp_want_write :: "tp_proxy \<Rightarrow> 'k tcp_io \<Rightarrow> 'k tcp_io" where
  "tp_want_write p io = endpoint_modify p (te_fd p) (EPOLLET OR EPOLLIN OR EPOLLOUT OR EPOLLRDHUP OR EPOLLERR) io"

definition tp_send_now :: "'k platform \<Rightarrow> byte list \<Rightarrow> tp_proxy \<Rightarrow> 'k tcp_io \<Rightarrow> tp_proxy \<times> 'k tcp_io" where
  "tp_send_now P data p io =
     (let (sent, k) = sys_send P (tcp_kernel io) (te_fd p) data; io1 = io\<lparr>tcp_kernel := k\<rparr>
      in if 0 < sent then
           let io2 = tcp_event (Send (te_fd p) (take (nat sent) data)) io1; p' = p\<lparr>tp_send_bytes := tp_send_bytes p + sent\<rparr>
           in if sent < int (length data) then (tp_append (drop (nat sent) data) p', tp_want_write p' io2) else (p', io2)
         else (tp_append data p, tp_want_write p io1))"

definition tp_start_writing :: "'k platform \<Rightarrow> 'k \<Rightarrow> tp_proxy \<Rightarrow> tp_proxy option" where
  "tp_start_writing P k p =
     (if tp_write_alarm p \<noteq> None then Some p
      else do {
        let now = clock_now P k;
        let p1 = tp_retarget P (p\<lparr>tp_write_time := now\<rparr>);
        al \<leftarrow> alarm_update alarm_new (now + tp_kWriteBudgetInterval) 0;
        Some (p1\<lparr>tp_write_budget := increase_budget (tp_write_budget p1) (delta_to_milliseconds tp_kWriteBudgetInterval), tp_write_alarm := Some al\<rparr>)
      })"

definition tp_send_data :: "'k platform \<Rightarrow> byte list \<Rightarrow> tp_proxy \<Rightarrow> 'k tcp_io \<Rightarrow> (tp_proxy \<times> 'k tcp_io) option" where
  "tp_send_data P data p io =
     (if te_fd p < 0 then Some (p, io)
      else do {
        p1 \<leftarrow> tp_start_writing P (tcp_kernel io) p;
        if tp_status p1 = TCP_CONNECTED then do {
          (p2, io2) \<leftarrow> tp_flush_buffer P p1 io;
          Some (if tp_buffer p2 \<noteq> [] then (tp_append data p2, io2) else tp_send_now P data p2 io2)
        } else Some (tp_append data p1, io)
      })"

definition tp_on_goodput_alarm :: "'k platform \<Rightarrow> tp_proxy \<Rightarrow> 'k tcp_io \<Rightarrow> (tp_proxy \<times> 'k tcp_io) option" where
  "tp_on_goodput_alarm P p io = do {
     let acked = tp_acked P (tcp_kernel io) (te_fd p);
     let now = clock_now P (tcp_kernel io);
     al \<leftarrow> alarm_update (tp_goodput_alarm p) (now + tp_kGoodputInterval) 0;
     b \<leftarrow> (if tp_bytes_acked p < acked \<and> tp_goodput_time p < now
           then bw_from_bytes_and_time_delta (acked - tp_bytes_acked p) (now - tp_goodput_time p) else Some 0);
     let p1 = tp_retarget P (p\<lparr>tp_goodput_alarm := al,
       tp_max_goodput := filter_update max_filter (tp_max_goodput p) b (to_int64 (tp_sample_count p))\<rparr>);
     Some (p1\<lparr>tp_sample_count := u64_add (tp_sample_count p1) 1, tp_bytes_acked := acked, tp_goodput_time := now\<rparr>, io)
   }"

definition tp_on_write_budget_alarm :: "'k platform \<Rightarrow> tp_proxy \<Rightarrow> 'k tcp_io \<Rightarrow> (tp_proxy \<times> 'k tcp_io) option" where
  "tp_on_write_budget_alarm P p io = do {
     let now = clock_now P (tcp_kernel io);
     let p1 = (if tp_write_time p < now
       then let p' = tp_retarget P p
            in p'\<lparr>tp_write_budget := increase_budget (tp_write_budget p') (delta_to_milliseconds (now - tp_write_time p))\<rparr>
       else p);
     al \<leftarrow> Option.bind (tp_write_alarm p1) (\<lambda>a. alarm_update a (now + tp_kWriteBudgetInterval) 0);
     Some (p1\<lparr>tp_write_time := now, tp_write_alarm := Some al\<rparr>, io)
   }"

section \<open>Two objects\<close>

definition on_proxy :: "nat \<Rightarrow> (tp_proxy \<Rightarrow> 'k tcp_io \<Rightarrow> (tp_proxy \<times> 'k tcp_io) option) \<Rightarrow> 'k tp_world \<Rightarrow> 'k tp_world option" where
  "on_proxy j f w = do {
     p \<leftarrow> ts_endpoints w j;
     (p', io') \<leftarrow> f p (ts_io w);
     Some (w\<lparr>ts_endpoints := (ts_endpoints w)(j \<mapsto> p'), ts_io := io'\<rparr>)
   }"

text \<open>What \<open>CloseFd\<close> does to its own descriptor; \<open>OnUnregistration\<close> does nothing.\<close>

definition tp_close_own :: "'k platform \<Rightarrow> tp_proxy \<Rightarrow> 'k tcp_io \<Rightarrow> (tp_proxy \<times> 'k tcp_io) option" where
  "tp_close_own P p io =
     Some (if 0 < te_fd p then
             let io1 = (if te_registered p = Some (te_fd p) then tcp_event (Unregister_Fd (te_fd p)) io else io)
             in (p\<lparr>te_registered := if te_registered p = Some (te_fd p) then None else te_registered p, te_fd := - 1, tp_status := TCP_DISCONNECT\<rparr>,
                 tcp_event (Close_Fd (te_fd p)) (io1\<lparr>tcp_kernel := sys_close P (tcp_kernel io1) (te_fd p)\<rparr>))
           else (p, io))"

definition tp_delete_self :: "nat \<Rightarrow> 'k tp_world \<Rightarrow> 'k tp_world option" where
  "tp_delete_self j = on_proxy j (\<lambda>p io. Some (endpoint_delete_self j p io))"

text \<open>\<open>CloseFd\<close> and \<open>CheckCloseFd\<close> of an object whose \<open>peer_\<close> is null, as after the first steps of \<open>Notify\<close>.\<close>

definition tp_close_alone :: "'k platform \<Rightarrow> nat \<Rightarrow> 'k tp_world \<Rightarrow> 'k tp_world option" where
  "tp_close_alone P j w = do {
     w1 \<leftarrow> on_proxy j (tp_close_own P) w;
     tp_delete_self j w1
   }"

definition tp_should_close :: "tp_proxy \<Rightarrow> bool" where
  "tp_should_close p \<longleftrightarrow> tp_signal p = TPPROXY_CLOSE \<and> tp_buffer p = []"

text \<open>The target rate of a reader: what its peer can send.\<close>

definition tp_read_target :: "'k platform \<Rightarrow> nat option \<Rightarrow> 'k tp_world \<Rightarrow> quic_bandwidth option" where
  "tp_read_target P peer w = do {
     target \<leftarrow> (case peer of None \<Rightarrow> Some 0 | Some q \<Rightarrow> map_option (\<lambda>s. gain_scale P (tp_goodput_with_minimum s)) (ts_endpoints w q));
     Some (if target < tp_kMinGoodput then tp_kMinGoodput else target)
   }"

definition tp_create_read_alarm :: "'k platform \<Rightarrow> nat \<Rightarrow> 'k tp_world \<Rightarrow> 'k tp_world option" where
  "tp_create_read_alarm P j w = do {
     p \<leftarrow> ts_endpoints w j;
     if tp_read_alarm p \<noteq> None then Some w
     else do {
       target \<leftarrow> tp_read_target P (tp_peer p) w;
       on_proxy j (\<lambda>p io. do {
         al \<leftarrow> alarm_update alarm_new (clock_now P (tcp_kernel io)) 0;
         Some (p\<lparr>tp_read_alarm := Some al,
           tp_read_budget := increase_budget (tp_set_rate (tp_read_budget p) target) (delta_to_milliseconds tp_kReadBudgetInterval)\<rparr>, io)
       }) w
     }
   }"

text \<open>\<open>Notify\<close> of the two classes.\<close>

definition tp_notify_close :: "'k platform \<Rightarrow> nat \<Rightarrow> 'k tp_world \<Rightarrow> 'k tp_world option" where
  "tp_notify_close P j w = do {
     w1 \<leftarrow> on_proxy j (\<lambda>p io. Some (p\<lparr>tp_peer := None, tp_signal := TPPROXY_CLOSE\<rparr>, io)) w;
     p \<leftarrow> ts_endpoints w1 j;
     if tp_should_close p then tp_close_alone P j w1 else Some w1
   }"

definition tp_left_notify :: "'k platform \<Rightarrow> tpproxy_signal \<Rightarrow> nat \<Rightarrow> 'k tp_world \<Rightarrow> 'k tp_world option" where
  "tp_left_notify P sig j w =
     (if sig = TPPROXY_CLOSE \<or> sig = TPPROXY_CONNECT_FAIL then tp_notify_close P j w
      else if sig = TPPROXY_CONNECTED then tp_create_read_alarm P j w
      else Some w)"

definition tp_right_notify :: "'k platform \<Rightarrow> tpproxy_signal \<Rightarrow> nat \<Rightarrow> 'k tp_world \<Rightarrow> 'k tp_world option" where
  "tp_right_notify P sig j w = (if sig = TPPROXY_CLOSE then tp_notify_close P j w else Some w)"

definition tp_notify :: "'k platform \<Rightarrow> tpproxy_signal \<Rightarrow> nat \<Rightarrow> 'k tp_world \<Rightarrow> 'k tp_world option" where
  "tp_notify P sig j w = do {
     p \<leftarrow> ts_endpoints w j;
     case tp_role p of Tp_Left \<Rightarrow> tp_left_notify P sig j w | Tp_Right \<Rightarrow> tp_right_notify P sig j w
   }"

definition tp_close_fd :: "'k platform \<Rightarrow> nat \<Rightarrow> 'k tp_world \<Rightarrow> 'k tp_world option" where
  "tp_close_fd P j w = do {
     w1 \<leftarrow> on_proxy j (tp_close_own P) w;
     p \<leftarrow> ts_endpoints w1 j;
     w2 \<leftarrow> (case tp_peer p of
              None \<Rightarrow> Some w1
            | Some q \<Rightarrow> do {
                w' \<leftarrow> tp_notify P TPPROXY_CLOSE q w1;
                on_proxy j (\<lambda>p io. Some (p\<lparr>tp_peer := None\<rparr>, io)) w'
              });
     tp_delete_self j w2
   }"

definition tp_check_close_fd :: "'k platform \<Rightarrow> nat \<Rightarrow> 'k tp_world \<Rightarrow> 'k tp_world option" where
  "tp_check_close_fd P j w = do {
     p \<leftarrow> ts_endpoints w j;
     if tp_should_close p then tp_close_fd P j w else Some w
   }"

section \<open>Reading and writing\<close>

text \<open>
  The loop of \<open>OnReadEvent\<close>, with the bytes read so far; without a peer the data end the process.
\<close>

partial_function (option) tp_read_loop :: "'k platform \<Rightarrow> nat \<Rightarrow> int \<Rightarrow> int \<Rightarrow> int \<Rightarrow> 'k tp_world \<Rightarrow> (int \<times> 'k tp_world) option" where
  [code]: "tp_read_loop P j fd target got w =
     (case sys_read P (tcp_kernel (ts_io w)) fd kBufferSize of
        (None, k) \<Rightarrow> Some (got, w\<lparr>ts_io := (ts_io w)\<lparr>tcp_kernel := k\<rparr>\<rparr>)
      | (Some d, k) \<Rightarrow>
          let w1 = w\<lparr>ts_io := (ts_io w)\<lparr>tcp_kernel := k\<rparr>\<rparr>
          in if d = [] then do {
               w2 \<leftarrow> tp_close_fd P j w1;
               tp_read_loop P j fd target got w2
             } else do {
               w2 \<leftarrow> on_proxy j (\<lambda>p io. Some (p\<lparr>tp_recv_bytes := tp_recv_bytes p + int (length d)\<rparr>, io)) w1;
               p \<leftarrow> ts_endpoints w2 j;
               q \<leftarrow> tp_peer p;
               w3 \<leftarrow> on_proxy q (tp_send_data P d) w2;
               if target \<le> got + int (length d) then Some (got + int (length d), w3)
               else tp_read_loop P j fd target (got + int (length d)) w3
             })"

text \<open>\<open>bytes_remaining()\<close> is never negative, so the guard on it never returns.\<close>

definition tp_on_read_event :: "'k platform \<Rightarrow> nat \<Rightarrow> int \<Rightarrow> 'k tp_world \<Rightarrow> 'k tp_world option" where
  "tp_on_read_event P j fd w = do {
     p \<leftarrow> ts_endpoints w j;
     (got, w1) \<leftarrow> tp_read_loop P j fd (budget_remaining (tp_read_budget p)) 0 w;
     if 0 < got then on_proxy j (\<lambda>p io. Some (p\<lparr>tp_read_budget := use_budget (tp_read_budget p) got\<rparr>, io)) w1 else Some w1
   }"

definition tp_on_write_event :: "'k platform \<Rightarrow> nat \<Rightarrow> 'k tp_world \<Rightarrow> 'k tp_world option" where
  "tp_on_write_event P j w = do {
     w1 \<leftarrow> on_proxy j (\<lambda>p io. do {
       (p', io') \<leftarrow> tp_flush_buffer P p io;
       Some (p', endpoint_modify p' (te_fd p')
         (if tp_buffer p' \<noteq> [] then EPOLLET OR EPOLLOUT OR EPOLLRDHUP OR EPOLLERR else EPOLLET OR EPOLLRDHUP OR EPOLLERR) io')
     }) w;
     tp_check_close_fd P j w1
   }"

definition tp_on_read_budget_alarm :: "'k platform \<Rightarrow> nat \<Rightarrow> 'k tp_world \<Rightarrow> 'k tp_world option" where
  "tp_on_read_budget_alarm P j w = do {
     p \<leftarrow> ts_endpoints w j;
     target \<leftarrow> tp_read_target P (tp_peer p) w;
     let now = clock_now P (tcp_kernel (ts_io w));
     let ms = (if tp_read_time p \<noteq> 0 \<and> tp_read_time p < now then delta_to_milliseconds (now - tp_read_time p)
               else delta_to_milliseconds tp_kReadBudgetInterval);
     w1 \<leftarrow> on_proxy j (\<lambda>p io. do {
       al \<leftarrow> Option.bind (tp_read_alarm p) (\<lambda>a. alarm_update a (now + tp_kReadBudgetInterval) 0);
       Some (p\<lparr>tp_read_budget := increase_budget (tp_set_rate (tp_read_budget p) target) ms, tp_read_time := now, tp_read_alarm := Some al\<rparr>, io)
     }) w;
     full \<leftarrow> (case tp_peer p of None \<Rightarrow> Some False | Some q \<Rightarrow> map_option tp_above_threshold (ts_endpoints w1 q));
     w2 \<leftarrow> (if 0 < te_fd p \<and> \<not> full \<and> tp_status p = TCP_CONNECTED then tp_on_read_event P j (te_fd p) w1 else Some w1);
     tp_check_close_fd P j w2
   }"

section \<open>Events\<close>

definition tp_left_on_event :: "'k platform \<Rightarrow> nat \<Rightarrow> int \<Rightarrow> 32 word \<Rightarrow> 'k tp_world \<Rightarrow> 'k tp_world option" where
  "tp_left_on_event P j fd events w = do {
     w1 \<leftarrow> (if events AND EPOLLIN \<noteq> 0 then tp_on_read_event P j fd w else Some w);
     if events AND EPOLLOUT \<noteq> 0 then tp_on_write_event P j w1 else Some w1
   }"

definition tp_right_connected :: "'k platform \<Rightarrow> nat \<Rightarrow> 'k tp_world \<Rightarrow> 'k tp_world option" where
  "tp_right_connected P j w = do {
     w1 \<leftarrow> on_proxy j (\<lambda>p io. Some (p\<lparr>tp_status := TCP_CONNECTED\<rparr>,
       endpoint_modify p (te_fd p) (EPOLLOUT OR EPOLLRDHUP OR EPOLLERR OR EPOLLET) io)) w;
     w2 \<leftarrow> tp_create_read_alarm P j w1;
     p \<leftarrow> ts_endpoints w2 j;
     case tp_peer p of None \<Rightarrow> Some w2 | Some q \<Rightarrow> tp_notify P TPPROXY_CONNECTED q w2
   }"

definition tp_right_on_event :: "'k platform \<Rightarrow> nat \<Rightarrow> int \<Rightarrow> 32 word \<Rightarrow> 'k tp_world \<Rightarrow> 'k tp_world option" where
  "tp_right_on_event P j fd events w = do {
     w1 \<leftarrow> (if events AND (EPOLLERR OR EPOLLRDHUP OR EPOLLHUP) \<noteq> 0 then tp_close_fd P j w else Some w);
     w2 \<leftarrow> (if events AND EPOLLIN \<noteq> 0 then tp_on_read_event P j fd w1 else Some w1);
     if events AND EPOLLOUT \<noteq> 0 then do {
       p \<leftarrow> ts_endpoints w2 j;
       w3 \<leftarrow> (if tp_status p = TCP_CONNECTING then tp_right_connected P j w2 else Some w2);
       tp_on_write_event P j w3
     } else Some w2
   }"

text \<open>
  \<open>OnShutdown\<close>: the peer is not told.  Only \<open>CleanupFDToCBMap\<close>, in the destructor of the epoll server, calls it, when
  no event can come any more; so it is not among the events of a running proxy, and the peer that it leaves
  behind is never used.
\<close>

definition tp_on_shutdown :: "'k platform \<Rightarrow> nat \<Rightarrow> 'k tp_world \<Rightarrow> 'k tp_world option" where
  "tp_on_shutdown P j w = do {
     w1 \<leftarrow> on_proxy j (\<lambda>p io. Some (endpoint_close P p io)) w;
     tp_delete_self j w1
   }"

section \<open>Accepting\<close>

definition tp_add :: "nat \<Rightarrow> tp_proxy \<Rightarrow> 'k tp_world \<Rightarrow> 'k tp_world" where
  "tp_add j p w = w\<lparr>ts_endpoints := (ts_endpoints w)(j \<mapsto> p), ts_next := j + 1\<rparr>"

definition tp_set_kernel :: "'k \<Rightarrow> 'k tp_world \<Rightarrow> 'k tp_world" where
  "tp_set_kernel k w = w\<lparr>ts_io := (ts_io w)\<lparr>tcp_kernel := k\<rparr>\<rparr>"

definition tp_register :: "nat \<Rightarrow> 32 word \<Rightarrow> 'k tp_world \<Rightarrow> 'k tp_world option" where
  "tp_register j m = on_proxy j (\<lambda>p io. Some (p\<lparr>te_registered := Some (te_fd p)\<rparr>, tcp_event (Register_Fd (te_fd p) m) io))"

text \<open>\<open>TpProxyRight::AsynConnect\<close>.\<close>

definition tp_asyn_connect :: "'k platform \<Rightarrow> nat \<Rightarrow> sock_addr \<Rightarrow> sock_addr \<Rightarrow> 'k tp_world \<Rightarrow> (bool \<times> 'k tp_world) option" where
  "tp_asyn_connect P j local remote w = do {
     p \<leftarrow> ts_endpoints w j;
     let fd = te_fd p;
     let fail = (\<lambda>w. map_option (Pair False) (tp_close_fd P j w));
     let (reuse, k1) = sys_reuse_addr P (tcp_kernel (ts_io w)) fd;
     if \<not> reuse then fail (tp_set_kernel k1 w)
     else
       let (bound, k2) = sys_bind P k1 fd local
       in if \<not> bound then fail (tp_set_kernel k2 w)
       else do {
         w3 \<leftarrow> tp_register j (EPOLLET OR EPOLLIN OR EPOLLOUT OR EPOLLRDHUP OR EPOLLERR) (tp_set_kernel k2 w);
         let (res, k4) = sys_connect P (tcp_kernel (ts_io w3)) fd remote;
         if res = Connect_Again then fail (tp_set_kernel k4 w3)
         else map_option (Pair True) (on_proxy j (\<lambda>p io. Some (p\<lparr>tp_status := TCP_CONNECTING\<rparr>, io)) (tp_set_kernel k4 w3))
       }
   }"

text \<open>\<open>CreateEndpoint\<close>: the constructor of \<open>TpProxyLeft\<close>, which creates its peer.\<close>

definition tp_create_left :: "'k platform \<Rightarrow> int \<Rightarrow> 'k tp_world \<Rightarrow> 'k tp_world option" where
  "tp_create_left P fd w = do {
     let j = ts_next w;
     p \<leftarrow> tp_new P Tp_Left fd (ts_io w);
     w1 \<leftarrow> tp_register j (EPOLLET OR EPOLLOUT OR EPOLLRDHUP OR EPOLLERR) (tp_add j p w);
     case sys_original_dst P (tcp_kernel (ts_io w1)) fd of
       None \<Rightarrow> tp_close_fd P j w1
     | Some remote \<Rightarrow>
         let (right_fd, k) = sys_socket P (tcp_kernel (ts_io w1)); w2 = tp_set_kernel k w1
         in if right_fd < 0 then tp_close_fd P j w2
         else do {
           let q = j + 1;
           s \<leftarrow> tp_new P Tp_Right right_fd (ts_io w2);
           w3 \<leftarrow> on_proxy j (\<lambda>p io. Some (p\<lparr>tp_peer := Some q\<rparr>, io)) (tp_add q s w2);
           (success, w4) \<leftarrow> tp_asyn_connect P q (0, 0) remote w3;
           if \<not> success then tp_close_fd P j w4
           else do {
             w5 \<leftarrow> on_proxy q (\<lambda>p io. Some (p\<lparr>tp_peer := Some j\<rparr>, io)) w4;
             on_proxy j (\<lambda>p io. Some (p\<lparr>tp_status := TCP_CONNECTED\<rparr>, io)) w5
           }
         }
   }"

text \<open>The accepting loop of \<open>PhysicalSocketServer\<close> with this backend.\<close>

partial_function (option) tp_accept_loop :: "'k platform \<Rightarrow> 'k listening \<Rightarrow> int \<Rightarrow> 'k tp_world \<Rightarrow> 'k tp_world option" where
  [code]: "tp_accept_loop P Q fd w =
     (let (s, k) = sys_accept Q (tcp_kernel (ts_io w)) fd; w' = tp_set_kernel k w
      in if 0 \<le> s then Option.bind (tp_create_left P s w') (tp_accept_loop P Q fd) else Some w')"

section \<open>What the epoll server calls\<close>

text \<open>
  An object that is gone has cancelled its alarms; one whose descriptor is not registered gets no event.
\<close>

datatype tp_action = Tp_Listener "32 word" | Tp_Event nat "32 word" | Tp_Goodput_Alarm nat | Tp_Read_Alarm nat | Tp_Write_Alarm nat | Run_Tp_Tasks

definition tp_fire :: "(tp_proxy \<Rightarrow> base_alarm option) \<Rightarrow> (base_alarm \<Rightarrow> tp_proxy \<Rightarrow> tp_proxy) \<Rightarrow> ('k tp_world \<Rightarrow> 'k tp_world option) \<Rightarrow>
    nat \<Rightarrow> 'k tp_world \<Rightarrow> 'k tp_world option" where
  "tp_fire alarm upd handler j w =
     (case Option.bind (ts_endpoints w j) alarm of
        None \<Rightarrow> Some w
      | Some al \<Rightarrow>
          let (fires, al') = alarm_on_epoll al
          in Option.bind (on_proxy j (\<lambda>p io. Some (upd al' p, io)) w) (\<lambda>w'. if fires then handler w' else Some w'))"

fun tp_handle :: "'k platform \<Rightarrow> 'k listening \<Rightarrow> tp_action \<Rightarrow> 'k tp_world \<Rightarrow> 'k tp_world option" where
  "tp_handle P Q (Tp_Listener events) w =
     (case ts_listener w of
        Some s \<Rightarrow> if ps_registered s \<noteq> None \<and> events AND EPOLLIN \<noteq> 0 then tp_accept_loop P Q (ps_fd s) w else Some w
      | None \<Rightarrow> Some w)"
| "tp_handle P Q (Tp_Event j events) w =
     (case ts_endpoints w j of
        None \<Rightarrow> Some w
      | Some p \<Rightarrow> (case te_registered p of
          None \<Rightarrow> Some w
        | Some fd \<Rightarrow> (case tp_role p of Tp_Left \<Rightarrow> tp_left_on_event P j fd events w | Tp_Right \<Rightarrow> tp_right_on_event P j fd events w)))"
| "tp_handle P Q (Tp_Goodput_Alarm j) w =
     tp_fire (\<lambda>p. Some (tp_goodput_alarm p)) (\<lambda>al p. p\<lparr>tp_goodput_alarm := al\<rparr>) (on_proxy j (tp_on_goodput_alarm P)) j w"
| "tp_handle P Q (Tp_Read_Alarm j) w =
     tp_fire tp_read_alarm (\<lambda>al p. p\<lparr>tp_read_alarm := Some al\<rparr>) (tp_on_read_budget_alarm P j) j w"
| "tp_handle P Q (Tp_Write_Alarm j) w =
     tp_fire tp_write_alarm (\<lambda>al p. p\<lparr>tp_write_alarm := Some al\<rparr>) (on_proxy j (tp_on_write_budget_alarm P)) j w"
| "tp_handle P Q Run_Tp_Tasks w = tcp_execute_tasks w"

end
