(* ===== verification/Tpproxy_Laws.thy ===== *)
theory Tpproxy_Laws
  imports Tpproxy_Server Dash_Client_Laws
begin

text \<open>
  What one object of the single-path proxy does with the bytes that it is given, and what its operations leave
  alone; then the links between the objects, which every operation keeps.
\<close>

section \<open>The kernel\<close>

text \<open>
  \<open>inc k fd\<close>: the bytes that the other end of \<open>fd\<close> is going to deliver, of which a read takes the
  first; sending and closing do not change them.
\<close>

definition streams :: "'k platform \<Rightarrow> ('k \<Rightarrow> int \<Rightarrow> byte list) \<Rightarrow> bool" where
  "streams P inc \<longleftrightarrow> (\<forall>k fd d. inc (snd (sys_send P k fd d)) = inc k) \<and> (\<forall>k fd. inc (sys_close P k fd) = inc k) \<and>
     (\<forall>k fd n. case sys_read P k fd n of
        (None, k') \<Rightarrow> inc k' = inc k
      | (Some d, k') \<Rightarrow> inc k = (inc k')(fd := d @ inc k' fd))"

text \<open>A descriptor that has been closed cannot be read, also after another one has been closed.\<close>

definition closed_for_good :: "'k platform \<Rightarrow> bool" where
  "closed_for_good P \<longleftrightarrow> (\<forall>k fd fd' n. fst (sys_read P (sys_close P k fd) fd n) = None \<and>
     fst (sys_read P (sys_close P (sys_close P k fd) fd') fd n) = None)"

lemma streams_send: "streams P inc \<Longrightarrow> sys_send P k fd d = (n, k') \<Longrightarrow> inc k' = inc k"
  unfolding streams_def by (metis snd_conv)

lemma streams_read: "streams P inc \<Longrightarrow> sys_read P k fd n = (r, k') \<Longrightarrow>
    inc k = (inc k')(fd := (case r of None \<Rightarrow> [] | Some d \<Rightarrow> d) @ inc k' fd)"
  unfolding streams_def by (cases r) (metis (mono_tags, lifting) case_prod_conv option.simps append_Nil fun_upd_triv)+

lemma streams_close: "streams P inc \<Longrightarrow> inc (sys_close P k fd) = inc k"
  by (simp add: streams_def)

section \<open>One object\<close>

definition tp_alarms_ok :: "tp_proxy \<Rightarrow> bool" where
  "tp_alarms_ok p \<longleftrightarrow> alarm_inv (tp_goodput_alarm p) \<and> (\<forall>a. tp_read_alarm p = Some a \<longrightarrow> alarm_inv a) \<and>
     (\<forall>a. tp_write_alarm p = Some a \<longrightarrow> alarm_inv a)"

text \<open>What ties an object to the others.\<close>

definition tp_link :: "tp_proxy \<Rightarrow> int \<times> int option \<times> bool \<times> tp_role \<times> tpproxy_signal \<times> nat option" where
  "tp_link p = (te_fd p, te_registered p, te_destroyed p, tp_role p, tp_signal p, tp_peer p)"

definition tp_quiet :: "'k platform \<Rightarrow> tp_proxy \<Rightarrow> 'k tcp_io \<Rightarrow> tp_proxy \<Rightarrow> 'k tcp_io \<Rightarrow> bool" where
  "tp_quiet P p io p' io' \<longleftrightarrow> tp_link p' = tp_link p \<and> (tp_alarms_ok p \<longrightarrow> tp_alarms_ok p') \<and>
     tcp_posted io' = tcp_posted io \<and> (\<forall>inc. streams P inc \<longrightarrow> inc (tcp_kernel io') = inc (tcp_kernel io))"

lemma tp_quiet_refl: "tp_link p' = tp_link p \<Longrightarrow> (tp_alarms_ok p \<Longrightarrow> tp_alarms_ok p') \<Longrightarrow> tcp_posted io' = tcp_posted io \<Longrightarrow>
    tcp_kernel io' = tcp_kernel io \<Longrightarrow> tp_quiet P p io p' io'"
  by (simp add: tp_quiet_def)

lemma tp_quiet_trans: "tp_quiet P p io p1 io1 \<Longrightarrow> tp_quiet P p1 io1 p2 io2 \<Longrightarrow> tp_quiet P p io p2 io2"
  by (simp add: tp_quiet_def)

lemma alarm_new_inv: "alarm_inv alarm_new" by (simp add: alarm_inv_def alarm_new_def)

lemma alarm_update_some: "alarm_inv a \<Longrightarrow> (\<And>al. alarm_update a t g = Some al \<Longrightarrow> alarm_inv al \<Longrightarrow> R) \<Longrightarrow> R"
  using alarm_update_inv [of a t g] by blast

text \<open>The flushing loop sends a prefix of the data.\<close>

lemma tp_flush_loop_sends:
  assumes posix: "posix P"
  shows "\<exists>d rest n b io'. tp_flush_loop P p data flushed io =
      Some (p\<lparr>tp_send_bytes := n, tp_write_budget := b\<rparr>, rest, flushed \<or> d \<noteq> [], io') \<and>
    data = d @ rest \<and> tcp_sent (te_fd p) io' = tcp_sent (te_fd p) io @ d \<and> tcp_posted io' = tcp_posted io \<and>
    (\<forall>inc. streams P inc \<longrightarrow> inc (tcp_kernel io') = inc (tcp_kernel io))"
proof (induction "length data" arbitrary: p data flushed io rule: less_induct)
  case less
  have stop: ?case if "tp_flush_loop P p data flushed io = Some (p, data, flushed, io\<lparr>tcp_kernel := k\<rparr>)"
      "\<forall>inc. streams P inc \<longrightarrow> inc k = inc (tcp_kernel io)" for k
    using that by (intro exI [of _ "[]"] exI [of _ data] exI [of _ "tp_send_bytes p"] exI [of _ "tp_write_budget p"] exI [of _ "io\<lparr>tcp_kernel := k\<rparr>"]) simp
  show ?case
  proof (cases "data = [] \<or> \<not> tp_can_send p")
    case True
    then have "tp_flush_loop P p data flushed io = Some (p, data, flushed, io)" by (subst tp_flush_loop.simps) auto
    then show ?thesis by (intro stop [of "tcp_kernel io"]) simp_all
  next
    case False
    define intend where "intend = take kBufferSize data"
    obtain sent k where send: "sys_send P (tcp_kernel io) (te_fd p) intend = (sent, k)" by fastforce
    have le: "sent \<le> int (length intend)" by (rule posix_send [OF posix send])
    have quiet: "\<forall>inc. streams P inc \<longrightarrow> inc k = inc (tcp_kernel io)" using streams_send [OF _ send] by blast
    show ?thesis
    proof (cases "sent \<le> 0")
      case True
      then have "tp_flush_loop P p data flushed io = Some (p, data, flushed, io\<lparr>tcp_kernel := k\<rparr>)"
        using False send by (subst tp_flush_loop.simps) (simp add: Let_def intend_def)
      then show ?thesis using quiet by (rule stop)
    next
      case pos: False
      define p1 where "p1 = tp_on_packet_sent sent (p\<lparr>tp_send_bytes := tp_send_bytes p + sent\<rparr>)"
      define io1 where "io1 = tcp_event (Send (te_fd p) (take (nat sent) intend)) (io\<lparr>tcp_kernel := k\<rparr>)"
      have step: "tp_flush_loop P p data flushed io = tp_flush_loop P p1 (drop (nat sent) data) True io1"
        using False send pos le by (subst tp_flush_loop.simps) (simp add: Let_def intend_def p1_def io1_def)
      obtain n b where p1: "p1 = p\<lparr>tp_send_bytes := n, tp_write_budget := b\<rparr>"
      proof
        show "p1 = p\<lparr>tp_send_bytes := tp_send_bytes p + sent, tp_write_budget := if started (tp_write_budget p)
            then use_budget (tp_write_budget p) sent else tp_write_budget p\<rparr>"
          by (simp add: p1_def tp_on_packet_sent_def)
      qed
      have shorter: "length (drop (nat sent) data) < length data" using False pos by auto
      have d: "take (nat sent) intend = take (nat sent) data" using le by (auto simp: intend_def min_def split: if_splits)
      from less [OF shorter, of p1 True io1] obtain d' rest n' b' io' where rec:
        "tp_flush_loop P p1 (drop (nat sent) data) True io1 = Some (p1\<lparr>tp_send_bytes := n', tp_write_budget := b'\<rparr>, rest, True, io')"
        "drop (nat sent) data = d' @ rest" "tcp_sent (te_fd p1) io' = tcp_sent (te_fd p1) io1 @ d'" "tcp_posted io' = tcp_posted io1"
        "\<forall>inc. streams P inc \<longrightarrow> inc (tcp_kernel io') = inc (tcp_kernel io1)" by auto
      have "data = (take (nat sent) data @ d') @ rest" using rec(2) by (metis append.assoc append_take_drop_id)
      moreover have "take (nat sent) data @ d' \<noteq> []" using pos False by auto
      ultimately show ?thesis using rec(1,3-) quiet
        by (intro exI [of _ "take (nat sent) data @ d'"] exI [of _ rest] exI [of _ n'] exI [of _ b'] exI [of _ io'])
          (simp add: step p1 io1_def d sent_event_def)
    qed
  qed
qed


text \<open>An operation on the buffer: nothing is lost, nothing is reordered.\<close>

definition tp_conserves :: "byte list \<Rightarrow> tp_proxy \<Rightarrow> 'k tcp_io \<Rightarrow> tp_proxy \<Rightarrow> 'k tcp_io \<Rightarrow> bool" where
  "tp_conserves data p io p' io' \<longleftrightarrow>
     tcp_sent (te_fd p) io' @ tp_buffer p' = tcp_sent (te_fd p) io @ tp_buffer p @ data"

lemma tp_flush_buffer_quiet:
  assumes posix: "posix P" and ok: "te_fd p < 0 \<Longrightarrow> tp_buffer p = []"
  obtains p' io' where "tp_flush_buffer P p io = Some (p', io')" "tp_quiet P p io p' io'" "tp_conserves [] p io p' io'"
    "tp_status p' = tp_status p" "tp_read_alarm p' = tp_read_alarm p" "tp_write_alarm p' = tp_write_alarm p"
    "length (tp_buffer p') \<le> length (tp_buffer p)"
proof (cases "te_fd p < 0")
  case True
  then show ?thesis using ok that [of p io] by (simp add: tp_flush_buffer_def tp_quiet_refl tp_conserves_def)
next
  case False
  obtain d rest n b io' where loop: "tp_flush_loop P p (tp_buffer p) False io =
      Some (p\<lparr>tp_send_bytes := n, tp_write_budget := b\<rparr>, rest, d \<noteq> [], io')"
    "tp_buffer p = d @ rest" "tcp_sent (te_fd p) io' = tcp_sent (te_fd p) io @ d" "tcp_posted io' = tcp_posted io"
    "\<forall>inc. streams P inc \<longrightarrow> inc (tcp_kernel io') = inc (tcp_kernel io)"
    using tp_flush_loop_sends [OF posix, of p "tp_buffer p" False io] by auto
  show ?thesis
  proof
    show "tp_flush_buffer P p io = Some (p\<lparr>tp_buffer := rest, tp_send_bytes := n, tp_write_budget := b\<rparr>, io')"
      using False loop by (cases "d = []") (simp_all add: tp_flush_buffer_def)
  qed (use loop in \<open>simp_all add: tp_quiet_def tp_link_def tp_alarms_ok_def tp_conserves_def\<close>)
qed

lemma tp_send_now_quiet:
  assumes posix: "posix P" and empty: "tp_buffer p = []" and run: "tp_send_now P data p io = (p', io')"
  shows "tp_quiet P p io p' io'" "tp_conserves data p io p' io'" "length (tp_buffer p') \<le> length data" "tp_status p' = tp_status p"
proof -
  obtain sent k where send: "sys_send P (tcp_kernel io) (te_fd p) data = (sent, k)" by fastforce
  have "sent \<le> int (length data)" by (rule posix_send [OF posix send])
  moreover have "\<forall>inc. streams P inc \<longrightarrow> inc k = inc (tcp_kernel io)" using streams_send [OF _ send] by blast
  ultimately have "tp_quiet P p io p' io' \<and> tp_conserves data p io p' io' \<and> length (tp_buffer p') \<le> length data \<and> tp_status p' = tp_status p"
    using run empty send
    by (auto simp: tp_send_now_def Let_def tp_append_def tp_want_write_def tp_quiet_def tp_link_def tp_alarms_ok_def tp_conserves_def
        sent_event_def split: if_splits)
  then show "tp_quiet P p io p' io'" "tp_conserves data p io p' io'" "length (tp_buffer p') \<le> length data" "tp_status p' = tp_status p" by simp_all
qed

lemma tp_start_writing_quiet:
  obtains p' where "tp_start_writing P (tcp_kernel io) p = Some p'" "tp_quiet P p io p' io" "tp_buffer p' = tp_buffer p"
    "te_fd p' = te_fd p" "tp_status p' = tp_status p"
proof (cases "tp_write_alarm p = None")
  case True
  obtain al where al: "alarm_update alarm_new (clock_now P (tcp_kernel io) + tp_kWriteBudgetInterval) 0 = Some al" "alarm_inv al"
    using alarm_update_some [OF alarm_new_inv] by blast
  obtain p' where run: "tp_start_writing P (tcp_kernel io) p = Some p'" using al True by (simp add: tp_start_writing_def Let_def)
  show ?thesis by (rule that [OF run])
      (use al True run in \<open>auto simp: tp_start_writing_def Let_def tp_retarget_def tp_quiet_def tp_link_def tp_alarms_ok_def\<close>)
next
  case False
  show ?thesis by (rule that [of p]) (use False in \<open>simp_all add: tp_start_writing_def tp_quiet_refl\<close>)
qed

lemma tp_conserves_trans:
  "tp_conserves d1 p io p1 io1 \<Longrightarrow> te_fd p1 = te_fd p \<Longrightarrow> tp_conserves d2 p1 io1 p2 io2 \<Longrightarrow> tp_conserves (d1 @ d2) p io p2 io2"
  by (simp add: tp_conserves_def)

lemma tp_quiet_fd: "tp_quiet P p io p' io' \<Longrightarrow> te_fd p' = te_fd p"
  by (simp add: tp_quiet_def tp_link_def)

text \<open>\<open>SendData\<close>: the data join the stream of the descriptor, at its end.\<close>

lemma tp_send_data_quiet:
  assumes posix: "posix P" and fd: "0 \<le> te_fd p"
  obtains p' io' where "tp_send_data P data p io = Some (p', io')" "tp_quiet P p io p' io'" "tp_conserves data p io p' io'"
    "length (tp_buffer p') \<le> length (tp_buffer p) + length data" "tp_status p' = tp_status p"
proof -
  obtain p1 where p1: "tp_start_writing P (tcp_kernel io) p = Some p1" "tp_quiet P p io p1 io" "tp_buffer p1 = tp_buffer p"
    "te_fd p1 = te_fd p" "tp_status p1 = tp_status p" by (rule tp_start_writing_quiet)
  have keep: "tp_conserves [] p io p1 io" using p1(3) by (simp add: tp_conserves_def)
  have append: "tp_quiet P q io (tp_append data q) io" "tp_conserves data q io (tp_append data q) io" for q io
    by (simp_all add: tp_append_def tp_quiet_def tp_link_def tp_alarms_ok_def tp_conserves_def)
  note go = that [OF _ tp_quiet_trans [OF p1(2)] tp_conserves_trans [OF keep p1(4), simplified]]
  show ?thesis
  proof (cases "tp_status p1 = TCP_CONNECTED")
    case False
    show ?thesis by (rule go [OF _ append]) (use False fd p1 in \<open>simp_all add: tp_send_data_def tp_append_def\<close>)
  next
    case True
    obtain p2 io2 where p2: "tp_flush_buffer P p1 io = Some (p2, io2)" "tp_quiet P p1 io p2 io2" "tp_conserves [] p1 io p2 io2"
      "tp_status p2 = tp_status p1" "length (tp_buffer p2) \<le> length (tp_buffer p1)"
      by (rule tp_flush_buffer_quiet [OF posix, of p1 io]) (use fd p1(4) in simp)
    note go2 = go [OF _ tp_quiet_trans [OF p2(2)] tp_conserves_trans [OF p2(3) tp_quiet_fd [OF p2(2)], simplified]]
    show ?thesis
    proof (cases "tp_buffer p2 = []")
      case False
      show ?thesis by (rule go2 [OF _ append]) (use False fd p1(1,3,5) p2(1,4,5) True in \<open>simp_all add: tp_send_data_def tp_append_def\<close>)
    next
      case empty: True
      obtain p3 io3 where p3: "tp_send_now P data p2 io2 = (p3, io3)" by fastforce
      note now = tp_send_now_quiet [OF posix empty p3]
      show ?thesis
      proof (rule go2 [OF _ now(1,2)])
        show "tp_send_data P data p io = Some (p3, io3)" using fd p1(1) True p2(1) empty p3 by (simp add: tp_send_data_def)
        show "length (tp_buffer p3) \<le> length (tp_buffer p) + length data" using now(3) by simp
        show "tp_status p3 = tp_status p" using now(4) p2(4) p1(5) by simp
      qed
    qed
  qed
qed

end
