(* ===== verification/Tpproxy_Links.thy ===== *)
theory Tpproxy_Links
  imports Tpproxy_Laws
begin

text \<open>
  The links between the objects of the single-path proxy: two live objects are each other's peers, an object
  without a peer has bytes left to write, and an object that is destroyed is cut off and waits for its deletion.  Every
  operation keeps them, and closing is total.
\<close>

section \<open>The invariant\<close>

text \<open>The objects in \<open>X\<close> may have written their last byte and not have been closed yet.\<close>

definition tp_obj_ok :: "nat set \<Rightarrow> (nat \<rightharpoonup> tp_proxy) \<Rightarrow> nat \<Rightarrow> tp_proxy \<Rightarrow> bool" where
  "tp_obj_ok X es j p \<longleftrightarrow> tp_alarms_ok p \<and>
     (if te_destroyed p then te_registered p = None \<and> te_fd p < 0 \<and> tp_peer p = None
      else te_registered p = Some (te_fd p) \<and> 0 < te_fd p \<and>
        (case tp_peer p of
           None \<Rightarrow> tp_signal p = TPPROXY_CLOSE \<and> (j \<in> X \<or> tp_buffer p \<noteq> [])
         | Some q \<Rightarrow> tp_signal p \<noteq> TPPROXY_CLOSE \<and> q \<noteq> j \<and> (\<exists>s. es q = Some s \<and> \<not> te_destroyed s \<and> tp_peer s = Some j)))"

definition tp_links :: "nat set \<Rightarrow> 'k tp_world \<Rightarrow> bool" where
  "tp_links X w \<longleftrightarrow> distinct (tcp_posted (ts_io w)) \<and>
     (\<forall>j. j \<in> set (tcp_posted (ts_io w)) \<longleftrightarrow> (\<exists>p. ts_endpoints w j = Some p \<and> te_destroyed p)) \<and>
     (\<forall>j p. ts_endpoints w j = Some p \<longrightarrow> tp_obj_ok X (ts_endpoints w) j p \<and> j < ts_next w)"

lemma tp_links_obj: "tp_links X w \<Longrightarrow> ts_endpoints w j = Some p \<Longrightarrow> tp_obj_ok X (ts_endpoints w) j p"
  by (simp add: tp_links_def)

lemma tp_links_kernel [simp]: "tp_links X (tp_set_kernel k w) = tp_links X w"
  by (simp add: tp_links_def tp_set_kernel_def)

lemma tp_set_kernel_fields [simp]:
  "ts_endpoints (tp_set_kernel k w) = ts_endpoints w" "ts_next (tp_set_kernel k w) = ts_next w" "ts_listener (tp_set_kernel k w) = ts_listener w"
  "tcp_posted (ts_io (tp_set_kernel k w)) = tcp_posted (ts_io w)" "tcp_kernel (ts_io (tp_set_kernel k w)) = k"
  "tcp_sent fd (ts_io (tp_set_kernel k w)) = tcp_sent fd (ts_io w)"
  by (simp_all add: tp_set_kernel_def)

lemma tp_links_mono: "tp_links X w \<Longrightarrow> X \<subseteq> Y \<Longrightarrow> tp_links Y w"
proof -
  assume "tp_links X w" and sub: "X \<subseteq> Y"
  moreover have "tp_obj_ok X es j p \<Longrightarrow> tp_obj_ok Y es j p" for es j p
    using sub by (auto simp: tp_obj_ok_def split: option.splits)
  ultimately show "tp_links Y w" by (simp add: tp_links_def)
qed

text \<open>An object that is alive, and its peer.\<close>

lemma tp_links_live:
  assumes "tp_links X w" "ts_endpoints w j = Some p" "\<not> te_destroyed p"
  shows "0 < te_fd p" "te_registered p = Some (te_fd p)" "tp_alarms_ok p"
    "tp_peer p = None \<Longrightarrow> tp_signal p = TPPROXY_CLOSE \<and> (j \<in> X \<or> tp_buffer p \<noteq> [])"
    "tp_peer p = Some q \<Longrightarrow> tp_signal p \<noteq> TPPROXY_CLOSE \<and> q \<noteq> j \<and> (\<exists>s. ts_endpoints w q = Some s \<and> \<not> te_destroyed s \<and> tp_peer s = Some j)"
  using tp_links_obj [OF assms(1,2)] assms(3) by (auto simp: tp_obj_ok_def)

lemma tp_links_dead:
  assumes "tp_links X w" "ts_endpoints w j = Some p" "te_destroyed p"
  shows "te_fd p < 0" "te_registered p = None" "tp_peer p = None"
  using tp_links_obj [OF assms(1,2)] assms(3) by (auto simp: tp_obj_ok_def)

text \<open>A quiet operation on one object.\<close>

lemma on_proxy_Some: "ts_endpoints w j = Some p \<Longrightarrow> f p (ts_io w) = Some (p', io') \<Longrightarrow>
    on_proxy j f w = Some (w\<lparr>ts_endpoints := (ts_endpoints w)(j \<mapsto> p'), ts_io := io'\<rparr>)"
  by (simp add: on_proxy_def)

lemma on_proxy_SomeE:
  assumes "on_proxy j f w = Some w'"
  obtains p p' io' where "ts_endpoints w j = Some p" "f p (ts_io w) = Some (p', io')"
    "w' = w\<lparr>ts_endpoints := (ts_endpoints w)(j \<mapsto> p'), ts_io := io'\<rparr>"
  using assms by (auto simp: on_proxy_def Option.bind_eq_Some_conv)

lemma tp_links_quiet:
  assumes links: "tp_links X w" and p: "ts_endpoints w j = Some p" and quiet: "tp_quiet P p (ts_io w) p' io'"
    and buffer: "j \<notin> Y \<Longrightarrow> tp_peer p = None \<Longrightarrow> tp_buffer p \<noteq> [] \<Longrightarrow> tp_buffer p' \<noteq> []" and sub: "X \<subseteq> Y"
  shows "tp_links Y (w\<lparr>ts_endpoints := (ts_endpoints w)(j \<mapsto> p'), ts_io := io'\<rparr>)"
proof -
  have link: "te_fd p' = te_fd p" "te_registered p' = te_registered p" "te_destroyed p' = te_destroyed p" "tp_signal p' = tp_signal p"
    "tp_peer p' = tp_peer p" "tp_alarms_ok p \<Longrightarrow> tp_alarms_ok p'" "tcp_posted io' = tcp_posted (ts_io w)"
    using quiet by (simp_all add: tp_quiet_def tp_link_def)
  let ?es = "(ts_endpoints w)(j \<mapsto> p')"
  have "tp_obj_ok Y ?es i o'" if o': "?es i = Some o'" for i o'
  proof (cases "i = j")
    case True
    then have "o' = p'" using o' by simp
    then show ?thesis using tp_links_obj [OF links p] link sub buffer True p by (auto simp: tp_obj_ok_def split: option.splits)
  next
    case False
    then have "ts_endpoints w i = Some o'" using o' by simp
    then show ?thesis using tp_links_obj [OF links, of i o'] link sub p False by (auto simp: tp_obj_ok_def split: option.splits if_splits)
  qed
  then show ?thesis using links link p by (auto simp: tp_links_def)
qed

section \<open>Closing\<close>

definition tp_shut :: "tp_proxy \<Rightarrow> tp_proxy" where
  "tp_shut p = p\<lparr>te_fd := - 1, te_registered := None, te_destroyed := True, tp_status := TCP_DISCONNECT, tp_peer := None\<rparr>"

definition tp_orphan :: "tp_proxy \<Rightarrow> tp_proxy" where
  "tp_orphan s = s\<lparr>tp_peer := None, tp_signal := TPPROXY_CLOSE\<rparr>"

lemma tp_shut_fields [simp]:
  "te_fd (tp_shut p) = - 1" "te_registered (tp_shut p) = None" "te_destroyed (tp_shut p)" "tp_status (tp_shut p) = TCP_DISCONNECT"
  "tp_peer (tp_shut p) = None" "tp_buffer (tp_shut p) = tp_buffer p" "tp_signal (tp_shut p) = tp_signal p" "tp_role (tp_shut p) = tp_role p"
  "tp_alarms_ok (tp_shut p) = tp_alarms_ok p" "tp_recv_bytes (tp_shut p) = tp_recv_bytes p"
  by (simp_all add: tp_shut_def tp_alarms_ok_def)

lemma tp_orphan_fields [simp]:
  "te_fd (tp_orphan p) = te_fd p" "te_registered (tp_orphan p) = te_registered p" "te_destroyed (tp_orphan p) = te_destroyed p"
  "tp_peer (tp_orphan p) = None" "tp_buffer (tp_orphan p) = tp_buffer p" "tp_signal (tp_orphan p) = TPPROXY_CLOSE"
  "tp_status (tp_orphan p) = tp_status p" "tp_alarms_ok (tp_orphan p) = tp_alarms_ok p"
  by (simp_all add: tp_orphan_def tp_alarms_ok_def)

text \<open>What closing leaves alone, and that the descriptor \<open>fd\<close> is closed.\<close>

definition tp_closed_frame :: "'k platform \<Rightarrow> int \<Rightarrow> 'k tp_world \<Rightarrow> 'k tp_world \<Rightarrow> bool" where
  "tp_closed_frame P fd w w' \<longleftrightarrow> ts_next w' = ts_next w \<and> ts_listener w' = ts_listener w \<and>
     (\<forall>i. tcp_sent i (ts_io w') = tcp_sent i (ts_io w)) \<and>
     (\<forall>inc. streams P inc \<longrightarrow> inc (tcp_kernel (ts_io w')) = inc (tcp_kernel (ts_io w))) \<and>
     (closed_for_good P \<longrightarrow> (\<forall>n. fst (sys_read P (tcp_kernel (ts_io w')) fd n) = None))"

lemma tp_close_fd_dead:
  "ts_endpoints w j = Some p \<Longrightarrow> te_destroyed p \<Longrightarrow> te_fd p < 0 \<Longrightarrow> tp_peer p = None \<Longrightarrow> tp_close_fd P j w = Some w"
  by (simp add: tp_close_fd_def tp_close_own_def tp_delete_self_def on_proxy_def endpoint_delete_self_def fun_upd_idem)

lemma tp_close_fd_alone:
  assumes "ts_endpoints w j = Some p" "\<not> te_destroyed p" "0 < te_fd p" "tp_peer p = None" "te_registered p \<in> {None, Some (te_fd p)}"
  obtains w' where "tp_close_fd P j w = Some w'" "ts_endpoints w' = (ts_endpoints w)(j \<mapsto> tp_shut p)"
    "tcp_posted (ts_io w') = tcp_posted (ts_io w) @ [j]" "tp_closed_frame P (te_fd p) w w'"
proof -
  obtain w' where run: "tp_close_fd P j w = Some w'" using assms
    by (simp add: tp_close_fd_def tp_close_own_def tp_delete_self_def on_proxy_def endpoint_delete_self_def Let_def)
  show ?thesis by (rule that [OF run])
      (use run assms in \<open>auto simp: tp_close_fd_def tp_close_own_def tp_delete_self_def on_proxy_def endpoint_delete_self_def Let_def tp_shut_def
        tp_closed_frame_def sent_event_def streams_close closed_for_good_def\<close>)
qed

lemma tp_close_fd_peer:
  assumes "ts_endpoints w j = Some p" "\<not> te_destroyed p" "0 < te_fd p" "tp_peer p = Some q" "te_registered p \<in> {None, Some (te_fd p)}" "q \<noteq> j"
    and "ts_endpoints w q = Some s" "\<not> te_destroyed s" "0 < te_fd s" "te_registered s = Some (te_fd s)"
  obtains w' where "tp_close_fd P j w = Some w'"
    "ts_endpoints w' = (ts_endpoints w)(q \<mapsto> if tp_buffer s = [] then tp_shut (tp_orphan s) else tp_orphan s, j \<mapsto> tp_shut p)"
    "tcp_posted (ts_io w') = tcp_posted (ts_io w) @ (if tp_buffer s = [] then [q] else []) @ [j]" "tp_closed_frame P (te_fd p) w w'"
proof -
  note defs = tp_close_fd_def tp_close_own_def tp_delete_self_def on_proxy_def endpoint_delete_self_def
    tp_notify_def tp_left_notify_def tp_right_notify_def tp_notify_close_def tp_should_close_def tp_close_alone_def Let_def
  obtain w' where run: "tp_close_fd P j w = Some w'" using assms
    by (cases "tp_role s"; cases "tp_buffer s = []") (simp_all add: defs)
  show ?thesis by (rule that [OF run])
      (use run assms in \<open>(cases "tp_role s"; cases "tp_buffer s = []"; auto simp: defs tp_shut_def tp_orphan_def
        tp_closed_frame_def sent_event_def streams_close closed_for_good_def fun_eq_iff)+\<close>)
qed


text \<open>Closing keeps the links, whatever was left to be closed.\<close>

lemma tp_close_fd_links:
  assumes links: "tp_links (insert j X) w" and p: "ts_endpoints w j = Some p"
  obtains w' p' where "tp_close_fd P j w = Some w'" "tp_links X w'" "ts_endpoints w' j = Some p'" "te_destroyed p'"
    "te_destroyed p \<Longrightarrow> w' = w" "\<not> te_destroyed p \<Longrightarrow> tp_closed_frame P (te_fd p) w w' \<and> tp_status p' = TCP_DISCONNECT"
    "tp_buffer p' = tp_buffer p" "j \<in> set (tcp_posted (ts_io w'))"
    "\<And>i s. i \<noteq> j \<Longrightarrow> ts_endpoints w i = Some s \<Longrightarrow> \<exists>s'. ts_endpoints w' i = Some s' \<and> tp_buffer s' = tp_buffer s"
proof (cases "te_destroyed p")
  case True
  have "tp_close_fd P j w = Some w" by (rule tp_close_fd_dead [OF p True tp_links_dead(1,3) [OF links p True]])
  moreover have "tp_obj_ok X (ts_endpoints w) i s" if "ts_endpoints w i = Some s" for i s
    using tp_links_obj [OF links that] p True that by (cases "i = j") (auto simp: tp_obj_ok_def split: option.splits)
  then have "tp_links X w" using links by (simp add: tp_links_def)
  moreover have "j \<in> set (tcp_posted (ts_io w))" using links p True by (auto simp: tp_links_def)
  ultimately show ?thesis using that p True by blast
next
  case False
  note live = tp_links_live [OF links p False]
  have fresh: "j \<notin> set (tcp_posted (ts_io w))" "j < ts_next w" using links p False by (auto simp: tp_links_def)
  note old = tp_links_obj [OF links]
  show ?thesis
  proof (cases "tp_peer p")
    case None
    obtain w' where w': "tp_close_fd P j w = Some w'" "ts_endpoints w' = (ts_endpoints w)(j \<mapsto> tp_shut p)"
      "tcp_posted (ts_io w') = tcp_posted (ts_io w) @ [j]" "tp_closed_frame P (te_fd p) w w'"
      using tp_close_fd_alone [OF p False live(1) None] live(2) by blast
    have "tp_obj_ok X (ts_endpoints w') i s" if "ts_endpoints w' i = Some s" for i s
      using old [of i] old [of j p] p that None False by (auto simp: w'(2) tp_obj_ok_def split: if_splits option.splits)
    then have "tp_links X w'" using links fresh w'(2-4) by (auto simp: tp_links_def tp_closed_frame_def)
    then show ?thesis by (rule that [OF w'(1), of "tp_shut p"]) (use w' False in auto)
  next
    case (Some q)
    obtain s where s: "q \<noteq> j" "ts_endpoints w q = Some s" "\<not> te_destroyed s" "tp_peer s = Some j" using live(5) [OF Some] by blast
    note slive = tp_links_live [OF links s(2,3)]
    obtain w' where w': "tp_close_fd P j w = Some w'"
      "ts_endpoints w' = (ts_endpoints w)(q \<mapsto> if tp_buffer s = [] then tp_shut (tp_orphan s) else tp_orphan s, j \<mapsto> tp_shut p)"
      "tcp_posted (ts_io w') = tcp_posted (ts_io w) @ (if tp_buffer s = [] then [q] else []) @ [j]" "tp_closed_frame P (te_fd p) w w'"
      using tp_close_fd_peer [OF p False live(1) Some _ s(1-3) slive(1,2)] live(2) by blast
    have sfresh: "q \<notin> set (tcp_posted (ts_io w))" "q < ts_next w" using links s by (auto simp: tp_links_def)
    have "tp_obj_ok X (ts_endpoints w') i o'" if o': "ts_endpoints w' i = Some o'" for i o'
    proof -
      consider "i = j" | "i = q" "i \<noteq> j" | "i \<noteq> j" "i \<noteq> q" by blast
      then show ?thesis
      proof cases
        case 1
        then have "o' = tp_shut p" using o' by (simp add: w'(2))
        then show ?thesis using live(3) by (simp add: tp_obj_ok_def)
      next
        case 2
        then have "o' = (if tp_buffer s = [] then tp_shut (tp_orphan s) else tp_orphan s)" using o' by (simp add: w'(2))
        then show ?thesis using slive(1-3) s(3) by (simp add: tp_obj_ok_def)
      next
        case 3
        then have i: "ts_endpoints w i = Some o'" using o' by (simp add: w'(2))
        have "tp_peer o' \<noteq> Some j" "tp_peer o' \<noteq> Some q" if "\<not> te_destroyed o'"
          using tp_links_live(5) [OF links i that] p s Some 3 by auto
        then show ?thesis using old [OF i] 3 by (auto simp: w'(2) tp_obj_ok_def split: option.splits)
      qed
    qed
    then have "tp_links X w'" using links fresh sfresh s p w'(2-4) False
      by (auto simp: tp_links_def tp_closed_frame_def)
    then show ?thesis by (rule that [OF w'(1), of "tp_shut p"]) (use w' False s in auto)
  qed
qed

lemma tp_check_close_fd_links:
  assumes links: "tp_links (insert j X) w" and p: "ts_endpoints w j = Some p"
  obtains w' where "tp_check_close_fd P j w = Some w'" "tp_links X w'" "\<And>fd. tcp_sent fd (ts_io w') = tcp_sent fd (ts_io w)"
proof (cases "tp_should_close p")
  case True
  obtain w' where w': "tp_close_fd P j w = Some w'" "tp_links X w'" "te_destroyed p \<Longrightarrow> w' = w"
      "\<not> te_destroyed p \<Longrightarrow> tp_closed_frame P (te_fd p) w w'"
    by (rule tp_close_fd_links [OF links p, where P = P]) blast
  then have "tcp_sent fd (ts_io w') = tcp_sent fd (ts_io w)" for fd by (cases "te_destroyed p") (simp_all add: tp_closed_frame_def)
  with w' show ?thesis using that True p by (simp add: tp_check_close_fd_def)
next
  case False
  have "tp_obj_ok X (ts_endpoints w) i s" if "ts_endpoints w i = Some s" for i s
    using tp_links_obj [OF links that] p False that by (cases "i = j") (auto simp: tp_obj_ok_def tp_should_close_def split: option.splits)
  then have "tp_links X w" using links by (simp add: tp_links_def)
  then show ?thesis using that False p by (simp add: tp_check_close_fd_def)
qed

end
