(* ===== verification/Tpproxy_Safety.thy ===== *)
theory Tpproxy_Safety
  imports Tpproxy_Links Tcp_Endpoints
begin

text \<open>
  Every handler of the single-path proxy keeps the links, so no pointer to a deleted object is
  ever followed.
\<close>

section \<open>Sending and reading\<close>

lemma tp_send_to_peer:
  assumes posix: "posix P" and links: "tp_links X w" and s: "ts_endpoints w q = Some s" "\<not> te_destroyed s" "tp_peer s \<noteq> None"
  obtains s' io' where "on_proxy q (tp_send_data P d) w = Some (w\<lparr>ts_endpoints := (ts_endpoints w)(q \<mapsto> s'), ts_io := io'\<rparr>)"
    "tp_links X (w\<lparr>ts_endpoints := (ts_endpoints w)(q \<mapsto> s'), ts_io := io'\<rparr>)"
    "tp_quiet P s (ts_io w) s' io'" "tp_conserves d s (ts_io w) s' io'" "length (tp_buffer s') \<le> length (tp_buffer s) + length d"
proof -
  have "0 \<le> te_fd s" using tp_links_live(1) [OF links s(1,2)] by simp
  then obtain s' io' where run: "tp_send_data P d s (ts_io w) = Some (s', io')" "tp_quiet P s (ts_io w) s' io'" "tp_conserves d s (ts_io w) s' io'"
    "length (tp_buffer s') \<le> length (tp_buffer s) + length d" using tp_send_data_quiet [OF posix] by metis
  show ?thesis
    by (rule that [OF on_proxy_Some [where f = "tp_send_data P d", OF s(1) run(1)] tp_links_quiet [OF links s(1) run(2)] run(2-4)]) (use s(3) in auto)
qed

text \<open>An operation that only counts, or sets an alarm.\<close>

lemma tp_links_count:
  assumes links: "tp_links X w" and p: "ts_endpoints w j = Some p" and same: "tp_link p' = tp_link p" "tp_buffer p' = tp_buffer p"
    and alarms: "tp_alarms_ok p \<Longrightarrow> tp_alarms_ok p'"
  shows "tp_links X (w\<lparr>ts_endpoints := (ts_endpoints w)(j \<mapsto> p')\<rparr>)"
proof -
  have "tp_quiet undefined p (ts_io w) p' (ts_io w)" using same alarms by (simp add: tp_quiet_refl)
  from tp_links_quiet [OF links p this, of X] same(2) show ?thesis by simp
qed

lemma tp_links_update:
  assumes run: "on_proxy j f w = Some w'" and links: "tp_links X w"
    and f: "\<And>p p' io'. ts_endpoints w j = Some p \<Longrightarrow> f p (ts_io w) = Some (p', io') \<Longrightarrow>
      tp_link p' = tp_link p \<and> tp_buffer p' = tp_buffer p \<and> (tp_alarms_ok p \<longrightarrow> tp_alarms_ok p') \<and> tcp_posted io' = tcp_posted (ts_io w)"
  shows "tp_links X w' \<and> ts_endpoints w' j \<noteq> None"
proof -
  obtain p p' io' where p: "ts_endpoints w j = Some p" "f p (ts_io w) = Some (p', io')"
    "w' = w\<lparr>ts_endpoints := (ts_endpoints w)(j \<mapsto> p'), ts_io := io'\<rparr>" using run by (rule on_proxy_SomeE)
  have "tp_links X (w\<lparr>ts_endpoints := (ts_endpoints w)(j \<mapsto> p')\<rparr>)"
    using f [OF p(1,2)] by (intro tp_links_count [OF links p(1)]) auto
  then show ?thesis using f [OF p(1,2)] by (simp add: p(3) tp_links_def)
qed

lemma tp_read_loop_links:
  assumes posix: "posix P" and run: "tp_read_loop P j fd target got w = Some (n, w')"
    and links: "tp_links X w" and ex: "ts_endpoints w j \<noteq> None"
  shows "tp_links X w' \<and> ts_endpoints w' j \<noteq> None"
proof -
  have "P = P \<and> j = j \<longrightarrow> tp_links X w \<longrightarrow> ts_endpoints w j \<noteq> None \<longrightarrow>
    tp_links X (snd (n, w')) \<and> ts_endpoints (snd (n, w')) j \<noteq> None"
  proof (rule tp_read_loop.raw_induct [where Pa = "\<lambda>(((((P', j'), fd), target), got), w) r.
      P' = P \<and> j' = j \<longrightarrow> tp_links X w \<longrightarrow> ts_endpoints w j \<noteq> None \<longrightarrow> tp_links X (snd r) \<and> ts_endpoints (snd r) j \<noteq> None",
      OF _ run, unfolded prod.case], intro impI, elim conjE)
    fix loop P' j' fd target got w r
    assume IH: "\<And>P' j' fd target got w r. loop P' j' fd target got w = Some r \<Longrightarrow>
        P' = P \<and> j' = j \<longrightarrow> tp_links X w \<longrightarrow> ts_endpoints w j \<noteq> None \<longrightarrow> tp_links X (snd r) \<and> ts_endpoints (snd r) j \<noteq> None"
      and body: "(case sys_read P' (tcp_kernel (ts_io w)) fd kBufferSize of
        (None, k) \<Rightarrow> Some (got, w\<lparr>ts_io := (ts_io w)\<lparr>tcp_kernel := k\<rparr>\<rparr>)
      | (Some d, k) \<Rightarrow>
          let w1 = w\<lparr>ts_io := (ts_io w)\<lparr>tcp_kernel := k\<rparr>\<rparr>
          in if d = [] then Option.bind (tp_close_fd P' j' w1) (\<lambda>w2. loop P' j' fd target got w2)
             else Option.bind (on_proxy j' (\<lambda>p io. Some (p\<lparr>tp_recv_bytes := tp_recv_bytes p + int (length d)\<rparr>, io)) w1) (\<lambda>w2.
               Option.bind (ts_endpoints w2 j') (\<lambda>p. Option.bind (tp_peer p) (\<lambda>q.
               Option.bind (on_proxy q (tp_send_data P' d) w2) (\<lambda>w3.
               if target \<le> got + int (length d) then Some (got + int (length d), w3)
               else loop P' j' fd target (got + int (length d)) w3))))) = Some r"
      and eq: "P' = P" "j' = j" and links: "tp_links X w" and ex: "ts_endpoints w j \<noteq> None"
    obtain d k where read: "sys_read P (tcp_kernel (ts_io w)) fd kBufferSize = (d, k)" by fastforce
    note body = body [unfolded eq read prod.case]
    define w1 where "w1 = w\<lparr>ts_io := (ts_io w)\<lparr>tcp_kernel := k\<rparr>\<rparr>"
    have links1: "tp_links X w1" "ts_endpoints w1 j \<noteq> None" using links ex by (simp_all add: w1_def tp_links_def)
    consider "d = None" | "d = Some []" | bytes where "d = Some bytes" "bytes \<noteq> []" by (cases d) auto
    then show "tp_links X (snd r) \<and> ts_endpoints (snd r) j \<noteq> None"
    proof cases
      case 1
      then show ?thesis using body links1 by (auto simp: w1_def)
    next
      case 2
      then obtain w2 where w2: "tp_close_fd P j w1 = Some w2" "loop P j fd target got w2 = Some r"
        using body by (auto simp: w1_def [symmetric] Option.bind_eq_Some_conv)
      obtain p where p: "ts_endpoints w1 j = Some p" using links1(2) by auto
      have "tp_links X w2 \<and> ts_endpoints w2 j \<noteq> None"
        by (rule tp_close_fd_links [OF tp_links_mono [OF links1(1) subset_insertI] p, where P = P]) (use w2(1) in auto)
      then show ?thesis using IH [OF w2(2)] by simp
    next
      case 3
      then obtain w2 p q w3 where w3: "on_proxy j (\<lambda>p io. Some (p\<lparr>tp_recv_bytes := tp_recv_bytes p + int (length bytes)\<rparr>, io)) w1 = Some w2"
        "ts_endpoints w2 j = Some p" "tp_peer p = Some q" "on_proxy q (tp_send_data P bytes) w2 = Some w3"
        "(if target \<le> got + int (length bytes) then Some (got + int (length bytes), w3) else loop P j fd target (got + int (length bytes)) w3) = Some r"
        using body by (auto simp: w1_def [symmetric] Option.bind_eq_Some_conv Let_def split del: if_split)
      have links2: "tp_links X w2" by (rule tp_links_update [OF w3(1) links1(1), THEN conjunct1]) (auto simp: tp_link_def tp_alarms_ok_def)
      have live: "\<not> te_destroyed p" using tp_links_dead(3) [OF links2 w3(2)] w3(3) by auto
      obtain s where s: "ts_endpoints w2 q = Some s" "\<not> te_destroyed s" "tp_peer s = Some j" using tp_links_live(5) [OF links2 w3(2) live w3(3)] by blast
      have "tp_links X w3 \<and> ts_endpoints w3 j \<noteq> None"
        by (rule tp_send_to_peer [OF posix links2 s(1,2), of bytes]) (use s(3) w3(2,4) in auto)
      then show ?thesis using w3(5) IH by (auto split: if_splits)
    qed
  qed
  then show ?thesis using links ex by simp
qed


section \<open>The handlers\<close>

text \<open>The links, and that the object is still there.\<close>

definition tp_keeps :: "nat \<Rightarrow> 'k tp_world \<Rightarrow> bool" where
  "tp_keeps j w \<longleftrightarrow> tp_links {} w \<and> ts_endpoints w j \<noteq> None"

lemma tp_keeps_update:
  assumes run: "on_proxy i f w = Some w'" and keeps: "tp_keeps j w"
    and f: "\<And>p p' io'. ts_endpoints w i = Some p \<Longrightarrow> f p (ts_io w) = Some (p', io') \<Longrightarrow>
      tp_link p' = tp_link p \<and> tp_buffer p' = tp_buffer p \<and> (tp_alarms_ok p \<longrightarrow> tp_alarms_ok p') \<and> tcp_posted io' = tcp_posted (ts_io w)"
  shows "tp_keeps j w'"
proof -
  have "tp_links {} w'" by (rule tp_links_update [OF run _ f, THEN conjunct1]) (use keeps in \<open>simp_all add: tp_keeps_def\<close>)
  moreover have "ts_endpoints w' j \<noteq> None" using run keeps by (elim on_proxy_SomeE) (simp add: tp_keeps_def)
  ultimately show ?thesis by (simp add: tp_keeps_def)
qed

lemma alarm_update_keeps: "alarm_update a t g = Some al \<Longrightarrow> alarm_inv a \<Longrightarrow> alarm_inv al"
  using alarm_update_inv [of a t g] by auto

lemma tp_close_keeps: "tp_close_fd P i w = Some w' \<Longrightarrow> tp_keeps i w \<Longrightarrow> tp_keeps i w'"
proof -
  assume run: "tp_close_fd P i w = Some w'" and keeps: "tp_keeps i w"
  obtain p where p: "ts_endpoints w i = Some p" using keeps by (auto simp: tp_keeps_def)
  have links: "tp_links (insert i {}) w" using keeps tp_links_mono by (auto simp: tp_keeps_def)
  show "tp_keeps i w'" by (rule tp_close_fd_links [OF links p, where P = P]) (use run in \<open>auto simp: tp_keeps_def\<close>)
qed

lemma tp_read_keeps: "posix P \<Longrightarrow> tp_on_read_event P j fd w = Some w' \<Longrightarrow> tp_keeps j w \<Longrightarrow> tp_keeps j w'"
proof -
  assume posix: "posix P" and run: "tp_on_read_event P j fd w = Some w'" and keeps: "tp_keeps j w"
  obtain target got w1 where w1: "tp_read_loop P j fd target 0 w = Some (got, w1)"
    "(if 0 < got then on_proxy j (\<lambda>p io. Some (p\<lparr>tp_read_budget := use_budget (tp_read_budget p) got\<rparr>, io)) w1 else Some w1) = Some w'"
    using run by (auto simp: tp_on_read_event_def Option.bind_eq_Some_conv split del: if_split)
  have "tp_keeps j w1" using tp_read_loop_links [OF posix w1(1), of "{}"] keeps by (simp add: tp_keeps_def)
  then show "tp_keeps j w'" using w1(2)
    by (cases "0 < got") (auto simp: tp_link_def tp_alarms_ok_def elim!: tp_keeps_update)
qed

lemma tp_write_keeps: "posix P \<Longrightarrow> tp_on_write_event P j w = Some w' \<Longrightarrow> tp_keeps j w \<Longrightarrow> tp_keeps j w'"
proof -
  assume posix: "posix P" and run: "tp_on_write_event P j w = Some w'" and keeps: "tp_keeps j w"
  define f where "f = (\<lambda>p io. Option.bind (tp_flush_buffer P p io) (\<lambda>(p', io').
    Some (p', endpoint_modify p' (te_fd p') (if tp_buffer p' \<noteq> [] then EPOLLET OR EPOLLOUT OR EPOLLRDHUP OR EPOLLERR else EPOLLET OR EPOLLRDHUP OR EPOLLERR) io')))"
  obtain w1 where w1: "on_proxy j f w = Some w1" "tp_check_close_fd P j w1 = Some w'"
    using run by (auto simp: tp_on_write_event_def Option.bind_eq_Some_conv f_def [symmetric])
  obtain p p1 io1 where p1: "ts_endpoints w j = Some p" "f p (ts_io w) = Some (p1, io1)"
    "w1 = w\<lparr>ts_endpoints := (ts_endpoints w)(j \<mapsto> p1), ts_io := io1\<rparr>" using w1(1) by (rule on_proxy_SomeE)
  have ok: "te_fd p < 0 \<Longrightarrow> tp_buffer p = []" using p1(2) by (auto simp: f_def tp_flush_buffer_def split: if_splits)
  have quiet: "tp_quiet P p (ts_io w) p1 io1"
    by (rule tp_flush_buffer_quiet [OF posix, of p "ts_io w"]) (use ok p1(2) in \<open>auto simp: f_def tp_quiet_def\<close>)
  have links: "tp_links (insert j {}) w1" unfolding p1(3)
    by (rule tp_links_quiet [OF _ p1(1) quiet, of "{}"]) (use keeps in \<open>auto simp: tp_keeps_def\<close>)
  have ex: "ts_endpoints w1 j = Some p1" by (simp add: p1(3))
  show "tp_keeps j w'"
  proof (rule tp_check_close_fd_links [OF links ex, where P = P])
    fix w2 assume "tp_check_close_fd P j w1 = Some w2" "tp_links {} w2"
    moreover have "ts_endpoints w2 j \<noteq> None" if "tp_check_close_fd P j w1 = Some w2" for w2
      by (rule tp_close_fd_links [OF links ex, where P = P]) (use that ex in \<open>auto simp: tp_check_close_fd_def split: if_splits\<close>)
    ultimately show ?thesis using w1(2) by (simp add: tp_keeps_def)
  qed
qed

lemma tp_check_close_keeps: "tp_check_close_fd P j w = Some w' \<Longrightarrow> tp_keeps j w \<Longrightarrow> tp_keeps j w'"
  by (auto simp: tp_check_close_fd_def Option.bind_eq_Some_conv intro: tp_close_keeps split: if_splits)

lemma tp_create_read_keeps: "tp_create_read_alarm P i w = Some w' \<Longrightarrow> tp_keeps j w \<Longrightarrow> tp_keeps j w'"
proof -
  assume run: "tp_create_read_alarm P i w = Some w'" and keeps: "tp_keeps j w"
  show "tp_keeps j w'"
  proof (cases "w' = w")
    case False
    then obtain target where "on_proxy i (\<lambda>p io. Option.bind (alarm_update alarm_new (clock_now P (tcp_kernel io)) 0) (\<lambda>al.
        Some (p\<lparr>tp_read_alarm := Some al, tp_read_budget :=
          increase_budget (tp_set_rate (tp_read_budget p) target) (delta_to_milliseconds tp_kReadBudgetInterval)\<rparr>, io))) w = Some w'"
      using run by (auto simp: tp_create_read_alarm_def Option.bind_eq_Some_conv split: if_splits)
    then show ?thesis by (rule tp_keeps_update [OF _ keeps])
        (auto simp: Option.bind_eq_Some_conv tp_link_def tp_alarms_ok_def dest: alarm_update_keeps [OF _ alarm_new_inv])
  qed (use keeps in simp)
qed

lemma tp_read_alarm_keeps: "posix P \<Longrightarrow> tp_on_read_budget_alarm P j w = Some w' \<Longrightarrow> tp_keeps j w \<Longrightarrow> tp_keeps j w'"
proof -
  assume posix: "posix P" and run: "tp_on_read_budget_alarm P j w = Some w'" and keeps: "tp_keeps j w"
  obtain p :: tp_proxy and target b t a1 w1 full w2 where w2:
    "on_proxy j (\<lambda>p io. Option.bind (Option.bind (tp_read_alarm p) (\<lambda>a. alarm_update a t 0)) (\<lambda>al.
       Some (p\<lparr>tp_read_budget := increase_budget (tp_set_rate (tp_read_budget p) target) b, tp_read_time := a1, tp_read_alarm := Some al\<rparr>, io))) w = Some w1"
    "(if 0 < te_fd p \<and> \<not> full \<and> tp_status p = TCP_CONNECTED then tp_on_read_event P j (te_fd p) w1 else Some w1) = Some w2"
    "tp_check_close_fd P j w2 = Some w'"
    using run unfolding tp_on_read_budget_alarm_def Let_def by (elim bind_SomeE) (rule that)
  have "tp_keeps j w1" using w2(1)
    by (rule tp_keeps_update [OF _ keeps]) (auto simp: Option.bind_eq_Some_conv tp_link_def tp_alarms_ok_def dest: alarm_update_keeps)
  then have "tp_keeps j w2" using w2(2) tp_read_keeps [OF posix] by (auto split: if_splits)
  then show "tp_keeps j w'" using tp_check_close_keeps w2(3) by blast
qed


lemma tp_notify_connected_keeps: "tp_notify P TPPROXY_CONNECTED i w = Some w' \<Longrightarrow> tp_keeps j w \<Longrightarrow> tp_keeps j w'"
  by (auto simp: tp_notify_def tp_left_notify_def tp_right_notify_def Option.bind_eq_Some_conv intro: tp_create_read_keeps split: tp_role.splits if_splits) (metis tp_role.exhaust)

lemma tp_connected_keeps: "tp_right_connected P j w = Some w' \<Longrightarrow> tp_keeps j w \<Longrightarrow> tp_keeps j w'"
proof -
  assume run: "tp_right_connected P j w = Some w'" and keeps: "tp_keeps j w"
  obtain w1 w2 and p :: tp_proxy where w2: "on_proxy j (\<lambda>p io. Some (p\<lparr>tp_status := TCP_CONNECTED\<rparr>,
       endpoint_modify p (te_fd p) (EPOLLOUT OR EPOLLRDHUP OR EPOLLERR OR EPOLLET) io)) w = Some w1"
    "tp_create_read_alarm P j w1 = Some w2" "(case tp_peer p of None \<Rightarrow> Some w2 | Some q \<Rightarrow> tp_notify P TPPROXY_CONNECTED q w2) = Some w'"
    using run unfolding tp_right_connected_def by (elim bind_SomeE) (rule that)
  have "tp_keeps j w1" using w2(1) by (rule tp_keeps_update [OF _ keeps]) (auto simp: tp_link_def tp_alarms_ok_def)
  then show "tp_keeps j w'" using w2(2,3) by (auto intro: tp_create_read_keeps tp_notify_connected_keeps split: option.splits)
qed

lemma tp_event_keeps:
  assumes posix: "posix P" and keeps: "tp_keeps j w"
  shows "tp_left_on_event P j fd events w = Some w' \<Longrightarrow> tp_keeps j w'" "tp_right_on_event P j fd events w = Some w' \<Longrightarrow> tp_keeps j w'"
proof -
  assume "tp_left_on_event P j fd events w = Some w'"
  then obtain w1 where "(if events AND EPOLLIN \<noteq> 0 then tp_on_read_event P j fd w else Some w) = Some w1"
    "(if events AND EPOLLOUT \<noteq> 0 then tp_on_write_event P j w1 else Some w1) = Some w'"
    unfolding tp_left_on_event_def by (elim bind_SomeE)
  then show "tp_keeps j w'" using keeps tp_read_keeps [OF posix] tp_write_keeps [OF posix] by (metis option.inject)
next
  assume "tp_right_on_event P j fd events w = Some w'"
  then obtain w1 w2 where run: "(if events AND (EPOLLERR OR EPOLLRDHUP OR EPOLLHUP) \<noteq> 0 then tp_close_fd P j w else Some w) = Some w1"
    "(if events AND EPOLLIN \<noteq> 0 then tp_on_read_event P j fd w1 else Some w1) = Some w2"
    "(if events AND EPOLLOUT \<noteq> 0 then Option.bind (ts_endpoints w2 j) (\<lambda>p.
       Option.bind (if tp_status p = TCP_CONNECTING then tp_right_connected P j w2 else Some w2) (tp_on_write_event P j)) else Some w2) = Some w'"
    unfolding tp_right_on_event_def by (elim bind_SomeE)
  have "tp_keeps j w1" using run(1) keeps tp_close_keeps by (metis option.inject)
  then have w2: "tp_keeps j w2" using run(2) tp_read_keeps [OF posix] by (metis option.inject)
  show "tp_keeps j w'"
  proof (cases "events AND EPOLLOUT = 0")
    case True
    then show ?thesis using run(3) w2 by simp
  next
    case False
    then obtain p :: tp_proxy and w3 where w3: "(if tp_status p = TCP_CONNECTING then tp_right_connected P j w2 else Some w2) = Some w3"
      "tp_on_write_event P j w3 = Some w'" using run(3) by (auto simp: Option.bind_eq_Some_conv split del: if_split)
    then have "tp_keeps j w3" using w2 tp_connected_keeps by (metis option.inject)
    then show ?thesis using tp_write_keeps [OF posix w3(2)] by simp
  qed
qed

text \<open>The two alarms that touch one object only.\<close>

lemma tp_goodput_keeps: "on_proxy i (tp_on_goodput_alarm P) w = Some w' \<Longrightarrow> tp_keeps j w \<Longrightarrow> tp_keeps j w'"
  by (erule tp_keeps_update, assumption)
    (auto simp: tp_on_goodput_alarm_def tp_retarget_def Let_def Option.bind_eq_Some_conv tp_link_def tp_alarms_ok_def dest: alarm_update_keeps)

lemma tp_write_alarm_keeps: "on_proxy i (tp_on_write_budget_alarm P) w = Some w' \<Longrightarrow> tp_keeps j w \<Longrightarrow> tp_keeps j w'"
  by (erule tp_keeps_update, assumption)
    (auto simp: tp_on_write_budget_alarm_def tp_retarget_def Let_def Option.bind_eq_Some_conv tp_link_def tp_alarms_ok_def dest: alarm_update_keeps
      split: if_splits)


section \<open>Events and tasks\<close>

lemma tp_fire_keeps:
  assumes run: "tp_fire alarm upd handler j w = Some w'" and links: "tp_links {} w"
    and upd: "\<And>p al al'. alarm p = Some al \<Longrightarrow> snd (alarm_on_epoll al) = al' \<Longrightarrow>
      tp_link (upd al' p) = tp_link p \<and> tp_buffer (upd al' p) = tp_buffer p \<and> (tp_alarms_ok p \<longrightarrow> tp_alarms_ok (upd al' p))"
    and handler: "\<And>w w'. handler w = Some w' \<Longrightarrow> tp_keeps j w \<Longrightarrow> tp_keeps j w'"
  shows "tp_links {} w'"
proof (cases "Option.bind (ts_endpoints w j) alarm")
  case None
  then show ?thesis using run links by (simp add: tp_fire_def)
next
  case (Some al)
  then obtain p where p: "ts_endpoints w j = Some p" "alarm p = Some al" by (auto simp: Option.bind_eq_Some_conv)
  obtain fires al' where al': "alarm_on_epoll al = (fires, al')" by fastforce
  define w1 where "w1 = w\<lparr>ts_endpoints := (ts_endpoints w)(j \<mapsto> upd al' p)\<rparr>"
  have step: "on_proxy j (\<lambda>p io. Some (upd al' p, io)) w = Some w1" using p by (simp add: on_proxy_def w1_def)
  then have w1: "(if fires then handler w1 else Some w1) = Some w'"
    using run Some al' by (simp add: tp_fire_def)
  have "tp_keeps j w1" using upd [OF p(2)] al' p(1) links
    by (intro tp_keeps_update [OF step]) (auto simp: tp_keeps_def)
  then have "tp_keeps j w'" using w1 handler by (cases fires) simp_all
  then show ?thesis by (simp add: tp_keeps_def)
qed

text \<open>The posted deletions delete exactly the objects that are destroyed.\<close>

lemma tp_tasks_eq:
  assumes links: "tp_links X w"
  shows "tcp_execute_tasks w = Some (w\<lparr>ts_endpoints := (\<lambda>j. if j \<in> set (tcp_posted (ts_io w)) then None else ts_endpoints w j),
    ts_io := (ts_io w)\<lparr>tcp_posted := []\<rparr>\<rparr>)"
proof -
  have "\<forall>j \<in> set (tcp_posted (ts_io w)). ts_endpoints w j \<noteq> None" "distinct (tcp_posted (ts_io w))"
    using links by (auto simp: tp_links_def)
  then show ?thesis by (simp add: tcp_execute_tasks_def delete_endpoints_eq)
qed

lemma tp_tasks_links: "tp_links X w \<Longrightarrow> tcp_execute_tasks w = Some w' \<Longrightarrow> tp_links X w'"
proof -
  assume links: "tp_links X w" and run: "tcp_execute_tasks w = Some w'"
  have es: "ts_endpoints w' j = (case ts_endpoints w j of Some p \<Rightarrow> if te_destroyed p then None else Some p | None \<Rightarrow> None)" for j
    using run links unfolding tp_tasks_eq [OF links] by (auto simp: tp_links_def split: option.splits)
  have "tp_obj_ok X (ts_endpoints w') j p" if p: "ts_endpoints w' j = Some p" for j p
  proof -
    have "ts_endpoints w j = Some p" "\<not> te_destroyed p" using p by (auto simp: es split: option.splits if_splits)
    then show ?thesis using tp_links_obj [OF links, of j p] by (auto simp: tp_obj_ok_def es split: option.splits)
  qed
  moreover have "tcp_posted (ts_io w') = []" "ts_next w' = ts_next w" using run unfolding tp_tasks_eq [OF links] by auto
  ultimately show "tp_links X w'" using links es by (auto simp: tp_links_def split: option.splits if_splits)
qed

end
