(* ===== verification/Tpproxy_Accept.thy ===== *)
theory Tpproxy_Accept
  imports Tpproxy_Safety
begin

text \<open>
  Accepting a connection never fails: whatever the system calls say, either two live objects are each other's peers
  or what had been created is destroyed.  With it, the states of the single-path proxy and their invariant.
\<close>

section \<open>New objects\<close>

lemma tp_new_some:
  obtains p where "tp_new P role fd io = Some p" "te_fd p = fd" "te_registered p = None" "\<not> te_destroyed p" "tp_peer p = None"
    "tp_signal p = TPPROXY_MIN" "tp_buffer p = []" "tp_role p = role" "tp_alarms_ok p"
proof -
  obtain al where al: "alarm_update alarm_new (clock_now P (tcp_kernel io) + tp_kGoodputInterval) 0 = Some al" "alarm_inv al"
    using alarm_update_some [OF alarm_new_inv] by blast
  obtain p where p: "tp_new P role fd io = Some p" using al(1) by (simp add: tp_new_def Let_def)
  show ?thesis by (rule that [OF p]) (use p al in \<open>auto simp: tp_new_def Let_def tp_alarms_ok_def\<close>)
qed

lemma tp_alarms_ok_peer [simp]: "tp_alarms_ok (p\<lparr>tp_peer := x\<rparr>) = tp_alarms_ok p"
  by (simp add: tp_alarms_ok_def)

lemma tp_links_fresh: "tp_links X w \<Longrightarrow> ts_next w \<le> j \<Longrightarrow> ts_endpoints w j = None"
  by (metis tp_links_def leD not_None_eq)

text \<open>Adding an object that is destroyed already, and two that are each other's peers.\<close>

lemma tp_links_add_dead:
  assumes links: "tp_links X w" and fresh: "ts_endpoints w j = None" and dead: "te_destroyed p" "te_registered p = None" "te_fd p < 0" "tp_peer p = None" "tp_alarms_ok p"
    and w': "ts_endpoints w' = (ts_endpoints w)(j \<mapsto> p)" "tcp_posted (ts_io w') = tcp_posted (ts_io w) @ [j]" "ts_next w \<le> ts_next w'" "j < ts_next w'"
  shows "tp_links X w'"
proof -
  have "tp_obj_ok X (ts_endpoints w') i s" if i: "ts_endpoints w' i = Some s" for i s
  proof (cases "i = j")
    case True
    then have "s = p" using i by (simp add: w')
    then show ?thesis using dead by (simp add: tp_obj_ok_def)
  next
    case False
    then have "ts_endpoints w i = Some s" using i by (simp add: w')
    then show ?thesis using tp_links_obj [OF links, of i s] fresh by (auto simp: tp_obj_ok_def w' split: option.splits if_splits)
  qed
  moreover have "j \<notin> set (tcp_posted (ts_io w))" using links fresh by (auto simp: tp_links_def)
  moreover have "i < ts_next w'" if "ts_endpoints w i = Some s" for i s using that links w'(3) by (meson tp_links_def less_le_trans)
  ultimately show ?thesis using links fresh dead(1) w' by (auto simp: tp_links_def)
qed

lemma tp_links_add_pair:
  assumes links: "tp_links X w" and fresh: "ts_endpoints w j = None" "ts_endpoints w q = None" "j \<noteq> q"
    and p: "\<not> te_destroyed p" "te_registered p = Some (te_fd p)" "0 < te_fd p" "tp_peer p = Some q" "tp_alarms_ok p" "tp_signal p = TPPROXY_MIN"
    and s: "\<not> te_destroyed s" "te_registered s = Some (te_fd s)" "0 < te_fd s" "tp_peer s = Some j" "tp_alarms_ok s" "tp_signal s = TPPROXY_MIN"
    and w': "ts_endpoints w' = (ts_endpoints w)(j \<mapsto> p, q \<mapsto> s)" "tcp_posted (ts_io w') = tcp_posted (ts_io w)" "ts_next w \<le> ts_next w'" "j < ts_next w'" "q < ts_next w'"
  shows "tp_links X w'"
proof -
  have "tp_obj_ok X (ts_endpoints w') i o'" if i: "ts_endpoints w' i = Some o'" for i o'
  proof -
    consider "i = j" "o' = p" | "i = q" "o' = s" | "i \<noteq> j" "i \<noteq> q" "ts_endpoints w i = Some o'"
      using i fresh(3) by (auto simp: w' split: if_splits)
    then show ?thesis
    proof cases
      case 3
      then show ?thesis using tp_links_obj [OF links 3(3)] fresh by (auto simp: tp_obj_ok_def w' split: option.splits)
    qed (use p s fresh(3) in \<open>auto simp: tp_obj_ok_def w'\<close>)
  qed
  moreover have "ts_endpoints w' i = Some o' \<and> te_destroyed o' \<longleftrightarrow> ts_endpoints w i = Some o' \<and> te_destroyed o'" for i o'
    using fresh p(1) s(1) by (auto simp: w' split: if_splits)
  moreover have "i < ts_next w'" if "ts_endpoints w' i = Some o'" for i o'
  proof -
    have "ts_endpoints w i = Some o' \<Longrightarrow> i < ts_next w'" using links w'(3) by (meson tp_links_def less_le_trans)
    then show ?thesis using that w'(4,5) by (auto simp: w'(1) split: if_splits)
  qed
  ultimately show ?thesis using links w'(2) by (simp add: tp_links_def)
qed

text \<open>Closing an object whose peer is destroyed but has not been told.\<close>

lemma tp_close_fd_dead_peer:
  assumes "ts_endpoints w j = Some p" "\<not> te_destroyed p" "0 < te_fd p" "tp_peer p = Some q" "te_registered p \<in> {None, Some (te_fd p)}" "q \<noteq> j"
    and "ts_endpoints w q = Some s" "te_destroyed s" "te_fd s < 0" "tp_buffer s = []"
  obtains w' where "tp_close_fd P j w = Some w'" "ts_endpoints w' = (ts_endpoints w)(q \<mapsto> tp_orphan s, j \<mapsto> tp_shut p)"
    "tcp_posted (ts_io w') = tcp_posted (ts_io w) @ [j]" "ts_next w' = ts_next w"
proof -
  note defs = tp_close_fd_def tp_close_own_def tp_delete_self_def on_proxy_def endpoint_delete_self_def
    tp_notify_def tp_left_notify_def tp_right_notify_def tp_notify_close_def tp_should_close_def tp_close_alone_def Let_def
  obtain w' where run: "tp_close_fd P j w = Some w'" using assms by (cases "tp_role s") (simp_all add: defs)
  show ?thesis by (rule that [OF run])
      (use run assms in \<open>(cases "tp_role s"; auto simp: defs tp_shut_def tp_orphan_def fun_eq_iff)+\<close>)
qed

section \<open>Connecting\<close>

text \<open>\<open>AsynConnect\<close> on a new object: it is registered and connecting, or it is destroyed.\<close>

lemma tp_asyn_connect_new:
  assumes s: "ts_endpoints w q = Some s" "te_registered s = None" "\<not> te_destroyed s" "tp_peer s = None" "0 < te_fd s"
  obtains ok w' s' where "tp_asyn_connect P q local remote w = Some (ok, w')" "ts_endpoints w' = (ts_endpoints w)(q \<mapsto> s')" "ts_next w' = ts_next w"
    "s' = (if ok then s\<lparr>te_registered := Some (te_fd s), tp_status := TCP_CONNECTING\<rparr> else tp_shut s)"
    "tcp_posted (ts_io w') = tcp_posted (ts_io w) @ (if ok then [] else [q])"
proof -
  note finish = that
  define fail where "fail = (\<lambda>w. map_option (Pair False) (tp_close_fd P q w))"
  have fails: thesis if "tp_asyn_connect P q local remote w = fail w1" "ts_endpoints w1 = (ts_endpoints w)(q \<mapsto> s1)" "ts_next w1 = ts_next w"
    "s1 = s \<or> s1 = s\<lparr>te_registered := Some (te_fd s)\<rparr>" "tcp_posted (ts_io w1) = tcp_posted (ts_io w)" for w1 s1
  proof -
    have 1: "ts_endpoints w1 q = Some s1" "\<not> te_destroyed s1" "0 < te_fd s1" "tp_peer s1 = None" "te_registered s1 \<in> {None, Some (te_fd s1)}"
      using that(2,4) s by auto
    have shut: "tp_shut s1 = tp_shut s" using that(4) by (auto simp: tp_shut_def)
    from 1 obtain w' where w': "tp_close_fd P q w1 = Some w'" "ts_endpoints w' = (ts_endpoints w1)(q \<mapsto> tp_shut s1)"
      "tcp_posted (ts_io w') = tcp_posted (ts_io w1) @ [q]" "tp_closed_frame P (te_fd s1) w1 w'" by (rule tp_close_fd_alone)
    have "tp_asyn_connect P q local remote w = Some (False, w')" using that(1) w'(1) by (simp add: fail_def)
    then show thesis
      by (rule finish) (use w' that(2,3,5) shut in \<open>simp_all add: tp_closed_frame_def\<close>)
  qed
  obtain reuse k1 where r: "sys_reuse_addr P (tcp_kernel (ts_io w)) (te_fd s) = (reuse, k1)" by fastforce
  obtain bound k2 where b: "sys_bind P k1 (te_fd s) local = (bound, k2)" by fastforce
  show thesis
  proof (cases "reuse \<and> bound")
    case False
    then have "tp_asyn_connect P q local remote w = fail (tp_set_kernel (if reuse then k2 else k1) w)"
      using r b s(1) by (auto simp: tp_asyn_connect_def fail_def)
    then show thesis by (rule fails [of _ s]) (use s(1) in \<open>simp_all add: fun_upd_idem\<close>)
  next
    case True
    define w3 where "w3 = (tp_set_kernel k2 w)\<lparr>ts_endpoints := (ts_endpoints w)(q \<mapsto> s\<lparr>te_registered := Some (te_fd s)\<rparr>),
      ts_io := tcp_event (Register_Fd (te_fd s) (EPOLLET OR EPOLLIN OR EPOLLOUT OR EPOLLRDHUP OR EPOLLERR)) (ts_io (tp_set_kernel k2 w))\<rparr>"
    have reg: "tp_register q (EPOLLET OR EPOLLIN OR EPOLLOUT OR EPOLLRDHUP OR EPOLLERR) (tp_set_kernel k2 w) = Some w3"
      using s(1) by (simp add: tp_register_def on_proxy_def w3_def)
    obtain res k4 where c: "sys_connect P (tcp_kernel (ts_io w3)) (te_fd s) remote = (res, k4)" by fastforce
    show thesis
    proof (cases "res = Connect_Again")
      case again: True
      have "tp_asyn_connect P q local remote w = fail (tp_set_kernel k4 w3)"
        using True again r b s(1) reg c by (simp add: tp_asyn_connect_def fail_def)
      then show thesis by (rule fails [of _ "s\<lparr>te_registered := Some (te_fd s)\<rparr>"]) (simp_all add: w3_def)
    next
      case False
      obtain w' where w': "on_proxy q (\<lambda>p io. Some (p\<lparr>tp_status := TCP_CONNECTING\<rparr>, io)) (tp_set_kernel k4 w3) = Some w'"
        "ts_endpoints w' = (ts_endpoints w)(q \<mapsto> s\<lparr>te_registered := Some (te_fd s), tp_status := TCP_CONNECTING\<rparr>)"
        "ts_next w' = ts_next w" "tcp_posted (ts_io w') = tcp_posted (ts_io w)"
        by (simp add: on_proxy_def w3_def)
      have "tp_asyn_connect P q local remote w = Some (True, w')"
        using True False r b s(1) reg c w'(1) by (simp add: tp_asyn_connect_def)
      then show thesis by (rule that) (use w' in simp_all)
    qed
  qed
qed


section \<open>Creating\<close>

lemma tp_create_left_links:
  assumes links: "tp_links {} w" and fd: "0 < fd" and socket: "\<forall>k. fst (sys_socket P k) \<noteq> 0"
  obtains w' where "tp_create_left P fd w = Some w'" "tp_links {} w'"
proof -
  note finish = that
  define j where "j = ts_next w"
  have fresh: "ts_endpoints w j = None" "ts_endpoints w (j + 1) = None" using tp_links_fresh [OF links] by (simp_all add: j_def)
  obtain p where p: "tp_new P Tp_Left fd (ts_io w) = Some p" "te_fd p = fd" "te_registered p = None" "\<not> te_destroyed p" "tp_peer p = None"
    "tp_signal p = TPPROXY_MIN" "tp_buffer p = []" "tp_role p = Tp_Left" "tp_alarms_ok p" by (rule tp_new_some)
  define p1 where "p1 = p\<lparr>te_registered := Some fd\<rparr>"
  obtain w1 where w1: "tp_register j (EPOLLET OR EPOLLOUT OR EPOLLRDHUP OR EPOLLERR) (tp_add j p w) = Some w1"
    "ts_endpoints w1 = (ts_endpoints w)(j \<mapsto> p1)" "ts_next w1 = j + 1" "tcp_posted (ts_io w1) = tcp_posted (ts_io w)"
    using p(2) by (simp add: tp_register_def tp_add_def on_proxy_def p1_def)
  have p1: "\<not> te_destroyed p1" "0 < te_fd p1" "tp_peer p1 = None" "te_registered p1 \<in> {None, Some (te_fd p1)}" "tp_alarms_ok p1" "te_fd p1 = fd"
      "tp_signal p1 = TPPROXY_MIN" "te_registered p1 = Some fd"
    using p fd by (simp_all add: p1_def tp_alarms_ok_def)
  have alone: thesis if "tp_create_left P fd w = tp_close_fd P j w2" "ts_endpoints w2 = ts_endpoints w1" "ts_next w2 = ts_next w1"
    "tcp_posted (ts_io w2) = tcp_posted (ts_io w1)" for w2
  proof -
    have at: "ts_endpoints w2 j = Some p1" using that(2) w1(2) by simp
    obtain w' where w': "tp_close_fd P j w2 = Some w'" "ts_endpoints w' = (ts_endpoints w2)(j \<mapsto> tp_shut p1)"
      "tcp_posted (ts_io w') = tcp_posted (ts_io w2) @ [j]" "tp_closed_frame P (te_fd p1) w2 w'" by (rule tp_close_fd_alone [OF at p1(1-4)])
    have "tp_links {} w'"
      by (rule tp_links_add_dead [OF links fresh(1), of "tp_shut p1"]) (use w' w1 that p1 in \<open>simp_all add: j_def tp_closed_frame_def\<close>)
    then show thesis using finish that(1) w'(1) by simp
  qed
  show thesis
  proof (cases "sys_original_dst P (tcp_kernel (ts_io w1)) fd")
    case None
    show thesis by (rule alone [of w1]) (use p(1) w1(1) None in \<open>simp_all add: tp_create_left_def j_def\<close>)
  next
    case (Some remote)
    obtain rfd k where r: "sys_socket P (tcp_kernel (ts_io w1)) = (rfd, k)" by fastforce
    show thesis
    proof (cases "rfd < 0")
      case True
      show thesis by (rule alone [of "tp_set_kernel k w1"]) (use p(1) w1(1) Some r True in \<open>simp_all add: tp_create_left_def j_def\<close>)
    next
      case False
      have rfd: "0 < rfd" using False socket r by (metis fst_conv linorder_neqE_linordered_idom)
      define w2 where "w2 = tp_set_kernel k w1"
      obtain s where s: "tp_new P Tp_Right rfd (ts_io w2) = Some s" "te_fd s = rfd" "te_registered s = None" "\<not> te_destroyed s" "tp_peer s = None"
        "tp_signal s = TPPROXY_MIN" "tp_buffer s = []" "tp_role s = Tp_Right" "tp_alarms_ok s" by (rule tp_new_some)
      obtain w3 where w3: "on_proxy j (\<lambda>p io. Some (p\<lparr>tp_peer := Some (j + 1)\<rparr>, io)) (tp_add (j + 1) s w2) = Some w3"
        "ts_endpoints w3 = (ts_endpoints w)(j \<mapsto> p1\<lparr>tp_peer := Some (j + 1)\<rparr>, j + 1 \<mapsto> s)" "ts_next w3 = j + 2" "tcp_posted (ts_io w3) = tcp_posted (ts_io w)"
        using w1(2,4) by (simp add: on_proxy_def tp_add_def w2_def fun_upd_twist)
      have at: "ts_endpoints w3 (j + 1) = Some s" "0 < te_fd s" using w3(2) s(2) rfd by simp_all
      obtain ok w4 s' where w4: "tp_asyn_connect P (j + 1) (0, 0) remote w3 = Some (ok, w4)" "ts_endpoints w4 = (ts_endpoints w3)(j + 1 \<mapsto> s')" "ts_next w4 = ts_next w3"
        "s' = (if ok then s\<lparr>te_registered := Some (te_fd s), tp_status := TCP_CONNECTING\<rparr> else tp_shut s)"
        "tcp_posted (ts_io w4) = tcp_posted (ts_io w3) @ (if ok then [] else [j + 1])"
        by (rule tp_asyn_connect_new [OF at(1) s(3-5) at(2), where P = P and local = "(0, 0)" and remote = remote])
      have run: "tp_create_left P fd w = (if \<not> ok then tp_close_fd P j w4 else
          Option.bind (on_proxy (j + 1) (\<lambda>p io. Some (p\<lparr>tp_peer := Some j\<rparr>, io)) w4) (on_proxy j (\<lambda>p io. Some (p\<lparr>tp_status := TCP_CONNECTED\<rparr>, io))))"
        using p(1) w1(1) Some r False s(1) w3(1) w4(1) by (simp add: tp_create_left_def j_def [symmetric] w2_def)
      have es4: "ts_endpoints w4 = (ts_endpoints w)(j \<mapsto> p1\<lparr>tp_peer := Some (j + 1)\<rparr>, j + 1 \<mapsto> s')" using w4(2) w3(2) by simp
      show thesis
      proof (cases ok)
        case True
        obtain w' where w': "tp_create_left P fd w = Some w'" "tcp_posted (ts_io w') = tcp_posted (ts_io w)" "ts_next w' = j + 2"
          "ts_endpoints w' = (ts_endpoints w)(j \<mapsto> p1\<lparr>tp_peer := Some (j + 1), tp_status := TCP_CONNECTED\<rparr>, j + 1 \<mapsto> s'\<lparr>tp_peer := Some j\<rparr>)"
          using run True w4(3-5) w3(3,4) by (simp add: on_proxy_def es4 fun_upd_twist)
        have "tp_links {} w'"
          by (rule tp_links_add_pair [OF links fresh _ _ _ _ _ _ _ _ _ _ _ _ _ w'(4)])
            (use p1 s True w4(4,5) rfd fd w'(2,3) in \<open>simp_all add: tp_alarms_ok_def j_def\<close>)
        then show thesis using finish w'(1) by blast
      next
        case no: False
        have pj: "ts_endpoints w4 j = Some (p1\<lparr>tp_peer := Some (j + 1)\<rparr>)" "ts_endpoints w4 (j + 1) = Some s'" by (simp_all add: es4)
        obtain w' where w': "tp_close_fd P j w4 = Some w'" "ts_endpoints w' = (ts_endpoints w4)(j + 1 \<mapsto> tp_orphan s', j \<mapsto> tp_shut (p1\<lparr>tp_peer := Some (j + 1)\<rparr>))"
          "tcp_posted (ts_io w') = tcp_posted (ts_io w4) @ [j]" "ts_next w' = ts_next w4"
          by (rule tp_close_fd_dead_peer [OF pj(1) _ _ _ _ _ pj(2)]) (use p1 w4(4,5) no s in simp_all)
        define w5 where "w5 = w\<lparr>ts_endpoints := (ts_endpoints w)(j + 1 \<mapsto> tp_orphan s'), ts_next := j + 2,
          ts_io := (ts_io w)\<lparr>tcp_posted := tcp_posted (ts_io w) @ [j + 1]\<rparr>\<rparr>"
        have "tp_links {} w5"
          by (rule tp_links_add_dead [OF links fresh(2), of "tp_orphan s'"]) (use w4(4,5) no s in \<open>simp_all add: w5_def j_def\<close>)
        moreover have "ts_endpoints w5 j = None" using fresh(1) by (simp add: w5_def)
        ultimately have "tp_links {} w'"
          by (rule tp_links_add_dead [of _ w5 j "tp_shut (p1\<lparr>tp_peer := Some (j + 1)\<rparr>)"])
            (use w' w4(3-5) w3(3,4) no p1 in \<open>simp_all add: w5_def es4 fun_upd_twist\<close>)
        then show thesis using finish w'(1) run no by simp
      qed
    qed
  qed
qed


section \<open>The states of the server\<close>

text \<open>Descriptor zero, which the code takes for no descriptor, is in use elsewhere.\<close>

definition never_zero :: "'k platform \<Rightarrow> 'k listening \<Rightarrow> bool" where
  "never_zero P Q \<longleftrightarrow> (\<forall>k. fst (sys_socket P k) \<noteq> 0) \<and> (\<forall>k fd. fst (sys_accept Q k fd) \<noteq> 0)"

lemma tp_accept_loop_links:
  assumes run: "tp_accept_loop P Q fd w = Some w'" and links: "tp_links {} w" and zero: "never_zero P Q"
  shows "tp_links {} w'"
proof -
  have "P = P \<and> Q = Q \<longrightarrow> tp_links {} w \<longrightarrow> tp_links {} w'"
  proof (rule tp_accept_loop.raw_induct [where Pa = "\<lambda>(((P', Q'), fd), w) w'. P' = P \<and> Q' = Q \<longrightarrow> tp_links {} w \<longrightarrow> tp_links {} w'",
      OF _ run, unfolded prod.case], intro impI, elim conjE)
    fix loop P' Q' fd w w'
    assume IH: "\<And>P' Q' fd w w'. loop P' Q' fd w = Some w' \<Longrightarrow> P' = P \<and> Q' = Q \<longrightarrow> tp_links {} w \<longrightarrow> tp_links {} w'"
      and body: "(let (s, k) = sys_accept Q' (tcp_kernel (ts_io w)) fd; w' = tp_set_kernel k w
        in if 0 \<le> s then Option.bind (tp_create_left P' s w') (loop P' Q' fd) else Some w') = Some w'"
      and eq: "P' = P" "Q' = Q" and links: "tp_links {} w"
    obtain s k where acc: "sys_accept Q (tcp_kernel (ts_io w)) fd = (s, k)" by fastforce
    have socket: "\<forall>k. fst (sys_socket P k) \<noteq> 0" using zero unfolding never_zero_def by blast
    show "tp_links {} w'"
    proof (cases "0 \<le> s")
      case True
      then have s: "0 < s" using zero acc unfolding never_zero_def by (metis fst_conv order_le_less)
      have "tp_links {} (tp_set_kernel k w)" using links by simp
      then obtain w1 where "tp_create_left P s (tp_set_kernel k w) = Some w1" "tp_links {} w1"
        by (rule tp_create_left_links [OF _ s socket])
      then show ?thesis using body IH [of P Q fd w1 w'] acc eq True by simp
    next
      case False
      then show ?thesis using body acc eq links by auto
    qed
  qed
  then show ?thesis using links by simp
qed

lemma tp_handle_links:
  assumes posix: "posix P" and zero: "never_zero P Q" and links: "tp_links {} w" and run: "tp_handle P Q a w = Some w'"
  shows "tp_links {} w'"
proof (cases a)
  case (Tp_Listener m)
  then show ?thesis using run links tp_accept_loop_links [OF _ links zero] by (auto split: option.splits if_splits)
next
  case (Tp_Event j m)
  show ?thesis
  proof (cases "ts_endpoints w j")
    case None
    then show ?thesis using run links Tp_Event by simp
  next
    case (Some p)
    then have keeps: "tp_keeps j w" using links by (simp add: tp_keeps_def)
    have "w' = w \<or> (\<exists>fd. tp_left_on_event P j fd m w = Some w' \<or> tp_right_on_event P j fd m w = Some w')"
      using run Tp_Event Some by (cases "te_registered p"; cases "tp_role p") auto
    then have "tp_keeps j w'" using keeps tp_event_keeps [OF posix keeps] by blast
    then show ?thesis by (simp add: tp_keeps_def)
  qed
next
  case (Tp_Goodput_Alarm j)
  show ?thesis using run unfolding Tp_Goodput_Alarm tp_handle.simps
    by (rule tp_fire_keeps [OF _ links _ tp_goodput_keeps]) (auto simp: tp_link_def tp_alarms_ok_def alarm_on_epoll_inv)
next
  case (Tp_Read_Alarm j)
  show ?thesis using run unfolding Tp_Read_Alarm tp_handle.simps
    by (rule tp_fire_keeps [OF _ links _ tp_read_alarm_keeps [OF posix]]) (auto simp: tp_link_def tp_alarms_ok_def alarm_on_epoll_inv)
next
  case (Tp_Write_Alarm j)
  show ?thesis using run unfolding Tp_Write_Alarm tp_handle.simps
    by (rule tp_fire_keeps [OF _ links _ tp_write_alarm_keeps]) (auto simp: tp_link_def tp_alarms_ok_def alarm_on_epoll_inv)
next
  case Run_Tp_Tasks
  then show ?thesis using run links by (auto intro: tp_tasks_links)
qed

inductive tp_reachable :: "'k platform \<Rightarrow> 'k listening \<Rightarrow> 'k tp_world \<Rightarrow> bool" for P Q where
  tp_start: "tcp_server_init P Q addr (tcp_server_new P k) = (True, w) \<Longrightarrow> tp_reachable P Q w"
| tp_step: "tp_reachable P Q w \<Longrightarrow> tp_handle P Q a w = Some w' \<Longrightarrow> tp_reachable P Q w'"
| tp_kernel_moves: "tp_reachable P Q w \<Longrightarrow> tp_reachable P Q (tp_set_kernel k w)"

lemma tp_start_links: "tcp_server_init P Q addr (tcp_server_new P k) = (b, w) \<Longrightarrow> tp_links {} w"
  by (auto simp: tcp_server_init_def tcp_server_new_def ps_create_def ps_set_option_def ps_bind_def ps_listen_def
      tp_links_def Let_def split: prod.splits if_splits)

lemma tp_reachable_links: "tp_reachable P Q w \<Longrightarrow> posix P \<Longrightarrow> never_zero P Q \<Longrightarrow> tp_links {} w"
  by (induction rule: tp_reachable.induct) (auto intro: tp_start_links tp_handle_links)

end
