(* ===== verification/Tpproxy_Relay.thy ===== *)
theory Tpproxy_Relay
  imports Tpproxy_Accept
begin

text \<open>
  What the single-path proxy does with the bytes: what one object reads is what its peer sends or
  keeps, reading ends, and a write event gets bytes out exactly when the budget and the kernel let it.
\<close>

section \<open>The reading loop\<close>

lemma tp_read_loop_relays:
  assumes posix: "posix P" and streams: "streams P inc" and closed: "closed_for_good P"
  shows "tp_links {} w \<Longrightarrow> ts_endpoints w j = Some p \<Longrightarrow> \<not> te_destroyed p \<Longrightarrow> te_fd p = fd \<Longrightarrow> tp_peer p = Some q \<Longrightarrow>
    ts_endpoints w q = Some s \<Longrightarrow>
    \<exists>d w' s'. tp_read_loop P j fd target got w = Some (got + int (length d), w') \<and>
      inc (tcp_kernel (ts_io w)) = (inc (tcp_kernel (ts_io w')))(fd := d @ inc (tcp_kernel (ts_io w')) fd) \<and>
      ts_endpoints w' q = Some s' \<and> tp_conserves d s (ts_io w) s' (ts_io w') \<and>
      length (tp_buffer s') \<le> length (tp_buffer s) + length d \<and>
      int (length d) \<le> max 0 (target - got - 1) + int kBufferSize \<and> ts_endpoints w' j \<noteq> None"
proof (induction "length (inc (tcp_kernel (ts_io w)) fd)" arbitrary: w p s got rule: less_induct)
  case less
  note links = less.prems(1) and p = less.prems(2-5) and s = less.prems(6)
  have qj: "q \<noteq> j" "\<not> te_destroyed s" "tp_peer s = Some j" using tp_links_live(5) [OF links p(1,2) p(4)] s by auto
  obtain r k where read: "sys_read P (tcp_kernel (ts_io w)) fd kBufferSize = (r, k)" by fastforce
  define w1 where "w1 = w\<lparr>ts_io := (ts_io w)\<lparr>tcp_kernel := k\<rparr>\<rparr>"
  have w1: "tp_links {} w1" "ts_endpoints w1 = ts_endpoints w" "tcp_kernel (ts_io w1) = k" "tcp_sent i (ts_io w1) = tcp_sent i (ts_io w)" for i
    using links by (simp_all add: w1_def tp_links_def)
  have inc: "inc (tcp_kernel (ts_io w)) = (inc k)(fd := (case r of None \<Rightarrow> [] | Some d \<Rightarrow> d) @ inc k fd)"
    by (rule streams_read [OF streams read])
  consider "r = None" | "r = Some []" | d where "r = Some d" "d \<noteq> []" by (cases r) auto
  then show ?case
  proof cases
    case 1
    have "tp_read_loop P j fd target got w = Some (got, w1)" using read 1 by (subst tp_read_loop.simps) (simp add: w1_def)
    then show ?thesis using inc 1 w1 s p(1)
      by (intro exI [of _ "[]"] exI [of _ w1] exI [of _ s]) (simp add: tp_conserves_def)
  next
    case 2
    have links1: "tp_links (insert j {}) w1" using tp_links_mono [OF w1(1)] by simp
    have at: "ts_endpoints w1 j = Some p" using p(1) w1(2) by simp
    obtain w2 p2 where w2: "tp_close_fd P j w1 = Some w2" "ts_endpoints w2 j = Some p2"
      "tp_closed_frame P (te_fd p) w1 w2" "\<exists>s'. ts_endpoints w2 q = Some s' \<and> tp_buffer s' = tp_buffer s"
      by (rule tp_close_fd_links [OF links1 at, where P = P]) (use p(2) qj(1) s w1(2) in auto)
    obtain s2 where s2: "ts_endpoints w2 q = Some s2" "tp_buffer s2 = tp_buffer s" using w2(4) by blast
    have "fst (sys_read P (tcp_kernel (ts_io w2)) fd kBufferSize) = None" using w2(3) closed p(3) by (simp add: tp_closed_frame_def)
    then obtain k2 where read2: "sys_read P (tcp_kernel (ts_io w2)) fd kBufferSize = (None, k2)" by (metis prod.collapse)
    let ?w = "w2\<lparr>ts_io := (ts_io w2)\<lparr>tcp_kernel := k2\<rparr>\<rparr>"
    have "tp_read_loop P j fd target got w2 = Some (got, ?w)" using read2 by (subst tp_read_loop.simps) simp
    then have run: "tp_read_loop P j fd target got w = Some (got, ?w)" using read 2 w2(1) by (subst tp_read_loop.simps) (simp add: w1_def)
    have "inc (tcp_kernel (ts_io w2)) = inc k" using w2(3) streams w1(3) by (simp add: tp_closed_frame_def)
    then have "inc k2 = inc k" using streams_read [OF streams read2] by simp
    then show ?thesis using run inc 2 s2 w2(2,3) w1
      by (intro exI [of _ "[]"] exI [of _ ?w] exI [of _ s2]) (simp add: tp_conserves_def tp_closed_frame_def)
  next
    case 3
    let ?d = d
    define p1 where "p1 = p\<lparr>tp_recv_bytes := tp_recv_bytes p + int (length ?d)\<rparr>"
    define w2 where "w2 = w1\<lparr>ts_endpoints := (ts_endpoints w1)(j \<mapsto> p1)\<rparr>"
    have count: "on_proxy j (\<lambda>p io. Some (p\<lparr>tp_recv_bytes := tp_recv_bytes p + int (length ?d)\<rparr>, io)) w1 = Some w2"
      using p(1) w1(2) by (simp add: on_proxy_def w2_def p1_def)
    have links2: "tp_links {} w2"
      by (rule tp_links_update [OF count w1(1), THEN conjunct1]) (auto simp: tp_link_def tp_alarms_ok_def)
    have s2: "ts_endpoints w2 q = Some s" using s qj(1) w1(2) by (simp add: w2_def)
    obtain s3 io3 where s3: "on_proxy q (tp_send_data P ?d) w2 = Some (w2\<lparr>ts_endpoints := (ts_endpoints w2)(q \<mapsto> s3), ts_io := io3\<rparr>)"
      "tp_links {} (w2\<lparr>ts_endpoints := (ts_endpoints w2)(q \<mapsto> s3), ts_io := io3\<rparr>)"
      "tp_quiet P s (ts_io w2) s3 io3" "tp_conserves ?d s (ts_io w2) s3 io3" "length (tp_buffer s3) \<le> length (tp_buffer s) + length ?d"
      by (rule tp_send_to_peer [OF posix links2 s2 qj(2), of ?d]) (use qj(3) in auto)
    define w3 where "w3 = w2\<lparr>ts_endpoints := (ts_endpoints w2)(q \<mapsto> s3), ts_io := io3\<rparr>"
    have w3: "tp_links {} w3" "ts_endpoints w3 j = Some p1" "ts_endpoints w3 q = Some s3" "ts_io w3 = io3"
      using s3(2) qj(1) by (simp_all add: w3_def w2_def)
    have p1: "\<not> te_destroyed p1" "te_fd p1 = fd" "tp_peer p1 = Some q" using p by (simp_all add: p1_def)
    have conserves: "tp_conserves ?d s (ts_io w) s3 io3" using s3(4) w1(4) by (simp add: tp_conserves_def w2_def)
    have inc3: "inc (tcp_kernel io3) = inc k" using s3(3) streams w1(3) by (simp add: tp_quiet_def w2_def)
    have piece: "length ?d \<le> kBufferSize" using posix read 3 unfolding posix_def by (metis fst_conv)
    have step: "tp_read_loop P j fd target got w =
        (if target \<le> got + int (length ?d) then Some (got + int (length ?d), w3) else tp_read_loop P j fd target (got + int (length ?d)) w3)"
      using read 3 count p1(3) s3(1) by (subst tp_read_loop.simps) (simp add: w1_def [symmetric] Let_def w3_def w2_def)
    show ?thesis
    proof (cases "target \<le> got + int (length ?d)")
      case True
      then show ?thesis using step inc inc3 3 w3 conserves s3(5) piece
        by (intro exI [of _ ?d] exI [of _ w3] exI [of _ s3]) simp
    next
      case False
      have "length (inc (tcp_kernel (ts_io w3)) fd) < length (inc (tcp_kernel (ts_io w)) fd)"
        using inc inc3 3 w3(4) by simp
      from less.hyps [OF this w3(1,2) p1 w3(3), of "got + int (length ?d)"] obtain d' w' s' where rec:
        "tp_read_loop P j fd target (got + int (length ?d)) w3 = Some (got + int (length ?d) + int (length d'), w')"
        "inc (tcp_kernel (ts_io w3)) = (inc (tcp_kernel (ts_io w')))(fd := d' @ inc (tcp_kernel (ts_io w')) fd)"
        "ts_endpoints w' q = Some s'" "tp_conserves d' s3 (ts_io w3) s' (ts_io w')"
        "length (tp_buffer s') \<le> length (tp_buffer s3) + length d'"
        "int (length d') \<le> max 0 (target - (got + int (length ?d)) - 1) + int kBufferSize" "ts_endpoints w' j \<noteq> None" by blast
      have "tp_conserves (?d @ d') s (ts_io w) s' (ts_io w')"
        using tp_conserves_trans [OF conserves tp_quiet_fd [OF s3(3)]] rec(4) w3(4) by simp
      then show ?thesis using step False rec(1-3,5-) inc inc3 3 w3(4) s3(5)
        by (intro exI [of _ "?d @ d'"] exI [of _ w'] exI [of _ s']) (simp add: fun_eq_iff)
    qed
  qed
qed

section \<open>Writing from the buffer\<close>

text \<open>
  Whether a write event of \<open>p\<close> gets a byte out: the write budget allows it and the kernel accepts something of
  the first piece.
\<close>

definition may_progress :: "'k platform \<Rightarrow> tp_proxy \<Rightarrow> 'k \<Rightarrow> bool" where
  "may_progress P p k \<longleftrightarrow> tp_can_send p \<and> 0 < fst (sys_send P k (te_fd p) (take kBufferSize (tp_buffer p)))"

lemma tp_flush_loop_progress:
  assumes posix: "posix P" and data: "data \<noteq> []"
    and run: "tp_flush_loop P p data False io = Some (p', rest, flushed, io')"
  shows "flushed \<longleftrightarrow> tp_can_send p \<and> 0 < fst (sys_send P (tcp_kernel io) (te_fd p) (take kBufferSize data))"
proof -
  obtain sent k where send: "sys_send P (tcp_kernel io) (te_fd p) (take kBufferSize data) = (sent, k)" by fastforce
  have le: "sent \<le> int (length (take kBufferSize data))" by (rule posix_send [OF posix send])
  show ?thesis
  proof (cases "tp_can_send p \<and> 0 < sent")
    case True
    define p1 where "p1 = tp_on_packet_sent sent (p\<lparr>tp_send_bytes := tp_send_bytes p + sent\<rparr>)"
    define io1 where "io1 = tcp_event (Send (te_fd p) (take (nat sent) (take kBufferSize data))) (io\<lparr>tcp_kernel := k\<rparr>)"
    have "tp_flush_loop P p data False io = tp_flush_loop P p1 (drop (nat sent) data) True io1"
      using True data send le by (subst tp_flush_loop.simps) (simp add: p1_def io1_def Let_def)
    then show ?thesis using run True send tp_flush_loop_sends [OF posix, of p1 "drop (nat sent) data" True io1] by auto
  next
    case False
    then have "\<exists>k. tp_flush_loop P p data False io = Some (p, data, False, k)"
      using data send by (subst tp_flush_loop.simps) (auto simp: Let_def)
    then show ?thesis using run False send by auto
  qed
qed

lemma tp_flush_buffer_sends:
  assumes posix: "posix P" and fd: "0 \<le> te_fd p" and buffer: "tp_buffer p \<noteq> []"
  obtains p' io' sent where "tp_flush_buffer P p io = Some (p', io')" "tp_buffer p = sent @ tp_buffer p'"
    "tcp_sent (te_fd p) io' = tcp_sent (te_fd p) io @ sent" "sent \<noteq> [] \<longleftrightarrow> may_progress P p (tcp_kernel io)" "tp_quiet P p io p' io'"
proof -
  obtain p' io' where run: "tp_flush_buffer P p io = Some (p', io')" "tp_quiet P p io p' io'"
    by (rule tp_flush_buffer_quiet [OF posix, of p io]) (use fd in auto)
  obtain d rest n b io1 where loop: "tp_flush_loop P p (tp_buffer p) False io =
      Some (p\<lparr>tp_send_bytes := n, tp_write_budget := b\<rparr>, rest, d \<noteq> [], io1)"
    "tp_buffer p = d @ rest" "tcp_sent (te_fd p) io1 = tcp_sent (te_fd p) io @ d"
    using tp_flush_loop_sends [OF posix, of p "tp_buffer p" False io] by auto
  have "io' = io1" "tp_buffer p' = rest" using run(1) loop(1,2) fd by (auto simp: tp_flush_buffer_def split: if_splits)
  moreover have "d \<noteq> [] \<longleftrightarrow> may_progress P p (tcp_kernel io)"
    using tp_flush_loop_progress [OF posix buffer loop(1)] by (simp add: may_progress_def)
  ultimately show ?thesis using that [OF run(1) _ _ _ run(2), of d] loop(2,3) by simp
qed

end
