(* ===== verification/Tpproxy_Properties.thy ===== *)
theory Tpproxy_Properties
  imports Tpproxy_Relay
begin

text \<open>The properties of the single-path proxy, and the concrete states on which they are instantiated.\<close>

section \<open>A sample\<close>

text \<open>
  A concrete kernel for the single-path proxy: the connections that wait to be accepted, the bytes that wait on
  descriptor 7, and whether something has been closed.  Writing accepts everything; a new socket is descriptor 5
  while connections wait (the listening one) and 9 after that.
\<close>

type_synonym tp_kernel = "int list \<times> byte list \<times> bool"

definition tp_platform :: "tp_kernel platform" where
  "tp_platform = \<lparr>
     sys_send = \<lambda>k fd d. (int (length d), k),
     sys_read = \<lambda>(ws, b, closed) fd n.
       if fd = 7 \<and> \<not> closed \<and> b \<noteq> [] then (Some (take n b), (ws, drop n b, closed)) else (None, (ws, b, closed)),
     sys_close = \<lambda>(ws, b, closed) fd. (ws, b, True),
     sys_socket = \<lambda>k. (if fst k = [] then 9 else 5, k),
     sys_reuse_addr = \<lambda>k fd. (True, k),
     sys_bind = \<lambda>k fd a. (True, k),
     sys_connect = \<lambda>k fd a. (Connect_Started, k),
     sys_original_dst = \<lambda>k fd. Some (1, 80),
     clock_now = \<lambda>k. 1000,
     tcp_bytes_acked = \<lambda>k fd. None,
     gain_scale = \<lambda>b. b,
     ratio_share = \<lambda>n a t. n\<rparr>"

definition tp_listening :: "tp_kernel listening" where
  "tp_listening = \<lparr>
     sys_accept = \<lambda>(ws, r) fd. (case ws of [] \<Rightarrow> (- 1, (ws, r)) | s # ss \<Rightarrow> (if s = 0 then - 1 else s, (ss, r))),
     sys_listen = \<lambda>k fd n. (True, k),
     sys_set_option = \<lambda>k fd opt. (True, k)\<rparr>"

definition tp_inc :: "tp_kernel \<Rightarrow> int \<Rightarrow> byte list" where
  "tp_inc k = (\<lambda>_. [])(7 := fst (snd k))"

lemma tp_platform_fields [simp]:
  "sys_send tp_platform k fd d = (int (length d), k)"
  "sys_read tp_platform k fd n = (if fd = 7 \<and> \<not> snd (snd k) \<and> fst (snd k) \<noteq> []
     then (Some (take n (fst (snd k))), (fst k, drop n (fst (snd k)), snd (snd k))) else (None, k))"
  "sys_close tp_platform k fd = (fst k, fst (snd k), True)" "sys_socket tp_platform k = (if fst k = [] then 9 else 5, k)" "sys_bind tp_platform k fd a = (True, k)"
  "sys_reuse_addr tp_platform k fd = (True, k)" "sys_connect tp_platform k fd a = (Connect_Started, k)"
  "sys_original_dst tp_platform k fd = Some (1, 80)" "clock_now tp_platform k = 1000" "tcp_bytes_acked tp_platform k fd = None"
  by (simp_all add: tp_platform_def split: prod.splits)

lemma tp_listening_fields [simp]:
  "sys_accept tp_listening k fd = (case fst k of [] \<Rightarrow> (- 1, k) | s # ss \<Rightarrow> (if s = 0 then - 1 else s, (ss, snd k)))"
  "sys_listen tp_listening k fd n = (True, k)" "sys_set_option tp_listening k fd opt = (True, k)"
  by (simp_all add: tp_listening_def split: prod.splits list.splits)

lemma tp_platform_laws:
  "posix tp_platform" "streams tp_platform tp_inc" "closed_for_good tp_platform" "never_zero tp_platform tp_listening"
  by (auto simp: posix_def streams_def closed_for_good_def never_zero_def tp_inc_def fun_eq_iff split: list.splits)

text \<open>The same kernel with a full send buffer.\<close>

definition full_platform :: "tp_kernel platform" where
  "full_platform = tp_platform\<lparr>sys_send := \<lambda>k fd d. (- 1, k)\<rparr>"

text \<open>A pair: the application on descriptor 7, its destination on descriptor 9.\<close>

definition sample_proxy :: "tp_role \<Rightarrow> int \<Rightarrow> nat option \<Rightarrow> byte list \<Rightarrow> tp_proxy" where
  "sample_proxy role fd peer buffer =
     \<lparr>te_fd = fd, te_registered = Some fd, te_destroyed = False, tp_role = role, tp_status = TCP_CONNECTED,
      tp_signal = (if peer = None then TPPROXY_CLOSE else TPPROXY_MIN),
      tp_peer = peer, tp_buffer = buffer, tp_max_goodput = filter_new tp_kBandwithWindowSize 0 0,
      tp_read_budget = budget_new 500 False, tp_write_budget = increase_budget (budget_new 500 False) 10, tp_read_alarm = None, tp_write_alarm = None,
      tp_goodput_alarm = alarm_new, tp_goodput_time = 0, tp_read_time = 0, tp_write_time = 0, tp_send_bytes = 0, tp_recv_bytes = 0,
      tp_bytes_acked = 0, tp_sample_count = 0\<rparr>"

definition sample_pair :: "byte list \<Rightarrow> byte list \<Rightarrow> tp_kernel tp_world" where
  "sample_pair incoming buffer =
     \<lparr>ts_listener = None, ts_endpoints = [0 \<mapsto> sample_proxy Tp_Left 7 (Some 1) [], 1 \<mapsto> sample_proxy Tp_Right 9 (Some 0) buffer], ts_next = 2,
      ts_io = \<lparr>tcp_kernel = ([], incoming, False), tcp_log = [], tcp_posted = []\<rparr>\<rparr>"

definition sample_orphan :: "byte list \<Rightarrow> tp_kernel tp_world" where
  "sample_orphan buffer =
     \<lparr>ts_listener = None, ts_endpoints = [1 \<mapsto> sample_proxy Tp_Right 9 None buffer], ts_next = 2,
      ts_io = \<lparr>tcp_kernel = ([], [], False), tcp_log = [], tcp_posted = []\<rparr>\<rparr>"

lemma sample_proxy_fields [simp]:
  "te_fd (sample_proxy role fd peer buffer) = fd" "te_registered (sample_proxy role fd peer buffer) = Some fd"
  "\<not> te_destroyed (sample_proxy role fd peer buffer)" "tp_peer (sample_proxy role fd peer buffer) = peer"
  "tp_buffer (sample_proxy role fd peer buffer) = buffer" "tp_role (sample_proxy role fd peer buffer) = role"
  "tp_signal (sample_proxy role fd peer buffer) = (if peer = None then TPPROXY_CLOSE else TPPROXY_MIN)"
  "tp_alarms_ok (sample_proxy role fd peer buffer)"
  by (simp_all add: sample_proxy_def tp_alarms_ok_def alarm_new_inv)

lemma sample_world_fields [simp]:
  "ts_endpoints (sample_pair i b) 0 = Some (sample_proxy Tp_Left 7 (Some 1) [])"
  "ts_endpoints (sample_pair i b) 1 = Some (sample_proxy Tp_Right 9 (Some 0) b)"
  "ts_endpoints (sample_pair i b) (Suc 0) = Some (sample_proxy Tp_Right 9 (Some 0) b)"
  "ts_endpoints (sample_orphan b) 1 = Some (sample_proxy Tp_Right 9 None b)"
  "ts_endpoints (sample_orphan b) (Suc 0) = Some (sample_proxy Tp_Right 9 None b)"
  "tcp_kernel (ts_io (sample_pair i b)) = ([], i, False)" "tcp_sent fd (ts_io (sample_pair i b)) = []" "tcp_sent fd (ts_io (sample_orphan b)) = []"
  by (simp_all add: sample_pair_def sample_orphan_def tcp_sent_def)

lemma sample_links: "tp_links {} (sample_pair i b)" "b \<noteq> [] \<Longrightarrow> tp_links {} (sample_orphan b)"
  by (auto simp: tp_links_def sample_pair_def sample_orphan_def tp_obj_ok_def split: if_splits)

section \<open>The properties\<close>

text \<open>
  C13: \<open>OnReadEvent\<close> returns and relays.  Whatever the other end sends and however the kernel cuts it, reading
  ends, also at the end of the stream; the bytes read are the next ones of the stream, they join what the
  peer has sent or keeps, behind everything older, and they exceed the budget by less than one buffer.
\<close>

theorem tp_relay:
  assumes "posix P" "streams P inc" "closed_for_good P" "tp_links {} w"
    and "ts_endpoints w j = Some p" "\<not> te_destroyed p" "tp_peer p = Some q" "ts_endpoints w q = Some s"
  shows "\<exists>d w' s'. tp_on_read_event P j (te_fd p) w = Some w' \<and>
    inc (tcp_kernel (ts_io w)) (te_fd p) = d @ inc (tcp_kernel (ts_io w')) (te_fd p) \<and>
    ts_endpoints w' q = Some s' \<and> tcp_sent (te_fd s) (ts_io w') @ tp_buffer s' = tcp_sent (te_fd s) (ts_io w) @ tp_buffer s @ d \<and>
    length (tp_buffer s') \<le> length (tp_buffer s) + length d \<and>
    int (length d) \<le> max 0 (budget_remaining (tp_read_budget p) - 1) + int kBufferSize"
proof -
  obtain d w1 s1 where loop: "tp_read_loop P j (te_fd p) (budget_remaining (tp_read_budget p)) 0 w = Some (0 + int (length d), w1)"
    "inc (tcp_kernel (ts_io w)) = (inc (tcp_kernel (ts_io w1)))(te_fd p := d @ inc (tcp_kernel (ts_io w1)) (te_fd p))"
    "ts_endpoints w1 q = Some s1" "tp_conserves d s (ts_io w) s1 (ts_io w1)" "length (tp_buffer s1) \<le> length (tp_buffer s) + length d"
    "int (length d) \<le> max 0 (budget_remaining (tp_read_budget p) - 0 - 1) + int kBufferSize" "ts_endpoints w1 j \<noteq> None"
    using tp_read_loop_relays [OF assms(1-6) refl assms(7,8), of "budget_remaining (tp_read_budget p)" 0] by blast
  obtain p1 where p1: "ts_endpoints w1 j = Some p1" using loop(7) by auto
  have qj: "q \<noteq> j" using tp_links_live(5) [OF assms(4-7)] by blast
  define w' where "w' = (if d = [] then w1
    else w1\<lparr>ts_endpoints := (ts_endpoints w1)(j \<mapsto> p1\<lparr>tp_read_budget := use_budget (tp_read_budget p1) (int (length d))\<rparr>)\<rparr>)"
  have "tp_on_read_event P j (te_fd p) w = Some w'"
    using assms(5) loop(1) p1 by (simp add: tp_on_read_event_def w'_def on_proxy_def)
  moreover have "ts_io w' = ts_io w1" "ts_endpoints w' q = Some s1" using loop(3) qj by (simp_all add: w'_def)
  ultimately show ?thesis using loop(2,4-6) by (intro exI [of _ d] exI [of _ w'] exI [of _ s1]) (simp add: tp_conserves_def)
qed

theorem tp_relay_witness:
  "\<exists>d w' s'. tp_on_read_event tp_platform 0 7 (sample_pair [1, 2, 3] [9]) = Some w' \<and>
    [1, 2, 3] = d @ tp_inc (tcp_kernel (ts_io w')) 7 \<and> ts_endpoints w' 1 = Some s' \<and> tcp_sent 9 (ts_io w') @ tp_buffer s' = [9] @ d"
proof -
  have 1: "\<not> te_destroyed (sample_proxy Tp_Left 7 (Some 1) [])" "tp_peer (sample_proxy Tp_Left 7 (Some 1) []) = Some 1" by simp_all
  show ?thesis using tp_relay [OF tp_platform_laws(1-3) sample_links(1) sample_world_fields(1) 1 sample_world_fields(2), of "[1, 2, 3]" "[9]"]
    by (auto simp: tp_inc_def)
qed

text \<open>
  C14: In every state that the single-path proxy reaches, a live object is registered for its descriptor and has a
  live peer that names it back, or waits to write its last bytes; a destroyed one is cut off, and exactly those are
  posted for deletion, once each.  So following a peer never meets a deleted object, and the tasks run
  without fault.
\<close>

theorem tp_world_safety:
  assumes "tp_reachable P Q w" "posix P" "never_zero P Q"
  shows "distinct (tcp_posted (ts_io w)) \<and>
    (\<forall>j. j \<in> set (tcp_posted (ts_io w)) \<longleftrightarrow> (\<exists>p. ts_endpoints w j = Some p \<and> te_destroyed p)) \<and>
    (\<forall>j p. ts_endpoints w j = Some p \<longrightarrow> \<not> te_destroyed p \<longrightarrow> te_registered p = Some (te_fd p) \<and> 0 < te_fd p \<and>
      (case tp_peer p of
         Some q \<Rightarrow> \<exists>s. ts_endpoints w q = Some s \<and> \<not> te_destroyed s \<and> tp_peer s = Some j
       | None \<Rightarrow> tp_signal p = TPPROXY_CLOSE \<and> tp_buffer p \<noteq> [])) \<and>
    (\<forall>j p. ts_endpoints w j = Some p \<longrightarrow> te_destroyed p \<longrightarrow> te_registered p = None \<and> te_fd p < 0 \<and> tp_peer p = None) \<and>
    tcp_execute_tasks w = Some (w\<lparr>ts_endpoints := (\<lambda>j. if j \<in> set (tcp_posted (ts_io w)) then None else ts_endpoints w j),
      ts_io := (ts_io w)\<lparr>tcp_posted := []\<rparr>\<rparr>)"
proof -
  have links: "tp_links {} w" using assms by (rule tp_reachable_links)
  have "distinct (tcp_posted (ts_io w))" "\<forall>j. j \<in> set (tcp_posted (ts_io w)) \<longleftrightarrow> (\<exists>p. ts_endpoints w j = Some p \<and> te_destroyed p)"
    using links by (simp_all add: tp_links_def)
  moreover have "te_registered p = Some (te_fd p) \<and> 0 < te_fd p \<and>
      (case tp_peer p of Some q \<Rightarrow> \<exists>s. ts_endpoints w q = Some s \<and> \<not> te_destroyed s \<and> tp_peer s = Some j
       | None \<Rightarrow> tp_signal p = TPPROXY_CLOSE \<and> tp_buffer p \<noteq> [])" if "ts_endpoints w j = Some p" "\<not> te_destroyed p" for j p
    using tp_links_live [OF links that] by (cases "tp_peer p") auto
  ultimately show ?thesis using tp_links_dead [OF links] tp_tasks_eq [OF links] by blast
qed

theorem tp_world_safety_witness:
  "\<exists>w. tp_reachable tp_platform tp_listening w \<and> (\<exists>p s. ts_endpoints w 0 = Some p \<and> ts_endpoints w 1 = Some s \<and> tp_peer p = Some 1 \<and> tp_peer s = Some 0) \<and>
    tcp_execute_tasks w \<noteq> None"
proof -
  let ?w0 = "snd (tcp_server_init tp_platform tp_listening (0, 3333) (tcp_server_new tp_platform ([7], [], False))) :: tp_kernel tp_world"
  note start = tcp_server_init_def tcp_server_new_def ps_create_def ps_set_option_def ps_bind_def ps_listen_def Let_def
  have "tcp_server_init tp_platform tp_listening (0, 3333) (tcp_server_new tp_platform ([7], [], False)) = (True, ?w0)" by (simp add: start)
  then have reach: "tp_reachable tp_platform tp_listening ?w0" by (rule tp_start)
  obtain al where al: "alarm_update alarm_new (1000 + tp_kGoodputInterval) 0 = Some al" using alarm_update_some [OF alarm_new_inv] by blast
  obtain w1 where w1: "tp_handle tp_platform tp_listening (Tp_Listener EPOLLIN) ?w0 = Some w1"
    "\<exists>p s. ts_endpoints w1 0 = Some p \<and> ts_endpoints w1 1 = Some s \<and> tp_peer p = Some 1 \<and> tp_peer s = Some 0"
    apply (simp add: start EPOLLIN_def)
    apply (subst (asm) tp_accept_loop.simps)
    apply (simp add: tp_create_left_def tp_new_def Let_def tp_register_def tp_add_def on_proxy_def tp_asyn_connect_def tp_set_kernel_def al)
    apply (subst (asm) tp_accept_loop.simps)
    apply (simp add: tp_set_kernel_def)
    done
  have "tp_reachable tp_platform tp_listening w1" by (rule tp_step [OF reach w1(1)])
  then show ?thesis using w1(2) tp_world_safety [OF _ tp_platform_laws(1,4), of w1] by auto
qed

text \<open>
  C35: A destination that goes away while bytes for it wait ends the whole process.  An event that says both that the
  connection is broken and that it can be written closes the descriptor and then calls \<open>FlushBuffer\<close>, whose check
  that the buffer of a closed descriptor is empty fails.
\<close>

theorem tp_hangup_aborts:
  assumes "tp_links {} w" "closed_for_good P" "ts_endpoints w j = Some p" "\<not> te_destroyed p" "tp_role p = Tp_Right" "tp_buffer p \<noteq> []"
    and "events AND (EPOLLERR OR EPOLLRDHUP OR EPOLLHUP) \<noteq> 0" "events AND EPOLLOUT \<noteq> 0"
  shows "tp_handle P Q (Tp_Event j events) w = None"
proof -
  have links: "tp_links (insert j {}) w" using tp_links_mono [OF assms(1)] by simp
  obtain w1 p1 where w1: "tp_close_fd P j w = Some w1" "tp_links {} w1" "ts_endpoints w1 j = Some p1" "te_destroyed p1"
    "tp_closed_frame P (te_fd p) w w1" "tp_status p1 = TCP_DISCONNECT" "tp_buffer p1 = tp_buffer p"
    by (rule tp_close_fd_links [OF links assms(3), where P = P]) (use assms(4) in blast)
  have aborts: "tp_on_write_event P j w2 = None" if "ts_endpoints w2 j = Some p1" for w2
    using that tp_links_dead(1) [OF w1(2-4)] w1(7) assms(6)
    by (simp add: tp_on_write_event_def on_proxy_def tp_flush_buffer_def)
  obtain k where read: "sys_read P (tcp_kernel (ts_io w1)) (te_fd p) kBufferSize = (None, k)"
    using w1(5) assms(2) unfolding tp_closed_frame_def by (metis prod.collapse)
  let ?w2 = "w1\<lparr>ts_io := (ts_io w1)\<lparr>tcp_kernel := k\<rparr>\<rparr>"
  have loop: "tp_read_loop P j (te_fd p) target 0 w1 = Some (0, ?w2)" for target
    using read by (subst tp_read_loop.simps) simp
  then have "tp_on_read_event P j (te_fd p) w1 = Some ?w2" using w1(3) by (simp add: tp_on_read_event_def)
  then have "tp_right_on_event P j (te_fd p) events w = None"
    using assms(7,8) w1(1,3,6) aborts by (simp add: tp_right_on_event_def)
  then show ?thesis using assms(3,5) tp_links_live(2) [OF assms(1,3,4)] by simp
qed

theorem tp_hangup_aborts_witness:
  "tp_handle tp_platform tp_listening (Tp_Event 1 (EPOLLHUP OR EPOLLOUT)) (sample_pair [] [1]) = None"
  by (rule tp_hangup_aborts [OF sample_links(1) tp_platform_laws(3) sample_world_fields(2)])
    (simp_all add: EPOLLERR_def EPOLLRDHUP_def EPOLLHUP_def EPOLLOUT_def)

text \<open>
  C24: What a write event does to an object whose peer is gone, for every kernel that keeps the contract of
  \<open>send\<close>, refusals and partial sends included.  A prefix of the buffer goes out, in order, and at least one byte
  exactly when the write budget and the kernel let one; the rest is what the buffer then holds.  While bytes remain
  the object stays as it was, registered for the next write event; with the last byte its descriptor is closed and
  unregistered, its deletion is posted, once, and the next tasks remove it.
\<close>

theorem tp_orphan_drains:
  assumes "tp_links {} w" "posix P" "ts_endpoints w j = Some p" "\<not> te_destroyed p" "tp_peer p = None"
  shows "\<exists>w' p' sent. tp_on_write_event P j w = Some w' \<and> tp_links {} w' \<and> ts_endpoints w' j = Some p' \<and>
    tcp_sent (te_fd p) (ts_io w') = tcp_sent (te_fd p) (ts_io w) @ sent \<and> tp_buffer p = sent @ tp_buffer p' \<and>
    (sent \<noteq> [] \<longleftrightarrow> may_progress P p (tcp_kernel (ts_io w))) \<and>
    (if tp_buffer p' \<noteq> [] then
       \<not> te_destroyed p' \<and> tp_peer p' = None \<and> te_fd p' = te_fd p \<and>
       last (tcp_log (ts_io w')) = Modify_Callback (te_fd p) (EPOLLET OR EPOLLOUT OR EPOLLRDHUP OR EPOLLERR)
     else
       te_fd p' < 0 \<and> te_registered p' = None \<and> distinct (tcp_posted (ts_io w')) \<and> j \<in> set (tcp_posted (ts_io w')) \<and>
       (\<exists>w''. tcp_execute_tasks w' = Some w'' \<and> ts_endpoints w'' j = None))"
proof -
  note live = tp_links_live [OF assms(1,3,4)]
  have buffer: "tp_buffer p \<noteq> []" and close: "tp_signal p = TPPROXY_CLOSE" using live(4) [OF assms(5)] by simp_all
  obtain p1 io1 sent where p1: "tp_flush_buffer P p (ts_io w) = Some (p1, io1)" "tp_buffer p = sent @ tp_buffer p1"
    "tcp_sent (te_fd p) io1 = tcp_sent (te_fd p) (ts_io w) @ sent" "sent \<noteq> [] \<longleftrightarrow> may_progress P p (tcp_kernel (ts_io w))"
    "tp_quiet P p (ts_io w) p1 io1"
    by (rule tp_flush_buffer_sends [OF assms(2) _ buffer]) (use live(1) in simp)
  define io2 where "io2 = endpoint_modify p1 (te_fd p1)
    (if tp_buffer p1 \<noteq> [] then EPOLLET OR EPOLLOUT OR EPOLLRDHUP OR EPOLLERR else EPOLLET OR EPOLLRDHUP OR EPOLLERR) io1"
  define w1 where "w1 = w\<lparr>ts_endpoints := (ts_endpoints w)(j \<mapsto> p1), ts_io := io2\<rparr>"
  have quiet: "tp_quiet P p (ts_io w) p1 io2" using p1(5) by (simp add: tp_quiet_def io2_def)
  have same: "te_fd p1 = te_fd p" "te_registered p1 = te_registered p" "te_destroyed p1 = te_destroyed p"
    "tp_signal p1 = tp_signal p" "tp_peer p1 = tp_peer p" using quiet by (simp_all add: tp_quiet_def tp_link_def)
  have at: "ts_endpoints w1 j = Some p1" by (simp add: w1_def)
  have run: "tp_on_write_event P j w = tp_check_close_fd P j w1"
    using assms(3) p1(1) by (simp add: tp_on_write_event_def on_proxy_def io2_def w1_def)
  have sent: "tcp_sent (te_fd p) (ts_io w1) = tcp_sent (te_fd p) (ts_io w) @ sent" using p1(3) by (simp add: w1_def io2_def)
  show ?thesis
  proof (cases "tp_buffer p1 = []")
    case False
    have "tp_links {} w1" unfolding w1_def by (rule tp_links_quiet [OF assms(1,3) quiet]) (use False in auto)
    moreover have "tp_on_write_event P j w = Some w1" using run at False by (simp add: tp_check_close_fd_def tp_should_close_def)
    moreover have "last (tcp_log (ts_io w1)) = Modify_Callback (te_fd p) (EPOLLET OR EPOLLOUT OR EPOLLRDHUP OR EPOLLERR)"
      using False live(2) same by (simp add: w1_def io2_def endpoint_modify_def tcp_event_def)
    ultimately show ?thesis using at sent p1(2,4) False same assms(4,5) by (intro exI [of _ w1] exI [of _ p1] exI [of _ sent]) simp
  next
    case True
    have links1: "tp_links (insert j {}) w1" unfolding w1_def by (rule tp_links_quiet [OF assms(1,3) quiet]) auto
    obtain w' p' where w': "tp_close_fd P j w1 = Some w'" "tp_links {} w'" "ts_endpoints w' j = Some p'" "te_destroyed p'"
      "tp_closed_frame P (te_fd p1) w1 w'" "tp_buffer p' = tp_buffer p1" "j \<in> set (tcp_posted (ts_io w'))"
      by (rule tp_close_fd_links [OF links1 at, where P = P]) (use same(3) assms(4) in blast)
    have "tp_on_write_event P j w = Some w'" using run at True close same(4) w'(1) by (simp add: tp_check_close_fd_def tp_should_close_def)
    moreover have "tcp_sent (te_fd p) (ts_io w') = tcp_sent (te_fd p) (ts_io w1)" using w'(5) by (simp add: tp_closed_frame_def)
    moreover have "distinct (tcp_posted (ts_io w'))" using w'(2) by (simp add: tp_links_def)
    ultimately show ?thesis using tp_links_dead(1,2) [OF w'(2-4)] w'(2,3,6-) tp_tasks_eq [OF w'(2)] sent p1(2,4) True
      by (intro exI [of _ w'] exI [of _ p'] exI [of _ sent]) simp
  qed
qed

theorem tp_orphan_drains_witness:
  "(\<exists>w' w''. tp_on_write_event tp_platform 1 (sample_orphan [1]) = Some w' \<and> tcp_sent 9 (ts_io w') = [1] \<and>
    tcp_execute_tasks w' = Some w'' \<and> ts_endpoints w'' 1 = None) \<and>
  (\<exists>w' p'. tp_on_write_event full_platform 1 (sample_orphan [1, 2]) = Some w' \<and> tcp_sent 9 (ts_io w') = [] \<and>
    ts_endpoints w' 1 = Some p' \<and> \<not> te_destroyed p' \<and> tp_buffer p' = [1, 2])"
proof -
  have links: "tp_links {} (sample_orphan [1])" "tp_links {} (sample_orphan [1, 2])" by (simp_all add: sample_links)
  have p: "\<not> te_destroyed (sample_proxy Tp_Right 9 None b)" "tp_peer (sample_proxy Tp_Right 9 None b) = None" for b by simp_all
  have full: "posix full_platform" unfolding posix_def
  proof
    show "\<forall>k fd d. fst (sys_send full_platform k fd d) \<le> int (length d)" by (simp add: full_platform_def)
    have "sys_read full_platform = sys_read tp_platform" by (simp add: full_platform_def)
    then show "\<forall>k fd n d. fst (sys_read full_platform k fd n) = Some d \<longrightarrow> length d \<le> n"
      using tp_platform_laws(1) unfolding posix_def by (metis (no_types))
  qed
  have can: "may_progress tp_platform (sample_proxy Tp_Right 9 None [1]) k" "\<not> may_progress full_platform (sample_proxy Tp_Right 9 None [1, 2]) k" for k
    by (simp_all add: may_progress_def tp_can_send_def full_platform_def sample_proxy_def budget_new_def set_target_rate_kbps_def
        increase_budget_def budget_remaining_def kWindowMs_def kBufferSize_def Let_def sdiv8)
  have one: "sent = [1] \<and> rest = []" if "[1] = sent @ rest" "sent \<noteq> []" for sent rest :: "byte list" using that by (cases sent) auto
  have "\<exists>w' w''. tp_on_write_event tp_platform 1 (sample_orphan [1]) = Some w' \<and> tcp_sent 9 (ts_io w') = [1] \<and>
    tcp_execute_tasks w' = Some w'' \<and> ts_endpoints w'' 1 = None"
    using tp_orphan_drains [OF links(1) tp_platform_laws(1) sample_world_fields(4) p] can(1) by (auto dest!: one)
  moreover have "\<exists>w' p'. tp_on_write_event full_platform 1 (sample_orphan [1, 2]) = Some w' \<and> tcp_sent 9 (ts_io w') = [] \<and>
    ts_endpoints w' 1 = Some p' \<and> \<not> te_destroyed p' \<and> tp_buffer p' = [1, 2]"
    using tp_orphan_drains [OF links(2) full sample_world_fields(4) p] can(2) by (auto split: if_splits)
  ultimately show ?thesis by blast
qed

text \<open>But data that such an object still reads end the process.\<close>

theorem tp_orphan_read_aborts:
  assumes "ts_endpoints w j = Some p" "tp_peer p = None" "sys_read P (tcp_kernel (ts_io w)) fd kBufferSize = (Some d, k)" "d \<noteq> []"
  shows "tp_on_read_event P j fd w = None"
proof -
  have "tp_read_loop P j fd target 0 w = None" for target
    using assms by (subst tp_read_loop.simps) (simp add: on_proxy_def)
  then show ?thesis using assms(1) by (simp add: tp_on_read_event_def)
qed

end
