(* ===== verification/Tcp_Client.thy ===== *)
theory Tcp_Client
  imports Dash_Serving
begin

text \<open>
  \<open>TcpClient\<close> (\<open>tcp/tcp_client.h\<close>, \<open>tcp/tcp_client.cc\<close>), which drives the example server: it connects, writes twelve
  buffers of its stack (\<open>stack\<close>) and closes.  What the writes return is ignored; \<open>getsockopt\<close> is only printed.
\<close>

record tcp_client =
  tc_fd :: int
  tc_registered :: "int option"
  tc_status :: tcp_status
  tc_count :: int

definition tc_new :: tcp_client where
  "tc_new = \<lparr>tc_fd = - 1, tc_registered = None, tc_status = TCP_STATUS_MIN, tc_count = 0\<rparr>"

definition tc_close :: "'k platform \<Rightarrow> tcp_client \<Rightarrow> 'k tcp_io \<Rightarrow> tcp_client \<times> 'k tcp_io" where
  "tc_close P c io =
     (if 0 < tc_fd c
      then (c\<lparr>tc_status := TCP_DISCONNECT, tc_fd := - 1\<rparr>,
            tcp_event (Close_Fd (tc_fd c)) (io\<lparr>tcp_kernel := sys_close P (tcp_kernel io) (tc_fd c)\<rparr>))
      else (c, io))"

definition tc_unregister :: "tcp_client \<Rightarrow> 'k tcp_io \<Rightarrow> tcp_client \<times> 'k tcp_io" where
  "tc_unregister c io =
     (if tc_registered c = Some (tc_fd c) then (c\<lparr>tc_registered := None\<rparr>, tcp_event (Unregister_Fd (tc_fd c)) io) else (c, io))"

definition tc_leave :: "'k platform \<Rightarrow> tcp_client \<Rightarrow> 'k tcp_io \<Rightarrow> tcp_client \<times> 'k tcp_io" where
  "tc_leave P c io = (let (c1, io1) = tc_unregister c io in tc_close P c1 io1)"

definition tc_asyn_connect ::
  "'k platform \<Rightarrow> sock_addr \<Rightarrow> sock_addr \<Rightarrow> tcp_client \<Rightarrow> 'k tcp_io \<Rightarrow> bool \<times> tcp_client \<times> 'k tcp_io" where
  "tc_asyn_connect P local remote c io =
     (let (fd, k) = sys_socket P (tcp_kernel io); c1 = c\<lparr>tc_fd := fd\<rparr>
      in if fd < 0 then (False, c1, io\<lparr>tcp_kernel := k\<rparr>)
         else let (reuse, k1) = sys_reuse_addr P k fd
         in if \<not> reuse then (False, tc_close P c1 (io\<lparr>tcp_kernel := k1\<rparr>))
         else let (bound, k2) = sys_bind P k1 fd local
         in if \<not> bound then (False, tc_close P c1 (io\<lparr>tcp_kernel := k2\<rparr>))
         else let c2 = c1\<lparr>tc_registered := Some fd\<rparr>;
                  (res, k3) = sys_connect P k2 fd remote;
                  io3 = (tcp_event (Register_Fd fd (EPOLLOUT OR EPOLLIN OR EPOLLRDHUP OR EPOLLERR OR EPOLLET)) io)\<lparr>tcp_kernel := k3\<rparr>
         in if res = Connect_Again then (False, tc_leave P c2 io3)
         else (True, c2\<lparr>tc_status := TCP_CONNECTING\<rparr>, io3))"

primrec tc_write_loop :: "'k platform \<Rightarrow> ('k \<Rightarrow> byte list) \<Rightarrow> int \<Rightarrow> nat \<Rightarrow> 'k tcp_io \<Rightarrow> 'k tcp_io" where
  "tc_write_loop P stack fd 0 io = io"
| "tc_write_loop P stack fd (Suc i) io =
     (let buffer = stack (tcp_kernel io); (n, k) = sys_send P (tcp_kernel io) fd buffer
      in tc_write_loop P stack fd i (tcp_event (Send fd (take (nat n) buffer)) (io\<lparr>tcp_kernel := k\<rparr>)))"

definition tc_on_can_write :: "'k platform \<Rightarrow> ('k \<Rightarrow> byte list) \<Rightarrow> tcp_client \<Rightarrow> 'k tcp_io \<Rightarrow> tcp_client \<times> 'k tcp_io" where
  "tc_on_can_write P stack c io = tc_leave P c (tc_write_loop P stack (tc_fd c) 12 io)"

definition tc_on_event :: "'k platform \<Rightarrow> ('k \<Rightarrow> byte list) \<Rightarrow> 32 word \<Rightarrow> tcp_client \<Rightarrow> 'k tcp_io \<Rightarrow> tcp_client \<times> 'k tcp_io" where
  "tc_on_event P stack events c io =
     (let (c1, io1) = (if events AND (EPOLLERR OR EPOLLRDHUP OR EPOLLHUP) \<noteq> 0 then tc_leave P c io else (c, io));
          (c2, io2) = (if events AND EPOLLOUT \<noteq> 0 \<and> tc_status c1 = TCP_CONNECTING then
             tc_on_can_write P stack (c1\<lparr>tc_status := TCP_CONNECTED\<rparr>)
               (if tc_registered c1 = Some (tc_fd c1)
                then tcp_event (Modify_Callback (tc_fd c1) (EPOLLIN OR EPOLLRDHUP OR EPOLLERR OR EPOLLET)) io1 else io1)
           else (c1, io1))
      in (c2\<lparr>tc_count := tc_count c2 + 1\<rparr>, io2))"

definition tc_on_shutdown :: "'k platform \<Rightarrow> tcp_client \<Rightarrow> 'k tcp_io \<Rightarrow> tcp_client \<times> 'k tcp_io" where
  "tc_on_shutdown P c io = tc_close P c io"

definition tc_destroy :: "'k platform \<Rightarrow> tcp_client \<Rightarrow> 'k tcp_io \<Rightarrow> tcp_client \<times> 'k tcp_io" where
  "tc_destroy P c io = tc_leave P (c\<lparr>tc_status := TCP_DISCONNECT\<rparr>) io"

text \<open>The events that the epoll server delivers, which are none when the client is not registered.\<close>

primrec tc_run :: "'k platform \<Rightarrow> ('k \<Rightarrow> byte list) \<Rightarrow> 32 word list \<Rightarrow> tcp_client \<Rightarrow> 'k tcp_io \<Rightarrow> tcp_client \<times> 'k tcp_io" where
  "tc_run P stack [] c io = (c, io)"
| "tc_run P stack (m # ms) c io =
     (if tc_registered c = None then (c, io) else let (c1, io1) = tc_on_event P stack m c io in tc_run P stack ms c1 io1)"

section \<open>Its life\<close>

definition closes :: "int \<Rightarrow> 'k tcp_io \<Rightarrow> nat" where
  "closes fd io = length (filter (\<lambda>e. e = Close_Fd fd) (tcp_log io))"

lemma closes_simps [simp]:
  "closes fd (tcp_event e io) = closes fd io + (if e = Close_Fd fd then 1 else 0)" "closes fd (io\<lparr>tcp_kernel := k\<rparr>) = closes fd io"
  by (simp_all add: closes_def tcp_event_def)

lemma sent_event_other [simp]: "sent_event fd (Close_Fd i) = []" "sent_event fd (Register_Fd i m) = []" "sent_event fd (Unregister_Fd i) = []"
  "sent_event fd (Modify_Callback i m) = []" "sent_event fd (Send fd d) = d"
  by (simp_all add: sent_event_def)

lemma tc_write_loop_bounds:
  assumes full: "stack_full stack"
  shows "closes i (tc_write_loop P stack fd n io) = closes i io \<and>
    length (tcp_sent fd (tc_write_loop P stack fd n io)) \<le> length (tcp_sent fd io) + n * kBufferSize"
proof (induction n arbitrary: io)
  case (Suc n)
  obtain m k where send: "sys_send P (tcp_kernel io) fd (stack (tcp_kernel io)) = (m, k)" by fastforce
  let ?io = "tcp_event (Send fd (take (nat m) (stack (tcp_kernel io)))) (io\<lparr>tcp_kernel := k\<rparr>)"
  have "length (take (nat m) (stack (tcp_kernel io))) \<le> kBufferSize" using full by (simp add: stack_full_def)
  then show ?case using Suc [of ?io] by (auto simp: send)
qed simp

text \<open>The client waits for its connection, or it has closed.\<close>

definition tc_inv :: "int \<Rightarrow> tcp_client \<Rightarrow> 'k tcp_io \<Rightarrow> bool" where
  "tc_inv fd c io \<longleftrightarrow>
     tc_fd c = fd \<and> tc_registered c = Some fd \<and> tc_status c = TCP_CONNECTING \<and> closes fd io = 0 \<and> tcp_sent fd io = [] \<or>
     tc_fd c = - 1 \<and> tc_registered c = None \<and> tc_status c = TCP_DISCONNECT \<and> closes fd io = 1 \<and> length (tcp_sent fd io) \<le> 12 * kBufferSize"

lemmas tc_defs = tc_leave_def tc_unregister_def tc_close_def

lemma tc_on_event_inv: "0 < fd \<Longrightarrow> stack_full stack \<Longrightarrow> tc_inv fd c io \<Longrightarrow> tc_on_event P stack m c io = (c', io') \<Longrightarrow> tc_inv fd c' io'"
  using tc_write_loop_bounds [of stack fd P fd 12 "tcp_event (Modify_Callback fd (EPOLLIN OR EPOLLRDHUP OR EPOLLERR OR EPOLLET)) io"]
  by (auto simp: tc_inv_def tc_on_event_def tc_on_can_write_def tc_defs Let_def split: if_splits)

lemma tc_run_inv: "0 < fd \<Longrightarrow> stack_full stack \<Longrightarrow> tc_inv fd c io \<Longrightarrow> tc_run P stack ms c io = (c', io') \<Longrightarrow> tc_inv fd c' io'"
proof (induction ms arbitrary: c io)
  case (Cons m ms)
  obtain c1 io1 where "tc_on_event P stack m c io = (c1, io1)" by fastforce
  then show ?case using Cons tc_on_event_inv [of fd stack c io P m c1 io1] by (auto split: if_splits)
qed simp

lemma tc_asyn_connect_inv:
  "tc_asyn_connect P local remote tc_new io = (ok, c, io') \<Longrightarrow> sys_socket P (tcp_kernel io) = (fd, k) \<Longrightarrow> 0 < fd \<Longrightarrow> tcp_log io = [] \<Longrightarrow>
    tc_inv fd c io' \<and> (ok \<longleftrightarrow> tc_status c = TCP_CONNECTING)"
  by (auto simp: tc_asyn_connect_def tc_new_def tc_defs Let_def tc_inv_def closes_def tcp_event_def tcp_sent_def kBufferSize_def sent_event_def
      split: prod.splits if_splits)

text \<open>
  Whatever the kernel and the events do, the descriptor that the client opens is closed exactly once, is not
  registered any more after that, and carries twelve buffers at most.
\<close>

theorem tcp_client_life:
  assumes "tc_asyn_connect P local remote tc_new io = (ok, c, io1)" "sys_socket P (tcp_kernel io) = (fd, k)" "0 < fd" "tcp_log io = []" "stack_full stack"
    and "tc_run P stack ms c io1 = (c2, io2)" "tc_destroy P c2 io2 = (c3, io3)"
  shows "tc_fd c3 = - 1 \<and> tc_registered c3 = None \<and> closes fd io3 = 1 \<and> length (tcp_sent fd io3) \<le> 12 * kBufferSize"
proof -
  have "tc_inv fd c io1" using tc_asyn_connect_inv [OF assms(1-4)] by simp
  then have "tc_inv fd c2 io2" by (rule tc_run_inv [OF assms(3,5) _ assms(6)])
  then show ?thesis using assms(3,7) by (auto simp: tc_inv_def tc_destroy_def tc_defs Let_def split: if_splits)
qed

end
