(* ===== verification/Spec2Isabelle.thy ===== *)
theory Spec2Isabelle
  imports Interval_Properties Buffer_Properties Codec_Properties Timing_Properties Epoll_Properties Proxy_Properties Proxy_Lifecycle
    Octopus_Properties Octopus_Faults Dash_Properties Dash_Client_Properties Dash_Algorithm_Properties
    Tpproxy_Properties Tcp_Client
begin

text \<open>
  Verification of the transport libraries of this repository: the multipath and the single-path proxy (\<open>tpproxy/\<close>), the Octopus relay
  (\<open>octopus/\<close>), the DASH streaming server and client (\<open>dash/\<close>) over the listening server of \<open>tcp/\<close>, the stream reassembly
  of \<open>sequencer/\<close>, and the event loop, clock and
  codec of \<open>base/\<close> under them.

  \<^bold>\<open>The program.\<close>  A proxy has two halves.  The client half accepts the connections of applications, the
  server half opens the connections to their destinations; between the halves every stream travels over
  several TCP connections.  \<open>TpServerBase\<close> reads the application's socket, cuts what it reads
  into frames of offset, length and payload and hands them to connections
  (\<open>TcpConnectionBase\<close>); at the other end each connection takes frames apart again and the peer's
  \<open>TpServerBase\<close> puts them into a \<open>QuicStreamSequencer\<close>, which stores them in a circular buffer, keeps the
  received offsets in a \<open>QuicIntervalSet\<close>, and writes what is next in order to its socket.  The
  Octopus relay does the same over one connection per stream, with dispatchers and hands.  All of it runs
  in one thread around \<open>SimpleEpollServer\<close>, which calls back for descriptors and alarms;
  objects delete themselves by posting a task to \<open>BaseContext\<close>.

  \<^bold>\<open>Theories and sources.\<close>
  \<^item> \<open>Prelude\<close>: 64-bit arithmetic on \<^typ>\<open>nat\<close>, byte memory, failed checks as \<^term>\<open>None\<close>.
  \<^item> \<open>Quic_Interval\<close>, \<open>Quic_Interval_Set\<close>, \<open>Interval_Set_Lookup\<close>, \<open>Interval_Set_Algebra\<close>
    (\<open>sequencer/quic_interval.h\<close>, \<open>quic_interval_set.h\<close>): a \<open>std::set\<close> ordered by \<open>IntervalLess\<close> is its sorted list, an
    iterator a suffix of it.  \<open>Range_Store\<close> is the contract (locale \<open>range_store\<close>) that the
    buffer needs of it, interpreted by \<open>iset_store\<close>.  \<open>Interval_Properties\<close>: every operation computes the points it promises and keeps the set valid.
  \<^item> \<open>Sequencer_Buffer\<close> (\<open>quic_stream_sequencer_buffer.cc\<close>): blocks are entries of a list, \<^term>\<open>None\<close> where the code has a null pointer.
    \<open>Buffer_Geometry\<close>, \<open>Buffer_Receive\<close>, \<open>Buffer_Consume\<close>, \<open>Buffer_Regions\<close>: the invariant of the buffer, and the stream it
    represents.  \<open>Buffer_Properties\<close>: what each operation does to that stream.
  \<^item> \<open>Stream_Sequencer\<close> (\<open>quic_stream_sequencer.cc\<close>): over the callbacks of \<open>StreamInterface\<close>, a record of functions.
    \<open>Sequencer_Delivery\<close>: the locale \<open>stream_reader\<close> of an owner that reads what it is told about, who gets the stream
    in order whatever the order of frames.
  \<^item> \<open>Byte_Codec\<close>, \<open>Codec_Laws\<close>, \<open>Codec_Properties\<close> (\<open>base/byte_codec.cc\<close>): reader, writer and the wire formats as functions.
  \<^item> \<open>Base_Time\<close>, \<open>Interval_Budget\<close>, \<open>Windowed_Filter\<close>, \<open>Timing_Properties\<close> (\<open>base/base_time.h\<close>, \<open>base_alarm.cc\<close>,
    \<open>tpproxy/bandwidth.h\<close>, \<open>interval_budget.cc\<close>, \<open>windowed_filter.h\<close>).
  \<^item> \<open>Epoll_Server\<close>, \<open>Epoll_Laws\<close>, \<open>Epoll_Alarms\<close>, \<open>Epoll_Properties\<close> (\<open>base/simple_epoll_server.cc\<close>): what a callback does is a list of commands to the
    server; the tables agree after each of them, and a turn of the loop ends.  \<open>Epoll_Alarms\<close> also holds \<open>QuicEpollAlarm\<close>
    (\<open>base_epoll_alarm_factory.cc\<close>) on these tables, which the alarms of \<open>Base_Time\<close>, used by the other parts, are proved to stand for.
  \<^item> \<open>Proxy_Socket\<close>, \<open>Proxy_Framing\<close>, \<open>Proxy_Connection\<close>, \<open>Proxy_Server\<close>, \<open>Proxy_World\<close> (\<open>tpproxy/mpproxy_types.cc\<close>, \<open>mpproxy_client.cc\<close>,
    \<open>mpproxy_server.cc\<close>): a socket, its framing, the two base classes, and the objects of a process with the calls
    between them.  A pointer is a key of the world's maps; following one to an object that is gone
    has no result.  \<open>Server_Send\<close>, \<open>Server_Receive\<close>, \<open>Proxy_Handshake\<close>, \<open>Read_Loops\<close>, \<open>Proxy_Progress\<close>, \<open>Proxy_Safety\<close>, \<open>World_Invariant\<close>: their
    laws and the invariant of reachable worlds.  \<open>Proxy_Properties\<close>, \<open>Proxy_Lifecycle\<close>: the properties.
  \<^item> \<open>Octopus_Base\<close>, \<open>Octopus_Hand\<close>, \<open>Octopus_World\<close> (\<open>octopus/octopus_base.cc\<close>): buffered sockets, hands, dispatchers and the
    session table.  \<open>Octopus_Laws\<close>, \<open>Octopus_Relay\<close>, \<open>Octopus_Flow\<close>: bytes are conserved through every loop (locale \<open>upstream\<close>, interpreted for
    both kinds of hand).  \<open>Octopus_Safety\<close>, \<open>Octopus_Reach\<close>: the invariant of reachable processes.  \<open>Octopus_Session\<close>,
    \<open>Octopus_Properties\<close>, \<open>Octopus_Faults\<close>: opening a session, the properties, and the orders of events that end badly.
  \<^item> \<open>Tcp_Server\<close>, \<open>Tcp_Endpoints\<close> (\<open>tcp/tcp_handle.cc\<close>, \<open>tcp_server.cc\<close>): the listening server over any class of endpoints; the
    locale \<open>tcp_endpoints\<close> is the contract of a class, interpreted for \<open>MockEndpoint\<close> and \<open>DashServerEndpoint\<close>.
  \<^item> \<open>Dash_Server\<close>, \<open>Dash_Serving\<close>, \<open>Dash_Properties\<close> (\<open>dash/dash_server.cc\<close>): queued requests and the bytes owed for them.
    \<open>Dash_Client\<close>, \<open>Dash_Client_Laws\<close>, \<open>Dash_Playing\<close>, \<open>Dash_Client_Properties\<close> (\<open>dash/dash_client.cc\<close>): requesting, receiving
    and playing segments, over any adaptation algorithm; the invariant of the reachable states, and runs to the end of the video.
    \<open>Dash_Algorithm\<close>, \<open>Dash_Adaptation\<close>, \<open>Dash_Adaptation_Laws\<close>, \<open>Dash_Algorithm_Properties\<close> (\<open>dash/dash_algorithm.cc\<close>): the algorithms, over a
    record of the operations of \<open>double\<close>.
  \<^item> \<open>Tpproxy_Server\<close> (\<open>tpproxy/tpproxy_server.cc\<close>): the single-path proxy, pairs of endpoints of the listening server that send what
    the other one reads.  \<open>Tpproxy_Laws\<close>: what an operation on one object leaves alone, and that its bytes are conserved.  \<open>Tpproxy_Links\<close>,
    \<open>Tpproxy_Safety\<close>, \<open>Tpproxy_Accept\<close>: peers name each other, through closing, every handler, and accepting, which is total.
    \<open>Tpproxy_Relay\<close>, \<open>Tpproxy_Properties\<close>: reading relays and ends, the last bytes are written, and the events that end the process.
  \<^item> \<open>Tcp_Client\<close> (\<open>tcp/tcp_client.cc\<close>): the client of the example server, and that it closes what it opens once.
  \<^item> \<open>Random_Source\<close>, \<open>Random_Laws\<close>, \<open>Random_Properties\<close> (\<open>base/random.cc\<close>): the Mersenne twister on 32-bit words, and the recurrence that it computes.
  \<^item> \<open>Sample_States\<close>, \<open>Sample_Proxy\<close>, \<open>Sample_Octopus\<close>, \<open>Sample_Dash\<close>: concrete states and platforms on which the properties are instantiated.

  \<^bold>\<open>Conventions.\<close>  \<^term>\<open>None\<close> is a failed \<open>CHECK\<close>, undefined behaviour, or a loop that does not end.
  \<open>uint64_t\<close> is \<^typ>\<open>nat\<close> with the wrap-around written out, flags and addresses are words.  The operating system is
  a record of functions over an abstract state (\<open>'k platform\<close>, \<open>'k octo_platform\<close>); what it is told is kept as a log.
  Hypotheses on it are documented behaviour: \<open>send\<close> and \<open>read\<close> report no more than they were given or asked for
  (\<open>posix\<close>, \<open>octo_posix\<close>), a descriptor is a stream of bytes (\<open>reads\<close>, \<open>octo_streams\<close>, \<open>streams\<close>), a closed one
  cannot be read (\<open>closed_fails\<close>, \<open>closed_for_good\<close>), descriptor zero is in use elsewhere (\<open>never_zero\<close>), and, for progress only, that \<open>send\<close> accepts something (\<open>accepting\<close>).
  The callbacks of the event loop are a parameter too: they are assumed to set alarms as \<open>QuicEpollAlarm\<close> does and to set
  none for the past (\<open>event_client\<close>, \<open>alarm_client\<close>).

  \<^bold>\<open>Loops.\<close>  A loop whose measure is evident is a \<open>function\<close> with its termination proof (segments to send,
  bytes within a budget).  The others are \<open>partial_function (option)\<close>, and that they return is proved: the loops over two
  interval sets, copying, reading and consuming in the buffer for every state of the invariant, the delivery of
  frames, the reading loops of connections, servers and hands for a kernel with finitely many bytes, the alarm round for callbacks
  that set alarms for the time of the round itself only finitely often (a rank on the alarms).  There is no fuel.

  \<^bold>\<open>Not modelled.\<close>  Vendored code (\<open>base/cmdline.h\<close>, \<open>base/string_view.h\<close>, \<open>base/base_ini.c\<close>), logging and the texts of errors, generated files
  (\<open>build/\<close>), tests and tools, the ARP tools and the start of the processes (options, signals, pid file): they are input and output or only
  construct objects.  \<open>base/ip_address.cc\<close> and \<open>socket_address.cc\<close> wrap structures of the operating system; addresses are pairs here.
  Floating point enters as parameters (\<open>gain_scale\<close>, \<open>ratio_share\<close>, \<open>'d arith\<close>) of which nothing is assumed.  Threads other than the
  event loop's, and the mutex of the task queue, are outside: every operation runs in the loop.  The files of segment sizes and the final score of a
  session are input and output.
\<close>

end
